(* ===== verification/PyPrelude.thy ===== *)
theory PyPrelude
  imports Main "HOL-Library.AList" "HOL-Library.Word"
begin

text \<open>
  The prelude of the development: the fragment of Python's data model that the emulator's engines
  use, and the lemmas about it that every component shares.

    \<^item> exceptions are values of \<open>pyerr + 'a\<close>;
    \<^item> a \<open>dict\<close> whose iteration order matters is an association list with Python's ordering: storing
      under a key that is present keeps its place, a new key goes to the end;
    \<^item> a \<open>set\<close> that the code iterates over is a duplicate-free list; the order of the list is the
      (unspecified) iteration order, and the theorems hold for every order;
    \<^item> \<open>str\<close> is \<open>string\<close>, restricted to the ASCII range: splitting, stripping, lower-casing and the
      decimal conversions \<open>int(s)\<close> and \<open>str(n)\<close>;
    \<^item> the interface locales that several engines implement.
\<close>

unbundle bit_operations_syntax

named_theorems dict_simps "lookups after dictionary stores and deletions"

subsection \<open>Exceptions\<close>

datatype pyerr = ValueError | IndexError | KeyError | TypeError | ZeroDivisionError |
  OverflowError | StructError | OSError

type_synonym 'a res = "pyerr + 'a"

definition res_of :: "pyerr \<Rightarrow> 'a option \<Rightarrow> 'a res" where
  "res_of e x = (case x of None \<Rightarrow> Inl e | Some y \<Rightarrow> Inr y)"

text \<open>The value of a \<open>try: ... except Exception: return d\<close> block.\<close>

definition except :: "'a \<Rightarrow> 'a res \<Rightarrow> 'a" where
  "except d r = (case r of Inl _ \<Rightarrow> d | Inr x \<Rightarrow> x)"

lemma except_simps [simp]: "except d (Inl e) = d" "except d (Inr x) = x"
  by (simp_all add: except_def)

primrec res_bind :: "'a res \<Rightarrow> ('a \<Rightarrow> 'b res) \<Rightarrow> 'b res" where
  "res_bind (Inl e) f = Inl e"
| "res_bind (Inr x) f = f x"

fun res_map :: "('a \<Rightarrow> 'b res) \<Rightarrow> 'a list \<Rightarrow> 'b list res" where
  "res_map f [] = Inr []"
| "res_map f (x # xs) = res_bind (f x) (\<lambda>y. res_bind (res_map f xs) (\<lambda>ys. Inr (y # ys)))"

lemma res_bind_Inr: "res_bind r f = Inr y \<longleftrightarrow> (\<exists>x. r = Inr x \<and> f x = Inr y)"
  by (cases r) simp_all

lemma res_map_mem: "res_map f xs = Inr ys \<Longrightarrow> y \<in> set ys \<Longrightarrow> \<exists>x\<in>set xs. f x = Inr y"
proof (induction xs arbitrary: ys)
  case (Cons x xs)
  then obtain z zs where "f x = Inr z" "res_map f xs = Inr zs" "ys = z # zs"
    by (cases "f x"; cases "res_map f xs") auto
  with Cons show ?case by auto
qed simp

text \<open>\<open>xs[i]\<close>: a negative index counts from the end.\<close>

definition py_nth :: "'a list \<Rightarrow> int \<Rightarrow> 'a res" where
  "py_nth xs i =
     (if 0 \<le> i \<and> i < int (length xs) then Inr (xs ! nat i)
      else if i < 0 \<and> - int (length xs) \<le> i then Inr (xs ! nat (int (length xs) + i))
      else Inl IndexError)"

text \<open>Python's truth value of an optional string.\<close>

definition truthy :: "string option \<Rightarrow> bool" where
  "truthy s \<longleftrightarrow> s \<noteq> None \<and> s \<noteq> Some []"

subsection \<open>Dictionaries\<close>

type_synonym ('k, 'v) dict = "('k \<times> 'v) list"

definition dget :: "('k, 'v) dict \<Rightarrow> 'k \<Rightarrow> 'v option" where
  "dget d k = map_of d k"

definition dset :: "('k, 'v) dict \<Rightarrow> 'k \<Rightarrow> 'v \<Rightarrow> ('k, 'v) dict" where
  "dset d k v = AList.update k v d"

definition dpop :: "('k, 'v) dict \<Rightarrow> 'k \<Rightarrow> ('k, 'v) dict" where
  "dpop d k = AList.delete k d"

definition dget_or :: "('k, 'v) dict \<Rightarrow> 'k \<Rightarrow> 'v \<Rightarrow> 'v" where
  "dget_or d k v = (case dget d k of None \<Rightarrow> v | Some w \<Rightarrow> w)"

definition dkeys :: "('k, 'v) dict \<Rightarrow> 'k list" where
  "dkeys d = map fst d"

definition dvals :: "('k, 'v) dict \<Rightarrow> 'v list" where
  "dvals d = map snd d"

definition dict_ok :: "('k, 'v) dict \<Rightarrow> bool" where
  "dict_ok d \<longleftrightarrow> distinct (map fst d)"

lemma dget_Nil [simp]: "dget [] k = None"
  by (simp add: dget_def)

lemma dget_Cons [simp]: "dget ((k', v) # d) k = (if k = k' then Some v else dget d k)"
  by (simp add: dget_def)

lemma dget_dset [simp, dict_simps]: "dget (dset d k v) k' = (if k' = k then Some v else dget d k')"
  by (simp add: dget_def dset_def update_conv')

lemma dget_dpop [simp, dict_simps]: "dget (dpop d k) k' = (if k' = k then None else dget d k')"
  by (simp add: dget_def dpop_def delete_conv')

lemma dict_ok_Nil [simp]: "dict_ok []"
  by (simp add: dict_ok_def)

lemma dict_ok_dset [simp]: "dict_ok d \<Longrightarrow> dict_ok (dset d k v)"
  by (simp add: dict_ok_def dset_def distinct_update)

lemma dict_ok_dpop [simp]: "dict_ok d \<Longrightarrow> dict_ok (dpop d k)"
  by (simp add: dict_ok_def dpop_def distinct_delete)

lemma dget_SomeD: "dget d k = Some v \<Longrightarrow> (k, v) \<in> set d"
  by (simp add: dget_def map_of_SomeD)

lemma dget_in_set: "dict_ok d \<Longrightarrow> (k, v) \<in> set d \<Longrightarrow> dget d k = Some v"
  by (simp add: dget_def dict_ok_def)

lemma dvals_iff: "dict_ok d \<Longrightarrow> v \<in> set (dvals d) \<longleftrightarrow> (\<exists>k. dget d k = Some v)"
  by (force simp: dvals_def dest: dget_SomeD dget_in_set)

lemma dget_None_iff: "dget d k = None \<longleftrightarrow> k \<notin> set (dkeys d)"
  by (simp add: dget_def dkeys_def map_of_eq_None_iff)

lemma dkeys_iff: "k \<in> set (dkeys d) \<longleftrightarrow> dget d k \<noteq> None"
  by (simp add: dget_None_iff)

lemma dkeys_dset: "set (dkeys (dset d k v)) = insert k (set (dkeys d))"
  by (rule set_eqI) (simp only: dkeys_iff dget_dset insert_iff, simp)

lemma dkeys_dpop: "set (dkeys (dpop d k)) = set (dkeys d) - {k}"
  by (rule set_eqI) (simp only: dkeys_iff dget_dpop Diff_iff singleton_iff, simp)

lemma dset_same: "dget d k = Some v \<Longrightarrow> dset d k v = d"
  by (induction d) (auto simp: dget_def dset_def split: if_splits)

lemma dset_new: "dget d k = None \<Longrightarrow> dset d k v = d @ [(k, v)]"
  by (induction d) (auto simp: dset_def)

lemma dkeys_dset_there: "dget d k = Some w \<Longrightarrow> dkeys (dset d k v) = dkeys d"
  by (induction d) (auto simp: dset_def dkeys_def split: if_splits)

lemma length_dset: "length (dset d k v) = (if dget d k = None then Suc (length d) else length d)"
  by (induction d) (auto simp: dset_def)

lemma length_dset_le: "length (dset d k v) \<le> Suc (length d)"
  by (simp add: length_dset)

lemma length_dpop_le: "length (dpop d k) \<le> length d"
  by (simp add: dpop_def length_delete_le)

lemma length_dpop_less: "dget d k = Some v \<Longrightarrow> length (dpop d k) < length d"
  by (induction d) (auto simp: dpop_def le_imp_less_Suc length_delete_le split: if_splits)

lemma set_dset_subset: "set (dset d k v) \<subseteq> insert (k, v) (set d)"
  by (induction d) (auto simp: dset_def)

lemma set_dpop_subset: "set (dpop d k) \<subseteq> set d"
  by (auto simp: dpop_def AList.delete_eq)

subsection \<open>Sets as duplicate-free lists\<close>

definition sadd :: "'a list \<Rightarrow> 'a \<Rightarrow> 'a list" where
  "sadd xs x = (if x \<in> set xs then xs else xs @ [x])"

definition sdiscard :: "'a list \<Rightarrow> 'a \<Rightarrow> 'a list" where
  "sdiscard xs x = filter (\<lambda>y. y \<noteq> x) xs"

definition sunion :: "'a list \<Rightarrow> 'a list \<Rightarrow> 'a list" where
  "sunion xs ys = fold (\<lambda>y acc. sadd acc y) ys xs"

lemma set_sadd [simp]: "set (sadd xs x) = insert x (set xs)"
  by (auto simp: sadd_def)

lemma set_sdiscard [simp]: "set (sdiscard xs x) = set xs - {x}"
  by (auto simp: sdiscard_def)

lemma distinct_sadd [simp]: "distinct xs \<Longrightarrow> distinct (sadd xs x)"
  by (auto simp: sadd_def)

lemma distinct_sdiscard [simp]: "distinct xs \<Longrightarrow> distinct (sdiscard xs x)"
  by (simp add: sdiscard_def)

lemma set_sunion [simp]: "set (sunion xs ys) = set xs \<union> set ys"
  by (induction ys arbitrary: xs) (auto simp: sunion_def)

lemma distinct_sunion [simp]: "distinct xs \<Longrightarrow> distinct (sunion xs ys)"
  by (induction ys arbitrary: xs) (auto simp: sunion_def)

subsection \<open>Characters and strings\<close>

definition code_of :: "char \<Rightarrow> nat" where
  "code_of c = of_char c"

definition is_digit :: "char \<Rightarrow> bool" where
  "is_digit c \<longleftrightarrow> 48 \<le> code_of c \<and> code_of c \<le> 57"

definition is_space :: "char \<Rightarrow> bool" where
  "is_space c \<longleftrightarrow> (9 \<le> code_of c \<and> code_of c \<le> 13) \<or> (28 \<le> code_of c \<and> code_of c \<le> 32)"

definition to_lower :: "char \<Rightarrow> char" where
  "to_lower c = (if 65 \<le> code_of c \<and> code_of c \<le> 90 then char_of (code_of c + 32) else c)"

definition lower :: "string \<Rightarrow> string" where
  "lower s = List.map to_lower s"

definition strip :: "string \<Rightarrow> string" where
  "strip s = rev (dropWhile is_space (rev (dropWhile is_space s)))"

definition starts_with :: "string \<Rightarrow> string \<Rightarrow> bool" where
  "starts_with s p \<longleftrightarrow> take (length p) s = p"

text \<open>\<open>k in s\<close>.\<close>

fun contains :: "string \<Rightarrow> string \<Rightarrow> bool" where
  "contains k [] = (k = [])"
| "contains k (c # cs) = (starts_with (c # cs) k \<or> contains k cs)"

definition contains_any :: "string list \<Rightarrow> string \<Rightarrow> bool" where
  "contains_any ks s \<longleftrightarrow> (\<exists>k\<in>set ks. contains k s)"

text \<open>\<open>s.split(c)\<close> for a one-character separator.\<close>

fun split_on :: "char \<Rightarrow> string \<Rightarrow> string list" where
  "split_on c [] = [[]]"
| "split_on c (x # xs) =
     (if x = c then [] # split_on c xs
      else case split_on c xs of [] \<Rightarrow> [[x]] | w # ws \<Rightarrow> (x # w) # ws)"

text \<open>\<open>s.split()\<close>: the maximal runs without white space.\<close>

definition split_ws :: "string \<Rightarrow> string list" where
  "split_ws s = filter (\<lambda>w. w \<noteq> []) (split_on (CHR '' '')
     (List.map (\<lambda>c. if is_space c then CHR '' '' else c) s))"

definition count_char :: "char \<Rightarrow> string \<Rightarrow> nat" where
  "count_char c s = length (filter (\<lambda>x. x = c) s)"

text \<open>\<open>int(s)\<close>: white space around, a sign, digits with single underscores between them.\<close>

fun digits_val :: "int \<Rightarrow> bool \<Rightarrow> string \<Rightarrow> int option" where
  "digits_val acc seen [] = (if seen then Some acc else None)"
| "digits_val acc seen (c # cs) =
     (if is_digit c then digits_val (10 * acc + (int (code_of c) - 48)) True cs
      else if c = CHR ''_'' \<and> seen then digits_val acc False cs
      else None)"

definition py_int :: "string \<Rightarrow> int option" where
  "py_int s = (case strip s of
       [] \<Rightarrow> None
     | c # cs \<Rightarrow> if c = CHR ''-'' then map_option uminus (digits_val 0 False cs)
                else if c = CHR ''+'' then digits_val 0 False cs
                else digits_val 0 False (c # cs))"

text \<open>\<open>str(n)\<close>.\<close>

definition digit_char :: "nat \<Rightarrow> char" where
  "digit_char d = char_of (48 + d)"

fun show_nat :: "nat \<Rightarrow> string" where
  "show_nat n = (if n < 10 then [digit_char n] else show_nat (n div 10) @ [digit_char (n mod 10)])"

declare show_nat.simps [simp del]

definition show_int :: "int \<Rightarrow> string" where
  "show_int n = (if n < 0 then CHR ''-'' # show_nat (nat (- n)) else show_nat (nat n))"

text \<open>The same on binary integers, for evaluation.\<close>

function show_digits :: "int \<Rightarrow> string" where
  "show_digits n = (if n < 10 then [digit_char (nat n)] else show_digits (n div 10) @ [digit_char (nat (n mod 10))])"
  by pat_completeness auto
termination by (relation "measure nat") auto

declare show_digits.simps [simp del]

lemma show_digits_nat: "show_digits n = show_nat (nat n)"
proof (induction n rule: show_digits.induct)
  case (1 n)
  show ?case
  proof (cases "n < 10")
    case True
    then have "nat n < 10" by simp
    then have "show_nat (nat n) = [digit_char (nat n)]" by (subst show_nat.simps) simp
    moreover have "show_digits n = [digit_char (nat n)]" using True by (subst show_digits.simps) simp
    ultimately show ?thesis by simp
  next
    case False
    then have "\<not> nat n < 10" by simp
    then have "show_nat (nat n) = show_nat (nat n div 10) @ [digit_char (nat n mod 10)]"
      by (subst show_nat.simps) simp
    moreover have "nat n div 10 = nat (n div 10)" "nat n mod 10 = nat (n mod 10)"
      using False by (simp_all add: nat_div_distrib nat_mod_distrib)
    moreover have "show_digits n = show_digits (n div 10) @ [digit_char (nat (n mod 10))]"
      using False by (subst show_digits.simps) simp
    ultimately show ?thesis using 1 False by simp
  qed
qed

lemma show_int_code [code]: "show_int n = (if n < 0 then CHR ''-'' # show_digits (- n) else show_digits n)"
  by (simp add: show_int_def show_digits_nat)

text \<open>\<open>f'{n:02x}'\<close> for a byte.\<close>

definition hex_digit :: "nat \<Rightarrow> char" where
  "hex_digit d = (if d < 10 then char_of (48 + d) else char_of (87 + d))"

definition hex_byte :: "int \<Rightarrow> string" where
  "hex_byte n = [hex_digit (nat (n div 16)), hex_digit (nat (n mod 16))]"

text \<open>\<open>f'{n:02x}'\<close> for any natural number.\<close>

fun show_hex :: "nat \<Rightarrow> string" where
  "show_hex n = (if n < 16 then [hex_digit n] else show_hex (n div 16) @ [hex_digit (n mod 16)])"

declare show_hex.simps [simp del]

definition hex02 :: "nat \<Rightarrow> string" where
  "hex02 n = (if n < 16 then CHR ''0'' # show_hex n else show_hex n)"

text \<open>The order of \<open>str\<close>, by code points.\<close>

fun str_less :: "string \<Rightarrow> string \<Rightarrow> bool" where
  "str_less xs [] = False"
| "str_less [] (y # ys) = True"
| "str_less (x # xs) (y # ys) = (code_of x < code_of y \<or> (x = y \<and> str_less xs ys))"

lemma str_less_asym: "str_less xs ys \<Longrightarrow> \<not> str_less ys xs"
  by (induction xs ys rule: str_less.induct) auto

lemma code_of_inj: "code_of x = code_of y \<Longrightarrow> x = y"
  by (simp add: code_of_def)

lemma str_less_total: "xs \<noteq> ys \<Longrightarrow> str_less xs ys \<or> str_less ys xs"
proof (induction xs ys rule: str_less.induct)
  case (3 x xs y ys)
  then show ?case using code_of_inj [of x y] by (cases "code_of x" "code_of y" rule: linorder_cases) auto
next
  case (1 xs)
  then show ?case by (cases xs) auto
qed auto

lemma code_of_digit_char [simp]: "d < 10 \<Longrightarrow> code_of (digit_char d) = 48 + d"
  by (simp add: code_of_def digit_char_def)

lemma is_digit_digit_char [simp]: "d < 10 \<Longrightarrow> is_digit (digit_char d)"
  by (simp add: is_digit_def)

lemma is_digit_not_space: "is_digit c \<Longrightarrow> \<not> is_space c"
  by (auto simp: is_digit_def is_space_def)

lemma show_nat_digits: "\<forall>c\<in>set (show_nat n). is_digit c"
proof (induction n rule: show_nat.induct)
  case (1 n)
  then show ?case by (subst show_nat.simps) auto
qed

lemma show_nat_nonempty [simp]: "show_nat n \<noteq> []"
  by (subst show_nat.simps) simp

lemma digits_val_append:
  "\<forall>c\<in>set xs. is_digit c \<Longrightarrow> xs \<noteq> [] \<Longrightarrow>
   digits_val acc b (xs @ ys) =
     (case digits_val acc b xs of Some a \<Rightarrow> digits_val a True ys | None \<Rightarrow> None)"
proof (induction xs arbitrary: acc b)
  case Nil
  then show ?case by simp
next
  case (Cons x xs)
  show ?case
  proof (cases "xs = []")
    case True
    with Cons.prems show ?thesis by simp
  next
    case False
    have dig: "is_digit x" using Cons.prems by simp
    have "digits_val (10 * acc + (int (code_of x) - 48)) True (xs @ ys) =
        (case digits_val (10 * acc + (int (code_of x) - 48)) True xs of
           Some a \<Rightarrow> digits_val a True ys | None \<Rightarrow> None)"
      using Cons.prems False by (intro Cons.IH) auto
    with dig show ?thesis by simp
  qed
qed

lemma digits_val_show_nat: "digits_val 0 b (show_nat n) = Some (int n)"
proof (induction n arbitrary: b rule: show_nat.induct)
  case (1 n)
  show ?case
  proof (cases "n < 10")
    case True
    then show ?thesis by (subst show_nat.simps) simp
  next
    case False
    have "digits_val 0 b (show_nat (n div 10) @ [digit_char (n mod 10)]) = Some (int n)"
      using 1 False by (simp add: digits_val_append show_nat_digits zmod_int zdiv_int)
    with False show ?thesis by (subst show_nat.simps) simp
  qed
qed

lemma strip_id:
  assumes "s \<noteq> []" "\<not> is_space (hd s)" "\<not> is_space (last s)"
  shows "strip s = s"
proof -
  have "dropWhile is_space s = s" using assms by (cases s) auto
  moreover have "dropWhile is_space (rev s) = rev s"
    using assms by (cases s rule: rev_cases) auto
  ultimately show ?thesis by (simp add: strip_def)
qed

lemma strip_no_space:
  assumes "\<forall>c\<in>set s. \<not> is_space c"
  shows "strip s = s"
proof (cases s)
  case Nil
  then show ?thesis by (simp add: strip_def)
next
  case (Cons a list)
  with assms show ?thesis by (intro strip_id) auto
qed

lemma digit_not_sign: "is_digit c \<Longrightarrow> c \<noteq> CHR ''-'' \<and> c \<noteq> CHR ''+'' \<and> c \<noteq> CHR ''.''"
  by (auto simp: is_digit_def code_of_def)

text \<open>Decimal printing and parsing are inverse on the naturals.\<close>

lemma py_int_show_nat [simp]: "py_int (show_nat n) = Some (int n)"
proof -
  have dig: "\<forall>c\<in>set (show_nat n). is_digit c" by (rule show_nat_digits)
  then have s: "strip (show_nat n) = show_nat n"
    by (intro strip_no_space) (auto dest: is_digit_not_space)
  obtain c cs where c: "show_nat n = c # cs" by (cases "show_nat n") auto
  with dig have "is_digit c" by simp
  then have "c \<noteq> CHR ''-''" "c \<noteq> CHR ''+''" by (auto dest: digit_not_sign)
  then show ?thesis
    using digits_val_show_nat [of False n] s by (simp add: py_int_def c del: digits_val.simps)
qed

lemma py_int_show_int: "0 \<le> n \<Longrightarrow> py_int (show_int n) = Some n"
  by (simp add: show_int_def)

lemma show_int_no_dot: "CHR ''.'' \<notin> set (show_int n)"
  using show_nat_digits by (auto simp: show_int_def dest: digit_not_sign)

lemma split_on_nonempty [simp]: "split_on c xs \<noteq> []"
  by (cases xs) (auto split: list.splits)

lemma split_on_no_sep: "c \<notin> set xs \<Longrightarrow> split_on c xs = [xs]"
  by (induction xs) auto

lemma split_on_append: "c \<notin> set xs \<Longrightarrow> split_on c (xs @ c # ys) = xs # split_on c ys"
  by (induction xs) auto

lemma split_on_mem_no_sep: "w \<in> set (split_on c xs) \<Longrightarrow> c \<notin> set w"
  by (induction xs arbitrary: w) (auto split: list.splits if_splits)

lemma find_SomeD: "find p xs = Some x \<Longrightarrow> x \<in> set xs \<and> p x"
  by (induction xs) (auto split: if_splits)

subsection \<open>Scanning a list for its best element\<close>

text \<open>
  The loop \<open>for c in xs: if best is None or better(c, best): best = c\<close>, which the engines use to
  select routes, roots and masters.
\<close>

fun pick :: "('a \<Rightarrow> 'a \<Rightarrow> bool) \<Rightarrow> 'a option \<Rightarrow> 'a list \<Rightarrow> 'a option" where
  "pick better best [] = best"
| "pick better best (x # xs) =
     (case best of
        None \<Rightarrow> pick better (Some x) xs
      | Some b \<Rightarrow> pick better (Some (if better x b then x else b)) xs)"

lemma pick_None [simp]: "pick better None xs = None \<longleftrightarrow> xs = []"
proof -
  have "pick better (Some b) xs \<noteq> None" for b xs
    by (induction xs arbitrary: b) auto
  then show ?thesis by (cases xs) auto
qed

lemma pick_Some_mem: "pick better (Some b) xs = Some r \<Longrightarrow> r \<in> insert b (set xs)"
  by (induction xs arbitrary: b) (auto split: if_splits)

lemma pick_mem: "pick better None xs = Some r \<Longrightarrow> r \<in> set xs"
  by (cases xs) (auto dest: pick_Some_mem)

lemma pick_not_None [simp]: "pick better (Some b) xs \<noteq> None"
  by (induction xs arbitrary: b) auto

end
