(* ===== verification/FirstMatch.thy ===== *)
theory FirstMatch
  imports PyPrelude
begin

text \<open>
  The contract of an ordered rule list: the first rule that matches decides, a list without a match
  denies, and an exception raised while a rule is tested propagates. Prefix lists, packet filters and
  NAT access lists all promise it; each component interprets the locale on its own loop.
\<close>

locale first_match =
  fixes hit :: "'r \<Rightarrow> 'p \<Rightarrow> bool res"
    and verdict :: "'r \<Rightarrow> bool"
    and decide :: "'r list \<Rightarrow> 'p \<Rightarrow> bool res"
  assumes decide_Nil: "decide [] p = Inr False"
    and decide_Cons: "decide (r # rs) p =
      (case hit r p of Inl e \<Rightarrow> Inl e | Inr b \<Rightarrow> if b then Inr (verdict r) else decide rs p)"
begin

lemma decide_skip: "\<forall>r\<in>set xs. hit r p = Inr False \<Longrightarrow> decide (xs @ ys) p = decide ys p"
  by (induction xs) (auto simp: decide_Cons)

lemma implicit_deny: "\<forall>r\<in>set rs. hit r p = Inr False \<Longrightarrow> decide rs p = Inr False"
  using decide_skip [of rs p "[]"] by (simp add: decide_Nil)

lemma decide_first:
  "\<forall>r\<in>set xs. hit r p = Inr False \<Longrightarrow> hit r p = Inr True \<Longrightarrow> decide (xs @ r # ys) p = Inr (verdict r)"
  by (simp add: decide_skip decide_Cons)

lemma permit_iff:
  "decide rs p = Inr True \<longleftrightarrow>
     (\<exists>xs r ys. rs = xs @ r # ys \<and> (\<forall>x\<in>set xs. hit x p = Inr False) \<and> hit r p = Inr True \<and> verdict r)"
proof
  show "decide rs p = Inr True \<Longrightarrow>
     \<exists>xs r ys. rs = xs @ r # ys \<and> (\<forall>x\<in>set xs. hit x p = Inr False) \<and> hit r p = Inr True \<and> verdict r"
  proof (induction rs)
    case Nil
    then show ?case by (simp add: decide_Nil)
  next
    case (Cons r rs)
    show ?case
    proof (cases "hit r p")
      case (Inl e)
      with Cons.prems show ?thesis by (simp add: decide_Cons)
    next
      case (Inr b)
      show ?thesis
      proof (cases b)
        case True
        with Inr Cons.prems show ?thesis by (intro exI [of _ "[]"]) (simp add: decide_Cons)
      next
        case False
        with Inr Cons.prems have "decide rs p = Inr True" by (simp add: decide_Cons)
        then obtain xs r' ys where "rs = xs @ r' # ys" "\<forall>x\<in>set xs. hit x p = Inr False"
          "hit r' p = Inr True" "verdict r'" using Cons.IH by blast
        with Inr False show ?thesis by (intro exI [of _ "r # xs"]) auto
      qed
    qed
  qed
next
  show "\<exists>xs r ys. rs = xs @ r # ys \<and> (\<forall>x\<in>set xs. hit x p = Inr False) \<and> hit r p = Inr True \<and> verdict r
     \<Longrightarrow> decide rs p = Inr True"
    by (auto simp: decide_first)
qed

text \<open>A rule that only matches what an earlier rule matches is dead.\<close>

lemma shadowed_rule:
  assumes "r0 \<in> set xs" "\<And>q. hit r q = Inr True \<Longrightarrow> hit r0 q = Inr True"
    "\<And>q e. hit r q \<noteq> Inl e"
  shows "decide (xs @ r # ys) p = decide (xs @ ys) p"
  using assms(1)
proof (induction xs)
  case (Cons x xs)
  show ?case
  proof (cases "r0 \<in> set xs")
    case True
    with Cons.IH show ?thesis by (simp add: decide_Cons split: sum.splits)
  next
    case False
    with Cons.prems have x: "x = r0" by simp
    show ?thesis
    proof (cases "hit r0 p = Inr False")
      case hit0: True
      then have "hit r p = Inr False" using assms(2,3) [of p] by (cases "hit r p") auto
      then have "decide (xs @ r # ys) p = decide (xs @ ys) p"
        by (induction xs) (simp_all add: decide_Cons split: sum.splits)
      with x hit0 show ?thesis by (simp add: decide_Cons)
    next
      case False
      with x show ?thesis by (auto simp: decide_Cons split: sum.splits)
    qed
  qed
qed simp

text \<open>Two neighbouring rules with the same verdict may be swapped when neither test raises.\<close>

lemma swap_same_verdict:
  assumes "verdict r = verdict r'" "\<And>e. hit r p \<noteq> Inl e" "\<And>e. hit r' p \<noteq> Inl e"
  shows "decide (xs @ r # r' # ys) p = decide (xs @ r' # r # ys) p"
proof (induction xs)
  case Nil
  obtain b b' where "hit r p = Inr b" "hit r' p = Inr b'" using assms(2,3) by (metis sum.exhaust)
  with assms(1) show ?case by (simp add: decide_Cons)
qed (simp add: decide_Cons split: sum.splits)

end

end
