(* ===== verification/Addr.thy ===== *)
theory Addr
  imports PyPrelude
begin

text \<open>
  IPv4 text, numbers and prefixes as \<open>engine/protocols.py\<close> handles them. The engines share one
  representation, the dotted string, and convert it to an unbounded integer for every comparison.
  Two readers exist: the strict one (\<open>IcmpEngine._to_int\<close>, \<open>FilterEngine._ip_to_int\<close>,
  \<open>IpFilterEngine._ip_to_int\<close>), which raises on malformed text, and the lenient one
  (\<open>VirtualNetwork._ip_to_int\<close>), which answers 0. The integers are not range-checked by the code
  and are not here.
\<close>

type_synonym ip = string

definition u32_max :: int where
  "u32_max = 0xffffffff"

subsection \<open>Netmasks\<close>

text \<open>\<open>(0xffffffff << (32 - prefix)) & 0xffffffff\<close>; a negative shift count raises ValueError.\<close>

definition netmask :: "int \<Rightarrow> int res" where
  "netmask prefix =
     (if prefix > 32 then Inl ValueError
      else Inr (push_bit (nat (32 - prefix)) u32_max AND u32_max))"

subsection \<open>Text to number\<close>

fun ints_of :: "string list \<Rightarrow> int list option" where
  "ints_of [] = Some []"
| "ints_of (w # ws) =
     (case py_int w of
        None \<Rightarrow> None
      | Some n \<Rightarrow> map_option ((#) n) (ints_of ws))"

definition to_int :: "ip \<Rightarrow> int res" where
  "to_int addr =
     (case ints_of (split_on (CHR ''.'') addr) of
        None \<Rightarrow> Inl ValueError
      | Some (a # b # c # d # _) \<Rightarrow>
          Inr (push_bit 24 a OR push_bit 16 b OR push_bit 8 c OR d)
      | Some _ \<Rightarrow> Inl IndexError)"

text \<open>
  The lenient reader adds the shifted parts one by one; the shift count \<open>8 * (3 - i)\<close> turns
  negative, and raises, at the fifth part. Any exception makes the answer 0.
\<close>

fun shift_sum :: "nat \<Rightarrow> string list \<Rightarrow> int res" where
  "shift_sum i [] = Inr 0"
| "shift_sum i (p # ps) =
     (case py_int p of
        None \<Rightarrow> Inl ValueError
      | Some n \<Rightarrow>
          if i > 3 then Inl ValueError
          else res_bind (shift_sum (Suc i) ps) (\<lambda>s. Inr (push_bit (8 * (3 - i)) n + s)))"

definition ip_to_int :: "ip \<Rightarrow> int" where
  "ip_to_int s = except 0 (shift_sum 0 (split_on (CHR ''.'') s))"

subsection \<open>Number to text\<close>

definition octet :: "nat \<Rightarrow> int \<Rightarrow> int" where
  "octet k n = drop_bit k n AND 0xff"

definition int_to_ip :: "int \<Rightarrow> ip" where
  "int_to_ip n = show_int (octet 24 n) @ ''.'' @ show_int (octet 16 n) @ ''.'' @
                 show_int (octet 8 n) @ ''.'' @ show_int (octet 0 n)"

definition normalize_area :: "string \<Rightarrow> string" where
  "normalize_area area0 =
     (let area = strip area0
      in if CHR ''.'' \<notin> set area
         then (case py_int area of None \<Rightarrow> area | Some num \<Rightarrow> int_to_ip num)
         else area)"

subsection \<open>Prefix membership\<close>

definition ip_in_network :: "ip \<Rightarrow> ip \<Rightarrow> int \<Rightarrow> bool" where
  "ip_in_network addr network prefix =
     (case netmask prefix of
        Inl _ \<Rightarrow> False
      | Inr m \<Rightarrow>
          (case to_int addr of
             Inl _ \<Rightarrow> False
           | Inr a \<Rightarrow>
               (case to_int network of
                  Inl _ \<Rightarrow> False
                | Inr n \<Rightarrow> (a AND m) = (n AND m))))"

definition net_addr :: "ip \<Rightarrow> int \<Rightarrow> string" where
  "net_addr addr prefix =
     (case to_int addr of
        Inl _ \<Rightarrow> addr @ ''/'' @ show_int prefix
      | Inr n \<Rightarrow>
          (case netmask prefix of
             Inl _ \<Rightarrow> addr @ ''/'' @ show_int prefix
           | Inr m \<Rightarrow> int_to_ip (n AND m) @ ''/'' @ show_int prefix))"

subsection \<open>Facts about netmasks\<close>

lemma u32_max_mask: "u32_max = mask 32"
  by (simp add: u32_max_def mask_eq_exp_minus_1)

lemma bit_u32_max [simp]: "bit u32_max n \<longleftrightarrow> n < 32"
  by (simp add: u32_max_mask bit_mask_iff)

definition mask_int :: "int \<Rightarrow> int" where
  "mask_int p = push_bit (nat (32 - p)) u32_max AND u32_max"

lemma netmask_eq: "netmask p = (if p > 32 then Inl ValueError else Inr (mask_int p))"
  by (simp add: netmask_def mask_int_def)

lemma bit_mask_int: "p \<le> 32 \<Longrightarrow> bit (mask_int p) n \<longleftrightarrow> nat (32 - p) \<le> n \<and> n < 32"
  by (auto simp: mask_int_def bit_and_iff bit_push_bit_iff)

lemma mask_int_absorb: "p \<le> q \<Longrightarrow> q \<le> 32 \<Longrightarrow> mask_int q AND mask_int p = mask_int p"
  by (rule bit_eqI) (auto simp: bit_and_iff bit_mask_int)

text \<open>Two addresses that agree under a longer mask agree under every shorter one.\<close>

lemma mask_and_mono:
  assumes "a AND mask_int q = b AND mask_int q" "p \<le> q" "q \<le> 32"
  shows "a AND mask_int p = b AND mask_int p"
proof -
  have "a AND mask_int p = (a AND mask_int q) AND mask_int p"
    using assms(2,3) by (simp add: and.assoc mask_int_absorb)
  also have "\<dots> = (b AND mask_int q) AND mask_int p" using assms(1) by simp
  also have "\<dots> = b AND mask_int p"
    using assms(2,3) by (simp add: and.assoc mask_int_absorb)
  finally show ?thesis .
qed

lemma ip_in_network_iff:
  "ip_in_network x n p \<longleftrightarrow>
     p \<le> 32 \<and> (\<exists>a b. to_int x = Inr a \<and> to_int n = Inr b \<and> a AND mask_int p = b AND mask_int p)"
  by (auto simp: ip_in_network_def netmask_eq split: sum.splits)

lemma ip_in_network_sym: "ip_in_network x y p \<longleftrightarrow> ip_in_network y x p"
  by (auto simp: ip_in_network_iff)

lemma ip_in_network_trans: "ip_in_network x y p \<Longrightarrow> ip_in_network y z p \<Longrightarrow> ip_in_network x z p"
  by (auto simp: ip_in_network_iff)

lemma ip_in_network_mono: "ip_in_network x n q \<Longrightarrow> p \<le> q \<Longrightarrow> ip_in_network x n p"
  by (auto simp: ip_in_network_iff intro: mask_and_mono)

subsection \<open>Octets\<close>

lemma octet_eq: "octet k n = (n div 2 ^ k) mod 256"
proof -
  have "octet k n = take_bit 8 (drop_bit k n)"
    by (simp add: octet_def take_bit_eq_mask mask_eq_exp_minus_1)
  then show ?thesis by (simp add: take_bit_eq_mod drop_bit_eq_div)
qed

lemma octet_range: "0 \<le> octet k n" "octet k n < 256"
  by (simp_all add: octet_eq)

lemma py_int_octet [simp]: "py_int (show_int (octet k n)) = Some (octet k n)"
  by (rule py_int_show_int) (rule octet_range)

lemma split_int_to_ip:
  "split_on (CHR ''.'') (int_to_ip n) =
     [show_int (octet 24 n), show_int (octet 16 n), show_int (octet 8 n), show_int (octet 0 n)]"
  by (simp add: int_to_ip_def split_on_append split_on_no_sep show_int_no_dot)

lemma octets_sum:
  assumes "0 \<le> n" "n < 2 ^ 32"
  shows "octet 24 n * 2 ^ 24 + octet 16 n * 2 ^ 16 + octet 8 n * 2 ^ 8 + octet 0 n = n"
proof -
  have q: "n div 16777216 mod 256 = n div 16777216" using assms by simp
  have d16: "n div 65536 div 256 = n div 16777216" and d8: "n div 256 div 256 = n div 65536"
    by (simp_all add: zdiv_zmult2_eq [symmetric])
  have "n div 65536 = 256 * (n div 16777216) + n div 65536 mod 256"
    using mult_div_mod_eq [of 256 "n div 65536"] by (simp add: d16)
  moreover have "n div 256 = 256 * (n div 65536) + n div 256 mod 256"
    using mult_div_mod_eq [of 256 "n div 256"] by (simp add: d8)
  moreover have "n = 256 * (n div 256) + n mod 256" by simp
  moreover have "octet 24 n = n div 16777216" "octet 16 n = n div 65536 mod 256"
    "octet 8 n = n div 256 mod 256" "octet 0 n = n mod 256"
    using q by (simp_all add: octet_eq)
  ultimately have "octet 24 n * 16777216 + octet 16 n * 65536 + octet 8 n * 256 + octet 0 n = n"
    by linarith
  then show ?thesis by simp
qed

lemma ip_to_int_int_to_ip:
  assumes "0 \<le> n" "n < 2 ^ 32"
  shows "ip_to_int (int_to_ip n) = n"
  using octets_sum [OF assms]
  by (simp add: ip_to_int_def split_int_to_ip push_bit_eq_mult add.assoc)

lemma octets_or:
  assumes "0 \<le> n" "n < 2 ^ 32"
  shows "push_bit 24 (octet 24 n) OR push_bit 16 (octet 16 n) OR push_bit 8 (octet 8 n) OR octet 0 n = n"
proof (rule bit_eqI)
  fix i
  have hi: "\<not> bit n i" if "i \<ge> 32"
  proof -
    have "take_bit 32 n = n" using assms by (simp add: take_bit_int_eq_self)
    then have "bit n i = bit (take_bit 32 n) i" by simp
    with that show ?thesis by (simp add: bit_take_bit_iff)
  qed
  have oct: "bit (octet k n) j \<longleftrightarrow> j < 8 \<and> bit n (k + j)" for k j
  proof -
    have "octet k n = take_bit 8 (drop_bit k n)"
      by (simp add: octet_def take_bit_eq_mask mask_eq_exp_minus_1)
    then show ?thesis by (simp add: bit_take_bit_iff bit_drop_bit_eq)
  qed
  have "i < 8 \<or> (8 \<le> i \<and> i < 16) \<or> (16 \<le> i \<and> i < 24) \<or> (24 \<le> i \<and> i < 32) \<or> 32 \<le> i"
    by arith
  then show "bit (push_bit 24 (octet 24 n) OR push_bit 16 (octet 16 n) OR push_bit 8 (octet 8 n)
      OR octet 0 n) i \<longleftrightarrow> bit n i"
    by (auto simp: bit_or_iff bit_push_bit_iff oct dest: hi)
qed

lemma to_int_int_to_ip:
  assumes "0 \<le> n" "n < 2 ^ 32"
  shows "to_int (int_to_ip n) = Inr n"
  using octets_or [OF assms] by (simp add: to_int_def split_int_to_ip)

lemma int_to_ip_inj:
  assumes "0 \<le> m" "m < 2 ^ 32" "0 \<le> n" "n < 2 ^ 32" "int_to_ip m = int_to_ip n"
  shows "m = n"
  using assms ip_to_int_int_to_ip by metis

subsection \<open>The characters of dotted text\<close>

definition dotted_char :: "char \<Rightarrow> bool" where
  "dotted_char c \<longleftrightarrow> is_digit c \<or> c = CHR ''.''"

lemma show_int_digits: "0 \<le> n \<Longrightarrow> c \<in> set (show_int n) \<Longrightarrow> is_digit c"
  using show_nat_digits by (auto simp: show_int_def)

lemma show_int_nonempty [simp]: "show_int n \<noteq> []"
  by (simp add: show_int_def)

lemma int_to_ip_nonempty [simp]: "int_to_ip n \<noteq> []"
  by (simp add: int_to_ip_def)

lemma int_to_ip_dotted: "c \<in> set (int_to_ip n) \<Longrightarrow> dotted_char c"
  using show_int_digits octet_range by (auto simp: int_to_ip_def dotted_char_def)

lemma dotted_char_not: "dotted_char c \<Longrightarrow> \<not> is_space c \<and> c \<noteq> CHR '' '' \<and> c \<noteq> CHR ''/'' \<and> c \<noteq> CHR ''a'' \<and> c \<noteq> CHR ''h''"
  by (auto simp: dotted_char_def is_digit_def is_space_def code_of_def)

lemma count_dots_int_to_ip: "count_char (CHR ''.'') (int_to_ip n) = 3"
proof -
  have "filter (\<lambda>x. x = CHR ''.'') (show_int m) = []" for m
    using show_int_no_dot by (auto simp: filter_empty_conv)
  then show ?thesis by (simp add: count_char_def int_to_ip_def)
qed

lemma map_spaces_id:
  "\<forall>c\<in>set s. \<not> is_space c \<Longrightarrow> List.map (\<lambda>c. if is_space c then CHR '' '' else c) s = s"
  by (induction s) auto

lemma no_space_not_blank: "\<forall>c\<in>set s. \<not> is_space c \<Longrightarrow> CHR '' '' \<notin> set s"
  by (auto simp: is_space_def code_of_def)

lemma split_ws_one:
  "\<forall>c\<in>set a. \<not> is_space c \<Longrightarrow> a \<noteq> [] \<Longrightarrow> split_ws a = [a]"
  by (simp add: split_ws_def map_spaces_id split_on_no_sep no_space_not_blank)

lemma split_ws_two:
  assumes "\<forall>c\<in>set a. \<not> is_space c" "a \<noteq> []" "\<forall>c\<in>set b. \<not> is_space c" "b \<noteq> []"
  shows "split_ws (a @ CHR '' '' # b) = [a, b]"
proof -
  have "is_space (CHR '' '')" by (simp add: is_space_def code_of_def)
  then show ?thesis using assms
    by (simp add: split_ws_def map_spaces_id split_on_append split_on_no_sep no_space_not_blank)
qed

lemma mask_int_wildcard:
  assumes "0 \<le> p" "p \<le> 32"
  shows "NOT (2 ^ nat (32 - p) - 1) AND u32_max = mask_int p"
proof (rule bit_eqI)
  fix n
  have "(2::int) ^ nat (32 - p) - 1 = mask (nat (32 - p))" by (simp add: mask_eq_exp_minus_1)
  then show "bit (NOT (2 ^ nat (32 - p) - 1) AND u32_max) n \<longleftrightarrow> bit (mask_int p) n"
    using assms by (auto simp: bit_and_iff bit_not_iff bit_mask_iff bit_mask_int)
qed

lemma wildcard_range: "0 \<le> p \<Longrightarrow> (0::int) \<le> 2 ^ nat (32 - p) - 1 \<and> (2::int) ^ nat (32 - p) - 1 < 2 ^ 32"
proof -
  assume "0 \<le> p"
  then have "(2::int) ^ nat (32 - p) \<le> 2 ^ 32" by (intro power_increasing) auto
  then show ?thesis by auto
qed

lemma strip_bounds:
  "\<not> is_space (hd s) \<Longrightarrow> \<not> is_space (last s) \<Longrightarrow> strip s = s"
  by (cases "s = []") (auto simp: strip_id, simp add: strip_def)

subsection \<open>\<open>ipaddress.IPv4Address\<close>\<close>

text \<open>
  The standard library's strict reader: exactly four parts of one to three ASCII digits, no leading
  zero in a longer part, no part above 255. Anything else is an \<open>AddressValueError\<close> (a ValueError).
\<close>

definition strict_octet :: "string \<Rightarrow> int option" where
  "strict_octet w =
     (if w = [] \<or> \<not> list_all is_digit w \<or> length w > 3 \<or> (hd w = CHR ''0'' \<and> length w > 1) then None
      else case py_int w of None \<Rightarrow> None | Some n \<Rightarrow> if n > 255 then None else Some n)"

definition ipv4_address :: "string \<Rightarrow> int option" where
  "ipv4_address s =
     (case List.map strict_octet (split_on (CHR ''.'') s) of
        [Some a, Some b, Some c, Some d] \<Rightarrow> Some (a * 2 ^ 24 + b * 2 ^ 16 + c * 2 ^ 8 + d)
      | _ \<Rightarrow> None)"

lemma show_nat_hd: "n > 0 \<Longrightarrow> hd (show_nat n) \<noteq> CHR ''0''"
proof (induction n rule: show_nat.induct)
  case (1 n)
  have z: "digit_char d \<noteq> CHR ''0''" if "0 < d" "d < 10" for d
  proof
    assume "digit_char d = CHR ''0''"
    then have "code_of (digit_char d) = code_of (CHR ''0'')" by simp
    with that show False by (simp add: code_of_def digit_char_def)
  qed
  show ?case
  proof (cases "n < 10")
    case True
    with 1 z show ?thesis by (subst show_nat.simps) simp
  next
    case False
    with 1 show ?thesis by (subst show_nat.simps) (simp add: hd_append)
  qed
qed

lemma length_show_nat: "n < 256 \<Longrightarrow> length (show_nat n) \<le> 3"
proof -
  assume n: "n < 256"
  have l1: "length (show_nat m) = 1" if "m < 10" for m using that by (subst show_nat.simps) simp
  have l2: "length (show_nat m) \<le> 2" if "m < 100" for m
    using that l1 [of "m div 10"] by (subst show_nat.simps) simp
  show ?thesis using n l2 [of "n div 10"] by (subst show_nat.simps) simp
qed

lemma strict_octet_show: "0 \<le> n \<Longrightarrow> n < 256 \<Longrightarrow> strict_octet (show_int n) = Some n"
proof -
  assume n: "0 \<le> n" "n < 256"
  then have len: "length (show_int n) \<le> 3" by (simp add: show_int_def length_show_nat)
  have dig: "list_all is_digit (show_int n)" using show_int_digits [OF n(1)] by (simp add: list_all_iff)
  have "\<not> (hd (show_int n) = CHR ''0'' \<and> length (show_int n) > 1)"
  proof (cases "n = 0")
    case True
    have "length (show_nat 0) = 1" by (subst show_nat.simps) simp
    with True show ?thesis by (simp add: show_int_def)
  next
    case False
    with n show_nat_hd [of "nat n"] show ?thesis by (simp add: show_int_def)
  qed
  with n len dig show ?thesis by (simp add: strict_octet_def py_int_show_int)
qed

lemma ipv4_address_int_to_ip: "0 \<le> n \<Longrightarrow> n < 2 ^ 32 \<Longrightarrow> ipv4_address (int_to_ip n) = Some n"
  using octets_sum [of n]
  by (simp add: ipv4_address_def split_int_to_ip strict_octet_show octet_range)

lemma strict_octet_range: "strict_octet w = Some n \<Longrightarrow> 0 \<le> n \<and> n < 256"
proof -
  assume w: "strict_octet w = Some n"
  then have d: "list_all is_digit w" "w \<noteq> []" "py_int w = Some n" "n \<le> 255"
    by (auto simp: strict_octet_def split: if_splits option.splits)
  have nn: "list_all is_digit v \<Longrightarrow> 0 \<le> acc \<Longrightarrow> digits_val acc b v = Some m \<Longrightarrow> 0 \<le> m" for v acc b m
  proof (induction v arbitrary: acc b)
    case (Cons c cs)
    have c: "is_digit c" using Cons.prems(1) by simp
    then have "0 \<le> 10 * acc + (int (code_of c) - 48)" using Cons.prems(2) by (simp add: is_digit_def)
    then show ?case using Cons.IH Cons.prems c by simp
  qed (auto split: if_splits)
  have "\<forall>c\<in>set w. \<not> is_space c" using d(1) is_digit_not_space by (auto simp: list_all_iff)
  then have s: "strip w = w" by (rule strip_no_space)
  obtain c cs where c: "w = c # cs" using d(2) by (cases w) auto
  with d(1) have "c \<noteq> CHR ''-''" "c \<noteq> CHR ''+''" using digit_not_sign by auto
  then have "digits_val 0 False w = Some n" using d(3) s c by (simp add: py_int_def del: digits_val.simps)
  with nn [OF d(1)] d(4) show ?thesis by auto
qed

lemma ipv4_address_range: "ipv4_address s = Some n \<Longrightarrow> 0 \<le> n \<and> n < 2 ^ 32"
  by (fastforce simp: ipv4_address_def dest: strict_octet_range split: list.splits option.splits)

subsection \<open>\<open>ipaddress.ip_network\<close>\<close>

text \<open>
  \<open>ip_network(text, strict=False)\<close> for IPv4: the host bits are cleared, a text without a mask is a host
  network, and the mask is a length, a netmask or a host mask. \<open>None\<close> is the ValueError. IPv6 texts, which
  the library function reads too, are not covered: the callers pass networks of IPv4 commands.
\<close>

definition mask_length :: "int \<Rightarrow> int option" where
  "mask_length i = find (\<lambda>p. mask_int p = i) [0..32]"

definition prefix_length :: "string \<Rightarrow> int option" where
  "prefix_length m =
     (if m \<noteq> [] \<and> list_all is_digit m then (case py_int m of None \<Rightarrow> None | Some p \<Rightarrow> if p > 32 then None else Some p)
      else case ipv4_address m of
             None \<Rightarrow> None
           | Some i \<Rightarrow> (case mask_length i of Some p \<Rightarrow> Some p | None \<Rightarrow> mask_length (i XOR u32_max)))"

definition ip_network :: "string \<Rightarrow> (int \<times> int) option" where
  "ip_network s =
     (case split_on (CHR ''/'') s of
        [a] \<Rightarrow> map_option (\<lambda>x. (x, 32)) (ipv4_address a)
      | [a, m] \<Rightarrow> (case (ipv4_address a, prefix_length m) of
                    (Some x, Some p) \<Rightarrow> Some (x AND mask_int p, p)
                  | _ \<Rightarrow> None)
      | _ \<Rightarrow> None)"

end
