(* ===== verification/NetData.thy ===== *)
theory NetData
  imports Addr
begin

text \<open>
  Data that several engines of \<open>engine/protocols.py\<close> share: device and interface names, the
  switch-port record of the VLAN engine and the per-device address book of the ICMP engine.
\<close>

type_synonym dev = string
type_synonym iface = string

subsection \<open>Switch ports (\<open>VlanPort\<close>)\<close>

datatype port_mode = Access | Trunk

record vlan_port =
  mode :: port_mode
  access_vlan :: int
  native_vlan :: int
  allowed_vlans :: "int set"

definition default_port :: vlan_port where
  "default_port = \<lparr>mode = Access, access_vlan = 1, native_vlan = 1, allowed_vlans = {1..4094}\<rparr>"

text \<open>The VLANs a port carries.\<close>

definition port_vlans :: "vlan_port \<Rightarrow> int set" where
  "port_vlans p = (case mode p of Access \<Rightarrow> {access_vlan p} | Trunk \<Rightarrow> allowed_vlans p)"

subsection \<open>Registered devices (\<open>IcmpEngine.device_ips\<close>)\<close>

record iface_info =
  if_ip :: "ip option"
  if_prefix :: "int option"

record device_info =
  di_hostname :: string
  di_ips :: "(ip, int) dict"
  di_interfaces :: "(iface, iface_info) dict"

definition no_device :: device_info where
  "no_device = \<lparr>di_hostname = [], di_ips = [], di_interfaces = []\<rparr>"

text \<open>\<open>IcmpEngine.register_device\<close>: an interface without an address contributes nothing; the prefix
  defaults to 24; of two interfaces with the same address the later prefix stays.\<close>

fun collect_ips :: "(iface, iface_info) dict \<Rightarrow> (ip, int) dict \<Rightarrow> (ip, int) dict" where
  "collect_ips [] ips = ips"
| "collect_ips ((_, info) # rest) ips =
     (case if_ip info of
        None \<Rightarrow> collect_ips rest ips
      | Some a \<Rightarrow> if a = [] then collect_ips rest ips
                  else collect_ips rest (dset ips a (case if_prefix info of None \<Rightarrow> 24 | Some p \<Rightarrow> p)))"

definition register_device ::
  "(dev, device_info) dict \<Rightarrow> dev \<Rightarrow> string \<Rightarrow> (iface, iface_info) dict \<Rightarrow> (dev, device_info) dict" where
  "register_device devs d host ifs =
     dset devs d \<lparr>di_hostname = host, di_ips = collect_ips ifs [], di_interfaces = ifs\<rparr>"

definition ips_of :: "(dev, device_info) dict \<Rightarrow> dev \<Rightarrow> (ip, int) dict" where
  "ips_of devs d = (case dget devs d of None \<Rightarrow> [] | Some i \<Rightarrow> di_ips i)"

definition ifaces_of :: "(dev, device_info) dict \<Rightarrow> dev \<Rightarrow> (iface, iface_info) dict" where
  "ifaces_of devs d = (case dget devs d of None \<Rightarrow> [] | Some i \<Rightarrow> di_interfaces i)"

lemma collect_ips_ok: "dict_ok ips \<Longrightarrow> dict_ok (collect_ips ifs ips)"
  by (induction ifs ips rule: collect_ips.induct) (auto split: option.splits)

lemma collect_ips_nonempty:
  "[] \<notin> set (dkeys ips) \<Longrightarrow> [] \<notin> set (dkeys (collect_ips ifs ips))"
proof (induction ifs ips rule: collect_ips.induct)
  case (2 n info rest ips)
  have "[] \<notin> set (dkeys (dset ips a p))" if "a \<noteq> []" for a p
    using that 2(4) by (simp flip: dget_None_iff)
  with 2 show ?case by (auto split: option.splits)
qed simp

lemma ips_of_register:
  "ips_of (register_device devs d host ifs) d' =
     (if d' = d then collect_ips ifs [] else ips_of devs d')"
  by (simp add: ips_of_def register_device_def)

end
