(* ===== verification/Filters.thy ===== *)
theory Filters
  imports FirstMatch NetData
begin

text \<open>
  Route filters (\<open>class FilterEngine\<close>: prefix lists, distribute lists, redistribution filters) and
  packet filters (\<open>class IpFilterEngine\<close>: access lists bound to interfaces). Both are ordered rule
  lists and interpret \<open>first_match\<close>.
\<close>

subsection \<open>Prefix lists\<close>

record prefix_entry =
  pe_seq :: int
  pe_action :: string
  pe_network :: ip
  pe_prefix :: int
  pe_ge :: "int option"
  pe_le :: "int option"

record filter_engine =
  prefix_lists :: "dev \<Rightarrow> (string, prefix_entry list) dict"
  distribute_lists :: "dev \<Rightarrow> (string \<times> string, string) dict"
  redist_filters :: "dev \<Rightarrow> (string \<times> string, string) dict"

definition max_seq :: "int list \<Rightarrow> int" where
  "max_seq seqs = (case seqs of [] \<Rightarrow> 0 | s # ss \<Rightarrow> fold max ss s)"

definition add_prefix_list ::
  "filter_engine \<Rightarrow> dev \<Rightarrow> string \<Rightarrow> string \<Rightarrow> ip \<Rightarrow> int \<Rightarrow> int option \<Rightarrow> int option \<Rightarrow> int option
     \<Rightarrow> filter_engine" where
  "add_prefix_list f d name action network prefix seq ge le =
     (let entries = dget_or (prefix_lists f d) name [];
          n = (case seq of Some s \<Rightarrow> s | None \<Rightarrow> max_seq (List.map pe_seq entries) + 5);
          e = \<lparr>pe_seq = n, pe_action = action, pe_network = network, pe_prefix = prefix,
               pe_ge = ge, pe_le = le\<rparr>
      in f\<lparr>prefix_lists := (prefix_lists f)
            (d := dset (prefix_lists f d) name (sort_key pe_seq (entries @ [e])))\<rparr>)"

definition clear_prefix_list :: "filter_engine \<Rightarrow> dev \<Rightarrow> string \<Rightarrow> filter_engine" where
  "clear_prefix_list f d name =
     f\<lparr>prefix_lists := (prefix_lists f)(d := dpop (prefix_lists f d) name)\<rparr>"

definition set_distribute_list ::
  "filter_engine \<Rightarrow> dev \<Rightarrow> string \<Rightarrow> string \<Rightarrow> string \<Rightarrow> filter_engine" where
  "set_distribute_list f d proto direction name =
     f\<lparr>distribute_lists := (distribute_lists f)(d := dset (distribute_lists f d) (proto, direction) name)\<rparr>"

definition set_redist_filter ::
  "filter_engine \<Rightarrow> dev \<Rightarrow> string \<Rightarrow> string \<Rightarrow> string \<Rightarrow> filter_engine" where
  "set_redist_filter f d target source name =
     f\<lparr>redist_filters := (redist_filters f)(d := dset (redist_filters f d) (target, source) name)\<rparr>"

definition match_entry :: "prefix_entry \<Rightarrow> ip \<Rightarrow> int \<Rightarrow> bool" where
  "match_entry e network prefix =
     (case netmask (pe_prefix e) of
        Inl _ \<Rightarrow> False
      | Inr m \<Rightarrow>
          (case to_int network of
             Inl _ \<Rightarrow> False
           | Inr n \<Rightarrow>
               (case to_int (pe_network e) of
                  Inl _ \<Rightarrow> False
                | Inr en \<Rightarrow>
                    if n AND m \<noteq> en AND m then False
                    else if (case pe_ge e of None \<Rightarrow> False | Some g \<Rightarrow> prefix < g) then False
                    else if (case pe_le e of None \<Rightarrow> False | Some l \<Rightarrow> prefix > l) then False
                    else if pe_ge e = None \<and> pe_le e = None then prefix = pe_prefix e
                    else True)))"

fun check_entries :: "prefix_entry list \<Rightarrow> ip \<times> int \<Rightarrow> bool" where
  "check_entries [] r = False"
| "check_entries (e # es) r =
     (if match_entry e (fst r) (snd r) then pe_action e = ''permit'' else check_entries es r)"

definition check_prefix_list :: "filter_engine \<Rightarrow> dev \<Rightarrow> string \<Rightarrow> ip \<Rightarrow> int \<Rightarrow> bool" where
  "check_prefix_list f d name network prefix =
     (case dget (prefix_lists f d) name of
        None \<Rightarrow> True
      | Some entries \<Rightarrow> check_entries entries (network, prefix))"

text \<open>\<open>dest\<close> projects a route to its network and prefix.\<close>

definition filter_routes ::
  "filter_engine \<Rightarrow> dev \<Rightarrow> string \<Rightarrow> string \<Rightarrow> ('a \<Rightarrow> ip \<times> int) \<Rightarrow> 'a list \<Rightarrow> 'a list" where
  "filter_routes f d proto direction dest routes =
     (case dget (distribute_lists f d) (proto, direction) of
        None \<Rightarrow> routes
      | Some name \<Rightarrow>
          if name = [] then routes
          else filter (\<lambda>r. check_prefix_list f d name (fst (dest r)) (snd (dest r))) routes)"

definition filter_redist :: "filter_engine \<Rightarrow> dev \<Rightarrow> string \<Rightarrow> string \<Rightarrow> ip \<Rightarrow> int \<Rightarrow> bool" where
  "filter_redist f d target source network prefix =
     (case dget (redist_filters f d) (target, source) of
        None \<Rightarrow> True
      | Some name \<Rightarrow> if name = [] then True else check_prefix_list f d name network prefix)"

subsection \<open>Packet filters\<close>

record acl_rule =
  ar_seq :: int
  ar_action :: string
  ar_protocol :: string
  ar_src :: string
  ar_dst :: string
  ar_src_port :: "string option"
  ar_dst_port :: "string option"

record ipfilter_engine =
  acls :: "dev \<Rightarrow> (string, acl_rule list) dict"
  applied :: "dev \<Rightarrow> (iface \<times> string, string) dict"

definition add_rule ::
  "ipfilter_engine \<Rightarrow> dev \<Rightarrow> string \<Rightarrow> string \<Rightarrow> string \<Rightarrow> string \<Rightarrow> string \<Rightarrow> string option
     \<Rightarrow> string option \<Rightarrow> int option \<Rightarrow> ipfilter_engine" where
  "add_rule f d name action protocol src dst src_port dst_port seq =
     (let rules = dget_or (acls f d) name [];
          n = (case seq of Some s \<Rightarrow> s | None \<Rightarrow> max_seq (List.map ar_seq rules) + 10);
          r = \<lparr>ar_seq = n, ar_action = action, ar_protocol = protocol, ar_src = src, ar_dst = dst,
               ar_src_port = src_port, ar_dst_port = dst_port\<rparr>
      in f\<lparr>acls := (acls f)(d := dset (acls f d) name (sort_key ar_seq (rules @ [r])))\<rparr>)"

definition apply_acl :: "ipfilter_engine \<Rightarrow> dev \<Rightarrow> iface \<Rightarrow> string \<Rightarrow> string \<Rightarrow> ipfilter_engine" where
  "apply_acl f d i direction name =
     f\<lparr>applied := (applied f)(d := dset (applied f d) (i, direction) name)\<rparr>"

definition clear_acl :: "ipfilter_engine \<Rightarrow> dev \<Rightarrow> string \<Rightarrow> ipfilter_engine" where
  "clear_acl f d name = f\<lparr>acls := (acls f)(d := dpop (acls f d) name)\<rparr>"

text \<open>\<open>(ip & mask) == (net & mask)\<close> inside a \<open>try\<close> whose handler answers False.\<close>

definition same_under :: "int res \<Rightarrow> ip \<Rightarrow> ip \<Rightarrow> bool" where
  "same_under msk addr net =
     except False (res_bind msk (\<lambda>m. res_bind (to_int addr) (\<lambda>a. res_bind (to_int net)
       (\<lambda>n. Inr (a AND m = n AND m)))))"

definition match_addr :: "string \<Rightarrow> ip \<Rightarrow> bool res" where
  "match_addr spec0 addr =
     (let spec = strip spec0; parts = split_ws spec
      in if spec = ''any'' then Inr True
         else if starts_with spec ''host '' then
           (if length parts < 2 then Inl IndexError else Inr (parts ! 1 = addr))
         else if length parts = 2 \<and> (\<forall>p\<in>set parts. count_char (CHR ''.'') p = 3) then
           Inr (same_under (res_bind (to_int (parts ! 1)) (\<lambda>wc. Inr (NOT wc AND u32_max))) addr (parts ! 0))
         else if CHR ''/'' \<in> set spec then
           (case split_on (CHR ''/'') spec of
              [net, p] \<Rightarrow>
                (case py_int p of
                   None \<Rightarrow> Inl ValueError
                 | Some prefix \<Rightarrow> Inr (same_under (netmask prefix) addr net))
            | _ \<Rightarrow> Inl ValueError)
         else Inr (spec = addr))"

fun check_source_rules :: "acl_rule list \<Rightarrow> ip \<Rightarrow> bool res" where
  "check_source_rules [] src = Inr False"
| "check_source_rules (r # rs) src =
     (case match_addr (ar_src r) src of
        Inl e \<Rightarrow> Inl e
      | Inr b \<Rightarrow> if b then Inr (ar_action r = ''permit'') else check_source_rules rs src)"

definition check_source :: "ipfilter_engine \<Rightarrow> dev \<Rightarrow> string \<Rightarrow> ip \<Rightarrow> bool res" where
  "check_source f d name src =
     (if name = [] then Inr True
      else let rules = dget_or (acls f d) name []
           in if rules = [] then Inr True else check_source_rules rules src)"

record packet =
  pk_src :: ip
  pk_dst :: ip
  pk_protocol :: string
  pk_dst_port :: "string option"

definition rule_hit :: "acl_rule \<Rightarrow> packet \<Rightarrow> bool res" where
  "rule_hit r p =
     (if ar_protocol r \<noteq> ''ip'' \<and> ar_protocol r \<noteq> pk_protocol p then Inr False
      else res_bind (match_addr (ar_src r) (pk_src p)) (\<lambda>s.
        if \<not> s then Inr False
        else res_bind (match_addr (ar_dst r) (pk_dst p)) (\<lambda>t.
          if \<not> t then Inr False
          else if truthy (ar_dst_port r) \<and> truthy (pk_dst_port p) \<and> ar_dst_port r \<noteq> pk_dst_port p
               then Inr False
          else Inr True)))"

fun check_rules :: "acl_rule list \<Rightarrow> packet \<Rightarrow> bool res" where
  "check_rules [] p = Inr False"
| "check_rules (r # rs) p =
     (case rule_hit r p of
        Inl e \<Rightarrow> Inl e
      | Inr b \<Rightarrow> if b then Inr (ar_action r = ''permit'') else check_rules rs p)"

definition check_packet :: "ipfilter_engine \<Rightarrow> dev \<Rightarrow> iface \<Rightarrow> string \<Rightarrow> packet \<Rightarrow> bool res" where
  "check_packet f d i direction p =
     (case dget (applied f d) (i, direction) of
        None \<Rightarrow> Inr True
      | Some name \<Rightarrow>
          if name = [] then Inr True
          else let rules = dget_or (acls f d) name []
               in if rules = [] then Inr True else check_rules rules p)"

subsection \<open>The three loops are first-match lists\<close>

interpretation pl: first_match
  "\<lambda>e r. Inr (match_entry e (fst r) (snd r))" "\<lambda>e. pe_action e = ''permit''" "\<lambda>es r. Inr (check_entries es r)"
  by unfold_locales auto

interpretation src: first_match
  "\<lambda>r. match_addr (ar_src r)" "\<lambda>r. ar_action r = ''permit''" check_source_rules
  by unfold_locales auto

interpretation pkt: first_match rule_hit "\<lambda>r. ar_action r = ''permit''" check_rules
  by unfold_locales auto

subsection \<open>Sequence numbers\<close>

lemma fold_max_ge_init: "(s::int) \<le> fold max ss s"
proof (induction ss arbitrary: s)
  case (Cons y ys)
  show ?case using Cons.IH [of "max y s"] by simp
qed simp

lemma fold_max_ge: "(x::int) \<in> set ss \<Longrightarrow> x \<le> fold max ss s"
proof (induction ss arbitrary: s)
  case (Cons y ys)
  then show ?case using fold_max_ge_init [of "max y s" ys] by auto
qed simp

lemma max_seq_ge: "x \<in> set ss \<Longrightarrow> x \<le> max_seq ss"
  by (cases ss) (auto simp: max_seq_def fold_max_ge fold_max_ge_init)

lemma sort_key_snoc:
  "sorted (List.map k xs) \<Longrightarrow> \<forall>x\<in>set xs. k x \<le> k e \<Longrightarrow> sort_key k (xs @ [e]) = xs @ [e]"
  by (rule sort_key_id_if_sorted) (auto simp: sorted_append)

text \<open>The rules an operator enters, without sequence numbers, one after the other.\<close>

definition enter_rule ::
  "dev \<Rightarrow> string \<Rightarrow> (string \<times> string \<times> string \<times> string \<times> string option \<times> string option)
     \<Rightarrow> ipfilter_engine \<Rightarrow> ipfilter_engine" where
  "enter_rule d name = (\<lambda>(action, protocol, src, dst, sp, dp) f.
     add_rule f d name action protocol src dst sp dp None)"

fun numbered ::
  "int \<Rightarrow> (string \<times> string \<times> string \<times> string \<times> string option \<times> string option) list \<Rightarrow> acl_rule list" where
  "numbered n [] = []"
| "numbered n ((action, protocol, src, dst, sp, dp) # rs) =
     \<lparr>ar_seq = n, ar_action = action, ar_protocol = protocol, ar_src = src, ar_dst = dst,
      ar_src_port = sp, ar_dst_port = dp\<rparr> # numbered (n + 10) rs"

lemma numbered_snoc:
  "numbered n (rs @ [(action, protocol, src, dst, sp, dp)]) =
     numbered n rs @ [\<lparr>ar_seq = n + 10 * int (length rs), ar_action = action, ar_protocol = protocol,
       ar_src = src, ar_dst = dst, ar_src_port = sp, ar_dst_port = dp\<rparr>]"
  by (induction n rs rule: numbered.induct) (auto simp: algebra_simps)

lemma numbered_seqs: "List.map ar_seq (numbered n rs) = List.map (\<lambda>i. n + 10 * int i) [0..<length rs]"
proof (induction rs rule: rev_induct)
  case (snoc r rs)
  then show ?case by (cases r) (simp add: numbered_snoc)
qed simp

lemma max_seq_snoc: "(\<And>x. x \<in> set ss \<Longrightarrow> x \<le> s) \<Longrightarrow> max_seq (ss @ [s]) = s"
proof -
  have fold_snoc: "fold max (ss @ [s]) y = max s (fold max ss y)" for y by simp
  have "y \<le> s \<Longrightarrow> (\<And>x. x \<in> set ss \<Longrightarrow> x \<le> s) \<Longrightarrow> fold max ss y \<le> s" for y ss
    by (induction ss arbitrary: y) auto
  then show "(\<And>x. x \<in> set ss \<Longrightarrow> x \<le> s) \<Longrightarrow> max_seq (ss @ [s]) = s"
    by (cases ss) (auto simp: max_seq_def max_def intro!: antisym)
qed

lemma max_seq_numbered: "rs \<noteq> [] \<Longrightarrow> max_seq (List.map ar_seq (numbered 10 rs)) = 10 * int (length rs)"
proof (induction rs rule: rev_induct)
  case (snoc r rs)
  have "max_seq (List.map (\<lambda>i. 10 + 10 * int i) [0..<length rs] @ [10 + 10 * int (length rs)]) =
      10 + 10 * int (length rs)"
    by (rule max_seq_snoc) auto
  then show ?case by (simp add: numbered_seqs)
qed simp

lemma enter_rules:
  assumes "dget (acls f d) name = None" "rs \<noteq> []"
  shows "dget (acls (fold (enter_rule d name) rs f) d) name = Some (numbered 10 rs)"
  using assms(2)
proof (induction rs rule: rev_induct)
  case (snoc r rs)
  obtain action protocol src dst sp dp where r: "r = (action, protocol, src, dst, sp, dp)" by (cases r)
  show ?case
  proof (cases "rs = []")
    case True
    with assms(1) show ?thesis
      by (simp add: r enter_rule_def add_rule_def dget_or_def max_seq_def)
  next
    case False
    let ?f = "fold (enter_rule d name) rs f"
    have rules: "dget (acls ?f d) name = Some (numbered 10 rs)" using snoc.IH False .
    let ?new = "\<lparr>ar_seq = 10 * int (length rs) + 10, ar_action = action, ar_protocol = protocol,
      ar_src = src, ar_dst = dst, ar_src_port = sp, ar_dst_port = dp\<rparr>"
    have seqs: "set (List.map ar_seq (numbered 10 rs)) \<subseteq> {10..10 * int (length rs)}"
      by (auto simp: numbered_seqs)
    have "sort_key ar_seq (numbered 10 rs @ [?new]) = numbered 10 rs @ [?new]"
    proof (rule sort_key_snoc)
      show "sorted (List.map ar_seq (numbered 10 rs))"
        unfolding numbered_seqs by (rule sorted_iff_nth_mono [THEN iffD2]) auto
      show "\<forall>x\<in>set (numbered 10 rs). ar_seq x \<le> ar_seq ?new" using seqs by auto
    qed
    with rules show ?thesis
      by (simp add: r enter_rule_def add_rule_def dget_or_def max_seq_numbered [OF False]
          numbered_snoc algebra_simps Let_def)
  qed
qed simp

text \<open>An access list built by entering rules without sequence numbers holds them in the order of
  entry, numbered 10, 20, 30, ..., so the evaluation order is the configuration order.\<close>

theorem rules_in_entry_order:
  "rs \<noteq> [] \<Longrightarrow> dget (acls (fold (enter_rule d name) rs (\<lparr>acls = \<lambda>_. [], applied = ap\<rparr>)) d) name
     = Some (numbered 10 rs)"
  by (rule enter_rules) simp_all

theorem rules_in_entry_order_witness:
  "dget (acls (fold (enter_rule ''r1'' ''100'') [(''deny'', ''tcp'', ''any'', ''any'', None, Some ''23''),
      (''permit'', ''ip'', ''any'', ''any'', None, None)] (\<lparr>acls = \<lambda>_. [], applied = \<lambda>_. []\<rparr>)) ''r1'') ''100''
    = Some (numbered 10 [(''deny'', ''tcp'', ''any'', ''any'', None, Some ''23''),
      (''permit'', ''ip'', ''any'', ''any'', None, None)])"
  by (rule rules_in_entry_order) simp

subsection \<open>What a packet filter permits\<close>

text \<open>A packet passes a bound, non-empty access list exactly when the first rule that it hits, with
  every earlier rule tested without an exception and missed, says permit; no hit means deny.\<close>

theorem check_packet_first_match:
  "check_packet f d i direction p = Inr True \<longleftrightarrow>
     (case dget (applied f d) (i, direction) of
        None \<Rightarrow> True
      | Some name \<Rightarrow>
          name = [] \<or> dget_or (acls f d) name [] = [] \<or>
          (\<exists>xs r ys. dget_or (acls f d) name [] = xs @ r # ys \<and>
             list_all (\<lambda>x. rule_hit x p = Inr False) xs \<and> rule_hit r p = Inr True \<and>
             ar_action r = ''permit''))"
  unfolding check_packet_def Let_def
  by (auto simp: pkt.permit_iff list_all_iff split: option.splits)

text \<open>An access-list rule is dead once an earlier rule matches everything it matches: deleting it
  changes no verdict.\<close>

theorem shadowed_acl_rule:
  assumes "r0 \<in> set xs" "\<And>q. rule_hit r q = Inr True \<Longrightarrow> rule_hit r0 q = Inr True"
    "\<And>q e. rule_hit r q \<noteq> Inl e"
  shows "check_rules (xs @ r # ys) p = check_rules (xs @ ys) p"
  using assms by (rule pkt.shadowed_rule)

definition any_rule :: "string \<Rightarrow> string \<Rightarrow> acl_rule" where
  "any_rule action protocol = \<lparr>ar_seq = 10, ar_action = action, ar_protocol = protocol, ar_src = ''any'',
     ar_dst = ''any'', ar_src_port = None, ar_dst_port = None\<rparr>"

lemma match_any: "match_addr ''any'' a = Inr True"
proof -
  have "strip ''any'' = ''any''" by code_simp
  then show ?thesis by (simp add: match_addr_def)
qed

definition telnet_packet :: packet where
  "telnet_packet = \<lparr>pk_src = ''10.0.0.1'', pk_dst = ''10.0.0.2'', pk_protocol = ''tcp'',
     pk_dst_port = Some ''23''\<rparr>"

theorem shadowed_acl_rule_witness:
  "check_rules [any_rule ''deny'' ''ip'', any_rule ''permit'' ''tcp''] telnet_packet =
   check_rules [any_rule ''deny'' ''ip''] telnet_packet"
proof -
  have "check_rules ([any_rule ''deny'' ''ip''] @ any_rule ''permit'' ''tcp'' # []) telnet_packet =
      check_rules ([any_rule ''deny'' ''ip''] @ []) telnet_packet"
    by (rule shadowed_acl_rule [of "any_rule ''deny'' ''ip''"])
       (auto simp: any_rule_def rule_hit_def match_any truthy_def)
  then show ?thesis by simp
qed

subsection \<open>Two spellings of one network\<close>

lemma match_addr_wildcard:
  "match_addr (int_to_ip a @ CHR '' '' # int_to_ip w) addr =
     Inr (same_under (res_bind (to_int (int_to_ip w)) (\<lambda>wc. Inr (NOT wc AND u32_max))) addr (int_to_ip a))"
proof -
  let ?s = "int_to_ip a @ CHR '' '' # int_to_ip w"
  have ns: "\<forall>c\<in>set (int_to_ip n). \<not> is_space c" for n
    using int_to_ip_dotted dotted_char_not by blast
  obtain c cs where c: "int_to_ip a = c # cs" by (cases "int_to_ip a") auto
  then have dc: "dotted_char c" using int_to_ip_dotted [of c a] by simp
  have "strip ?s = ?s" using ns [of a] ns [of w] by (intro strip_bounds) auto
  moreover have "split_ws ?s = [int_to_ip a, int_to_ip w]" using ns by (intro split_ws_two) auto
  moreover have "?s \<noteq> ''any''" "\<not> starts_with ?s ''host ''"
    using dotted_char_not [OF dc] by (auto simp: c starts_with_def)
  ultimately show ?thesis by (simp add: match_addr_def count_dots_int_to_ip)
qed

lemma match_addr_slash:
  assumes "0 \<le> p"
  shows "match_addr (int_to_ip a @ CHR ''/'' # show_int p) addr = Inr (same_under (netmask p) addr (int_to_ip a))"
proof -
  let ?s = "int_to_ip a @ CHR ''/'' # show_int p"
  have ns: "\<forall>c\<in>set (int_to_ip n). \<not> is_space c \<and> c \<noteq> CHR ''/''" for n
    using int_to_ip_dotted dotted_char_not by blast
  have np: "\<forall>c\<in>set (show_int p). \<not> is_space c \<and> c \<noteq> CHR ''/''"
    using show_int_digits [OF assms] dotted_char_not by (auto simp: dotted_char_def)
  obtain c cs where c: "int_to_ip a = c # cs" by (cases "int_to_ip a") auto
  then have dc: "dotted_char c" using int_to_ip_dotted [of c a] by simp
  have sl: "\<not> is_space (CHR ''/'')" by (simp add: is_space_def code_of_def)
  have all: "\<forall>c\<in>set ?s. \<not> is_space c" using ns np sl by auto
  then have "strip ?s = ?s" by (rule strip_no_space)
  moreover have "split_ws ?s = [?s]" using all by (rule split_ws_one) simp
  moreover have "?s \<noteq> ''any''" "\<not> starts_with ?s ''host ''"
    using dotted_char_not [OF dc] by (auto simp: c starts_with_def)
  moreover have "split_on (CHR ''/'') ?s = [int_to_ip a, show_int p]"
  proof -
    have 1: "CHR ''/'' \<notin> set (int_to_ip a)" using ns [of a] by blast
    have 2: "split_on (CHR ''/'') (show_int p) = [show_int p]"
      using np by (intro split_on_no_sep) blast
    show ?thesis by (rule split_on_append [OF 1, of "show_int p", unfolded 2])
  qed
  ultimately show ?thesis using assms by (simp add: match_addr_def py_int_show_int)
qed

text \<open>The Cisco spelling of a source or destination (address and wildcard mask) and the Si-R
  spelling (address/length) of the same network match the same addresses.\<close>

theorem wildcard_equals_prefix:
  assumes "0 \<le> p" "p \<le> 32"
  shows "match_addr (int_to_ip a @ CHR '' '' # int_to_ip (2 ^ nat (32 - p) - 1)) addr =
         match_addr (int_to_ip a @ CHR ''/'' # show_int p) addr"
proof -
  have w: "to_int (int_to_ip (2 ^ nat (32 - p) - 1)) = Inr (2 ^ nat (32 - p) - 1)"
    using wildcard_range [OF assms(1)] by (intro to_int_int_to_ip) auto
  have "res_bind (to_int (int_to_ip (2 ^ nat (32 - p) - 1))) (\<lambda>wc. Inr (NOT wc AND u32_max)) = netmask p"
    using assms by (simp only: w res_bind.simps mask_int_wildcard netmask_eq) simp
  then show ?thesis by (simp only: match_addr_wildcard match_addr_slash [OF assms(1)])
qed

theorem wildcard_equals_prefix_witness:
  "match_addr (int_to_ip 167772160 @ CHR '' '' # int_to_ip (2 ^ nat (32 - 24) - 1)) ''10.0.0.7'' =
   match_addr (int_to_ip 167772160 @ CHR ''/'' # show_int 24) ''10.0.0.7''"
  by (rule wildcard_equals_prefix) simp_all

subsection \<open>What a prefix list permits\<close>

lemma match_entry_iff:
  "match_entry e network prefix \<longleftrightarrow>
     ip_in_network network (pe_network e) (pe_prefix e) \<and>
     (if pe_ge e = None \<and> pe_le e = None then prefix = pe_prefix e
      else (case pe_ge e of None \<Rightarrow> True | Some g \<Rightarrow> g \<le> prefix) \<and>
           (case pe_le e of None \<Rightarrow> True | Some l \<Rightarrow> prefix \<le> l))"
  by (auto simp: match_entry_def ip_in_network_iff netmask_eq split: sum.splits option.splits)

text \<open>A prefix list decides by its first matching entry, denies when there is none and permits
  everything when the list is not defined; an entry matches when the route lies in the entry's network
  and its length satisfies the bounds (or equals the entry's length when there are none).\<close>

theorem prefix_list_first_match:
  "check_prefix_list f d name network prefix =
     (case dget (prefix_lists f d) name of
        None \<Rightarrow> True
      | Some es \<Rightarrow>
          (case find (\<lambda>e. ip_in_network network (pe_network e) (pe_prefix e) \<and>
                  (if pe_ge e = None \<and> pe_le e = None then prefix = pe_prefix e
                   else (case pe_ge e of None \<Rightarrow> True | Some g \<Rightarrow> g \<le> prefix) \<and>
                        (case pe_le e of None \<Rightarrow> True | Some l \<Rightarrow> prefix \<le> l))) es of
             None \<Rightarrow> False
           | Some e \<Rightarrow> pe_action e = ''permit''))"
proof -
  have "check_entries es r = (case find (\<lambda>e. match_entry e (fst r) (snd r)) es of
      None \<Rightarrow> False | Some e \<Rightarrow> pe_action e = ''permit'')" for es r
    by (induction es) auto
  then show ?thesis by (simp add: check_prefix_list_def match_entry_iff split: option.splits)
qed

text \<open>An entry with an upper bound only (\<open>le\<close>) does not require the route to be at least as long as
  the entry: it also matches the covering, shorter routes whose first bits agree, down to length 0.\<close>

theorem le_entry_matches_shorter:
  assumes "pe_ge e = None" "pe_le e = Some l" "ip_in_network network (pe_network e) (pe_prefix e)"
  shows "match_entry e network prefix \<longleftrightarrow> prefix \<le> l"
  using assms by (simp add: match_entry_iff)

theorem le_entry_matches_shorter_witness:
  "match_entry \<lparr>pe_seq = 5, pe_action = ''permit'', pe_network = ''10.0.0.0'', pe_prefix = 8,
     pe_ge = None, pe_le = Some 24\<rparr> ''10.0.0.0'' 4"
proof -
  have "ip_in_network ''10.0.0.0'' ''10.0.0.0'' 8" by code_simp
  then show ?thesis by (subst le_entry_matches_shorter [where l = 24]) simp_all
qed

text \<open>Filtering a route set through a distribute list keeps exactly the permitted routes, in order,
  and filtering twice is filtering once.\<close>

theorem filter_routes_idempotent:
  "filter_routes f d proto direction dest (filter_routes f d proto direction dest routes) =
   filter_routes f d proto direction dest routes \<and>
   set (filter_routes f d proto direction dest routes) \<subseteq> set routes"
  by (auto simp: filter_routes_def split: option.splits)

end
