(* ===== verification/Graph.thy ===== *)
theory Graph
  imports PyPrelude
begin

text \<open>
  Worklist searches over an adjacency dictionary. \<open>path_search\<close> is the breadth-first search of
  \<open>VirtualNetwork._has_path\<close>: the queue holds whole paths, a node is marked when it is enqueued, the
  first path whose last node is the target is the answer and \<open>[]\<close> means that there is none. Its
  correctness (sound, complete, terminating) is proved once here.
\<close>

type_synonym 'a adj = "('a, 'a list) dict"

definition nbrs :: "'a adj \<Rightarrow> 'a \<Rightarrow> 'a list" where
  "nbrs g n = (case dget g n of None \<Rightarrow> [] | Some ns \<Rightarrow> ns)"

definition targets :: "'a adj \<Rightarrow> 'a set" where
  "targets g = (\<Union>ns\<in>set (dvals g). set ns)"

lemma finite_targets [simp]: "finite (targets g)"
  by (simp add: targets_def)

lemma nbrs_targets: "set (nbrs g n) \<subseteq> targets g"
proof (cases "dget g n")
  case (Some ns)
  then have "ns \<in> set (dvals g)" by (force simp: dvals_def dest: dget_SomeD)
  with Some show ?thesis by (auto simp: nbrs_def targets_def)
qed (simp add: nbrs_def)

text \<open>The inner loop: enqueue the neighbours that are not marked yet, marking them.\<close>

fun extend :: "'a list \<Rightarrow> 'a list \<Rightarrow> 'a list \<Rightarrow> 'a list list \<Rightarrow> 'a list \<times> 'a list list" where
  "extend path [] visited q = (visited, q)"
| "extend path (n # ns) visited q =
     (if n \<in> set visited then extend path ns visited q
      else extend path ns (n # visited) (q @ [path @ [n]]))"

lemma extend_measure:
  assumes "extend path ns visited q = (v', q')" "set ns \<subseteq> T" "finite T"
  shows "length q' + card (T - set v') = length q + card (T - set visited)"
  using assms
proof (induction path ns visited q rule: extend.induct)
  case (2 path n ns visited q)
  show ?case
  proof (cases "n \<in> set visited")
    case False
    have "card (T - set visited) = Suc (card (T - insert n (set visited)))"
    proof -
      have "T - insert n (set visited) = (T - set visited) - {n}" by auto
      moreover have "n \<in> T - set visited" using 2 False by auto
      ultimately show ?thesis using \<open>finite T\<close> by (metis card_Suc_Diff1 finite_Diff)
    qed
    then show ?thesis using 2 False by auto
  qed (use 2 in auto)
qed simp

lemma extend_spec:
  assumes "extend path ns visited q = (v', q')"
  shows "\<exists>new. q' = q @ List.map (\<lambda>n. path @ [n]) new \<and> set v' = set visited \<union> set new \<and>
     set new = set ns - set visited"
  using assms
proof (induction path ns visited q rule: extend.induct)
  case (2 path n ns visited q)
  show ?case
  proof (cases "n \<in> set visited")
    case True
    with 2 show ?thesis by auto
  next
    case False
    with 2 obtain new where "q' = (q @ [path @ [n]]) @ List.map (\<lambda>n. path @ [n]) new"
      "set v' = set (n # visited) \<union> set new" "set new = set ns - set (n # visited)" by auto
    then show ?thesis using False by (intro exI [of _ "n # new"]) auto
  qed
qed simp

function path_search :: "'a adj \<Rightarrow> 'a \<Rightarrow> 'a list list \<Rightarrow> 'a list \<Rightarrow> 'a list" where
  "path_search g dst [] visited = []"
| "path_search g dst (path # q) visited =
     (if last path = dst then path
      else let (v', q') = extend path (nbrs g (last path)) visited q
           in path_search g dst q' v')"
  by pat_completeness auto
termination
proof (relation "measure (\<lambda>(g, dst, q, visited). length q + card (targets g - set visited))", simp, clarsimp)
  fix g :: "'a adj" and dst :: 'a and path q visited v' q'
  assume "(v', q') = extend path (nbrs g (last path)) visited q"
  then have "length q' + card (targets g - set v') = length q + card (targets g - set visited)"
    by (intro extend_measure) (auto dest: sym nbrs_targets [THEN subsetD])
  then show "length q' + card (targets g - set v') < Suc (length q + card (targets g - set visited))"
    by simp
qed

fun walk :: "'a adj \<Rightarrow> 'a list \<Rightarrow> bool" where
  "walk g [] = False"
| "walk g [x] = True"
| "walk g (x # y # ys) = (y \<in> set (nbrs g x) \<and> walk g (y # ys))"

lemma walk_snoc: "walk g p \<Longrightarrow> n \<in> set (nbrs g (last p)) \<Longrightarrow> walk g (p @ [n])"
  by (induction g p rule: walk.induct) auto

lemma path_search_sound:
  assumes "\<forall>p\<in>set q. walk g p \<and> hd p = s" "path_search g dst q visited \<noteq> []"
  shows "walk g (path_search g dst q visited) \<and> hd (path_search g dst q visited) = s \<and>
         last (path_search g dst q visited) = dst"
  using assms
proof (induction g dst q visited rule: path_search.induct)
  case (2 g dst path q visited)
  show ?case
  proof (cases "last path = dst")
    case True
    with 2 show ?thesis by simp
  next
    case False
    obtain v' q' where e: "extend path (nbrs g (last path)) visited q = (v', q')" by fastforce
    from extend_spec [OF e] obtain new where
      new: "q' = q @ List.map (\<lambda>n. path @ [n]) new" "set new \<subseteq> set (nbrs g (last path))" by auto
    have "path \<noteq> []" "walk g path" "hd path = s" using "2.prems"(1) by auto
    then have "\<forall>p\<in>set q'. walk g p \<and> hd p = s"
      using "2.prems"(1) new by (auto intro!: walk_snoc)
    then show ?thesis using 2(1) [OF False e [symmetric]] "2.prems" False e by simp
  qed
qed simp

text \<open>
  Completeness by the usual invariant: the marked nodes that are not waiting in the queue have all
  their neighbours marked, and the target is not among them.
\<close>

definition closed_but :: "'a adj \<Rightarrow> 'a list list \<Rightarrow> 'a list \<Rightarrow> bool" where
  "closed_but g q visited \<longleftrightarrow>
     (\<forall>x\<in>set visited - last ` set q. set (nbrs g x) \<subseteq> set visited)"

lemma path_search_Nil:
  assumes "path_search g dst q visited = []" "[] \<notin> set q" "closed_but g q visited"
    "last ` set q \<subseteq> set visited" "dst \<notin> set visited - last ` set q"
  shows "\<exists>V. set visited \<subseteq> V \<and> dst \<notin> V \<and> (\<forall>x\<in>V. set (nbrs g x) \<subseteq> V)"
  using assms
proof (induction g dst q visited rule: path_search.induct)
  case (1 g dst visited)
  then show ?case by (auto simp: closed_but_def intro!: exI [of _ "set visited"])
next
  case (2 g dst path q visited)
  then have False': "last path \<noteq> dst" by (auto split: if_splits)
  obtain v' q' where e: "extend path (nbrs g (last path)) visited q = (v', q')" by fastforce
  from extend_spec [OF e] obtain new where
    new: "q' = q @ List.map (\<lambda>n. path @ [n]) new" "set v' = set visited \<union> set new"
      "set new = set (nbrs g (last path)) - set visited" by auto
  have img: "last ` set q' = last ` set q \<union> set new" using new(1) by force
  have "\<exists>V. set v' \<subseteq> V \<and> dst \<notin> V \<and> (\<forall>x\<in>V. set (nbrs g x) \<subseteq> V)"
  proof (rule 2(1) [OF False' e [symmetric] refl])
    show "path_search g dst q' v' = []" using "2.prems"(1) False' e by simp
    show "[] \<notin> set q'" using "2.prems"(2) new(1) by auto
    show "closed_but g q' v'"
      unfolding closed_but_def img new(2) using "2.prems"(3) new(3)
      by (fastforce simp: closed_but_def)
    show "last ` set q' \<subseteq> set v'" using "2.prems"(4) new(2) img by auto
    show "dst \<notin> set v' - last ` set q'" using "2.prems"(5) False' new(2) img by auto
  qed
  then show ?case using new(2) by auto
qed

lemma closed_walk:
  assumes "\<forall>x\<in>V. set (nbrs g x) \<subseteq> V" "walk g p" "hd p \<in> V"
  shows "last p \<in> V"
  using assms
proof (induction g p rule: walk.induct)
  case (3 g x y ys)
  then have "y \<in> V" by auto
  with 3 show ?case by auto
qed auto

theorem path_search_complete:
  assumes "walk g p" "hd p = s" "last p = dst"
  shows "path_search g dst [[s]] [s] \<noteq> []"
proof
  assume "path_search g dst [[s]] [s] = []"
  then obtain V where "s \<in> V" "dst \<notin> V" "\<forall>x\<in>V. set (nbrs g x) \<subseteq> V"
    using path_search_Nil [of g dst "[[s]]" "[s]"] by (auto simp: closed_but_def)
  with closed_walk [of V g p] assms show False by auto
qed

end
