(* ===== verification/Machine.thy ===== *)
theory Machine
  imports Main
begin

text \<open>
  The contract of a component as a state machine: an initial state, one step function over the
  component's operations and an invariant that holds initially and that every operation keeps. The
  engines of the emulator interpret it on their own operations; the lemmas here lift the invariant to
  every sequence of operations and to every state on the way.
\<close>

locale machine =
  fixes step :: "'op \<Rightarrow> 's \<Rightarrow> 's"
    and init :: 's
    and inv :: "'s \<Rightarrow> bool"
  assumes inv_init: "inv init"
    and inv_step: "inv s \<Longrightarrow> inv (step op s)"
begin

lemma inv_fold: "inv s \<Longrightarrow> inv (fold step ops s)"
  by (induction ops arbitrary: s) (simp_all add: inv_step)

lemma run_inv: "inv (fold step ops init)"
  by (rule inv_fold) (rule inv_init)

lemma run_prefix_inv: "ops = xs @ ys \<Longrightarrow> inv (fold step xs init)"
  by (rule run_inv)

end

text \<open>A machine whose steps also keep a relation between successive states (a bound that only grows,
  an identity that never changes).\<close>

locale monotone_machine = machine step init inv
  for step :: "'op \<Rightarrow> 's \<Rightarrow> 's" and init :: 's and inv :: "'s \<Rightarrow> bool" +
  fixes le :: "'s \<Rightarrow> 's \<Rightarrow> bool"
  assumes le_refl: "le s s"
    and le_trans: "le s t \<Longrightarrow> le t u \<Longrightarrow> le s u"
    and le_step: "inv s \<Longrightarrow> le s (step op s)"
begin

lemma le_fold: "inv s \<Longrightarrow> le s (fold step ops s)"
proof (induction ops arbitrary: s)
  case Nil
  show ?case by (simp add: le_refl)
next
  case (Cons op ops)
  then have "le (step op s) (fold step ops (step op s))" by (simp add: inv_step)
  with le_step [OF Cons.prems] show ?case by (auto intro: le_trans)
qed

end

end
