(* ===== verification/VNet.thy ===== *)
theory VNet
  imports NetData Graph Machine
begin

text \<open>
  The virtual network, \<open>class VirtualNetwork\<close>: the links between devices, the interfaces they run
  over, which interfaces are shut down, and the rules by which a protocol packet reaches a neighbour
  (link state at both ends, VLAN tags, common segment, flooding through switches).

  A \<open>defaultdict(set)\<close> that is only read through \<open>get\<close> is a total function here; \<open>links\<close> stays a
  dictionary. Every send is an element of the list an operation returns, in the order of the sends.
\<close>

subsection \<open>State\<close>

datatype ws_entry = Callback | HostnameOf string

record vnet =
  links :: "dev adj"
  interface_links :: "dev \<Rightarrow> (dev, iface) dict"
  down_interfaces :: "dev \<Rightarrow> iface list"
  ws_send_callbacks :: "(string, ws_entry) dict"
  device_types :: "(dev, string) dict"
  subif_vlans :: "(dev, (iface, int) dict) dict"
  link_ifaces :: "dev \<Rightarrow> dev \<Rightarrow> iface list"

definition vnet_init :: vnet where
  "vnet_init = \<lparr>links = [], interface_links = (\<lambda>_. []), down_interfaces = (\<lambda>_. []),
     ws_send_callbacks = [], device_types = [], subif_vlans = [], link_ifaces = (\<lambda>_ _. [])\<rparr>"

text \<open>What the sends of \<open>VirtualNetwork\<close> depend on in the other engines: the VLAN engine's ports,
  the address book, and which devices run OSPF, RIP and EIGRP.\<close>

record l2env =
  vlan_ports :: "dev \<Rightarrow> vlan_port list"
  address_book :: "(dev, device_info) dict"
  ospf_enabled :: "dev \<Rightarrow> bool"
  rip_node :: "dev \<Rightarrow> bool"
  eigrp_enabled :: "dev \<Rightarrow> bool"

definition get_neighbors :: "vnet \<Rightarrow> dev \<Rightarrow> dev list" where
  "get_neighbors v d = nbrs (links v) d"

definition has_path :: "vnet \<Rightarrow> dev \<Rightarrow> dev \<Rightarrow> dev list" where
  "has_path v src dst = path_search (links v) dst [[src]] [src]"

subsection \<open>Loop notifications\<close>

datatype vnet_event =
    StpLog dev string
  | BumpIn dev iface int int

definition switch_types :: "string list" where
  "switch_types = [''catalyst'', ''srs'', ''apresia'', ''nexus'']"

definition is_switch :: "vnet \<Rightarrow> dev \<Rightarrow> bool" where
  "is_switch v d \<longleftrightarrow> dget_or (device_types v) d '''' \<in> set switch_types"

definition port_towards :: "vnet \<Rightarrow> dev \<Rightarrow> dev \<Rightarrow> string" where
  "port_towards v d peer = dget_or (interface_links v d) peer peer"

text \<open>\<open>hash\<close> is Python's randomised string hash: a parameter.\<close>

definition flap_mac :: "(string \<Rightarrow> int) \<Rightarrow> dev \<Rightarrow> string" where
  "flap_mac pyhash far =
     (let h = \<bar>pyhash far\<bar> mod 16 ^ 8
      in ''00:1b:0d:'' @ hex_byte (octet 16 h) @ '':'' @ hex_byte (octet 8 h) @ '':'' @ hex_byte (octet 0 h))"

definition notify_mac_flap ::
  "(string \<Rightarrow> int) \<Rightarrow> vnet \<Rightarrow> dev \<Rightarrow> dev \<Rightarrow> dev list \<Rightarrow> vnet_event list" where
  "notify_mac_flap pyhash v a b loop_path =
     (let loop_nodes = remdups (loop_path @ [a, b])
      in concat (List.map (\<lambda>d.
           if \<not> is_switch v d then []
           else case filter (\<lambda>n. n \<in> set loop_nodes \<and> n \<noteq> d) (get_neighbors v d) of
                  n0 # n1 # _ \<Rightarrow>
                    [StpLog d (''%SW_MATM-4-MACFLAP_NOTIF: Host '' @ flap_mac pyhash n0 @
                        '' in vlan 1 is flapping between port '' @ port_towards v d n0 @
                        '' and port '' @ port_towards v d n1),
                     StpLog d (''%SPANTREE-2-LOOPGUARD_BLOCK: Loop guard blocking port '' @
                        port_towards v d n1 @ '' on vlan 1'')]
                | _ \<Rightarrow> []) loop_nodes))"

definition notify_broadcast_storm :: "vnet \<Rightarrow> dev list \<Rightarrow> vnet_event list" where
  "notify_broadcast_storm v loop_nodes =
     concat (List.map (\<lambda>d.
       if \<not> is_switch v d then []
       else concat (List.map (\<lambda>peer.
              let port = port_towards v d peer
              in [BumpIn d port 100000 64,
                  StpLog d (''%STORM_CONTROL-3-FILTERED: A Broadcast storm detected on '' @ port @
                     ''. A packet filter action has been applied on the interface.''),
                  StpLog d (''%PM-4-ERR_DISABLE: storm-control error detected on '' @ port @
                     '', putting '' @ port @ '' in err-disable state'')])
            (filter (\<lambda>n. n \<in> set loop_nodes \<and> n \<noteq> d) (get_neighbors v d)))) loop_nodes)"

definition notify_loop_events ::
  "(string \<Rightarrow> int) \<Rightarrow> vnet \<Rightarrow> dev \<Rightarrow> dev \<Rightarrow> dev list \<Rightarrow> vnet_event list" where
  "notify_loop_events pyhash v a b loop_path =
     notify_mac_flap pyhash v a b loop_path @
     notify_broadcast_storm v (remdups (loop_path @ [a, b]))"

subsection \<open>Links\<close>

definition link_to :: "dev \<Rightarrow> dev \<Rightarrow> dev adj \<Rightarrow> dev adj" where
  "link_to a b g = dset g a (sadd (nbrs g a) b)"

definition unlink_from :: "dev \<Rightarrow> dev \<Rightarrow> dev adj \<Rightarrow> dev adj" where
  "unlink_from a b g = dset g a (sdiscard (nbrs g a) b)"

definition record_iface :: "dev \<Rightarrow> dev \<Rightarrow> iface option \<Rightarrow> vnet \<Rightarrow> vnet" where
  "record_iface a b i v =
     (case i of
        None \<Rightarrow> v
      | Some n \<Rightarrow>
          if n = [] then v
          else v\<lparr>interface_links := (interface_links v)(a := dset (interface_links v a) b n),
                 link_ifaces := (link_ifaces v)(a := (link_ifaces v a)(b := sadd (link_ifaces v a b) n))\<rparr>)"

text \<open>\<open>add_link\<close>: the new state and the loop path found before the link was added (\<open>[]\<close>: no loop).\<close>

definition add_link ::
  "vnet \<Rightarrow> dev \<Rightarrow> dev \<Rightarrow> iface option \<Rightarrow> iface option \<Rightarrow> vnet \<times> dev list" where
  "add_link v a b ia ib =
     (let loop_path = (if b \<notin> set (get_neighbors v a) then has_path v a b else []);
          v1 = v\<lparr>links := link_to b a (link_to a b (links v))\<rparr>;
          v2 = record_iface b a ib (record_iface a b ia v1)
      in (v2, loop_path))"

definition add_link_events ::
  "(string \<Rightarrow> int) \<Rightarrow> vnet \<Rightarrow> dev \<Rightarrow> dev \<Rightarrow> iface option \<Rightarrow> iface option \<Rightarrow> vnet_event list" where
  "add_link_events pyhash v a b ia ib =
     (case add_link v a b ia ib of (v', loop_path) \<Rightarrow>
        if loop_path = [] then [] else notify_loop_events pyhash v' a b loop_path)"

text \<open>\<open>remove_link\<close> drops the adjacency at both ends and nothing else; it then tells the spanning-tree
  engine that both ports are down.\<close>

definition remove_link :: "vnet \<Rightarrow> dev \<Rightarrow> dev \<Rightarrow> vnet \<times> (dev \<times> dev) list" where
  "remove_link v a b =
     (v\<lparr>links := unlink_from b a (unlink_from a b (links v))\<rparr>, [(a, b), (b, a)])"

definition register :: "vnet \<Rightarrow> dev \<Rightarrow> string \<Rightarrow> vnet" where
  "register v d host =
     (let cbs = dset (ws_send_callbacks v) d Callback
      in v\<lparr>ws_send_callbacks :=
            (if host = [] then cbs else dset cbs (''_hostname_'' @ d) (HostnameOf host))\<rparr>)"

definition unregister :: "vnet \<Rightarrow> dev \<Rightarrow> vnet" where
  "unregister v d =
     v\<lparr>ws_send_callbacks := dpop (ws_send_callbacks v) d,
       links := dpop (fold (\<lambda>p. unlink_from p d) (nbrs (links v) d) (links v)) d\<rparr>"

subsection \<open>Interface names\<close>

definition iface_prefixes :: "string list" where
  "iface_prefixes = [''tengigabitethernet'', ''gigabitethernet'', ''fastethernet'', ''ethernet'',
     ''tengige'', ''te'', ''gi'', ''fa'', ''eth'', ''et'', ''ge'', ''g'', ''e'']"

definition prefix_ends_name :: "string \<Rightarrow> bool" where
  "prefix_ends_name rest \<longleftrightarrow> (case rest of [] \<Rightarrow> True | c # _ \<Rightarrow> is_digit c \<or> c = CHR '' '')"

fun strip_prefixes :: "string list \<Rightarrow> string \<Rightarrow> string" where
  "strip_prefixes [] s = s"
| "strip_prefixes (p # ps) s =
     (if starts_with s p \<and> prefix_ends_name (drop (length p) s)
      then strip (drop (length p) s)
      else strip_prefixes ps s)"

definition norm_iface :: "string \<Rightarrow> string" where
  "norm_iface name = strip_prefixes iface_prefixes (strip (lower name))"

subsection \<open>Link state\<close>

definition ifaces_between :: "vnet \<Rightarrow> dev \<Rightarrow> dev \<Rightarrow> iface list" where
  "ifaces_between v a b =
     (case dget (interface_links v a) b of
        None \<Rightarrow> link_ifaces v a b
      | Some n \<Rightarrow> if n = [] then link_ifaces v a b else sadd (link_ifaces v a b) n)"

definition is_down :: "vnet \<Rightarrow> dev \<Rightarrow> iface \<Rightarrow> bool" where
  "is_down v a i \<longleftrightarrow> norm_iface i \<in> norm_iface ` set (down_interfaces v a)"

definition up_ifaces_between :: "vnet \<Rightarrow> dev \<Rightarrow> dev \<Rightarrow> iface list" where
  "up_ifaces_between v a b = filter (\<lambda>i. \<not> is_down v a i) (ifaces_between v a b)"

definition side_up :: "vnet \<Rightarrow> dev \<Rightarrow> iface list \<Rightarrow> bool" where
  "side_up v a ifs \<longleftrightarrow> (if ifs = [] then True else (\<exists>i\<in>set ifs. \<not> is_down v a i))"

definition edge_up :: "vnet \<Rightarrow> dev \<Rightarrow> dev \<Rightarrow> bool" where
  "edge_up v a b \<longleftrightarrow>
     (let a_ifs = link_ifaces v a b; b_ifs = link_ifaces v b a
      in if a_ifs = [] \<and> b_ifs = [] then True else side_up v a a_ifs \<and> side_up v b b_ifs)"

definition active_neighbors :: "vnet \<Rightarrow> dev \<Rightarrow> dev list" where
  "active_neighbors v d = filter (edge_up v d) (get_neighbors v d)"

definition interface_down :: "vnet \<Rightarrow> dev \<Rightarrow> iface \<Rightarrow> vnet" where
  "interface_down v d i = v\<lparr>down_interfaces := (down_interfaces v)(d := sadd (down_interfaces v d) i)\<rparr>"

definition interface_up :: "vnet \<Rightarrow> dev \<Rightarrow> iface \<Rightarrow> vnet" where
  "interface_up v d i = v\<lparr>down_interfaces := (down_interfaces v)(d := sdiscard (down_interfaces v d) i)\<rparr>"

definition get_peers_on_interface :: "vnet \<Rightarrow> dev \<Rightarrow> iface \<Rightarrow> dev list" where
  "get_peers_on_interface v d i =
     filter (\<lambda>p. \<exists>x\<in>set (ifaces_between v d p). norm_iface x = norm_iface i) (get_neighbors v d)"

definition live_neighbors :: "vnet \<Rightarrow> dev \<Rightarrow> dev list" where
  "live_neighbors v n =
     filter (\<lambda>p. \<not> (ifaces_between v n p \<noteq> [] \<and> up_ifaces_between v n p = []) \<and> edge_up v n p)
       (get_neighbors v n)"

subsection \<open>Segments\<close>

definition subif_tags :: "vnet \<Rightarrow> dev \<Rightarrow> int set" where
  "subif_tags v d = set (dvals (dget_or (subif_vlans v) d []))"

definition vlan_tags_compatible :: "vnet \<Rightarrow> dev \<Rightarrow> dev \<Rightarrow> bool" where
  "vlan_tags_compatible v a b \<longleftrightarrow>
     (let va = subif_tags v a; vb = subif_tags v b
      in if va = {} \<or> vb = {} then True else va \<inter> vb \<noteq> {})"

definition register_subif_vlans :: "vnet \<Rightarrow> dev \<Rightarrow> (iface, int) dict \<Rightarrow> vnet" where
  "register_subif_vlans v d tags =
     v\<lparr>subif_vlans := (if tags = [] then dpop (subif_vlans v) d else dset (subif_vlans v) d tags)\<rparr>"

text \<open>\<open>_get_device_networks\<close>: one bad prefix length makes the whole answer empty.\<close>

fun networks_of :: "(ip \<times> int) list \<Rightarrow> (int \<times> int) list res" where
  "networks_of [] = Inr []"
| "networks_of ((a, p) # rest) =
     (case netmask p of
        Inl e \<Rightarrow> Inl e
      | Inr m \<Rightarrow> res_bind (networks_of rest) (\<lambda>ns. Inr ((ip_to_int a AND m, p) # ns)))"

definition get_device_networks :: "(dev, device_info) dict \<Rightarrow> dev \<Rightarrow> (int \<times> int) list" where
  "get_device_networks devs d = except [] (networks_of (ips_of devs d))"

definition same_segment :: "int \<times> int \<Rightarrow> int \<times> int \<Rightarrow> bool" where
  "same_segment = (\<lambda>(net_a, prefix_a) (net_b, prefix_b).
     (prefix_a = prefix_b \<and> net_a = net_b) \<or>
     (let common = min prefix_a prefix_b
      in net_a AND mask_int common = net_b AND mask_int common \<and>
         (common \<ge> 30 \<or> prefix_a = prefix_b)))"

definition device_vlans :: "l2env \<Rightarrow> dev \<Rightarrow> int set" where
  "device_vlans e d = (\<Union>p\<in>set (vlan_ports e d). port_vlans p)"

definition shares_segment :: "l2env \<Rightarrow> vnet \<Rightarrow> dev \<Rightarrow> dev \<Rightarrow> bool" where
  "shares_segment e v a b \<longleftrightarrow>
     (if vlan_ports e a \<noteq> [] \<and> vlan_ports e b \<noteq> [] \<and> device_vlans e a \<noteq> {} \<and> device_vlans e b \<noteq> {}
      then device_vlans e a \<inter> device_vlans e b \<noteq> {}
      else if \<not> vlan_tags_compatible v a b then False
      else let nets_a = get_device_networks (address_book e) a;
               nets_b = get_device_networks (address_book e) b
           in if nets_a = [] \<or> nets_b = [] then True
              else \<exists>na\<in>set nets_a. \<exists>nb\<in>set nets_b. same_segment na nb)"

subsection \<open>Sending\<close>

definition segment_types :: "string list" where
  "segment_types = [''rip_update'', ''rip_request'', ''rip_packet'', ''eigrp_packet'', ''ospf_hello'',
     ''ospf_lsa'', ''stp_bpdu'', ''vrrp_advert'', ''hsrp_hello'', ''lacp_pdu'']"

definition flooded_types :: "string list" where
  "flooded_types = [''rip_update'', ''rip_request'', ''rip_packet'', ''eigrp_packet'', ''ospf_hello'',
     ''ospf_lsa'']"

definition runs_proto :: "l2env \<Rightarrow> dev \<Rightarrow> string \<Rightarrow> bool" where
  "runs_proto e d t \<longleftrightarrow>
     (if t \<in> {''ospf_hello'', ''ospf_lsa''} then ospf_enabled e d
      else if t \<in> {''rip_update'', ''rip_request'', ''rip_packet''} then rip_node e d
      else if t = ''eigrp_packet'' then eigrp_enabled e d
      else False)"

definition reaches_direct :: "l2env \<Rightarrow> vnet \<Rightarrow> dev \<Rightarrow> string \<Rightarrow> dev list \<Rightarrow> dev \<Rightarrow> bool" where
  "reaches_direct e v src t exclude p \<longleftrightarrow>
     p \<notin> set exclude \<and> edge_up v src p \<and>
     \<not> (down_interfaces v src \<noteq> [] \<and> ifaces_between v src p \<noteq> [] \<and> up_ifaces_between v src p = []) \<and>
     (t \<in> set segment_types \<longrightarrow> shares_segment e v src p)"

text \<open>One turn of the flood loop: the live neighbours of switch \<open>sw\<close>, in order.\<close>

fun flood_scan ::
  "l2env \<Rightarrow> vnet \<Rightarrow> dev \<Rightarrow> string \<Rightarrow> dev list \<Rightarrow> dev list \<Rightarrow> dev list \<Rightarrow> dev list \<times> dev list \<times> dev list" where
  "flood_scan e v src t [] visited queue = (visited, queue, [])"
| "flood_scan e v src t (p # ps) visited queue =
     (if p \<in> set visited then flood_scan e v src t ps visited queue
      else if runs_proto e p t then
        (case flood_scan e v src t ps (p # visited) queue of (vis, q, out) \<Rightarrow>
           (vis, q, if shares_segment e v src p then p # out else out))
      else flood_scan e v src t ps (p # visited) (queue @ [p]))"

lemma flood_scan_measure:
  assumes "flood_scan e v src t ps visited queue = (vis, q, out)" "set ps \<subseteq> T" "finite T"
  shows "length q + card (T - set vis) \<le> length queue + card (T - set visited)"
  using assms
proof (induction e v src t ps visited queue arbitrary: vis q out rule: flood_scan.induct)
  case (2 e v src t p ps visited queue)
  have less: "card (T - insert p (set visited)) < card (T - set visited)" if "p \<notin> set visited"
  proof -
    have "p \<in> T - set visited" using that 2(5) by auto
    moreover have "T - insert p (set visited) = (T - set visited) - {p}" by auto
    ultimately show ?thesis using \<open>finite T\<close> by (metis card_Diff1_less finite_Diff)
  qed
  show ?case
  proof (cases "p \<in> set visited")
    case True
    with 2 show ?thesis by auto
  next
    case False
    show ?thesis
    proof (cases "runs_proto e p t")
      case True
      obtain vis' q' out' where r: "flood_scan e v src t ps (p # visited) queue = (vis', q', out')"
        by (cases "flood_scan e v src t ps (p # visited) queue") auto
      with True False 2 have "length q' + card (T - set vis') \<le> length queue + card (T - set (p # visited))"
        by auto
      moreover have "vis = vis'" "q = q'" using r True False 2(4) by auto
      ultimately show ?thesis using less [OF False] by simp
    next
      case False2: False
      with False 2 have "length q + card (T - set vis) \<le> length (queue @ [p]) + card (T - set (p # visited))"
        by auto
      then show ?thesis using less [OF False] by simp
    qed
  qed
qed auto

function flood_loop ::
  "l2env \<Rightarrow> vnet \<Rightarrow> dev \<Rightarrow> string \<Rightarrow> dev list \<Rightarrow> dev list \<Rightarrow> dev list" where
  "flood_loop e v src t visited [] = []"
| "flood_loop e v src t visited (sw # queue) =
     (case flood_scan e v src t (live_neighbors v sw) visited queue of
        (vis, q, out) \<Rightarrow> out @ flood_loop e v src t vis q)"
  by pat_completeness auto
termination
proof (relation "measure (\<lambda>(e, v, src, t, visited, queue).
    length queue + card (targets (links v) - set visited))", simp, clarsimp)
  fix e :: l2env and v :: vnet and src sw :: dev and t visited queue vis q out
  assume r: "(vis, q, out) = flood_scan e v src t (live_neighbors v sw) visited queue"
  have "set (live_neighbors v sw) \<subseteq> targets (links v)"
    using nbrs_targets [of "links v" sw] by (auto simp: live_neighbors_def get_neighbors_def)
  from flood_scan_measure [OF r [symmetric] this]
  show "length q + card (targets (links v) - set vis)
      < Suc (length queue + card (targets (links v) - set visited))" by simp
qed

definition flood_through_switches :: "l2env \<Rightarrow> vnet \<Rightarrow> dev \<Rightarrow> string \<Rightarrow> dev list" where
  "flood_through_switches e v src t =
     (let direct = live_neighbors v src
      in flood_loop e v src t (src # direct) (filter (\<lambda>p. \<not> runs_proto e p t) direct))"

definition broadcast_to_neighbors ::
  "l2env \<Rightarrow> vnet \<Rightarrow> dev \<Rightarrow> string \<Rightarrow> dev list \<Rightarrow> dev list" where
  "broadcast_to_neighbors e v src t exclude =
     filter (reaches_direct e v src t exclude) (get_neighbors v src) @
     (if t \<in> set flooded_types then flood_through_switches e v src t else [])"

subsection \<open>The links are an undirected graph\<close>

datatype vnet_op =
    AddLink dev dev "iface option" "iface option"
  | RemoveLink dev dev
  | Unregister dev
  | Register dev string
  | IfaceDown dev iface
  | IfaceUp dev iface
  | SubifVlans dev "(iface, int) dict"

fun vnet_apply :: "vnet_op \<Rightarrow> vnet \<Rightarrow> vnet" where
  "vnet_apply (AddLink a b ia ib) v = fst (add_link v a b ia ib)"
| "vnet_apply (RemoveLink a b) v = fst (remove_link v a b)"
| "vnet_apply (Unregister d) v = unregister v d"
| "vnet_apply (Register d host) v = register v d host"
| "vnet_apply (IfaceDown d i) v = interface_down v d i"
| "vnet_apply (IfaceUp d i) v = interface_up v d i"
| "vnet_apply (SubifVlans d tags) v = register_subif_vlans v d tags"

definition links_ok :: "dev adj \<Rightarrow> bool" where
  "links_ok g \<longleftrightarrow> (\<forall>a b. b \<in> set (nbrs g a) \<longleftrightarrow> a \<in> set (nbrs g b)) \<and> (\<forall>a. distinct (nbrs g a))"

lemma nbrs_dset [simp]: "nbrs (dset g a ns) x = (if x = a then ns else nbrs g x)"
  by (simp add: nbrs_def)

lemma nbrs_dpop [simp]: "nbrs (dpop g a) x = (if x = a then [] else nbrs g x)"
  by (simp add: nbrs_def)

lemma nbrs_Nil [simp]: "nbrs [] x = []"
  by (simp add: nbrs_def)

lemma record_iface_links [simp]: "links (record_iface a b i v) = links v"
  by (simp add: record_iface_def split: option.splits)

lemma links_add_link [simp]: "links (fst (add_link v a b ia ib)) = link_to b a (link_to a b (links v))"
  by (simp add: add_link_def Let_def)

lemma nbrs_link_to: "nbrs (link_to a b g) x = (if x = a then sadd (nbrs g a) b else nbrs g x)"
  by (simp add: link_to_def)

lemma nbrs_unlink_from: "nbrs (unlink_from a b g) x = (if x = a then sdiscard (nbrs g a) b else nbrs g x)"
  by (simp add: unlink_from_def)

lemma links_ok_link: "links_ok g \<Longrightarrow> links_ok (link_to b a (link_to a b g))"
  by (auto simp: links_ok_def nbrs_link_to)

lemma links_ok_unlink: "links_ok g \<Longrightarrow> links_ok (unlink_from b a (unlink_from a b g))"
  by (auto simp: links_ok_def nbrs_unlink_from)

lemma nbrs_fold_unlink:
  "nbrs (fold (\<lambda>p. unlink_from p d) ps g) x =
     (if x \<in> set ps then sdiscard (nbrs g x) d else nbrs g x)"
proof (induction ps arbitrary: g)
  case (Cons p ps)
  then show ?case by (auto simp: nbrs_unlink_from sdiscard_def)
qed simp

lemma links_ok_unregister: "links_ok (links v) \<Longrightarrow> links_ok (links (unregister v d))"
  by (auto simp: links_ok_def unregister_def nbrs_fold_unlink)

lemma links_ok_apply: "links_ok (links v) \<Longrightarrow> links_ok (links (vnet_apply op v))"
proof (cases op)
  case (AddLink a b ia ib)
  then show "links_ok (links v) \<Longrightarrow> ?thesis" by (simp add: links_ok_link)
next
  case (RemoveLink a b)
  then show "links_ok (links v) \<Longrightarrow> ?thesis" by (simp add: remove_link_def links_ok_unlink)
next
  case (Unregister d)
  then show "links_ok (links v) \<Longrightarrow> ?thesis" by (simp add: links_ok_unregister)
qed (simp_all add: register_def interface_down_def interface_up_def register_subif_vlans_def Let_def)

interpretation vnet_run: machine vnet_apply vnet_init "\<lambda>v. links_ok (links v)"
  by unfold_locales (simp_all add: links_ok_apply, simp add: vnet_init_def links_ok_def)

text \<open>Starting from the empty network, every sequence of topology operations (links added and
  removed, devices registered and unregistered, interfaces shut and re-enabled, sub-interface tags
  set) leaves the adjacency symmetric and free of duplicates: \<open>a\<close> lists \<open>b\<close> exactly when \<open>b\<close> lists
  \<open>a\<close>.\<close>

theorem links_stay_symmetric: "links_ok (links (fold vnet_apply ops vnet_init))"
  by (rule vnet_run.run_inv)

subsection \<open>Loop detection\<close>

text \<open>Loop detection is exact: \<open>_has_path\<close> returns a walk over the links from the source to the
  destination when one exists, and the empty list exactly when none does.\<close>

theorem has_path_correct:
  "if \<exists>p. walk (links v) p \<and> hd p = src \<and> last p = dst
   then walk (links v) (has_path v src dst) \<and> hd (has_path v src dst) = src \<and>
        last (has_path v src dst) = dst
   else has_path v src dst = []"
proof (cases "has_path v src dst = []")
  case True
  then have "\<not> (\<exists>p. walk (links v) p \<and> hd p = src \<and> last p = dst)"
    by (auto simp: has_path_def dest: path_search_complete)
  with True show ?thesis by (simp only: if_False)
next
  case False
  then have "walk (links v) (has_path v src dst) \<and> hd (has_path v src dst) = src \<and>
      last (has_path v src dst) = dst"
    unfolding has_path_def by (intro path_search_sound) auto
  then show ?thesis by auto
qed

subsection \<open>Link state and segments do not depend on the direction\<close>

lemma edge_up_sym: "edge_up v a b = edge_up v b a"
  by (auto simp: edge_up_def Let_def)

lemma vlan_tags_compatible_sym: "vlan_tags_compatible v a b = vlan_tags_compatible v b a"
  by (auto simp: vlan_tags_compatible_def Let_def)

lemma same_segment_sym: "same_segment x y = same_segment y x"
  by (auto simp: same_segment_def Let_def min.commute split: prod.splits)

lemma shares_segment_sym: "shares_segment e v a b = shares_segment e v b a"
proof -
  have nets: "(\<exists>na\<in>set xs. \<exists>nb\<in>set ys. same_segment na nb) \<longleftrightarrow>
      (\<exists>na\<in>set ys. \<exists>nb\<in>set xs. same_segment na nb)" for xs ys
    using same_segment_sym by blast
  show ?thesis
    unfolding shares_segment_def Let_def
    by (simp add: vlan_tags_compatible_sym [of v a b] nets Int_commute [of "device_vlans e a"]
        conj_ac disj_ac)
qed

text \<open>Whether a link carries traffic and whether two devices are on one segment is the same
  seen from either end, so a Hello that is delivered one way is also delivered the other way.\<close>

theorem link_conditions_symmetric:
  "edge_up v a b = edge_up v b a \<and> shares_segment e v a b = shares_segment e v b a"
  using edge_up_sym shares_segment_sym by blast

subsection \<open>Flooding\<close>

inductive relay :: "l2env \<Rightarrow> vnet \<Rightarrow> string \<Rightarrow> dev set \<Rightarrow> dev set \<Rightarrow> dev \<Rightarrow> bool"
  for e v t visited queue where
  queued: "sw \<in> queue \<Longrightarrow> relay e v t visited queue sw"
| beyond: "relay e v t visited queue sw \<Longrightarrow> p \<in> set (live_neighbors v sw) \<Longrightarrow>
     \<not> runs_proto e p t \<Longrightarrow> p \<notin> visited \<Longrightarrow> relay e v t visited queue p"

lemma flood_scan_spec:
  assumes "flood_scan e v src t ps visited queue = (vis, q, out)"
  shows "set vis = set visited \<union> set ps \<and>
     set q = set queue \<union> {p \<in> set ps - set visited. \<not> runs_proto e p t} \<and>
     set out = {p \<in> set ps - set visited. runs_proto e p t \<and> shares_segment e v src p} \<and> distinct out"
  using assms
proof (induction e v src t ps visited queue arbitrary: vis q out rule: flood_scan.induct)
  case (2 e v src t p ps visited queue)
  obtain vis1 q1 out1 where r1: "flood_scan e v src t ps visited queue = (vis1, q1, out1)"
    by (cases "flood_scan e v src t ps visited queue") auto
  obtain vis2 q2 out2 where r2: "flood_scan e v src t ps (p # visited) queue = (vis2, q2, out2)"
    by (cases "flood_scan e v src t ps (p # visited) queue") auto
  consider "p \<in> set visited" | "p \<notin> set visited" "runs_proto e p t"
    | "p \<notin> set visited" "\<not> runs_proto e p t" by blast
  then show ?case
  proof cases
    case 1
    with 2(4) have "flood_scan e v src t ps visited queue = (vis, q, out)" by simp
    from 2(1) [OF 1 this] 1 show ?thesis by auto
  next
    case c: 2
    with 2(4) r2 have eq: "vis = vis2" "q = q2"
      "out = (if shares_segment e v src p then p # out2 else out2)" by auto
    from 2(2) [OF c r2] have sp: "set vis2 = set (p # visited) \<union> set ps"
      "set q2 = set queue \<union> {x \<in> set ps - set (p # visited). \<not> runs_proto e x t}"
      "set out2 = {x \<in> set ps - set (p # visited). runs_proto e x t \<and> shares_segment e v src x}"
      "distinct out2" by blast+
    from sp(3) have "p \<notin> set out2" by simp
    with sp(4) have "distinct out" by (simp add: eq)
    with c show ?thesis unfolding eq by (auto simp: sp)
  next
    case 3
    with 2(4) have "flood_scan e v src t ps (p # visited) (queue @ [p]) = (vis, q, out)" by simp
    from 2(3) [OF 3 this] 3 show ?thesis by auto
  qed
qed auto

lemma relay_step:
  assumes "visited' = visited \<union> set (live_neighbors v sw)"
    "queue' = queue \<union> {p \<in> set (live_neighbors v sw) - visited. \<not> runs_proto e p t}"
  shows "relay e v t visited (insert sw queue) x \<longleftrightarrow> x = sw \<or> relay e v t visited' queue' x"
proof
  assume "relay e v t visited (insert sw queue) x"
  then show "x = sw \<or> relay e v t visited' queue' x"
  proof induction
    case (queued y)
    then show ?case using assms by (auto intro: relay.queued)
  next
    case (beyond y p)
    then show ?case using assms by (cases "p \<in> set (live_neighbors v sw)") (auto intro: relay.intros)
  qed
next
  have sw: "relay e v t visited (insert sw queue) sw" by (auto intro: relay.queued)
  have "relay e v t visited (insert sw queue) x" if "relay e v t visited' queue' x"
    using that
  proof induction
    case (queued y)
    then show ?case using assms(2) by (auto intro: relay.queued relay.beyond [OF sw])
  next
    case (beyond y p)
    then show ?case using assms(1) by (auto intro: relay.beyond)
  qed
  with sw show "x = sw \<or> relay e v t visited' queue' x \<Longrightarrow> relay e v t visited (insert sw queue) x"
    by auto
qed

lemma flood_loop_spec:
  "set (flood_loop e v src t visited queue) =
     {p. runs_proto e p t \<and> shares_segment e v src p \<and> p \<notin> set visited \<and>
         (\<exists>sw. relay e v t (set visited) (set queue) sw \<and> p \<in> set (live_neighbors v sw))} \<and>
   distinct (flood_loop e v src t visited queue)"
proof (induction e v src t visited queue rule: flood_loop.induct)
  case (1 e v src t visited)
  have "\<not> relay e v t (set visited) {} sw" for sw
  proof
    assume "relay e v t (set visited) {} sw"
    then show False by induction auto
  qed
  then show ?case by simp
next
  case (2 e v src t visited sw queue)
  obtain vis q out where r: "flood_scan e v src t (live_neighbors v sw) visited queue = (vis, q, out)"
    by (cases "flood_scan e v src t (live_neighbors v sw) visited queue") auto
  define R where "R = relay e v t (set vis) (set q)"
  define live where "live = set (live_neighbors v sw)"
  have sp: "set vis = set visited \<union> live"
    "set out = {p \<in> live - set visited. runs_proto e p t \<and> shares_segment e v src p}" "distinct out"
    using flood_scan_spec [OF r] by (auto simp: live_def)
  have IH: "set (flood_loop e v src t vis q) =
      {p. runs_proto e p t \<and> shares_segment e v src p \<and> p \<notin> set vis \<and>
          (\<exists>sw. R sw \<and> p \<in> set (live_neighbors v sw))}" "distinct (flood_loop e v src t vis q)"
    using 2 [OF r [symmetric] refl] by (simp_all add: R_def)
  have st: "relay e v t (set visited) (set (sw # queue)) x \<longleftrightarrow> x = sw \<or> R x" for x
    using relay_step [of "set vis" "set visited" v sw "set q" "set queue" e t x] flood_scan_spec [OF r]
    by (simp add: R_def)
  have split: "flood_loop e v src t visited (sw # queue) = out @ flood_loop e v src t vis q"
    by (simp add: r)
  have "set out \<union> set (flood_loop e v src t vis q) =
      {p. runs_proto e p t \<and> shares_segment e v src p \<and> p \<notin> set visited \<and>
          (\<exists>sw'. (sw' = sw \<or> R sw') \<and> p \<in> set (live_neighbors v sw'))}"
    unfolding IH(1) sp(1,2) by (auto simp: live_def)
  moreover have "set out \<inter> set (flood_loop e v src t vis q) = {}"
    unfolding IH(1) sp(1,2) by auto
  ultimately show ?case unfolding split st using sp(3) IH(2) by simp
qed

text \<open>C3. A multicast that is flooded through switches reaches exactly the devices it should: those
  that run the protocol, share the sender's segment, are not the sender and not a direct live
  neighbour (which the normal loop serves), and sit behind a chain of live switches that do not run the
  protocol. Each gets one copy.\<close>

theorem flood_reaches_exactly:
  "set (flood_through_switches e v src t) =
     {p. runs_proto e p t \<and> shares_segment e v src p \<and> p \<noteq> src \<and> p \<notin> set (live_neighbors v src) \<and>
         (\<exists>sw. relay e v t (insert src (set (live_neighbors v src)))
                 {x \<in> set (live_neighbors v src). \<not> runs_proto e x t} sw \<and>
               p \<in> set (live_neighbors v sw))} \<and>
   distinct (flood_through_switches e v src t)"
  using flood_loop_spec [of e v src t "src # live_neighbors v src"
      "filter (\<lambda>p. \<not> runs_proto e p t) (live_neighbors v src)"]
  by (auto simp: flood_through_switches_def Let_def)

subsection \<open>A removed link leaves its interface records behind\<close>

definition relinked :: vnet where
  "relinked =
     interface_down
       (fst (add_link
         (fst (remove_link
           (fst (add_link vnet_init ''r1'' ''r2'' (Some ''Gi0/1'') (Some ''Gi0/1''))) ''r1'' ''r2''))
         ''r1'' ''r2'' (Some ''Gi0/2'') (Some ''Gi0/2'')))
       ''r1'' ''Gi0/2''"

text \<open>\<open>remove_link\<close> clears \<open>links\<close> but neither \<open>interface_links\<close> nor \<open>link_ifaces\<close>: after the link
  r1-r2 moves from Gi0/1 to Gi0/2 and r1 shuts Gi0/2, its only interface to r2, the edge still counts
  as up and r2 is still a live neighbour, because the stale Gi0/1 record is taken for a second link.\<close>

theorem removed_link_stays_recorded:
  "edge_up relinked ''r1'' ''r2'' \<and> live_neighbors relinked ''r1'' = [''r2''] \<and>
   link_ifaces relinked ''r1'' ''r2'' = [''Gi0/1'', ''Gi0/2''] \<and> down_interfaces relinked ''r1'' = [''Gi0/2'']"
  by code_simp

end
