(* ===== verification/NatEngine.thy ===== *)
theory NatEngine
  imports Complex_Main FirstMatch NetData Machine
begin

text \<open>
  Network address translation, \<open>class NatEngine\<close>: per-device configuration, access lists, the
  translation table and the port counter. \<open>now\<close> is the value of \<open>time.time()\<close> at the call. The sets
  of interface names are duplicate-free lists in iteration order.
\<close>

record nat_entry =
  ne_proto :: string
  inside_local :: ip
  inside_global :: ip
  outside_local :: ip
  outside_global :: ip
  in_port :: int
  glob_port :: int
  is_static :: bool
  ne_age :: real

record pat_rule =
  pat_acl :: string
  pat_iface :: iface
  pat_overload :: bool

record nat_cfg =
  nat_inside :: "iface list"
  nat_outside :: "iface list"
  pat :: "pat_rule list"
  static_nat :: "(ip \<times> ip) list"
  napt_ifaces :: "iface list"
  proxy_arp :: "(iface, bool) dict"

definition empty_cfg :: nat_cfg where
  "empty_cfg = \<lparr>nat_inside = [], nat_outside = [], pat = [], static_nat = [], napt_ifaces = [],
     proxy_arp = []\<rparr>"

record nat_engine =
  nat_cfgs :: "dev \<Rightarrow> nat_cfg"
  nat_acls :: "dev \<Rightarrow> (string, (string \<times> ip \<times> int) list) dict"
  xlations :: "dev \<Rightarrow> nat_entry list"
  port_counter :: int

definition nat_init :: nat_engine where
  "nat_init = \<lparr>nat_cfgs = (\<lambda>_. empty_cfg), nat_acls = (\<lambda>_. []), xlations = (\<lambda>_. []),
     port_counter = 1024\<rparr>"

subsection \<open>Configuration\<close>

definition upd_cfg :: "nat_engine \<Rightarrow> dev \<Rightarrow> (nat_cfg \<Rightarrow> nat_cfg) \<Rightarrow> nat_engine" where
  "upd_cfg n d f = n\<lparr>nat_cfgs := (nat_cfgs n)(d := f (nat_cfgs n d))\<rparr>"

definition set_iface_role :: "nat_engine \<Rightarrow> dev \<Rightarrow> iface \<Rightarrow> string \<Rightarrow> nat_engine" where
  "set_iface_role n d i role =
     (if role = ''inside'' then upd_cfg n d (\<lambda>c. c\<lparr>nat_inside := sadd (nat_inside c) i\<rparr>)
      else if role = ''outside'' then upd_cfg n d (\<lambda>c. c\<lparr>nat_outside := sadd (nat_outside c) i\<rparr>)
      else n)"

definition add_pat :: "nat_engine \<Rightarrow> dev \<Rightarrow> string \<Rightarrow> iface \<Rightarrow> bool \<Rightarrow> nat_engine" where
  "add_pat n d acl i overload =
     upd_cfg n d (\<lambda>c. c\<lparr>pat := pat c @ [\<lparr>pat_acl = acl, pat_iface = i, pat_overload = overload\<rparr>]\<rparr>)"

definition add_static :: "nat_engine \<Rightarrow> dev \<Rightarrow> ip \<Rightarrow> ip \<Rightarrow> nat_engine" where
  "add_static n d inside outside = upd_cfg n d (\<lambda>c. c\<lparr>static_nat := static_nat c @ [(inside, outside)]\<rparr>)"

definition enable_napt :: "nat_engine \<Rightarrow> dev \<Rightarrow> iface \<Rightarrow> nat_engine" where
  "enable_napt n d i =
     upd_cfg n d (\<lambda>c. c\<lparr>napt_ifaces := sadd (napt_ifaces c) i, nat_outside := sadd (nat_outside c) i\<rparr>)"

definition add_acl :: "nat_engine \<Rightarrow> dev \<Rightarrow> string \<Rightarrow> string \<Rightarrow> ip \<Rightarrow> int \<Rightarrow> nat_engine" where
  "add_acl n d name action net prefix =
     n\<lparr>nat_acls := (nat_acls n)(d := dset (nat_acls n d) name
         (dget_or (nat_acls n d) name [] @ [(action, net, prefix)]))\<rparr>"

definition set_proxy_arp :: "nat_engine \<Rightarrow> dev \<Rightarrow> iface \<Rightarrow> bool \<Rightarrow> nat_engine" where
  "set_proxy_arp n d i enabled = upd_cfg n d (\<lambda>c. c\<lparr>proxy_arp := dset (proxy_arp c) i enabled\<rparr>)"

definition proxy_arp_enabled :: "nat_engine \<Rightarrow> dev \<Rightarrow> iface \<Rightarrow> string \<Rightarrow> bool" where
  "proxy_arp_enabled n d i device_type =
     (case dget (proxy_arp (nat_cfgs n d)) i of Some b \<Rightarrow> b | None \<Rightarrow> device_type = ''cisco'')"

definition has_nat :: "nat_engine \<Rightarrow> dev \<Rightarrow> bool" where
  "has_nat n d \<longleftrightarrow>
     (let c = nat_cfgs n d in pat c \<noteq> [] \<or> static_nat c \<noteq> [] \<or> napt_ifaces c \<noteq> [])"

fun nat_acl_decide :: "(string \<times> ip \<times> int) list \<Rightarrow> ip \<Rightarrow> bool" where
  "nat_acl_decide [] src = False"
| "nat_acl_decide ((action, net, prefix) # es) src =
     (if ip_in_network src net prefix then action = ''permit'' else nat_acl_decide es src)"

definition acl_permits :: "nat_engine \<Rightarrow> dev \<Rightarrow> string \<Rightarrow> ip \<Rightarrow> bool" where
  "acl_permits n d acl src =
     (let entries = dget_or (nat_acls n d) acl []
      in if entries = [] then True else nat_acl_decide entries src)"

interpretation nacl: first_match
  "\<lambda>e src. Inr (ip_in_network src (fst (snd e)) (snd (snd e)))" "\<lambda>e. fst e = ''permit''"
  "\<lambda>es src. Inr (nat_acl_decide es src)"
  by unfold_locales auto

subsection \<open>The outside address\<close>

definition iface_addr :: "(iface, iface_info) dict \<Rightarrow> iface \<Rightarrow> ip option" where
  "iface_addr ifaces i =
     (case dget ifaces i of
        None \<Rightarrow> None
      | Some info \<Rightarrow> (case if_ip info of None \<Rightarrow> None | Some a \<Rightarrow> if a = [] then None else Some a))"

definition iface_plen :: "(iface, iface_info) dict \<Rightarrow> iface \<Rightarrow> int" where
  "iface_plen ifaces i =
     (case dget ifaces i of
        None \<Rightarrow> 24
      | Some info \<Rightarrow> (case if_prefix info of None \<Rightarrow> 24 | Some p \<Rightarrow> p))"

text \<open>The first candidate whose address satisfies the test.\<close>

fun first_addr ::
  "(iface, iface_info) dict \<Rightarrow> (ip \<Rightarrow> int \<Rightarrow> bool) \<Rightarrow> iface list \<Rightarrow> ip option" where
  "first_addr ifaces ok [] = None"
| "first_addr ifaces ok (i # is) =
     (case iface_addr ifaces i of
        None \<Rightarrow> first_addr ifaces ok is
      | Some a \<Rightarrow> if ok a (iface_plen ifaces i) then Some a else first_addr ifaces ok is)"

definition outside_iface_ip ::
  "nat_engine \<Rightarrow> (dev, device_info) dict \<Rightarrow> dev \<Rightarrow> ip \<Rightarrow> ip \<Rightarrow> ip option" where
  "outside_iface_ip n devs d src dest =
     (let ifaces = ifaces_of devs d;
          c = nat_cfgs n d;
          candidates = (if nat_outside c \<noteq> [] then nat_outside c else napt_ifaces c);
          egress = (if dest = [] then None
                    else first_addr ifaces (\<lambda>a p. ip_in_network dest a p) candidates);
          other = first_addr ifaces (\<lambda>a p. \<not> (src \<noteq> [] \<and> ip_in_network src a p)) candidates
      in case egress of
           Some a \<Rightarrow> Some a
         | None \<Rightarrow> (case other of
                      Some a \<Rightarrow> Some a
                    | None \<Rightarrow> first_addr ifaces (\<lambda>_ _. True) candidates))"

subsection \<open>The translation table\<close>

definition next_port :: "int \<Rightarrow> int" where
  "next_port c = (if c + 1 > 65000 then 1024 else c + 1)"

definition same_flow :: "nat_entry \<Rightarrow> ip \<Rightarrow> ip \<Rightarrow> string \<Rightarrow> bool" where
  "same_flow e src dest proto \<longleftrightarrow>
     inside_local e = src \<and> outside_global e = dest \<and> ne_proto e = proto"

text \<open>Refresh the age of the first entry of the flow.\<close>

fun touch :: "real \<Rightarrow> ip \<Rightarrow> ip \<Rightarrow> string \<Rightarrow> nat_entry list \<Rightarrow> (nat_entry list \<times> nat_entry) option" where
  "touch now src dest proto [] = None"
| "touch now src dest proto (e # es) =
     (if same_flow e src dest proto then Some (e\<lparr>ne_age := now\<rparr> # es, e\<lparr>ne_age := now\<rparr>)
      else map_option (\<lambda>(es', r). (e # es', r)) (touch now src dest proto es))"

definition record_entry ::
  "real \<Rightarrow> nat_engine \<Rightarrow> dev \<Rightarrow> string \<Rightarrow> ip \<Rightarrow> ip \<Rightarrow> ip \<Rightarrow> int \<Rightarrow> int \<Rightarrow> bool \<Rightarrow> nat_engine \<times> nat_entry" where
  "record_entry now n d proto src glob dest gport iport static =
     (case touch now src dest proto (xlations n d) of
        Some (es, e) \<Rightarrow> (n\<lparr>xlations := (xlations n)(d := es)\<rparr>, e)
      | None \<Rightarrow>
          let e = \<lparr>ne_proto = proto, inside_local = src, inside_global = glob, outside_local = dest,
                   outside_global = dest, in_port = iport, glob_port = gport, is_static = static,
                   ne_age = now\<rparr>;
              es = xlations n d @ [e]
          in (n\<lparr>xlations := (xlations n)(d := if length es > 200 then tl es else es)\<rparr>, e))"

definition translate ::
  "real \<Rightarrow> nat_engine \<Rightarrow> (dev, device_info) dict \<Rightarrow> dev \<Rightarrow> ip \<Rightarrow> ip \<Rightarrow> string
     \<Rightarrow> nat_engine \<times> nat_entry option" where
  "translate now n devs d src dest proto =
     (let c = nat_cfgs n d
      in if \<not> has_nat n d then (n, None)
         else case find (\<lambda>(inside, _). inside = src) (static_nat c) of
           Some (_, outside) \<Rightarrow>
             (case record_entry now n d proto src outside dest 0 0 True of (n', e) \<Rightarrow> (n', Some e))
         | None \<Rightarrow>
             if \<not> (napt_ifaces c \<noteq> [] \<or> (\<exists>p\<in>set (pat c). acl_permits n d (pat_acl p) src))
             then (n, None)
             else case outside_iface_ip n devs d src dest of
               None \<Rightarrow> (n, None)
             | Some glob \<Rightarrow>
                 let port = next_port (port_counter n)
                 in (case record_entry now (n\<lparr>port_counter := port\<rparr>) d proto src glob dest port port False of
                       (n', e) \<Rightarrow> (n', Some e)))"

definition nat_clear :: "nat_engine \<Rightarrow> dev \<Rightarrow> nat_engine" where
  "nat_clear n d = n\<lparr>xlations := (xlations n)(d := [])\<rparr>"

subsection \<open>The table is bounded, has one entry per flow and uses valid ports\<close>

datatype nat_op =
    Role dev iface string
  | Pat dev string iface bool
  | Static dev ip ip
  | Napt dev iface
  | Acl dev string string ip int
  | ProxyArp dev iface bool
  | Translate real dev ip ip string
  | Clear dev

fun nat_apply :: "(dev, device_info) dict \<Rightarrow> nat_op \<Rightarrow> nat_engine \<Rightarrow> nat_engine" where
  "nat_apply devs (Role d i r) n = set_iface_role n d i r"
| "nat_apply devs (Pat d a i b) n = add_pat n d a i b"
| "nat_apply devs (Static d i out) n = add_static n d i out"
| "nat_apply devs (Napt d i) n = enable_napt n d i"
| "nat_apply devs (Acl d name action net p) n = add_acl n d name action net p"
| "nat_apply devs (ProxyArp d i b) n = set_proxy_arp n d i b"
| "nat_apply devs (Translate now d src dest proto) n = fst (translate now n devs d src dest proto)"
| "nat_apply devs (Clear d) n = nat_clear n d"

definition flow_of :: "nat_entry \<Rightarrow> ip \<times> ip \<times> string" where
  "flow_of e = (inside_local e, outside_global e, ne_proto e)"

definition port_ok :: "nat_entry \<Rightarrow> bool" where
  "port_ok e \<longleftrightarrow> (if is_static e then glob_port e = 0 else 1024 \<le> glob_port e \<and> glob_port e \<le> 65000)"

definition table_ok :: "nat_entry list \<Rightarrow> bool" where
  "table_ok es \<longleftrightarrow> length es \<le> 200 \<and> distinct (List.map flow_of es) \<and> list_all port_ok es"

definition nat_ok :: "nat_engine \<Rightarrow> bool" where
  "nat_ok n \<longleftrightarrow> (\<forall>d. table_ok (xlations n d)) \<and> 1024 \<le> port_counter n \<and> port_counter n \<le> 65000"

lemma same_flow_iff: "same_flow e src dest proto \<longleftrightarrow> flow_of e = (src, dest, proto)"
  by (auto simp: same_flow_def flow_of_def)

lemma flow_of_age [simp]: "flow_of (e\<lparr>ne_age := t\<rparr>) = flow_of e"
  by (simp add: flow_of_def)

lemma port_ok_age [simp]: "port_ok (e\<lparr>ne_age := t\<rparr>) = port_ok e"
  by (simp add: port_ok_def)

lemma touch_None: "touch now src dest proto es = None \<longleftrightarrow> (src, dest, proto) \<notin> set (List.map flow_of es)"
  by (induction es) (auto simp: same_flow_iff)

lemma touch_Some:
  "touch now src dest proto es = Some (es', r) \<Longrightarrow>
     List.map flow_of es' = List.map flow_of es \<and> list_all port_ok es' = list_all port_ok es \<and>
     List.map glob_port es' = List.map glob_port es \<and> List.map inside_global es' = List.map inside_global es"
proof (induction es arbitrary: es' r)
  case (Cons e es)
  show ?case
  proof (cases "same_flow e src dest proto")
    case True
    with Cons.prems show ?thesis by auto
  next
    case False
    with Cons.prems obtain es'' where "touch now src dest proto es = Some (es'', r)" "es' = e # es''" by auto
    with Cons.IH show ?thesis by auto
  qed
qed simp

lemma record_entry_table_ok:
  assumes "table_ok (xlations n d)" "record_entry now n d proto src glob dest gp ip' st = (n', e)"
    "if st then gp = 0 else 1024 \<le> gp \<and> gp \<le> 65000"
  shows "table_ok (xlations n' d) \<and> (\<forall>d'. d' \<noteq> d \<longrightarrow> xlations n' d' = xlations n d') \<and>
     port_counter n' = port_counter n"
proof (cases "touch now src dest proto (xlations n d)")
  case None
  let ?e = "\<lparr>ne_proto = proto, inside_local = src, inside_global = glob, outside_local = dest,
    outside_global = dest, in_port = ip', glob_port = gp, is_static = st, ne_age = now\<rparr>"
  have new: "(src, dest, proto) \<notin> set (List.map flow_of (xlations n d))" using None touch_None by blast
  then have d1: "distinct (List.map flow_of (xlations n d @ [?e]))"
    using assms(1) by (auto simp: table_ok_def flow_of_def)
  have p: "list_all port_ok (xlations n d @ [?e])"
    using assms(1,3) by (auto simp: table_ok_def port_ok_def)
  have "table_ok (xlations n' d)"
    using assms(1,2) None d1 p unfolding record_entry_def
    by (cases "xlations n d") (auto simp: table_ok_def Let_def split: if_splits)
  then show ?thesis using assms(2) None by (auto simp: record_entry_def Let_def)
next
  case (Some r)
  obtain es' r' where r: "r = (es', r')" by (cases r)
  from touch_Some [OF Some [unfolded r]] have "table_ok es'"
    using assms(1) by (metis length_map table_ok_def)
  then show ?thesis using assms(2) Some r by (auto simp: record_entry_def)
qed

lemma next_port_range: "1024 \<le> c \<Longrightarrow> 1024 \<le> next_port c \<and> next_port c \<le> 65000"
  by (simp add: next_port_def)

lemma translate_ok:
  assumes "nat_ok n" shows "nat_ok (fst (translate now n devs d src dest proto))"
proof -
  have ok: "nat_ok n'" if r: "record_entry now m d proto src glob dest gp ip' st = (n', e)"
    and "xlations m = xlations n" "1024 \<le> port_counter m" "port_counter m \<le> 65000"
      "if st then gp = 0 else 1024 \<le> gp \<and> gp \<le> 65000" for m glob gp ip' st n' e
  proof -
    have t: "table_ok (xlations m d)" using assms that(2) by (simp add: nat_ok_def)
    note rec = record_entry_table_ok [OF t r that(5)]
    have "table_ok (xlations n' d')" for d'
      using rec assms that(2) by (cases "d' = d") (auto simp: nat_ok_def)
    with rec that(3,4) show ?thesis by (simp add: nat_ok_def)
  qed
  have b: "1024 \<le> port_counter n" "port_counter n \<le> 65000" using assms by (auto simp: nat_ok_def)
  show ?thesis
    using assms b next_port_range [OF b(1)]
    unfolding translate_def Let_def
    by (auto split: option.splits prod.splits intro: ok [where ?m = n] ok [where ?m = "n\<lparr>port_counter := next_port (port_counter n)\<rparr>"])
qed

lemma nat_ok_apply: "nat_ok n \<Longrightarrow> nat_ok (nat_apply devs op n)"
proof (cases op)
  case (Translate now d src dest proto)
  then show "nat_ok n \<Longrightarrow> ?thesis" by (simp add: translate_ok)
qed (simp_all add: nat_clear_def nat_ok_def table_ok_def set_iface_role_def upd_cfg_def
       add_pat_def add_static_def enable_napt_def add_acl_def set_proxy_arp_def)

interpretation nat_run: machine "nat_apply devs" nat_init nat_ok for devs
  by unfold_locales (simp_all add: nat_ok_apply, simp add: nat_init_def nat_ok_def table_ok_def)

text \<open>C39. Whatever is configured and translated, in any order, every device's translation table holds
  at most 200 entries, one per flow (source, destination, protocol), static entries with port 0 and
  dynamic ones with a port between 1024 and 65000.\<close>

theorem nat_table_invariant: "nat_ok (fold (nat_apply devs) ops nat_init)"
  by (rule nat_run.run_inv)

subsection \<open>A flow keeps its translation\<close>

lemma touch_touched:
  "touch now src dest proto es = Some (es', e) \<Longrightarrow>
     \<exists>es''. touch now' src dest proto es' = Some (es'', e\<lparr>ne_age := now'\<rparr>)"
proof (induction es arbitrary: es')
  case (Cons x es)
  show ?case
  proof (cases "same_flow x src dest proto")
    case True
    with Cons.prems show ?thesis by (auto simp: same_flow_iff)
  next
    case False
    with Cons.prems obtain es'' where "touch now src dest proto es = Some (es'', e)" "es' = x # es''" by auto
    with Cons.IH False show ?thesis by auto
  qed
qed simp

lemma touch_append_new:
  "touch now src dest proto es = None \<Longrightarrow> same_flow e src dest proto \<Longrightarrow>
     \<exists>es'. touch now' src dest proto (es @ [e]) = Some (es', e\<lparr>ne_age := now'\<rparr>)"
  by (induction es) (auto split: if_splits)

lemma record_entry_sticky:
  assumes "record_entry now n d proto src glob dest gp ip' st = (n', e)"
  shows "\<exists>es. touch now' src dest proto (xlations n' d) = Some (es, e\<lparr>ne_age := now'\<rparr>)"
proof (cases "touch now src dest proto (xlations n d)")
  case None
  define new where "new = \<lparr>ne_proto = proto, inside_local = src, inside_global = glob, outside_local = dest,
    outside_global = dest, in_port = ip', glob_port = gp, is_static = st, ne_age = now\<rparr>"
  have new: "same_flow new src dest proto" by (simp add: new_def same_flow_def)
  have e: "e = new" using assms None by (auto simp: record_entry_def Let_def new_def)
  have tl: "touch now src dest proto (tl (xlations n d)) = None"
    using None by (cases "xlations n d") (auto split: if_splits)
  have "xlations n' d = xlations n d @ [new] \<or> xlations n' d = tl (xlations n d) @ [new]"
    using assms None by (cases "xlations n d") (auto simp: record_entry_def Let_def new_def split: if_splits)
  then show ?thesis using touch_append_new [OF None new] touch_append_new [OF tl new] e by auto
next
  case (Some r)
  then show ?thesis
    using assms touch_touched [of now src dest proto "xlations n d" "fst r" "snd r"]
    by (cases r) (auto simp: record_entry_def)
qed

lemma record_entry_known:
  "touch now src dest proto (xlations n d) = Some (es, e) \<Longrightarrow>
     record_entry now n d proto src glob dest gp ip' st = (n\<lparr>xlations := (xlations n)(d := es)\<rparr>, e)"
  by (simp add: record_entry_def)

lemma record_entry_config:
  "record_entry now n d proto src glob dest gp ip' st = (n', e) \<Longrightarrow>
     nat_cfgs n' = nat_cfgs n \<and> nat_acls n' = nat_acls n"
  by (auto simp: record_entry_def Let_def split: option.splits if_splits)

lemma translate_config:
  "translate now n devs d src dest proto = (n', r) \<Longrightarrow> nat_cfgs n' = nat_cfgs n \<and> nat_acls n' = nat_acls n"
  unfolding translate_def Let_def
  by (auto split: option.splits prod.splits if_splits dest: record_entry_config)

lemma translate_in_table:
  "translate now n devs d src dest proto = (n', Some e) \<Longrightarrow>
     \<exists>es. touch now' src dest proto (xlations n' d) = Some (es, e\<lparr>ne_age := now'\<rparr>)"
  unfolding translate_def Let_def
  by (auto split: option.splits prod.splits if_splits dest: record_entry_sticky)

lemma translate_known:
  assumes "touch now src dest proto (xlations n d) = Some (es, e)"
    and "snd (translate now0 m devs d src dest proto) \<noteq> None"
    and "nat_cfgs m = nat_cfgs n" "nat_acls m = nat_acls n"
  shows "snd (translate now n devs d src dest proto) = Some e"
proof -
  have same: "has_nat m = has_nat n" "acl_permits m = acl_permits n" "outside_iface_ip m = outside_iface_ip n"
    using assms(3,4) by (simp_all add: has_nat_def acl_permits_def outside_iface_ip_def fun_eq_iff)
  have k: "touch now src dest proto (xlations (n\<lparr>port_counter := p\<rparr>) d) = Some (es, e)" for p
    using assms(1) by simp
  show ?thesis
    using assms(2) unfolding translate_def Let_def same assms(3)
    by (auto split: option.splits prod.splits if_splits
        simp: record_entry_known [OF assms(1)] record_entry_known [OF k])
qed

text \<open>Translation is sticky: once a flow has been translated, translating it again under the same
  configuration returns the same entry (same outside address, same port), only its age is new.\<close>

theorem translation_sticky:
  assumes "translate now n devs d src dest proto = (n', Some e)"
  shows "snd (translate now' n' devs d src dest proto) = Some (e\<lparr>ne_age := now'\<rparr>)"
proof -
  obtain es where "touch now' src dest proto (xlations n' d) = Some (es, e\<lparr>ne_age := now'\<rparr>)"
    using translate_in_table [OF assms] by blast
  then show ?thesis
    using translate_config [OF assms] assms by (intro translate_known [where m = n and ?now0.0 = now]) auto
qed

subsection \<open>Ports come round again\<close>

definition demo_devs :: "(dev, device_info) dict" where
  "demo_devs = [(''r1'', \<lparr>di_hostname = ''r1'', di_ips = [(''203.0.113.1'', 30), (''10.0.0.254'', 24)],
     di_interfaces = [(''wan'', \<lparr>if_ip = Some ''203.0.113.1'', if_prefix = Some 30\<rparr>),
                      (''lan'', \<lparr>if_ip = Some ''10.0.0.254'', if_prefix = Some 24\<rparr>)]\<rparr>)]"

definition demo_cfg :: nat_cfg where
  "demo_cfg = \<lparr>nat_inside = [''lan''], nat_outside = [''wan''],
     pat = [\<lparr>pat_acl = ''1'', pat_iface = ''wan'', pat_overload = True\<rparr>], static_nat = [],
     napt_ifaces = [], proxy_arp = []\<rparr>"

definition demo_nat :: nat_engine where
  "demo_nat = fold (nat_apply demo_devs) [Role ''r1'' ''lan'' ''inside'', Role ''r1'' ''wan'' ''outside'',
     Pat ''r1'' ''1'' ''wan'' True] nat_init"

definition demo_out :: "ip \<Rightarrow> nat_engine \<Rightarrow> nat_engine \<times> nat_entry option" where
  "demo_out src n = translate 0 n demo_devs ''r1'' src ''8.8.8.8'' ''icmp''"

definition demo_entry :: "ip \<Rightarrow> int \<Rightarrow> nat_entry" where
  "demo_entry src port = \<lparr>ne_proto = ''icmp'', inside_local = src, inside_global = ''203.0.113.1'',
     outside_local = ''8.8.8.8'', outside_global = ''8.8.8.8'', in_port = port, glob_port = port,
     is_static = False, ne_age = 0\<rparr>"

definition demo_state :: "nat_entry list \<Rightarrow> int \<Rightarrow> nat_engine" where
  "demo_state es c = \<lparr>nat_cfgs = (\<lambda>_. empty_cfg)(''r1'' := demo_cfg), nat_acls = (\<lambda>_. []),
     xlations = (\<lambda>_. [])(''r1'' := es), port_counter = c\<rparr>"

lemma demo_outside:
  "outside_iface_ip (demo_state es c) demo_devs ''r1'' ''10.0.0.1'' ''8.8.8.8'' = Some ''203.0.113.1''"
  "outside_iface_ip (demo_state es c) demo_devs ''r1'' ''10.0.0.2'' ''8.8.8.8'' = Some ''203.0.113.1''"
proof -
  have net: "\<not> ip_in_network ''8.8.8.8'' ''203.0.113.1'' 30"
    "\<not> ip_in_network ''10.0.0.1'' ''203.0.113.1'' 30" "\<not> ip_in_network ''10.0.0.2'' ''203.0.113.1'' 30"
    by code_simp+
  show "outside_iface_ip (demo_state es c) demo_devs ''r1'' ''10.0.0.1'' ''8.8.8.8'' = Some ''203.0.113.1''"
    "outside_iface_ip (demo_state es c) demo_devs ''r1'' ''10.0.0.2'' ''8.8.8.8'' = Some ''203.0.113.1''"
    using net by (simp_all add: outside_iface_ip_def demo_state_def demo_cfg_def demo_devs_def ifaces_of_def
        iface_addr_def iface_plen_def)
qed

lemma demo_acl: "acl_permits (demo_state es c) ''r1'' ''1'' src"
  by (simp add: acl_permits_def demo_state_def dget_or_def)

lemma demo_out_new:
  "src \<in> {''10.0.0.1'', ''10.0.0.2''} \<Longrightarrow> touch 0 src ''8.8.8.8'' ''icmp'' es = None \<Longrightarrow> length es < 200 \<Longrightarrow>
     demo_out src (demo_state es c) =
       (demo_state (es @ [demo_entry src (next_port c)]) (next_port c), Some (demo_entry src (next_port c)))"
  using demo_outside demo_acl [of es c]
  by (auto simp: demo_out_def translate_def has_nat_def demo_state_def demo_cfg_def record_entry_def
      demo_entry_def Let_def fun_eq_iff)

lemma demo_out_again:
  "demo_out ''10.0.0.1'' (demo_state [demo_entry ''10.0.0.1'' p] c) =
     (demo_state [demo_entry ''10.0.0.1'' p] (next_port c), Some (demo_entry ''10.0.0.1'' p))"
  using demo_outside demo_acl [of "[demo_entry ''10.0.0.1'' p]" c]
  by (auto simp: demo_out_def translate_def has_nat_def demo_state_def demo_cfg_def record_entry_def
      demo_entry_def Let_def fun_eq_iff same_flow_def)

lemma next_port_pow:
  "1024 \<le> c \<Longrightarrow> c \<le> 65000 \<Longrightarrow> (next_port ^^ k) c = 1024 + (c - 1024 + int k) mod 63977"
proof (induction k)
  case (Suc k)
  define m where "m = (c - 1024 + int k) mod 63977"
  have m: "0 \<le> m" "m < 63977" by (simp_all add: m_def)
  have "(c - 1024 + int (Suc k)) mod 63977 = (m + 1) mod 63977"
    by (simp add: m_def mod_simps algebra_simps)
  moreover have "(m + 1) mod 63977 = (if m = 63976 then 0 else m + 1)"
    using m by (auto simp: mod_pos_pos_trivial)
  ultimately show ?case using Suc m by (simp add: next_port_def m_def [symmetric])
qed (simp add: mod_pos_pos_trivial)

lemma demo_repeat:
  "((\<lambda>n. fst (demo_out ''10.0.0.1'' n)) ^^ k) (demo_state [demo_entry ''10.0.0.1'' p] c) =
     demo_state [demo_entry ''10.0.0.1'' p] ((next_port ^^ k) c)"
  by (induction k) (simp_all add: demo_out_again)

lemma demo_nat_state: "demo_nat = demo_state [] 1024"
  by (simp add: demo_nat_def demo_state_def demo_cfg_def nat_init_def set_iface_role_def upd_cfg_def
      add_pat_def empty_cfg_def sadd_def fun_eq_iff)

text \<open>The port counter advances on every dynamic translation, also when an existing entry is
  returned, and never checks which ports are in use: after 63,977 packets of one flow the next flow of
  the same router is given the port the first one still holds, so two live entries share one outside
  address and port.\<close>

theorem nat_port_reused:
  "let n1 = fst (demo_out ''10.0.0.1'' demo_nat);
       n2 = ((\<lambda>n. fst (demo_out ''10.0.0.1'' n)) ^^ 63976) n1;
       n3 = fst (demo_out ''10.0.0.2'' n2)
   in xlations n3 ''r1'' = [demo_entry ''10.0.0.1'' 1025, demo_entry ''10.0.0.2'' 1025]"
proof -
  have n1: "fst (demo_out ''10.0.0.1'' demo_nat) = demo_state [demo_entry ''10.0.0.1'' 1025] 1025"
    by (simp add: demo_nat_state demo_out_new next_port_def)
  have "(next_port ^^ 63976) 1025 = 1024" by (simp add: next_port_pow)
  then have n2: "((\<lambda>n. fst (demo_out ''10.0.0.1'' n)) ^^ 63976) (demo_state [demo_entry ''10.0.0.1'' 1025] 1025) =
      demo_state [demo_entry ''10.0.0.1'' 1025] 1024"
    by (simp only: demo_repeat)
  have new: "touch 0 ''10.0.0.2'' ''8.8.8.8'' ''icmp'' [demo_entry ''10.0.0.1'' 1025] = None"
    by (simp add: same_flow_def demo_entry_def)
  have "fst (demo_out ''10.0.0.2'' (demo_state [demo_entry ''10.0.0.1'' 1025] 1024)) =
      demo_state [demo_entry ''10.0.0.1'' 1025, demo_entry ''10.0.0.2'' 1025] 1025"
    using demo_out_new [OF _ new, of 1024] by (simp add: next_port_def)
  then show ?thesis by (simp only: Let_def n1 n2) (simp add: demo_state_def)
qed

theorem translation_sticky_witness:
  "snd (translate 7 (demo_state [demo_entry ''10.0.0.1'' 1025] 1025) demo_devs ''r1''
      ''10.0.0.1'' ''8.8.8.8'' ''icmp'') = Some ((demo_entry ''10.0.0.1'' 1025)\<lparr>ne_age := 7\<rparr>)"
proof (rule translation_sticky)
  show "translate 0 (demo_state [] 1024) demo_devs ''r1'' ''10.0.0.1'' ''8.8.8.8'' ''icmp'' =
      (demo_state [demo_entry ''10.0.0.1'' 1025] 1025, Some (demo_entry ''10.0.0.1'' 1025))"
    using demo_out_new [of "''10.0.0.1''" "[]" 1024] by (simp add: demo_out_def next_port_def)
qed

end
