(* ===== verification/Lacp.thy ===== *)
theory Lacp
  imports NetData Machine
begin

text \<open>
  Link aggregation, \<open>class LacpEngine\<close>: the channel groups of each device, their members, the mode
  negotiation between two ends and the members' reaction to shutdown and recovery.
\<close>

datatype member_state = Down | Bundled | Independent

record ec_member =
  m_interface :: iface
  m_mode :: string
  m_state :: member_state
  admin_down :: bool

record channel =
  ch_mode :: string
  ch_protocol :: string
  ch_members :: "ec_member list"
  ch_negotiated :: "bool option"

type_synonym lacp = "dev \<Rightarrow> (int, channel) dict"

text \<open>Apply \<open>f\<close> to the first element that satisfies \<open>p\<close>: the object \<open>next(...)\<close> finds is mutated.\<close>

fun update_first :: "('a \<Rightarrow> bool) \<Rightarrow> ('a \<Rightarrow> 'a) \<Rightarrow> 'a list \<Rightarrow> 'a list" where
  "update_first p f [] = []"
| "update_first p f (x # xs) = (if p x then f x # xs else x # update_first p f xs)"

definition new_channel :: "string \<Rightarrow> channel" where
  "new_channel md = \<lparr>ch_mode = md, ch_protocol = (if md = ''on'' then ''static'' else ''lacp''),
     ch_members = [], ch_negotiated = None\<rparr>"

definition add_member :: "lacp \<Rightarrow> dev \<Rightarrow> int \<Rightarrow> iface \<Rightarrow> string \<Rightarrow> lacp" where
  "add_member l d po i md =
     (let ch = (case dget (l d) po of Some c \<Rightarrow> c | None \<Rightarrow> new_channel md);
          ms = ch_members ch;
          ms' = (if \<exists>m\<in>set ms. m_interface m = i
                 then update_first (\<lambda>m. m_interface m = i) (\<lambda>m. m\<lparr>m_mode := md\<rparr>) ms
                 else ms @ [\<lparr>m_interface = i, m_mode = md, m_state = Down, admin_down = False\<rparr>])
      in l(d := dset (l d) po (ch\<lparr>ch_members := ms'\<rparr>)))"

definition modes_compatible :: "string \<Rightarrow> string \<Rightarrow> bool" where
  "modes_compatible a b \<longleftrightarrow>
     (if a = ''on'' \<and> b = ''on'' then True
      else if a = ''on'' \<or> b = ''on'' then False
      else if a = ''passive'' \<and> b = ''passive'' then False
      else True)"

definition settle :: "bool \<Rightarrow> ec_member \<Rightarrow> ec_member" where
  "settle ok m = (if admin_down m then m else m\<lparr>m_state := (if ok then Bundled else Independent)\<rparr>)"

definition negotiate :: "lacp \<Rightarrow> dev \<Rightarrow> int \<Rightarrow> dev \<Rightarrow> int \<Rightarrow> lacp \<times> bool" where
  "negotiate l d po peer peer_po =
     (case dget (l d) po of
        None \<Rightarrow> (l, False)
      | Some ch \<Rightarrow>
          (case dget (l peer) peer_po of
             None \<Rightarrow> (l, False)
           | Some peer_ch \<Rightarrow>
               let ok = modes_compatible (ch_mode ch) (ch_mode peer_ch)
               in (l(d := dset (l d) po (ch\<lparr>ch_negotiated := Some ok,
                        ch_members := List.map (settle ok) (ch_members ch)\<rparr>)), ok)))"

definition get_channel :: "lacp \<Rightarrow> dev \<Rightarrow> int \<Rightarrow> channel option" where
  "get_channel l d po = dget (l d) po"

definition lacp_if_prefixes :: "string list" where
  "lacp_if_prefixes = [''gigabitethernet'', ''tengigabitethernet'', ''fastethernet'', ''ethernet'',
     ''gi'', ''te'', ''fa'', ''eth'', ''et'', ''g'']"

definition norm_if :: "string \<Rightarrow> string" where
  "norm_if name =
     (let s = lower name
      in strip (case find (starts_with s) lacp_if_prefixes of None \<Rightarrow> s | Some p \<Rightarrow> drop (length p) s))"

definition is_member :: "iface \<Rightarrow> ec_member \<Rightarrow> bool" where
  "is_member i m \<longleftrightarrow> norm_if (m_interface m) = norm_if i"

definition find_member :: "lacp \<Rightarrow> dev \<Rightarrow> iface \<Rightarrow> (int \<times> channel) option" where
  "find_member l d i = find (\<lambda>(po, ch). \<exists>m\<in>set (ch_members ch). is_member i m) (l d)"

definition bundled_count :: "ec_member list \<Rightarrow> nat" where
  "bundled_count ms = length (filter (\<lambda>m. m_state m = Bundled) ms)"

definition member_down :: "lacp \<Rightarrow> dev \<Rightarrow> iface \<Rightarrow> lacp \<times> int option \<times> nat" where
  "member_down l d i =
     (case find_member l d i of
        None \<Rightarrow> (l, None, 0)
      | Some (po, ch) \<Rightarrow>
          let ms = update_first (is_member i) (\<lambda>m. m\<lparr>admin_down := True, m_state := Down\<rparr>) (ch_members ch)
          in (l(d := dset (l d) po (ch\<lparr>ch_members := ms\<rparr>)), Some po, bundled_count ms))"

text \<open>
  \<open>member_up\<close> clears the flag first, then decides: a static channel, a channel with another bundled
  member, or one whose last negotiation succeeded; with no negotiation on record the default is True.
\<close>

definition member_up :: "lacp \<Rightarrow> dev \<Rightarrow> iface \<Rightarrow> lacp \<times> int option \<times> nat" where
  "member_up l d i =
     (case find_member l d i of
        None \<Rightarrow> (l, None, 0)
      | Some (po, ch) \<Rightarrow>
          let negotiated = (ch_protocol ch = ''static'' \<or>
                            (\<exists>x\<in>set (ch_members ch). m_state x = Bundled) \<or>
                            (case ch_negotiated ch of None \<Rightarrow> True | Some b \<Rightarrow> b));
              ms = update_first (is_member i)
                     (\<lambda>m. m\<lparr>admin_down := False, m_state := (if negotiated then Bundled else Independent)\<rparr>)
                     (ch_members ch)
          in (l(d := dset (l d) po (ch\<lparr>ch_members := ms\<rparr>)), Some po, bundled_count ms))"

subsection \<open>Shut members stay down\<close>

datatype lacp_op =
    AddMember dev int iface string
  | Negotiate dev int dev int
  | MemberDown dev iface
  | MemberUp dev iface

fun lacp_apply :: "lacp_op \<Rightarrow> lacp \<Rightarrow> lacp" where
  "lacp_apply (AddMember d po i md) l = add_member l d po i md"
| "lacp_apply (Negotiate d po p ppo) l = fst (negotiate l d po p ppo)"
| "lacp_apply (MemberDown d i) l = fst (member_down l d i)"
| "lacp_apply (MemberUp d i) l = fst (member_up l d i)"

definition member_ok :: "ec_member \<Rightarrow> bool" where
  "member_ok m \<longleftrightarrow> (if admin_down m then m_state m = Down else True)"

definition channel_ok :: "channel \<Rightarrow> bool" where
  "channel_ok ch \<longleftrightarrow>
     list_all member_ok (ch_members ch) \<and> distinct (List.map m_interface (ch_members ch))"

definition lacp_ok :: "lacp \<Rightarrow> bool" where
  "lacp_ok l \<longleftrightarrow> (\<forall>d po ch. dget (l d) po = Some ch \<longrightarrow> channel_ok ch) \<and> (\<forall>d. dict_ok (l d))"

lemma update_first_map:
  "(\<And>x. g (f x) = g x) \<Longrightarrow> List.map g (update_first p f xs) = List.map g xs"
  by (induction xs) auto

lemma update_first_all:
  "list_all q xs \<Longrightarrow> (\<And>x. q x \<Longrightarrow> q (f x)) \<Longrightarrow> list_all q (update_first p f xs)"
  by (induction xs) auto

lemma lacp_ok_store:
  "lacp_ok l \<Longrightarrow> channel_ok ch \<Longrightarrow> lacp_ok (l(d := dset (l d) po ch))"
  by (auto simp: lacp_ok_def)

lemma lacp_ok_get: "lacp_ok l \<Longrightarrow> dget (l d) po = Some ch \<Longrightarrow> channel_ok ch"
  by (auto simp: lacp_ok_def)

lemma channel_ok_update:
  assumes "channel_ok ch" "\<And>m. member_ok m \<Longrightarrow> member_ok (f m)" "\<And>m. m_interface (f m) = m_interface m"
  shows "channel_ok (ch\<lparr>ch_members := update_first p f (ch_members ch)\<rparr>)"
  using assms by (auto simp: channel_ok_def update_first_map update_first_all)

lemma find_member_channel_ok:
  assumes "lacp_ok l" "find_member l d i = Some (po, ch)" shows "channel_ok ch \<and> dget (l d) po = Some ch"
proof -
  have "(po, ch) \<in> set (l d)" using assms(2) by (auto simp: find_member_def dest: find_SomeD)
  then have "dget (l d) po = Some ch" using assms(1) by (auto simp: lacp_ok_def intro: dget_in_set)
  with assms(1) show ?thesis by (auto dest: lacp_ok_get)
qed

lemma add_member_ok: assumes "lacp_ok l" shows "lacp_ok (add_member l d po i md)"
proof -
  define ch where "ch = (case dget (l d) po of Some c \<Rightarrow> c | None \<Rightarrow> new_channel md)"
  have ch: "channel_ok ch"
    using lacp_ok_get [OF assms]
    by (auto simp: ch_def new_channel_def channel_ok_def split: option.splits)
  show ?thesis
  proof (cases "\<exists>m\<in>set (ch_members ch). m_interface m = i")
    case True
    have "channel_ok (ch\<lparr>ch_members := update_first (\<lambda>m. m_interface m = i) (\<lambda>m. m\<lparr>m_mode := md\<rparr>) (ch_members ch)\<rparr>)"
      using ch by (rule channel_ok_update) (auto simp: member_ok_def)
    with True show ?thesis
      unfolding add_member_def Let_def ch_def [symmetric] by (simp add: lacp_ok_store assms)
  next
    case False
    with ch have "channel_ok (ch\<lparr>ch_members := ch_members ch @
        [\<lparr>m_interface = i, m_mode = md, m_state = Down, admin_down = False\<rparr>]\<rparr>)"
      by (auto simp: channel_ok_def member_ok_def)
    with False show ?thesis
      unfolding add_member_def Let_def ch_def [symmetric] by (simp add: lacp_ok_store assms)
  qed
qed

lemma m_interface_settle [simp]: "m_interface (settle ok m) = m_interface m"
  by (simp add: settle_def)

lemma settle_ok: "member_ok m \<Longrightarrow> member_ok (settle ok m)"
  by (auto simp: member_ok_def settle_def)

lemma negotiate_ok: "lacp_ok l \<Longrightarrow> lacp_ok (fst (negotiate l d po p ppo))"
proof -
  assume l: "lacp_ok l"
  have c: "channel_ok (ch\<lparr>ch_negotiated := b, ch_members := List.map (settle ok) (ch_members ch)\<rparr>)"
    if "channel_ok ch" for ch b ok
  proof -
    have "list_all member_ok (List.map (settle ok) (ch_members ch))"
      using that by (auto simp: channel_ok_def list_all_iff settle_ok)
    then show ?thesis using that by (simp add: channel_ok_def o_def)
  qed
  show ?thesis using l
    by (auto simp: negotiate_def Let_def split: option.splits intro!: lacp_ok_store c dest: lacp_ok_get)
qed

lemma member_down_ok: "lacp_ok l \<Longrightarrow> lacp_ok (fst (member_down l d i))"
  unfolding member_down_def Let_def
  by (auto split: option.splits dest: find_member_channel_ok
      intro!: lacp_ok_store channel_ok_update simp: member_ok_def)

lemma member_up_ok: "lacp_ok l \<Longrightarrow> lacp_ok (fst (member_up l d i))"
  unfolding member_up_def Let_def
  by (auto split: option.splits dest: find_member_channel_ok
      intro!: lacp_ok_store channel_ok_update simp: member_ok_def)

lemma lacp_ok_apply: "lacp_ok l \<Longrightarrow> lacp_ok (lacp_apply op l)"
  by (cases op) (simp_all add: add_member_ok negotiate_ok member_down_ok member_up_ok)

interpretation lacp_run: machine lacp_apply "\<lambda>_. []" lacp_ok
  by unfold_locales (simp_all add: lacp_ok_apply, simp add: lacp_ok_def)

text \<open>Through any sequence of member configuration, negotiation, shutdown and recovery, a member
  that is administratively shut is in state down (a negotiation does not revive it), and no interface
  is listed twice in a channel.\<close>

theorem shut_members_stay_down: "lacp_ok (fold lacp_apply ops (\<lambda>_. []))"
  by (rule lacp_run.run_inv)

subsection \<open>Negotiation\<close>

text \<open>The negotiation outcome does not depend on which end runs it, and it is the rule of the class
  comment: two \<open>on\<close> ends, or no \<open>on\<close> end and not two passive ones.\<close>

theorem negotiation_symmetric:
  "modes_compatible a b = modes_compatible b a \<and>
   (modes_compatible a b \<longleftrightarrow>
      (a = ''on'' \<and> b = ''on'') \<or> (a \<noteq> ''on'' \<and> b \<noteq> ''on'' \<and> (a \<noteq> ''passive'' \<or> b \<noteq> ''passive'')))"
  by (auto simp: modes_compatible_def)

definition passive_pair :: lacp where
  "passive_pair = fold lacp_apply [AddMember ''a'' 1 ''Gi1/0/1'' ''passive'', AddMember ''b'' 1 ''Gi1/0/1'' ''passive''] (\<lambda>_. [])"

definition mismatched_pair :: lacp where
  "mismatched_pair = fold lacp_apply [AddMember ''a'' 1 ''Gi1/0/1'' ''on'', AddMember ''b'' 1 ''Gi1/0/1'' ''active'',
     Negotiate ''a'' 1 ''b'' 1] (\<lambda>_. [])"

definition member_states :: "lacp \<Rightarrow> dev \<Rightarrow> int \<Rightarrow> member_state list" where
  "member_states l d po = (case dget (l d) po of None \<Rightarrow> [] | Some ch \<Rightarrow> List.map m_state (ch_members ch))"

text \<open>\<open>member_up\<close> bundles a port that no negotiation ever accepted: on a passive/passive pair, a
  shut and no shut before the first negotiation brings the port up as bundled, and on an \<open>on\<close>/active
  mismatch the same happens after the negotiation has failed.\<close>

theorem member_up_without_negotiation:
  "\<not> snd (negotiate passive_pair ''a'' 1 ''b'' 1) \<and>
   member_states (fold lacp_apply [MemberDown ''a'' ''Gi1/0/1'', MemberUp ''a'' ''Gi1/0/1''] passive_pair) ''a'' 1 = [Bundled] \<and>
   member_states mismatched_pair ''a'' 1 = [Independent] \<and>
   member_states (fold lacp_apply [MemberDown ''a'' ''Gi1/0/1'', MemberUp ''a'' ''Gi1/0/1''] mismatched_pair) ''a'' 1 = [Bundled]"
  by code_simp

end
