(* ===== verification/Segments.thy ===== *)
theory Segments
  imports VNet
begin

text \<open>
  The part of \<open>class IcmpEngine\<close> that looks at layer 2: which layer-3 devices sit on the same segment
  behind transit switches, and how a learned next hop (a device name for RIP, a router id for OSPF)
  becomes an address. \<open>rid\<close> gives the OSPF router id of a device that has an OSPF node.
\<close>

record l3env =
  l3_net :: vnet
  l3_book :: "(dev, device_info) dict"
  ospf_on :: "dev \<Rightarrow> bool"
  rid :: "dev \<Rightarrow> string option"

definition transit_types :: "string list" where
  "transit_types = [''catalyst'', ''apresia'', ''nexus'', ''srs'']"

definition is_transit :: "l3env \<Rightarrow> dev \<Rightarrow> bool" where
  "is_transit e n \<longleftrightarrow>
     (case dget (device_types (l3_net e)) n of None \<Rightarrow> False | Some t \<Rightarrow> t \<in> set transit_types) \<and>
     \<not> ospf_on e n"

function l2_walk :: "l3env \<Rightarrow> dev list \<Rightarrow> dev list \<Rightarrow> dev list \<Rightarrow> dev list" where
  "l2_walk e visited result [] = result"
| "l2_walk e visited result (n # queue) =
     (if n \<in> set visited then l2_walk e visited result queue
      else if is_transit e n then
        l2_walk e (n # visited) result
          (queue @ filter (\<lambda>p. p \<notin> set (n # visited) \<and> edge_up (l3_net e) n p)
                     (get_neighbors (l3_net e) n))
      else l2_walk e (n # visited) (sadd result n) queue)"
  by pat_completeness auto
termination
proof (relation "measures [\<lambda>(e, visited, result, queue).
      card ((targets (links (l3_net e)) \<union> set queue) - set visited),
    \<lambda>(e, visited, result, queue). length queue]", goal_cases)
  case (2 e visited result n queue)
  then have "targets (links (l3_net e)) \<union> set queue - set visited =
      targets (links (l3_net e)) \<union> set (n # queue) - set visited" by auto
  then show ?case by simp
next
  case (3 e visited result n queue)
  have sub: "targets (links (l3_net e)) \<union> set (queue @ filter (\<lambda>p. p \<notin> set (n # visited) \<and>
        edge_up (l3_net e) n p) (get_neighbors (l3_net e) n)) - set (n # visited)
      \<subset> targets (links (l3_net e)) \<union> set (n # queue) - set visited"
    using 3 nbrs_targets [of "links (l3_net e)" n] by (auto simp: get_neighbors_def)
  have "finite (targets (links (l3_net e)) \<union> set (n # queue) - set visited)" by simp
  from psubset_card_mono [OF this sub] show ?case by simp
next
  case (4 e visited result n queue)
  have sub: "targets (links (l3_net e)) \<union> set queue - set (n # visited)
      \<subset> targets (links (l3_net e)) \<union> set (n # queue) - set visited" using 4 by auto
  have "finite (targets (links (l3_net e)) \<union> set (n # queue) - set visited)" by simp
  from psubset_card_mono [OF this sub] show ?case by simp
qed simp

definition l2_segment_peers :: "l3env \<Rightarrow> dev \<Rightarrow> dev list" where
  "l2_segment_peers e d =
     l2_walk e [d] [] (filter (edge_up (l3_net e) d) (get_neighbors (l3_net e) d))"

text \<open>The first address of the peer that lies in one of the device's connected networks.\<close>

definition shared_ip :: "l3env \<Rightarrow> dev \<Rightarrow> dev \<Rightarrow> ip \<Rightarrow> ip" where
  "shared_ip e d peer dflt =
     (case find (\<lambda>(p_ip, _). \<exists>(m_ip, m_pref)\<in>set (ips_of (l3_book e) d). ip_in_network p_ip m_ip m_pref)
            (ips_of (l3_book e) peer) of
        Some (p_ip, _) \<Rightarrow> p_ip
      | None \<Rightarrow> dflt)"

definition answers_to :: "l3env \<Rightarrow> dev \<Rightarrow> string \<Rightarrow> bool" where
  "answers_to e peer nh \<longleftrightarrow> peer = nh \<or> rid e peer = Some nh"

fun resolve_behind :: "l3env \<Rightarrow> dev \<Rightarrow> string \<Rightarrow> dev list \<Rightarrow> string" where
  "resolve_behind e d nh [] = nh"
| "resolve_behind e d nh (p # ps) =
     (if answers_to e p nh then shared_ip e d p nh
      else if nh \<in> set (dkeys (ips_of (l3_book e) p)) then nh
      else resolve_behind e d nh ps)"

definition resolve_learned_next_hop :: "l3env \<Rightarrow> dev \<Rightarrow> string \<Rightarrow> string" where
  "resolve_learned_next_hop e d nh =
     (if nh = [] \<or> nh = ''0.0.0.0'' then nh
      else case find (\<lambda>p. answers_to e p nh) (get_neighbors (l3_net e) d) of
        Some p \<Rightarrow> shared_ip e d p nh
      | None \<Rightarrow> resolve_behind e d nh (l2_segment_peers e d))"

definition local_ip_toward :: "(dev, device_info) dict \<Rightarrow> dev \<Rightarrow> ip \<Rightarrow> ip option" where
  "local_ip_toward book d nh =
     map_option fst (find (\<lambda>(my_ip, p). ip_in_network nh my_ip p) (ips_of book d))"

subsection \<open>What the walk finds\<close>

text \<open>Devices that can be reached over live links through transit switches only.\<close>

inductive behind :: "l3env \<Rightarrow> dev set \<Rightarrow> dev set \<Rightarrow> dev \<Rightarrow> bool" for e visited queue where
  start: "n \<in> queue \<Longrightarrow> n \<notin> visited \<Longrightarrow> behind e visited queue n"
| through: "behind e visited queue n \<Longrightarrow> is_transit e n \<Longrightarrow> p \<in> set (get_neighbors (l3_net e) n) \<Longrightarrow>
     edge_up (l3_net e) n p \<Longrightarrow> p \<notin> visited \<Longrightarrow> behind e visited queue p"

lemma behind_fresh: "behind e visited queue n \<Longrightarrow> n \<notin> visited"
  by (induction rule: behind.induct)

lemma behind_empty: "\<not> behind e visited {} n"
proof
  assume "behind e visited {} n"
  then show False by induction auto
qed

lemma behind_skip: "n \<in> visited \<Longrightarrow> behind e visited (insert n queue) x \<longleftrightarrow> behind e visited queue x"
proof
  assume n: "n \<in> visited" and "behind e visited (insert n queue) x"
  from this(2) show "behind e visited queue x"
    by induction (use n in \<open>auto intro: behind.intros\<close>)
next
  assume "behind e visited queue x"
  then show "behind e visited (insert n queue) x"
    by induction (auto intro: behind.intros)
qed

definition onward :: "l3env \<Rightarrow> dev set \<Rightarrow> dev \<Rightarrow> dev set" where
  "onward e visited n = (if is_transit e n
     then {p \<in> set (get_neighbors (l3_net e) n). p \<notin> insert n visited \<and> edge_up (l3_net e) n p} else {})"

lemma behind_visit:
  assumes "n \<notin> visited"
  shows "behind e visited (insert n queue) x \<longleftrightarrow> x = n \<or> behind e (insert n visited) (queue \<union> onward e visited n) x"
proof
  assume "behind e visited (insert n queue) x"
  then show "x = n \<or> behind e (insert n visited) (queue \<union> onward e visited n) x"
  proof induction
    case (start y)
    then show ?case by (auto intro: behind.start)
  next
    case (through y p)
    show ?case
    proof (cases "p = n")
      case False
      show ?thesis
      proof (cases "y = n")
        case True
        with through False have "p \<in> onward e visited n" by (auto simp: onward_def)
        then show ?thesis using through False by (auto intro: behind.start)
      next
        case False2: False
        with through False show ?thesis by (auto intro: behind.through)
      qed
    qed simp
  qed
next
  have n: "behind e visited (insert n queue) n" using assms by (auto intro: behind.start)
  have "behind e visited (insert n queue) x"
    if "behind e (insert n visited) (queue \<union> onward e visited n) x"
    using that
  proof induction
    case (start y)
    then show ?case using n
      by (auto simp: onward_def split: if_splits intro: behind.start behind.through)
  next
    case (through y p)
    then show ?case by (auto intro: behind.through)
  qed
  with n show "x = n \<or> behind e (insert n visited) (queue \<union> onward e visited n) x \<Longrightarrow>
     behind e visited (insert n queue) x" by auto
qed

lemma l2_walk_spec:
  "set (l2_walk e visited result queue) =
     set result \<union> {n. behind e (set visited) (set queue) n \<and> \<not> is_transit e n}"
proof (induction e visited result queue rule: l2_walk.induct)
  case (1 e visited result)
  then show ?case by (simp add: behind_empty)
next
  case (2 e visited result n queue)
  consider "n \<in> set visited" | "n \<notin> set visited" "is_transit e n" | "n \<notin> set visited" "\<not> is_transit e n"
    by blast
  then show ?case
  proof cases
    case 1
    with 2(1) [OF 1] show ?thesis by (simp add: behind_skip)
  next
    case c: 2
    let ?q = "filter (\<lambda>p. p \<notin> set (n # visited) \<and> edge_up (l3_net e) n p) (get_neighbors (l3_net e) n)"
    have q: "set (queue @ ?q) = set queue \<union> onward e (set visited) n"
      using c by (auto simp: onward_def)
    have step: "l2_walk e visited result (n # queue) = l2_walk e (n # visited) result (queue @ ?q)"
      using c by simp
    show ?thesis
      using 2(2) [OF c] c behind_visit [OF c(1), of e "set queue"] unfolding step q by auto
  next
    case c: 3
    have "onward e (set visited) n = {}" using c by (simp add: onward_def)
    then show ?thesis
      using 2(3) [OF c] c behind_visit [OF c(1), of e "set queue"] by auto
  qed
qed

text \<open>The peers found across layer-2 switches are exactly the devices that are not themselves
  transit switches and that a chain of live links through transit switches connects to the device.\<close>

theorem l2_segment_peers_exact:
  "set (l2_segment_peers e d) =
     {n. behind e {d} {p \<in> set (get_neighbors (l3_net e) d). edge_up (l3_net e) d p} n \<and> \<not> is_transit e n}"
  by (simp add: l2_segment_peers_def l2_walk_spec)

end
