(* ===== verification/Selection.thy ===== *)
theory Selection
  imports PyPrelude
begin

text \<open>
  The contract of a selection loop (\<open>best = None; for c in cs: if best is None or better(c, best): best = c\<close>):
  \<open>better\<close> compares a key strictly. Route selection, equal-cost scores, root ports and masters all
  run this loop; the locale says once what its result is.
\<close>

locale selection =
  fixes better :: "'a \<Rightarrow> 'a \<Rightarrow> bool" and key :: "'a \<Rightarrow> 'k::linorder"
  assumes better_iff: "better a b \<longleftrightarrow> key a < key b"
begin

lemma pick_le: "pick better (Some b) xs = Some r \<Longrightarrow> key r \<le> key b \<and> (\<forall>x\<in>set xs. key r \<le> key x)"
proof (induction xs arbitrary: b)
  case (Cons x xs)
  then have "pick better (Some (if better x b then x else b)) xs = Some r" by simp
  from Cons.IH [OF this] show ?case by (auto simp: better_iff split: if_splits)
qed simp

lemma pick_least: "pick better None xs = Some r \<Longrightarrow> x \<in> set xs \<Longrightarrow> key r \<le> key x"
proof (cases xs)
  case (Cons y ys)
  assume "pick better None xs = Some r" "x \<in> set xs"
  with Cons pick_le [of y ys r] show ?thesis by auto
qed simp

lemma pick_exists: "x \<in> set xs \<Longrightarrow> \<exists>r. pick better None xs = Some r \<and> r \<in> set xs \<and> key r \<le> key x"
proof -
  assume x: "x \<in> set xs"
  then have "pick better None xs \<noteq> None" by auto
  then obtain r where "pick better None xs = Some r" by blast
  then show ?thesis using x by (auto dest: pick_mem pick_least)
qed

lemma pick_first: "\<forall>x\<in>set xs. key c \<le> key x \<Longrightarrow> pick better (Some c) xs = Some c"
  by (induction xs) (auto simp: better_iff)

text \<open>Every device that scans the same candidates with distinct keys selects the same one.\<close>

lemma pick_agree:
  assumes "pick better None xs = Some r" "pick better None ys = Some s" "set xs = set ys" "inj_on key (set xs)"
  shows "r = s"
proof -
  have "r \<in> set xs" "s \<in> set xs" using assms by (auto dest: pick_mem)
  moreover have "key r = key s"
    using assms(1-3) calculation by (intro antisym) (auto intro: pick_least)
  ultimately show ?thesis using assms(4) by (auto dest: inj_onD)
qed

end

end
