(* ===== verification/Rib.thy ===== *)
theory Rib
  imports Segments Machine Selection "HOL-Library.Product_Lexorder"
begin

text \<open>
  The routing table, \<open>class RibEngine\<close>: static routes with their administrative distances, and the
  selection of one best route (or up to four equal-cost next hops) per destination among the routes of
  every source. The tables of RIP, OSPF, EIGRP and BGP enter as the rows the engine reads from them.
\<close>

record static_route =
  sr_network :: ip
  sr_prefix :: int
  sr_next_hop :: string
  sr_ad :: int
  sr_iface :: iface
  sr_active :: bool

record rib_node =
  static_routes :: "static_route list"
  rib_hostname :: string

type_synonym rib = "dev \<rightharpoonup> rib_node"

definition ad_connected :: int where "ad_connected = 0"
definition ad_eigrp :: int where "ad_eigrp = 90"
definition ad_ospf :: int where "ad_ospf = 110"
definition ad_rip :: int where "ad_rip = 120"
definition ad_bgp_ext :: int where "ad_bgp_ext = 20"

subsection \<open>Static routes\<close>

definition rib_node_of :: "rib \<Rightarrow> dev \<Rightarrow> rib_node" where
  "rib_node_of r d = (case r d of Some n \<Rightarrow> n | None \<Rightarrow> \<lparr>static_routes = [], rib_hostname = d\<rparr>)"

definition same_dest :: "ip \<Rightarrow> int \<Rightarrow> static_route \<Rightarrow> bool" where
  "same_dest network prefix s \<longleftrightarrow> sr_network s = network \<and> sr_prefix s = prefix"

definition insert_static :: "static_route list \<Rightarrow> ip \<Rightarrow> int \<Rightarrow> string \<Rightarrow> int \<Rightarrow> static_route list" where
  "insert_static rs network prefix nh ad =
     (if \<exists>s\<in>set rs. same_dest network prefix s \<and> sr_next_hop s = nh \<and> sr_ad s = ad then rs
      else let existing = filter (same_dest network prefix) rs;
               rs' = (if existing \<noteq> [] \<and> ad < Min (sr_ad ` set existing)
                      then filter (\<lambda>s. \<not> same_dest network prefix s) rs else rs)
           in rs' @ [\<lparr>sr_network = network, sr_prefix = prefix, sr_next_hop = nh, sr_ad = ad,
                      sr_iface = [], sr_active = True\<rparr>])"

definition add_static_route :: "rib \<Rightarrow> dev \<Rightarrow> string \<Rightarrow> ip \<Rightarrow> int \<Rightarrow> string \<Rightarrow> int \<Rightarrow> rib" where
  "add_static_route r d host network prefix nh ad =
     (let n = rib_node_of r d
      in r(d \<mapsto> n\<lparr>rib_hostname := host,
                  static_routes := insert_static (static_routes n) network prefix nh ad\<rparr>))"

definition remove_static_route :: "rib \<Rightarrow> dev \<Rightarrow> ip \<Rightarrow> int \<Rightarrow> string option \<Rightarrow> rib" where
  "remove_static_route r d network prefix nh =
     (case r d of
        None \<Rightarrow> r
      | Some n \<Rightarrow> r(d \<mapsto> n\<lparr>static_routes :=
          filter (\<lambda>s. \<not> (same_dest network prefix s \<and> (nh = None \<or> nh = Some (sr_next_hop s))))
            (static_routes n)\<rparr>))"

definition set_nexthop_reachable :: "rib \<Rightarrow> dev \<Rightarrow> string \<Rightarrow> bool \<Rightarrow> rib" where
  "set_nexthop_reachable r d nh reachable =
     (case r d of
        None \<Rightarrow> r
      | Some n \<Rightarrow> r(d \<mapsto> n\<lparr>static_routes :=
          List.map (\<lambda>s. if sr_next_hop s = nh then s\<lparr>sr_active := reachable\<rparr> else s) (static_routes n)\<rparr>))"

subsection \<open>Exit interfaces\<close>

definition plain_mask :: "int \<Rightarrow> int res" where
  "plain_mask p = (if p = 0 then Inr 0 else netmask p)"

definition has_addr :: "iface_info \<Rightarrow> bool" where
  "has_addr i \<longleftrightarrow> if_ip i \<noteq> None \<and> if_ip i \<noteq> Some []"

definition iface_for_network :: "(dev, device_info) dict \<Rightarrow> dev \<Rightarrow> ip \<Rightarrow> int \<Rightarrow> iface option" where
  "iface_for_network book d network prefix =
     (case plain_mask prefix of
        Inl _ \<Rightarrow> None
      | Inr m \<Rightarrow>
          map_option fst (find (\<lambda>(_, i). has_addr i \<and>
             ip_to_int (the (if_ip i)) AND m = ip_to_int network AND m) (ifaces_of book d)))"

text \<open>Here the mask of each interface is computed outside the \<open>try\<close>: a prefix length above 32 raises.\<close>

fun nexthop_scan :: "(iface, iface_info) dict \<Rightarrow> int \<Rightarrow> iface res" where
  "nexthop_scan [] nh = Inr []"
| "nexthop_scan ((n, i) # rest) nh =
     (if \<not> has_addr i then nexthop_scan rest nh
      else res_bind (plain_mask (case if_prefix i of None \<Rightarrow> 24 | Some p \<Rightarrow> p)) (\<lambda>m.
        if ip_to_int (the (if_ip i)) AND m = nh AND m then Inr n else nexthop_scan rest nh))"

definition iface_for_nexthop :: "(dev, device_info) dict \<Rightarrow> dev \<Rightarrow> string \<Rightarrow> iface res" where
  "iface_for_nexthop book d nh =
     (if nh = [] \<or> nh = ''0.0.0.0'' then Inr [] else nexthop_scan (ifaces_of book d) (ip_to_int nh))"

definition or_else :: "string \<Rightarrow> string option \<Rightarrow> string" where
  "or_else a b = (if a \<noteq> [] then a else case b of None \<Rightarrow> [] | Some s \<Rightarrow> s)"

text \<open>\<open>self._iface_for_nexthop(...) or self._iface_for_network(...) or ''\<close>.\<close>

definition exit_guess :: "(dev, device_info) dict \<Rightarrow> dev \<Rightarrow> string \<Rightarrow> ip \<Rightarrow> int \<Rightarrow> iface res" where
  "exit_guess book d nh network prefix =
     res_bind (iface_for_nexthop book d nh)
       (\<lambda>i. Inr (or_else i (iface_for_network book d network prefix)))"

subsection \<open>Candidates\<close>

datatype source = Connected | StaticSrc | RipSrc | OspfSrc | EigrpSrc | BgpSrc

record cand =
  c_network :: ip
  c_prefix :: int
  c_next_hop :: string
  c_ad :: int
  c_source :: source
  c_metric :: int
  c_iface :: iface

text \<open>The rows read from the other engines; \<open>None\<close> where the engine has no enabled node.\<close>

record rip_row =
  rr_network :: ip
  rr_prefix :: int
  rr_metric :: int
  rr_next_hop :: string
  rr_learned_from :: string

record ospf_row =
  or_network :: ip
  or_prefix :: int
  or_metric :: int
  or_next_hop :: "string option"
  or_via :: string

record eigrp_row =
  er_network :: ip
  er_prefix :: int
  er_metric :: int
  er_next_hop :: string
  er_external :: bool

record bgp_row =
  br_prefix :: ip
  br_prefix_len :: int
  br_next_hop :: string
  br_med :: "int option"

record tables =
  rip_rows :: "rip_row list option"
  ospf_rows :: "ospf_row list option"
  ospf_own_rid :: string
  eigrp_rows :: "eigrp_row list"
  bgp_rows :: "bgp_row list option"

definition static_cand :: "(dev, device_info) dict \<Rightarrow> dev \<Rightarrow> static_route \<Rightarrow> cand res" where
  "static_cand book d s =
     (let is_connected = (sr_ad s = 0 \<and> (sr_next_hop s = ''0.0.0.0'' \<or> sr_next_hop s = []));
          mk = (\<lambda>i. \<lparr>c_network = sr_network s, c_prefix = sr_prefix s, c_next_hop = sr_next_hop s,
                 c_ad = sr_ad s, c_source = (if is_connected then Connected else StaticSrc),
                 c_metric = 0, c_iface = i\<rparr>)
      in if sr_iface s \<noteq> [] then Inr (mk (sr_iface s))
         else if is_connected then
           Inr (mk (or_else [] (iface_for_network book d (sr_network s) (sr_prefix s))))
         else res_bind (iface_for_nexthop book d (sr_next_hop s)) (\<lambda>i. Inr (mk i)))"

definition rip_cand :: "(dev, device_info) dict \<Rightarrow> dev \<Rightarrow> rip_row \<Rightarrow> cand res" where
  "rip_cand book d r =
     (let direct = (rr_learned_from r = ''direct'')
      in res_bind (exit_guess book d (rr_next_hop r) (rr_network r) (rr_prefix r)) (\<lambda>i.
           Inr \<lparr>c_network = rr_network r, c_prefix = rr_prefix r,
                c_next_hop = (if direct then ''0.0.0.0'' else rr_next_hop r),
                c_ad = (if direct then ad_connected else ad_rip),
                c_source = (if direct then Connected else RipSrc), c_metric = rr_metric r, c_iface = i\<rparr>))"

definition ospf_self_route :: "string \<Rightarrow> ospf_row \<Rightarrow> bool" where
  "ospf_self_route own r \<longleftrightarrow> or_via r \<noteq> ''direct'' \<and> own \<noteq> [] \<and> or_next_hop r = Some own"

definition ospf_cand :: "(dev, device_info) dict \<Rightarrow> dev \<Rightarrow> ospf_row \<Rightarrow> cand res" where
  "ospf_cand book d r =
     (let direct = (or_via r = ''direct'')
      in res_bind (exit_guess book d (case or_next_hop r of None \<Rightarrow> [] | Some h \<Rightarrow> h)
             (or_network r) (or_prefix r)) (\<lambda>i.
           Inr \<lparr>c_network = or_network r, c_prefix = or_prefix r,
                c_next_hop = (case or_next_hop r of None \<Rightarrow> ''0.0.0.0'' | Some h \<Rightarrow> h),
                c_ad = (if direct then ad_connected else ad_ospf),
                c_source = (if direct then Connected else OspfSrc), c_metric = or_metric r, c_iface = i\<rparr>))"

definition eigrp_cand :: "(dev, device_info) dict \<Rightarrow> dev \<Rightarrow> eigrp_row \<Rightarrow> cand res" where
  "eigrp_cand book d r =
     res_bind (exit_guess book d (er_next_hop r) (er_network r) (er_prefix r)) (\<lambda>i.
       Inr \<lparr>c_network = er_network r, c_prefix = er_prefix r, c_next_hop = er_next_hop r,
            c_ad = (if er_external r then 170 else ad_eigrp), c_source = EigrpSrc,
            c_metric = er_metric r, c_iface = i\<rparr>)"

definition bgp_cand :: "(dev, device_info) dict \<Rightarrow> dev \<Rightarrow> bgp_row \<Rightarrow> cand res" where
  "bgp_cand book d r =
     res_bind (exit_guess book d (br_next_hop r) (br_prefix r) (br_prefix_len r)) (\<lambda>i.
       Inr \<lparr>c_network = br_prefix r, c_prefix = br_prefix_len r, c_next_hop = br_next_hop r,
            c_ad = ad_bgp_ext, c_source = BgpSrc,
            c_metric = (case br_med r of None \<Rightarrow> 0 | Some m \<Rightarrow> m), c_iface = i\<rparr>)"

definition rows_of :: "'a list option \<Rightarrow> 'a list" where
  "rows_of x = (case x of None \<Rightarrow> [] | Some xs \<Rightarrow> xs)"

definition candidates :: "rib \<Rightarrow> (dev, device_info) dict \<Rightarrow> tables \<Rightarrow> dev \<Rightarrow> cand list res" where
  "candidates r book t d =
     res_bind (res_map (static_cand book d)
         (filter sr_active (case r d of None \<Rightarrow> [] | Some n \<Rightarrow> static_routes n))) (\<lambda>s.
     res_bind (res_map (rip_cand book d) (rows_of (rip_rows t))) (\<lambda>ri.
     res_bind (res_map (ospf_cand book d)
         (filter (\<lambda>x. \<not> ospf_self_route (ospf_own_rid t) x) (rows_of (ospf_rows t)))) (\<lambda>os.
     res_bind (res_map (eigrp_cand book d) (eigrp_rows t)) (\<lambda>es.
     res_bind (res_map (bgp_cand book d) (rows_of (bgp_rows t))) (\<lambda>bs.
       Inr (s @ ri @ os @ es @ bs))))))"

subsection \<open>Routes over shut interfaces\<close>

definition learned_source :: "source \<Rightarrow> bool" where
  "learned_source s \<longleftrightarrow> s \<in> {RipSrc, OspfSrc, BgpSrc, EigrpSrc}"

definition exit_iface :: "l3env \<Rightarrow> dev \<Rightarrow> cand \<Rightarrow> iface res" where
  "exit_iface e d c =
     (if c_iface c \<noteq> [] then Inr (c_iface c)
      else if learned_source (c_source c) then
        (let nh = resolve_learned_next_hop e d (c_next_hop c)
         in if nh \<noteq> [] then iface_for_nexthop (l3_book e) d nh else Inr [])
      else Inr [])"

fun drop_down :: "l3env \<Rightarrow> dev \<Rightarrow> cand list \<Rightarrow> cand list res" where
  "drop_down e d [] = Inr []"
| "drop_down e d (c # cs) =
     res_bind (exit_iface e d c) (\<lambda>i. res_bind (drop_down e d cs) (\<lambda>cs'.
       Inr (if i \<noteq> [] \<and> is_down (l3_net e) d i then cs' else c # cs')))"

definition usable :: "l3env \<Rightarrow> dev \<Rightarrow> cand list \<Rightarrow> cand list res" where
  "usable e d cs = (if down_interfaces (l3_net e) d = [] then Inr cs else drop_down e d cs)"

subsection \<open>Selection\<close>

definition dest_key :: "ip \<Rightarrow> int \<Rightarrow> string" where
  "dest_key network prefix = network @ ''/'' @ show_int prefix"

definition ckey :: "cand \<Rightarrow> string" where
  "ckey c = dest_key (c_network c) (c_prefix c)"

definition score :: "cand \<Rightarrow> int \<times> int" where
  "score c = (c_ad c, c_metric c)"

definition better :: "cand \<Rightarrow> cand \<Rightarrow> bool" where
  "better c cur \<longleftrightarrow> c_ad c < c_ad cur \<or> (c_ad c = c_ad cur \<and> c_metric c < c_metric cur)"

fun select_best :: "cand list \<Rightarrow> (string, cand) dict \<Rightarrow> (string, cand) dict" where
  "select_best [] best = best"
| "select_best (c # cs) best =
     (case dget best (ckey c) of
        None \<Rightarrow> select_best cs (dset best (ckey c) c)
      | Some cur \<Rightarrow> select_best cs (if better c cur then dset best (ckey c) c else best))"

definition get_best_routes :: "rib \<Rightarrow> l3env \<Rightarrow> tables \<Rightarrow> dev \<Rightarrow> cand list res" where
  "get_best_routes r e t d =
     res_bind (candidates r (l3_book e) t d) (\<lambda>cs.
     res_bind (usable e d cs) (\<lambda>us. Inr (dvals (select_best us []))))"

subsection \<open>Equal-cost paths\<close>

record ecmp_group =
  g_network :: ip
  g_prefix :: int
  g_ad :: int
  g_metric :: int
  g_source :: source
  g_next_hops :: "string list"

definition plain_cand :: "ip \<Rightarrow> int \<Rightarrow> string \<Rightarrow> int \<Rightarrow> source \<Rightarrow> int \<Rightarrow> cand" where
  "plain_cand network prefix nh ad src metric =
     \<lparr>c_network = network, c_prefix = prefix, c_next_hop = nh, c_ad = ad, c_source = src,
      c_metric = metric, c_iface = []\<rparr>"

definition ecmp_candidates :: "rib \<Rightarrow> tables \<Rightarrow> dev \<Rightarrow> cand list" where
  "ecmp_candidates r t d =
     List.map (\<lambda>s. plain_cand (sr_network s) (sr_prefix s) (sr_next_hop s) (sr_ad s) StaticSrc 0)
       (filter sr_active (case r d of None \<Rightarrow> [] | Some n \<Rightarrow> static_routes n)) @
     List.map (\<lambda>r. plain_cand (rr_network r) (rr_prefix r) (rr_next_hop r) ad_rip RipSrc (rr_metric r))
       (filter (\<lambda>r. rr_learned_from r \<noteq> ''direct'') (rows_of (rip_rows t))) @
     List.map (\<lambda>x. plain_cand (or_network x) (or_prefix x)
         (case or_next_hop x of None \<Rightarrow> ''0.0.0.0'' | Some h \<Rightarrow> h) ad_ospf OspfSrc (or_metric x))
       (filter (\<lambda>x. or_via x \<noteq> ''direct'') (rows_of (ospf_rows t))) @
     List.map (\<lambda>x. plain_cand (er_network x) (er_prefix x) (er_next_hop x)
         (if er_external x then 170 else ad_eigrp) EigrpSrc (er_metric x)) (eigrp_rows t)"

fun best_scores :: "cand list \<Rightarrow> (string, int \<times> int) dict \<Rightarrow> (string, int \<times> int) dict" where
  "best_scores [] bk = bk"
| "best_scores (c # cs) bk =
     (case dget bk (ckey c) of
        None \<Rightarrow> best_scores cs (dset bk (ckey c) (score c))
      | Some cur \<Rightarrow> best_scores cs (if score c < cur then dset bk (ckey c) (score c) else bk))"

definition max_paths :: nat where "max_paths = 4"

definition join_group :: "cand \<Rightarrow> ecmp_group \<Rightarrow> ecmp_group" where
  "join_group c g =
     (if c_next_hop c \<notin> set (g_next_hops g) \<and> length (g_next_hops g) < max_paths
      then g\<lparr>g_next_hops := g_next_hops g @ [c_next_hop c]\<rparr> else g)"

definition fresh_group :: "cand \<Rightarrow> ecmp_group" where
  "fresh_group c = \<lparr>g_network = c_network c, g_prefix = c_prefix c, g_ad = c_ad c, g_metric = c_metric c,
     g_source = c_source c, g_next_hops = []\<rparr>"

fun group_paths :: "(string, int \<times> int) dict \<Rightarrow> cand list \<Rightarrow> (string, ecmp_group) dict \<Rightarrow> (string, ecmp_group) dict" where
  "group_paths bk [] gs = gs"
| "group_paths bk (c # cs) gs =
     (if dget bk (ckey c) \<noteq> Some (score c) then group_paths bk cs gs
      else let g = (case dget gs (ckey c) of None \<Rightarrow> fresh_group c | Some g \<Rightarrow> g)
           in group_paths bk cs (dset gs (ckey c) (join_group c g)))"

definition get_ecmp_routes :: "rib \<Rightarrow> tables \<Rightarrow> dev \<Rightarrow> ecmp_group list" where
  "get_ecmp_routes r t d =
     (let cs = ecmp_candidates r t d in dvals (group_paths (best_scores cs []) cs []))"

subsection \<open>The best route of every destination\<close>

lemma better_score: "better c b \<longleftrightarrow> score c < score b"
  by (auto simp: better_def score_def less_prod_def')

text \<open>The selection loop computes, under every key, the scan of the candidates with that key.\<close>

lemma select_best_pick:
  "dget (select_best cs best) k = pick better (dget best k) (filter (\<lambda>c. ckey c = k) cs)"
proof (induction cs best rule: select_best.induct)
  case (2 c cs best)
  then show ?case by (cases "dget best (ckey c)") auto
qed simp

interpretation route_choice: selection better score
  by unfold_locales (rule better_score)

interpretation score_choice: selection "(<)" "\<lambda>s :: int \<times> int. s"
  by unfold_locales simp

lemma select_best_ok: "dict_ok best \<Longrightarrow> dict_ok (select_best cs best)"
  by (induction cs best rule: select_best.induct) (auto split: option.splits)

lemma select_best_min:
  assumes "c \<in> set cs"
  shows "\<exists>b. dget (select_best cs []) (ckey c) = Some b \<and> ckey b = ckey c \<and> b \<in> set cs \<and> score b \<le> score c"
  using route_choice.pick_exists [of c "filter (\<lambda>x. ckey x = ckey c) cs"] assms
  by (auto simp: select_best_pick)

text \<open>C7. For every destination some candidate route exists for, the table that \<open>get_best_routes\<close>
  selects holds exactly one route, that route is one of the candidates, and no candidate for the
  destination has a smaller (distance, metric) pair; destinations without a candidate have no route.\<close>

theorem best_routes_minimal:
  "list_all (\<lambda>c. case dget (select_best cs []) (ckey c) of
       None \<Rightarrow> False
     | Some b \<Rightarrow> b \<in> set cs \<and> ckey b = ckey c \<and> score b \<le> score c) cs \<and>
   dict_ok (select_best cs []) \<and> set (dkeys (select_best cs [])) \<subseteq> ckey ` set cs"
proof (intro conjI)
  show "list_all (\<lambda>c. case dget (select_best cs []) (ckey c) of
       None \<Rightarrow> False
     | Some b \<Rightarrow> b \<in> set cs \<and> ckey b = ckey c \<and> score b \<le> score c) cs"
    using select_best_min by (fastforce simp: list_all_iff)
  show "dict_ok (select_best cs [])" by (rule select_best_ok) simp
  show "set (dkeys (select_best cs [])) \<subseteq> ckey ` set cs"
  proof
    fix k assume "k \<in> set (dkeys (select_best cs []))"
    then have "dget (select_best cs []) k \<noteq> None" by (simp add: dget_None_iff)
    then show "k \<in> ckey ` set cs" by (auto simp: select_best_pick filter_empty_conv)
  qed
qed

text \<open>Among candidates that tie on distance and metric the first one collected wins (static before
  RIP before OSPF before EIGRP before BGP): a later candidate replaces the chosen one only when its
  (distance, metric) pair is strictly smaller.\<close>

theorem best_route_first_of_equals:
  assumes "filter (\<lambda>x. ckey x = ckey c) cs = c # rest" "\<forall>x\<in>set rest. score c \<le> score x"
  shows "dget (select_best cs []) (ckey c) = Some c"
  using assms route_choice.pick_first [OF assms(2)] by (simp add: select_best_pick)

definition route_a :: cand where
  "route_a = plain_cand ''10.1.0.0'' 16 ''192.0.2.1'' 1 StaticSrc 0"

definition route_b :: cand where
  "route_b = plain_cand ''10.1.0.0'' 16 ''192.0.2.2'' 110 OspfSrc 20"

theorem best_route_first_of_equals_witness:
  "dget (select_best [route_a, route_b] []) (ckey route_a) = Some route_a"
  by (rule best_route_first_of_equals [of _ _ "[route_b]"])
     (simp_all add: route_a_def route_b_def plain_cand_def ckey_def score_def)

subsection \<open>Equal-cost groups\<close>

definition group_ok :: "cand list \<Rightarrow> string \<Rightarrow> ecmp_group \<Rightarrow> bool" where
  "group_ok cs k g \<longleftrightarrow>
     g_next_hops g \<noteq> [] \<and> length (g_next_hops g) \<le> max_paths \<and> distinct (g_next_hops g) \<and>
     list_all (\<lambda>h. \<exists>c\<in>set cs. ckey c = k \<and> c_next_hop c = h \<and> score c = (g_ad g, g_metric g)) (g_next_hops g) \<and>
     list_all (\<lambda>c. if ckey c = k then (g_ad g, g_metric g) \<le> score c else True) cs"

lemma best_scores_fold:
  "dget (best_scores cs bk) k =
     pick (<) (dget bk k) (List.map score (filter (\<lambda>c. ckey c = k) cs))"
proof (induction cs bk rule: best_scores.induct)
  case (2 c cs bk)
  then show ?case by (cases "dget bk (ckey c)") auto
qed simp

lemma best_scores_least:
  assumes "dget (best_scores cs []) k = Some s" "c \<in> set cs" "ckey c = k"
  shows "s \<le> score c"
  using score_choice.pick_least [of "List.map score (filter (\<lambda>c. ckey c = k) cs)" s "score c"] assms
  by (auto simp: best_scores_fold)

lemma group_paths_ok:
  assumes "\<And>k g. dget gs k = Some g \<Longrightarrow> group_ok all k g \<and> dget bk k = Some (g_ad g, g_metric g)"
    "set cs \<subseteq> set all" "bk = best_scores all []" "dict_ok gs"
  shows "(\<forall>k g. dget (group_paths bk cs gs) k = Some g \<longrightarrow> group_ok all k g) \<and> dict_ok (group_paths bk cs gs)"
  using assms
proof (induction bk cs gs rule: group_paths.induct)
  case (2 bk c cs gs)
  show ?case
  proof (cases "dget bk (ckey c) = Some (score c)")
    case False
    with 2 show ?thesis by auto
  next
    case True
    define g where "g = (case dget gs (ckey c) of None \<Rightarrow> fresh_group c | Some g \<Rightarrow> g)"
    have sc: "score c = (g_ad g, g_metric g)"
      using 2(3) [of "ckey c"] True
      by (cases "dget gs (ckey c)") (auto simp: g_def fresh_group_def score_def)
    have low: "list_all (\<lambda>x. if ckey x = ckey c then (g_ad g, g_metric g) \<le> score x else True) all"
      using best_scores_least [of all "ckey c" "score c"] True 2(5) sc by (auto simp: list_all_iff)
    have fields: "g_ad (join_group c g) = g_ad g" "g_metric (join_group c g) = g_metric g"
      by (simp_all add: join_group_def)
    have base: "length (g_next_hops g) \<le> max_paths" "distinct (g_next_hops g)"
      "list_all (\<lambda>h. \<exists>x\<in>set all. ckey x = ckey c \<and> c_next_hop x = h \<and> score x = (g_ad g, g_metric g)) (g_next_hops g)"
      using 2(3) [of "ckey c"] by (auto simp: g_def fresh_group_def group_ok_def split: option.splits)
    have ne: "g_next_hops (join_group c g) \<noteq> []"
      using 2(3) [of "ckey c"]
      by (auto simp: g_def fresh_group_def group_ok_def join_group_def max_paths_def split: option.splits)
    have c: "c \<in> set all" using 2(4) by simp
    have ok: "group_ok all (ckey c) (join_group c g)"
      unfolding group_ok_def fields
      using ne base low sc c by (auto simp: join_group_def list_all_iff)
    have "(\<forall>k g'. dget (group_paths bk cs (dset gs (ckey c) (join_group c g))) k = Some g' \<longrightarrow> group_ok all k g') \<and>
        dict_ok (group_paths bk cs (dset gs (ckey c) (join_group c g)))"
      using 2(3-6) ok True sc fields
      by (intro 2(2) [OF _ g_def]) (auto split: if_splits)
    then show ?thesis using True by (simp add: g_def)
  qed
qed simp

text \<open>C37. Every equal-cost group that \<open>get_ecmp_routes\<close> returns has between one and four distinct next
  hops; each comes from a candidate for that destination with the group's (distance, metric) pair, and
  no candidate for the destination has a smaller pair.\<close>

theorem ecmp_groups_ok:
  "list_all (\<lambda>g. \<exists>k. group_ok (ecmp_candidates r t d) k g) (get_ecmp_routes r t d)"
proof -
  let ?cs = "ecmp_candidates r t d"
  let ?gs = "group_paths (best_scores ?cs []) ?cs []"
  have ok: "(\<forall>k g. dget ?gs k = Some g \<longrightarrow> group_ok ?cs k g) \<and> dict_ok ?gs"
    by (rule group_paths_ok) simp_all
  have "\<exists>k. group_ok ?cs k g" if "g \<in> set (dvals ?gs)" for g
  proof -
    from that obtain k where "(k, g) \<in> set ?gs" by (auto simp: dvals_def)
    with ok have "dget ?gs k = Some g" by (auto intro: dget_in_set)
    with ok show ?thesis by auto
  qed
  then show ?thesis by (auto simp: get_ecmp_routes_def Let_def list_all_iff)
qed

subsection \<open>Floating static routes\<close>

definition floating :: "bool \<Rightarrow> rib" where
  "floating primary_first =
     (let p = (\<lambda>r. add_static_route r ''r1'' ''r1'' ''10.9.0.0'' 16 ''192.0.2.1'' 1);
          b = (\<lambda>r. add_static_route r ''r1'' ''r1'' ''10.9.0.0'' 16 ''198.51.100.1'' 200)
      in if primary_first then b (p Map.empty) else p (b Map.empty))"

definition live_hops :: "rib \<Rightarrow> dev \<Rightarrow> string list" where
  "live_hops r d = (case r d of None \<Rightarrow> []
     | Some n \<Rightarrow> List.map sr_next_hop (filter sr_active (static_routes n)))"

text \<open>A floating static route survives only when it is configured after the primary: entered first,
  it is deleted when the primary with the smaller distance arrives, and the loss of the primary's next
  hop then leaves no route.\<close>

theorem floating_static_order:
  "live_hops (set_nexthop_reachable (floating True) ''r1'' ''192.0.2.1'' False) ''r1'' = [''198.51.100.1''] \<and>
   live_hops (set_nexthop_reachable (floating False) ''r1'' ''192.0.2.1'' False) ''r1'' = []"
  by (simp add: floating_def live_hops_def set_nexthop_reachable_def add_static_route_def rib_node_of_def
      insert_static_def same_dest_def)

subsection \<open>Static routes are unique\<close>

definition static_key :: "static_route \<Rightarrow> ip \<times> int \<times> string \<times> int" where
  "static_key s = (sr_network s, sr_prefix s, sr_next_hop s, sr_ad s)"

definition statics_ok :: "rib \<Rightarrow> bool" where
  "statics_ok r \<longleftrightarrow> (\<forall>d n. r d = Some n \<longrightarrow> distinct (List.map static_key (static_routes n)))"

datatype rib_op =
    AddStatic dev string ip int string int
  | RemoveStatic dev ip int "string option"
  | Reachable dev string bool

fun rib_apply :: "rib_op \<Rightarrow> rib \<Rightarrow> rib" where
  "rib_apply (AddStatic d host net p nh ad) r = add_static_route r d host net p nh ad"
| "rib_apply (RemoveStatic d net p nh) r = remove_static_route r d net p nh"
| "rib_apply (Reachable d nh b) r = set_nexthop_reachable r d nh b"

lemma distinct_map_filter': "distinct (List.map f xs) \<Longrightarrow> distinct (List.map f (filter p xs))"
  by (induction xs) auto

lemma insert_static_distinct:
  assumes "distinct (List.map static_key rs)"
  shows "distinct (List.map static_key (insert_static rs network prefix nh ad))"
proof -
  have new: "(network, prefix, nh, ad) \<notin> static_key ` set rs"
    if "\<not> (\<exists>s\<in>set rs. same_dest network prefix s \<and> sr_next_hop s = nh \<and> sr_ad s = ad)"
    using that by (auto simp: static_key_def same_dest_def)
  show ?thesis
    using assms new
    by (auto simp: insert_static_def Let_def distinct_map_filter')
       (auto simp: static_key_def same_dest_def)
qed

lemma static_key_active [simp]: "static_key (s\<lparr>sr_active := b\<rparr>) = static_key s"
  by (simp add: static_key_def)

lemma statics_ok_apply: "statics_ok r \<Longrightarrow> statics_ok (rib_apply op r)"
proof (cases op)
  case (AddStatic d host net p nh ad)
  then show "statics_ok r \<Longrightarrow> ?thesis"
    by (auto simp: statics_ok_def add_static_route_def rib_node_of_def Let_def
        intro!: insert_static_distinct split: option.splits)
next
  case (RemoveStatic d net p nh)
  then show "statics_ok r \<Longrightarrow> ?thesis"
    by (auto simp: statics_ok_def remove_static_route_def distinct_map_filter' split: option.splits)
next
  case (Reachable d nh b)
  have "static_key \<circ> (\<lambda>s. if sr_next_hop s = nh then s\<lparr>sr_active := b\<rparr> else s) = static_key"
    by (auto simp: fun_eq_iff)
  with Reachable show "statics_ok r \<Longrightarrow> ?thesis"
    by (auto simp: statics_ok_def set_nexthop_reachable_def split: option.splits)
qed

interpretation rib_run: machine rib_apply Map.empty statics_ok
  by unfold_locales (simp_all add: statics_ok_apply, simp add: statics_ok_def)

text \<open>However static routes are added (repeatedly, as the CLI re-registers them after every
  command), removed and marked unreachable, no device ever holds the same route (destination, next hop,
  distance) twice.\<close>

theorem static_routes_unique: "statics_ok (fold rib_apply ops Map.empty)"
  by (rule rib_run.run_inv)

end
