(* ===== verification/Icmp.thy ===== *)
theory Icmp
  imports Complex_Main Rib
begin

text \<open>
  \<open>class IcmpEngine\<close>: following the routing tables hop by hop to decide whether an address can be
  reached, the traffic counters, and the timers of the IPsec tunnels. \<open>best d\<close> is what
  \<open>rib_engine.get_best_routes(d)\<close> returns. The clock is read once per operation; times are rational
  numbers of seconds. The random round-trip times of \<open>ping\<close> are left out of its result.
\<close>

subsection \<open>State\<close>

datatype tunnel_state = Established | Detecting | Down | Negotiating

record tunnel =
  tn_local :: ip
  tn_peer :: ip
  tn_state :: tunnel_state
  tn_since :: rat
  tn_detect :: rat
  tn_nego :: rat

record icmp_stats =
  echo_sent :: int
  echo_rcvd :: int
  echo_reply_sent :: int
  echo_reply_rcvd :: int
  unreachable_sent :: int
  unreachable_rcvd :: int
  redirect_sent :: int
  redirect_rcvd :: int

type_synonym tunnels = "(dev, tunnel list) dict"
type_synonym counters = "(dev, icmp_stats) dict"

record icmp =
  ipsec_tunnels :: tunnels
  counters :: counters

definition no_stats :: icmp_stats where
  "no_stats = \<lparr>echo_sent = 0, echo_rcvd = 0, echo_reply_sent = 0, echo_reply_rcvd = 0, unreachable_sent = 0,
     unreachable_rcvd = 0, redirect_sent = 0, redirect_rcvd = 0\<rparr>"

definition stats_of :: "counters \<Rightarrow> dev \<Rightarrow> icmp_stats" where
  "stats_of c d = dget_or c d no_stats"

definition clear_icmp_stats :: "icmp \<Rightarrow> dev option \<Rightarrow> icmp" where
  "clear_icmp_stats s d = (case d of None \<Rightarrow> s\<lparr>counters := []\<rparr> | Some x \<Rightarrow> s\<lparr>counters := dpop (counters s) x\<rparr>)"

subsection \<open>IPsec tunnel timers\<close>

definition detect_default :: rat where "detect_default = 30"
definition nego_default :: rat where "nego_default = 3"

definition or_default :: "rat option \<Rightarrow> rat \<Rightarrow> rat" where
  "or_default x y = (case x of None \<Rightarrow> y | Some v \<Rightarrow> v)"

definition reopen :: "rat \<Rightarrow> rat option \<Rightarrow> rat option \<Rightarrow> tunnel \<Rightarrow> tunnel" where
  "reopen now detect nego t =
     (let t' = t\<lparr>tn_detect := or_default detect (tn_detect t), tn_nego := or_default nego (tn_nego t)\<rparr>
      in if tn_state t = Established then t' else t'\<lparr>tn_state := Negotiating, tn_since := now\<rparr>)"

fun register_tunnel :: "rat \<Rightarrow> ip \<Rightarrow> ip \<Rightarrow> rat option \<Rightarrow> rat option \<Rightarrow> tunnel list \<Rightarrow> tunnel list" where
  "register_tunnel now l p detect nego [] =
     [\<lparr>tn_local = l, tn_peer = p, tn_state = Negotiating, tn_since = now,
       tn_detect = or_default detect detect_default, tn_nego = or_default nego nego_default\<rparr>]"
| "register_tunnel now l p detect nego (t # ts) =
     (if tn_local t = l \<and> tn_peer t = p then reopen now detect nego t # ts
      else t # register_tunnel now l p detect nego ts)"

definition tunnels_of :: "tunnels \<Rightarrow> dev \<Rightarrow> tunnel list" where
  "tunnels_of ts d = dget_or ts d []"

definition register_ipsec :: "rat \<Rightarrow> tunnels \<Rightarrow> dev \<Rightarrow> ip \<Rightarrow> ip \<Rightarrow> rat option \<Rightarrow> rat option \<Rightarrow> tunnels" where
  "register_ipsec now ts d l p detect nego =
     dset ts d (register_tunnel now l p (map_option (max 1) detect) (map_option (max (1/2)) nego) (tunnels_of ts d))"

definition unconfigure :: "rat \<Rightarrow> tunnel \<Rightarrow> tunnel" where
  "unconfigure now t =
     (if tn_state t = Established then t\<lparr>tn_state := Detecting, tn_since := now\<rparr>
      else if tn_state t = Negotiating then t\<lparr>tn_state := Down, tn_since := now\<rparr>
      else t)"

definition clear_ipsec :: "rat \<Rightarrow> tunnels \<Rightarrow> dev \<Rightarrow> tunnels" where
  "clear_ipsec now ts d =
     (let ts' = filter (\<lambda>t. tn_state t \<in> {Detecting, Down}) (List.map (unconfigure now) (tunnels_of ts d))
      in if ts' = [] then dpop ts d else dset ts d ts')"

definition advance_dpd :: "rat \<Rightarrow> tunnel \<Rightarrow> tunnel" where
  "advance_dpd now t =
     (let elapsed = now - tn_since t
      in if tn_state t = Detecting \<and> elapsed \<ge> tn_detect t then t\<lparr>tn_state := Down, tn_since := now\<rparr>
         else if tn_state t = Negotiating \<and> elapsed \<ge> tn_nego t then t\<lparr>tn_state := Established, tn_since := now\<rparr>
         else t)"

text \<open>The scan stops at the first established tunnel to the peer; the timers behind it do not advance.\<close>

fun ipsec_scan :: "rat \<Rightarrow> ip list \<Rightarrow> tunnel list \<Rightarrow> tunnel list \<times> bool" where
  "ipsec_scan now peers [] = ([], False)"
| "ipsec_scan now peers (t # ts) =
     (let t' = advance_dpd now t
      in if tn_state t' = Established \<and> tn_peer t' \<in> set peers then (t' # ts, True)
         else (let (ts', b) = ipsec_scan now peers ts in (t' # ts', b)))"

definition has_ipsec_to :: "rat \<Rightarrow> (dev, device_info) dict \<Rightarrow> tunnels \<Rightarrow> dev \<Rightarrow> dev \<Rightarrow> tunnels \<times> bool" where
  "has_ipsec_to now book ts d nxt =
     (if tunnels_of ts d = [] then (ts, False)
      else let (l, b) = ipsec_scan now (dkeys (ips_of book nxt)) (tunnels_of ts d) in (dset ts d l, b))"

text \<open>The states \<open>get_ipsec_sa_status\<close> reports, with the seconds it shows as remaining.\<close>

definition sa_status :: "rat \<Rightarrow> tunnels \<Rightarrow> dev \<Rightarrow> tunnels \<times> (tunnel_state \<times> int \<times> rat option) list" where
  "sa_status now ts d =
     (let l = List.map (advance_dpd now) (tunnels_of ts d)
      in (if dget ts d = None then ts else dset ts d l,
          List.map (\<lambda>t. let elapsed = \<lfloor>now - tn_since t\<rfloor>
            in (tn_state t, elapsed,
                case tn_state t of
                  Detecting \<Rightarrow> Some (max 0 (tn_detect t - of_int elapsed))
                | Negotiating \<Rightarrow> Some (max 0 (nego_default - of_int elapsed))
                | _ \<Rightarrow> None)) l))"

subsection \<open>Next hops\<close>

definition find_device_owning_ip :: "(dev, device_info) dict \<Rightarrow> ip \<Rightarrow> dev option" where
  "find_device_owning_ip book a = map_option fst (find (\<lambda>(_, i). a \<in> set (dkeys (di_ips i))) book)"

definition find_device_in_network :: "(dev, device_info) dict \<Rightarrow> ip \<Rightarrow> dev option" where
  "find_device_in_network book a =
     map_option fst (find (\<lambda>(_, i). \<exists>(x, p)\<in>set (di_ips i). ip_in_network a x p) book)"

definition find_device :: "(dev, device_info) dict \<Rightarrow> ip \<Rightarrow> dev option" where
  "find_device book a =
     (let x = find_device_owning_ip book a in if truthy x then x else find_device_in_network book a)"

fun longest_match :: "ip \<Rightarrow> cand option \<Rightarrow> int \<Rightarrow> cand list \<Rightarrow> cand option" where
  "longest_match dest matched mp [] = matched"
| "longest_match dest matched mp (r # rs) =
     (if ip_in_network dest (c_network r) (c_prefix r) \<and> c_prefix r > mp
      then longest_match dest (Some r) (c_prefix r) rs
      else longest_match dest matched mp rs)"

definition choose_route :: "ip \<Rightarrow> cand list \<Rightarrow> cand option" where
  "choose_route dest routes =
     (case longest_match dest None (-1) routes of
        Some r \<Rightarrow> Some r
      | None \<Rightarrow> find (\<lambda>r. c_network r = ''0.0.0.0'' \<and> c_prefix r = 0) routes)"

definition edge_dead :: "l3env \<Rightarrow> dev \<Rightarrow> dev \<Rightarrow> bool" where
  "edge_dead e d peer \<longleftrightarrow> peer \<in> set (get_neighbors (l3_net e) d) \<and> \<not> edge_up (l3_net e) d peer"

definition owns :: "l3env \<Rightarrow> dev \<Rightarrow> ip \<Rightarrow> bool" where
  "owns e p a \<longleftrightarrow> a \<in> set (dkeys (ips_of (l3_book e) p))"

definition deliver_connected :: "l3env \<Rightarrow> dev \<Rightarrow> ip \<Rightarrow> dev option \<times> ip option" where
  "deliver_connected e d dest =
     (case find (\<lambda>p. owns e p dest) (get_neighbors (l3_net e) d) of
        Some p \<Rightarrow> if edge_dead e d p then (None, None) else (Some p, Some dest)
      | None \<Rightarrow>
          let dv = find_device (l3_book e) dest
          in if truthy dv \<and> edge_dead e d (the dv) then (None, None) else (dv, Some dest))"

fun behind_hop :: "l3env \<Rightarrow> dev \<Rightarrow> ip \<Rightarrow> dev list \<Rightarrow> (dev \<times> ip) option" where
  "behind_hop e d nh [] = None"
| "behind_hop e d nh (p # ps) =
     (if answers_to e p nh then Some (p, shared_ip e d p nh)
      else if owns e p nh then Some (p, nh)
      else behind_hop e d nh ps)"

definition deliver_gateway :: "l3env \<Rightarrow> dev \<Rightarrow> ip \<Rightarrow> dev option \<times> ip option" where
  "deliver_gateway e d nh =
     (case find (\<lambda>p. owns e p nh) (get_neighbors (l3_net e) d) of
        Some p \<Rightarrow> (Some p, Some nh)
      | None \<Rightarrow>
     (let o1 = find_device_owning_ip (l3_book e) nh in if truthy o1 then (o1, Some nh) else
     (case find (\<lambda>p. answers_to e p nh) (get_neighbors (l3_net e) d) of
        Some p \<Rightarrow> (Some p, Some (shared_ip e d p nh))
      | None \<Rightarrow>
     (case behind_hop e d nh (l2_segment_peers e d) of
        Some (p, a) \<Rightarrow> (Some p, Some a)
      | None \<Rightarrow>
          (case get_neighbors (l3_net e) d of [] \<Rightarrow> None | n # _ \<Rightarrow> Some n, Some nh)))))"

definition resolve_next_hop_detail :: "l3env \<Rightarrow> (dev \<Rightarrow> cand list res) \<Rightarrow> dev \<Rightarrow> ip \<Rightarrow> (dev option \<times> ip option) res" where
  "resolve_next_hop_detail e best d dest =
     res_bind (best d) (\<lambda>routes. Inr (
       case choose_route dest routes of
         None \<Rightarrow> (None, None)
       | Some r \<Rightarrow>
           let nh = c_next_hop r
           in if nh = ''Null0'' then (None, None)
              else if nh = ''0.0.0.0'' \<or> nh = [] then deliver_connected e d dest
              else deliver_gateway e d nh))"

subsection \<open>Following the path\<close>

record hop =
  h_device :: dev
  h_hostname :: string
  h_ip :: "ip option"
  h_timeout :: bool
  h_ipsec :: bool

datatype reason = Self | LoopDetected | ConnectedNet | NoRoute | TtlExceeded

record trace_result =
  reachable :: bool
  hops :: "hop list"
  tr_reason :: reason
  dest_device :: "dev option"

definition hostname_of :: "(dev, device_info) dict \<Rightarrow> dev \<Rightarrow> string" where
  "hostname_of book d = (case dget book d of None \<Rightarrow> d | Some i \<Rightarrow> di_hostname i)"

definition first_ip :: "(dev, device_info) dict \<Rightarrow> dev \<Rightarrow> ip" where
  "first_ip book d = (case dkeys (ips_of book d) of [] \<Rightarrow> ''?'' | a # _ \<Rightarrow> a)"

definition unreachable :: "hop list \<Rightarrow> reason \<Rightarrow> trace_result" where
  "unreachable hs why = \<lparr>reachable = False, hops = hs, tr_reason = why, dest_device = None\<rparr>"

text \<open>The destination is in a connected network, unless the owner is a neighbour behind a dead link.\<close>

definition on_connected :: "l3env \<Rightarrow> dev \<Rightarrow> ip \<Rightarrow> bool" where
  "on_connected e cur dest \<longleftrightarrow>
     (\<exists>(a, p)\<in>set (ips_of (l3_book e) cur). ip_in_network dest a p) \<and>
     (let dd = find_device_owning_ip (l3_book e) dest
      in \<not> (truthy dd \<and> dd \<noteq> Some cur \<and> edge_dead e cur (the dd)))"

definition next_hop_entry :: "l3env \<Rightarrow> dev \<Rightarrow> ip \<Rightarrow> ip option \<Rightarrow> bool \<Rightarrow> hop" where
  "next_hop_entry e nd dest nh ipsec =
     \<lparr>h_device = nd, h_hostname = hostname_of (l3_book e) nd,
      h_ip = (if ipsec
              then (let l = local_ip_toward (l3_book e) nd dest
                    in if truthy l then l else Some (first_ip (l3_book e) nd))
              else nh),
      h_timeout = False, h_ipsec = ipsec\<rparr>"

fun trace_loop :: "l3env \<Rightarrow> (dev \<Rightarrow> cand list res) \<Rightarrow> rat \<Rightarrow> ip \<Rightarrow> dev option \<Rightarrow> nat \<Rightarrow> dev list \<Rightarrow>
    hop list \<Rightarrow> dev \<Rightarrow> tunnels \<Rightarrow> tunnels \<times> trace_result res" where
  "trace_loop e best now dest dd 0 visited hs cur ts = (ts, Inr (unreachable hs TtlExceeded))"
| "trace_loop e best now dest dd (Suc ttl) visited hs cur ts =
     (if cur \<in> set visited then (ts, Inr (unreachable hs LoopDetected))
      else if on_connected e cur dest then
        (ts, Inr \<lparr>reachable = True, hops = hs, tr_reason = ConnectedNet, dest_device = dd\<rparr>)
      else case resolve_next_hop_detail e best cur dest of
        Inl x \<Rightarrow> (ts, Inl x)
      | Inr (nd, nh) \<Rightarrow>
          if \<not> truthy nd then
            (ts, Inr (unreachable (hs @ [\<lparr>h_device = cur, h_hostname = hostname_of (l3_book e) cur,
               h_ip = Some (first_ip (l3_book e) cur), h_timeout = True, h_ipsec = False\<rparr>]) NoRoute))
          else (let (ts', ipsec) = has_ipsec_to now (l3_book e) ts cur (the nd)
                in trace_loop e best now dest dd ttl (cur # visited)
                     (hs @ [next_hop_entry e (the nd) dest nh ipsec]) (the nd) ts'))"

definition trace_path :: "l3env \<Rightarrow> (dev \<Rightarrow> cand list res) \<Rightarrow> rat \<Rightarrow> tunnels \<Rightarrow> dev \<Rightarrow> ip \<Rightarrow> int \<Rightarrow>
    tunnels \<times> trace_result res" where
  "trace_path e best now ts src dest max_hops =
     (if owns e src dest then
        (ts, Inr \<lparr>reachable = True, hops = [], tr_reason = Self, dest_device = Some src\<rparr>)
      else trace_loop e best now dest (find_device (l3_book e) dest) (nat max_hops) [] [] src ts)"

subsection \<open>Ping\<close>

definition upd_stats :: "counters \<Rightarrow> dev \<Rightarrow> (icmp_stats \<Rightarrow> icmp_stats) \<Rightarrow> counters" where
  "upd_stats c d f = dset c d (f (stats_of c d))"

definition count_ping :: "counters \<Rightarrow> dev \<Rightarrow> dev option \<Rightarrow> bool \<Rightarrow> int \<Rightarrow> counters" where
  "count_ping c src dst ok n =
     (if ok then
        (let c1 = upd_stats c src (\<lambda>s. s\<lparr>echo_sent := echo_sent s + n, echo_reply_rcvd := echo_reply_rcvd s + n\<rparr>)
         in if truthy dst then
              upd_stats c1 (the dst) (\<lambda>s. s\<lparr>echo_rcvd := echo_rcvd s + n, echo_reply_sent := echo_reply_sent s + n\<rparr>)
            else c1)
      else upd_stats c src (\<lambda>s. s\<lparr>echo_sent := echo_sent s + n, unreachable_rcvd := unreachable_rcvd s + n\<rparr>))"

definition generate_redirect :: "l3env \<Rightarrow> (dev \<Rightarrow> cand list res) \<Rightarrow> counters \<Rightarrow> dev \<Rightarrow> ip \<Rightarrow> hop list \<Rightarrow> int \<Rightarrow> counters res" where
  "generate_redirect e best c src dest hs n =
     (case hs of
        [] \<Rightarrow> Inr c
      | h # _ \<Rightarrow>
          if h_device h = [] \<or> h_device h = src then Inr c
          else res_bind (resolve_next_hop_detail e best (h_device h) dest) (\<lambda>(nd, nip).
            if \<not> truthy nd \<or> nd = Some src \<or> \<not> truthy nip then Inr c
            else if \<exists>(a, p)\<in>set (ips_of (l3_book e) src). ip_in_network (the nip) a p then
              Inr (upd_stats (upd_stats c (h_device h) (\<lambda>s. s\<lparr>redirect_sent := redirect_sent s + n\<rparr>))
                     src (\<lambda>s. s\<lparr>redirect_rcvd := redirect_rcvd s + n\<rparr>))
            else Inr c))"

definition initial_ttl :: "hop list \<Rightarrow> int" where
  "initial_ttl hs = 64 - (max 1 (int (length (filter (\<lambda>h. \<not> h_timeout h) hs))) - 1)"

definition ping :: "l3env \<Rightarrow> (dev \<Rightarrow> cand list res) \<Rightarrow> rat \<Rightarrow> icmp \<Rightarrow> dev \<Rightarrow> ip \<Rightarrow> int \<Rightarrow>
    icmp \<times> (trace_result \<times> int) res" where
  "ping e best now s src dest n =
     (case trace_path e best now (ipsec_tunnels s) src dest 30 of
        (ts, Inl x) \<Rightarrow> (s\<lparr>ipsec_tunnels := ts\<rparr>, Inl x)
      | (ts, Inr r) \<Rightarrow>
          let c = count_ping (counters s) src (find_device_owning_ip (l3_book e) dest) (reachable r) n
          in if \<not> reachable r then (s\<lparr>ipsec_tunnels := ts, counters := c\<rparr>, Inr (r, initial_ttl (hops r)))
             else case generate_redirect e best c src dest (hops r) n of
                 Inl x \<Rightarrow> (s\<lparr>ipsec_tunnels := ts, counters := c\<rparr>, Inl x)
               | Inr c' \<Rightarrow> (s\<lparr>ipsec_tunnels := ts, counters := c'\<rparr>, Inr (r, initial_ttl (hops r))))"

definition traceroute :: "l3env \<Rightarrow> (dev \<Rightarrow> cand list res) \<Rightarrow> rat \<Rightarrow> icmp \<Rightarrow> dev \<Rightarrow> ip \<Rightarrow> icmp \<times> trace_result res" where
  "traceroute e best now s src dest =
     (case trace_path e best now (ipsec_tunnels s) src dest 30 of (ts, r) \<Rightarrow> (s\<lparr>ipsec_tunnels := ts\<rparr>, r))"

subsection \<open>The longest prefix wins\<close>

lemma longest_match_spec:
  assumes "case m of None \<Rightarrow> mp = -1 | Some r \<Rightarrow> ip_in_network dest (c_network r) (c_prefix r) \<and> c_prefix r = mp"
  shows "case longest_match dest m mp rs of
      None \<Rightarrow> m = None \<and> list_all (\<lambda>x. \<not> (ip_in_network dest (c_network x) (c_prefix x) \<and> 0 \<le> c_prefix x)) rs
    | Some r \<Rightarrow> (m = Some r \<or> r \<in> set rs) \<and> ip_in_network dest (c_network r) (c_prefix r) \<and> mp \<le> c_prefix r \<and>
        list_all (\<lambda>x. if ip_in_network dest (c_network x) (c_prefix x) then c_prefix x \<le> c_prefix r else True) rs"
  using assms
proof (induction dest m mp rs rule: longest_match.induct)
  case (1 dest matched mp)
  then show ?case by (cases matched) auto
next
  case (2 dest matched mp r rs)
  show ?case
  proof (cases "ip_in_network dest (c_network r) (c_prefix r) \<and> c_prefix r > mp")
    case True
    with 2(1) [OF True] show ?thesis by (auto simp: list_all_iff split: option.splits)
  next
    case False
    with 2(2) [OF False 2(3)] 2(3) show ?thesis
      by (auto simp: list_all_iff split: option.splits if_splits)
  qed
qed

text \<open>C9. Forwarding picks a route of the table that covers the destination and has the longest prefix
  of all that do (or, for text that is no address, the default route); it finds none only when no
  route of the table covers the destination.\<close>

theorem longest_prefix_chosen:
  "case choose_route dest routes of
     None \<Rightarrow> list_all (\<lambda>x. \<not> (ip_in_network dest (c_network x) (c_prefix x) \<and> 0 \<le> c_prefix x)) routes
   | Some r \<Rightarrow> r \<in> set routes \<and>
       (if ip_in_network dest (c_network r) (c_prefix r)
        then list_all (\<lambda>x. if ip_in_network dest (c_network x) (c_prefix x) then c_prefix x \<le> c_prefix r else True) routes
        else c_network r = ''0.0.0.0'' \<and> c_prefix r = 0)"
proof (cases "longest_match dest None (-1) routes")
  case None
  with longest_match_spec [where m = None and mp = "-1" and dest = dest and rs = routes]
  have none: "list_all (\<lambda>x. \<not> (ip_in_network dest (c_network x) (c_prefix x) \<and> 0 \<le> c_prefix x)) routes" by simp
  show ?thesis
  proof (cases "find (\<lambda>r. c_network r = ''0.0.0.0'' \<and> c_prefix r = 0) routes")
    case None2: None
    with None none show ?thesis by (simp add: choose_route_def)
  next
    case (Some r)
    from find_SomeD [OF this] have r: "r \<in> set routes" "c_network r = ''0.0.0.0''" "c_prefix r = 0" by auto
    with none have "\<not> ip_in_network dest (c_network r) (c_prefix r)" by (auto simp: list_all_iff)
    with r None Some show ?thesis by (simp add: choose_route_def)
  qed
next
  case (Some r)
  with longest_match_spec [where m = None and mp = "-1" and dest = dest and rs = routes] show ?thesis by (simp add: choose_route_def)
qed

subsection \<open>What a traced path is\<close>

fun follows :: "l3env \<Rightarrow> (dev \<Rightarrow> cand list res) \<Rightarrow> ip \<Rightarrow> dev \<Rightarrow> hop list \<Rightarrow> bool" where
  "follows e best dest cur [] = True"
| "follows e best dest cur (h # hs) =
     (if h_timeout h then hs = [] \<and> h_device h = cur
      else (case resolve_next_hop_detail e best cur dest of
              Inl _ \<Rightarrow> False | Inr (nd, _) \<Rightarrow> nd = Some (h_device h)) \<and>
           follows e best dest (h_device h) hs)"

definition end_of :: "dev \<Rightarrow> hop list \<Rightarrow> dev" where
  "end_of src hs = last (src # List.map h_device hs)"

definition trace_ok :: "l3env \<Rightarrow> (dev \<Rightarrow> cand list res) \<Rightarrow> ip \<Rightarrow> dev \<Rightarrow> nat \<Rightarrow> trace_result \<Rightarrow> bool" where
  "trace_ok e best dest src n r \<longleftrightarrow>
     follows e best dest src (hops r) \<and> length (hops r) \<le> n \<and>
     (if reachable r
      then (owns e src dest \<and> hops r = [] \<or> on_connected e (end_of src (hops r)) dest) \<and>
           distinct (src # List.map h_device (hops r))
      else tr_reason r \<in> {LoopDetected, NoRoute, TtlExceeded})"

lemma follows_snoc:
  assumes "follows e best dest src hs" "list_all (\<lambda>h. \<not> h_timeout h) hs" "follows e best dest (end_of src hs) [h]"
  shows "follows e best dest src (hs @ [h])"
  using assms by (induction hs arbitrary: src) (auto simp: end_of_def split: if_splits)

lemma trace_loop_ok:
  assumes "snd (trace_loop e best now dest dd ttl visited hs cur ts) = Inr r"
    "follows e best dest src hs" "list_all (\<lambda>h. \<not> h_timeout h) hs" "end_of src hs = cur"
    "cur \<notin> set visited \<longrightarrow> distinct (src # List.map h_device hs)"
    "set (src # List.map h_device hs) = insert cur (set visited)"
  shows "trace_ok e best dest src (length hs + ttl) r"
  using assms
proof (induction e best now dest dd ttl visited hs cur ts rule: trace_loop.induct)
  case (1 e best now dest dd visited hs cur ts)
  then show ?case by (auto simp: trace_ok_def unreachable_def)
next
  case (2 e best now dest dd ttl visited hs cur ts)
  consider "cur \<in> set visited" | "cur \<notin> set visited" "on_connected e cur dest" | "cur \<notin> set visited" "\<not> on_connected e cur dest"
    by blast
  then show ?case
  proof cases
    case 1
    with 2 show ?thesis by (auto simp: trace_ok_def unreachable_def)
  next
    case c: 2
    with 2 show ?thesis by (auto simp: trace_ok_def)
  next
    case c: 3
    with "2.prems"(1) obtain nd nh where nd: "resolve_next_hop_detail e best cur dest = Inr (nd, nh)"
      by (cases "resolve_next_hop_detail e best cur dest") auto
    show ?thesis
    proof (cases "truthy nd")
      case False
      let ?h = "\<lparr>h_device = cur, h_hostname = hostname_of (l3_book e) cur,
               h_ip = Some (first_ip (l3_book e) cur), h_timeout = True, h_ipsec = False\<rparr>"
      have "follows e best dest src (hs @ [?h])" using "2.prems" by (intro follows_snoc) auto
      with False c nd "2.prems"(1) show ?thesis by (auto simp: trace_ok_def unreachable_def)
    next
      case True
      then obtain n where n: "nd = Some n" by (auto simp: truthy_def)
      obtain ts' b where b: "has_ipsec_to now (l3_book e) ts cur n = (ts', b)" by fastforce
      let ?h = "next_hop_entry e n dest nh b"
      have h: "h_device ?h = n" "\<not> h_timeout ?h" by (simp_all add: next_hop_entry_def)
      have bn: "(ts', b) = has_ipsec_to now (l3_book e) ts cur (the nd)" using b n by simp
      have nn: "\<not> \<not> truthy nd" using True by simp
      have "trace_ok e best dest src (length (hs @ [next_hop_entry e (the nd) dest nh b]) + ttl) r"
      proof (rule 2(1) [OF c nd refl nn bn refl])
        show "snd (trace_loop e best now dest dd ttl (cur # visited) (hs @ [next_hop_entry e (the nd) dest nh b]) (the nd) ts') = Inr r"
          using "2.prems"(1) c nd n True b by simp
        show "follows e best dest src (hs @ [next_hop_entry e (the nd) dest nh b])"
          using "2.prems" h nd n by (intro follows_snoc) auto
        show "list_all (\<lambda>h. \<not> h_timeout h) (hs @ [next_hop_entry e (the nd) dest nh b])" using "2.prems"(3) h n by simp
        show "end_of src (hs @ [next_hop_entry e (the nd) dest nh b]) = the nd" using h n by (simp add: end_of_def)
        have dist: "distinct (src # List.map h_device hs)" using "2.prems"(5) c by simp
        show "the nd \<notin> set (cur # visited) \<longrightarrow> distinct (src # List.map h_device (hs @ [next_hop_entry e (the nd) dest nh b]))"
        proof
          assume "the nd \<notin> set (cur # visited)"
          then have "n \<notin> set (src # List.map h_device hs)" using "2.prems"(6) n by auto
          with dist h n show "distinct (src # List.map h_device (hs @ [next_hop_entry e (the nd) dest nh b]))" by auto
        qed
        show "set (src # List.map h_device (hs @ [next_hop_entry e (the nd) dest nh b])) = insert (the nd) (set (cur # visited))"
          using "2.prems"(6) h n by auto
      qed
      then show ?thesis by simp
    qed
  qed
qed

text \<open>C6. The result of a traced path is real: every hop is the next hop the routing table of the hop
  before it resolves to, at most \<open>max_hops\<close> hops are taken, a destination that is reported reachable
  belongs to the source or lies in a connected network of the last hop, and no device is crossed twice
  on a path that reaches it.\<close>

theorem trace_path_sound:
  "case snd (trace_path e best now ts src dest n) of Inl _ \<Rightarrow> True | Inr r \<Rightarrow> trace_ok e best dest src (nat n) r"
proof (cases "owns e src dest")
  case True
  then show ?thesis by (simp add: trace_path_def trace_ok_def)
next
  case False
  show ?thesis
  proof (cases "snd (trace_path e best now ts src dest n)")
    case (Inr r)
    with False have "snd (trace_loop e best now dest (find_device (l3_book e) dest) (nat n) [] [] src ts) = Inr r"
      by (simp add: trace_path_def)
    from trace_loop_ok [OF this, of src] Inr show ?thesis by (simp add: end_of_def)
  qed simp
qed

subsection \<open>Tunnels without configuration carry nothing\<close>

datatype tunnel_op =
    Register rat dev ip ip "rat option" "rat option"
  | Clear rat dev
  | Use rat "(dev, device_info) dict" dev dev
  | ShowSa rat dev

fun tunnel_apply :: "tunnel_op \<Rightarrow> tunnels \<Rightarrow> tunnels" where
  "tunnel_apply (Register now d l p dt ng) ts = register_ipsec now ts d l p dt ng"
| "tunnel_apply (Clear now d) ts = clear_ipsec now ts d"
| "tunnel_apply (Use now book d nxt) ts = fst (has_ipsec_to now book ts d nxt)"
| "tunnel_apply (ShowSa now d) ts = fst (sa_status now ts d)"

fun registers :: "dev \<Rightarrow> tunnel_op \<Rightarrow> bool" where
  "registers d (Register now d' l p dt ng) = (d' = d)"
| "registers d op = False"

definition tunnel_apply_but :: "dev \<Rightarrow> tunnel_op \<Rightarrow> tunnels \<Rightarrow> tunnels" where
  "tunnel_apply_but d op ts = (if registers d op then ts else tunnel_apply op ts)"

definition quiet :: "dev \<Rightarrow> tunnels \<Rightarrow> bool" where
  "quiet d ts \<longleftrightarrow> list_all (\<lambda>t. tn_state t \<in> {Detecting, Down}) (tunnels_of ts d)"

lemma tunnels_of_upd [simp]:
  "tunnels_of (dset ts d l) d' = (if d' = d then l else tunnels_of ts d')"
  "tunnels_of (dpop ts d) d' = (if d' = d then [] else tunnels_of ts d')"
  by (simp_all add: tunnels_of_def dget_or_def)

lemma advance_quiet: "tn_state t \<in> {Detecting, Down} \<Longrightarrow> tn_state (advance_dpd now t) \<in> {Detecting, Down}"
  by (auto simp: advance_dpd_def Let_def)

lemma ipsec_scan_quiet:
  "list_all (\<lambda>t. tn_state t \<in> {Detecting, Down}) l \<Longrightarrow>
   list_all (\<lambda>t. tn_state t \<in> {Detecting, Down}) (fst (ipsec_scan now peers l)) \<and> \<not> snd (ipsec_scan now peers l)"
proof (induction l)
  case (Cons t l)
  then have "tn_state (advance_dpd now t) \<in> {Detecting, Down}" by (intro advance_quiet) simp
  with Cons show ?case by (auto simp: Let_def split: prod.splits)
qed simp

lemma clear_quiet: "quiet d (clear_ipsec now ts d)"
  by (auto simp: quiet_def clear_ipsec_def Let_def list_all_iff)

lemma quiet_apply: "quiet d ts \<Longrightarrow> quiet d (tunnel_apply_but d op ts)"
proof (cases op)
  case (Register now d' l p dt ng)
  then show "quiet d ts \<Longrightarrow> ?thesis" by (auto simp: tunnel_apply_but_def quiet_def register_ipsec_def)
next
  case (Clear now d')
  then show "quiet d ts \<Longrightarrow> ?thesis"
    by (cases "d' = d") (auto simp: tunnel_apply_but_def clear_quiet, auto simp: quiet_def clear_ipsec_def Let_def)
next
  case (Use now book d' nxt)
  then show "quiet d ts \<Longrightarrow> ?thesis"
    using ipsec_scan_quiet [of "tunnels_of ts d" now "dkeys (ips_of book nxt)"]
    by (auto simp: tunnel_apply_but_def quiet_def has_ipsec_to_def split: prod.splits)
next
  case (ShowSa now d')
  then show "quiet d ts \<Longrightarrow> ?thesis"
    using advance_quiet by (auto simp: tunnel_apply_but_def quiet_def sa_status_def Let_def list_all_iff)
qed

lemma quiet_no_ipsec: "quiet d ts \<Longrightarrow> \<not> snd (has_ipsec_to now book ts d nxt)"
  using ipsec_scan_quiet [of "tunnels_of ts d" now "dkeys (ips_of book nxt)"]
  by (auto simp: quiet_def has_ipsec_to_def split: prod.splits)

interpretation cleared: machine "tunnel_apply_but d" "clear_ipsec now ts d" "quiet d" for d now ts
  by unfold_locales (simp_all add: clear_quiet quiet_apply)

text \<open>Once the IPsec configuration of a device is removed, none of its tunnels carries traffic again,
  whatever time passes and whatever is sent, shown or cleared anywhere, until the device registers a
  tunnel again.\<close>

theorem cleared_tunnels_carry_nothing:
  "\<not> snd (has_ipsec_to now' book (fold (tunnel_apply_but d) ops (clear_ipsec now ts d)) d nxt)"
  by (rule quiet_no_ipsec) (rule cleared.run_inv)

text \<open>The remaining negotiation time shown for a tunnel is computed from the default and not from the
  time the tunnel was registered with: with ten seconds configured, the display reaches zero after
  three while the tunnel keeps negotiating.\<close>

theorem shown_negotiation_time_wrong:
  "snd (sa_status 5 (register_ipsec 0 [] ''r1'' ''192.0.2.1'' ''192.0.2.2'' None (Some 10)) ''r1'') = [(Negotiating, 5, Some 0)]"
  by code_simp

subsection \<open>Counters\<close>

definition balanced :: "counters \<Rightarrow> bool" where
  "balanced c \<longleftrightarrow> (\<forall>d. let s = stats_of c d in
     echo_sent s = echo_reply_rcvd s + unreachable_rcvd s \<and> echo_rcvd s = echo_reply_sent s)"

datatype icmp_op =
    PingOp l3env "dev \<Rightarrow> cand list res" rat dev ip nat
  | TraceOp l3env "dev \<Rightarrow> cand list res" rat dev ip

fun icmp_apply :: "icmp_op \<Rightarrow> icmp \<Rightarrow> icmp" where
  "icmp_apply (PingOp e best now src dest n) s = fst (ping e best now s src dest (int n))"
| "icmp_apply (TraceOp e best now src dest) s = fst (traceroute e best now s src dest)"

definition icmp_init :: icmp where
  "icmp_init = \<lparr>ipsec_tunnels = [], counters = []\<rparr>"

definition stats_le :: "icmp_stats \<Rightarrow> icmp_stats \<Rightarrow> bool" where
  "stats_le a b \<longleftrightarrow> echo_sent a \<le> echo_sent b \<and> echo_rcvd a \<le> echo_rcvd b \<and>
     echo_reply_sent a \<le> echo_reply_sent b \<and> echo_reply_rcvd a \<le> echo_reply_rcvd b \<and>
     unreachable_rcvd a \<le> unreachable_rcvd b \<and> redirect_sent a \<le> redirect_sent b \<and>
     redirect_rcvd a \<le> redirect_rcvd b"

definition counts_le :: "icmp \<Rightarrow> icmp \<Rightarrow> bool" where
  "counts_le a b \<longleftrightarrow> (\<forall>d. stats_le (stats_of (counters a) d) (stats_of (counters b) d))"

lemma stats_of_upd [simp]: "stats_of (upd_stats c d f) d' = (if d' = d then f (stats_of c d) else stats_of c d')"
  by (simp add: stats_of_def upd_stats_def dget_or_def)

lemma stats_of_Nil [simp]: "stats_of [] d = no_stats"
  by (simp add: stats_of_def dget_or_def)

lemma count_ping_balanced: "balanced c \<Longrightarrow> balanced (count_ping c src dst ok n)"
  by (auto simp: balanced_def count_ping_def Let_def)

lemma redirect_cases: "generate_redirect e best c src dest hs n = Inr c' \<Longrightarrow>
   c' = c \<or> (\<exists>h. c' = upd_stats (upd_stats c h (\<lambda>s. s\<lparr>redirect_sent := redirect_sent s + n\<rparr>))
                     src (\<lambda>s. s\<lparr>redirect_rcvd := redirect_rcvd s + n\<rparr>))"
proof -
  assume a: "generate_redirect e best c src dest hs n = Inr c'"
  show ?thesis
  proof (cases hs)
    case (Cons h hs')
    with a show ?thesis
      by (cases "resolve_next_hop_detail e best (h_device h) dest")
         (auto simp: generate_redirect_def split: if_splits)
  qed (use a in \<open>simp add: generate_redirect_def\<close>)
qed

text \<open>The counters after a ping: those of the count, with or without a redirect.\<close>

lemma ping_counters:
  obtains "counters (fst (ping e best now s src dest n)) = counters s"
  | dst ok where "counters (fst (ping e best now s src dest n)) = count_ping (counters s) src dst ok n"
  | dst ok h where "counters (fst (ping e best now s src dest n)) =
      upd_stats (upd_stats (count_ping (counters s) src dst ok n) h (\<lambda>s. s\<lparr>redirect_sent := redirect_sent s + n\<rparr>))
                     src (\<lambda>s. s\<lparr>redirect_rcvd := redirect_rcvd s + n\<rparr>)"
proof -
  obtain ts x where t: "trace_path e best now (ipsec_tunnels s) src dest 30 = (ts, x)" by fastforce
  show thesis
  proof (cases x)
    case (Inl a)
    with t that(1) show thesis by (simp add: ping_def)
  next
    case (Inr r)
    let ?c = "count_ping (counters s) src (find_device_owning_ip (l3_book e) dest) (reachable r) n"
    show thesis
    proof (cases "reachable r")
      case False
      with t Inr that(2) show thesis by (simp add: ping_def Let_def)
    next
      case True
      show thesis
      proof (cases "generate_redirect e best ?c src dest (hops r) n")
        case (Inl a)
        with t Inr True that(2) show thesis by (simp add: ping_def Let_def)
      next
        case g: (Inr c')
        from redirect_cases [OF this] g t Inr True that(2,3) show thesis
          by (auto simp: ping_def Let_def)
      qed
    qed
  qed
qed

lemma traceroute_counters [simp]: "counters (fst (traceroute e best now s src dest)) = counters s"
  by (simp add: traceroute_def split: prod.splits)

lemma count_ping_le: "0 \<le> n \<Longrightarrow> stats_le (stats_of c d) (stats_of (count_ping c src dst ok n) d)"
  by (auto simp: stats_le_def count_ping_def Let_def)

lemma stats_le_redirect:
  "stats_le a b \<Longrightarrow> 0 \<le> n \<Longrightarrow> stats_le a (b\<lparr>redirect_sent := redirect_sent b + n\<rparr>)"
  "stats_le a b \<Longrightarrow> 0 \<le> n \<Longrightarrow> stats_le a (b\<lparr>redirect_rcvd := redirect_rcvd b + n\<rparr>)"
  "stats_le a b \<Longrightarrow> 0 \<le> n \<Longrightarrow>
     stats_le a (b\<lparr>redirect_sent := redirect_sent b + n, redirect_rcvd := redirect_rcvd b + n\<rparr>)"
  by (auto simp: stats_le_def)

lemma stats_le_refl [simp]: "stats_le a a"
  by (simp add: stats_le_def)

lemma stats_le_trans: "stats_le a b \<Longrightarrow> stats_le b c \<Longrightarrow> stats_le a c"
  by (auto simp: stats_le_def)

lemma balanced_apply: "balanced (counters s) \<Longrightarrow> balanced (counters (icmp_apply op s))"
proof (cases op)
  case (PingOp e best now src dest n)
  show "balanced (counters s) \<Longrightarrow> ?thesis"
    by (rule ping_counters [of e best now s src dest "int n"])
       (use count_ping_balanced in \<open>auto simp: PingOp balanced_def Let_def\<close>)
qed simp

lemma counts_apply: "counts_le s (icmp_apply op s)"
proof (cases op)
  case (PingOp e best now src dest n)
  show ?thesis
    by (rule ping_counters [of e best now s src dest "int n"])
       (auto simp: PingOp counts_le_def intro!: stats_le_redirect count_ping_le)
qed (simp add: counts_le_def)

lemma balanced_init: "balanced (counters icmp_init)"
  by (simp add: icmp_init_def balanced_def no_stats_def Let_def)

interpretation counting: monotone_machine icmp_apply icmp_init "\<lambda>s. balanced (counters s)" counts_le
proof unfold_locales
  show "counts_le s u" if "counts_le s t" "counts_le t u" for s t u
    using that by (auto simp: counts_le_def intro: stats_le_trans)
qed (simp_all add: balanced_apply counts_apply balanced_init, simp add: counts_le_def)

text \<open>After any sequence of pings and traceroutes every device has got a reply or an unreachable for
  each echo it sent and has answered each echo it received, and running more of them never lowers a
  counter.\<close>

theorem ping_counters_balanced:
  "balanced (counters (fold icmp_apply ops icmp_init)) \<and>
   counts_le (fold icmp_apply ops icmp_init) (fold icmp_apply later (fold icmp_apply ops icmp_init))"
  by (intro conjI counting.run_inv counting.le_fold)

end
