(* ===== verification/Pppoe.thy ===== *)
theory Pppoe
  imports VNet
begin

text \<open>
  \<open>class PppoeEngine\<close>: PPPoE clients and the access servers that give each session an address out of
  their pool. The pool bounds are parsed by \<open>ipaddress.IPv4Address\<close>, whose failure is a ValueError raised
  out of the operation.
\<close>

subsection \<open>State of the PPPoE engine\<close>

datatype pp_id = PpNum nat | PpIf iface

record pppoe_session =
  ps_rtx :: dev
  ps_hostname :: string
  ps_ip :: ip
  ps_pp :: pp_id

record bas_node =
  pool_start :: "ip option"
  pool_end :: "ip option"
  bas_prefix :: int
  bas_users :: "(string, string) dict"
  leased :: "ip list"
  bas_sessions :: "(string, pppoe_session) dict"

record pp_result =
  pr_bas :: dev
  pr_ip :: ip
  pr_prefix :: int
  pr_session :: string

record pppoe =
  bas_nodes :: "(dev, bas_node) dict"
  pp_sessions :: "(dev \<times> pp_id, pp_result) dict"

definition pppoe_init :: pppoe where
  "pppoe_init = \<lparr>bas_nodes = [], pp_sessions = []\<rparr>"

definition bas_of :: "pppoe \<Rightarrow> dev \<Rightarrow> bas_node" where
  "bas_of p d = dget_or (bas_nodes p) d
     \<lparr>pool_start = None, pool_end = None, bas_prefix = 32, bas_users = [], leased = [], bas_sessions = []\<rparr>"

definition set_pool :: "pppoe \<Rightarrow> dev \<Rightarrow> ip \<Rightarrow> ip \<Rightarrow> int \<Rightarrow> pppoe" where
  "set_pool p d start end' prefix =
     p\<lparr>bas_nodes := dset (bas_nodes p) d ((bas_of p d)\<lparr>pool_start := Some start, pool_end := Some end', bas_prefix := prefix\<rparr>)\<rparr>"

definition add_user :: "pppoe \<Rightarrow> dev \<Rightarrow> string \<Rightarrow> string \<Rightarrow> pppoe" where
  "add_user p d username password =
     p\<lparr>bas_nodes := dset (bas_nodes p) d ((bas_of p d)\<lparr>bas_users := dset (bas_users (bas_of p d)) username password\<rparr>)\<rparr>"

subsection \<open>Connecting and disconnecting\<close>

definition unset :: "string option \<Rightarrow> bool" where
  "unset x \<longleftrightarrow> x = None \<or> x = Some []"

definition address_int :: "ip \<Rightarrow> int res" where
  "address_int s = res_of ValueError (ipv4_address s)"

definition alloc_ip :: "bas_node \<Rightarrow> ip option res" where
  "alloc_ip b =
     (if unset (pool_start b) \<or> unset (pool_end b) then Inr None
      else res_bind (address_int (the (pool_start b))) (\<lambda>start.
           res_bind (address_int (the (pool_end b))) (\<lambda>end'.
             Inr (map_option int_to_ip (find (\<lambda>raw. int_to_ip raw \<notin> set (leased b)) [start..end'])))))"

definition show_pp :: "pp_id \<Rightarrow> string" where
  "show_pp i = (case i of PpNum n \<Rightarrow> show_nat n | PpIf s \<Rightarrow> s)"

definition session_name :: "dev \<Rightarrow> pp_id \<Rightarrow> string" where
  "session_name rtx pp = rtx @ ''-pp'' @ show_pp pp"

definition can_serve :: "vnet \<Rightarrow> pppoe \<Rightarrow> dev \<Rightarrow> iface \<Rightarrow> string \<Rightarrow> string \<Rightarrow> dev \<Rightarrow> bool" where
  "can_serve v p rtx lan username password peer \<longleftrightarrow>
     dget (interface_links v rtx) peer = Some lan \<and>
     dget (device_types v) peer = Some ''bas'' \<and>
     (case dget (bas_nodes p) peer of None \<Rightarrow> False | Some b \<Rightarrow> dget (bas_users b) username = Some password)"

definition open_session :: "pppoe \<Rightarrow> dev \<Rightarrow> pp_id \<Rightarrow> string \<Rightarrow> dev \<Rightarrow> bas_node \<Rightarrow> ip \<Rightarrow> pppoe \<times> pp_result" where
  "open_session p rtx pp host peer b addr =
     (let sid = session_name rtx pp;
          b' = b\<lparr>leased := sadd (leased b) addr,
                 bas_sessions := dset (bas_sessions b) sid
                   \<lparr>ps_rtx = rtx, ps_hostname = host, ps_ip = addr, ps_pp = pp\<rparr>\<rparr>;
          r = \<lparr>pr_bas = peer, pr_ip = addr, pr_prefix = bas_prefix b, pr_session = sid\<rparr>
      in (p\<lparr>bas_nodes := dset (bas_nodes p) peer b', pp_sessions := dset (pp_sessions p) (rtx, pp) r\<rparr>, r))"

fun try_peers :: "vnet \<Rightarrow> pppoe \<Rightarrow> dev \<Rightarrow> pp_id \<Rightarrow> iface \<Rightarrow> string \<Rightarrow> string \<Rightarrow> string \<Rightarrow> dev list \<Rightarrow>
    (pppoe \<times> pp_result option) res" where
  "try_peers v p rtx pp lan username password host [] = Inr (p, None)"
| "try_peers v p rtx pp lan username password host (peer # peers) =
     (if can_serve v p rtx lan username password peer then
        res_bind (alloc_ip (bas_of p peer)) (\<lambda>a. case a of
            None \<Rightarrow> try_peers v p rtx pp lan username password host peers
          | Some addr \<Rightarrow> (case open_session p rtx pp host peer (bas_of p peer) addr of
                           (p', r) \<Rightarrow> Inr (p', Some r)))
      else try_peers v p rtx pp lan username password host peers)"

definition connect ::
  "vnet \<Rightarrow> pppoe \<Rightarrow> dev \<Rightarrow> pp_id \<Rightarrow> iface \<Rightarrow> string \<Rightarrow> string \<Rightarrow> string \<Rightarrow> (pppoe \<times> pp_result option) res" where
  "connect v p rtx pp lan username password host =
     try_peers v p rtx pp lan username password host (get_neighbors v rtx)"

definition disconnect :: "pppoe \<Rightarrow> dev \<Rightarrow> pp_id \<Rightarrow> pppoe" where
  "disconnect p rtx pp =
     (case dget (pp_sessions p) (rtx, pp) of
        None \<Rightarrow> p
      | Some r \<Rightarrow>
          let p' = p\<lparr>pp_sessions := dpop (pp_sessions p) (rtx, pp)\<rparr>
          in case dget (bas_nodes p) (pr_bas r) of
               None \<Rightarrow> p'
             | Some b \<Rightarrow> p'\<lparr>bas_nodes := dset (bas_nodes p) (pr_bas r)
                 (b\<lparr>bas_sessions := dpop (bas_sessions b) (pr_session r),
                    leased := sdiscard (leased b) (pr_ip r)\<rparr>)\<rparr>)"

subsection \<open>Live clients never share an address\<close>

datatype pppoe_op =
    SetPool dev ip ip int
  | AddUser dev string string
  | ConnectOp vnet dev pp_id iface string string string
  | DisconnectOp dev pp_id

fun pppoe_apply :: "pppoe_op \<Rightarrow> pppoe \<Rightarrow> pppoe" where
  "pppoe_apply (SetPool d a b n) p = set_pool p d a b n"
| "pppoe_apply (AddUser d u pw) p = add_user p d u pw"
| "pppoe_apply (ConnectOp v rtx pp lan u pw host) p =
     (case connect v p rtx pp lan u pw host of Inl _ \<Rightarrow> p | Inr (p', _) \<Rightarrow> p')"
| "pppoe_apply (DisconnectOp rtx pp) p = disconnect p rtx pp"

definition held :: "pppoe \<Rightarrow> dev \<Rightarrow> ip list" where
  "held p d = leased (bas_of p d)"

definition addresses_unique :: "pppoe \<Rightarrow> bool" where
  "addresses_unique p \<longleftrightarrow>
     (\<forall>k r. dget (pp_sessions p) k = Some r \<longrightarrow>
        dget (bas_nodes p) (pr_bas r) \<noteq> None \<and> pr_ip r \<in> set (held p (pr_bas r))) \<and>
     (\<forall>k1 r1 k2 r2. dget (pp_sessions p) k1 = Some r1 \<and> dget (pp_sessions p) k2 = Some r2 \<and> k1 \<noteq> k2 \<and>
        pr_bas r1 = pr_bas r2 \<longrightarrow> pr_ip r1 \<noteq> pr_ip r2)"

definition leases_distinct :: "pppoe \<Rightarrow> bool" where
  "leases_distinct p \<longleftrightarrow> (\<forall>d b. dget (bas_nodes p) d = Some b \<longrightarrow> distinct (leased b))"

definition pppoe_ok :: "pppoe \<Rightarrow> bool" where
  "pppoe_ok p \<longleftrightarrow> addresses_unique p \<and> leases_distinct p"

lemma bas_of_dset [simp]:
  "bas_of (p\<lparr>bas_nodes := dset (bas_nodes p) d b\<rparr>) d' = (if d' = d then b else bas_of p d')"
  "bas_of (p\<lparr>bas_nodes := dset (bas_nodes p) d b, pp_sessions := s\<rparr>) d' = (if d' = d then b else bas_of p d')"
  "bas_of (p\<lparr>pp_sessions := s, bas_nodes := dset (bas_nodes p) d b\<rparr>) d' = (if d' = d then b else bas_of p d')"
  by (simp_all add: bas_of_def dget_or_def)

lemma bas_of_Some: "dget (bas_nodes p) d = Some b \<Longrightarrow> bas_of p d = b"
  by (simp add: bas_of_def dget_or_def)

lemma distinct_bas_of: "leases_distinct p \<Longrightarrow> distinct (leased (bas_of p d))"
  by (cases "dget (bas_nodes p) d") (auto simp: leases_distinct_def bas_of_def dget_or_def)

text \<open>Configuration changes of an access server touch neither leases nor sessions.\<close>

lemma pppoe_ok_config:
  assumes "pppoe_ok p" "leased b = leased (bas_of p d)"
  shows "pppoe_ok (p\<lparr>bas_nodes := dset (bas_nodes p) d b\<rparr>)"
  using assms distinct_bas_of [of p d]
  by (auto simp: pppoe_ok_def addresses_unique_def leases_distinct_def held_def)

lemma alloc_fresh: "alloc_ip b = Inr (Some a) \<Longrightarrow> a \<notin> set (leased b)"
  by (cases "address_int (the (pool_start b))"; cases "address_int (the (pool_end b))")
     (auto simp: alloc_ip_def dest!: find_SomeD split: if_splits)

lemma open_session_ok:
  assumes "pppoe_ok p" "addr \<notin> set (held p peer)"
  shows "pppoe_ok (fst (open_session p rtx pp host peer (bas_of p peer) addr))"
proof -
  have leases: "leases_distinct (fst (open_session p rtx pp host peer (bas_of p peer) addr))"
    using assms distinct_bas_of [of p peer] by (auto simp: pppoe_ok_def open_session_def leases_distinct_def Let_def)
  have "addresses_unique (fst (open_session p rtx pp host peer (bas_of p peer) addr))"
    using assms unfolding pppoe_ok_def addresses_unique_def open_session_def held_def Let_def
    by (auto split: if_splits) blast+
  with leases show ?thesis by (simp add: pppoe_ok_def)
qed

lemma try_peers_ok:
  "pppoe_ok p \<Longrightarrow> try_peers v p rtx pp lan username password host peers = Inr (p', x) \<Longrightarrow> pppoe_ok p'"
proof (induction peers)
  case (Cons peer peers)
  show ?case
  proof (cases "can_serve v p rtx lan username password peer")
    case False
    with Cons show ?thesis by simp
  next
    case True
    with Cons.prems(2) obtain a where a: "alloc_ip (bas_of p peer) = Inr a"
      by (cases "alloc_ip (bas_of p peer)") auto
    show ?thesis
    proof (cases a)
      case None
      with a True Cons show ?thesis by simp
    next
      case (Some addr)
      with a True Cons.prems(2) have "p' = fst (open_session p rtx pp host peer (bas_of p peer) addr)"
        by (auto split: prod.splits)
      moreover have "addr \<notin> set (held p peer)" using alloc_fresh a Some by (auto simp: held_def)
      ultimately show ?thesis using open_session_ok [OF Cons.prems(1)] by simp
    qed
  qed
qed simp

lemma disconnect_ok:
  assumes "pppoe_ok p"
  shows "pppoe_ok (disconnect p rtx pp)"
proof (cases "dget (pp_sessions p) (rtx, pp)")
  case None
  with assms show ?thesis by (simp add: disconnect_def)
next
  case (Some r)
  with assms obtain b where b: "dget (bas_nodes p) (pr_bas r) = Some b"
    unfolding pppoe_ok_def addresses_unique_def by blast
  then have bo: "bas_of p (pr_bas r) = b" by (rule bas_of_Some)
  have "leases_distinct (disconnect p rtx pp)"
    using assms Some b by (auto simp: disconnect_def pppoe_ok_def leases_distinct_def)
  moreover have "addresses_unique (disconnect p rtx pp)"
    using assms Some b bo unfolding pppoe_ok_def addresses_unique_def disconnect_def held_def Let_def
    by (simp split del: if_split) (intro conjI allI impI; auto split: if_splits; metis)
  ultimately show ?thesis by (simp add: pppoe_ok_def)
qed

lemma pppoe_ok_apply: "pppoe_ok p \<Longrightarrow> pppoe_ok (pppoe_apply op p)"
proof (cases op)
  case (ConnectOp v rtx pp lan u pw host)
  then show "pppoe_ok p \<Longrightarrow> ?thesis"
    by (cases "connect v p rtx pp lan u pw host") (auto simp: connect_def intro: try_peers_ok)
qed (auto simp: set_pool_def add_user_def intro!: pppoe_ok_config disconnect_ok)

interpretation pppoe_run: machine pppoe_apply pppoe_init pppoe_ok
  by unfold_locales
     (auto simp: pppoe_ok_apply, simp add: pppoe_ok_def pppoe_init_def addresses_unique_def leases_distinct_def)

text \<open>Whatever pools and users are configured and however clients connect, reconnect and disconnect
  (over any networks), two live sessions on one access server never hold the same address, the address
  of every live session is marked as leased, and no address is leased twice.\<close>

theorem pppoe_addresses_unique: "pppoe_ok (fold pppoe_apply ops pppoe_init)"
  by (rule pppoe_run.run_inv)

text \<open>Example: a client behind one access server with a pool of two addresses.\<close>

definition bas_net :: vnet where
  "bas_net = vnet_init\<lparr>links := [(''r1'', [''bas1'']), (''bas1'', [''r1''])],
     interface_links := (\<lambda>d. if d = ''r1'' then [(''bas1'', ''lan2'')] else []),
     device_types := [(''bas1'', ''bas'')]\<rparr>"

definition dial :: pppoe_op where
  "dial = ConnectOp bas_net ''r1'' (PpNum 1) ''lan2'' ''u'' ''p'' ''R1''"

definition hang_up :: pppoe_op where
  "hang_up = DisconnectOp ''r1'' (PpNum 1)"

definition small_pool :: "pppoe_op list" where
  "small_pool = [SetPool ''bas1'' ''10.0.0.8'' ''10.0.0.9'' 32, AddUser ''bas1'' ''u'' ''p'']"

text \<open>Connecting once and disconnecting gives the address back; connecting again without
  disconnecting first (\<open>pp enable\<close> twice) takes a second address and the one disconnect returns only
  that: the first stays leased with no session holding it.\<close>

theorem reconnect_leaks_lease:
  "held (fold pppoe_apply (small_pool @ [dial, hang_up]) pppoe_init) ''bas1'' = [] \<and>
   held (fold pppoe_apply (small_pool @ [dial, dial, hang_up]) pppoe_init) ''bas1'' = [''10.0.0.8''] \<and>
   bas_sessions (bas_of (fold pppoe_apply (small_pool @ [dial, dial, hang_up]) pppoe_init) ''bas1'') = []"
  by (intro conjI; code_simp)

end
