(* ===== verification/MapE.thy ===== *)
theory MapE
  imports VNet
begin

text \<open>
  \<open>class MapEEngine\<close>: a rule server gives each client a shared IPv4 address and one of the port ranges
  (PSID) of that address. The next slot is computed from the number of rules the server has.
\<close>

record mape_rule =
  mr_rtx :: dev
  mr_server :: dev
  mr_ipv4 :: ip
  mr_psid :: int
  mr_ports :: "int \<times> int"
  mr_br :: string

record mape_server =
  ipv4_pool :: "ip list"
  br_ipv6 :: string
  ports_per_user :: int
  mape_rules :: "(string, mape_rule) dict"

type_synonym mape = "(dev, mape_server) dict"

definition server_of :: "mape \<Rightarrow> dev \<Rightarrow> mape_server" where
  "server_of m d = dget_or m d \<lparr>ipv4_pool = [], br_ipv6 = [], ports_per_user = 4096, mape_rules = []\<rparr>"

text \<open>\<open>str(ipaddress.IPv4Address(i))\<close> for the addresses of the range; malformed text raises.\<close>

definition set_ipv4_pool :: "mape \<Rightarrow> dev \<Rightarrow> ip \<Rightarrow> ip \<Rightarrow> mape res" where
  "set_ipv4_pool m d start end' =
     res_bind (res_of ValueError (ipv4_address start)) (\<lambda>s.
     res_bind (res_of ValueError (ipv4_address end')) (\<lambda>e.
       Inr (dset m d ((server_of m d)\<lparr>ipv4_pool := List.map int_to_ip [s..e]\<rparr>))))"

definition set_br_address :: "mape \<Rightarrow> dev \<Rightarrow> string \<Rightarrow> mape" where
  "set_br_address m d br = dset m d ((server_of m d)\<lparr>br_ipv6 := br\<rparr>)"

text \<open>\<open>a // b\<close> raises on zero.\<close>

definition floordiv :: "int \<Rightarrow> int \<Rightarrow> int res" where
  "floordiv a b = (if b = 0 then Inl ZeroDivisionError else Inr (a div b))"

definition make_rule :: "dev \<Rightarrow> dev \<Rightarrow> mape_server \<Rightarrow> mape_rule option res" where
  "make_rule rtx peer srv =
     (let ppu = ports_per_user srv; n = int (length (mape_rules srv))
      in res_bind (floordiv 65536 ppu) (\<lambda>slots.
         res_bind (floordiv n slots) (\<lambda>i.
           if i < int (length (ipv4_pool srv)) then
             res_bind (py_nth (ipv4_pool srv) i) (\<lambda>ipv4.
               let psid = n mod slots
               in Inr (Some \<lparr>mr_rtx = rtx, mr_server = peer, mr_ipv4 = ipv4, mr_psid = psid,
                    mr_ports = (psid * ppu, psid * ppu + ppu - 1), mr_br = br_ipv6 srv\<rparr>))
           else Inr None)))"

definition is_rule_server :: "vnet \<Rightarrow> mape \<Rightarrow> dev \<Rightarrow> iface \<Rightarrow> dev \<Rightarrow> bool" where
  "is_rule_server v m rtx i peer \<longleftrightarrow>
     dget (interface_links v rtx) peer = Some i \<and>
     (case dget m peer of None \<Rightarrow> False | Some srv \<Rightarrow> ipv4_pool srv \<noteq> [] \<and> br_ipv6 srv \<noteq> [])"

definition request_rule :: "vnet \<Rightarrow> mape \<Rightarrow> dev \<Rightarrow> iface \<Rightarrow> string \<Rightarrow> (mape \<times> mape_rule option) res" where
  "request_rule v m rtx i rule_id =
     (case find (is_rule_server v m rtx i) (get_neighbors v rtx) of
        None \<Rightarrow> Inr (m, None)
      | Some peer \<Rightarrow>
          let srv = server_of m peer
          in res_bind (make_rule rtx peer srv) (\<lambda>r. Inr (case r of
               None \<Rightarrow> (m, None)
             | Some rule \<Rightarrow> (dset m peer (srv\<lparr>mape_rules := dset (mape_rules srv) rule_id rule\<rparr>), Some rule))))"

definition release_rule :: "mape \<Rightarrow> string \<Rightarrow> mape" where
  "release_rule m rule_id =
     List.map (\<lambda>(d, srv). (d, srv\<lparr>mape_rules := dpop (mape_rules srv) rule_id\<rparr>)) m"

subsection \<open>Slots\<close>

definition slot_of :: "mape_server \<Rightarrow> nat \<Rightarrow> nat \<times> int" where
  "slot_of srv n = (let k = 65536 div ports_per_user srv in (nat (int n div k), int n mod k))"

text \<open>The rule has the slot of the position it was given at.\<close>

definition in_slot :: "mape_server \<Rightarrow> nat \<Rightarrow> mape_rule \<Rightarrow> bool" where
  "in_slot srv n r \<longleftrightarrow>
     fst (slot_of srv n) < length (ipv4_pool srv) \<and> mr_ipv4 r = ipv4_pool srv ! fst (slot_of srv n) \<and>
     mr_psid r = snd (slot_of srv n)"

definition sane_server :: "mape_server \<Rightarrow> bool" where
  "sane_server srv \<longleftrightarrow> 1 \<le> ports_per_user srv \<and> ports_per_user srv \<le> 65536"

definition ports_ok :: "mape_server \<Rightarrow> mape_rule \<Rightarrow> bool" where
  "ports_ok srv r \<longleftrightarrow>
     (let (lo, hi) = mr_ports r
      in lo = mr_psid r * ports_per_user srv \<and> hi = lo + ports_per_user srv - 1 \<and> 0 \<le> lo \<and> hi \<le> 65535)"

lemma slots_pos: "sane_server srv \<Longrightarrow> 1 \<le> 65536 div ports_per_user srv"
proof -
  assume "sane_server srv"
  then have "ports_per_user srv div ports_per_user srv \<le> 65536 div ports_per_user srv"
    by (intro zdiv_mono1) (auto simp: sane_server_def)
  with \<open>sane_server srv\<close> show ?thesis by (simp add: sane_server_def)
qed

lemma psid_bounds:
  assumes "sane_server srv"
  shows "0 \<le> int n mod (65536 div ports_per_user srv)"
    "int n mod (65536 div ports_per_user srv) * ports_per_user srv + ports_per_user srv \<le> 65536"
proof -
  let ?p = "ports_per_user srv" let ?k = "65536 div ?p"
  have k: "1 \<le> ?k" using slots_pos [OF assms] .
  show "0 \<le> int n mod ?k" using k by simp
  have "int n mod ?k + 1 \<le> ?k" using k pos_mod_bound [of ?k "int n"] by linarith
  then have "(int n mod ?k + 1) * ?p \<le> ?k * ?p"
    using assms by (intro mult_right_mono) (auto simp: sane_server_def)
  also have "\<dots> \<le> 65536"
  proof -
    have "?k * ?p + 65536 mod ?p = 65536" by (rule div_mult_mod_eq)
    moreover have "0 \<le> 65536 mod ?p" using assms by (simp add: sane_server_def)
    ultimately show ?thesis by linarith
  qed
  finally show "int n mod ?k * ?p + ?p \<le> 65536" by (simp add: algebra_simps)
qed

lemma make_rule_ok:
  assumes "make_rule rtx peer srv = Inr (Some r)" "sane_server srv"
  shows "ports_ok srv r \<and> in_slot srv (length (mape_rules srv)) r \<and> mr_server r = peer"
proof -
  let ?n = "length (mape_rules srv)" let ?k = "65536 div ports_per_user srv"
  have k: "1 \<le> ?k" by (rule slots_pos [OF assms(2)])
  have nz: "ports_per_user srv \<noteq> 0" "?k \<noteq> 0" using assms(2) k by (auto simp: sane_server_def)
  have i: "0 \<le> int ?n div ?k" using k by (simp add: pos_imp_zdiv_nonneg_iff)
  have lt: "int ?n div ?k < int (length (ipv4_pool srv))"
    using assms(1) nz by (auto simp: make_rule_def floordiv_def Let_def split: if_splits)
  have r: "r = \<lparr>mr_rtx = rtx, mr_server = peer, mr_ipv4 = ipv4_pool srv ! nat (int ?n div ?k),
      mr_psid = int ?n mod ?k, mr_ports = (int ?n mod ?k * ports_per_user srv,
        int ?n mod ?k * ports_per_user srv + ports_per_user srv - 1), mr_br = br_ipv6 srv\<rparr>"
    using assms(1) nz lt i by (simp add: make_rule_def floordiv_def py_nth_def Let_def)
  have "nat (int ?n div ?k) < length (ipv4_pool srv)" using lt i by linarith
  moreover have "0 \<le> int ?n mod ?k * ports_per_user srv"
    using psid_bounds(1) [OF assms(2), of ?n] assms(2) by (auto simp: sane_server_def intro!: mult_nonneg_nonneg)
  ultimately show ?thesis
    using psid_bounds(2) [OF assms(2), of ?n] by (simp add: r ports_ok_def in_slot_def slot_of_def Let_def)
qed

text \<open>Every rule a server with between 1 and 65536 ports per user hands out has a port range that
  starts at PSID times the range size, has exactly that size and lies within 0..65535; its address comes
  from the pool.\<close>

theorem mape_ports_in_range:
  assumes "sane_server srv" "make_rule rtx peer srv = Inr (Some r)"
  shows "ports_ok srv r \<and> mr_ipv4 r \<in> set (ipv4_pool srv)"
  using make_rule_ok [OF assms(2,1)] by (auto simp: in_slot_def)

definition two_ips :: mape_server where
  "two_ips = \<lparr>ipv4_pool = [''192.0.2.1'', ''192.0.2.2''], br_ipv6 = ''2001:db8::1'', ports_per_user = 32768,
     mape_rules = []\<rparr>"

theorem mape_ports_in_range_witness:
  "\<exists>r. make_rule ''r1'' ''bas1'' two_ips = Inr (Some r) \<and> ports_ok two_ips r \<and> mr_ipv4 r \<in> set (ipv4_pool two_ips)"
proof -
  obtain r where r: "make_rule ''r1'' ''bas1'' two_ips = Inr (Some r)"
    by (simp add: make_rule_def two_ips_def floordiv_def py_nth_def Let_def)
  with mape_ports_in_range [OF _ r] show ?thesis by (auto simp: sane_server_def two_ips_def)
qed

subsection \<open>Distinct slots while clients only join\<close>

definition slots_distinct :: "mape_server \<Rightarrow> bool" where
  "slots_distinct srv \<longleftrightarrow> distinct (List.map (\<lambda>(_, r). (mr_ipv4 r, mr_ports r)) (mape_rules srv))"

text \<open>The rules stand in the order of their slots, which holds while clients only join.\<close>

definition filled :: "mape_server \<Rightarrow> bool" where
  "filled srv \<longleftrightarrow> (\<forall>i < length (mape_rules srv).
     in_slot srv i (snd (mape_rules srv ! i)) \<and> ports_ok srv (snd (mape_rules srv ! i)))"

fun join_all :: "dev \<Rightarrow> (dev \<times> string) list \<Rightarrow> mape_server \<Rightarrow> mape_server res" where
  "join_all peer [] srv = Inr srv"
| "join_all peer ((rtx, rule_id) # cs) srv =
     res_bind (make_rule rtx peer srv) (\<lambda>r. case r of
         None \<Rightarrow> join_all peer cs srv
       | Some rule \<Rightarrow> join_all peer cs (srv\<lparr>mape_rules := dset (mape_rules srv) rule_id rule\<rparr>))"

lemma in_slot_rules [simp]:
  "in_slot (srv\<lparr>mape_rules := rs\<rparr>) n r = in_slot srv n r" "ports_ok (srv\<lparr>mape_rules := rs\<rparr>) r = ports_ok srv r"
  "sane_server (srv\<lparr>mape_rules := rs\<rparr>) = sane_server srv"
  by (simp_all add: in_slot_def slot_of_def ports_ok_def sane_server_def)

lemma filled_add:
  assumes "filled srv" "sane_server srv" "make_rule rtx peer srv = Inr (Some r)" "dget (mape_rules srv) rule_id = None"
  shows "filled (srv\<lparr>mape_rules := dset (mape_rules srv) rule_id r\<rparr>)"
proof -
  have "dset (mape_rules srv) rule_id r = mape_rules srv @ [(rule_id, r)]" using assms(4) by (rule dset_new)
  with make_rule_ok [OF assms(3,2)] assms(1) show ?thesis
    by (auto simp: filled_def nth_append less_Suc_eq)
qed

lemma slot_of_inj:
  assumes "sane_server srv" "slot_of srv m = slot_of srv n"
  shows "m = n"
proof -
  have k: "1 \<le> 65536 div ports_per_user srv" by (rule slots_pos [OF assms(1)])
  then have "0 \<le> int m div (65536 div ports_per_user srv)" "0 \<le> int n div (65536 div ports_per_user srv)"
    by (simp_all add: pos_imp_zdiv_nonneg_iff)
  with assms(2) have "int m div (65536 div ports_per_user srv) = int n div (65536 div ports_per_user srv)"
    "int m mod (65536 div ports_per_user srv) = int n mod (65536 div ports_per_user srv)"
    by (auto simp: slot_of_def Let_def)
  then have "int m = int n" by (metis div_mult_mod_eq)
  then show ?thesis by simp
qed

lemma filled_distinct:
  assumes "filled srv" "sane_server srv" "distinct (ipv4_pool srv)"
  shows "slots_distinct srv"
  unfolding slots_distinct_def distinct_conv_nth
proof (clarsimp simp: case_prod_beta, rule ccontr, clarsimp)
  fix i j
  assume ij: "i < length (mape_rules srv)" "j < length (mape_rules srv)" "i \<noteq> j"
    "mr_ipv4 (snd (mape_rules srv ! i)) = mr_ipv4 (snd (mape_rules srv ! j))"
    "mr_ports (snd (mape_rules srv ! i)) = mr_ports (snd (mape_rules srv ! j))"
  let ?r = "\<lambda>i. snd (mape_rules srv ! i)"
  have s: "in_slot srv i (?r i)" "in_slot srv j (?r j)" "ports_ok srv (?r i)" "ports_ok srv (?r j)"
    using assms(1) ij by (auto simp: filled_def)
  then have "mr_psid (?r i) * ports_per_user srv = mr_psid (?r j) * ports_per_user srv"
    using ij(5) by (auto simp: ports_ok_def split: prod.splits)
  then have "mr_psid (?r i) = mr_psid (?r j)" using assms(2) by (auto simp: sane_server_def)
  moreover have "fst (slot_of srv i) = fst (slot_of srv j)"
    using s(1,2) ij(4) assms(3) by (auto simp: in_slot_def nth_eq_iff_index_eq)
  ultimately have "slot_of srv i = slot_of srv j"
    using s(1,2) by (auto simp: in_slot_def prod_eq_iff)
  with slot_of_inj [OF assms(2)] ij(3) show False by auto
qed

lemma join_all_filled:
  assumes "filled srv" "sane_server srv" "join_all peer cs srv = Inr srv'"
    "distinct (List.map snd cs)" "\<forall>c\<in>set cs. dget (mape_rules srv) (snd c) = None"
  shows "filled srv' \<and> sane_server srv' \<and> ipv4_pool srv' = ipv4_pool srv"
  using assms
proof (induction peer cs srv rule: join_all.induct)
  case (2 peer rtx rule_id cs srv)
  then obtain x where x: "make_rule rtx peer srv = Inr x" by (cases "make_rule rtx peer srv") auto
  show ?case
  proof (cases x)
    case None
    with 2 x show ?thesis by auto
  next
    case (Some rule)
    let ?s = "srv\<lparr>mape_rules := dset (mape_rules srv) rule_id rule\<rparr>"
    have "filled ?s" using 2 x Some by (intro filled_add) auto
    moreover have "\<forall>c\<in>set cs. dget (mape_rules ?s) (snd c) = None" using 2(6,7) by force
    ultimately have "filled srv' \<and> sane_server srv' \<and> ipv4_pool srv' = ipv4_pool ?s"
      using 2(2) [OF _ _ _ _ _] 2(4-6) x Some by auto
    then show ?thesis by simp
  qed
qed simp

text \<open>While clients with different rule ids join and none leaves, no two of them get the same address
  with the same port range.\<close>

theorem mape_slots_distinct:
  assumes "sane_server srv" "distinct (ipv4_pool srv)" "mape_rules srv = []"
    "distinct (List.map snd cs)" "join_all peer cs srv = Inr srv'"
  shows "slots_distinct srv'"
proof -
  have "filled srv' \<and> sane_server srv' \<and> ipv4_pool srv' = ipv4_pool srv"
    using assms by (intro join_all_filled [of srv peer cs srv']) (auto simp: filled_def)
  with assms(2) show ?thesis by (auto intro: filled_distinct)
qed

definition three_clients :: "(dev \<times> string) list" where
  "three_clients = [(''r1'', ''r1''), (''r2'', ''r2''), (''r3'', ''r3'')]"

theorem mape_slots_distinct_witness:
  "(case join_all ''bas1'' three_clients two_ips of Inl _ \<Rightarrow> False | Inr s \<Rightarrow> length (mape_rules s) = 3 \<and> slots_distinct s)"
proof -
  obtain s where s: "join_all ''bas1'' three_clients two_ips = Inr s" "length (mape_rules s) = 3"
    by (simp add: three_clients_def two_ips_def make_rule_def floordiv_def py_nth_def Let_def dset_def)
  then show ?thesis
    using mape_slots_distinct [OF _ _ _ _ s(1)]
    by (simp add: sane_server_def two_ips_def three_clients_def)
qed

subsection \<open>Slots after a client has left\<close>

definition mape_net :: vnet where
  "mape_net = vnet_init\<lparr>links := [(''r1'', [''bas1'']), (''r2'', [''bas1'']), (''bas1'', [''r1'', ''r2''])],
     interface_links := (\<lambda>d. if d = ''bas1'' then [] else [(''bas1'', ''lan2'')])\<rparr>"

definition request :: "dev \<Rightarrow> mape \<Rightarrow> mape" where
  "request d m = (case request_rule mape_net m d ''lan2'' d of Inl _ \<Rightarrow> m | Inr (m', _) \<Rightarrow> m')"

definition mape_start :: mape where
  "mape_start = [(''bas1'', two_ips)]"

definition ports_at :: "mape \<Rightarrow> dev \<Rightarrow> (ip \<times> int \<times> int) option" where
  "ports_at m d = map_option (\<lambda>r. (mr_ipv4 r, mr_ports r)) (dget (mape_rules (server_of m ''bas1'')) d)"

text \<open>The next slot is the number of rules, so a slot that is in use is handed out again: after
  \<open>r1\<close> leaves and comes back it shares address and ports with \<open>r2\<close>, and the same happens to \<open>r2\<close> when
  \<open>r1\<close> merely repeats its request (\<open>map-e use\<close> entered twice).\<close>

theorem mape_slot_reused:
  "(let m = request ''r1'' (release_rule (request ''r2'' (request ''r1'' mape_start)) ''r1'')
    in ports_at m ''r1'' = Some (''192.0.2.1'', 32768, 65535) \<and> ports_at m ''r2'' = ports_at m ''r1'') \<and>
   (let m = request ''r2'' (request ''r1'' (request ''r1'' mape_start))
    in ports_at m ''r1'' = Some (''192.0.2.1'', 32768, 65535) \<and> ports_at m ''r2'' = ports_at m ''r1'')"
  by code_simp

end
