(* ===== verification/Rip.thy ===== *)
theory Rip
  imports Complex_Main Filters VNet
begin

text \<open>
  \<open>class RipEngine\<close>: the RIP version 2 process of every device. Each handler runs atomically up to its
  next sleep; the part behind a sleep (the request after the start, the triggered update after a
  change, the two phases of a route's expiry timer) is a step of its own. Messages a handler sends are
  the list it returns. Times are rational numbers of seconds; when a sleeping timer fires is left open, so
  that the invariant holds for every timing.
\<close>

subsection \<open>State\<close>

record rip_route =
  rt_network :: ip
  rt_prefix :: int
  rt_metric :: int
  rt_next_hop :: string
  rt_from :: string
  rt_from_host :: string
  rt_timestamp :: rat
  rt_state :: string

datatype expire_task = TimeoutSleep | GarbageSleep | CancelledTask

record rip_peer =
  rp_hostname :: string
  rp_ip :: ip
  rp_seen :: rat
  rp_routes :: nat

record rip_proc =
  rn_enabled :: bool
  rn_version :: int
  rn_hostname :: string
  rn_networks :: "string list"
  rn_table :: "rip_route list"
  rn_timer :: bool
  rn_expire :: "(string, expire_task) dict"
  rn_redistributed :: "(string, int option) dict"
  rn_peers :: "(dev, rip_peer) dict"
  rn_auth_mode :: string
  rn_auth_key :: string
  rn_static_neighbors :: "ip list"

type_synonym rip = "(dev, rip_proc) dict"

record rip_entry =
  en_network :: "string option"
  en_prefix :: "int option"
  en_metric :: "int option"

datatype rip_log = LogStart int "string list" | LogAuth string string | LogLearned ip int int string | LogExpired ip int

record rip_packet =
  rk_command :: string
  rk_version :: int
  rk_src :: dev
  rk_src_host :: string
  rk_entries :: "rip_entry list"
  rk_auth_mode :: string
  rk_auth_key :: string

datatype rip_out =
    Log dev rip_log
  | ToPeer dev rip_packet
  | Broadcast dev rip_packet
  | PushTable dev "rip_route list"
  | TriggerUpdate dev

definition rip_update_interval :: rat where "rip_update_interval = 30"
definition rip_timeout :: rat where "rip_timeout = 180"
definition rip_garbage :: rat where "rip_garbage = 120"

definition new_proc :: "dev \<Rightarrow> rip_proc" where
  "new_proc d = \<lparr>rn_enabled = False, rn_version = 2, rn_hostname = d, rn_networks = [], rn_table = [],
     rn_timer = False, rn_expire = [], rn_redistributed = [], rn_peers = [], rn_auth_mode = [],
     rn_auth_key = [], rn_static_neighbors = []\<rparr>"

definition proc_of :: "rip \<Rightarrow> dev \<Rightarrow> rip_proc" where
  "proc_of s d = dget_or s d (new_proc d)"

definition upd_proc :: "rip \<Rightarrow> dev \<Rightarrow> (rip_proc \<Rightarrow> rip_proc) \<Rightarrow> rip" where
  "upd_proc s d f = dset s d (f (proc_of s d))"

definition add_neighbor :: "rip \<Rightarrow> dev \<Rightarrow> ip \<Rightarrow> rip" where
  "add_neighbor s d a = upd_proc s d (\<lambda>n. n\<lparr>rn_static_neighbors := sadd (rn_static_neighbors n) a\<rparr>)"

definition remove_neighbor :: "rip \<Rightarrow> dev \<Rightarrow> ip \<Rightarrow> rip" where
  "remove_neighbor s d a =
     (if dget s d = None then s
      else upd_proc s d (\<lambda>n. n\<lparr>rn_static_neighbors := sdiscard (rn_static_neighbors n) a\<rparr>))"

definition resolve_static_neighbor_devices :: "rip \<Rightarrow> (dev, device_info) dict \<Rightarrow> dev \<Rightarrow> dev list" where
  "resolve_static_neighbor_devices s book d =
     List.map fst (filter (\<lambda>(c, i). c \<noteq> d \<and>
       (\<exists>a\<in>set (dkeys (di_ips i)). a \<in> set (rn_static_neighbors (proc_of s d)))) book)"

definition set_authentication :: "rip \<Rightarrow> dev \<Rightarrow> string \<Rightarrow> string \<Rightarrow> rip" where
  "set_authentication s d md key = upd_proc s d (\<lambda>n. n\<lparr>rn_auth_mode := md, rn_auth_key := key\<rparr>)"

subsection \<open>Routes and their timers\<close>

definition dest_name :: "ip \<Rightarrow> int \<Rightarrow> string" where
  "dest_name network prefix = network @ ''/'' @ show_int prefix"

definition route_dest :: "rip_route \<Rightarrow> ip \<times> int" where
  "route_dest r = (rt_network r, rt_prefix r)"

text \<open>\<open>_reset_expire\<close>: the old task is cancelled and a new one sleeps for the timeout.\<close>

definition reset_expire :: "rip_proc \<Rightarrow> ip \<Rightarrow> int \<Rightarrow> rip_proc" where
  "reset_expire n network prefix = n\<lparr>rn_expire := dset (rn_expire n) (dest_name network prefix) TimeoutSleep\<rparr>"

fun store_route :: "rip_route \<Rightarrow> rip_route list \<Rightarrow> rip_route list" where
  "store_route r [] = [r]"
| "store_route r (x # xs) = (if route_dest x = route_dest r then r # xs else x # store_route r xs)"

definition add_route :: "rip_proc \<Rightarrow> rip_route \<Rightarrow> rip_proc" where
  "add_route n r =
     (let n' = n\<lparr>rn_table := store_route r (rn_table n)\<rparr>
      in if rt_from r \<noteq> ''direct'' then reset_expire n' (rt_network r) (rt_prefix r) else n')"

definition find_route :: "rip_route list \<Rightarrow> ip \<Rightarrow> int \<Rightarrow> rip_route option" where
  "find_route t network prefix = find (\<lambda>r. rt_network r = network \<and> rt_prefix r = prefix) t"

text \<open>Changing the first route to a destination in place.\<close>

fun modify_route :: "(rip_route \<Rightarrow> rip_route) \<Rightarrow> ip \<times> int \<Rightarrow> rip_route list \<Rightarrow> rip_route list" where
  "modify_route f k [] = []"
| "modify_route f k (r # rs) = (if route_dest r = k then f r # rs else r # modify_route f k rs)"

text \<open>\<open>table.pop(next(i ... if p))\<close>.\<close>

fun remove_first :: "('a \<Rightarrow> bool) \<Rightarrow> 'a list \<Rightarrow> 'a list" where
  "remove_first p [] = []"
| "remove_first p (x # xs) = (if p x then xs else x # remove_first p xs)"

subsection \<open>Starting, stopping, interface failures\<close>

fun parse_nets :: "string list \<Rightarrow> (ip \<times> int) list res" where
  "parse_nets [] = Inr []"
| "parse_nets (s # ss) =
     (case split_on (CHR ''/'') s of
        [a, p] \<Rightarrow> (case py_int p of
            None \<Rightarrow> Inl ValueError
          | Some n \<Rightarrow> res_bind (parse_nets ss) (\<lambda>r. Inr ((a, n) # r)))
      | _ \<Rightarrow> parse_nets ss)"

definition direct_route :: "rat \<Rightarrow> ip \<times> int \<Rightarrow> rip_route" where
  "direct_route now k = \<lparr>rt_network = fst k, rt_prefix = snd k, rt_metric = 0, rt_next_hop = ''0.0.0.0'',
     rt_from = ''direct'', rt_from_host = [], rt_timestamp = now, rt_state = ''valid''\<rparr>"

text \<open>The loop over the networks; a malformed prefix raises, and what was done before stays done.\<close>

fun add_networks :: "rat \<Rightarrow> string list \<Rightarrow> rip_proc \<Rightarrow> rip_proc \<times> pyerr option" where
  "add_networks now [] n = (n, None)"
| "add_networks now (s # ss) n =
     (case split_on (CHR ''/'') s of
        [a, p] \<Rightarrow> (case py_int p of
            None \<Rightarrow> (n, Some ValueError)
          | Some l \<Rightarrow> add_networks now ss (add_route n (direct_route now (a, l))))
      | _ \<Rightarrow> add_networks now ss n)"

definition start :: "rat \<Rightarrow> rip \<Rightarrow> dev \<Rightarrow> string \<Rightarrow> string list \<Rightarrow> int \<Rightarrow> rip \<times> rip_out list \<times> pyerr option" where
  "start now s d host networks version =
     (let n = (proc_of s d)\<lparr>rn_enabled := True, rn_version := version, rn_hostname := host,
                 rn_networks := networks, rn_table := []\<rparr>
      in case add_networks now networks n of
           (n', Some x) \<Rightarrow> (dset s d n', [], Some x)
         | (n', None) \<Rightarrow> (dset s d (n'\<lparr>rn_timer := True\<rparr>), [Log d (LogStart version networks)], None))"

definition poison_packet :: "dev \<Rightarrow> rip_proc \<Rightarrow> rip_route list \<Rightarrow> rip_packet" where
  "poison_packet d n rs = \<lparr>rk_command = ''response'', rk_version = 2, rk_src = d, rk_src_host = rn_hostname n,
     rk_entries = List.map (\<lambda>r. \<lparr>en_network = Some (rt_network r), en_prefix = Some (rt_prefix r), en_metric = Some 16\<rparr>) rs,
     rk_auth_mode = [], rk_auth_key = []\<rparr>"

definition stop :: "rip \<Rightarrow> dev \<Rightarrow> rip \<times> rip_out list" where
  "stop s d =
     (case dget s d of
        None \<Rightarrow> (s, [])
      | Some n \<Rightarrow>
          (dset s d (n\<lparr>rn_timer := False, rn_enabled := False,
                       rn_expire := List.map (\<lambda>(k, _). (k, CancelledTask)) (rn_expire n)\<rparr>),
           if rn_table n = [] then [] else [Broadcast d (poison_packet d n (rn_table n))]))"

definition forget_peer :: "dev \<Rightarrow> dev \<Rightarrow> rip \<Rightarrow> rip" where
  "forget_peer d p s =
     (let s' = upd_proc s d (\<lambda>n. n\<lparr>rn_peers := dpop (rn_peers n) p\<rparr>)
      in if dget s' p = None then s' else upd_proc s' p (\<lambda>n. n\<lparr>rn_peers := dpop (rn_peers n) d\<rparr>))"

definition rip_interface_down :: "rip \<Rightarrow> dev \<Rightarrow> dev list \<Rightarrow> rip \<times> rip_out list" where
  "rip_interface_down s d peer_ids =
     (case dget s d of
        None \<Rightarrow> (s, [])
      | Some n \<Rightarrow>
          if \<not> rn_enabled n then (s, [])
          else let removed = filter (\<lambda>r. rt_from r \<in> set peer_ids) (rn_table n);
                   s1 = dset s d (n\<lparr>rn_table := filter (\<lambda>r. rt_from r \<notin> set peer_ids) (rn_table n)\<rparr>);
                   s2 = fold (forget_peer d) peer_ids s1
               in (s2, if removed = [] then [] else [Broadcast d (poison_packet d n removed)]))"

definition send_request :: "rip \<Rightarrow> dev \<Rightarrow> rip_out list" where
  "send_request s d =
     (case dget s d of
        None \<Rightarrow> []
      | Some n \<Rightarrow> [Broadcast d \<lparr>rk_command = ''request'', rk_version = rn_version n, rk_src = d,
          rk_src_host = rn_hostname n,
          rk_entries = [\<lparr>en_network = Some ''0.0.0.0'', en_prefix = Some 0, en_metric = Some 16\<rparr>],
          rk_auth_mode = [], rk_auth_key = []\<rparr>])"

subsection \<open>Sending updates\<close>

fun parse_redist :: "(string, int option) dict \<Rightarrow> ((ip \<times> int) \<times> int) list res" where
  "parse_redist [] = Inr []"
| "parse_redist ((s, mt) # ss) =
     (case split_on (CHR ''/'') s of
        [a, p] \<Rightarrow> (case py_int p of
            None \<Rightarrow> Inl ValueError
          | Some n \<Rightarrow> res_bind (parse_redist ss) (\<lambda>r. Inr (((a, n), case mt of None \<Rightarrow> 1 | Some x \<Rightarrow> x) # r)))
      | _ \<Rightarrow> parse_redist ss)"

type_synonym adv = "(ip \<times> int) \<times> int"

definition table_entries :: "dev \<Rightarrow> rip_route list \<Rightarrow> adv list" where
  "table_entries peer t = List.map (\<lambda>r. (route_dest r, rt_metric r))
     (filter (\<lambda>r. rt_from r \<noteq> ''direct'' \<and> rt_from r \<noteq> peer \<and> rt_metric r < 16) t)"

definition entries_for :: "rip_proc \<Rightarrow> dev \<Rightarrow> adv list res" where
  "entries_for n peer =
     res_bind (parse_nets (rn_networks n)) (\<lambda>ks.
     res_bind (parse_redist (rn_redistributed n)) (\<lambda>rs.
       Inr (List.map (\<lambda>k. (k, 0)) ks @ rs @ table_entries peer (rn_table n))))"

definition rip_sends_to :: "l2env \<Rightarrow> vnet \<Rightarrow> rip \<Rightarrow> dev \<Rightarrow> dev \<Rightarrow> bool" where
  "rip_sends_to e v s d peer \<longleftrightarrow>
     \<not> (down_interfaces v d \<noteq> [] \<and>
        (case dget (interface_links v d) peer of None \<Rightarrow> False | Some i \<Rightarrow> i \<noteq> [] \<and> i \<in> set (down_interfaces v d))) \<and>
     (peer \<in> set (resolve_static_neighbor_devices s (address_book e) d) \<or> shares_segment e v d peer)"

definition update_packet :: "dev \<Rightarrow> rip_proc \<Rightarrow> adv list \<Rightarrow> rip_packet" where
  "update_packet d n as = \<lparr>rk_command = ''response'', rk_version = rn_version n, rk_src = d,
     rk_src_host = rn_hostname n,
     rk_entries = List.map (\<lambda>(k, mt). \<lparr>en_network = Some (fst k), en_prefix = Some (snd k), en_metric = Some mt\<rparr>) as,
     rk_auth_mode = rn_auth_mode n, rk_auth_key = rn_auth_key n\<rparr>"

definition peer_update :: "filter_engine \<Rightarrow> rip \<Rightarrow> dev \<Rightarrow> rip_proc \<Rightarrow> dev \<Rightarrow> rip_out list res" where
  "peer_update fe s d n peer =
     res_bind (entries_for n peer) (\<lambda>as.
       let as' = (if as = [] then [] else filter_routes fe d ''rip'' ''out'' fst as)
       in Inr (if as' \<noteq> [] \<and> (case dget s peer of None \<Rightarrow> False | Some pn \<Rightarrow> rn_enabled pn)
               then [ToPeer peer (update_packet d n as')] else []))"

definition send_update :: "filter_engine \<Rightarrow> l2env \<Rightarrow> vnet \<Rightarrow> rip \<Rightarrow> dev \<Rightarrow> rip_out list res" where
  "send_update fe e v s d =
     (case dget s d of
        None \<Rightarrow> Inr []
      | Some n \<Rightarrow>
          if \<not> rn_enabled n then Inr []
          else res_bind (res_map (peer_update fe s d n) (filter (rip_sends_to e v s d) (get_neighbors v d)))
                 (\<lambda>os. Inr (concat os)))"

subsection \<open>Receiving\<close>

fun peer_ip_scan :: "(int \<times> int) list \<Rightarrow> dev \<Rightarrow> (ip \<times> int) list \<Rightarrow> ip" where
  "peer_ip_scan recv src [] = src"
| "peer_ip_scan recv src ((a, p) # rest) =
     (case netmask p of
        Inl _ \<Rightarrow> src
      | Inr m \<Rightarrow> if (ip_to_int a AND m, p) \<in> set recv \<and> a \<noteq> src then a else peer_ip_scan recv src rest)"

definition record_peer :: "rat \<Rightarrow> (dev, device_info) dict \<Rightarrow> dev \<Rightarrow> rip_packet \<Rightarrow> rip_proc \<Rightarrow> rip_proc" where
  "record_peer now book d pk n =
     (if rk_src pk = [] then n
      else n\<lparr>rn_peers := dset (rn_peers n) (rk_src pk)
        \<lparr>rp_hostname = rk_src_host pk,
         rp_ip = peer_ip_scan (get_device_networks book d) (rk_src pk) (ips_of book (rk_src pk)),
         rp_seen = now, rp_routes = length (rk_entries pk)\<rparr>\<rparr>)"

text \<open>The value of \<open>min(metric + 1, 16)\<close>, the metric being 1 when the entry has none.\<close>

definition hop_metric :: "rip_entry \<Rightarrow> int" where
  "hop_metric en = min ((case en_metric en of None \<Rightarrow> 1 | Some x \<Rightarrow> x) + 1) 16"

definition entry_prefix :: "rip_entry \<Rightarrow> int" where
  "entry_prefix en = (case en_prefix en of None \<Rightarrow> 24 | Some p \<Rightarrow> p)"

definition accepted :: "filter_engine \<Rightarrow> dev \<Rightarrow> rip_entry \<Rightarrow> bool" where
  "accepted fe d en \<longleftrightarrow> truthy (en_network en) \<and> en_network en \<noteq> Some ''0.0.0.0'' \<and>
     check_prefix_list fe d (dget_or (distribute_lists fe d) (''rip'', ''in'') []) (the (en_network en)) (entry_prefix en)"

definition bellman_ford :: "rat \<Rightarrow> dev \<Rightarrow> string \<Rightarrow> ip \<Rightarrow> int \<Rightarrow> int \<Rightarrow> rip_proc \<Rightarrow> rip_proc \<times> bool \<times> bool" where
  "bellman_ford now src host net prefix mt n =
     (if mt \<ge> 16 then
        (let poisoned = (\<lambda>r. route_dest r = (net, prefix) \<and> rt_from r = src)
         in if \<exists>r\<in>set (rn_table n). poisoned r
            then (n\<lparr>rn_table := remove_first poisoned (rn_table n)\<rparr>, True, False) else (n, False, False))
      else case find_route (rn_table n) net prefix of
        None \<Rightarrow> (add_route n \<lparr>rt_network = net, rt_prefix = prefix, rt_metric = mt, rt_next_hop = src,
            rt_from = src, rt_from_host = host, rt_timestamp = now, rt_state = ''valid''\<rparr>, True, True)
      | Some ex \<Rightarrow>
          if src = rt_from ex then
            (reset_expire (n\<lparr>rn_table := modify_route (\<lambda>r. r\<lparr>rt_metric := mt, rt_timestamp := now\<rparr>) (net, prefix) (rn_table n)\<rparr>)
               net prefix, rt_metric ex \<noteq> mt, False)
          else if mt < rt_metric ex then
            (reset_expire (n\<lparr>rn_table := modify_route (\<lambda>r. r\<lparr>rt_metric := mt, rt_from := src,
                 rt_from_host := host, rt_next_hop := src, rt_timestamp := now\<rparr>) (net, prefix) (rn_table n)\<rparr>)
               net prefix, True, True)
          else (n, False, False))"

fun receive_entries :: "filter_engine \<Rightarrow> rat \<Rightarrow> dev \<Rightarrow> rip_packet \<Rightarrow> rip_entry list \<Rightarrow> rip_proc \<Rightarrow>
    rip_proc \<times> bool \<times> rip_out list" where
  "receive_entries fe now d pk [] n = (n, False, [])"
| "receive_entries fe now d pk (en # ens) n =
     (if \<not> accepted fe d en then receive_entries fe now d pk ens n
      else let net = the (en_network en); p = entry_prefix en; mt = hop_metric en
           in case bellman_ford now (rk_src pk) (rk_src_host pk) net p mt n of
             (n', ch, learned) \<Rightarrow>
               (case receive_entries fe now d pk ens n' of
                  (n2, ch2, out) \<Rightarrow> (n2, ch \<or> ch2,
                    (if learned then [Log d (LogLearned net p mt (rk_src_host pk))] else []) @ out)))"

definition receive :: "filter_engine \<Rightarrow> l2env \<Rightarrow> vnet \<Rightarrow> rat \<Rightarrow> rip \<Rightarrow> dev \<Rightarrow> rip_packet \<Rightarrow> (rip \<times> rip_out list) res" where
  "receive fe e v now s d pk =
     (case dget s d of
        None \<Rightarrow> Inr (s, [])
      | Some n \<Rightarrow>
          if \<not> rn_enabled n then Inr (s, [])
          else if rk_command pk = ''request'' then res_bind (send_update fe e v s d) (\<lambda>out. Inr (s, out))
          else if rn_auth_key n \<noteq> [] \<and> rk_auth_key pk \<noteq> rn_auth_key n then
            Inr (s, [Log d (LogAuth (rn_auth_mode n) (rk_src_host pk))])
          else case receive_entries fe now d pk (rk_entries pk) (record_peer now (address_book e) d pk n) of
            (n', changed, out) \<Rightarrow>
              Inr (dset s d n', out @ (if changed then [PushTable d (rn_table n'), TriggerUpdate d] else [])))"

subsection \<open>Expiry\<close>

text \<open>The timeout of a route's timer: the metric becomes infinite and the task sleeps on; a route that
  is gone, or already at 16, ends it. When the update raises, the metric stays at 16 and the task is over,
  so that the route is never collected.\<close>

definition fire_timeout :: "filter_engine \<Rightarrow> l2env \<Rightarrow> vnet \<Rightarrow> rip \<Rightarrow> dev \<Rightarrow> ip \<Rightarrow> int \<Rightarrow> rip \<times> rip_out list \<times> pyerr option" where
  "fire_timeout fe e v s d net prefix =
     (case dget s d of
        None \<Rightarrow> (s, [], None)
      | Some n \<Rightarrow>
          if dget (rn_expire n) (dest_name net prefix) \<noteq> Some TimeoutSleep then (s, [], None)
          else case find_route (rn_table n) net prefix of
            Some r \<Rightarrow>
              if rt_metric r < 16 then
                (let n' = n\<lparr>rn_table := modify_route (\<lambda>r. r\<lparr>rt_metric := 16, rt_state := ''garbage''\<rparr>) (net, prefix) (rn_table n)\<rparr>;
                     sleep = (\<lambda>t. dset s d (n'\<lparr>rn_expire := dset (rn_expire n) (dest_name net prefix) t\<rparr>));
                     out = [Log d (LogExpired net prefix), PushTable d (rn_table n')]
                 in case send_update fe e v (sleep GarbageSleep) d of
                      Inl x \<Rightarrow> (sleep CancelledTask, out, Some x)
                    | Inr upd \<Rightarrow> (sleep GarbageSleep, out @ upd, None))
              else (dset s d (n\<lparr>rn_expire := dpop (rn_expire n) (dest_name net prefix)\<rparr>), [], None)
          | None \<Rightarrow> (dset s d (n\<lparr>rn_expire := dpop (rn_expire n) (dest_name net prefix)\<rparr>), [], None))"

definition fire_garbage :: "rip \<Rightarrow> dev \<Rightarrow> ip \<Rightarrow> int \<Rightarrow> rip \<times> rip_out list" where
  "fire_garbage s d net prefix =
     (case dget s d of
        None \<Rightarrow> (s, [])
      | Some n \<Rightarrow>
          if dget (rn_expire n) (dest_name net prefix) \<noteq> Some GarbageSleep then (s, [])
          else let here = (\<lambda>r. route_dest r = (net, prefix));
                   t' = remove_first here (rn_table n)
               in (dset s d (n\<lparr>rn_table := t', rn_expire := dpop (rn_expire n) (dest_name net prefix)\<rparr>),
                   if \<exists>r\<in>set (rn_table n). here r then [PushTable d t'] else []))"

definition get_table :: "rip \<Rightarrow> dev \<Rightarrow> rip_route list" where
  "get_table s d = (case dget s d of None \<Rightarrow> [] | Some n \<Rightarrow> rn_table n)"

subsection \<open>Lookups after changes of the table\<close>

definition view :: "rip_route list \<Rightarrow> ip \<times> int \<Rightarrow> (int \<times> dev) option" where
  "view t k = map_option (\<lambda>r. (rt_metric r, rt_from r)) (find (\<lambda>r. route_dest r = k) t)"

lemma find_route_dest: "find_route t net p = find (\<lambda>r. route_dest r = (net, p)) t"
  by (simp add: find_route_def route_dest_def)

lemma view_store: "view (store_route r t) = (view t)(route_dest r \<mapsto> (rt_metric r, rt_from r))"
proof
  fix k
  show "view (store_route r t) k = ((view t)(route_dest r \<mapsto> (rt_metric r, rt_from r))) k"
    by (induction r t rule: store_route.induct) (auto simp: view_def)
qed

lemma view_modify:
  assumes "\<And>r. route_dest (f r) = route_dest r"
  shows "view (modify_route f k t) k' =
     (if k' = k then map_option (\<lambda>r. (rt_metric (f r), rt_from (f r))) (find (\<lambda>r. route_dest r = k) t) else view t k')"
  using assms by (induction f k t rule: modify_route.induct) (auto simp: view_def)

lemma view_absent: "k \<notin> route_dest ` set t \<Longrightarrow> view t k = None"
  by (induction t) (auto simp: view_def)

lemma find_same_dest:
  "distinct (List.map route_dest t) \<Longrightarrow> r \<in> set t \<Longrightarrow> find (\<lambda>x. route_dest x = route_dest r) t = Some r"
  by (induction t) (auto simp: image_iff)

lemma view_remove_at:
  assumes "distinct (List.map route_dest t)" "\<And>r. q r \<Longrightarrow> route_dest r = k" "\<exists>r\<in>set t. q r"
  shows "view (remove_first q t) k' = (if k' = k then None else view t k')"
  using assms
proof (induction t)
  case (Cons x t)
  show ?case
  proof (cases "q x")
    case True
    then have "route_dest x = k" using Cons.prems(2) by simp
    with True Cons.prems(1) view_absent [of k t] show ?thesis by (auto simp: view_def)
  next
    case False
    with Cons.prems(3) have ex: "\<exists>r\<in>set t. q r" by auto
    then obtain r where "r \<in> set t" "q r" by blast
    then have "route_dest x \<noteq> k" using Cons.prems(1,2) by (metis distinct.simps(2) image_eqI list.map(2) set_map)
    moreover have "view (remove_first q t) k' = (if k' = k then None else view t k')"
      using Cons.prems(1) ex by (intro Cons.IH Cons.prems(2)) auto
    ultimately show ?thesis using False by (cases "k' = k") (simp_all add: view_def)
  qed
qed simp

lemma view_remove:
  assumes "distinct (List.map route_dest t)" "\<And>r. q r \<Longrightarrow> route_dest r = k" "\<exists>r\<in>set t. q r"
  shows "view (remove_first q t) = (view t)(k := None)"
  using view_remove_at [OF assms] by (auto simp: fun_eq_iff)

lemma dest_store: "set (List.map route_dest (store_route r t)) = insert (route_dest r) (route_dest ` set t)"
  by (induction r t rule: store_route.induct) auto

lemma distinct_store: "distinct (List.map route_dest t) \<Longrightarrow> distinct (List.map route_dest (store_route r t))"
proof (induction r t rule: store_route.induct)
  case (2 r x xs)
  then show ?case using dest_store [of r xs] by auto
qed simp

lemma map_modify: "(\<And>r. route_dest (f r) = route_dest r) \<Longrightarrow> List.map route_dest (modify_route f k t) = List.map route_dest t"
  by (induction f k t rule: modify_route.induct) auto

lemma set_remove_first: "set (remove_first q t) \<subseteq> set t"
  by (induction t) auto

lemma distinct_remove_first: "distinct (List.map f t) \<Longrightarrow> distinct (List.map f (remove_first q t))"
  using set_remove_first by (induction t) fastforce+

lemma set_store: "set (store_route r t) \<subseteq> insert r (set t)"
  by (induction r t rule: store_route.induct) auto

lemma set_modify: "set (modify_route f k t) \<subseteq> set t \<union> f ` {r \<in> set t. route_dest r = k}"
  by (induction f k t rule: modify_route.induct) auto

subsection \<open>The distance-vector rule\<close>

text \<open>The rule on a map from destinations to a metric and the neighbour it comes from. An entry of the packet
  says what the neighbour offers now: what it said before is forgotten, and of the two that remain the nearer
  one is kept, the old one if they are as near. A metric of 16 or more is no offer.\<close>

definition from_others :: "dev \<Rightarrow> (int \<times> dev) option \<Rightarrow> (int \<times> dev) option" where
  "from_others src old = (case old of None \<Rightarrow> None | Some (m, from) \<Rightarrow> if from = src then None else old)"

definition nearer :: "(int \<times> dev) option \<Rightarrow> (int \<times> dev) option \<Rightarrow> (int \<times> dev) option" where
  "nearer old new =
     (case (old, new) of
        (None, _) \<Rightarrow> new
      | (_, None) \<Rightarrow> old
      | (Some (m0, _), Some (m, _)) \<Rightarrow> if m < m0 then new else old)"

definition offered :: "int \<Rightarrow> dev \<Rightarrow> (int \<times> dev) option" where
  "offered mt src = (if mt < 16 then Some (mt, src) else None)"

definition distance_vector ::
  "filter_engine \<Rightarrow> dev \<Rightarrow> dev \<Rightarrow> rip_entry \<Rightarrow> (ip \<times> int \<Rightarrow> (int \<times> dev) option) \<Rightarrow> ip \<times> int \<Rightarrow> (int \<times> dev) option"
where
  "distance_vector fe d src en t =
     (case en_network en of
        None \<Rightarrow> t
      | Some net \<Rightarrow>
          let p = (case en_prefix en of None \<Rightarrow> 24 | Some p \<Rightarrow> p);
              mt = (case en_metric en of None \<Rightarrow> 1 | Some m \<Rightarrow> m) + 1;
              lst = (case dget (distribute_lists fe d) (''rip'', ''in'') of None \<Rightarrow> [] | Some name \<Rightarrow> name)
          in if net = [] \<or> net = ''0.0.0.0'' \<or> \<not> check_prefix_list fe d lst net p then t
             else t((net, p) := nearer (from_others src (t (net, p))) (offered mt src)))"

lemma view_Some: "view t k = Some (m0, from) \<Longrightarrow> \<exists>r\<in>set t. route_dest r = k \<and> rt_metric r = m0 \<and> rt_from r = from"
  by (auto simp: view_def dest: find_SomeD)

lemma bellman_ford_view:
  assumes "distinct (List.map route_dest (rn_table n))"
  shows "view (rn_table (fst (bellman_ford now src host net p mt n))) =
         (view (rn_table n))((net, p) := nearer (from_others src (view (rn_table n) (net, p))) (offered mt src))"
proof (cases "mt \<ge> 16")
  case True
  let ?q = "\<lambda>r. route_dest r = (net, p) \<and> rt_from r = src"
  show ?thesis
  proof (cases "\<exists>r\<in>set (rn_table n). ?q r")
    case ex: True
    then obtain r where "r \<in> set (rn_table n)" "?q r" by blast
    with assms have "view (rn_table n) (net, p) = Some (rt_metric r, src)"
      using find_same_dest [of "rn_table n" r] by (auto simp: view_def)
    moreover have "view (remove_first ?q (rn_table n)) = (view (rn_table n))((net, p) := None)"
      using assms ex by (intro view_remove) auto
    ultimately show ?thesis using True ex by (simp add: bellman_ford_def nearer_def from_others_def offered_def Let_def)
  next
    case False
    then have "nearer (from_others src (view (rn_table n) (net, p))) (offered mt src) = view (rn_table n) (net, p)"
      using True view_Some [of "rn_table n" "(net, p)"]
      by (auto simp: nearer_def from_others_def offered_def split: option.splits)
    with True False show ?thesis by (auto simp: bellman_ford_def Let_def)
  qed
next
  case False
  show ?thesis
  proof (cases "find_route (rn_table n) net p")
    case None
    then have "view (rn_table n) (net, p) = None" by (simp add: find_route_dest view_def)
    with None False show ?thesis
      by (simp add: Let_def bellman_ford_def add_route_def reset_expire_def view_store nearer_def from_others_def offered_def route_dest_def)
  next
    case (Some r)
    then have v: "view (rn_table n) (net, p) = Some (rt_metric r, rt_from r)"
      "find (\<lambda>r. route_dest r = (net, p)) (rn_table n) = Some r" by (simp_all add: find_route_dest view_def)
    show ?thesis
      using Some v False
      by (auto simp: bellman_ford_def reset_expire_def nearer_def from_others_def offered_def view_modify route_dest_def fun_eq_iff)
  qed
qed

lemma bellman_ford_quiet:
  "\<not> fst (snd (bellman_ford now src host net p mt n)) \<Longrightarrow>
     view (rn_table (fst (bellman_ford now src host net p mt n))) = view (rn_table n)"
proof (cases "mt \<ge> 16")
  case False
  assume quiet: "\<not> fst (snd (bellman_ford now src host net p mt n))"
  show ?thesis
  proof (cases "find_route (rn_table n) net p")
    case (Some r)
    then have "view (rn_table n) (net, p) = Some (rt_metric r, rt_from r)"
      "find (\<lambda>r. route_dest r = (net, p)) (rn_table n) = Some r" by (simp_all add: find_route_dest view_def)
    with quiet False Some show ?thesis
      by (auto simp: bellman_ford_def reset_expire_def view_modify route_dest_def fun_eq_iff split: if_splits)
  qed (use quiet False in \<open>simp add: bellman_ford_def\<close>)
qed (auto simp: bellman_ford_def Let_def split: if_splits)

lemma bellman_ford_distinct:
  "distinct (List.map route_dest (rn_table n)) \<Longrightarrow>
     distinct (List.map route_dest (rn_table (fst (bellman_ford now src host net p mt n))))"
  by (auto simp: bellman_ford_def Let_def reset_expire_def add_route_def distinct_store map_modify route_dest_def
      distinct_remove_first split: option.split)

lemma accepted_entry:
  "distance_vector fe d src en t =
     (if accepted fe d en
      then t((the (en_network en), entry_prefix en) :=
             nearer (from_others src (t (the (en_network en), entry_prefix en))) (offered (hop_metric en) src))
      else t)"
proof -
  have "offered (hop_metric en) src = offered ((case en_metric en of None \<Rightarrow> 1 | Some x \<Rightarrow> x) + 1) src"
    by (auto simp: offered_def hop_metric_def)
  then show ?thesis
    by (auto simp: distance_vector_def accepted_def entry_prefix_def truthy_def dget_or_def Let_def split: option.splits)
qed

lemma receive_entries_view:
  assumes "distinct (List.map route_dest (rn_table n))"
  shows "view (rn_table (fst (receive_entries fe now d pk ens n))) = fold (distance_vector fe d (rk_src pk)) ens (view (rn_table n)) \<and>
    (\<not> fst (snd (receive_entries fe now d pk ens n)) \<longrightarrow>
       view (rn_table (fst (receive_entries fe now d pk ens n))) = view (rn_table n))"
  using assms
proof (induction ens arbitrary: n)
  case (Cons en ens)
  show ?case
  proof (cases "accepted fe d en")
    case False
    with Cons.IH [OF Cons.prems] show ?thesis by (auto simp: accepted_entry [of fe d "rk_src pk" en])
  next
    case True
    let ?b = "bellman_ford now (rk_src pk) (rk_src_host pk) (the (en_network en)) (entry_prefix en) (hop_metric en) n"
    obtain n' ch l where b: "?b = (n', ch, l)" by (cases ?b)
    have "distinct (List.map route_dest (rn_table n'))" using bellman_ford_distinct [OF Cons.prems] b by (metis fst_conv)
    note rest = Cons.IH [OF this]
    have "view (rn_table n') = distance_vector fe d (rk_src pk) en (view (rn_table n))"
      using bellman_ford_view [OF Cons.prems, of now "rk_src pk" "rk_src_host pk" "the (en_network en)" "entry_prefix en" "hop_metric en"]
        b True by (simp add: accepted_entry [of fe d "rk_src pk" en])
    moreover have "\<not> ch \<longrightarrow> view (rn_table n') = view (rn_table n)"
      using bellman_ford_quiet [of now "rk_src pk" "rk_src_host pk" "the (en_network en)" "entry_prefix en" "hop_metric en" n] b by auto
    ultimately show ?thesis using rest True b by (auto simp: Let_def split: prod.splits)
  qed
qed simp

definition kept :: "rip \<Rightarrow> (rip \<times> 'o) res \<Rightarrow> rip" where
  "kept s r = (case r of Inl _ \<Rightarrow> s | Inr (s', _) \<Rightarrow> s')"

definition takes_in :: "rip \<Rightarrow> dev \<Rightarrow> rip_packet \<Rightarrow> bool" where
  "takes_in s d pk \<longleftrightarrow>
     (case dget s d of
        None \<Rightarrow> False
      | Some n \<Rightarrow> rn_enabled n \<and> rk_command pk \<noteq> ''request'' \<and> (rn_auth_key n = [] \<or> rk_auth_key pk = rn_auth_key n))"

lemma reception_view:
  assumes "distinct (List.map route_dest (get_table s d))"
  shows "view (get_table (kept s (receive fe e v now s d pk)) d) =
      (if takes_in s d pk then fold (distance_vector fe d (rk_src pk)) (rk_entries pk) (view (get_table s d))
       else view (get_table s d)) \<and>
    (view (get_table (kept s (receive fe e v now s d pk)) d) = view (get_table s d) \<or>
     (\<exists>s' out. receive fe e v now s d pk = Inr (s', out) \<and> TriggerUpdate d \<in> set out)) \<and>
    (\<forall>d'. d' = d \<or> dget (kept s (receive fe e v now s d pk)) d' = dget s d')"
proof (cases "takes_in s d pk")
  case True
  then obtain n where n: "dget s d = Some n" "rn_enabled n" "rk_command pk \<noteq> ''request''"
    "rn_auth_key n = [] \<or> rk_auth_key pk = rn_auth_key n" by (auto simp: takes_in_def split: option.splits)
  let ?n = "record_peer now (address_book e) d pk n"
  obtain n' ch out where r: "receive_entries fe now d pk (rk_entries pk) ?n = (n', ch, out)"
    by (cases "receive_entries fe now d pk (rk_entries pk) ?n")
  have t: "rn_table ?n = get_table s d" using n(1) by (simp add: record_peer_def get_table_def)
  have rec: "receive fe e v now s d pk =
      Inr (dset s d n', out @ (if ch then [PushTable d (rn_table n'), TriggerUpdate d] else []))"
    using n r by (auto simp: receive_def)
  show ?thesis
    using receive_entries_view [of ?n fe now d pk "rk_entries pk"] assms True r t n(1)
    unfolding rec by (cases ch) (auto simp: kept_def get_table_def)
next
  case False
  then have "kept s (receive fe e v now s d pk) = s"
    by (cases "send_update fe e v s d") (auto simp: takes_in_def receive_def kept_def split: option.split)
  with False show ?thesis by simp
qed

text \<open>C18. A received packet does to the table what the distance-vector rule says, entry after entry: the
  entries that have a network and pass the inbound distribute list are offers of their metric plus one, 16
  or more being none; an offer replaces what the sender offered before, and what others offered only when it
  is strictly nearer. A packet whose key does not fit, a request, and any packet to a process that is not
  running change no table. When the packet changes the table a triggered update is scheduled, and no other
  device's state changes.\<close>

theorem rip_reception_refines:
  assumes "distinct (List.map route_dest (get_table s d))"
  shows "view (get_table (kept s (receive fe e v now s d pk)) d) =
      (if takes_in s d pk then fold (distance_vector fe d (rk_src pk)) (rk_entries pk) (view (get_table s d))
       else view (get_table s d)) \<and>
    (view (get_table (kept s (receive fe e v now s d pk)) d) = view (get_table s d) \<or>
     (\<exists>s' out. receive fe e v now s d pk = Inr (s', out) \<and> TriggerUpdate d \<in> set out)) \<and>
    (\<forall>d'. d' = d \<or> dget (kept s (receive fe e v now s d pk)) d' = dget s d')"
  by (rule reception_view [OF assms])

definition rip_example :: rip where
  "rip_example = [(''r1'', (new_proc ''r1'')\<lparr>rn_enabled := True, rn_table :=
     [\<lparr>rt_network = ''10.2.0.0'', rt_prefix = 16, rt_metric = 3, rt_next_hop = ''r2'', rt_from = ''r2'',
       rt_from_host = ''R2'', rt_timestamp = 0, rt_state = ''valid''\<rparr>]\<rparr>)]"

definition rip_says :: "dev \<Rightarrow> int \<Rightarrow> rip_packet" where
  "rip_says src mt = \<lparr>rk_command = ''response'', rk_version = 2, rk_src = src, rk_src_host = src,
     rk_entries = [\<lparr>en_network = Some ''10.2.0.0'', en_prefix = Some 16, en_metric = Some mt\<rparr>],
     rk_auth_mode = [], rk_auth_key = []\<rparr>"

definition no_env :: l2env where
  "no_env = \<lparr>vlan_ports = (\<lambda>_. []), address_book = [], ospf_enabled = (\<lambda>_. False), rip_node = (\<lambda>_. True),
     eigrp_enabled = (\<lambda>_. False)\<rparr>"

definition no_filters :: filter_engine where
  "no_filters = \<lparr>prefix_lists = (\<lambda>_. []), distribute_lists = (\<lambda>_. []), redist_filters = (\<lambda>_. [])\<rparr>"

theorem rip_reception_refines_witness:
  "view (get_table (kept rip_example (receive no_filters no_env vnet_init 1 rip_example ''r1'' (rip_says ''r3'' 1))) ''r1'')
     (''10.2.0.0'', 16) = Some (2, ''r3'') \<and>
   view (get_table (kept rip_example (receive no_filters no_env vnet_init 1 rip_example ''r1'' (rip_says ''r3'' 15))) ''r1'')
     (''10.2.0.0'', 16) = Some (3, ''r2'') \<and>
   view (get_table (kept rip_example (receive no_filters no_env vnet_init 1 rip_example ''r1'' (rip_says ''r2'' 15))) ''r1'')
     (''10.2.0.0'', 16) = None"
proof -
  have d: "distinct (List.map route_dest (get_table rip_example ''r1''))" by code_simp
  have v: "view (get_table (kept rip_example (receive no_filters no_env vnet_init 1 rip_example ''r1'' (rip_says src mt))) ''r1'') =
      fold (distance_vector no_filters ''r1'' src) (rk_entries (rip_says src mt)) (view (get_table rip_example ''r1''))" for src mt
  proof -
    have "takes_in rip_example ''r1'' (rip_says src mt)"
      by (simp add: takes_in_def rip_example_def rip_says_def new_proc_def)
    then show ?thesis
      using rip_reception_refines [OF d, of no_filters no_env vnet_init 1 "rip_says src mt"] by (simp add: rip_says_def)
  qed
  have o: "view (get_table rip_example ''r1'') (''10.2.0.0'', 16) = Some (3, ''r2'')" by code_simp
  show ?thesis
    unfolding v by (simp add: rip_says_def distance_vector_def no_filters_def check_prefix_list_def o from_others_def
        nearer_def offered_def)
qed

subsection \<open>Split horizon\<close>

definition adv_entry :: "adv \<Rightarrow> rip_entry" where
  "adv_entry a = \<lparr>en_network = Some (fst (fst a)), en_prefix = Some (snd (fst a)), en_metric = Some (snd a)\<rparr>"

text \<open>What a neighbour is to be told: connected networks at metric 0, redistributed routes, and the learned
  routes with a finite metric that were not learned from that neighbour.\<close>

definition known_for :: "rip_proc \<Rightarrow> dev \<Rightarrow> adv \<Rightarrow> bool" where
  "known_for n peer a \<longleftrightarrow>
     (case parse_nets (rn_networks n) of Inl _ \<Rightarrow> False | Inr ks \<Rightarrow> fst a \<in> set ks \<and> snd a = 0) \<or>
     (case parse_redist (rn_redistributed n) of Inl _ \<Rightarrow> False | Inr rs \<Rightarrow> a \<in> set rs) \<or>
     (\<exists>r\<in>set (rn_table n). a = (route_dest r, rt_metric r) \<and> rt_from r \<noteq> ''direct'' \<and> rt_from r \<noteq> peer \<and> rt_metric r < 16)"

definition let_out :: "filter_engine \<Rightarrow> dev \<Rightarrow> ip \<times> int \<Rightarrow> bool" where
  "let_out fe d k \<longleftrightarrow>
     (case dget (distribute_lists fe d) (''rip'', ''out'') of
        None \<Rightarrow> True
      | Some name \<Rightarrow> name = [] \<or> check_prefix_list fe d name (fst k) (snd k))"

definition told :: "filter_engine \<Rightarrow> rip \<Rightarrow> dev \<Rightarrow> dev \<Rightarrow> adv set" where
  "told fe s d peer = {a. known_for (proc_of s d) peer a \<and> let_out fe d (fst a)}"

definition rip_runs :: "rip \<Rightarrow> dev \<Rightarrow> bool" where
  "rip_runs s d \<longleftrightarrow> (\<exists>n. dget s d = Some n \<and> rn_enabled n)"

lemma entries_for_set: "entries_for n peer = Inr as \<Longrightarrow> set as = {a. known_for n peer a}"
  by (cases "parse_nets (rn_networks n)"; cases "parse_redist (rn_redistributed n)")
     (fastforce simp: entries_for_def known_for_def table_entries_def)+

lemma filter_routes_out: "set (filter_routes fe d ''rip'' ''out'' fst as) = {a \<in> set as. let_out fe d (fst a)}"
  by (auto simp: filter_routes_def let_out_def split: option.split)

lemma peer_update_told:
  assumes "peer_update fe s d (proc_of s d) peer = Inr outs"
  shows "\<exists>as. set as = told fe s d peer \<and>
    outs = (if as \<noteq> [] \<and> rip_runs s peer then [ToPeer peer (update_packet d (proc_of s d) as)] else [])"
proof -
  from assms obtain as where as: "entries_for (proc_of s d) peer = Inr as"
    by (auto simp: peer_update_def res_bind_Inr)
  let ?as = "filter_routes fe d ''rip'' ''out'' fst as"
  have "set ?as = told fe s d peer" by (auto simp: filter_routes_out entries_for_set [OF as] told_def)
  moreover have "filter_routes fe d ''rip'' ''out'' fst [] = []" by (simp add: filter_routes_def split: option.split)
  then have "outs = (if ?as \<noteq> [] \<and> rip_runs s peer then [ToPeer peer (update_packet d (proc_of s d) ?as)] else [])"
    using assms as by (auto simp: peer_update_def Let_def rip_runs_def split: option.splits)
  ultimately show ?thesis by blast
qed

lemma update_entries: "rk_entries (update_packet d n as) = List.map adv_entry as"
  by (auto simp: update_packet_def adv_entry_def)

lemma res_map_each: "res_map f xs = Inr ys \<Longrightarrow> x \<in> set xs \<Longrightarrow> \<exists>y\<in>set ys. f x = Inr y"
proof (induction xs arbitrary: ys)
  case (Cons a xs)
  then obtain z zs where "f a = Inr z" "res_map f xs = Inr zs" "ys = z # zs"
    by (cases "f a"; cases "res_map f xs") auto
  with Cons show ?case by auto
qed simp

lemma exact_update:
  assumes "send_update fe e v s d = Inr outs"
  shows "(\<forall>out\<in>set outs. \<exists>peer pk. out = ToPeer peer pk \<and> rk_entries pk \<noteq> [] \<and> set (rk_entries pk) = adv_entry ` told fe s d peer) \<and>
    (\<forall>peer. (\<exists>pk. ToPeer peer pk \<in> set outs) \<longleftrightarrow>
       rip_runs s d \<and> peer \<in> set (get_neighbors v d) \<and> rip_sends_to e v s d peer \<and> rip_runs s peer \<and> told fe s d peer \<noteq> {})"
proof (cases "rip_runs s d")
  case False
  then have "outs = []" using assms by (auto simp: send_update_def rip_runs_def split: option.splits)
  with False show ?thesis by simp
next
  case True
  then obtain n where n: "dget s d = Some n" "rn_enabled n" by (auto simp: rip_runs_def)
  then have pn: "proc_of s d = n" by (simp add: proc_of_def dget_or_def)
  let ?ps = "filter (rip_sends_to e v s d) (get_neighbors v d)"
  obtain os where os: "res_map (peer_update fe s d n) ?ps = Inr os" "outs = concat os"
    using assms n by (auto simp: send_update_def res_bind_Inr)
  have each: "\<exists>as. set as = told fe s d p \<and>
      o1 = (if as \<noteq> [] \<and> rip_runs s p then [ToPeer p (update_packet d n as)] else [])"
    if "peer_update fe s d n p = Inr o1" for p o1
    using peer_update_told [of fe s d p o1] that unfolding pn by blast
  have "\<exists>p\<in>set ?ps. peer_update fe s d n p = Inr o1" if "o1 \<in> set os" for o1
    using res_map_mem [OF os(1) that] .
  with each have from_peer: "\<exists>p\<in>set ?ps. \<exists>as. set as = told fe s d p \<and> as \<noteq> [] \<and> rip_runs s p \<and> out = ToPeer p (update_packet d n as)"
    if "out \<in> set outs" for out
    using that unfolding os(2) by fastforce
  have to_peer: "\<exists>pk. ToPeer p pk \<in> set outs" if p: "p \<in> set ?ps" "rip_runs s p" "told fe s d p \<noteq> {}" for p
  proof -
    obtain o1 where "o1 \<in> set os" "peer_update fe s d n p = Inr o1" using res_map_each [OF os(1) p(1)] by blast
    moreover from each [OF this(2)] obtain as where as: "set as = told fe s d p"
        "o1 = (if as \<noteq> [] \<and> rip_runs s p then [ToPeer p (update_packet d n as)] else [])" by blast
    moreover have "as \<noteq> []" using as(1) p(3) by auto
    ultimately have "ToPeer p (update_packet d n as) \<in> set o1" "o1 \<in> set os" using p(2) by simp_all
    then show ?thesis unfolding os(2) by auto
  qed
  show ?thesis
  proof (intro conjI allI ballI)
    fix out assume "out \<in> set outs"
    from from_peer [OF this] show "\<exists>peer pk. out = ToPeer peer pk \<and> rk_entries pk \<noteq> [] \<and> set (rk_entries pk) = adv_entry ` told fe s d peer"
      by (auto simp: update_entries)
  next
    fix p
    show "(\<exists>pk. ToPeer p pk \<in> set outs) \<longleftrightarrow>
       rip_runs s d \<and> p \<in> set (get_neighbors v d) \<and> rip_sends_to e v s d p \<and> rip_runs s p \<and> told fe s d p \<noteq> {}"
      using from_peer to_peer [of p] True by fastforce
  qed
qed



subsection \<open>The tables stay well formed\<close>

definition rip_route_ok :: "rip_route \<Rightarrow> bool" where
  "rip_route_ok r \<longleftrightarrow>
     (if rt_from r = ''direct'' then rt_next_hop r = ''0.0.0.0'' \<and> rt_metric r \<in> {0, 16}
      else rt_next_hop r = rt_from r \<and> 1 \<le> rt_metric r \<and> rt_metric r \<le> 16)"

text \<open>One route per destination, each with the property \<open>P\<close>.\<close>

definition table_ok :: "(rip_route \<Rightarrow> bool) \<Rightarrow> rip_route list \<Rightarrow> bool" where
  "table_ok P t \<longleftrightarrow> distinct (List.map route_dest t) \<and> list_all P t"

definition rip_ok :: "(rip_route \<Rightarrow> bool) \<Rightarrow> rip \<Rightarrow> bool" where
  "rip_ok P s \<longleftrightarrow> (\<forall>d n. dget s d = Some n \<longrightarrow> table_ok P (rn_table n))"

text \<open>Senders count metrics up from 0 and are devices.\<close>

definition packet_ok :: "rip_packet \<Rightarrow> bool" where
  "packet_ok pk \<longleftrightarrow> rk_src pk \<noteq> ''direct'' \<and>
     list_all (\<lambda>en. case en_metric en of None \<Rightarrow> True | Some m \<Rightarrow> 0 \<le> m) (rk_entries pk)"

lemma table_ok_store: "table_ok P t \<Longrightarrow> P r \<Longrightarrow> table_ok P (store_route r t)"
  using distinct_store [of t r] set_store [of r t] by (auto simp: table_ok_def list_all_iff)

lemma table_ok_modify:
  assumes "table_ok P t" "\<And>r. route_dest (f r) = route_dest r" "\<And>r. r \<in> set t \<Longrightarrow> route_dest r = k \<Longrightarrow> P r \<Longrightarrow> P (f r)"
  shows "table_ok P (modify_route f k t)"
  using assms map_modify [of f k t] set_modify [of f k t] by (auto simp: table_ok_def list_all_iff)

lemma table_ok_remove: "table_ok P t \<Longrightarrow> table_ok P (remove_first q t)"
  using distinct_remove_first [of route_dest t q] set_remove_first [of q t] by (auto simp: table_ok_def list_all_iff)

lemma table_ok_filter: "table_ok P t \<Longrightarrow> table_ok P (filter q t)"
  by (auto simp: table_ok_def list_all_iff distinct_map_filter)

lemma table_ok_Nil [simp]: "table_ok P []"
  by (simp add: table_ok_def)

lemma rip_ok_dset: "rip_ok P s \<Longrightarrow> table_ok P (rn_table n) \<Longrightarrow> rip_ok P (dset s d n)"
  by (auto simp: rip_ok_def)

lemma table_of: "rip_ok P s \<Longrightarrow> table_ok P (rn_table (proc_of s d))"
  by (cases "dget s d") (auto simp: rip_ok_def proc_of_def dget_or_def new_proc_def)

lemma rip_ok_upd: "rip_ok P s \<Longrightarrow> (\<And>n. rn_table (f n) = rn_table n) \<Longrightarrow> rip_ok P (upd_proc s d f)"
  by (simp add: upd_proc_def rip_ok_dset table_of)

datatype rip_op =
    AddNeighbor dev ip
  | RemoveNeighbor dev ip
  | SetAuth dev string string
  | Start rat dev string "string list" int
  | Stop dev
  | RipIfDown dev "dev list"
  | Receive filter_engine l2env vnet rat dev rip_packet
  | Timeout filter_engine l2env vnet dev ip int
  | Garbage dev ip int

fun rip_apply :: "rip_op \<Rightarrow> rip \<Rightarrow> rip" where
  "rip_apply (AddNeighbor d a) s = add_neighbor s d a"
| "rip_apply (RemoveNeighbor d a) s = remove_neighbor s d a"
| "rip_apply (SetAuth d md key) s = set_authentication s d md key"
| "rip_apply (Start now d host nets ver) s = fst (start now s d host nets ver)"
| "rip_apply (Stop d) s = fst (stop s d)"
| "rip_apply (RipIfDown d ps) s = fst (rip_interface_down s d ps)"
| "rip_apply (Receive fe e v now d pk) s = kept s (receive fe e v now s d pk)"
| "rip_apply (Timeout fe e v d net p) s = fst (fire_timeout fe e v s d net p)"
| "rip_apply (Garbage d net p) s = fst (fire_garbage s d net p)"

text \<open>The packets that an operation takes in.\<close>

definition takes :: "(rip_packet \<Rightarrow> bool) \<Rightarrow> rip_op \<Rightarrow> bool" where
  "takes Q op = (case op of Receive _ _ _ _ _ pk \<Rightarrow> Q pk | _ \<Rightarrow> True)"

text \<open>A property of routes that connected routes have, that the timeout keeps, and that the routes out of
  packets with the property \<open>Q\<close> have, holds of all tables.\<close>

locale route_property =
  fixes P :: "rip_route \<Rightarrow> bool" and Q :: "rip_packet \<Rightarrow> bool"
  assumes direct: "P (direct_route now k)"
    and timeout: "P r \<Longrightarrow> P (r\<lparr>rt_metric := 16, rt_state := ''garbage''\<rparr>)"
    and learned: "Q pk \<Longrightarrow> en \<in> set (rk_entries pk) \<Longrightarrow> hop_metric en < 16 \<Longrightarrow>
      rt_metric r = hop_metric en \<Longrightarrow> rt_from r = rk_src pk \<Longrightarrow> rt_next_hop r = rk_src pk \<Longrightarrow> P r"
    and again: "Q pk \<Longrightarrow> en \<in> set (rk_entries pk) \<Longrightarrow> hop_metric en < 16 \<Longrightarrow> P r \<Longrightarrow> rt_from r = rk_src pk \<Longrightarrow>
      P (r\<lparr>rt_metric := hop_metric en, rt_timestamp := now\<rparr>)"
begin

lemma bellman_ford_ok:
  assumes "table_ok P (rn_table n)" "Q pk" "en \<in> set (rk_entries pk)"
  shows "table_ok P (rn_table (fst (bellman_ford now (rk_src pk) host net p (hop_metric en) n)))"
proof (cases "hop_metric en \<ge> 16")
  case True
  then show ?thesis using assms(1) by (simp add: bellman_ford_def Let_def table_ok_remove)
next
  case False
  note new = learned [OF assms(2,3)]
  show ?thesis
  proof (cases "find_route (rn_table n) net p")
    case None
    have "table_ok P (store_route \<lparr>rt_network = net, rt_prefix = p, rt_metric = hop_metric en, rt_next_hop = rk_src pk,
        rt_from = rk_src pk, rt_from_host = host, rt_timestamp = now, rt_state = ''valid''\<rparr> (rn_table n))"
      using False by (intro table_ok_store assms(1) new) simp_all
    with None False show ?thesis by (auto simp: bellman_ford_def add_route_def reset_expire_def Let_def)
  next
    case (Some ex)
    have uniq: "r = ex" if "r \<in> set (rn_table n)" "route_dest r = (net, p)" for r
      using find_same_dest [OF _ that(1)] assms(1) Some that(2) by (simp add: table_ok_def find_route_dest)
    have "table_ok P (modify_route (\<lambda>r. r\<lparr>rt_metric := hop_metric en, rt_timestamp := now\<rparr>) (net, p) (rn_table n))"
      if "rk_src pk = rt_from ex"
      using that False again [OF assms(2,3)] uniq by (intro table_ok_modify assms(1)) (simp_all add: route_dest_def)
    moreover have "table_ok P (modify_route (\<lambda>r. r\<lparr>rt_metric := hop_metric en, rt_from := rk_src pk,
        rt_from_host := host, rt_next_hop := rk_src pk, rt_timestamp := now\<rparr>) (net, p) (rn_table n))"
      using False by (intro table_ok_modify assms(1) new) (simp_all add: route_dest_def)
    ultimately show ?thesis using False Some assms(1) by (simp add: bellman_ford_def reset_expire_def)
  qed
qed

lemma receive_entries_ok:
  "table_ok P (rn_table n) \<Longrightarrow> Q pk \<Longrightarrow> set ens \<subseteq> set (rk_entries pk) \<Longrightarrow>
     table_ok P (rn_table (fst (receive_entries fe now d pk ens n)))"
proof (induction ens arbitrary: n)
  case (Cons en ens)
  then have en: "en \<in> set (rk_entries pk)" "set ens \<subseteq> set (rk_entries pk)" by simp_all
  let ?b = "bellman_ford now (rk_src pk) (rk_src_host pk) (the (en_network en)) (entry_prefix en) (hop_metric en) n"
  obtain n' ch l where b: "?b = (n', ch, l)" by (cases ?b)
  then have "table_ok P (rn_table n')" using bellman_ford_ok [OF Cons.prems(1,2) en(1)] by (metis fst_conv)
  from Cons.IH [OF this Cons.prems(2) en(2)] Cons.IH [OF Cons.prems(1,2) en(2)] b show ?case
    by (auto simp: Let_def split: prod.splits)
qed simp

lemma add_networks_ok: "table_ok P (rn_table n) \<Longrightarrow> table_ok P (rn_table (fst (add_networks now nets n)))"
proof (induction now nets n rule: add_networks.induct)
  case (2 now s ss n)
  have "table_ok P (rn_table (add_route n (direct_route now k)))" for k
    using table_ok_store [OF "2.prems" direct] by (simp add: add_route_def direct_route_def Let_def)
  with 2 show ?case by (auto split: list.split option.split)
qed simp

lemma receive_ok: "rip_ok P s \<Longrightarrow> Q pk \<Longrightarrow> rip_ok P (kept s (receive fe e v now s d pk))"
proof (cases "dget s d")
  case (Some n)
  assume a: "rip_ok P s" "Q pk"
  have "table_ok P (rn_table (record_peer now (address_book e) d pk n))"
    using a(1) Some by (simp add: rip_ok_def record_peer_def)
  from receive_entries_ok [OF this a(2) subset_refl, of fe now d] show ?thesis using a(1) Some
    by (cases "send_update fe e v s d") (auto simp: receive_def kept_def intro: rip_ok_dset split: if_splits prod.splits)
qed (simp add: receive_def kept_def)

lemma timeout_ok: "rip_ok P s \<Longrightarrow> rip_ok P (fst (fire_timeout fe e v s d net p))"
proof (cases "dget s d")
  case (Some n)
  assume a: "rip_ok P s"
  have t: "table_ok P (rn_table n)" using a Some by (simp add: rip_ok_def)
  then have "table_ok P (modify_route (\<lambda>r. r\<lparr>rt_metric := 16, rt_state := ''garbage''\<rparr>) (net, p) (rn_table n))"
    using timeout by (intro table_ok_modify) (simp_all add: route_dest_def)
  with a t Some show ?thesis
    by (auto simp: fire_timeout_def Let_def intro!: rip_ok_dset split: option.split sum.split)
qed (simp add: fire_timeout_def)

lemma forget_peers_ok: "rip_ok P s \<Longrightarrow> rip_ok P (fold (forget_peer d) ps s)"
  by (induction ps arbitrary: s) (simp_all add: forget_peer_def Let_def rip_ok_upd)

lemma apply_ok: "rip_ok P s \<Longrightarrow> takes Q op \<Longrightarrow> rip_ok P (rip_apply op s)"
proof (cases op)
  case (Start now d host nets ver)
  let ?n = "(proc_of s d)\<lparr>rn_enabled := True, rn_version := ver, rn_hostname := host, rn_networks := nets, rn_table := []\<rparr>"
  have "table_ok P (rn_table (fst (add_networks now nets ?n)))" by (rule add_networks_ok) simp
  with Start show "rip_ok P s \<Longrightarrow> ?thesis"
    by (cases "add_networks now nets ?n") (auto simp: start_def Let_def rip_ok_dset split: option.split)
next
  case (Stop d)
  then show "rip_ok P s \<Longrightarrow> ?thesis" by (auto simp: stop_def rip_ok_def split: option.splits)
next
  case (RipIfDown d ps)
  then show "rip_ok P s \<Longrightarrow> ?thesis"
    by (auto simp: rip_interface_down_def Let_def intro!: forget_peers_ok rip_ok_dset table_ok_filter
        split: option.splits) (auto simp: rip_ok_def)
next
  case (Receive fe e v now d pk)
  then show "rip_ok P s \<Longrightarrow> takes Q op \<Longrightarrow> ?thesis" by (simp add: takes_def receive_ok)
next
  case (Timeout fe e v d net p)
  then show "rip_ok P s \<Longrightarrow> ?thesis" by (simp add: timeout_ok)
next
  case (Garbage d net p)
  then show "rip_ok P s \<Longrightarrow> ?thesis"
    by (auto simp: fire_garbage_def Let_def intro!: rip_ok_dset table_ok_remove split: option.splits)
       (auto simp: rip_ok_def)
qed (simp_all add: add_neighbor_def remove_neighbor_def set_authentication_def rip_ok_upd)

lemma run_ok: "list_all (takes Q) ops \<Longrightarrow> rip_ok P (fold rip_apply ops [])"
proof -
  have "list_all (takes Q) ops \<Longrightarrow> rip_ok P s \<Longrightarrow> rip_ok P (fold rip_apply ops s)" for s
    by (induction ops arbitrary: s) (simp_all add: apply_ok)
  moreover have "rip_ok P []" by (simp add: rip_ok_def)
  ultimately show "list_all (takes Q) ops \<Longrightarrow> ?thesis" by blast
qed

end

interpretation bounded: route_property "\<lambda>r. rt_metric r \<le> 16" "\<lambda>_. True"
  by unfold_locales (simp_all add: direct_route_def)

lemma hop_metric_from_1:
  "packet_ok pk \<Longrightarrow> en \<in> set (rk_entries pk) \<Longrightarrow> 1 \<le> hop_metric en \<and> hop_metric en \<le> 16"
  by (force simp: packet_ok_def hop_metric_def list_all_iff split: option.splits)

interpretation shaped: route_property rip_route_ok packet_ok
proof
  fix now k r pk en
  show "rip_route_ok (direct_route now k)" by (simp add: rip_route_ok_def direct_route_def)
  show "rip_route_ok r \<Longrightarrow> rip_route_ok (r\<lparr>rt_metric := 16, rt_state := ''garbage''\<rparr>)"
    by (simp add: rip_route_ok_def split: if_splits)
  assume pk: "packet_ok pk" "en \<in> set (rk_entries pk)"
  then have src: "rk_src pk \<noteq> ''direct''" by (simp add: packet_ok_def)
  show "rip_route_ok r" if "rt_metric r = hop_metric en" "rt_from r = rk_src pk" "rt_next_hop r = rk_src pk"
    using that src hop_metric_from_1 [OF pk] by (simp add: rip_route_ok_def)
  show "rip_route_ok (r\<lparr>rt_metric := hop_metric en, rt_timestamp := now\<rparr>)" if "rip_route_ok r" "rt_from r = rk_src pk"
    using that src hop_metric_from_1 [OF pk] by (simp add: rip_route_ok_def split: if_splits)
qed

text \<open>The packets that the engine sends are of this kind: those of an update when its redistributed routes
  have no negative metric, and every poisoning one.\<close>

lemma update_packets_ok:
  assumes "rip_ok rip_route_ok s" "send_update fe e v s d = Inr outs" "d \<noteq> ''direct''"
    and "\<forall>m\<in>set (dvals (rn_redistributed (proc_of s d))). case m of None \<Rightarrow> True | Some x \<Rightarrow> 0 \<le> x"
    and "ToPeer p pk \<in> set outs" "rk_src pk = d"
  shows "packet_ok pk"
proof -
  have red: "0 \<le> mt" if "parse_redist rs = Inr as" "(k, mt) \<in> set as"
    "\<forall>m\<in>set (dvals rs). case m of None \<Rightarrow> True | Some x \<Rightarrow> 0 \<le> x" for rs as k mt
    using that
  proof (induction rs arbitrary: as)
    case (Cons x rs)
    then show ?case
      by (cases x) (auto simp: res_bind_Inr dvals_def split: list.splits option.splits)
  qed simp
  have "table_ok rip_route_ok (rn_table (proc_of s d))" by (rule table_of [OF assms(1)])
  then have tab: "0 \<le> rt_metric r" if "r \<in> set (rn_table (proc_of s d))" for r
    using that by (force simp: table_ok_def list_all_iff rip_route_ok_def split: if_splits)
  have "0 \<le> snd a" if "known_for (proc_of s d) p a" for a
    using that assms(4) red tab by (cases a) (auto simp: known_for_def split: sum.splits)
  moreover have "set (rk_entries pk) = adv_entry ` told fe s d p"
    using conjunct1 [OF exact_update [OF assms(2)]] assms(5) by auto
  ultimately show ?thesis using assms(3,6) by (auto simp: packet_ok_def list_all_iff told_def adv_entry_def)
qed

text \<open>C32. Whatever is configured, received and timed out in whatever order, exceptions included, every RIP
  table holds one route per destination, none with a metric above 16. When the received packets come from
  devices that do not count below 0, as those of the engine and of the wire do, a connected route has no
  gateway and metric 0 (or 16 once timed out), and a learned route points at the neighbour it was learned
  from with a metric between 1 and 16.\<close>

theorem rip_tables_ok:
  "rip_ok (\<lambda>r. rt_metric r \<le> 16) (fold rip_apply ops []) \<and>
   (list_all (takes packet_ok) ops \<longrightarrow> rip_ok rip_route_ok (fold rip_apply ops []))"
proof
  have "list_all (takes (\<lambda>_. True)) ops" by (auto simp: takes_def list_all_iff split: rip_op.split)
  then show "rip_ok (\<lambda>r. rt_metric r \<le> 16) (fold rip_apply ops [])" by (rule bounded.run_ok)
  show "list_all (takes packet_ok) ops \<longrightarrow> rip_ok rip_route_ok (fold rip_apply ops [])" by (intro impI shaped.run_ok)
qed

subsection \<open>A timer that survives a restart\<close>

definition learn_then_connect :: "rip_op list" where
  "learn_then_connect =
     [Start 0 ''r1'' ''R1'' [] 2,
      Receive no_filters no_env vnet_init 1 ''r1''
        \<lparr>rk_command = ''response'', rk_version = 2, rk_src = ''r2'', rk_src_host = ''R2'',
         rk_entries = [\<lparr>en_network = Some ''10.2.0.0'', en_prefix = Some 16, en_metric = Some 1\<rparr>],
         rk_auth_mode = [], rk_auth_key = []\<rparr>,
      Start 2 ''r1'' ''R1'' [''10.2.0.0/16''] 2,
      Timeout no_filters no_env vnet_init ''r1'' ''10.2.0.0'' 16]"

definition metrics :: "rip \<Rightarrow> dev \<Rightarrow> (ip \<times> int \<times> string) list" where
  "metrics s d = List.map (\<lambda>r. (rt_network r, rt_metric r, rt_from r)) (get_table s d)"

theorem rip_tables_ok_witness:
  "rip_ok rip_route_ok (fold rip_apply learn_then_connect [])"
proof -
  have "list_all (takes packet_ok) learn_then_connect"
    by (simp add: takes_def packet_ok_def learn_then_connect_def)
  with rip_tables_ok [of learn_then_connect] show ?thesis by blast
qed

text \<open>Starting RIP again does not cancel the expiry timers of routes learned before, so a network
  that was learned and is now connected is declared unreachable when the old timer fires, and is
  dropped from the table when its second phase ends.\<close>

theorem restart_expires_connected_route:
  "metrics (fold rip_apply learn_then_connect []) ''r1'' = [(''10.2.0.0'', 16, ''direct'')] \<and>
   metrics (fold rip_apply (learn_then_connect @ [Garbage ''r1'' ''10.2.0.0'' 16]) []) ''r1'' = []"
  by (intro conjI; code_simp)

end
