(* ===== verification/Fhrp.thy ===== *)
theory Fhrp
  imports Complex_Main Icmp
begin

text \<open>
  \<open>class VrrpEngine\<close>: the gateway redundancy groups of VRRP and HSRP, their election, preemption, dead
  timers, fault simulation, interface events and object tracking. An \<open>asyncio\<close> task is an entry of
  \<open>live_tasks\<close>, which cancelling removes; a timer fires, and a hello loop turns, only while it is alive.
  Log messages are left out.
\<close>

subsection \<open>State\<close>

datatype vrrp_state = VInit | VMaster | VBackup
datatype hsrp_state = HInit | HActive | HStandby

record vrrp_group =
  v_vip :: ip
  v_priority :: int
  v_preempt :: bool
  v_state :: vrrp_state
  v_interface :: iface
  v_hello_interval :: int
  v_virtual_mac :: string
  v_hello_task :: "nat option"
  v_dead_task :: "nat option"
  v_advert_time :: "rat option"
  v_peer_id :: dev
  v_peer_ip :: ip
  v_peer_priority :: int
  v_unicast_peers :: "ip list"

record hsrp_group =
  h_vip :: ip
  h_priority :: int
  h_preempt :: bool
  h_state :: hsrp_state
  h_interface :: iface
  h_hello_interval :: int
  h_hold_time :: int
  h_virtual_mac :: string
  h_hello_task :: "nat option"
  h_dead_task :: "nat option"
  h_peer_id :: dev
  h_peer_ip :: ip
  h_peer_priority :: int
  h_base_priority :: int
  h_track :: "(iface, int) dict"
  h_tracked_down :: "iface list"

datatype task = VHello dev nat | VDead dev nat | HHello dev nat | HDead dev nat

record fhrp =
  vrrp :: "dev \<Rightarrow> (nat, vrrp_group) dict"
  hsrp :: "dev \<Rightarrow> (nat, hsrp_group) dict"
  live_tasks :: "(nat \<times> task) list"
  next_task :: nat

definition fhrp_init :: fhrp where
  "fhrp_init = \<lparr>vrrp = (\<lambda>_. []), hsrp = (\<lambda>_. []), live_tasks = [], next_task = 0\<rparr>"

record vrrp_advert =
  va_src :: dev
  va_group :: nat
  va_priority :: int

definition spawn :: "task \<Rightarrow> fhrp \<Rightarrow> fhrp \<times> nat" where
  "spawn t s = (s\<lparr>live_tasks := live_tasks s @ [(next_task s, t)], next_task := next_task s + 1\<rparr>, next_task s)"

definition cancel :: "nat option \<Rightarrow> fhrp \<Rightarrow> fhrp" where
  "cancel x s = (case x of None \<Rightarrow> s | Some i \<Rightarrow> s\<lparr>live_tasks := filter (\<lambda>(j, _). j \<noteq> i) (live_tasks s)\<rparr>)"

definition vget :: "fhrp \<Rightarrow> dev \<Rightarrow> nat \<Rightarrow> vrrp_group option" where
  "vget s d i = dget (vrrp s d) i"

definition vupd :: "dev \<Rightarrow> nat \<Rightarrow> (vrrp_group \<Rightarrow> vrrp_group) \<Rightarrow> fhrp \<Rightarrow> fhrp" where
  "vupd d i f s = (case vget s d i of
     None \<Rightarrow> s | Some g \<Rightarrow> s\<lparr>vrrp := (vrrp s)(d := dset (vrrp s d) i (f g))\<rparr>)"

definition hget :: "fhrp \<Rightarrow> dev \<Rightarrow> nat \<Rightarrow> hsrp_group option" where
  "hget s d i = dget (hsrp s d) i"

definition hupd :: "dev \<Rightarrow> nat \<Rightarrow> (hsrp_group \<Rightarrow> hsrp_group) \<Rightarrow> fhrp \<Rightarrow> fhrp" where
  "hupd d i f s = (case hget s d i of
     None \<Rightarrow> s | Some g \<Rightarrow> s\<lparr>hsrp := (hsrp s)(d := dset (hsrp s d) i (f g))\<rparr>)"

definition vrrp_vmac :: "nat \<Rightarrow> string" where
  "vrrp_vmac vrid = ''00:00:5e:00:01:'' @ hex02 vrid"

definition hsrp_vmac :: "nat \<Rightarrow> string" where
  "hsrp_vmac g = ''00:00:0c:07:ac:'' @ hex02 g"

subsection \<open>The address that breaks ties\<close>

text \<open>\<open>sorted(ips)[-1]\<close>: the addresses are compared as text.\<close>

definition get_device_ip :: "(dev, device_info) dict \<Rightarrow> dev \<Rightarrow> ip option" where
  "get_device_ip book d = pick (\<lambda>a b. str_less b a) None (dkeys (ips_of book d))"

definition on_vip_subnet :: "ip \<Rightarrow> ip \<times> int \<Rightarrow> bool" where
  "on_vip_subnet vip = (\<lambda>(a, p). case netmask p of
     Inl _ \<Rightarrow> False | Inr m \<Rightarrow> ip_to_int a AND m = ip_to_int vip AND m)"

definition get_device_ip_for_vip :: "(dev, device_info) dict \<Rightarrow> dev \<Rightarrow> ip \<Rightarrow> ip option" where
  "get_device_ip_for_vip book d vip =
     (case pick (\<lambda>a b. str_less a b) None (List.map fst (filter (on_vip_subnet vip) (ips_of book d))) of
        Some a \<Rightarrow> Some a
      | None \<Rightarrow> get_device_ip book d)"

subsection \<open>VRRP\<close>

definition vrrp_start :: "fhrp \<Rightarrow> dev \<Rightarrow> nat \<Rightarrow> ip \<Rightarrow> int \<Rightarrow> bool \<Rightarrow> iface \<Rightarrow> fhrp" where
  "vrrp_start s d i vip priority preempt ifc =
     (let (s', t) = spawn (VHello d i) s;
          g = \<lparr>v_vip = vip, v_priority = priority, v_preempt = preempt, v_state = VInit, v_interface = ifc,
               v_hello_interval = 1, v_virtual_mac = vrrp_vmac i, v_hello_task = Some t, v_dead_task = None,
               v_advert_time = None, v_peer_id = [], v_peer_ip = [], v_peer_priority = 0, v_unicast_peers = []\<rparr>
      in s'\<lparr>vrrp := (vrrp s')(d := dset (vrrp s' d) i g)\<rparr>)"

definition advert_of :: "dev \<Rightarrow> nat \<Rightarrow> vrrp_group \<Rightarrow> vrrp_advert" where
  "advert_of d i g = \<lparr>va_src = d, va_group = i, va_priority = v_priority g\<rparr>"

text \<open>The advertisement that is broadcast, with the devices it is also sent to directly: the owners of the
  unicast peer addresses.\<close>

definition vrrp_send_advert :: "(dev, device_info) dict \<Rightarrow> fhrp \<Rightarrow> dev \<Rightarrow> nat \<Rightarrow> (vrrp_advert \<times> dev list) option" where
  "vrrp_send_advert book s d i =
     (case vget s d i of
        None \<Rightarrow> None
      | Some g \<Rightarrow> Some (advert_of d i g, List.map the (filter (\<lambda>p. truthy p \<and> p \<noteq> Some d)
                     (List.map (find_device_owning_ip book) (v_unicast_peers g)))))"

definition add_unicast_peer :: "fhrp \<Rightarrow> dev \<Rightarrow> nat \<Rightarrow> ip \<Rightarrow> fhrp" where
  "add_unicast_peer s d i a = vupd d i (\<lambda>g. g\<lparr>v_unicast_peers := sadd (v_unicast_peers g) a\<rparr>) s"

definition vrrp_log_change :: "rat \<Rightarrow> dev \<Rightarrow> nat \<Rightarrow> fhrp \<Rightarrow> fhrp" where
  "vrrp_log_change now d i s = vupd d i (\<lambda>g. g\<lparr>v_advert_time := Some now\<rparr>) s"

definition vset_state :: "dev \<Rightarrow> nat \<Rightarrow> vrrp_state \<Rightarrow> fhrp \<Rightarrow> fhrp" where
  "vset_state d i st s = vupd d i (\<lambda>g. g\<lparr>v_state := st\<rparr>) s"

definition reset_vrrp_dead_timer :: "dev \<Rightarrow> nat \<Rightarrow> fhrp \<Rightarrow> fhrp" where
  "reset_vrrp_dead_timer d i s =
     (case vget s d i of
        None \<Rightarrow> s
      | Some g \<Rightarrow> (let (s', t) = spawn (VDead d i) (cancel (v_dead_task g) s)
                   in vupd d i (\<lambda>g. g\<lparr>v_dead_task := Some t\<rparr>) s'))"

text \<open>\<open>Master_Down_Interval\<close>, in seconds.\<close>

definition master_down :: "vrrp_group \<Rightarrow> rat" where
  "master_down g = 3 * of_int (v_hello_interval g) + (256 - of_int (v_priority g)) / 256"

definition vrrp_elect :: "(dev, device_info) dict \<Rightarrow> rat \<Rightarrow> fhrp \<Rightarrow> dev \<Rightarrow> nat \<Rightarrow> dev \<Rightarrow> int \<Rightarrow> fhrp" where
  "vrrp_elect book now s d i peer pprio =
     (case vget s d i of
        None \<Rightarrow> s
      | Some g \<Rightarrow>
          let win = (\<lambda>s. vset_state peer i VBackup (vset_state d i VMaster s));
              lose = (\<lambda>s. vset_state peer i VMaster (vset_state d i VBackup s));
              s1 = (if v_priority g > pprio then win s
                    else if v_priority g < pprio then lose s
                    else let my = get_device_ip book d; other = get_device_ip book peer
                         in if truthy my \<and> truthy other then (if str_less (the other) (the my) then win s else lose s)
                            else vset_state d i VMaster s)
          in reset_vrrp_dead_timer d i (vrrp_log_change now d i s1))"

definition vrrp_record_peer :: "(dev, device_info) dict \<Rightarrow> vrrp_advert \<Rightarrow> vrrp_group \<Rightarrow> vrrp_group" where
  "vrrp_record_peer book a g =
     (if va_src a = [] then g
      else g\<lparr>v_peer_id := va_src a,
             v_peer_ip := (case get_device_ip_for_vip book (va_src a) (v_vip g) of None \<Rightarrow> [] | Some x \<Rightarrow> x),
             v_peer_priority := va_priority a\<rparr>)"

definition vrrp_receive_advert :: "(dev, device_info) dict \<Rightarrow> rat \<Rightarrow> fhrp \<Rightarrow> dev \<Rightarrow> vrrp_advert \<Rightarrow> fhrp" where
  "vrrp_receive_advert book now s d a =
     (let i = va_group a; pprio = va_priority a
      in case vget s d i of
        None \<Rightarrow> s
      | Some g \<Rightarrow>
          let s1 = vupd d i (vrrp_record_peer book a) s
          in case v_state g of
            VInit \<Rightarrow> vrrp_elect book now s1 d i (va_src a) pprio
          | VMaster \<Rightarrow>
              if pprio > v_priority g then vrrp_log_change now d i (vset_state d i VBackup s1)
              else if pprio = v_priority g then
                (let my = get_device_ip_for_vip book d (v_vip g);
                     other = get_device_ip_for_vip book (va_src a) (v_vip g)
                 in if truthy other \<and> truthy my \<and> str_less (the my) (the other)
                    then vrrp_log_change now d i (vset_state d i VBackup s1) else s1)
              else s1
          | VBackup \<Rightarrow>
              let s2 = reset_vrrp_dead_timer d i s1
              in if v_preempt g \<and> v_priority g > pprio
                 then vrrp_log_change now d i (vset_state d i VMaster s2) else s2)"

text \<open>A dead timer that is still alive fires.\<close>

definition vrrp_dead :: "rat \<Rightarrow> fhrp \<Rightarrow> nat \<Rightarrow> fhrp" where
  "vrrp_dead now s t =
     (case dget (live_tasks s) t of
        Some (VDead d i) \<Rightarrow>
          (let s1 = s\<lparr>live_tasks := dpop (live_tasks s) t\<rparr>
           in case vget s1 d i of
             None \<Rightarrow> s1
           | Some g \<Rightarrow> if v_state g = VBackup then vrrp_log_change now d i (vset_state d i VMaster s1) else s1)
      | _ \<Rightarrow> s)"

definition vrrp_promote :: "rat \<Rightarrow> nat \<Rightarrow> dev \<Rightarrow> fhrp \<Rightarrow> fhrp" where
  "vrrp_promote now i n s =
     (case vget s n i of
        None \<Rightarrow> s
      | Some g \<Rightarrow> if v_state g = VBackup
                  then vrrp_log_change now n i (vset_state n i VMaster (cancel (v_dead_task g) s)) else s)"

definition vrrp_failover :: "vnet \<Rightarrow> rat \<Rightarrow> fhrp \<Rightarrow> dev \<Rightarrow> nat \<Rightarrow> fhrp" where
  "vrrp_failover v now s d i =
     (case vget s d i of
        None \<Rightarrow> s
      | Some g \<Rightarrow>
          if v_state g \<noteq> VMaster then s
          else fold (vrrp_promote now i) (get_neighbors v d) (cancel (v_hello_task g) (vset_state d i VInit s)))"

subsection \<open>HSRP\<close>

definition hset_state :: "dev \<Rightarrow> nat \<Rightarrow> hsrp_state \<Rightarrow> fhrp \<Rightarrow> fhrp" where
  "hset_state d i st s = hupd d i (\<lambda>g. g\<lparr>h_state := st\<rparr>) s"

text \<open>Entering the group again keeps what is tracked, and which of it is down.\<close>

definition hsrp_start :: "fhrp \<Rightarrow> dev \<Rightarrow> nat \<Rightarrow> ip \<Rightarrow> int \<Rightarrow> bool \<Rightarrow> iface \<Rightarrow> fhrp" where
  "hsrp_start s d i vip priority preempt ifc =
     (let (s', t) = spawn (HHello d i) s;
          (tr, td) = (case hget s d i of None \<Rightarrow> ([], []) | Some g \<Rightarrow> (h_track g, h_tracked_down g));
          g = \<lparr>h_vip = vip, h_priority = priority, h_preempt = preempt, h_state = HInit, h_interface = ifc,
               h_hello_interval = 1, h_hold_time = 3, h_virtual_mac = hsrp_vmac i, h_hello_task = Some t,
               h_dead_task = None, h_peer_id = [], h_peer_ip = [], h_peer_priority = 0,
               h_base_priority = priority, h_track = tr, h_tracked_down = td\<rparr>
      in s'\<lparr>hsrp := (hsrp s')(d := dset (hsrp s' d) i g)\<rparr>)"

definition hsrp_send_hello :: "fhrp \<Rightarrow> dev \<Rightarrow> nat \<Rightarrow> vrrp_advert option" where
  "hsrp_send_hello s d i =
     map_option (\<lambda>g. \<lparr>va_src = d, va_group = i, va_priority = h_priority g\<rparr>) (hget s d i)"

definition reset_hsrp_dead_timer :: "dev \<Rightarrow> nat \<Rightarrow> fhrp \<Rightarrow> fhrp" where
  "reset_hsrp_dead_timer d i s =
     (case hget s d i of
        None \<Rightarrow> s
      | Some g \<Rightarrow> (let (s', t) = spawn (HDead d i) (cancel (h_dead_task g) s)
                   in hupd d i (\<lambda>g. g\<lparr>h_dead_task := Some t\<rparr>) s'))"

definition hsrp_elect :: "fhrp \<Rightarrow> dev \<Rightarrow> nat \<Rightarrow> dev \<Rightarrow> int \<Rightarrow> fhrp" where
  "hsrp_elect s d i peer pprio =
     (case hget s d i of
        None \<Rightarrow> s
      | Some g \<Rightarrow>
          reset_hsrp_dead_timer d i
            (if h_priority g \<ge> pprio then hset_state peer i HStandby (hset_state d i HActive s)
             else hset_state peer i HActive (hset_state d i HStandby s)))"

definition hsrp_record_peer :: "(dev, device_info) dict \<Rightarrow> vrrp_advert \<Rightarrow> hsrp_group \<Rightarrow> hsrp_group" where
  "hsrp_record_peer book a g =
     (if va_src a = [] then g
      else g\<lparr>h_peer_id := va_src a,
             h_peer_ip := (case get_device_ip_for_vip book (va_src a) (h_vip g) of None \<Rightarrow> [] | Some x \<Rightarrow> x),
             h_peer_priority := va_priority a\<rparr>)"

definition hsrp_receive_hello :: "(dev, device_info) dict \<Rightarrow> fhrp \<Rightarrow> dev \<Rightarrow> vrrp_advert \<Rightarrow> fhrp" where
  "hsrp_receive_hello book s d a =
     (let i = va_group a; pprio = va_priority a
      in case hget s d i of
        None \<Rightarrow> s
      | Some g \<Rightarrow>
          let s1 = hupd d i (hsrp_record_peer book a) s
          in case h_state g of
            HInit \<Rightarrow> hsrp_elect s1 d i (va_src a) pprio
          | HActive \<Rightarrow>
              if pprio > h_priority g \<or> (pprio = h_priority g \<and> h_preempt g) then
                (if pprio > h_priority g then hset_state d i HStandby s1 else s1)
              else s1
          | HStandby \<Rightarrow>
              let s2 = reset_hsrp_dead_timer d i s1
              in if h_preempt g \<and> h_priority g > pprio then hset_state d i HActive s2 else s2)"

definition hsrp_dead :: "fhrp \<Rightarrow> nat \<Rightarrow> fhrp" where
  "hsrp_dead s t =
     (case dget (live_tasks s) t of
        Some (HDead d i) \<Rightarrow>
          (let s1 = s\<lparr>live_tasks := dpop (live_tasks s) t\<rparr>
           in case hget s1 d i of
             None \<Rightarrow> s1
           | Some g \<Rightarrow> if h_state g = HStandby then hset_state d i HActive s1 else s1)
      | _ \<Rightarrow> s)"

definition hsrp_promote :: "nat \<Rightarrow> dev \<Rightarrow> fhrp \<Rightarrow> fhrp" where
  "hsrp_promote i n s =
     (case hget s n i of
        None \<Rightarrow> s
      | Some g \<Rightarrow> if h_state g = HStandby then hset_state n i HActive (cancel (h_dead_task g) s) else s)"

definition hsrp_failover :: "vnet \<Rightarrow> fhrp \<Rightarrow> dev \<Rightarrow> nat \<Rightarrow> fhrp" where
  "hsrp_failover v s d i =
     (case hget s d i of
        None \<Rightarrow> s
      | Some g \<Rightarrow>
          if h_state g \<noteq> HActive then s
          else fold (hsrp_promote i) (get_neighbors v d) (cancel (h_hello_task g) (hset_state d i HInit s)))"

subsection \<open>Object tracking\<close>

definition down_sum :: "hsrp_group \<Rightarrow> int" where
  "down_sum g = sum_list (List.map (\<lambda>i. dget_or (h_track g) i 0) (h_tracked_down g))"

definition tracked_priority :: "hsrp_group \<Rightarrow> int" where
  "tracked_priority g = max 0 (h_base_priority g - down_sum g)"

definition hsrp_set_track :: "fhrp \<Rightarrow> dev \<Rightarrow> nat \<Rightarrow> iface \<Rightarrow> int \<Rightarrow> fhrp" where
  "hsrp_set_track s d i ifc dec = hupd d i (\<lambda>g. g\<lparr>h_track := dset (h_track g) ifc dec\<rparr>) s"

definition untrack :: "iface \<Rightarrow> hsrp_group \<Rightarrow> hsrp_group" where
  "untrack ifc g =
     (let g1 = g\<lparr>h_track := dpop (h_track g) ifc\<rparr>
      in if ifc \<in> set (h_tracked_down g1) then
           (let g2 = g1\<lparr>h_tracked_down := sdiscard (h_tracked_down g1) ifc\<rparr>
            in g2\<lparr>h_priority := tracked_priority g2\<rparr>)
         else g1)"

definition hsrp_remove_track :: "fhrp \<Rightarrow> dev \<Rightarrow> nat \<Rightarrow> iface \<Rightarrow> fhrp" where
  "hsrp_remove_track s d i ifc = hupd d i (untrack ifc) s"

definition track_down_group :: "iface \<Rightarrow> hsrp_group \<Rightarrow> hsrp_group" where
  "track_down_group ifc g =
     (if dget (h_track g) ifc = None \<or> ifc \<in> set (h_tracked_down g) then g
      else let g1 = g\<lparr>h_tracked_down := sadd (h_tracked_down g) ifc\<rparr>
           in g1\<lparr>h_priority := tracked_priority g1\<rparr>)"

definition track_up_group :: "iface \<Rightarrow> hsrp_group \<Rightarrow> hsrp_group" where
  "track_up_group ifc g =
     (if dget (h_track g) ifc = None \<or> ifc \<notin> set (h_tracked_down g) then g
      else let g1 = g\<lparr>h_tracked_down := sdiscard (h_tracked_down g) ifc\<rparr>
           in g1\<lparr>h_priority := tracked_priority g1\<rparr>)"

definition all_groups :: "dev \<Rightarrow> (hsrp_group \<Rightarrow> hsrp_group) \<Rightarrow> fhrp \<Rightarrow> fhrp" where
  "all_groups d f s = s\<lparr>hsrp := (hsrp s)(d := List.map (\<lambda>(i, g). (i, f g)) (hsrp s d))\<rparr>"

text \<open>The hellos that are sent at once: from the groups the event changed, unless they are in Init.\<close>

definition track_hellos :: "(hsrp_group \<Rightarrow> bool) \<Rightarrow> dev \<Rightarrow> fhrp \<Rightarrow> fhrp \<Rightarrow> vrrp_advert list" where
  "track_hellos hit d s s' =
     concat (List.map (\<lambda>(i, g). if hit g \<and> h_state g \<noteq> HInit
        then (case hsrp_send_hello s' d i of None \<Rightarrow> [] | Some a \<Rightarrow> [a]) else []) (hsrp s d))"

definition hsrp_track_down :: "fhrp \<Rightarrow> dev \<Rightarrow> iface \<Rightarrow> fhrp \<times> vrrp_advert list" where
  "hsrp_track_down s d ifc =
     (let s' = all_groups d (track_down_group ifc) s
      in (s', track_hellos (\<lambda>g. dget (h_track g) ifc \<noteq> None \<and> ifc \<notin> set (h_tracked_down g)) d s s'))"

definition hsrp_track_up :: "fhrp \<Rightarrow> dev \<Rightarrow> iface \<Rightarrow> fhrp \<times> vrrp_advert list" where
  "hsrp_track_up s d ifc =
     (let s' = all_groups d (track_up_group ifc) s
      in (s', track_hellos (\<lambda>g. dget (h_track g) ifc \<noteq> None \<and> ifc \<in> set (h_tracked_down g)) d s s'))"

subsection \<open>Interface events\<close>

definition v_reset :: "rat \<Rightarrow> dev \<Rightarrow> iface \<Rightarrow> nat \<Rightarrow> fhrp \<Rightarrow> fhrp" where
  "v_reset now d ifc i s =
     (case vget s d i of
        None \<Rightarrow> s
      | Some g \<Rightarrow>
          if (v_interface g \<noteq> [] \<and> v_interface g \<noteq> ifc) \<or> v_state g = VInit then s
          else vrrp_log_change now d i (cancel (v_dead_task g)
            (vupd d i (\<lambda>g. g\<lparr>v_state := VInit, v_peer_id := [], v_peer_ip := [], v_peer_priority := 0, v_dead_task := None\<rparr>) s)))"

definition h_reset :: "dev \<Rightarrow> iface \<Rightarrow> nat \<Rightarrow> fhrp \<Rightarrow> fhrp" where
  "h_reset d ifc i s =
     (case hget s d i of
        None \<Rightarrow> s
      | Some g \<Rightarrow>
          if (h_interface g \<noteq> [] \<and> h_interface g \<noteq> ifc) \<or> h_state g = HInit then s
          else cancel (h_dead_task g)
            (hupd d i (\<lambda>g. g\<lparr>h_state := HInit, h_peer_id := [], h_peer_ip := [], h_peer_priority := 0, h_dead_task := None\<rparr>) s))"

definition fhrp_interface_down :: "rat \<Rightarrow> fhrp \<Rightarrow> dev \<Rightarrow> iface \<Rightarrow> fhrp" where
  "fhrp_interface_down now s d ifc =
     fold (h_reset d ifc) (dkeys (hsrp s d)) (fold (v_reset now d ifc) (dkeys (vrrp s d)) s)"

definition v_alone :: "vnet \<Rightarrow> rat \<Rightarrow> dev \<Rightarrow> iface \<Rightarrow> nat \<Rightarrow> fhrp \<Rightarrow> fhrp" where
  "v_alone v now d ifc i s =
     (case vget s d i of
        None \<Rightarrow> s
      | Some g \<Rightarrow>
          if (v_interface g \<noteq> [] \<and> v_interface g \<noteq> ifc) \<or> v_state g \<noteq> VInit then s
          else if \<exists>p\<in>set (get_neighbors v d). vget s p i \<noteq> None then s
          else vrrp_log_change now d i (vset_state d i VMaster s))"

definition h_alone :: "vnet \<Rightarrow> dev \<Rightarrow> iface \<Rightarrow> nat \<Rightarrow> fhrp \<Rightarrow> fhrp" where
  "h_alone v d ifc i s =
     (case hget s d i of
        None \<Rightarrow> s
      | Some g \<Rightarrow>
          if (h_interface g \<noteq> [] \<and> h_interface g \<noteq> ifc) \<or> h_state g \<noteq> HInit then s
          else if \<exists>p\<in>set (get_neighbors v d). hget s p i \<noteq> None then s
          else hset_state d i HActive s)"

definition fhrp_interface_up :: "vnet \<Rightarrow> rat \<Rightarrow> fhrp \<Rightarrow> dev \<Rightarrow> iface \<Rightarrow> fhrp" where
  "fhrp_interface_up v now s d ifc =
     fold (h_alone v d ifc) (dkeys (hsrp s d)) (fold (v_alone v now d ifc) (dkeys (vrrp s d)) s)"

subsection \<open>Two VRRP routers agree\<close>

lemma vget_vupd [simp]:
  "vget (vupd d i f s) d' i' = (if d' = d \<and> i' = i then map_option f (vget s d i) else vget s d' i')"
  by (auto simp: vget_def vupd_def split: option.splits)

lemma vget_tasks [simp]:
  "vget (cancel x s) d i = vget s d i" "vget (fst (spawn t s)) d i = vget s d i"
  "vget (s\<lparr>live_tasks := l\<rparr>) d i = vget s d i"
  by (simp_all add: vget_def cancel_def spawn_def split: option.splits)

lemma hget_hupd [simp]:
  "hget (hupd d i f s) d' i' = (if d' = d \<and> i' = i then map_option f (hget s d i) else hget s d' i')"
  by (auto simp: hget_def hupd_def split: option.splits)

lemma hget_tasks [simp]:
  "hget (cancel x s) d i = hget s d i" "hget (fst (spawn t s)) d i = hget s d i"
  "hget (s\<lparr>live_tasks := l\<rparr>) d i = hget s d i"
  by (simp_all add: hget_def cancel_def spawn_def split: option.splits)

definition vview :: "fhrp \<Rightarrow> dev \<Rightarrow> nat \<Rightarrow> (vrrp_state \<times> int \<times> bool) option" where
  "vview s d i = map_option (\<lambda>g. (v_state g, v_priority g, v_preempt g)) (vget s d i)"

lemma vrrp_record_peer_fields [simp]:
  "v_state (vrrp_record_peer book a g) = v_state g" "v_priority (vrrp_record_peer book a g) = v_priority g"
  "v_preempt (vrrp_record_peer book a g) = v_preempt g"
  by (simp_all add: vrrp_record_peer_def)

lemma vview_neutral [simp]:
  "vview (vrrp_log_change now d i s) d' i' = vview s d' i'"
  "vview (reset_vrrp_dead_timer d i s) d' i' = vview s d' i'"
  "vview (vupd d i (vrrp_record_peer book a) s) d' i' = vview s d' i'"
  by (auto simp: vview_def vrrp_log_change_def reset_vrrp_dead_timer_def Let_def split_beta
      option.map_comp comp_def split: option.splits)

lemma vview_set [simp]: "vview (vset_state d i st s) d' i' =
   (if d' = d \<and> i' = i then map_option (\<lambda>(_, p, q). (st, p, q)) (vview s d i) else vview s d' i')"
  by (simp add: vview_def vset_state_def option.map_comp comp_def)

text \<open>The state after an advertisement, when the priorities differ.\<close>

lemma vview_receive:
  assumes "vview s d i = Some (st, p, q)" "p \<noteq> va_priority a" "va_group a = i"
  shows "vview (vrrp_receive_advert book now s d a) d' i' =
    (let won = p > va_priority a;
         st' = (case st of VInit \<Rightarrow> if won then VMaster else VBackup
                | VMaster \<Rightarrow> if won then VMaster else VBackup
                | VBackup \<Rightarrow> if won \<and> q then VMaster else VBackup);
         s0 = (if st = VInit then vset_state (va_src a) i (if won then VBackup else VMaster) (vset_state d i st' s)
               else vset_state d i st' s)
     in vview s0 d' i')"
proof -
  from assms(1) obtain g where g: "vget s d i = Some g" "st = v_state g" "p = v_priority g" "q = v_preempt g"
    by (auto simp: vview_def)
  obtain g' where g': "vget (vupd d i (vrrp_record_peer book a) s) d i = Some g'" "v_priority g' = p"
    using g by simp
  show ?thesis
    using assms g g'
    by (cases st) (auto simp: vrrp_receive_advert_def vrrp_elect_def Let_def)
qed

definition two_rounds :: "(dev, device_info) dict \<Rightarrow> rat \<Rightarrow> dev \<Rightarrow> dev \<Rightarrow> vrrp_advert \<Rightarrow> vrrp_advert \<Rightarrow> fhrp \<Rightarrow> fhrp" where
  "two_rounds book now a b adv_a adv_b s =
     vrrp_receive_advert book now (vrrp_receive_advert book now s a adv_b) b adv_a"

text \<open>C40. Two routers of a VRRP group with different priorities, the better one preempting, agree after each
  has received one advertisement of the other, in either order and whatever states they were in: the
  better one is Master and the other Backup.\<close>

theorem vrrp_converges:
  assumes "vget s a i = Some ga" "vget s b i = Some gb" "a \<noteq> b"
    "v_priority ga > v_priority gb" "v_preempt ga"
  shows "(let s' = two_rounds book now a b (advert_of a i ga) (advert_of b i gb) s
          in map_option v_state (vget s' a i) = Some VMaster \<and> map_option v_state (vget s' b i) = Some VBackup) \<and>
         (let s' = two_rounds book now b a (advert_of b i gb) (advert_of a i ga) s
          in map_option v_state (vget s' a i) = Some VMaster \<and> map_option v_state (vget s' b i) = Some VBackup)"
proof -
  have st: "map_option v_state (vget t d i) = map_option fst (vview t d i)" for t d
    by (simp add: vview_def option.map_comp comp_def)
  have v: "vview s a i = Some (v_state ga, v_priority ga, v_preempt ga)"
    "vview s b i = Some (v_state gb, v_priority gb, v_preempt gb)" using assms by (simp_all add: vview_def)
  let ?A = "advert_of a i ga" let ?B = "advert_of b i gb"
  have fields: "va_src ?A = a" "va_src ?B = b" "va_group ?A = i" "va_group ?B = i"
    "va_priority ?A = v_priority ga" "va_priority ?B = v_priority gb" by (simp_all add: advert_of_def)
  note rec = vview_receive [of _ _ _ _ _ _ ?A] vview_receive [of _ _ _ _ _ _ ?B]
  define s1 where "s1 = vrrp_receive_advert book now s a ?B"
  have s1: "vview s1 a i = Some (VMaster, v_priority ga, v_preempt ga)"
    "\<exists>st. vview s1 b i = Some (st, v_priority gb, v_preempt gb)"
    unfolding s1_def using rec(2) [OF v(1)] fields assms v
    by (simp_all add: Let_def split: vrrp_state.split)
  define s2 where "s2 = vrrp_receive_advert book now s b ?A"
  have s2: "vview s2 b i = Some (VBackup, v_priority gb, v_preempt gb)"
    "\<exists>st. vview s2 a i = Some (st, v_priority ga, v_preempt ga)"
    unfolding s2_def using rec(1) [OF v(2)] fields assms v
    by (simp_all add: Let_def split: vrrp_state.split)
  from s1(2) s2(2) obtain x y where xy: "vview s1 b i = Some (x, v_priority gb, v_preempt gb)"
    "vview s2 a i = Some (y, v_priority ga, v_preempt ga)" by blast
  show ?thesis
    unfolding two_rounds_def st Let_def s1_def [symmetric] s2_def [symmetric]
    using rec(1) [OF xy(1)] rec(2) [OF xy(2)] fields assms s1(1) s2(1) xy
    by (cases x; cases y) (simp_all add: Let_def)
qed

definition two_routers :: fhrp where
  "two_routers = vrrp_start (vrrp_start fhrp_init ''r1'' 1 ''10.0.0.1'' 120 True ''lan1'')
     ''r2'' 1 ''10.0.0.1'' 100 True ''lan1''"

theorem vrrp_converges_witness:
  "(let s' = two_rounds [] 0 ''r1'' ''r2'' (advert_of ''r1'' 1 (the (vget two_routers ''r1'' 1)))
               (advert_of ''r2'' 1 (the (vget two_routers ''r2'' 1))) two_routers
    in map_option v_state (vget s' ''r1'' 1) = Some VMaster \<and> map_option v_state (vget s' ''r2'' 1) = Some VBackup)"
proof -
  obtain ga gb where g: "vget two_routers ''r1'' 1 = Some ga" "vget two_routers ''r2'' 1 = Some gb"
    "v_priority ga = 120" "v_priority gb = 100" "v_preempt ga"
    by (simp add: two_routers_def vrrp_start_def spawn_def fhrp_init_def vget_def Let_def)
  then show ?thesis using vrrp_converges [OF g(1,2), of "[]" 0] by (simp add: Let_def)
qed

subsection \<open>Ties and split groups\<close>

definition tie_book :: "(dev, device_info) dict" where
  "tie_book = [(''r1'', no_device\<lparr>di_ips := [(''10.0.0.9'', 24)]\<rparr>), (''r2'', no_device\<lparr>di_ips := [(''10.0.0.10'', 24)]\<rparr>)]"

definition tied_routers :: fhrp where
  "tied_routers = vrrp_start (vrrp_start fhrp_init ''r1'' 1 ''10.0.0.1'' 100 True ''lan1'')
     ''r2'' 1 ''10.0.0.1'' 100 True ''lan1''"

text \<open>With equal priorities the addresses are compared as text and not as numbers: the router 10.0.0.9
  becomes Master over the router 10.0.0.10.\<close>

theorem vrrp_tie_compares_text:
  "(let s = vrrp_receive_advert tie_book 0 tied_routers ''r1'' \<lparr>va_src = ''r2'', va_group = 1, va_priority = 100\<rparr>
    in map_option v_state (vget s ''r1'' 1) = Some VMaster \<and> map_option v_state (vget s ''r2'' 1) = Some VBackup \<and>
       ip_to_int ''10.0.0.9'' < ip_to_int ''10.0.0.10'')"
  by code_simp

definition hview :: "fhrp \<Rightarrow> dev \<Rightarrow> nat \<Rightarrow> (hsrp_state \<times> int) option" where
  "hview s d i = map_option (\<lambda>g. (h_state g, h_priority g)) (hget s d i)"

lemma hview_active_tie:
  assumes "hview s d i = Some (HActive, p)" "va_priority a = p" "va_group a = i"
  shows "hview (hsrp_receive_hello book s d a) d' i' = hview s d' i'"
  using assms
  by (auto simp: hview_def hsrp_receive_hello_def hsrp_record_peer_def Let_def split: if_splits option.splits)

definition two_active :: fhrp where
  "two_active = hset_state ''r2'' 1 HActive (hset_state ''r1'' 1 HActive
     (hsrp_start (hsrp_start fhrp_init ''r1'' 1 ''10.0.0.1'' 100 True ''lan1'') ''r2'' 1 ''10.0.0.1'' 100 True ''lan1''))"

definition hello_exchange :: "(dev, device_info) dict \<Rightarrow> fhrp \<Rightarrow> fhrp" where
  "hello_exchange book s =
     hsrp_receive_hello book (hsrp_receive_hello book s ''r1'' \<lparr>va_src = ''r2'', va_group = 1, va_priority = 100\<rparr>)
       ''r2'' \<lparr>va_src = ''r1'', va_group = 1, va_priority = 100\<rparr>"

definition both_active :: "fhrp \<Rightarrow> bool" where
  "both_active s \<longleftrightarrow> hview s ''r1'' 1 = Some (HActive, 100) \<and> hview s ''r2'' 1 = Some (HActive, 100)"

lemma both_active_exchange: "both_active s \<Longrightarrow> both_active (hello_exchange book s)"
proof -
  assume a: "both_active s"
  let ?a = "\<lambda>d. \<lparr>va_src = d, va_group = 1, va_priority = 100\<rparr>"
  let ?s = "hsrp_receive_hello book s ''r1'' (?a ''r2'')"
  have 1: "hview ?s d i = hview s d i" for d i
    using a by (intro hview_active_tie [of _ _ 1 100]) (simp_all add: both_active_def)
  have "hview (hsrp_receive_hello book ?s ''r2'' (?a ''r1'')) d i = hview ?s d i" for d i
    using a 1 by (intro hview_active_tie [of _ _ 1 100]) (simp_all add: both_active_def)
  with 1 a show ?thesis by (simp add: both_active_def hello_exchange_def)
qed

lemma both_active_start: "both_active two_active"
  by (simp add: both_active_def two_active_def hview_def hset_state_def hget_def hupd_def hsrp_start_def spawn_def
      fhrp_init_def Let_def)

text \<open>Two HSRP routers of equal priority that are both Active (each took over while the link between them
  was cut) stay both Active however many hellos they exchange: the tie is never broken by the address.\<close>

theorem hsrp_both_active_forever: "both_active ((hello_exchange book ^^ n) two_active)"
  by (induction n) (simp_all add: both_active_start both_active_exchange)

subsection \<open>Tracking\<close>

lemma sdiscard_sadd_new: "x \<notin> set xs \<Longrightarrow> sdiscard (sadd xs x) x = xs"
  by (auto simp: sadd_def sdiscard_def intro: filter_True)

text \<open>When a tracked interface that is up goes down, the group's priority becomes the configured one less
  the decrements of all tracked interfaces that are down, never below 0; when the interface comes back,
  the group is exactly what it was.\<close>

theorem track_down_up_restores:
  assumes "dget (h_track g) ifc = Some dec" "ifc \<notin> set (h_tracked_down g)" "h_priority g = tracked_priority g"
  shows "h_priority (track_down_group ifc g) = max 0 (h_base_priority g - (down_sum g + dec)) \<and>
    track_up_group ifc (track_down_group ifc g) = g"
proof -
  have d: "down_sum (g\<lparr>h_tracked_down := sadd (h_tracked_down g) ifc\<rparr>) = down_sum g + dec"
    using assms by (simp add: down_sum_def sadd_def dget_or_def)
  have down: "track_down_group ifc g = g\<lparr>h_tracked_down := sadd (h_tracked_down g) ifc,
      h_priority := max 0 (h_base_priority g - (down_sum g + dec))\<rparr>"
    using assms d by (simp add: track_down_group_def tracked_priority_def Let_def)
  have "track_up_group ifc (track_down_group ifc g) = g\<lparr>h_tracked_down := h_tracked_down g, h_priority := tracked_priority g\<rparr>"
    using assms sdiscard_sadd_new [OF assms(2)]
    by (simp add: down track_up_group_def tracked_priority_def Let_def down_sum_def)
  also have "\<dots> = g\<lparr>h_tracked_down := h_tracked_down g, h_priority := h_priority g\<rparr>" using assms(3) by simp
  also have "\<dots> = g" by simp
  finally show ?thesis using down by simp
qed

definition tracked_group :: hsrp_group where
  "tracked_group = the (hget (hsrp_set_track two_active ''r1'' 1 ''lan2'' 30) ''r1'' 1)"

theorem track_down_up_restores_witness:
  "h_priority (track_down_group ''lan2'' tracked_group) = 70 \<and>
   track_up_group ''lan2'' (track_down_group ''lan2'' tracked_group) = tracked_group"
proof -
  have g: "dget (h_track tracked_group) ''lan2'' = Some 30" "h_tracked_down tracked_group = []"
    "h_priority tracked_group = 100" "h_base_priority tracked_group = 100"
    by code_simp+
  have n: "''lan2'' \<notin> set (h_tracked_down tracked_group)" using g by simp
  have p: "h_priority tracked_group = tracked_priority tracked_group"
    using g by (simp add: tracked_priority_def down_sum_def)
  show ?thesis using track_down_up_restores [OF g(1) n p] g by (simp add: down_sum_def)
qed

definition tracking_run :: fhrp where
  "tracking_run = fst (hsrp_track_down (hsrp_set_track two_active ''r1'' 1 ''lan2'' 30) ''r1'' ''lan2'')"

text \<open>Entering \<open>standby ip\<close> again while a tracked interface is down gives the group its full priority
  back although the interface is still recorded as down, and a further down event changes nothing; the
  hello loop of the first start goes on beside the new one.\<close>

theorem standby_reentry_forgets_tracking:
  "map_option h_priority (hget tracking_run ''r1'' 1) = Some 70 \<and>
   (let s = hsrp_start tracking_run ''r1'' 1 ''10.0.0.1'' 100 True ''lan1''
    in map_option (\<lambda>g. (h_priority g, h_tracked_down g)) (hget (fst (hsrp_track_down s ''r1'' ''lan2'')) ''r1'' 1) =
         Some (100, [''lan2'']) \<and>
       length (filter (\<lambda>(_, t). t = HHello ''r1'' 1) (live_tasks s)) = 2)"
  by (intro conjI; code_simp)

end
