(* ===== verification/Vpc.thy ===== *)
theory Vpc
  imports Complex_Main VNet
begin

text \<open>
  \<open>class VpcEngine\<close>: the virtual port channel domains of NX-OS, their keepalive, role election, peer link
  and member ports. Log messages are left out; the keepalive loop is cut at its sleeps into its first
  step and its turns.
\<close>

datatype mport_state = PortUp | PortDown | PortSuspended
datatype ka_state = KaPending | KaAlive | KaDead
datatype vpc_role = RoleNone | RolePrimary | RoleSecondary | RoleOperPrimary

record vpc_member =
  vm_channel :: iface
  vm_state :: mport_state

record vpc_domain =
  vd_id :: nat
  ka_dest :: ip
  ka_src :: ip
  ka_vrf :: string
  ka_interval :: int
  ka_timeout :: rat
  ka_status :: ka_state
  ka_last :: rat
  pl_if :: iface
  pl_up :: bool
  vd_role :: vpc_role
  vd_priority :: int
  vd_mac :: string
  vd_peer_gateway :: bool
  vd_peer_switch :: bool
  ka_task :: bool
  vd_members :: "(nat, vpc_member) dict"

record vpc =
  domains :: "(dev, vpc_domain) dict"
  feature_enabled :: "(dev, bool) dict"
  vpeers :: "(dev, dev) dict"

definition vpc_init :: vpc where
  "vpc_init = \<lparr>domains = [], feature_enabled = [], vpeers = []\<rparr>"

definition enable_feature :: "vpc \<Rightarrow> dev \<Rightarrow> vpc" where
  "enable_feature s d = s\<lparr>feature_enabled := dset (feature_enabled s) d True\<rparr>"

definition dom :: "vpc \<Rightarrow> dev \<Rightarrow> vpc_domain option" where
  "dom s d = dget (domains s) d"

definition upd_dom :: "dev \<Rightarrow> (vpc_domain \<Rightarrow> vpc_domain) \<Rightarrow> vpc \<Rightarrow> vpc" where
  "upd_dom d f s = (case dom s d of None \<Rightarrow> s | Some x \<Rightarrow> s\<lparr>domains := dset (domains s) d (f x)\<rparr>)"

text \<open>\<open>hash\<close> is Python's randomised string hash: a parameter.\<close>

definition create_domain :: "(string \<Rightarrow> int) \<Rightarrow> vpc \<Rightarrow> dev \<Rightarrow> nat \<Rightarrow> vpc" where
  "create_domain pyhash s d i =
     (case dom s d of
        Some x \<Rightarrow> upd_dom d (\<lambda>x. x\<lparr>vd_id := i\<rparr>) s
      | None \<Rightarrow> s\<lparr>domains := dset (domains s) d
          \<lparr>vd_id = i, ka_dest = [], ka_src = [], ka_vrf = ''management'', ka_interval = 1000, ka_timeout = 5,
           ka_status = KaPending, ka_last = 0, pl_if = [], pl_up = False, vd_role = RoleNone, vd_priority = 32667,
           vd_mac = ''00:23:04:'' @ hex02 (nat (\<bar>pyhash d\<bar> mod 256)) @ '':'' @ hex02 i @ '':00'',
           vd_peer_gateway = False, vd_peer_switch = False, ka_task = False, vd_members = []\<rparr>\<rparr>)"

definition set_keepalive :: "vpc \<Rightarrow> dev \<Rightarrow> ip \<Rightarrow> ip \<Rightarrow> string \<Rightarrow> vpc" where
  "set_keepalive s d dest src vrf =
     upd_dom d (\<lambda>x. x\<lparr>ka_dest := dest, ka_src := src, ka_vrf := vrf, ka_task := True\<rparr>) s"

subsection \<open>Finding the peer\<close>

definition addresses_match :: "dev \<Rightarrow> vpc_domain \<Rightarrow> dev \<times> vpc_domain \<Rightarrow> bool" where
  "addresses_match d x = (\<lambda>(p, y). p \<noteq> d \<and> vd_id y = vd_id x \<and> ka_dest y = ka_src x \<and> ka_dest x = ka_src y \<and> ka_vrf y = ka_vrf x)"

definition find_peer :: "vpc \<Rightarrow> dev \<Rightarrow> vpc \<times> dev option" where
  "find_peer s d =
     (if truthy (dget (vpeers s) d) then (s, dget (vpeers s) d)
      else case dom s d of
        None \<Rightarrow> (s, None)
      | Some x \<Rightarrow>
          if ka_dest x = [] \<or> ka_src x = [] then (s, None)
          else (case find (addresses_match d x) (domains s) of
                  None \<Rightarrow> (s, None)
                | Some (p, _) \<Rightarrow> (s\<lparr>vpeers := dset (dset (vpeers s) d p) p d\<rparr>, Some p)))"

record keepalive =
  kp_src_id :: dev
  kp_domain :: nat
  kp_dest :: ip

text \<open>One turn of the loop; the packet goes to the peer when the peer has a domain.\<close>

definition keepalive_tick :: "rat \<Rightarrow> vpc \<Rightarrow> dev \<Rightarrow> vpc \<times> (dev \<times> keepalive) option" where
  "keepalive_tick now s d =
     (case dom s d of
        None \<Rightarrow> (s, None)
      | Some x \<Rightarrow>
          if \<not> ka_task x then (s, None)
          else case find_peer s d of (s1, p) \<Rightarrow>
            (upd_dom d (\<lambda>x. if ka_status x = KaAlive \<and> now - ka_last x > ka_timeout x
                            then x\<lparr>ka_status := KaDead\<rparr> else x) s1,
             if truthy p \<and> dom s1 (the p) \<noteq> None
             then Some (the p, \<lparr>kp_src_id = d, kp_domain = vd_id x, kp_dest = ka_dest x\<rparr>) else None))"

subsection \<open>Roles and the peer link\<close>

definition all_ports :: "mport_state \<Rightarrow> vpc_domain \<Rightarrow> vpc_domain" where
  "all_ports st x = x\<lparr>vd_members := List.map (\<lambda>(i, m). (i, m\<lparr>vm_state := st\<rparr>)) (vd_members x)\<rparr>"

definition bring_up_peer_link :: "dev \<Rightarrow> dev \<Rightarrow> vpc \<Rightarrow> vpc" where
  "bring_up_peer_link a b s =
     (case (dom s a, dom s b) of
        (Some x, Some y) \<Rightarrow>
          if pl_if x \<noteq> [] \<and> pl_if y \<noteq> []
          then upd_dom b (\<lambda>y. all_ports PortUp (y\<lparr>pl_up := True\<rparr>))
                 (upd_dom a (\<lambda>x. all_ports PortUp (x\<lparr>pl_up := True\<rparr>)) s)
          else s
      | _ \<Rightarrow> s)"

definition a_is_primary :: "vpc_domain \<Rightarrow> vpc_domain \<Rightarrow> bool" where
  "a_is_primary x y \<longleftrightarrow> vd_priority x < vd_priority y \<or> (vd_priority x = vd_priority y \<and> str_less (vd_mac x) (vd_mac y))"

definition elect_role :: "dev \<Rightarrow> dev \<Rightarrow> vpc \<Rightarrow> vpc" where
  "elect_role a b s =
     (case (dom s a, dom s b) of
        (Some x, Some y) \<Rightarrow>
          let (ra, rb) = (if a_is_primary x y then (RolePrimary, RoleSecondary) else (RoleSecondary, RolePrimary))
          in bring_up_peer_link a b (upd_dom b (\<lambda>y. y\<lparr>vd_role := rb\<rparr>) (upd_dom a (\<lambda>x. x\<lparr>vd_role := ra\<rparr>) s))
      | _ \<Rightarrow> s)"

definition receive_keepalive :: "rat \<Rightarrow> vpc \<Rightarrow> dev \<Rightarrow> keepalive \<Rightarrow> vpc" where
  "receive_keepalive now s d k =
     (case dom s d of
        None \<Rightarrow> s
      | Some x \<Rightarrow>
          if kp_domain k \<noteq> vd_id x then s
          else if kp_dest k \<noteq> [] \<and> ka_src x \<noteq> [] \<and> kp_dest k \<noteq> ka_src x then s
          else let s1 = (if kp_src_id k \<noteq> [] \<and> dget (vpeers s) d = None
                         then s\<lparr>vpeers := dset (vpeers s) d (kp_src_id k)\<rparr> else s);
                   s2 = upd_dom d (\<lambda>x. x\<lparr>ka_status := KaAlive, ka_last := now\<rparr>) s1
               in if ka_status x \<noteq> KaAlive \<and> kp_src_id k \<noteq> [] then elect_role d (kp_src_id k) s2 else s2)"

definition set_peer_link :: "vpc \<Rightarrow> dev \<Rightarrow> iface \<Rightarrow> vpc" where
  "set_peer_link s d pc =
     (case dom s d of
        None \<Rightarrow> s
      | Some x \<Rightarrow>
          let s1 = upd_dom d (\<lambda>x. x\<lparr>pl_if := pc\<rparr>) s; p = dget (vpeers s) d
          in if truthy p \<and> ka_status x = KaAlive then bring_up_peer_link d (the p) s1 else s1)"

definition add_vpc_member :: "vpc \<Rightarrow> dev \<Rightarrow> iface \<Rightarrow> nat \<Rightarrow> vpc" where
  "add_vpc_member s d pc i =
     upd_dom d (\<lambda>x. x\<lparr>vd_members := dset (vd_members x) i
       \<lparr>vm_channel = pc, vm_state = (if pl_up x then PortUp else PortDown)\<rparr>\<rparr>) s"

definition set_role_priority :: "vpc \<Rightarrow> dev \<Rightarrow> int \<Rightarrow> vpc" where
  "set_role_priority s d p = upd_dom d (\<lambda>x. x\<lparr>vd_priority := p\<rparr>) s"

definition set_peer_gateway :: "vpc \<Rightarrow> dev \<Rightarrow> bool \<Rightarrow> vpc" where
  "set_peer_gateway s d b = upd_dom d (\<lambda>x. x\<lparr>vd_peer_gateway := b\<rparr>) s"

definition set_peer_switch :: "vpc \<Rightarrow> dev \<Rightarrow> bool \<Rightarrow> vpc" where
  "set_peer_switch s d b = upd_dom d (\<lambda>x. x\<lparr>vd_peer_switch := b\<rparr>) s"

definition simulate_peer_failure :: "vpc \<Rightarrow> dev \<Rightarrow> vpc" where
  "simulate_peer_failure s d =
     (case dom s d of
        None \<Rightarrow> s
      | Some _ \<Rightarrow>
          let s1 = upd_dom d (\<lambda>x. x\<lparr>ka_task := False, ka_status := KaDead\<rparr>) s; p = dget (vpeers s) d
          in if truthy p
             then upd_dom (the p) (\<lambda>y. y\<lparr>ka_status := KaDead,
                    vd_role := (if vd_role y = RoleSecondary then RoleOperPrimary else vd_role y)\<rparr>) s1
             else s1)"

definition simulate_peer_link_failure :: "vpc \<Rightarrow> dev \<Rightarrow> vpc" where
  "simulate_peer_link_failure s d =
     (case dom s d of
        None \<Rightarrow> s
      | Some _ \<Rightarrow>
          let s1 = upd_dom d (\<lambda>x. x\<lparr>pl_up := False\<rparr>) s; p = dget (vpeers s) d
          in if truthy p
             then upd_dom (the p) (\<lambda>y. let y1 = y\<lparr>pl_up := False\<rparr>
                    in if vd_role y1 \<in> {RoleSecondary, RoleNone} then all_ports PortSuspended y1 else y1) s1
             else s1)"

subsection \<open>The election\<close>

lemma dom_upd [simp]: "dom (upd_dom d f s) d' = (if d' = d then map_option f (dom s d) else dom s d')"
  by (auto simp: dom_def upd_dom_def split: option.splits)

definition role_of :: "vpc \<Rightarrow> dev \<Rightarrow> vpc_role option" where
  "role_of s d = map_option vd_role (dom s d)"

lemma role_bring_up [simp]: "role_of (bring_up_peer_link a b s) d = role_of s d"
  by (auto simp: role_of_def bring_up_peer_link_def all_ports_def option.map_comp comp_def split: option.splits)

lemma role_elect:
  assumes "dom s a = Some x" "dom s b = Some y" "a \<noteq> b"
  shows "role_of (elect_role a b s) a = Some (if a_is_primary x y then RolePrimary else RoleSecondary) \<and>
         role_of (elect_role a b s) b = Some (if a_is_primary x y then RoleSecondary else RolePrimary)"
proof -
  have "role_of (upd_dom b (\<lambda>y. y\<lparr>vd_role := rb\<rparr>) (upd_dom a (\<lambda>x. x\<lparr>vd_role := ra\<rparr>) s)) a = Some ra"
    "role_of (upd_dom b (\<lambda>y. y\<lparr>vd_role := rb\<rparr>) (upd_dom a (\<lambda>x. x\<lparr>vd_role := ra\<rparr>) s)) b = Some rb" for ra rb
    using assms by (auto simp: role_of_def)
  with assms show ?thesis by (simp add: elect_role_def)
qed

text \<open>The role election makes exactly one of two vPC peers primary, the one with the smaller (role
  priority, system MAC), and, when these differ, gives the same roles whichever of the two runs it.\<close>

theorem vpc_roles_agree:
  assumes "dom s a = Some x" "dom s b = Some y" "a \<noteq> b" "vd_priority x \<noteq> vd_priority y \<or> vd_mac x \<noteq> vd_mac y"
  shows "{role_of (elect_role a b s) a, role_of (elect_role a b s) b} = {Some RolePrimary, Some RoleSecondary} \<and>
    (role_of (elect_role a b s) a = Some RolePrimary \<longleftrightarrow>
       vd_priority x < vd_priority y \<or> (vd_priority x = vd_priority y \<and> str_less (vd_mac x) (vd_mac y))) \<and>
    role_of (elect_role b a s) a = role_of (elect_role a b s) a \<and>
    role_of (elect_role b a s) b = role_of (elect_role a b s) b"
proof -
  have "a_is_primary x y = (\<not> a_is_primary y x)"
    using assms(4) str_less_asym [of "vd_mac x" "vd_mac y"] str_less_total [of "vd_mac x" "vd_mac y"]
    by (auto simp: a_is_primary_def)
  then show ?thesis
    using role_elect [OF assms(1-3)] role_elect [OF assms(2,1)] assms(3)
    by (auto simp: a_is_primary_def)
qed

definition nexus_pair :: vpc where
  "nexus_pair =
     (let pair = create_domain (\<lambda>_. 2) (create_domain (\<lambda>_. 1) vpc_init ''n1'' 10) ''n2'' 10;
          s1 = set_keepalive (set_keepalive pair ''n1'' ''192.0.2.2'' ''192.0.2.1'' ''management'') ''n2'' ''192.0.2.1'' ''192.0.2.2'' ''management'';
          s2 = add_vpc_member (add_vpc_member s1 ''n1'' ''po20'' 20) ''n2'' ''po20'' 20;
          s3 = set_peer_link (set_peer_link s2 ''n1'' ''po10'') ''n2'' ''po10''
      in set_role_priority s3 ''n1'' 100)"

theorem vpc_roles_agree_witness:
  "role_of (elect_role ''n1'' ''n2'' nexus_pair) ''n1'' = Some RolePrimary \<and>
   role_of (elect_role ''n2'' ''n1'' nexus_pair) ''n1'' = Some RolePrimary"
proof -
  have "map_option vd_priority (dom nexus_pair ''n1'') = Some 100" "map_option vd_priority (dom nexus_pair ''n2'') = Some 32667"
    by code_simp+
  then obtain x y where xy: "dom nexus_pair ''n1'' = Some x" "dom nexus_pair ''n2'' = Some y" "vd_priority x = 100" "vd_priority y = 32667"
    by auto
  then show ?thesis using vpc_roles_agree [OF xy(1,2)] by auto
qed

subsection \<open>Failure of the peer link\<close>

definition pair_up :: vpc where
  "pair_up = (let (s, k) = keepalive_tick 1 nexus_pair ''n2''
              in case k of None \<Rightarrow> s
                 | Some (d, p) \<Rightarrow> receive_keepalive 2 (receive_keepalive 1 s d p) ''n2''
                     \<lparr>kp_src_id = ''n1'', kp_domain = 10, kp_dest = ''192.0.2.2''\<rparr>)"

definition port_states :: "vpc \<Rightarrow> dev \<Rightarrow> mport_state list" where
  "port_states s d = (case dom s d of None \<Rightarrow> [] | Some x \<Rightarrow> List.map (vm_state \<circ> snd) (vd_members x))"

text \<open>When the peer link fails, the member ports of the secondary are suspended only if the failure is
  entered on the primary; entered on the secondary, both switches keep forwarding on the port channel.\<close>

theorem peer_link_failure_on_secondary:
  "role_of pair_up ''n1'' = Some RolePrimary \<and> role_of pair_up ''n2'' = Some RoleSecondary \<and>
   port_states (simulate_peer_link_failure pair_up ''n1'') ''n2'' = [PortSuspended] \<and>
   port_states (simulate_peer_link_failure pair_up ''n2'') ''n1'' = [PortUp] \<and>
   port_states (simulate_peer_link_failure pair_up ''n2'') ''n2'' = [PortUp]"
  by (intro conjI; code_simp)

end
