(* ===== verification/Stp.thy ===== *)
theory Stp
  imports VNet
begin

text \<open>
  \<open>class StpEngine\<close>, first part: bridges, ports, BPDU processing with its guards, and the roles a bridge
  gives its ports. Log messages, and the copies of a bridge that are kept per VLAN for display, are left
  out. A handler's sends are its outputs; its short sleeps are not interleaved with other handlers.
\<close>

subsection \<open>State\<close>

datatype stp_state = Forwarding | Blocking | Discarding | Learning | ErrDisabled | RootInconsistent
datatype stp_role = Root | Designated | Alternate | Disabled

record stp_port =
  sp_name :: iface
  sp_state :: stp_state
  sp_role :: stp_role
  sp_cost :: nat
  sp_prio :: int
  sp_peer :: dev
  sp_portfast :: bool
  sp_bpduguard :: bool
  sp_root_guard :: bool
  sp_rx :: "(string \<times> nat \<times> string) option"

record port_cfg =
  pc_portfast :: bool
  pc_bpduguard :: bool
  pc_root_guard :: bool

record stp_node =
  sn_enabled :: bool
  sn_mode :: string
  sn_hostname :: string
  sn_priority :: int
  sn_mac :: string
  sn_bid :: string
  sn_root_bid :: string
  sn_root_cost :: nat
  sn_ports :: "(iface, stp_port) dict"
  sn_vlan :: int
  sn_task :: bool
  sn_tc_count :: nat
  sn_portfast_default :: bool
  sn_bpduguard_default :: bool

record stp =
  bridges :: "(dev, stp_node) dict"
  port_config :: "dev \<Rightarrow> (iface, port_cfg) dict"

definition stp_init :: stp where
  "stp_init = \<lparr>bridges = [], port_config = (\<lambda>_. [])\<rparr>"

subsection \<open>Bridge identifiers\<close>

text \<open>\<open>hash\<close> is Python's randomised string hash: a parameter.\<close>

definition stp_mac :: "(string \<Rightarrow> int) \<Rightarrow> dev \<Rightarrow> string" where
  "stp_mac pyhash d =
     (let h = \<bar>pyhash d\<bar> mod 0xffffff
      in ''00:0e:0e:'' @ hex02 (nat (octet 16 h)) @ '':'' @ hex02 (nat (octet 8 h)) @ '':'' @ hex02 (nat (octet 0 h)))"

definition vlan_bridge_id :: "(string \<Rightarrow> int) \<Rightarrow> dev \<Rightarrow> int \<Rightarrow> int \<Rightarrow> string" where
  "vlan_bridge_id pyhash d vlan priority = show_int (priority + vlan) @ ''.'' @ stp_mac pyhash d"

text \<open>\<open>bid.split('.', 1)\<close>.\<close>

fun split_dot :: "string \<Rightarrow> (string \<times> string) option" where
  "split_dot [] = None"
| "split_dot (c # cs) = (if c = CHR ''.'' then Some ([], cs) else map_option (\<lambda>(a, b). (c # a, b)) (split_dot cs))"

definition bid_key :: "string \<Rightarrow> int \<times> string" where
  "bid_key b = (case split_dot b of
     None \<Rightarrow> (2 ^ 20, b)
   | Some (p, m) \<Rightarrow> (case py_int p of None \<Rightarrow> (2 ^ 20, b) | Some n \<Rightarrow> (n, m)))"

definition key_less :: "int \<times> string \<Rightarrow> int \<times> string \<Rightarrow> bool" where
  "key_less = (\<lambda>(p, m) (q, n). p < q \<or> (p = q \<and> str_less m n))"

text \<open>\<open>int(p, 16)\<close> of a run of hexadecimal digits.\<close>

definition hex_value :: "char \<Rightarrow> int option" where
  "hex_value c = (if is_digit c then Some (int (code_of c) - 48)
     else if 97 \<le> code_of c \<and> code_of c \<le> 102 then Some (int (code_of c) - 87)
     else if 65 \<le> code_of c \<and> code_of c \<le> 70 then Some (int (code_of c) - 55) else None)"

fun hex_number :: "int \<Rightarrow> string \<Rightarrow> int option" where
  "hex_number acc [] = Some acc"
| "hex_number acc (c # cs) = (case hex_value c of None \<Rightarrow> None | Some v \<Rightarrow> hex_number (16 * acc + v) cs)"

text \<open>\<open>_compare_bridge_id(a, b) < 0\<close>; an identifier without a number in front, which the engine never makes,
  raises in the code.\<close>

definition bid_less :: "string \<Rightarrow> string \<Rightarrow> bool" where
  "bid_less a b =
     (case (split_dot a, split_dot b) of
        (Some (p, m), Some (q, n)) \<Rightarrow>
          (case (hex_number 0 p, hex_number 0 q) of
             (Some x, Some y) \<Rightarrow> x < y \<or> (x = y \<and> str_less m n)
           | _ \<Rightarrow> False)
      | _ \<Rightarrow> False)"

definition new_bridge :: "(string \<Rightarrow> int) \<Rightarrow> dev \<Rightarrow> int \<Rightarrow> stp_node" where
  "new_bridge pyhash d vlan =
     \<lparr>sn_enabled = False, sn_mode = ''rstp'', sn_hostname = d, sn_priority = 32768, sn_mac = stp_mac pyhash d,
      sn_bid = ''8000.'' @ stp_mac pyhash d, sn_root_bid = ''8000.'' @ stp_mac pyhash d, sn_root_cost = 0,
      sn_ports = [], sn_vlan = vlan, sn_task = False, sn_tc_count = 0, sn_portfast_default = False,
      sn_bpduguard_default = False\<rparr>"

definition bridge_of :: "(string \<Rightarrow> int) \<Rightarrow> stp \<Rightarrow> dev \<Rightarrow> int \<Rightarrow> stp_node" where
  "bridge_of pyhash s d vlan = dget_or (bridges s) d (new_bridge pyhash d vlan)"

definition set_bridge :: "dev \<Rightarrow> stp_node \<Rightarrow> stp \<Rightarrow> stp" where
  "set_bridge d n s = s\<lparr>bridges := dset (bridges s) d n\<rparr>"

definition upd_port :: "iface \<Rightarrow> (stp_port \<Rightarrow> stp_port) \<Rightarrow> stp_node \<Rightarrow> stp_node" where
  "upd_port i f n = (case dget (sn_ports n) i of None \<Rightarrow> n | Some p \<Rightarrow> n\<lparr>sn_ports := dset (sn_ports n) i (f p)\<rparr>)"

definition map_ports :: "(stp_port \<Rightarrow> stp_port) \<Rightarrow> stp_node \<Rightarrow> stp_node" where
  "map_ports f n = n\<lparr>sn_ports := List.map (\<lambda>(i, p). (i, f p)) (sn_ports n)\<rparr>"

subsection \<open>Port options\<close>

definition cfg_of :: "stp \<Rightarrow> dev \<Rightarrow> iface \<Rightarrow> port_cfg" where
  "cfg_of s d i = dget_or (port_config s d) i \<lparr>pc_portfast = False, pc_bpduguard = False, pc_root_guard = False\<rparr>"

definition set_cfg :: "dev \<Rightarrow> iface \<Rightarrow> port_cfg \<Rightarrow> stp \<Rightarrow> stp" where
  "set_cfg d i c s = s\<lparr>port_config := (port_config s)(d := dset (port_config s d) i c)\<rparr>"

definition set_portfast :: "stp \<Rightarrow> dev \<Rightarrow> iface \<Rightarrow> bool \<Rightarrow> stp" where
  "set_portfast s d i b =
     (let s1 = set_cfg d i ((cfg_of s d i)\<lparr>pc_portfast := b\<rparr>) s
      in case dget (bridges s) d of
           None \<Rightarrow> s1
         | Some n \<Rightarrow> set_bridge d (upd_port i (\<lambda>p.
             let p1 = p\<lparr>sp_portfast := b\<rparr>
             in if b then p1\<lparr>sp_state := Forwarding, sp_role := Designated\<rparr> else p1) n) s1)"

definition set_portfast_default :: "(string \<Rightarrow> int) \<Rightarrow> stp \<Rightarrow> dev \<Rightarrow> bool \<Rightarrow> stp" where
  "set_portfast_default pyhash s d b =
     (let n = (bridge_of pyhash s d 1)\<lparr>sn_portfast_default := b\<rparr>
      in set_bridge d (if b then map_ports (\<lambda>p. p\<lparr>sp_portfast := True, sp_state := Forwarding\<rparr>) n else n) s)"

definition set_bpduguard :: "stp \<Rightarrow> dev \<Rightarrow> iface \<Rightarrow> bool \<Rightarrow> stp" where
  "set_bpduguard s d i b =
     (let s1 = set_cfg d i ((cfg_of s d i)\<lparr>pc_bpduguard := b\<rparr>) s
      in case dget (bridges s) d of
           None \<Rightarrow> s1
         | Some n \<Rightarrow> set_bridge d (upd_port i (\<lambda>p. p\<lparr>sp_bpduguard := b\<rparr>) n) s1)"

definition set_bpduguard_default :: "(string \<Rightarrow> int) \<Rightarrow> stp \<Rightarrow> dev \<Rightarrow> bool \<Rightarrow> stp" where
  "set_bpduguard_default pyhash s d b =
     set_bridge d ((bridge_of pyhash s d 1)\<lparr>sn_bpduguard_default := b\<rparr>) s"

subsection \<open>Starting a bridge\<close>

definition port_name_for_peer :: "vnet \<Rightarrow> dev \<Rightarrow> dev \<Rightarrow> string \<Rightarrow> iface" where
  "port_name_for_peer v d peer fallback =
     (let real = dget (interface_links v d) peer in if truthy real then the real else fallback)"

definition fresh_port :: "iface \<Rightarrow> stp_state \<Rightarrow> dev \<Rightarrow> stp_port" where
  "fresh_port i st peer = \<lparr>sp_name = i, sp_state = st, sp_role = Designated, sp_cost = 19, sp_prio = 128,
     sp_peer = peer, sp_portfast = False, sp_bpduguard = False, sp_root_guard = False, sp_rx = None\<rparr>"

definition ether :: "nat \<Rightarrow> iface" where
  "ether k = ''ether '' @ show_nat k"

fun init_ports :: "vnet \<Rightarrow> dev \<Rightarrow> nat \<Rightarrow> dev list \<Rightarrow> stp_node \<Rightarrow> stp_node" where
  "init_ports v d k [] n = n"
| "init_ports v d k (p # ps) n =
     (let i = port_name_for_peer v d p (ether k)
      in init_ports v d (Suc k) ps
           (if dget (sn_ports n) i = None then n\<lparr>sn_ports := dset (sn_ports n) i (fresh_port i Forwarding p)\<rparr> else n))"

definition start_bridge :: "(string \<Rightarrow> int) \<Rightarrow> vnet \<Rightarrow> stp \<Rightarrow> dev \<Rightarrow> string \<Rightarrow> string \<Rightarrow> int \<Rightarrow> int \<Rightarrow> stp" where
  "start_bridge pyhash v s d host md priority vlan =
     (let b = vlan_bridge_id pyhash d vlan priority;
          n = (bridge_of pyhash s d vlan)\<lparr>sn_enabled := True, sn_mode := md, sn_hostname := host,
                sn_priority := priority, sn_bid := b, sn_root_bid := b, sn_root_cost := 0, sn_vlan := vlan\<rparr>
      in set_bridge d ((init_ports v d 1 (get_neighbors v d) n)\<lparr>sn_task := True\<rparr>) s)"

record bpdu =
  bp_src :: dev
  bp_root_bid :: string
  bp_root_cost :: nat
  bp_bid :: string
  bp_tc :: bool

definition bpdu_from :: "dev \<Rightarrow> stp_node \<Rightarrow> bool \<Rightarrow> bpdu" where
  "bpdu_from d n tc = \<lparr>bp_src = d, bp_root_bid = sn_root_bid n, bp_root_cost = sn_root_cost n, bp_bid = sn_bid n, bp_tc = tc\<rparr>"

definition send_bpdu :: "stp \<Rightarrow> dev \<Rightarrow> bpdu list" where
  "send_bpdu s d = (case dget (bridges s) d of
     None \<Rightarrow> [] | Some n \<Rightarrow> if sn_enabled n then [bpdu_from d n False] else [])"

definition send_tcn :: "stp \<Rightarrow> dev \<Rightarrow> bpdu list" where
  "send_tcn s d = (case dget (bridges s) d of None \<Rightarrow> [] | Some n \<Rightarrow> [bpdu_from d n True])"

definition set_vlan_priority :: "(string \<Rightarrow> int) \<Rightarrow> stp \<Rightarrow> dev \<Rightarrow> int \<Rightarrow> int \<Rightarrow> stp \<times> bpdu list" where
  "set_vlan_priority pyhash s d vlan priority =
     (let n = (bridge_of pyhash s d 1)\<lparr>sn_priority := priority, sn_bid := vlan_bridge_id pyhash d vlan priority\<rparr>;
          n' = (if sn_enabled n then n\<lparr>sn_root_bid := sn_bid n, sn_root_cost := 0\<rparr> else n);
          s' = set_bridge d n' s
      in (s', send_bpdu s' d))"

definition elect_root :: "stp_node \<Rightarrow> stp_node" where
  "elect_root n =
     (if sn_root_bid n = sn_bid n then map_ports (\<lambda>p. p\<lparr>sp_role := Designated, sp_state := Forwarding\<rparr>) n else n)"

definition add_port :: "(string \<Rightarrow> int) \<Rightarrow> stp \<Rightarrow> dev \<Rightarrow> iface \<Rightarrow> dev \<Rightarrow> stp" where
  "add_port pyhash s d i peer =
     (let b = bridge_of pyhash s d 1;
          n = b\<lparr>sn_ports := dset (sn_ports b) i (fresh_port i Blocking peer)\<rparr>
      in set_bridge d (if sn_enabled n then elect_root n else n) s)"

definition stop_bridge :: "stp \<Rightarrow> dev \<Rightarrow> stp" where
  "stop_bridge s d = (case dget (bridges s) d of
     None \<Rightarrow> s | Some n \<Rightarrow> set_bridge d (n\<lparr>sn_task := False, sn_enabled := False\<rparr>) s)"

subsection \<open>Port roles of one bridge\<close>

text \<open>The scan for the root port; \<open>best\<close> is its name, path cost and sender.\<close>

fun root_port_scan :: "string \<Rightarrow> (iface, stp_port) dict \<Rightarrow> (iface \<times> nat \<times> string) option \<Rightarrow> (iface \<times> nat \<times> string) option" where
  "root_port_scan rb [] best = best"
| "root_port_scan rb ((i, p) # ps) best =
     (case sp_rx p of
        None \<Rightarrow> root_port_scan rb ps best
      | Some (rroot, rcost, sender) \<Rightarrow>
          if rroot \<noteq> rb then root_port_scan rb ps best
          else let c = rcost + sp_cost p
               in root_port_scan rb ps
                    (case best of
                       None \<Rightarrow> Some (i, c, sender)
                     | Some (_, bc, bs) \<Rightarrow> if c < bc \<or> (c = bc \<and> bid_less sender bs) then Some (i, c, sender) else best))"

definition give :: "stp_role \<Rightarrow> stp_state \<Rightarrow> stp_port \<Rightarrow> stp_port" where
  "give r st p = p\<lparr>sp_role := r, sp_state := st\<rparr>"

definition port_role :: "stp_node \<Rightarrow> iface option \<Rightarrow> iface \<Rightarrow> stp_port \<Rightarrow> stp_port" where
  "port_role n rp i p =
     (if rp = Some i then give Root Forwarding p
      else case sp_rx p of
        None \<Rightarrow> give Designated Forwarding p
      | Some (_, their_cost, sender) \<Rightarrow>
          if their_cost < sn_root_cost n then give Alternate Blocking p
          else if their_cost = sn_root_cost n then
            (if bid_less (sn_bid n) sender then give Designated Forwarding p else give Alternate Blocking p)
          else give Designated Forwarding p)"

definition recompute_port_roles :: "stp_node \<Rightarrow> stp_node" where
  "recompute_port_roles n =
     (if sn_root_bid n = sn_bid n then map_ports (give Designated Forwarding) n
      else let rp = map_option fst (root_port_scan (sn_root_bid n) (sn_ports n) None)
           in n\<lparr>sn_ports := List.map (\<lambda>(i, p). (i, port_role n rp i p)) (sn_ports n)\<rparr>)"

subsection \<open>Receiving a BPDU\<close>

definition port_to :: "stp_node \<Rightarrow> dev \<Rightarrow> (iface \<times> stp_port) option" where
  "port_to n peer = find (\<lambda>(_, p). sp_peer p = peer) (sn_ports n)"

definition learn_root :: "stp_node \<Rightarrow> bpdu \<Rightarrow> nat \<Rightarrow> stp_node" where
  "learn_root n m cost =
     (if bid_less (bp_root_bid m) (sn_root_bid n) \<or>
         (bp_root_bid m = sn_root_bid n \<and> bp_root_cost m + cost < sn_root_cost n)
      then n\<lparr>sn_root_bid := bp_root_bid m, sn_root_cost := bp_root_cost m + cost\<rparr> else n)"

definition accept_bpdu :: "stp_node \<Rightarrow> iface \<Rightarrow> stp_port \<Rightarrow> bpdu \<Rightarrow> stp_node" where
  "accept_bpdu n i p m =
     (let n1 = upd_port i (\<lambda>p. p\<lparr>sp_rx := Some (bp_root_bid m, bp_root_cost m, bp_bid m)\<rparr>) n;
          n2 = (if bp_tc m then n1\<lparr>sn_tc_count := sn_tc_count n1 + 1\<rparr> else n1)
      in recompute_port_roles (learn_root n2 m (sp_cost p)))"

definition receive_bpdu :: "stp \<Rightarrow> dev \<Rightarrow> bpdu \<Rightarrow> stp" where
  "receive_bpdu s d m =
     (case dget (bridges s) d of
        None \<Rightarrow> s
      | Some n \<Rightarrow>
          if \<not> sn_enabled n then s
          else case port_to n (bp_src m) of
            None \<Rightarrow> s
          | Some (i, p) \<Rightarrow>
              let cfg = cfg_of s d (sp_name p);
                  portfast = sp_portfast p \<or> pc_portfast cfg;
                  guard = sp_bpduguard p \<or> pc_bpduguard cfg \<or> sn_bpduguard_default n
              in if portfast \<and> guard then set_bridge d (upd_port i (give Disabled ErrDisabled) n) s
                 else let s1 = (if portfast \<and> dget (port_config s d) (sp_name p) \<noteq> None
                                then set_cfg d (sp_name p) (cfg\<lparr>pc_portfast := False\<rparr>) s else s);
                          n1 = (if portfast then upd_port i (\<lambda>p. p\<lparr>sp_portfast := False, sp_state := Discarding\<rparr>) n else n);
                          st = (if portfast then Discarding else sp_state p)
                      in if sp_root_guard p \<or> pc_root_guard cfg then
                           (if bid_less (bp_root_bid m) (sn_bid n) then
                              set_bridge d (if st \<noteq> RootInconsistent
                                then (upd_port i (give Alternate RootInconsistent) n1)\<lparr>sn_tc_count := sn_tc_count n1 + 1\<rparr>
                                else n1) s1
                            else set_bridge d (accept_bpdu
                              (if st = RootInconsistent then upd_port i (\<lambda>p. p\<lparr>sp_state := Forwarding\<rparr>) n1 else n1) i p m) s1)
                         else set_bridge d (accept_bpdu n1 i p m) s1)"

text \<open>The task a demoted edge port (or a new port) starts: it ends in forwarding, whatever the port's state
  is by then.\<close>

definition rapid_transition :: "stp \<Rightarrow> dev \<Rightarrow> iface \<Rightarrow> stp" where
  "rapid_transition s d i = (case dget (bridges s) d of
     None \<Rightarrow> s | Some n \<Rightarrow> set_bridge d (upd_port i (\<lambda>p. p\<lparr>sp_state := Forwarding\<rparr>) n) s)"

subsection \<open>The whole topology\<close>

type_synonym wadj = "(dev, (dev, nat) dict) dict"

definition live_edges :: "(dev, stp_node) dict \<Rightarrow> dev \<Rightarrow> stp_node \<Rightarrow> (dev, nat) dict" where
  "live_edges en d n =
     fold (\<lambda>(_, p) row. case dget en (sp_peer p) of
         None \<Rightarrow> row
       | Some pn \<Rightarrow> if \<exists>(_, q)\<in>set (sn_ports pn). sp_peer q = d then dset row (sp_peer p) (sp_cost p) else row)
       (sn_ports n) []"

definition live_adj :: "(dev, stp_node) dict \<Rightarrow> wadj" where
  "live_adj en = List.map (\<lambda>(d, n). (d, live_edges en d n)) en"

definition row_of :: "wadj \<Rightarrow> dev \<Rightarrow> (dev, nat) dict" where
  "row_of adj d = dget_or adj d []"

definition verts :: "wadj \<Rightarrow> dev set" where
  "verts adj = (\<Union>(d, row)\<in>set adj. insert d (fst ` set row))"

lemma finite_verts [simp]: "finite (verts adj)"
  by (auto simp: verts_def)

lemma row_verts: "(v, w) \<in> set (row_of adj u) \<Longrightarrow> v \<in> verts adj"
proof (cases "dget adj u")
  case (Some row)
  moreover assume "(v, w) \<in> set (row_of adj u)"
  ultimately have "(u, row) \<in> set adj" "v \<in> fst ` set row"
    by (auto simp: row_of_def dget_or_def rev_image_eqI dest: dget_SomeD)
  then show ?thesis by (auto simp: verts_def intro!: bexI [of _ "(u, row)"])
qed (simp add: row_of_def dget_or_def)

text \<open>The component of a bridge, by depth-first search with a stack (its top is the head here).\<close>

fun push_new :: "(dev, nat) dict \<Rightarrow> dev list \<Rightarrow> dev list \<Rightarrow> dev list \<times> dev list" where
  "push_new [] stack seen = (stack, seen)"
| "push_new ((y, _) # ys) stack seen =
     (if y \<in> set seen then push_new ys stack seen else push_new ys (y # stack) (y # seen))"

lemma push_new_spec:
  assumes "push_new row stack seen = (st', seen')"
  shows "\<exists>new. st' = new @ stack \<and> set seen' = set seen \<union> set new \<and> set new = fst ` set row - set seen \<and>
     distinct new"
  using assms
proof (induction row stack seen rule: push_new.induct)
  case (2 y w ys stack seen)
  show ?case
  proof (cases "y \<in> set seen")
    case True
    with 2 show ?thesis by auto
  next
    case False
    with 2 obtain new where "st' = new @ y # stack" "set seen' = set (y # seen) \<union> set new"
      "set new = fst ` set ys - set (y # seen)" "distinct new" by auto
    with False show ?thesis by (intro exI [of _ "new @ [y]"]) auto
  qed
qed simp

lemma push_new_measure:
  assumes "push_new row stack seen = (st', seen')" "fst ` set row \<subseteq> T" "finite T"
  shows "length st' + card (T - set seen') = length stack + card (T - set seen)"
proof -
  from push_new_spec [OF assms(1)] obtain new where
    n: "st' = new @ stack" "set seen' = set seen \<union> set new" "set new = fst ` set row - set seen" "distinct new" by blast
  have "set new \<subseteq> T - set seen" using n(3) assms(2) by auto
  moreover have "T - set seen' = (T - set seen) - set new" using n(2) by auto
  ultimately have "card (T - set seen') = card (T - set seen) - card (set new)" "card (set new) \<le> card (T - set seen)"
    using assms(3) by (simp_all add: card_Diff_subset card_mono)
  then show ?thesis using n(1,4) by (simp add: distinct_card)
qed

function collect :: "wadj \<Rightarrow> dev list \<Rightarrow> dev list \<Rightarrow> dev list \<Rightarrow> dev list \<times> dev list" where
  "collect adj found [] seen = (found, seen)"
| "collect adj found (x # stack) seen =
     (let (stack', seen') = push_new (row_of adj x) stack seen in collect adj (found @ [x]) stack' seen')"
  by pat_completeness auto
termination
proof (relation "measure (\<lambda>(adj, found, stack, seen). length stack + card (verts adj - set seen))", goal_cases)
  case (2 adj found x stack seen y st' seen')
  then have "push_new (row_of adj x) stack seen = (st', seen')" by simp
  then have "length st' + card (verts adj - set seen') = length stack + card (verts adj - set seen)"
    by (intro push_new_measure [where row = "row_of adj x"]) (auto dest: row_verts)
  then show ?case by simp
qed simp

text \<open>Dijkstra's loop. The queue is a list of (cost, bridge) pairs, from which the least is taken; absent
  distances count as \<open>1e9\<close>.\<close>

definition far :: nat where "far = 1000000000"

definition dist_of :: "(dev, nat) dict \<Rightarrow> dev \<Rightarrow> nat" where
  "dist_of dist v = dget_or dist v far"

definition entry_less :: "nat \<times> dev \<Rightarrow> nat \<times> dev \<Rightarrow> bool" where
  "entry_less = (\<lambda>(c, u) (c', u'). c < c' \<or> (c = c' \<and> str_less u u'))"

fun relax :: "nat \<Rightarrow> (dev, nat) dict \<Rightarrow> (dev, nat) dict \<Rightarrow> (nat \<times> dev) list \<Rightarrow> (dev, nat) dict \<times> (nat \<times> dev) list" where
  "relax c [] dist pq = (dist, pq)"
| "relax c ((v, w) # row) dist pq =
     (if c + w < dist_of dist v then relax c row (dset dist v (c + w)) ((c + w, v) # pq)
      else relax c row dist pq)"

definition dist_sum :: "dev set \<Rightarrow> (dev, nat) dict \<Rightarrow> nat" where
  "dist_sum V dist = (\<Sum>v\<in>V. dist_of dist v)"

lemma dist_of_dset [simp]: "dist_of (dset dist v c) u = (if u = v then c else dist_of dist u)"
  by (simp add: dist_of_def dget_or_def)

lemma dist_sum_dset: "finite V \<Longrightarrow> v \<in> V \<Longrightarrow> c < dist_of dist v \<Longrightarrow> dist_sum V (dset dist v c) < dist_sum V dist"
  by (auto simp: dist_sum_def intro!: sum_strict_mono_ex1)

lemma relax_dist_sum:
  assumes "relax c row dist pq = (dist', pq')" "fst ` set row \<subseteq> V" "finite V"
  shows "dist_sum V dist' < dist_sum V dist \<or> (dist' = dist \<and> pq' = pq)"
  using assms
proof (induction c row dist pq rule: relax.induct)
  case (2 c v w row dist pq)
  show ?case
  proof (cases "c + w < dist_of dist v")
    case True
    then have "dist_sum V (dset dist v (c + w)) < dist_sum V dist" using 2 by (intro dist_sum_dset) auto
    moreover have "dist_sum V dist' < dist_sum V (dset dist v (c + w)) \<or> (dist' = dset dist v (c + w) \<and> pq' = (c + w, v) # pq)"
      using 2 True by auto
    ultimately show ?thesis by auto
  qed (use 2 in auto)
qed simp

function dijkstra :: "wadj \<Rightarrow> (dev, nat) dict \<Rightarrow> (nat \<times> dev) list \<Rightarrow> (dev, nat) dict" where
  "dijkstra adj dist pq =
     (case pick entry_less None pq of
        None \<Rightarrow> dist
      | Some (c, u) \<Rightarrow>
          let pq1 = remove1 (c, u) pq
          in if c > dist_of dist u then dijkstra adj dist pq1
             else (let (dist', pq') = relax c (row_of adj u) dist pq1 in dijkstra adj dist' pq'))"
  by pat_completeness auto
termination
proof (relation "measures [\<lambda>(adj, dist, pq). dist_sum (verts adj) dist, \<lambda>(adj, dist, pq). length pq]", goal_cases)
  case 1
  show ?case by simp
next
  case (2 adj dist pq x c u pq1)
  then have "(c, u) \<in> set pq" by (auto dest: pick_mem)
  with 2 length_pos_if_in_set [OF this] show ?case by (auto simp: length_remove1)
next
  case (3 adj dist pq x c u pq1 y dist' pq')
  then have m: "(c, u) \<in> set pq" by (auto dest: pick_mem)
  from 3 have "dist_sum (verts adj) dist' < dist_sum (verts adj) dist \<or> (dist' = dist \<and> pq' = pq1)"
    by (intro relax_dist_sum [of c "row_of adj u"]) (auto dest: sym row_verts)
  moreover have "length pq1 < length pq" using 3 m length_pos_if_in_set [OF m] by (simp add: length_remove1)
  ultimately show ?case by auto
qed

declare dijkstra.simps [simp del]

text \<open>What every bridge of a component becomes, from the distances to the component's root. The next hops
  the code's loop also records are not used by it.\<close>

fun toward_scan :: "(dev, nat) dict \<Rightarrow> nat \<Rightarrow> (dev, nat) dict \<Rightarrow> (dev \<times> nat) option \<Rightarrow> dev option" where
  "toward_scan dist dd [] best = map_option fst best"
| "toward_scan dist dd ((v, w) # row) best =
     toward_scan dist dd row
       (if dist_of dist v + w = dd \<and> (case best of None \<Rightarrow> True | Some (_, b) \<Rightarrow> dist_of dist v < b)
        then Some (v, dist_of dist v) else best)"

definition toward :: "wadj \<Rightarrow> (dev, nat) dict \<Rightarrow> dev \<Rightarrow> dev option" where
  "toward adj dist d = (case dget dist d of None \<Rightarrow> None | Some dd \<Rightarrow> toward_scan dist dd (row_of adj d) None)"

definition key_of :: "(dev, stp_node) dict \<Rightarrow> dev \<Rightarrow> int \<times> string" where
  "key_of en d = (case dget en d of None \<Rightarrow> (0, []) | Some n \<Rightarrow> bid_key (sn_bid n))"

definition settle_port :: "(dev, stp_node) dict \<Rightarrow> wadj \<Rightarrow> (dev, nat) dict \<Rightarrow> dev \<Rightarrow> dev \<Rightarrow> stp_port \<Rightarrow> stp_port" where
  "settle_port en adj dist root d p =
     (let peer = sp_peer p; my = dget_or dist d 0; their = dist_of dist peer
      in if dget (row_of adj d) peer = None then p
         else if d = root then give Designated Forwarding p
         else if toward adj dist d = Some peer then give Root Forwarding p
         else if their < my \<or> (their = my \<and> key_less (key_of en peer) (key_of en d)) then give Alternate Blocking p
         else give Designated Forwarding p)"

definition settle_node :: "(dev, stp_node) dict \<Rightarrow> wadj \<Rightarrow> (dev, nat) dict \<Rightarrow> dev \<Rightarrow> dev \<Rightarrow> stp_node \<Rightarrow> stp_node" where
  "settle_node en adj dist root d n =
     (map_ports (settle_port en adj dist root d) n)
       \<lparr>sn_root_bid := (case dget en root of None \<Rightarrow> [] | Some r \<Rightarrow> sn_bid r), sn_root_cost := dget_or dist d 0\<rparr>"

definition root_of :: "(dev, stp_node) dict \<Rightarrow> dev list \<Rightarrow> dev" where
  "root_of en found = (case pick (\<lambda>a b. key_less (key_of en a) (key_of en b)) None found of None \<Rightarrow> [] | Some r \<Rightarrow> r)"

definition distances :: "wadj \<Rightarrow> dev \<Rightarrow> (dev, nat) dict" where
  "distances adj root = dijkstra adj [(root, 0)] [(0, root)]"

definition settle_component :: "(dev, stp_node) dict \<Rightarrow> wadj \<Rightarrow> dev list \<Rightarrow> (dev, stp_node) dict \<Rightarrow> (dev, stp_node) dict" where
  "settle_component en adj found bs =
     (let root = root_of en found; dist = distances adj root
      in List.map (\<lambda>(d, n). (d, if d \<in> set found then settle_node en adj dist root d n else n)) bs)"

fun settle_all :: "(dev, stp_node) dict \<Rightarrow> wadj \<Rightarrow> dev list \<Rightarrow> dev list \<Rightarrow> (dev, stp_node) dict \<Rightarrow> (dev, stp_node) dict" where
  "settle_all en adj [] seen bs = bs"
| "settle_all en adj (d # ds) seen bs =
     (if d \<in> set seen then settle_all en adj ds seen bs
      else (let (found, seen') = collect adj [] [d] (d # seen)
            in settle_all en adj ds seen' (settle_component en adj found bs)))"

definition enabled_bridges :: "(dev, stp_node) dict \<Rightarrow> (dev, stp_node) dict" where
  "enabled_bridges bs = filter (\<lambda>(_, n). sn_enabled n) bs"

definition recompute_topology :: "stp \<Rightarrow> stp" where
  "recompute_topology s =
     (let en = enabled_bridges (bridges s)
      in s\<lparr>bridges := settle_all en (live_adj en) (dkeys en) [] (bridges s)\<rparr>)"

subsection \<open>Links going down and coming up\<close>

definition port_down :: "stp \<Rightarrow> dev \<Rightarrow> dev \<Rightarrow> stp \<times> bpdu list" where
  "port_down s d peer =
     (case dget (bridges s) d of
        None \<Rightarrow> (s, [])
      | Some n \<Rightarrow>
          if \<not> sn_enabled n then (s, [])
          else case port_to n peer of
            None \<Rightarrow> (s, [])
          | Some (i, p) \<Rightarrow>
              let n1 = n\<lparr>sn_ports := dpop (sn_ports n) i, sn_tc_count := sn_tc_count n + 1\<rparr>;
                  tcn = send_tcn (set_bridge d n1 s) d;
                  n2 = (if sp_role p = Root
                        then map_ports (\<lambda>q. if sp_role q = Alternate then q\<lparr>sp_state := Forwarding\<rparr> else q)
                               (n1\<lparr>sn_root_bid := sn_bid n1, sn_root_cost := 0\<rparr>)
                        else n1)
              in (recompute_topology (set_bridge d (recompute_port_roles n2) s), tcn))"

function free_ether :: "(iface, stp_port) dict \<Rightarrow> nat \<Rightarrow> nat \<Rightarrow> nat" where
  "free_ether ports fuel k = (if fuel = 0 \<or> dget ports (ether k) = None then k else free_ether ports (fuel - 1) (Suc k))"
  by pat_completeness auto
termination by (relation "measure (\<lambda>(_, fuel, _). fuel)") auto

declare free_ether.simps [simp del]

definition port_up :: "vnet \<Rightarrow> stp \<Rightarrow> dev \<Rightarrow> dev \<Rightarrow> stp" where
  "port_up v s d peer =
     (case dget (bridges s) d of
        None \<Rightarrow> s
      | Some n \<Rightarrow>
          if \<not> sn_enabled n then s
          else if port_to n peer \<noteq> None then recompute_topology s
          else let i = port_name_for_peer v d peer (ether (free_ether (sn_ports n) (length (sn_ports n)) 1));
                   rstp = (sn_mode n = ''rstp'');
                   p = fresh_port i (if rstp then Discarding else Blocking) peer;
                   p' = (if rstp then p\<lparr>sp_state := Forwarding\<rparr> else p)
               in recompute_topology (set_bridge d (n\<lparr>sn_ports := dset (sn_ports n) i p'\<rparr>) s))"

subsection \<open>A blocked port that comes back\<close>

definition guard_net :: stp where
  "guard_net =
     (let pyhash = (\<lambda>d. if d = ''s1'' then 1 else if d = ''s2'' then 2 else 3);
          v = vnet_init\<lparr>links := [(''s1'', [''s2'', ''s3''])],
                interface_links := (\<lambda>_. [(''s2'', ''g1''), (''s3'', ''g2'')])\<rparr>;
          s = start_bridge pyhash v stp_init ''s1'' ''S1'' ''rstp'' 32768 1
      in set_bpduguard (set_portfast s ''s1'' ''g1'' True) ''s1'' ''g1'' True)"

definition states_at :: "stp \<Rightarrow> dev \<Rightarrow> (iface \<times> stp_state) list" where
  "states_at s d = (case dget (bridges s) d of None \<Rightarrow> [] | Some n \<Rightarrow> List.map (\<lambda>(i, p). (i, sp_state p)) (sn_ports n))"


text \<open>A port that BPDU guard has disabled does not stay disabled: the next BPDU on any other port of the
  bridge gives every port a new role, and the guarded port forwards again.\<close>

theorem bpduguard_undone:
  "(let m = (\<lambda>d. \<lparr>bp_src = d, bp_root_bid = ''40000.ff'', bp_root_cost = 0, bp_bid = ''40000.ff'', bp_tc = False\<rparr>);
        s = receive_bpdu guard_net ''s1'' (m ''s2'')
    in states_at s ''s1'' = [(''g1'', ErrDisabled), (''g2'', Forwarding)] \<and>
       states_at (receive_bpdu s ''s1'' (m ''s3'')) ''s1'' = [(''g1'', Forwarding), (''g2'', Forwarding)])"
  by code_simp

end
