(* ===== verification/StpTree.thy ===== *)
theory StpTree
  imports Stp Selection "HOL-Library.Product_Lexorder" "HOL-Library.List_Lexorder"
begin

text \<open>
  The result of \<open>StpEngine.recompute_topology\<close>: on every connected part of the bridges the links that
  forward at both ends form a tree rooted at the bridge with the least identifier. The proof goes
  through the invariant of the shortest-path loop, which does not depend on the order of the queue.
\<close>

definition edge :: "wadj \<Rightarrow> dev \<Rightarrow> dev \<Rightarrow> bool" where
  "edge adj u v \<longleftrightarrow> dget (row_of adj u) v \<noteq> None"

text \<open>Every port has the cost the engine gives it, and the edges go both ways.\<close>

definition uniform :: "wadj \<Rightarrow> bool" where
  "uniform adj \<longleftrightarrow> (\<forall>u v w. (v, w) \<in> set (row_of adj u) \<longrightarrow> w = 19) \<and> (\<forall>u v. edge adj u v \<longrightarrow> edge adj v u)"

lemma edge_set: "edge adj u v \<longleftrightarrow> v \<in> fst ` set (row_of adj u)"
  by (auto simp: edge_def dget_def map_of_eq_None_iff)

lemma edge_verts: "edge adj u v \<Longrightarrow> v \<in> verts adj"
  by (auto simp: edge_set dest: row_verts)

subsection \<open>Relaxing\<close>

lemma relax_spec:
  assumes "relax c row dist pq = (dist', pq')" "\<forall>(v, w)\<in>set row. w = 19"
  shows "(\<forall>v. dist_of dist' v \<le> dist_of dist v) \<and>
    (\<forall>v\<in>fst ` set row. dist_of dist' v \<le> c + 19) \<and>
    (\<forall>v. dget dist' v = dget dist v \<or>
       (dget dist' v = Some (c + 19) \<and> v \<in> fst ` set row \<and> (c + 19, v) \<in> set pq' \<and> c + 19 < dist_of dist v)) \<and>
    set pq \<subseteq> set pq' \<and> (\<forall>(x, v)\<in>set pq' - set pq. x = c + 19 \<and> dget dist' v = Some (c + 19))"
  using assms
proof (induction c row dist pq rule: relax.induct)
  case (1 c dist pq)
  then show ?case by auto
next
  case (2 c v w row dist pq)
  then have w: "w = 19" by simp
  show ?case
  proof (cases "c + w < dist_of dist v")
    case False
    have r: "relax c row dist pq = (dist', pq')" using 2(3) False by simp
    have "dist_of dist v \<le> c + 19" using False w by simp
    with 2(2) [OF False r] 2(4) show ?thesis
      by simp (meson le_trans)
  next
    case True
    have r: "relax c row (dset dist v (c + 19)) ((c + 19, v) # pq) = (dist', pq')" using 2(3) True w by simp
    note IH = 2(1) [OF True, unfolded w, OF r]
    from IH 2(4) have
      le: "\<And>x. dist_of dist' x \<le> dist_of (dset dist v (c + 19)) x" and
      row: "\<And>x. x \<in> fst ` set row \<Longrightarrow> dist_of dist' x \<le> c + 19" and
      ch: "\<And>x. dget dist' x = dget (dset dist v (c + 19)) x \<or> (dget dist' x = Some (c + 19) \<and> x \<in> fst ` set row \<and>
        (c + 19, x) \<in> set pq' \<and> c + 19 < dist_of (dset dist v (c + 19)) x)" and
      pq: "set ((c + 19, v) # pq) \<subseteq> set pq'" and
      new: "\<forall>(x, y)\<in>set pq' - set ((c + 19, v) # pq). x = c + 19 \<and> dget dist' y = Some (c + 19)"
      by auto
    have v: "dget dist' v = Some (c + 19)" using ch [of v] by auto
    have "\<forall>x. dist_of dist' x \<le> dist_of dist x"
    proof
      fix x show "dist_of dist' x \<le> dist_of dist x" using le [of x] True w by (cases "x = v") auto
    qed
    moreover have "\<forall>x\<in>fst ` set ((v, w) # row). dist_of dist' x \<le> c + 19"
      using row le [of v] by auto
    moreover have "\<forall>x. dget dist' x = dget dist x \<or> (dget dist' x = Some (c + 19) \<and> x \<in> fst ` set ((v, w) # row) \<and>
        (c + 19, x) \<in> set pq' \<and> c + 19 < dist_of dist x)"
    proof
      fix x show "dget dist' x = dget dist x \<or> (dget dist' x = Some (c + 19) \<and> x \<in> fst ` set ((v, w) # row) \<and>
        (c + 19, x) \<in> set pq' \<and> c + 19 < dist_of dist x)"
        using ch [of x] v pq True w by (cases "x = v") auto
    qed
    moreover have "\<forall>(x, y)\<in>set pq' - set pq. x = c + 19 \<and> dget dist' y = Some (c + 19)"
      using new v by auto
    ultimately show ?thesis using pq by auto
  qed
qed

subsection \<open>The loop invariant\<close>

definition settled :: "wadj \<Rightarrow> (dev, nat) dict \<Rightarrow> dev \<Rightarrow> nat \<Rightarrow> bool" where
  "settled adj dist u c \<longleftrightarrow> (\<forall>v. edge adj u v \<longrightarrow> dist_of dist v \<le> c + 19)"

definition dij_inv :: "wadj \<Rightarrow> dev \<Rightarrow> (dev, nat) dict \<Rightarrow> (nat \<times> dev) list \<Rightarrow> bool" where
  "dij_inv adj r dist pq \<longleftrightarrow>
     dget dist r = Some 0 \<and>
     (\<forall>v c. dget dist v = Some c \<longrightarrow> c < far \<and>
        (v = r \<or> (\<exists>u c'. dget dist u = Some c' \<and> edge adj u v \<and> c' + 19 \<le> c))) \<and>
     (\<forall>u c. dget dist u = Some c \<longrightarrow> (c, u) \<in> set pq \<or> settled adj dist u c) \<and>
     (\<forall>(c, u)\<in>set pq. \<exists>c'. dget dist u = Some c' \<and> c' \<le> c)"

lemma dist_of_Some: "dget dist v = Some c \<Longrightarrow> dist_of dist v = c"
  by (simp add: dist_of_def dget_or_def)

lemma dist_of_less: "dist_of dist v < far \<Longrightarrow> dget dist v = Some (dist_of dist v)"
  by (auto simp: dist_of_def dget_or_def split: option.splits)

lemma dij_inv_skip:
  assumes "dij_inv adj r dist pq" "(c, u) \<in> set pq" "c > dist_of dist u"
  shows "dij_inv adj r dist (remove1 (c, u) pq)"
proof -
  have "(d, v) \<in> set (remove1 (c, u) pq) \<or> settled adj dist v d" if "dget dist v = Some d" for v d
  proof (cases "(d, v) \<in> set pq")
    case True
    have "(d, v) \<noteq> (c, u)" using assms(3) that by (auto dest: dist_of_Some)
    with True show ?thesis by (simp add: in_set_remove1)
  qed (use assms(1) that in \<open>auto simp: dij_inv_def\<close>)
  moreover have "set (remove1 (c, u) pq) \<subseteq> set pq" by (rule set_remove1_subset)
  ultimately show ?thesis using assms(1) unfolding dij_inv_def by blast
qed

lemma dij_inv_relax:
  assumes inv: "dij_inv adj r dist pq" and m: "(c, u) \<in> set pq" and d: "\<not> c > dist_of dist u"
    and uni: "uniform adj" and rel: "relax c (row_of adj u) dist (remove1 (c, u) pq) = (dist', pq')"
  shows "dij_inv adj r dist' pq'"
proof -
  obtain cu where cu: "dget dist u = Some cu" "cu \<le> c" using inv m by (auto simp: dij_inv_def)
  then have u: "dget dist u = Some c" using d by (auto simp: dist_of_Some)
  have w: "\<forall>(v, w)\<in>set (row_of adj u). w = 19" using uni by (auto simp: uniform_def)
  note spec = relax_spec [OF rel w]
  have le: "\<And>v. dist_of dist' v \<le> dist_of dist v"
    and row: "\<And>v. edge adj u v \<Longrightarrow> dist_of dist' v \<le> c + 19"
    and ch: "\<And>v. dget dist' v = dget dist v \<or>
       (dget dist' v = Some (c + 19) \<and> edge adj u v \<and> (c + 19, v) \<in> set pq' \<and> c + 19 < dist_of dist v)"
    and sub: "set (remove1 (c, u) pq) \<subseteq> set pq'"
    and new: "\<And>x v. (x, v) \<in> set pq' \<Longrightarrow> (x, v) \<notin> set (remove1 (c, u) pq) \<Longrightarrow> x = c + 19 \<and> dget dist' v = Some (c + 19)"
    using spec by (auto simp: edge_set)
  have same_u: "dget dist' u = Some c" using ch [of u] u by (auto dest: dist_of_Some)
  have far_le: "\<And>v. dist_of dist v \<le> far"
    using inv by (auto simp: dij_inv_def dist_of_def dget_or_def less_imp_le split: option.splits)
  have down: "\<exists>c2. dget dist' x = Some c2 \<and> c2 \<le> c1" if "dget dist x = Some c1" for x c1
    using ch [of x] that by (auto dest: dist_of_Some)
  have "dget dist' r = Some 0" using ch [of r] inv by (auto simp: dij_inv_def dest: dist_of_Some)
  moreover have "cv < far \<and> (v = r \<or> (\<exists>x c'. dget dist' x = Some c' \<and> edge adj x v \<and> c' + 19 \<le> cv))"
    if "dget dist' v = Some cv" for v cv
  proof (cases "dget dist' v = dget dist v")
    case True
    with that inv have "cv < far" and "v = r \<or> (\<exists>x c'. dget dist x = Some c' \<and> edge adj x v \<and> c' + 19 \<le> cv)"
      by (auto simp: dij_inv_def)
    then show ?thesis using down by (meson add_le_mono1 le_trans)
  next
    case False
    with ch [of v] that have "cv = c + 19" "edge adj u v" "c + 19 < dist_of dist v" by auto
    with far_le [of v] same_u show ?thesis by (meson le_refl less_le_trans)
  qed
  moreover have "(cx, x) \<in> set pq' \<or> settled adj dist' x cx" if x: "dget dist' x = Some cx" for x cx
  proof (cases "dget dist' x = dget dist x")
    case False
    with ch [of x] x show ?thesis by auto
  next
    case True
    with x inv consider "(cx, x) \<in> set pq" | "settled adj dist x cx" by (auto simp: dij_inv_def)
    then show ?thesis
    proof cases
      case 1
      show ?thesis
      proof (cases "(cx, x) = (c, u)")
        case True
        with row show ?thesis by (auto simp: settled_def)
      next
        case False
        with 1 sub show ?thesis by (auto simp: in_set_remove1)
      qed
    next
      case 2
      with le show ?thesis unfolding settled_def by (meson le_trans)
    qed
  qed
  moreover have "\<exists>c'. dget dist' v = Some c' \<and> c' \<le> x" if "(x, v) \<in> set pq'" for x v
  proof (cases "(x, v) \<in> set (remove1 (c, u) pq)")
    case True
    then have "(x, v) \<in> set pq" using set_remove1_subset by fastforce
    with inv obtain c1 where "dget dist v = Some c1" "c1 \<le> x" by (auto simp: dij_inv_def)
    with down [OF this(1)] show ?thesis by auto
  next
    case False
    with new [OF that] show ?thesis by auto
  qed
  ultimately show ?thesis unfolding dij_inv_def by blast
qed

lemma dijkstra_inv:
  assumes "dij_inv adj r dist pq" "uniform adj"
  shows "dij_inv adj r (dijkstra adj dist pq) []"
  using assms
proof (induction adj dist pq rule: dijkstra.induct)
  case (1 adj dist pq)
  show ?case
  proof (cases "pick entry_less None pq")
    case None
    then have "dijkstra adj dist pq = dist" "pq = []" by (simp_all add: dijkstra.simps [of adj dist "[]"])
    with 1(3) show ?thesis by simp
  next
    case (Some x)
    obtain c u where x: "x = (c, u)" by (cases x) auto
    with Some have m: "(c, u) \<in> set pq" by (auto dest: pick_mem)
    show ?thesis
    proof (cases "c > dist_of dist u")
      case True
      have "dij_inv adj r (dijkstra adj dist (remove1 (c, u) pq)) []"
        using 1(1) [OF Some x [symmetric] refl True dij_inv_skip [OF 1(3) m True] 1(4)] .
      with Some x True show ?thesis by (simp add: dijkstra.simps [of adj dist pq])
    next
      case False
      obtain d' pq' where rel: "relax c (row_of adj u) dist (remove1 (c, u) pq) = (d', pq')" by fastforce
      have "dij_inv adj r (dijkstra adj d' pq') []"
        using 1(2) [OF Some x [symmetric] refl False rel [symmetric] refl dij_inv_relax [OF 1(3) m False 1(4) rel] 1(4)] .
      with Some x False rel show ?thesis by (simp add: dijkstra.simps [of adj dist pq])
    qed
  qed
qed

subsection \<open>The distances\<close>

lemma distances_inv: "uniform adj \<Longrightarrow> dij_inv adj r (distances adj r) []"
  unfolding distances_def by (rule dijkstra_inv) (auto simp: dij_inv_def far_def)

definition sp_ok :: "wadj \<Rightarrow> dev \<Rightarrow> (dev, nat) dict \<Rightarrow> bool" where
  "sp_ok adj r D \<longleftrightarrow> dij_inv adj r D [] \<and> uniform adj \<and> 19 * card (insert r (verts adj)) < far"

lemma sp_okD: "sp_ok adj r D \<Longrightarrow> dij_inv adj r D []" "sp_ok adj r D \<Longrightarrow> uniform adj"
  "sp_ok adj r D \<Longrightarrow> 19 * card (insert r (verts adj)) < far"
  by (simp_all add: sp_ok_def)

lemma root_zero: "sp_ok adj r D \<Longrightarrow> dget D r = Some 0"
  by (simp add: sp_ok_def dij_inv_def)

lemma edge_step: "sp_ok adj r D \<Longrightarrow> dget D u = Some c \<Longrightarrow> edge adj u v \<Longrightarrow> dist_of D v \<le> c + 19"
  by (auto simp: sp_ok_def dij_inv_def settled_def)

lemma pred:
  assumes sp: "sp_ok adj r D" and v: "dget D v = Some c" "v \<noteq> r"
  shows "\<exists>u c'. dget D u = Some c' \<and> edge adj u v \<and> c = c' + 19"
proof -
  from v sp_okD(1) [OF sp] obtain u c' where u: "dget D u = Some c'" "edge adj u v" "c' + 19 \<le> c"
    unfolding dij_inv_def by blast
  with edge_step [OF sp u(1,2)] v(1) have "c = c' + 19" by (auto dest: dist_of_Some)
  with u show ?thesis by blast
qed

lemma reached_verts: "sp_ok adj r D \<Longrightarrow> dget D v = Some c \<Longrightarrow> v \<in> insert r (verts adj)"
  using pred [of adj r D v c] by (cases "v = r") (auto dest: edge_verts)

lemma chain:
  assumes sp: "sp_ok adj r D"
  shows "dget D v = Some c \<Longrightarrow> \<exists>S. finite S \<and> v \<in> S \<and> S \<subseteq> {x. \<exists>cx. dget D x = Some cx \<and> cx \<le> c} \<and> c + 19 \<le> 19 * card S"
proof (induction c arbitrary: v rule: less_induct)
  case (less c)
  show ?case
  proof (cases "v = r")
    case True
    with root_zero [OF sp] less(2) show ?thesis by (intro exI [of _ "{r}"]) auto
  next
    case False
    with pred [OF sp less(2)] obtain u c' where u: "dget D u = Some c'" "c = c' + 19" by blast
    with less(1) [of c' u] obtain S where S: "finite S" "S \<subseteq> {x. \<exists>cx. dget D x = Some cx \<and> cx \<le> c'}" "c' + 19 \<le> 19 * card S"
      by auto
    then have "v \<notin> S" using less(2) u(2) by auto
    with S u less(2) show ?thesis by (intro exI [of _ "insert v S"]) fastforce
  qed
qed

lemma bounded:
  assumes sp: "sp_ok adj r D" and v: "dget D v = Some c"
  shows "c + 19 < far"
proof -
  from chain [OF sp v] obtain S where S: "S \<subseteq> {x. \<exists>cx. dget D x = Some cx \<and> cx \<le> c}" "c + 19 \<le> 19 * card S" by blast
  have "S \<subseteq> insert r (verts adj)" using S(1) reached_verts [OF sp] by blast
  then have "card S \<le> card (insert r (verts adj))" by (intro card_mono) auto
  then have "19 * card S \<le> 19 * card (insert r (verts adj))" by (rule mult_le_mono2)
  with S(2) sp_okD(3) [OF sp] show ?thesis by linarith
qed

lemma reach_edge:
  assumes sp: "sp_ok adj r D" and u: "dget D u = Some c" "edge adj u v"
  shows "\<exists>c'. dget D v = Some c' \<and> c' \<le> c + 19"
proof -
  have "dist_of D v \<le> c + 19" by (rule edge_step [OF sp u])
  moreover from this bounded [OF sp u(1)] have "dist_of D v < far" by linarith
  ultimately show ?thesis using dist_of_less by blast
qed

lemma reach_path:
  assumes sp: "sp_ok adj r D" and p: "(edge adj)\<^sup>*\<^sup>* r v"
  shows "\<exists>c. dget D v = Some c"
  using p
proof (induction rule: rtranclp_induct)
  case base
  then show ?case using root_zero [OF sp] by blast
next
  case (step y z)
  then show ?case using reach_edge [OF sp] by blast
qed

lemma toward_scan_Some:
  "toward_scan dist dd row best = Some t \<Longrightarrow>
     (\<exists>b. best = Some (t, b)) \<or> (\<exists>w. (t, w) \<in> set row \<and> dist_of dist t + w = dd)"
  by (induction dist dd row best rule: toward_scan.induct) (auto split: if_splits)

lemma toward_scan_None:
  "toward_scan dist dd row best = None \<Longrightarrow> best = None \<and> (\<forall>(t, w)\<in>set row. dist_of dist t + w \<noteq> dd)"
  by (induction dist dd row best rule: toward_scan.induct) (auto split: if_splits option.splits)

lemma toward_Some:
  assumes sp: "sp_ok adj r D" and t: "toward adj D d = Some t"
  shows "\<exists>c. edge adj d t \<and> dget D t = Some c \<and> dget D d = Some (c + 19)"
proof -
  from t obtain dd where dd: "dget D d = Some dd" "toward_scan D dd (row_of adj d) None = Some t"
    by (auto simp: toward_def split: option.splits)
  from toward_scan_Some [OF dd(2)] obtain w where w: "(t, w) \<in> set (row_of adj d)" "dist_of D t + w = dd" by auto
  then have w19: "w = 19" using sp_okD(2) [OF sp] by (auto simp: uniform_def)
  have e: "edge adj d t" using w(1) by (force simp: edge_set)
  with reach_edge [OF sp dd(1) e] w w19 dd(1) show ?thesis by (auto dest: dist_of_Some)
qed

lemma toward_exists:
  assumes sp: "sp_ok adj r D" and d: "dget D d = Some c" "d \<noteq> r"
  shows "\<exists>t. toward adj D d = Some t"
proof -
  from pred [OF sp d] obtain u c' where u: "dget D u = Some c'" "edge adj u d" "c = c' + 19" by blast
  then have "edge adj d u" using sp_okD(2) [OF sp] by (auto simp: uniform_def)
  then obtain w where w: "(u, w) \<in> set (row_of adj d)" by (auto simp: edge_set)
  then have "w = 19" using sp_okD(2) [OF sp] by (auto simp: uniform_def)
  with w u have "toward_scan D c (row_of adj d) None \<noteq> None"
    using toward_scan_None [of D c "row_of adj d" None] dist_of_Some [OF u(1)] by fastforce
  with d(1) show ?thesis by (auto simp: toward_def)
qed

lemma toward_root: "sp_ok adj r D \<Longrightarrow> toward adj D r = None"
  using toward_Some [of adj r D r] root_zero [of adj r D] by (cases "toward adj D r") auto

subsection \<open>Port roles at the two ends of a link\<close>

text \<open>What \<open>settle_port\<close> does to a port of \<open>d\<close> towards a linked bridge \<open>e\<close>.\<close>

definition rootward :: "wadj \<Rightarrow> (dev, nat) dict \<Rightarrow> dev \<Rightarrow> dev \<Rightarrow> bool" where
  "rootward adj D d e \<longleftrightarrow> toward adj D d = Some e"

definition open_to :: "(dev, stp_node) dict \<Rightarrow> wadj \<Rightarrow> (dev, nat) dict \<Rightarrow> dev \<Rightarrow> dev \<Rightarrow> dev \<Rightarrow> bool" where
  "open_to en adj D r d e \<longleftrightarrow> d = r \<or> rootward adj D d e \<or>
     \<not> (dist_of D e < dget_or D d 0 \<or> (dist_of D e = dget_or D d 0 \<and> key_less (key_of en e) (key_of en d)))"

lemma settle_port_open:
  assumes "edge adj d (sp_peer p)"
  shows "(sp_state (settle_port en adj D r d p) = Forwarding \<longleftrightarrow> open_to en adj D r d (sp_peer p)) \<and>
    (sp_role (settle_port en adj D r d p) = Root \<longleftrightarrow> d \<noteq> r \<and> rootward adj D d (sp_peer p))"
  using assms by (auto simp: settle_port_def open_to_def rootward_def edge_def give_def Let_def)

lemma key_less_cases: "key_less a b \<or> key_less b a \<or> a = b"
  using str_less_total by (cases a; cases b) (auto simp: key_less_def)

lemma key_less_asym: "key_less a b \<Longrightarrow> \<not> key_less b a"
  using str_less_asym by (cases a; cases b) (auto simp: key_less_def)

lemma link_ends:
  assumes ctx: "sp_ok adj r D"
    and u: "dget D u = Some cu" and v: "dget D v = Some cv" and e: "edge adj u v" and ne: "u \<noteq> v"
    and keys: "key_of en u \<noteq> key_of en v"
  shows "(open_to en adj D r u v \<and> open_to en adj D r v u \<longleftrightarrow> rootward adj D u v \<or> rootward adj D v u) \<and>
    (open_to en adj D r u v \<or> open_to en adj D r v u)"
proof -
  have d: "dget_or D u 0 = cu" "dget_or D v 0 = cv" "dist_of D u = cu" "dist_of D v = cv"
    using u v by (simp_all add: dget_or_def dist_of_Some)
  have tw: "rootward adj D x y \<Longrightarrow> \<exists>c. dget D y = Some c \<and> dget D x = Some (c + 19)" for x y
    using toward_Some [OF ctx] by (auto simp: rootward_def)
  have root: "x = r \<Longrightarrow> dget D x = Some 0" for x using root_zero [OF ctx] by simp
  have pos: "dget D x = Some c \<Longrightarrow> x \<noteq> r \<Longrightarrow> 19 \<le> c" for x c using pred [OF ctx] by fastforce
  have kc: "key_less (key_of en u) (key_of en v) \<noteq> key_less (key_of en v) (key_of en u)"
    using keys key_less_cases key_less_asym by blast
  show ?thesis
    using tw [of u v] tw [of v u] root [of u] root [of v] pos [OF u] pos [OF v] kc u v ne
    unfolding open_to_def d by (cases "u = r"; cases "v = r"; cases cu cv rule: linorder_cases) auto
qed

subsection \<open>Components\<close>

definition part :: "wadj \<Rightarrow> dev \<Rightarrow> dev set" where
  "part adj d = {y. (edge adj)\<^sup>*\<^sup>* d y}"

lemma part_refl [simp]: "d \<in> part adj d"
  by (simp add: part_def)

lemma part_edge: "x \<in> part adj d \<Longrightarrow> edge adj x y \<Longrightarrow> y \<in> part adj d"
  by (auto simp: part_def)

lemma part_sym: "uniform adj \<Longrightarrow> x \<in> part adj d \<Longrightarrow> d \<in> part adj x"
proof -
  assume u: "uniform adj" and "x \<in> part adj d"
  then have "(edge adj)\<^sup>*\<^sup>* d x" by (simp add: part_def)
  then have "(edge adj)\<^sup>*\<^sup>* x d"
  proof induction
    case (step y z)
    then have "edge adj z y" using u by (auto simp: uniform_def)
    with step.IH show ?case by (meson converse_rtranclp_into_rtranclp)
  qed simp
  then show ?thesis by (simp add: part_def)
qed

lemma part_eq: "uniform adj \<Longrightarrow> x \<in> part adj d \<Longrightarrow> part adj x = part adj d"
proof -
  assume u: "uniform adj" and x: "x \<in> part adj d"
  from part_sym [OF u x] x show ?thesis by (auto simp: part_def)
qed

definition closed_set :: "wadj \<Rightarrow> dev set \<Rightarrow> bool" where
  "closed_set adj S \<longleftrightarrow> (\<forall>x y. x \<in> S \<longrightarrow> edge adj x y \<longrightarrow> y \<in> S)"

lemma closed_part: "closed_set adj S \<Longrightarrow> x \<in> S \<Longrightarrow> part adj x \<subseteq> S"
proof
  fix y assume c: "closed_set adj S" "x \<in> S" and "y \<in> part adj x"
  then have "(edge adj)\<^sup>*\<^sup>* x y" by (simp add: part_def)
  then show "y \<in> S" by induction (use c in \<open>auto simp: closed_set_def\<close>)
qed

lemma collect_spec:
  assumes "collect adj found stack seen = (f', seen')" "set found \<union> set stack \<subseteq> part adj d"
    "set seen = S \<union> set found \<union> set stack" "\<forall>x\<in>set found. \<forall>y. edge adj x y \<longrightarrow> y \<in> set seen"
  shows "set seen' = S \<union> set f' \<and> set f' \<subseteq> part adj d \<and> (\<forall>x\<in>set f'. \<forall>y. edge adj x y \<longrightarrow> y \<in> set seen') \<and>
    set found \<union> set stack \<subseteq> set f'"
  using assms
proof (induction adj found stack seen rule: collect.induct)
  case (1 adj found seen)
  then show ?case by auto
next
  case (2 adj found x stack seen)
  obtain st2 seen2 where p: "push_new (row_of adj x) stack seen = (st2, seen2)" by fastforce
  from push_new_spec [OF p] obtain new where n: "st2 = new @ stack" "set seen2 = set seen \<union> set new"
    "set new = fst ` set (row_of adj x) - set seen" by blast
  have new: "set new \<subseteq> part adj d" using n(3) 2(3) part_edge [of x adj d] by (auto simp: edge_set)
  have "set seen' = S \<union> set f' \<and> set f' \<subseteq> part adj d \<and> (\<forall>x\<in>set f'. \<forall>y. edge adj x y \<longrightarrow> y \<in> set seen') \<and>
    set (found @ [x]) \<union> set st2 \<subseteq> set f'"
  proof (rule 2(1) [OF p [symmetric] refl])
    show "collect adj (found @ [x]) st2 seen2 = (f', seen')" using 2(2) p by simp
    show "set (found @ [x]) \<union> set st2 \<subseteq> part adj d" using 2(3) n(1) new by auto
    show "set seen2 = S \<union> set (found @ [x]) \<union> set st2" using 2(4) n by auto
    show "\<forall>xa\<in>set (found @ [x]). \<forall>y. edge adj xa y \<longrightarrow> y \<in> set seen2"
      using 2(5) n by (auto simp: edge_set)
  qed
  then show ?case using n(1) by auto
qed

lemma collect_part:
  assumes "collect adj [] [d] (d # seen) = (f', seen')" "closed_set adj (set seen)" "uniform adj" "d \<notin> set seen"
  shows "set f' = part adj d \<and> set seen' = set seen \<union> part adj d \<and> closed_set adj (set seen') \<and>
    part adj d \<inter> set seen = {}"
proof -
  have disj: "part adj d \<inter> set seen = {}"
    using closed_part [OF assms(2)] part_sym [OF assms(3)] assms(4) by blast
  have c: "set seen' = set seen \<union> set f'" "set f' \<subseteq> part adj d"
    "\<forall>x\<in>set f'. \<forall>y. edge adj x y \<longrightarrow> y \<in> set seen'" "d \<in> set f'"
    using collect_spec [OF assms(1), of d "set seen"] by auto
  have "closed_set adj (set f')" unfolding closed_set_def
    using c disj part_edge by blast
  with closed_part c have f: "set f' = part adj d" by blast
  moreover have "closed_set adj (set seen')"
    using assms(2) c(1) f part_edge unfolding closed_set_def by blast
  ultimately show ?thesis using c disj by blast
qed

lemma dget_map: "dget (List.map (\<lambda>(d, n). (d, f d n)) bs) d = map_option (f d) (dget bs d)"
  by (induction bs) auto

lemma dget_settle_component:
  "dget (settle_component en adj found bs) d =
     (if d \<in> set found
      then map_option (settle_node en adj (distances adj (root_of en found)) (root_of en found) d) (dget bs d)
      else dget bs d)"
  by (auto simp: settle_component_def Let_def dget_map option.map_ident)

definition handled :: "(dev, stp_node) dict \<Rightarrow> wadj \<Rightarrow> (dev, stp_node) dict \<Rightarrow> (dev, stp_node) dict \<Rightarrow> (dev \<Rightarrow> dev list) \<Rightarrow> dev \<Rightarrow> bool" where
  "handled en adj bs res C d \<longleftrightarrow>
     set (C d) = part adj d \<and> (\<forall>e\<in>part adj d. C e = C d) \<and>
     dget res d = map_option (settle_node en adj (distances adj (root_of en (C d))) (root_of en (C d)) d) (dget bs d)"

lemma handledD:
  assumes "handled en adj bs res C d"
  shows "set (C d) = part adj d" "\<And>e. e \<in> part adj d \<Longrightarrow> C e = C d"
    "dget res d = map_option (settle_node en adj (distances adj (root_of en (C d))) (root_of en (C d)) d) (dget bs d)"
  using assms unfolding handled_def by blast+

lemma handledI:
  assumes "set (C d) = part adj d" "\<And>e. e \<in> part adj d \<Longrightarrow> C e = C d"
    "dget res d = map_option (settle_node en adj (distances adj (root_of en (C d))) (root_of en (C d)) d) (dget bs d)"
  shows "handled en adj bs res C d"
  using assms unfolding handled_def by blast

lemma settle_all_spec:
  assumes u: "uniform adj" and "closed_set adj (set seen)"
  shows "\<exists>C. \<forall>d. (d \<in> set seen \<longrightarrow> dget (settle_all en adj ds seen bs) d = dget bs d) \<and>
    (d \<notin> set seen \<and> (\<exists>x\<in>set ds. d \<in> part adj x) \<longrightarrow> handled en adj bs (settle_all en adj ds seen bs) C d)"
  using assms(2)
proof (induction ds arbitrary: seen bs)
  case Nil
  then show ?case by simp
next
  case (Cons d0 ds)
  show ?case
  proof (cases "d0 \<in> set seen")
    case True
    with closed_part [OF Cons.prems] have "part adj d0 \<subseteq> set seen" .
    then have sub: "\<And>d. d \<in> part adj d0 \<Longrightarrow> d \<in> set seen" by blast
    have eq: "settle_all en adj (d0 # ds) seen bs = settle_all en adj ds seen bs" using True by simp
    obtain C where C: "\<forall>d. (d \<in> set seen \<longrightarrow> dget (settle_all en adj ds seen bs) d = dget bs d) \<and>
      (d \<notin> set seen \<and> (\<exists>x\<in>set ds. d \<in> part adj x) \<longrightarrow> handled en adj bs (settle_all en adj ds seen bs) C d)"
      using Cons.IH [OF Cons.prems] by blast
    show ?thesis unfolding eq
    proof (intro exI [of _ C] allI conjI impI)
      fix d assume "d \<in> set seen"
      with C show "dget (settle_all en adj ds seen bs) d = dget bs d" by blast
    next
      fix d assume d: "d \<notin> set seen \<and> (\<exists>x\<in>set (d0 # ds). d \<in> part adj x)"
      with sub have "\<exists>x\<in>set ds. d \<in> part adj x" by auto
      with C d show "handled en adj bs (settle_all en adj ds seen bs) C d" by blast
    qed
  next
    case False
    obtain f seen' where c: "collect adj [] [d0] (d0 # seen) = (f, seen')" by fastforce
    note cp = collect_part [OF c Cons.prems u False]
    let ?bs = "settle_component en adj f bs"
    have eq: "settle_all en adj (d0 # ds) seen bs = settle_all en adj ds seen' ?bs" using False c by simp
    let ?res = "settle_all en adj ds seen' ?bs"
    have cl: "closed_set adj (set seen')" and fs: "set f = part adj d0" and ss: "set seen' = set seen \<union> part adj d0"
      and disj: "part adj d0 \<inter> set seen = {}" using cp by blast+
    from Cons.IH [OF cl, of ?bs] obtain C where C0: "\<forall>d. (d \<in> set seen' \<longrightarrow> dget ?res d = dget ?bs d) \<and>
      (d \<notin> set seen' \<and> (\<exists>x\<in>set ds. d \<in> part adj x) \<longrightarrow> handled en adj ?bs ?res C d)" by (elim exE)
    have C: "\<And>d. d \<in> set seen' \<Longrightarrow> dget ?res d = dget ?bs d"
      "\<And>d. d \<notin> set seen' \<Longrightarrow> \<exists>x\<in>set ds. d \<in> part adj x \<Longrightarrow> handled en adj ?bs ?res C d"
      by (simp_all add: C0)
    define C' where "C' = (\<lambda>d. if d \<in> part adj d0 then f else C d)"
    have "dget ?res d = dget bs d" if "d \<in> set seen" for d
      using that C(1) [of d] fs ss disj by (auto simp: dget_settle_component)
    moreover have "handled en adj bs ?res C' d" if d: "d \<notin> set seen" "\<exists>x\<in>set (d0 # ds). d \<in> part adj x" for d
    proof (cases "d \<in> part adj d0")
      case True
      then have same: "part adj d = part adj d0" by (rule part_eq [OF u])
      have "dget ?res d = dget ?bs d" using True C(1) ss by blast
      with True same fs show ?thesis by (intro handledI) (auto simp: C'_def dget_settle_component)
    next
      case False
      with d ss have "d \<notin> set seen'" "\<exists>x\<in>set ds. d \<in> part adj x" by auto
      then have h: "handled en adj ?bs ?res C d" by (rule C(2))
      have out: "e \<notin> part adj d0" if "e \<in> part adj d" for e
      proof
        assume "e \<in> part adj d0"
        then have "part adj d = part adj d0" using part_eq [OF u, of e d0] part_eq [OF u that] by simp
        with False part_refl [of d adj] show False by simp
      qed
      have c: "C' d = C d" using False by (simp add: C'_def)
      have "C' e = C' d" if "e \<in> part adj d" for e
        using out [OF that] handledD(2) [OF h that] c by (simp add: C'_def)
      moreover have "dget ?bs d = dget bs d" using False fs by (simp add: dget_settle_component)
      ultimately show ?thesis using handledD(1,3) [OF h] c by (intro handledI) simp_all
    qed
    ultimately show ?thesis unfolding eq by (intro exI [of _ C']) blast
  qed
qed

subsection \<open>The edges of the running bridges\<close>

definition has_port :: "stp_node \<Rightarrow> dev \<Rightarrow> bool" where
  "has_port n v \<longleftrightarrow> (\<exists>(_, p)\<in>set (sn_ports n). sp_peer p = v)"

definition cost19 :: "(dev, stp_node) dict \<Rightarrow> bool" where
  "cost19 bs \<longleftrightarrow> (\<forall>(_, n)\<in>set bs. \<forall>(_, p)\<in>set (sn_ports n). sp_cost p = 19)"

lemma live_edges_fold:
  fixes ps :: "(iface \<times> stp_port) list" and en :: "(dev, stp_node) dict" and d :: dev
  defines "row' row \<equiv> fold (\<lambda>(_, p) row. case dget en (sp_peer p) of
         None \<Rightarrow> row
       | Some pn \<Rightarrow> if \<exists>(_, q)\<in>set (sn_ports pn). sp_peer q = d then dset row (sp_peer p) (sp_cost p) else row) ps row"
  assumes "\<forall>(_, p)\<in>set ps. sp_cost p = 19" "\<forall>(v, w)\<in>set row. w = (19::nat)"
  shows "(\<forall>(v, w)\<in>set (row' row). w = 19) \<and>
    (dget (row' row) v \<noteq> None \<longleftrightarrow> dget row v \<noteq> None \<or>
       ((\<exists>(_, p)\<in>set ps. sp_peer p = v) \<and> (case dget en v of None \<Rightarrow> False | Some pn \<Rightarrow> has_port pn d)))"
  using assms(2,3) unfolding row'_def
proof (induction ps arbitrary: row)
  case Nil
  then show ?case by auto
next
  case (Cons x ps)
  obtain i p where x: "x = (i, p)" by (cases x) auto
  let ?row = "(case dget en (sp_peer p) of
         None \<Rightarrow> row
       | Some pn \<Rightarrow> if \<exists>(_, q)\<in>set (sn_ports pn). sp_peer q = d then dset row (sp_peer p) (sp_cost p) else row)"
  have "\<forall>(v, w)\<in>set ?row. w = 19"
    using Cons.prems x set_dset_subset [of row "sp_peer p" "sp_cost p"] by (auto split: option.splits)
  moreover have "dget ?row v \<noteq> None \<longleftrightarrow> dget row v \<noteq> None \<or>
      (sp_peer p = v \<and> (case dget en v of None \<Rightarrow> False | Some pn \<Rightarrow> has_port pn d))"
    by (auto simp: has_port_def split: option.splits)
  ultimately show ?case using Cons.IH [of ?row] Cons.prems(1) x by auto
qed

lemma row_live: "row_of (live_adj en) d = (case dget en d of None \<Rightarrow> [] | Some n \<Rightarrow> live_edges en d n)"
  by (cases "dget en d") (simp_all add: row_of_def dget_or_def live_adj_def dget_map)

lemma live_row:
  assumes "cost19 en"
  shows "(\<forall>(v, w)\<in>set (row_of (live_adj en) d). w = 19) \<and>
    (edge (live_adj en) d v \<longleftrightarrow> (case (dget en d, dget en v) of (Some n, Some m) \<Rightarrow> has_port n v \<and> has_port m d | _ \<Rightarrow> False))"
proof (cases "dget en d")
  case None
  then show ?thesis by (simp add: row_live edge_def)
next
  case (Some n)
  then have "\<forall>(_, p)\<in>set (sn_ports n). sp_cost p = 19"
    using assms by (fastforce simp: cost19_def dest: dget_SomeD)
  from live_edges_fold [OF this, where row = "[]" and en = en and d = d and v = v] Some show ?thesis
    unfolding row_live edge_def live_edges_def
    by (auto simp: has_port_def split: option.splits)
qed

lemma uniform_live: "cost19 en \<Longrightarrow> uniform (live_adj en)"
  using live_row [of en] unfolding uniform_def by (fastforce split: option.splits)

lemma verts_live: "verts (live_adj en) \<subseteq> set (dkeys en)" if "cost19 en" "dict_ok en"
proof
  fix x assume "x \<in> verts (live_adj en)"
  then obtain d n where dn: "(d, n) \<in> set en" "x = d \<or> x \<in> fst ` set (live_edges en d n)"
    by (auto simp: verts_def live_adj_def)
  then have row: "row_of (live_adj en) d = live_edges en d n"
    using that(2) by (simp add: row_live dget_in_set)
  show "x \<in> set (dkeys en)"
  proof (cases "x = d")
    case True
    with dn show ?thesis by (force simp: dkeys_def)
  next
    case False
    with dn row have "edge (live_adj en) d x" by (simp add: edge_set)
    with live_row [OF that(1), of d x] have "dget en x \<noteq> None" by (auto split: option.splits)
    then show ?thesis by (simp add: dget_None_iff)
  qed
qed

lemma dget_filter: "dict_ok bs \<Longrightarrow> dget (filter (\<lambda>(_, n). q n) bs) d = (case dget bs d of None \<Rightarrow> None | Some n \<Rightarrow> if q n then Some n else None)"
proof (induction bs)
  case (Cons x bs)
  obtain a n where x: "x = (a, n)" by (cases x) auto
  have ok: "dict_ok bs" "a \<notin> set (dkeys bs)" using Cons.prems x by (auto simp: dict_ok_def dkeys_def)
  have "d = a \<Longrightarrow> dget bs d = None" using ok(2) by (simp add: dget_None_iff)
  with Cons.IH [OF ok(1)] x show ?case by auto
qed simp

subsection \<open>The root\<close>

definition sort_key :: "(dev, stp_node) dict \<Rightarrow> dev \<Rightarrow> int \<times> nat list" where
  "sort_key en d = (fst (key_of en d), List.map code_of (snd (key_of en d)))"

lemma str_less_codes: "str_less xs ys \<longleftrightarrow> List.map code_of xs < List.map code_of ys"
  by (induction xs ys rule: str_less.induct) (auto simp: code_of_def)

interpretation bridge_choice: selection "\<lambda>a b. key_less (key_of en a) (key_of en b)" "sort_key en" for en
  by unfold_locales (auto simp: key_less_def sort_key_def str_less_codes less_prod_def' split: prod.splits)

lemma root_of_spec:
  assumes "d \<in> set found"
  shows "root_of en found \<in> set found \<and> (\<forall>x\<in>set found. \<not> key_less (key_of en x) (key_of en (root_of en found)))"
proof -
  from bridge_choice.pick_exists [OF assms, of en] obtain r where
    r: "pick (\<lambda>a b. key_less (key_of en a) (key_of en b)) None found = Some r" "r \<in> set found" by blast
  then have "root_of en found = r" by (simp add: root_of_def)
  moreover have "\<not> key_less (key_of en x) (key_of en r)" if "x \<in> set found" for x
    using bridge_choice.pick_least [OF r(1) that] by (auto simp: bridge_choice.better_iff not_less)
  ultimately show ?thesis using r(2) by simp
qed

subsection \<open>The topology after the computation\<close>

definition port_fwd :: "stp_node \<Rightarrow> dev \<Rightarrow> bool" where
  "port_fwd n v \<longleftrightarrow> (\<exists>(_, p)\<in>set (sn_ports n). sp_peer p = v \<and> sp_state p = Forwarding)"

definition port_root :: "stp_node \<Rightarrow> dev \<Rightarrow> bool" where
  "port_root n v \<longleftrightarrow> (\<exists>(_, p)\<in>set (sn_ports n). sp_peer p = v \<and> sp_role p = Root)"

definition linked :: "stp \<Rightarrow> dev \<Rightarrow> dev \<Rightarrow> bool" where
  "linked s u v \<longleftrightarrow> u \<noteq> v \<and> edge (live_adj (enabled_bridges (bridges s))) u v"

text \<open>The states the engine works on: named bridges, ports of the cost it gives them, identifiers that
  differ (they contain the bridge's MAC), and fewer bridges than the distance limit allows for.\<close>

definition stp_sane :: "stp \<Rightarrow> bool" where
  "stp_sane s \<longleftrightarrow> (let en = enabled_bridges (bridges s) in
     dict_ok (bridges s) \<and> cost19 en \<and> distinct (List.map (key_of en) (dkeys en)) \<and> length en < 50000000)"

definition new_node :: "stp \<Rightarrow> dev \<Rightarrow> stp_node option" where
  "new_node s d = dget (bridges (recompute_topology s)) d"

lemma port_fwd_settle:
  assumes "edge adj d v" "has_port n v"
  shows "port_fwd (settle_node en adj D r d n) v \<longleftrightarrow> open_to en adj D r d v"
    "port_root (settle_node en adj D r d n) v \<longleftrightarrow> d \<noteq> r \<and> rootward adj D d v"
proof -
  have peer: "sp_peer (settle_port en adj D r d p) = sp_peer p" for p
    by (simp add: settle_port_def give_def Let_def)
  have sp: "sp_peer p = v \<Longrightarrow> (sp_state (settle_port en adj D r d p) = Forwarding \<longleftrightarrow> open_to en adj D r d v) \<and>
      (sp_role (settle_port en adj D r d p) = Root \<longleftrightarrow> d \<noteq> r \<and> rootward adj D d v)" for p
    using settle_port_open [of adj d p en D r] assms(1) by auto
  have ports: "set (sn_ports (settle_node en adj D r d n)) = (\<lambda>(i, p). (i, settle_port en adj D r d p)) ` set (sn_ports n)"
    by (simp add: settle_node_def map_ports_def)
  show "port_fwd (settle_node en adj D r d n) v \<longleftrightarrow> open_to en adj D r d v"
    "port_root (settle_node en adj D r d n) v \<longleftrightarrow> d \<noteq> r \<and> rootward adj D d v"
  proof -
    have "port_fwd (settle_node en adj D r d n) v \<longleftrightarrow>
        (\<exists>(i, p)\<in>set (sn_ports n). sp_peer p = v \<and> sp_state (settle_port en adj D r d p) = Forwarding)"
      "port_root (settle_node en adj D r d n) v \<longleftrightarrow>
        (\<exists>(i, p)\<in>set (sn_ports n). sp_peer p = v \<and> sp_role (settle_port en adj D r d p) = Root)"
      by (auto simp: port_fwd_def port_root_def ports peer split_beta)
    moreover obtain i p where "(i, p) \<in> set (sn_ports n)" "sp_peer p = v" using assms(2) by (auto simp: has_port_def)
    ultimately show "port_fwd (settle_node en adj D r d n) v \<longleftrightarrow> open_to en adj D r d v"
      "port_root (settle_node en adj D r d n) v \<longleftrightarrow> d \<noteq> r \<and> rootward adj D d v"
      using sp by blast+
  qed
qed

text \<open>Every enabled bridge is settled by the distances from the root of its part.\<close>

lemma recompute_settles:
  assumes "stp_sane s" and d: "dget (enabled_bridges (bridges s)) d = Some n"
  defines "en \<equiv> enabled_bridges (bridges s)"
  defines "adj \<equiv> live_adj en"
  shows "\<exists>C. set (C d) = part adj d \<and>
     (\<forall>e m. e \<in> part adj d \<longrightarrow> dget en e = Some m \<longrightarrow>
        new_node s e = Some (settle_node en adj (distances adj (root_of en (C d))) (root_of en (C d)) e m)) \<and>
     sp_ok adj (root_of en (C d)) (distances adj (root_of en (C d))) \<and>
     root_of en (C d) \<in> part adj d \<and> (\<forall>x\<in>part adj d. \<not> key_less (key_of en x) (key_of en (root_of en (C d))))"
proof -
  have ok: "dict_ok (bridges s)" "cost19 en" "length en < 50000000" using assms(1) by (auto simp: stp_sane_def en_def Let_def)
  then have ok2: "dict_ok en" by (auto simp: en_def enabled_bridges_def dict_ok_def distinct_map_filter)
  have u: "uniform adj" unfolding adj_def by (rule uniform_live) (rule ok(2))
  have bs: "dget en e = Some m \<Longrightarrow> dget (bridges s) e = Some m" for e m
    using ok(1) by (auto simp: en_def enabled_bridges_def dget_filter split: option.splits if_splits)
  have dk: "d \<in> set (dkeys en)" using d dget_None_iff [of en d] by (simp add: en_def)
  have part_en: "e \<in> part adj d \<Longrightarrow> e \<in> set (dkeys en)" for e
  proof -
    have "closed_set adj (set (dkeys en))"
      using verts_live [OF ok(2) ok2] by (auto simp: closed_set_def adj_def dest: edge_verts)
    with closed_part [OF this dk] show "e \<in> part adj d \<Longrightarrow> e \<in> set (dkeys en)" by blast
  qed
  have closed0: "closed_set adj (set [])" by (simp add: closed_set_def)
  have rec: "bridges (recompute_topology s) = settle_all en adj (dkeys en) [] (bridges s)"
    by (simp add: recompute_topology_def Let_def en_def adj_def)
  from settle_all_spec [OF u closed0, of en "dkeys en" "bridges s"] obtain C where
    C0: "\<forall>d. (d \<in> set [] \<longrightarrow> dget (settle_all en adj (dkeys en) [] (bridges s)) d = dget (bridges s) d) \<and>
     (d \<notin> set [] \<and> (\<exists>x\<in>set (dkeys en). d \<in> part adj x) \<longrightarrow>
        handled en adj (bridges s) (settle_all en adj (dkeys en) [] (bridges s)) C d)" by (elim exE)
  have C: "handled en adj (bridges s) (bridges (recompute_topology s)) C e" if "e \<in> part adj d" for e
  proof -
    have "e \<notin> set []" "\<exists>x\<in>set (dkeys en). e \<in> part adj x" using that dk by auto
    with C0 show ?thesis unfolding rec by blast
  qed
  have Cd: "set (C d) = part adj d" "\<And>e. e \<in> part adj d \<Longrightarrow> C e = C d"
    using handledD(1,2) [OF C [OF part_refl]] by blast+
  let ?r = "root_of en (C d)"
  have r: "?r \<in> part adj d" "\<forall>x\<in>part adj d. \<not> key_less (key_of en x) (key_of en ?r)"
    using root_of_spec [of d "C d" en] Cd(1) by auto
  have "insert ?r (verts adj) \<subseteq> set (dkeys en)" using verts_live [OF ok(2) ok2] part_en [OF r(1)] by (auto simp: adj_def)
  then have "card (insert ?r (verts adj)) \<le> card (set (dkeys en))" by (intro card_mono) auto
  also have "\<dots> \<le> length en" using card_length [of "dkeys en"] by (simp add: dkeys_def)
  finally have "19 * card (insert ?r (verts adj)) < far" using ok(3) by (simp add: far_def)
  then have sp: "sp_ok adj ?r (distances adj ?r)" using u distances_inv by (simp add: sp_ok_def)
  have "new_node s e = Some (settle_node en adj (distances adj ?r) ?r e m)" if "e \<in> part adj d" "dget en e = Some m" for e m
    using handledD(3) [OF C [OF that(1)]] Cd(2) [OF that(1)] bs [OF that(2)] by (simp add: new_node_def)
  with Cd r sp show ?thesis by blast
qed

definition corner :: "dev \<Rightarrow> dev list \<Rightarrow> stp_node" where
  "corner d peers = \<lparr>sn_enabled = True, sn_mode = ''rstp'', sn_hostname = d, sn_priority = 32768, sn_mac = d,
     sn_bid = ''32769.'' @ d, sn_root_bid = ''32769.'' @ d, sn_root_cost = 0,
     sn_ports = List.map (\<lambda>p. (p, fresh_port p Forwarding p)) peers, sn_vlan = 1, sn_task = True, sn_tc_count = 0,
     sn_portfast_default = False, sn_bpduguard_default = False\<rparr>"

definition triangle :: stp where
  "triangle = stp_init\<lparr>bridges := [(''s1'', corner ''s1'' [''s2'', ''s3'']), (''s2'', corner ''s2'' [''s1'', ''s3'']),
     (''s3'', corner ''s3'' [''s1'', ''s2''])]\<rparr>"

lemma triangle_sane: "stp_sane triangle"
proof -
  have "length (enabled_bridges (bridges triangle)) = 3" by code_simp
  moreover have "dict_ok (bridges triangle)" by code_simp
  moreover have "cost19 (enabled_bridges (bridges triangle))" by code_simp
  moreover have "distinct (List.map (key_of (enabled_bridges (bridges triangle))) (dkeys (enabled_bridges (bridges triangle))))"
    by code_simp
  ultimately show ?thesis by (simp add: stp_sane_def Let_def)
qed

lemma new_node_exists:
  assumes "stp_sane s" "dget (enabled_bridges (bridges s)) d = Some n"
  shows "\<exists>nu. new_node s d = Some nu"
  using recompute_settles [OF assms] assms(2) part_refl by blast

lemma triangle_nodes: "\<exists>nu. new_node triangle ''s1'' = Some nu" "\<exists>nu. new_node triangle ''s2'' = Some nu"
proof -
  have "dget (enabled_bridges (bridges triangle)) ''s1'' \<noteq> None" "dget (enabled_bridges (bridges triangle)) ''s2'' \<noteq> None"
    by code_simp+
  then show "\<exists>nu. new_node triangle ''s1'' = Some nu" "\<exists>nu. new_node triangle ''s2'' = Some nu"
    using new_node_exists [OF triangle_sane] by blast+
qed

text \<open>C4. After the topology is recomputed, of every link between two running bridges at least one end
  forwards, and both ends forward exactly when the link leads from one of them to its root port; following
  root ports the cost to the root falls by the port cost at every step and a bridge has root ports towards
  one neighbour only, so the links that forward at both ends contain no loop; linked bridges agree on the
  root.\<close>

theorem stp_loop_free:
  assumes sane: "stp_sane s" and link: "linked s u v" and nu: "new_node s u = Some nu" and nv: "new_node s v = Some nv"
  shows "(port_fwd nu v \<or> port_fwd nv u) \<and>
    (port_fwd nu v \<and> port_fwd nv u \<longleftrightarrow> port_root nu v \<or> port_root nv u) \<and>
    (port_root nu v \<longrightarrow> sn_root_cost nu = sn_root_cost nv + 19) \<and>
    (\<forall>w. linked s u w \<and> port_root nu v \<and> port_root nu w \<longrightarrow> w = v) \<and>
    sn_root_bid nu = sn_root_bid nv"
proof -
  define en where "en = enabled_bridges (bridges s)"
  define adj where "adj = live_adj en"
  have ok: "cost19 en" "distinct (List.map (key_of en) (dkeys en))" using sane by (auto simp: stp_sane_def en_def Let_def)
  have e: "edge adj u v" "u \<noteq> v" using link by (auto simp: linked_def en_def adj_def)
  obtain n m where nm: "dget en u = Some n" "dget en v = Some m" "has_port n v" "has_port m u"
    using live_row [OF ok(1), of u v] e by (auto simp: adj_def split: option.splits)
  obtain C where C: "\<forall>e m. e \<in> part adj u \<longrightarrow> dget en e = Some m \<longrightarrow>
        new_node s e = Some (settle_node en adj (distances adj (root_of en (C u))) (root_of en (C u)) e m)"
     "sp_ok adj (root_of en (C u)) (distances adj (root_of en (C u)))" "root_of en (C u) \<in> part adj u"
    using recompute_settles [OF sane, of u n] nm(1) by (auto simp: en_def adj_def)
  define r where "r = root_of en (C u)"
  define D where "D = distances adj r"
  note sp = C(2) [folded r_def, folded D_def]
  note u19 = sp_okD(2) [OF sp]
  have pv: "v \<in> part adj u" by (rule part_edge [OF part_refl e(1)])
  have nodes: "nu = settle_node en adj D r u n" "nv = settle_node en adj D r v m"
    using C(1) nm(1,2) nu nv pv by (auto simp: r_def D_def)
  have "(edge adj)\<^sup>*\<^sup>* r x" if "x \<in> part adj u" for x
    using part_eq [OF u19, of r u] C(3) that by (auto simp: r_def part_def)
  with reach_path [OF sp] pv obtain cu cv where D: "dget D u = Some cu" "dget D v = Some cv" by (meson part_refl)
  have keys: "key_of en u \<noteq> key_of en v"
    using ok(2) nm(1,2) e(2) dget_None_iff [of en u] dget_None_iff [of en v] by (auto simp: distinct_map dest: inj_onD)
  have ev: "edge adj v u" using e u19 by (auto simp: uniform_def)
  note ends = link_ends [OF sp D e(1,2) keys]
  have tw: "rootward adj D x y \<Longrightarrow> x \<noteq> r" for x y using toward_root [OF sp] by (auto simp: rootward_def)
  have cost: "sn_root_cost nu = cu" "sn_root_cost nv = cv" using D nodes by (simp_all add: settle_node_def dget_or_def)
  have one: "w = v" if "linked s u w" "port_root nu v" "port_root nu w" for w
  proof -
    have ew: "edge adj u w" using that(1) by (simp add: linked_def en_def adj_def)
    then have "has_port n w" using live_row [OF ok(1), of u w] nm(1) by (auto simp: adj_def split: option.splits)
    with that(2,3) port_fwd_settle(2) [OF ew] port_fwd_settle(2) [OF e(1) nm(3)] nodes show ?thesis
      by (auto simp: rootward_def)
  qed
  have "port_root nu v \<longrightarrow> sn_root_cost nu = sn_root_cost nv + 19"
    using toward_Some [OF sp, of u v] D cost port_fwd_settle(2) [OF e(1) nm(3)] nodes by (auto simp: rootward_def)
  moreover have "sn_root_bid nu = sn_root_bid nv" by (simp add: nodes settle_node_def)
  ultimately show ?thesis
    using ends tw one port_fwd_settle [OF e(1) nm(3)] port_fwd_settle [OF ev nm(4)] nodes by auto
qed

theorem stp_loop_free_witness:
  "\<exists>nu nv. new_node triangle ''s1'' = Some nu \<and> new_node triangle ''s2'' = Some nv \<and>
     (port_fwd nu ''s2'' \<or> port_fwd nv ''s1'') \<and> sn_root_bid nu = sn_root_bid nv"
proof -
  obtain nu nv where n: "new_node triangle ''s1'' = Some nu" "new_node triangle ''s2'' = Some nv"
    using triangle_nodes by blast
  have "linked triangle ''s1'' ''s2''" unfolding linked_def edge_def by code_simp
  from stp_loop_free [OF triangle_sane this n] n show ?thesis by blast
qed

text \<open>A step along a root port, and the distances along links.\<close>

definition root_step :: "stp \<Rightarrow> dev \<Rightarrow> dev \<Rightarrow> bool" where
  "root_step s u v \<longleftrightarrow> linked s u v \<and> (\<exists>nu. new_node s u = Some nu \<and> port_root nu v)"

lemma walk_bound:
  assumes sp: "sp_ok adj r D" and walk: "(step ^^ j) u r" and e: "\<And>x y. step x y \<Longrightarrow> edge adj x y"
  shows "\<exists>c. dget D u = Some c \<and> c \<le> 19 * j"
  using walk
proof (induction j arbitrary: u)
  case 0
  then show ?case using root_zero [OF sp] by simp
next
  case (Suc j)
  obtain z where z: "step u z" "(step ^^ j) z r" using relpowp_Suc_D2 [OF Suc.prems] by blast
  from Suc.IH [OF z(2)] obtain c where c: "dget D z = Some c" "c \<le> 19 * j" by blast
  have "edge adj z u" using e [OF z(1)] sp_okD(2) [OF sp] by (auto simp: uniform_def)
  from reach_edge [OF sp c(1) this] c(2) show ?case by auto
qed

lemma walk_to_root:
  assumes sp: "sp_ok adj r D" and go: "\<And>x t. toward adj D x = Some t \<Longrightarrow> x \<in> part adj u \<Longrightarrow> x \<noteq> r \<Longrightarrow> step x t"
  shows "dget D x = Some c \<Longrightarrow> x \<in> part adj u \<Longrightarrow> \<exists>k. (step ^^ k) x r \<and> c = 19 * k"
proof (induction c arbitrary: x rule: less_induct)
  case (less c)
  show ?case
  proof (cases "x = r")
    case True
    with root_zero [OF sp] less.prems(1) show ?thesis by (intro exI [of _ 0]) simp
  next
    case False
    from toward_exists [OF sp less.prems(1) False] obtain t where t: "toward adj D x = Some t" by blast
    from toward_Some [OF sp t] obtain c' where c': "edge adj x t" "dget D t = Some c'" "c = c' + 19"
      using less.prems(1) by auto
    from less.IH [OF _ c'(2) part_edge [OF less.prems(2) c'(1)]] c'(3) obtain k where k: "(step ^^ k) t r" "c' = 19 * k" by auto
    have "(step ^^ Suc k) x r" by (rule relpowp_Suc_I2 [OF go [OF t less.prems(2) False] k(1)])
    with k(2) c'(3) show ?thesis by (intro exI [of _ "Suc k"]) simp
  qed
qed

lemma linked_part: "(linked s)\<^sup>*\<^sup>* u x \<Longrightarrow> x \<in> part (live_adj (enabled_bridges (bridges s))) u"
  by (induction rule: rtranclp_induct) (auto simp: linked_def intro: part_edge)

lemma part_linked: "x \<in> part (live_adj (enabled_bridges (bridges s))) u \<Longrightarrow> (linked s)\<^sup>*\<^sup>* u x"
proof -
  let ?e = "edge (live_adj (enabled_bridges (bridges s)))"
  have "?e\<^sup>*\<^sup>* u x \<Longrightarrow> (linked s)\<^sup>*\<^sup>* u x"
  proof (induction rule: rtranclp_induct)
    case (step y z)
    then show ?case by (cases "y = z") (auto simp: linked_def intro: rtranclp.rtrancl_into_rtrancl)
  qed simp
  then show "x \<in> part (live_adj (enabled_bridges (bridges s))) u \<Longrightarrow> ?thesis" by (simp add: part_def)
qed

text \<open>C5. After the topology is recomputed every running bridge has the root of its part of the network: the
  running bridge it is connected with whose identifier is less than that of every other one. It knows that
  bridge's identifier as its root, following root ports from it leads to that bridge, along as few links as
  any way there has, and its root cost is 19 for each of them.\<close>

theorem stp_reaches_root:
  assumes sane: "stp_sane s" and en: "dget (enabled_bridges (bridges s)) u = Some n"
  shows "\<exists>r nr nu k. (linked s)\<^sup>*\<^sup>* u r \<and> dget (enabled_bridges (bridges s)) r = Some nr \<and>
    (\<forall>x m. (linked s)\<^sup>*\<^sup>* u x \<and> dget (enabled_bridges (bridges s)) x = Some m \<and> x \<noteq> r \<longrightarrow>
       key_less (bid_key (sn_bid nr)) (bid_key (sn_bid m))) \<and>
    new_node s u = Some nu \<and> sn_root_bid nu = sn_bid nr \<and>
    (root_step s ^^ k) u r \<and> (\<forall>j. (linked s ^^ j) u r \<longrightarrow> k \<le> j) \<and> sn_root_cost nu = 19 * k"
proof -
  define en where "en = enabled_bridges (bridges s)"
  define adj where "adj = live_adj en"
  have ok: "cost19 en" "distinct (List.map (key_of en) (dkeys en))" using sane by (auto simp: stp_sane_def en_def Let_def)
  have n: "dget en u = Some n" using assms(2) by (simp add: en_def)
  obtain C where C: "\<forall>e m. e \<in> part adj u \<longrightarrow> dget en e = Some m \<longrightarrow>
        new_node s e = Some (settle_node en adj (distances adj (root_of en (C u))) (root_of en (C u)) e m)"
     "sp_ok adj (root_of en (C u)) (distances adj (root_of en (C u)))" "root_of en (C u) \<in> part adj u"
     "\<forall>x\<in>part adj u. \<not> key_less (key_of en x) (key_of en (root_of en (C u)))"
    using recompute_settles [OF sane, of u n] n by (auto simp: en_def adj_def)
  define r where "r = root_of en (C u)"
  define D where "D = distances adj r"
  note sp = C(2) [folded r_def, folded D_def]
  note u19 = sp_okD(2) [OF sp]
  have node: "new_node s x = Some (settle_node en adj D r x m)" if "x \<in> part adj u" "dget en x = Some m" for x m
    using C(1) that by (auto simp: r_def D_def)
  have in_en: "dget en x \<noteq> None" if x: "x \<in> part adj u" for x
  proof (cases "x = u")
    case False
    have "(edge adj)\<^sup>*\<^sup>* u x" using x by (simp add: part_def)
    then obtain y where "edge adj y x" using False by (cases rule: rtranclp.cases) auto
    with live_row [OF ok(1), of y x] show ?thesis by (auto simp: adj_def split: option.splits)
  qed (use n in simp)
  have r: "r \<in> part adj u" using C(3) by (simp add: r_def)
  then obtain nr where nr: "dget en r = Some nr" using in_en by blast
  have least: "key_less (bid_key (sn_bid nr)) (bid_key (sn_bid m))"
    if x: "(linked s)\<^sup>*\<^sup>* u x" "dget en x = Some m" "x \<noteq> r" for x m
  proof -
    have "\<not> key_less (key_of en x) (key_of en r)" using C(4) linked_part [OF x(1)] by (simp add: r_def adj_def en_def)
    moreover have "key_of en x \<noteq> key_of en r"
      using ok(2) x(2,3) nr dget_None_iff [of en x] dget_None_iff [of en r] by (auto simp: distinct_map dest: inj_onD)
    ultimately show ?thesis using key_less_cases [of "key_of en x" "key_of en r"] x(2) nr by (auto simp: key_of_def)
  qed
  have go: "root_step s x t" if t: "toward adj D x = Some t" "x \<in> part adj u" "x \<noteq> r" for x t
  proof -
    from toward_Some [OF sp t(1)] obtain c where c: "edge adj x t" "dget D t = Some c" "dget D x = Some (c + 19)" by blast
    obtain m where m: "dget en x = Some m" using in_en [OF t(2)] by blast
    then have "has_port m t" using live_row [OF ok(1), of x t] c(1) by (auto simp: adj_def split: option.splits)
    from port_fwd_settle(2) [OF c(1) this, of en D r] t(1,3) have "port_root (settle_node en adj D r x m) t"
      by (simp add: rootward_def)
    moreover have "x \<noteq> t" using c by auto
    ultimately show ?thesis using c(1) node [OF t(2) m] by (auto simp: root_step_def linked_def adj_def en_def)
  qed
  have "(edge adj)\<^sup>*\<^sup>* r u" using part_eq [OF u19 r] part_refl [of u adj] by (auto simp: part_def)
  with reach_path [OF sp] obtain c where c: "dget D u = Some c" by blast
  have "\<exists>k. (root_step s ^^ k) u r \<and> c = 19 * k"
    by (rule walk_to_root [where step = "root_step s", OF sp _ c part_refl]) (rule go)
  then obtain k where k: "(root_step s ^^ k) u r" "c = 19 * k" by blast
  have far: "k \<le> j" if "(linked s ^^ j) u r" for j
    using walk_bound [where step = "linked s", OF sp that] c k(2) by (auto simp: linked_def adj_def en_def)
  have "sn_root_bid (settle_node en adj D r u n) = sn_bid nr" "sn_root_cost (settle_node en adj D r u n) = 19 * k"
    using nr c k(2) by (simp_all add: settle_node_def dget_or_def)
  with node [OF part_refl n] part_linked [of r s u] r nr least k(1) far show ?thesis
    unfolding adj_def en_def by blast
qed

theorem stp_reaches_root_witness:
  "\<exists>r nr nu k. (linked triangle)\<^sup>*\<^sup>* ''s1'' r \<and> new_node triangle ''s1'' = Some nu \<and>
     dget (enabled_bridges (bridges triangle)) r = Some nr \<and> sn_root_bid nu = sn_bid nr \<and> (root_step triangle ^^ k) ''s1'' r"
proof -
  have "dget (enabled_bridges (bridges triangle)) ''s1'' \<noteq> None" by code_simp
  then obtain m where "dget (enabled_bridges (bridges triangle)) ''s1'' = Some m" by blast
  from stp_reaches_root [OF triangle_sane this] show ?thesis by blast
qed

end
