(* ===== verification/Bytes.thy ===== *)
theory Bytes
  imports PyPrelude
begin

text \<open>
  Bytes as the wire formats use them: a \<open>bytes\<close> object is a list of 8-bit words; \<open>int.to_bytes\<close>,
  \<open>int.from_bytes\<close>, \<open>int.bit_length\<close> and the network-order fields of \<open>struct\<close> with their range errors,
  and the round trips between numbers and bytes that every codec uses.
\<close>

type_synonym byte = "8 word"
type_synonym bytes = "byte list"

subsection \<open>Big-endian numbers\<close>

definition byte_of :: "int \<Rightarrow> byte" where
  "byte_of n = word_of_int n"

text \<open>\<open>int.from_bytes(bs, 'big')\<close>.\<close>

definition from_bytes :: "bytes \<Rightarrow> int" where
  "from_bytes bs = foldl (\<lambda>acc b. acc * 256 + uint b) 0 bs"

text \<open>\<open>int.from_bytes(bs, 'big', signed=True)\<close>.\<close>

definition from_bytes_signed :: "bytes \<Rightarrow> int" where
  "from_bytes_signed bs =
     (case bs of
        [] \<Rightarrow> 0
      | b # _ \<Rightarrow> if uint b < 128 then from_bytes bs else from_bytes bs - 2 ^ (8 * length bs))"

fun be_bytes :: "nat \<Rightarrow> int \<Rightarrow> bytes" where
  "be_bytes 0 n = []"
| "be_bytes (Suc k) n = be_bytes k (n div 256) @ [byte_of n]"

text \<open>\<open>n.to_bytes(k, 'big')\<close>.\<close>

definition to_bytes :: "nat \<Rightarrow> int \<Rightarrow> bytes res" where
  "to_bytes k n = (if 0 \<le> n \<and> n < 2 ^ (8 * k) then Inr (be_bytes k n) else Inl OverflowError)"

text \<open>\<open>bytes([n])\<close>.\<close>

definition one_byte :: "int \<Rightarrow> bytes res" where
  "one_byte n = (if 0 \<le> n \<and> n < 256 then Inr [byte_of n] else Inl ValueError)"

text \<open>\<open>n.bit_length()\<close> of a natural number.\<close>

function bit_length :: "int \<Rightarrow> nat" where
  "bit_length n = (if n \<le> 0 then 0 else Suc (bit_length (n div 2)))"
  by pat_completeness auto
termination by (relation "measure nat") auto

declare bit_length.simps [simp del]

subsection \<open>\<open>struct\<close> fields in network order\<close>

definition pack_field :: "nat \<Rightarrow> int \<Rightarrow> bytes res" where
  "pack_field k n = (if 0 \<le> n \<and> n < 2 ^ (8 * k) then Inr (be_bytes k n) else Inl StructError)"

abbreviation pack_B :: "int \<Rightarrow> bytes res" where "pack_B \<equiv> pack_field 1"
abbreviation pack_H :: "int \<Rightarrow> bytes res" where "pack_H \<equiv> pack_field 2"
abbreviation pack_I :: "int \<Rightarrow> bytes res" where "pack_I \<equiv> pack_field 4"

text \<open>\<open>struct.unpack_from\<close> of one unsigned field of \<open>k\<close> bytes at a position.\<close>

definition unpack_at :: "nat \<Rightarrow> bytes \<Rightarrow> nat \<Rightarrow> int res" where
  "unpack_at k bs pos =
     (if pos + k \<le> length bs then Inr (from_bytes (take k (drop pos bs))) else Inl StructError)"

text \<open>Concatenation of packed parts: the first error wins.\<close>

fun cat_res :: "bytes res list \<Rightarrow> bytes res" where
  "cat_res [] = Inr []"
| "cat_res (p # ps) = res_bind p (\<lambda>b. res_bind (cat_res ps) (\<lambda>bs. Inr (b @ bs)))"

text \<open>\<open>s.encode()\<close> and \<open>bs.decode()\<close> on ASCII text.\<close>

definition text_bytes :: "string \<Rightarrow> bytes" where
  "text_bytes s = List.map (\<lambda>c. byte_of (int (code_of c))) s"

definition bytes_text :: "bytes \<Rightarrow> string" where
  "bytes_text bs = List.map (\<lambda>b. char_of (nat (uint b))) bs"

subsection \<open>Round trips\<close>

lemma uint_byte_of: "uint (byte_of n) = n mod 256"
  by (simp add: byte_of_def uint_word_of_int)

lemma uint_byte_range [simp]: "0 \<le> uint (b :: byte)" "uint (b :: byte) < 256"
  using uint_lt2p [of b] by simp_all

lemma length_be_bytes [simp]: "length (be_bytes k n) = k"
  by (induction k n rule: be_bytes.induct) simp_all

lemma be_bytes_Nil [simp]: "be_bytes k n = [] \<longleftrightarrow> k = 0"
  by (cases k) simp_all

lemma from_bytes_Nil [simp]: "from_bytes [] = 0"
  by (simp add: from_bytes_def)

lemma from_bytes_snoc [simp]: "from_bytes (bs @ [b]) = from_bytes bs * 256 + uint b"
  by (simp add: from_bytes_def)

lemma from_bytes_append: "from_bytes (xs @ ys) = from_bytes xs * 256 ^ length ys + from_bytes ys"
proof (induction ys rule: rev_induct)
  case (snoc y ys)
  have "from_bytes (xs @ ys @ [y]) = from_bytes (xs @ ys) * 256 + uint y"
    using from_bytes_snoc [of "xs @ ys" y] by simp
  then show ?case using snoc by (simp add: algebra_simps)
qed simp

lemma from_bytes_Cons: "from_bytes (b # bs) = uint b * 256 ^ length bs + from_bytes bs"
  using from_bytes_append [of "[b]" bs] by (simp add: from_bytes_def)

lemma shift_in_byte:
  fixes x u p :: int
  assumes "x < p" "u < 256"
  shows "x * 256 + u < 256 * p"
proof -
  have "(x + 1) * 256 \<le> p * 256" using assms(1) by (intro mult_right_mono) simp_all
  with assms(2) show ?thesis by (simp add: algebra_simps)
qed

lemma from_bytes_range: "0 \<le> from_bytes bs" "from_bytes bs < 256 ^ length bs"
proof -
  have "0 \<le> from_bytes bs \<and> from_bytes bs < 256 ^ length bs"
    by (induction bs rule: rev_induct) (simp_all add: shift_in_byte)
  then show "0 \<le> from_bytes bs" "from_bytes bs < 256 ^ length bs" by simp_all
qed

lemma from_be_bytes: "from_bytes (be_bytes k n) = n mod 256 ^ k"
proof (induction k n rule: be_bytes.induct)
  case (2 k n)
  have "n mod (256 * 256 ^ k) = 256 * (n div 256 mod 256 ^ k) + n mod 256"
    by (rule zmod_zmult2_eq) simp
  then show ?case using 2 by (simp add: uint_byte_of)
qed simp

lemma pow_256: "(256 :: int) ^ k = 2 ^ (8 * k)"
  by (simp add: power_mult)

lemma from_be_bytes_id [simp]: "0 \<le> n \<Longrightarrow> n < 2 ^ (8 * k) \<Longrightarrow> from_bytes (be_bytes k n) = n"
  by (simp add: from_be_bytes pow_256)

lemma be_bytes_from [simp]: "length bs = k \<Longrightarrow> be_bytes k (from_bytes bs) = bs"
proof (induction bs arbitrary: k rule: rev_induct)
  case (snoc b bs)
  have "(from_bytes bs * 256 + uint b) div 256 = from_bytes bs" by simp
  moreover have "byte_of (from_bytes bs * 256 + uint b) = b"
  proof (rule word_uint_eqI)
    show "uint (byte_of (from_bytes bs * 256 + uint b)) = uint b" by (simp add: uint_byte_of)
  qed
  ultimately show ?case using snoc by auto
qed simp

lemma byte_of_uint [simp]: "byte_of (uint b) = b"
  by (simp add: byte_of_def)

lemma bit_length_bounds: "0 < n \<Longrightarrow> 2 ^ (bit_length n - 1) \<le> n \<and> n < 2 ^ bit_length n \<and> 0 < bit_length n"
proof (induction n rule: bit_length.induct)
  case (1 n)
  show ?case
  proof (cases "n = 1")
    case True
    then show ?thesis by (simp add: bit_length.simps)
  next
    case False
    define m where "m = n div 2"
    have m: "0 < m" using 1 False by (simp add: m_def)
    have ih: "2 ^ (bit_length m - 1) \<le> m" "m < 2 ^ bit_length m" "0 < bit_length m"
      using 1 m by (auto simp: m_def)
    have len: "bit_length n = Suc (bit_length m)"
      using 1(2) by (subst bit_length.simps) (simp add: m_def)
    have n: "2 * m \<le> n" "n < 2 * m + 2" by (auto simp: m_def)
    have "(2::int) ^ bit_length m = 2 * 2 ^ (bit_length m - 1)" using ih(3) by (cases "bit_length m") auto
    with ih n len show ?thesis by auto
  qed
qed

lemma bit_length_le: "n < 2 ^ k \<Longrightarrow> bit_length n \<le> k"
proof (rule ccontr)
  assume n: "n < 2 ^ k" and "\<not> bit_length n \<le> k"
  then have k: "k \<le> bit_length n - 1" "0 < bit_length n" by auto
  then have "0 < n" by (metis bit_length.simps less_irrefl not_le)
  then have "2 ^ (bit_length n - 1) \<le> n" using bit_length_bounds by blast
  moreover have "(2::int) ^ k \<le> 2 ^ (bit_length n - 1)" using k by (intro power_increasing) auto
  ultimately show False using n by linarith
qed

lemma text_bytes_text [simp]: "bytes_text (text_bytes s) = s"
proof -
  have "char_of (nat (uint (byte_of (int (code_of c))))) = c" for c
  proof -
    have "code_of c < 256" by (simp add: code_of_def)
    then have "nat (uint (byte_of (int (code_of c)))) = code_of c" by (simp add: uint_byte_of)
    then show ?thesis by (simp add: code_of_def)
  qed
  then show ?thesis by (simp add: text_bytes_def bytes_text_def comp_def map_idI)
qed

lemma bytes_text_bytes [simp]: "text_bytes (bytes_text bs) = bs"
proof -
  have "byte_of (int (code_of (char_of (nat (uint b))))) = b" for b :: byte
  proof -
    have "nat (uint b) < 256" using uint_byte_range(2) [of b] by (subst nat_less_iff) (simp_all del: uint_byte_range)
    then have "int (code_of (char_of (nat (uint b)))) = uint b"
      by (simp add: code_of_def of_char_of)
    then show ?thesis by simp
  qed
  then show ?thesis by (simp add: text_bytes_def bytes_text_def comp_def map_idI)
qed

lemma cat_res_Inr: "cat_res ps = Inr bs \<longleftrightarrow> (\<exists>bss. ps = List.map Inr bss \<and> bs = concat bss)"
proof (induction ps arbitrary: bs)
  case (Cons p ps)
  show ?case
  proof (cases p)
    case (Inl e)
    then show ?thesis by (auto simp: Cons_eq_map_conv)
  next
    case (Inr b)
    show ?thesis
    proof (cases "cat_res ps")
      case (Inl e)
      with Cons show ?thesis using Inr by (auto simp: Cons_eq_map_conv)
    next
      case (Inr bs')
      with Cons [of bs'] obtain bss where bss: "ps = List.map Inr bss" "bs' = concat bss" by auto
      have "inj Inr" by (rule inj_Inr)
      then have "List.map Inr zs = List.map Inr bss \<longleftrightarrow> zs = bss" for zs
        by (simp add: inj_map_eq_map)
      then show ?thesis using \<open>p = Inr b\<close> bss Inr by (auto simp: Cons_eq_map_conv)
    qed
  qed
qed auto

end
