(* ===== verification/Ber.thy ===== *)
theory Ber
  imports Bytes Addr
begin

text \<open>
  The BER codec of \<open>engine/snmp_udp_agent.py\<close>: \<open>_encode_length\<close>, \<open>_tlv\<close>, \<open>_encode_int\<close>, \<open>_encode_oid\<close>,
  \<open>_encode_ipaddress\<close>, \<open>_encode_value\<close>, \<open>encode_response\<close>, the reader \<open>_BerReader\<close>, \<open>_decode_int\<close>,
  \<open>_decode_oid\<close> and \<open>decode_request\<close>. The reader's \<open>data\<close> and \<open>pos\<close> are one list here, the bytes not read
  yet. \<open>_encode_oid\<close> loops for ever on a negative arc (\<open>v >>= 7\<close> stays at -1), so its value is an
  option: \<open>None\<close> is the run that does not return.
\<close>

subsection \<open>Runs that may not return\<close>

type_synonym 'a run = "'a res option"

definition run_bind :: "'a run \<Rightarrow> ('a \<Rightarrow> 'b run) \<Rightarrow> 'b run" where
  "run_bind r f = (case r of None \<Rightarrow> None | Some (Inl e) \<Rightarrow> Some (Inl e) | Some (Inr x) \<Rightarrow> f x)"

lemma run_bind_simps [simp]:
  "run_bind None f = None" "run_bind (Some (Inl e)) f = Some (Inl e)" "run_bind (Some (Inr x)) f = f x"
  by (simp_all add: run_bind_def)

fun run_map :: "('a \<Rightarrow> 'b run) \<Rightarrow> 'a list \<Rightarrow> 'b list run" where
  "run_map f [] = Some (Inr [])"
| "run_map f (x # xs) = run_bind (f x) (\<lambda>y. run_bind (run_map f xs) (\<lambda>ys. Some (Inr (y # ys))))"

lemma run_map_all: "(\<forall>x\<in>set xs. f x = Some (Inr (g x))) \<Longrightarrow> run_map f xs = Some (Inr (List.map g xs))"
  by (induction xs) simp_all

subsection \<open>Encoding\<close>

definition tag_integer :: int where "tag_integer = 0x02"
definition tag_octet_string :: int where "tag_octet_string = 0x04"
definition tag_oid :: int where "tag_oid = 0x06"
definition tag_sequence :: int where "tag_sequence = 0x30"
definition tag_ipaddress :: int where "tag_ipaddress = 0x40"
definition tag_counter32 :: int where "tag_counter32 = 0x41"
definition tag_gauge32 :: int where "tag_gauge32 = 0x42"
definition tag_timeticks :: int where "tag_timeticks = 0x43"
definition tag_no_such_object :: int where "tag_no_such_object = 0x80"
definition tag_end_of_mib_view :: int where "tag_end_of_mib_view = 0x82"

definition pdu_get :: int where "pdu_get = 0xA0"
definition pdu_getnext :: int where "pdu_getnext = 0xA1"
definition pdu_response :: int where "pdu_response = 0xA2"
definition pdu_getbulk :: int where "pdu_getbulk = 0xA5"

lemmas tag_defs = tag_integer_def tag_octet_string_def tag_oid_def tag_sequence_def tag_ipaddress_def
  tag_counter32_def tag_gauge32_def tag_timeticks_def tag_no_such_object_def tag_end_of_mib_view_def
  pdu_get_def pdu_getnext_def pdu_response_def pdu_getbulk_def

definition encode_length :: "nat \<Rightarrow> bytes res" where
  "encode_length n =
     (if n < 0x80 then one_byte (int n)
      else res_bind (to_bytes ((bit_length (int n) + 7) div 8) (int n)) (\<lambda>body.
           res_bind (one_byte (0x80 OR int (length body))) (\<lambda>l. Inr (l @ body))))"

definition tlv :: "int \<Rightarrow> bytes \<Rightarrow> bytes res" where
  "tlv tag val =
     res_bind (one_byte tag) (\<lambda>t. res_bind (encode_length (length val)) (\<lambda>l. Inr (t @ l @ val)))"

definition encode_int :: "int \<Rightarrow> int \<Rightarrow> bytes res" where
  "encode_int n tag =
     res_bind
       (if n = 0 then Inr [0]
        else res_bind (to_bytes (max 1 ((bit_length \<bar>n\<bar> + 8) div 8)) n) (\<lambda>body.
             Inr (if uint (hd body) AND 0x80 \<noteq> 0 \<and> tag = tag_integer then 0 # body else body)))
       (tlv tag)"

text \<open>The base-128 digits of one arc; the loop \<open>while v:\<close> ends only when \<open>v\<close> reaches 0.\<close>

partial_function (option) septets :: "int \<Rightarrow> int list \<Rightarrow> int list option" where
  "septets v chunk = (if v = 0 then Some chunk else septets (drop_bit 7 v) ((v AND 0x7f) # chunk))"

declare septets.simps [code]

fun with_more :: "int list \<Rightarrow> bytes" where
  "with_more [] = []"
| "with_more [x] = [byte_of x]"
| "with_more (x # xs) = byte_of (x OR 0x80) # with_more xs"

definition encode_arc :: "int \<Rightarrow> bytes run" where
  "encode_arc p =
     (if p = 0 then Some (Inr [0]) else map_option (\<lambda>chunk. Inr (with_more chunk)) (septets p []))"

definition strip_char :: "char \<Rightarrow> string \<Rightarrow> string" where
  "strip_char c s = rev (dropWhile (\<lambda>x. x = c) (rev (dropWhile (\<lambda>x. x = c) s)))"

text \<open>\<open>[int(p) for p in oid.strip('.').split('.') if p != '']\<close>, padded to two arcs.\<close>

definition oid_parts :: "string \<Rightarrow> int list res" where
  "oid_parts oid =
     res_bind (res_of ValueError (ints_of (filter (\<lambda>p. p \<noteq> []) (split_on (CHR ''.'') (strip_char (CHR ''.'') oid)))))
       (\<lambda>ps. Inr (if length ps < 2 then take 2 (ps @ [0, 0]) else ps))"

definition encode_oid :: "string \<Rightarrow> bytes run" where
  "encode_oid oid =
     run_bind (Some (oid_parts oid)) (\<lambda>ps.
     run_bind (Some (one_byte (ps ! 0 * 40 + ps ! 1))) (\<lambda>first.
     run_bind (run_map encode_arc (drop 2 ps)) (\<lambda>arcs.
     Some (tlv tag_oid (first @ concat arcs)))))"

definition encode_ipaddress :: "string \<Rightarrow> bytes res" where
  "encode_ipaddress addr =
     res_bind (res_of ValueError (ints_of (split_on (CHR ''.'') addr))) (\<lambda>ps.
     res_bind (cat_res (List.map one_byte ps)) (tlv tag_ipaddress))"

definition int_text :: "string \<Rightarrow> int res" where
  "int_text s = res_of ValueError (py_int s)"

definition encode_value :: "string \<Rightarrow> string \<Rightarrow> bytes run" where
  "encode_value vtype val =
     (if vtype = ''INTEGER'' then Some (res_bind (int_text val) (\<lambda>n. encode_int n tag_integer))
      else if vtype = ''STRING'' then Some (tlv tag_octet_string (text_bytes val))
      else if vtype = ''OID'' then encode_oid val
      else if vtype = ''Timeticks'' then Some (res_bind (int_text val) (\<lambda>n. encode_int n tag_timeticks))
      else if vtype = ''Counter32'' then Some (res_bind (int_text val) (\<lambda>n. encode_int n tag_counter32))
      else if vtype = ''Gauge32'' then Some (res_bind (int_text val) (\<lambda>n. encode_int n tag_gauge32))
      else if vtype = ''IpAddress'' then Some (encode_ipaddress val)
      else Some (tlv tag_octet_string (text_bytes val)))"

subsection \<open>Responses\<close>

record varbind =
  vb_oid :: string
  vb_type :: "string option"
  vb_value :: string

definition encode_varbind :: "varbind \<Rightarrow> bytes run" where
  "encode_varbind v =
     run_bind (encode_oid (vb_oid v)) (\<lambda>oid_bytes.
     run_bind (case vb_type v of
                 None \<Rightarrow> Some (tlv tag_no_such_object [])
               | Some t \<Rightarrow> if t = ''ENDOFMIBVIEW'' then Some (tlv tag_end_of_mib_view [])
                           else encode_value t (vb_value v)) (\<lambda>val_bytes.
     Some (tlv tag_sequence (oid_bytes @ val_bytes))))"

definition encode_pdu :: "int \<Rightarrow> int \<Rightarrow> int \<Rightarrow> bytes \<Rightarrow> bytes res" where
  "encode_pdu request_id error_status error_index vbl =
     res_bind (cat_res [encode_int request_id tag_integer, encode_int error_status tag_integer,
                        encode_int error_index tag_integer, Inr vbl]) (tlv pdu_response)"

definition encode_message :: "int \<Rightarrow> string \<Rightarrow> bytes \<Rightarrow> bytes res" where
  "encode_message version community pdu =
     res_bind (cat_res [encode_int version tag_integer, tlv tag_octet_string (text_bytes community),
                        Inr pdu]) (tlv tag_sequence)"

definition encode_response :: "int \<Rightarrow> string \<Rightarrow> int \<Rightarrow> varbind list \<Rightarrow> int \<Rightarrow> int \<Rightarrow> bytes run" where
  "encode_response version community request_id varbinds error_status error_index =
     run_bind (run_map encode_varbind varbinds) (\<lambda>items.
       Some (res_bind (tlv tag_sequence (concat items)) (\<lambda>vbl.
             res_bind (encode_pdu request_id error_status error_index vbl)
               (encode_message version community))))"

subsection \<open>Decoding\<close>

text \<open>A slice past the end is cut short; only the tag and the length octet are read by index.\<close>

definition read_tlv :: "bytes \<Rightarrow> (byte \<times> bytes \<times> bytes) res" where
  "read_tlv data =
     (case data of
        tag # ln # rest \<Rightarrow>
          (let (n, rest') = (if uint ln AND 0x80 \<noteq> 0
                             then (let k = nat (uint ln AND 0x7f)
                                   in (from_bytes (take k rest), drop k rest))
                             else (uint ln, rest))
           in Inr (tag, take (nat n) rest', drop (nat n) rest'))
      | _ \<Rightarrow> Inl IndexError)"

definition decode_int :: "bytes \<Rightarrow> int" where
  "decode_int val = (if val = [] then 0 else from_bytes_signed val)"

fun oid_arcs :: "int \<Rightarrow> bytes \<Rightarrow> int list" where
  "oid_arcs cur [] = []"
| "oid_arcs cur (b # bs) =
     (let v = push_bit 7 cur OR (uint b AND 0x7f)
      in if uint b AND 0x80 = 0 then v # oid_arcs 0 bs else oid_arcs v bs)"

definition join_dots :: "int list \<Rightarrow> string" where
  "join_dots ns = (case ns of [] \<Rightarrow> [] | n # ms \<Rightarrow> show_int n @ concat (List.map (\<lambda>m. CHR ''.'' # show_int m) ms))"

definition decode_oid :: "bytes \<Rightarrow> string" where
  "decode_oid val =
     (case val of
        [] \<Rightarrow> []
      | first # rest \<Rightarrow> join_dots (uint first div 40 # uint first mod 40 # oid_arcs 0 rest))"

record snmp_request =
  rq_version :: int
  rq_community :: string
  rq_pdu :: int
  rq_id :: int
  rq_param2 :: int
  rq_param3 :: int
  rq_oids :: "string list"

text \<open>The loop over the variable bindings: every turn reads at least the two octets of a header.\<close>

function read_oids :: "bytes \<Rightarrow> string list res" where
  "read_oids vbl =
     (if vbl = [] then Inr []
      else case read_tlv vbl of
             Inl e \<Rightarrow> Inl e
           | Inr (_, vb, rest) \<Rightarrow>
               res_bind (read_tlv vb) (\<lambda>(_, oid_b, _).
               res_bind (read_oids rest) (\<lambda>oids. Inr (decode_oid oid_b # oids))))"
  by pat_completeness auto

lemma read_tlv_shorter: "read_tlv data = Inr (t, val, rest) \<Longrightarrow> length rest < length data"
  by (auto simp: read_tlv_def Let_def split: list.splits if_splits)

termination read_oids
  by (relation "measure length") (auto dest: read_tlv_shorter)

declare read_oids.simps [simp del]

definition decode_request :: "bytes \<Rightarrow> snmp_request res" where
  "decode_request data =
     res_bind (read_tlv data) (\<lambda>(tag, sq, _).
     if uint tag \<noteq> tag_sequence then Inl ValueError else
     res_bind (read_tlv sq) (\<lambda>(_, ver_b, r1).
     res_bind (read_tlv r1) (\<lambda>(_, comm_b, r2).
     res_bind (read_tlv r2) (\<lambda>(pdu_tag, pdu_body, _).
     res_bind (read_tlv pdu_body) (\<lambda>(_, reqid_b, p1).
     res_bind (read_tlv p1) (\<lambda>(_, p2_b, p2).
     res_bind (read_tlv p2) (\<lambda>(_, p3_b, p3).
     res_bind (read_tlv p3) (\<lambda>(_, vbl_b, _).
     res_bind (read_oids vbl_b) (\<lambda>oids.
       Inr \<lparr>rq_version = decode_int ver_b, rq_community = bytes_text comm_b, rq_pdu = uint pdu_tag,
            rq_id = decode_int reqid_b, rq_param2 = decode_int p2_b, rq_param3 = decode_int p3_b,
            rq_oids = oids\<rparr>)))))))))"

subsection \<open>Tag, length, value\<close>

lemma and_0x7f: "n AND 0x7f = n mod 128" for n :: int
proof -
  have "n AND 0x7f = take_bit 7 n" by (simp add: take_bit_eq_mask mask_eq_exp_minus_1)
  then show ?thesis by (simp add: take_bit_eq_mod)
qed

lemma or_0x80: "0 \<le> k \<Longrightarrow> k < 128 \<Longrightarrow> 0x80 OR k = k + 128" for k :: int
proof -
  assume k: "0 \<le> k" "k < 128"
  then have "take_bit 7 k = k" by (simp add: take_bit_int_eq_self)
  then have "\<not> bit k n" if "7 \<le> n" for n using that by (metis bit_take_bit_iff not_less)
  moreover have "bit (0x80::int) n \<longleftrightarrow> n = 7" for n
    using bit_exp_iff [where 'a = int, of 7 n] by simp
  ultimately have "0x80 AND k = 0" by (intro bit_eqI) (auto simp: bit_and_iff)
  then have "0x80 + k = 0x80 OR k" by (rule disjunctive_add_eq_or)
  then show ?thesis by simp
qed

lemma and_0x80: "n AND 0x80 \<noteq> 0 \<longleftrightarrow> bit n 7" for n :: int
proof -
  have "n AND 0x80 = (if bit n 7 then 0x80 else 0)"
    by (rule bit_eqI) (use bit_exp_iff [where 'a = int, of 7] in \<open>auto simp: bit_and_iff\<close>)
  then show ?thesis by simp
qed

lemma bit7_small: "0 \<le> n \<Longrightarrow> n < 128 \<Longrightarrow> \<not> bit n 7" for n :: int
  by (simp add: bit_iff_odd)

lemma bit7_large: "0 \<le> n \<Longrightarrow> n < 128 \<Longrightarrow> bit (n + 128) 7" for n :: int
proof -
  assume "0 \<le> n" "n < 128"
  then have "(n + 128) div 128 = 1" by (simp add: div_pos_pos_trivial)
  then show ?thesis by (simp add: bit_iff_odd)
qed

lemma encode_length_cases:
  assumes "encode_length n = Inr l" "n < 2 ^ 1016"
  obtains (short) "n < 128" "l = [byte_of (int n)]"
    | (long) k where "k < 128" "l = byte_of (int k + 128) # be_bytes k (int n)" "int n < 2 ^ (8 * k)"
proof (cases "n < 128")
  case True
  with assms(1) that(1) show ?thesis by (simp add: encode_length_def one_byte_def)
next
  case False
  define k where "k = (bit_length (int n) + 7) div 8"
  have "int n < 2 ^ 1016" using assms(2) by (metis of_nat_less_iff of_nat_numeral of_nat_power)
  then have "bit_length (int n) \<le> 1016" by (rule bit_length_le)
  then have k: "k < 128" by (simp add: k_def)
  have "int n < 2 ^ bit_length (int n)" using False bit_length_bounds [of "int n"] by simp
  also have "\<dots> \<le> 2 ^ (8 * k)" by (intro power_increasing) (simp_all add: k_def)
  finally have n: "int n < 2 ^ (8 * k)" .
  then have b: "to_bytes k (int n) = Inr (be_bytes k (int n))" by (simp add: to_bytes_def)
  have o: "0x80 OR int k = int k + 128" using k by (intro or_0x80) auto
  have "l = byte_of (int k + 128) # be_bytes k (int n)"
    using assms(1) False k
    by (simp add: encode_length_def one_byte_def Let_def k_def [symmetric] b o)
  with n k that(2) show ?thesis by blast
qed

lemma read_tlv_tlv:
  assumes "tlv tag val = Inr bs" "length val < 2 ^ 1016"
  shows "read_tlv (bs @ rest) = Inr (byte_of tag, val, rest)"
proof -
  from assms(1) obtain l where tag: "0 \<le> tag" "tag < 256" and l: "encode_length (length val) = Inr l"
    and bs: "bs = byte_of tag # l @ val"
    by (cases "encode_length (length val)") (auto simp: tlv_def one_byte_def split: if_splits)
  from l assms(2) show ?thesis
  proof (cases rule: encode_length_cases)
    case short
    then have "uint (byte_of (int (length val))) = int (length val)" by (simp add: uint_byte_of)
    then show ?thesis
      using short bit7_small [of "int (length val)"] and_0x80 [of "int (length val)"]
      by (simp add: bs read_tlv_def)
  next
    case (long k)
    then have u: "uint (byte_of (int k + 128)) = int k + 128" by (simp add: uint_byte_of)
    have m: "(int k + 128) AND 0x7f = int k" using long(1) by (simp add: and_0x7f)
    have h: "(int k + 128) AND 0x80 \<noteq> 0" using long(1) by (simp add: and_0x80 bit7_large)
    show ?thesis using long(2,3) by (simp add: bs read_tlv_def u m h)
  qed
qed

lemma tlv_length: "tlv tag val = Inr bs \<Longrightarrow> length val < length bs"
  by (cases "encode_length (length val)") (auto simp: tlv_def one_byte_def split: if_splits)

lemma tlv_tag_range: "tlv tag val = Inr bs \<Longrightarrow> 0 \<le> tag \<and> tag < 256"
  by (auto simp: tlv_def one_byte_def split: if_splits)

subsection \<open>Integers\<close>

definition int_body :: "int \<Rightarrow> bytes" where
  "int_body n = (if n = 0 then [0] else be_bytes (max 1 ((bit_length n + 8) div 8)) n)"

lemma int_body_hd:
  assumes "0 \<le> n"
  shows "uint (hd (int_body n)) < 128"
proof (cases "n = 0")
  case False
  define k where "k = (bit_length n + 8) div 8"
  have n: "n < 2 ^ bit_length n" "0 < n" using assms False bit_length_bounds [of n] by auto
  have k: "bit_length n + 1 \<le> 8 * k" "0 < k" by (simp_all add: k_def)
  have "(2::int) ^ bit_length n \<le> 2 ^ (8 * k - 1)" using k by (intro power_increasing) auto
  with n have lt: "n < 2 ^ (8 * k - 1)" by linarith
  have "(2::int) ^ (8 * k - 1) < 2 ^ (8 * k)" using k by (intro power_strict_increasing) auto
  with lt have "n < 2 ^ (8 * k)" by linarith
  with assms have val: "from_bytes (be_bytes k n) = n" by simp
  obtain b bs where b: "be_bytes k n = b # bs" "length bs = k - 1"
    using k(2) by (cases "be_bytes k n") (auto dest: arg_cong [where f = length])
  have e: "8 * k - 1 = 7 + 8 * (k - 1)" using k(2) by simp
  have "uint b * 256 ^ (k - 1) \<le> n"
    using val from_bytes_range(1) [of bs] by (simp add: b from_bytes_Cons)
  also have "n < 128 * 256 ^ (k - 1)"
  proof -
    have "(2::int) ^ (8 * k - 1) = 2 ^ 7 * 2 ^ (8 * (k - 1))" by (subst e) (rule power_add)
    with lt show ?thesis by (simp add: pow_256)
  qed
  finally have "uint b < 128" by simp
  moreover have "int_body n = be_bytes k n" using False k(2) by (simp add: int_body_def k_def max_def)
  ultimately show ?thesis using b by simp
qed (simp add: int_body_def)

lemma encode_int_eq: "0 \<le> n \<Longrightarrow> encode_int n tag = tlv tag (int_body n)"
proof -
  assume n: "0 \<le> n"
  show ?thesis
  proof (cases "n = 0")
    case False
    define k where "k = max 1 ((bit_length n + 8) div 8)"
    have "n < 2 ^ bit_length n" using n False bit_length_bounds [of n] by auto
    also have "\<dots> \<le> 2 ^ (8 * k)" by (intro power_increasing) (auto simp: k_def)
    finally have b: "to_bytes k n = Inr (be_bytes k n)" using n by (simp add: to_bytes_def)
    have "uint (hd (be_bytes k n)) < 128" using int_body_hd [OF n] False by (simp add: int_body_def k_def)
    then have "uint (hd (be_bytes k n)) AND 0x80 = 0"
      using and_0x80 bit7_small uint_byte_range(1) by blast
    with False b n show ?thesis by (simp add: encode_int_def int_body_def k_def)
  qed (simp add: encode_int_def int_body_def)
qed

lemma encode_int_negative: "n < 0 \<Longrightarrow> encode_int n tag = Inl OverflowError"
  by (simp add: encode_int_def to_bytes_def)

lemma decode_int_body: "0 \<le> n \<Longrightarrow> decode_int (int_body n) = n"
proof -
  assume n: "0 \<le> n"
  have ne: "int_body n \<noteq> []" by (auto simp: int_body_def div_greater_zero_iff)
  moreover have "from_bytes (int_body n) = n"
  proof (cases "n = 0")
    case False
    have "n < 2 ^ bit_length n" using n False bit_length_bounds [of n] by auto
    also have "\<dots> \<le> 2 ^ (8 * max 1 ((bit_length n + 8) div 8))" by (intro power_increasing) auto
    finally show ?thesis using False n by (simp add: int_body_def)
  qed (simp add: int_body_def from_bytes_def)
  moreover have "uint (hd (int_body n)) < 128" using n by (rule int_body_hd)
  ultimately show ?thesis by (auto simp: decode_int_def from_bytes_signed_def split: list.split)
qed

subsection \<open>Object identifiers\<close>

definition base128 :: "int list \<Rightarrow> int \<Rightarrow> int" where
  "base128 ds acc = foldl (\<lambda>a d. a * 128 + d) acc ds"

definition septet_list :: "int list \<Rightarrow> bool" where
  "septet_list ds \<longleftrightarrow> (\<forall>d\<in>set ds. 0 \<le> d \<and> d < 128)"

lemma septets_returns:
  "0 \<le> v \<Longrightarrow> septet_list chunk \<Longrightarrow>
   \<exists>ds. septets v chunk = Some ds \<and> septet_list ds \<and> base128 ds 0 = base128 chunk v \<and> (v \<noteq> 0 \<or> chunk \<noteq> [] \<longrightarrow> ds \<noteq> [])"
proof (induction "nat v" arbitrary: v chunk rule: less_induct)
  case less
  show ?case
  proof (cases "v = 0")
    case True
    then show ?thesis using less(3) by (subst septets.simps) simp
  next
    case False
    define q where "q = drop_bit 7 v"
    have q: "q = v div 128" by (simp add: q_def drop_bit_eq_div)
    have "nat q < nat v" "0 \<le> q" using False less(2) by (simp_all add: q)
    moreover have "septet_list ((v AND 0x7f) # chunk)"
      using less(3) by (simp add: septet_list_def and_0x7f)
    ultimately obtain ds where ds: "septets q ((v AND 0x7f) # chunk) = Some ds" "septet_list ds"
      "base128 ds 0 = base128 ((v AND 0x7f) # chunk) q" "ds \<noteq> []"
      using less(1) [of q "(v AND 0x7f) # chunk"] by auto
    have "q * 128 + v mod 128 = v" by (simp add: q)
    with ds False show ?thesis by (subst septets.simps) (simp add: q_def [symmetric] base128_def and_0x7f)
  qed
qed

text \<open>A negative arc is never reduced to zero: the loop does not return.\<close>

lemma septets_negative: "v < 0 \<Longrightarrow> septets v chunk = None"
proof -
  have "0 \<le> v" if "septets v chunk = Some ds" for ds
  proof (rule septets.raw_induct [of "\<lambda>v _ _. 0 \<le> v", OF _ that])
    fix f :: "int \<Rightarrow> int list \<Rightarrow> int list option" and v chunk y
    assume ih: "\<And>v chunk y. f v chunk = Some y \<Longrightarrow> 0 \<le> v"
      and step: "(if v = 0 then Some chunk else f (drop_bit 7 v) ((v AND 0x7f) # chunk)) = Some y"
    show "0 \<le> v"
    proof (cases "v = 0")
      case False
      with step have "f (drop_bit 7 v) ((v AND 0x7f) # chunk) = Some y" by simp
      from ih [OF this] show ?thesis by simp
    qed simp
  qed
  then show "v < 0 \<Longrightarrow> septets v chunk = None" by (cases "septets v chunk") auto
qed

lemma uint_septet: "0 \<le> d \<Longrightarrow> d < 128 \<Longrightarrow> uint (byte_of d) = d"
  by (simp add: uint_byte_of)

lemma uint_septet_more: "0 \<le> d \<Longrightarrow> d < 128 \<Longrightarrow> uint (byte_of (d OR 0x80)) = d + 128"
  using or_0x80 [of d] by (simp add: uint_byte_of or.commute)

lemma push_or_septet: "0 \<le> d \<Longrightarrow> d < 128 \<Longrightarrow> push_bit 7 cur OR d = cur * 128 + d" for cur d :: int
proof -
  assume d: "0 \<le> d" "d < 128"
  then have "take_bit 7 d = d" by (simp add: take_bit_int_eq_self)
  then have "\<not> bit d n" if "7 \<le> n" for n using that by (metis bit_take_bit_iff not_less)
  then have "push_bit 7 cur AND d = 0" by (intro bit_eqI) (auto simp: bit_and_iff bit_push_bit_iff)
  then have "push_bit 7 cur + d = push_bit 7 cur OR d" by (rule disjunctive_add_eq_or)
  then show ?thesis by (simp add: push_bit_eq_mult)
qed

lemma oid_arcs_septets:
  "septet_list ds \<Longrightarrow> ds \<noteq> [] \<Longrightarrow>
   oid_arcs cur (with_more ds @ rest) = base128 ds cur # oid_arcs 0 rest"
proof (induction ds arbitrary: cur rule: with_more.induct)
  case (2 x)
  then have x: "0 \<le> x" "x < 128" by (auto simp: septet_list_def)
  then show ?case
    using and_0x80 [of x] bit7_small [of x]
    by (simp add: uint_septet push_or_septet and_0x7f base128_def)
next
  case (3 x y ys)
  then have x: "0 \<le> x" "x < 128" by (auto simp: septet_list_def)
  have "septet_list (y # ys)" using 3 by (simp add: septet_list_def)
  then have "oid_arcs (cur * 128 + x) (with_more (y # ys) @ rest) = base128 (y # ys) (cur * 128 + x) # oid_arcs 0 rest"
    using 3(1) by simp
  then show ?case
    using x and_0x80 [of "x + 128"] bit7_large [of x]
    by (simp add: uint_septet_more push_or_septet and_0x7f base128_def Let_def)
qed simp

lemma encode_arc_returns:
  assumes "0 \<le> p"
  shows "\<exists>bs. encode_arc p = Some (Inr bs) \<and> (\<forall>rest. oid_arcs 0 (bs @ rest) = p # oid_arcs 0 rest)"
proof (cases "p = 0")
  case True
  then show ?thesis by (simp add: encode_arc_def)
next
  case False
  from septets_returns [of p "[]"] assms obtain ds where
    ds: "septets p [] = Some ds" "septet_list ds" "base128 ds 0 = p" "ds \<noteq> []"
    using False by (auto simp: septet_list_def base128_def)
  have "encode_arc p = Some (Inr (with_more ds))" using False ds(1) by (simp add: encode_arc_def)
  then show ?thesis using oid_arcs_septets [OF ds(2,4), of 0] ds(3) by simp
qed

lemma encode_arcs_return:
  assumes "\<forall>p\<in>set ps. 0 \<le> p"
  shows "\<exists>bss. run_map encode_arc ps = Some (Inr bss) \<and> oid_arcs 0 (concat bss) = ps"
  using assms
proof (induction ps)
  case (Cons p ps)
  then obtain bss where bss: "run_map encode_arc ps = Some (Inr bss)" "oid_arcs 0 (concat bss) = ps" by auto
  from Cons.prems have "0 \<le> p" by simp
  then obtain bs where bs: "encode_arc p = Some (Inr bs)" "\<forall>rest. oid_arcs 0 (bs @ rest) = p # oid_arcs 0 rest"
    using encode_arc_returns by blast
  have "run_map encode_arc (p # ps) = Some (Inr (bs # bss))" using bs(1) bss(1) by simp
  with bs(2) bss(2) show ?case by auto
qed simp

text \<open>The text of an object identifier and its arcs.\<close>

lemma dots_split:
  assumes "\<forall>n\<in>set ns. 0 \<le> n" "0 \<le> n"
  shows "split_on (CHR ''.'') (show_int n @ concat (List.map (\<lambda>m. CHR ''.'' # show_int m) ns))
         = show_int n # List.map show_int ns"
  using assms
proof (induction ns arbitrary: n)
  case Nil
  then show ?case by (simp add: split_on_no_sep show_int_no_dot)
next
  case (Cons m ns)
  then show ?case by (simp add: split_on_append show_int_no_dot)
qed

lemma ints_of_show: "\<forall>n\<in>set ns. 0 \<le> n \<Longrightarrow> ints_of (List.map show_int ns) = Some ns"
  by (induction ns) (simp_all add: py_int_show_int)

lemma strip_char_id: "s \<noteq> [] \<Longrightarrow> hd s \<noteq> c \<Longrightarrow> last s \<noteq> c \<Longrightarrow> strip_char c s = s"
proof -
  assume s: "s \<noteq> []" "hd s \<noteq> c" "last s \<noteq> c"
  have "dropWhile (\<lambda>x. x = c) s = s" using s by (cases s) auto
  moreover have "dropWhile (\<lambda>x. x = c) (rev s) = rev s" using s by (cases s rule: rev_cases) auto
  ultimately show ?thesis by (simp add: strip_char_def)
qed

lemma join_dots_ends:
  assumes "\<forall>n\<in>set ns. 0 \<le> n" "ns \<noteq> []"
  shows "join_dots ns \<noteq> []" "hd (join_dots ns) \<noteq> CHR ''.''" "last (join_dots ns) \<noteq> CHR ''.''"
proof -
  obtain n ms where ns: "ns = n # ms" using assms(2) by (cases ns) auto
  have n: "0 \<le> n" using assms(1) ns by simp
  have no_dot: "c \<in> set (show_int k) \<Longrightarrow> c \<noteq> CHR ''.''" for c k using show_int_no_dot by metis
  show "join_dots ns \<noteq> []" by (simp add: join_dots_def ns)
  have "hd (join_dots ns) = hd (show_int n)" by (simp add: join_dots_def ns)
  then show "hd (join_dots ns) \<noteq> CHR ''.''" using no_dot [OF hd_in_set [OF show_int_nonempty]] by metis
  have "last (join_dots ns) = last (show_int (last ns))"
    by (cases ms rule: rev_cases) (simp_all add: join_dots_def ns)
  then show "last (join_dots ns) \<noteq> CHR ''.''" using no_dot [OF last_in_set [OF show_int_nonempty]] by metis
qed

lemma oid_parts_join:
  assumes "\<forall>n\<in>set ns. 0 \<le> n" "2 \<le> length ns"
  shows "oid_parts (join_dots ns) = Inr ns"
proof -
  obtain n ms where ns: "ns = n # ms" using assms(2) by (cases ns) auto
  have "ns \<noteq> []" using assms(2) by auto
  then have s: "strip_char (CHR ''.'') (join_dots ns) = join_dots ns"
    using join_dots_ends [OF assms(1)] by (intro strip_char_id)
  have "split_on (CHR ''.'') (join_dots ns) = List.map show_int ns"
    using dots_split [of ms n] assms(1) by (simp add: join_dots_def ns)
  moreover have "filter (\<lambda>p. p \<noteq> []) (List.map show_int ns) = List.map show_int ns"
    by (rule filter_True) auto
  ultimately show ?thesis
    using assms by (simp add: oid_parts_def s ints_of_show res_of_def)
qed

definition oid_arcs_ok :: "int list \<Rightarrow> bool" where
  "oid_arcs_ok ns \<longleftrightarrow>
     2 \<le> length ns \<and> (\<forall>n\<in>set ns. 0 \<le> n) \<and> ns ! 1 < 40 \<and> ns ! 0 * 40 + ns ! 1 < 256"

lemma encode_oid_returns:
  assumes "oid_arcs_ok ns"
  obtains body where "encode_oid (join_dots ns) = Some (tlv tag_oid body)" "decode_oid body = join_dots ns"
proof -
  obtain a b ms where ns: "ns = a # b # ms"
    using assms by (cases ns; cases "tl ns") (auto simp: oid_arcs_ok_def)
  have ok: "0 \<le> a" "0 \<le> b" "b < 40" "a * 40 + b < 256" "\<forall>m\<in>set ms. 0 \<le> m"
    using assms by (auto simp: oid_arcs_ok_def ns)
  obtain bss where bss: "run_map encode_arc ms = Some (Inr bss)" "oid_arcs 0 (concat bss) = ms"
    using encode_arcs_return [OF ok(5)] by blast
  have "oid_parts (join_dots ns) = Inr ns" using assms by (intro oid_parts_join) (auto simp: oid_arcs_ok_def)
  then have "encode_oid (join_dots ns) = Some (tlv tag_oid (byte_of (a * 40 + b) # concat bss))"
    using ok bss(1) by (simp add: encode_oid_def ns one_byte_def)
  moreover have "decode_oid (byte_of (a * 40 + b) # concat bss) = join_dots ns"
    using ok bss(2) by (simp add: decode_oid_def uint_byte_of ns)
  ultimately show ?thesis by (rule that)
qed

subsection \<open>Responses read back\<close>

lemma read_tlv_bound:
  assumes "tlv tag val = Inr bs" "length bs < 2 ^ 1016"
  shows "read_tlv (bs @ rest) = Inr (byte_of tag, val, rest)"
  using assms tlv_length [OF assms(1)] by (intro read_tlv_tlv) auto

lemma run_bind_Inr: "run_bind r f = Some (Inr y) \<longleftrightarrow> (\<exists>x. r = Some (Inr x) \<and> f x = Some (Inr y))"
  by (auto simp: run_bind_def split: option.splits sum.splits)

lemma run_map_Inr: "run_map f xs = Some (Inr ys) \<longleftrightarrow> list_all2 (\<lambda>x y. f x = Some (Inr y)) xs ys"
  by (induction xs arbitrary: ys) (auto simp: run_bind_Inr list_all2_Cons1)

lemma encode_int_Inr: "encode_int n tag = Inr bs \<Longrightarrow> 0 \<le> n \<and> tlv tag (int_body n) = Inr bs"
  by (cases "n < 0") (simp_all add: encode_int_negative encode_int_eq)

definition well_named :: "varbind \<Rightarrow> bool" where
  "well_named v \<longleftrightarrow> (\<exists>ns. oid_arcs_ok ns \<and> vb_oid v = join_dots ns)"

lemma encode_varbind_shape:
  assumes "encode_varbind v = Some (Inr item)"
  obtains body oidb valb where "tlv tag_oid body = Inr oidb" "well_named v \<Longrightarrow> decode_oid body = vb_oid v"
    "tlv tag_sequence (oidb @ valb) = Inr item"
proof -
  from assms obtain oidb valb where e: "encode_oid (vb_oid v) = Some (Inr oidb)"
    and item: "tlv tag_sequence (oidb @ valb) = Inr item"
    by (auto simp: encode_varbind_def run_bind_Inr)
  from e obtain body where body: "tlv tag_oid body = Inr oidb"
    by (auto simp: encode_oid_def run_bind_Inr)
  show ?thesis
  proof (cases "well_named v")
    case True
    then obtain ns where ns: "oid_arcs_ok ns" "vb_oid v = join_dots ns" by (auto simp: well_named_def)
    obtain body' where "encode_oid (join_dots ns) = Some (tlv tag_oid body')" "decode_oid body' = join_dots ns"
      using encode_oid_returns [OF ns(1)] by blast
    with ns(2) e item that [of body'] show ?thesis by auto
  next
    case False
    with body item that show ?thesis by blast
  qed
qed

lemma read_oids_items:
  assumes "list_all2 (\<lambda>v item. encode_varbind v = Some (Inr item)) vbs items"
    "length (concat items) < 2 ^ 1016"
  shows "\<exists>oids. read_oids (concat items) = Inr oids \<and> list_all2 (\<lambda>v oid. well_named v \<longrightarrow> oid = vb_oid v) vbs oids"
  using assms
proof (induction rule: list_all2_induct)
  case Nil
  then show ?case by (simp add: read_oids.simps)
next
  case (Cons v vbs item items)
  then obtain body oidb valb where s: "tlv tag_oid body = Inr oidb" "well_named v \<Longrightarrow> decode_oid body = vb_oid v"
    "tlv tag_sequence (oidb @ valb) = Inr item"
    using encode_varbind_shape [of v item] by auto
  have len: "length item < 2 ^ 1016" "length (concat items) < 2 ^ 1016" "length oidb < 2 ^ 1016"
    using Cons.prems tlv_length [OF s(3)] by auto
  have "read_tlv (item @ concat items) = Inr (byte_of tag_sequence, oidb @ valb, concat items)"
    by (rule read_tlv_bound [OF s(3) len(1)])
  moreover have "read_tlv (oidb @ valb) = Inr (byte_of tag_oid, body, valb)"
    by (rule read_tlv_bound [OF s(1) len(3)])
  moreover have "item \<noteq> []" using tlv_length [OF s(3)] by auto
  moreover obtain oids where "read_oids (concat items) = Inr oids"
    "list_all2 (\<lambda>v oid. well_named v \<longrightarrow> oid = vb_oid v) vbs oids"
    using Cons.IH len by auto
  ultimately show ?case using s(2) by (subst read_oids.simps) simp
qed

lemma response_parses:
  assumes "encode_response version community rid vbs es ei = Some (Inr bs)" "length bs < 2 ^ 1016"
  shows "\<exists>oids. decode_request bs =
      Inr \<lparr>rq_version = version, rq_community = community, rq_pdu = pdu_response, rq_id = rid,
           rq_param2 = es, rq_param3 = ei, rq_oids = oids\<rparr> \<and>
      list_all2 (\<lambda>v oid. well_named v \<longrightarrow> oid = vb_oid v) vbs oids"
proof -
  from assms(1) obtain items vbl pdu r e1 e2 ver comm where
    items: "list_all2 (\<lambda>v item. encode_varbind v = Some (Inr item)) vbs items"
    and vbl: "tlv tag_sequence (concat items) = Inr vbl"
    and r: "encode_int rid tag_integer = Inr r" "encode_int es tag_integer = Inr e1"
      "encode_int ei tag_integer = Inr e2"
    and pdu: "tlv pdu_response (r @ e1 @ e2 @ vbl) = Inr pdu"
    and v: "encode_int version tag_integer = Inr ver" "tlv tag_octet_string (text_bytes community) = Inr comm"
    and bs: "tlv tag_sequence (ver @ comm @ pdu) = Inr bs"
    by (auto simp: encode_response_def encode_pdu_def encode_message_def run_bind_Inr run_map_Inr res_bind_Inr)
  note i = r [THEN encode_int_Inr] v(1) [THEN encode_int_Inr]
  have len: "length ver < 2 ^ 1016" "length comm < 2 ^ 1016" "length pdu < 2 ^ 1016"
    "length r < 2 ^ 1016" "length e1 < 2 ^ 1016" "length e2 < 2 ^ 1016" "length vbl < 2 ^ 1016"
    "length (concat items) < 2 ^ 1016"
    using assms(2) tlv_length [OF bs] tlv_length [OF pdu] tlv_length [OF vbl] by auto
  have t: "uint (byte_of tag_sequence) = tag_sequence" "uint (byte_of pdu_response) = pdu_response"
    by (simp_all add: uint_byte_of tag_defs)
  have outer: "read_tlv bs = Inr (byte_of tag_sequence, ver @ comm @ pdu, [])"
    using read_tlv_bound [OF bs assms(2), of "[]"] by simp
  note reads = read_tlv_bound [of tag_integer "int_body version" ver, OF _ len(1)]
    read_tlv_bound [OF v(2) len(2)] read_tlv_bound [OF pdu len(3), of "[]", simplified]
    read_tlv_bound [of tag_integer "int_body rid" r, OF _ len(4)]
    read_tlv_bound [of tag_integer "int_body es" e1, OF _ len(5)]
    read_tlv_bound [of tag_integer "int_body ei" e2, OF _ len(6)]
    read_tlv_bound [OF vbl len(7), of "[]", simplified]
  show ?thesis
    using i read_oids_items [OF items len(8)]
    by (auto simp: decode_request_def outer t reads decode_int_body)
qed

lemma encode_response_negative:
  "rid < 0 \<Longrightarrow> encode_response version community rid vbs es ei \<noteq> Some (Inr bs)"
  by (auto simp: encode_response_def encode_pdu_def run_bind_Inr res_bind_Inr encode_int_negative)

text \<open>C24. A response the agent sends is read back by its own parser: version, community, request
  identifier, error status, error index and the object identifiers of every variable binding survive
  encoding and decoding, for every length form of every nested field.\<close>

theorem response_read_back:
  assumes "encode_response version community rid vbs es ei = Some (Inr bs)"
    "\<forall>v\<in>set vbs. well_named v" "length bs < 2 ^ 1016"
  shows "decode_request bs =
    Inr \<lparr>rq_version = version, rq_community = community, rq_pdu = pdu_response, rq_id = rid,
         rq_param2 = es, rq_param3 = ei, rq_oids = List.map vb_oid vbs\<rparr>"
proof -
  from response_parses [OF assms(1,3)] obtain oids where
    d: "decode_request bs = Inr \<lparr>rq_version = version, rq_community = community, rq_pdu = pdu_response,
          rq_id = rid, rq_param2 = es, rq_param3 = ei, rq_oids = oids\<rparr>"
    and l: "list_all2 (\<lambda>v oid. well_named v \<longrightarrow> oid = vb_oid v) vbs oids" by blast
  from l assms(2) have "oids = List.map vb_oid vbs" by (induction rule: list_all2_induct) simp_all
  with d show ?thesis by simp
qed

definition sys_name_vb :: varbind where
  "sys_name_vb = \<lparr>vb_oid = ''1.3.6.1.2.1.1.5.0'', vb_type = Some ''STRING'', vb_value = ''r1''\<rparr>"

theorem response_read_back_witness:
  "decode_request [48, 40, 2, 1, 1, 4, 6, 112, 117, 98, 108, 105, 99, 162, 27, 2, 1, 7, 2, 1, 0, 2, 1, 0,
                   48, 16, 48, 14, 6, 8, 43, 6, 1, 2, 1, 1, 5, 0, 4, 2, 114, 49] =
     Inr \<lparr>rq_version = 1, rq_community = ''public'', rq_pdu = pdu_response, rq_id = 7,
          rq_param2 = 0, rq_param3 = 0, rq_oids = List.map vb_oid [sys_name_vb]\<rparr>"
proof (rule response_read_back)
  show "encode_response 1 ''public'' 7 [sys_name_vb] 0 0 =
     Some (Inr [48, 40, 2, 1, 1, 4, 6, 112, 117, 98, 108, 105, 99, 162, 27, 2, 1, 7, 2, 1, 0, 2, 1, 0,
                48, 16, 48, 14, 6, 8, 43, 6, 1, 2, 1, 1, 5, 0, 4, 2, 114, 49])"
    by code_simp
  have "join_dots [1, 3, 6, 1, 2, 1, 1, 5, 0] = vb_oid sys_name_vb"
    "oid_arcs_ok [1, 3, 6, 1, 2, 1, 1, 5, 0]" by code_simp+
  then show "\<forall>v\<in>set [sys_name_vb]. well_named v" by (auto simp: well_named_def intro!: exI)
qed simp

text \<open>Encoding an object identifier returns, with bytes or with an error, unless an arc behind the
  first two is negative (and the first octet is in range); then the loop over that arc never ends.\<close>

theorem encode_oid_returns_iff:
  "encode_oid oid = None \<longleftrightarrow>
     (\<exists>ps. oid_parts oid = Inr ps \<and> 0 \<le> ps ! 0 * 40 + ps ! 1 \<and> ps ! 0 * 40 + ps ! 1 < 256 \<and>
           (\<exists>p\<in>set (drop 2 ps). p < 0))"
proof -
  have arc: "encode_arc p = None \<longleftrightarrow> p < 0" for p
    using encode_arc_returns [of p] septets_negative [of p "[]"]
    by (cases "p < 0") (auto simp: encode_arc_def)
  have ok: "encode_arc p \<noteq> Some (Inl e)" for p e by (auto simp: encode_arc_def)
  have map: "run_map encode_arc ps = None \<longleftrightarrow> (\<exists>p\<in>set ps. p < 0)" for ps
  proof (induction ps)
    case (Cons p ps)
    have "run_map encode_arc qs \<noteq> Some (Inl e)" for qs e
      by (induction qs arbitrary: e) (auto simp: run_bind_def ok split: option.splits sum.splits)
    with Cons show ?case
      using arc [of p] ok [of p] by (auto simp: run_bind_def split: option.splits sum.splits)
  qed simp
  have stuck: "p \<in> set ps \<Longrightarrow> p < 0 \<Longrightarrow> run_map encode_arc ps = None" for p ps using map by blast
  show ?thesis
    by (cases "oid_parts oid") (auto simp: encode_oid_def one_byte_def run_bind_def map dest: stuck split: option.splits sum.splits)
qed

text \<open>An identifier under the arc 2 whose second arc is 40 or more comes back as another identifier:
  2.100.3 is read as 4.20.3.\<close>

theorem oid_second_arc_lost:
  "encode_oid ''2.100.3'' = Some (Inr [6, 2, 180, 3]) \<and> decode_oid [180, 3] = ''4.20.3''"
  by code_simp

end
