(* ===== verification/Snmp.thy ===== *)
theory Snmp
  imports Complex_Main Ber VNet Machine "HOL-Library.List_Lexorder"
begin

text \<open>
  \<open>class SnmpAgent\<close> of \<open>engine/protocols.py\<close>, which answers GET, GETNEXT, SET and WALK from a MIB built out
  of the emulator's state at every call, and the datagram handler of \<open>engine/snmp_udp_agent.py\<close> on top of
  it. What the MIB reads elsewhere (up time, processor load, traffic counters, registered addresses and
  the interfaces that are down) is the record \<open>snmp_env\<close>; the MIB as it is built for the j-th step of the
  answer to the i-th identifier is \<open>mib i j\<close>, since time passes between two builds.
\<close>

subsection \<open>The agent\<close>

record snmp_device =
  sd_type :: string
  sd_hostname :: string
  sd_contact :: string
  sd_location :: string
  sd_community :: string
  sd_communities :: "string list"
  sd_rw_communities :: "string list"
  sd_rw_community :: string
  sd_if_admin :: "(int, string) dict"

type_synonym snmp = "(dev, snmp_device) dict"

definition str_or :: "string \<Rightarrow> string \<Rightarrow> string" where
  "str_or a b = (if a = [] then b else a)"

definition snmp_register ::
  "snmp \<Rightarrow> dev \<Rightarrow> string \<Rightarrow> string \<Rightarrow> string \<Rightarrow> string \<Rightarrow> string \<Rightarrow> string list \<Rightarrow> string list \<Rightarrow> snmp" where
  "snmp_register s d dtype host contact location community communities rw =
     (let prev = dget s d
      in dset s d
           \<lparr>sd_type = dtype, sd_hostname = host,
            sd_contact = (case prev of None \<Rightarrow> contact | Some p \<Rightarrow> str_or (sd_contact p) contact),
            sd_location = (case prev of None \<Rightarrow> location | Some p \<Rightarrow> str_or (sd_location p) location),
            sd_community = community, sd_communities = communities, sd_rw_communities = rw,
            sd_rw_community = (case prev of None \<Rightarrow> ''private'' | Some p \<Rightarrow> sd_rw_community p),
            sd_if_admin = (case prev of None \<Rightarrow> [] | Some p \<Rightarrow> sd_if_admin p)\<rparr>)"

text \<open>\<open>_auth\<close>: a device that is not registered is read with the community \<open>public\<close>.\<close>

definition auth :: "snmp \<Rightarrow> dev \<Rightarrow> string \<Rightarrow> bool" where
  "auth s d community =
     (case dget s d of
        None \<Rightarrow> community = ''public''
      | Some p \<Rightarrow> if sd_communities p \<noteq> [] then community \<in> set (sd_communities p)
                  else community = sd_community p)"

type_synonym mib_entry = "string \<times> string \<times> string"

datatype snmp_result = NoObject | AuthFail | ReadOnly | Found mib_entry

definition lstrip_dots :: "string \<Rightarrow> string" where
  "lstrip_dots s = dropWhile (\<lambda>c. c = CHR ''.'') s"

definition all_digits :: "string \<Rightarrow> bool" where
  "all_digits s \<longleftrightarrow> s \<noteq> [] \<and> list_all is_digit s"

definition if_admin_prefix :: string where
  "if_admin_prefix = ''1.3.6.1.2.1.2.2.1.7.''"

definition snmp_set :: "snmp \<Rightarrow> dev \<Rightarrow> string \<Rightarrow> string \<Rightarrow> string \<Rightarrow> snmp \<times> snmp_result" where
  "snmp_set s d oid0 val community =
     (case dget s d of
        None \<Rightarrow> (s, NoObject)
      | Some p \<Rightarrow>
          if community \<noteq> sd_rw_community p then (s, AuthFail) else
          (let oid = lstrip_dots oid0; ok = Found (oid, ''STRING'', val);
               suffix = drop (length if_admin_prefix) oid
           in if oid = ''1.3.6.1.2.1.1.4.0'' then (dset s d (p\<lparr>sd_contact := val\<rparr>), ok)
              else if oid = ''1.3.6.1.2.1.1.5.0'' then (dset s d (p\<lparr>sd_hostname := val\<rparr>), ok)
              else if oid = ''1.3.6.1.2.1.1.6.0'' then (dset s d (p\<lparr>sd_location := val\<rparr>), ok)
              else if starts_with oid if_admin_prefix \<and> all_digits suffix then
                (case py_int suffix of
                   None \<Rightarrow> (s, ReadOnly)
                 | Some i \<Rightarrow> (dset s d (p\<lparr>sd_if_admin := dset (sd_if_admin p) i val\<rparr>), Found (oid, ''INTEGER'', val)))
              else (s, ReadOnly)))"

subsection \<open>The MIB\<close>

record snmp_env =
  se_ticks :: int
  se_cpu :: int
  se_devices :: "(dev, device_info) dict"
  se_vnet :: vnet
  se_counter :: "iface \<Rightarrow> int \<times> int"

definition sys_descr :: "string \<Rightarrow> string" where
  "sys_descr t =
     (if t = ''cisco'' then ''Cisco IOS Software, ISR Software, Version 15.7(3)M''
      else if t = ''catalyst'' then ''Cisco IOS XE Software, Catalyst L3 Switch, Version 17.09.01''
      else if t = ''nexus'' then ''Cisco NX-OS Software, Nexus9000, Version 9.3(10)''
      else if t = ''asa'' then ''Cisco Adaptive Security Appliance Version 9.16(1)''
      else if t = ''sir'' then ''FUJITSU Si-R G120 Router, Firmware V40.00''
      else if t = ''srs'' then ''FUJITSU SR-S Switch, Firmware V40.00''
      else if t = ''apresia'' then ''APRESIA ApresiaLightGM200, Firmware 4.18.01''
      else if t = ''pc'' then ''Linux host 5.15.0 x86_64''
      else ''Network Device'')"

definition sys_objectid :: "string \<Rightarrow> string" where
  "sys_objectid t =
     (if t = ''cisco'' then ''1.3.6.1.4.1.9.1.1''
      else if t = ''catalyst'' then ''1.3.6.1.4.1.9.1.2494''
      else if t = ''nexus'' then ''1.3.6.1.4.1.9.12.3.1.3.1084''
      else if t = ''asa'' then ''1.3.6.1.4.1.9.1.1408''
      else if t = ''sir'' then ''1.3.6.1.4.1.211.1.127''
      else if t = ''srs'' then ''1.3.6.1.4.1.211.1.127''
      else if t = ''apresia'' then ''1.3.6.1.4.1.2544''
      else if t = ''pc'' then ''1.3.6.1.4.1.8072.3.2.10''
      else ''1.3.6.1.4.1.0'')"

definition cisco_mib :: "string \<Rightarrow> bool" where
  "cisco_mib t \<longleftrightarrow> t \<in> {''cisco'', ''catalyst'', ''nexus'', ''asa''}"

definition system_group :: "snmp \<Rightarrow> snmp_env \<Rightarrow> dev \<Rightarrow> mib_entry list" where
  "system_group s e d =
     (let p = dget s d; t = (case p of None \<Rightarrow> ''cisco'' | Some p \<Rightarrow> sd_type p)
      in [(''1.3.6.1.2.1.1.1.0'', ''STRING'', sys_descr t),
          (''1.3.6.1.2.1.1.2.0'', ''OID'', sys_objectid t),
          (''1.3.6.1.2.1.1.3.0'', ''Timeticks'', show_int (se_ticks e)),
          (''1.3.6.1.2.1.1.4.0'', ''STRING'', str_or (case p of None \<Rightarrow> [] | Some p \<Rightarrow> sd_contact p) ''admin@example.com''),
          (''1.3.6.1.2.1.1.5.0'', ''STRING'', (case p of None \<Rightarrow> d | Some p \<Rightarrow> sd_hostname p)),
          (''1.3.6.1.2.1.1.6.0'', ''STRING'', str_or (case p of None \<Rightarrow> [] | Some p \<Rightarrow> sd_location p) ''Lab''),
          (''1.3.6.1.2.1.1.7.0'', ''INTEGER'', ''78'')] @
         (if cisco_mib t
          then [(''1.3.6.1.4.1.9.9.109.1.1.1.1.3.1'', ''Gauge32'', show_int (se_cpu e)),
                (''1.3.6.1.4.1.9.9.109.1.1.1.1.4.1'', ''Gauge32'', show_int (se_cpu e)),
                (''1.3.6.1.4.1.9.9.109.1.1.1.1.7.1'', ''Gauge32'', show_int (se_cpu e))]
          else []))"

definition if_oid :: "int \<Rightarrow> int \<Rightarrow> string" where
  "if_oid c i = ''1.3.6.1.2.1.2.2.1.'' @ show_int c @ ''.'' @ show_int i"

definition if_entries :: "snmp \<Rightarrow> snmp_env \<Rightarrow> dev \<Rightarrow> int \<Rightarrow> iface \<Rightarrow> iface_info \<Rightarrow> mib_entry list" where
  "if_entries s e d i ifn info =
     (let shut = is_down (se_vnet e) d ifn;
          admin = (case dget s d of None \<Rightarrow> None | Some p \<Rightarrow> dget (sd_if_admin p) i);
          status = (if shut \<or> \<not> truthy (if_ip info) then ''2'' else ''1'');
          (inb, outb) = se_counter e ifn
      in [(if_oid 1 i, ''INTEGER'', show_int i),
          (if_oid 2 i, ''STRING'', ifn),
          (if_oid 3 i, ''INTEGER'', ''6''),
          (if_oid 5 i, ''Gauge32'', ''1000000000''),
          (if_oid 7 i, ''INTEGER'', case admin of None \<Rightarrow> if shut then ''2'' else ''1'' | Some a \<Rightarrow> a),
          (if_oid 8 i, ''INTEGER'', status),
          (if_oid 10 i, ''Counter32'', show_int inb),
          (if_oid 16 i, ''Counter32'', show_int outb)])"

fun if_table :: "snmp \<Rightarrow> snmp_env \<Rightarrow> dev \<Rightarrow> int \<Rightarrow> (iface, iface_info) dict \<Rightarrow> mib_entry list" where
  "if_table s e d i [] = []"
| "if_table s e d i ((ifn, info) # rest) = if_entries s e d i ifn info @ if_table s e d (i + 1) rest"

definition mib_ifaces :: "snmp_env \<Rightarrow> dev \<Rightarrow> (iface, iface_info) dict" where
  "mib_ifaces e d =
     (if ifaces_of (se_devices e) d = [] then [(''lo0'', \<lparr>if_ip = Some ''127.0.0.1'', if_prefix = Some 8\<rparr>)]
      else ifaces_of (se_devices e) d)"

definition ip_oid :: "ip \<Rightarrow> string" where
  "ip_oid a = ''1.3.6.1.2.1.4.20.1.1.'' @ a"

definition unsorted_mib :: "snmp \<Rightarrow> snmp_env \<Rightarrow> dev \<Rightarrow> mib_entry list" where
  "unsorted_mib s e d =
     system_group s e d @
     [(''1.3.6.1.2.1.2.1.0'', ''INTEGER'', show_int (int (length (mib_ifaces e d))))] @
     if_table s e d 1 (mib_ifaces e d) @
     List.map (\<lambda>a. (ip_oid a, ''IpAddress'', a)) (dkeys (ips_of (se_devices e) d))"

text \<open>The two readings of an identifier: the sort key turns a part that is no number into 0, the
  comparison of GETNEXT leaves it out.\<close>

definition digits_int :: "string \<Rightarrow> int" where
  "digits_int w = (case py_int w of None \<Rightarrow> 0 | Some n \<Rightarrow> n)"

definition sort_oid :: "string \<Rightarrow> int list" where
  "sort_oid oid = List.map (\<lambda>w. if all_digits w then digits_int w else 0) (split_on (CHR ''.'') oid)"

definition num_oid :: "string \<Rightarrow> int list" where
  "num_oid oid = List.map digits_int (filter all_digits (split_on (CHR ''.'') oid))"

definition oid_gt :: "string \<Rightarrow> string \<Rightarrow> bool" where
  "oid_gt a b \<longleftrightarrow> num_oid a > num_oid b"

definition build_mib :: "snmp \<Rightarrow> snmp_env \<Rightarrow> dev \<Rightarrow> mib_entry list" where
  "build_mib s e d = sort_key (\<lambda>x. sort_oid (fst x)) (unsorted_mib s e d)"

subsection \<open>Reading\<close>

definition found :: "mib_entry option \<Rightarrow> snmp_result" where
  "found x = (case x of None \<Rightarrow> NoObject | Some y \<Rightarrow> Found y)"

definition snmp_get :: "snmp \<Rightarrow> mib_entry list \<Rightarrow> dev \<Rightarrow> string \<Rightarrow> string \<Rightarrow> snmp_result" where
  "snmp_get s mib d oid community =
     (if dget s d = None then NoObject
      else if \<not> auth s d community then AuthFail
      else found (find (\<lambda>x. fst x = lstrip_dots oid) mib))"

definition getnext :: "snmp \<Rightarrow> mib_entry list \<Rightarrow> dev \<Rightarrow> string \<Rightarrow> string option \<Rightarrow> snmp_result" where
  "getnext s mib d oid community =
     (if (case community of None \<Rightarrow> False | Some c \<Rightarrow> \<not> auth s d c) then AuthFail
      else found (find (\<lambda>x. oid_gt (fst x) (lstrip_dots oid)) mib))"

datatype walk_result = WalkNone | WalkAuthFail | Walked "mib_entry list"

definition snmp_walk :: "snmp \<Rightarrow> mib_entry list \<Rightarrow> dev \<Rightarrow> string \<Rightarrow> string \<Rightarrow> walk_result" where
  "snmp_walk s mib d base_oid community =
     (if dget s d = None then WalkNone
      else if \<not> auth s d community then WalkAuthFail
      else (let base = lstrip_dots base_oid
            in Walked (filter (\<lambda>x. fst x = base \<or> starts_with (fst x) (base @ ''.'')) mib)))"

subsection \<open>The datagram handler\<close>

definition vb_of :: "mib_entry \<Rightarrow> varbind" where
  "vb_of x = \<lparr>vb_oid = fst x, vb_type = Some (fst (snd x)), vb_value = snd (snd x)\<rparr>"

definition vb_missing :: "string \<Rightarrow> varbind" where
  "vb_missing oid = \<lparr>vb_oid = oid, vb_type = None, vb_value = []\<rparr>"

definition vb_end :: "string \<Rightarrow> varbind" where
  "vb_end oid = \<lparr>vb_oid = oid, vb_type = Some ''ENDOFMIBVIEW'', vb_value = []\<rparr>"

fun bulk :: "snmp \<Rightarrow> dev \<Rightarrow> string \<Rightarrow> (nat \<Rightarrow> mib_entry list) \<Rightarrow> nat \<Rightarrow> nat \<Rightarrow> string \<Rightarrow> varbind list" where
  "bulk s d community mib j 0 cur = []"
| "bulk s d community mib j (Suc n) cur =
     (case getnext s (mib j) d cur (Some community) of
        Found x \<Rightarrow> vb_of x # bulk s d community mib (Suc j) n (fst x)
      | _ \<Rightarrow> [vb_end cur])"

definition answer :: "snmp \<Rightarrow> dev \<Rightarrow> (nat \<Rightarrow> nat \<Rightarrow> mib_entry list) \<Rightarrow> snmp_request \<Rightarrow> varbind list option" where
  "answer s d mib rq =
     (let numbered = enumerate 0 (rq_oids rq); c = rq_community rq
      in if rq_pdu rq = pdu_get then
           Some (List.map (\<lambda>(i, oid). case snmp_get s (mib i 0) d oid c of
                                        Found x \<Rightarrow> vb_of x | _ \<Rightarrow> vb_missing oid) numbered)
         else if rq_pdu rq = pdu_getnext then
           Some (List.map (\<lambda>(i, oid). case getnext s (mib i 0) d oid (Some c) of
                                        Found x \<Rightarrow> vb_of x | _ \<Rightarrow> vb_end oid) numbered)
         else if rq_pdu rq = pdu_getbulk then
           Some (concat (List.map (\<lambda>(i, oid). bulk s d c (mib i) 0 (nat (max 1 (rq_param3 rq))) oid) numbered))
         else None)"

text \<open>The datagram sent back, if any; an exception while the response is encoded leaves the handler.\<close>

definition datagram_received ::
  "snmp \<Rightarrow> dev \<Rightarrow> (nat \<Rightarrow> nat \<Rightarrow> mib_entry list) \<Rightarrow> bytes \<Rightarrow> bytes option run" where
  "datagram_received s d mib data =
     (case decode_request data of
        Inl _ \<Rightarrow> Some (Inr None)
      | Inr rq \<Rightarrow>
          if \<not> auth s d (rq_community rq) then Some (Inr None)
          else case answer s d mib rq of
                 None \<Rightarrow> Some (Inr None)
               | Some vbs \<Rightarrow>
                   run_bind (encode_response (rq_version rq) (rq_community rq) (rq_id rq) vbs 0 0)
                     (\<lambda>bs. Some (Inr (Some bs))))"

subsection \<open>Answers\<close>

text \<open>A request is answered only when its community is accepted by the device, and the answer, read
  with the agent's own parser, is a response that carries the request's version, community and request
  identifier and no error.\<close>

theorem snmp_answer_matches_request:
  assumes "datagram_received s d mib data = Some (Inr (Some bs))" "length bs < 2 ^ 1016"
  shows "\<exists>rq rsp. decode_request data = Inr rq \<and> auth s d (rq_community rq) \<and> decode_request bs = Inr rsp \<and>
    rq_id rsp = rq_id rq \<and> rq_version rsp = rq_version rq \<and> rq_community rsp = rq_community rq \<and>
    rq_pdu rsp = pdu_response \<and> rq_param2 rsp = 0 \<and> rq_param3 rsp = 0"
proof -
  from assms(1) obtain rq vbs where rq: "decode_request data = Inr rq" "auth s d (rq_community rq)"
    "encode_response (rq_version rq) (rq_community rq) (rq_id rq) vbs 0 0 = Some (Inr bs)"
    by (auto simp: datagram_received_def run_bind_Inr split: sum.splits if_splits option.splits)
  from response_parses [OF rq(3) assms(2)] rq(1,2) show ?thesis by auto
qed

lemma snmp_answer_matches_request_witness:
  "\<exists>rq rsp. decode_request [48, 32, 2, 1, 1, 4, 6, 112, 117, 98, 108, 105, 99, 160, 19, 2, 1, 5, 2, 1, 0, 2, 1, 0,
      48, 8, 48, 6, 6, 2, 43, 6, 5, 0] = Inr rq \<and> auth [] ''r1'' (rq_community rq) \<and>
     decode_request [48, 32, 2, 1, 1, 4, 6, 112, 117, 98, 108, 105, 99, 162, 19, 2, 1, 5, 2, 1, 0, 2, 1, 0,
      48, 8, 48, 6, 6, 2, 43, 6, 128, 0] = Inr rsp \<and> rq_id rsp = rq_id rq \<and> rq_pdu rsp = pdu_response"
proof -
  have "datagram_received [] ''r1'' (\<lambda>_ _. []) [48, 32, 2, 1, 1, 4, 6, 112, 117, 98, 108, 105, 99, 160, 19, 2, 1, 5, 2, 1, 0, 2, 1, 0,
      48, 8, 48, 6, 6, 2, 43, 6, 5, 0] = Some (Inr (Some [48, 32, 2, 1, 1, 4, 6, 112, 117, 98, 108, 105, 99, 162, 19, 2, 1, 5, 2, 1, 0, 2, 1, 0,
      48, 8, 48, 6, 6, 2, 43, 6, 128, 0]))"
    by code_simp
  moreover have "length [48, 32, 2, 1, 1, 4, 6, 112, 117, 98, 108, 105, 99, 162, 19, 2, 1, 5, 2, 1, 0, 2, 1, 0,
      48, 8, 48, 6, 6, 2, 43, 6, 128, 0] < 2 ^ 1016"
    by (rule less_le_trans [OF _ power_increasing [of 7 1016 2]]) simp_all
  ultimately show ?thesis using snmp_answer_matches_request by blast
qed

text \<open>A request whose identifier is negative (an ordinary value of the protocol's signed 32-bit field)
  is never answered: the encoder refuses to write the identifier back.\<close>

theorem negative_request_id_unanswered:
  assumes "decode_request data = Inr rq" "rq_id rq < 0"
  shows "datagram_received s d mib data \<noteq> Some (Inr (Some bs))"
  using assms encode_response_negative
  by (auto simp: datagram_received_def run_bind_Inr split: if_splits option.splits)

theorem negative_request_id_unanswered_witness:
  "\<forall>bs. datagram_received [] ''r1'' (\<lambda>_ _. [])
     [48, 32, 2, 1, 1, 4, 6, 112, 117, 98, 108, 105, 99, 160, 19, 2, 1, 255, 2, 1, 0, 2, 1, 0,
      48, 8, 48, 6, 6, 2, 43, 6, 5, 0]
   \<noteq> Some (Inr (Some bs))"
proof (intro allI negative_request_id_unanswered)
  show "decode_request [48, 32, 2, 1, 1, 4, 6, 112, 117, 98, 108, 105, 99, 160, 19, 2, 1, 255, 2, 1, 0, 2, 1, 0,
      48, 8, 48, 6, 6, 2, 43, 6, 5, 0] =
    Inr \<lparr>rq_version = 1, rq_community = ''public'', rq_pdu = 160, rq_id = -1,
         rq_param2 = 0, rq_param3 = 0, rq_oids = [''1.3.6'']\<rparr>"
    by code_simp
qed simp

subsection \<open>Write access\<close>

datatype snmp_op =
  SnmpRegister dev string string string string string "string list" "string list"
| SnmpSet dev string string string

fun snmp_apply :: "snmp_op \<Rightarrow> snmp \<Rightarrow> snmp" where
  "snmp_apply (SnmpRegister d t h c l com coms rw) s = snmp_register s d t h c l com coms rw"
| "snmp_apply (SnmpSet d oid val com) s = fst (snmp_set s d oid val com)"

definition rw_private :: "snmp \<Rightarrow> bool" where
  "rw_private s \<longleftrightarrow> (\<forall>d p. dget s d = Some p \<longrightarrow> sd_rw_community p = ''private'')"

interpretation snmp: machine snmp_apply "[]" rw_private
proof
  show "rw_private []" by (simp add: rw_private_def)
next
  fix s op
  assume "rw_private s"
  then show "rw_private (snmp_apply op s)"
    by (cases op) (auto simp: rw_private_def snmp_register_def snmp_set_def Let_def split: option.splits)
qed

text \<open>Whatever read-write communities are configured, a write is accepted only with the community
  \<open>private\<close>, and with it every registered device can be written.\<close>

theorem rw_community_ignored:
  "let s = fold snmp_apply ops []
   in (snd (snmp_set s d oid val community) = Found x \<longrightarrow> community = ''private'') \<and>
      (dget s d \<noteq> None \<longrightarrow> snd (snmp_set s d ''1.3.6.1.2.1.1.5.0'' val ''private'') = Found (''1.3.6.1.2.1.1.5.0'', ''STRING'', val))"
proof -
  have "rw_private (fold snmp_apply ops [])" by (rule snmp.run_inv)
  then show ?thesis
    by (auto simp: rw_private_def snmp_set_def lstrip_dots_def Let_def split: option.splits if_splits)
qed

lemma rw_community_ignored_witness:
  "snd (snmp_set (fold snmp_apply [SnmpRegister ''r1'' ''cisco'' ''R1'' [] [] ''public'' [] [''secret'']] []) ''r1''
     ''1.3.6.1.2.1.1.5.0'' ''X'' ''private'') = Found (''1.3.6.1.2.1.1.5.0'', ''STRING'', ''X'')"
proof -
  have "dget (fold snmp_apply [SnmpRegister ''r1'' ''cisco'' ''R1'' [] [] ''public'' [] [''secret'']] []) ''r1'' \<noteq> None"
    by (simp add: snmp_register_def Let_def)
  then show ?thesis
    using rw_community_ignored [of "[SnmpRegister ''r1'' ''cisco'' ''R1'' [] [] ''public'' [] [''secret'']]" "''r1''"
        undefined "''X''"]
    by (simp add: Let_def)
qed

subsection \<open>The order of the MIB\<close>

lemma all_digits_show: "0 \<le> n \<Longrightarrow> all_digits (show_int n)"
  by (auto simp: all_digits_def list_all_iff dest: show_int_digits)

lemma split_join_dots:
  assumes "\<forall>n\<in>set ns. 0 \<le> n" "ns \<noteq> []"
  shows "split_on (CHR ''.'') (join_dots ns) = List.map show_int ns"
  using assms dots_split by (cases ns) (auto simp: join_dots_def)

lemma oid_keys_join:
  assumes "\<forall>n\<in>set ns. 0 \<le> n" "ns \<noteq> []"
  shows "sort_oid (join_dots ns) = ns" "num_oid (join_dots ns) = ns"
proof -
  have d: "n \<in> set ns \<Longrightarrow> all_digits (show_int n) \<and> digits_int (show_int n) = n" for n
    using assms(1) by (simp add: all_digits_show digits_int_def py_int_show_int)
  then have "filter all_digits (List.map show_int ns) = List.map show_int ns" by (intro filter_True) auto
  with d show "sort_oid (join_dots ns) = ns" "num_oid (join_dots ns) = ns"
    by (auto simp: sort_oid_def num_oid_def split_join_dots [OF assms] comp_def intro!: map_idI)
qed

text \<open>The identifiers of the MIB as lists of numbers.\<close>

definition system_arcs :: "bool \<Rightarrow> int list list" where
  "system_arcs cpu =
     [[1,3,6,1,2,1,1,1,0], [1,3,6,1,2,1,1,2,0], [1,3,6,1,2,1,1,3,0], [1,3,6,1,2,1,1,4,0],
      [1,3,6,1,2,1,1,5,0], [1,3,6,1,2,1,1,6,0], [1,3,6,1,2,1,1,7,0]] @
     (if cpu then [[1,3,6,1,4,1,9,9,109,1,1,1,1,3,1], [1,3,6,1,4,1,9,9,109,1,1,1,1,4,1],
                   [1,3,6,1,4,1,9,9,109,1,1,1,1,7,1]] else [])"

definition if_arcs :: "int \<Rightarrow> int list list" where
  "if_arcs i = List.map (\<lambda>c. [1,3,6,1,2,1,2,2,1,c,i]) [1,2,3,5,7,8,10,16]"

definition octets :: "int \<Rightarrow> int list" where
  "octets n = [octet 24 n, octet 16 n, octet 8 n, octet 0 n]"

lemma system_arcs_text: "List.map join_dots (system_arcs True) =
   [''1.3.6.1.2.1.1.1.0'', ''1.3.6.1.2.1.1.2.0'', ''1.3.6.1.2.1.1.3.0'', ''1.3.6.1.2.1.1.4.0'',
    ''1.3.6.1.2.1.1.5.0'', ''1.3.6.1.2.1.1.6.0'', ''1.3.6.1.2.1.1.7.0'',
    ''1.3.6.1.4.1.9.9.109.1.1.1.1.3.1'', ''1.3.6.1.4.1.9.9.109.1.1.1.1.4.1'',
    ''1.3.6.1.4.1.9.9.109.1.1.1.1.7.1'']"
  by code_simp

lemma system_group_oids:
  "List.map fst (system_group s e d) =
     List.map join_dots (system_arcs (cisco_mib (case dget s d of None \<Rightarrow> ''cisco'' | Some p \<Rightarrow> sd_type p)))"
  using system_arcs_text by (simp add: system_group_def system_arcs_def Let_def)

lemma show_digit_texts:
  "show_int 1 = ''1''" "show_int 2 = ''2''" "show_int 3 = ''3''" "show_int 4 = ''4''" "show_int 6 = ''6''"
  "show_int 20 = ''20''"
  by code_simp+

lemma if_entries_oids: "List.map fst (if_entries s e d i ifn info) = List.map join_dots (if_arcs i)"
  by (simp add: if_entries_def if_arcs_def if_oid_def join_dots_def show_digit_texts Let_def split: prod.split)

lemma if_table_oids:
  "List.map fst (if_table s e d i ifs) =
     List.map join_dots (concat (List.map (\<lambda>k. if_arcs (i + int k)) [0..<length ifs]))"
proof (induction s e d i ifs rule: if_table.induct)
  case (2 s e d i ifn info rest)
  have "[0..<length ((ifn, info) # rest)] = 0 # List.map Suc [0..<length rest]"
    by (simp add: upt_conv_Cons map_Suc_upt del: upt_Suc)
  then show ?case using 2 by (simp add: if_entries_oids comp_def algebra_simps del: upt_Suc)
qed simp

lemma ip_oid_join: "ip_oid (int_to_ip n) = join_dots ([1,3,6,1,2,1,4,20,1,1] @ octets n)"
  by (simp add: ip_oid_def join_dots_def octets_def int_to_ip_def show_digit_texts)

text \<open>Addresses as the interfaces carry them: the text of a 32-bit number, each listed once.\<close>

definition plain_addresses :: "ip list \<Rightarrow> bool" where
  "plain_addresses as \<longleftrightarrow> distinct as \<and> (\<forall>a\<in>set as. \<exists>n. 0 \<le> n \<and> n < 2 ^ 32 \<and> a = int_to_ip n)"

definition address_number :: "ip \<Rightarrow> int" where
  "address_number a = ip_to_int a"

definition mib_arcs :: "bool \<Rightarrow> nat \<Rightarrow> ip list \<Rightarrow> int list list" where
  "mib_arcs cpu n as =
     system_arcs cpu @ [[1,3,6,1,2,1,2,1,0]] @
     concat (List.map (\<lambda>k. if_arcs (1 + int k)) [0..<n]) @
     List.map (\<lambda>a. [1,3,6,1,2,1,4,20,1,1] @ octets (address_number a)) as"

lemma unsorted_mib_oids:
  assumes "plain_addresses (dkeys (ips_of (se_devices e) d))"
  shows "List.map fst (unsorted_mib s e d) =
    List.map join_dots (mib_arcs (cisco_mib (case dget s d of None \<Rightarrow> ''cisco'' | Some p \<Rightarrow> sd_type p))
      (length (mib_ifaces e d)) (dkeys (ips_of (se_devices e) d)))"
proof -
  have ip: "ip_oid a = join_dots ([1,3,6,1,2,1,4,20,1,1] @ octets (address_number a))"
    if "a \<in> set (dkeys (ips_of (se_devices e) d))" for a
  proof -
    from assms that obtain n where "0 \<le> n" "n < 2 ^ 32" "a = int_to_ip n" by (auto simp: plain_addresses_def)
    then show ?thesis by (simp add: ip_oid_join address_number_def ip_to_int_int_to_ip)
  qed
  have num: "''1.3.6.1.2.1.2.1.0'' = join_dots [1,3,6,1,2,1,2,1,0]" by code_simp
  show ?thesis
    using ip by (simp add: unsorted_mib_def mib_arcs_def system_group_oids if_table_oids num comp_def)
qed

lemma octets_inj:
  assumes "0 \<le> m" "m < 2 ^ 32" "0 \<le> n" "n < 2 ^ 32" "octets m = octets n"
  shows "m = n"
proof -
  have "octet 24 m = octet 24 n" "octet 16 m = octet 16 n" "octet 8 m = octet 8 n" "octet 0 m = octet 0 n"
    using assms(5) by (simp_all add: octets_def)
  then show ?thesis using octets_sum [OF assms(1,2)] octets_sum [OF assms(3,4)] by metis
qed

lemma if_arcs_distinct: "distinct (concat (List.map (\<lambda>k. if_arcs (1 + int k)) [0..<n]))"
proof (induction n)
  case (Suc n)
  have "x \<notin> set (if_arcs (1 + int n))" if "x \<in> set (if_arcs (1 + int k))" "k < n" for x k
    using that by (auto simp: if_arcs_def)
  moreover have "distinct (if_arcs (1 + int n))" by (simp add: if_arcs_def)
  ultimately show ?case using Suc by auto
qed simp

lemma mib_arcs_distinct:
  assumes "plain_addresses as"
  shows "distinct (mib_arcs cpu n as)"
proof -
  have "inj_on (\<lambda>a. octets (address_number a)) (set as)"
  proof (rule inj_onI)
    fix a b
    assume ab: "a \<in> set as" "b \<in> set as" "octets (address_number a) = octets (address_number b)"
    from assms ab(1) obtain m where m: "0 \<le> m" "m < 2 ^ 32" "a = int_to_ip m"
      unfolding plain_addresses_def by blast
    from assms ab(2) obtain n where n: "0 \<le> n" "n < 2 ^ 32" "b = int_to_ip n"
      unfolding plain_addresses_def by blast
    show "a = b"
      using ab(3) octets_inj [OF m(1,2) n(1,2)] m(3) n(3)
      by (simp add: address_number_def ip_to_int_int_to_ip [OF m(1,2)] ip_to_int_int_to_ip [OF n(1,2)])
  qed
  then have "distinct (List.map (\<lambda>a. [1,3,6,1,2,1,4,20,1,1] @ octets (address_number a)) as)"
    using assms by (simp add: distinct_map plain_addresses_def inj_on_def)
  then show ?thesis
    using if_arcs_distinct [of n]
    by (auto simp: mib_arcs_def system_arcs_def if_arcs_def octets_def)
qed

lemma mib_arcs_ok: "x \<in> set (mib_arcs cpu n as) \<Longrightarrow> x \<noteq> [] \<and> (\<forall>y\<in>set x. 0 \<le> y)"
  by (auto simp: mib_arcs_def system_arcs_def if_arcs_def octets_def octet_range split: if_splits)

lemma map_insort_key: "List.map f (insort_key f x xs) = insort (f x) (List.map f xs)"
  by (induction xs) simp_all

lemma map_sort_key: "List.map f (sort_key f xs) = sort (List.map f xs)"
  by (induction xs) (simp_all add: map_insort_key)

definition mib_oids :: "snmp \<Rightarrow> snmp_env \<Rightarrow> dev \<Rightarrow> string list" where
  "mib_oids s e d = List.map join_dots (sort (mib_arcs
      (cisco_mib (case dget s d of None \<Rightarrow> ''cisco'' | Some p \<Rightarrow> sd_type p))
      (length (mib_ifaces e d)) (dkeys (ips_of (se_devices e) d))))"

lemma build_mib_oids:
  assumes "plain_addresses (dkeys (ips_of (se_devices e) d))"
  shows "List.map fst (build_mib s e d) = mib_oids s e d"
proof -
  define arcs where "arcs = mib_arcs (cisco_mib (case dget s d of None \<Rightarrow> ''cisco'' | Some p \<Rightarrow> sd_type p))
      (length (mib_ifaces e d)) (dkeys (ips_of (se_devices e) d))"
  have u: "List.map fst (unsorted_mib s e d) = List.map join_dots arcs"
    by (simp add: unsorted_mib_oids [OF assms] arcs_def)
  have key: "sort_oid (join_dots x) = x" if "x \<in> set arcs" for x
    using mib_arcs_ok [of x] that oid_keys_join(1) [of x] unfolding arcs_def by blast
  have "List.map (\<lambda>x. sort_oid (fst x)) (unsorted_mib s e d) = List.map sort_oid (List.map join_dots arcs)"
    using u by (simp flip: u add: comp_def)
  also have "\<dots> = arcs" using key by (simp add: comp_def map_idI)
  finally have k: "List.map (\<lambda>x. sort_oid (fst x)) (build_mib s e d) = sort arcs"
    by (simp add: build_mib_def map_sort_key)
  have "fst x = join_dots (sort_oid (fst x))" if "x \<in> set (build_mib s e d)" for x
  proof -
    have "fst x \<in> set (List.map fst (unsorted_mib s e d))" using that by (simp add: build_mib_def)
    then show ?thesis using u key by auto
  qed
  then have "List.map fst (build_mib s e d) = List.map join_dots (List.map (\<lambda>x. sort_oid (fst x)) (build_mib s e d))"
    by (simp add: comp_def)
  with k show ?thesis by (simp add: mib_oids_def arcs_def)
qed

lemma mib_oids_ascend:
  assumes "plain_addresses (dkeys (ips_of (se_devices e) d))"
  shows "sorted_wrt (\<lambda>a b. oid_gt b a) (mib_oids s e d)"
proof -
  define arcs where "arcs = mib_arcs (cisco_mib (case dget s d of None \<Rightarrow> ''cisco'' | Some p \<Rightarrow> sd_type p))
      (length (mib_ifaces e d)) (dkeys (ips_of (se_devices e) d))"
  have asc: "sorted_wrt (<) (sort arcs)"
    using mib_arcs_distinct [OF assms] by (simp add: strict_sorted_iff arcs_def)
  have key: "num_oid (join_dots x) = x" if "x \<in> set (sort arcs)" for x
    using mib_arcs_ok [of x] that oid_keys_join(2) [of x] unfolding arcs_def set_sort by blast
  have "sorted_wrt (\<lambda>x y. num_oid (join_dots x) < num_oid (join_dots y)) (sort arcs)"
    by (rule sorted_wrt_mono_rel [OF _ asc]) (simp only: key)
  then have "sorted_wrt (\<lambda>a b. oid_gt b a) (List.map join_dots (sort arcs))"
    by (simp only: oid_gt_def sorted_wrt_map)
  then show ?thesis unfolding mib_oids_def arcs_def .
qed

lemma split_dot_Cons: "filter all_digits (split_on (CHR ''.'') (CHR ''.'' # s)) = filter all_digits (split_on (CHR ''.'') s)"
  by (simp add: all_digits_def)

lemma num_oid_lstrip [simp]: "num_oid (lstrip_dots s) = num_oid s"
  by (induction s) (auto simp: lstrip_dots_def num_oid_def split_dot_Cons simp del: split_on.simps)

lemma find_map_fst: "find (\<lambda>x. P (fst x)) xs = Some x \<Longrightarrow> find P (List.map fst xs) = Some (fst x)"
  by (induction xs) (auto split: if_splits)

lemma find_map_fst_None: "find (\<lambda>x. P (fst x)) xs = None \<longleftrightarrow> find P (List.map fst xs) = None"
  by (induction xs) (auto split: if_splits)

lemma filter_find: "find P xs = Some x \<Longrightarrow> \<exists>ys. filter P xs = x # ys"
  by (induction xs) (auto split: if_splits)

text \<open>Behind the first greater identifier of an ascending list stand exactly the ones greater than it.\<close>

lemma ascending_next:
  assumes "sorted_wrt (\<lambda>a b. oid_gt b a) os" "filter (\<lambda>x. oid_gt x c) os = y # ys"
  shows "filter (\<lambda>x. oid_gt x y) os = ys"
  using assms
proof (induction os)
  case (Cons a os)
  show ?case
  proof (cases "oid_gt a c")
    case True
    with Cons.prems have y: "y = a" "ys = filter (\<lambda>x. oid_gt x c) os" by auto
    have "oid_gt x c" if "x \<in> set os" for x
      using that Cons.prems(1) True by (auto simp: oid_gt_def)
    moreover have "oid_gt x a" if "x \<in> set os" for x using that Cons.prems(1) by simp
    ultimately show ?thesis using y by (simp add: oid_gt_def filter_True)
  next
    case False
    with Cons.prems(2) have f: "filter (\<lambda>x. oid_gt x c) os = y # ys" by simp
    then have "y \<in> set (filter (\<lambda>x. oid_gt x c) os)" by simp
    then have "y \<in> set os" by simp
    then have "oid_gt y a" using Cons.prems(1) by simp
    then have "\<not> oid_gt a y" by (simp add: oid_gt_def)
    with Cons.IH f Cons.prems(1) show ?thesis by simp
  qed
qed simp

lemma bulk_oids:
  assumes "\<And>j. List.map fst (mib j) = os" "sorted_wrt (\<lambda>a b. oid_gt b a) os" "auth s d c"
  shows "List.map vb_oid (bulk s d c mib j n cur) =
    (let later = filter (\<lambda>x. oid_gt x cur) os
     in take n later @ (if length later < n then [last (cur # later)] else []))"
proof (induction n arbitrary: j cur)
  case (Suc n)
  have gt: "oid_gt x (lstrip_dots cur) = oid_gt x cur" for x by (simp add: oid_gt_def)
  show ?case
  proof (cases "find (\<lambda>x. oid_gt (fst x) cur) (mib j)")
    case None
    then have "find (\<lambda>x. oid_gt x cur) (List.map fst (mib j)) = None"
      using find_map_fst_None [of "\<lambda>x. oid_gt x cur" "mib j"] by blast
    then have "find (\<lambda>x. oid_gt x cur) os = None" by (simp only: assms(1))
    then have "filter (\<lambda>x. oid_gt x cur) os = []" by (simp add: find_None_iff filter_empty_conv)
    with None show ?thesis using assms(3) by (simp add: getnext_def found_def gt vb_end_def)
  next
    case (Some x)
    then have "find (\<lambda>x. oid_gt x cur) os = Some (fst x)"
      using find_map_fst [of "\<lambda>x. oid_gt x cur" "mib j" x] assms(1) by simp
    then obtain ys where ys: "filter (\<lambda>x. oid_gt x cur) os = fst x # ys" using filter_find by metis
    have next_ys: "filter (\<lambda>y. oid_gt y (fst x)) os = ys" by (rule ascending_next [OF assms(2) ys])
    show ?thesis
      using Some assms(3) Suc [of "Suc j" "fst x"]
      by (simp add: getnext_def found_def gt vb_of_def ys next_ys Let_def)
  qed
qed (simp add: Let_def)

text \<open>C27. A bulk walk is complete: while addresses and interfaces stay the same (times, loads and counters
  may change between two steps), the answer to a GETBULK lists, in ascending numerical order and without
  a gap, the identifiers of the MIB that follow the one asked for, at most as many as were asked for, and
  marks the end of the MIB behind the last one exactly when it is reached.\<close>

theorem bulk_walk_complete:
  assumes "auth s d c" "\<And>j. se_devices (e j) = devs" "plain_addresses (dkeys (ips_of devs d))"
  shows "let os = List.map fst (build_mib s (e 0) d); later = filter (\<lambda>x. oid_gt x cur) os
    in sorted_wrt (\<lambda>a b. oid_gt b a) os \<and> set os = fst ` set (unsorted_mib s (e 0) d) \<and>
       List.map vb_oid (bulk s d c (\<lambda>j. build_mib s (e j) d) 0 n cur) =
         take n later @ (if length later < n then [last (cur # later)] else [])"
proof -
  have same: "List.map fst (build_mib s (e j) d) = mib_oids s (e 0) d" for j
    using build_mib_oids [of "e j" d s] assms(2,3) by (simp add: mib_oids_def mib_ifaces_def)
  have asc: "sorted_wrt (\<lambda>a b. oid_gt b a) (mib_oids s (e 0) d)"
    using mib_oids_ascend [of "e 0" d s] assms(2,3) by simp
  have "set (List.map fst (build_mib s (e 0) d)) = fst ` set (unsorted_mib s (e 0) d)"
    by (simp add: build_mib_def)
  with same asc bulk_oids [OF same asc assms(1), where j = 0 and n = n and cur = cur] show ?thesis by (simp add: Let_def)
qed

definition walk_env :: "nat \<Rightarrow> snmp_env" where
  "walk_env j = \<lparr>se_ticks = int j, se_cpu = 5,
     se_devices = register_device [] ''r1'' ''R1'' [(''Gi0/0'', \<lparr>if_ip = Some (int_to_ip 167772161), if_prefix = Some 24\<rparr>)],
     se_vnet = vnet_init, se_counter = (\<lambda>_. (0, 0))\<rparr>"

theorem bulk_walk_complete_witness:
  "let os = List.map fst (build_mib [] (walk_env 0) ''r1''); later = filter (\<lambda>x. oid_gt x ''1.3.6.1.2.1.2'') os
   in sorted_wrt (\<lambda>a b. oid_gt b a) os \<and> set os = fst ` set (unsorted_mib [] (walk_env 0) ''r1'') \<and>
      List.map vb_oid (bulk [] ''r1'' ''public'' (\<lambda>j. build_mib [] (walk_env j) ''r1'') 0 10 ''1.3.6.1.2.1.2'') =
        take 10 later @ (if length later < 10 then [last (''1.3.6.1.2.1.2'' # later)] else [])"
proof (rule bulk_walk_complete)
  show "auth [] ''r1'' ''public''" by (simp add: auth_def)
  show "se_devices (walk_env j) = se_devices (walk_env 0)" for j by (simp add: walk_env_def)
  have "dkeys (ips_of (se_devices (walk_env 0)) ''r1'') = [int_to_ip 167772161]"
    by (simp add: walk_env_def ips_of_register dset_def dkeys_def)
  moreover have "\<exists>n. 0 \<le> n \<and> n < 2 ^ 32 \<and> int_to_ip 167772161 = int_to_ip n"
    by (intro exI [of _ 167772161]) simp
  ultimately show "plain_addresses (dkeys (ips_of (se_devices (walk_env 0)) ''r1''))"
    by (simp add: plain_addresses_def)
qed

end
