(* ===== verification/Inet.thy ===== *)
theory Inet
  imports Bytes Addr
begin

text \<open>
  \<open>socket.inet_aton\<close> and \<open>socket.inet_ntoa\<close>, which the packet builders and parsers use: the reader of the C
  library with its decimal, octal and hexadecimal parts and its short forms with fewer than four parts,
  and the writer of four bytes.
\<close>

subsection \<open>\<open>strtoul\<close> with base 0\<close>

definition hex_value :: "char \<Rightarrow> int option" where
  "hex_value c =
     (if is_digit c then Some (int (code_of c) - 48)
      else if 97 \<le> code_of (to_lower c) \<and> code_of (to_lower c) \<le> 102 then Some (int (code_of (to_lower c)) - 87)
      else None)"

fun take_number :: "int \<Rightarrow> int \<Rightarrow> string \<Rightarrow> int \<times> string" where
  "take_number base acc [] = (acc, [])"
| "take_number base acc (c # cs) =
     (case hex_value c of
        None \<Rightarrow> (acc, c # cs)
      | Some v \<Rightarrow> if v < base then take_number base (acc * base + v) cs else (acc, c # cs))"

definition strtoul :: "string \<Rightarrow> int \<times> string" where
  "strtoul s =
     (case s of
        z # x # c # cs \<Rightarrow>
          if z = CHR ''0'' \<and> to_lower x = CHR ''x'' \<and> hex_value c \<noteq> None then take_number 16 0 (c # cs)
          else if z = CHR ''0'' then take_number 8 0 s else take_number 10 0 s
      | z # cs \<Rightarrow> if z = CHR ''0'' then take_number 8 0 s else take_number 10 0 s
      | [] \<Rightarrow> (0, []))"

subsection \<open>\<open>inet_aton\<close>\<close>

definition is_c_space :: "char \<Rightarrow> bool" where
  "is_c_space c \<longleftrightarrow> code_of c = 32 \<or> (9 \<le> code_of c \<and> code_of c \<le> 13)"

text \<open>\<open>inet_parts k acc s\<close>: \<open>k\<close> parts are read, \<open>acc\<close> is their value; at most three may be followed by a dot.\<close>

function inet_parts :: "nat \<Rightarrow> int \<Rightarrow> string \<Rightarrow> int option" where
  "inet_parts k acc s =
     (case s of
        [] \<Rightarrow> None
      | c # _ \<Rightarrow>
          if \<not> is_digit c then None
          else (case strtoul s of (v, rest) \<Rightarrow>
            if v > 0xffffffff then None
            else case rest of
                   [] \<Rightarrow> if v \<ge> 2 ^ (8 * (4 - k)) then None else Some (acc * 2 ^ (8 * (4 - k)) + v)
                 | r # rs \<Rightarrow>
                     if r = CHR ''.'' then
                       (if k \<ge> 3 \<or> v > 0xff then None else inet_parts (Suc k) (acc * 256 + v) rs)
                     else if \<not> is_c_space r then None
                     else if v \<ge> 2 ^ (8 * (4 - k)) then None else Some (acc * 2 ^ (8 * (4 - k)) + v)))"
  by pat_completeness auto
termination by (relation "measure (\<lambda>(k, _). 4 - k)") auto

declare inet_parts.simps [simp del]

definition inet_aton :: "string \<Rightarrow> bytes res" where
  "inet_aton s = (case inet_parts 0 0 s of None \<Rightarrow> Inl OSError | Some n \<Rightarrow> Inr (be_bytes 4 n))"

definition inet_ntoa :: "bytes \<Rightarrow> string res" where
  "inet_ntoa bs = (if length bs = 4 then Inr (int_to_ip (from_bytes bs)) else Inl OSError)"

subsection \<open>Printed addresses are read back\<close>

lemma take_number_digits:
  assumes "\<forall>c\<in>set ds. is_digit c" "rest = [] \<or> hd rest = CHR ''.''"
  shows "take_number 10 acc (ds @ rest) = (the (digits_val acc True ds), rest)"
  using assms(1)
proof (induction ds arbitrary: acc)
  case Nil
  have "hex_value (CHR ''.'') = None" by code_simp
  then show ?case using assms(2) by (cases rest) auto
next
  case (Cons d ds)
  then have d: "is_digit d" by simp
  then have "hex_value d = Some (int (code_of d) - 48)" "int (code_of d) - 48 < 10"
    by (auto simp: hex_value_def is_digit_def)
  with Cons d show ?case by (simp add: mult.commute)
qed

lemma strtoul_octet:
  assumes "0 \<le> n" "n < 256" "rest = [] \<or> hd rest = CHR ''.''"
  shows "strtoul (show_int n @ rest) = (n, rest)"
proof (cases "n = 0")
  case True
  have z: "show_int 0 = ''0''" by code_simp
  have t: "take_number 8 0 (CHR ''0'' # rest) = (0, rest)"
  proof -
    have "hex_value (CHR ''0'') = Some 0" "hex_value (CHR ''.'') = None" by code_simp+
    then show ?thesis using assms(3) by (cases rest) auto
  qed
  show ?thesis
  proof (cases rest)
    case (Cons r rs)
    then have r: "r = CHR ''.''" using assms(3) by simp
    then have "to_lower r \<noteq> CHR ''x''" by (simp add: to_lower_def code_of_def)
    with True z t Cons show ?thesis by (auto simp: strtoul_def split: list.splits)
  qed (use True z t in \<open>simp add: strtoul_def\<close>)
next
  case False
  have dig: "\<forall>c\<in>set (show_int n). is_digit c" using show_int_digits [OF assms(1)] by blast
  have "hd (show_int n) \<noteq> CHR ''0''"
    using False assms(1) show_nat_hd [of "nat n"] by (simp add: show_int_def)
  moreover have ne: "show_int n \<noteq> []" by simp
  ultimately have "strtoul (show_int n @ rest) = take_number 10 0 (show_int n @ rest)"
    by (cases "show_int n") (auto simp: strtoul_def split: list.split)
  also have "\<dots> = (the (digits_val 0 True (show_int n)), rest)"
    by (rule take_number_digits [OF dig assms(3)])
  also have "digits_val 0 True (show_int n) = Some n"
    using digits_val_show_nat [of True "nat n"] assms(1) by (simp add: show_int_def)
  finally show ?thesis by simp
qed

lemma inet_part:
  assumes "0 \<le> n" "n < 256" "k < 3"
  shows "inet_parts k acc (show_int n @ CHR ''.'' # rest) = inet_parts (Suc k) (acc * 256 + n) rest"
proof -
  obtain c cs where c: "show_int n = c # cs" by (cases "show_int n") auto
  then have "is_digit c" using show_int_digits [OF assms(1), of c] by simp
  moreover have "strtoul (show_int n @ CHR ''.'' # rest) = (n, CHR ''.'' # rest)"
    using assms by (intro strtoul_octet) auto
  ultimately show ?thesis using c assms by (subst inet_parts.simps) simp
qed

lemma inet_last:
  assumes "0 \<le> n" "n < 256"
  shows "inet_parts 3 acc (show_int n) = Some (acc * 256 + n)"
proof -
  obtain c cs where c: "show_int n = c # cs" by (cases "show_int n") auto
  then have "is_digit c" using show_int_digits [OF assms(1), of c] by simp
  moreover have "strtoul (show_int n) = (n, [])" using strtoul_octet [of n "[]"] assms by simp
  ultimately show ?thesis using c assms by (subst inet_parts.simps) simp
qed

lemma inet_aton_int_to_ip [simp]:
  assumes "0 \<le> n" "n < 2 ^ 32"
  shows "inet_aton (int_to_ip n) = Inr (be_bytes 4 n)"
proof -
  have "inet_parts 0 0 (int_to_ip n) = Some (((octet 24 n * 256 + octet 16 n) * 256 + octet 8 n) * 256 + octet 0 n)"
    by (simp add: int_to_ip_def inet_part inet_last [unfolded numeral_3_eq_3] octet_range)
  also have "((octet 24 n * 256 + octet 16 n) * 256 + octet 8 n) * 256 + octet 0 n = n"
    using octets_sum [OF assms] by simp
  finally show ?thesis by (simp add: inet_aton_def)
qed

lemma inet_ntoa_be_bytes [simp]: "0 \<le> n \<Longrightarrow> n < 2 ^ 32 \<Longrightarrow> inet_ntoa (be_bytes 4 n) = Inr (int_to_ip n)"
  by (simp add: inet_ntoa_def)

lemma inet_aton_length: "inet_aton s = Inr bs \<Longrightarrow> length bs = 4"
  by (auto simp: inet_aton_def split: option.splits)

subsection \<open>Set bits\<close>

text \<open>\<open>bin(n).count('1')\<close> of a natural number.\<close>

function popcount :: "int \<Rightarrow> int" where
  "popcount n = (if n \<le> 0 then 0 else n mod 2 + popcount (n div 2))"
  by pat_completeness auto
termination by (relation "measure nat") auto

declare popcount.simps [simp del]

lemma popcount_double: "0 \<le> n \<Longrightarrow> popcount (2 * n) = popcount n"
  by (cases "n = 0") (simp_all add: popcount.simps [of "2 * n"])

lemma popcount_shift: "0 \<le> n \<Longrightarrow> popcount (2 ^ k * n) = popcount n"
proof (induction k)
  case (Suc k)
  have "popcount (2 * (2 ^ k * n)) = popcount (2 ^ k * n)" using Suc.prems by (intro popcount_double) simp
  then show ?case using Suc by (simp add: mult.assoc)
qed simp

lemma popcount_ones: "popcount (2 ^ k - 1) = int k"
proof (induction k)
  case 0
  show ?case by (simp add: popcount.simps)
next
  case (Suc k)
  have "(2::int) * 2 ^ k - 1 = 1 + 2 * (2 ^ k - 1)" by simp
  then have "((2::int) ^ Suc k - 1) mod 2 = 1" "((2::int) ^ Suc k - 1) div 2 = 2 ^ k - 1"
    by (metis mod_mult_self2 one_mod_two_eq_one power_Suc, simp)
  moreover have "(0::int) < 2 ^ Suc k - 1" using power_strict_increasing [of 0 "Suc k" "2::int"] by simp
  ultimately show ?case using Suc by (subst popcount.simps) simp
qed

lemma mask_int_eq: "0 \<le> p \<Longrightarrow> p \<le> 32 \<Longrightarrow> mask_int p = 2 ^ nat (32 - p) * (2 ^ nat p - 1)"
proof -
  assume p: "0 \<le> p" "p \<le> 32"
  have "mask_int p = push_bit (nat (32 - p)) (mask (nat p))"
    by (rule bit_eqI) (use p in \<open>auto simp: bit_mask_int bit_push_bit_iff bit_mask_iff nat_diff_distrib'\<close>)
  then show ?thesis by (simp add: push_bit_eq_mult mask_eq_exp_minus_1 mult.commute)
qed

lemma popcount_mask_int: "0 \<le> p \<Longrightarrow> p \<le> 32 \<Longrightarrow> popcount (mask_int p) = p"
  by (simp add: mask_int_eq popcount_shift popcount_ones)

lemma mask_int_range: "0 \<le> p \<Longrightarrow> p \<le> 32 \<Longrightarrow> 0 \<le> mask_int p \<and> mask_int p < 2 ^ 32"
proof -
  assume p: "0 \<le> p" "p \<le> 32"
  have "(2::int) ^ nat (32 - p) * (2 ^ nat p - 1) < 2 ^ nat (32 - p) * 2 ^ nat p" by simp
  also have "\<dots> = 2 ^ 32" using p by (simp flip: power_add nat_add_distrib)
  finally show ?thesis using p by (simp add: mask_int_eq)
qed

lemma mask_int_zero: "0 \<le> p \<Longrightarrow> p \<le> 32 \<Longrightarrow> mask_int p = 0 \<longleftrightarrow> p = 0"
  using popcount_mask_int [of p] by (auto simp: mask_int_eq popcount.simps [of 0])

end
