(* ===== verification/RipWire.thy ===== *)
theory RipWire
  imports Rip Inet
begin

text \<open>
  RIP on the wire: the packet builder of \<open>tools/route_injector_cli.py\<close> (\<open>rip_build_rte\<close>, \<open>rip_build_packet\<close>,
  \<open>_parse_route_spec\<close>) and the listener of \<open>engine/real_rip_agent.py\<close> (\<open>parse_rip_packet\<close>,
  \<open>_classful_prefix\<close>, \<open>RipDeviceProtocol.datagram_received\<close>), which hands what it read to
  \<open>RipEngine.receive\<close>.
\<close>

subsection \<open>Building\<close>

record rip_spec =
  rs_network :: string
  rs_netmask :: string
  rs_nexthop :: string
  rs_metric :: int
  rs_tag :: int

definition rip_build_rte :: "rip_spec \<Rightarrow> int \<Rightarrow> bytes res" where
  "rip_build_rte r version =
     res_bind (inet_aton (rs_network r)) (\<lambda>ip_bytes.
     res_bind (if version = 1 then Inr [0, 0, 0, 0, 0, 0, 0, 0, 0, 0]
               else cat_res [pack_H (rs_tag r), inet_aton (rs_netmask r), inet_aton (rs_nexthop r)])
       (\<lambda>fields. res_bind (pack_I (rs_metric r)) (\<lambda>metric_bytes.
         Inr ([0, 2] @ take 2 fields @ ip_bytes @ drop 2 fields @ metric_bytes))))"

definition rip_build_packet :: "rip_spec list \<Rightarrow> int \<Rightarrow> int \<Rightarrow> bytes res" where
  "rip_build_packet routes version command =
     (if length routes > 25 then Inl ValueError
      else res_bind (cat_res [pack_B command, pack_B version, pack_H 0]) (\<lambda>header.
           res_bind (cat_res (List.map (\<lambda>r. rip_build_rte r version) routes)) (\<lambda>body.
           Inr (header @ body))))"

text \<open>\<open>spec.split(":", 2)\<close> and the tests that unpacking makes.\<close>

definition colon_fields :: "string \<Rightarrow> (string \<times> string \<times> string) option" where
  "colon_fields s =
     (case split_on (CHR '':'') s of
        a # b # c # rest \<Rightarrow> Some (a, b, c @ concat (List.map (\<lambda>w. CHR '':'' # w) rest))
      | _ \<Rightarrow> None)"

definition parse_route_spec :: "string \<Rightarrow> rip_spec res" where
  "parse_route_spec s =
     (case colon_fields s of
        None \<Rightarrow> Inl ValueError
      | Some (dest, nexthop, rest) \<Rightarrow>
          (let parts = split_on (CHR '':'') rest in
           res_bind (res_of ValueError (py_int (hd parts))) (\<lambda>metric.
           res_bind (case tl parts of [] \<Rightarrow> Inr 0 | t # _ \<Rightarrow> res_of ValueError (py_int t)) (\<lambda>tag.
           case split_on (CHR ''/'') dest of
             [network, plen] \<Rightarrow>
               res_bind (res_of ValueError (py_int plen)) (\<lambda>prefix.
               res_bind (if prefix > 0 then netmask prefix else Inr 0) (\<lambda>mask.
               res_bind (pack_I mask) (\<lambda>mb.
               res_bind (inet_ntoa mb) (\<lambda>nm.
               Inr \<lparr>rs_network = network, rs_netmask = nm, rs_nexthop = nexthop, rs_metric = metric, rs_tag = tag\<rparr>))))
           | _ \<Rightarrow> Inl ValueError))))"

subsection \<open>Parsing\<close>

definition classful_prefix :: "string \<Rightarrow> int" where
  "classful_prefix network =
     (case py_int (hd (split_on (CHR ''.'') network)) of
        None \<Rightarrow> 24
      | Some first \<Rightarrow> if first < 128 then 8 else if first < 192 then 16 else 24)"

record wire_entry =
  we_network :: string
  we_prefix :: int
  we_metric :: int

definition parse_entry :: "bytes \<Rightarrow> wire_entry option" where
  "parse_entry rte =
     (if from_bytes (take 2 rte) \<noteq> 2 then None
      else (let network = int_to_ip (from_bytes (take 4 (drop 4 rte)));
                mask = from_bytes (take 4 (drop 8 rte))
            in Some \<lparr>we_network = network,
                     we_prefix = (if mask \<noteq> 0 then popcount mask else classful_prefix network),
                     we_metric = from_bytes (take 4 (drop 16 rte))\<rparr>))"

function parse_entries :: "bytes \<Rightarrow> wire_entry list" where
  "parse_entries bs =
     (if 20 \<le> length bs
      then (case parse_entry (take 20 bs) of
              None \<Rightarrow> parse_entries (drop 20 bs)
            | Some x \<Rightarrow> x # parse_entries (drop 20 bs))
      else [])"
  by pat_completeness auto
termination by (relation "measure length") auto

declare parse_entries.simps [simp del]

record wire_packet =
  wp_command :: int
  wp_version :: int
  wp_entries :: "wire_entry list"

definition parse_rip_packet :: "bytes \<Rightarrow> wire_packet option" where
  "parse_rip_packet data =
     (if length data < 4 then None
      else Some \<lparr>wp_command = uint (data ! 0), wp_version = uint (data ! 1),
                 wp_entries = parse_entries (drop 4 data)\<rparr>)"

definition wire_message :: "ip \<Rightarrow> wire_packet \<Rightarrow> rip_packet" where
  "wire_message src_ip pkt =
     \<lparr>rk_command = (if wp_command pkt = 1 then ''request'' else ''response''), rk_version = wp_version pkt,
      rk_src = src_ip, rk_src_host = ''external('' @ src_ip @ '')'',
      rk_entries = List.map (\<lambda>w. \<lparr>en_network = Some (we_network w), en_prefix = Some (we_prefix w),
                                  en_metric = Some (we_metric w)\<rparr>) (wp_entries pkt),
      rk_auth_mode = [], rk_auth_key = []\<rparr>"

text \<open>The packet that is handed to \<open>RipEngine.receive\<close>, if any.\<close>

definition rip_datagram :: "ip \<Rightarrow> bytes \<Rightarrow> rip_packet option" where
  "rip_datagram src_ip data =
     (case parse_rip_packet data of
        None \<Rightarrow> None
      | Some pkt \<Rightarrow> if wp_entries pkt = [] then None else Some (wire_message src_ip pkt))"

subsection \<open>From the command line to the routing process\<close>

record route_data =
  rd_net :: int
  rd_len :: int
  rd_hop :: int
  rd_metric :: int
  rd_tag :: int

definition route_data_ok :: "route_data \<Rightarrow> bool" where
  "route_data_ok r \<longleftrightarrow>
     0 \<le> rd_net r \<and> rd_net r < 2 ^ 32 \<and> 0 \<le> rd_len r \<and> rd_len r \<le> 32 \<and> 0 \<le> rd_hop r \<and> rd_hop r < 2 ^ 32 \<and>
     0 \<le> rd_metric r \<and> rd_metric r < 2 ^ 32 \<and> 0 \<le> rd_tag r \<and> rd_tag r < 2 ^ 16"

definition route_text :: "route_data \<Rightarrow> string" where
  "route_text r = int_to_ip (rd_net r) @ ''/'' @ show_int (rd_len r) @ '':'' @ int_to_ip (rd_hop r) @ '':'' @
                  show_int (rd_metric r) @ '':'' @ show_int (rd_tag r)"

definition route_spec :: "route_data \<Rightarrow> rip_spec" where
  "route_spec r = \<lparr>rs_network = int_to_ip (rd_net r), rs_netmask = int_to_ip (mask_int (rd_len r)),
                   rs_nexthop = int_to_ip (rd_hop r), rs_metric = rd_metric r, rs_tag = rd_tag r\<rparr>"

definition arrived :: "int \<Rightarrow> route_data \<Rightarrow> wire_entry" where
  "arrived version r =
     \<lparr>we_network = int_to_ip (rd_net r),
      we_prefix = (if version = 1 \<or> rd_len r = 0 then classful_prefix (int_to_ip (rd_net r)) else rd_len r),
      we_metric = rd_metric r\<rparr>"

lemma dotted_no_sep: "CHR '':'' \<notin> set (int_to_ip n)" "CHR ''/'' \<notin> set (int_to_ip n)"
  by (auto dest!: int_to_ip_dotted simp: dotted_char_def is_digit_def code_of_def)

lemma show_no_sep: "0 \<le> n \<Longrightarrow> CHR '':'' \<notin> set (show_int n)" "0 \<le> n \<Longrightarrow> CHR ''/'' \<notin> set (show_int n)"
  by (auto dest!: show_int_digits simp: is_digit_def code_of_def)

lemma parse_route_text:
  assumes "route_data_ok r"
  shows "parse_route_spec (route_text r) = Inr (route_spec r)"
proof -
  have ok: "0 \<le> rd_len r" "rd_len r \<le> 32" "0 \<le> rd_metric r" "0 \<le> rd_tag r"
    using assms by (auto simp: route_data_ok_def)
  let ?dest = "int_to_ip (rd_net r) @ ''/'' @ show_int (rd_len r)"
  have colon: "CHR '':'' \<notin> set ?dest" using dotted_no_sep show_no_sep ok by auto
  have fields: "colon_fields (route_text r) =
      Some (?dest, int_to_ip (rd_hop r), show_int (rd_metric r) @ CHR '':'' # show_int (rd_tag r))"
    using colon split_on_append [of "CHR '':''" ?dest] ok
    by (simp add: colon_fields_def route_text_def split_on_append split_on_no_sep dotted_no_sep show_no_sep)
  have dest: "split_on (CHR ''/'') (int_to_ip (rd_net r) @ CHR ''/'' # show_int (rd_len r)) = [int_to_ip (rd_net r), show_int (rd_len r)]"
    using ok by (simp add: split_on_append split_on_no_sep dotted_no_sep show_no_sep)
  have mask: "(if rd_len r > 0 then netmask (rd_len r) else Inr 0) = Inr (mask_int (rd_len r))"
    using ok mask_int_zero [of 0] by (simp add: netmask_eq)
  have m: "0 \<le> mask_int (rd_len r)" "mask_int (rd_len r) < 2 ^ 32" using mask_int_range ok by blast+
  show ?thesis
    unfolding parse_route_spec_def fields
    using ok m
    by (simp add: split_on_append split_on_no_sep show_no_sep res_of_def py_int_show_int dest mask
        pack_field_def route_spec_def del: if_split)
qed

definition rte_fields :: "int \<Rightarrow> route_data \<Rightarrow> bytes" where
  "rte_fields version r =
     (if version = 1 then [0, 0, 0, 0, 0, 0, 0, 0, 0, 0]
      else be_bytes 2 (rd_tag r) @ be_bytes 4 (mask_int (rd_len r)) @ be_bytes 4 (rd_hop r))"

definition rte_bytes :: "int \<Rightarrow> route_data \<Rightarrow> bytes" where
  "rte_bytes version r =
     [0, 2] @ take 2 (rte_fields version r) @ be_bytes 4 (rd_net r) @ drop 2 (rte_fields version r) @
     be_bytes 4 (rd_metric r)"

lemma build_route:
  assumes "route_data_ok r"
  shows "rip_build_rte (route_spec r) version = Inr (rte_bytes version r)"
proof -
  have ok: "0 \<le> rd_net r" "rd_net r < 2 ^ 32" "0 \<le> rd_hop r" "rd_hop r < 2 ^ 32"
    "0 \<le> rd_metric r" "rd_metric r < 2 ^ 32" "0 \<le> rd_tag r" "rd_tag r < 2 ^ 16"
    "0 \<le> mask_int (rd_len r)" "mask_int (rd_len r) < 2 ^ 32"
    using assms mask_int_range [of "rd_len r"] by (auto simp: route_data_ok_def)
  then show ?thesis
    by (simp add: rip_build_rte_def rte_bytes_def rte_fields_def route_spec_def pack_field_def)
qed

lemma length_rte: "length (rte_bytes version r) = 20"
  by (simp add: rte_bytes_def rte_fields_def)

lemma parse_built:
  assumes "route_data_ok r"
  shows "parse_entry (rte_bytes version r) = Some (arrived version r)"
proof -
  have ok: "0 \<le> rd_net r" "rd_net r < 2 ^ 32" "0 \<le> rd_metric r" "rd_metric r < 2 ^ 32"
    "0 \<le> rd_len r" "rd_len r \<le> 32" "0 \<le> mask_int (rd_len r)" "mask_int (rd_len r) < 2 ^ 32"
    using assms mask_int_range [of "rd_len r"] by (auto simp: route_data_ok_def)
  have two: "from_bytes [0, 2] = 2" "from_bytes [0, 0, 0, 0] = 0" by code_simp+
  show ?thesis
    using ok popcount_mask_int [of "rd_len r"] mask_int_zero [of "rd_len r"]
    by (auto simp: parse_entry_def rte_bytes_def rte_fields_def arrived_def two Let_def)
qed

lemma parse_built_all:
  "\<forall>r\<in>set rs. route_data_ok r \<Longrightarrow>
   parse_entries (concat (List.map (rte_bytes version) rs)) = List.map (arrived version) rs"
proof (induction rs)
  case Nil
  show ?case by (simp add: parse_entries.simps)
next
  case (Cons r rs)
  then show ?case by (subst parse_entries.simps) (simp add: length_rte parse_built)
qed

lemma build_all:
  "\<forall>r\<in>set rs. route_data_ok r \<Longrightarrow>
   cat_res (List.map (\<lambda>x. rip_build_rte x version) (List.map route_spec rs)) = Inr (concat (List.map (rte_bytes version) rs))"
  by (induction rs) (simp_all add: build_route)

lemma parse_texts: "\<forall>r\<in>set rs. route_data_ok r \<Longrightarrow> res_map parse_route_spec (List.map route_text rs) = Inr (List.map route_spec rs)"
  by (induction rs) (simp_all add: parse_route_text)

lemma injected_packet:
  assumes "\<forall>r\<in>set rs. route_data_ok r" "length rs \<le> 25" "0 \<le> version" "version < 256" "0 \<le> command" "command < 256"
  shows "\<exists>specs bs. res_map parse_route_spec (List.map route_text rs) = Inr specs \<and>
    rip_build_packet specs version command = Inr bs \<and>
    parse_rip_packet bs = Some \<lparr>wp_command = command, wp_version = version, wp_entries = List.map (arrived version) rs\<rparr>"
proof -
  let ?bs = "[byte_of command, byte_of version, 0, 0] @ concat (List.map (rte_bytes version) rs)"
  have zero: "be_bytes 2 0 = [0, 0]" by code_simp
  have "rip_build_packet (List.map route_spec rs) version command = Inr ?bs"
    using assms build_all [OF assms(1), of version] by (simp add: rip_build_packet_def pack_field_def zero)
  moreover have "parse_rip_packet ?bs = Some \<lparr>wp_command = command, wp_version = version, wp_entries = List.map (arrived version) rs\<rparr>"
    using assms parse_built_all [OF assms(1), of version] by (simp add: parse_rip_packet_def uint_byte_of)
  ultimately show ?thesis using parse_texts [OF assms(1)] by blast
qed

text \<open>The entry that a route of the command line becomes for the RIP process: without next hop and tag, and with
  the length of its address class where the packet carries no mask.\<close>

definition injected_entry :: "int \<Rightarrow> route_data \<Rightarrow> rip_entry" where
  "injected_entry version r =
     \<lparr>en_network = Some (int_to_ip (rd_net r)),
      en_prefix = Some (if version = 1 \<or> rd_len r = 0 then classful_prefix (int_to_ip (rd_net r)) else rd_len r),
      en_metric = Some (rd_metric r)\<rparr>"

text \<open>Packets from the wire count from 0.\<close>

lemma datagram_packet_ok: "rip_datagram src bs = Some pk \<Longrightarrow> src \<noteq> ''direct'' \<Longrightarrow> packet_ok pk"
proof -
  have "0 \<le> we_metric w" if "w \<in> set (parse_entries ds)" for w ds
    using that
  proof (induction ds rule: parse_entries.induct)
    case (1 ds)
    then show ?case
      by (subst (asm) (2) parse_entries.simps)
        (auto simp: parse_entry_def Let_def from_bytes_range(1) split: if_splits option.splits)
  qed
  then show "rip_datagram src bs = Some pk \<Longrightarrow> src \<noteq> ''direct'' \<Longrightarrow> ?thesis"
    by (auto simp: rip_datagram_def packet_ok_def wire_message_def parse_rip_packet_def list_all_iff
        split: option.splits if_splits)
qed

text \<open>C26. Routes written on the injector's command line reach the table of a RIP process: at least one and up
  to 25 of them build a response packet, the listener reads it and hands it to the process, and a process that
  runs without an authentication key takes every route, in order, by the distance-vector rule, as an
  offer of the sender's address with the network and metric given and the length given, except that a
  packet without a mask (RIP version 1, or length 0) is read with the length of the address class. The next hop and the
  tag that were given are not used.\<close>

theorem injected_routes_arrive:
  assumes "\<forall>r\<in>set rs. route_data_ok r" "rs \<noteq> []" "length rs \<le> 25" "0 \<le> version" "version < 256"
    and "dget s d = Some n" "rn_enabled n" "rn_auth_key n = []" "distinct (List.map route_dest (rn_table n))"
  shows "\<exists>specs bs pk s' out. res_map parse_route_spec (List.map route_text rs) = Inr specs \<and>
    rip_build_packet specs version 2 = Inr bs \<and> rip_datagram src bs = Some pk \<and>
    receive fe e v now s d pk = Inr (s', out) \<and>
    view (get_table s' d) = fold (\<lambda>r. distance_vector fe d src (injected_entry version r)) rs (view (rn_table n))"
proof -
  obtain specs bs where b: "res_map parse_route_spec (List.map route_text rs) = Inr specs"
    "rip_build_packet specs version 2 = Inr bs"
    "parse_rip_packet bs = Some \<lparr>wp_command = 2, wp_version = version, wp_entries = List.map (arrived version) rs\<rparr>"
    using injected_packet [OF assms(1,3-5), of 2] by auto
  define pk where "pk = wire_message src \<lparr>wp_command = 2, wp_version = version, wp_entries = List.map (arrived version) rs\<rparr>"
  have pk: "rip_datagram src bs = Some pk" using b(3) assms(2) by (simp add: rip_datagram_def pk_def)
  have ent: "rk_src pk = src" "rk_entries pk = List.map (injected_entry version) rs" "rk_command pk = ''response''"
    by (simp_all add: pk_def wire_message_def arrived_def injected_entry_def)
  have t: "get_table s d = rn_table n" "takes_in s d pk" using assms(6-8) ent by (simp_all add: get_table_def takes_in_def)
  have "\<not> isl (receive fe e v now s d pk)"
    using assms(6-8) ent by (simp add: receive_def split: prod.split)
  then obtain s' out where rec: "receive fe e v now s d pk = Inr (s', out)"
    by (cases "receive fe e v now s d pk") auto
  have "view (get_table s' d) = fold (distance_vector fe d src) (List.map (injected_entry version) rs) (view (rn_table n))"
    using reception_view [of s d fe e v now pk] assms(9) t ent rec by (simp add: kept_def)
  with b(1,2) pk rec show ?thesis by (auto simp: fold_map comp_def)
qed

definition sample_routes :: "route_data list" where
  "sample_routes = [\<lparr>rd_net = 0x0A010200, rd_len = 24, rd_hop = 0x0A000001, rd_metric = 3, rd_tag = 7\<rparr>,
                    \<lparr>rd_net = 0xC0A80000, rd_len = 16, rd_hop = 0, rd_metric = 16, rd_tag = 0\<rparr>]"

theorem injected_routes_arrive_witness:
  "\<exists>specs bs pk s' out. res_map parse_route_spec (List.map route_text sample_routes) = Inr specs \<and>
    rip_build_packet specs 2 2 = Inr bs \<and> rip_datagram ''192.0.2.9'' bs = Some pk \<and>
    receive no_filters no_env vnet_init 1 rip_example ''r1'' pk = Inr (s', out) \<and>
    view (get_table s' ''r1'') (''10.1.2.0'', 24) = Some (4, ''192.0.2.9'') \<and>
    view (get_table s' ''r1'') (''192.168.0.0'', 16) = None"
proof -
  let ?n = "snd (hd rip_example)"
  have n: "dget rip_example ''r1'' = Some ?n" "rn_enabled ?n" "rn_auth_key ?n = []" "distinct (List.map route_dest (rn_table ?n))"
    by (simp_all add: rip_example_def new_proc_def)
  have ok: "\<forall>r\<in>set sample_routes. route_data_ok r" "sample_routes \<noteq> []" "length sample_routes \<le> 25"
    by (simp_all add: sample_routes_def route_data_ok_def)
  have a: "int_to_ip 0x0A010200 = ''10.1.2.0''" "int_to_ip 0xC0A80000 = ''192.168.0.0''" by code_simp+
  have v: "fold (\<lambda>r. distance_vector no_filters ''r1'' ''192.0.2.9'' (injected_entry 2 r)) sample_routes (view (rn_table ?n))
      = (view (rn_table ?n))((''10.1.2.0'', 24) := Some (4, ''192.0.2.9''))"
    by (auto simp: sample_routes_def injected_entry_def a distance_vector_def no_filters_def check_prefix_list_def
        from_others_def nearer_def offered_def view_def rip_example_def route_dest_def fun_eq_iff)
  have "view (rn_table ?n) (''192.168.0.0'', 16) = None" by (simp add: view_def rip_example_def route_dest_def)
  with injected_routes_arrive [OF ok, of 2, OF _ _ n, of "''192.0.2.9''" no_filters no_env vnet_init 1] v show ?thesis by auto
qed

text \<open>A default route sent in a RIP version 2 packet is taken for the network 0.0.0.0/8: the parser reads
  the zero mask as a missing one and applies the class of the address.\<close>

theorem default_route_becomes_slash8:
  assumes "0 \<le> hop" "hop < 2 ^ 32" "0 \<le> mt" "mt < 2 ^ 32"
  shows "\<exists>bs. rip_build_packet [route_spec \<lparr>rd_net = 0, rd_len = 0, rd_hop = hop, rd_metric = mt, rd_tag = 0\<rparr>] 2 2 = Inr bs \<and>
    parse_rip_packet bs = Some \<lparr>wp_command = 2, wp_version = 2,
      wp_entries = [\<lparr>we_network = ''0.0.0.0'', we_prefix = 8, we_metric = mt\<rparr>]\<rparr>"
proof -
  let ?r = "\<lparr>rd_net = 0, rd_len = 0, rd_hop = hop, rd_metric = mt, rd_tag = 0\<rparr>"
  have ok: "\<forall>r\<in>set [?r]. route_data_ok r" using assms by (simp add: route_data_ok_def)
  have t: "int_to_ip 0 = ''0.0.0.0''" "classful_prefix ''0.0.0.0'' = 8" "be_bytes 2 0 = [0, 0]"
    "be_bytes 1 2 = [2]" "byte_of 2 = 2" by code_simp+
  let ?bs = "[2, 2, 0, 0] @ rte_bytes 2 ?r"
  have "rip_build_packet [route_spec ?r] 2 2 = Inr ?bs"
    using build_all [OF ok, of 2] by (simp add: rip_build_packet_def pack_field_def t)
  moreover have "parse_rip_packet ?bs = Some \<lparr>wp_command = 2, wp_version = 2, wp_entries = [arrived 2 ?r]\<rparr>"
    using parse_built_all [OF ok, of 2] by (simp add: parse_rip_packet_def)
  ultimately show ?thesis using t by (simp add: arrived_def)
qed

theorem default_route_becomes_slash8_witness:
  "\<exists>bs. rip_build_packet [route_spec \<lparr>rd_net = 0, rd_len = 0, rd_hop = 5, rd_metric = 1, rd_tag = 0\<rparr>] 2 2 = Inr bs \<and>
    parse_rip_packet bs = Some \<lparr>wp_command = 2, wp_version = 2,
      wp_entries = [\<lparr>we_network = ''0.0.0.0'', we_prefix = 8, we_metric = 1\<rparr>]\<rparr>"
  by (rule default_route_becomes_slash8) simp_all

text \<open>The request for a neighbour's whole table (one entry of address family 0, metric 16) is dropped
  before it reaches the RIP process, whoever sends it.\<close>

theorem whole_table_request_dropped:
  "rip_datagram src [1, 2, 0, 0, 0, 0, 0, 0, 0, 0, 0, 0, 0, 0, 0, 0, 0, 0, 0, 0, 0, 0, 0, 16] = None"
proof -
  have "parse_rip_packet [1, 2, 0, 0, 0, 0, 0, 0, 0, 0, 0, 0, 0, 0, 0, 0, 0, 0, 0, 0, 0, 0, 0, 16] =
      Some \<lparr>wp_command = 1, wp_version = 2, wp_entries = []\<rparr>"
    by code_simp
  then show ?thesis by (simp add: rip_datagram_def)
qed

end
