(* ===== verification/Bgp.thy ===== *)
theory Bgp
  imports Complex_Main Filters Rib Selection Machine "HOL-Library.Product_Lexorder"
begin

text \<open>
  \<open>class BgpEngine\<close>: sessions and their opening, the routes a speaker advertises (split horizon, route
  reflection, confederations, route maps, prefix lists, communities), the propagation of all tables to a
  fixed point, best paths, RPKI origin validation, graceful restart and remotely triggered black holes,
  which install static routes in the \<open>RibEngine\<close>. Each handler is atomic up to its next \<open>await\<close>; the
  opening of a session is therefore split where the code sleeps. Log messages, the keepalive task (it only
  sleeps) and the per-node counter \<open>prefixes_received\<close>, which nothing reads, are left out.
\<close>

subsection \<open>State\<close>

datatype session_state = BIdle | BActive | BConnect | BOpenSent | BOpenConfirm | BEstablished

record bgp_session =
  bs_hostname :: string
  bs_remote_as :: int
  bs_state :: session_state
  bs_uptime :: "rat option"
  bs_password :: string
  bs_route_map_in :: string
  bs_route_map_out :: string
  bs_bfd :: bool
  bs_bfd_up :: bool
  bs_neighbor_ip :: string
  bs_prefix_list_in :: string
  bs_prefix_list_out :: string
  bs_send_community :: bool
  bs_reflector_client :: bool
  bs_graceful_restart :: bool
  bs_llgr :: bool
  bs_restart_time :: int

datatype rpki = RpkiValid | RpkiInvalid | RpkiNotFound

record bgp_route =
  br_prefix :: ip
  br_len :: int
  br_next_hop :: string
  br_local_pref :: int
  br_med :: int
  br_as_path :: "int list"
  br_origin :: string
  br_from :: string
  br_from_host :: string
  br_communities :: "string list"
  br_stale :: bool
  br_rpki :: rpki

record route_map =
  rm_prepend :: "int list"
  rm_local_pref :: "int option"
  rm_med :: "int option"
  rm_communities :: "string list"
  rm_additive :: bool

record roa =
  roa_prefix :: ip
  roa_len :: int
  roa_max :: int
  roa_as :: int

record bgp_node =
  bn_enabled :: bool
  bn_local_as :: "int option"
  bn_router_id :: string
  bn_hostname :: string
  bn_sessions :: "(dev, bgp_session) dict"
  bn_rib_in :: "bgp_route list"
  bn_loc_rib :: "bgp_route list"
  bn_networks :: "string list"
  bn_route_maps :: "(string, route_map) dict"
  bn_cluster_id :: string
  bn_rtbh_community :: string
  bn_rtbh_installed :: "(ip \<times> int) list"
  bn_hostname_capability :: bool
  bn_gr_default :: bool
  bn_llgr_default :: bool
  bn_gr_restart_time :: int
  bn_confed_id :: "int option"
  bn_confed_peers :: "int list"
  bn_roas :: "roa list"
  bn_invalid_drop :: bool

type_synonym bgp_nodes = "(dev, bgp_node) dict"

record bgp =
  nodes :: bgp_nodes
  static_rib :: rib

definition new_bgp_node :: "dev \<Rightarrow> bgp_node" where
  "new_bgp_node d = \<lparr>bn_enabled = False, bn_local_as = None, bn_router_id = [], bn_hostname = d, bn_sessions = [],
     bn_rib_in = [], bn_loc_rib = [], bn_networks = [], bn_route_maps = [], bn_cluster_id = [],
     bn_rtbh_community = [], bn_rtbh_installed = [], bn_hostname_capability = False, bn_gr_default = False,
     bn_llgr_default = False, bn_gr_restart_time = 120, bn_confed_id = None, bn_confed_peers = [],
     bn_roas = [], bn_invalid_drop = False\<rparr>"

text \<open>\<open>_node\<close>: the node, created when it is missing.\<close>

definition bgp_node_of :: "bgp_nodes \<Rightarrow> dev \<Rightarrow> bgp_node" where
  "bgp_node_of ns d = (case dget ns d of None \<Rightarrow> new_bgp_node d | Some n \<Rightarrow> n)"

definition upd_node :: "dev \<Rightarrow> (bgp_node \<Rightarrow> bgp_node) \<Rightarrow> bgp \<Rightarrow> bgp" where
  "upd_node d f s = s\<lparr>nodes := dset (nodes s) d (f (bgp_node_of (nodes s) d))\<rparr>"

definition upd_session :: "dev \<Rightarrow> (bgp_session \<Rightarrow> bgp_session) \<Rightarrow> bgp_node \<Rightarrow> bgp_node" where
  "upd_session nb f n =
     (case dget (bn_sessions n) nb of
        None \<Rightarrow> n
      | Some x \<Rightarrow> n\<lparr>bn_sessions := dset (bn_sessions n) nb (f x)\<rparr>)"

subsection \<open>Best paths\<close>

definition better_route :: "bgp_route \<Rightarrow> bgp_route \<Rightarrow> bool" where
  "better_route r cur =
     (if br_stale r \<noteq> br_stale cur then \<not> br_stale r
      else if br_local_pref r \<noteq> br_local_pref cur then br_local_pref r > br_local_pref cur
      else if length (br_as_path r) \<noteq> length (br_as_path cur) then length (br_as_path r) < length (br_as_path cur)
      else br_med r < br_med cur)"

definition prefix_text :: "bgp_route \<Rightarrow> string" where
  "prefix_text r = br_prefix r @ ''/'' @ show_int (br_len r)"

fun best_paths :: "(string, bgp_route) dict \<Rightarrow> bgp_route list \<Rightarrow> (string, bgp_route) dict" where
  "best_paths best [] = best"
| "best_paths best (r # rs) =
     best_paths (case dget best (prefix_text r) of
                   None \<Rightarrow> dset best (prefix_text r) r
                 | Some cur \<Rightarrow> if better_route r cur then dset best (prefix_text r) r else best) rs"

definition recalc_node :: "bgp_node \<Rightarrow> bgp_node" where
  "recalc_node n = n\<lparr>bn_loc_rib := dvals (best_paths [] (bn_rib_in n))\<rparr>"

definition recalc_best_path :: "dev \<Rightarrow> bgp_nodes \<Rightarrow> bgp_nodes" where
  "recalc_best_path d ns = (case dget ns d of None \<Rightarrow> ns | Some n \<Rightarrow> dset ns d (recalc_node n))"

subsection \<open>Route maps and origin validation\<close>

definition set_communities :: "route_map \<Rightarrow> string list \<Rightarrow> string list" where
  "set_communities rm cs =
     (if rm_communities rm = [] then cs
      else if rm_additive rm then sunion cs (rm_communities rm) else rm_communities rm)"

definition apply_route_map :: "bgp_node option \<Rightarrow> string \<Rightarrow> bgp_route \<Rightarrow> bgp_route" where
  "apply_route_map n name r =
     (case (case n of None \<Rightarrow> None | Some n \<Rightarrow> dget (bn_route_maps n) name) of
        None \<Rightarrow> r
      | Some rm \<Rightarrow>
          r\<lparr>br_as_path := rm_prepend rm @ br_as_path r,
            br_local_pref := (case rm_local_pref rm of None \<Rightarrow> br_local_pref r | Some x \<Rightarrow> x),
            br_med := (case rm_med rm of None \<Rightarrow> br_med r | Some x \<Rightarrow> x),
            br_communities := set_communities rm (br_communities r)\<rparr>)"

definition roa_mask :: "int \<Rightarrow> int res" where
  "roa_mask len = (if len = 0 then Inr 0 else netmask len)"

fun covering_roas :: "int \<Rightarrow> int \<Rightarrow> roa list \<Rightarrow> roa list res" where
  "covering_roas pfx len [] = Inr []"
| "covering_roas pfx len (x # xs) =
     (if roa_len x > len then covering_roas pfx len xs
      else res_bind (roa_mask (roa_len x)) (\<lambda>m.
           res_bind (covering_roas pfx len xs) (\<lambda>rest.
             Inr (if pfx AND m = ip_to_int (roa_prefix x) AND m then x # rest else rest))))"

definition rpki_validate :: "bgp_node option \<Rightarrow> ip \<Rightarrow> int \<Rightarrow> int \<Rightarrow> rpki res" where
  "rpki_validate n prefix len origin_as =
     (case n of
        None \<Rightarrow> Inr RpkiNotFound
      | Some n \<Rightarrow>
          if bn_roas n = [] then Inr RpkiNotFound
          else res_bind (covering_roas (ip_to_int prefix) len (bn_roas n)) (\<lambda>cov.
               Inr (if cov = [] then RpkiNotFound
                    else if \<exists>x\<in>set cov. len \<le> roa_max x \<and> origin_as = roa_as x then RpkiValid
                    else RpkiInvalid)))"

subsection \<open>What a speaker advertises\<close>

definition net_prefix :: "string \<Rightarrow> (ip \<times> int) res" where
  "net_prefix net =
     (if CHR ''/'' \<in> set net
      then res_bind (res_of ValueError (py_int (split_on (CHR ''/'') net ! 1))) (\<lambda>l. Inr (hd (split_on (CHR ''/'') net), l))
      else Inr (net, 24))"

definition is_confed_peer :: "bgp_node \<Rightarrow> int \<Rightarrow> bool" where
  "is_confed_peer n remote_as \<longleftrightarrow> remote_as \<in> set (bn_confed_peers n)"

definition is_ebgp :: "bgp_node \<Rightarrow> bgp_session \<Rightarrow> bool" where
  "is_ebgp n ses \<longleftrightarrow> bn_local_as n \<noteq> Some (bs_remote_as ses)"

text \<open>An eBGP session out of the confederation, when a confederation identifier is configured.\<close>

definition leaving_confederation :: "bgp_node \<Rightarrow> bgp_session \<Rightarrow> bool" where
  "leaving_confederation n ses \<longleftrightarrow> is_ebgp n ses \<and> \<not> is_confed_peer n (bs_remote_as ses) \<and> bn_confed_id n \<noteq> None"

definition own_as :: "bgp_node \<Rightarrow> int list" where
  "own_as n = (case bn_local_as n of None \<Rightarrow> [] | Some a \<Rightarrow> [a])"

definition confed_path :: "bgp_node \<Rightarrow> int list" where
  "confed_path n = (case bn_confed_id n of None \<Rightarrow> [] | Some c \<Rightarrow> [c])"

definition own_route :: "dev \<Rightarrow> bgp_node \<Rightarrow> bgp_session \<Rightarrow> ip \<times> int \<Rightarrow> bgp_route" where
  "own_route d n ses pl =
     \<lparr>br_prefix = fst pl, br_len = snd pl, br_next_hop = d, br_local_pref = 100, br_med = 0,
      br_as_path = (if leaving_confederation n ses then confed_path n else own_as n), br_origin = ''i'',
      br_from = [], br_from_host = bn_hostname n, br_communities = [], br_stale = False, br_rpki = RpkiNotFound\<rparr>"

definition readvertise :: "bgp_node \<Rightarrow> bgp_session \<Rightarrow> dev \<Rightarrow> bgp_route \<Rightarrow> bool" where
  "readvertise n ses nb lr \<longleftrightarrow>
     br_from lr \<noteq> [] \<and> br_from lr \<noteq> nb \<and>
     (let src = dget (bn_sessions n) (br_from lr);
          src_ibgp = (case src of None \<Rightarrow> False | Some x \<Rightarrow> Some (bs_remote_as x) = bn_local_as n);
          src_client = (case src of None \<Rightarrow> False | Some x \<Rightarrow> bs_reflector_client x)
      in \<not> (src_ibgp \<and> \<not> is_ebgp n ses \<and> \<not> (bs_reflector_client ses \<or> src_client)))"

definition transit_path :: "bgp_node \<Rightarrow> bgp_session \<Rightarrow> int list \<Rightarrow> int list" where
  "transit_path n ses path =
     (if leaving_confederation n ses
      then confed_path n @ filter (\<lambda>a. Some a \<noteq> bn_local_as n \<and> a \<notin> set (bn_confed_peers n)) path
      else if is_ebgp n ses then own_as n @ path
      else path)"

definition transit_route :: "dev \<Rightarrow> bgp_node \<Rightarrow> bgp_session \<Rightarrow> bgp_route \<Rightarrow> bgp_route" where
  "transit_route d n ses lr =
     \<lparr>br_prefix = br_prefix lr, br_len = br_len lr, br_next_hop = d, br_local_pref = 100, br_med = br_med lr,
      br_as_path = transit_path n ses (br_as_path lr), br_origin = br_origin lr, br_from = [],
      br_from_host = bn_hostname n, br_communities = br_communities lr, br_stale = False, br_rpki = RpkiNotFound\<rparr>"

definition advert_candidates :: "dev \<Rightarrow> bgp_node \<Rightarrow> bgp_session \<Rightarrow> dev \<Rightarrow> bgp_route list res" where
  "advert_candidates d n ses nb =
     res_bind (res_map net_prefix (bn_networks n)) (\<lambda>nets.
       Inr (List.map (own_route d n ses) nets @
            List.map (transit_route d n ses) (filter (readvertise n ses nb) (bn_loc_rib n))))"

definition outbound :: "filter_engine \<Rightarrow> dev \<Rightarrow> bgp_node \<Rightarrow> bgp_session \<Rightarrow> bgp_route list \<Rightarrow> bgp_route list" where
  "outbound fe d n ses out =
     (let mapped = (if bs_route_map_out ses = [] then out
                    else List.map (apply_route_map (Some n) (bs_route_map_out ses)) out);
          listed = (if bs_prefix_list_out ses = [] then mapped
                    else filter (\<lambda>r. check_prefix_list fe d (bs_prefix_list_out ses) (br_prefix r) (br_len r)) mapped)
      in if bs_send_community ses then listed else List.map (\<lambda>r. r\<lparr>br_communities := []\<rparr>) listed)"

definition compute_adverts :: "filter_engine \<Rightarrow> bgp_nodes \<Rightarrow> dev \<Rightarrow> dev \<Rightarrow> bgp_route list res" where
  "compute_adverts fe ns d nb =
     (case dget ns d of
        None \<Rightarrow> Inr []
      | Some n \<Rightarrow>
          (case dget (bn_sessions n) nb of
             None \<Rightarrow> Inr []
           | Some ses \<Rightarrow> res_bind (advert_candidates d n ses nb) (\<lambda>out. Inr (outbound fe d n ses out))))"

subsection \<open>One speaker's routes reach a neighbour\<close>

definition received_route :: "dev \<Rightarrow> bgp_node \<Rightarrow> rpki \<Rightarrow> bgp_route \<Rightarrow> bgp_route" where
  "received_route d n state r =
     \<lparr>br_prefix = br_prefix r, br_len = br_len r, br_next_hop = d, br_local_pref = 100, br_med = br_med r,
      br_as_path = br_as_path r, br_origin = br_origin r, br_from = d, br_from_host = bn_hostname n,
      br_communities = br_communities r, br_stale = False, br_rpki = state\<rparr>"

text \<open>What becomes of one advertised route at the receiver: nothing, or the route it stores.\<close>

definition inbound ::
  "filter_engine \<Rightarrow> dev \<Rightarrow> bgp_node \<Rightarrow> bgp_session \<Rightarrow> dev \<Rightarrow> bgp_node \<Rightarrow> bgp_route \<Rightarrow> bgp_route option res" where
  "inbound fe d n ses nb nbr r =
     (let nbr_ses = dget (bn_sessions nbr) d;
          list_in = (case nbr_ses of None \<Rightarrow> [] | Some x \<Rightarrow> bs_prefix_list_in x);
          map_in = (case nbr_ses of None \<Rightarrow> [] | Some x \<Rightarrow> bs_route_map_in x)
      in if is_ebgp n ses \<and> (case bn_local_as nbr of None \<Rightarrow> False | Some a \<Rightarrow> a \<in> set (br_as_path r)) then Inr None
         else if list_in \<noteq> [] \<and> \<not> check_prefix_list fe nb list_in (br_prefix r) (br_len r) then Inr None
         else res_bind (if br_as_path r = [] then Inr RpkiNotFound
                        else rpki_validate (Some nbr) (br_prefix r) (br_len r) (last (br_as_path r))) (\<lambda>state.
              if state = RpkiInvalid \<and> bn_invalid_drop nbr then Inr None
              else (let rr = received_route d n state r
                    in Inr (Some (if map_in = [] then rr else apply_route_map (Some nbr) map_in rr)))))"

definition route_key :: "bgp_route \<Rightarrow> ip \<times> int" where
  "route_key r = (br_prefix r, br_len r)"

fun wanted_routes ::
  "filter_engine \<Rightarrow> dev \<Rightarrow> bgp_node \<Rightarrow> bgp_session \<Rightarrow> dev \<Rightarrow> bgp_node \<Rightarrow> bgp_route list \<Rightarrow>
   (ip \<times> int, bgp_route) dict \<Rightarrow> (ip \<times> int, bgp_route) dict res" where
  "wanted_routes fe d n ses nb nbr [] w = Inr w"
| "wanted_routes fe d n ses nb nbr (r # rs) w =
     res_bind (inbound fe d n ses nb nbr r) (\<lambda>x.
       wanted_routes fe d n ses nb nbr rs (case x of None \<Rightarrow> w | Some rr \<Rightarrow> dset w (route_key rr) rr))"

fun existing_routes :: "dev \<Rightarrow> bgp_route list \<Rightarrow> (ip \<times> int, bgp_route) dict \<Rightarrow> (ip \<times> int, bgp_route) dict" where
  "existing_routes d [] e = e"
| "existing_routes d (x # xs) e = existing_routes d xs (if br_from x = d then dset e (route_key x) x else e)"

definition route_differs :: "bgp_route \<Rightarrow> bgp_route \<Rightarrow> bool" where
  "route_differs cur rr \<longleftrightarrow>
     br_as_path cur \<noteq> br_as_path rr \<or> br_local_pref cur \<noteq> br_local_pref rr \<or> br_med cur \<noteq> br_med rr \<or>
     br_communities cur \<noteq> br_communities rr \<or> br_rpki cur \<noteq> br_rpki rr \<or> br_stale cur"

definition refresh_route :: "bgp_route \<Rightarrow> bgp_route \<Rightarrow> bgp_route" where
  "refresh_route rr cur =
     cur\<lparr>br_as_path := br_as_path rr, br_local_pref := br_local_pref rr, br_med := br_med rr,
         br_communities := br_communities rr, br_rpki := br_rpki rr, br_stale := False\<rparr>"

text \<open>The object found under a key is the last one of the list with that key; it is changed in place.\<close>

fun modify_first :: "('a \<Rightarrow> bool) \<Rightarrow> ('a \<Rightarrow> 'a) \<Rightarrow> 'a list \<Rightarrow> 'a list" where
  "modify_first P f [] = []"
| "modify_first P f (x # xs) = (if P x then f x # xs else x # modify_first P f xs)"

definition modify_last :: "('a \<Rightarrow> bool) \<Rightarrow> ('a \<Rightarrow> 'a) \<Rightarrow> 'a list \<Rightarrow> 'a list" where
  "modify_last P f xs = rev (modify_first P f (rev xs))"

fun withdraw_routes :: "(ip \<times> int, bgp_route) dict \<Rightarrow> (ip \<times> int, bgp_route) dict \<Rightarrow> bgp_route list \<Rightarrow> bgp_route list \<times> bool" where
  "withdraw_routes w [] rib = (rib, False)"
| "withdraw_routes w ((k, x) # es) rib =
     (if dget w k = None then (fst (withdraw_routes w es (remove1 x rib)), True) else withdraw_routes w es rib)"

fun store_routes ::
  "dev \<Rightarrow> (ip \<times> int, bgp_route) dict \<Rightarrow> (ip \<times> int, bgp_route) dict \<Rightarrow> bgp_route list \<Rightarrow> bgp_route list \<times> bool" where
  "store_routes d e [] rib = (rib, False)"
| "store_routes d e ((k, rr) # ws) rib =
     (case dget e k of
        None \<Rightarrow> (fst (store_routes d e ws (rib @ [rr])), True)
      | Some cur \<Rightarrow>
          if route_differs cur rr
          then (fst (store_routes d e ws (modify_last (\<lambda>x. br_from x = d \<and> route_key x = k) (refresh_route rr) rib)), True)
          else store_routes d e ws rib)"

definition merge_routes :: "dev \<Rightarrow> (ip \<times> int, bgp_route) dict \<Rightarrow> bgp_route list \<Rightarrow> bgp_route list \<times> bool" where
  "merge_routes d w rib =
     (let e = existing_routes d rib []; (rib1, ch1) = withdraw_routes w e rib; (rib2, ch2) = store_routes d e w rib1
      in (rib2, ch1 \<or> ch2))"

text \<open>One turn of the inner loop of \<open>_propagate_bgp\<close>; an exception leaves the neighbour as it was.\<close>

definition exchange :: "filter_engine \<Rightarrow> bgp_nodes \<Rightarrow> dev \<times> dev \<Rightarrow> (bgp_nodes \<times> bool) res" where
  "exchange fe ns dn =
     (case dn of (d, nb) \<Rightarrow>
       case dget ns d of
         None \<Rightarrow> Inr (ns, False)
       | Some n \<Rightarrow>
           (case dget (bn_sessions n) nb of
              None \<Rightarrow> Inr (ns, False)
            | Some ses \<Rightarrow>
                if bs_state ses \<noteq> BEstablished then Inr (ns, False)
                else case dget ns nb of
                       None \<Rightarrow> Inr (ns, False)
                     | Some nbr \<Rightarrow>
                         res_bind (compute_adverts fe ns d nb) (\<lambda>adverts.
                         res_bind (wanted_routes fe d n ses nb nbr adverts []) (\<lambda>w.
                           (case merge_routes d w (bn_rib_in nbr) of
                              (rib', ch) \<Rightarrow> Inr (dset ns nb (nbr\<lparr>bn_rib_in := rib'\<rparr>), ch))))))"

subsection \<open>Propagation\<close>

definition active_nodes :: "bgp_nodes \<Rightarrow> dev list" where
  "active_nodes ns = List.map fst (filter (\<lambda>(d, n). bn_enabled n) ns)"

definition session_pairs :: "bgp_nodes \<Rightarrow> (dev \<times> dev) list" where
  "session_pairs ns = concat (List.map (\<lambda>d. List.map (\<lambda>nb. (d, nb)) (dkeys (bn_sessions (bgp_node_of ns d)))) (active_nodes ns))"

fun exchanges :: "filter_engine \<Rightarrow> (dev \<times> dev) list \<Rightarrow> bgp_nodes \<Rightarrow> bgp_nodes \<times> bool \<times> pyerr option" where
  "exchanges fe [] ns = (ns, False, None)"
| "exchanges fe (p # ps) ns =
     (case exchange fe ns p of
        Inl e \<Rightarrow> (ns, False, Some e)
      | Inr (ns', ch) \<Rightarrow> (case exchanges fe ps ns' of (ns'', ch', e) \<Rightarrow> (ns'', ch \<or> ch', e)))"

definition recalc_all :: "bgp_nodes \<Rightarrow> bgp_nodes" where
  "recalc_all ns = fold recalc_best_path (active_nodes ns) ns"

text \<open>The rounds of \<open>while changed and guard < 40\<close>, with the final value of \<open>changed\<close>; an exception ends the
  propagation where it is.\<close>

fun propagate_rounds :: "nat \<Rightarrow> filter_engine \<Rightarrow> bgp_nodes \<Rightarrow> bgp_nodes \<times> bool \<times> pyerr option" where
  "propagate_rounds 0 fe ns = (ns, True, None)"
| "propagate_rounds (Suc k) fe ns =
     (case exchanges fe (session_pairs ns) ns of
        (ns', ch, Some e) \<Rightarrow> (ns', ch, Some e)
      | (ns', ch, None) \<Rightarrow> if ch then propagate_rounds k fe (recalc_all ns') else (recalc_all ns', False, None))"

definition rtbh_wanted :: "bgp_node \<Rightarrow> (ip \<times> int) list" where
  "rtbh_wanted n = fold (\<lambda>r acc. if bn_rtbh_community n \<in> set (br_communities r) then sadd acc (route_key r) else acc)
     (bn_loc_rib n) []"

definition apply_rtbh :: "dev \<Rightarrow> bgp \<Rightarrow> bgp" where
  "apply_rtbh d s =
     (case dget (nodes s) d of
        None \<Rightarrow> s
      | Some n \<Rightarrow>
          if bn_rtbh_community n = [] then s
          else (let wanted = rtbh_wanted n; installed = bn_rtbh_installed n;
                    r1 = fold (\<lambda>(p, l) r. add_static_route r d (bn_hostname n) p l ''Null0'' 1)
                           (filter (\<lambda>k. k \<notin> set installed) wanted) (static_rib s);
                    r2 = fold (\<lambda>(p, l) r. remove_static_route r d p l (Some ''Null0''))
                           (filter (\<lambda>k. k \<notin> set wanted) installed) r1
                in s\<lparr>nodes := dset (nodes s) d (n\<lparr>bn_rtbh_installed := wanted\<rparr>), static_rib := r2\<rparr>))"

definition propagate :: "filter_engine \<Rightarrow> bgp \<Rightarrow> bgp \<times> pyerr option" where
  "propagate fe s =
     (case propagate_rounds 40 fe (nodes s) of
        (ns, _, Some e) \<Rightarrow> (s\<lparr>nodes := ns\<rparr>, Some e)
      | (ns, _, None) \<Rightarrow>
          (fold (\<lambda>d s. apply_rtbh d (s\<lparr>nodes := recalc_best_path d (nodes s)\<rparr>)) (active_nodes ns) (s\<lparr>nodes := ns\<rparr>), None))"

subsection \<open>Configuration\<close>

definition bgp_start :: "(string \<Rightarrow> int) \<Rightarrow> dev \<Rightarrow> string \<Rightarrow> int \<Rightarrow> string \<Rightarrow> bgp \<Rightarrow> bgp" where
  "bgp_start pyhash d host local_as router s =
     upd_node d (\<lambda>n. n\<lparr>bn_enabled := True, bn_local_as := Some local_as, bn_hostname := host,
       bn_router_id := (if router \<noteq> [] then router else if bn_router_id n \<noteq> [] then bn_router_id n
                        else ''10.1.0.'' @ show_int (\<bar>pyhash d\<bar> mod 254 + 1))\<rparr>) s"

definition new_session :: "bgp_node \<Rightarrow> string \<Rightarrow> int \<Rightarrow> string \<Rightarrow> bgp_session" where
  "new_session n host remote_as nip =
     \<lparr>bs_hostname = host, bs_remote_as = remote_as, bs_state = BIdle, bs_uptime = None, bs_password = [],
      bs_route_map_in = [], bs_route_map_out = [], bs_bfd = False, bs_bfd_up = False, bs_neighbor_ip = nip,
      bs_prefix_list_in = [], bs_prefix_list_out = [], bs_send_community = False, bs_reflector_client = False,
      bs_graceful_restart = bn_gr_default n, bs_llgr = bn_llgr_default n, bs_restart_time = bn_gr_restart_time n\<rparr>"

definition add_neighbor :: "dev \<Rightarrow> dev \<Rightarrow> string \<Rightarrow> int \<Rightarrow> string \<Rightarrow> bgp \<Rightarrow> bgp" where
  "add_neighbor d nb host remote_as nip s =
     upd_node d (\<lambda>n.
       if \<not> bn_enabled n then n
       else n\<lparr>bn_sessions := dset (bn_sessions n) nb
         (case dget (bn_sessions n) nb of
            Some x \<Rightarrow> x\<lparr>bs_remote_as := remote_as, bs_hostname := host,
                        bs_neighbor_ip := (if nip \<noteq> [] then nip else bs_neighbor_ip x)\<rparr>
          | None \<Rightarrow> new_session n host remote_as nip)\<rparr>) s"

definition set_neighbor_password :: "dev \<Rightarrow> dev \<Rightarrow> string \<Rightarrow> bgp \<Rightarrow> bgp" where
  "set_neighbor_password d nb pw s = upd_node d (upd_session nb (\<lambda>x. x\<lparr>bs_password := pw\<rparr>)) s"

definition set_neighbor_bfd :: "dev \<Rightarrow> dev \<Rightarrow> bool \<Rightarrow> bgp \<Rightarrow> bgp" where
  "set_neighbor_bfd d nb b s = upd_node d (upd_session nb (\<lambda>x. x\<lparr>bs_bfd := b\<rparr>)) s"

text \<open>The settings that are followed by a propagation when the session exists.\<close>

definition set_and_propagate :: "filter_engine \<Rightarrow> dev \<Rightarrow> dev \<Rightarrow> (bgp_session \<Rightarrow> bgp_session) \<Rightarrow> bgp \<Rightarrow> bgp" where
  "set_and_propagate fe d nb f s =
     (let s1 = upd_node d (upd_session nb f) s
      in if dget (bn_sessions (bgp_node_of (nodes s) d)) nb = None then s1 else fst (propagate fe s1))"

definition set_neighbor_route_map :: "filter_engine \<Rightarrow> dev \<Rightarrow> dev \<Rightarrow> string \<Rightarrow> string \<Rightarrow> bgp \<Rightarrow> bgp" where
  "set_neighbor_route_map fe d nb name direction s =
     set_and_propagate fe d nb
       (\<lambda>x. if direction = ''in'' then x\<lparr>bs_route_map_in := name\<rparr> else x\<lparr>bs_route_map_out := name\<rparr>) s"

definition set_neighbor_prefix_list :: "filter_engine \<Rightarrow> dev \<Rightarrow> dev \<Rightarrow> string \<Rightarrow> string \<Rightarrow> bgp \<Rightarrow> bgp" where
  "set_neighbor_prefix_list fe d nb name direction s =
     set_and_propagate fe d nb
       (\<lambda>x. if direction = ''in'' then x\<lparr>bs_prefix_list_in := name\<rparr> else x\<lparr>bs_prefix_list_out := name\<rparr>) s"

definition set_neighbor_send_community :: "filter_engine \<Rightarrow> dev \<Rightarrow> dev \<Rightarrow> bool \<Rightarrow> bgp \<Rightarrow> bgp" where
  "set_neighbor_send_community fe d nb b s = set_and_propagate fe d nb (\<lambda>x. x\<lparr>bs_send_community := b\<rparr>) s"

definition set_neighbor_route_reflector_client :: "filter_engine \<Rightarrow> dev \<Rightarrow> dev \<Rightarrow> bool \<Rightarrow> bgp \<Rightarrow> bgp" where
  "set_neighbor_route_reflector_client fe d nb b s = set_and_propagate fe d nb (\<lambda>x. x\<lparr>bs_reflector_client := b\<rparr>) s"

definition set_cluster_id :: "dev \<Rightarrow> string \<Rightarrow> bgp \<Rightarrow> bgp" where
  "set_cluster_id d c s = upd_node d (\<lambda>n. n\<lparr>bn_cluster_id := c\<rparr>) s"

definition set_rtbh_community :: "dev \<Rightarrow> string \<Rightarrow> bgp \<Rightarrow> bgp" where
  "set_rtbh_community d c s = apply_rtbh d (upd_node d (\<lambda>n. n\<lparr>bn_rtbh_community := c\<rparr>) s)"

definition set_hostname_capability :: "dev \<Rightarrow> bool \<Rightarrow> bgp \<Rightarrow> bgp" where
  "set_hostname_capability d b s = upd_node d (\<lambda>n. n\<lparr>bn_hostname_capability := b\<rparr>) s"

definition hostname_capability_active :: "bgp \<Rightarrow> dev \<Rightarrow> dev \<Rightarrow> bool" where
  "hostname_capability_active s d nb \<longleftrightarrow>
     (case (dget (nodes s) d, dget (nodes s) nb) of
        (Some n, Some m) \<Rightarrow> bn_hostname_capability n \<and> bn_hostname_capability m
      | _ \<Rightarrow> False)"

definition map_sessions :: "(bgp_session \<Rightarrow> bgp_session) \<Rightarrow> bgp_node \<Rightarrow> bgp_node" where
  "map_sessions f n = n\<lparr>bn_sessions := List.map (\<lambda>(k, x). (k, f x)) (bn_sessions n)\<rparr>"

definition set_graceful_restart :: "dev \<Rightarrow> bool \<Rightarrow> int option \<Rightarrow> bgp \<Rightarrow> bgp" where
  "set_graceful_restart d b rt s =
     upd_node d (\<lambda>n. map_sessions
         (\<lambda>x. x\<lparr>bs_graceful_restart := b, bs_restart_time := (case rt of None \<Rightarrow> bs_restart_time x | Some t \<Rightarrow> t)\<rparr>)
         (n\<lparr>bn_gr_default := b, bn_gr_restart_time := (case rt of None \<Rightarrow> bn_gr_restart_time n | Some t \<Rightarrow> t)\<rparr>)) s"

definition set_llgr :: "dev \<Rightarrow> bool \<Rightarrow> bgp \<Rightarrow> bgp" where
  "set_llgr d b s = upd_node d (\<lambda>n. map_sessions (\<lambda>x. x\<lparr>bs_llgr := b\<rparr>) (n\<lparr>bn_llgr_default := b\<rparr>)) s"

definition set_confederation_identifier :: "dev \<Rightarrow> int \<Rightarrow> bgp \<Rightarrow> bgp" where
  "set_confederation_identifier d a s = upd_node d (\<lambda>n. n\<lparr>bn_confed_id := Some a\<rparr>) s"

definition add_confederation_peer :: "dev \<Rightarrow> int \<Rightarrow> bgp \<Rightarrow> bgp" where
  "add_confederation_peer d a s = upd_node d (\<lambda>n. n\<lparr>bn_confed_peers := sadd (bn_confed_peers n) a\<rparr>) s"

definition add_roa :: "dev \<Rightarrow> roa \<Rightarrow> bgp \<Rightarrow> bgp" where
  "add_roa d x s = upd_node d (\<lambda>n. n\<lparr>bn_roas := bn_roas n @ [x]\<rparr>) s"

definition set_rpki_invalid_drop :: "dev \<Rightarrow> bool \<Rightarrow> bgp \<Rightarrow> bgp" where
  "set_rpki_invalid_drop d b s = upd_node d (\<lambda>n. n\<lparr>bn_invalid_drop := b\<rparr>) s"

definition empty_route_map :: route_map where
  "empty_route_map = \<lparr>rm_prepend = [], rm_local_pref = None, rm_med = None, rm_communities = [], rm_additive = False\<rparr>"

definition add_route_map ::
  "dev \<Rightarrow> string \<Rightarrow> int list \<Rightarrow> int option \<Rightarrow> int option \<Rightarrow> string list \<Rightarrow> bool \<Rightarrow> bgp \<Rightarrow> bgp" where
  "add_route_map d name prepend lp med coms add_to s =
     upd_node d (\<lambda>n.
       (let rm0 = dget_or (bn_route_maps n) name empty_route_map;
            rm = rm0\<lparr>rm_prepend := (if prepend \<noteq> [] then prepend else rm_prepend rm0),
                     rm_local_pref := (if lp \<noteq> None then lp else rm_local_pref rm0),
                     rm_med := (if med \<noteq> None then med else rm_med rm0),
                     rm_communities := (if coms \<noteq> [] then coms else rm_communities rm0),
                     rm_additive := (if coms \<noteq> [] then add_to else rm_additive rm0)\<rparr>
        in n\<lparr>bn_route_maps := dset (bn_route_maps n) name rm\<rparr>)) s"

subsection \<open>Sessions\<close>

text \<open>\<open>_open_session\<close> up to its first sleep: the result says whether the opening goes on.\<close>

definition open_check :: "dev \<Rightarrow> dev \<Rightarrow> bgp \<Rightarrow> bgp \<times> bool" where
  "open_check d nb s =
     (case dget (nodes s) d of
        None \<Rightarrow> (s, False)
      | Some n \<Rightarrow>
          (case dget (bn_sessions n) nb of
             None \<Rightarrow> (s, False)
           | Some ses \<Rightarrow>
               (case dget (nodes s) nb of
                  None \<Rightarrow> (upd_node d (upd_session nb (\<lambda>x. x\<lparr>bs_state := BActive\<rparr>)) s, False)
                | Some nbr \<Rightarrow>
                    if \<not> bn_enabled nbr then (upd_node d (upd_session nb (\<lambda>x. x\<lparr>bs_state := BActive\<rparr>)) s, False)
                    else if bs_password ses \<noteq> (case dget (bn_sessions nbr) d of None \<Rightarrow> [] | Some x \<Rightarrow> bs_password x)
                    then (upd_node nb (upd_session d (\<lambda>x. x\<lparr>bs_state := BActive\<rparr>))
                           (upd_node d (upd_session nb (\<lambda>x. x\<lparr>bs_state := BActive\<rparr>)) s), False)
                    else (upd_node d (upd_session nb (\<lambda>x. x\<lparr>bs_state := BConnect\<rparr>)) s, True))))"

definition open_progress :: "dev \<Rightarrow> dev \<Rightarrow> session_state \<Rightarrow> bgp \<Rightarrow> bgp" where
  "open_progress d nb st s = upd_node d (upd_session nb (\<lambda>x. x\<lparr>bs_state := st\<rparr>)) s"

definition session_of :: "bgp \<Rightarrow> dev \<Rightarrow> dev \<Rightarrow> bgp_session option" where
  "session_of s d nb = (case dget (nodes s) d of None \<Rightarrow> None | Some n \<Rightarrow> dget (bn_sessions n) nb)"

definition open_establish :: "rat \<Rightarrow> dev \<Rightarrow> dev \<Rightarrow> bgp \<Rightarrow> bgp" where
  "open_establish now d nb s =
     (let bfd = (case (session_of s d nb, session_of s nb d) of
                   (Some x, Some y) \<Rightarrow> bs_bfd x \<and> bs_bfd y | _ \<Rightarrow> False);
          up = (\<lambda>x. x\<lparr>bs_state := BEstablished, bs_uptime := Some now, bs_bfd_up := (if bfd then True else bs_bfd_up x)\<rparr>)
      in upd_node nb (upd_session d up) (upd_node d (upd_session nb up) s))"

text \<open>\<open>_send_update\<close>: the routes themselves travel with the propagation.\<close>

definition send_update :: "filter_engine \<Rightarrow> dev \<Rightarrow> dev \<Rightarrow> bgp \<Rightarrow> bgp \<times> pyerr option" where
  "send_update fe d nb s =
     (case session_of s d nb of
        None \<Rightarrow> (s, None)
      | Some ses \<Rightarrow>
          if bs_state ses \<noteq> BEstablished then (s, None)
          else case compute_adverts fe (nodes s) d nb of
                 Inl e \<Rightarrow> (s, Some e)
               | Inr _ \<Rightarrow> propagate fe s)"

definition open_updates :: "filter_engine \<Rightarrow> dev \<Rightarrow> dev \<Rightarrow> bgp \<Rightarrow> bgp \<times> pyerr option" where
  "open_updates fe d nb s =
     (case send_update fe d nb s of
        (s1, Some e) \<Rightarrow> (s1, Some e)
      | (s1, None) \<Rightarrow> send_update fe nb d s1)"

fun update_neighbors :: "filter_engine \<Rightarrow> dev \<Rightarrow> dev list \<Rightarrow> bgp \<Rightarrow> bgp \<times> pyerr option" where
  "update_neighbors fe d [] s = (s, None)"
| "update_neighbors fe d (nb # nbs) s =
     (case send_update fe d nb s of
        (s1, Some e) \<Rightarrow> (s1, Some e)
      | (s1, None) \<Rightarrow> update_neighbors fe d nbs s1)"

definition advertise_network :: "filter_engine \<Rightarrow> dev \<Rightarrow> string \<Rightarrow> bgp \<Rightarrow> bgp \<times> pyerr option" where
  "advertise_network fe d net s =
     (let s1 = upd_node d (\<lambda>n. if net \<in> set (bn_networks n) then n else n\<lparr>bn_networks := bn_networks n @ [net]\<rparr>) s
      in update_neighbors fe d (dkeys (bn_sessions (bgp_node_of (nodes s1) d))) s1)"

definition lose_routes :: "bgp_session \<Rightarrow> dev \<Rightarrow> bgp_route list \<Rightarrow> bgp_route list" where
  "lose_routes ses b rib =
     (if bs_graceful_restart ses \<or> bs_llgr ses
      then List.map (\<lambda>r. if br_from r = b then r\<lparr>br_stale := True\<rparr> else r) rib
      else filter (\<lambda>r. br_from r \<noteq> b) rib)"

definition down_side :: "dev \<Rightarrow> dev \<Rightarrow> bgp \<Rightarrow> bgp \<times> bool" where
  "down_side a b s =
     (case dget (nodes s) a of
        None \<Rightarrow> (s, False)
      | Some n \<Rightarrow>
          (case dget (bn_sessions n) b of
             None \<Rightarrow> (s, False)
           | Some ses \<Rightarrow>
               if bs_state ses \<noteq> BEstablished then (s, False)
               else (let n1 = upd_session b (\<lambda>x. x\<lparr>bs_state := BIdle, bs_uptime := None,
                                bs_bfd_up := (if bs_bfd x \<and> bs_bfd_up x then False else bs_bfd_up x)\<rparr>) n;
                         n2 = recalc_node (n1\<lparr>bn_rib_in := lose_routes ses b (bn_rib_in n1)\<rparr>)
                     in (apply_rtbh a (s\<lparr>nodes := dset (nodes s) a n2\<rparr>), True))))"

definition session_down :: "filter_engine \<Rightarrow> dev \<Rightarrow> dev \<Rightarrow> bgp \<Rightarrow> bgp \<times> pyerr option" where
  "session_down fe a b s =
     (case down_side a b s of
        (s1, p1) \<Rightarrow> (case down_side b a s1 of
          (s2, p2) \<Rightarrow> if p1 \<or> p2 then propagate fe s2 else (s2, None)))"

text \<open>The task of \<open>_schedule_gr_expiry\<close> when its sleep ends.\<close>

definition gr_expire :: "dev \<Rightarrow> dev \<Rightarrow> bgp \<Rightarrow> bgp" where
  "gr_expire d nb s =
     (case session_of s d nb of
        None \<Rightarrow> s
      | Some ses \<Rightarrow>
          if bs_state ses = BEstablished then s
          else apply_rtbh d (upd_node d (\<lambda>n. recalc_node (n\<lparr>bn_rib_in := filter (\<lambda>r. br_from r \<noteq> nb) (bn_rib_in n)\<rparr>)) s))"

end
