(* ===== verification/BgpRoutes.thy ===== *)
theory BgpRoutes
  imports Bgp
begin

text \<open>
  Facts about \<open>class BgpEngine\<close>, first part: best paths, what a speaker advertises, how a neighbour's table
  takes in what it is sent, and origin validation.
\<close>

subsection \<open>Best paths\<close>

definition path_key :: "bgp_route \<Rightarrow> bool \<times> int \<times> nat \<times> int" where
  "path_key r = (br_stale r, - br_local_pref r, length (br_as_path r), br_med r)"

interpretation bgp_best: selection better_route path_key
  by unfold_locales (auto simp: better_route_def path_key_def less_prod_def)

definition best_step :: "(string, bgp_route) dict \<Rightarrow> bgp_route \<Rightarrow> (string, bgp_route) dict" where
  "best_step best r = (case dget best (prefix_text r) of
                   None \<Rightarrow> dset best (prefix_text r) r
                 | Some cur \<Rightarrow> if better_route r cur then dset best (prefix_text r) r else best)"

lemma best_paths_step: "best_paths best (r # rs) = best_paths (best_step best r) rs"
  by (simp add: best_step_def)

lemma dget_best_step:
  "dget (best_step best r) k =
     (if k = prefix_text r
      then (case dget best k of None \<Rightarrow> Some r | Some cur \<Rightarrow> Some (if better_route r cur then r else cur))
      else dget best k)"
  by (auto simp: best_step_def split: option.splits)

lemma dget_best_paths:
  "dget (best_paths best rs) k = pick better_route (dget best k) (filter (\<lambda>r. prefix_text r = k) rs)"
proof (induction rs arbitrary: best)
  case (Cons r rs)
  have "dget (best_paths best (r # rs)) k = dget (best_paths (best_step best r) rs) k"
    by (simp only: best_paths_step)
  then show ?case by (simp add: Cons.IH dget_best_step split: option.split)
qed simp

lemma best_paths_ok: "dict_ok best \<Longrightarrow> dict_ok (best_paths best rs)"
  by (induction best rs rule: best_paths.induct) (auto split: option.splits)

lemma loc_rib_member:
  "r \<in> set (bn_loc_rib (recalc_node n)) \<longleftrightarrow> (\<exists>k. dget (best_paths [] (bn_rib_in n)) k = Some r)"
  by (simp add: recalc_node_def dvals_iff best_paths_ok)

text \<open>C11. Best-path selection: after a recalculation the table of best paths holds, for every prefix some
  neighbour announced, exactly one of the announced routes, and none of the others for that prefix is
  better (not stale first, then the higher local preference, the shorter AS path, the lower MED); of equal
  routes the one received first wins.\<close>

theorem best_path_selected:
  "(\<forall>r\<in>set (bn_loc_rib (recalc_node n)). r \<in> set (bn_rib_in n) \<and>
      (\<forall>x\<in>set (bn_rib_in n). prefix_text x = prefix_text r \<longrightarrow> path_key r \<le> path_key x)) \<and>
   (\<forall>x\<in>set (bn_rib_in n). \<exists>!r. r \<in> set (bn_loc_rib (recalc_node n)) \<and> prefix_text r = prefix_text x) \<and>
   (\<forall>x rest. bn_rib_in n = x # rest \<and> (\<forall>y\<in>set rest. prefix_text y = prefix_text x \<longrightarrow> path_key x \<le> path_key y) \<longrightarrow>
      x \<in> set (bn_loc_rib (recalc_node n)))"
proof -
  let ?same = "\<lambda>k. filter (\<lambda>r. prefix_text r = k) (bn_rib_in n)"
  have best: "dget (best_paths [] (bn_rib_in n)) k = pick better_route None (?same k)" for k
    by (simp add: dget_best_paths)
  have mem: "r \<in> set (bn_loc_rib (recalc_node n)) \<longleftrightarrow> pick better_route None (?same (prefix_text r)) = Some r" for r
  proof
    assume "r \<in> set (bn_loc_rib (recalc_node n))"
    then obtain k where k: "pick better_route None (?same k) = Some r" by (auto simp: loc_rib_member best)
    moreover from k have "prefix_text r = k" by (auto dest: pick_mem)
    ultimately show "pick better_route None (?same (prefix_text r)) = Some r" by simp
  qed (auto simp: loc_rib_member best)
  have one: "r \<in> set (bn_rib_in n) \<and> (\<forall>x\<in>set (bn_rib_in n). prefix_text x = prefix_text r \<longrightarrow> path_key r \<le> path_key x)"
    if "r \<in> set (bn_loc_rib (recalc_node n))" for r
    using that pick_mem [of better_route "?same (prefix_text r)" r]
      bgp_best.pick_least [of "?same (prefix_text r)" r] by (auto simp: mem)
  have ex: "\<exists>!r. r \<in> set (bn_loc_rib (recalc_node n)) \<and> prefix_text r = prefix_text x" if "x \<in> set (bn_rib_in n)" for x
  proof -
    have "pick better_route None (?same (prefix_text x)) \<noteq> None" using that by (auto simp: filter_empty_conv)
    then obtain r where r: "pick better_route None (?same (prefix_text x)) = Some r" by blast
    then have "prefix_text r = prefix_text x" by (auto dest: pick_mem)
    with r show ?thesis by (intro ex1I [of _ r]) (auto simp: mem)
  qed
  have first: "x \<in> set (bn_loc_rib (recalc_node n))"
    if "bn_rib_in n = x # rest" "\<forall>y\<in>set rest. prefix_text y = prefix_text x \<longrightarrow> path_key x \<le> path_key y" for x rest
    using that bgp_best.pick_first [of "filter (\<lambda>r. prefix_text r = prefix_text x) rest" x] by (simp add: mem)
  from one ex first show ?thesis by blast
qed

subsection \<open>What a speaker advertises\<close>

lemma apply_route_map_key [simp]: "route_key (apply_route_map n name r) = route_key r"
  by (simp add: apply_route_map_def route_key_def split: option.splits)

lemma outbound_members:
  "r \<in> set (outbound fe d n ses out) \<Longrightarrow>
   \<exists>c\<in>set out. route_key r = route_key c \<and> (\<not> bs_send_community ses \<longrightarrow> br_communities r = []) \<and>
     (bs_route_map_out ses = [] \<longrightarrow> br_as_path r = br_as_path c) \<and>
     (bs_prefix_list_out ses \<noteq> [] \<longrightarrow> check_prefix_list fe d (bs_prefix_list_out ses) (br_prefix r) (br_len r))"
  by (auto simp: outbound_def Let_def route_key_def apply_route_map_def split: if_splits option.splits)

text \<open>C13. Whatever a speaker advertises to a neighbour is one of its own networks or a best path learned from
  another neighbour; a path learned by iBGP goes to an iBGP neighbour only when one of the two is a route
  reflector client. No community is sent unless that is enabled, the outbound prefix list holds, and
  without an outbound route map an eBGP neighbour sees the speaker's own AS, or the confederation's, in
  front, and behind the confederation's no member AS.\<close>

theorem adverts_follow_policy:
  assumes "compute_adverts fe ns d nb = Inr out" "dget ns d = Some n" "dget (bn_sessions n) nb = Some ses" "r \<in> set out"
  shows "((\<exists>net\<in>set (bn_networks n). net_prefix net = Inr (route_key r)) \<or>
          (\<exists>lr\<in>set (bn_loc_rib n). route_key r = route_key lr \<and> br_from lr \<noteq> [] \<and> br_from lr \<noteq> nb \<and>
             (case dget (bn_sessions n) (br_from lr) of
                None \<Rightarrow> True
              | Some src \<Rightarrow> Some (bs_remote_as src) = bn_local_as n \<and> Some (bs_remote_as ses) = bn_local_as n \<longrightarrow>
                            bs_reflector_client ses \<or> bs_reflector_client src))) \<and>
    (\<not> bs_send_community ses \<longrightarrow> br_communities r = []) \<and>
    (bs_prefix_list_out ses \<noteq> [] \<longrightarrow> check_prefix_list fe d (bs_prefix_list_out ses) (br_prefix r) (br_len r)) \<and>
    (bs_route_map_out ses = [] \<and> leaving_confederation n ses \<longrightarrow>
       (\<exists>rest. br_as_path r = confed_path n @ rest \<and> set rest \<inter> (set (own_as n) \<union> set (bn_confed_peers n)) = {})) \<and>
    (bs_route_map_out ses = [] \<and> is_ebgp n ses \<and> \<not> leaving_confederation n ses \<longrightarrow>
       (\<exists>rest. br_as_path r = own_as n @ rest))"
proof -
  from assms(1-3) obtain cands where c: "advert_candidates d n ses nb = Inr cands" and out: "out = outbound fe d n ses cands"
    by (cases "advert_candidates d n ses nb") (auto simp: compute_adverts_def)
  from assms(4) out obtain c where cm: "c \<in> set cands" and rc: "route_key r = route_key c"
      "\<not> bs_send_community ses \<longrightarrow> br_communities r = []" "bs_route_map_out ses = [] \<longrightarrow> br_as_path r = br_as_path c"
      "bs_prefix_list_out ses \<noteq> [] \<longrightarrow> check_prefix_list fe d (bs_prefix_list_out ses) (br_prefix r) (br_len r)"
    using outbound_members by blast
  from c obtain nets where nets: "res_map net_prefix (bn_networks n) = Inr nets"
    and cands: "cands = List.map (own_route d n ses) nets @ List.map (transit_route d n ses) (filter (readvertise n ses nb) (bn_loc_rib n))"
    by (cases "res_map net_prefix (bn_networks n)") (auto simp: advert_candidates_def)
  from cm cands consider (own) pl where "pl \<in> set nets" "c = own_route d n ses pl"
    | (transit) lr where "lr \<in> set (bn_loc_rib n)" "readvertise n ses nb lr" "c = transit_route d n ses lr"
    by auto
  then show ?thesis
  proof cases
    case own
    then have "route_key c = pl" by (simp add: own_route_def route_key_def)
    moreover obtain x where "x \<in> set (bn_networks n)" "net_prefix x = Inr pl" using res_map_mem [OF nets own(1)] by blast
    ultimately show ?thesis using rc own(2) by (auto simp: own_route_def)
  next
    case transit
    have "br_as_path c = transit_path n ses (br_as_path lr)" "route_key c = route_key lr"
      using transit(3) by (simp_all add: transit_route_def route_key_def)
    moreover have "br_from lr \<noteq> []" "br_from lr \<noteq> nb" using transit(2) by (simp_all add: readvertise_def)
    moreover have "case dget (bn_sessions n) (br_from lr) of None \<Rightarrow> True
       | Some src \<Rightarrow> Some (bs_remote_as src) = bn_local_as n \<and> Some (bs_remote_as ses) = bn_local_as n \<longrightarrow>
                     bs_reflector_client ses \<or> bs_reflector_client src"
      using transit(2) by (cases "bn_local_as n") (auto simp: readvertise_def is_ebgp_def Let_def split: option.splits)
    ultimately show ?thesis
      using rc transit(1) by (auto simp: transit_path_def own_as_def split: option.splits)
  qed
qed

subsection \<open>What a neighbour's table becomes\<close>

definition rib_id :: "bgp_route \<Rightarrow> dev \<times> ip \<times> int" where
  "rib_id r = (br_from r, route_key r)"

definition rib_unique :: "bgp_route list \<Rightarrow> bool" where
  "rib_unique rib \<longleftrightarrow> distinct (List.map rib_id rib)"

text \<open>The table as the set of announcements it stands for: who announced what, with which attributes.\<close>

definition announced :: "bgp_route list \<Rightarrow> dev \<Rightarrow> ip \<times> int \<Rightarrow> bgp_route option" where
  "announced rib d k = find (\<lambda>r. rib_id r = (d, k)) rib"

definition attributes :: "bgp_route \<Rightarrow> int list \<times> int \<times> int \<times> string list \<times> rpki \<times> bool" where
  "attributes r = (br_as_path r, br_local_pref r, br_med r, br_communities r, br_rpki r, br_stale r)"

lemma announced_mem: "announced rib d k = Some x \<Longrightarrow> x \<in> set rib \<and> rib_id x = (d, k)"
  by (auto simp: announced_def dest: find_SomeD)

lemma announced_unique: "rib_unique rib \<Longrightarrow> x \<in> set rib \<Longrightarrow> announced rib (br_from x) (route_key x) = Some x"
proof (induction rib)
  case (Cons y rib)
  then show ?case by (cases "x = y") (auto simp: rib_unique_def announced_def rib_id_def)
qed simp

lemma announced_None: "announced rib d k = None \<longleftrightarrow> (d, k) \<notin> rib_id ` set rib"
  by (force simp: announced_def find_None_iff)

lemma existing_announced:
  "rib_unique xs \<Longrightarrow> (\<And>x. x \<in> set xs \<Longrightarrow> br_from x = d \<Longrightarrow> dget e (route_key x) = None) \<Longrightarrow>
   dget (existing_routes d xs e) k = (case announced xs d k of None \<Rightarrow> dget e k | Some x \<Rightarrow> Some x)"
proof (induction xs arbitrary: e)
  case (Cons x xs)
  let ?e = "if br_from x = d then dset e (route_key x) x else e"
  have fresh: "dget ?e (route_key y) = None" if "y \<in> set xs" "br_from y = d" for y
    using that Cons.prems by (auto simp: rib_unique_def rib_id_def image_iff split: if_splits)
  have "rib_unique xs" using Cons.prems by (simp add: rib_unique_def)
  note ih = Cons.IH [OF this fresh]
  show ?case
  proof (cases "rib_id x = (d, k)")
    case True
    then have "announced xs d k = None" using Cons.prems by (simp add: rib_unique_def announced_None)
    with ih True show ?thesis by (simp add: announced_def rib_id_def)
  next
    case False
    with ih show ?thesis by (auto simp: announced_def rib_id_def split: option.split)
  qed
qed (simp add: announced_def)

lemma existing_ok: "dict_ok e \<Longrightarrow> dict_ok (existing_routes d xs e)"
  by (induction d xs e rule: existing_routes.induct) auto

lemma withdraw_eq:
  "withdraw_routes w e rib =
     (fold remove1 (List.map snd (filter (\<lambda>(k, x). dget w k = None) e)) rib, \<exists>(k, x)\<in>set e. dget w k = None)"
  by (induction w e rib rule: withdraw_routes.induct) auto

lemma fold_remove1: "distinct rib \<Longrightarrow> fold remove1 xs rib = filter (\<lambda>x. x \<notin> set xs) rib"
proof (induction xs arbitrary: rib)
  case (Cons x xs)
  have "fold remove1 (x # xs) rib = filter (\<lambda>y. y \<notin> set xs) (remove1 x rib)"
    using Cons by (simp add: distinct_remove1)
  also have "remove1 x rib = filter (\<lambda>y. x \<noteq> y) rib" using Cons.prems by (simp add: distinct_remove1_removeAll removeAll_filter_not_eq)
  finally show ?case by (simp, intro filter_cong) auto
qed simp

lemma modify_first_unique:
  "distinct (List.map g xs) \<Longrightarrow> (\<And>x. x \<in> set xs \<Longrightarrow> P x \<longleftrightarrow> g x = c) \<Longrightarrow> modify_first P f xs = List.map (\<lambda>x. if P x then f x else x) xs"
proof (induction xs)
  case (Cons x xs)
  show ?case
  proof (cases "P x")
    case True
    then have "g y \<noteq> c" if "y \<in> set xs" for y using that Cons.prems by (auto simp: image_iff)
    then have "\<not> P y" if "y \<in> set xs" for y using that Cons.prems(2) by simp
    then have "List.map (\<lambda>x. if P x then f x else x) xs = xs" by (simp add: map_idI)
    with True show ?thesis by simp
  next
    case False
    with Cons show ?thesis by simp
  qed
qed simp

lemma modify_last_unique:
  assumes "distinct (List.map g xs)" "\<And>x. x \<in> set xs \<Longrightarrow> P x \<longleftrightarrow> g x = c"
  shows "modify_last P f xs = List.map (\<lambda>x. if P x then f x else x) xs"
proof -
  have "distinct (List.map g (rev xs))" using assms(1) by (simp flip: rev_map)
  then have "modify_first P f (rev xs) = List.map (\<lambda>x. if P x then f x else x) (rev xs)"
    using assms(2) by (intro modify_first_unique) auto
  then show ?thesis by (simp add: modify_last_def rev_map)
qed

definition updated :: "dev \<Rightarrow> (ip \<times> int, bgp_route) dict \<Rightarrow> bgp_route \<Rightarrow> bgp_route" where
  "updated d w x =
     (if br_from x = d
      then (case dget w (route_key x) of
              None \<Rightarrow> x | Some rr \<Rightarrow> if route_differs x rr then refresh_route rr x else x)
      else x)"

definition announcements :: "dev \<Rightarrow> (ip \<times> int, bgp_route) dict \<Rightarrow> bool" where
  "announcements d w \<longleftrightarrow> dict_ok w \<and> (\<forall>(k, rr)\<in>set w. br_from rr = d \<and> route_key rr = k \<and> \<not> br_stale rr)"

lemma refresh_id [simp]: "rib_id (refresh_route rr x) = rib_id x" "br_from (refresh_route rr x) = br_from x"
  "route_key (refresh_route rr x) = route_key x"
  by (simp_all add: refresh_route_def rib_id_def route_key_def)

lemma updated_id [simp]: "rib_id (updated d w x) = rib_id x" "br_from (updated d w x) = br_from x"
  "route_key (updated d w x) = route_key x"
  by (auto simp: updated_def split: option.splits)

lemma map_updated_id: "List.map (rib_id \<circ> updated d w) xs = List.map rib_id xs"
  by simp

lemma store_eq:
  assumes "announcements d w" "rib_unique rib"
    "\<And>x. x \<in> set rib \<Longrightarrow> br_from x = d \<Longrightarrow> dget w (route_key x) \<noteq> None \<Longrightarrow> dget e (route_key x) = Some x"
    "\<And>k. dget w k \<noteq> None \<Longrightarrow> dget e k \<noteq> None \<Longrightarrow> (d, k) \<in> rib_id ` set rib"
  shows "store_routes d e w rib =
     (List.map (updated d w) rib @ List.map snd (filter (\<lambda>(k, _). dget e k = None) w),
      \<exists>(k, rr)\<in>set w. case dget e k of None \<Rightarrow> True | Some cur \<Rightarrow> route_differs cur rr)"
  using assms
proof (induction w arbitrary: rib)
  case Nil
  have "List.map (updated d []) rib = rib" by (simp add: updated_def map_idI)
  then show ?case by simp
next
  case (Cons kr w)
  obtain k rr where kr: "kr = (k, rr)" by (cases kr)
  have w: "announcements d w" and rr: "br_from rr = d" "route_key rr = k" "\<not> br_stale rr" and k: "dget w k = None"
    using Cons.prems(1) by (auto simp: kr announcements_def dict_ok_def dget_None_iff dkeys_def)
  show ?case
  proof (cases "dget e k")
    case None
    have new: "(d, k) \<notin> rib_id ` set rib"
    proof
      assume "(d, k) \<in> rib_id ` set rib"
      then obtain x where "x \<in> set rib" "br_from x = d" "route_key x = k" by (auto simp: rib_id_def)
      with Cons.prems(3) [of x] None kr show False by simp
    qed
    have "rib_unique (rib @ [rr])" using Cons.prems(2) new rr by (simp add: rib_unique_def rib_id_def image_iff)
    then have ih: "store_routes d e w (rib @ [rr]) = (List.map (updated d w) (rib @ [rr]) @ List.map snd (filter (\<lambda>(k, _). dget e k = None) w),
      \<exists>(k, rr)\<in>set w. case dget e k of None \<Rightarrow> True | Some cur \<Rightarrow> route_differs cur rr)"
      using Cons.prems(3,4) k rr by (intro Cons.IH [OF w]) (auto simp: kr rib_id_def split: if_splits)
    have "updated d w rr = rr" using rr k by (simp add: updated_def)
    moreover have "updated d w x = updated d (kr # w) x" if "x \<in> set rib" for x
      using that new k by (auto simp: updated_def kr rib_id_def image_iff)
    ultimately show ?thesis using ih None by (simp add: kr)
  next
    case (Some cur)
    have "(d, k) \<in> rib_id ` set rib" using Cons.prems(4) [of k] Some by (simp add: kr)
    then obtain c where c: "c \<in> set rib" "br_from c = d" "route_key c = k" by (auto simp: rib_id_def)
    then have cur: "cur = c" using Cons.prems(3) [of c] Some by (simp add: kr)
    let ?P = "\<lambda>x. br_from x = d \<and> route_key x = k"
    have P: "?P x \<longleftrightarrow> x = c" if "x \<in> set rib" for x
    proof
      assume px: "?P x"
      have "announced rib (br_from x) (route_key x) = Some x" "announced rib (br_from c) (route_key c) = Some c"
        by (rule announced_unique [OF Cons.prems(2) that], rule announced_unique [OF Cons.prems(2) c(1)])
      then show "x = c" by (simp only: px c option.inject)
    qed (simp add: c)
    define rib1 where "rib1 = (if route_differs cur rr then modify_last ?P (refresh_route rr) rib else rib)"
    have rib1: "rib1 = List.map (\<lambda>x. if x = c \<and> route_differs c rr then refresh_route rr x else x) rib"
    proof (cases "route_differs cur rr")
      case True
      have "modify_last ?P (refresh_route rr) rib = List.map (\<lambda>x. if ?P x then refresh_route rr x else x) rib"
        using Cons.prems(2) by (intro modify_last_unique [of rib_id]) (auto simp: rib_unique_def rib_id_def)
      with True P cur show ?thesis by (simp add: rib1_def)
    qed (simp add: rib1_def cur)
    have ids: "List.map rib_id rib1 = List.map rib_id rib" by (simp add: rib1)
    then have u1: "rib_unique rib1" using Cons.prems(2) by (simp add: rib_unique_def)
    have same: "x \<in> set rib1 \<Longrightarrow> br_from x = d \<Longrightarrow> route_key x \<noteq> k \<Longrightarrow> x \<in> set rib" for x
      using c by (auto simp: rib1 split: if_splits)
    have ids': "rib_id ` set rib1 = rib_id ` set rib" using ids by (metis set_map)
    have ih: "store_routes d e w rib1 = (List.map (updated d w) rib1 @ List.map snd (filter (\<lambda>(k, _). dget e k = None) w),
      \<exists>(k, rr)\<in>set w. case dget e k of None \<Rightarrow> True | Some cur \<Rightarrow> route_differs cur rr)"
    proof (rule Cons.IH [OF w u1])
      fix x
      assume x: "x \<in> set rib1" "br_from x = d" "dget w (route_key x) \<noteq> None"
      then have "route_key x \<noteq> k" using k by auto
      with same x Cons.prems(3) [of x] show "dget e (route_key x) = Some x" by (simp add: kr)
    next
      fix k'
      assume "dget w k' \<noteq> None" "dget e k' \<noteq> None"
      then show "(d, k') \<in> rib_id ` set rib1" using Cons.prems(4) [of k'] by (simp add: ids' kr)
    qed
    have "updated d w (if x = c \<and> route_differs c rr then refresh_route rr x else x) = updated d (kr # w) x"
      if "x \<in> set rib" for x
      using P [OF that] k by (auto simp: updated_def kr)
    then have upd: "List.map (updated d w) rib1 = List.map (updated d (kr # w)) rib" by (simp add: rib1 comp_def)
    show ?thesis
    proof (cases "route_differs cur rr")
      case True
      with ih upd Some show ?thesis by (simp add: kr rib1_def)
    next
      case False
      with ih upd Some show ?thesis by (simp add: kr rib1_def)
    qed
  qed
qed

lemma dget_existing: "rib_unique rib \<Longrightarrow> dget (existing_routes d rib []) k = announced rib d k"
  by (simp add: existing_announced split: option.split)

lemma withdrawn_eq:
  assumes "rib_unique rib"
  shows "fst (withdraw_routes w (existing_routes d rib []) rib) =
           filter (\<lambda>x. br_from x = d \<longrightarrow> dget w (route_key x) \<noteq> None) rib"
    "snd (withdraw_routes w (existing_routes d rib []) rib) \<longleftrightarrow> (\<exists>x\<in>set rib. br_from x = d \<and> dget w (route_key x) = None)"
proof -
  let ?e = "existing_routes d rib []"
  have e: "(k, x) \<in> set ?e \<longleftrightarrow> announced rib d k = Some x" for k x
    using dget_existing [OF assms, of d k] dget_SomeD [of ?e k x] dget_in_set [OF existing_ok, of "[]" k x d rib] by auto
  have entry: "announced rib d k = Some x \<longleftrightarrow> x \<in> set rib \<and> br_from x = d \<and> route_key x = k" for k x
    using announced_unique [OF assms, of x] by (auto dest: announced_mem simp: rib_id_def)
  have "distinct rib" using assms by (simp add: rib_unique_def distinct_map)
  moreover have "x \<in> set (List.map snd (filter (\<lambda>(k, x). dget w k = None) ?e)) \<longleftrightarrow> br_from x = d \<and> dget w (route_key x) = None"
    if "x \<in> set rib" for x
  proof -
    have "x \<in> set (List.map snd (filter (\<lambda>(k, x). dget w k = None) ?e)) \<longleftrightarrow> (\<exists>k. (k, x) \<in> set ?e \<and> dget w k = None)"
      by force
    then show ?thesis using that by (auto simp: e entry)
  qed
  ultimately show "fst (withdraw_routes w ?e rib) = filter (\<lambda>x. br_from x = d \<longrightarrow> dget w (route_key x) \<noteq> None) rib"
    by (simp add: withdraw_eq fold_remove1 cong: filter_cong)
  show "snd (withdraw_routes w ?e rib) \<longleftrightarrow> (\<exists>x\<in>set rib. br_from x = d \<and> dget w (route_key x) = None)"
  proof -
    have "snd (withdraw_routes w ?e rib) \<longleftrightarrow> (\<exists>k x. (k, x) \<in> set ?e \<and> dget w k = None)"
      by (force simp: withdraw_eq)
    then have "snd (withdraw_routes w ?e rib) \<longleftrightarrow> (\<exists>k x. x \<in> set rib \<and> br_from x = d \<and> route_key x = k \<and> dget w k = None)"
      by (simp only: e entry conj_assoc)
    then show ?thesis by blast
  qed
qed

lemma merge_eq:
  assumes "announcements d w" "rib_unique rib"
  shows "fst (merge_routes d w rib) =
      List.map (updated d w) (filter (\<lambda>x. br_from x = d \<longrightarrow> dget w (route_key x) \<noteq> None) rib) @
      List.map snd (filter (\<lambda>(k, _). announced rib d k = None) w)"
    "snd (merge_routes d w rib) \<longleftrightarrow>
      (\<exists>x\<in>set rib. br_from x = d \<and> dget w (route_key x) = None) \<or>
      (\<exists>(k, rr)\<in>set w. case announced rib d k of None \<Rightarrow> True | Some cur \<Rightarrow> route_differs cur rr)"
proof -
  let ?e = "existing_routes d rib []" and ?rib = "filter (\<lambda>x. br_from x = d \<longrightarrow> dget w (route_key x) \<noteq> None) rib"
  have "rib_unique ?rib" using assms(2) by (simp add: rib_unique_def distinct_map_filter)
  moreover have "(d, k) \<in> rib_id ` set ?rib" if "dget w k \<noteq> None" "dget ?e k \<noteq> None" for k
    using that announced_mem [of rib d k] by (force simp: dget_existing [OF assms(2)] rib_id_def)
  ultimately have "store_routes d ?e w ?rib =
     (List.map (updated d w) ?rib @ List.map snd (filter (\<lambda>(k, _). dget ?e k = None) w),
      \<exists>(k, rr)\<in>set w. case dget ?e k of None \<Rightarrow> True | Some cur \<Rightarrow> route_differs cur rr)"
    using announced_unique [OF assms(2)] by (intro store_eq [OF assms(1)]) (auto simp: dget_existing [OF assms(2)])
  then have store: "store_routes d ?e w ?rib =
     (List.map (updated d w) ?rib @ List.map snd (filter (\<lambda>(k, _). announced rib d k = None) w),
      \<exists>(k, rr)\<in>set w. case announced rib d k of None \<Rightarrow> True | Some cur \<Rightarrow> route_differs cur rr)"
    by (simp only: dget_existing [OF assms(2)])
  note wd = withdrawn_eq [OF assms(2), of w d]
  show "fst (merge_routes d w rib) = List.map (updated d w) ?rib @ List.map snd (filter (\<lambda>(k, _). announced rib d k = None) w)"
    using wd(1) store by (simp add: merge_routes_def Let_def split_beta)
  show "snd (merge_routes d w rib) \<longleftrightarrow>
      (\<exists>x\<in>set rib. br_from x = d \<and> dget w (route_key x) = None) \<or>
      (\<exists>(k, rr)\<in>set w. case announced rib d k of None \<Rightarrow> True | Some cur \<Rightarrow> route_differs cur rr)"
    using wd store by (simp add: merge_routes_def Let_def split_beta)
qed

lemma not_differs: "\<not> route_differs cur rr \<Longrightarrow> \<not> br_stale rr \<Longrightarrow> attributes cur = attributes rr"
  by (simp add: route_differs_def attributes_def)

lemma attributes_refresh: "\<not> br_stale rr \<Longrightarrow> attributes (refresh_route rr x) = attributes rr"
  by (simp add: refresh_route_def attributes_def)

lemma announced_append: "announced (xs @ ys) d k = (case announced xs d k of None \<Rightarrow> announced ys d k | Some x \<Rightarrow> Some x)"
  by (induction xs) (auto simp: announced_def)

lemma announced_map: "(\<And>x. rib_id (f x) = rib_id x) \<Longrightarrow> announced (List.map f xs) d k = map_option f (announced xs d k)"
  by (induction xs) (auto simp: announced_def)

lemma announced_filter:
  "(\<And>x. rib_id x = (d, k) \<Longrightarrow> P x \<longleftrightarrow> b) \<Longrightarrow> announced (filter P xs) d k = (if b then announced xs d k else None)"
  by (induction xs) (auto simp: announced_def)

lemma announced_new:
  "announcements d w \<Longrightarrow> announced (List.map snd (filter (\<lambda>(k, _). P k) w)) d' k =
     (if d' = d \<and> P k then dget w k else None)"
proof (induction w)
  case (Cons kr w)
  then have "announcements d w" by (simp add: announcements_def dict_ok_def)
  with Cons show ?case by (cases kr) (auto simp: announcements_def announced_def rib_id_def)
qed (simp add: announced_def)

lemma merge_announced:
  assumes "announcements d w" "rib_unique rib"
  shows "map_option attributes (announced (fst (merge_routes d w rib)) d' k) =
           map_option attributes (if d' = d then dget w k else announced rib d' k)"
proof -
  let ?kept = "List.map (updated d w) (filter (\<lambda>x. br_from x = d \<longrightarrow> dget w (route_key x) \<noteq> None) rib)"
    and ?new = "List.map snd (filter (\<lambda>(k, _). announced rib d k = None) w)"
  have kept: "announced ?kept d' k =
      map_option (updated d w) (if d' = d \<longrightarrow> dget w k \<noteq> None then announced rib d' k else None)"
  proof -
    have "announced (filter (\<lambda>x. br_from x = d \<longrightarrow> dget w (route_key x) \<noteq> None) rib) d' k =
        (if d' = d \<longrightarrow> dget w k \<noteq> None then announced rib d' k else None)"
      by (rule announced_filter) (auto simp: rib_id_def)
    then show ?thesis by (simp only: announced_map updated_id)
  qed
  have new: "announced ?new d' k = (if d' = d \<and> announced rib d k = None then dget w k else None)"
    by (rule announced_new [OF assms(1)])
  have result: "announced (fst (merge_routes d w rib)) d' k =
      (case map_option (updated d w) (if d' = d \<longrightarrow> dget w k \<noteq> None then announced rib d' k else None) of
         None \<Rightarrow> (if d' = d \<and> announced rib d k = None then dget w k else None)
       | Some x \<Rightarrow> Some x)"
    by (simp only: merge_eq(1) [OF assms] announced_append kept new)
  show ?thesis
  proof (cases "d' = d")
    case True
    show ?thesis
    proof (cases "dget w k")
      case None
      with True result show ?thesis by simp
    next
      case (Some rr)
      then have "br_from rr = d" "\<not> br_stale rr" using assms(1) dget_SomeD [OF Some] by (auto simp: announcements_def)
      moreover have "x \<in> set rib \<and> rib_id x = (d, k)" if "announced rib d k = Some x" for x
        using that by (rule announced_mem)
      ultimately have "attributes (updated d w x) = attributes rr" if "announced rib d k = Some x" for x
        using that Some not_differs [of x rr] by (force simp: updated_def rib_id_def attributes_refresh)
      with True Some result show ?thesis
        by (cases "announced rib d k") simp_all
    qed
  next
    case False
    have "updated d w x = x" if "announced rib d' k = Some x" for x
      using announced_mem [OF that] False by (simp add: updated_def rib_id_def)
    with False result show ?thesis
      by (cases "announced rib d' k") simp_all
  qed
qed

lemma announced_cover: "rib_unique rib \<longleftrightarrow> distinct (List.map rib_id rib)"
  by (simp add: rib_unique_def)

lemma new_ids:
  "announcements d w \<Longrightarrow> List.map (rib_id \<circ> snd) (filter (\<lambda>(k, _). P k) w) = List.map (\<lambda>k. (d, k)) (filter P (dkeys w))"
  by (induction w) (auto simp: announcements_def dkeys_def rib_id_def dict_ok_def)

lemma merge_unique:
  assumes "announcements d w" "rib_unique rib"
  shows "rib_unique (fst (merge_routes d w rib))"
proof -
  have "distinct (List.map (rib_id \<circ> snd) (filter (\<lambda>(k, _). announced rib d k = None) w))"
    using assms(1) by (simp add: new_ids distinct_map inj_on_def) (simp add: announcements_def dict_ok_def dkeys_def)
  moreover have "rib_id ` set rib \<inter> set (List.map (rib_id \<circ> snd) (filter (\<lambda>(k, _). announced rib d k = None) w)) = {}"
    unfolding new_ids [OF assms(1)] by (auto simp: announced_None)
  ultimately show ?thesis
    using assms(2) by (auto simp: merge_eq(1) [OF assms] rib_unique_def distinct_map_filter comp_def)
qed

lemma merge_unchanged:
  assumes "announcements d w" "rib_unique rib" "\<not> snd (merge_routes d w rib)"
  shows "fst (merge_routes d w rib) = rib"
proof -
  from assms(3) have keep: "x \<in> set rib \<Longrightarrow> br_from x = d \<Longrightarrow> dget w (route_key x) \<noteq> None"
    and same: "(k, rr) \<in> set w \<Longrightarrow> \<exists>x. announced rib d k = Some x \<and> \<not> route_differs x rr" for x k rr
    unfolding merge_eq(2) [OF assms(1,2)] by (fastforce split: option.splits)+
  have "updated d w x = x" if x: "x \<in> set rib" for x
  proof (cases "br_from x = d \<and> dget w (route_key x) \<noteq> None")
    case True
    then obtain rr where rr: "dget w (route_key x) = Some rr" by auto
    then obtain y where "announced rib d (route_key x) = Some y" "\<not> route_differs y rr"
      using same [OF dget_SomeD [OF rr]] by blast
    moreover have "announced rib d (route_key x) = Some x"
      using announced_unique [OF assms(2) x] True by simp
    ultimately show ?thesis using rr by (simp add: updated_def)
  qed (auto simp: updated_def)
  moreover have "filter (\<lambda>x. br_from x = d \<longrightarrow> dget w (route_key x) \<noteq> None) rib = rib"
    using keep by (auto simp: filter_id_conv)
  moreover have "filter (\<lambda>(k, _). announced rib d k = None) w = []"
    using same by (fastforce simp: filter_empty_conv)
  ultimately show ?thesis by (simp add: merge_eq(1) [OF assms(1,2)] map_idI)
qed

end
