(* ===== verification/BgpPropagation.thy ===== *)
theory BgpPropagation
  imports BgpRoutes
begin

text \<open>
  Facts about \<open>class BgpEngine\<close>, second part: one exchange refines \<open>the receiver's table stands for what it
  accepts\<close>, a propagation that stops has reached a fixed point, and some never stop.
\<close>

subsection \<open>One exchange\<close>

lemma inbound_stored:
  "inbound fe d n ses nb nbr r = Inr (Some rr) \<Longrightarrow> br_from rr = d \<and> \<not> br_stale rr"
  by (auto simp: inbound_def Let_def received_route_def apply_route_map_def res_bind_Inr split: if_splits option.splits)

lemma wanted_announcements:
  "wanted_routes fe d n ses nb nbr rs w = Inr w' \<Longrightarrow> announcements d w \<Longrightarrow> announcements d w'"
proof (induction rs arbitrary: w)
  case (Cons r rs)
  then obtain x where x: "inbound fe d n ses nb nbr r = Inr x"
    and rest: "wanted_routes fe d n ses nb nbr rs (case x of None \<Rightarrow> w | Some rr \<Rightarrow> dset w (route_key rr) rr) = Inr w'"
    by (auto simp: res_bind_Inr)
  have "announcements d (case x of None \<Rightarrow> w | Some rr \<Rightarrow> dset w (route_key rr) rr)"
  proof (cases x)
    case (Some rr)
    then have "br_from rr = d" "\<not> br_stale rr" using x inbound_stored by blast+
    with Some Cons.prems(2) show ?thesis
      using set_dset_subset [of w "route_key rr" rr] by (auto simp: announcements_def)
  qed (simp add: Cons.prems(2))
  from Cons.IH [OF rest this] show ?case .
qed simp

text \<open>The abstract table: for every speaker and prefix, the attributes last announced.\<close>

definition view :: "bgp_route list \<Rightarrow> dev \<Rightarrow> ip \<times> int \<Rightarrow> (int list \<times> int \<times> int \<times> string list \<times> rpki \<times> bool) option" where
  "view rib d k = map_option attributes (announced rib d k)"

definition bgp_good :: "bgp_nodes \<Rightarrow> bool" where
  "bgp_good ns \<longleftrightarrow> (\<forall>d n. dget ns d = Some n \<longrightarrow> rib_unique (bn_rib_in n))"

lemma announcements_Nil [simp]: "announcements d []"
  by (simp add: announcements_def)

lemma exchange_runs:
  assumes "exchange fe ns (d, nb) = Inr (ns', ch)" "dget ns d = Some n" "dget (bn_sessions n) nb = Some ses"
    "bs_state ses = BEstablished" "dget ns nb = Some nbr"
  shows "\<exists>adverts w. compute_adverts fe ns d nb = Inr adverts \<and>
      wanted_routes fe d n ses nb nbr adverts [] = Inr w \<and> announcements d w \<and>
      ns' = dset ns nb (nbr\<lparr>bn_rib_in := fst (merge_routes d w (bn_rib_in nbr))\<rparr>) \<and>
      ch = snd (merge_routes d w (bn_rib_in nbr))"
proof -
  from assms obtain adverts w where *: "compute_adverts fe ns d nb = Inr adverts"
      "wanted_routes fe d n ses nb nbr adverts [] = Inr w"
      "(case merge_routes d w (bn_rib_in nbr) of (rib', ch) \<Rightarrow> Inr (dset ns nb (nbr\<lparr>bn_rib_in := rib'\<rparr>), ch)) =
       (Inr (ns', ch) :: (bgp_nodes \<times> bool) res)"
    unfolding exchange_def by (auto simp: res_bind_Inr simp del: split_paired_Ex)
  with wanted_announcements [OF *(2)] show ?thesis by (auto simp: split_beta)
qed

lemma exchange_cases:
  assumes "exchange fe ns (d, nb) = Inr (ns', ch)"
  obtains (idle) "ns' = ns" "\<not> ch"
    | (merged) nbr w where "dget ns nb = Some nbr" "announcements d w"
        "ns' = dset ns nb (nbr\<lparr>bn_rib_in := fst (merge_routes d w (bn_rib_in nbr))\<rparr>)"
        "ch = snd (merge_routes d w (bn_rib_in nbr))"
proof (cases "\<exists>n ses nbr. dget ns d = Some n \<and> dget (bn_sessions n) nb = Some ses \<and>
                  bs_state ses = BEstablished \<and> dget ns nb = Some nbr")
  case True
  then show ?thesis using exchange_runs [OF assms] merged by blast
next
  case False
  with assms have "ns' = ns \<and> \<not> ch" by (auto simp: exchange_def split: option.splits if_splits)
  then show ?thesis using idle by blast
qed

lemma exchange_good:
  assumes "exchange fe ns (d, nb) = Inr (ns', ch)" "bgp_good ns"
  shows "bgp_good ns'"
  using assms(1)
proof (cases rule: exchange_cases)
  case (merged nbr w)
  then show ?thesis using assms(2) by (auto simp: bgp_good_def merge_unique)
qed (simp add: assms(2))

lemma exchange_unchanged:
  assumes "exchange fe ns (d, nb) = Inr (ns', False)" "bgp_good ns"
  shows "ns' = ns"
  using assms(1)
proof (cases rule: exchange_cases)
  case (merged nbr w)
  then show ?thesis using assms(2) by (simp add: bgp_good_def merge_unchanged dset_same)
qed simp

text \<open>C15. An exchange between two speakers refines the abstract table: the receiver's table then stands for
  exactly what it accepts of the sender's advertisements (the last of each prefix), so that whatever the
  sender no longer advertises is withdrawn; what other speakers announced, and every other node, is
  untouched, no speaker has two routes for a prefix, and the change flag is clear only if nothing changed.\<close>

theorem exchange_refines:
  assumes "exchange fe ns (d, nb) = Inr (ns', ch)" "bgp_good ns" "dget ns d = Some n"
    "dget (bn_sessions n) nb = Some ses" "bs_state ses = BEstablished" "dget ns nb = Some nbr"
  shows "\<exists>adverts w nbr'. compute_adverts fe ns d nb = Inr adverts \<and>
      wanted_routes fe d n ses nb nbr adverts [] = Inr w \<and> dget ns' nb = Some nbr' \<and>
      view (bn_rib_in nbr') = (view (bn_rib_in nbr))(d := (\<lambda>k. map_option attributes (dget w k))) \<and>
      nbr'\<lparr>bn_rib_in := bn_rib_in nbr\<rparr> = nbr \<and>
      (\<forall>x. x \<noteq> nb \<longrightarrow> dget ns' x = dget ns x) \<and> bgp_good ns' \<and> (\<not> ch \<longrightarrow> ns' = ns)"
proof -
  from assms(1) obtain adverts w where run: "compute_adverts fe ns d nb = Inr adverts"
      "wanted_routes fe d n ses nb nbr adverts [] = Inr w" "announcements d w"
      "ns' = dset ns nb (nbr\<lparr>bn_rib_in := fst (merge_routes d w (bn_rib_in nbr))\<rparr>)"
    using exchange_runs [OF assms(1,3-6)] by blast
  have "rib_unique (bn_rib_in nbr)" using assms(2,6) by (auto simp: bgp_good_def)
  then have "view (fst (merge_routes d w (bn_rib_in nbr))) =
      (view (bn_rib_in nbr))(d := (\<lambda>k. map_option attributes (dget w k)))"
    using run(3) by (intro ext) (simp add: view_def merge_announced)
  with run exchange_good [OF assms(1,2)] show ?thesis
    using exchange_unchanged [of fe ns d nb ns'] assms(1,2) by auto
qed

subsection \<open>Fixed points\<close>

lemma exchanges_good: "exchanges fe ps ns = (ns', ch, e) \<Longrightarrow> bgp_good ns \<Longrightarrow> bgp_good ns'"
proof (induction ps arbitrary: ns ns' ch e)
  case (Cons p ps)
  obtain d nb where p: "p = (d, nb)" by (cases p)
  show ?case
  proof (cases "exchange fe ns p")
    case (Inr r)
    obtain ns1 c where r: "r = (ns1, c)" by (cases r)
    obtain ns2 c2 e2 where rest: "exchanges fe ps ns1 = (ns2, c2, e2)" by (metis prod_cases3)
    have "bgp_good ns1" using exchange_good [of fe ns d nb ns1 c] Inr p r Cons.prems(2) by simp
    with Cons.IH [OF rest] Cons.prems(1) Inr r rest show ?thesis by simp
  qed (use Cons.prems in simp)
qed simp

lemma exchanges_unchanged: "exchanges fe ps ns = (ns', False, None) \<Longrightarrow> bgp_good ns \<Longrightarrow> ns' = ns"
proof (induction ps arbitrary: ns ns')
  case (Cons p ps)
  obtain d nb where "p = (d, nb)" by (cases p)
  with Cons.prems obtain ns1 where "exchange fe ns (d, nb) = Inr (ns1, False)" "exchanges fe ps ns1 = (ns', False, None)"
    by (auto split: sum.splits prod.splits)
  with Cons show ?case using exchange_unchanged [of fe ns d nb ns1] by auto
qed simp

definition best_known :: "bgp_nodes \<Rightarrow> bool" where
  "best_known ns \<longleftrightarrow> (\<forall>d\<in>set (active_nodes ns). \<forall>n. dget ns d = Some n \<longrightarrow> recalc_node n = n)"

lemma recalc_node_again [simp]: "recalc_node (recalc_node n) = recalc_node n"
  by (simp add: recalc_node_def)

lemma recalc_known: "best_known ns \<Longrightarrow> recalc_all ns = ns"
proof -
  assume known: "best_known ns"
  have "fold recalc_best_path ds ns = ns" if "set ds \<subseteq> set (active_nodes ns)" for ds
    using that
  proof (induction ds)
    case (Cons d ds)
    then have "recalc_best_path d ns = ns"
      using known by (auto simp: recalc_best_path_def best_known_def dset_same split: option.split)
    with Cons show ?case by simp
  qed simp
  then show ?thesis by (simp add: recalc_all_def)
qed

lemma dget_recalc: "dget (recalc_best_path d ns) x = (if x = d then map_option recalc_node (dget ns x) else dget ns x)"
  by (auto simp: recalc_best_path_def split: option.split)

lemma dget_recalc_fold:
  "dget (fold recalc_best_path ds ns) x = (if x \<in> set ds then map_option recalc_node (dget ns x) else dget ns x)"
  by (induction ds arbitrary: ns) (auto simp: dget_recalc option.map_comp comp_def)

lemma active_dset: "dget ns d = Some n \<Longrightarrow> bn_enabled n' = bn_enabled n \<Longrightarrow> active_nodes (dset ns d n') = active_nodes ns"
  by (induction ns) (auto simp: active_nodes_def dset_def dget_def)

lemma active_recalc [simp]: "active_nodes (recalc_best_path d ns) = active_nodes ns"
  by (auto simp: recalc_best_path_def recalc_node_def active_dset split: option.split)

lemma active_recalc_all [simp]: "active_nodes (recalc_all ns) = active_nodes ns"
proof -
  have "active_nodes (fold recalc_best_path ds ns) = active_nodes ns" for ds
    by (induction ds arbitrary: ns) simp_all
  then show ?thesis by (simp add: recalc_all_def)
qed

lemma recalc_all_known: "best_known (recalc_all ns)"
  by (auto simp: best_known_def) (auto simp: recalc_all_def dget_recalc_fold)

lemma recalc_all_good: "bgp_good ns \<Longrightarrow> bgp_good (recalc_all ns)"
  by (auto simp: bgp_good_def recalc_all_def dget_recalc_fold recalc_node_def split: if_splits)

lemma stopped:
  "propagate_rounds k fe ns = (ns', False, None) \<Longrightarrow> bgp_good ns \<Longrightarrow> best_known ns \<Longrightarrow>
   bgp_good ns' \<and> best_known ns' \<and> exchanges fe (session_pairs ns') ns' = (ns', False, None)"
proof (induction k arbitrary: ns)
  case (Suc k)
  obtain ns1 ch e where ex: "exchanges fe (session_pairs ns) ns = (ns1, ch, e)" by (metis prod_cases3)
  with Suc.prems(1) have e: "e = None" by (cases e) simp_all
  show ?case
  proof (cases ch)
    case True
    with ex e Suc.prems show ?thesis
      using exchanges_good [OF ex] by (intro Suc.IH [of "recalc_all ns1"]) (simp_all add: recalc_all_good recalc_all_known)
  next
    case False
    have "ns1 = ns" using exchanges_unchanged [OF _ Suc.prems(2), of fe _ ns1] ex e False by simp
    with ex e False Suc.prems show ?thesis by (simp add: recalc_known)
  qed
qed simp

text \<open>C17. A propagation that ends before its 40 rounds because nothing changed has reached a fixed point: from
  tables without duplicates and best paths that are up to date, any further propagation, with any bound,
  leaves every node as it is and reports no change.\<close>

theorem propagation_fixpoint:
  assumes "propagate_rounds k fe ns = (ns', False, None)" "bgp_good ns" "best_known ns"
  shows "propagate_rounds (Suc j) fe ns' = (ns', False, None) \<and>
    (\<forall>p\<in>set (session_pairs ns'). exchange fe ns' p = Inr (ns', False))"
proof -
  note fixed = stopped [OF assms]
  have "\<forall>p\<in>set ps. exchange fe ns' p = Inr (ns', False)" if "exchanges fe ps ns' = (ns', False, None)" for ps
    using that
  proof (induction ps)
    case (Cons p ps)
    obtain d nb where p: "p = (d, nb)" by (cases p)
    with Cons.prems obtain ns1 where "exchange fe ns' (d, nb) = Inr (ns1, False)" "exchanges fe ps ns1 = (ns', False, None)"
      by (auto split: sum.splits prod.splits)
    with Cons p show ?case using exchange_unchanged [of fe ns' d nb ns1] fixed by auto
  qed simp
  from this [of "session_pairs ns'"] fixed show ?thesis by (simp add: recalc_known)
qed

end
