(* ===== verification/BgpSessions.thy ===== *)
theory BgpSessions
  imports BgpPropagation
begin

text \<open>
  Facts about \<open>class BgpEngine\<close>, third part: the engine as a machine over all its operations, what a session
  that goes down takes with it, and a session only one of the two sides configured.
\<close>

subsection \<open>The engine as a machine\<close>

datatype bgp_op =
    Start "string \<Rightarrow> int" dev string int string
  | AddNeighbor dev dev string int string
  | SetPassword dev dev string
  | SetBfd dev dev bool
  | SetRouteMap dev dev string string
  | SetPrefixList dev dev string string
  | SetSendCommunity dev dev bool
  | SetReflectorClient dev dev bool
  | SetClusterId dev string
  | SetRtbh dev string
  | SetHostnameCapability dev bool
  | SetGracefulRestart dev bool "int option"
  | SetLlgr dev bool
  | SetConfederation dev int
  | AddConfederationPeer dev int
  | AddRoa dev roa
  | SetInvalidDrop dev bool
  | AddRouteMap dev string "int list" "int option" "int option" "string list" bool
  | OpenCheck dev dev
  | OpenProgress dev dev session_state
  | OpenEstablish rat dev dev
  | OpenUpdates dev dev
  | Advertise dev string
  | SessionDown dev dev
  | GrExpire dev dev

fun bgp_step :: "filter_engine \<Rightarrow> bgp_op \<Rightarrow> bgp \<Rightarrow> bgp" where
  "bgp_step fe (Start h d host a r) s = bgp_start h d host a r s"
| "bgp_step fe (AddNeighbor d nb host a nip) s = add_neighbor d nb host a nip s"
| "bgp_step fe (SetPassword d nb pw) s = set_neighbor_password d nb pw s"
| "bgp_step fe (SetBfd d nb b) s = set_neighbor_bfd d nb b s"
| "bgp_step fe (SetRouteMap d nb name dir) s = set_neighbor_route_map fe d nb name dir s"
| "bgp_step fe (SetPrefixList d nb name dir) s = set_neighbor_prefix_list fe d nb name dir s"
| "bgp_step fe (SetSendCommunity d nb b) s = set_neighbor_send_community fe d nb b s"
| "bgp_step fe (SetReflectorClient d nb b) s = set_neighbor_route_reflector_client fe d nb b s"
| "bgp_step fe (SetClusterId d c) s = set_cluster_id d c s"
| "bgp_step fe (SetRtbh d c) s = set_rtbh_community d c s"
| "bgp_step fe (SetHostnameCapability d b) s = set_hostname_capability d b s"
| "bgp_step fe (SetGracefulRestart d b t) s = set_graceful_restart d b t s"
| "bgp_step fe (SetLlgr d b) s = set_llgr d b s"
| "bgp_step fe (SetConfederation d a) s = set_confederation_identifier d a s"
| "bgp_step fe (AddConfederationPeer d a) s = add_confederation_peer d a s"
| "bgp_step fe (AddRoa d x) s = add_roa d x s"
| "bgp_step fe (SetInvalidDrop d b) s = set_rpki_invalid_drop d b s"
| "bgp_step fe (AddRouteMap d name p lp med cs add_to) s = add_route_map d name p lp med cs add_to s"
| "bgp_step fe (OpenCheck d nb) s = fst (open_check d nb s)"
| "bgp_step fe (OpenProgress d nb st) s = open_progress d nb st s"
| "bgp_step fe (OpenEstablish now d nb) s = open_establish now d nb s"
| "bgp_step fe (OpenUpdates d nb) s = fst (open_updates fe d nb s)"
| "bgp_step fe (Advertise d net) s = fst (advertise_network fe d net s)"
| "bgp_step fe (SessionDown d nb) s = fst (session_down fe d nb s)"
| "bgp_step fe (GrExpire d nb) s = gr_expire d nb s"

definition bgp_init :: bgp where
  "bgp_init = \<lparr>nodes = [], static_rib = Map.empty\<rparr>"

abbreviation bgp_ok :: "bgp \<Rightarrow> bool" where
  "bgp_ok s \<equiv> bgp_good (nodes s)"

lemma bgp_good_dset: "bgp_good ns \<Longrightarrow> rib_unique (bn_rib_in n) \<Longrightarrow> bgp_good (dset ns d n)"
  by (auto simp: bgp_good_def)

lemma rib_unique_Nil [simp]: "rib_unique []"
  by (simp add: rib_unique_def)

lemma bgp_good_node: "bgp_good ns \<Longrightarrow> rib_unique (bn_rib_in (bgp_node_of ns d))"
  by (auto simp: bgp_good_def bgp_node_of_def new_bgp_node_def split: option.split)

lemma upd_node_ok:
  "bgp_ok s \<Longrightarrow> (\<And>n. rib_unique (bn_rib_in n) \<Longrightarrow> rib_unique (bn_rib_in (f n))) \<Longrightarrow> bgp_ok (upd_node d f s)"
  by (simp add: upd_node_def bgp_good_dset bgp_good_node)

lemma upd_session_rib [simp]: "bn_rib_in (upd_session nb f n) = bn_rib_in n"
  by (simp add: upd_session_def split: option.split)

lemma map_sessions_rib [simp]: "bn_rib_in (map_sessions f n) = bn_rib_in n"
  by (simp add: map_sessions_def)

lemma recalc_rib [simp]: "bn_rib_in (recalc_node n) = bn_rib_in n"
  by (simp add: recalc_node_def)

lemma apply_rtbh_ribs: "map_option bn_rib_in (dget (nodes (apply_rtbh d s)) x) = map_option bn_rib_in (dget (nodes s) x)"
  by (auto simp: apply_rtbh_def Let_def split: option.splits)

lemma apply_rtbh_ok: "bgp_ok s \<Longrightarrow> bgp_ok (apply_rtbh d s)"
  by (auto simp: apply_rtbh_def Let_def bgp_good_def split: option.split)

lemma recalc_best_ok: "bgp_good ns \<Longrightarrow> bgp_good (recalc_best_path d ns)"
  by (auto simp: bgp_good_def dget_recalc split: if_splits)

lemma rounds_ok: "propagate_rounds k fe ns = (ns', ch, e) \<Longrightarrow> bgp_good ns \<Longrightarrow> bgp_good ns'"
proof (induction k arbitrary: ns)
  case (Suc k)
  obtain ns1 c e1 where ex: "exchanges fe (session_pairs ns) ns = (ns1, c, e1)" by (metis prod_cases3)
  have "bgp_good ns1" using exchanges_good [OF ex Suc.prems(2)] .
  with ex Suc show ?case
    using recalc_all_good [of ns1] by (cases e1) (auto split: if_splits)
qed simp

lemma propagate_ok: "bgp_ok s \<Longrightarrow> bgp_ok (fst (propagate fe s))"
proof -
  assume ok: "bgp_ok s"
  obtain ns ch e where r: "propagate_rounds 40 fe (nodes s) = (ns, ch, e)" by (metis prod_cases3)
  with ok have "bgp_good ns" using rounds_ok by blast
  moreover have "bgp_ok (fold (\<lambda>d s. apply_rtbh d (s\<lparr>nodes := recalc_best_path d (nodes s)\<rparr>)) ds t)" if "bgp_ok t" for ds t
    using that by (induction ds arbitrary: t) (simp_all add: apply_rtbh_ok recalc_best_ok)
  ultimately show ?thesis using r by (cases e) (simp_all add: propagate_def)
qed

lemma set_and_propagate_ok: "bgp_ok s \<Longrightarrow> bgp_ok (set_and_propagate fe d nb f s)"
  by (simp add: set_and_propagate_def Let_def propagate_ok upd_node_ok)

lemma send_update_ok: "bgp_ok s \<Longrightarrow> bgp_ok (fst (send_update fe d nb s))"
  by (auto simp: send_update_def propagate_ok split: option.split sum.split)

lemma update_neighbors_ok: "bgp_ok s \<Longrightarrow> bgp_ok (fst (update_neighbors fe d nbs s))"
proof (induction nbs arbitrary: s)
  case (Cons nb nbs)
  obtain s1 e where r: "send_update fe d nb s = (s1, e)" by (cases "send_update fe d nb s")
  have "bgp_ok s1" using send_update_ok [OF Cons.prems, of fe d nb] r by simp
  with Cons r show ?case by (cases e) auto
qed simp

lemma rib_unique_lose: "rib_unique rib \<Longrightarrow> rib_unique (lose_routes ses b rib)"
proof -
  assume u: "rib_unique rib"
  have "rib_id (r\<lparr>br_stale := True\<rparr>) = rib_id r" for r by (simp add: rib_id_def route_key_def)
  then have "List.map rib_id (List.map (\<lambda>r. if br_from r = b then r\<lparr>br_stale := True\<rparr> else r) rib) = List.map rib_id rib"
    by simp
  then have "rib_unique (List.map (\<lambda>r. if br_from r = b then r\<lparr>br_stale := True\<rparr> else r) rib)"
    using u by (simp only: rib_unique_def)
  then show ?thesis using u by (simp add: lose_routes_def rib_unique_def distinct_map_filter)
qed

lemma down_side_ok: "bgp_ok s \<Longrightarrow> bgp_ok (fst (down_side a b s))"
proof -
  assume ok: "bgp_ok s"
  then have "rib_unique (bn_rib_in n)" if "dget (nodes s) a = Some n" for n
    using that by (simp add: bgp_good_def)
  with ok show ?thesis
    by (simp add: down_side_def Let_def bgp_good_dset rib_unique_lose apply_rtbh_ok split: option.split)
qed

lemma session_down_ok: "bgp_ok s \<Longrightarrow> bgp_ok (fst (session_down fe a b s))"
  using down_side_ok [of s a b] down_side_ok [of "fst (down_side a b s)" b a]
  by (simp add: session_down_def split_beta propagate_ok)

lemma open_updates_ok: "bgp_ok s \<Longrightarrow> bgp_ok (fst (open_updates fe d nb s))"
proof -
  assume ok: "bgp_ok s"
  obtain s1 e where "send_update fe d nb s = (s1, e)" by (cases "send_update fe d nb s")
  with send_update_ok [OF ok, of fe d nb] show ?thesis
    by (cases e) (simp_all add: open_updates_def send_update_ok)
qed

lemma open_check_ok: "bgp_ok s \<Longrightarrow> bgp_ok (fst (open_check d nb s))"
  by (simp add: open_check_def upd_node_ok split: option.split)

lemma filter_unique: "rib_unique rib \<Longrightarrow> rib_unique (filter P rib)"
  by (simp add: rib_unique_def distinct_map_filter)

lemma bgp_step_ok: "bgp_ok s \<Longrightarrow> bgp_ok (bgp_step fe op s)"
  by (cases op)
    (simp_all add: bgp_start_def add_neighbor_def set_neighbor_password_def set_neighbor_bfd_def
      set_neighbor_route_map_def set_neighbor_prefix_list_def set_neighbor_send_community_def
      set_neighbor_route_reflector_client_def set_cluster_id_def set_rtbh_community_def
      set_hostname_capability_def set_graceful_restart_def set_llgr_def set_confederation_identifier_def
      add_confederation_peer_def add_roa_def set_rpki_invalid_drop_def add_route_map_def Let_def
      open_check_ok open_progress_def open_establish_def open_updates_ok advertise_network_def session_down_ok
      gr_expire_def upd_node_ok set_and_propagate_ok apply_rtbh_ok update_neighbors_ok filter_unique
      split: option.split)

interpretation bgp_engine: machine "bgp_step fe" bgp_init bgp_ok for fe
  by unfold_locales (simp add: bgp_init_def bgp_good_def, rule bgp_step_ok)

text \<open>C34. Whatever the operations, in whatever order, no speaker's table ever holds two routes for the same
  prefix from the same neighbour.\<close>

theorem bgp_tables_unique:
  "distinct (List.map (\<lambda>r. (br_from r, br_prefix r, br_len r))
     (bn_rib_in (bgp_node_of (nodes (fold (bgp_step fe) ops bgp_init)) d)))"
  using bgp_good_node [OF bgp_engine.run_inv [of fe ops], of d]
  by (simp add: rib_unique_def rib_id_def [abs_def] route_key_def)

subsection \<open>A session goes down\<close>

definition session_idle :: "bgp_nodes \<Rightarrow> dev \<Rightarrow> dev \<Rightarrow> bool" where
  "session_idle ns d nb \<longleftrightarrow> (\<forall>n x. dget ns d = Some n \<longrightarrow> dget (bn_sessions n) nb = Some x \<longrightarrow> bs_state x \<noteq> BEstablished)"

definition nothing_from :: "bgp_nodes \<Rightarrow> dev \<Rightarrow> dev \<Rightarrow> bool" where
  "nothing_from ns d nb \<longleftrightarrow> (\<forall>n. dget ns d = Some n \<longrightarrow> (\<forall>r\<in>set (bn_rib_in n). br_from r \<noteq> nb))"

text \<open>\<open>x\<close> hears nothing from \<open>y\<close>: it has no route of \<open>y\<close>, and \<open>y\<close> has no session to send it any.\<close>

definition silent :: "bgp_nodes \<Rightarrow> dev \<Rightarrow> dev \<Rightarrow> bool" where
  "silent ns x y \<longleftrightarrow> nothing_from ns x y \<and> session_idle ns y x"

lemma merge_from:
  "announcements d w \<Longrightarrow> rib_unique rib \<Longrightarrow> r \<in> set (fst (merge_routes d w rib)) \<Longrightarrow>
   br_from r = d \<or> (\<exists>x\<in>set rib. br_from r = br_from x)"
  by (fastforce simp: merge_eq announcements_def)

lemma exchange_silent:
  assumes "exchange fe ns (d, nb) = Inr (ns', ch)" "bgp_good ns" "silent ns x y"
  shows "silent ns' x y"
proof (cases "session_idle ns d nb")
  case True
  then have "ns' = ns"
    using assms(1) by (auto simp: exchange_def session_idle_def split: option.splits if_splits)
  then show ?thesis using assms(3) by simp
next
  case False
  from assms(1) show ?thesis
  proof (cases rule: exchange_cases)
    case (merged nbr w)
    have "nb = x \<Longrightarrow> d \<noteq> y" using False assms(3) by (auto simp: silent_def)
    then have "nothing_from ns' x y"
      using merged assms(2,3) merge_from [OF merged(2)] by (fastforce simp: silent_def nothing_from_def bgp_good_def)
    moreover have "session_idle ns' y x" using merged(1,3) assms(3) by (auto simp: silent_def session_idle_def)
    ultimately show ?thesis by (simp add: silent_def)
  qed (simp add: assms(3))
qed

lemma exchanges_silent: "exchanges fe ps ns = (ns', ch, e) \<Longrightarrow> bgp_good ns \<Longrightarrow> silent ns x y \<Longrightarrow> silent ns' x y"
proof (induction ps arbitrary: ns ns' ch e)
  case (Cons p ps)
  obtain d nb where p: "p = (d, nb)" by (cases p)
  show ?case
  proof (cases "exchange fe ns p")
    case (Inr r)
    obtain ns1 c where r: "r = (ns1, c)" by (cases r)
    obtain ns2 c2 e2 where rest: "exchanges fe ps ns1 = (ns2, c2, e2)" by (metis prod_cases3)
    have step: "exchange fe ns (d, nb) = Inr (ns1, c)" using Inr p r by simp
    from Cons.IH [OF rest exchange_good [OF step Cons.prems(2)] exchange_silent [OF step Cons.prems(2,3)]]
    show ?thesis using Cons.prems(1) Inr r rest by simp
  qed (use Cons.prems in simp)
qed simp

lemma recalc_silent [simp]: "silent (recalc_best_path d ns) x y \<longleftrightarrow> silent ns x y"
proof -
  have "bn_sessions (recalc_node n) = bn_sessions n" for n by (simp add: recalc_node_def)
  then show ?thesis by (auto simp: silent_def nothing_from_def session_idle_def dget_recalc)
qed

lemma recalc_all_silent [simp]: "silent (recalc_all ns) x y \<longleftrightarrow> silent ns x y"
proof -
  have "silent (fold recalc_best_path ds ns) x y \<longleftrightarrow> silent ns x y" for ds
    by (induction ds arbitrary: ns) simp_all
  then show ?thesis by (simp add: recalc_all_def)
qed

lemma rounds_silent: "propagate_rounds k fe ns = (ns', ch, e) \<Longrightarrow> bgp_good ns \<Longrightarrow> silent ns x y \<Longrightarrow> silent ns' x y"
proof (induction k arbitrary: ns)
  case (Suc k)
  obtain ns1 c e1 where ex: "exchanges fe (session_pairs ns) ns = (ns1, c, e1)" by (metis prod_cases3)
  have "bgp_good ns1" "silent ns1 x y"
    using exchanges_good [OF ex Suc.prems(2)] exchanges_silent [OF ex Suc.prems(2,3)] by blast+
  with ex Suc show ?case
    using recalc_all_good [of ns1] by (cases e1) (auto split: if_splits)
qed simp

lemma apply_rtbh_silent [simp]: "silent (nodes (apply_rtbh d s)) x y \<longleftrightarrow> silent (nodes s) x y"
  by (auto simp: apply_rtbh_def Let_def silent_def nothing_from_def session_idle_def split: option.splits)

lemma propagate_silent:
  assumes "bgp_ok s" "silent (nodes s) x y"
  shows "silent (nodes (fst (propagate fe s))) x y"
proof -
  obtain ns ch e where r: "propagate_rounds 40 fe (nodes s) = (ns, ch, e)" by (metis prod_cases3)
  with assms have "silent ns x y" using rounds_silent by blast
  moreover have "silent (nodes (fold (\<lambda>d s. apply_rtbh d (s\<lparr>nodes := recalc_best_path d (nodes s)\<rparr>)) ds t)) x y"
    if "silent (nodes t) x y" for ds t
    using that by (induction ds arbitrary: t) simp_all
  ultimately show ?thesis using r by (cases e) (simp_all add: propagate_def)
qed

lemma down_side_done:
  assumes "session_of s a b = Some ses" "bs_state ses = BEstablished" "\<not> bs_graceful_restart ses" "\<not> bs_llgr ses"
  shows "snd (down_side a b s)" "nothing_from (nodes (fst (down_side a b s))) a b"
    "session_idle (nodes (fst (down_side a b s))) a b" "d \<noteq> a \<Longrightarrow> session_of (fst (down_side a b s)) d nb = session_of s d nb"
proof -
  obtain n where n: "dget (nodes s) a = Some n" "dget (bn_sessions n) b = Some ses"
    using assms(1) by (auto simp: session_of_def split: option.splits)
  with assms show "snd (down_side a b s)" by (simp add: down_side_def Let_def)
  show "nothing_from (nodes (fst (down_side a b s))) a b"
    using n assms by (auto simp: down_side_def Let_def apply_rtbh_def nothing_from_def lose_routes_def recalc_node_def upd_session_def)
  show "session_idle (nodes (fst (down_side a b s))) a b"
    using n assms by (auto simp: down_side_def Let_def apply_rtbh_def session_idle_def recalc_node_def upd_session_def)
  show "session_of (fst (down_side a b s)) d nb = session_of s d nb" if "d \<noteq> a"
    using n assms that by (auto simp: down_side_def Let_def apply_rtbh_def session_of_def recalc_node_def upd_session_def)
qed

lemma down_side_other:
  assumes "d \<noteq> a"
  shows "dget (nodes (fst (down_side a b s))) d = dget (nodes s) d"
  using assms by (auto simp: down_side_def Let_def apply_rtbh_def split: option.split)

text \<open>C35. When an established session without graceful restart goes down, each side loses every route it had
  from the other, the session is no longer established on either side, and the propagation that follows
  brings none of these routes back, whatever the rest of the network advertises.\<close>

theorem session_down_withdraws:
  assumes "bgp_good (nodes s)" "a \<noteq> b" "session_of s a b = Some x" "session_of s b a = Some y"
    "bs_state x = BEstablished" "bs_state y = BEstablished"
    "\<not> bs_graceful_restart x \<and> \<not> bs_llgr x" "\<not> bs_graceful_restart y \<and> \<not> bs_llgr y"
  shows "silent (nodes (fst (session_down fe a b s))) a b \<and> silent (nodes (fst (session_down fe a b s))) b a"
proof -
  define s1 where "s1 = fst (down_side a b s)"
  define s2 where "s2 = fst (down_side b a s1)"
  have one: "snd (down_side a b s)" "nothing_from (nodes s1) a b" "session_idle (nodes s1) a b"
    "session_of s1 b a = Some y"
    using down_side_done [OF assms(3,5)] assms(2,4,7) by (simp_all add: s1_def)
  have two: "nothing_from (nodes s2) b a" "session_idle (nodes s2) b a"
    using down_side_done [OF one(4) assms(6)] assms(8) by (simp_all add: s2_def)
  have "dget (nodes s2) a = dget (nodes s1) a" using assms(2) by (simp add: s2_def down_side_other)
  with one have "nothing_from (nodes s2) a b" "session_idle (nodes s2) a b"
    by (simp_all add: nothing_from_def session_idle_def)
  with two have "silent (nodes s2) a b" "silent (nodes s2) b a" by (simp_all add: silent_def)
  moreover have "bgp_ok s2" using assms(1) by (simp add: s1_def s2_def down_side_ok)
  moreover have "fst (session_down fe a b s) = fst (propagate fe s2)"
    using one(1) by (simp add: session_down_def split_beta s1_def s2_def)
  ultimately show ?thesis by (simp add: propagate_silent)
qed

end
