(* ===== verification/BgpScenarios.thy ===== *)
theory BgpScenarios
  imports BgpSessions
begin

text \<open>
  Networks on which the BGP theorems are applied, and behaviours of the engine on concrete networks: a
  propagation that never settles and a session only one side configured.
\<close>

definition no_filters :: filter_engine where
  "no_filters = \<lparr>prefix_lists = (\<lambda>_. []), distribute_lists = (\<lambda>_. []), redist_filters = (\<lambda>_. [])\<rparr>"

definition peering :: "dev \<Rightarrow> int \<Rightarrow> dev \<times> bgp_session" where
  "peering nb a = (nb, (new_session (new_bgp_node []) nb a [])\<lparr>bs_state := BEstablished\<rparr>)"

definition speaker :: "dev \<Rightarrow> int \<Rightarrow> string list \<Rightarrow> (dev \<times> bgp_session) list \<Rightarrow> dev \<times> bgp_node" where
  "speaker d a nets ps =
     (d, (new_bgp_node d)\<lparr>bn_enabled := True, bn_local_as := Some a, bn_networks := nets, bn_sessions := ps\<rparr>)"

text \<open>Two speakers, the first with a network.\<close>

definition duo :: bgp_nodes where
  "duo = [speaker ''r1'' 100 [''10.0.0.0/8''] [peering ''r2'' 200], speaker ''r2'' 200 [] [peering ''r1'' 100]]"

definition duo_after :: bgp_nodes where
  "duo_after = fst (propagate_rounds 2 no_filters duo)"

text \<open>A line of three speakers: the middle one passes on what it learns.\<close>

definition chain :: bgp_nodes where
  "chain = [speaker ''r1'' 100 [''10.0.0.0/8''] [peering ''r2'' 200],
           speaker ''r2'' 200 [] [peering ''r1'' 100, peering ''r3'' 300], speaker ''r3'' 300 [] [peering ''r2'' 200]]"

definition chain_after :: bgp_nodes where
  "chain_after = fst (propagate_rounds 5 no_filters chain)"

lemma duo_good: "bgp_good duo" "best_known duo"
  by (auto simp: bgp_good_def best_known_def duo_def speaker_def new_bgp_node_def recalc_node_def dvals_def active_nodes_def split: if_splits)

lemma duo_stops: "propagate_rounds 2 no_filters duo = (duo_after, False, None)"
  by code_simp

lemma propagation_fixpoint_witness: "propagate_rounds 3 no_filters duo_after = (duo_after, False, None)"
  using propagation_fixpoint [OF duo_stops duo_good, of 2] by (simp add: numeral_3_eq_3 numeral_2_eq_2)

definition node1 :: bgp_node where "node1 = bgp_node_of chain_after ''r2''"

lemma best_path_selected_witness:
  "\<exists>!r. r \<in> set (bn_loc_rib (recalc_node node1)) \<and> prefix_text r = ''10.0.0.0/8''"
proof -
  have "\<exists>x\<in>set (bn_rib_in node1). prefix_text x = ''10.0.0.0/8''" by code_simp
  then obtain x where "x \<in> set (bn_rib_in node1)" "prefix_text x = ''10.0.0.0/8''" by blast
  with best_path_selected [of node1] show ?thesis by metis
qed

definition advert2 :: bgp_route where
  "advert2 = (case compute_adverts no_filters chain_after ''r2'' ''r3'' of Inr (r # _) \<Rightarrow> r
     | _ \<Rightarrow> own_route [] node1 (snd (peering [] 0)) ([], 0))"

lemma adverts_follow_policy_witness: "\<exists>rest. br_as_path advert2 = own_as node1 @ rest"
proof -
  have "compute_adverts no_filters chain_after ''r2'' ''r3'' = Inr [advert2]" by code_simp
  moreover have "dget chain_after ''r2'' = Some node1" by code_simp
  moreover have "dget (bn_sessions node1) ''r3'' = Some (snd (peering ''r3'' 300))" by code_simp
  moreover have "advert2 \<in> set [advert2]" by simp
  moreover have "is_ebgp node1 (snd (peering ''r3'' 300))" "\<not> leaving_confederation node1 (snd (peering ''r3'' 300))"
    "bs_route_map_out (snd (peering ''r3'' 300)) = []" by code_simp+
  ultimately show ?thesis using adverts_follow_policy by meson
qed

definition duo_sent :: bgp_nodes where
  "duo_sent = (case exchange no_filters duo (''r1'', ''r2'') of Inr (ns, _) \<Rightarrow> ns | Inl _ \<Rightarrow> [])"

lemma exchange_refines_witness:
  "\<exists>nbr'. dget duo_sent ''r2'' = Some nbr' \<and>
     nbr'\<lparr>bn_rib_in := []\<rparr> = snd (speaker ''r2'' 200 [] [peering ''r1'' 100]) \<and> bgp_good duo_sent \<and>
     (\<forall>x. x \<noteq> ''r2'' \<longrightarrow> dget duo_sent x = dget duo x)"
proof -
  let ?r1 = "snd (speaker ''r1'' 100 [''10.0.0.0/8''] [peering ''r2'' 200])" and ?r2 = "snd (speaker ''r2'' 200 [] [peering ''r1'' 100])"
  have facts: "exchange no_filters duo (''r1'', ''r2'') = Inr (duo_sent, True)"
    "dget duo ''r1'' = Some ?r1" "dget (bn_sessions ?r1) ''r2'' = Some (snd (peering ''r2'' 200))" "dget duo ''r2'' = Some ?r2"
    "bs_state (snd (peering ''r2'' 200)) = BEstablished"
    by code_simp+
  have "bn_rib_in ?r2 = []" by code_simp
  with exchange_refines [OF facts(1) duo_good(1) facts(2,3,5,4)] show ?thesis by (metis (no_types))
qed

definition duo_state :: bgp where
  "duo_state = \<lparr>nodes = duo_after, static_rib = Map.empty\<rparr>"

lemma session_down_withdraws_witness:
  "silent (nodes (fst (session_down no_filters ''r1'' ''r2'' duo_state))) ''r2'' ''r1'' \<and>
   \<not> silent (nodes duo_state) ''r2'' ''r1''"
proof -
  have "bgp_good (nodes duo_state)"
    using rounds_ok [OF duo_stops duo_good(1)] by (simp add: duo_state_def)
  moreover have "session_of duo_state ''r1'' ''r2'' = Some (snd (peering ''r2'' 200))"
    "session_of duo_state ''r2'' ''r1'' = Some (snd (peering ''r1'' 100))" by code_simp+
  moreover have "bs_state (snd (peering nb a)) = BEstablished" "\<not> bs_graceful_restart (snd (peering nb a))"
    "\<not> bs_llgr (snd (peering nb a))" for nb a by (simp_all add: peering_def new_session_def new_bgp_node_def)
  ultimately have "silent (nodes (fst (session_down no_filters ''r1'' ''r2'' duo_state))) ''r2'' ''r1''"
    using session_down_withdraws [of duo_state "''r1''" "''r2''"] by simp
  moreover have "\<exists>r\<in>set (bn_rib_in (bgp_node_of duo_after ''r2'')). br_from r = ''r1''" by code_simp
  moreover have "dget duo_after ''r2'' = Some (bgp_node_of duo_after ''r2'')" by code_simp
  ultimately show ?thesis by (auto simp: silent_def nothing_from_def duo_state_def)
qed

subsection \<open>A propagation that does not settle\<close>

definition prefer_peer :: "dev \<times> bgp_session \<Rightarrow> dev \<times> bgp_session" where
  "prefer_peer p = (fst p, (snd p)\<lparr>bs_route_map_in := ''P''\<rparr>)"

definition prefer_map :: "dev \<times> bgp_node \<Rightarrow> dev \<times> bgp_node" where
  "prefer_map p = (fst p, (snd p)\<lparr>bn_route_maps := [(''P'', empty_route_map\<lparr>rm_local_pref := Some 200\<rparr>)]\<rparr>)"

text \<open>Two speakers hear the same network from its origin, and each prefers what the other passes on.\<close>

definition disagree :: bgp_nodes where
  "disagree = [speaker ''r0'' 100 [''10.0.0.0/8''] [peering ''r1'' 1, peering ''r2'' 2],
     prefer_map (speaker ''r1'' 1 [] [peering ''r0'' 100, prefer_peer (peering ''r2'' 2)]),
     prefer_map (speaker ''r2'' 2 [] [peering ''r0'' 100, prefer_peer (peering ''r1'' 1)])]"

definition disagree_at :: "nat \<Rightarrow> bgp_nodes" where
  "disagree_at k = fst (propagate_rounds k no_filters disagree)"

definition busy_round :: "filter_engine \<Rightarrow> bgp_nodes \<Rightarrow> bgp_nodes \<Rightarrow> bool" where
  "busy_round fe ns ns' \<longleftrightarrow>
     (case exchanges fe (session_pairs ns) ns of (ns1, ch, e) \<Rightarrow> ch \<and> e = None \<and> recalc_all ns1 = ns')"

lemma busy_round_next: "busy_round fe ns ns' \<Longrightarrow> propagate_rounds (Suc k) fe ns = propagate_rounds k fe ns'"
  by (auto simp: busy_round_def split: prod.splits)

lemma disagree_cycle:
  "busy_round no_filters disagree (disagree_at 1)"
  "busy_round no_filters (disagree_at 1) (disagree_at 2)"
  "busy_round no_filters (disagree_at 2) (disagree_at 3)"
  "busy_round no_filters (disagree_at 3) (disagree_at 2)"
  by code_simp+

lemma cycle_rounds:
  assumes "busy_round fe a b" "busy_round fe b a"
  shows "propagate_rounds k fe a = (if even k then a else b, True, None) \<and>
         propagate_rounds k fe b = (if even k then b else a, True, None)"
proof (induction k)
  case (Suc k)
  then show ?case by (simp only: busy_round_next [OF assms(1)] busy_round_next [OF assms(2)]) simp
qed simp

text \<open>The propagation need not reach a fixed point: when two speakers each prefer, by an inbound route map,
  the path through the other, every number of rounds ends with the change flag set, and from the second
  round on the tables alternate between two states whose best paths differ, so that what the 40 rounds of
  the code leave behind is one of them.\<close>

theorem propagation_may_not_settle:
  "propagate_rounds (2 + k) no_filters disagree =
     (if even k then disagree_at 2 else disagree_at 3, True, None) \<and>
   List.map br_as_path (bn_loc_rib (bgp_node_of (disagree_at 2) ''r1'')) \<noteq>
   List.map br_as_path (bn_loc_rib (bgp_node_of (disagree_at 3) ''r1''))"
proof
  have "propagate_rounds (2 + k) no_filters disagree = propagate_rounds k no_filters (disagree_at 2)"
    using busy_round_next [OF disagree_cycle(1)] busy_round_next [OF disagree_cycle(2)] by simp
  also have "\<dots> = (if even k then disagree_at 2 else disagree_at 3, True, None)"
    using cycle_rounds [OF disagree_cycle(3,4)] by blast
  finally show "propagate_rounds (2 + k) no_filters disagree =
      (if even k then disagree_at 2 else disagree_at 3, True, None)" .
  show "List.map br_as_path (bn_loc_rib (bgp_node_of (disagree_at 2) ''r1'')) \<noteq>
      List.map br_as_path (bn_loc_rib (bgp_node_of (disagree_at 3) ''r1''))"
    by code_simp
qed

subsection \<open>A session only one side configured\<close>

definition unilateral :: "bgp_op list" where
  "unilateral =
     [Start (\<lambda>_. 0) ''r1'' ''R1'' 100 [], Start (\<lambda>_. 0) ''r2'' ''R2'' 200 [],
      AddNeighbor ''r1'' ''r2'' ''R2'' 999 [], OpenCheck ''r1'' ''r2'', OpenProgress ''r1'' ''r2'' BOpenSent,
      OpenEstablish 0 ''r1'' ''r2'', Advertise ''r1'' ''10.0.0.0/8'']"

text \<open>A session opens although the peer never configured it and although the configured remote AS is not
  the peer's: the peer takes the routes in, and keeps them when the session goes down, because it has no
  session of its own that could go down.\<close>

theorem unilateral_session_keeps_routes:
  "let s = fold (bgp_step no_filters) unilateral bgp_init; t = fst (session_down no_filters ''r1'' ''r2'' s) in
   snd (open_check ''r1'' ''r2'' (fold (bgp_step no_filters) (take 3 unilateral) bgp_init)) \<and>
   session_of s ''r2'' ''r1'' = None \<and>
   List.map route_key (bn_loc_rib (bgp_node_of (nodes s) ''r2'')) = [(''10.0.0.0'', 8)] \<and>
   map_option bs_state (session_of t ''r1'' ''r2'') = Some BIdle \<and>
   List.map route_key (bn_loc_rib (bgp_node_of (nodes t) ''r2'')) = [(''10.0.0.0'', 8)]"
  by code_simp

end
