(* ===== verification/BgpWire.thy ===== *)
theory BgpWire
  imports Inet
begin

text \<open>
  BGP messages on the wire: the builders of \<open>tools/route_injector_cli.py\<close> (\<open>bgp_build_header\<close> to
  \<open>bgp_build_update\<close>) and the parser \<open>_parse_update\<close> of \<open>engine/real_bgp_agent.py\<close>. The parser's position and
  the end of the attributes are the bytes not read yet and the count of attribute bytes left; an
  attribute that claims others than is left reads on into the prefixes, as the code does.
\<close>

subsection \<open>Building\<close>

definition bgp_marker :: bytes where
  "bgp_marker = replicate 16 0xff"

definition bgp_build_header :: "int \<Rightarrow> bytes \<Rightarrow> bytes res" where
  "bgp_build_header msg_type body =
     res_bind (cat_res [pack_H (int (19 + length body)), pack_B msg_type]) (\<lambda>h. Inr (bgp_marker @ h @ body))"

definition bgp_build_capabilities :: "int \<Rightarrow> bytes res" where
  "bgp_build_capabilities local_as =
     res_bind (pack_I local_as) (\<lambda>as_bytes. Inr ([1, 4, 0, 1, 0, 1, 2, 0, 65, 4] @ as_bytes))"

definition my_as_field :: "int \<Rightarrow> int" where
  "my_as_field local_as = (if local_as > 0xFFFF then 23456 else local_as)"

definition bgp_build_open :: "int \<Rightarrow> int \<Rightarrow> string \<Rightarrow> bytes res" where
  "bgp_build_open local_as hold_time router_id =
     res_bind (bgp_build_capabilities local_as) (\<lambda>caps.
     res_bind (pack_B (int (length caps))) (\<lambda>l.
     (let opt_params = [2] @ l @ caps in
     res_bind (inet_aton router_id) (\<lambda>rid.
     res_bind (cat_res [pack_B 4, pack_H (my_as_field local_as), pack_H hold_time, Inr rid,
                        pack_B (int (length opt_params)), Inr opt_params])
       (bgp_build_header 1)))))"

definition bgp_build_keepalive :: "bytes res" where
  "bgp_build_keepalive = bgp_build_header 4 []"

definition bgp_build_notification :: "int \<Rightarrow> int \<Rightarrow> bytes \<Rightarrow> bytes res" where
  "bgp_build_notification code subcode data =
     res_bind (cat_res [pack_B code, pack_B subcode]) (\<lambda>h. bgp_build_header 3 (h @ data))"

text \<open>\<open>(prefix_len + 7) // 8\<close>; a negative length is refused by \<open>struct.pack\<close>.\<close>

definition bgp_encode_prefix :: "string \<times> int \<Rightarrow> bytes res" where
  "bgp_encode_prefix np =
     (case np of (network, prefix_len) \<Rightarrow>
        res_bind (inet_aton network) (\<lambda>ip_bytes.
        res_bind (pack_B prefix_len) (\<lambda>l. Inr (l @ take (nat ((prefix_len + 7) div 8)) ip_bytes))))"

definition bgp_parse_community :: "string \<Rightarrow> int res" where
  "bgp_parse_community token0 =
     (let token = strip token0; l = lower token
      in if l = ''no-export'' then Inr 0xFFFFFF01
         else if l = ''no-advertise'' then Inr 0xFFFFFF02
         else if l = ''no-export-subconfed'' then Inr 0xFFFFFF03
         else if l = ''blackhole'' then Inr 0xFFFF029A
         else case split_on (CHR '':'') token of
                [a, v] \<Rightarrow>
                  res_bind (res_of ValueError (py_int a)) (\<lambda>a.
                  res_bind (res_of ValueError (py_int v)) (\<lambda>v. Inr (push_bit 16 a OR v)))
              | _ \<Rightarrow> Inl ValueError)"

definition attribute :: "int \<Rightarrow> int \<Rightarrow> bytes \<Rightarrow> bytes res" where
  "attribute flags code val =
     res_bind (cat_res [pack_B flags, pack_B code, pack_B (int (length val))]) (\<lambda>h. Inr (h @ val))"

definition as_path_value :: "int list \<Rightarrow> bytes res" where
  "as_path_value as_path =
     (if as_path = [] then Inr []
      else res_bind (cat_res (List.map pack_I as_path)) (\<lambda>as_seq.
           res_bind (cat_res [pack_B 2, pack_B (int (length as_path))]) (\<lambda>h. Inr (h @ as_seq))))"

text \<open>\<open>as_path\<close> and \<open>communities\<close> are empty where the source has \<open>None\<close>: both are only tested for truth.\<close>

definition bgp_build_path_attributes ::
  "string \<Rightarrow> int list \<Rightarrow> bool \<Rightarrow> int \<Rightarrow> int option \<Rightarrow> int option \<Rightarrow> int list \<Rightarrow> bytes res" where
  "bgp_build_path_attributes next_hop as_path is_ibgp origin med local_pref communities =
     cat_res
       ([res_bind (pack_B origin) (attribute 0x40 1),
         res_bind (as_path_value as_path) (attribute 0x40 2),
         res_bind (inet_aton next_hop) (attribute 0x40 3)] @
        (case med of None \<Rightarrow> [] | Some m \<Rightarrow> [res_bind (pack_I m) (attribute 0x80 4)]) @
        (if is_ibgp then [res_bind (pack_I (case local_pref of None \<Rightarrow> 100 | Some lp \<Rightarrow> lp)) (attribute 0x40 5)] else []) @
        (if communities \<noteq> [] then [res_bind (cat_res (List.map pack_I communities)) (attribute 0xC0 8)] else []))"

definition bgp_build_update ::
  "(string \<times> int) list \<Rightarrow> string \<Rightarrow> int list \<Rightarrow> bool \<Rightarrow> int option \<Rightarrow> int option \<Rightarrow> (string \<times> int) list \<Rightarrow> int list \<Rightarrow> bytes res" where
  "bgp_build_update routes next_hop as_path is_ibgp med local_pref withdrawn communities =
     res_bind (cat_res (List.map bgp_encode_prefix withdrawn)) (\<lambda>withdrawn_bytes.
     res_bind (if routes \<noteq> [] then bgp_build_path_attributes next_hop as_path is_ibgp 0 med local_pref communities
               else Inr []) (\<lambda>path_attrs.
     res_bind (cat_res (List.map bgp_encode_prefix routes)) (\<lambda>nlri_bytes.
     res_bind (cat_res [pack_H (int (length withdrawn_bytes)), Inr withdrawn_bytes,
                        pack_H (int (length path_attrs)), Inr path_attrs, Inr nlri_bytes])
       (bgp_build_header 2))))"

subsection \<open>Parsing\<close>

record update_attrs =
  ua_next_hop :: "string option"
  ua_as_path :: "int list"
  ua_origin :: string
  ua_med :: int
  ua_local_pref :: int

definition no_attrs :: update_attrs where
  "no_attrs = \<lparr>ua_next_hop = None, ua_as_path = [], ua_origin = ''i'', ua_med = 0, ua_local_pref = 100\<rparr>"

fun read_asns :: "nat \<Rightarrow> bytes \<Rightarrow> (int list \<times> bytes) res" where
  "read_asns 0 bs = Inr ([], bs)"
| "read_asns (Suc n) bs =
     res_bind (unpack_at 4 bs 0) (\<lambda>asn.
     res_bind (read_asns n (drop 4 bs)) (\<lambda>(asns, rest). Inr (asn # asns, rest)))"

lemma read_asns_shorter: "read_asns n bs = Inr (asns, rest) \<Longrightarrow> length rest \<le> length bs"
proof (induction n arbitrary: bs asns)
  case (Suc n)
  then obtain asns' where "read_asns n (drop 4 bs) = Inr (asns', rest)"
    by (cases "unpack_at 4 bs 0"; cases "read_asns n (drop 4 bs)") auto
  from Suc.IH [OF this] show ?case by simp
qed simp

function read_segments :: "bytes \<Rightarrow> int list res" where
  "read_segments val =
     (case val of
        [] \<Rightarrow> Inr []
      | seg_type # others \<Rightarrow>
          (case others of
             [] \<Rightarrow> Inl IndexError
           | seg_len # rest \<Rightarrow>
               (case read_asns (nat (uint seg_len)) rest of
                  Inl e \<Rightarrow> Inl e
                | Inr (asns, rest') \<Rightarrow> res_bind (read_segments rest') (\<lambda>others. Inr (asns @ others)))))"
  by pat_completeness auto
termination
  by (relation "measure length") (auto dest: read_asns_shorter)

declare read_segments.simps [simp del]

definition origin_text :: "int \<Rightarrow> string" where
  "origin_text n = (if n = 1 then ''e'' else if n = 2 then ''?'' else ''i'')"

definition use_attribute :: "int \<Rightarrow> bytes \<Rightarrow> update_attrs \<Rightarrow> update_attrs res" where
  "use_attribute code val a =
     (if code = 1 \<and> val \<noteq> [] then Inr (a\<lparr>ua_origin := origin_text (uint (hd val))\<rparr>)
      else if code = 2 then res_bind (read_segments val) (\<lambda>asns. Inr (a\<lparr>ua_as_path := ua_as_path a @ asns\<rparr>))
      else if code = 3 \<and> length val = 4 then res_bind (inet_ntoa val) (\<lambda>nh. Inr (a\<lparr>ua_next_hop := Some nh\<rparr>))
      else if code = 4 \<and> length val = 4 then Inr (a\<lparr>ua_med := from_bytes val\<rparr>)
      else if code = 5 \<and> length val = 4 then Inr (a\<lparr>ua_local_pref := from_bytes val\<rparr>)
      else Inr a)"

text \<open>\<open>n\<close> bytes of attributes are left.\<close>

function parse_attrs :: "bytes \<Rightarrow> nat \<Rightarrow> update_attrs \<Rightarrow> update_attrs res" where
  "parse_attrs bs n a =
     (if n = 0 then Inr a
      else case bs of
             flags # code # rest \<Rightarrow>
               (case (if uint flags AND 0x10 \<noteq> 0
                      then res_bind (unpack_at 2 rest 0) (\<lambda>l. Inr (nat l, 4::nat))
                      else case rest of [] \<Rightarrow> Inl IndexError | l # _ \<Rightarrow> Inr (nat (uint l), 3)) of
                  Inl e \<Rightarrow> Inl e
                | Inr (attr_len, head) \<Rightarrow>
                    res_bind (use_attribute (uint code) (take attr_len (drop head bs)) a)
                      (parse_attrs (drop (head + attr_len) bs) (n - (head + attr_len))))
           | _ \<Rightarrow> Inl IndexError)"
  by pat_completeness auto
termination
  by (relation "measure (\<lambda>(_, n, _). n)") (auto simp: res_bind_def split: if_splits list.splits sum.splits)

declare parse_attrs.simps [simp del]

definition pad4 :: "bytes \<Rightarrow> bytes" where
  "pad4 bs = bs @ replicate (4 - length bs) 0"

function parse_nlri :: "bytes \<Rightarrow> (string \<times> int) list res" where
  "parse_nlri bs =
     (case bs of
        [] \<Rightarrow> Inr []
      | l # rest \<Rightarrow>
          (let k = nat ((uint l + 7) div 8)
           in res_bind (inet_ntoa (pad4 (take k rest))) (\<lambda>net.
              res_bind (parse_nlri (drop k rest)) (\<lambda>others. Inr ((net, uint l) # others)))))"
  by pat_completeness auto
termination by (relation "measure length") auto

declare parse_nlri.simps [simp del]

record parsed_update =
  pu_attrs :: update_attrs
  pu_prefixes :: "(string \<times> int) list"

definition parse_update :: "bytes \<Rightarrow> parsed_update option res" where
  "parse_update body =
     (if length body < 4 then Inr None
      else (let offset = 2 + nat (from_bytes (take 2 body)) in
        if offset + 2 > length body then Inr None
        else (let attrs_len = nat (from_bytes (take 2 (drop offset body))); start = offset + 2 in
          if start + attrs_len > length body then Inr None
          else res_bind (parse_attrs (drop start body) attrs_len no_attrs) (\<lambda>a.
               res_bind (parse_nlri (drop (start + attrs_len) body)) (\<lambda>ps.
               Inr (Some \<lparr>pu_attrs = a, pu_prefixes = ps\<rparr>))))))"

subsection \<open>Prefixes read back\<close>

lemma be_bytes_split: "be_bytes (j + i) n = be_bytes j (n div 256 ^ i) @ be_bytes i n"
proof (induction i arbitrary: n)
  case (Suc i)
  have "n div 256 div 256 ^ i = n div (256 * 256 ^ i)" by (simp add: zdiv_zmult2_eq)
  then show ?case using Suc [of "n div 256"] by simp
qed simp

lemma be_bytes_zero: "be_bytes i 0 = replicate i 0"
  by (induction i) (simp_all add: byte_of_def replicate_append_same)

lemma be_bytes_multiple: "n mod 256 ^ i = 0 \<Longrightarrow> be_bytes i n = replicate i 0"
  using be_bytes_from [of "be_bytes i n" i] by (simp add: from_be_bytes be_bytes_zero)

lemma pad4_prefix:
  assumes "k \<le> 4" "n mod 256 ^ (4 - k) = 0"
  shows "pad4 (take k (be_bytes 4 n)) = be_bytes 4 n"
proof -
  have "be_bytes 4 n = be_bytes k (n div 256 ^ (4 - k)) @ replicate (4 - k) 0"
    using be_bytes_split [of k "4 - k" n] be_bytes_multiple [OF assms(2)] assms(1) by simp
  then show ?thesis using assms(1) by (simp add: pad4_def)
qed

definition bgp_route_ok :: "int \<times> int \<Rightarrow> bool" where
  "bgp_route_ok np \<longleftrightarrow> (case np of (n, p) \<Rightarrow> 0 \<le> n \<and> n < 2 ^ 32 \<and> 0 \<le> p \<and> p \<le> 32 \<and> n AND mask_int p = n)"

definition bgp_route_text :: "int \<times> int \<Rightarrow> string \<times> int" where
  "bgp_route_text np = (int_to_ip (fst np), snd np)"

definition nlri_bytes :: "int \<times> int \<Rightarrow> bytes" where
  "nlri_bytes np = byte_of (snd np) # take (nat ((snd np + 7) div 8)) (be_bytes 4 (fst np))"

lemma network_multiple:
  assumes "n AND mask_int p = n" "0 \<le> p" "p \<le> 32" "8 * i \<le> nat (32 - p)"
  shows "n mod 256 ^ i = 0"
proof -
  have "take_bit (8 * i) n = 0"
  proof (rule bit_eqI)
    fix b
    have "bit n b \<longleftrightarrow> bit n b \<and> bit (mask_int p) b" using assms(1) by (metis bit_and_iff)
    then show "bit (take_bit (8 * i) n) b \<longleftrightarrow> bit 0 b"
      using assms by (auto simp: bit_take_bit_iff bit_mask_int)
  qed
  then show ?thesis by (simp add: take_bit_eq_mod pow_256)
qed

lemma encode_route: "bgp_route_ok np \<Longrightarrow> bgp_encode_prefix (bgp_route_text np) = Inr (nlri_bytes np)"
  by (auto simp: bgp_route_ok_def bgp_encode_prefix_def bgp_route_text_def nlri_bytes_def pack_field_def split: prod.splits)

lemma parse_nlri_Cons:
  assumes "bgp_route_ok np"
  shows "parse_nlri (nlri_bytes np @ rest) = res_bind (parse_nlri rest) (\<lambda>ps. Inr (bgp_route_text np # ps))"
proof -
  obtain n p where np: "np = (n, p)" by (cases np)
  have ok: "0 \<le> n" "n < 2 ^ 32" "0 \<le> p" "p \<le> 32" "n AND mask_int p = n"
    using assms by (auto simp: bgp_route_ok_def np)
  define k where "k = nat ((p + 7) div 8)"
  have k: "k \<le> 4" "8 * (4 - k) \<le> nat (32 - p)" using ok(3,4) by (auto simp: k_def)
  have len: "length (take k (be_bytes 4 n)) = k" using k(1) by simp
  have "pad4 (take k (be_bytes 4 n)) = be_bytes 4 n"
    by (rule pad4_prefix [OF k(1)]) (rule network_multiple [OF ok(5,3,4) k(2)])
  moreover have "uint (byte_of p) = p" using ok(3,4) by (simp add: uint_byte_of)
  ultimately show ?thesis
    using ok(1,2) len
    by (subst parse_nlri.simps) (simp add: nlri_bytes_def np bgp_route_text_def k_def [symmetric] Let_def)
qed

lemma parse_nlri_all:
  "\<forall>r\<in>set rs. bgp_route_ok r \<Longrightarrow> parse_nlri (concat (List.map nlri_bytes rs)) = Inr (List.map bgp_route_text rs)"
proof (induction rs)
  case Nil
  show ?case by (simp add: parse_nlri.simps)
qed (simp add: parse_nlri_Cons)

lemma encode_routes:
  "\<forall>r\<in>set rs. bgp_route_ok r \<Longrightarrow>
   cat_res (List.map bgp_encode_prefix (List.map bgp_route_text rs)) = Inr (concat (List.map nlri_bytes rs))"
  by (induction rs) (simp_all add: encode_route)

subsection \<open>Attributes read back\<close>

lemma attribute_bytes:
  assumes "attribute flags code val = Inr bs"
  shows "bs = byte_of flags # byte_of code # byte_of (int (length val)) # val" "length val < 256"
    "uint (byte_of code) = code"
  using assms by (auto simp: attribute_def pack_field_def uint_byte_of res_bind_def split: if_splits sum.splits)

lemma parse_attrs_0: "parse_attrs bs 0 a = Inr a"
  by (subst parse_attrs.simps) simp

lemma parse_attrs_step:
  assumes "attribute flags code val = Inr bs" "uint (byte_of flags) AND 0x10 = 0"
  shows "parse_attrs (bs @ rest) (length bs + n) a = res_bind (use_attribute code val a) (parse_attrs rest n)"
proof -
  note b = attribute_bytes [OF assms(1)]
  have l: "uint (byte_of (int (length val))) = int (length val)" using b(2) by (simp add: uint_byte_of)
  show ?thesis
    using b(1) assms(2) by (subst parse_attrs.simps) (simp add: l b(3) numeral_3_eq_3)
qed

lemma pack_I_range: "pack_I n = Inr bs \<Longrightarrow> 0 \<le> n \<and> n < 2 ^ 32 \<and> bs = be_bytes 4 n"
  by (auto simp: pack_field_def split: if_splits)

lemma cat_pack_I:
  "cat_res (List.map pack_I ns) = Inr bs \<Longrightarrow> (\<forall>n\<in>set ns. 0 \<le> n \<and> n < 2 ^ 32) \<and> bs = concat (List.map (be_bytes 4) ns)"
proof (induction ns arbitrary: bs)
  case (Cons n ns)
  then obtain b bs' where "pack_I n = Inr b" "cat_res (List.map pack_I ns) = Inr bs'" "bs = b @ bs'"
    by (cases "pack_I n"; cases "cat_res (List.map pack_I ns)") auto
  with Cons.IH [of bs'] pack_I_range [of n b] show ?case by auto
qed simp

lemma read_asns_concat:
  "\<forall>n\<in>set ns. 0 \<le> n \<and> n < 2 ^ 32 \<Longrightarrow>
   read_asns (length ns) (concat (List.map (be_bytes 4) ns) @ rest) = Inr (ns, rest)"
  by (induction ns) (simp_all add: unpack_at_def)

lemma read_as_path:
  assumes "as_path_value as_path = Inr val"
  shows "read_segments val = Inr as_path"
proof (cases "as_path = []")
  case True
  with assms show ?thesis by (simp add: as_path_value_def read_segments.simps)
next
  case False
  from assms False obtain sq where sq: "cat_res (List.map pack_I as_path) = Inr sq"
    and len: "length as_path < 256" and val: "val = byte_of 2 # byte_of (int (length as_path)) # sq"
    by (auto simp: as_path_value_def pack_field_def res_bind_def split: if_splits sum.splits)
  have l: "unat (byte_of (int (length as_path))) = length as_path"
    using len by (simp only: unat_eq_nat_uint uint_byte_of) simp
  have "read_asns (length as_path) sq = Inr (as_path, [])"
    using cat_pack_I [OF sq] read_asns_concat [of as_path "[]"] by simp
  then show ?thesis by (subst read_segments.simps) (simp add: val l read_segments.simps [of "[]"])
qed

lemma flags_short: "uint (byte_of 0x40) AND 0x10 = 0" "uint (byte_of 0x80) AND 0x10 = 0" "uint (byte_of 0xC0) AND 0x10 = 0"
  by (simp_all add: uint_byte_of)

definition parsed_attrs :: "string \<Rightarrow> int list \<Rightarrow> bool \<Rightarrow> int option \<Rightarrow> int option \<Rightarrow> update_attrs" where
  "parsed_attrs next_hop as_path is_ibgp med local_pref =
     \<lparr>ua_next_hop = Some next_hop, ua_as_path = as_path, ua_origin = ''i'',
      ua_med = (case med of None \<Rightarrow> 0 | Some m \<Rightarrow> m),
      ua_local_pref = (if is_ibgp then case local_pref of None \<Rightarrow> 100 | Some lp \<Rightarrow> lp else 100)\<rparr>"

lemma parse_optional:
  assumes "cat_res (if c then [res_bind v (attribute flags code)] else []) = Inr bs"
    "uint (byte_of flags) AND 0x10 = 0"
    "\<And>val. c \<Longrightarrow> v = Inr val \<Longrightarrow> use_attribute code val a = Inr a'" "\<not> c \<Longrightarrow> a' = a"
  shows "parse_attrs (bs @ rest) (length bs + n) a = parse_attrs rest n a'"
proof (cases c)
  case True
  with assms(1) obtain val where "v = Inr val" "attribute flags code val = Inr bs"
    by (auto simp: res_bind_def split: sum.splits)
  with assms(2,3) True parse_attrs_step [of flags code val bs] show ?thesis by simp
next
  case False
  with assms(1,4) show ?thesis by simp
qed

lemma parse_built_attrs:
  assumes "bgp_build_path_attributes (int_to_ip nh) as_path is_ibgp 0 med local_pref communities = Inr bs"
    "0 \<le> nh" "nh < 2 ^ 32"
  shows "parse_attrs (bs @ rest) (length bs) no_attrs = Inr (parsed_attrs (int_to_ip nh) as_path is_ibgp med local_pref)"
proof -
  let ?med = "cat_res (if med \<noteq> None then [res_bind (pack_I (the med)) (attribute 0x80 4)] else [])"
  let ?lp = "cat_res (if is_ibgp then [res_bind (pack_I (case local_pref of None \<Rightarrow> 100 | Some lp \<Rightarrow> lp)) (attribute 0x40 5)] else [])"
  let ?com = "cat_res (if communities \<noteq> [] then [res_bind (cat_res (List.map pack_I communities)) (attribute 0xC0 8)] else [])"
  have app: "cat_res (xs @ ys) = res_bind (cat_res xs) (\<lambda>x. res_bind (cat_res ys) (\<lambda>y. Inr (x @ y)))" for xs ys
    by (induction xs) (auto simp: res_bind_def split: sum.splits)
  have m: "(case med of None \<Rightarrow> [] | Some m \<Rightarrow> [res_bind (pack_I m) (attribute 0x80 4)])
      = (if med \<noteq> None then [res_bind (pack_I (the med)) (attribute 0x80 4)] else [])"
    by (cases med) simp_all
  from assms(1) obtain b1 v2 b2 b3 bm bl bc where
    b: "res_bind (pack_B 0) (attribute 0x40 1) = Inr b1" "as_path_value as_path = Inr v2" "attribute 0x40 2 v2 = Inr b2"
      "attribute 0x40 3 (be_bytes 4 nh) = Inr b3"
    and opt: "?med = Inr bm" "?lp = Inr bl" "?com = Inr bc" and bs: "bs = b1 @ b2 @ b3 @ bm @ bl @ bc"
    using assms(2,3) unfolding bgp_build_path_attributes_def m app
    by (auto simp: res_bind_def split: sum.splits if_splits)
  let ?a0 = "no_attrs\<lparr>ua_as_path := as_path, ua_next_hop := Some (int_to_ip nh)\<rparr>"
  let ?a1 = "?a0\<lparr>ua_med := (case med of None \<Rightarrow> 0 | Some m \<Rightarrow> m)\<rparr>"
  let ?a2 = "parsed_attrs (int_to_ip nh) as_path is_ibgp med local_pref"
  have o: "attribute 0x40 1 [0] = Inr b1" using b(1) by (simp add: pack_field_def byte_of_def)
  have med: "parse_attrs (bm @ r) (length bm + n) ?a0 = parse_attrs r n ?a1" for r n
    by (rule parse_optional [OF opt(1) flags_short(2)])
      (auto dest!: pack_I_range simp: use_attribute_def no_attrs_def)
  have lp: "parse_attrs (bl @ r) (length bl + n) ?a1 = parse_attrs r n ?a2" for r n
    by (rule parse_optional [OF opt(2) flags_short(1)])
      (auto dest!: pack_I_range simp: use_attribute_def no_attrs_def parsed_attrs_def)
  have com: "parse_attrs (bc @ r) (length bc + n) ?a2 = parse_attrs r n ?a2" for r n
    by (rule parse_optional [OF opt(3) flags_short(3)]) (simp_all add: use_attribute_def)
  note step = parse_attrs_step [OF _ flags_short(1)]
  show ?thesis
    using step [OF o, of "b2 @ b3 @ bm @ bl @ bc @ rest" "length b2 + (length b3 + (length bm + (length bl + (length bc + 0))))" no_attrs]
      step [OF b(3), of "b3 @ bm @ bl @ bc @ rest" "length b3 + (length bm + (length bl + (length bc + 0)))" no_attrs]
      step [OF b(4), of "bm @ bl @ bc @ rest" "length bm + (length bl + (length bc + 0))" "no_attrs\<lparr>ua_as_path := as_path\<rparr>"]
      med [of "bl @ bc @ rest" "length bl + (length bc + 0)"] lp [of "bc @ rest" "length bc + 0"] com [of rest 0] assms(2,3)
    by (simp add: bs use_attribute_def read_as_path [OF b(2)] origin_text_def no_attrs_def parse_attrs_0)
qed

subsection \<open>Messages read back\<close>

lemma header_drop: "bgp_build_header t body = Inr msg \<Longrightarrow> drop 19 msg = body \<and> length body < 65517"
  by (auto simp: bgp_build_header_def bgp_marker_def pack_field_def split: if_splits)

lemma update_parsed:
  assumes "bgp_build_update (List.map bgp_route_text rs) (int_to_ip nh) as_path is_ibgp med local_pref withdrawn communities = Inr msg"
    "\<forall>r\<in>set rs. bgp_route_ok r" "0 \<le> nh" "nh < 2 ^ 32"
  shows "parse_update (drop 19 msg) =
    Inr (Some \<lparr>pu_attrs = (if rs = [] then no_attrs else parsed_attrs (int_to_ip nh) as_path is_ibgp med local_pref),
               pu_prefixes = List.map bgp_route_text rs\<rparr>)"
proof -
  from assms(1) obtain wd attrs w a where
    attrs: "(if rs \<noteq> [] then bgp_build_path_attributes (int_to_ip nh) as_path is_ibgp 0 med local_pref communities else Inr []) = Inr attrs"
    and w: "pack_H (int (length wd)) = Inr w" and a: "pack_H (int (length attrs)) = Inr a"
    and h: "bgp_build_header 2 (w @ wd @ a @ attrs @ concat (List.map nlri_bytes rs)) = Inr msg"
    using encode_routes [OF assms(2)]
    by (auto simp: bgp_build_update_def res_bind_def split: sum.splits)
  have wb: "w = be_bytes 2 (int (length wd))" "length wd < 2 ^ 16"
    and ab: "a = be_bytes 2 (int (length attrs))" "length attrs < 2 ^ 16"
    using w a by (auto simp: pack_field_def split: if_splits)
  have lw: "length w = 2" "from_bytes w = int (length wd)" and la: "length a = 2" "from_bytes a = int (length attrs)"
    using wb ab by simp_all
  have parsed: "parse_attrs (attrs @ concat (List.map nlri_bytes rs)) (length attrs) no_attrs =
      Inr (if rs = [] then no_attrs else parsed_attrs (int_to_ip nh) as_path is_ibgp med local_pref)"
    using attrs parse_built_attrs [OF _ assms(3,4)] by (cases "rs = []") (auto simp: parse_attrs_0)
  have body: "drop 19 msg = w @ wd @ a @ attrs @ concat (List.map nlri_bytes rs)" using header_drop [OF h] by simp
  show ?thesis
    unfolding body
    using parsed parse_nlri_all [OF assms(2)]
    by (simp add: parse_update_def Let_def lw la)
qed

text \<open>C22. The emulator's BGP parser inverts the injector's UPDATE builder: whenever a message is built, next
  hop, AS path, MED, local preference and every announced prefix come back as they were given (defaults
  where an attribute is not sent), for all prefix lengths, and whatever else the message carries:
  communities and withdrawn routes leave no trace.\<close>

theorem update_read_back:
  assumes "bgp_build_update (List.map bgp_route_text rs) (int_to_ip nh) as_path is_ibgp med local_pref withdrawn communities = Inr msg"
    "\<forall>r\<in>set rs. bgp_route_ok r" "0 \<le> nh" "nh < 2 ^ 32"
  shows "parse_update (drop 19 msg) =
    Inr (Some \<lparr>pu_attrs = (if rs = [] then no_attrs else parsed_attrs (int_to_ip nh) as_path is_ibgp med local_pref),
               pu_prefixes = List.map bgp_route_text rs\<rparr>)"
  using assms by (rule update_parsed)

theorem update_read_back_witness:
  "\<exists>msg. bgp_build_update (List.map bgp_route_text [(0x0A010000, 20), (0, 0)]) (int_to_ip 0x0A000001) [65001, 4200000001] False
       (Some 50) None [(''172.16.0.0'', 12)] [0xFFFFFF01] = Inr msg \<and>
     parse_update (drop 19 msg) = Inr (Some \<lparr>pu_attrs =
       (if [(0x0A010000, 20), (0::int, 0::int)] = [] then no_attrs
        else parsed_attrs (int_to_ip 0x0A000001) [65001, 4200000001] False (Some 50) None),
       pu_prefixes = List.map bgp_route_text [(0x0A010000, 20), (0, 0)]\<rparr>)"
proof -
  define msg where "msg = projr (bgp_build_update (List.map bgp_route_text [(0x0A010000, 20), (0, 0)]) (int_to_ip 0x0A000001)
      [65001, 4200000001] False (Some 50) None [(''172.16.0.0'', 12)] [0xFFFFFF01])"
  have "isl (bgp_build_update (List.map bgp_route_text [(0x0A010000, 20), (0, 0)]) (int_to_ip 0x0A000001)
      [65001, 4200000001] False (Some 50) None [(''172.16.0.0'', 12)] [0xFFFFFF01]) = False"
    by code_simp
  then have b: "bgp_build_update (List.map bgp_route_text [(0x0A010000, 20), (0, 0)]) (int_to_ip 0x0A000001) [65001, 4200000001] False
       (Some 50) None [(''172.16.0.0'', 12)] [0xFFFFFF01] = Inr msg"
    unfolding msg_def by (metis sum.collapse(2))
  have ok: "\<forall>r\<in>set [(0x0A010000, 20), (0::int, 0::int)]. bgp_route_ok r" by code_simp
  show ?thesis by (intro exI conjI, rule b, rule update_read_back [OF b ok]) simp_all
qed

text \<open>A truncated AS path raises, and a prefix longer than 32 bits raises as soon as its fifth byte is
  there; but a prefix whose bytes are missing is silently filled up with zeros.\<close>

theorem malformed_updates:
  "parse_update [0, 0, 0, 7, 0x40, 2, 4, 2, 1, 0, 1] = Inl StructError \<and>
   parse_update [0, 0, 0, 0, 33, 10, 0, 0, 0, 0] = Inl OSError \<and>
   parse_update [0, 0, 0, 0, 24, 10] = Inr (Some \<lparr>pu_attrs = no_attrs, pu_prefixes = [(''10.0.0.0'', 24)]\<rparr>) \<and>
   parse_update [0, 0, 0, 8, 0x40, 1, 1] = Inr None"
  by (intro conjI; code_simp)

end
