(* ===== verification/BgpAgent.thy ===== *)
theory BgpAgent
  imports BgpScenarios BgpWire
begin

text \<open>
  The TCP side of BGP, \<open>engine/real_bgp_agent.py\<close>: \<open>class BgpSessionHandler\<close> reads the messages an outside
  speaker sends, answers them, mirrors the state of the connection into the sessions of \<open>BgpEngine\<close> and
  stores the routes of UPDATE messages in its tables. The connection is the bytes the peer sends until it
  closes; what the handler writes is collected. The peer's address is known.
\<close>

subsection \<open>The handler\<close>

record agent =
  ag_device :: dev
  ag_peer :: string
  ag_state :: session_state
  ag_peer_as :: "int option"

definition build_open :: "int \<Rightarrow> int \<Rightarrow> string \<Rightarrow> bytes res" where
  "build_open local_as hold_time router_id =
     res_bind (inet_aton router_id) (\<lambda>rid.
     res_bind (cat_res [pack_B 4, pack_H (my_as_field local_as), pack_H hold_time, Inr rid, pack_B 0])
       (bgp_build_header 1))"

definition external_name :: "string \<Rightarrow> string" where
  "external_name peer = ''external('' @ peer @ '')''"

definition external_session :: "agent \<Rightarrow> bgp_session" where
  "external_session a =
     \<lparr>bs_hostname = external_name (ag_peer a), bs_remote_as = (case ag_peer_as a of None \<Rightarrow> 0 | Some x \<Rightarrow> x),
      bs_state = BIdle, bs_uptime = None, bs_password = [], bs_route_map_in = [], bs_route_map_out = [],
      bs_bfd = False, bs_bfd_up = False, bs_neighbor_ip = ag_peer a, bs_prefix_list_in = [], bs_prefix_list_out = [],
      bs_send_community = False, bs_reflector_client = False, bs_graceful_restart = False, bs_llgr = False,
      bs_restart_time = 120\<rparr>"

definition known_as :: "agent \<Rightarrow> int option" where
  "known_as a = (case ag_peer_as a of None \<Rightarrow> None | Some x \<Rightarrow> if x = 0 then None else Some x)"

definition sync_session :: "rat \<Rightarrow> session_state \<Rightarrow> agent \<Rightarrow> bgp \<Rightarrow> bgp" where
  "sync_session now st a s =
     upd_node (ag_device a) (\<lambda>n.
       let sess = dget_or (bn_sessions n) (ag_peer a) (external_session a);
           sess1 = (case known_as a of None \<Rightarrow> sess | Some x \<Rightarrow> sess\<lparr>bs_remote_as := x\<rparr>);
           up = (if st = BEstablished \<and> (bs_uptime sess = None \<or> bs_uptime sess = Some 0) then Some now
                 else if st = BIdle then None else bs_uptime sess)
       in n\<lparr>bn_sessions := dset (bn_sessions n) (ag_peer a) (sess1\<lparr>bs_state := st, bs_uptime := up\<rparr>)\<rparr>) s"

definition external_route :: "string \<Rightarrow> update_attrs \<Rightarrow> string \<times> int \<Rightarrow> bgp_route" where
  "external_route peer a np =
     \<lparr>br_prefix = fst np, br_len = snd np,
      br_next_hop = (case ua_next_hop a of None \<Rightarrow> peer | Some nh \<Rightarrow> nh),
      br_local_pref = ua_local_pref a, br_med = ua_med a, br_as_path = ua_as_path a, br_origin = ua_origin a,
      br_from = peer, br_from_host = external_name peer, br_communities = [], br_stale = False, br_rpki = RpkiNotFound\<rparr>"

definition replace_route :: "bgp_route \<Rightarrow> bgp_route list \<Rightarrow> bgp_route list" where
  "replace_route r rib = filter (\<lambda>x. \<not> (route_key x = route_key r \<and> br_from x = br_from r)) rib @ [r]"

definition apply_update :: "parsed_update \<Rightarrow> agent \<Rightarrow> bgp \<Rightarrow> bgp" where
  "apply_update u a s =
     upd_node (ag_device a) (\<lambda>n.
       fold (\<lambda>np n. let r = external_route (ag_peer a) (pu_attrs u) np
                    in n\<lparr>bn_loc_rib := replace_route r (bn_loc_rib n), bn_rib_in := replace_route r (bn_rib_in n)\<rparr>)
         (pu_prefixes u) n) s"

subsection \<open>Messages\<close>

text \<open>The connection: the handler, the engine, what was written, and whether the loop goes on.\<close>

record conn =
  cn_agent :: agent
  cn_bgp :: bgp
  cn_out :: "bytes list"

definition goto_state :: "rat \<Rightarrow> session_state \<Rightarrow> conn \<Rightarrow> conn" where
  "goto_state now st c = (let a = (cn_agent c)\<lparr>ag_state := st\<rparr> in c\<lparr>cn_agent := a, cn_bgp := sync_session now st a (cn_bgp c)\<rparr>)"

definition write_msg :: "bytes \<Rightarrow> conn \<Rightarrow> conn" where
  "write_msg bs c = c\<lparr>cn_out := cn_out c @ [bs]\<rparr>"

definition open_as :: "bytes \<Rightarrow> int option \<Rightarrow> int option" where
  "open_as body old = (if length body \<ge> 9 then Some (from_bytes (take 2 (drop 1 body))) else old)"

text \<open>One message: the connection afterwards and whether \<open>run\<close> goes on; a NOTIFICATION ends it, and so does
  an exception.\<close>

definition bgp_message :: "rat \<Rightarrow> int \<Rightarrow> string \<Rightarrow> int \<Rightarrow> bytes \<Rightarrow> conn \<Rightarrow> conn \<times> bool" where
  "bgp_message now local_as router_id mtype body c =
     (if mtype = 1 then
        (let c1 = goto_state now BOpenSent
               (c\<lparr>cn_agent := (cn_agent c)\<lparr>ag_peer_as := open_as body (ag_peer_as (cn_agent c))\<rparr>\<rparr>)
         in case build_open local_as 180 router_id of
              Inl e \<Rightarrow> (c1, False)
            | Inr om \<Rightarrow> (case bgp_build_keepalive of
                Inl e \<Rightarrow> (write_msg om c1, False)
              | Inr ka \<Rightarrow> (goto_state now BOpenConfirm (write_msg ka (write_msg om c1)), True)))
      else if mtype = 4 then
        (let c1 = (if ag_state (cn_agent c) = BOpenConfirm then goto_state now BEstablished c else c)
         in case bgp_build_keepalive of Inl e \<Rightarrow> (c1, False) | Inr ka \<Rightarrow> (write_msg ka c1, True))
      else if mtype = 2 then
        (case parse_update body of
           Inl e \<Rightarrow> (c, False)
         | Inr None \<Rightarrow> (c, True)
         | Inr (Some u) \<Rightarrow> (if pu_prefixes u = [] then c else c\<lparr>cn_bgp := apply_update u (cn_agent c) (cn_bgp c)\<rparr>, True))
      else (c, mtype \<noteq> 3))"

text \<open>\<open>readexactly(19)\<close> and \<open>readexactly(body_len)\<close> on what is left of the stream.\<close>

definition body_length :: "bytes \<Rightarrow> nat" where
  "body_length bs = nat (from_bytes (take 2 (drop 16 bs)) - 19)"

function bgp_messages :: "rat \<Rightarrow> int \<Rightarrow> string \<Rightarrow> bytes \<Rightarrow> conn \<Rightarrow> conn" where
  "bgp_messages now local_as router_id bs c =
     (if length bs < 19 \<or> length bs < 19 + body_length bs then c
      else (case bgp_message now local_as router_id (uint (bs ! 18)) (take (body_length bs) (drop 19 bs)) c of
              (c1, True) \<Rightarrow> bgp_messages now local_as router_id (drop (19 + body_length bs) bs) c1
            | (c1, False) \<Rightarrow> c1))"
  by pat_completeness auto
termination by (relation "measure (\<lambda>(_, _, _, bs, _). length bs)") auto

declare bgp_messages.simps [simp del]

text \<open>\<open>run\<close>: every end of the connection, exceptions included, passes through the \<open>finally\<close> clause. It sets the
  session of the engine to Idle, not the handler's own state.\<close>

definition bgp_run :: "rat \<Rightarrow> dev \<Rightarrow> string \<Rightarrow> bytes \<Rightarrow> bgp \<Rightarrow> conn" where
  "bgp_run now d peer bs s =
     (let n = bgp_node_of (nodes s) d;
          local_as = (case bn_local_as n of None \<Rightarrow> 65000 | Some x \<Rightarrow> if x = 0 then 65000 else x);
          router = (if bn_router_id n = [] then ''10.1.0.1'' else bn_router_id n);
          a = \<lparr>ag_device = d, ag_peer = peer, ag_state = BActive, ag_peer_as = None\<rparr>;
          c = bgp_messages now local_as router bs
                \<lparr>cn_agent = a, cn_bgp = sync_session now BActive a s, cn_out = []\<rparr>
      in c\<lparr>cn_bgp := sync_session now BIdle (cn_agent c) (cn_bgp c)\<rparr>)"

subsection \<open>What a connection leaves behind\<close>

lemma replace_route_unique: "rib_unique rib \<Longrightarrow> rib_unique (replace_route r rib)"
  by (auto simp: rib_unique_def replace_route_def distinct_map_filter rib_id_def)

lemma announced_replace:
  "announced (replace_route r rib) d k = (if (d, k) = rib_id r then Some r else announced rib d k)"
proof -
  have "announced (filter (\<lambda>x. \<not> (route_key x = route_key r \<and> br_from x = br_from r)) rib) d k =
      (if (d, k) \<noteq> rib_id r then announced rib d k else None)"
    by (rule announced_filter) (auto simp: rib_id_def)
  moreover have "announced [r] d k = (if (d, k) = rib_id r then Some r else None)" by (simp add: announced_def eq_commute)
  ultimately show ?thesis by (auto simp: replace_route_def announced_append split: option.split)
qed

definition store_all :: "string \<Rightarrow> update_attrs \<Rightarrow> (string \<times> int) list \<Rightarrow> bgp_node \<Rightarrow> bgp_node" where
  "store_all peer a ps n =
     fold (\<lambda>np n. let r = external_route peer a np
                  in n\<lparr>bn_loc_rib := replace_route r (bn_loc_rib n), bn_rib_in := replace_route r (bn_rib_in n)\<rparr>) ps n"

lemma store_all_ribs:
  "bn_rib_in (store_all peer a ps n) = fold (\<lambda>np. replace_route (external_route peer a np)) ps (bn_rib_in n)"
  "bn_loc_rib (store_all peer a ps n) = fold (\<lambda>np. replace_route (external_route peer a np)) ps (bn_loc_rib n)"
  by (induction ps arbitrary: n) (simp_all add: store_all_def Let_def)

lemma announced_stored:
  "announced (fold (\<lambda>np. replace_route (external_route peer a np)) ps rib) d k =
     (if d = peer \<and> k \<in> set ps then Some (external_route peer a k) else announced rib d k)"
  by (induction ps arbitrary: rib)
    (auto simp: announced_replace rib_id_def route_key_def external_route_def split: if_splits)

lemma apply_update_ok: "bgp_ok s \<Longrightarrow> bgp_ok (apply_update u a s)"
proof -
  have "rib_unique (fold (\<lambda>np. replace_route (external_route peer u' np)) ps rib)" if "rib_unique rib" for peer u' ps rib
    using that by (induction ps arbitrary: rib) (simp_all add: replace_route_unique)
  moreover assume "bgp_ok s"
  ultimately show ?thesis
    unfolding apply_update_def store_all_def [symmetric] by (intro upd_node_ok) (simp_all add: store_all_ribs)
qed

lemma sync_session_ok: "bgp_ok s \<Longrightarrow> bgp_ok (sync_session now st a s)"
  unfolding sync_session_def by (rule upd_node_ok) (simp_all add: Let_def)

lemma goto_state_simps [simp]:
  "ag_device (cn_agent (goto_state now st c)) = ag_device (cn_agent c)"
  "ag_peer (cn_agent (goto_state now st c)) = ag_peer (cn_agent c)"
  "cn_bgp (goto_state now st c) = sync_session now st ((cn_agent c)\<lparr>ag_state := st\<rparr>) (cn_bgp c)"
  by (simp_all add: goto_state_def Let_def)

lemma write_msg_simps [simp]: "cn_agent (write_msg bs c) = cn_agent c" "cn_bgp (write_msg bs c) = cn_bgp c"
  by (simp_all add: write_msg_def)

lemma bgp_message_keeps:
  assumes "bgp_message now la r t body c = (c1, b)"
  shows "ag_device (cn_agent c1) = ag_device (cn_agent c)" "ag_peer (cn_agent c1) = ag_peer (cn_agent c)"
    "bgp_ok (cn_bgp c) \<Longrightarrow> bgp_ok (cn_bgp c1)"
  using assms
  by (auto simp: bgp_message_def Let_def sync_session_ok apply_update_ok split: if_splits sum.splits option.splits)

lemma bgp_messages_keeps:
  "ag_device (cn_agent (bgp_messages now la r bs c)) = ag_device (cn_agent c) \<and>
   ag_peer (cn_agent (bgp_messages now la r bs c)) = ag_peer (cn_agent c) \<and>
   (bgp_ok (cn_bgp c) \<longrightarrow> bgp_ok (cn_bgp (bgp_messages now la r bs c)))"
proof (induction now la r bs c rule: bgp_messages.induct)
  case (1 now la r bs c)
  obtain c1 b where m: "bgp_message now la r (uint (bs ! 18)) (take (body_length bs) (drop 19 bs)) c = (c1, b)"
    by (cases "bgp_message now la r (uint (bs ! 18)) (take (body_length bs) (drop 19 bs)) c")
  note kept = bgp_message_keeps [OF m]
  show ?case
  proof (cases "length bs < 19 \<or> length bs < 19 + body_length bs")
    case True
    then show ?thesis by (subst (1 2 3) bgp_messages.simps) simp
  next
    case False
    with m have "bgp_messages now la r bs c = (if b then bgp_messages now la r (drop (19 + body_length bs) bs) c1 else c1)"
      by (subst bgp_messages.simps) simp
    then show ?thesis using 1 [OF False m [symmetric]] kept by (cases b) simp_all
  qed
qed

text \<open>C36. However the connection of an outside speaker ends, by its close, a NOTIFICATION, a truncated message
  or an exception in a handler, whatever bytes it sent: the engine's session for it is Idle, without an
  uptime, and the tables still hold at most one route per prefix and neighbour.\<close>

theorem connection_ends_idle:
  "map_option (\<lambda>x. (bs_state x, bs_uptime x)) (session_of (cn_bgp (bgp_run now d peer bs s)) d peer) = Some (BIdle, None) \<and>
   (bgp_good (nodes s) \<longrightarrow> bgp_good (nodes (cn_bgp (bgp_run now d peer bs s))))"
proof -
  obtain la r c where run: "bgp_run now d peer bs s =
      (let c = bgp_messages now la r bs c in c\<lparr>cn_bgp := sync_session now BIdle (cn_agent c) (cn_bgp c)\<rparr>)"
    and c: "cn_agent c = \<lparr>ag_device = d, ag_peer = peer, ag_state = BActive, ag_peer_as = None\<rparr>"
      "cn_bgp c = sync_session now BActive (cn_agent c) s"
    by (simp add: bgp_run_def Let_def)
  have kept: "ag_device (cn_agent (bgp_messages now la r bs c)) = d" "ag_peer (cn_agent (bgp_messages now la r bs c)) = peer"
    "bgp_ok s \<longrightarrow> bgp_ok (cn_bgp (bgp_messages now la r bs c))"
    using bgp_messages_keeps [of now la r bs c] sync_session_ok [of s now BActive "cn_agent c"] by (simp_all add: c)
  have "map_option (\<lambda>x. (bs_state x, bs_uptime x)) (session_of (sync_session now BIdle a t) (ag_device a) (ag_peer a)) = Some (BIdle, None)" for a t
    by (simp add: sync_session_def session_of_def upd_node_def Let_def)
  from this [of "cn_agent (bgp_messages now la r bs c)"] kept show ?thesis by (simp add: run Let_def sync_session_ok)
qed

lemma connection_ends_idle_witness:
  "bgp_good (nodes (cn_bgp (bgp_run 7 ''r2'' ''192.0.2.1'' (replicate 18 0xff @ [1, 2, 3]) duo_state)))"
proof -
  have "bgp_good (nodes duo_state)" using rounds_ok [OF duo_stops duo_good(1)] by (simp add: duo_state_def)
  then show ?thesis using connection_ends_idle by blast
qed

text \<open>An UPDATE built by the injector and handed to the handler stores exactly its announced routes, each as
  the peer's route with the attributes given; every other route of every neighbour stays, those the
  message withdraws included, and it does so in every state of the connection, established or not.\<close>

theorem injected_update_stored:
  assumes "bgp_build_update (List.map bgp_route_text rs) (int_to_ip nh) as_path is_ibgp med local_pref withdrawn communities = Inr msg"
    "rs \<noteq> []" "\<forall>r\<in>set rs. bgp_route_ok r" "0 \<le> nh" "nh < 2 ^ 32"
  shows "bgp_message now la router 2 (drop 19 msg) c =
      (c\<lparr>cn_bgp := upd_node (ag_device (cn_agent c))
           (store_all (ag_peer (cn_agent c)) (parsed_attrs (int_to_ip nh) as_path is_ibgp med local_pref) (List.map bgp_route_text rs))
           (cn_bgp c)\<rparr>, True) \<and>
    announced (bn_rib_in (store_all peer (parsed_attrs (int_to_ip nh) as_path is_ibgp med local_pref) (List.map bgp_route_text rs) n)) d k =
      (if d = peer \<and> k \<in> bgp_route_text ` set rs
       then Some (external_route peer (parsed_attrs (int_to_ip nh) as_path is_ibgp med local_pref) k)
       else announced (bn_rib_in n) d k)"
  using update_parsed [OF assms(1,3-5)] assms(2)
  by (simp add: bgp_message_def apply_update_def store_all_ribs announced_stored store_all_def [symmetric])

lemma injected_update_stored_witness:
  "\<exists>msg. bgp_build_update (List.map bgp_route_text [(0x0A010000, 16)]) (int_to_ip 0x0A000001) [65001] False None None
       [(''172.16.0.0'', 12)] [] = Inr msg \<and>
     (\<forall>k. announced (bn_rib_in (store_all ''192.0.2.1'' (parsed_attrs (int_to_ip 0x0A000001) [65001] False None None)
        (List.map bgp_route_text [(0x0A010000, 16)]) node1)) ''r1'' k = announced (bn_rib_in node1) ''r1'' k)"
proof -
  define msg where "msg = projr (bgp_build_update (List.map bgp_route_text [(0x0A010000, 16)]) (int_to_ip 0x0A000001)
      [65001] False None None [(''172.16.0.0'', 12)] [])"
  have "isl (bgp_build_update (List.map bgp_route_text [(0x0A010000, 16)]) (int_to_ip 0x0A000001)
      [65001] False None None [(''172.16.0.0'', 12)] []) = False"
    by code_simp
  then have b: "bgp_build_update (List.map bgp_route_text [(0x0A010000, 16)]) (int_to_ip 0x0A000001) [65001] False
       None None [(''172.16.0.0'', 12)] [] = Inr msg"
    unfolding msg_def by (metis sum.collapse(2))
  have ok: "\<forall>r\<in>set [(0x0A010000, 16::int)]. bgp_route_ok r" by code_simp
  have "announced (bn_rib_in (store_all ''192.0.2.1'' (parsed_attrs (int_to_ip 0x0A000001) [65001] False None None)
        (List.map bgp_route_text [(0x0A010000, 16)]) node1)) ''r1'' k = announced (bn_rib_in node1) ''r1'' k" for k
    using injected_update_stored [OF b _ ok, of 0 0 "[]" undefined "''192.0.2.1''" node1 "''r1''" k] by simp
  with b show ?thesis by blast
qed

subsection \<open>A connection without a handshake\<close>

definition injected :: bytes where
  "injected = projr (bgp_build_update [(''10.1.0.0'', 16)] ''10.0.0.1'' [65001] False None None [] [])"

text \<open>A peer that never sends an OPEN, so that no session is established, still gets its routes into the
  table of best paths; and they stay there after the connection is gone.\<close>

theorem routes_without_handshake:
  "List.map (\<lambda>r. (route_key r, br_from r)) (bn_loc_rib (bgp_node_of
     (nodes (cn_bgp (bgp_run 7 ''r1'' ''192.0.2.1'' injected bgp_init))) ''r1'')) = [((''10.1.0.0'', 16), ''192.0.2.1'')] \<and>
   ag_state (cn_agent (bgp_run 7 ''r1'' ''192.0.2.1'' injected bgp_init)) = BActive \<and>
   cn_out (bgp_run 7 ''r1'' ''192.0.2.1'' injected bgp_init) = []"
  by code_simp

end
