(* ===== verification/Agenda.thy ===== *)
theory Agenda
  imports Main
begin

text \<open>
  Calls that call on: a handler that sends a packet runs the receiver's handler before it goes on, and that
  one may send again. The calls still to be made are kept as a list, the head being made next; one step
  makes it and puts the calls it leads to in front of the others. The number of steps is bounded by
  fuel: \<open>None\<close> says that the calls have not come to an end.
\<close>

fun run_agenda :: "('t \<Rightarrow> 's \<Rightarrow> 't list \<times> 's) \<Rightarrow> nat \<Rightarrow> 't list \<Rightarrow> 's \<Rightarrow> 's option" where
  "run_agenda step k [] s = Some s"
| "run_agenda step 0 (t # ts) s = None"
| "run_agenda step (Suc k) (t # ts) s = (case step t s of (ts', s') \<Rightarrow> run_agenda step k (ts' @ ts) s')"

lemma run_agenda_more: "run_agenda step k ts s = Some s' \<Longrightarrow> run_agenda step (k + j) ts s = Some s'"
proof (induction step k ts s rule: run_agenda.induct)
  case (1 step k s)
  then show ?case by (cases "k + j") simp_all
qed (auto split: prod.splits)

text \<open>What every call keeps, every finished run keeps. \<open>ok\<close> says which calls can be pending in a state.\<close>

locale agenda =
  fixes step :: "'t \<Rightarrow> 's \<Rightarrow> 't list \<times> 's"
    and ok :: "'t \<Rightarrow> bool"
    and inv :: "'s \<Rightarrow> bool"
  assumes step_inv: "inv s \<Longrightarrow> ok t \<Longrightarrow> step t s = (ts, s') \<Longrightarrow> inv s' \<and> (\<forall>t\<in>set ts. ok t)"
begin

lemma run_keeps: "run_agenda step k ts s = Some s' \<Longrightarrow> inv s \<Longrightarrow> (\<forall>t\<in>set ts. ok t) \<Longrightarrow> inv s'"
proof (induction k arbitrary: ts s)
  case 0
  then show ?case by (cases ts) simp_all
next
  case (Suc k)
  show ?case
  proof (cases ts)
    case Nil
    with Suc.prems show ?thesis by simp
  next
    case (Cons t us)
    obtain vs s1 where step: "step t s = (vs, s1)" by (cases "step t s")
    have "inv s1" "\<forall>t\<in>set vs. ok t" using step_inv [OF Suc.prems(2) _ step] Suc.prems(3) Cons by auto
    moreover have "run_agenda step k (vs @ us) s1 = Some s'" using Suc.prems(1) Cons step by simp
    ultimately show ?thesis using Suc.IH [of "vs @ us" s1] Suc.prems(3) Cons by auto
  qed
qed

end

end
