(* ===== verification/Eigrp.thy ===== *)
theory Eigrp
  imports Complex_Main Filters VNet Agenda Machine
begin

text \<open>
  \<open>class EigrpEngine\<close>: neighbours from Hellos, the topology table, updates with split horizon, hold timers.
  \<open>VirtualNetwork.send_to\<close> runs the receiver's \<open>receive\<close> at once, so a handler is an agenda of calls
  (theory \<open>Agenda\<close>); handlers that a timer or a command starts are the operations of the engine. Log
  messages, the random \<open>srtt\<close> and \<open>seq\<close> of a neighbour and its other display-only values are left out, and
  so is \<open>redistributed\<close>, which no code of the repository ever fills for EIGRP.
\<close>

subsection \<open>State\<close>

record eigrp_route =
  er_network :: ip
  er_prefix :: int
  er_fd :: int
  er_rd :: int
  er_next_hop :: ip
  er_from :: dev
  er_from_host :: string
  er_external :: bool
  er_time :: rat

record eigrp_neighbor =
  eb_hostname :: string
  eb_ip :: ip
  eb_iface :: iface
  eb_up_since :: rat
  eb_last_seen :: rat

record eigrp_node =
  eg_enabled :: bool
  eg_asn :: int
  eg_hostname :: string
  eg_router_id :: string
  eg_networks :: "string list"
  eg_topology :: "eigrp_route list"
  eg_neighbors :: "(dev, eigrp_neighbor) dict"
  eg_k :: "int list"
  eg_variance :: int
  eg_passive :: "iface list"
  eg_hello_task :: bool
  eg_hold :: "(dev, rat option) dict"

type_synonym eigrp = "(dev, eigrp_node) dict"

record eigrp_entry =
  ee_network :: ip
  ee_prefix :: int
  ee_metric :: int
  ee_external :: bool

record eigrp_packet =
  ek_src :: dev
  ek_src_host :: string
  ek_asn :: int
  ek_k :: "int list"
  ek_hello :: bool
  ek_entries :: "eigrp_entry list"

text \<open>What the engine reads of the others.\<close>

record eigrp_world =
  ew_net :: vnet
  ew_env :: l2env
  ew_filters :: filter_engine
  ew_now :: rat

definition eigrp_max_metric :: int where "eigrp_max_metric = 4294967295"

definition eigrp_classic_metric :: "int \<Rightarrow> int \<Rightarrow> int" where
  "eigrp_classic_metric bandwidth_kbps delay_tens_usec =
     (if bandwidth_kbps \<le> 0 then eigrp_max_metric else 256 * (10000000 div bandwidth_kbps + delay_tens_usec))"

definition link_metric :: int where "link_metric = eigrp_classic_metric 1000000 1"

definition new_eigrp_node :: "dev \<Rightarrow> eigrp_node" where
  "new_eigrp_node d = \<lparr>eg_enabled = False, eg_asn = 0, eg_hostname = d, eg_router_id = [], eg_networks = [],
     eg_topology = [], eg_neighbors = [], eg_k = [1, 0, 1, 0, 0], eg_variance = 1, eg_passive = [],
     eg_hello_task = False, eg_hold = []\<rparr>"

definition eigrp_node_of :: "eigrp \<Rightarrow> dev \<Rightarrow> eigrp_node" where
  "eigrp_node_of s d = (case dget s d of None \<Rightarrow> new_eigrp_node d | Some n \<Rightarrow> n)"

definition upd_eigrp :: "dev \<Rightarrow> (eigrp_node \<Rightarrow> eigrp_node) \<Rightarrow> eigrp \<Rightarrow> eigrp" where
  "upd_eigrp d f s = dset s d (f (eigrp_node_of s d))"

subsection \<open>Configuration\<close>

definition eigrp_set_variance :: "dev \<Rightarrow> int \<Rightarrow> eigrp \<Rightarrow> eigrp" where
  "eigrp_set_variance d x = upd_eigrp d (\<lambda>n. n\<lparr>eg_variance := max 1 x\<rparr>)"

definition eigrp_add_passive :: "dev \<Rightarrow> iface \<Rightarrow> eigrp \<Rightarrow> eigrp" where
  "eigrp_add_passive d i = upd_eigrp d (\<lambda>n. n\<lparr>eg_passive := sadd (eg_passive n) i\<rparr>)"

definition eigrp_remove_passive :: "dev \<Rightarrow> iface \<Rightarrow> eigrp \<Rightarrow> eigrp" where
  "eigrp_remove_passive d i = upd_eigrp d (\<lambda>n. n\<lparr>eg_passive := sdiscard (eg_passive n) i\<rparr>)"

definition eigrp_set_router_id :: "dev \<Rightarrow> string \<Rightarrow> eigrp \<Rightarrow> eigrp" where
  "eigrp_set_router_id d r = upd_eigrp d (\<lambda>n. n\<lparr>eg_router_id := r\<rparr>)"

text \<open>The result says whether the neighbours are to be reset.\<close>

definition eigrp_set_k_values :: "dev \<Rightarrow> int list \<Rightarrow> eigrp \<Rightarrow> eigrp \<times> bool" where
  "eigrp_set_k_values d k s =
     (let n = eigrp_node_of s d
      in (upd_eigrp d (\<lambda>n. n\<lparr>eg_k := k\<rparr>) s, k \<noteq> eg_k n \<and> eg_neighbors n \<noteq> []))"

subsection \<open>Neighbours going down\<close>

definition eigrp_drop :: "dev \<Rightarrow> eigrp_node \<Rightarrow> eigrp_node" where
  "eigrp_drop p n = n\<lparr>eg_neighbors := dpop (eg_neighbors n) p, eg_hold := dpop (eg_hold n) p,
                     eg_topology := filter (\<lambda>r. er_from r \<noteq> p) (eg_topology n)\<rparr>"

definition eigrp_neighbor_down :: "dev \<Rightarrow> dev \<Rightarrow> eigrp \<Rightarrow> eigrp" where
  "eigrp_neighbor_down d p s = (case dget s d of None \<Rightarrow> s | Some n \<Rightarrow> dset s d (eigrp_drop p n))"

definition eigrp_knows :: "eigrp \<Rightarrow> dev \<Rightarrow> dev \<Rightarrow> bool" where
  "eigrp_knows s d p \<longleftrightarrow> (case dget s d of None \<Rightarrow> False | Some n \<Rightarrow> p \<in> set (dkeys (eg_neighbors n)))"

definition eigrp_reset_neighbors :: "dev \<Rightarrow> eigrp \<Rightarrow> eigrp" where
  "eigrp_reset_neighbors d s =
     (case dget s d of
        None \<Rightarrow> s
      | Some n \<Rightarrow>
          fold (\<lambda>p s. let s1 = eigrp_neighbor_down d p s
                      in if eigrp_knows s1 p d then eigrp_neighbor_down p d s1 else s1) (dkeys (eg_neighbors n)) s)"

definition eigrp_stop :: "dev \<Rightarrow> eigrp \<Rightarrow> eigrp" where
  "eigrp_stop d s =
     (case dget s d of
        None \<Rightarrow> s
      | Some n \<Rightarrow>
          upd_eigrp d (\<lambda>n. n\<lparr>eg_hello_task := False, eg_hold := [], eg_enabled := False, eg_topology := []\<rparr>)
            (fold (eigrp_neighbor_down d) (dkeys (eg_neighbors n)) s))"

definition eigrp_interface_down :: "dev \<Rightarrow> dev list \<Rightarrow> eigrp \<Rightarrow> eigrp" where
  "eigrp_interface_down d peers s =
     (case dget s d of
        None \<Rightarrow> s
      | Some n \<Rightarrow>
          if \<not> eg_enabled n then s
          else fold (\<lambda>p s. let s1 = (if eigrp_knows s d p then eigrp_neighbor_down d p s else s)
                           in if eigrp_knows s1 p d then eigrp_neighbor_down p d s1 else s1) peers s)"

text \<open>The end of a hold timer: a task that was armed (the time is kept in \<open>eg_hold\<close>) and neither cancelled nor
  armed again since wakes up \<open>EIGRP_HOLD_TIME\<close> seconds later (15, without the test setting \<open>NETLAB_FAST_TIMERS\<close>); every Hello
  arms it again. A task that has
  ended stays in the dictionary, as \<open>None\<close>.\<close>

definition eigrp_hold_time :: rat where "eigrp_hold_time = 15"

definition eigrp_hold_expire :: "rat \<Rightarrow> dev \<Rightarrow> dev \<Rightarrow> eigrp \<Rightarrow> eigrp" where
  "eigrp_hold_expire now d p s =
     (case dget s d of
        None \<Rightarrow> s
      | Some n \<Rightarrow>
          (case dget (eg_hold n) p of
             Some (Some armed) \<Rightarrow>
               if now < armed + eigrp_hold_time then s
               else if p \<in> set (dkeys (eg_neighbors n)) then eigrp_neighbor_down d p s
               else dset s d (n\<lparr>eg_hold := dset (eg_hold n) p None\<rparr>)
           | _ \<Rightarrow> s))"

subsection \<open>Starting\<close>

definition eigrp_direct :: "rat \<Rightarrow> ip \<times> int \<Rightarrow> eigrp_route" where
  "eigrp_direct now k = \<lparr>er_network = fst k, er_prefix = snd k, er_fd = link_metric, er_rd = 0,
     er_next_hop = ''0.0.0.0'', er_from = ''direct'', er_from_host = [], er_external = False, er_time = now\<rparr>"

definition er_key :: "eigrp_route \<Rightarrow> ip \<times> int" where
  "er_key r = (er_network r, er_prefix r)"

text \<open>The connected networks enter the table until one has a malformed prefix: then \<open>start\<close> raises.\<close>

fun eigrp_add_direct :: "rat \<Rightarrow> string list \<Rightarrow> eigrp_route list \<Rightarrow> eigrp_route list \<times> bool" where
  "eigrp_add_direct now [] t = (t, True)"
| "eigrp_add_direct now (net # nets) t =
     (case split_on (CHR ''/'') net of
        [a, p] \<Rightarrow>
          (case py_int p of
             None \<Rightarrow> (t, False)
           | Some l \<Rightarrow>
               if \<exists>r\<in>set t. er_key r = (a, l) \<and> er_from r = ''direct'' then eigrp_add_direct now nets t
               else eigrp_add_direct now nets (t @ [eigrp_direct now (a, l)]))
      | _ \<Rightarrow> eigrp_add_direct now nets t)"

definition eigrp_start :: "rat \<Rightarrow> dev \<Rightarrow> string \<Rightarrow> int \<Rightarrow> string list \<Rightarrow> string \<Rightarrow> eigrp \<Rightarrow> eigrp \<times> bool" where
  "eigrp_start now d host asn nets router s =
     (let n = eigrp_node_of s d;
          all = fold (\<lambda>net ns. sadd ns net) nets (eg_networks n);
          (t, fine) = eigrp_add_direct now all (eg_topology n)
      in (dset s d (n\<lparr>eg_enabled := True, eg_asn := asn, eg_hostname := host,
            eg_router_id := (if router \<noteq> [] then router else eg_router_id n), eg_networks := all, eg_topology := t,
            eg_hello_task := (if fine then True else eg_hello_task n)\<rparr>), fine))"

subsection \<open>Addresses of a neighbour\<close>

text \<open>\<open>ipaddress.ip_address(mip) in ipaddress.ip_network(f"{pip}/{pprefix}", strict=False)\<close>; an exception counts
  as no.\<close>

definition in_subnet :: "ip \<Rightarrow> int \<Rightarrow> ip \<Rightarrow> bool" where
  "in_subnet pip plen mip =
     (case (ipv4_address pip, ipv4_address mip) of
        (Some a, Some b) \<Rightarrow> 0 \<le> plen \<and> plen \<le> 32 \<and> a AND mask_int plen = b AND mask_int plen
      | _ \<Rightarrow> False)"

definition eigrp_peer_ip :: "l2env \<Rightarrow> dev \<Rightarrow> dev \<Rightarrow> ip" where
  "eigrp_peer_ip e d p =
     (let my = dkeys (ips_of (address_book e) d); peer = ips_of (address_book e) p
      in case find (\<lambda>(pip, plen). pip \<notin> set my \<and> (\<exists>mip\<in>set my. in_subnet pip plen mip)) peer of
           Some (pip, _) \<Rightarrow> pip
         | None \<Rightarrow> (case find (\<lambda>a. a \<notin> set my) (dkeys peer) of Some a \<Rightarrow> a | None \<Rightarrow> p))"

subsection \<open>What is sent to whom\<close>

definition eigrp_reachable :: "eigrp_world \<Rightarrow> eigrp_node \<Rightarrow> dev \<Rightarrow> dev list" where
  "eigrp_reachable w n d =
     filter (\<lambda>p. \<not> (case dget (interface_links (ew_net w) d) p of
                      None \<Rightarrow> False
                    | Some i \<Rightarrow> i \<noteq> [] \<and> (i \<in> set (down_interfaces (ew_net w) d) \<or> i \<in> set (eg_passive n))) \<and>
                 shares_segment (ew_env w) (ew_net w) d p)
       (get_neighbors (ew_net w) d)"

definition eigrp_hello :: "dev \<Rightarrow> eigrp_node \<Rightarrow> eigrp_packet" where
  "eigrp_hello d n = \<lparr>ek_src = d, ek_src_host = eg_hostname n, ek_asn = eg_asn n, ek_k = eg_k n, ek_hello = True,
     ek_entries = []\<rparr>"

definition eigrp_entries :: "eigrp_node \<Rightarrow> dev \<Rightarrow> eigrp_entry list" where
  "eigrp_entries n p =
     List.map (\<lambda>r. \<lparr>ee_network = er_network r, ee_prefix = er_prefix r, ee_metric = er_fd r, ee_external = er_external r\<rparr>)
       (filter (\<lambda>r. er_from r \<noteq> p) (eg_topology n))"

definition ee_key :: "eigrp_entry \<Rightarrow> ip \<times> int" where
  "ee_key e = (ee_network e, ee_prefix e)"

definition eigrp_announced :: "eigrp_world \<Rightarrow> dev \<Rightarrow> eigrp_node \<Rightarrow> dev \<Rightarrow> eigrp_entry list" where
  "eigrp_announced w d n p = filter_routes (ew_filters w) d ''eigrp'' ''out'' ee_key (eigrp_entries n p)"

definition eigrp_update :: "dev \<Rightarrow> eigrp_node \<Rightarrow> eigrp_entry list \<Rightarrow> eigrp_packet" where
  "eigrp_update d n es = \<lparr>ek_src = d, ek_src_host = eg_hostname n, ek_asn = eg_asn n, ek_k = [], ek_hello = False,
     ek_entries = es\<rparr>"

subsection \<open>Taking in an update\<close>

definition eigrp_route_of :: "rat \<Rightarrow> ip \<Rightarrow> eigrp_packet \<Rightarrow> eigrp_entry \<Rightarrow> eigrp_route" where
  "eigrp_route_of now hop pk e =
     \<lparr>er_network = ee_network e, er_prefix = ee_prefix e, er_fd = ee_metric e + link_metric, er_rd = ee_metric e,
      er_next_hop = hop, er_from = ek_src pk, er_from_host = ek_src_host pk, er_external = ee_external e, er_time = now\<rparr>"

definition same_path :: "eigrp_route \<Rightarrow> eigrp_route \<Rightarrow> bool" where
  "same_path x r \<longleftrightarrow> er_fd x = er_fd r \<and> er_rd x = er_rd r \<and> er_next_hop x = er_next_hop r \<and>
     er_from x = er_from r \<and> er_external x = er_external r"

text \<open>The route \<open>r\<close> is offered for a destination whose entry is \<open>x\<close>: the entry afterwards and whether it changed.\<close>

definition eigrp_offer :: "eigrp_route \<Rightarrow> eigrp_route \<Rightarrow> eigrp_route \<times> bool" where
  "eigrp_offer r x =
     (if er_from x = ''direct'' then (x, False)
      else if er_fd r < er_fd x \<or> er_from x = er_from r
      then (if same_path x r then (x\<lparr>er_time := er_time r\<rparr>, False) else (r, True))
      else (x, False))"

fun eigrp_store :: "eigrp_route \<Rightarrow> eigrp_route list \<Rightarrow> eigrp_route list \<times> bool" where
  "eigrp_store r [] = ([r], True)"
| "eigrp_store r (x # xs) =
     (if er_key x = er_key r then (case eigrp_offer r x of (x', ch) \<Rightarrow> (x' # xs, ch))
      else (case eigrp_store r xs of (xs', ch) \<Rightarrow> (x # xs', ch)))"

fun eigrp_store_all :: "eigrp_route list \<Rightarrow> eigrp_route list \<Rightarrow> eigrp_route list \<times> bool" where
  "eigrp_store_all [] t = (t, False)"
| "eigrp_store_all (r # rs) t =
     (case eigrp_store r t of (t1, c1) \<Rightarrow> (case eigrp_store_all rs t1 of (t2, c2) \<Rightarrow> (t2, c1 \<or> c2)))"

subsection \<open>The calls\<close>

datatype eigrp_call =
    Receive dev eigrp_packet
  | SendHello dev "dev option"
  | Hellos dev "dev list"
  | SendUpdate dev "dev option"
  | Updates dev "dev list"
  | UpdateNeighbors dev
  | NeighborUp dev eigrp_packet
  | AnswerHello dev dev
  | ArmHold dev dev
  | GreetBoth dev dev

definition eigrp_receive :: "eigrp_world \<Rightarrow> dev \<Rightarrow> eigrp_packet \<Rightarrow> eigrp \<Rightarrow> eigrp_call list \<times> eigrp" where
  "eigrp_receive w d pk s =
     (case dget s d of
        None \<Rightarrow> ([], s)
      | Some n \<Rightarrow>
          (let src = ek_src pk in
           if \<not> eg_enabled n \<or> src = [] \<or> \<not> vlan_tags_compatible (ew_net w) d src \<or> ek_asn pk \<noteq> eg_asn n then ([], s)
           else if ek_hello pk then
             (if ek_k pk \<noteq> eg_k n then ([], s)
              else case dget (eg_neighbors n) src of
                     None \<Rightarrow> ([NeighborUp d pk, AnswerHello d src, ArmHold d src], s)
                   | Some b \<Rightarrow> ([ArmHold d src],
                        dset s d (n\<lparr>eg_neighbors := dset (eg_neighbors n) src (b\<lparr>eb_last_seen := ew_now w\<rparr>)\<rparr>)))
           else if dget (eg_neighbors n) src = None then ([], s)
           else (let es = filter_routes (ew_filters w) d ''eigrp'' ''in'' ee_key (ek_entries pk);
                     hop = eigrp_peer_ip (ew_env w) d src;
                     (t, ch) = eigrp_store_all (List.map (eigrp_route_of (ew_now w) hop pk) es) (eg_topology n)
                 in (if ch then [SendUpdate d None] else [], dset s d (n\<lparr>eg_topology := t\<rparr>)))))"

definition eigrp_neighbor_up :: "eigrp_world \<Rightarrow> dev \<Rightarrow> eigrp_packet \<Rightarrow> eigrp \<Rightarrow> eigrp_call list \<times> eigrp" where
  "eigrp_neighbor_up w d pk s =
     (case dget s d of
        None \<Rightarrow> ([], s)
      | Some n \<Rightarrow>
          (let p = ek_src pk;
               b = \<lparr>eb_hostname = ek_src_host pk, eb_ip = eigrp_peer_ip (ew_env w) d p,
                    eb_iface = dget_or (interface_links (ew_net w) d) p [], eb_up_since = ew_now w,
                    eb_last_seen = ew_now w\<rparr>
           in ([SendUpdate d (Some p)], dset s d (n\<lparr>eg_neighbors := dset (eg_neighbors n) p b\<rparr>))))"

text \<open>One call. \<open>Hellos\<close> and \<open>Updates\<close> are the loops of \<open>_send_hello\<close> and \<open>_send_update\<close> with the peers left.\<close>

fun eigrp_step :: "eigrp_world \<Rightarrow> eigrp_call \<Rightarrow> eigrp \<Rightarrow> eigrp_call list \<times> eigrp" where
  "eigrp_step w (Receive d pk) s = eigrp_receive w d pk s"
| "eigrp_step w (SendHello d to_peer) s =
     (case dget s d of
        None \<Rightarrow> ([], s)
      | Some n \<Rightarrow>
          if \<not> eg_enabled n then ([], s)
          else ([Hellos d (case to_peer of None \<Rightarrow> eigrp_reachable w n d | Some p \<Rightarrow> [p])], s))"
| "eigrp_step w (Hellos d []) s = ([], s)"
| "eigrp_step w (Hellos d (p # ps)) s =
     (if eg_enabled (eigrp_node_of s p) then [Receive p (eigrp_hello d (eigrp_node_of s d)), Hellos d ps]
      else [Hellos d ps], s)"
| "eigrp_step w (SendUpdate d to_peer) s =
     (case dget s d of
        None \<Rightarrow> ([], s)
      | Some n \<Rightarrow>
          if \<not> eg_enabled n then ([], s)
          else ([Updates d (case to_peer of None \<Rightarrow> dkeys (eg_neighbors n) | Some p \<Rightarrow> [p])], s))"
| "eigrp_step w (Updates d []) s = ([], s)"
| "eigrp_step w (Updates d (p # ps)) s =
     (let n = eigrp_node_of s d; es = eigrp_announced w d n p
      in (if p \<in> set (dkeys (eg_neighbors n)) \<and> es \<noteq> [] then [Receive p (eigrp_update d n es), Updates d ps]
          else [Updates d ps], s))"
| "eigrp_step w (UpdateNeighbors d) s =
     (if eg_neighbors (eigrp_node_of s d) \<noteq> [] then [SendUpdate d None] else [], s)"
| "eigrp_step w (NeighborUp d pk) s = eigrp_neighbor_up w d pk s"
| "eigrp_step w (AnswerHello d src) s =
     (if dget s src \<noteq> None \<and> \<not> eigrp_knows s src d then [SendHello d (Some src)] else [], s)"
| "eigrp_step w (ArmHold d src) s = ([], upd_eigrp d (\<lambda>n. n\<lparr>eg_hold := dset (eg_hold n) src (Some (ew_now w))\<rparr>) s)"
| "eigrp_step w (GreetBoth d p) s =
     (if eg_enabled (eigrp_node_of s p) then [SendHello d (Some p), SendHello p (Some d)] else [], s)"

abbreviation eigrp_run :: "eigrp_world \<Rightarrow> nat \<Rightarrow> eigrp_call list \<Rightarrow> eigrp \<Rightarrow> eigrp option" where
  "eigrp_run w \<equiv> run_agenda (eigrp_step w)"

text \<open>\<open>start\<close> after its sleep, a tick of \<open>_hello_loop\<close>, and \<open>interface_up\<close>.\<close>

definition eigrp_started :: "dev \<Rightarrow> eigrp_call list" where
  "eigrp_started d = [SendHello d None, UpdateNeighbors d]"

definition eigrp_interface_up :: "dev \<Rightarrow> dev list \<Rightarrow> eigrp \<Rightarrow> eigrp_call list" where
  "eigrp_interface_up d peers s = (if eg_enabled (eigrp_node_of s d) then List.map (GreetBoth d) peers else [])"

subsection \<open>What the table offers\<close>

definition feasible_successors :: "eigrp \<Rightarrow> dev \<Rightarrow> ip \<Rightarrow> int \<Rightarrow> eigrp_route list" where
  "feasible_successors s d net plen =
     (case dget s d of
        None \<Rightarrow> []
      | Some n \<Rightarrow>
          (case filter (\<lambda>r. er_key r = (net, plen)) (eg_topology n) of
             [] \<Rightarrow> []
           | c # cs \<Rightarrow> (let best_fd = fold min (List.map er_fd cs) (er_fd c)
                       in filter (\<lambda>r. er_rd r < best_fd \<and> er_fd r > best_fd) (c # cs))))"

definition eigrp_get_routes :: "eigrp \<Rightarrow> dev \<Rightarrow> eigrp_route list" where
  "eigrp_get_routes s d =
     (case dget s d of
        None \<Rightarrow> []
      | Some n \<Rightarrow> if \<not> eg_enabled n then [] else filter (\<lambda>r. er_from r \<noteq> ''direct'') (eg_topology n))"

subsection \<open>Operations\<close>

datatype eigrp_op =
    Start dev string int "string list" string
  | Started dev
  | HelloTick dev
  | Stop dev
  | SetK dev "int list"
  | ResetNeighbors dev
  | SetVariance dev int
  | AddPassive dev iface
  | RemovePassive dev iface
  | SetRouterId dev string
  | InterfaceDown dev "dev list"
  | InterfaceUp dev "dev list"
  | HoldExpire dev dev

fun eigrp_begin :: "eigrp_world \<Rightarrow> eigrp_op \<Rightarrow> eigrp \<Rightarrow> eigrp_call list \<times> eigrp" where
  "eigrp_begin w (Start d host asn nets r) s = ([], fst (eigrp_start (ew_now w) d host asn nets r s))"
| "eigrp_begin w (Started d) s = (eigrp_started d, s)"
| "eigrp_begin w (HelloTick d) s =
     (if eg_hello_task (eigrp_node_of s d) \<and> eg_enabled (eigrp_node_of s d) then [SendHello d None] else [], s)"
| "eigrp_begin w (Stop d) s = ([], eigrp_stop d s)"
| "eigrp_begin w (SetK d k) s = ([], fst (eigrp_set_k_values d k s))"
| "eigrp_begin w (ResetNeighbors d) s = ([], eigrp_reset_neighbors d s)"
| "eigrp_begin w (SetVariance d x) s = ([], eigrp_set_variance d x s)"
| "eigrp_begin w (AddPassive d i) s = ([], eigrp_add_passive d i s)"
| "eigrp_begin w (RemovePassive d i) s = ([], eigrp_remove_passive d i s)"
| "eigrp_begin w (SetRouterId d r) s = ([], eigrp_set_router_id d r s)"
| "eigrp_begin w (InterfaceDown d ps) s = ([], eigrp_interface_down d ps s)"
| "eigrp_begin w (InterfaceUp d ps) s = (eigrp_interface_up d ps s, s)"
| "eigrp_begin w (HoldExpire d p) s = ([], eigrp_hold_expire (ew_now w) d p s)"

text \<open>The tasks of the event loop, each with the calls it has still to make, and the engine: a task makes its
  next call, is ended by an exception, or an operation starts a new one. Any two tasks may alternate
  after every call.\<close>

datatype eigrp_event = Proceed eigrp_world nat | Fail nat | Begin eigrp_world eigrp_op

fun eigrp_next :: "eigrp_event \<Rightarrow> eigrp_call list list \<times> eigrp \<Rightarrow> eigrp_call list list \<times> eigrp" where
  "eigrp_next (Proceed w i) (ts, s) =
     (if i < length ts
      then (case ts ! i of
              [] \<Rightarrow> (ts, s)
            | c # cs \<Rightarrow> (case eigrp_step w c s of (cs', s') \<Rightarrow> (ts[i := cs' @ cs], s')))
      else (ts, s))"
| "eigrp_next (Fail i) (ts, s) = (ts[i := []], s)"
| "eigrp_next (Begin w op) (ts, s) = (case eigrp_begin w op s of (cs, s') \<Rightarrow> (ts @ [cs], s'))"

end
