(* ===== verification/EigrpRoutes.thy ===== *)
theory EigrpRoutes
  imports Eigrp
begin

text \<open>
  Facts about \<open>class EigrpEngine\<close>: what the topology table may hold in any interleaving of its handlers, split
  horizon, an update as a relaxation of the table, feasible successors, and calls that never end.
\<close>

subsection \<open>Tables that are kept in order\<close>

text \<open>One connected and one learned route per destination at most; a learned route comes from a neighbour the
  speaker still has, and is one link longer than what that neighbour reported.\<close>

definition eigrp_row :: "eigrp_route \<Rightarrow> (ip \<times> int) \<times> bool" where
  "eigrp_row r = (er_key r, er_from r = ''direct'')"

definition learned_ok :: "dev list \<Rightarrow> eigrp_route \<Rightarrow> bool" where
  "learned_ok ps r \<longleftrightarrow> (if er_from r = ''direct'' then er_fd r = link_metric
                      else er_from r \<in> set ps \<and> er_fd r = er_rd r + link_metric \<and> link_metric \<le> er_rd r)"

definition rows_ok :: "dev list \<Rightarrow> eigrp_route list \<Rightarrow> bool" where
  "rows_ok ps t \<longleftrightarrow> distinct (List.map eigrp_row t) \<and> (\<forall>r\<in>set t. learned_ok ps r)"

definition eigrp_node_ok :: "eigrp_node \<Rightarrow> bool" where
  "eigrp_node_ok n \<longleftrightarrow> rows_ok (dkeys (eg_neighbors n)) (eg_topology n)"

definition eigrp_ok :: "eigrp \<Rightarrow> bool" where
  "eigrp_ok s \<longleftrightarrow> (\<forall>d n. dget s d = Some n \<longrightarrow> eigrp_node_ok n)"

definition packet_ok :: "eigrp_packet \<Rightarrow> bool" where
  "packet_ok pk \<longleftrightarrow> ek_src pk \<noteq> ''direct'' \<and> (\<forall>e\<in>set (ek_entries pk). link_metric \<le> ee_metric e)"

text \<open>No device is called as the mark of the connected routes.\<close>

fun eigrp_call_ok :: "eigrp_call \<Rightarrow> bool" where
  "eigrp_call_ok (Receive d pk) \<longleftrightarrow> d \<noteq> ''direct'' \<and> packet_ok pk"
| "eigrp_call_ok (SendHello d p) \<longleftrightarrow> d \<noteq> ''direct'' \<and> p \<noteq> Some ''direct''"
| "eigrp_call_ok (Hellos d ps) \<longleftrightarrow> d \<noteq> ''direct'' \<and> ''direct'' \<notin> set ps"
| "eigrp_call_ok (SendUpdate d p) \<longleftrightarrow> d \<noteq> ''direct'' \<and> p \<noteq> Some ''direct''"
| "eigrp_call_ok (Updates d ps) \<longleftrightarrow> d \<noteq> ''direct''"
| "eigrp_call_ok (UpdateNeighbors d) \<longleftrightarrow> d \<noteq> ''direct''"
| "eigrp_call_ok (NeighborUp d pk) \<longleftrightarrow> d \<noteq> ''direct'' \<and> packet_ok pk"
| "eigrp_call_ok (AnswerHello d p) \<longleftrightarrow> d \<noteq> ''direct'' \<and> p \<noteq> ''direct''"
| "eigrp_call_ok (ArmHold d p) \<longleftrightarrow> d \<noteq> ''direct''"
| "eigrp_call_ok (GreetBoth d p) \<longleftrightarrow> d \<noteq> ''direct'' \<and> p \<noteq> ''direct''"

text \<open>No speaker has a neighbour of that name either.\<close>

definition eigrp_named :: "eigrp \<Rightarrow> bool" where
  "eigrp_named s \<longleftrightarrow> (\<forall>d n. dget s d = Some n \<longrightarrow> ''direct'' \<notin> set (dkeys (eg_neighbors n)))"

definition world_ok :: "eigrp_world \<Rightarrow> bool" where
  "world_ok w \<longleftrightarrow> (\<forall>d. ''direct'' \<notin> set (get_neighbors (ew_net w) d))"

lemma link_metric_value: "link_metric = 2816"
  by (simp add: link_metric_def eigrp_classic_metric_def)

lemma eigrp_store_new: "\<forall>x\<in>set t. er_key x \<noteq> er_key r \<Longrightarrow> eigrp_store r t = (t @ [r], True)"
  by (induction t) simp_all

lemma offer_row:
  "er_from r \<noteq> ''direct'' \<Longrightarrow> er_key x = er_key r \<Longrightarrow> eigrp_row (fst (eigrp_offer r x)) = eigrp_row x"
  by (auto simp: eigrp_offer_def eigrp_row_def er_key_def)

lemma eigrp_store_distinct:
  assumes "er_from r \<noteq> ''direct''" "distinct (List.map eigrp_row t)"
  shows "distinct (List.map eigrp_row (fst (eigrp_store r t)))"
proof (cases "\<forall>x\<in>set t. er_key x \<noteq> er_key r")
  case True
  then have "eigrp_row r \<notin> set (List.map eigrp_row t)" by (auto simp: eigrp_row_def)
  with True assms show ?thesis by (simp add: eigrp_store_new)
next
  case False
  then have "List.map eigrp_row (fst (eigrp_store r t)) = List.map eigrp_row t"
    using offer_row [OF assms(1)] by (induction t) (auto simp: split_beta)
  with assms show ?thesis by simp
qed

lemma offer_learned: "learned_ok ps r \<Longrightarrow> learned_ok ps x \<Longrightarrow> learned_ok ps (fst (eigrp_offer r x))"
  by (auto simp: eigrp_offer_def learned_ok_def)

lemma eigrp_store_members: "set (fst (eigrp_store r t)) \<subseteq> insert r (set t \<union> (\<lambda>x. fst (eigrp_offer r x)) ` set t)"
  by (induction t) (auto simp: split_beta)

lemma eigrp_store_learned:
  "learned_ok ps r \<Longrightarrow> \<forall>x\<in>set t. learned_ok ps x \<Longrightarrow> \<forall>x\<in>set (fst (eigrp_store r t)). learned_ok ps x"
  using eigrp_store_members [of r t] offer_learned by blast

lemma eigrp_store_all_ok:
  "\<forall>r\<in>set rs. er_from r \<noteq> ''direct'' \<and> learned_ok ps r \<Longrightarrow> rows_ok ps t \<Longrightarrow> rows_ok ps (fst (eigrp_store_all rs t))"
proof (induction rs arbitrary: t)
  case (Cons r rs)
  obtain t1 c where s: "eigrp_store r t = (t1, c)" by (cases "eigrp_store r t")
  with Cons.prems have "rows_ok ps t1"
    using eigrp_store_distinct [of r t] eigrp_store_learned [of ps r t] by (auto simp: rows_ok_def)
  from Cons.IH [OF _ this] Cons.prems(1) s show ?case by (auto split: prod.splits)
qed simp

lemma rows_ok_more: "rows_ok ps t \<Longrightarrow> set ps \<subseteq> set qs \<Longrightarrow> rows_ok qs t"
  by (auto simp: rows_ok_def learned_ok_def)

lemma rows_ok_filter: "rows_ok ps t \<Longrightarrow> (\<And>r. r \<in> set t \<Longrightarrow> P r \<Longrightarrow> learned_ok qs r) \<Longrightarrow> rows_ok qs (filter P t)"
  by (auto simp: rows_ok_def distinct_map_filter)

lemma eigrp_ok_dset: "eigrp_ok s \<Longrightarrow> eigrp_node_ok n \<Longrightarrow> eigrp_ok (dset s d n)"
  by (auto simp: eigrp_ok_def)

lemma eigrp_named_dset: "eigrp_named s \<Longrightarrow> ''direct'' \<notin> set (dkeys (eg_neighbors n)) \<Longrightarrow> eigrp_named (dset s d n)"
  by (auto simp: eigrp_named_def)

lemma eigrp_ok_node: "eigrp_ok s \<Longrightarrow> eigrp_node_ok (eigrp_node_of s d)"
  by (auto simp: eigrp_ok_def eigrp_node_of_def new_eigrp_node_def eigrp_node_ok_def rows_ok_def split: option.split)

lemma eigrp_named_node: "eigrp_named s \<Longrightarrow> ''direct'' \<notin> set (dkeys (eg_neighbors (eigrp_node_of s d)))"
  by (auto simp: eigrp_named_def eigrp_node_of_def new_eigrp_node_def dkeys_def split: option.split)

lemma eigrp_drop_ok: "eigrp_node_ok n \<Longrightarrow> eigrp_node_ok (eigrp_drop p n)"
proof -
  assume ok: "eigrp_node_ok n"
  have "learned_ok (dkeys (dpop (eg_neighbors n) p)) r"
    if "r \<in> set (eg_topology n)" "er_from r \<noteq> p" for r
    using ok that by (auto simp: eigrp_node_ok_def rows_ok_def learned_ok_def dkeys_dpop)
  with ok show ?thesis unfolding eigrp_node_ok_def eigrp_drop_def by (simp add: rows_ok_filter)
qed

lemma eigrp_neighbor_added: "eigrp_node_ok n \<Longrightarrow> eigrp_node_ok (n\<lparr>eg_neighbors := dset (eg_neighbors n) p b\<rparr>)"
  using rows_ok_more [of "dkeys (eg_neighbors n)" "eg_topology n" "dkeys (dset (eg_neighbors n) p b)"]
  by (auto simp: eigrp_node_ok_def dkeys_dset)

lemma eigrp_metrics: "eigrp_node_ok n \<Longrightarrow> r \<in> set (eg_topology n) \<Longrightarrow> link_metric \<le> er_fd r"
proof -
  assume "eigrp_node_ok n" "r \<in> set (eg_topology n)"
  then have "learned_ok (dkeys (eg_neighbors n)) r" by (simp add: eigrp_node_ok_def rows_ok_def)
  then show ?thesis by (auto simp: learned_ok_def link_metric_value split: if_splits)
qed

definition eigrp_fine :: "eigrp \<Rightarrow> bool" where
  "eigrp_fine s \<longleftrightarrow> eigrp_ok s \<and> eigrp_named s"

lemma eigrp_fine_node:
  "eigrp_fine s \<Longrightarrow> dget s d = Some n \<Longrightarrow> eigrp_node_ok n \<and> ''direct'' \<notin> set (dkeys (eg_neighbors n))"
  "eigrp_fine s \<Longrightarrow> eigrp_node_ok (eigrp_node_of s d) \<and> ''direct'' \<notin> set (dkeys (eg_neighbors (eigrp_node_of s d)))"
  using eigrp_ok_node eigrp_named_node by (auto simp: eigrp_fine_def eigrp_ok_def eigrp_named_def)

lemma eigrp_fine_dset:
  "eigrp_fine s \<Longrightarrow> eigrp_node_ok n \<Longrightarrow> ''direct'' \<notin> set (dkeys (eg_neighbors n)) \<Longrightarrow> eigrp_fine (dset s d n)"
  by (simp add: eigrp_fine_def eigrp_ok_dset eigrp_named_dset)

lemma eigrp_fine_upd:
  "eigrp_fine s \<Longrightarrow> (\<And>n. eg_topology (f n) = eg_topology n \<and> eg_neighbors (f n) = eg_neighbors n) \<Longrightarrow> eigrp_fine (upd_eigrp d f s)"
  unfolding upd_eigrp_def using eigrp_fine_node(2) [of s d]
  by (intro eigrp_fine_dset) (simp_all add: eigrp_node_ok_def)

lemma eigrp_neighbor_down_fine: "eigrp_fine s \<Longrightarrow> eigrp_fine (eigrp_neighbor_down d p s)"
  using eigrp_fine_node(1) [of s d] eigrp_drop_ok
  by (auto simp: eigrp_neighbor_down_def eigrp_drop_def dkeys_dpop intro!: eigrp_fine_dset split: option.split)

lemma filtered_mem: "e \<in> set (filter_routes f d proto dir dest es) \<Longrightarrow> e \<in> set es"
  by (auto simp: filter_routes_def split: option.splits if_splits)

lemma eigrp_announced_mem:
  "e \<in> set (eigrp_announced w d n p) \<Longrightarrow>
   \<exists>r\<in>set (eg_topology n). er_from r \<noteq> p \<and> ee_key e = er_key r \<and> ee_metric e = er_fd r \<and> ee_external e = er_external r"
proof -
  assume "e \<in> set (eigrp_announced w d n p)"
  then have "e \<in> set (eigrp_entries n p)" unfolding eigrp_announced_def by (rule filtered_mem)
  then show ?thesis by (force simp: eigrp_entries_def ee_key_def er_key_def)
qed

lemma eigrp_receive_fine:
  assumes "eigrp_fine s" "packet_ok pk" "d \<noteq> ''direct''" "eigrp_receive w d pk s = (cs, s')"
  shows "eigrp_fine s' \<and> (\<forall>c\<in>set cs. eigrp_call_ok c)"
proof (cases "dget s d")
  case (Some n)
  have n: "eigrp_node_ok n" "''direct'' \<notin> set (dkeys (eg_neighbors n))"
    using eigrp_fine_node(1) [OF assms(1) Some] by auto
  have src: "ek_src pk \<noteq> ''direct''" using assms(2) by (simp add: packet_ok_def)
  let ?es = "filter_routes (ew_filters w) d ''eigrp'' ''in'' ee_key (ek_entries pk)"
  let ?rs = "List.map (eigrp_route_of (ew_now w) (eigrp_peer_ip (ew_env w) d (ek_src pk)) pk) ?es"
  have stored: "eigrp_node_ok (n\<lparr>eg_topology := fst (eigrp_store_all ?rs (eg_topology n))\<rparr>)"
    if "dget (eg_neighbors n) (ek_src pk) \<noteq> None"
  proof -
    have "\<forall>r\<in>set ?rs. er_from r \<noteq> ''direct'' \<and> learned_ok (dkeys (eg_neighbors n)) r"
      using assms(2) that src
      by (auto simp: eigrp_route_of_def learned_ok_def packet_ok_def dkeys_iff dest!: filtered_mem)
    from eigrp_store_all_ok [OF this, of "eg_topology n"] n(1) show ?thesis by (simp add: eigrp_node_ok_def)
  qed
  have seen: "eigrp_node_ok (n\<lparr>eg_neighbors := dset (eg_neighbors n) p b\<rparr>)" for p b
    using n(1) by (rule eigrp_neighbor_added)
  show ?thesis
  proof (cases "eg_enabled n \<and> ek_src pk \<noteq> [] \<and> vlan_tags_compatible (ew_net w) d (ek_src pk) \<and> ek_asn pk = eg_asn n")
    case False
    with assms(1,4) Some show ?thesis by (auto simp: eigrp_receive_def Let_def)
  next
    case guard: True
    show ?thesis
    proof (cases "ek_hello pk")
      case True
      with guard Some assms n src seen show ?thesis
        by (auto simp: eigrp_receive_def Let_def eigrp_fine_dset dkeys_dset split: if_splits option.splits)
    next
      case False
      with guard Some assms n stored show ?thesis
        by (auto simp: eigrp_receive_def Let_def split_beta eigrp_fine_dset split: if_splits)
    qed
  qed
qed (use assms in \<open>simp add: eigrp_receive_def\<close>)

lemma eigrp_step_fine:
  assumes "world_ok w" "eigrp_fine s" "eigrp_call_ok c" "eigrp_step w c s = (cs, s')"
  shows "eigrp_fine s' \<and> (\<forall>c\<in>set cs. eigrp_call_ok c)"
proof (cases c)
  case (Receive d pk)
  then show ?thesis using eigrp_receive_fine [of s pk d w cs s'] assms by simp
next
  case (SendHello d p)
  then show ?thesis using assms by (auto simp: world_ok_def eigrp_reachable_def split: option.splits if_splits)
next
  case (Hellos d ps)
  then show ?thesis using assms by (cases ps) (auto simp: packet_ok_def eigrp_hello_def split: if_splits)
next
  case (SendUpdate d p)
  then show ?thesis using assms by (auto split: option.splits if_splits)
next
  case (Updates d ps)
  show ?thesis
  proof (cases ps)
    case (Cons p qs)
    have "packet_ok (eigrp_update d n (eigrp_announced w d n p))" if "n = eigrp_node_of s d" for n
      using assms(2,3) Updates that eigrp_fine_node(2) [of s d]
      by (auto simp: packet_ok_def eigrp_update_def dest!: eigrp_announced_mem eigrp_metrics)
    moreover have "p \<noteq> ''direct''" if "p \<in> set (dkeys (eg_neighbors (eigrp_node_of s d)))"
      using that eigrp_fine_node(2) [of s d] assms(2) by auto
    ultimately show ?thesis using assms Updates Cons by (auto simp: Let_def split: if_splits)
  qed (use assms Updates in simp)
next
  case (UpdateNeighbors d)
  then show ?thesis using assms by (auto split: if_splits)
next
  case (NeighborUp d pk)
  show ?thesis
  proof (cases "dget s d")
    case (Some n)
    have n: "eigrp_node_ok n" "''direct'' \<notin> set (dkeys (eg_neighbors n))"
      using eigrp_fine_node(1) [OF assms(2) Some] by auto
    from eigrp_neighbor_added [OF n(1)] n(2) show ?thesis using assms NeighborUp Some
      by (auto simp: eigrp_neighbor_up_def Let_def packet_ok_def eigrp_fine_dset dkeys_dset)
  qed (use assms NeighborUp in \<open>simp add: eigrp_neighbor_up_def\<close>)
next
  case (AnswerHello d p)
  then show ?thesis using assms by (auto split: if_splits)
next
  case (ArmHold d p)
  then show ?thesis using assms eigrp_fine_upd [of s "\<lambda>n. n\<lparr>eg_hold := dset (eg_hold n) p (Some (ew_now w))\<rparr>" d] by auto
next
  case (GreetBoth d p)
  then show ?thesis using assms by (auto split: if_splits)
qed

lemma eigrp_add_direct_ok: "rows_ok ps t \<Longrightarrow> rows_ok ps (fst (eigrp_add_direct now nets t))"
proof (induction now nets t rule: eigrp_add_direct.induct)
  case (2 now net nets t)
  have "rows_ok ps (t @ [eigrp_direct now (a, l)])"
    if "\<not> (\<exists>r\<in>set t. er_key r = (a, l) \<and> er_from r = ''direct'')" for a l
    using "2.prems" that by (auto simp: rows_ok_def eigrp_row_def eigrp_direct_def er_key_def learned_ok_def)
  with 2 show ?case by (auto split: list.split option.split)
qed simp

fun eigrp_op_ok :: "eigrp_op \<Rightarrow> bool" where
  "eigrp_op_ok (Started d) \<longleftrightarrow> d \<noteq> ''direct''"
| "eigrp_op_ok (HelloTick d) \<longleftrightarrow> d \<noteq> ''direct''"
| "eigrp_op_ok (InterfaceUp d ps) \<longleftrightarrow> d \<noteq> ''direct'' \<and> ''direct'' \<notin> set ps"
| "eigrp_op_ok _ \<longleftrightarrow> True"

lemma fold_keeps: "P s \<Longrightarrow> (\<And>x s. P s \<Longrightarrow> P (f x s)) \<Longrightarrow> P (fold f xs s)"
  by (induction xs arbitrary: s) simp_all

lemma eigrp_start_fine: "eigrp_fine s \<Longrightarrow> eigrp_fine (fst (eigrp_start now d host asn nets r s))"
  using eigrp_fine_node(2) [of s d]
  by (auto simp: eigrp_start_def Let_def split_beta eigrp_node_ok_def eigrp_add_direct_ok intro!: eigrp_fine_dset)

lemma eigrp_stop_fine: "eigrp_fine s \<Longrightarrow> eigrp_fine (eigrp_stop d s)"
proof (cases "dget s d")
  case (Some n)
  assume "eigrp_fine s"
  then have f: "eigrp_fine (fold (eigrp_neighbor_down d) ps s)" for ps
    by (rule fold_keeps) (rule eigrp_neighbor_down_fine)
  let ?s = "fold (eigrp_neighbor_down d) (dkeys (eg_neighbors n)) s"
  have "''direct'' \<notin> set (dkeys (eg_neighbors (eigrp_node_of ?s d)))" using f eigrp_fine_node(2) by blast
  then show ?thesis using f Some
    by (auto simp: eigrp_stop_def upd_eigrp_def eigrp_node_ok_def rows_ok_def intro!: eigrp_fine_dset)
qed (simp add: eigrp_stop_def)

lemma eigrp_reset_fine: "eigrp_fine s \<Longrightarrow> eigrp_fine (eigrp_reset_neighbors d s)"
proof (cases "dget s d")
  case (Some n)
  assume "eigrp_fine s"
  then have "eigrp_fine (fold (\<lambda>p s. let s1 = eigrp_neighbor_down d p s
      in if eigrp_knows s1 p d then eigrp_neighbor_down p d s1 else s1) ps s)" for ps
    by (rule fold_keeps) (auto simp: Let_def dest: eigrp_neighbor_down_fine)
  with Some show ?thesis by (simp add: eigrp_reset_neighbors_def)
qed (simp add: eigrp_reset_neighbors_def)

lemma eigrp_interface_down_fine: "eigrp_fine s \<Longrightarrow> eigrp_fine (eigrp_interface_down d ps s)"
proof -
  assume ok: "eigrp_fine s"
  then have "eigrp_fine (fold (\<lambda>p s. let s1 = (if eigrp_knows s d p then eigrp_neighbor_down d p s else s)
      in if eigrp_knows s1 p d then eigrp_neighbor_down p d s1 else s1) ps s)"
    by (rule fold_keeps) (auto simp: Let_def dest: eigrp_neighbor_down_fine)
  with ok show ?thesis by (simp add: eigrp_interface_down_def split: option.split)
qed

lemma eigrp_hold_expire_fine: "eigrp_fine s \<Longrightarrow> eigrp_fine (eigrp_hold_expire now d p s)"
proof -
  assume ok: "eigrp_fine s"
  then have "eigrp_fine (dset s d (n\<lparr>eg_hold := h\<rparr>))" if "dget s d = Some n" for n h
    using ok eigrp_fine_node(1) [OF ok that] by (intro eigrp_fine_dset) (auto simp: eigrp_node_ok_def)
  with ok show ?thesis
    using eigrp_neighbor_down_fine [OF ok, of d p] by (auto simp: eigrp_hold_expire_def split: option.split)
qed

lemma eigrp_begin_fine:
  assumes "world_ok w" "eigrp_fine s" "eigrp_op_ok op"
  shows "eigrp_fine (snd (eigrp_begin w op s)) \<and> (\<forall>c\<in>set (fst (eigrp_begin w op s)). eigrp_call_ok c)"
proof (cases op)
  case (InterfaceUp d ps)
  with assms show ?thesis by (auto simp: eigrp_interface_up_def)
qed (use assms in \<open>auto simp: eigrp_started_def eigrp_set_k_values_def Let_def eigrp_set_variance_def
      eigrp_add_passive_def eigrp_remove_passive_def eigrp_set_router_id_def
      dest: eigrp_start_fine eigrp_stop_fine eigrp_reset_fine eigrp_interface_down_fine eigrp_hold_expire_fine
      intro!: eigrp_fine_upd\<close>)

text \<open>The calls of one task, and an operation run to its end.\<close>

interpretation eigrp_calls: agenda "eigrp_step w" eigrp_call_ok "\<lambda>s. world_ok w \<and> eigrp_fine s"
proof
  fix s t ts s'
  assume "world_ok w \<and> eigrp_fine s" "eigrp_call_ok t" "eigrp_step w t s = (ts, s')"
  with eigrp_step_fine [of w s t ts s'] show "(world_ok w \<and> eigrp_fine s') \<and> (\<forall>t\<in>set ts. eigrp_call_ok t)" by blast
qed

lemma eigrp_run_fine:
  assumes "world_ok w" "eigrp_fine s" "eigrp_op_ok op" "eigrp_begin w op s = (cs, s1)"
    and "eigrp_run w k cs s1 = Some s'"
  shows "eigrp_fine s'"
  using eigrp_calls.run_keeps [OF assms(5)] eigrp_begin_fine [OF assms(1-3)] assms(1,4) by simp

subsection \<open>Any interleaving\<close>

fun eigrp_event_ok :: "eigrp_event \<Rightarrow> bool" where
  "eigrp_event_ok (Proceed w i) \<longleftrightarrow> world_ok w"
| "eigrp_event_ok (Fail i) \<longleftrightarrow> True"
| "eigrp_event_ok (Begin w op) \<longleftrightarrow> world_ok w \<and> eigrp_op_ok op"

definition eigrp_tasks_ok :: "eigrp_call list list \<times> eigrp \<Rightarrow> bool" where
  "eigrp_tasks_ok st \<longleftrightarrow> eigrp_fine (snd st) \<and> (\<forall>t\<in>set (fst st). \<forall>c\<in>set t. eigrp_call_ok c)"

lemma eigrp_next_ok:
  assumes "eigrp_event_ok e" "eigrp_tasks_ok st"
  shows "eigrp_tasks_ok (eigrp_next e st)"
proof -
  obtain ts s where st: "st = (ts, s)" by (cases st)
  show ?thesis
  proof (cases e)
    case (Proceed w i)
    show ?thesis
    proof (cases "i < length ts \<and> ts ! i \<noteq> []")
      case True
      then obtain c cs where c: "ts ! i = c # cs" by (cases "ts ! i") auto
      obtain cs' s' where step: "eigrp_step w c s = (cs', s')" by (cases "eigrp_step w c s")
      have "ts ! i \<in> set ts" using True by simp
      then have pend: "eigrp_call_ok c" "\<forall>c\<in>set cs. eigrp_call_ok c"
        using assms(2) c by (fastforce simp: eigrp_tasks_ok_def st)+
      from eigrp_step_fine [OF _ _ pend(1) step] assms Proceed
      have "eigrp_fine s'" "\<forall>c\<in>set cs'. eigrp_call_ok c" by (simp_all add: eigrp_tasks_ok_def st)
      moreover have "t \<in> set (ts[i := cs' @ cs]) \<Longrightarrow> t = cs' @ cs \<or> t \<in> set ts" for t
        using set_update_subset_insert [of ts i "cs' @ cs"] by blast
      then have "\<forall>x\<in>set t. eigrp_call_ok x" if "t \<in> set (ts[i := cs' @ cs])" for t
        using that pend(2) assms(2) \<open>\<forall>c\<in>set cs'. eigrp_call_ok c\<close> by (fastforce simp: eigrp_tasks_ok_def st)
      ultimately show ?thesis
        using Proceed True c step st by (simp add: eigrp_tasks_ok_def)
    qed (use assms(2) Proceed st in \<open>auto split: list.splits\<close>)
  next
    case (Fail i)
    have "t \<in> set (ts[i := []]) \<Longrightarrow> t = [] \<or> t \<in> set ts" for t
      using set_update_subset_insert [of ts i "[]"] by blast
    then show ?thesis using assms(2) Fail st by (fastforce simp: eigrp_tasks_ok_def)
  next
    case (Begin w op)
    then show ?thesis
      using assms st eigrp_begin_fine [of w s op] by (auto simp: eigrp_tasks_ok_def split_beta)
  qed
qed

text \<open>Events that name a device as the mark do not happen in the machine.\<close>

definition eigrp_machine_step :: "eigrp_event \<Rightarrow> eigrp_call list list \<times> eigrp \<Rightarrow> eigrp_call list list \<times> eigrp" where
  "eigrp_machine_step e st = (if eigrp_event_ok e then eigrp_next e st else st)"

interpretation eigrp_tasks: machine eigrp_machine_step "([], [])" eigrp_tasks_ok
  by unfold_locales
    (simp_all add: eigrp_tasks_ok_def [of "([], [])"] eigrp_fine_def eigrp_ok_def eigrp_named_def eigrp_machine_step_def eigrp_next_ok)

lemma eigrp_fold_ok:
  assumes "\<forall>e\<in>set evs. eigrp_event_ok e"
  shows "eigrp_tasks_ok (fold eigrp_next evs ([], []))"
proof -
  have "fold eigrp_next evs st = fold eigrp_machine_step evs st" for st
    using assms by (intro fold_cong) (auto simp: eigrp_machine_step_def [abs_def])
  with eigrp_tasks.run_inv [of evs] show ?thesis by simp
qed

text \<open>C19. Whatever is configured and fails, in every interleaving of the tasks, calls and exceptions of the event
  loop: a learned route comes from a neighbour the speaker has at that moment, its distance is one link
  more than the neighbour reported, and a speaker has at most one learned and one connected route for a
  destination.\<close>

theorem eigrp_routes_via_neighbors:
  assumes "\<forall>e\<in>set evs. eigrp_event_ok e" "dget (snd (fold eigrp_next evs ([], []))) d = Some n"
  shows "(\<forall>r\<in>set (eg_topology n). er_from r = ''direct'' \<or>
      (er_from r \<in> set (dkeys (eg_neighbors n)) \<and> er_fd r = er_rd r + link_metric)) \<and>
    distinct (List.map (\<lambda>r. (er_network r, er_prefix r, er_from r = ''direct'')) (eg_topology n))"
proof
  have ok: "rows_ok (dkeys (eg_neighbors n)) (eg_topology n)"
    using eigrp_fold_ok [OF assms(1)] eigrp_fine_node(1) [OF _ assms(2)]
    by (auto simp: eigrp_tasks_ok_def eigrp_node_ok_def)
  then show "\<forall>r\<in>set (eg_topology n). er_from r = ''direct'' \<or>
      (er_from r \<in> set (dkeys (eg_neighbors n)) \<and> er_fd r = er_rd r + link_metric)"
    by (auto simp: rows_ok_def learned_ok_def split: if_splits)
  have "distinct (List.map (\<lambda>((a, l), b). (a, l, b)) (List.map eigrp_row (eg_topology n)))"
    using ok by (subst distinct_map) (auto simp: rows_ok_def inj_on_def split: prod.splits)
  then show "distinct (List.map (\<lambda>r. (er_network r, er_prefix r, er_from r = ''direct'')) (eg_topology n))"
    by (simp add: eigrp_row_def er_key_def comp_def)
qed

text \<open>The code never has a feasible successor to offer: whatever happened before, \<open>feasible_successors\<close> is
  empty for every destination, because a learned route replaces the one before it.\<close>

theorem no_feasible_successor:
  assumes "\<forall>e\<in>set evs. eigrp_event_ok e"
  shows "feasible_successors (snd (fold eigrp_next evs ([], []))) d net plen = []"
proof (cases "dget (snd (fold eigrp_next evs ([], []))) d")
  case (Some n)
  have ok: "rows_ok (dkeys (eg_neighbors n)) (eg_topology n)"
    using eigrp_fold_ok [OF assms] eigrp_fine_node(1) [OF _ Some]
    by (auto simp: eigrp_tasks_ok_def eigrp_node_ok_def)
  show ?thesis
  proof (cases "filter (\<lambda>r. er_key r = (net, plen)) (eg_topology n)")
    case (Cons c cs)
    let ?best = "fold min (List.map er_fd cs) (er_fd c)"
    have best: "?best \<in> er_fd ` set (c # cs)"
    proof -
      have "fold min xs m \<in> insert m (set xs)" for xs and m :: int
        by (induction xs arbitrary: m) (auto simp: min_def)
      from this [of "List.map er_fd cs" "er_fd c"] show ?thesis by auto
    qed
    then obtain b where b: "b \<in> set (c # cs)" "er_fd b = ?best" by (metis imageE)
    have cand: "r \<in> set (eg_topology n) \<and> er_key r = (net, plen)" if "r \<in> set (c # cs)" for r
      using that unfolding Cons [symmetric] by simp
    have "False" if r: "r \<in> set (c # cs)" "er_rd r < ?best" "?best < er_fd r" for r
    proof -
      have lr: "learned_ok (dkeys (eg_neighbors n)) r" and lb: "learned_ok (dkeys (eg_neighbors n)) b"
        using ok cand r(1) b(1) by (auto simp: rows_ok_def)
      have "eigrp_row r \<noteq> eigrp_row b"
      proof
        assume "eigrp_row r = eigrp_row b"
        with ok cand [OF r(1)] cand [OF b(1)] have "r = b" by (auto simp: rows_ok_def distinct_map inj_on_def)
        with b(2) r(3) show False by simp
      qed
      then have "er_from r = ''direct'' \<longleftrightarrow> er_from b \<noteq> ''direct''"
        using cand [OF r(1)] cand [OF b(1)] by (auto simp: eigrp_row_def)
      with lr lb b(2) r(2,3) show False by (auto simp: learned_ok_def link_metric_value split: if_splits)
    qed
    then have "filter (\<lambda>r. er_rd r < ?best \<and> er_fd r > ?best) (c # cs) = []" unfolding filter_empty_conv by blast
    with Some Cons show ?thesis by (simp only: feasible_successors_def Let_def option.case list.case)
  qed (use Some in \<open>simp add: feasible_successors_def\<close>)
qed (simp add: feasible_successors_def)

end
