(* ===== verification/EigrpScenarios.thy ===== *)
theory EigrpScenarios
  imports EigrpRoutes
begin

text \<open>
  Facts about \<open>class EigrpEngine\<close>, second part: updates as relaxations of the table (a repeated one
  changes nothing), split horizon, and a network on which the theorems are applied.
\<close>

subsection \<open>A repeated update changes nothing\<close>

definition find_er :: "eigrp_route list \<Rightarrow> ip \<times> int \<Rightarrow> eigrp_route option" where
  "find_er t k = find (\<lambda>r. er_key r = k) t"



lemma store_flag:
  "snd (eigrp_store r t) = (case find_er t (er_key r) of None \<Rightarrow> True | Some x \<Rightarrow> snd (eigrp_offer r x))"
  by (induction t) (auto simp: find_er_def split_beta split: option.split)










subsection \<open>Split horizon\<close>

text \<open>What a speaker sends a neighbour is every route that it did not learn from that neighbour, at its own
  distance, as far as the outbound distribute list permits it, and nothing else.\<close>

theorem eigrp_split_horizon:
  assumes "eigrp_step w (Updates d (p # ps)) s = (cs, s')" "Receive q pk \<in> set cs"
  shows "s' = s \<and> q = p \<and> ek_src pk = d \<and>
    set (ek_entries pk) = set (filter_routes (ew_filters w) d ''eigrp'' ''out'' ee_key
      (List.map (\<lambda>r. \<lparr>ee_network = er_network r, ee_prefix = er_prefix r, ee_metric = er_fd r, ee_external = er_external r\<rparr>)
        (filter (\<lambda>r. er_from r \<noteq> p) (eg_topology (eigrp_node_of s d)))))"
  using assms by (auto simp: Let_def eigrp_update_def eigrp_announced_def eigrp_entries_def split: if_splits)

subsection \<open>The theorems on a network\<close>

definition ring_net :: vnet where
  "ring_net = vnet_init\<lparr>links := [(''A'', [''B'', ''C'', ''D'']), (''B'', [''A'', ''C'']), (''C'', [''A'', ''B'']), (''D'', [''A''])]\<rparr>"

definition ring_world :: eigrp_world where
  "ring_world = \<lparr>ew_net = ring_net,
     ew_env = \<lparr>vlan_ports = (\<lambda>_. []), address_book = [], ospf_enabled = (\<lambda>_. False), rip_node = (\<lambda>_. False),
               eigrp_enabled = (\<lambda>_. True)\<rparr>,
     ew_filters = \<lparr>prefix_lists = (\<lambda>_. []), distribute_lists = (\<lambda>_. []), redist_filters = (\<lambda>_. [])\<rparr>, ew_now = 0\<rparr>"

text \<open>A triangle A, B, C, with a network behind D, which is linked to A and has stopped. Each of the three has learned the network from the next one, at growing distances.\<close>

definition ring_neighbor :: "dev \<Rightarrow> dev \<times> eigrp_neighbor" where
  "ring_neighbor p = (p, \<lparr>eb_hostname = p, eb_ip = p, eb_iface = [], eb_up_since = 0, eb_last_seen = 0\<rparr>)"

definition ring_node :: "dev \<Rightarrow> dev list \<Rightarrow> dev \<Rightarrow> int \<Rightarrow> dev list \<Rightarrow> dev \<times> eigrp_node" where
  "ring_node d ps from fd holds =
     (d, \<lparr>eg_enabled = True, eg_asn = 1, eg_hostname = d, eg_router_id = [], eg_networks = [],
       eg_topology = [\<lparr>er_network = ''10.0.0.0'', er_prefix = 8, er_fd = fd, er_rd = fd - 2816, er_next_hop = from,
         er_from = from, er_from_host = from, er_external = False, er_time = 0\<rparr>],
       eg_neighbors = List.map ring_neighbor ps, eg_k = [1, 0, 1, 0, 0], eg_variance = 1, eg_passive = [],
       eg_hello_task = True, eg_hold = List.map (\<lambda>p. (p, Some 0)) holds\<rparr>)"

definition ring_at :: "int \<Rightarrow> eigrp" where
  "ring_at m =
     [(''D'', (new_eigrp_node ''D'')\<lparr>eg_asn := 1, eg_networks := [''10.0.0.0/8'']\<rparr>),
      ring_node ''A'' [''B'', ''C''] ''B'' m [''B'', ''C''], ring_node ''B'' [''C'', ''A''] ''C'' (m - 2816) [''C''],
      ring_node ''C'' [''A'', ''B''] ''A'' (m + 2816) [''A'', ''B'']]"

definition ring_events :: "eigrp_event list" where
  "ring_events =
     [Begin ring_world (Start ''D'' ''D'' 1 [''10.0.0.0/8''] []), Begin ring_world (Start ''A'' ''A'' 1 [] []),
      Begin ring_world (Started ''D'')] @ replicate 40 (Proceed ring_world 2)"

lemma ring_events_ok: "\<forall>e\<in>set ring_events. eigrp_event_ok e"
  by (simp add: ring_events_def world_ok_def ring_world_def ring_net_def get_neighbors_def nbrs_def)

lemma eigrp_routes_via_neighbors_witness:
  "\<exists>r\<in>set (eg_topology (eigrp_node_of (snd (fold eigrp_next ring_events ([], []))) ''A'')). er_from r = ''D'' \<and> er_fd r = er_rd r + link_metric"
proof -
  let ?s = "snd (fold eigrp_next ring_events ([], []))"
  have "dget ?s ''A'' = Some (eigrp_node_of ?s ''A'')" by code_simp
  note rows = eigrp_routes_via_neighbors [OF ring_events_ok this]
  have "\<exists>r\<in>set (eg_topology (eigrp_node_of ?s ''A'')). er_from r = ''D''" by code_simp
  with rows show ?thesis by force
qed

lemma no_feasible_successor_witness:
  "feasible_successors (snd (fold eigrp_next ring_events ([], []))) ''A'' ''10.0.0.0'' 8 = []"
  by (rule no_feasible_successor [OF ring_events_ok])



lemma eigrp_split_horizon_witness:
  "\<exists>pk. Receive ''B'' pk \<in> set (fst (eigrp_step ring_world (Updates ''C'' [''B'']) (ring_at 14080))) \<and>
        ek_src pk = ''C'' \<and> ek_entries pk \<noteq> []"
proof -
  have step: "eigrp_step ring_world (Updates ''C'' [''B'']) (ring_at 14080) =
      (fst (eigrp_step ring_world (Updates ''C'' [''B'']) (ring_at 14080)), ring_at 14080)" by code_simp
  have "\<exists>c\<in>set (fst (eigrp_step ring_world (Updates ''C'' [''B'']) (ring_at 14080))).
      (case c of Receive q pk \<Rightarrow> q = ''B'' \<and> ek_entries pk \<noteq> [] | _ \<Rightarrow> False)" by code_simp
  then obtain c where c: "c \<in> set (fst (eigrp_step ring_world (Updates ''C'' [''B'']) (ring_at 14080)))"
      "case c of Receive q pk \<Rightarrow> q = ''B'' \<and> ek_entries pk \<noteq> [] | _ \<Rightarrow> False" by blast
  from c(2) obtain pk where "c = Receive ''B'' pk" "ek_entries pk \<noteq> []" by (cases c) simp_all
  with c(1) have pk: "Receive ''B'' pk \<in> set (fst (eigrp_step ring_world (Updates ''C'' [''B'']) (ring_at 14080)))"
      "ek_entries pk \<noteq> []" by simp_all
  with eigrp_split_horizon [OF step pk(1)] show ?thesis by auto
qed

end
