(* ===== verification/OspfData.thy ===== *)
theory OspfData
  imports Addr
begin

text \<open>
  The link-state data of \<open>OspfEngine\<close>: the links a link-state advertisement lists, the advertisements, the
  database that holds them under the text \<open>router:type:id\<close>, and the routes computed from it. The random
  checksum, the age (always 0) and the timestamp of an advertisement are only displayed and are left out.
\<close>

datatype lsa_link =
    Stub ip string int string
  | Transit string string int string
  | PointToPoint string string int string
  | Attached string "string list" string
  | Summary string string int string

text \<open>\<open>Stub link_id link_data metric network\<close>, \<open>Transit link_id link_data metric neighbor_id\<close>, \<open>PointToPoint\<close>
  likewise, \<open>Attached network_mask attached_routers dr_router_id\<close>, \<open>Summary network network_mask metric area_id\<close>;
  what \<open>link.get\<close> answers on them.\<close>

fun link_metric_or :: "lsa_link \<Rightarrow> int" where
  "link_metric_or (Stub i k m n) = m"
| "link_metric_or (Transit i k m n) = m"
| "link_metric_or (PointToPoint i k m n) = m"
| "link_metric_or (Attached k rs r) = 10"
| "link_metric_or (Summary n k m a) = m"

fun attached_routers :: "lsa_link \<Rightarrow> string list" where
  "attached_routers (Attached k rs r) = rs"
| "attached_routers l = []"

fun link_network :: "lsa_link \<Rightarrow> string" where
  "link_network (Stub i k m n) = n"
| "link_network (Summary n k m a) = n"
| "link_network l = []"

fun link_area :: "lsa_link \<Rightarrow> string" where
  "link_area (Summary n k m a) = a"
| "link_area l = ''0.0.0.0''"

record lsa =
  ls_type :: int
  ls_id :: string
  adv_router :: string
  seq_num :: int
  ls_links :: "lsa_link list"

type_synonym lsdb = "(string, lsa) dict"

datatype ospf_kind = IntraArea | InterArea | External2 | Nssa2

record ospf_route =
  or_network :: ip
  or_prefix :: string
  or_metric :: int
  or_via :: string
  or_next_hop :: string
  or_kind :: ospf_kind
  or_area :: "string option"

text \<open>The text under which the table keeps a destination, \<open>f"{network}/{prefix}"\<close>.\<close>

definition or_key :: "ospf_route \<Rightarrow> string" where
  "or_key r = or_network r @ ''/'' @ or_prefix r"

text \<open>\<open>int(net.split('/')[1]) if '/' in net else 24\<close>.\<close>

definition net_length :: "string \<Rightarrow> int res" where
  "net_length net =
     (case split_on (CHR ''/'') net of
        _ # p # _ \<Rightarrow> res_of ValueError (py_int p)
      | _ \<Rightarrow> Inr 24)"

definition net_base :: "string \<Rightarrow> string" where
  "net_base net = hd (split_on (CHR ''/'') net)"

text \<open>A network text as address, length and netmask text; a length above 32 makes the shift raise.\<close>

definition net_mask :: "string \<Rightarrow> (int \<times> string) res" where
  "net_mask net = res_bind (net_length net) (\<lambda>p. res_bind (netmask p) (\<lambda>m. Inr (p, int_to_ip m)))"

end
