(* ===== verification/OspfSpf.thy ===== *)
theory OspfSpf
  imports OspfData
begin

text \<open>
  \<open>OspfEngine._recalc_routes\<close>: the shortest-path-first computation over a router's link-state database.
  The candidate list is sorted by cost in every round (Python's sort is stable, as \<open>sort_key\<close> is), routers
  are settled in that order, and the networks of a settled router are appended to the routes.
\<close>

type_synonym spf_entry = "int \<times> string \<times> string \<times> string"

record spf =
  sp_dist :: "(string, int \<times> string \<times> string) dict"
  sp_pq :: "spf_entry list"
  sp_routes :: "ospf_route list"

text \<open>A router \<open>rid\<close> is reached at cost \<open>c\<close>: kept if it is new or cheaper.\<close>

definition spf_offer :: "string \<Rightarrow> int \<Rightarrow> string \<Rightarrow> string \<Rightarrow> spf \<Rightarrow> spf" where
  "spf_offer rid c via nh st =
     (if (case dget (sp_dist st) rid of None \<Rightarrow> True | Some (c', _) \<Rightarrow> c' > c)
      then st\<lparr>sp_dist := dset (sp_dist st) rid (c, via, nh), sp_pq := sp_pq st @ [(c, rid, via, nh)]\<rparr>
      else st)"

definition spf_reach :: "spf_entry \<Rightarrow> string \<Rightarrow> int \<Rightarrow> spf \<Rightarrow> spf" where
  "spf_reach = (\<lambda>(cost, cur, via, nh) rid c st.
     spf_offer rid c (if via \<noteq> ''direct'' then via else rid) (if nh \<noteq> [] then nh else rid) st)"

definition spf_add :: "ospf_route \<Rightarrow> spf \<Rightarrow> spf" where
  "spf_add r st = st\<lparr>sp_routes := sp_routes st @ [r]\<rparr>"

text \<open>One link of a router LSA, a network LSA and a summary LSA of the router that has just been settled.\<close>

fun spf_router_link :: "string \<Rightarrow> string list \<Rightarrow> spf_entry \<Rightarrow> lsa_link \<Rightarrow> spf \<Rightarrow> spf res" where
  "spf_router_link area visited (cost, cur, via, nh) (Stub i k m net) st =
     res_bind (net_length net) (\<lambda>p. Inr
       (if net = [] then st
        else spf_add \<lparr>or_network = i, or_prefix = show_int p, or_metric = cost + m,
               or_via = (if via \<noteq> ''direct'' then via else ''connected''), or_next_hop = (if nh \<noteq> [] then nh else cur),
               or_kind = IntraArea, or_area = Some area\<rparr> st))"
| "spf_router_link area visited e (Transit i k m p) st =
     Inr (if i \<in> set visited then st else spf_reach e i (fst e + m) st)"
| "spf_router_link area visited e (PointToPoint i k m p) st =
     Inr (if i \<in> set visited then st else spf_reach e i (fst e + m) st)"
| "spf_router_link area visited e l st = Inr st"

definition spf_network_link :: "string \<Rightarrow> string list \<Rightarrow> spf_entry \<Rightarrow> lsa_link \<Rightarrow> spf \<Rightarrow> spf" where
  "spf_network_link my visited e l st =
     fold (\<lambda>att st. if att \<noteq> my \<and> att \<notin> set visited then spf_reach e att (fst e + 1) st else st)
       (attached_routers l) st"

definition spf_summary_link :: "string \<Rightarrow> spf_entry \<Rightarrow> lsa_link \<Rightarrow> spf \<Rightarrow> spf res" where
  "spf_summary_link adv = (\<lambda>(cost, cur, via, nh) l st.
     (if link_network l = [] then Inr st
      else res_bind (net_length (link_network l)) (\<lambda>p. Inr
        (spf_add \<lparr>or_network = net_base (link_network l), or_prefix = show_int p, or_metric = cost + link_metric_or l,
           or_via = (if via \<noteq> ''direct'' then via else adv), or_next_hop = (if nh \<noteq> [] then nh else adv),
           or_kind = InterArea, or_area = Some (link_area l)\<rparr> st))))"

fun spf_links :: "(lsa_link \<Rightarrow> spf \<Rightarrow> spf res) \<Rightarrow> lsa_link list \<Rightarrow> spf \<Rightarrow> spf res" where
  "spf_links f [] st = Inr st"
| "spf_links f (l # ls) st = res_bind (f l st) (spf_links f ls)"

definition spf_lsa :: "string \<Rightarrow> string \<Rightarrow> string list \<Rightarrow> spf_entry \<Rightarrow> lsa \<Rightarrow> spf \<Rightarrow> spf res" where
  "spf_lsa my area visited e a st =
     (if adv_router a \<noteq> fst (snd e) then Inr st
      else if ls_type a = 1 then spf_links (spf_router_link area visited e) (ls_links a) st
      else if ls_type a = 2 then spf_links (\<lambda>l st. Inr (spf_network_link my visited e l st)) (ls_links a) st
      else if ls_type a = 3 then spf_links (spf_summary_link (adv_router a) e) (ls_links a) st
      else Inr st)"

fun spf_lsas :: "string \<Rightarrow> string \<Rightarrow> string list \<Rightarrow> spf_entry \<Rightarrow> lsa list \<Rightarrow> spf \<Rightarrow> spf res" where
  "spf_lsas my area visited e [] st = Inr st"
| "spf_lsas my area visited e (a # as) st = res_bind (spf_lsa my area visited e a st) (spf_lsas my area visited e as)"

lemma spf_lsas_others: "\<forall>a\<in>set as. adv_router a \<noteq> fst (snd e) \<Longrightarrow> spf_lsas my area visited e as st = Inr st"
  by (induction as) (auto simp: spf_lsa_def)

text \<open>The loop. It ends because only an advertising router that is settled for the first time adds candidates.\<close>

definition by_cost :: "spf_entry list \<Rightarrow> spf_entry list" where
  "by_cost = sort_key fst"

function spf_loop :: "string \<Rightarrow> string \<Rightarrow> lsa list \<Rightarrow> string list \<Rightarrow> spf \<Rightarrow> ospf_route list res" where
  "spf_loop my area as visited st =
     (case by_cost (sp_pq st) of
        [] \<Rightarrow> Inr (sp_routes st)
      | e # pq \<Rightarrow>
          (if fst (snd e) \<in> set visited then spf_loop my area as visited (st\<lparr>sp_pq := pq\<rparr>)
           else (case spf_lsas my area (fst (snd e) # visited) e as (st\<lparr>sp_pq := pq\<rparr>) of
                   Inl x \<Rightarrow> Inl x
                 | Inr st' \<Rightarrow> spf_loop my area as (fst (snd e) # visited) st')))"
  by pat_completeness auto
termination
proof (relation "measures [\<lambda>(my, area, as, visited, st). length (filter (\<lambda>a. adv_router a \<notin> set visited) as),
    \<lambda>(my, area, as, visited, st). length (sp_pq st)]", simp)
  fix my area :: string and as :: "lsa list" and visited :: "string list" and st :: spf and e pq
  assume pq: "by_cost (sp_pq st) = e # pq"
  then have len: "length (sp_pq st) = Suc (length pq)"
    by (metis by_cost_def length_Cons length_sort)
  then show "((my, area, as, visited, st\<lparr>sp_pq := pq\<rparr>), my, area, as, visited, st) \<in>
      measures [\<lambda>(my, area, as, visited, st). length (filter (\<lambda>a. adv_router a \<notin> set visited) as),
        \<lambda>(my, area, as, visited, st). length (sp_pq st)]" by simp
  fix st'
  assume new: "fst (snd e) \<notin> set visited" and st': "spf_lsas my area (fst (snd e) # visited) e as (st\<lparr>sp_pq := pq\<rparr>) = Inr st'"
  let ?new = "length (filter (\<lambda>a. adv_router a \<notin> set (fst (snd e) # visited)) as)"
  let ?old = "length (filter (\<lambda>a. adv_router a \<notin> set visited) as)"
  have "?new < ?old \<or> ?new \<le> ?old \<and> length (sp_pq st') < length (sp_pq st)"
  proof (cases "\<exists>a\<in>set as. adv_router a = fst (snd e)")
    case True
    have "filter (\<lambda>a. adv_router a \<notin> set (fst (snd e) # visited)) as =
      filter (\<lambda>a. adv_router a \<noteq> fst (snd e)) (filter (\<lambda>a. adv_router a \<notin> set visited) as)"
      by (auto intro: filter_cong)
    moreover have "length (filter (\<lambda>a. adv_router a \<noteq> fst (snd e)) (filter (\<lambda>a. adv_router a \<notin> set visited) as)) < ?old"
      using True new length_filter_less [of _ "filter (\<lambda>a. adv_router a \<notin> set visited) as" "\<lambda>a. adv_router a \<noteq> fst (snd e)"]
      by (auto simp del: filter_filter)
    ultimately show ?thesis by simp
  next
    case False
    then have "st' = st\<lparr>sp_pq := pq\<rparr>" using st' spf_lsas_others [of as e] by force
    moreover have "?new \<le> ?old" by (induction as) auto
    ultimately show ?thesis using len by simp
  qed
  then show "((my, area, as, fst (snd e) # visited, st'), my, area, as, visited, st) \<in>
      measures [\<lambda>(my, area, as, visited, st). length (filter (\<lambda>a. adv_router a \<notin> set visited) as),
        \<lambda>(my, area, as, visited, st). length (sp_pq st)]" by auto
qed

declare spf_loop.simps [simp del]

text \<open>Of the routes for one destination the cheapest stays, the first of equals.\<close>

fun best_by_metric :: "(string, ospf_route) dict \<Rightarrow> ospf_route list \<Rightarrow> (string, ospf_route) dict" where
  "best_by_metric best [] = best"
| "best_by_metric best (r # rs) =
     best_by_metric (if (case dget best (or_key r) of None \<Rightarrow> True | Some b \<Rightarrow> or_metric b > or_metric r)
                     then dset best (or_key r) r else best) rs"

definition spf_start :: "string \<Rightarrow> spf" where
  "spf_start my = \<lparr>sp_dist = [(my, 0, ''direct'', [])], sp_pq = [(0, my, ''direct'', [])], sp_routes = []\<rparr>"

definition spf_routes :: "string \<Rightarrow> string \<Rightarrow> lsdb \<Rightarrow> ospf_route list res" where
  "spf_routes my area db =
     res_bind (spf_loop my area (dvals db) [] (spf_start my)) (\<lambda>rs. Inr (dvals (best_by_metric [] rs)))"

end
