(* ===== verification/OspfPaths.thy ===== *)
theory OspfPaths
  imports OspfSpf
begin

text \<open>
  What the computation of \<open>OspfSpf\<close> computes: the graph of a link-state database, its walks with their cost
  and first hop, and the proof that the table holds, for every destination that can be reached, a cheapest
  walk to it and nothing else.
\<close>

subsection \<open>The graph of a database\<close>

fun link_targets :: "int \<Rightarrow> lsa_link \<Rightarrow> (string \<times> int) list" where
  "link_targets t (Transit i k m p) = (if t = 1 then [(i, m)] else [])"
| "link_targets t (PointToPoint i k m p) = (if t = 1 then [(i, m)] else [])"
| "link_targets t (Attached k rs r) = (if t = 2 then List.map (\<lambda>att. (att, 1)) rs else [])"
| "link_targets t l = []"

definition link_dests :: "int \<Rightarrow> lsa_link \<Rightarrow> (string \<times> int) list" where
  "link_dests t l =
     (case net_length (link_network l) of
        Inl _ \<Rightarrow> []
      | Inr p \<Rightarrow>
          (case l of
             Stub i k m net \<Rightarrow>
               if t = 1 \<and> net \<noteq> [] then [(i @ ''/'' @ show_int p, m)]
               else if t = 3 \<and> net \<noteq> [] then [(net_base net @ ''/'' @ show_int p, m)] else []
           | Summary net k m a \<Rightarrow> if t = 3 \<and> net \<noteq> [] then [(net_base net @ ''/'' @ show_int p, m)] else []
           | _ \<Rightarrow> []))"

definition spf_edges :: "lsa list \<Rightarrow> (string \<times> string \<times> int) list" where
  "spf_edges as = [(adv_router a, x). a \<leftarrow> as, l \<leftarrow> ls_links a, x \<leftarrow> link_targets (ls_type a) l]"

definition spf_dests :: "lsa list \<Rightarrow> (string \<times> string \<times> int) list" where
  "spf_dests as = [(adv_router a, x). a \<leftarrow> as, l \<leftarrow> ls_links a, x \<leftarrow> link_dests (ls_type a) l]"

text \<open>A walk from \<open>my\<close> to a router, its cost, and the router after \<open>my\<close> on it (empty at \<open>my\<close> itself).\<close>

inductive spf_walk :: "(string \<times> string \<times> int) list \<Rightarrow> string \<Rightarrow> string \<Rightarrow> int \<Rightarrow> string \<Rightarrow> bool" for edges my where
  here: "spf_walk edges my my 0 []"
| further: "spf_walk edges my u c h \<Longrightarrow> (u, v, w) \<in> set edges \<Longrightarrow> spf_walk edges my v (c + w) (if h \<noteq> [] then h else v)"

subsection \<open>What one router's LSAs add\<close>

definition spf_ok :: "string list \<Rightarrow> spf \<Rightarrow> bool" where
  "spf_ok visited st \<longleftrightarrow> (\<forall>v c x. v \<notin> set visited \<longrightarrow> dget (sp_dist st) v = Some (c, x) \<longrightarrow>
     (\<exists>y. (c, v, y) \<in> set (sp_pq st)))"

definition covers :: "spf \<Rightarrow> string \<Rightarrow> int \<Rightarrow> bool" where
  "covers st v c \<longleftrightarrow> (\<exists>c' x. (c', v, x) \<in> set (sp_pq st) \<and> c' \<le> c)"

fun hop_of :: "spf_entry \<Rightarrow> string \<Rightarrow> string" where
  "hop_of (c, cur, via, nh) v = (if nh \<noteq> [] then nh else v)"

definition explores ::
  "string list \<Rightarrow> spf_entry \<Rightarrow> (string \<times> int) list \<Rightarrow> (string \<times> int) list \<Rightarrow> spf \<Rightarrow> spf \<Rightarrow> bool" where
  "explores visited e ts ds st st' \<longleftrightarrow>
     spf_ok visited st' \<and> set (sp_pq st) \<subseteq> set (sp_pq st') \<and> set (sp_routes st) \<subseteq> set (sp_routes st') \<and>
     (\<forall>c v via h. (c, v, via, h) \<in> set (sp_pq st') \<longrightarrow> (c, v, via, h) \<in> set (sp_pq st) \<or>
        (\<exists>w. (v, w) \<in> set ts \<and> c = fst e + w \<and> h = hop_of e v)) \<and>
     (\<forall>v w. (v, w) \<in> set ts \<longrightarrow> v \<notin> set visited \<longrightarrow> covers st' v (fst e + w)) \<and>
     (\<forall>r\<in>set (sp_routes st'). r \<in> set (sp_routes st) \<or>
        (\<exists>m. (or_key r, m) \<in> set ds \<and> or_metric r = fst e + m \<and> or_next_hop r = hop_of e (fst (snd e)))) \<and>
     (\<forall>k m. (k, m) \<in> set ds \<longrightarrow> (\<exists>r\<in>set (sp_routes st'). or_key r = k \<and> or_metric r = fst e + m))"

lemma explores_refl [simp]: "spf_ok visited st \<Longrightarrow> explores visited e [] [] st st"
  by (simp add: explores_def)

lemma exploresD:
  assumes "explores visited e ts ds st st'"
  shows "spf_ok visited st'" "set (sp_pq st) \<subseteq> set (sp_pq st')" "set (sp_routes st) \<subseteq> set (sp_routes st')"
    and "(c, v, via, h) \<in> set (sp_pq st') \<Longrightarrow> (c, v, via, h) \<in> set (sp_pq st) \<or>
        (\<exists>w. (v, w) \<in> set ts \<and> c = fst e + w \<and> h = hop_of e v)"
    and "(v, w) \<in> set ts \<Longrightarrow> v \<notin> set visited \<Longrightarrow> covers st' v (fst e + w)"
    and "r \<in> set (sp_routes st') \<Longrightarrow> r \<in> set (sp_routes st) \<or>
        (\<exists>m. (or_key r, m) \<in> set ds \<and> or_metric r = fst e + m \<and> or_next_hop r = hop_of e (fst (snd e)))"
    and "(k, m) \<in> set ds \<Longrightarrow> \<exists>r\<in>set (sp_routes st'). or_key r = k \<and> or_metric r = fst e + m"
  using assms by (auto simp: explores_def)

lemma explores_trans:
  assumes "explores visited e ts ds st st1" "explores visited e ts' ds' st1 st2"
  shows "explores visited e (ts @ ts') (ds @ ds') st st2"
proof -
  have covers: "covers st2 v c" if "covers st1 v c" for v c
    using that exploresD(2) [OF assms(2)] by (auto simp: covers_def)
  have routes: "\<exists>r\<in>set (sp_routes st2). P r" if "\<exists>r\<in>set (sp_routes st1). P r" for P
    using that exploresD(3) [OF assms(2)] by blast
  show ?thesis
    unfolding explores_def set_append Un_iff
  proof (intro conjI allI impI ballI)
    fix c v via h
    assume "(c, v, via, h) \<in> set (sp_pq st2)"
    from exploresD(4) [OF assms(2) this] exploresD(4) [OF assms(1), of c v via h]
    show "(c, v, via, h) \<in> set (sp_pq st) \<or>
      (\<exists>w. ((v, w) \<in> set ts \<or> (v, w) \<in> set ts') \<and> c = fst e + w \<and> h = hop_of e v)" by auto
  next
    fix r
    assume "r \<in> set (sp_routes st2)"
    from exploresD(6) [OF assms(2) this] exploresD(6) [OF assms(1), of r]
    show "r \<in> set (sp_routes st) \<or>
      (\<exists>m. ((or_key r, m) \<in> set ds \<or> (or_key r, m) \<in> set ds') \<and> or_metric r = fst e + m \<and> or_next_hop r = hop_of e (fst (snd e)))"
      by auto
  next
    fix v w
    assume "(v, w) \<in> set ts \<or> (v, w) \<in> set ts'" "v \<notin> set visited"
    then show "covers st2 v (fst e + w)"
      using covers exploresD(5) [OF assms(1), of v w] exploresD(5) [OF assms(2), of v w] by blast
  next
    fix k m
    assume "(k, m) \<in> set ds \<or> (k, m) \<in> set ds'"
    then show "\<exists>r\<in>set (sp_routes st2). or_key r = k \<and> or_metric r = fst e + m"
      using routes [of "\<lambda>r. or_key r = k \<and> or_metric r = fst e + m"] exploresD(7) [OF assms(1), of k m] exploresD(7) [OF assms(2), of k m] by blast
  qed (use exploresD(1-3) [OF assms(1)] exploresD(1-3) [OF assms(2)] in auto)
qed

lemma spf_reach_explores:
  assumes "spf_ok visited st" "v \<notin> set visited"
  shows "explores visited e [(v, w)] [] st (spf_reach e v (fst e + w) st)"
proof -
  obtain c cur via nh where e: "e = (c, cur, via, nh)" by (cases e)
  show ?thesis
  proof (cases "case dget (sp_dist st) v of None \<Rightarrow> True | Some (c', _) \<Rightarrow> c' > c + w")
    case True
    with assms show ?thesis
      by (auto simp: explores_def spf_reach_def spf_offer_def e spf_ok_def covers_def)
  next
    case False
    then obtain c' x where "dget (sp_dist st) v = Some (c', x)" "c' \<le> c + w"
      by (auto split: option.splits prod.splits)
    then have "covers st v (c + w)" using assms by (fastforce simp: spf_ok_def covers_def)
    with False assms(1) show ?thesis by (simp add: explores_def spf_reach_def spf_offer_def e)
  qed
qed

lemma spf_add_explores:
  assumes "spf_ok visited st" "or_metric r = fst e + m" "or_next_hop r = hop_of e (fst (snd e))" "or_key r = k"
  shows "explores visited e [] [(k, m)] st (spf_add r st)"
  using assms by (auto simp: explores_def spf_add_def spf_ok_def)

lemma explores_visited: "spf_ok visited st \<Longrightarrow> v \<in> set visited \<Longrightarrow> explores visited e [(v, w)] [] st st"
  by (auto simp: explores_def)

lemma explores_spf_ok: "explores visited e ts ds st st' \<Longrightarrow> spf_ok visited st'"
  by (simp add: explores_def)

lemma router_link_explores:
  assumes "spf_router_link area visited e l st = Inr st'" "spf_ok visited st"
  shows "explores visited e (link_targets 1 l) (link_dests 1 l) st st'"
proof -
  obtain c cur via nh where e: "e = (c, cur, via, nh)" by (cases e)
  show ?thesis
  proof (cases l)
    case (Stub i k m net)
    obtain p where "net_length net = Inr p" using assms(1) Stub e by (cases "net_length net") auto
    with assms Stub e show ?thesis by (auto simp: link_dests_def or_key_def intro!: spf_add_explores)
  next
    case (Transit i k m p)
    with assms e spf_reach_explores [of visited st i e m] show ?thesis
      by (auto simp: link_dests_def explores_visited split: if_splits sum.split)
  next
    case (PointToPoint i k m p)
    with assms e spf_reach_explores [of visited st i e m] show ?thesis
      by (auto simp: link_dests_def explores_visited split: if_splits sum.split)
  qed (use assms e in \<open>auto simp: link_dests_def split: sum.split\<close>)
qed

lemma network_link_explores:
  assumes "spf_ok visited st" "my \<in> set visited"
  shows "explores visited e (link_targets 2 l) (link_dests 2 l) st (spf_network_link my visited e l st)"
proof -
  have "explores visited e (List.map (\<lambda>att. (att, 1)) rs) [] st
      (fold (\<lambda>att st. if att \<noteq> my \<and> att \<notin> set visited then spf_reach e att (fst e + 1) st else st) rs st)" for rs
    using assms(1)
  proof (induction rs arbitrary: st)
    case (Cons att rs)
    let ?st = "if att \<noteq> my \<and> att \<notin> set visited then spf_reach e att (fst e + 1) st else st"
    have "explores visited e [(att, 1)] [] st ?st"
      using Cons.prems spf_reach_explores [of visited st att e 1] assms(2) by (auto intro: explores_visited)
    from explores_trans [OF this Cons.IH [OF explores_spf_ok [OF this]]] show ?case by simp
  qed simp
  then show ?thesis using assms by (cases l) (auto simp: spf_network_link_def link_dests_def split: sum.split)
qed

lemma summary_link_explores:
  assumes "spf_summary_link (fst (snd e)) e l st = Inr st'" "spf_ok visited st"
  shows "explores visited e (link_targets 3 l) (link_dests 3 l) st st'"
proof -
  obtain c cur via nh where e: "e = (c, cur, via, nh)" by (cases e)
  have nt: "link_targets 3 l = []" by (cases l) auto
  show ?thesis
  proof (cases "link_network l = []")
    case True
    with assms e nt show ?thesis by (cases l) (auto simp: link_dests_def spf_summary_link_def split: sum.split)
  next
    case False
    obtain p where "net_length (link_network l) = Inr p"
      using assms(1) False e by (cases "net_length (link_network l)") (auto simp: spf_summary_link_def)
    with assms False e nt show ?thesis
      by (cases l) (auto simp: link_dests_def spf_summary_link_def or_key_def intro!: spf_add_explores)
  qed
qed

lemma spf_links_explores:
  assumes "spf_links f ls st = Inr st'" "spf_ok visited st"
    and "\<And>l st st'. f l st = Inr st' \<Longrightarrow> spf_ok visited st \<Longrightarrow> explores visited e (link_targets t l) (link_dests t l) st st'"
  shows "explores visited e (concat (List.map (link_targets t) ls)) (concat (List.map (link_dests t) ls)) st st'"
  using assms(1,2)
proof (induction ls arbitrary: st)
  case (Cons l ls)
  then obtain st1 where st1: "f l st = Inr st1" "spf_links f ls st1 = Inr st'" by (cases "f l st") auto
  have first: "explores visited e (link_targets t l) (link_dests t l) st st1" using assms(3) st1(1) Cons.prems(2) by blast
  from explores_trans [OF first Cons.IH [OF st1(2) explores_spf_ok [OF first]]] show ?case by simp
qed simp

lemma link_dests_other: "t \<noteq> 1 \<Longrightarrow> t \<noteq> 3 \<Longrightarrow> link_dests t l = []"
  by (auto simp: link_dests_def split: sum.split lsa_link.split)

lemma link_targets_other: "t \<noteq> 1 \<Longrightarrow> t \<noteq> 2 \<Longrightarrow> link_targets t l = []"
  by (cases l) auto

definition targets_of :: "string \<Rightarrow> lsa list \<Rightarrow> (string \<times> int) list" where
  "targets_of u as = [x. a \<leftarrow> as, adv_router a = u, l \<leftarrow> ls_links a, x \<leftarrow> link_targets (ls_type a) l]"

definition dests_of :: "string \<Rightarrow> lsa list \<Rightarrow> (string \<times> int) list" where
  "dests_of u as = [x. a \<leftarrow> as, adv_router a = u, l \<leftarrow> ls_links a, x \<leftarrow> link_dests (ls_type a) l]"

lemma spf_lsas_explores:
  assumes "spf_lsas my area visited e as st = Inr st'" "spf_ok visited st" "my \<in> set visited"
  shows "explores visited e (targets_of (fst (snd e)) as) (dests_of (fst (snd e)) as) st st'"
  using assms(1,2)
proof (induction as arbitrary: st)
  case (Cons a as)
  then obtain st1 where st1: "spf_lsa my area visited e a st = Inr st1" "spf_lsas my area visited e as st1 = Inr st'"
    by (cases "spf_lsa my area visited e a st") auto
  have "explores visited e (targets_of (fst (snd e)) [a]) (dests_of (fst (snd e)) [a]) st st1"
  proof (cases "adv_router a = fst (snd e)")
    case True
    let ?ts = "concat (List.map (link_targets (ls_type a)) (ls_links a))"
    let ?ds = "concat (List.map (link_dests (ls_type a)) (ls_links a))"
    have "explores visited e ?ts ?ds st st1"
    proof (cases "ls_type a = 1 \<or> ls_type a = 2 \<or> ls_type a = 3")
      case known: True
      have one: ?thesis if "ls_type a = 1"
        using that st1(1) True Cons.prems(2) by (auto simp: spf_lsa_def intro!: spf_links_explores router_link_explores)
      have two: ?thesis if "ls_type a = 2"
        using that st1(1) True Cons.prems(2) assms(3)
        by (auto simp: spf_lsa_def intro!: spf_links_explores [where f = "\<lambda>l st. Inr (spf_network_link my visited e l st)"] network_link_explores)
      have three: ?thesis if "ls_type a = 3"
        using that st1(1) True Cons.prems(2) by (auto simp: spf_lsa_def intro!: spf_links_explores summary_link_explores)
      from known one two three show ?thesis by blast
    next
      case False
      then show ?thesis using st1(1) True Cons.prems(2) 
        by (simp add: spf_lsa_def link_dests_other link_targets_other concat_eq_Nil_conv [THEN iffD2])
    qed
    with True show ?thesis by (simp add: targets_of_def dests_of_def)
  next
    case False
    with st1(1) Cons.prems(2) show ?thesis by (simp add: spf_lsa_def targets_of_def dests_of_def)
  qed
  from explores_trans [OF this Cons.IH [OF st1(2) explores_spf_ok [OF this]]] show ?case
    by (simp add: targets_of_def dests_of_def)
qed (simp add: targets_of_def dests_of_def)

subsection \<open>The invariant of the loop\<close>

lemma targets_of_edges: "(v, w) \<in> set (targets_of u as) \<longleftrightarrow> (u, v, w) \<in> set (spf_edges as)"
  by (auto simp: targets_of_def spf_edges_def)

lemma dests_of_dests: "(k, m) \<in> set (dests_of u as) \<longleftrightarrow> (u, k, m) \<in> set (spf_dests as)"
  by (auto simp: dests_of_def spf_dests_def)

definition good_route :: "string \<Rightarrow> lsa list \<Rightarrow> ospf_route \<Rightarrow> bool" where
  "good_route my as r \<longleftrightarrow> (\<exists>u c h m. spf_walk (spf_edges as) my u c h \<and> (u, or_key r, m) \<in> set (spf_dests as) \<and>
     or_metric r = c + m \<and> or_next_hop r = (if h \<noteq> [] then h else u))"

definition settled_at :: "string \<Rightarrow> lsa list \<Rightarrow> spf \<Rightarrow> string list \<Rightarrow> (string \<Rightarrow> int) \<Rightarrow> string \<Rightarrow> bool" where
  "settled_at my as st visited D u \<longleftrightarrow>
     (\<exists>h. spf_walk (spf_edges as) my u (D u) h) \<and> (\<forall>c h. spf_walk (spf_edges as) my u c h \<longrightarrow> D u \<le> c) \<and>
     (\<forall>v w. (u, v, w) \<in> set (spf_edges as) \<longrightarrow> v \<notin> set visited \<longrightarrow> covers st v (D u + w)) \<and>
     (\<forall>k m. (u, k, m) \<in> set (spf_dests as) \<longrightarrow> (\<exists>r\<in>set (sp_routes st). or_key r = k \<and> or_metric r = D u + m))"

definition spf_inv :: "string \<Rightarrow> lsa list \<Rightarrow> string list \<Rightarrow> (string \<Rightarrow> int) \<Rightarrow> spf \<Rightarrow> bool" where
  "spf_inv my as visited D st \<longleftrightarrow>
     spf_ok visited st \<and> (visited = [] \<longrightarrow> sp_pq st = [(0, my, ''direct'', [])]) \<and> (visited \<noteq> [] \<longrightarrow> my \<in> set visited) \<and>
     (\<forall>c v via h. (c, v, via, h) \<in> set (sp_pq st) \<longrightarrow> spf_walk (spf_edges as) my v c h) \<and>
     (\<forall>u\<in>set visited. settled_at my as st visited D u) \<and> (\<forall>r\<in>set (sp_routes st). good_route my as r)"

definition costs_nonneg :: "lsa list \<Rightarrow> bool" where
  "costs_nonneg as \<longleftrightarrow> (\<forall>(u, v, w)\<in>set (spf_edges as). 0 \<le> w)"

lemma costs_edge: "costs_nonneg as \<Longrightarrow> (u, v, w) \<in> set (spf_edges as) \<Longrightarrow> 0 \<le> w"
  by (auto simp: costs_nonneg_def)

text \<open>Every walk is answered by a settled router or by a candidate that is no dearer.\<close>

lemma walk_frontier:
  assumes "spf_walk (spf_edges as) my v c h" "spf_inv my as visited D st" "costs_nonneg as"
  shows "(v \<in> set visited \<and> D v \<le> c) \<or> (\<exists>c' u x. (c', u, x) \<in> set (sp_pq st) \<and> u \<notin> set visited \<and> c' \<le> c)"
  using assms(1)
proof induction
  case here
  show ?case
  proof (cases "visited = []")
    case True
    then have "sp_pq st = [(0, my, ''direct'', [])]" using assms(2) by (simp add: spf_inv_def)
    then show ?thesis using True by simp
  next
    case False
    then have "my \<in> set visited" "settled_at my as st visited D my" using assms(2) by (auto simp: spf_inv_def)
    then show ?thesis using spf_walk.here by (auto simp: settled_at_def)
  qed
next
  case (further u c h v w)
  have w: "0 \<le> w" using further.hyps(2) assms(3) by (rule costs_edge [rotated])
  from further.IH show ?case
  proof (elim disjE conjE exE)
    assume u: "u \<in> set visited" "D u \<le> c"
    then have s: "settled_at my as st visited D u" using assms(2) by (simp add: spf_inv_def)
    show ?thesis
    proof (cases "v \<in> set visited")
      case True
      obtain h' where "spf_walk (spf_edges as) my u (D u) h'" using s by (auto simp: settled_at_def)
      from spf_walk.further [OF this further.hyps(2)] obtain h where "spf_walk (spf_edges as) my v (D u + w) h" by blast
      moreover have "settled_at my as st visited D v" using True assms(2) by (simp add: spf_inv_def)
      ultimately have "D v \<le> D u + w" unfolding settled_at_def by blast
      with True u(2) show ?thesis by simp
    next
      case False
      then have "covers st v (D u + w)" using s further.hyps(2) by (simp add: settled_at_def)
      then obtain c' x where "(c', v, x) \<in> set (sp_pq st)" "c' \<le> D u + w" by (auto simp: covers_def)
      with False u(2) show ?thesis by (intro disjI2 exI [of _ c'] exI [of _ v] exI [of _ x]) auto
    qed
  next
    fix c' u' x
    assume "(c', u', x) \<in> set (sp_pq st)" "u' \<notin> set visited" "c' \<le> c"
    with w show ?thesis by (intro disjI2 exI [of _ c'] exI [of _ u'] exI [of _ x]) auto
  qed
qed

lemma by_cost_Cons:
  assumes "by_cost pq = e # es"
  shows "set pq = insert e (set es)" "\<forall>x\<in>set es. fst e \<le> fst x"
proof -
  show "set pq = insert e (set es)" using assms set_sort [of fst pq] by (simp add: by_cost_def)
  have "sorted (List.map fst (by_cost pq))" by (simp add: by_cost_def)
  then show "\<forall>x\<in>set es. fst e \<le> fst x" using assms by simp
qed

lemma spf_inv_skip:
  assumes "spf_inv my as visited D st" "by_cost (sp_pq st) = e # pq" "fst (snd e) \<in> set visited"
  shows "spf_inv my as visited D (st\<lparr>sp_pq := pq\<rparr>)"
proof -
  have pq: "set (sp_pq st) = insert e (set pq)" by (rule by_cost_Cons [OF assms(2)])
  have keep: "(c, v, x) \<in> set pq" if "(c, v, x) \<in> set (sp_pq st)" "v \<notin> set visited" for c v x
    using that pq assms(3) by auto
  have "spf_ok visited st" using assms(1) by (simp add: spf_inv_def)
  with keep have "spf_ok visited (st\<lparr>sp_pq := pq\<rparr>)" by (fastforce simp: spf_ok_def)
  moreover have "covers (st\<lparr>sp_pq := pq\<rparr>) v c" if "covers st v c" "v \<notin> set visited" for v c
    using that(1) keep [OF _ that(2)] unfolding covers_def by fastforce
  then have "\<forall>u\<in>set visited. settled_at my as (st\<lparr>sp_pq := pq\<rparr>) visited D u"
    using assms(1) by (auto simp: spf_inv_def settled_at_def)
  ultimately show ?thesis using assms(1,3) pq by (auto simp: spf_inv_def)
qed

lemma spf_inv_settle:
  assumes inv: "spf_inv my as visited D st" and e: "by_cost (sp_pq st) = (c, u, via, nh) # pq" and new: "u \<notin> set visited"
    and step: "spf_lsas my area (u # visited) (c, u, via, nh) as (st\<lparr>sp_pq := pq\<rparr>) = Inr st'" and nonneg: "costs_nonneg as"
  shows "spf_inv my as (u # visited) (D(u := c)) st'"
proof -
  have pq: "set (sp_pq st) = insert (c, u, via, nh) (set pq)" and least: "\<forall>x\<in>set pq. c \<le> fst x"
    using by_cost_Cons [OF e] by auto
  have my: "my \<in> set (u # visited)"
  proof (cases "visited = []")
    case True
    then have "sp_pq st = [(0, my, ''direct'', [])]" using inv by (simp add: spf_inv_def)
    with pq show ?thesis by auto
  qed (use inv in \<open>auto simp: spf_inv_def\<close>)
  have ok: "spf_ok (u # visited) (st\<lparr>sp_pq := pq\<rparr>)"
    using inv pq unfolding spf_inv_def spf_ok_def by fastforce
  note ex = exploresD [OF spf_lsas_explores [OF step ok my]]
  have walk: "spf_walk (spf_edges as) my u c nh" using inv pq by (auto simp: spf_inv_def)
  have minimal: "c \<le> c'" if "spf_walk (spf_edges as) my u c' h" for c' h
    using walk_frontier [OF that inv nonneg] new pq least by fastforce
  have keep: "covers st' v d" if "covers st v d" "v \<notin> set (u # visited)" for v d
    using that ex(2) pq by (fastforce simp: covers_def)
  have settled: "settled_at my as st' (u # visited) (D(u := c)) x" if "x \<in> set (u # visited)" for x
  proof (cases "x = u")
    case True
    then show ?thesis
      using walk minimal ex(5) ex(7) by (auto simp: settled_at_def targets_of_edges dests_of_dests)
  next
    case False
    then have s: "settled_at my as st visited D x" using that inv by (simp add: spf_inv_def)
    then have "\<exists>r\<in>set (sp_routes st'). or_key r = k \<and> or_metric r = D x + m" if "(x, k, m) \<in> set (spf_dests as)" for k m
      using that ex(3) by (fastforce simp: settled_at_def)
    with s keep False show ?thesis by (simp add: settled_at_def)
  qed
  have pq': "spf_walk (spf_edges as) my v d h" if entry: "(d, v, y, h) \<in> set (sp_pq st')" for d v y h
    using ex(4) [OF entry]
  proof (elim disjE exE conjE)
    assume "(d, v, y, h) \<in> set (sp_pq (st\<lparr>sp_pq := pq\<rparr>))"
    then show ?thesis using inv pq by (auto simp: spf_inv_def)
  next
    fix w
    assume "(v, w) \<in> set (targets_of (fst (snd (c, u, via, nh))) as)" "d = fst (c, u, via, nh) + w" "h = hop_of (c, u, via, nh) v"
    then show ?thesis using spf_walk.further [OF walk, of v w] by (simp add: targets_of_edges)
  qed
  have routes: "good_route my as r" if r: "r \<in> set (sp_routes st')" for r
    using ex(6) [OF r]
  proof (elim disjE exE conjE)
    assume "r \<in> set (sp_routes (st\<lparr>sp_pq := pq\<rparr>))"
    then show ?thesis using inv by (simp add: spf_inv_def)
  next
    fix m
    assume "(or_key r, m) \<in> set (dests_of (fst (snd (c, u, via, nh))) as)" "or_metric r = fst (c, u, via, nh) + m"
      "or_next_hop r = hop_of (c, u, via, nh) (fst (snd (c, u, via, nh)))"
    then show ?thesis using walk by (auto simp: good_route_def dests_of_dests)
  qed
  show ?thesis using ex(1) my settled pq' routes by (simp add: spf_inv_def)
qed

lemma spf_loop_correct:
  assumes "spf_loop my area as visited st = Inr rs" "spf_inv my as visited D st" "costs_nonneg as"
  shows "(\<forall>r\<in>set rs. good_route my as r) \<and>
     (\<forall>u c h k m. spf_walk (spf_edges as) my u c h \<longrightarrow> (u, k, m) \<in> set (spf_dests as) \<longrightarrow>
        (\<exists>r\<in>set rs. or_key r = k \<and> or_metric r \<le> c + m))"
  using assms
proof (induction my area as visited st arbitrary: D rule: spf_loop.induct)
  case (1 my area as visited st)
  note loop = "1.prems"(1) [unfolded spf_loop.simps [of my area as visited st]]
  show ?case
  proof (cases "by_cost (sp_pq st)")
    case Nil
    then have empty: "sp_pq st = []" by (metis by_cost_def length_0_conv length_sort)
    have rs: "rs = sp_routes st" using loop Nil by simp
    have "\<exists>r\<in>set rs. or_key r = k \<and> or_metric r \<le> c + m"
      if "spf_walk (spf_edges as) my u c h" "(u, k, m) \<in> set (spf_dests as)" for u c h k m
    proof -
      have "u \<in> set visited" "D u \<le> c" using walk_frontier [OF that(1) "1.prems"(2,3)] empty by auto
      then show ?thesis using "1.prems"(2) that(2) rs by (fastforce simp: spf_inv_def settled_at_def)
    qed
    moreover have "\<forall>r\<in>set rs. good_route my as r" using "1.prems"(2) rs by (simp add: spf_inv_def)
    ultimately show ?thesis by blast
  next
    case (Cons e pq)
    obtain c u via nh where e: "e = (c, u, via, nh)" by (cases e)
    show ?thesis
    proof (cases "u \<in> set visited")
      case True
      with loop Cons e have "spf_loop my area as visited (st\<lparr>sp_pq := pq\<rparr>) = Inr rs" by simp
      from "1.IH"(1) [OF Cons _ this spf_inv_skip [OF "1.prems"(2) Cons] "1.prems"(3)] True e show ?thesis by simp
    next
      case False
      with loop Cons e obtain st' where st': "spf_lsas my area (u # visited) (c, u, via, nh) as (st\<lparr>sp_pq := pq\<rparr>) = Inr st'"
        "spf_loop my area as (u # visited) st' = Inr rs"
        by (auto split: sum.splits)
      from spf_inv_settle [OF "1.prems"(2) Cons [unfolded e] False st'(1) "1.prems"(3)]
      have "spf_inv my as (u # visited) (D(u := c)) st'" .
      with "1.IH"(2) [OF Cons [unfolded e], of st' "D(u := c)"] False st' "1.prems"(3) show ?thesis
        by (simp del: fun_upd_apply)
    qed
  qed
qed

subsection \<open>The routes\<close>

lemma best_by_metric_spec:
  assumes "\<And>k b. dget best k = Some b \<Longrightarrow> or_key b = k"
  shows "(\<forall>k r. dget (best_by_metric best rs) k = Some r \<longrightarrow> or_key r = k \<and> (r \<in> set rs \<or> dget best k = Some r)) \<and>
     (\<forall>r\<in>set rs. \<exists>b. dget (best_by_metric best rs) (or_key r) = Some b \<and> or_metric b \<le> or_metric r) \<and>
     (\<forall>k b. dget best k = Some b \<longrightarrow> (\<exists>b'. dget (best_by_metric best rs) k = Some b' \<and> or_metric b' \<le> or_metric b)) \<and>
     (dict_ok best \<longrightarrow> dict_ok (best_by_metric best rs))"
  using assms
proof (induction best rs rule: best_by_metric.induct)
  case (2 best r rs)
  let ?best = "if (case dget best (or_key r) of None \<Rightarrow> True | Some b \<Rightarrow> or_metric b > or_metric r) then dset best (or_key r) r else best"
  have keys: "\<And>k b. dget ?best k = Some b \<Longrightarrow> or_key b = k" using "2.prems" by (auto split: if_splits)
  have entry: "\<exists>b. dget ?best (or_key r) = Some b \<and> or_metric b \<le> or_metric r" by (auto split: option.splits)
  have old: "\<exists>b'. dget ?best k = Some b' \<and> or_metric b' \<le> or_metric b" if "dget best k = Some b" for k b
    using that by (auto split: option.splits)
  have origin: "b = r \<or> dget best k = Some b" if "dget ?best k = Some b" for k b
    using that by (auto split: if_splits)
  have step: "best_by_metric best (r # rs) = best_by_metric ?best rs" by simp
  have table: "or_key x = k \<and> (x \<in> set rs \<or> dget ?best k = Some x)" if "dget (best_by_metric ?best rs) k = Some x" for k x
    using "2.IH" [OF keys] that by blast
  have later: "\<exists>b. dget (best_by_metric ?best rs) (or_key x) = Some b \<and> or_metric b \<le> or_metric x" if "x \<in> set rs" for x
    using "2.IH" [OF keys] that by blast
  have before: "\<exists>b'. dget (best_by_metric ?best rs) k = Some b' \<and> or_metric b' \<le> or_metric b" if "dget ?best k = Some b" for k b
    using "2.IH" [OF keys] that by blast
  have wf: "dict_ok (best_by_metric ?best rs)" if "dict_ok ?best" using "2.IH" [OF keys] that by blast
  show ?case
    unfolding step
  proof (intro conjI allI impI ballI)
    fix k x assume x: "dget (best_by_metric ?best rs) k = Some x"
    then show "or_key x = k" using table by blast
    from table [OF x] origin [of k x] show "x \<in> set (r # rs) \<or> dget best k = Some x" by auto
  next
    fix x assume "x \<in> set (r # rs)"
    moreover obtain b where b: "dget ?best (or_key r) = Some b" "or_metric b \<le> or_metric r" using entry by blast
    ultimately show "\<exists>b. dget (best_by_metric ?best rs) (or_key x) = Some b \<and> or_metric b \<le> or_metric x"
      using later [of x] before [OF b(1)] b(2) by (auto intro: order_trans)
  next
    fix k b assume "dget best k = Some b"
    then obtain b1 where b1: "dget ?best k = Some b1" "or_metric b1 \<le> or_metric b" using old by blast
    then show "\<exists>b'. dget (best_by_metric ?best rs) k = Some b' \<and> or_metric b' \<le> or_metric b"
      using before [OF b1(1)] by (auto intro: order_trans)
  next
    assume "dict_ok best"
    then show "dict_ok (best_by_metric ?best rs)" by (intro wf) simp
  qed
qed auto

text \<open>C1. The shortest-path-first computation of OSPF is correct: when it returns, and no link cost is negative, its
  table has one route for a destination; every route belongs to a walk through the link-state database to
  a router that announces the destination, its metric is the cost of the walk plus the cost the router
  announces, and its next hop is the first router on that walk; and no walk to an announced destination is
  cheaper than the route in the table.\<close>

theorem ospf_routes_shortest:
  assumes "spf_routes my area db = Inr rs" "costs_nonneg (dvals db)"
  shows "distinct (List.map or_key rs) \<and>
     (\<forall>r\<in>set rs. \<exists>u c h m. spf_walk (spf_edges (dvals db)) my u c h \<and> (u, or_key r, m) \<in> set (spf_dests (dvals db)) \<and>
        or_metric r = c + m \<and> or_next_hop r = (if h \<noteq> [] then h else u)) \<and>
     (\<forall>u c h k m. spf_walk (spf_edges (dvals db)) my u c h \<and> (u, k, m) \<in> set (spf_dests (dvals db)) \<longrightarrow>
        (\<exists>r\<in>set rs. or_key r = k \<and> or_metric r \<le> c + m))"
proof -
  obtain all where all: "spf_loop my area (dvals db) [] (spf_start my) = Inr all" "rs = dvals (best_by_metric [] all)"
    using assms(1) by (auto simp: spf_routes_def res_bind_Inr)
  have "spf_inv my (dvals db) [] D (spf_start my)" for D
    using spf_walk.here by (auto simp: spf_inv_def spf_ok_def spf_start_def)
  note found = spf_loop_correct [OF all(1) this assms(2)]
  have spec: "\<And>k r. dget (best_by_metric [] all) k = Some r \<Longrightarrow> or_key r = k \<and> r \<in> set all"
    "\<And>r. r \<in> set all \<Longrightarrow> \<exists>b. dget (best_by_metric [] all) (or_key r) = Some b \<and> or_metric b \<le> or_metric r"
    "dict_ok (best_by_metric [] all)"
    using best_by_metric_spec [of "[]" all] by auto
  have table: "r \<in> set rs \<longleftrightarrow> dget (best_by_metric [] all) (or_key r) = Some r" for r
    using spec(1) unfolding all(2) dvals_iff [OF spec(3)] by blast
  have "List.map or_key rs = List.map fst (best_by_metric [] all)"
    unfolding all(2) dvals_def using spec(1) dget_in_set [OF spec(3)] by auto
  then have "distinct (List.map or_key rs)" using spec(3) by (simp add: dict_ok_def)
  moreover have "good_route my (dvals db) r" if "r \<in> set rs" for r
    using that spec(1) table found by blast
  moreover have "\<exists>r\<in>set rs. or_key r = k \<and> or_metric r \<le> c + m"
    if walk: "spf_walk (spf_edges (dvals db)) my u c h" "(u, k, m) \<in> set (spf_dests (dvals db))" for u c h k m
  proof -
    obtain r where r: "r \<in> set all" "or_key r = k" "or_metric r \<le> c + m" using found walk by blast
    then obtain b where b: "dget (best_by_metric [] all) k = Some b" "or_metric b \<le> or_metric r" using spec(2) by blast
    then have "b \<in> set rs" "or_key b = k" using spec(1) table by auto
    with b r show ?thesis by force
  qed
  ultimately show ?thesis unfolding good_route_def by blast
qed

end
