(* ===== verification/PyStep.thy ===== *)
theory PyStep
  imports PyPrelude
begin

text \<open>
  Statements that change a state and may raise: the state after them and the exception, if there was one.
  A statement after one that raised is not executed, and what was done before stays done.
\<close>

type_synonym 's step = "'s \<Rightarrow> 's \<times> pyerr option"

definition and_then :: "'s step \<Rightarrow> 's step \<Rightarrow> 's step" where
  "and_then f g s = (case f s of (s1, Some e) \<Rightarrow> (s1, Some e) | (s1, None) \<Rightarrow> g s1)"

definition quietly :: "('s \<Rightarrow> 's) \<Rightarrow> 's step" where
  "quietly f s = (f s, None)"

fun for_each :: "('a \<Rightarrow> 's step) \<Rightarrow> 'a list \<Rightarrow> 's step" where
  "for_each f [] s = (s, None)"
| "for_each f (x # xs) s = and_then (f x) (for_each f xs) s"

text \<open>A value that may raise, and what is done with it.\<close>

definition raising :: "'a res \<Rightarrow> ('a \<Rightarrow> 's \<Rightarrow> 's) \<Rightarrow> 's step" where
  "raising r f s = (case r of Inl e \<Rightarrow> (s, Some e) | Inr x \<Rightarrow> (f x s, None))"

text \<open>The contract of such a statement: what holds before holds after, exception or not.\<close>

definition keeps :: "('s \<Rightarrow> bool) \<Rightarrow> 's step \<Rightarrow> bool" where
  "keeps P f \<longleftrightarrow> (\<forall>s. P s \<longrightarrow> P (fst (f s)))"

named_theorems keeping "statements that keep an invariant"

lemma keepsI: "(\<And>s. P s \<Longrightarrow> P (fst (f s))) \<Longrightarrow> keeps P f"
  by (simp add: keeps_def)

lemma keepsD: "keeps P f \<Longrightarrow> P s \<Longrightarrow> P (fst (f s))"
  by (simp add: keeps_def)

lemma keeps_and_then [keeping]: "keeps P f \<Longrightarrow> keeps P g \<Longrightarrow> keeps P (and_then f g)"
  by (fastforce simp: keeps_def and_then_def split: prod.split option.split)

lemma keeps_quietly [keeping]: "(\<And>s. P s \<Longrightarrow> P (f s)) \<Longrightarrow> keeps P (quietly f)"
  by (simp add: keeps_def quietly_def)

lemma keeps_for_each [keeping]: "(\<And>x. x \<in> set xs \<Longrightarrow> keeps P (f x)) \<Longrightarrow> keeps P (for_each f xs)"
proof (induction xs)
  case Nil
  then show ?case by (simp add: keeps_def)
next
  case (Cons x xs)
  then have "keeps P (and_then (f x) (for_each f xs))" by (simp add: keeping)
  then show ?case by (simp add: keeps_def)
qed

lemma keeps_raising [keeping]: "(\<And>x s. r = Inr x \<Longrightarrow> P s \<Longrightarrow> P (f x s)) \<Longrightarrow> keeps P (raising r f)"
  by (auto simp: keeps_def raising_def split: sum.split)

lemma and_then_quietly [simp]: "and_then (quietly f) g s = g (f s)"
  by (simp add: and_then_def quietly_def)

lemma and_then_None: "and_then f g s = (t, None) \<longleftrightarrow> (\<exists>s1. f s = (s1, None) \<and> g s1 = (t, None))"
  by (auto simp: and_then_def split: prod.splits option.splits)

end
