(* ===== verification/Ospf.thy ===== *)
theory Ospf
  imports OspfSpf Filters VNet PyStep "HOL-Library.Product_Lexorder"
begin

text \<open>
  \<open>OspfEngine\<close> of \<open>engine/protocols.py\<close>: the process of a device and its configuration, Hellos, the
  neighbour state machine, designated router election, LSA generation, exchange and flooding, and the routes.

  An adjacency comes up in a task that sleeps between the neighbour's states; \<open>receive_hello\<close> is split at
  these sleeps (\<open>hello_arrives\<close>, \<open>hello_progress\<close>, \<open>hello_finish\<close>). The task keeps the neighbour object it
  created, which may have left the table by then, so neighbours carry the number of their creation and a
  task writes to the object with its number only. A dead timer is a flag of the neighbour, and its expiry is
  an operation of its own. Log messages and the random checksum are left out.
\<close>

subsection \<open>State\<close>

datatype nbr_state = NbrInit | NbrTwoWay | NbrExStart | NbrExchange | NbrLoading | NbrFull

datatype nbr_role = RoleDR | RoleBDR | RoleDROther

record ospf_nbr =
  nb_uid :: nat
  nb_router_id :: string
  nb_hostname :: string
  nb_state :: nbr_state
  nb_role :: "nbr_role option"
  nb_dead :: bool

record redist_route =
  xr_metric :: int
  xr_source :: string

record external_route =
  xt_metric :: int
  xt_next_hop :: dev
  xt_hostname :: string
  xt_nssa :: bool

record ospf_node =
  on_enabled :: bool
  on_process :: int
  on_hostname :: string
  on_router_id :: string
  on_rid_manual :: bool
  on_area :: string
  on_networks :: "string list"
  on_neighbors :: "(dev, ospf_nbr) dict"
  on_lsdb :: lsdb
  on_routes :: "ospf_route list"
  on_hello_task :: bool
  on_seq :: int
  on_hello_interval :: int
  on_dead_interval :: int
  on_priority :: int
  on_dr :: "dev option"
  on_bdr :: "dev option"
  on_cost :: int
  on_redistributed :: "(string, redist_route) dict"
  on_abr :: bool
  on_auth_mode :: string
  on_auth_key :: string
  on_area_types :: "(string, string) dict"
  on_learned :: "(string, external_route) dict"

record ospf =
  ospf_nodes :: "(dev, ospf_node) dict"
  ospf_passive :: "(dev, iface list) dict"
  ospf_area_nets :: "(dev, (string, string list) dict) dict"
  ospf_next :: nat

text \<open>What the engine reads of the others; \<open>oe_hash\<close> is \<open>abs(hash(s))\<close>, which Python randomises, and \<open>oe_hello\<close>
  is \<open>OSPF_HELLO_INTERVAL\<close>, which the environment of the process sets to 1 or 10.\<close>

record ospf_env =
  oe_net :: vnet
  oe_l2 :: l2env
  oe_filters :: filter_engine
  oe_hash :: "string \<Rightarrow> int"
  oe_hello :: int

definition ospf_init :: ospf where
  "ospf_init = \<lparr>ospf_nodes = [], ospf_passive = [], ospf_area_nets = [], ospf_next = 0\<rparr>"

definition new_ospf_node :: "ospf_env \<Rightarrow> dev \<Rightarrow> ospf_node" where
  "new_ospf_node e d =
     \<lparr>on_enabled = False, on_process = 1, on_hostname = d,
      on_router_id = ''10.0.'' @ show_int (oe_hash e d mod 200 + 10) @ ''.1'', on_rid_manual = False,
      on_area = ''0.0.0.0'', on_networks = [], on_neighbors = [], on_lsdb = [], on_routes = [],
      on_hello_task = False, on_seq = 1, on_hello_interval = oe_hello e, on_dead_interval = oe_hello e * 4, on_priority = 1,
      on_dr = None, on_bdr = None, on_cost = 10, on_redistributed = [], on_abr = False, on_auth_mode = [],
      on_auth_key = [], on_area_types = [], on_learned = []\<rparr>"

definition ospf_node_of :: "ospf_env \<Rightarrow> ospf \<Rightarrow> dev \<Rightarrow> ospf_node" where
  "ospf_node_of e s d = (case dget (ospf_nodes s) d of None \<Rightarrow> new_ospf_node e d | Some n \<Rightarrow> n)"

definition ospf_put :: "dev \<Rightarrow> ospf_node \<Rightarrow> ospf \<Rightarrow> ospf" where
  "ospf_put d n s = s\<lparr>ospf_nodes := dset (ospf_nodes s) d n\<rparr>"

text \<open>\<open>self._node(device_id)\<close> creates the node, \<open>self.nodes.get(device_id)\<close> does not.\<close>

definition ospf_config :: "ospf_env \<Rightarrow> dev \<Rightarrow> (ospf_node \<Rightarrow> ospf_node) \<Rightarrow> ospf \<Rightarrow> ospf" where
  "ospf_config e d f s = ospf_put d (f (ospf_node_of e s d)) s"

definition ospf_upd :: "dev \<Rightarrow> (ospf_node \<Rightarrow> ospf_node) \<Rightarrow> ospf \<Rightarrow> ospf" where
  "ospf_upd d f s = (case dget (ospf_nodes s) d of None \<Rightarrow> s | Some n \<Rightarrow> ospf_put d (f n) s)"

subsection \<open>Configuration\<close>

definition set_area_type :: "ospf_env \<Rightarrow> dev \<Rightarrow> string \<Rightarrow> string \<Rightarrow> ospf \<Rightarrow> ospf" where
  "set_area_type e d area t = ospf_config e d (\<lambda>n. n\<lparr>on_area_types := dset (on_area_types n) (normalize_area area) t\<rparr>)"

definition is_area_nssa :: "ospf \<Rightarrow> dev \<Rightarrow> string option \<Rightarrow> bool" where
  "is_area_nssa s d area =
     (case dget (ospf_nodes s) d of
        None \<Rightarrow> False
      | Some n \<Rightarrow>
          (let aid = (case area of None \<Rightarrow> on_area n | Some a \<Rightarrow> if a = [] then on_area n else normalize_area a)
           in dget (on_area_types n) aid = Some ''nssa''))"

text \<open>The flag asks for a new election, which runs as a task.\<close>

definition set_priority :: "ospf_env \<Rightarrow> dev \<Rightarrow> int \<Rightarrow> ospf \<Rightarrow> ospf \<times> bool" where
  "set_priority e d p s =
     (let n = (ospf_node_of e s d)\<lparr>on_priority := max 0 (min 255 p)\<rparr>
      in (ospf_put d n s, on_enabled n \<and> on_neighbors n \<noteq> []))"

definition set_authentication :: "ospf_env \<Rightarrow> dev \<Rightarrow> string \<Rightarrow> string \<Rightarrow> ospf \<Rightarrow> ospf" where
  "set_authentication e d m key = ospf_config e d (\<lambda>n. n\<lparr>on_auth_mode := m, on_auth_key := key\<rparr>)"

definition set_cost :: "ospf_env \<Rightarrow> dev \<Rightarrow> int \<Rightarrow> ospf \<Rightarrow> ospf" where
  "set_cost e d c = ospf_config e d (\<lambda>n. n\<lparr>on_cost := c\<rparr>)"

definition ospf_set_router_id :: "ospf_env \<Rightarrow> dev \<Rightarrow> string \<Rightarrow> ospf \<Rightarrow> ospf" where
  "ospf_set_router_id e d r = ospf_config e d (\<lambda>n. n\<lparr>on_router_id := r, on_rid_manual := True\<rparr>)"

definition ensure_auto_router_id :: "ospf_env \<Rightarrow> dev \<Rightarrow> ip \<Rightarrow> ospf \<Rightarrow> ospf" where
  "ensure_auto_router_id e d cand s =
     (if cand = [] then s
      else ospf_config e d (\<lambda>n. if on_rid_manual n then n else n\<lparr>on_router_id := cand\<rparr>) s)"

definition ospf_add_passive :: "dev \<Rightarrow> iface \<Rightarrow> ospf \<Rightarrow> ospf" where
  "ospf_add_passive d i s =
     s\<lparr>ospf_passive := dset (ospf_passive s) d (sadd (dget_or (ospf_passive s) d []) (lower i))\<rparr>"

definition ospf_remove_passive :: "dev \<Rightarrow> iface \<Rightarrow> ospf \<Rightarrow> ospf" where
  "ospf_remove_passive d i s =
     (case dget (ospf_passive s) d of
        None \<Rightarrow> s
      | Some is \<Rightarrow> s\<lparr>ospf_passive := dset (ospf_passive s) d (sdiscard is (lower i))\<rparr>)"

text \<open>\<open>if net not in nets: nets.append(net)\<close> for every network.\<close>

definition add_area_nets :: "dev \<Rightarrow> string \<Rightarrow> string list \<Rightarrow> ospf \<Rightarrow> ospf" where
  "add_area_nets d area nets s =
     (let areas = dget_or (ospf_area_nets s) d []
      in s\<lparr>ospf_area_nets := dset (ospf_area_nets s) d (dset areas area (sunion (dget_or areas area []) nets))\<rparr>)"

definition ospf_start :: "ospf_env \<Rightarrow> dev \<Rightarrow> string \<Rightarrow> int \<Rightarrow> string list \<Rightarrow> string \<Rightarrow> ospf \<Rightarrow> ospf" where
  "ospf_start e d host pid nets area s =
     add_area_nets d (normalize_area area) nets
       (ospf_config e d (\<lambda>n. n\<lparr>on_enabled := True, on_process := pid, on_hostname := host, on_area := normalize_area area,
          on_networks := sunion (on_networks n) nets, on_hello_task := True\<rparr>) s)"

definition add_network :: "ospf_env \<Rightarrow> dev \<Rightarrow> string \<Rightarrow> string \<Rightarrow> ospf \<Rightarrow> ospf" where
  "add_network e d net area s =
     (let s1 = add_area_nets d (normalize_area area) [net] s;
          many = 1 < length (dget_or (ospf_area_nets s1) d [])
      in ospf_config e d (\<lambda>n. n\<lparr>on_networks := sadd (on_networks n) net, on_abr := (if many then True else on_abr n)\<rparr>) s1)"

definition ospf_stop :: "dev \<Rightarrow> ospf \<Rightarrow> ospf" where
  "ospf_stop d = ospf_upd d (\<lambda>n. n\<lparr>on_enabled := False, on_neighbors := [], on_hello_task := False, on_dr := None, on_bdr := None\<rparr>)"

text \<open>\<open>no router ospf\<close> in \<open>app.py\<close>: the process is stopped and what it knew is cleared.\<close>

definition remove_process :: "dev \<Rightarrow> ospf \<Rightarrow> ospf" where
  "remove_process d s =
     ospf_upd d (\<lambda>n. n\<lparr>on_routes := [], on_networks := [], on_lsdb := [], on_learned := []\<rparr>) (ospf_stop d s)"

subsection \<open>Interfaces that run OSPF\<close>

definition ospf_enabled_ifaces :: "ospf_env \<Rightarrow> ospf \<Rightarrow> dev \<Rightarrow> iface list option" where
  "ospf_enabled_ifaces e s d =
     (let nets = List.map_filter ip_network (case dget (ospf_nodes s) d of None \<Rightarrow> [] | Some n \<Rightarrow> on_networks n)
      in if nets = [] then None
         else Some (List.map fst (filter (\<lambda>(name, info).
                (case if_ip info of
                   None \<Rightarrow> False
                 | Some a \<Rightarrow> (case ipv4_address a of
                                None \<Rightarrow> False
                              | Some x \<Rightarrow> \<exists>(net, p)\<in>set nets. x AND mask_int p = net)))
              (ifaces_of (address_book (oe_l2 e)) d))))"

definition non_ospf_peers :: "ospf_env \<Rightarrow> ospf \<Rightarrow> dev \<Rightarrow> dev list" where
  "non_ospf_peers e s d =
     (case ospf_enabled_ifaces e s d of
        None \<Rightarrow> []
      | Some enabled \<Rightarrow>
          (let norm = List.map norm_iface enabled;
               down = List.map norm_iface (down_interfaces (oe_net e) d)
           in filter (\<lambda>p.
                let ifs = ifaces_between (oe_net e) d p;
                    ospf_ifs = filter (\<lambda>i. norm_iface i \<in> set norm) ifs
                in ifs \<noteq> [] \<and> (ospf_ifs = [] \<or> (\<forall>i\<in>set ospf_ifs. norm_iface i \<in> set down)))
              (nbrs (links (oe_net e)) d)))"

subsection \<open>Designated router election\<close>

record candidate =
  cd_device :: dev
  cd_router_id :: string
  cd_priority :: int

text \<open>\<open>_rid_to_int\<close>: text that is no address counts as \<open>abs(hash(rid))\<close>.\<close>

definition rid_to_int :: "ospf_env \<Rightarrow> string \<Rightarrow> int" where
  "rid_to_int e r = except (oe_hash e r) (shift_sum 0 (split_on (CHR ''.'') r))"

definition candidates :: "ospf \<Rightarrow> dev \<Rightarrow> ospf_node \<Rightarrow> candidate list" where
  "candidates s d n =
     (if on_priority n > 0 then [\<lparr>cd_device = d, cd_router_id = on_router_id n, cd_priority = on_priority n\<rparr>] else []) @
     List.map_filter (\<lambda>(p, b).
       case dget (ospf_nodes s) p of
         None \<Rightarrow> None
       | Some m \<Rightarrow> if on_priority m > 0
                  then Some \<lparr>cd_device = p, cd_router_id = nb_router_id b, cd_priority = on_priority m\<rparr> else None)
       (on_neighbors n)"

text \<open>\<open>sort(key=..., reverse=True)\<close> keeps equal elements in their order.\<close>

definition ranked :: "ospf_env \<Rightarrow> candidate list \<Rightarrow> candidate list" where
  "ranked e = sort_key (\<lambda>c. (- cd_priority c, - rid_to_int e (cd_router_id c)))"

text \<open>The first candidate that is \<open>prev\<close>, or else the first.\<close>

definition holder_or_first :: "dev option \<Rightarrow> candidate list \<Rightarrow> candidate option" where
  "holder_or_first prev cs =
     (case find (\<lambda>c. Some (cd_device c) = prev) cs of
        Some c \<Rightarrow> Some c
      | None \<Rightarrow> (case cs of [] \<Rightarrow> None | c # _ \<Rightarrow> Some c))"

definition elect :: "ospf_env \<Rightarrow> dev option \<Rightarrow> dev option \<Rightarrow> candidate list \<Rightarrow> dev option \<times> dev option" where
  "elect e prev_dr prev_bdr cs =
     (let dr = map_option cd_device (holder_or_first prev_dr (ranked e cs));
          rest = filter (\<lambda>c. Some (cd_device c) \<noteq> dr) (ranked e cs)
      in (dr, map_option cd_device (holder_or_first prev_bdr rest)))"

subsection \<open>Link-state advertisements\<close>

definition make_lsa :: "ospf_node \<Rightarrow> int \<Rightarrow> string \<Rightarrow> lsa_link list \<Rightarrow> lsa" where
  "make_lsa n t i ls = \<lparr>ls_type = t, ls_id = i, adv_router = on_router_id n, seq_num = on_seq n, ls_links = ls\<rparr>"

definition lsa_key :: "string \<Rightarrow> int \<Rightarrow> string \<Rightarrow> string" where
  "lsa_key r t i = r @ '':'' @ show_int t @ '':'' @ i"

definition store_lsa :: "int \<Rightarrow> string \<Rightarrow> lsa_link list \<Rightarrow> ospf_node \<Rightarrow> ospf_node" where
  "store_lsa t i ls n =
     n\<lparr>on_lsdb := dset (on_lsdb n) (lsa_key (on_router_id n) t i) (make_lsa n t i ls), on_seq := on_seq n + 1\<rparr>"

definition stub_links :: "ospf_node \<Rightarrow> lsa_link list res" where
  "stub_links n = res_map (\<lambda>net. res_bind (net_mask net) (\<lambda>(p, m). Inr (Stub (net_base net) m (on_cost n) net))) (on_networks n)"

definition neighbor_links :: "ospf_node \<Rightarrow> lsa_link list" where
  "neighbor_links n =
     List.map (\<lambda>(p, b). (case on_dr n of
         None \<Rightarrow> PointToPoint (nb_router_id b) ''255.255.255.255'' (on_cost n) p
       | Some dr \<Rightarrow> if dr = [] then PointToPoint (nb_router_id b) ''255.255.255.255'' (on_cost n) p
                    else Transit (nb_router_id b) (on_router_id n) (on_cost n) p))
       (filter (\<lambda>(p, b). nb_state b = NbrFull) (on_neighbors n))"

definition generate_router_lsa :: "dev \<Rightarrow> ospf step" where
  "generate_router_lsa d s =
     (case dget (ospf_nodes s) d of
        None \<Rightarrow> (s, None)
      | Some n \<Rightarrow> raising (stub_links n)
          (\<lambda>stubs. ospf_put d (store_lsa 1 (on_router_id n) (stubs @ neighbor_links n) n)) s)"

definition attached_to :: "ospf \<Rightarrow> ospf_node \<Rightarrow> string list" where
  "attached_to s n = on_router_id n #
     List.map (\<lambda>(p, b). case dget (ospf_nodes s) p of None \<Rightarrow> p | Some m \<Rightarrow> on_router_id m)
       (filter (\<lambda>(p, b). nb_state b = NbrFull) (on_neighbors n))"

definition segment_net :: "ospf_node \<Rightarrow> string \<times> string res" where
  "segment_net n =
     (case on_networks n of
        [] \<Rightarrow> (on_router_id n, res_bind (netmask 24) (\<lambda>m. Inr (int_to_ip m)))
      | net # _ \<Rightarrow> (net_base net, res_bind (net_mask net) (\<lambda>(p, m). Inr m)))"

definition generate_network_lsa :: "dev \<Rightarrow> ospf step" where
  "generate_network_lsa d s =
     (case dget (ospf_nodes s) d of
        None \<Rightarrow> (s, None)
      | Some n \<Rightarrow>
          if on_dr n \<noteq> Some d then (s, None)
          else raising (snd (segment_net n))
                 (\<lambda>m. ospf_put d (store_lsa 2 (fst (segment_net n)) [Attached m (attached_to s n) (on_router_id n)] n)) s)"

definition area_nets :: "ospf \<Rightarrow> dev \<Rightarrow> (string \<times> string) list" where
  "area_nets s d = [(area, net). (area, nets) \<leftarrow> dget_or (ospf_area_nets s) d [], net \<leftarrow> nets]"

definition summary_lsa :: "dev \<Rightarrow> string \<times> string \<Rightarrow> ospf step" where
  "summary_lsa d = (\<lambda>(area, net) s.
     if length (split_on (CHR ''/'') net) \<noteq> 2 then (s, None)
     else raising (net_mask net)
       (\<lambda>(p, m). ospf_upd d (\<lambda>n. store_lsa 3 (net_base net) [Summary net m (on_cost n) area] n)) s)"

definition generate_summary_lsa :: "dev \<Rightarrow> ospf step" where
  "generate_summary_lsa d s =
     (case dget (ospf_nodes s) d of
        None \<Rightarrow> (s, None)
      | Some n \<Rightarrow> if \<not> on_abr n then (s, None) else for_each (summary_lsa d) (area_nets s d) s)"

definition generate_lsas :: "dev \<Rightarrow> ospf step" where
  "generate_lsas d = and_then (generate_router_lsa d) (and_then (generate_network_lsa d) (generate_summary_lsa d))"

subsection \<open>Routes\<close>

text \<open>The prefix length of a computed route is the text of a number, so its \<open>int\<close> is that number.\<close>

definition or_dest :: "ospf_route \<Rightarrow> ip \<times> int" where
  "or_dest r = (or_network r, case py_int (or_prefix r) of None \<Rightarrow> 0 | Some p \<Rightarrow> p)"

definition external_routes :: "string list \<Rightarrow> (string, external_route) dict \<Rightarrow> ospf_route list" where
  "external_routes existing learned =
     List.map_filter (\<lambda>(net, x).
       if net \<in> set existing then None
       else case split_on (CHR ''/'') net of
              [a, p] \<Rightarrow> Some \<lparr>or_network = a, or_prefix = p, or_metric = xt_metric x, or_via = xt_next_hop x,
                 or_next_hop = xt_next_hop x, or_kind = (if xt_nssa x then Nssa2 else External2), or_area = None\<rparr>
            | _ \<Rightarrow> None) learned"

definition inject_external :: "ospf_node \<Rightarrow> ospf_node" where
  "inject_external n = n\<lparr>on_routes := on_routes n @ external_routes (List.map or_key (on_routes n)) (on_learned n)\<rparr>"

definition recalc_routes :: "ospf_env \<Rightarrow> dev \<Rightarrow> ospf step" where
  "recalc_routes e d s =
     (case dget (ospf_nodes s) d of
        None \<Rightarrow> (s, None)
      | Some n \<Rightarrow> raising (spf_routes (on_router_id n) (on_area n) (on_lsdb n))
          (\<lambda>rs. ospf_put d (inject_external
             (n\<lparr>on_routes := filter_routes (oe_filters e) d ''ospf'' ''in'' or_dest rs\<rparr>))) s)"

subsection \<open>Exchange and flooding\<close>

text \<open>\<open>if key not in db or db[key].seq_num < lsa.seq_num: db[key] = copy\<close>; the flag says whether anything changed.\<close>

definition lsa_newer :: "lsdb \<Rightarrow> string \<Rightarrow> lsa \<Rightarrow> bool" where
  "lsa_newer db k a \<longleftrightarrow> (case dget db k of None \<Rightarrow> True | Some b \<Rightarrow> seq_num b < seq_num a)"

fun merge_lsdb :: "(string \<times> lsa) list \<Rightarrow> lsdb \<Rightarrow> lsdb \<times> bool" where
  "merge_lsdb [] db = (db, False)"
| "merge_lsdb ((k, a) # xs) db =
     (if lsa_newer db k a then (fst (merge_lsdb xs (dset db k a)), True) else merge_lsdb xs db)"

definition lsdb_of :: "ospf \<Rightarrow> dev \<Rightarrow> lsdb" where
  "lsdb_of s d = (case dget (ospf_nodes s) d of None \<Rightarrow> [] | Some n \<Rightarrow> on_lsdb n)"

definition pull_lsdb :: "dev \<Rightarrow> dev \<Rightarrow> ospf \<Rightarrow> ospf \<times> bool" where
  "pull_lsdb d p s =
     (case merge_lsdb (lsdb_of s p) (lsdb_of s d) of (db, ch) \<Rightarrow> (ospf_upd d (\<lambda>n. n\<lparr>on_lsdb := db\<rparr>) s, ch))"

definition pull_from :: "dev \<Rightarrow> dev \<Rightarrow> ospf \<Rightarrow> ospf" where
  "pull_from d p s = fst (pull_lsdb d p s)"

definition in_area :: "ospf \<Rightarrow> string \<Rightarrow> dev \<Rightarrow> bool" where
  "in_area s area d \<longleftrightarrow> (case dget (ospf_nodes s) d of None \<Rightarrow> False | Some n \<Rightarrow> on_enabled n \<and> on_area n = area)"

fun flood_from :: "string \<Rightarrow> dev \<Rightarrow> dev list \<Rightarrow> ospf \<Rightarrow> ospf \<times> bool" where
  "flood_from area d [] s = (s, False)"
| "flood_from area d (p # ps) s =
     (if in_area s area p
      then (case pull_lsdb d p s of (s1, ch) \<Rightarrow> (case flood_from area d ps s1 of (s2, ch') \<Rightarrow> (s2, ch \<or> ch')))
      else flood_from area d ps s)"

fun flood_round :: "vnet \<Rightarrow> string \<Rightarrow> dev list \<Rightarrow> ospf \<Rightarrow> ospf \<times> bool" where
  "flood_round v area [] s = (s, False)"
| "flood_round v area (d # ds) s =
     (case flood_from area d (get_neighbors v d) s of
        (s1, ch) \<Rightarrow> (case flood_round v area ds s1 of (s2, ch') \<Rightarrow> (s2, ch \<or> ch')))"

text \<open>At most \<open>k\<close> rounds; the flag says that the last round still changed something.\<close>

fun flood_rounds :: "nat \<Rightarrow> vnet \<Rightarrow> string \<Rightarrow> dev list \<Rightarrow> ospf \<Rightarrow> ospf \<times> bool" where
  "flood_rounds 0 v area ds s = (s, True)"
| "flood_rounds (Suc k) v area ds s =
     (case flood_round v area ds s of (s1, ch) \<Rightarrow> if ch then flood_rounds k v area ds s1 else (s1, False))"

definition area_devices :: "ospf \<Rightarrow> string \<Rightarrow> dev list" where
  "area_devices s area = filter (in_area s area) (dkeys (ospf_nodes s))"

definition flood_all :: "ospf_env \<Rightarrow> string \<Rightarrow> dev list \<Rightarrow> ospf \<Rightarrow> ospf" where
  "flood_all e area active s = fst (flood_rounds 30 (oe_net e) area active s)"

definition flood_lsdb_area :: "ospf_env \<Rightarrow> string \<Rightarrow> ospf step" where
  "flood_lsdb_area e area s =
     (let active = area_devices s area
      in and_then (for_each generate_lsas active)
           (and_then (quietly (flood_all e area active))
              (for_each (recalc_routes e) active)) s)"

definition exchange_lsa :: "ospf_env \<Rightarrow> dev \<Rightarrow> dev \<Rightarrow> ospf step" where
  "exchange_lsa e d nb s =
     (case (dget (ospf_nodes s) d, dget (ospf_nodes s) nb) of
        (Some n, Some _) \<Rightarrow>
          and_then (generate_router_lsa d) (and_then (generate_router_lsa nb)
          (and_then (generate_network_lsa d) (and_then (generate_network_lsa nb)
          (and_then (generate_summary_lsa d) (and_then (generate_summary_lsa nb)
          (and_then (quietly (pull_from d nb)) (and_then (quietly (pull_from nb d))
            (flood_lsdb_area e (on_area n))))))))) s
      | _ \<Rightarrow> (s, None))"

subsection \<open>Hellos\<close>

record ospf_hello =
  oh_src :: dev
  oh_hostname :: string
  oh_router_id :: string
  oh_area :: string
  oh_hello_interval :: int
  oh_dead_interval :: int
  oh_priority :: int
  oh_dr :: "dev option"
  oh_bdr :: "dev option"
  oh_neighbors :: "dev list"
  oh_networks :: "string list"
  oh_external :: "(string, redist_route) dict"
  oh_nssa :: bool
  oh_cost :: int
  oh_auth_mode :: string
  oh_auth_key :: string

definition hello_packet :: "ospf \<Rightarrow> dev \<Rightarrow> ospf_node \<Rightarrow> ospf_hello" where
  "hello_packet s d n =
     \<lparr>oh_src = d, oh_hostname = on_hostname n, oh_router_id = on_router_id n, oh_area = on_area n,
      oh_hello_interval = on_hello_interval n, oh_dead_interval = on_dead_interval n, oh_priority = on_priority n,
      oh_dr = on_dr n, oh_bdr = on_bdr n, oh_neighbors = dkeys (on_neighbors n), oh_networks = on_networks n,
      oh_external = on_redistributed n, oh_nssa = is_area_nssa s d None, oh_cost = on_cost n,
      oh_auth_mode = on_auth_mode n, oh_auth_key = on_auth_key n\<rparr>"

definition ospf_l2 :: "ospf_env \<Rightarrow> ospf \<Rightarrow> l2env" where
  "ospf_l2 e s = (oe_l2 e)\<lparr>ospf_enabled := \<lambda>p. case dget (ospf_nodes s) p of None \<Rightarrow> False | Some n \<Rightarrow> on_enabled n\<rparr>"

definition send_hello :: "ospf_env \<Rightarrow> ospf \<Rightarrow> dev \<Rightarrow> (dev \<times> ospf_hello) list" where
  "send_hello e s d =
     (case dget (ospf_nodes s) d of
        None \<Rightarrow> []
      | Some n \<Rightarrow>
          if \<not> on_enabled n \<or> ''all'' \<in> set (dget_or (ospf_passive s) d []) then []
          else List.map (\<lambda>p. (p, hello_packet s d n))
                 (broadcast_to_neighbors (ospf_l2 e s) (oe_net e) d ''ospf_hello'' (non_ospf_peers e s d)))"

definition hello_accepted :: "ospf_env \<Rightarrow> ospf \<Rightarrow> dev \<Rightarrow> ospf_node \<Rightarrow> ospf_hello \<Rightarrow> bool" where
  "hello_accepted e s d n h \<longleftrightarrow>
     on_enabled n \<and> oh_src h \<notin> set (non_ospf_peers e s d) \<and>
     (oh_src h \<noteq> [] \<longrightarrow> vlan_tags_compatible (oe_net e) d (oh_src h)) \<and>
     normalize_area (oh_area h) = on_area n \<and>
     (oh_hello_interval h \<noteq> 0 \<longrightarrow> oh_hello_interval h = on_hello_interval n) \<and>
     (on_auth_key n \<noteq> [] \<longrightarrow> oh_auth_key h = on_auth_key n)"

definition learn_external :: "ospf_hello \<Rightarrow> ospf_node \<Rightarrow> ospf_node" where
  "learn_external h n =
     n\<lparr>on_learned := fold (\<lambda>(net, x) l. dset l net \<lparr>xt_metric = xr_metric x, xt_next_hop = oh_src h,
         xt_hostname = oh_hostname h, xt_nssa = oh_nssa h\<rparr>) (oh_external h) (on_learned n)\<rparr>"

definition arm_dead :: "dev \<Rightarrow> ospf_node \<Rightarrow> ospf_node" where
  "arm_dead p n =
     (case dget (on_neighbors n) p of
        None \<Rightarrow> n
      | Some b \<Rightarrow> n\<lparr>on_neighbors := dset (on_neighbors n) p (b\<lparr>nb_dead := True\<rparr>)\<rparr>)"

definition new_neighbor :: "nat \<Rightarrow> ospf_hello \<Rightarrow> ospf_nbr" where
  "new_neighbor uid h = \<lparr>nb_uid = uid, nb_router_id = oh_router_id h, nb_hostname = oh_hostname h,
     nb_state = NbrInit, nb_role = None, nb_dead = False\<rparr>"

text \<open>\<open>receive_hello\<close> up to its first sleep: the state, and the neighbour object of the task that goes on.\<close>

definition hello_arrives :: "ospf_env \<Rightarrow> dev \<Rightarrow> ospf_hello \<Rightarrow> ospf \<Rightarrow> ospf \<times> nat option" where
  "hello_arrives e d h s =
     (case dget (ospf_nodes s) d of
        None \<Rightarrow> (s, None)
      | Some n \<Rightarrow>
          if \<not> hello_accepted e s d n h then (s, None)
          else (let n1 = learn_external h n
                in case dget (on_neighbors n1) (oh_src h) of
                     None \<Rightarrow>
                       (ospf_put d (arm_dead (oh_src h) (n1\<lparr>on_neighbors :=
                          dset (on_neighbors n1) (oh_src h) (new_neighbor (ospf_next s) h)\<rparr>))
                          (s\<lparr>ospf_next := Suc (ospf_next s)\<rparr>), Some (ospf_next s))
                   | Some _ \<Rightarrow>
                       (ospf_put d ((if oh_external h \<noteq> [] then inject_external else id) (arm_dead (oh_src h) n1)) s, None)))"

definition hello_progress :: "dev \<Rightarrow> dev \<Rightarrow> nat \<Rightarrow> nbr_state \<Rightarrow> ospf \<Rightarrow> ospf" where
  "hello_progress d src uid st =
     ospf_upd d (\<lambda>n. case dget (on_neighbors n) src of
         None \<Rightarrow> n
       | Some b \<Rightarrow> if nb_uid b = uid then n\<lparr>on_neighbors := dset (on_neighbors n) src (b\<lparr>nb_state := st\<rparr>)\<rparr> else n)"

definition elect_dr_bdr :: "ospf_env \<Rightarrow> dev \<Rightarrow> ospf step" where
  "elect_dr_bdr e d s =
     (case dget (ospf_nodes s) d of
        None \<Rightarrow> (s, None)
      | Some n \<Rightarrow>
          (let cs = candidates s d n; (dr, bdr) = elect e (on_dr n) (on_bdr n) cs
           in if cs = [] then (s, None)
              else (let s1 = ospf_put d (n\<lparr>on_dr := dr, on_bdr := bdr\<rparr>) s
                    in if on_dr n \<noteq> dr \<and> dr = Some d then generate_network_lsa d s1 else (s1, None))))"

definition update_neighbor_role :: "dev \<Rightarrow> dev \<Rightarrow> ospf \<Rightarrow> ospf" where
  "update_neighbor_role d p =
     ospf_upd d (\<lambda>n. case dget (on_neighbors n) p of
         None \<Rightarrow> n
       | Some b \<Rightarrow>
           (let role = (if on_dr n = Some p then RoleDR else if on_bdr n = Some p then RoleBDR else RoleDROther)
            in n\<lparr>on_neighbors := dset (on_neighbors n) p (b\<lparr>nb_role := Some role\<rparr>)\<rparr>))"

definition hello_finish :: "ospf_env \<Rightarrow> dev \<Rightarrow> dev \<Rightarrow> nat \<Rightarrow> ospf step" where
  "hello_finish e d src uid =
     and_then (quietly (hello_progress d src uid NbrFull))
    (and_then (generate_router_lsa d)
    (and_then (exchange_lsa e d src)
    (and_then (quietly (ospf_upd d inject_external))
    (and_then (elect_dr_bdr e d)
              (quietly (update_neighbor_role d src))))))"

subsection \<open>Losing a neighbour\<close>

definition ospf_interface_down :: "ospf_env \<Rightarrow> dev \<Rightarrow> dev list \<Rightarrow> ospf step" where
  "ospf_interface_down e d peers s =
     (case dget (ospf_nodes s) d of
        None \<Rightarrow> (s, None)
      | Some n \<Rightarrow>
          (let s1 = ospf_put d (n\<lparr>on_neighbors := fold (\<lambda>p b. dpop b p) peers (on_neighbors n)\<rparr>) s
           in if \<exists>p\<in>set peers. dget (on_neighbors n) p \<noteq> None then recalc_routes e d s1 else (s1, None)))"

definition dead_timer_expires :: "ospf_env \<Rightarrow> dev \<Rightarrow> dev \<Rightarrow> ospf step" where
  "dead_timer_expires e d p s =
     (case dget (ospf_nodes s) d of
        None \<Rightarrow> (s, None)
      | Some n \<Rightarrow>
          (case dget (on_neighbors n) p of
             None \<Rightarrow> (s, None)
           | Some b \<Rightarrow>
               if nb_dead b then recalc_routes e d (ospf_put d (n\<lparr>on_neighbors := dpop (on_neighbors n) p\<rparr>) s)
               else (s, None)))"

subsection \<open>Operations\<close>

datatype ospf_op =
    SetAreaType dev string string
  | SetPriority dev int
  | SetAuthentication dev string string
  | SetCost dev int
  | SetRouterId dev string
  | EnsureRouterId dev ip
  | AddPassive dev iface
  | RemovePassive dev iface
  | Start dev string int "string list" string
  | AddNetwork dev string string
  | Stop dev
  | RemoveProcess dev
  | InterfaceDown dev "dev list"
  | DeadTimer dev dev
  | HelloArrives dev ospf_hello
  | HelloProgress dev dev nat nbr_state
  | HelloFinish dev dev nat
  | Elect dev

text \<open>One operation, in the environment of its moment. The tasks of the event loop alternate at will, so any
  sequence of operations is a run.\<close>

fun ospf_do :: "ospf_env \<Rightarrow> ospf_op \<Rightarrow> ospf step" where
  "ospf_do e (SetAreaType d a t) = quietly (set_area_type e d a t)"
| "ospf_do e (SetPriority d p) = quietly (\<lambda>s. fst (set_priority e d p s))"
| "ospf_do e (SetAuthentication d m k) = quietly (set_authentication e d m k)"
| "ospf_do e (SetCost d c) = quietly (set_cost e d c)"
| "ospf_do e (SetRouterId d r) = quietly (ospf_set_router_id e d r)"
| "ospf_do e (EnsureRouterId d a) = quietly (ensure_auto_router_id e d a)"
| "ospf_do e (AddPassive d i) = quietly (ospf_add_passive d i)"
| "ospf_do e (RemovePassive d i) = quietly (ospf_remove_passive d i)"
| "ospf_do e (Start d host pid nets area) = quietly (ospf_start e d host pid nets area)"
| "ospf_do e (AddNetwork d net area) = quietly (add_network e d net area)"
| "ospf_do e (Stop d) = quietly (ospf_stop d)"
| "ospf_do e (RemoveProcess d) = quietly (remove_process d)"
| "ospf_do e (InterfaceDown d ps) = ospf_interface_down e d ps"
| "ospf_do e (DeadTimer d p) = dead_timer_expires e d p"
| "ospf_do e (HelloArrives d h) = quietly (\<lambda>s. fst (hello_arrives e d h s))"
| "ospf_do e (HelloProgress d p uid st) = quietly (hello_progress d p uid st)"
| "ospf_do e (HelloFinish d p uid) = hello_finish e d p uid"
| "ospf_do e (Elect d) = elect_dr_bdr e d"

definition ospf_apply :: "ospf_env \<times> ospf_op \<Rightarrow> ospf \<Rightarrow> ospf" where
  "ospf_apply = (\<lambda>(e, op) s. fst (ospf_do e op s))"

end
