(* ===== verification/OspfTyped.thy ===== *)
theory OspfTyped
  imports Ospf Machine
begin

text \<open>
  Link-state databases are well-typed: every advertisement is stored under its own key, a router LSA lists
  stub, transit and point-to-point links, a network LSA the attached routers, a summary LSA one network,
  and every network text in them can be read. Every operation keeps this, whatever it raises half-way, and
  a well-typed database never makes the route computation raise.
\<close>

fun router_link_typed :: "lsa_link \<Rightarrow> bool" where
  "router_link_typed (Stub i k m net) \<longleftrightarrow> i = net_base net \<and> (\<exists>p. net_mask net = Inr (p, k))"
| "router_link_typed (Transit i k m p) \<longleftrightarrow> True"
| "router_link_typed (PointToPoint i k m p) \<longleftrightarrow> True"
| "router_link_typed l \<longleftrightarrow> False"

definition lsa_typed :: "string \<Rightarrow> lsa \<Rightarrow> bool" where
  "lsa_typed k a \<longleftrightarrow> k = lsa_key (adv_router a) (ls_type a) (ls_id a) \<and>
     (if ls_type a = 1 then list_all router_link_typed (ls_links a)
      else if ls_type a = 2 then \<exists>m rs. ls_links a = [Attached m rs (adv_router a)] \<and> adv_router a \<in> set rs
      else ls_type a = 3 \<and> (\<exists>net k m area p. ls_links a = [Summary net k m area] \<and> ls_id a = net_base net \<and>
        net_mask net = Inr (p, k)))"

definition lsdb_typed :: "lsdb \<Rightarrow> bool" where
  "lsdb_typed db \<longleftrightarrow> dict_ok db \<and> (\<forall>k a. dget db k = Some a \<longrightarrow> lsa_typed k a)"

definition ospf_typed :: "ospf \<Rightarrow> bool" where
  "ospf_typed s \<longleftrightarrow> (\<forall>d n. dget (ospf_nodes s) d = Some n \<longrightarrow> lsdb_typed (on_lsdb n))"

subsection \<open>A well-typed database can be computed with\<close>

lemma net_mask_length: "net_mask net = Inr (p, m) \<Longrightarrow> net_length net = Inr p"
  by (auto simp: net_mask_def res_bind_Inr)

lemma typed_links_run:
  assumes "\<forall>l\<in>set ls. \<forall>st. \<exists>st'. f l st = Inr st'"
  shows "\<exists>st'. spf_links f ls st = Inr st'"
  using assms
proof (induction ls arbitrary: st)
  case (Cons l ls)
  then obtain st1 where "f l st = Inr st1" by fastforce
  with Cons show ?case by simp
qed simp

lemma typed_router_link: "router_link_typed l \<Longrightarrow> \<exists>st'. spf_router_link area visited e l st = Inr st'"
  by (cases l; cases e) (auto dest: net_mask_length)

lemma typed_lsa_runs:
  assumes "lsa_typed k a"
  shows "\<exists>st'. spf_lsa my area visited e a st = Inr st'"
proof -
  have "ls_type a = 1 \<or> ls_type a = 2 \<or> ls_type a = 3"
  proof (rule ccontr)
    assume "\<not> ?thesis"
    with assms show False by (simp add: lsa_typed_def)
  qed
  then consider "ls_type a = 1" | "ls_type a = 2" | "ls_type a = 3" by blast
  then show ?thesis
  proof cases
    case 1
    then have "\<forall>l\<in>set (ls_links a). router_link_typed l" using assms by (simp add: lsa_typed_def list_all_iff)
    then have "\<exists>st'. spf_links (spf_router_link area visited e) (ls_links a) st = Inr st'"
      using typed_router_link by (intro typed_links_run ballI allI) blast
    with 1 show ?thesis by (simp add: spf_lsa_def)
  next
    case 2
    have "\<exists>st'. spf_links (\<lambda>l st. Inr (spf_network_link my visited e l st)) (ls_links a) st = Inr st'"
      by (rule typed_links_run) simp
    with 2 show ?thesis by (simp add: spf_lsa_def)
  next
    case 3
    then obtain net k m area' p where "ls_links a = [Summary net k m area']" "net_mask net = Inr (p, k)"
      using assms by (auto simp: lsa_typed_def)
    with 3 show ?thesis by (cases e) (simp add: spf_lsa_def spf_summary_link_def net_mask_length)
  qed
qed

lemma typed_lsas_run:
  assumes "\<forall>a\<in>set as. \<exists>k. lsa_typed k a"
  shows "\<exists>st'. spf_lsas my area visited e as st = Inr st'"
  using assms
proof (induction as arbitrary: st)
  case (Cons a as)
  then obtain k where "lsa_typed k a" by auto
  from typed_lsa_runs [OF this] obtain st1 where "spf_lsa my area visited e a st = Inr st1" by blast
  with Cons show ?case by simp
qed simp

lemma typed_loop_runs:
  assumes "\<forall>a\<in>set as. \<exists>k. lsa_typed k a"
  shows "\<exists>rs. spf_loop my area as visited st = Inr rs"
  using assms
proof (induction my area as visited st rule: spf_loop.induct)
  case (1 my area as visited st)
  show ?case
  proof (cases "by_cost (sp_pq st)")
    case Nil
    then show ?thesis by (simp add: spf_loop.simps [of my area as visited st])
  next
    case (Cons e pq)
    show ?thesis
    proof (cases "fst (snd e) \<in> set visited")
      case True
      with "1.IH"(1) [OF Cons True "1.prems"] Cons show ?thesis by (simp add: spf_loop.simps [of my area as visited st])
    next
      case False
      obtain st' where st': "spf_lsas my area (fst (snd e) # visited) e as (st\<lparr>sp_pq := pq\<rparr>) = Inr st'"
        using typed_lsas_run "1.prems" by blast
      with "1.IH"(2) [OF Cons False st' "1.prems"] Cons False show ?thesis
        by (simp add: spf_loop.simps [of my area as visited st])
    qed
  qed
qed

lemma typed_routes: "lsdb_typed db \<Longrightarrow> \<exists>rs. spf_routes my area db = Inr rs"
proof -
  assume typed: "lsdb_typed db"
  then have "\<forall>a\<in>set (dvals db). \<exists>k. lsa_typed k a" by (fastforce simp: lsdb_typed_def dvals_iff)
  then obtain rs where "spf_loop my area (dvals db) [] (spf_start my) = Inr rs" using typed_loop_runs by blast
  then show ?thesis by (simp add: spf_routes_def)
qed

subsection \<open>Every operation keeps the databases well-typed\<close>

lemma lsdb_typed_dset: "lsdb_typed db \<Longrightarrow> lsa_typed k a \<Longrightarrow> lsdb_typed (dset db k a)"
  by (auto simp: lsdb_typed_def)

lemma lsdb_typed_Nil [simp]: "lsdb_typed []"
  by (simp add: lsdb_typed_def)

lemma ospf_typed_put [simp]: "ospf_typed s \<Longrightarrow> lsdb_typed (on_lsdb n) \<Longrightarrow> ospf_typed (ospf_put d n s)"
  by (simp add: ospf_typed_def ospf_put_def)

lemma ospf_typed_node: "ospf_typed s \<Longrightarrow> dget (ospf_nodes s) d = Some n \<Longrightarrow> lsdb_typed (on_lsdb n)"
  by (auto simp: ospf_typed_def)

lemma ospf_typed_node_of: "ospf_typed s \<Longrightarrow> lsdb_typed (on_lsdb (ospf_node_of e s d))"
  by (auto simp: ospf_node_of_def new_ospf_node_def ospf_typed_node split: option.split)

lemma ospf_typed_config: "ospf_typed s \<Longrightarrow> (\<And>n. on_lsdb (f n) = on_lsdb n) \<Longrightarrow> ospf_typed (ospf_config e d f s)"
  by (simp add: ospf_config_def ospf_typed_node_of)

lemma ospf_typed_upd: "ospf_typed s \<Longrightarrow> (\<And>n. lsdb_typed (on_lsdb n) \<Longrightarrow> lsdb_typed (on_lsdb (f n))) \<Longrightarrow> ospf_typed (ospf_upd d f s)"
  by (auto simp: ospf_upd_def ospf_typed_node split: option.split)

lemma ospf_typed_area [simp]: "ospf_typed (add_area_nets d a nets s) = ospf_typed s"
  by (simp add: ospf_typed_def add_area_nets_def Let_def)

lemma store_lsa_typed:
  assumes "lsdb_typed (on_lsdb n)" "lsa_typed (lsa_key (on_router_id n) t i) (make_lsa n t i ls)"
  shows "lsdb_typed (on_lsdb (store_lsa t i ls n))"
  using assms by (simp add: store_lsa_def lsdb_typed_dset)

lemma stub_links_typed: "stub_links n = Inr ls \<Longrightarrow> l \<in> set ls \<Longrightarrow> router_link_typed l"
  by (auto simp: stub_links_def res_bind_Inr dest!: res_map_mem)

lemma router_lsa_keeps [keeping]: "keeps ospf_typed (generate_router_lsa d)"
proof (rule keepsI)
  fix s assume s: "ospf_typed s"
  show "ospf_typed (fst (generate_router_lsa d s))"
  proof (cases "dget (ospf_nodes s) d")
    case (Some n)
    have "ospf_typed (ospf_put d (store_lsa 1 (on_router_id n) (ls @ neighbor_links n) n) s)" if "stub_links n = Inr ls" for ls
      using that s ospf_typed_node [OF s Some]
      by (intro ospf_typed_put store_lsa_typed)
        (auto simp: lsa_typed_def make_lsa_def list_all_iff neighbor_links_def stub_links_typed split: option.split)
    with s Some show ?thesis by (auto simp: generate_router_lsa_def raising_def split: sum.split)
  qed (use s in \<open>simp add: generate_router_lsa_def\<close>)
qed

lemma network_lsa_keeps [keeping]: "keeps ospf_typed (generate_network_lsa d)"
proof (rule keepsI)
  fix s assume s: "ospf_typed s"
  show "ospf_typed (fst (generate_network_lsa d s))"
  proof (cases "dget (ospf_nodes s) d")
    case (Some n)
    have "ospf_typed (ospf_put d (store_lsa 2 i [Attached m (attached_to s n) (on_router_id n)] n) s)" for i m
      using s ospf_typed_node [OF s Some]
      by (intro ospf_typed_put store_lsa_typed) (auto simp: lsa_typed_def make_lsa_def attached_to_def)
    with s Some show ?thesis by (auto simp: generate_network_lsa_def raising_def split: sum.split)
  qed (use s in \<open>simp add: generate_network_lsa_def\<close>)
qed

lemma summary_lsa_keeps [keeping]: "keeps ospf_typed (summary_lsa d x)"
proof (rule keepsI)
  fix s assume s: "ospf_typed s"
  obtain area net where x: "x = (area, net)" by (cases x)
  have "ospf_typed (ospf_upd d (\<lambda>n. store_lsa 3 (net_base net) [Summary net m (on_cost n) area] n) s)"
    if "net_mask net = Inr (p, m)" for p m
    using that s by (intro ospf_typed_upd store_lsa_typed) (auto simp: lsa_typed_def make_lsa_def)
  with s x show "ospf_typed (fst (summary_lsa d x s))" by (auto simp: summary_lsa_def raising_def split: sum.split)
qed

lemma summary_lsas_keep [keeping]: "keeps ospf_typed (generate_summary_lsa d)"
proof (rule keepsI)
  fix s assume s: "ospf_typed s"
  have "keeps ospf_typed (for_each (summary_lsa d) (area_nets s d))" by (rule keeping) (rule keeping)
  from keepsD [OF this s] s show "ospf_typed (fst (generate_summary_lsa d s))"
    by (auto simp: generate_summary_lsa_def split: option.split)
qed

lemma lsas_keep [keeping]: "keeps ospf_typed (generate_lsas d)"
  unfolding generate_lsas_def by (intro keeping)

lemma merge_typed: "lsdb_typed db \<Longrightarrow> (\<forall>(k, a)\<in>set xs. lsa_typed k a) \<Longrightarrow> lsdb_typed (fst (merge_lsdb xs db))"
  by (induction xs db rule: merge_lsdb.induct) (auto intro: lsdb_typed_dset)

lemma lsdb_of_typed: "ospf_typed s \<Longrightarrow> lsdb_typed (lsdb_of s d)"
  by (auto simp: lsdb_of_def ospf_typed_node split: option.split)

lemma typed_members: "lsdb_typed db \<Longrightarrow> (k, a) \<in> set db \<Longrightarrow> lsa_typed k a"
  by (auto simp: lsdb_typed_def dest: dget_in_set)

lemma pull_keeps: "ospf_typed s \<Longrightarrow> ospf_typed (fst (pull_lsdb d p s))"
proof -
  assume s: "ospf_typed s"
  have "lsdb_typed (fst (merge_lsdb (lsdb_of s p) (lsdb_of s d)))"
    using s lsdb_of_typed typed_members [OF lsdb_of_typed [OF s]] by (intro merge_typed) auto
  with s show ?thesis by (auto simp: pull_lsdb_def split_beta intro: ospf_typed_upd)
qed

lemma flood_from_keeps: "ospf_typed s \<Longrightarrow> ospf_typed (fst (flood_from area d ps s))"
proof (induction ps arbitrary: s)
  case (Cons p ps)
  then show ?case using Cons.IH [OF pull_keeps [OF Cons.prems, of d p]] by (simp add: split_beta)
qed simp

lemma flood_round_keeps: "ospf_typed s \<Longrightarrow> ospf_typed (fst (flood_round v area ds s))"
proof (induction ds arbitrary: s)
  case (Cons d ds)
  show ?case using Cons.IH [OF flood_from_keeps [OF Cons.prems]] by (simp add: split_beta)
qed simp

lemma flood_rounds_keep: "ospf_typed s \<Longrightarrow> ospf_typed (fst (flood_rounds k v area ds s))"
proof (induction k arbitrary: s)
  case (Suc k)
  show ?case using Suc.IH flood_round_keeps [OF Suc.prems] by (simp add: split_beta)
qed simp

lemma flood_all_keeps: "ospf_typed s \<Longrightarrow> ospf_typed (flood_all e area active s)"
  by (simp add: flood_all_def flood_rounds_keep)

lemma pull_from_keeps: "ospf_typed s \<Longrightarrow> ospf_typed (pull_from d p s)"
  by (simp add: pull_from_def pull_keeps)

lemma inject_lsdb [simp]: "on_lsdb (inject_external n) = on_lsdb n"
  by (simp add: inject_external_def)

lemma recalc_keeps [keeping]: "keeps ospf_typed (recalc_routes e d)"
  by (rule keepsI) (auto simp: recalc_routes_def raising_def ospf_typed_node split: option.split sum.split)

lemma flood_area_keeps [keeping]: "keeps ospf_typed (flood_lsdb_area e area)"
proof (rule keepsI)
  fix s assume s: "ospf_typed s"
  let ?active = "area_devices s area"
  have "keeps ospf_typed (and_then (for_each generate_lsas ?active)
      (and_then (quietly (flood_all e area ?active)) (for_each (recalc_routes e) ?active)))"
    by (intro keeping flood_all_keeps)
  from keepsD [OF this s] show "ospf_typed (fst (flood_lsdb_area e area s))" by (simp add: flood_lsdb_area_def Let_def)
qed

lemma exchange_keeps [keeping]: "keeps ospf_typed (exchange_lsa e d nb)"
proof (rule keepsI)
  fix s assume s: "ospf_typed s"
  have "keeps ospf_typed (and_then (generate_router_lsa d) (and_then (generate_router_lsa nb)
      (and_then (generate_network_lsa d) (and_then (generate_network_lsa nb)
      (and_then (generate_summary_lsa d) (and_then (generate_summary_lsa nb)
      (and_then (quietly (pull_from d nb)) (and_then (quietly (pull_from nb d))
        (flood_lsdb_area e area)))))))))" for area
    by (intro keeping pull_from_keeps)
  from keepsD [OF this s] s show "ospf_typed (fst (exchange_lsa e d nb s))"
    by (auto simp: exchange_lsa_def split: option.split)
qed

lemma elect_keeps [keeping]: "keeps ospf_typed (elect_dr_bdr e d)"
proof (rule keepsI)
  fix s assume s: "ospf_typed s"
  have "ospf_typed (fst (generate_network_lsa d (ospf_put d (n\<lparr>on_dr := dr, on_bdr := bdr\<rparr>) s)))"
    if "dget (ospf_nodes s) d = Some n" for n dr bdr
    using that s ospf_typed_node [OF s that] by (intro keepsD [OF network_lsa_keeps]) simp
  with s show "ospf_typed (fst (elect_dr_bdr e d s))"
    by (auto simp: elect_dr_bdr_def Let_def split_beta ospf_typed_node split: option.split)
qed

lemma finish_keeps [keeping]: "keeps ospf_typed (hello_finish e d src uid)"
  unfolding hello_finish_def hello_progress_def update_neighbor_role_def
  by (intro keeping ospf_typed_upd) (auto simp: Let_def split: option.split)

lemma arm_dead_lsdb [simp]: "on_lsdb (arm_dead p n) = on_lsdb n"
  by (simp add: arm_dead_def split: option.split)

lemma learn_lsdb [simp]: "on_lsdb (learn_external h n) = on_lsdb n"
  by (simp add: learn_external_def)

lemma ospf_typed_next [simp]: "ospf_typed (s\<lparr>ospf_next := k\<rparr>) = ospf_typed s"
  by (simp add: ospf_typed_def)

lemma arrives_typed: "ospf_typed s \<Longrightarrow> ospf_typed (fst (hello_arrives e d h s))"
  by (auto simp: hello_arrives_def Let_def ospf_typed_node split: option.split)

lemma losing_typed: "ospf_typed s \<Longrightarrow> ospf_typed (fst (ospf_interface_down e d ps s))"
  "ospf_typed s \<Longrightarrow> ospf_typed (fst (dead_timer_expires e d p s))"
  by (auto simp: ospf_interface_down_def dead_timer_expires_def Let_def ospf_typed_node
      split: option.split intro!: keepsD [OF recalc_keeps])

lemma config_typed:
  assumes "ospf_typed s"
  shows "ospf_typed (set_area_type e d a t s)" "ospf_typed (fst (set_priority e d p s))"
    and "ospf_typed (set_authentication e d m k s)" "ospf_typed (set_cost e d c s)" "ospf_typed (ospf_set_router_id e d r s)"
    and "ospf_typed (ensure_auto_router_id e d r s)" "ospf_typed (ospf_start e d host pid nets area s)"
    and "ospf_typed (add_network e d net area s)" "ospf_typed (ospf_stop d s)" "ospf_typed (remove_process d s)"
    and "ospf_typed (hello_progress d src uid st s)"
  using assms
  by (auto simp: set_area_type_def set_priority_def Let_def ospf_typed_node_of set_authentication_def set_cost_def
      ospf_set_router_id_def ensure_auto_router_id_def ospf_start_def add_network_def ospf_stop_def remove_process_def
      hello_progress_def intro!: ospf_typed_config ospf_typed_upd split: option.split)

lemma passive_typed:
  assumes "ospf_typed s"
  shows "ospf_typed (ospf_add_passive d i s)" "ospf_typed (ospf_remove_passive d i s)"
  using assms by (simp_all add: ospf_typed_def ospf_add_passive_def ospf_remove_passive_def split: option.split)

lemma ospf_do_keeps: "ospf_typed s \<Longrightarrow> ospf_typed (fst (ospf_do e op s))"
  by (cases op) (simp_all add: quietly_def config_typed passive_typed arrives_typed losing_typed
      keepsD [OF finish_keeps] keepsD [OF elect_keeps])

interpretation ospf_run: machine ospf_apply ospf_init ospf_typed
proof
  show "ospf_typed ospf_init" by (simp add: ospf_typed_def ospf_init_def)
  show "ospf_typed s \<Longrightarrow> ospf_typed (ospf_apply op s)" for s op
    by (simp add: ospf_apply_def split_beta ospf_do_keeps)
qed

text \<open>C8. After every sequence of operations, in whatever environments and with whatever exceptions on the way,
  the link-state database of every process is well-typed, so the computation of its routes never raises.\<close>

theorem ospf_lsdb_typed:
  assumes "dget (ospf_nodes (fold ospf_apply ops ospf_init)) d = Some n"
  shows "lsdb_typed (on_lsdb n) \<and> snd (recalc_routes e d (fold ospf_apply ops ospf_init)) = None"
proof -
  have typed: "lsdb_typed (on_lsdb n)" using ospf_run.run_inv assms by (rule ospf_typed_node)
  moreover obtain rs where "spf_routes (on_router_id n) (on_area n) (on_lsdb n) = Inr rs" using typed_routes [OF typed] by blast
  ultimately show ?thesis using assms by (simp add: recalc_routes_def raising_def)
qed

end
