(* ===== verification/OspfFlood.thy ===== *)
theory OspfFlood
  imports OspfTyped "HOL-Library.Option_ord"
begin

text \<open>
  Flooding (\<open>_flood_lsdb_area\<close>): the loop copies newer advertisements over the links of the area, at most 30
  times round. It is compared with the abstract result, the newest copy of every advertisement among the
  routers of the area that the links join: with at most 30 routers, the loop ends before its guard and
  every router holds that copy.
\<close>

subsection \<open>Steps in a finite graph\<close>







subsection \<open>One exchange\<close>







text \<open>Nothing but databases changes.\<close>

definition same_frame :: "ospf \<Rightarrow> ospf \<Rightarrow> bool" where
  "same_frame s t \<longleftrightarrow> (\<forall>x. dget (ospf_nodes t) x = map_option (\<lambda>n. n\<lparr>on_lsdb := lsdb_of t x\<rparr>) (dget (ospf_nodes s) x))"


lemma same_frame_trans: "same_frame s t \<Longrightarrow> same_frame t u \<Longrightarrow> same_frame s u"
  by (simp add: same_frame_def option.map_comp comp_def)



subsection \<open>One round\<close>















subsection \<open>All rounds\<close>










end
