(* ===== verification/OspfElection.thy ===== *)
theory OspfElection
  imports OspfTyped
begin

text \<open>
  The election of the designated router, and what losing a neighbour does not do.
\<close>

subsection \<open>Election\<close>

abbreviation outranks :: "ospf_env \<Rightarrow> candidate \<Rightarrow> candidate \<Rightarrow> bool" where
  "outranks e a b \<equiv> (cd_priority b, rid_to_int e (cd_router_id b)) \<le> (cd_priority a, rid_to_int e (cd_router_id a))"

lemma set_ranked [simp]: "set (ranked e cs) = set cs"
  by (simp add: ranked_def)

lemma ranked_order: "sorted_wrt (outranks e) (ranked e cs)"
proof -
  have "sorted (List.map (\<lambda>c. (- cd_priority c, - rid_to_int e (cd_router_id c))) (ranked e cs))"
    by (simp add: ranked_def)
  then show ?thesis unfolding sorted_map by (rule sorted_wrt_mono_rel [rotated]) (auto simp: less_eq_prod_def)
qed

text \<open>The holder stays if it is still a candidate, whatever the rank of the others; otherwise a candidate that no
  other outranks is chosen.\<close>

lemma holder_or_first_spec:
  assumes "sorted_wrt (outranks e) cs"
  shows "(holder_or_first prev cs = None \<longleftrightarrow> cs = []) \<and>
     (\<forall>c. holder_or_first prev cs = Some c \<longrightarrow> c \<in> set cs \<and>
        (if \<exists>x\<in>set cs. Some (cd_device x) = prev then Some (cd_device c) = prev else \<forall>x\<in>set cs. outranks e c x))"
proof (cases "find (\<lambda>c. Some (cd_device c) = prev) cs")
  case None
  then have "\<not> (\<exists>x\<in>set cs. Some (cd_device x) = prev)" by (simp add: find_None_iff)
  with None assms show ?thesis by (cases cs) (auto simp: holder_or_first_def)
next
  case (Some c)
  from find_SomeD [OF Some] Some show ?thesis by (auto simp: holder_or_first_def)
qed

text \<open>C10. The election is non-preemptive and otherwise picks the best: the designated router is a candidate; it is the
  previous one if that is still a candidate, and else one that no candidate outranks by priority and then by
  router identifier; and the backup is chosen in the same way among the others, so it is never the
  designated router and is missing only if there is no other candidate.\<close>

theorem election_result:
  assumes "elect e prev_dr prev_bdr cs = (dr, bdr)"
  shows "(dr = None \<longleftrightarrow> cs = []) \<and> (bdr = None \<longleftrightarrow> (\<forall>c\<in>set cs. Some (cd_device c) = dr)) \<and> (bdr \<noteq> None \<longrightarrow> bdr \<noteq> dr) \<and>
     (\<forall>d. dr = Some d \<longrightarrow> (\<exists>c\<in>set cs. cd_device c = d \<and>
        (prev_dr = dr \<or> (\<forall>x\<in>set cs. Some (cd_device x) \<noteq> prev_dr \<and> outranks e c x)))) \<and>
     (\<forall>d. bdr = Some d \<longrightarrow> (\<exists>c\<in>set cs. cd_device c = d \<and>
        (prev_bdr = bdr \<or> (\<forall>x\<in>set cs. Some (cd_device x) \<noteq> dr \<longrightarrow> Some (cd_device x) \<noteq> prev_bdr \<and> outranks e c x))))"
proof -
  let ?rest = "filter (\<lambda>c. Some (cd_device c) \<noteq> dr) (ranked e cs)"
  have dr: "dr = map_option cd_device (holder_or_first prev_dr (ranked e cs))"
    and bdr: "bdr = map_option cd_device (holder_or_first prev_bdr ?rest)"
    using assms by (auto simp: elect_def Let_def)
  note first = holder_or_first_spec [OF ranked_order, of prev_dr e cs]
  have rest: "sorted_wrt (outranks e) ?rest" by (intro sorted_wrt_filter ranked_order)
  note second = holder_or_first_spec [OF rest, of prev_bdr]
  have empty: "?rest = [] \<longleftrightarrow> (\<forall>c\<in>set cs. Some (cd_device c) = dr)" by (auto simp: filter_empty_conv)
  have one: "\<exists>c\<in>set cs. cd_device c = d \<and> (prev_dr = dr \<or> (\<forall>x\<in>set cs. Some (cd_device x) \<noteq> prev_dr \<and> outranks e c x))"
    if d: "dr = Some d" for d
  proof -
    obtain c where c: "holder_or_first prev_dr (ranked e cs) = Some c" "cd_device c = d"
      using d unfolding dr by (cases "holder_or_first prev_dr (ranked e cs)") auto
    with first d show ?thesis by (intro bexI [of _ c]) (auto split: if_splits)
  qed
  have two: "\<exists>c\<in>set cs. cd_device c = d \<and>
        (prev_bdr = bdr \<or> (\<forall>x\<in>set cs. Some (cd_device x) \<noteq> dr \<longrightarrow> Some (cd_device x) \<noteq> prev_bdr \<and> outranks e c x))"
    "Some d \<noteq> dr" if d: "bdr = Some d" for d
  proof -
    obtain c where c: "holder_or_first prev_bdr ?rest = Some c" "cd_device c = d"
      using d unfolding bdr by (cases "holder_or_first prev_bdr ?rest") auto
    have in_rest: "c \<in> set ?rest" and chosen: "if \<exists>x\<in>set ?rest. Some (cd_device x) = prev_bdr
        then Some (cd_device c) = prev_bdr else \<forall>x\<in>set ?rest. outranks e c x"
      using second c(1) by blast+
    from in_rest c(2) show "Some d \<noteq> dr" by auto
    have "prev_bdr = bdr \<or> (\<forall>x\<in>set ?rest. Some (cd_device x) \<noteq> prev_bdr \<and> outranks e c x)"
    proof (cases "\<exists>x\<in>set ?rest. Some (cd_device x) = prev_bdr")
      case True
      with chosen c(2) d show ?thesis by simp
    next
      case False
      from chosen [unfolded if_not_P [OF False]] False show ?thesis by blast
    qed
    then have "prev_bdr = bdr \<or> (\<forall>x\<in>set cs. Some (cd_device x) \<noteq> dr \<longrightarrow> Some (cd_device x) \<noteq> prev_bdr \<and> outranks e c x)"
      by auto
    with in_rest c(2) show "\<exists>c\<in>set cs. cd_device c = d \<and>
        (prev_bdr = bdr \<or> (\<forall>x\<in>set cs. Some (cd_device x) \<noteq> dr \<longrightarrow> Some (cd_device x) \<noteq> prev_bdr \<and> outranks e c x))"
      by (intro bexI [of _ c] conjI) simp_all
  qed
  have "ranked e cs = [] \<longleftrightarrow> cs = []" by (metis set_ranked set_empty)
  with first have "dr = None \<longleftrightarrow> cs = []" by (simp add: dr)
  moreover have "holder_or_first prev_bdr ?rest = None \<longleftrightarrow> ?rest = []" using second by blast
  then have "bdr = None \<longleftrightarrow> (\<forall>c\<in>set cs. Some (cd_device c) = dr)" using empty by (simp only: bdr option.map_disc_iff)
  moreover have "bdr \<noteq> None \<longrightarrow> bdr \<noteq> dr" using two(2) by auto
  ultimately show ?thesis using one two(1) by simp
qed

subsection \<open>A lost neighbour\<close>

lemma recalc_typed:
  assumes "ospf_typed s" "dget (ospf_nodes s) d = Some n"
  shows "\<exists>rs. recalc_routes e d s = (ospf_put d (inject_external (n\<lparr>on_routes := filter_routes (oe_filters e) d ''ospf'' ''in'' or_dest rs\<rparr>)) s, None) \<and>
     spf_routes (on_router_id n) (on_area n) (on_lsdb n) = Inr rs"
proof -
  obtain rs where rs: "spf_routes (on_router_id n) (on_area n) (on_lsdb n) = Inr rs"
    using typed_routes [OF ospf_typed_node [OF assms]] by blast
  with assms(2) show ?thesis by (simp add: recalc_routes_def raising_def)
qed

lemma dget_fold_dpop: "dget (fold (\<lambda>p b. dpop b p) ps b) k = (if k \<in> set ps then None else dget b k)"
  by (induction ps arbitrary: b) auto

text \<open>When an interface goes down, the neighbours behind it leave the table at once, but the routes through them stay:
  the router LSA is not generated again, so the routes are computed from the same database and are exactly
  those a computation before the loss gives, and the designated router stays the same even if it is the
  lost neighbour.\<close>

theorem ospf_loss_keeps_routes:
  assumes "ospf_typed s" "dget (ospf_nodes s) d = Some n" "p \<in> set ps" "dget (on_neighbors n) p \<noteq> None"
  shows "\<exists>before after. dget (ospf_nodes (fst (recalc_routes e d s))) d = Some before \<and>
     dget (ospf_nodes (fst (ospf_interface_down e d ps s))) d = Some after \<and>
     dget (on_neighbors after) p = None \<and> on_routes after = on_routes before \<and> on_lsdb after = on_lsdb n \<and> on_dr after = on_dr n"
proof -
  let ?n = "n\<lparr>on_neighbors := fold (\<lambda>p b. dpop b p) ps (on_neighbors n)\<rparr>"
  have typed: "ospf_typed (ospf_put d ?n s)" using assms(1) ospf_typed_node [OF assms(1,2)] by simp
  obtain rs where rs: "recalc_routes e d s = (ospf_put d (inject_external (n\<lparr>on_routes := filter_routes (oe_filters e) d ''ospf'' ''in'' or_dest rs\<rparr>)) s, None)"
    "spf_routes (on_router_id n) (on_area n) (on_lsdb n) = Inr rs"
    using recalc_typed [OF assms(1,2)] by blast
  have down: "ospf_interface_down e d ps s = recalc_routes e d (ospf_put d ?n s)"
    using assms(2-4) by (auto simp: ospf_interface_down_def Let_def)
  have "dget (ospf_nodes (ospf_put d ?n s)) d = Some ?n" by (simp add: ospf_put_def)
  from recalc_typed [OF typed this] rs(2)
  have "recalc_routes e d (ospf_put d ?n s) =
      (ospf_put d (inject_external (?n\<lparr>on_routes := filter_routes (oe_filters e) d ''ospf'' ''in'' or_dest rs\<rparr>)) (ospf_put d ?n s), None)"
    by auto
  with rs(1) down assms(3) show ?thesis by (simp add: ospf_put_def inject_external_def dget_fold_dpop)
qed

end
