(* ===== verification/OspfScenarios.thy ===== *)
theory OspfScenarios
  imports OspfPaths OspfFlood OspfElection
begin

text \<open>
  Two routers whose adjacency is brought up by Hellos, and a database of three, on which the theorems are
  instantiated.
\<close>

definition lab_env :: ospf_env where
  "lab_env = \<lparr>oe_net = vnet_init\<lparr>links := [(''A'', [''B'']), (''B'', [''A''])]\<rparr>,
     oe_l2 = \<lparr>vlan_ports = (\<lambda>_. []), address_book = [], ospf_enabled = (\<lambda>_. False), rip_node = (\<lambda>_. False),
              eigrp_enabled = (\<lambda>_. False)\<rparr>,
     oe_filters = \<lparr>prefix_lists = (\<lambda>_. []), distribute_lists = (\<lambda>_. []), redist_filters = (\<lambda>_. [])\<rparr>,
     oe_hash = (\<lambda>_. 0), oe_hello = 10\<rparr>"

definition hello_from :: "dev \<Rightarrow> string \<Rightarrow> ospf_hello" where
  "hello_from d r = \<lparr>oh_src = d, oh_hostname = d, oh_router_id = r, oh_area = ''0.0.0.0'', oh_hello_interval = 10,
     oh_dead_interval = 40, oh_priority = 1, oh_dr = None, oh_bdr = None, oh_neighbors = [], oh_networks = [],
     oh_external = [], oh_nssa = False, oh_cost = 10, oh_auth_mode = [], oh_auth_key = []\<rparr>"

text \<open>A Hello of \<open>p\<close> reaches \<open>d\<close>, and the adjacency comes up.\<close>

definition meets :: "dev \<Rightarrow> dev \<Rightarrow> string \<Rightarrow> nat \<Rightarrow> (ospf_env \<times> ospf_op) list" where
  "meets d p r uid = [(lab_env, HelloArrives d (hello_from p r)), (lab_env, HelloProgress d p uid NbrExchange),
     (lab_env, HelloFinish d p uid)]"

definition duo_ops :: "(ospf_env \<times> ospf_op) list" where
  "duo_ops =
     [(lab_env, Start ''A'' ''A'' 1 [''10.1.0.0/16''] ''0''), (lab_env, SetRouterId ''A'' ''1.1.1.1''),
      (lab_env, Start ''B'' ''B'' 1 [''10.2.0.0/16''] ''0''), (lab_env, SetRouterId ''B'' ''2.2.2.2'')] @
     meets ''A'' ''B'' ''2.2.2.2'' 0 @ meets ''B'' ''A'' ''1.1.1.1'' 1"

definition duo_state :: ospf where
  "duo_state = fold ospf_apply duo_ops ospf_init"

definition duo_check :: "ospf \<Rightarrow> bool" where
  "duo_check s \<longleftrightarrow>
     (case dget (ospf_nodes s) ''A'' of
        None \<Rightarrow> False
      | Some n \<Rightarrow> dget (on_neighbors n) ''B'' \<noteq> None \<and>
          List.map (\<lambda>r. (or_key r, or_metric r, or_next_hop r)) (on_routes n) =
            [(''10.1.0.0/16'', 10, ''1.1.1.1''), (''10.2.0.0/16'', 20, ''2.2.2.2'')]) \<and>
     length (area_devices s ''0.0.0.0'') = 2"

lemma duo_runs: "duo_check duo_state"
  by code_simp

lemma duo_facts:
  "\<exists>n. dget (ospf_nodes duo_state) ''A'' = Some n \<and> dget (on_neighbors n) ''B'' \<noteq> None"
  "length (area_devices duo_state ''0.0.0.0'') = 2"
  using duo_runs by (auto simp: duo_check_def split: option.splits)

lemma duo_typed: "ospf_typed duo_state"
  unfolding duo_state_def by (rule ospf_run.run_inv)

lemma ospf_lsdb_typed_witness:
  "\<exists>n. dget (ospf_nodes (fold ospf_apply duo_ops ospf_init)) ''A'' = Some n \<and>
     lsdb_typed (on_lsdb n) \<and> snd (recalc_routes lab_env ''A'' (fold ospf_apply duo_ops ospf_init)) = None"
proof -
  obtain n where n: "dget (ospf_nodes (fold ospf_apply duo_ops ospf_init)) ''A'' = Some n"
    using duo_facts(1) by (auto simp: duo_state_def)
  with ospf_lsdb_typed [OF n, of lab_env] show ?thesis by blast
qed


lemma ospf_loss_keeps_routes_witness:
  "\<exists>before after. dget (ospf_nodes (fst (recalc_routes lab_env ''A'' duo_state))) ''A'' = Some before \<and>
     dget (ospf_nodes (fst (ospf_interface_down lab_env ''A'' [''B''] duo_state))) ''A'' = Some after \<and>
     dget (on_neighbors after) ''B'' = None \<and> on_routes after = on_routes before"
proof -
  obtain n where n: "dget (ospf_nodes duo_state) ''A'' = Some n" "dget (on_neighbors n) ''B'' \<noteq> None"
    using duo_facts(1) by blast
  from ospf_loss_keeps_routes [OF duo_typed n(1), of "''B''" "[''B'']" lab_env] n(2) show ?thesis by auto
qed

subsection \<open>A database of three routers\<close>

definition far_lsdb :: lsdb where
  "far_lsdb =
     [(''1:1:1'', \<lparr>ls_type = 1, ls_id = ''1'', adv_router = ''1'', seq_num = 1,
         ls_links = [PointToPoint ''2'' [] 10 ''B'', PointToPoint ''3'' [] 50 ''C'']\<rparr>),
      (''2:1:2'', \<lparr>ls_type = 1, ls_id = ''2'', adv_router = ''2'', seq_num = 1, ls_links = [PointToPoint ''3'' [] 10 ''C'']\<rparr>),
      (''3:1:3'', \<lparr>ls_type = 1, ls_id = ''3'', adv_router = ''3'', seq_num = 1,
         ls_links = [Stub ''10.3.0.0'' ''255.255.0.0'' 5 ''10.3.0.0/16'']\<rparr>)]"

lemma far_costs: "costs_nonneg (dvals far_lsdb)"
  by code_simp

lemma far_routes:
  "spf_routes ''1'' ''0.0.0.0'' far_lsdb =
     Inr [\<lparr>or_network = ''10.3.0.0'', or_prefix = ''16'', or_metric = 25, or_via = ''2'', or_next_hop = ''2'',
           or_kind = IntraArea, or_area = Some ''0.0.0.0''\<rparr>]"
  by code_simp

lemma ospf_routes_shortest_witness:
  "\<exists>rs. spf_routes ''1'' ''0.0.0.0'' far_lsdb = Inr rs \<and> distinct (List.map or_key rs) \<and>
     (\<exists>r\<in>set rs. or_key r = ''10.3.0.0/16'' \<and> or_metric r \<le> 25)"
proof -
  have a: "(''1'', ''2'', 10) \<in> set (spf_edges (dvals far_lsdb))" "(''2'', ''3'', 10) \<in> set (spf_edges (dvals far_lsdb))"
    and b: "(''3'', ''10.3.0.0/16'', 5) \<in> set (spf_dests (dvals far_lsdb))" by code_simp+
  from spf_walk.further [OF spf_walk.further [OF spf_walk.here a(1)] a(2)]
  have "spf_walk (spf_edges (dvals far_lsdb)) ''1'' ''3'' (0 + 10 + 10) ''2''" by simp
  with b ospf_routes_shortest [OF far_routes far_costs] far_routes show ?thesis by fastforce
qed

lemma election_result_witness:
  "\<forall>prev_bdr. (case elect lab_env (Some ''A'') prev_bdr
       [\<lparr>cd_device = ''A'', cd_router_id = ''1.1.1.1'', cd_priority = 1\<rparr>, \<lparr>cd_device = ''B'', cd_router_id = ''2.2.2.2'', cd_priority = 9\<rparr>]
     of (dr, bdr) \<Rightarrow> dr \<noteq> None \<and> bdr \<noteq> dr)"
proof
  fix prev_bdr
  let ?cs = "[\<lparr>cd_device = ''A'', cd_router_id = ''1.1.1.1'', cd_priority = 1\<rparr>, \<lparr>cd_device = ''B'', cd_router_id = ''2.2.2.2'', cd_priority = 9\<rparr>]"
  obtain dr bdr where e: "elect lab_env (Some ''A'') prev_bdr ?cs = (dr, bdr)" by (cases "elect lab_env (Some ''A'') prev_bdr ?cs")
  from election_result [OF e] e show "case elect lab_env (Some ''A'') prev_bdr ?cs of (dr, bdr) \<Rightarrow> dr \<noteq> None \<and> bdr \<noteq> dr"
    by auto
qed

end
