(* ===== verification/Ike.thy ===== *)
theory Ike
  imports Complex_Main VNet
begin

text \<open>
  IKE and IPsec between the devices, \<open>engine/ike_engine.py\<close>: what a Si-R (or RTX, FortiGate) tunnel and
  a Cisco crypto configuration propose, the phase 1 and phase 2 checks, the negotiation from either kind
  of device, manually keyed tunnels and dead peer detection.

  A tunnel is a Python dictionary with optional keys: a record of options here. The other end's tunnel is
  an object of another device, so what a negotiation stores in it is an update of that device's entry.
  A negotiation's log lines are left out; its reason is a value. The clock is an argument, and so is
  Python's string hash. The key of a tunnel is \<open>str(tid)\<close>.
\<close>

subsection \<open>Proposals and their normal forms\<close>

datatype dh_value = DhInt int | DhText string

definition enc_names :: "(string, string) dict" where
  "enc_names =
     [(''aes'', ''aes128''), (''aes 128'', ''aes128''), (''aes128'', ''aes128''),
      (''aes 256'', ''aes256''), (''aes256'', ''aes256''), (''aes-256'', ''aes256''),
      (''aes 192'', ''aes192''), (''aes192'', ''aes192''),
      (''3des'', ''3des''), (''des'', ''des''),
      (''esp-aes'', ''aes128''), (''esp-aes-256'', ''aes256''), (''esp-3des'', ''3des'')]"

definition hash_names :: "(string, string) dict" where
  "hash_names =
     [(''sha'', ''sha1''), (''sha1'', ''sha1''), (''sha256'', ''sha256''), (''sha-256'', ''sha256''),
      (''sha512'', ''sha512''), (''md5'', ''md5''),
      (''esp-sha-hmac'', ''sha1''), (''esp-sha256-hmac'', ''sha256'')]"

definition dh_names :: "(string, int) dict" where
  "dh_names = [(''1'', 1), (''2'', 2), (''5'', 5), (''14'', 14), (''19'', 19), (''20'', 20), (''21'', 21), (''24'', 24)]"

definition norm_enc :: "string \<Rightarrow> string" where
  "norm_enc v = dget_or enc_names (lower v) (lower v)"

definition norm_hash :: "string \<Rightarrow> string" where
  "norm_hash v = dget_or hash_names (lower v) (lower v)"

definition norm_dh :: "dh_value \<Rightarrow> int" where
  "norm_dh v =
     (case v of
        DhInt n \<Rightarrow> n
      | DhText s \<Rightarrow> (case py_int s of Some n \<Rightarrow> n | None \<Rightarrow> dget_or dh_names s 14))"

definition get_val :: "'a option \<Rightarrow> 'a \<Rightarrow> 'a" where
  "get_val v d = (case v of None \<Rightarrow> d | Some x \<Rightarrow> x)"

subsection \<open>Tunnels and devices\<close>

record manual_algo =
  ma_algo :: "string option"
  ma_key :: "string option"

record manual_dir =
  md_protocol :: "string option"
  md_spi :: "int option"
  md_encrypt :: manual_algo
  md_auth :: manual_algo

definition no_algo :: manual_algo where
  "no_algo = \<lparr>ma_algo = None, ma_key = None\<rparr>"

definition no_dir :: manual_dir where
  "no_dir = \<lparr>md_protocol = None, md_spi = None, md_encrypt = no_algo, md_auth = no_algo\<rparr>"

record ike_tunnel =
  kt_local :: "ip option"
  kt_remote :: "ip option"
  kt_psk :: "string option"
  kt_encryption :: "string option"
  kt_hash :: "string option"
  kt_dh :: "dh_value option"
  kt_mode :: "string option"
  kt_protocol :: "string option"
  kt_ike_lifetime :: "int option"
  kt_sa_lifetime :: "int option"
  kt_type :: "string option"
  kt_send :: manual_dir
  kt_receive :: manual_dir
  kt_dpd_use :: bool
  kt_dpd_idle :: "int option"
  kt_dpd_retry_time :: "int option"
  kt_dpd_retry_count :: "int option"
  kt_dpd_state :: "string option"
  kt_dpd_since :: "rat option"
  kt_status :: "string option"
  kt_phase1 :: "string option"
  kt_phase2 :: "string option"
  kt_spi_in :: "string option"
  kt_spi_out :: "string option"
  kt_ike_remaining :: "int option"
  kt_sa_remaining :: "int option"
  kt_neg_time :: "rat option"

definition no_tunnel :: ike_tunnel where
  "no_tunnel = \<lparr>kt_local = None, kt_remote = None, kt_psk = None, kt_encryption = None, kt_hash = None,
     kt_dh = None, kt_mode = None, kt_protocol = None, kt_ike_lifetime = None, kt_sa_lifetime = None,
     kt_type = None, kt_send = no_dir, kt_receive = no_dir, kt_dpd_use = False, kt_dpd_idle = None,
     kt_dpd_retry_time = None, kt_dpd_retry_count = None, kt_dpd_state = None, kt_dpd_since = None,
     kt_status = None, kt_phase1 = None, kt_phase2 = None, kt_spi_in = None, kt_spi_out = None,
     kt_ike_remaining = None, kt_sa_remaining = None, kt_neg_time = None\<rparr>"

record isakmp_policy =
  po_encryption :: "string option"
  po_hash :: "string option"
  po_group :: "dh_value option"
  po_lifetime :: "int option"

record cmap_entry =
  ce_peer :: "ip option"
  ce_acl :: "string option"
  ce_transform :: "string option"

record crypto_conf =
  cr_enabled :: "string option"
  cr_keys :: "(ip, string) dict"
  cr_policies :: "(int, isakmp_policy) dict"
  cr_maps :: "(string, (int, cmap_entry) dict) dict"

record crypto_peer =
  cp_psk :: "string option"
  cp_status :: "string option"
  cp_phase1 :: "string option"
  cp_phase2 :: "string option"
  cp_spi_in :: "string option"
  cp_spi_out :: "string option"
  cp_sa_remaining :: "int option"
  cp_neg_time :: "rat option"

definition no_peer :: crypto_peer where
  "no_peer = \<lparr>cp_psk = None, cp_status = None, cp_phase1 = None, cp_phase2 = None, cp_spi_in = None,
     cp_spi_out = None, cp_sa_remaining = None, cp_neg_time = None\<rparr>"

record ike_dev =
  kd_type :: string
  kd_interfaces :: "(iface, ip option) dict"
  kd_tunnels :: "(string, ike_tunnel) dict"
  kd_ike_on :: bool
  kd_ipsec_on :: bool
  kd_crypto :: crypto_conf
  kd_peers :: "(ip, crypto_peer) dict"

type_synonym sessions = "(dev, ike_dev) dict"

definition tunnel_types :: "string list" where
  "tunnel_types = [''sir'', ''srs'', ''yamaha'', ''fortigate'']"

definition crypto_types :: "string list" where
  "crypto_types = [''cisco'', ''catalyst'', ''asa'']"

subsection \<open>What each side proposes\<close>

text \<open>\<open>_sir_tunnel_info\<close>: the first tunnel between the two addresses, with its key.\<close>

definition sir_tunnel_info :: "ike_dev \<Rightarrow> ip \<Rightarrow> ip \<Rightarrow> (string \<times> ike_tunnel) option" where
  "sir_tunnel_info k l r = find (\<lambda>(_, t). kt_local t = Some l \<and> kt_remote t = Some r) (kd_tunnels k)"

text \<open>The crypto map entry that names a peer: the first of each map, of the maps the last one.\<close>

definition entry_for :: "ip \<Rightarrow> (int, cmap_entry) dict \<Rightarrow> cmap_entry option" where
  "entry_for r seqs = find (\<lambda>e. ce_peer e = Some r) (dvals seqs)"

definition cmap_for :: "ip \<Rightarrow> (string, (int, cmap_entry) dict) dict \<Rightarrow> cmap_entry option" where
  "cmap_for r maps =
     fold (\<lambda>seqs found. case entry_for r seqs of Some e \<Rightarrow> Some e | None \<Rightarrow> found) (dvals maps) None"

definition first_policy :: "crypto_conf \<Rightarrow> isakmp_policy" where
  "first_policy c =
     (case cr_policies c of
        [] \<Rightarrow> \<lparr>po_encryption = None, po_hash = None, po_group = None, po_lifetime = None\<rparr>
      | (_, p) # _ \<Rightarrow> p)"

definition cisco_psk :: "ike_dev \<Rightarrow> ip \<Rightarrow> string" where
  "cisco_psk k r =
     (case cp_psk (dget_or (kd_peers k) r no_peer) of
        Some (c # cs) \<Rightarrow> c # cs
      | _ \<Rightarrow> dget_or (cr_keys (kd_crypto k)) r [])"

definition isakmp_enabled :: "ike_dev \<Rightarrow> bool" where
  "isakmp_enabled k \<longleftrightarrow> truthy (cr_enabled (kd_crypto k))"

text \<open>\<open>_cisco_peer_info\<close>: the crypto configuration read as a tunnel. The phase 2 algorithms of the
  transform set are computed by the code and put nowhere.\<close>

definition cisco_peer_info :: "ike_dev \<Rightarrow> ip \<Rightarrow> ip \<Rightarrow> ike_tunnel \<times> bool \<times> cmap_entry option" where
  "cisco_peer_info k l r =
     (let pol = first_policy (kd_crypto k)
      in (no_tunnel\<lparr>kt_local := Some l, kt_remote := Some r, kt_psk := Some (cisco_psk k r),
            kt_encryption := Some (norm_enc (get_val (po_encryption pol) ''aes256'')),
            kt_hash := Some (norm_hash (get_val (po_hash pol) ''sha256'')),
            kt_dh := Some (DhInt (norm_dh (get_val (po_group pol) (DhInt 14)))),
            kt_mode := Some ''main'', kt_ike_lifetime := Some (get_val (po_lifetime pol) 86400),
            kt_protocol := Some ''esp'', kt_type := Some ''ike''\<rparr>,
          isakmp_enabled k, cmap_for r (cr_maps (kd_crypto k))))"

definition get_local_ip :: "ike_dev \<Rightarrow> ip" where
  "get_local_ip k =
     (case find (\<lambda>a. truthy a \<and> a \<noteq> Some ''127.0.0.1'') (dvals (kd_interfaces k)) of
        Some (Some a) \<Rightarrow> a | _ \<Rightarrow> [])"

subsection \<open>Dead peer detection\<close>

text \<open>With \<open>NETLAB_FAST_TIMERS\<close> set the detection window is a tenth.\<close>

definition dpd_divisor :: "bool \<Rightarrow> rat" where
  "dpd_divisor fast = (if fast then 10 else 1)"

definition sir_dpd_detect_seconds :: "bool \<Rightarrow> ike_tunnel \<Rightarrow> rat" where
  "sir_dpd_detect_seconds fast t =
     of_int (get_val (kt_dpd_idle t) 10 + get_val (kt_dpd_retry_time t) 1 * get_val (kt_dpd_retry_count t) 3)
       / dpd_divisor fast"

definition tunnel_down :: "rat \<Rightarrow> ip \<Rightarrow> ike_tunnel \<Rightarrow> ike_tunnel" where
  "tunnel_down now l t =
     (if kt_local t \<noteq> Some l then t
      else if kt_status t \<noteq> Some ''established'' then t
      else if kt_dpd_use t then t\<lparr>kt_dpd_state := Some ''detecting'', kt_dpd_since := Some now\<rparr>
      else t)"

definition tunnel_up :: "ip \<Rightarrow> ike_tunnel \<Rightarrow> ike_tunnel" where
  "tunnel_up l t =
     (if kt_local t = Some l \<and> kt_dpd_state t = Some ''detecting''
      then t\<lparr>kt_dpd_state := None, kt_dpd_since := None\<rparr> else t)"

definition map_tunnels :: "(ike_tunnel \<Rightarrow> ike_tunnel) \<Rightarrow> ike_dev \<Rightarrow> ike_dev" where
  "map_tunnels f k = k\<lparr>kd_tunnels := List.map (\<lambda>(i, t). (i, f t)) (kd_tunnels k)\<rparr>"

definition sir_link_down :: "rat \<Rightarrow> ip \<Rightarrow> ike_dev \<Rightarrow> ike_dev" where
  "sir_link_down now l k = map_tunnels (tunnel_down now l) k"

definition sir_link_up :: "ip \<Rightarrow> ike_dev \<Rightarrow> ike_dev" where
  "sir_link_up l k = map_tunnels (tunnel_up l) k"

definition sir_dpd_status :: "bool \<Rightarrow> rat \<Rightarrow> ike_tunnel \<Rightarrow> ike_tunnel \<times> string" where
  "sir_dpd_status fast now t =
     (if kt_dpd_state t \<noteq> Some ''detecting'' then (t, get_val (kt_status t) ''wait'')
      else let elapsed = now - get_val (kt_dpd_since t) now;
               t' = (if elapsed \<ge> sir_dpd_detect_seconds fast t
                     then t\<lparr>kt_status := Some ''wait'', kt_phase1 := Some ''DYING'', kt_phase2 := Some ''DYING'',
                            kt_dpd_state := Some ''down''\<rparr>
                     else t)
           in (t', get_val (kt_status t') ''wait''))"

definition advance_all_sir_dpd :: "bool \<Rightarrow> rat \<Rightarrow> ike_dev \<Rightarrow> ike_dev" where
  "advance_all_sir_dpd fast now k = map_tunnels (\<lambda>t. fst (sir_dpd_status fast now t)) k"

subsection \<open>Finding the peer\<close>

definition owns_address :: "ip \<Rightarrow> ike_dev \<Rightarrow> bool" where
  "owns_address r k \<longleftrightarrow>
     (if kd_type k \<in> set tunnel_types then (\<exists>t\<in>set (dvals (kd_tunnels k)). kt_local t = Some r)
      else if kd_type k \<in> set crypto_types then Some r \<in> set (dvals (kd_interfaces k))
      else False)"

text \<open>\<open>_find_peer\<close>: a device that is linked to this one is preferred. The caller treats an empty
  identifier like a missing one.\<close>

definition find_peer :: "vnet \<Rightarrow> sessions \<Rightarrow> dev \<Rightarrow> ip \<Rightarrow> (dev \<times> ike_dev) option" where
  "find_peer v s self r =
     (let matches = filter (\<lambda>(d, k). d \<noteq> self \<and> owns_address r k) s
      in case find (\<lambda>(d, _). d \<in> set (get_neighbors v self)) matches of
           Some x \<Rightarrow> Some x
         | None \<Rightarrow> (case matches of [] \<Rightarrow> None | x # _ \<Rightarrow> Some x))"

definition the_peer :: "vnet \<Rightarrow> sessions \<Rightarrow> dev \<Rightarrow> ip \<Rightarrow> (dev \<times> ike_dev) option" where
  "the_peer v s self r =
     (case find_peer v s self r of None \<Rightarrow> None | Some (d, k) \<Rightarrow> if d = [] then None else Some (d, k))"

subsection \<open>The checks\<close>

datatype reason =
    Fine
  | TunnelIpMissing | IkeOff | IpsecOff | NoPeer ip | PeerTunnelMissing | PeerIkeOff
  | PskMissingLocal | PskMissingPeer | PskMismatch
  | DhMismatch int int | EncryptionMismatch string string | HashMismatch string string
  | ModeMismatch string string | ProtocolMismatch string string
  | IsakmpOff | PskMissing | PeerNotReady
  | ManualIncomplete | PeerNotManual
  | ManualProtocolMismatch "string option" "string option" | ManualSpiMismatch int int
  | ManualEncryptMismatch | ManualAuthMismatch

definition phase1_check :: "ike_tunnel \<Rightarrow> ike_tunnel \<Rightarrow> reason option" where
  "phase1_check l p =
     (let l_dh = norm_dh (get_val (kt_dh l) (DhInt 14));
          p_dh = norm_dh (get_val (kt_dh p) (DhInt 14));
          l_enc = norm_enc (get_val (kt_encryption l) ''aes256'');
          p_enc = norm_enc (get_val (kt_encryption p) ''aes256'');
          l_hsh = norm_hash (get_val (kt_hash l) ''sha256'');
          p_hsh = norm_hash (get_val (kt_hash p) ''sha256'');
          l_mode = get_val (kt_mode l) ''main'';
          p_mode = get_val (kt_mode p) ''main''
      in if \<not> truthy (kt_psk l) then Some PskMissingLocal
         else if \<not> truthy (kt_psk p) then Some PskMissingPeer
         else if kt_psk l \<noteq> kt_psk p then Some PskMismatch
         else if l_dh \<noteq> p_dh then Some (DhMismatch l_dh p_dh)
         else if l_enc \<noteq> p_enc then Some (EncryptionMismatch l_enc p_enc)
         else if l_hsh \<noteq> p_hsh then Some (HashMismatch l_hsh p_hsh)
         else if l_mode \<noteq> p_mode then Some (ModeMismatch l_mode p_mode)
         else None)"

definition phase2_check :: "ike_tunnel \<Rightarrow> ike_tunnel \<Rightarrow> reason option" where
  "phase2_check l p =
     (let l_proto = lower (get_val (kt_protocol l) ''esp'');
          p_proto = lower (get_val (kt_protocol p) ''esp'')
      in if l_proto \<noteq> p_proto then Some (ProtocolMismatch l_proto p_proto) else None)"

definition manual_sa_creatable :: "manual_dir \<Rightarrow> bool" where
  "manual_sa_creatable d =
     (let has_auth = (truthy (ma_algo (md_auth d)) \<and> ma_algo (md_auth d) \<noteq> Some ''none'');
          has_encrypt = (truthy (ma_algo (md_encrypt d)) \<and> ma_algo (md_encrypt d) \<noteq> Some ''none'')
      in if md_protocol d = Some ''ah'' then has_auth
         else if md_protocol d = Some ''esp'' then has_encrypt
         else False)"

definition manual_key_matches :: "manual_dir \<Rightarrow> manual_dir \<Rightarrow> reason option" where
  "manual_key_matches l p =
     (if md_protocol l \<noteq> md_protocol p then Some (ManualProtocolMismatch (md_protocol l) (md_protocol p))
      else if md_spi l \<noteq> md_spi p then Some (ManualSpiMismatch (get_val (md_spi l) 0) (get_val (md_spi p) 0))
      else if ma_algo (md_encrypt l) \<noteq> ma_algo (md_encrypt p) \<or> ma_key (md_encrypt l) \<noteq> ma_key (md_encrypt p)
      then Some ManualEncryptMismatch
      else if ma_algo (md_auth l) \<noteq> ma_algo (md_auth p) \<or> ma_key (md_auth l) \<noteq> ma_key (md_auth p)
      then Some ManualAuthMismatch
      else None)"

subsection \<open>Updates of the sessions\<close>

record neg_result =
  nr_success :: bool
  nr_phase :: int
  nr_reason :: reason

type_synonym results = "(string, neg_result) dict"

definition failed :: "int \<Rightarrow> reason \<Rightarrow> neg_result" where
  "failed ph r = \<lparr>nr_success = False, nr_phase = ph, nr_reason = r\<rparr>"

definition passed :: "int \<Rightarrow> neg_result" where
  "passed ph = \<lparr>nr_success = True, nr_phase = ph, nr_reason = Fine\<rparr>"

definition upd_dev :: "dev \<Rightarrow> (ike_dev \<Rightarrow> ike_dev) \<Rightarrow> sessions \<Rightarrow> sessions" where
  "upd_dev d f s = (case dget s d of None \<Rightarrow> s | Some k \<Rightarrow> dset s d (f k))"

definition upd_tunnel :: "dev \<Rightarrow> string \<Rightarrow> (ike_tunnel \<Rightarrow> ike_tunnel) \<Rightarrow> sessions \<Rightarrow> sessions" where
  "upd_tunnel d i f =
     upd_dev d (\<lambda>k. case dget (kd_tunnels k) i of
       None \<Rightarrow> k | Some t \<Rightarrow> k\<lparr>kd_tunnels := dset (kd_tunnels k) i (f t)\<rparr>)"

definition upd_peer :: "dev \<Rightarrow> ip \<Rightarrow> (crypto_peer \<Rightarrow> crypto_peer) \<Rightarrow> sessions \<Rightarrow> sessions" where
  "upd_peer d a f =
     upd_dev d (\<lambda>k. k\<lparr>kd_peers := dset (kd_peers k) a (f (dget_or (kd_peers k) a no_peer))\<rparr>)"

definition tunnel_of :: "sessions \<Rightarrow> dev \<Rightarrow> string \<Rightarrow> ike_tunnel option" where
  "tunnel_of s d i = (case dget s d of None \<Rightarrow> None | Some k \<Rightarrow> dget (kd_tunnels k) i)"

definition peer_of :: "sessions \<Rightarrow> dev \<Rightarrow> ip \<Rightarrow> crypto_peer option" where
  "peer_of s d a = (case dget s d of None \<Rightarrow> None | Some k \<Rightarrow> dget (kd_peers k) a)"

definition wait_larval :: "ike_tunnel \<Rightarrow> ike_tunnel" where
  "wait_larval t = t\<lparr>kt_status := Some ''wait'', kt_phase1 := Some ''LARVAL''\<rparr>"

text \<open>\<open>f'0x{n:08x}'\<close> of a number that is not negative.\<close>

definition hex08 :: "int \<Rightarrow> string" where
  "hex08 n = (let h = show_hex (nat n) in ''0x'' @ replicate (8 - length h) (CHR ''0'') @ h)"

definition spi_low :: "int \<Rightarrow> string" where
  "spi_low seed = hex08 (seed AND 0xffffffff)"

definition spi_high :: "int \<Rightarrow> string" where
  "spi_high seed = hex08 (drop_bit 4 seed AND 0xffffffff)"

definition sa_up :: "rat \<Rightarrow> string \<Rightarrow> string \<Rightarrow> int \<Rightarrow> ike_tunnel \<Rightarrow> ike_tunnel" where
  "sa_up now i spo life t =
     t\<lparr>kt_status := Some ''established'', kt_phase2 := Some ''MATURE'', kt_spi_in := Some i,
       kt_spi_out := Some spo, kt_sa_remaining := Some life, kt_neg_time := Some now\<rparr>"

definition peer_sa_up :: "rat \<Rightarrow> string \<Rightarrow> string \<Rightarrow> int \<Rightarrow> crypto_peer \<Rightarrow> crypto_peer" where
  "peer_sa_up now i spo life p =
     p\<lparr>cp_status := Some ''established'', cp_spi_in := Some i, cp_spi_out := Some spo,
       cp_phase1 := Some ''MATURE'', cp_phase2 := Some ''MATURE'', cp_sa_remaining := Some life,
       cp_neg_time := Some now\<rparr>"

subsection \<open>Manually keyed tunnels (\<open>negotiate_manual_ipsec\<close>)\<close>

definition manual_up :: "manual_dir \<Rightarrow> manual_dir \<Rightarrow> ike_tunnel \<Rightarrow> ike_tunnel" where
  "manual_up sdr rcv t =
     t\<lparr>kt_status := Some ''established'', kt_phase1 := Some ''MATURE'', kt_phase2 := Some ''MATURE'',
       kt_spi_in := Some (hex08 (get_val (md_spi rcv) 0)), kt_spi_out := Some (hex08 (get_val (md_spi sdr) 0)),
       kt_protocol := Some (get_val (md_protocol sdr) ''esp''),
       kt_encryption := Some (get_val (ma_algo (md_encrypt sdr)) ''none''),
       kt_hash := Some (get_val (ma_algo (md_auth sdr)) ''none'')\<rparr>"

definition wait_only :: "ike_tunnel \<Rightarrow> ike_tunnel" where
  "wait_only t = t\<lparr>kt_status := Some ''wait''\<rparr>"

definition manual_failure :: "vnet \<Rightarrow> dev \<Rightarrow> sessions \<Rightarrow> ike_tunnel \<Rightarrow> reason + (dev \<times> string \<times> ike_tunnel)" where
  "manual_failure v self s t =
     (case (kt_local t, kt_remote t) of
        (Some (l # ls), Some (r # rs)) \<Rightarrow>
          (if \<not> manual_sa_creatable (kt_send t) \<or> \<not> manual_sa_creatable (kt_receive t) then Inl ManualIncomplete
           else case the_peer v s self (r # rs) of
                  None \<Rightarrow> Inl (NoPeer (r # rs))
                | Some (d, k) \<Rightarrow>
                    (case sir_tunnel_info k (r # rs) (l # ls) of
                       None \<Rightarrow> Inl PeerNotManual
                     | Some (j, p) \<Rightarrow>
                         if kt_type p \<noteq> Some ''manual'' then Inl PeerNotManual
                         else case manual_key_matches (kt_send t) (kt_receive p) of
                                Some why \<Rightarrow> Inl why
                              | None \<Rightarrow> (case manual_key_matches (kt_send p) (kt_receive t) of
                                          Some why \<Rightarrow> Inl why | None \<Rightarrow> Inr (d, j, p))))
      | _ \<Rightarrow> Inl TunnelIpMissing)"

definition manual_step :: "vnet \<Rightarrow> dev \<Rightarrow> string \<Rightarrow> sessions \<times> results \<Rightarrow> sessions \<times> results" where
  "manual_step v self i sr =
     (case sr of (s, res) \<Rightarrow>
       (case tunnel_of s self i of
          None \<Rightarrow> (s, res)
        | Some t \<Rightarrow>
            if kt_type t \<noteq> Some ''manual'' then (s, res)
            else case manual_failure v self s t of
                   Inl why \<Rightarrow> (upd_tunnel self i wait_only s, dset res i (failed 0 why))
                 | Inr (d, j, p) \<Rightarrow>
                     (upd_tunnel d j (manual_up (kt_send p) (kt_receive p))
                        (upd_tunnel self i (manual_up (kt_send t) (kt_receive t)) s),
                      dset res i (passed 0))))"

definition negotiate_manual_ipsec :: "vnet \<Rightarrow> sessions \<Rightarrow> dev \<Rightarrow> sessions \<times> results" where
  "negotiate_manual_ipsec v s self =
     (case dget s self of
        None \<Rightarrow> (s, [])
      | Some k \<Rightarrow>
          if kd_type k \<notin> {''sir'', ''srs'', ''yamaha''} then (s, [])
          else fold (manual_step v self) (dkeys (kd_tunnels k)) (s, []))"

subsection \<open>Negotiation from a tunnel (\<open>negotiate_ipsec\<close>, Si-R part)\<close>

text \<open>What the other end offers: a tunnel of it, with its key, or a crypto configuration.\<close>

datatype offer = TunnelOffer string ike_tunnel | CryptoOffer ike_tunnel

primrec offered :: "offer \<Rightarrow> ike_tunnel" where
  "offered (TunnelOffer i t) = t"
| "offered (CryptoOffer t) = t"

definition peer_offer :: "ike_dev \<Rightarrow> ip \<Rightarrow> ip \<Rightarrow> offer option \<times> bool" where
  "peer_offer k r l =
     (if kd_type k \<in> set tunnel_types
      then (map_option (\<lambda>(i, t). TunnelOffer i t) (sir_tunnel_info k r l), kd_ike_on k)
      else case cisco_peer_info k r l of (t, on, _) \<Rightarrow> (Some (CryptoOffer t), on))"

definition on_offer :: "dev \<Rightarrow> offer \<Rightarrow> (ike_tunnel \<Rightarrow> ike_tunnel) \<Rightarrow> sessions \<Rightarrow> sessions" where
  "on_offer d off f s = (case off of TunnelOffer j _ \<Rightarrow> upd_tunnel d j f s | CryptoOffer _ \<Rightarrow> s)"

definition phase1_up :: "int \<Rightarrow> ike_tunnel \<Rightarrow> ike_tunnel" where
  "phase1_up life t = t\<lparr>kt_phase1 := Some ''MATURE'', kt_ike_remaining := Some life\<rparr>"

text \<open>The two phases, once the peer has answered.\<close>

definition sir_phases ::
  "rat \<Rightarrow> (string \<Rightarrow> int) \<Rightarrow> dev \<Rightarrow> string \<Rightarrow> ip \<Rightarrow> ip \<Rightarrow> ike_tunnel \<Rightarrow> dev \<Rightarrow> offer \<Rightarrow> sessions \<Rightarrow> sessions \<times> neg_result"
where
  "sir_phases now pyhash self i l r t d off s =
     (case phase1_check t (offered off) of
        Some why \<Rightarrow>
          (on_offer d off (\<lambda>p. p\<lparr>kt_phase1 := Some ''DYING''\<rparr>)
             (upd_tunnel self i (\<lambda>t. t\<lparr>kt_status := Some ''wait'', kt_phase1 := Some ''DYING''\<rparr>) s),
           failed 1 why)
      | None \<Rightarrow>
          (let lt = get_val (kt_ike_lifetime t) 86400;
               s1 = on_offer d off (phase1_up lt) (upd_tunnel self i (phase1_up lt) s)
           in case phase2_check t (offered off) of
                Some why \<Rightarrow>
                  (upd_tunnel self i (\<lambda>t. t\<lparr>kt_status := Some ''wait'', kt_phase2 := Some ''DYING''\<rparr>) s1, failed 2 why)
              | None \<Rightarrow>
                  (let seed = \<bar>pyhash (l @ r @ i)\<bar>;
                       life = get_val (kt_sa_lifetime t) 28800;
                       s2 = upd_tunnel self i (sa_up now (spi_low seed) (spi_high seed) life) s1;
                       s3 = on_offer d off (sa_up now (spi_high seed) (spi_low seed) life) s2;
                       s4 = (case off of
                               TunnelOffer _ _ \<Rightarrow> s3
                             | CryptoOffer _ \<Rightarrow> upd_peer d l (peer_sa_up now (spi_high seed) (spi_low seed) life) s3)
                   in (s4, passed 2))))"

definition sir_negotiate ::
  "rat \<Rightarrow> (string \<Rightarrow> int) \<Rightarrow> vnet \<Rightarrow> dev \<Rightarrow> bool \<Rightarrow> bool \<Rightarrow> string \<Rightarrow> ike_tunnel \<Rightarrow> sessions \<Rightarrow> sessions \<times> neg_result"
where
  "sir_negotiate now pyhash v self ike_ok ipsec_ok i t s =
     (let r = get_val (kt_remote t) []; l = get_val (kt_local t) [];
          fail1 = (\<lambda>why. (upd_tunnel self i wait_larval s, failed 1 why))
      in if r = [] \<or> l = []
         then (upd_tunnel self i (\<lambda>t. (wait_larval t)\<lparr>kt_phase2 := Some ''LARVAL''\<rparr>) s, failed 1 TunnelIpMissing)
         else if \<not> ike_ok then fail1 IkeOff
         else if \<not> ipsec_ok then fail1 IpsecOff
         else case the_peer v s self r of
                None \<Rightarrow> fail1 (NoPeer r)
              | Some (d, k) \<Rightarrow>
                  (case peer_offer k r l of
                     (None, _) \<Rightarrow> fail1 PeerTunnelMissing
                   | (Some off, on) \<Rightarrow>
                       if \<not> on then fail1 PeerIkeOff
                       else sir_phases now pyhash self i l r t d off s))"

definition sir_step ::
  "rat \<Rightarrow> (string \<Rightarrow> int) \<Rightarrow> vnet \<Rightarrow> dev \<Rightarrow> bool \<Rightarrow> bool \<Rightarrow> string \<Rightarrow> sessions \<times> results \<Rightarrow> sessions \<times> results"
where
  "sir_step now pyhash v self ike_ok ipsec_ok i sr =
     (case sr of (s, res) \<Rightarrow>
       (case tunnel_of s self i of
          None \<Rightarrow> (s, res)
        | Some t \<Rightarrow> (case sir_negotiate now pyhash v self ike_ok ipsec_ok i t s of
                      (s', r) \<Rightarrow> (s', dset res i r))))"

subsection \<open>Negotiation from a crypto map (\<open>negotiate_ipsec\<close>, Cisco part)\<close>

text \<open>The set of peers; the order in which the set is iterated is that of the list.\<close>

definition all_peers :: "ike_dev \<Rightarrow> ip list" where
  "all_peers k =
     fold (\<lambda>e acc. case ce_peer e of Some (c # cs) \<Rightarrow> sadd acc (c # cs) | _ \<Rightarrow> acc)
       (concat (List.map dvals (dvals (cr_maps (kd_crypto k))))) (dkeys (kd_peers k))"

definition cisco_phases ::
  "rat \<Rightarrow> (string \<Rightarrow> int) \<Rightarrow> dev \<Rightarrow> ip \<Rightarrow> ip \<Rightarrow> ike_tunnel \<Rightarrow> dev \<Rightarrow> offer \<Rightarrow> sessions \<Rightarrow> sessions \<times> neg_result"
where
  "cisco_phases now pyhash self l r t d off s =
     (case phase1_check t (offered off) of
        Some why \<Rightarrow> (s, failed 1 why)
      | None \<Rightarrow>
          (case phase2_check t (offered off) of
             Some why \<Rightarrow> (s, failed 2 why)
           | None \<Rightarrow>
               (let seed = \<bar>pyhash (l @ r)\<bar>;
                    life = get_val (kt_sa_lifetime t) 28800;
                    s1 = upd_peer self r (peer_sa_up now (spi_low seed) (spi_high seed) life) s;
                    s2 = on_offer d off (\<lambda>p. (sa_up now (spi_high seed) (spi_low seed) life p)\<lparr>kt_phase1 := Some ''MATURE''\<rparr>) s1
                in (s2, passed 2))))"

definition cisco_negotiate ::
  "rat \<Rightarrow> (string \<Rightarrow> int) \<Rightarrow> vnet \<Rightarrow> dev \<Rightarrow> ike_dev \<Rightarrow> ip \<Rightarrow> ip \<Rightarrow> sessions \<Rightarrow> sessions \<times> neg_result"
where
  "cisco_negotiate now pyhash v self me l r s =
     (if \<not> isakmp_enabled me then (s, failed 1 IsakmpOff)
      else case cisco_peer_info me l r of (t, _, _) \<Rightarrow>
        if \<not> truthy (kt_psk t) then (s, failed 1 PskMissing)
        else case the_peer v s self r of
               None \<Rightarrow> (s, failed 1 (NoPeer r))
             | Some (d, k) \<Rightarrow>
                 (case peer_offer k r l of
                    (Some off, True) \<Rightarrow> cisco_phases now pyhash self l r t d off s
                  | _ \<Rightarrow> (s, failed 1 PeerNotReady)))"

definition cisco_step ::
  "rat \<Rightarrow> (string \<Rightarrow> int) \<Rightarrow> vnet \<Rightarrow> dev \<Rightarrow> ip \<Rightarrow> ip \<Rightarrow> sessions \<times> results \<Rightarrow> sessions \<times> results"
where
  "cisco_step now pyhash v self l r sr =
     (case sr of (s, res) \<Rightarrow>
       (case dget s self of
          None \<Rightarrow> (s, res)
        | Some me \<Rightarrow> (case cisco_negotiate now pyhash v self me l r s of (s', x) \<Rightarrow> (s', dset res r x))))"

definition negotiate_ipsec :: "rat \<Rightarrow> (string \<Rightarrow> int) \<Rightarrow> vnet \<Rightarrow> sessions \<Rightarrow> dev \<Rightarrow> sessions \<times> results" where
  "negotiate_ipsec now pyhash v s self =
     (case dget s self of
        None \<Rightarrow> (s, [])
      | Some k \<Rightarrow>
          if kd_type k \<in> set tunnel_types
          then fold (sir_step now pyhash v self (kd_ike_on k) (kd_ipsec_on k)) (dkeys (kd_tunnels k)) (s, [])
          else if kd_type k \<in> set crypto_types
          then fold (cisco_step now pyhash v self (get_local_ip k)) (all_peers k) (s, [])
          else (s, []))"

end
