(* ===== verification/IkeSafety.thy ===== *)
theory IkeSafety
  imports Ike
begin

text \<open>
  What a negotiation started from a tunnel leaves behind: the phase 1 check is an agreement of both
  proposals, the configuration is untouched, and every tunnel's status is what its result says, with a
  security association at the other end whose SPIs are the initiator's, swapped.
\<close>

subsection \<open>The checks as agreement\<close>

definition proposal :: "ike_tunnel \<Rightarrow> string option \<times> int \<times> string \<times> string \<times> string" where
  "proposal t =
     (kt_psk t, norm_dh (get_val (kt_dh t) (DhInt 14)), norm_enc (get_val (kt_encryption t) ''aes256''),
      norm_hash (get_val (kt_hash t) ''sha256''), get_val (kt_mode t) ''main'')"

definition phase2_proposal :: "ike_tunnel \<Rightarrow> string" where
  "phase2_proposal t = lower (get_val (kt_protocol t) ''esp'')"

text \<open>Phase 1 succeeds exactly when a pre-shared key is configured and both ends have the same
  key, group, encryption, hash and mode after the vendors' spellings are unified; so it does not matter
  which end asks.\<close>

theorem phase1_is_agreement:
  "(phase1_check l p = None) = (truthy (kt_psk l) \<and> proposal l = proposal p) \<and>
   (phase1_check l p = None) = (phase1_check p l = None)"
  by (auto simp: phase1_check_def proposal_def Let_def split: if_splits)

lemma phase1_check_None: "phase1_check l p = None \<longleftrightarrow> truthy (kt_psk l) \<and> proposal l = proposal p"
  by (auto simp: phase1_check_def proposal_def Let_def split: if_splits)

lemma phase2_check_None: "phase2_check l p = None \<longleftrightarrow> phase2_proposal l = phase2_proposal p"
  by (simp add: phase2_check_def phase2_proposal_def Let_def)

subsection \<open>Well-formed sessions\<close>

definition sessions_ok :: "sessions \<Rightarrow> bool" where
  "sessions_ok s \<longleftrightarrow> dict_ok s \<and> (\<forall>(d, k)\<in>set s. dict_ok (kd_tunnels k))"

lemma upd_dev_ok:
  assumes "sessions_ok s" "\<And>k. dict_ok (kd_tunnels k) \<Longrightarrow> dict_ok (kd_tunnels (f k))"
  shows "sessions_ok (upd_dev d f s)"
proof (cases "dget s d")
  case None
  with assms show ?thesis by (simp add: upd_dev_def)
next
  case (Some k)
  then have "dict_ok (kd_tunnels k)" using assms(1) by (fastforce simp: sessions_ok_def dest: dget_SomeD)
  then have "dict_ok (kd_tunnels (f k))" by (rule assms(2))
  with Some assms(1) show ?thesis
    using set_dset_subset [of s d "f k"] by (auto simp: upd_dev_def sessions_ok_def)
qed

lemma upd_tunnel_ok [simp]: "sessions_ok s \<Longrightarrow> sessions_ok (upd_tunnel d i f s)"
  unfolding upd_tunnel_def by (rule upd_dev_ok) (auto split: option.split)

lemma upd_peer_ok [simp]: "sessions_ok s \<Longrightarrow> sessions_ok (upd_peer d a f s)"
  unfolding upd_peer_def by (rule upd_dev_ok) auto

lemma on_offer_ok [simp]: "sessions_ok s \<Longrightarrow> sessions_ok (on_offer d off f s)"
  by (simp add: on_offer_def split: offer.split)

lemma tunnel_of_upd [simp]:
  "tunnel_of (upd_tunnel d i f s) d' i' =
     (if d' = d \<and> i' = i then map_option f (tunnel_of s d i) else tunnel_of s d' i')"
  by (auto simp: tunnel_of_def upd_tunnel_def upd_dev_def split: option.splits)

lemma tunnel_of_upd_peer [simp]: "tunnel_of (upd_peer d a f s) d' i' = tunnel_of s d' i'"
  by (auto simp: tunnel_of_def upd_peer_def upd_dev_def split: option.splits)

lemma peer_of_upd_tunnel [simp]: "peer_of (upd_tunnel d i f s) d' a' = peer_of s d' a'"
  by (auto simp: peer_of_def upd_tunnel_def upd_dev_def split: option.splits)

lemma dget_upd_tunnel [simp]: "(dget (upd_tunnel d i f s) d' = None) = (dget s d' = None)"
  by (auto simp: upd_tunnel_def upd_dev_def split: option.splits)

lemma peer_of_upd_peer [simp]:
  "peer_of (upd_peer d a f s) d' a' =
     (if d' = d \<and> a' = a
      then (if dget s d = None then None else Some (f (get_val (peer_of s d a) no_peer)))
      else peer_of s d' a')"
  by (auto simp: peer_of_def upd_peer_def upd_dev_def get_val_def dget_or_def split: option.splits)

lemma the_peer_SomeD:
  assumes "sessions_ok s" "the_peer v s self r = Some (d, k)"
  shows "d \<noteq> self \<and> dget s d = Some k \<and> dict_ok (kd_tunnels k) \<and> owns_address r k"
proof -
  let ?ms = "filter (\<lambda>(d, k). d \<noteq> self \<and> owns_address r k) s"
  have "find_peer v s self r = Some (d, k)"
    using assms(2) by (auto simp: the_peer_def split: option.splits if_splits prod.splits)
  then have "find (\<lambda>(d, _). d \<in> set (get_neighbors v self)) ?ms = Some (d, k) \<or>
      (\<exists>xs. ?ms = (d, k) # xs)"
    unfolding find_peer_def Let_def by (cases ?ms) (auto split: option.splits)
  then have "(d, k) \<in> set ?ms"
    by (metis find_SomeD list.set_intros(1))
  with assms(1) show ?thesis by (auto simp: sessions_ok_def intro: dget_in_set)
qed

lemma sir_tunnel_infoD:
  assumes "sir_tunnel_info k l r = Some (i, t)" "dict_ok (kd_tunnels k)"
  shows "dget (kd_tunnels k) i = Some t \<and> kt_local t = Some l \<and> kt_remote t = Some r"
  using assms by (auto simp: sir_tunnel_info_def intro: dget_in_set dest!: find_SomeD)

subsection \<open>What a negotiation may change\<close>

definition conf :: "ike_tunnel \<Rightarrow> ike_tunnel" where
  "conf t = t\<lparr>kt_status := None, kt_phase1 := None, kt_phase2 := None, kt_spi_in := None,
     kt_spi_out := None, kt_ike_remaining := None, kt_sa_remaining := None, kt_neg_time := None\<rparr>"

lemma conf_updates [simp]:
  "conf (t\<lparr>kt_status := a\<rparr>) = conf t" "conf (t\<lparr>kt_phase1 := a\<rparr>) = conf t" "conf (t\<lparr>kt_phase2 := a\<rparr>) = conf t"
  "conf (wait_larval t) = conf t" "conf (phase1_up n t) = conf t" "conf (sa_up now x y n t) = conf t"
  by (simp_all add: conf_def wait_larval_def phase1_up_def sa_up_def)

lemma conf_eqD:
  assumes "conf t = conf u"
  shows "kt_local t = kt_local u" "kt_remote t = kt_remote u" "proposal t = proposal u"
    "phase2_proposal t = phase2_proposal u"
proof -
  have sel: "kt_local (conf x) = kt_local x" "kt_remote (conf x) = kt_remote x"
      "proposal (conf x) = proposal x" "phase2_proposal (conf x) = phase2_proposal x" for x
    by (simp_all add: conf_def proposal_def phase2_proposal_def)
  show "kt_local t = kt_local u" by (metis assms sel(1))
  show "kt_remote t = kt_remote u" by (metis assms sel(2))
  show "proposal t = proposal u" by (metis assms sel(3))
  show "phase2_proposal t = phase2_proposal u" by (metis assms sel(4))
qed

definition conf_of :: "sessions \<Rightarrow> dev \<Rightarrow> string \<Rightarrow> ike_tunnel option" where
  "conf_of s d i = map_option conf (tunnel_of s d i)"

lemma conf_of_upd [simp]:
  "(\<And>t. conf (f t) = conf t) \<Longrightarrow> conf_of (upd_tunnel d i f s) d' i' = conf_of s d' i'"
  by (auto simp: conf_of_def option.map_comp o_def)

lemma conf_of_upd_peer [simp]: "conf_of (upd_peer d a f s) d' i' = conf_of s d' i'"
  by (simp add: conf_of_def)

lemma conf_of_on_offer [simp]:
  "(\<And>t. conf (f t) = conf t) \<Longrightarrow> conf_of (on_offer d off f s) d' i' = conf_of s d' i'"
  by (simp add: on_offer_def split: offer.split)

lemma sir_phases_conf:
  "sir_phases now pyhash self i l r t d off s = (s', x) \<Longrightarrow> conf_of s' d' j = conf_of s d' j"
  by (auto simp: sir_phases_def Let_def split: option.splits offer.splits)

lemma sir_phases_ok:
  "sir_phases now pyhash self i l r t d off s = (s', x) \<Longrightarrow> sessions_ok s \<Longrightarrow> sessions_ok s'"
  by (auto simp: sir_phases_def Let_def split: option.splits offer.splits)

text \<open>A negotiation either fails before the first phase, marking the tunnel, or reaches the phases.\<close>

lemma sir_negotiate_cases:
  assumes "sir_negotiate now pyhash v self ike_ok ipsec_ok i t s = (s', x)" "sessions_ok s"
  obtains (early) f where "s' = upd_tunnel self i f s" "\<not> nr_success x"
      "\<And>t. conf (f t) = conf t" "\<And>t. kt_status (f t) = Some ''wait''"
    | (phases) l r d k off where "kt_local t = Some l" "kt_remote t = Some r"
      "the_peer v s self r = Some (d, k)" "peer_offer k r l = (Some off, True)"
      "sir_phases now pyhash self i l r t d off s = (s', x)"
proof -
  let ?r = "get_val (kt_remote t) []" and ?l = "get_val (kt_local t) []"
  consider "\<exists>f. s' = upd_tunnel self i f s \<and> \<not> nr_success x \<and>
      (\<forall>t. conf (f t) = conf t) \<and> (\<forall>t. kt_status (f t) = Some ''wait'')"
    | d k off where "?r \<noteq> []" "?l \<noteq> []" "the_peer v s self ?r = Some (d, k)"
      "peer_offer k ?r ?l = (Some off, True)" "sir_phases now pyhash self i ?l ?r t d off s = (s', x)"
    using assms(1)
    unfolding sir_negotiate_def Let_def failed_def
    by (fastforce simp: wait_larval_def conf_def split: option.splits if_splits prod.splits)
  then show ?thesis
  proof cases
    case 1
    then show ?thesis using early by blast
  next
    case 2
    then have "kt_local t = Some ?l" "kt_remote t = Some ?r"
      by (auto simp: get_val_def split: option.splits)
    with 2 show ?thesis using phases by blast
  qed
qed

lemma sir_negotiate_conf:
  assumes "sir_negotiate now pyhash v self ike_ok ipsec_ok i t s = (s', x)" "sessions_ok s"
  shows "conf_of s' d j = conf_of s d j" and "sessions_ok s'"
  using assms by (auto elim!: sir_negotiate_cases simp: sir_phases_conf intro: sir_phases_ok)

text \<open>Besides its own tunnel, only the matching tunnel of another device changes.\<close>

lemma peer_offerD:
  assumes "peer_offer k r l = (Some (TunnelOffer j p), b)" "dict_ok (kd_tunnels k)"
  shows "dget (kd_tunnels k) j = Some p \<and> kt_local p = Some r \<and> kt_remote p = Some l"
  using assms by (auto simp: peer_offer_def dest: sir_tunnel_infoD split: if_splits prod.splits)

lemma sir_phases_frame:
  assumes "sir_phases now pyhash self i l r t d off s = (s', x)"
    and "tunnel_of s' d' j' \<noteq> tunnel_of s d' j'"
  shows "(d' = self \<and> j' = i) \<or> (d' = d \<and> (\<exists>p. off = TunnelOffer j' p))"
  using assms
  by (auto simp: sir_phases_def Let_def on_offer_def split: option.splits offer.splits if_splits)

lemma sir_negotiate_frame:
  assumes neg: "sir_negotiate now pyhash v self ike_ok ipsec_ok i t s = (s', x)" and ok: "sessions_ok s"
    and diff: "tunnel_of s' d j \<noteq> tunnel_of s d j" and other: "(d, j) \<noteq> (self, i)"
  shows "d \<noteq> self \<and> (\<exists>p. tunnel_of s d j = Some p \<and> kt_local p = kt_remote t \<and> kt_remote p = kt_local t)"
  using neg ok
proof (cases rule: sir_negotiate_cases)
  case (early f)
  with diff other show ?thesis by (auto split: if_splits)
next
  case (phases l r d0 k off)
  from sir_phases_frame [OF phases(5) diff] other obtain p where "d = d0" "off = TunnelOffer j p" by auto
  with phases the_peer_SomeD [OF ok phases(3)] peer_offerD [of k r l j p True] show ?thesis
    by (auto simp: tunnel_of_def)
qed

subsection \<open>Results and states\<close>

text \<open>A security association of a tunnel with a device: with the matching tunnel there, or as an entry
  of a crypto configuration.\<close>

definition sa_with :: "sessions \<Rightarrow> ike_tunnel \<Rightarrow> dev \<Rightarrow> bool" where
  "sa_with s t d \<longleftrightarrow>
     (\<exists>j p. tunnel_of s d j = Some p \<and> kt_local p = kt_remote t \<and> kt_remote p = kt_local t \<and>
        proposal p = proposal t \<and> phase2_proposal p = phase2_proposal t \<and>
        kt_status p = Some ''established'' \<and> kt_phase1 p = Some ''MATURE'' \<and> kt_phase2 p = Some ''MATURE'' \<and>
        kt_spi_in p = kt_spi_out t \<and> kt_spi_out p = kt_spi_in t) \<or>
     (\<exists>l c. kt_local t = Some l \<and> peer_of s d l = Some c \<and> cp_status c = Some ''established'')"

definition settled :: "sessions \<Rightarrow> dev \<Rightarrow> string \<Rightarrow> neg_result \<Rightarrow> bool" where
  "settled s self i x \<longleftrightarrow>
     (\<exists>t. tunnel_of s self i = Some t \<and>
        kt_status t = Some (if nr_success x then ''established'' else ''wait'') \<and>
        (nr_success x \<longrightarrow> kt_phase1 t = Some ''MATURE'' \<and> kt_phase2 t = Some ''MATURE'' \<and>
           (\<exists>d. d \<noteq> self \<and> sa_with s t d)))"

lemma sir_phases_settled:
  assumes run: "sir_phases now pyhash self i l r t d off s = (s', x)" and t: "tunnel_of s self i = Some t"
    and lr: "kt_local t = Some l" "kt_remote t = Some r" and d: "d \<noteq> self" "dget s d = Some k"
    and off: "peer_offer k r l = (Some off, True)" "dict_ok (kd_tunnels k)"
  shows "settled s' self i x"
proof (cases "phase1_check t (offered off) = None \<and> phase2_check t (offered off) = None")
  case False
  then show ?thesis using run t d
    by (auto simp: sir_phases_def Let_def settled_def failed_def on_offer_def split: option.splits offer.splits)
next
  case True
  then have same: "proposal t = proposal (offered off)" "phase2_proposal t = phase2_proposal (offered off)"
    by (simp_all add: phase1_check_None phase2_check_None)
  show ?thesis
  proof (cases off)
    case (TunnelOffer j p)
    with off have p: "dget (kd_tunnels k) j = Some p" "kt_local p = Some r" "kt_remote p = Some l"
      using peer_offerD by blast+
    have tp: "tunnel_of s d j = Some p" using p(1) d(2) by (simp add: tunnel_of_def)
    define p' where "p' = sa_up now (spi_high \<bar>pyhash (l @ r @ i)\<bar>) (spi_low \<bar>pyhash (l @ r @ i)\<bar>)
      (get_val (kt_sa_lifetime t) 28800) (phase1_up (get_val (kt_ike_lifetime t) 86400) p)"
    define t' where "t' = sa_up now (spi_low \<bar>pyhash (l @ r @ i)\<bar>) (spi_high \<bar>pyhash (l @ r @ i)\<bar>)
      (get_val (kt_sa_lifetime t) 28800) (phase1_up (get_val (kt_ike_lifetime t) 86400) t)"
    have "x = passed 2" "tunnel_of s' self i = Some t'" "tunnel_of s' d j = Some p'"
      using run True t tp d(1)
      by (auto simp: sir_phases_def Let_def TunnelOffer on_offer_def p'_def t'_def)
    moreover have cf: "conf p' = conf p" "conf t' = conf t" by (simp_all add: p'_def t'_def)
    moreover have "kt_status t' = Some ''established''" "kt_phase1 t' = Some ''MATURE''" "kt_phase2 t' = Some ''MATURE''"
      "kt_status p' = Some ''established''" "kt_phase1 p' = Some ''MATURE''" "kt_phase2 p' = Some ''MATURE''"
      "kt_spi_in p' = kt_spi_out t'" "kt_spi_out p' = kt_spi_in t'"
      by (simp_all add: p'_def t'_def sa_up_def phase1_up_def)
    moreover from this have "sa_with s' t' d"
      using same p lr TunnelOffer conf_eqD [OF cf(1)] conf_eqD [OF cf(2)] \<open>tunnel_of s' d j = Some p'\<close>
      unfolding sa_with_def by auto
    ultimately show ?thesis using d(1) unfolding settled_def by (auto simp: passed_def)
  next
    case (CryptoOffer p)
    with run True t d lr show ?thesis
      by (auto simp: sir_phases_def Let_def settled_def sa_with_def passed_def on_offer_def sa_up_def
          phase1_up_def peer_sa_up_def intro!: exI [of _ d])
  qed
qed

lemma sir_negotiate_settled:
  assumes "sir_negotiate now pyhash v self ike_ok ipsec_ok i t s = (s', x)" "sessions_ok s"
    "tunnel_of s self i = Some t"
  shows "settled s' self i x"
  using assms(1,2)
proof (cases rule: sir_negotiate_cases)
  case (early f)
  with assms(3) show ?thesis by (auto simp: settled_def)
next
  case (phases l r d k off)
  then show ?thesis
    using sir_phases_settled [OF phases(5) assms(3) phases(1,2) _ _ phases(4)] the_peer_SomeD [OF assms(2) phases(3)]
    by blast
qed

text \<open>A settled tunnel stays settled while another tunnel of the device negotiates.\<close>

lemma sir_negotiate_peers:
  assumes "sir_negotiate now pyhash v self ike_ok ipsec_ok i t s = (s', x)" "sessions_ok s"
    "peer_of s d a = Some c" "cp_status c = Some ''established''"
  shows "\<exists>c'. peer_of s' d a = Some c' \<and> cp_status c' = Some ''established''"
proof -
  have keep: "peer_of (on_offer e off f u) d a = peer_of u d a" for e off f u
    by (simp add: on_offer_def split: offer.split)
  have dom: "(dget (on_offer e off f u) d = None) = (dget u d = None)" for e off f u
    by (simp add: on_offer_def split: offer.split)
  have here: "dget s d \<noteq> None" using assms(3) by (auto simp: peer_of_def split: option.splits)
  show ?thesis using assms(1,2)
  proof (cases rule: sir_negotiate_cases)
    case (early f)
    with assms(3,4) show ?thesis by auto
  next
    case (phases l r e k off)
    then show ?thesis using assms(3,4) keep dom here
      by (auto simp: sir_phases_def Let_def peer_sa_up_def get_val_def split: option.splits offer.splits if_splits)
  qed
qed

definition pairs_distinct :: "sessions \<Rightarrow> dev \<Rightarrow> bool" where
  "pairs_distinct s self \<longleftrightarrow>
     (\<forall>i j t u. tunnel_of s self i = Some t \<longrightarrow> tunnel_of s self j = Some u \<longrightarrow>
        kt_local t = kt_local u \<longrightarrow> kt_remote t = kt_remote u \<longrightarrow> i = j)"

lemma settled_frame:
  assumes neg: "sir_negotiate now pyhash v self ike_ok ipsec_ok i t s = (s', x)" and ok: "sessions_ok s"
    and t: "tunnel_of s self i = Some t" and dist: "pairs_distinct s self"
    and set: "settled s self i' x'" and ne: "i' \<noteq> i"
  shows "settled s' self i' x'"
proof -
  note frame = sir_negotiate_frame [OF neg ok]
  from set obtain t' where t': "tunnel_of s self i' = Some t'"
    and st: "kt_status t' = Some (if nr_success x' then ''established'' else ''wait'')"
    and suc: "nr_success x' \<longrightarrow> kt_phase1 t' = Some ''MATURE'' \<and> kt_phase2 t' = Some ''MATURE'' \<and>
        (\<exists>d. d \<noteq> self \<and> sa_with s t' d)"
    unfolding settled_def by blast
  have same: "tunnel_of s' self i' = Some t'"
    using frame [of self i'] t' ne by (cases "tunnel_of s' self i' = tunnel_of s self i'") auto
  have "sa_with s' t' d" if sa: "sa_with s t' d" and d: "d \<noteq> self" for d
  proof -
    have keep: "tunnel_of s' d j = Some p"
      if p: "tunnel_of s d j = Some p" "kt_local p = kt_remote t'" "kt_remote p = kt_local t'" for j p
    proof (rule ccontr)
      assume "tunnel_of s' d j \<noteq> Some p"
      then have "tunnel_of s' d j \<noteq> tunnel_of s d j" using p(1) by simp
      from frame [OF this] d obtain q where "tunnel_of s d j = Some q" "kt_local q = kt_remote t" "kt_remote q = kt_local t"
        by blast
      with p have "kt_local t = kt_local t'" "kt_remote t = kt_remote t'" by simp_all
      with dist t t' ne show False unfolding pairs_distinct_def by blast
    qed
    from sa consider (tun) j p where "tunnel_of s d j = Some p" "kt_local p = kt_remote t'" "kt_remote p = kt_local t'"
        "proposal p = proposal t'" "phase2_proposal p = phase2_proposal t'"
        "kt_status p = Some ''established''" "kt_phase1 p = Some ''MATURE''" "kt_phase2 p = Some ''MATURE''"
        "kt_spi_in p = kt_spi_out t'" "kt_spi_out p = kt_spi_in t'"
      | (crypto) l c where "kt_local t' = Some l" "peer_of s d l = Some c" "cp_status c = Some ''established''"
      unfolding sa_with_def by blast
    then show ?thesis
    proof cases
      case tun
      with keep [OF tun(1-3)] show ?thesis unfolding sa_with_def by blast
    next
      case crypto
      with sir_negotiate_peers [OF neg ok crypto(2,3)] show ?thesis unfolding sa_with_def by blast
    qed
  qed
  with same st suc show ?thesis unfolding settled_def by blast
qed

subsection \<open>The whole negotiation\<close>

definition sir_run_ok :: "sessions \<Rightarrow> dev \<Rightarrow> sessions \<times> results \<Rightarrow> bool" where
  "sir_run_ok s0 self = (\<lambda>(s, res). sessions_ok s \<and> (\<forall>d i. conf_of s d i = conf_of s0 d i) \<and>
     (\<forall>i x. dget res i = Some x \<longrightarrow> settled s self i x))"

lemma pairs_distinct_conf:
  assumes "pairs_distinct s0 self" "\<forall>d i. conf_of s d i = conf_of s0 d i"
  shows "pairs_distinct s self"
  unfolding pairs_distinct_def
proof (intro allI impI)
  fix i j t u
  assume tu: "tunnel_of s self i = Some t" "tunnel_of s self j = Some u"
    and eq: "kt_local t = kt_local u" "kt_remote t = kt_remote u"
  from assms(2) have "conf_of s0 self i = conf_of s self i" "conf_of s0 self j = conf_of s self j" by auto
  with tu obtain t0 u0 where 0: "tunnel_of s0 self i = Some t0" "tunnel_of s0 self j = Some u0"
      and c: "conf t = conf t0" "conf u = conf u0"
    by (auto simp: conf_of_def)
  from eq conf_eqD [OF c(1)] conf_eqD [OF c(2)] have "kt_local t0 = kt_local u0" "kt_remote t0 = kt_remote u0"
    by auto
  with 0 assms(1) show "i = j" unfolding pairs_distinct_def by blast
qed

lemma sir_step_ok:
  assumes "sir_run_ok s0 self sr" "pairs_distinct s0 self"
  shows "sir_run_ok s0 self (sir_step now pyhash v self ike_ok ipsec_ok i sr)"
proof -
  obtain s res where sr: "sr = (s, res)" by fastforce
  from assms(1) have ok: "sessions_ok s" and cf: "\<forall>d i. conf_of s d i = conf_of s0 d i"
    and st: "\<And>i x. dget res i = Some x \<Longrightarrow> settled s self i x"
    by (auto simp: sir_run_ok_def sr)
  show ?thesis
  proof (cases "tunnel_of s self i")
    case None
    with assms(1) show ?thesis by (simp add: sir_step_def sr)
  next
    case (Some t)
    obtain s' x where neg: "sir_negotiate now pyhash v self ike_ok ipsec_ok i t s = (s', x)" by fastforce
    note keeps = sir_negotiate_conf [OF neg ok] and new = sir_negotiate_settled [OF neg ok Some]
      and old = settled_frame [OF neg ok Some pairs_distinct_conf [OF assms(2) cf]]
    show ?thesis using keeps new old cf st
      by (auto simp: sir_run_ok_def sir_step_def sr Some neg)
  qed
qed

lemma fold_sir_step_ok:
  "sir_run_ok s0 self sr \<Longrightarrow> pairs_distinct s0 self \<Longrightarrow>
   sir_run_ok s0 self (fold (sir_step now pyhash v self a b) is sr)"
  by (induction "is" arbitrary: sr) (simp_all add: sir_step_ok)

text \<open>Every tunnel gets a result.\<close>

lemma sir_step_dom:
  "(\<exists>y. dget (snd (sir_step now pyhash v self a b i (s, res))) j = Some y) \<longleftrightarrow>
     (i = j \<and> tunnel_of s self i \<noteq> None) \<or> (\<exists>y. dget res j = Some y)"
  by (auto simp: sir_step_def split: option.splits prod.splits)

lemma conf_of_None: "conf_of s d i = None \<longleftrightarrow> tunnel_of s d i = None"
  by (simp add: conf_of_def)

lemma fold_sir_step_dom:
  assumes "sir_run_ok s0 self sr" "pairs_distinct s0 self" "tunnel_of s0 self j \<noteq> None" "j \<in> set is \<or> dget (snd sr) j \<noteq> None"
  shows "dget (snd (fold (sir_step now pyhash v self a b) is sr)) j \<noteq> None"
  using assms
proof (induction "is" arbitrary: sr)
  case (Cons i "is")
  obtain s res where sr: "sr = (s, res)" by fastforce
  have "conf_of s self j = conf_of s0 self j" using Cons.prems(1) by (auto simp: sir_run_ok_def sr)
  with Cons.prems(3) have "tunnel_of s self j \<noteq> None" by (metis conf_of_None)
  with Cons.prems sir_step_dom [of now pyhash v self a b i s res j]
  have "j \<in> set is \<or> dget (snd (sir_step now pyhash v self a b i sr)) j \<noteq> None" by (auto simp: sr)
  with Cons.IH [OF sir_step_ok [OF Cons.prems(1,2)] Cons.prems(2,3)] show ?case by simp
qed simp

lemma negotiate_run:
  assumes "sessions_ok s" "dget s self = Some k" "kd_type k \<in> set tunnel_types" "pairs_distinct s self"
    "negotiate_ipsec now pyhash v s self = (s', res)"
  shows "sir_run_ok s self (s', res)" and "tunnel_of s self i \<noteq> None \<Longrightarrow> dget res i \<noteq> None"
proof -
  have run: "fold (sir_step now pyhash v self (kd_ike_on k) (kd_ipsec_on k)) (dkeys (kd_tunnels k)) (s, []) = (s', res)"
    using assms(2,3,5) by (simp add: negotiate_ipsec_def)
  have init: "sir_run_ok s self (s, [])" using assms(1) by (simp add: sir_run_ok_def)
  from fold_sir_step_ok [OF init assms(4)] show "sir_run_ok s self (s', res)" by (metis run)
  assume i: "tunnel_of s self i \<noteq> None"
  then have "i \<in> set (dkeys (kd_tunnels k))" using assms(2) by (simp add: tunnel_of_def dkeys_iff)
  then show "dget res i \<noteq> None"
    using fold_sir_step_dom [OF init assms(4) i, of "dkeys (kd_tunnels k)" now pyhash v "kd_ike_on k" "kd_ipsec_on k"] run by simp
qed

text \<open>C16. A device with tunnels negotiates: every tunnel gets a result, and its status is what the
  result says. Where it is success, both phases are up and some other device has the association: either
  its matching tunnel, with an equal proposal, is established with the two SPIs swapped, or its crypto
  configuration has an established entry for this end.\<close>

theorem negotiation_settles_tunnels:
  assumes "sessions_ok s" "dget s self = Some k" "kd_type k \<in> set tunnel_types" "pairs_distinct s self"
    and "tunnel_of s self i = Some t"
  shows "case negotiate_ipsec now pyhash v s self of (s', res) \<Rightarrow>
    (case dget res i of None \<Rightarrow> False | Some x \<Rightarrow> settled s' self i x)"
proof -
  obtain s' res where run: "negotiate_ipsec now pyhash v s self = (s', res)" by fastforce
  note facts = negotiate_run [OF assms(1-4) run]
  from facts(2) [of i] assms(5) obtain x where x: "dget res i = Some x" by auto
  with facts(1) show ?thesis by (simp add: run sir_run_ok_def)
qed

lemma fold_sir_step_conf:
  "sessions_ok (fst sr) \<Longrightarrow> conf_of (fst (fold (sir_step now pyhash v self a b) is sr)) d j = conf_of (fst sr) d j"
proof (induction "is" arbitrary: sr)
  case (Cons i "is")
  obtain s res where sr: "sr = (s, res)" by fastforce
  show ?case
  proof (cases "tunnel_of s self i")
    case None
    with Cons show ?thesis by (simp add: sir_step_def sr)
  next
    case (Some t)
    obtain s' x where neg: "sir_negotiate now pyhash v self a b i t s = (s', x)" by fastforce
    with Cons.IH [of "(s', dset res i x)"] Cons.prems sir_negotiate_conf [OF neg] Some show ?thesis
      by (simp add: sir_step_def sr)
  qed
qed simp

text \<open>Negotiating from a device with tunnels changes no configuration, of this device or of any
  other: keys, proposals, addresses and timers of every tunnel are as before.\<close>

theorem negotiation_keeps_configuration:
  assumes "sessions_ok s" "dget s self = Some k" "kd_type k \<in> set tunnel_types"
  shows "conf_of (fst (negotiate_ipsec now pyhash v s self)) d i = conf_of s d i"
  using assms by (simp add: negotiate_ipsec_def fold_sir_step_conf)

end
