(* ===== verification/IkeTimers.thy ===== *)
theory IkeTimers
  imports IkeSafety
begin

text \<open>
  Dead peer detection of the Si-R tunnels and manually keyed tunnels: the detection window, and the
  symmetry of two manual configurations.
\<close>

subsection \<open>The detection window\<close>

definition poll :: "bool \<Rightarrow> rat \<Rightarrow> ike_tunnel \<Rightarrow> ike_tunnel" where
  "poll fast now t = fst (sir_dpd_status fast now t)"

definition detecting_since :: "rat \<Rightarrow> ike_tunnel \<Rightarrow> ike_tunnel" where
  "detecting_since t0 t = t\<lparr>kt_dpd_state := Some ''detecting'', kt_dpd_since := Some t0\<rparr>"

lemma detect_seconds_detecting [simp]:
  "sir_dpd_detect_seconds fast (detecting_since t0 t) = sir_dpd_detect_seconds fast t"
  by (simp add: sir_dpd_detect_seconds_def detecting_since_def)

lemma poll_detecting:
  "poll fast n (detecting_since t0 t) =
     (if n - t0 < sir_dpd_detect_seconds fast t then detecting_since t0 t
      else (detecting_since t0 t)\<lparr>kt_status := Some ''wait'', kt_phase1 := Some ''DYING'',
             kt_phase2 := Some ''DYING'', kt_dpd_state := Some ''down''\<rparr>)"
proof -
  have "kt_dpd_state (detecting_since t0 t) = Some ''detecting''" "get_val (kt_dpd_since (detecting_since t0 t)) n = t0"
    by (simp_all add: detecting_since_def get_val_def)
  then show ?thesis by (auto simp: poll_def sir_dpd_status_def Let_def)
qed

lemma fold_poll_early:
  "\<forall>n\<in>set ns. n - t0 < sir_dpd_detect_seconds fast t \<Longrightarrow>
   fold (poll fast) ns (detecting_since t0 t) = detecting_since t0 t"
  by (induction ns) (simp_all add: poll_detecting)

lemma fold_poll_done: "kt_dpd_state t \<noteq> Some ''detecting'' \<Longrightarrow> fold (poll fast) ns t = t"
  by (induction ns) (simp_all add: poll_def sir_dpd_status_def)

lemma fold_poll_late:
  "\<not> (\<forall>n\<in>set ns. n - t0 < sir_dpd_detect_seconds fast t) \<Longrightarrow>
   fold (poll fast) ns (detecting_since t0 t) =
     (detecting_since t0 t)\<lparr>kt_status := Some ''wait'', kt_phase1 := Some ''DYING'',
        kt_phase2 := Some ''DYING'', kt_dpd_state := Some ''down''\<rparr>"
proof (induction ns)
  case (Cons n ns)
  show ?case
  proof (cases "n - t0 < sir_dpd_detect_seconds fast t")
    case True
    with Cons show ?thesis by (simp add: poll_detecting)
  next
    case False
    then show ?thesis by (simp add: poll_detecting fold_poll_done)
  qed
qed simp

lemma dget_map_tunnels: "dget (kd_tunnels (map_tunnels f k)) i = map_option f (dget (kd_tunnels k) i)"
proof -
  have "dget (List.map (\<lambda>(i, t). (i, f t)) d) i = map_option f (dget d i)" for d :: "(string, ike_tunnel) dict"
    by (induction d) auto
  then show ?thesis by (simp add: map_tunnels_def)
qed

lemma dget_advance:
  "dget (kd_tunnels (fold (advance_all_sir_dpd fast) ns k)) i = map_option (fold (poll fast) ns) (dget (kd_tunnels k) i)"
  by (induction ns arbitrary: k)
    (simp_all add: advance_all_sir_dpd_def dget_map_tunnels poll_def [abs_def] option.map_comp o_def option.map_id)

text \<open>The link of an established tunnel with DPD goes down at \<open>t0\<close>, the timers are polled at any
  times and the link comes back: if every poll was within the detection window the tunnel is exactly as
  before, otherwise it is down, and the link's return does not bring it back.\<close>

theorem dpd_window:
  assumes "dget (kd_tunnels k) i = Some t" "kt_local t = Some l" "kt_status t = Some ''established''"
    "kt_dpd_use t" "kt_dpd_state t = None" "kt_dpd_since t = None"
  shows "map_option (\<lambda>t'. if \<forall>n\<in>set ns. n - t0 < sir_dpd_detect_seconds fast t then t' = t
      else kt_status t' = Some ''wait'' \<and> kt_phase1 t' = Some ''DYING'' \<and> kt_phase2 t' = Some ''DYING'')
    (dget (kd_tunnels (sir_link_up l (fold (advance_all_sir_dpd fast) ns (sir_link_down t0 l k)))) i) = Some True"
proof -
  have d: "tunnel_down t0 l t = detecting_since t0 t"
    using assms by (simp add: tunnel_down_def detecting_since_def)
  show ?thesis
  proof (cases "\<forall>n\<in>set ns. n - t0 < sir_dpd_detect_seconds fast t")
    case True
    have "tunnel_up l (detecting_since t0 t) = t"
      using assms by (simp add: tunnel_up_def detecting_since_def)
    with True d assms(1) show ?thesis
      by (simp add: sir_link_up_def sir_link_down_def dget_map_tunnels dget_advance fold_poll_early)
  next
    case False
    with d assms(1) show ?thesis
      by (auto simp: sir_link_up_def sir_link_down_def dget_map_tunnels dget_advance fold_poll_late tunnel_up_def)
  qed
qed

subsection \<open>Manual keys\<close>

lemma manual_key_matches_None:
  "manual_key_matches l p = None \<longleftrightarrow>
     md_protocol l = md_protocol p \<and> md_spi l = md_spi p \<and> md_encrypt l = md_encrypt p \<and> md_auth l = md_auth p"
  by (auto simp: manual_key_matches_def split: if_splits)

lemma manual_key_matches_sym: "manual_key_matches l p = None \<longleftrightarrow> manual_key_matches p l = None"
  by (auto simp: manual_key_matches_None)

lemma manual_key_matches_refl [simp]: "manual_key_matches x x = None"
  by (simp add: manual_key_matches_None)

lemma manual_matches_eq: "manual_key_matches l p = None \<Longrightarrow> l = p"
  by (simp add: manual_key_matches_None manual_dir.equality)

lemma manual_failure_Inr:
  assumes "manual_failure v self s t = Inr (d, j, p)"
  obtains l r k where "kt_local t = Some l" "kt_remote t = Some r" "l \<noteq> []" "r \<noteq> []"
    "manual_sa_creatable (kt_send t)" "manual_sa_creatable (kt_receive t)"
    "the_peer v s self r = Some (d, k)" "sir_tunnel_info k r l = Some (j, p)" "kt_type p = Some ''manual''"
    "manual_key_matches (kt_send t) (kt_receive p) = None" "manual_key_matches (kt_send p) (kt_receive t) = None"
  using assms by (auto simp: manual_failure_def split: option.splits if_splits list.splits prod.splits)

text \<open>Two manual tunnels that find each other agree on whether the association comes up: if it does
  from one end, it does from the other, and each end's outgoing SPI is the other's incoming one.\<close>

theorem manual_symmetric:
  assumes good: "sessions_ok s" and comes: "manual_failure v self s t = Inr (d, j, p)"
    and manual: "kt_type t = Some ''manual''"
    and found: "the_peer v s d (get_val (kt_local t) []) = Some (self, k)"
    and own: "sir_tunnel_info k (get_val (kt_local t) []) (get_val (kt_remote t) []) = Some (i, t)"
  shows "manual_failure v d s p = Inr (self, i, t) \<and>
    kt_spi_out (manual_up (kt_send t) (kt_receive t) t) = kt_spi_in (manual_up (kt_send p) (kt_receive p) p) \<and>
    kt_spi_in (manual_up (kt_send t) (kt_receive t) t) = kt_spi_out (manual_up (kt_send p) (kt_receive p) p)"
  using comes
proof (cases rule: manual_failure_Inr)
  case (1 l r kp)
  have eq: "kt_send t = kt_receive p" "kt_send p = kt_receive t"
    using 1 by (auto dest: manual_matches_eq)
  have p: "kt_local p = Some r" "kt_remote p = Some l"
    using sir_tunnel_infoD [OF 1(8)] the_peer_SomeD [OF good 1(7)] by auto
  have "manual_failure v d s p = Inr (self, i, t)"
    using 1 p eq manual found own
    by (cases l; cases r) (auto simp: manual_failure_def get_val_def manual_key_matches_None)
  with eq show ?thesis by (simp add: manual_up_def)
qed

subsection \<open>Witnesses\<close>

definition demo_tunnel :: "ip \<Rightarrow> ip \<Rightarrow> ike_tunnel" where
  "demo_tunnel l r = no_tunnel\<lparr>kt_local := Some l, kt_remote := Some r, kt_psk := Some ''secret'',
     kt_dpd_use := True\<rparr>"

definition demo_crypto :: crypto_conf where
  "demo_crypto = \<lparr>cr_enabled = None, cr_keys = [], cr_policies = [], cr_maps = []\<rparr>"

definition demo_sir :: "string \<Rightarrow> ike_tunnel \<Rightarrow> ike_dev" where
  "demo_sir i t = \<lparr>kd_type = ''sir'', kd_interfaces = [], kd_tunnels = [(i, t)], kd_ike_on = True,
     kd_ipsec_on = True, kd_crypto = demo_crypto, kd_peers = []\<rparr>"

definition demo_sessions :: sessions where
  "demo_sessions =
     [(''r1'', demo_sir ''1'' (demo_tunnel ''10.0.0.1'' ''10.0.0.2'')),
      (''r2'', demo_sir ''7'' ((demo_tunnel ''10.0.0.2'' ''10.0.0.1'')\<lparr>kt_dh := Some (DhText ''14'')\<rparr>))]"

lemma demo_sessions_ok: "sessions_ok demo_sessions"
  by (simp add: sessions_ok_def demo_sessions_def demo_sir_def dict_ok_def)

lemma demo_pairs_distinct: "pairs_distinct demo_sessions ''r1''"
  by (auto simp: pairs_distinct_def tunnel_of_def demo_sessions_def demo_sir_def split: if_splits)

lemma demo_dget: "dget demo_sessions ''r1'' = Some (demo_sir ''1'' (demo_tunnel ''10.0.0.1'' ''10.0.0.2''))"
  by (simp add: demo_sessions_def)

lemma demo_tunnel_of: "tunnel_of demo_sessions ''r1'' ''1'' = Some (demo_tunnel ''10.0.0.1'' ''10.0.0.2'')"
  by (simp add: tunnel_of_def demo_dget demo_sir_def)

lemma demo_is_sir: "kd_type (demo_sir i t) \<in> set tunnel_types"
  by (simp add: demo_sir_def tunnel_types_def)

definition demo_run :: "sessions \<times> results" where
  "demo_run = negotiate_ipsec 0 (\<lambda>_. 37) vnet_init demo_sessions ''r1''"

lemma demo_succeeds: "map_option nr_success (dget (snd demo_run) ''1'') = Some True"
  by code_simp

theorem negotiation_settles_tunnels_witness:
  "(case negotiate_ipsec 0 (\<lambda>_. 37) vnet_init demo_sessions ''r1'' of (s', res) \<Rightarrow>
      (case dget res ''1'' of None \<Rightarrow> False | Some x \<Rightarrow> settled s' ''r1'' ''1'' x)) \<and>
   map_option nr_success (dget (snd demo_run) ''1'') = Some True"
  by (rule conjI [OF negotiation_settles_tunnels [OF demo_sessions_ok demo_dget demo_is_sir
        demo_pairs_distinct demo_tunnel_of] demo_succeeds])

theorem negotiation_keeps_configuration_witness:
  "conf_of (fst (negotiate_ipsec 0 (\<lambda>_. 37) vnet_init demo_sessions ''r1'')) ''r2'' ''7'' =
     conf_of demo_sessions ''r2'' ''7'' \<and> conf_of demo_sessions ''r2'' ''7'' \<noteq> None"
  using negotiation_keeps_configuration [OF demo_sessions_ok demo_dget demo_is_sir]
  by (simp add: conf_of_def tunnel_of_def demo_sessions_def demo_sir_def)

definition up_tunnel :: ike_tunnel where
  "up_tunnel = (demo_tunnel ''10.0.0.1'' ''10.0.0.2'')\<lparr>kt_status := Some ''established''\<rparr>"

theorem dpd_window_witness:
  "map_option (\<lambda>t'. if \<forall>n\<in>set [100, 112]. n - 100 < sir_dpd_detect_seconds False up_tunnel then t' = up_tunnel
      else kt_status t' = Some ''wait'' \<and> kt_phase1 t' = Some ''DYING'' \<and> kt_phase2 t' = Some ''DYING'')
    (dget (kd_tunnels (sir_link_up ''10.0.0.1'' (fold (advance_all_sir_dpd False) [100, 112]
       (sir_link_down 100 ''10.0.0.1'' (demo_sir ''1'' up_tunnel))))) ''1'') = Some True \<and>
   sir_dpd_detect_seconds False up_tunnel = 13"
proof
  show "map_option (\<lambda>t'. if \<forall>n\<in>set [100, 112]. n - 100 < sir_dpd_detect_seconds False up_tunnel then t' = up_tunnel
      else kt_status t' = Some ''wait'' \<and> kt_phase1 t' = Some ''DYING'' \<and> kt_phase2 t' = Some ''DYING'')
    (dget (kd_tunnels (sir_link_up ''10.0.0.1'' (fold (advance_all_sir_dpd False) [100, 112]
       (sir_link_down 100 ''10.0.0.1'' (demo_sir ''1'' up_tunnel))))) ''1'') = Some True"
    by (rule dpd_window) (simp_all add: demo_sir_def up_tunnel_def demo_tunnel_def no_tunnel_def)
  show "sir_dpd_detect_seconds False up_tunnel = 13"
    by (simp add: sir_dpd_detect_seconds_def up_tunnel_def demo_tunnel_def no_tunnel_def get_val_def dpd_divisor_def)
qed

definition demo_dir :: "int \<Rightarrow> manual_dir" where
  "demo_dir spi = \<lparr>md_protocol = Some ''esp'', md_spi = Some spi,
     md_encrypt = \<lparr>ma_algo = Some ''null'', ma_key = None\<rparr>, md_auth = no_algo\<rparr>"

definition manual_tunnel :: "ip \<Rightarrow> ip \<Rightarrow> int \<Rightarrow> int \<Rightarrow> ike_tunnel" where
  "manual_tunnel l r out inc = no_tunnel\<lparr>kt_local := Some l, kt_remote := Some r, kt_type := Some ''manual'',
     kt_send := demo_dir out, kt_receive := demo_dir inc\<rparr>"

definition manual_sessions :: sessions where
  "manual_sessions = [(''r1'', demo_sir ''1'' (manual_tunnel ''10.0.0.1'' ''10.0.0.2'' 0x101 0x202)),
     (''r2'', demo_sir ''7'' (manual_tunnel ''10.0.0.2'' ''10.0.0.1'' 0x202 0x101))]"

theorem manual_symmetric_witness:
  "manual_failure vnet_init ''r2'' manual_sessions (manual_tunnel ''10.0.0.2'' ''10.0.0.1'' 0x202 0x101) =
     Inr (''r1'', ''1'', manual_tunnel ''10.0.0.1'' ''10.0.0.2'' 0x101 0x202)"
proof -
  have ok: "sessions_ok manual_sessions"
    by (simp add: sessions_ok_def manual_sessions_def demo_sir_def dict_ok_def)
  have up: "manual_failure vnet_init ''r1'' manual_sessions (manual_tunnel ''10.0.0.1'' ''10.0.0.2'' 0x101 0x202) =
     Inr (''r2'', ''7'', manual_tunnel ''10.0.0.2'' ''10.0.0.1'' 0x202 0x101)"
    by code_simp
  have found: "the_peer vnet_init manual_sessions ''r2'' ''10.0.0.1'' =
      Some (''r1'', demo_sir ''1'' (manual_tunnel ''10.0.0.1'' ''10.0.0.2'' 0x101 0x202))"
    by code_simp
  have own: "sir_tunnel_info (demo_sir ''1'' (manual_tunnel ''10.0.0.1'' ''10.0.0.2'' 0x101 0x202))
      ''10.0.0.1'' ''10.0.0.2'' = Some (''1'', manual_tunnel ''10.0.0.1'' ''10.0.0.2'' 0x101 0x202)"
    by code_simp
  show ?thesis
    using manual_symmetric [OF ok up, of "demo_sir ''1'' (manual_tunnel ''10.0.0.1'' ''10.0.0.2'' 0x101 0x202)" "''1''"] found own
    by (simp add: manual_tunnel_def get_val_def)
qed

end
