(* ===== verification/Vlan.thy ===== *)
theory Vlan
  imports NetData
begin

text \<open>
  \<open>class VlanEngine\<close> (IEEE 802.1Q): the VLAN database and the switch ports of each device, the port
  commands, whether two ports or two devices can communicate in a VLAN, and the text form of a set of
  VLANs, which is parsed by the port commands and printed by the trunk display.

  A set of VLANs is a set here; where it is printed it is sorted first, so its iteration order does not
  show. The tables of the show commands are left out.
\<close>

subsection \<open>Ranges\<close>

text \<open>\<open>_parse_vlan_range\<close>: a part with a dash is a range, whose ends may raise; a part that is not a
  number is ignored.\<close>

definition all_vlans :: "int set" where
  "all_vlans = {1..4094}"

definition is_number :: "string \<Rightarrow> bool" where
  "is_number s \<longleftrightarrow> s \<noteq> [] \<and> list_all is_digit s"

text \<open>\<open>part.split('-', 1)\<close>: up to the first dash, and the rest.\<close>

definition split_dash :: "string \<Rightarrow> string \<times> string" where
  "split_dash s = (takeWhile (\<lambda>c. c \<noteq> CHR ''-'') s, drop 1 (dropWhile (\<lambda>c. c \<noteq> CHR ''-'') s))"

definition parse_part :: "string \<Rightarrow> int set res" where
  "parse_part p0 =
     (let p = strip p0
      in if CHR ''-'' \<in> set p
         then case split_dash p of (lo, hi) \<Rightarrow>
                res_bind (res_of ValueError (py_int (strip lo))) (\<lambda>a.
                res_bind (res_of ValueError (py_int (strip hi))) (\<lambda>b. Inr {a..b}))
         else if is_number p then Inr (case py_int p of Some n \<Rightarrow> {n} | None \<Rightarrow> {})
         else Inr {})"

fun parse_parts :: "string list \<Rightarrow> int set res" where
  "parse_parts [] = Inr {}"
| "parse_parts (p # ps) = res_bind (parse_part p) (\<lambda>a. res_bind (parse_parts ps) (\<lambda>b. Inr (a \<union> b)))"

definition parse_vlan_range :: "string \<Rightarrow> int set res" where
  "parse_vlan_range s =
     (if s = [] \<or> strip s = ''all'' then Inr all_vlans
      else if strip s = ''none'' then Inr {}
      else parse_parts (split_on (CHR '','') s))"

text \<open>\<open>_format_vlan_range\<close>: the loop over the sorted members, with the current run's ends.\<close>

definition show_run :: "int \<Rightarrow> int \<Rightarrow> string" where
  "show_run lo hi = (if lo \<noteq> hi then show_int lo @ ''-'' @ show_int hi else show_int lo)"

fun format_runs :: "int \<Rightarrow> int \<Rightarrow> int list \<Rightarrow> string list" where
  "format_runs start prev [] = [show_run start prev]"
| "format_runs start prev (v # vs) =
     (if v = prev + 1 then format_runs start v vs
      else show_run start prev # format_runs v v vs)"

fun join_comma :: "string list \<Rightarrow> string" where
  "join_comma [] = []"
| "join_comma [x] = x"
| "join_comma (x # y # ys) = x @ '','' @ join_comma (y # ys)"

definition format_vlan_list :: "int list \<Rightarrow> string" where
  "format_vlan_list vs = (case vs of [] \<Rightarrow> ''none'' | v # rest \<Rightarrow> join_comma (format_runs v v rest))"

definition format_vlan_range :: "int set \<Rightarrow> string" where
  "format_vlan_range vs = format_vlan_list (sorted_list_of_set vs)"

subsection \<open>The database and the ports\<close>

record vlan_info =
  vi_name :: string
  vi_state :: string
  vi_ports :: "string list"

record vlans =
  vl_ports :: "dev \<Rightarrow> (string, vlan_port) dict"
  vl_db :: "dev \<Rightarrow> (int, vlan_info) dict"
  vl_inventory :: "dev \<Rightarrow> string list"

definition vlan_init :: vlans where
  "vlan_init = \<lparr>vl_ports = (\<lambda>_. []), vl_db = (\<lambda>_. []), vl_inventory = (\<lambda>_. [])\<rparr>"

text \<open>\<open>f'VLAN{vlan_id:04d}'\<close>.\<close>

definition zero4 :: "int \<Rightarrow> string" where
  "zero4 n = (if n < 0 then ''-'' @ replicate (3 - length (show_nat (nat (- n)))) (CHR ''0'') @ show_nat (nat (- n))
     else replicate (4 - length (show_nat (nat n))) (CHR ''0'') @ show_nat (nat n))"

definition set_db :: "dev \<Rightarrow> (int, vlan_info) dict \<Rightarrow> vlans \<Rightarrow> vlans" where
  "set_db d db s = s\<lparr>vl_db := (vl_db s)(d := db)\<rparr>"

definition set_port :: "dev \<Rightarrow> string \<Rightarrow> vlan_port \<Rightarrow> vlans \<Rightarrow> vlans" where
  "set_port d n p s = s\<lparr>vl_ports := (vl_ports s)(d := dset (vl_ports s d) n p)\<rparr>"

definition port_of :: "vlans \<Rightarrow> dev \<Rightarrow> string \<Rightarrow> vlan_port" where
  "port_of s d n = dget_or (vl_ports s d) n default_port"

definition create_vlan :: "dev \<Rightarrow> int \<Rightarrow> string \<Rightarrow> vlans \<Rightarrow> vlans" where
  "create_vlan d v name s =
     (case dget (vl_db s d) v of
        None \<Rightarrow> set_db d (dset (vl_db s d) v
          \<lparr>vi_name = (if name = [] then ''VLAN'' @ zero4 v else name), vi_state = ''active'', vi_ports = []\<rparr>) s
      | Some i \<Rightarrow> if name = [] then s else set_db d (dset (vl_db s d) v (i\<lparr>vi_name := name\<rparr>)) s)"

definition reset_access :: "int \<Rightarrow> vlan_port \<Rightarrow> vlan_port" where
  "reset_access v p = (if access_vlan p = v then p\<lparr>access_vlan := 1\<rparr> else p)"

definition delete_vlan :: "dev \<Rightarrow> int \<Rightarrow> vlans \<Rightarrow> vlans" where
  "delete_vlan d v s =
     s\<lparr>vl_db := (vl_db s)(d := dpop (vl_db s d) v),
       vl_ports := (vl_ports s)(d := List.map (\<lambda>(n, p). (n, reset_access v p)) (vl_ports s d))\<rparr>"

definition add_member :: "dev \<Rightarrow> int \<Rightarrow> string \<Rightarrow> vlans \<Rightarrow> vlans" where
  "add_member d v n s =
     (case dget (vl_db s d) v of
        None \<Rightarrow> s
      | Some i \<Rightarrow> set_db d (dset (vl_db s d) v (i\<lparr>vi_ports := sadd (vi_ports i) n\<rparr>)) s)"

definition set_access :: "dev \<Rightarrow> string \<Rightarrow> int \<Rightarrow> vlans \<Rightarrow> vlans" where
  "set_access d n v s =
     add_member d v n (create_vlan d v [] (set_port d n ((port_of s d n)\<lparr>mode := Access, access_vlan := v\<rparr>) s))"

text \<open>The commands that parse a range set the port's mode first; a range that raises leaves the rest.\<close>

definition set_trunk :: "dev \<Rightarrow> string \<Rightarrow> int \<Rightarrow> string \<Rightarrow> vlans \<Rightarrow> vlans \<times> pyerr option" where
  "set_trunk d n native allowed s =
     (let p = (port_of s d n)\<lparr>mode := Trunk, native_vlan := native\<rparr>
      in case parse_vlan_range allowed of
           Inl e \<Rightarrow> (set_port d n p s, Some e)
         | Inr vs \<Rightarrow> (set_port d n (p\<lparr>allowed_vlans := vs\<rparr>) s, None))"

definition update_allowed ::
  "(int set \<Rightarrow> int set \<Rightarrow> int set) \<Rightarrow> dev \<Rightarrow> string \<Rightarrow> string \<Rightarrow> vlans \<Rightarrow> vlans \<times> pyerr option" where
  "update_allowed f d n text s =
     (let p = port_of s d n
      in case parse_vlan_range text of
           Inl e \<Rightarrow> (set_port d n p s, Some e)
         | Inr vs \<Rightarrow> (set_port d n (p\<lparr>allowed_vlans := f (allowed_vlans p) vs\<rparr>) s, None))"

definition set_trunk_allowed :: "dev \<Rightarrow> string \<Rightarrow> string \<Rightarrow> vlans \<Rightarrow> vlans \<times> pyerr option" where
  "set_trunk_allowed = update_allowed (\<lambda>old new. new)"

definition set_trunk_allowed_add :: "dev \<Rightarrow> string \<Rightarrow> string \<Rightarrow> vlans \<Rightarrow> vlans \<times> pyerr option" where
  "set_trunk_allowed_add = update_allowed (\<union>)"

definition set_trunk_allowed_remove :: "dev \<Rightarrow> string \<Rightarrow> string \<Rightarrow> vlans \<Rightarrow> vlans \<times> pyerr option" where
  "set_trunk_allowed_remove = update_allowed (-)"

definition set_native_vlan :: "dev \<Rightarrow> string \<Rightarrow> int \<Rightarrow> vlans \<Rightarrow> vlans" where
  "set_native_vlan d n v s = set_port d n ((port_of s d n)\<lparr>native_vlan := v\<rparr>) s"

definition register_ports :: "dev \<Rightarrow> string list \<Rightarrow> vlans \<Rightarrow> vlans" where
  "register_ports d names s = s\<lparr>vl_inventory := (vl_inventory s)(d := names)\<rparr>"

subsection \<open>Communication\<close>

text \<open>\<open>can_communicate\<close>, without the explaining text. A VLAN of 0 counts as none.\<close>

definition can_communicate :: "vlans \<Rightarrow> dev \<Rightarrow> string \<Rightarrow> dev \<Rightarrow> string \<Rightarrow> int option \<Rightarrow> bool" where
  "can_communicate s da na db nb vlan =
     (let pa = port_of s da na; pb = port_of s db nb
      in case (mode pa, mode pb) of
           (Access, Access) \<Rightarrow> access_vlan pa = access_vlan pb
         | (Access, Trunk) \<Rightarrow> access_vlan pa \<in> allowed_vlans pb
         | (Trunk, Access) \<Rightarrow> access_vlan pb \<in> allowed_vlans pa
         | (Trunk, Trunk) \<Rightarrow>
             (let common = allowed_vlans pa \<inter> allowed_vlans pb
              in case vlan of
                   None \<Rightarrow> common \<noteq> {}
                 | Some v \<Rightarrow> if v \<noteq> 0 then v \<in> common else common \<noteq> {}))"

definition carries :: "int \<Rightarrow> vlan_port \<Rightarrow> bool" where
  "carries v p \<longleftrightarrow> (mode p = Access \<and> access_vlan p = v) \<or> (mode p = Trunk \<and> v \<in> allowed_vlans p)"

definition can_reach_vlan :: "vlans \<Rightarrow> dev \<Rightarrow> dev \<Rightarrow> int \<Rightarrow> bool" where
  "can_reach_vlan s a b v \<longleftrightarrow>
     (if vl_ports s a = [] \<or> vl_ports s b = [] then True
      else (\<exists>p\<in>set (dvals (vl_ports s a)). carries v p) \<and> (\<exists>p\<in>set (dvals (vl_ports s b)). carries v p))"

subsection \<open>Port names and unassigned ports\<close>

fun abbrev_by :: "(string \<times> string) list \<Rightarrow> string \<Rightarrow> string" where
  "abbrev_by [] n = n"
| "abbrev_by ((full, short) # rest) n =
     (if starts_with n full then short @ drop (length full) n else abbrev_by rest n)"

definition abbrev_port :: "string \<Rightarrow> string" where
  "abbrev_port = abbrev_by [(''TenGigabitEthernet'', ''Te''), (''GigabitEthernet'', ''Gi''),
     (''FastEthernet'', ''Fa''), (''Ethernet'', ''Et'')]"

definition logical_prefixes :: "string list" where
  "logical_prefixes = [''Vlan'', ''vlan'', ''Port-channel'', ''Loopback'', ''Tunnel'', ''mgmt'', ''lan'', ''wan'']"

definition unassigned_access_ports :: "(dev, device_info) dict \<Rightarrow> vlans \<Rightarrow> dev \<Rightarrow> string list \<Rightarrow> string list" where
  "unassigned_access_ports book s d assigned =
     (let names = (if vl_inventory s d = [] then dkeys (ifaces_of book d) else vl_inventory s d)
      in List.map abbrev_port (filter (\<lambda>n. \<not> list_ex (starts_with n) logical_prefixes \<and>
            abbrev_port n \<notin> set assigned \<and> n \<notin> set assigned) names))"

text \<open>\<open>_wrap_ports\<close>: rows of at most \<open>width\<close> characters; all but the first are indented.\<close>

definition wrap_port :: "nat \<Rightarrow> string \<Rightarrow> string list \<times> string \<Rightarrow> string list \<times> string" where
  "wrap_port width p rc = (case rc of (rows, cur) \<Rightarrow>
     let cand = (if cur = [] then p else cur @ '', '' @ p)
     in if length cand > width \<and> cur \<noteq> [] then (rows @ [cur], p) else (rows, cand))"

definition wrap_rows :: "nat \<Rightarrow> string list \<Rightarrow> string list" where
  "wrap_rows width ports = (case fold (wrap_port width) ports ([], []) of (rows, cur) \<Rightarrow> rows @ [cur])"

definition wrap_ports :: "string list \<Rightarrow> nat \<Rightarrow> nat \<Rightarrow> string list" where
  "wrap_ports ports width indent =
     (if ports = [] then [[]]
      else case wrap_rows width ports of
             [] \<Rightarrow> [] | r # rest \<Rightarrow> r # List.map (\<lambda>x. replicate indent (CHR '' '') @ x) rest)"

end
