(* ===== verification/VlanRange.thy ===== *)
theory VlanRange
  imports Vlan
begin

text \<open>
  Lemmas about the VLAN engine: printing a set of VLANs and parsing it again gives the set, two ports
  communicate when they carry a common VLAN, the printed rows of ports lose nothing, and a port that
  moves to another access VLAN stays listed in the old one.
\<close>

subsection \<open>Runs\<close>

fun runs :: "int \<Rightarrow> int \<Rightarrow> int list \<Rightarrow> (int \<times> int) list" where
  "runs start prev [] = [(start, prev)]"
| "runs start prev (v # vs) =
     (if v = prev + 1 then runs start v vs else (start, prev) # runs v v vs)"

lemma format_runs_eq: "format_runs start prev vs = List.map (\<lambda>(a, b). show_run a b) (runs start prev vs)"
  by (induction start prev vs rule: runs.induct) auto

lemma runs_cover:
  "start \<le> prev \<Longrightarrow> sorted_wrt (<) (prev # vs) \<Longrightarrow>
   (\<Union>(a, b)\<in>set (runs start prev vs). {a..b}) = {start..prev} \<union> set vs"
proof (induction start prev vs rule: runs.induct)
  case (2 start prev v vs)
  show ?case
  proof (cases "v = prev + 1")
    case True
    with 2 have "(\<Union>(a, b)\<in>set (runs start v vs). {a..b}) = {start..v} \<union> set vs" by simp
    moreover have "{start..v} = insert v {start..prev}" using True 2(3) by auto
    ultimately show ?thesis using True by simp
  next
    case False
    with 2 show ?thesis by simp
  qed
qed simp

lemma runs_bounds:
  "0 \<le> start \<Longrightarrow> start \<le> prev \<Longrightarrow> sorted_wrt (<) (prev # vs) \<Longrightarrow> (a, b) \<in> set (runs start prev vs) \<Longrightarrow>
   0 \<le> a \<and> a \<le> b"
  by (induction start prev vs rule: runs.induct) (auto split: if_splits)

lemma runs_nonempty [simp]: "runs start prev vs \<noteq> []"
  by (induction start prev vs rule: runs.induct) auto

subsection \<open>One run, printed and parsed\<close>

lemma show_int_strip [simp]: "0 \<le> n \<Longrightarrow> strip (show_int n) = show_int n"
  by (intro strip_no_space) (auto dest: show_int_digits is_digit_not_space)

lemma dash_facts: "is_digit CHR ''-'' = False" "is_space CHR ''-'' = False" "is_digit CHR '','' = False"
  by (simp_all add: is_digit_def is_space_def code_of_def)

lemma show_run_chars: "0 \<le> a \<Longrightarrow> 0 \<le> b \<Longrightarrow> c \<in> set (show_run a b) \<Longrightarrow> is_digit c \<or> c = CHR ''-''"
  by (auto simp: show_run_def dest: show_int_digits split: if_splits)

lemma show_run_strip: "0 \<le> a \<Longrightarrow> 0 \<le> b \<Longrightarrow> strip (show_run a b) = show_run a b"
proof (rule strip_no_space, rule ballI)
  fix c assume ab: "0 \<le> a" "0 \<le> b" and c: "c \<in> set (show_run a b)"
  from show_run_chars [OF ab c] show "\<not> is_space c" by (auto simp: is_digit_not_space dash_facts)
qed

lemma no_dash: "0 \<le> n \<Longrightarrow> CHR ''-'' \<notin> set (show_int n)"
  by (auto dest: show_int_digits simp: dash_facts)

lemma split_dash_show: "0 \<le> a \<Longrightarrow> split_dash (show_int a @ CHR ''-'' # t) = (show_int a, t)"
proof -
  assume a: "0 \<le> a"
  have t: "takeWhile (\<lambda>c. c \<noteq> x) (xs @ x # ys) = xs" "dropWhile (\<lambda>c. c \<noteq> x) (xs @ x # ys) = x # ys"
    if "x \<notin> set xs" for x :: char and xs ys
    using that by (induction xs) auto
  show ?thesis using no_dash [OF a] by (simp add: split_dash_def t)
qed

lemma parse_show_run: "0 \<le> a \<Longrightarrow> a \<le> b \<Longrightarrow> parse_part (show_run a b) = Inr {a..b}"
proof (cases "a = b")
  case True
  assume "0 \<le> a" "a \<le> b"
  with True show ?thesis
    using no_dash [of b] show_int_digits [of b]
    by (simp add: parse_part_def show_run_def is_number_def py_int_show_int list_all_iff)
next
  case False
  assume ab: "0 \<le> a" "a \<le> b"
  have s: "show_run a b = show_int a @ CHR ''-'' # show_int b" using False by (simp add: show_run_def)
  have "strip (show_run a b) = show_run a b" using ab by (simp add: show_run_strip)
  with ab show ?thesis
    by (simp add: parse_part_def Let_def s split_dash_show res_of_def py_int_show_int)
qed

lemma parse_parts_runs:
  "\<forall>(a, b)\<in>set rs. 0 \<le> a \<and> a \<le> b \<Longrightarrow>
   parse_parts (List.map (\<lambda>(a, b). show_run a b) rs) = Inr (\<Union>(a, b)\<in>set rs. {a..b})"
  by (induction rs) (auto simp: parse_show_run)

lemma split_join: "xs \<noteq> [] \<Longrightarrow> \<forall>x\<in>set xs. CHR '','' \<notin> set x \<Longrightarrow> split_on CHR '','' (join_comma xs) = xs"
  by (induction xs rule: join_comma.induct) (simp_all add: split_on_no_sep split_on_append)

lemma set_join: "set (join_comma xs) \<subseteq> insert CHR '','' (\<Union>(set ` set xs))"
  by (induction xs rule: join_comma.induct) auto

text \<open>C25. The text of a set of VLANs is parsed back to the same set, the empty set included.\<close>

theorem vlan_range_read_back:
  assumes "finite vs" "\<forall>v\<in>vs. 0 \<le> v"
  shows "parse_vlan_range (format_vlan_range vs) = Inr vs"
proof (cases "sorted_list_of_set vs")
  case Nil
  with assms have "vs = {}" by simp
  then show ?thesis by (simp add: format_vlan_range_def format_vlan_list_def parse_vlan_range_def strip_no_space
        is_space_def code_of_def strip_id)
next
  case (Cons v rest)
  let ?rs = "runs v v rest"
  let ?parts = "List.map (\<lambda>(a, b). show_run a b) ?rs"
  have sorted: "sorted_wrt (<) (v # rest)"
    by (metis Cons strict_sorted_list_of_set)
  have vs: "vs = insert v (set rest)" using assms(1) Cons set_sorted_list_of_set by fastforce
  with assms(2) have v0: "0 \<le> v" by simp
  have printed: "format_vlan_range vs = join_comma ?parts"
    by (simp add: format_vlan_range_def format_vlan_list_def Cons format_runs_eq)
  have ok: "\<forall>(a, b)\<in>set ?rs. 0 \<le> a \<and> a \<le> b" using runs_bounds [OF v0 _ sorted] by auto
  have chars: "is_digit c \<or> c = CHR ''-''" if x: "x \<in> set ?parts" "c \<in> set x" for x c
  proof -
    from x(1) obtain a b where "(a, b) \<in> set ?rs" "x = show_run a b" by auto
    with ok x(2) show ?thesis using show_run_chars [of a b c] by fastforce
  qed
  have nocomma: "\<forall>x\<in>set ?parts. CHR '','' \<notin> set x" using chars dash_facts(3) by fastforce
  have split: "split_on CHR '','' (join_comma ?parts) = ?parts"
    by (rule split_join) (use nocomma in simp_all)
  have all: "is_digit c \<or> c = CHR ''-'' \<or> c = CHR '',''" if "c \<in> set (join_comma ?parts)" for c
    using that chars set_join [of ?parts] by blast
  have "strip (join_comma ?parts) = join_comma ?parts"
    by (rule strip_no_space) (auto dest!: all simp: is_digit_def is_space_def code_of_def)
  moreover have "join_comma ?parts \<noteq> []"
  proof
    assume "join_comma ?parts = []"
    with split have "[] \<in> set ?parts" by (metis list.set_intros(1) split_on.simps(1))
    then obtain a b where "show_run a b = []" by (metis (no_types, lifting) image_iff list.set_map prod.case_eq_if)
    then show False by (simp add: show_run_def split: if_splits)
  qed
  moreover have "CHR ''a'' \<notin> set (join_comma ?parts)" "CHR ''n'' \<notin> set (join_comma ?parts)"
    by (auto dest!: all simp: is_digit_def code_of_def)
  then have "join_comma ?parts \<noteq> ''all''" "join_comma ?parts \<noteq> ''none''" by auto
  moreover have "parse_parts ?parts = Inr vs"
    using parse_parts_runs [OF ok] runs_cover [of v v rest] sorted vs by simp
  ultimately show ?thesis by (simp add: printed parse_vlan_range_def split)
qed

theorem vlan_range_read_back_witness:
  "parse_vlan_range (format_vlan_range {1, 2, 3, 10, 20, 21}) = Inr {1, 2, 3, 10, 20, 21}"
  by (rule vlan_range_read_back) simp_all

subsection \<open>Communication\<close>

text \<open>C38. Two ports communicate exactly when some VLAN is carried by both; the order of the two ports
  does not matter. The native VLAN of a trunk plays no part.\<close>

theorem can_communicate_iff_common_vlan:
  "can_communicate s a na b nb None \<longleftrightarrow> port_vlans (port_of s a na) \<inter> port_vlans (port_of s b nb) \<noteq> {}"
  by (auto simp: can_communicate_def port_vlans_def Let_def split: port_mode.split)

lemma create_vlan_there: "\<exists>i. dget (vl_db (create_vlan d v nm s) d) v = Some i"
  by (simp add: create_vlan_def set_db_def split: option.split)

lemma set_access_lists: "\<exists>i. dget (vl_db (set_access d n v s) d) v = Some i \<and> n \<in> set (vi_ports i)"
proof -
  let ?s1 = "create_vlan d v [] (set_port d n ((port_of s d n)\<lparr>mode := Access, access_vlan := v\<rparr>) s)"
  obtain i where "dget (vl_db ?s1 d) v = Some i" using create_vlan_there by blast
  then show ?thesis by (simp add: set_access_def add_member_def set_db_def)
qed

lemma set_access_others: "v \<noteq> w \<Longrightarrow> dget (vl_db (set_access d n w s) d) v = dget (vl_db s d) v"
  by (simp add: set_access_def add_member_def create_vlan_def set_db_def set_port_def split: option.split)

lemma set_access_vlan: "access_vlan (port_of (set_access d n w s) d n) = w"
  by (simp add: set_access_def add_member_def create_vlan_def set_db_def set_port_def port_of_def dget_or_def
      split: option.split)

text \<open>A port that moves from one access VLAN to another is still listed as a member of the first.\<close>

theorem moved_port_stays_listed:
  assumes "v \<noteq> w"
  shows "map_option (\<lambda>i. n \<in> set (vi_ports i)) (dget (vl_db (set_access d n w (set_access d n v s)) d) v) = Some True \<and>
    map_option (\<lambda>i. n \<in> set (vi_ports i)) (dget (vl_db (set_access d n w (set_access d n v s)) d) w) = Some True \<and>
    access_vlan (port_of (set_access d n w (set_access d n v s)) d n) = w"
  using set_access_lists [of d n v s] set_access_lists [of d n w "set_access d n v s"] assms
  by (auto simp: set_access_others set_access_vlan)

theorem moved_port_stays_listed_witness:
  "map_option (\<lambda>i. ''p'' \<in> set (vi_ports i)) (dget (vl_db (set_access ''s'' ''p'' 20 (set_access ''s'' ''p'' 10 vlan_init)) ''s'') 10) = Some True"
  using moved_port_stays_listed [of 10 20 "''p''" "''s''" vlan_init] by simp

subsection \<open>Printed rows\<close>

text \<open>The rows joined again by a comma and a space.\<close>

fun join_ports :: "string list \<Rightarrow> string" where
  "join_ports [] = []"
| "join_ports [x] = x"
| "join_ports (x # y # ys) = x @ '', '' @ join_ports (y # ys)"

lemma join_ports_Cons: "ys \<noteq> [] \<Longrightarrow> join_ports (x # ys) = x @ '', '' @ join_ports ys"
  by (cases ys) simp_all

lemma join_ports_merge: "join_ports (rows @ (x @ '', '' @ y) # zs) = join_ports (rows @ x # y # zs)"
proof (induction rows)
  case Nil
  then show ?case by (cases zs) simp_all
next
  case (Cons r rows)
  then show ?case by (simp add: join_ports_Cons)
qed

lemma wrap_fold_join:
  assumes "[] \<notin> set ports" "cur \<noteq> []" "fold (wrap_port width) ports (rows, cur) = (rows', cur')"
  shows "join_ports (rows' @ [cur']) = join_ports ((rows @ [cur]) @ ports) \<and> cur' \<noteq> []"
  using assms
proof (induction ports arbitrary: rows cur)
  case (Cons p ps)
  show ?case
  proof (cases "length (cur @ '', '' @ p) > width")
    case True
    then have "wrap_port width p (rows, cur) = (rows @ [cur], p)" using Cons.prems by (simp add: wrap_port_def)
    with Cons.prems have "fold (wrap_port width) ps (rows @ [cur], p) = (rows', cur')" "p \<noteq> []" by auto
    with Cons.IH [of p "rows @ [cur]"] Cons.prems show ?thesis by simp
  next
    case False
    then have "wrap_port width p (rows, cur) = (rows, cur @ '', '' @ p)" using Cons.prems by (simp add: wrap_port_def)
    with Cons.prems have run: "fold (wrap_port width) ps (rows, cur @ '', '' @ p) = (rows', cur')" by simp
    have "join_ports ((rows @ [cur @ '', '' @ p]) @ ps) = join_ports ((rows @ [cur]) @ p # ps)"
      using join_ports_merge [of rows cur p ps] by simp
    with Cons.IH [OF _ _ run] Cons.prems show ?thesis by simp
  qed
qed simp

lemma wrap_fold_width:
  assumes "\<forall>r\<in>set rows. length r \<le> width \<or> r \<in> set all" "length cur \<le> width \<or> cur \<in> set all \<or> cur = []"
    "set ports \<subseteq> set all" "fold (wrap_port width) ports (rows, cur) = (rows', cur')"
  shows "\<forall>r\<in>set (rows' @ [cur']). length r \<le> width \<or> r \<in> set all"
  using assms
proof (induction ports arbitrary: rows cur)
  case (Cons p ps)
  define cand where "cand = (if cur = [] then p else cur @ '', '' @ p)"
  define r1 where "r1 = (if length cand > width \<and> cur \<noteq> [] then rows @ [cur] else rows)"
  define c1 where "c1 = (if length cand > width \<and> cur \<noteq> [] then p else cand)"
  note rc = r1_def c1_def
  have st: "wrap_port width p (rows, cur) = (r1, c1)"
    by (cases "cur = []") (simp_all add: wrap_port_def cand_def r1_def c1_def)
  have "(\<forall>r\<in>set r1. length r \<le> width \<or> r \<in> set all) \<and> (length c1 \<le> width \<or> c1 \<in> set all \<or> c1 = [])"
  proof (cases "length cand > width \<and> cur \<noteq> []")
    case True
    then have "r1 = rows @ [cur]" "c1 = p" by (simp_all only: rc if_True simp_thms)
    then show ?thesis using Cons.prems(1-3) True by simp
  next
    case False
    then have "length cand \<le> width \<or> cur = []" by linarith
    then have "length cand \<le> width \<or> cand = p" by (elim disjE) (simp_all add: cand_def)
    moreover have "r1 = rows" "c1 = cand" using False by (simp_all only: rc if_False)
    ultimately show ?thesis using Cons.prems(1,3) by (elim disjE) simp_all
  qed
  moreover have "fold (wrap_port width) ps (r1, c1) = (rows', cur')" using Cons.prems(4) st by simp
  ultimately show ?case using Cons.IH [of r1 c1] Cons.prems(3) by simp
qed (elim disjE; simp)

text \<open>The rows of a port list, put together again, are the ports in their order, and a row is
  wider than the column only where a single port is.\<close>

theorem wrapped_rows_lose_nothing:
  assumes "ports \<noteq> []" "[] \<notin> set ports"
  shows "join_ports (wrap_rows width ports) = join_ports ports \<and>
    (\<forall>r\<in>set (wrap_rows width ports). length r \<le> width \<or> r \<in> set ports)"
proof -
  obtain p ps where ports: "ports = p # ps" using assms(1) by (cases ports) auto
  obtain rows cur where run: "fold (wrap_port width) ps ([], p) = (rows, cur)" by fastforce
  have "wrap_port width p ([], []) = ([], p)" by (simp add: wrap_port_def)
  then have rows: "wrap_rows width ports = rows @ [cur]" by (simp add: wrap_rows_def ports run)
  have "join_ports (rows @ [cur]) = join_ports ports"
    using wrap_fold_join [OF _ _ run] assms(2) by (auto simp: ports)
  moreover have "\<forall>r\<in>set (rows @ [cur]). length r \<le> width \<or> r \<in> set ports"
    using wrap_fold_width [of "[]" width ports p ps rows cur] run by (auto simp: ports)
  ultimately show ?thesis by (simp add: rows)
qed

theorem wrapped_rows_lose_nothing_witness:
  "join_ports (wrap_rows 8 [''Gi1'', ''Gi2'', ''Gi3'']) = ''Gi1, Gi2, Gi3''"
  using wrapped_rows_lose_nothing [of "[''Gi1'', ''Gi2'', ''Gi3'']" 8] by simp

end
