(* ===== verification/Track.thy ===== *)
theory Track
  imports VNet PyStep
begin

text \<open>
  Enhanced object tracking, \<open>class TrackEngine\<close>: objects that follow an interface, a route or a boolean
  combination of other objects, and their evaluation. What the evaluation asks of the rest of the
  emulator are arguments: the interfaces of the device's session, if it has one, and the destinations of
  \<open>rib_engine.get_best_routes\<close>, which may raise.
\<close>

datatype tracked =
    TrackInterface iface string
  | TrackRoute ip int
  | TrackList string "int list"

record track_obj =
  to_what :: tracked
  to_up :: bool
  to_delay_up :: int
  to_delay_down :: int

type_synonym track_objs = "(int, track_obj) dict"
type_synonym tracks = "dev \<Rightarrow> track_objs"

definition track_init :: tracks where
  "track_init = (\<lambda>_. [])"

definition new_obj :: "tracked \<Rightarrow> bool \<Rightarrow> track_obj" where
  "new_obj w up = \<lparr>to_what = w, to_up = up, to_delay_up = 0, to_delay_down = 0\<rparr>"

definition add_interface_object :: "dev \<Rightarrow> int \<Rightarrow> iface \<Rightarrow> string \<Rightarrow> tracks \<Rightarrow> tracks" where
  "add_interface_object d n i kind s = s(d := dset (s d) n (new_obj (TrackInterface i kind) True))"

definition add_route_object :: "dev \<Rightarrow> int \<Rightarrow> ip \<Rightarrow> int \<Rightarrow> tracks \<Rightarrow> tracks" where
  "add_route_object d n net p s = s(d := dset (s d) n (new_obj (TrackRoute net p) False))"

definition add_list_object :: "dev \<Rightarrow> int \<Rightarrow> string \<Rightarrow> tracks \<Rightarrow> tracks" where
  "add_list_object d n opr s = s(d := dset (s d) n (new_obj (TrackList opr []) False))"

definition remove_object :: "dev \<Rightarrow> int \<Rightarrow> tracks \<Rightarrow> tracks" where
  "remove_object d n s = s(d := dpop (s d) n)"

definition track_get :: "dev \<Rightarrow> int \<Rightarrow> tracks \<Rightarrow> track_obj option" where
  "track_get d n s = dget (s d) n"

subsection \<open>Evaluation\<close>

record sess_iface =
  si_status :: string
  si_ip :: "ip option"

definition down_words :: "string list" where
  "down_words = [''down'', ''administratively down'', ''notconnect'', ''disabled'']"

definition interface_up_now ::
  "vnet \<Rightarrow> (iface, sess_iface) dict option \<Rightarrow> dev \<Rightarrow> iface \<Rightarrow> string \<Rightarrow> bool" where
  "interface_up_now v sess d i kind \<longleftrightarrow>
     \<not> (if is_down v d i then True
        else case sess of
               None \<Rightarrow> False
             | Some ifs \<Rightarrow>
                 (case dget ifs i of
                    None \<Rightarrow> True
                  | Some info \<Rightarrow> si_status info \<in> set down_words \<or>
                                 (kind = ''ip routing'' \<and> \<not> truthy (si_ip info))))"

definition set_up :: "int \<Rightarrow> bool \<Rightarrow> track_objs \<Rightarrow> track_objs" where
  "set_up n b os = (case dget os n of None \<Rightarrow> os | Some ob \<Rightarrow> dset os n (ob\<lparr>to_up := b\<rparr>))"

text \<open>First the interfaces and routes, in the order of the dictionary. The routing table is asked for
  once, by the first route object.\<close>

definition eval_leaf ::
  "vnet \<Rightarrow> (iface, sess_iface) dict option \<Rightarrow> (ip \<times> int) list res \<Rightarrow> dev \<Rightarrow> int \<times> track_obj \<Rightarrow> track_objs step" where
  "eval_leaf v sess routes d =
     (\<lambda>(n, ob). case to_what ob of
        TrackInterface i kind \<Rightarrow> quietly (set_up n (interface_up_now v sess d i kind))
      | TrackRoute net p \<Rightarrow> raising routes (\<lambda>rs. set_up n ((net, p) \<in> set rs))
      | TrackList _ _ \<Rightarrow> quietly (\<lambda>os. os))"

text \<open>Then the lists, each from the states the members have by then; a member that does not exist is
  skipped.\<close>

definition list_value :: "track_objs \<Rightarrow> string \<Rightarrow> int list \<Rightarrow> bool" where
  "list_value os opr ms =
     (let states = List.map to_up (List.map_filter (dget os) ms)
      in if states = [] then False
         else if opr = ''and'' then list_all (\<lambda>b. b) states
         else list_ex (\<lambda>b. b) states)"

definition eval_list :: "int \<Rightarrow> track_objs \<Rightarrow> track_objs" where
  "eval_list n os =
     (case dget os n of
        None \<Rightarrow> os
      | Some ob \<Rightarrow> (case to_what ob of
                    TrackList opr ms \<Rightarrow> set_up n (list_value os opr ms) os
                  | _ \<Rightarrow> os))"

definition eval_lists :: "track_objs \<Rightarrow> track_objs" where
  "eval_lists os = fold eval_list (dkeys os) os"

definition refresh_objs ::
  "vnet \<Rightarrow> (iface, sess_iface) dict option \<Rightarrow> (ip \<times> int) list res \<Rightarrow> dev \<Rightarrow> track_objs step" where
  "refresh_objs v sess routes d os =
     and_then (for_each (eval_leaf v sess routes d) os) (quietly eval_lists) os"

definition refresh ::
  "vnet \<Rightarrow> (iface, sess_iface) dict option \<Rightarrow> (ip \<times> int) list res \<Rightarrow> dev \<Rightarrow> tracks step" where
  "refresh v sess routes d s =
     (if s d = [] then (s, None)
      else case refresh_objs v sess routes d (s d) of (os, e) \<Rightarrow> (s(d := os), e))"

text \<open>\<open>object <n>\<close> under a list: the member is added once, and everything is evaluated again.\<close>

definition add_member_object ::
  "vnet \<Rightarrow> (iface, sess_iface) dict option \<Rightarrow> (ip \<times> int) list res \<Rightarrow> dev \<Rightarrow> int \<Rightarrow> int \<Rightarrow> tracks step" where
  "add_member_object v sess routes d n child s =
     (case track_get d n s of
        Some ob \<Rightarrow>
          (case to_what ob of
             TrackList opr ms \<Rightarrow>
               refresh v sess routes d (s(d := dset (s d) n (ob\<lparr>to_what := TrackList opr (sadd ms child)\<rparr>)))
           | _ \<Rightarrow> (s, None))
      | None \<Rightarrow> (s, None))"

subsection \<open>What an evaluation establishes\<close>

text \<open>The reference: every object's state is the value of what it tracks, the members of a list taken
  at their present states.\<close>

definition leaf_value ::
  "vnet \<Rightarrow> (iface, sess_iface) dict option \<Rightarrow> (ip \<times> int) list \<Rightarrow> dev \<Rightarrow> track_objs \<Rightarrow> tracked \<Rightarrow> bool" where
  "leaf_value v sess rs d os w =
     (case w of
        TrackInterface i kind \<Rightarrow> interface_up_now v sess d i kind
      | TrackRoute net p \<Rightarrow> (net, p) \<in> set rs
      | TrackList opr ms \<Rightarrow> list_value os opr ms)"

definition is_list :: "track_objs \<Rightarrow> int \<Rightarrow> bool" where
  "is_list os n \<longleftrightarrow> (case dget os n of Some ob \<Rightarrow> (case to_what ob of TrackList _ _ \<Rightarrow> True | _ \<Rightarrow> False) | None \<Rightarrow> False)"

definition members :: "track_objs \<Rightarrow> int \<Rightarrow> int list" where
  "members os n = (case dget os n of Some ob \<Rightarrow> (case to_what ob of TrackList _ ms \<Rightarrow> ms | _ \<Rightarrow> []) | None \<Rightarrow> [])"

text \<open>A list refers only to interfaces, routes and lists that stand before it.\<close>

fun refs_back :: "track_objs \<Rightarrow> int list \<Rightarrow> bool" where
  "refs_back os [] = True"
| "refs_back os (k # ks) =
     ((\<forall>m\<in>set (members os k). m \<notin> set (k # ks) \<or> \<not> is_list os m) \<and> refs_back os ks)"

definition same_shape :: "track_objs \<Rightarrow> track_objs \<Rightarrow> bool" where
  "same_shape os os' \<longleftrightarrow> (\<forall>n. map_option to_what (dget os' n) = map_option to_what (dget os n)) \<and> dkeys os' = dkeys os"

lemma same_shape_refl [simp]: "same_shape os os"
  by (simp add: same_shape_def)

lemma same_shape_trans: "same_shape a b \<Longrightarrow> same_shape b c \<Longrightarrow> same_shape a c"
  by (simp add: same_shape_def)

lemma set_up_shape: "same_shape os (set_up n b os)"
  by (auto simp: same_shape_def set_up_def dkeys_dset_there split: option.split)

lemma dget_set_up: "dget (set_up n b os) m =
    (if m = n then map_option (\<lambda>ob. ob\<lparr>to_up := b\<rparr>) (dget os n) else dget os m)"
  by (simp add: set_up_def split: option.split)

lemma eval_list_shape: "same_shape os (eval_list n os)"
  by (auto simp: eval_list_def set_up_shape split: option.split tracked.split)

lemma fold_eval_list_shape: "same_shape os (fold eval_list ks os)"
  by (induction ks arbitrary: os) (auto intro: same_shape_trans [OF eval_list_shape])

lemma is_list_shape: "same_shape os os' \<Longrightarrow> is_list os' n = is_list os n"
  by (auto simp: is_list_def same_shape_def split: option.splits dest!: spec [of _ n])

lemma members_shape: "same_shape os os' \<Longrightarrow> members os' n = members os n"
  by (auto simp: members_def same_shape_def split: option.splits dest!: spec [of _ n])

lemma refs_back_shape: "same_shape os os' \<Longrightarrow> refs_back os' ks = refs_back os ks"
  by (induction ks) (simp_all add: is_list_shape members_shape)

lemma dget_eval_list_other: "m \<noteq> n \<or> \<not> is_list os m \<Longrightarrow> dget (eval_list n os) m = dget os m"
  by (auto simp: eval_list_def dget_set_up is_list_def split: option.split tracked.split)

lemma fold_eval_list_other:
  "m \<notin> set ks \<or> \<not> is_list os m \<Longrightarrow> dget (fold eval_list ks os) m = dget os m"
proof (induction ks arbitrary: os)
  case (Cons k ks)
  then show ?case
    using dget_eval_list_other [of m k os] is_list_shape [OF eval_list_shape, of k os m]
    by (cases "m = k") auto
qed simp

lemma list_value_cong: "(\<And>m. m \<in> set ms \<Longrightarrow> dget os' m = dget os m) \<Longrightarrow> list_value os' opr ms = list_value os opr ms"
proof -
  assume "\<And>m. m \<in> set ms \<Longrightarrow> dget os' m = dget os m"
  then have "List.map_filter (dget os') ms = List.map_filter (dget os) ms"
    by (induction ms) (simp_all add: List.map_filter_simps split: option.split)
  then show ?thesis by (simp add: list_value_def)
qed

lemma fold_eval_list_value:
  assumes "distinct ks" "refs_back os ks" "k \<in> set ks" "dget os k = Some ob" "to_what ob = TrackList opr ms"
  shows "\<exists>ob'. dget (fold eval_list ks os) k = Some ob' \<and> to_what ob' = to_what ob \<and>
    to_up ob' = list_value (fold eval_list ks os) opr ms"
  using assms
proof (induction ks arbitrary: os ob)
  case (Cons j ks)
  let ?os = "eval_list j os"
  show ?case
  proof (cases "k = j")
    case True
    with Cons.prems have new: "dget ?os k = Some (ob\<lparr>to_up := list_value os opr ms\<rparr>)"
      by (simp add: eval_list_def dget_set_up)
    have "dget (fold eval_list ks ?os) m = dget os m" if "m \<in> set ms" for m
    proof -
      have "members os k = ms" using Cons.prems(4,5) by (simp add: members_def)
      with Cons.prems(2) that True have "m \<notin> set (j # ks) \<or> \<not> is_list os m" by simp
      then show ?thesis
        using fold_eval_list_other [of m ks ?os] dget_eval_list_other [of m j os]
          is_list_shape [OF eval_list_shape, of j os m] by (cases "m = j") auto
    qed
    then have "list_value (fold eval_list ks ?os) opr ms = list_value os opr ms" by (rule list_value_cong)
    moreover have "dget (fold eval_list ks ?os) k = dget ?os k"
      using Cons.prems(1) True by (intro fold_eval_list_other) auto
    ultimately show ?thesis using new by simp
  next
    case False
    then have "dget ?os k = Some ob" using Cons.prems(4) by (simp add: dget_eval_list_other)
    moreover have "refs_back ?os ks" using Cons.prems(2) refs_back_shape [OF eval_list_shape] by simp
    ultimately show ?thesis using Cons.IH [of ?os ob] Cons.prems(1,3,5) False by simp
  qed
qed simp

text \<open>The first pass.\<close>

lemma eval_leaf_ok:
  assumes "dget os n = Some ob" "to_what ob = w"
  shows "eval_leaf v sess (Inr rs) d (n, ob) os =
    (case w of TrackList _ _ \<Rightarrow> os | _ \<Rightarrow> set_up n (leaf_value v sess rs d os w) os, None)"
  using assms by (simp add: eval_leaf_def quietly_def raising_def leaf_value_def split: tracked.split)

lemma for_each_leaf:
  assumes "dict_ok items" "\<And>n ob. (n, ob) \<in> set items \<Longrightarrow> dget os n = Some ob"
  obtains os' where "for_each (eval_leaf v sess (Inr rs) d) items os = (os', None)" "same_shape os os'"
    "\<And>n ob. (n, ob) \<in> set items \<Longrightarrow> \<not> is_list os n \<Longrightarrow>
      dget os' n = Some (ob\<lparr>to_up := leaf_value v sess rs d os (to_what ob)\<rparr>)"
    "\<And>n. n \<notin> fst ` set items \<Longrightarrow> dget os' n = dget os n"
proof -
  have "\<exists>os'. for_each (eval_leaf v sess (Inr rs) d) items os = (os', None) \<and> same_shape os os' \<and>
    (\<forall>(n, ob)\<in>set items. \<not> is_list os n \<longrightarrow> dget os' n = Some (ob\<lparr>to_up := leaf_value v sess rs d [] (to_what ob)\<rparr>)) \<and>
    (\<forall>n. n \<notin> fst ` set items \<longrightarrow> dget os' n = dget os n)"
    using assms
  proof (induction items arbitrary: os)
    case Nil
    then show ?case by simp
  next
    case (Cons x items)
    obtain n ob where x: "x = (n, ob)" by fastforce
    have n: "dget os n = Some ob" using Cons.prems(2) x by simp
    define os1 where "os1 = fst (eval_leaf v sess (Inr rs) d (n, ob) os)"
    have step: "eval_leaf v sess (Inr rs) d (n, ob) os = (os1, None)"
      by (simp add: os1_def eval_leaf_ok [OF n refl])
    have shape: "same_shape os os1"
      by (auto simp: os1_def eval_leaf_ok [OF n refl] set_up_shape split: tracked.split)
    have other: "dget os1 m = dget os m" if "m \<noteq> n" for m
      using that by (auto simp: os1_def eval_leaf_ok [OF n refl] dget_set_up split: tracked.split)
    have new: "dget os1 n = Some (ob\<lparr>to_up := leaf_value v sess rs d [] (to_what ob)\<rparr>)" if "\<not> is_list os n"
      using that n by (auto simp: os1_def eval_leaf_ok [OF n refl] dget_set_up is_list_def leaf_value_def split: tracked.splits)
    have "dict_ok items" "n \<notin> fst ` set items" using Cons.prems(1) x by (auto simp: dict_ok_def)
    moreover have "dget os1 m = Some oc" if "(m, oc) \<in> set items" for m oc
      using that Cons.prems(2) [of m oc] other [of m] \<open>n \<notin> fst ` set items\<close> by (force simp: x)
    ultimately obtain os' where os': "for_each (eval_leaf v sess (Inr rs) d) items os1 = (os', None)" "same_shape os1 os'"
      "\<forall>(m, oc)\<in>set items. \<not> is_list os1 m \<longrightarrow> dget os' m = Some (oc\<lparr>to_up := leaf_value v sess rs d [] (to_what oc)\<rparr>)"
      "\<forall>m. m \<notin> fst ` set items \<longrightarrow> dget os' m = dget os1 m"
      using Cons.IH by blast
    have "for_each (eval_leaf v sess (Inr rs) d) (x # items) os = (os', None)"
      by (simp add: x and_then_def step os'(1))
    moreover have "same_shape os os'" by (rule same_shape_trans [OF shape os'(2)])
    moreover have "\<forall>(m, oc)\<in>set (x # items). \<not> is_list os m \<longrightarrow> dget os' m = Some (oc\<lparr>to_up := leaf_value v sess rs d [] (to_what oc)\<rparr>)"
      using os'(3,4) new is_list_shape [OF shape] \<open>n \<notin> fst ` set items\<close> by (auto simp: x)
    moreover have "\<forall>m. m \<notin> fst ` set (x # items) \<longrightarrow> dget os' m = dget os m" using os'(4) other by (simp add: x)
    ultimately show ?case by blast
  qed
  then obtain os' where os': "for_each (eval_leaf v sess (Inr rs) d) items os = (os', None)" "same_shape os os'"
    "\<forall>(n, ob)\<in>set items. \<not> is_list os n \<longrightarrow> dget os' n = Some (ob\<lparr>to_up := leaf_value v sess rs d [] (to_what ob)\<rparr>)"
    "\<forall>n. n \<notin> fst ` set items \<longrightarrow> dget os' n = dget os n" by blast
  have leaf: "leaf_value v sess rs d [] (to_what ob) = leaf_value v sess rs d os (to_what ob)"
    if "(n, ob) \<in> set items" "\<not> is_list os n" for n ob
    using assms(2) [OF that(1)] that(2) by (auto simp: is_list_def leaf_value_def split: tracked.splits)
  show thesis by (rule that [OF os'(1,2)]) (use os'(3,4) leaf in auto)
qed

text \<open>When the routing table can be computed and lists refer only to objects before them, one
  evaluation gives every object the value of what it tracks.\<close>

theorem track_refresh_consistent:
  assumes "dict_ok (s d)" "refs_back (s d) (dkeys (s d))" "dget (s d) n = Some ob"
  shows "case refresh v sess (Inr rs) d s of (s', e) \<Rightarrow> e = None \<and>
    map_option (\<lambda>ob'. to_what ob' = to_what ob \<and> to_up ob' = leaf_value v sess rs d (s' d) (to_what ob)) (dget (s' d) n) = Some True"
proof -
  obtain os where os: "for_each (eval_leaf v sess (Inr rs) d) (s d) (s d) = (os, None)" "same_shape (s d) os"
    "\<And>n ob. (n, ob) \<in> set (s d) \<Longrightarrow> \<not> is_list (s d) n \<Longrightarrow>
      dget os n = Some (ob\<lparr>to_up := leaf_value v sess rs d (s d) (to_what ob)\<rparr>)"
    using for_each_leaf [OF assms(1), of "s d" v sess rs d] dget_in_set [OF assms(1)] by metis
  have keys: "dkeys os = dkeys (s d)" using os(2) by (simp add: same_shape_def)
  have ne: "s d \<noteq> []" using assms(3) by auto
  let ?fin = "eval_lists os"
  have run: "refresh v sess (Inr rs) d s = (s(d := ?fin), None)"
    using ne os(1) by (simp add: refresh_def refresh_objs_def and_then_def quietly_def)
  have "\<exists>ob'. dget ?fin n = Some ob' \<and> to_what ob' = to_what ob \<and> to_up ob' = leaf_value v sess rs d ?fin (to_what ob)"
  proof (cases "is_list (s d) n")
    case True
    with assms(3) obtain opr ms where w: "to_what ob = TrackList opr ms"
      by (auto simp: is_list_def split: tracked.splits)
    from os(2) assms(3) obtain ob1 where ob1: "dget os n = Some ob1" "to_what ob1 = to_what ob"
      by (auto simp: same_shape_def dest!: spec [of _ n])
    have "distinct (dkeys os)" using assms(1) keys by (simp add: dict_ok_def dkeys_def)
    moreover have "refs_back os (dkeys os)" using assms(2) keys refs_back_shape [OF os(2)] by simp
    moreover have "n \<in> set (dkeys os)" using ob1(1) by (simp add: dkeys_iff)
    ultimately show ?thesis
      using fold_eval_list_value [of "dkeys os" os n ob1 opr ms] ob1 w
      by (auto simp: eval_lists_def leaf_value_def)
  next
    case False
    then have "dget ?fin n = dget os n"
      unfolding eval_lists_def using is_list_shape [OF os(2)] by (intro fold_eval_list_other) auto
    moreover have "dget os n = Some (ob\<lparr>to_up := leaf_value v sess rs d (s d) (to_what ob)\<rparr>)"
      using os(3) False assms(3) by (auto dest: dget_SomeD)
    moreover have "leaf_value v sess rs d (s d) (to_what ob) = leaf_value v sess rs d ?fin (to_what ob)"
      using False assms(3) by (auto simp: is_list_def leaf_value_def split: tracked.splits)
    ultimately show ?thesis by simp
  qed
  then show ?thesis by (auto simp: run)
qed


definition track_example :: tracks where
  "track_example = (\<lambda>d. [(1, new_obj (TrackRoute ''10.0.0.0'' 8) False), (2, new_obj (TrackInterface ''Gi1'' ''line-protocol'') False),
     (3, new_obj (TrackList ''and'' [1, 2]) False), (4, new_obj (TrackList ''or'' [3, 9]) False)])"

theorem track_refresh_consistent_witness:
  "(case refresh vnet_init None (Inr [(''10.0.0.0'', 8)]) ''r'' track_example of (s', e) \<Rightarrow> e = None \<and>
    map_option (\<lambda>ob'. to_what ob' = TrackList ''or'' [3, 9] \<and>
        to_up ob' = leaf_value vnet_init None [(''10.0.0.0'', 8)] ''r'' (s' ''r'') (TrackList ''or'' [3, 9])) (dget (s' ''r'') 4) = Some True)"
proof -
  have "dict_ok (track_example ''r'')" "refs_back (track_example ''r'') (dkeys (track_example ''r''))"
    "dget (track_example ''r'') 4 = Some (new_obj (TrackList ''or'' [3, 9]) False)"
    by (simp_all add: track_example_def dict_ok_def dkeys_def members_def is_list_def new_obj_def)
  from track_refresh_consistent [where s = track_example and d = "''r''", OF this, of vnet_init None "[(''10.0.0.0'', 8)]"]
  show ?thesis
    by (simp add: new_obj_def)
qed

definition forward_example :: tracks where
  "forward_example = (\<lambda>d. [(1, new_obj (TrackList ''or'' [2]) False), (2, new_obj (TrackList ''or'' [3]) False),
     (3, new_obj (TrackInterface ''Gi1'' ''line-protocol'') False)])"

definition ups :: "track_objs \<Rightarrow> (int \<times> bool) list" where
  "ups os = List.map (\<lambda>(n, ob). (n, to_up ob)) os"

text \<open>A list that refers to a list standing after it is evaluated from that list's old state: the
  interface is up, the inner list becomes up, and the outer one stays down until the next evaluation.\<close>

theorem forward_list_is_late:
  "ups (fst (refresh vnet_init None (Inr []) ''r'' forward_example) ''r'') = [(1, False), (2, True), (3, True)] \<and>
   ups (fst (refresh vnet_init None (Inr []) ''r'' (fst (refresh vnet_init None (Inr []) ''r'' forward_example))) ''r'') =
     [(1, True), (2, True), (3, True)]"
  by code_simp

end
