(* ===== verification/Glbp.thy ===== *)
theory Glbp
  imports VNet "HOL-Library.List_Lexorder" "HOL-Library.Char_ord" "HOL-Library.Multiset"
begin

text \<open>
  The Gateway Load Balancing Protocol, \<open>class GlbpEngine\<close>: the groups of each device, the election of the
  active gateway and the numbering of the forwarders. The addresses of the devices' sessions are an
  argument; without sessions every address is the empty string. Addresses are compared as text, in the
  order of the list order on characters.
\<close>

record forwarder =
  fw_owner :: dev
  fw_state :: string
  fw_vmac :: string

record glbp_group =
  gg_vip :: string
  gg_priority :: int
  gg_preempt :: bool
  gg_state :: string
  gg_interface :: iface
  gg_hello :: int
  gg_hold :: int
  gg_balancing :: string
  gg_weighting :: int
  gg_peer_id :: dev
  gg_peer_ip :: string
  gg_peer_priority :: int
  gg_forwarders :: "(nat \<times> forwarder) list"

definition new_group :: glbp_group where
  "new_group = \<lparr>gg_vip = [], gg_priority = 100, gg_preempt = False, gg_state = ''Init'', gg_interface = [],
     gg_hello = 3, gg_hold = 10, gg_balancing = ''round-robin'', gg_weighting = 100, gg_peer_id = [],
     gg_peer_ip = [], gg_peer_priority = 0, gg_forwarders = []\<rparr>"

type_synonym glbp = "dev \<Rightarrow> (int, glbp_group) dict"
type_synonym glbp_sessions = "(dev, (iface, ip option) dict) dict option"

definition glbp_init :: glbp where
  "glbp_init = (\<lambda>_. [])"

definition upd_group :: "dev \<Rightarrow> int \<Rightarrow> (glbp_group \<Rightarrow> glbp_group) \<Rightarrow> glbp \<Rightarrow> glbp" where
  "upd_group d n f s = s(d := dset (s d) n (f (dget_or (s d) n new_group)))"

definition virtual_mac :: "int \<Rightarrow> nat \<Rightarrow> string" where
  "virtual_mac n i = ''0007.b400.'' @ hex02 (nat n) @ hex02 i"

definition glbp_set_ip :: "dev \<Rightarrow> int \<Rightarrow> string \<Rightarrow> iface \<Rightarrow> glbp \<Rightarrow> glbp" where
  "glbp_set_ip d n vip i = upd_group d n (\<lambda>g.
     let g1 = g\<lparr>gg_vip := vip\<rparr> in if i = [] then g1 else g1\<lparr>gg_interface := i\<rparr>)"

definition glbp_set_priority :: "dev \<Rightarrow> int \<Rightarrow> int \<Rightarrow> glbp \<Rightarrow> glbp" where
  "glbp_set_priority d n p = upd_group d n (\<lambda>g. g\<lparr>gg_priority := p\<rparr>)"

definition glbp_set_preempt :: "dev \<Rightarrow> int \<Rightarrow> bool \<Rightarrow> glbp \<Rightarrow> glbp" where
  "glbp_set_preempt d n b = upd_group d n (\<lambda>g. g\<lparr>gg_preempt := b\<rparr>)"

definition glbp_set_weighting :: "dev \<Rightarrow> int \<Rightarrow> int \<Rightarrow> glbp \<Rightarrow> glbp" where
  "glbp_set_weighting d n w = upd_group d n (\<lambda>g. g\<lparr>gg_weighting := w\<rparr>)"

definition glbp_set_balancing :: "dev \<Rightarrow> int \<Rightarrow> string \<Rightarrow> glbp \<Rightarrow> glbp" where
  "glbp_set_balancing d n b = upd_group d n (\<lambda>g. g\<lparr>gg_balancing := b\<rparr>)"

definition glbp_set_timers :: "dev \<Rightarrow> int \<Rightarrow> int \<Rightarrow> int \<Rightarrow> glbp \<Rightarrow> glbp" where
  "glbp_set_timers d n hello hold = upd_group d n (\<lambda>g. g\<lparr>gg_hello := hello, gg_hold := hold\<rparr>)"

definition glbp_remove :: "dev \<Rightarrow> int \<Rightarrow> glbp \<Rightarrow> glbp" where
  "glbp_remove d n s = s(d := dpop (s d) n)"

subsection \<open>The election\<close>

definition group_peers :: "vnet \<Rightarrow> glbp \<Rightarrow> dev \<Rightarrow> int \<Rightarrow> (dev \<times> glbp_group) list" where
  "group_peers v s d n =
     List.map_filter (\<lambda>p. case dget (s p) n of
        Some g \<Rightarrow> if gg_vip g \<noteq> [] then Some (p, g) else None | None \<Rightarrow> None) (get_neighbors v d)"

definition first_address :: "(iface, ip option) dict \<Rightarrow> string" where
  "first_address ifs =
     (case find (\<lambda>a. truthy a \<and> a \<noteq> Some ''127.0.0.1'') (dvals ifs) of Some (Some a) \<Rightarrow> a | _ \<Rightarrow> [])"

definition glbp_iface_ip :: "glbp_sessions \<Rightarrow> dev \<Rightarrow> glbp_group \<Rightarrow> string" where
  "glbp_iface_ip sess d g =
     (case sess of
        None \<Rightarrow> []
      | Some ds \<Rightarrow>
          (case dget ds d of
             None \<Rightarrow> []
           | Some ifs \<Rightarrow>
               if gg_interface g \<noteq> []
               then (case dget ifs (gg_interface g) of Some (Some a) \<Rightarrow> a | _ \<Rightarrow> [])
               else first_address ifs))"

record contender =
  ct_dev :: dev
  ct_priority :: int
  ct_ip :: string

definition contender_of :: "glbp_sessions \<Rightarrow> dev \<times> glbp_group \<Rightarrow> contender" where
  "contender_of sess = (\<lambda>(d, g). \<lparr>ct_dev = d, ct_priority = gg_priority g, ct_ip = glbp_iface_ip sess d g\<rparr>)"

text \<open>The comparison of the pairs of priority and address.\<close>

definition beats :: "contender \<Rightarrow> contender \<Rightarrow> bool" where
  "beats a b \<longleftrightarrow> ct_priority b < ct_priority a \<or> (ct_priority a = ct_priority b \<and> ct_ip b < ct_ip a)"

definition best_contender :: "contender \<Rightarrow> contender list \<Rightarrow> contender" where
  "best_contender me cs = fold (\<lambda>c b. if beats c b then c else b) cs me"

definition avg_id :: "glbp_sessions \<Rightarrow> dev \<Rightarrow> glbp_group \<Rightarrow> (dev \<times> glbp_group) list \<Rightarrow> dev" where
  "avg_id sess d g peers =
     (let best = ct_dev (best_contender (contender_of sess (d, g)) (List.map (contender_of sess) peers));
          active = filter (\<lambda>(_, pg). gg_state pg = ''Active'') peers
      in case active of
           (a, _) # _ \<Rightarrow> if \<not> gg_preempt g \<and> best = d \<and> gg_state g \<noteq> ''Active'' then a else best
         | [] \<Rightarrow> best)"

definition assign_forwarders :: "dev \<Rightarrow> int \<Rightarrow> dev list \<Rightarrow> (nat \<times> forwarder) list" where
  "assign_forwarders d n ms =
     List.map (\<lambda>(i, x). (i, \<lparr>fw_owner = x, fw_state = (if x = d then ''Active'' else ''Listen''), fw_vmac = virtual_mac n i\<rparr>))
       (zip [1..<Suc (length ms)] ms)"

definition glbp_elect :: "glbp_sessions \<Rightarrow> vnet \<Rightarrow> dev \<Rightarrow> int \<Rightarrow> glbp \<Rightarrow> glbp" where
  "glbp_elect sess v d n s =
     (case dget (s d) n of
        None \<Rightarrow> s
      | Some g \<Rightarrow>
          if gg_vip g = [] then s
          else let peers = group_peers v s d n;
                   g1 = g\<lparr>gg_state := (if avg_id sess d g peers = d then ''Active'' else ''Standby'')\<rparr>;
                   g2 = (case peers of
                           [] \<Rightarrow> g1
                         | (p, pg) # _ \<Rightarrow> g1\<lparr>gg_peer_id := p, gg_peer_ip := glbp_iface_ip sess p pg,
                                             gg_peer_priority := gg_priority pg\<rparr>);
                   g3 = g2\<lparr>gg_forwarders := assign_forwarders d n (sort (d # List.map fst peers))\<rparr>
               in s(d := dset (s d) n g3))"

definition state_in :: "glbp \<Rightarrow> dev \<Rightarrow> int \<Rightarrow> string option" where
  "state_in s d n = map_option gg_state (dget (s d) n)"

subsection \<open>The election picks the best\<close>

lemma beats_trans: "beats a b \<Longrightarrow> beats b c \<Longrightarrow> beats a c"
  by (auto simp: beats_def)

lemma beats_irrefl [simp]: "\<not> beats a a"
  by (simp add: beats_def)

lemma not_beats_trans: "\<not> beats a b \<Longrightarrow> \<not> beats b c \<Longrightarrow> \<not> beats a c"
  by (auto simp: beats_def)

lemma best_mem: "best_contender me cs \<in> insert me (set cs)"
  unfolding best_contender_def by (induction cs arbitrary: me) auto

lemma best_max: "c \<in> insert me (set cs) \<Longrightarrow> \<not> beats c (best_contender me cs)"
proof -
  have me: "\<not> beats me (fold (\<lambda>c b. if beats c b then c else b) cs me)" for me cs
  proof (induction cs arbitrary: me)
    case (Cons c cs)
    show ?case
    proof (cases "beats c me")
      case True
      with Cons.IH [of c] show ?thesis using beats_trans by auto
    qed (use Cons.IH [of me] in simp)
  qed simp
  have "\<forall>c\<in>set cs. \<not> beats c (fold (\<lambda>c b. if beats c b then c else b) cs me)" for me cs
  proof (induction cs arbitrary: me)
    case (Cons c cs)
    show ?case
    proof (cases "beats c me")
      case True
      with Cons.IH [of c] me [of c cs] show ?thesis by simp
    next
      case False
      with Cons.IH [of me] me [of me cs] not_beats_trans [of c me] show ?thesis by simp
    qed
  qed simp
  with me show "c \<in> insert me (set cs) \<Longrightarrow> \<not> beats c (best_contender me cs)"
    unfolding best_contender_def by blast
qed

lemma best_self_iff:
  assumes "d \<notin> fst ` set peers"
  shows "ct_dev (best_contender (contender_of sess (d, g)) (List.map (contender_of sess) peers)) = d \<longleftrightarrow>
    (\<forall>p\<in>set peers. \<not> beats (contender_of sess p) (contender_of sess (d, g)))"
    (is "ct_dev ?b = d \<longleftrightarrow> _")
proof
  have mem: "?b \<in> insert (contender_of sess (d, g)) (contender_of sess ` set peers)"
    using best_mem [of "contender_of sess (d, g)" "List.map (contender_of sess) peers"] by simp
  have dev: "ct_dev (contender_of sess p) = fst p" for p by (simp add: contender_of_def split: prod.split)
  {
    assume "ct_dev ?b = d"
    then have "?b \<notin> contender_of sess ` set peers" using assms dev by force
    with mem have "?b = contender_of sess (d, g)" by blast
    then show "\<forall>p\<in>set peers. \<not> beats (contender_of sess p) (contender_of sess (d, g))"
      using best_max [of _ "contender_of sess (d, g)" "List.map (contender_of sess) peers"] by auto
  next
    assume none: "\<forall>p\<in>set peers. \<not> beats (contender_of sess p) (contender_of sess (d, g))"
    have "fold (\<lambda>c b. if beats c b then c else b) (List.map (contender_of sess) ps) (contender_of sess (d, g)) = contender_of sess (d, g)"
      if "set ps \<subseteq> set peers" for ps
      using that none by (induction ps) auto
    then have "?b = contender_of sess (d, g)" by (simp add: best_contender_def)
    then show "ct_dev ?b = d" by (simp add: dev)
  }
qed

lemma group_peers_linked: "(p, g) \<in> set (group_peers v s d n) \<Longrightarrow> p \<in> set (get_neighbors v d)"
proof -
  have "x \<in> set (List.map_filter f xs) \<Longrightarrow> \<exists>y\<in>set xs. f y = Some x" for x and f :: "dev \<Rightarrow> (dev \<times> glbp_group) option" and xs
    by (auto simp: List.map_filter_def)
  then show "(p, g) \<in> set (group_peers v s d n) \<Longrightarrow> p \<in> set (get_neighbors v d)"
    unfolding group_peers_def by (fastforce split: option.splits if_splits)
qed

lemma state_after_elect:
  assumes "dget (s d) n = Some g" "gg_vip g \<noteq> []"
  shows "state_in (glbp_elect sess v d n s) d n =
    Some (if avg_id sess d g (group_peers v s d n) = d then ''Active'' else ''Standby'')"
  using assms by (simp add: state_in_def glbp_elect_def Let_def split: list.split prod.split)

text \<open>A device with preemption, or that is active already, or that sees no active peer, becomes the
  active gateway exactly when no linked member of the group has a higher priority or, at the same
  priority, a greater address; otherwise it stands by.\<close>

theorem glbp_active_iff_best:
  assumes "dget (s d) n = Some g" "gg_vip g \<noteq> []" "d \<notin> set (get_neighbors v d)"
    and "gg_preempt g \<or> gg_state g = ''Active'' \<or> (\<forall>p\<in>set (group_peers v s d n). gg_state (snd p) \<noteq> ''Active'')"
  shows "state_in (glbp_elect sess v d n s) d n =
    Some (if \<forall>p\<in>set (group_peers v s d n). \<not> beats (contender_of sess p) (contender_of sess (d, g))
          then ''Active'' else ''Standby'')"
proof -
  let ?ps = "group_peers v s d n"
  have "d \<notin> fst ` set ?ps"
    using assms(3) group_peers_linked [of _ _ v s d n] by fastforce
  note best = best_self_iff [OF this, of sess g]
  have "avg_id sess d g ?ps = ct_dev (best_contender (contender_of sess (d, g)) (List.map (contender_of sess) ?ps))"
  proof (cases "gg_preempt g \<or> gg_state g = ''Active''")
    case True
    then show ?thesis by (auto simp: avg_id_def Let_def split: list.split prod.split)
  next
    case False
    with assms(4) have "filter (\<lambda>(_, pg). gg_state pg = ''Active'') ?ps = []"
      by (auto simp: filter_empty_conv)
    then show ?thesis by (simp add: avg_id_def)
  qed
  with best show ?thesis by (simp add: state_after_elect [where s = s and d = d, OF assms(1,2)])
qed

subsection \<open>Preemption\<close>

text \<open>Of two linked members of which the stronger has preemption off, the weaker gives up the active
  role at its own next election, and the stronger then takes it: the setting does not hold the weaker
  one active.\<close>

theorem glbp_preempt_setting_ignored:
  assumes ga: "dget (s a) n = Some g" "gg_vip g \<noteq> []" "gg_state g = ''Active''"
    and gb: "dget (s b) n = Some h" "gg_vip h \<noteq> []" "\<not> gg_preempt h" "gg_state h = ''Standby''"
    and link: "get_neighbors v a = [b]" "get_neighbors v b = [a]" "a \<noteq> b"
    and stronger: "gg_priority g < gg_priority h"
  shows "state_in (glbp_elect sess v a n s) a n = Some ''Standby'' \<and>
    state_in (glbp_elect sess v b n (glbp_elect sess v a n s)) b n = Some ''Active''"
proof
  have pa: "group_peers v s a n = [(b, h)]"
    using gb link by (simp add: group_peers_def List.map_filter_def)
  have "beats (contender_of sess (b, h)) (contender_of sess (a, g))"
    using stronger by (simp add: beats_def contender_of_def)
  then show one: "state_in (glbp_elect sess v a n s) a n = Some ''Standby''"
    using glbp_active_iff_best [where s = s and d = a, OF ga(1,2), where v = v] ga(3) link pa by simp
  let ?s = "glbp_elect sess v a n s"
  obtain g' where g': "dget (?s a) n = Some g'" "gg_vip g' = gg_vip g" "gg_priority g' = gg_priority g"
    using ga pa by (simp add: glbp_elect_def Let_def)
  with one have st: "gg_state g' = ''Standby''" by (simp add: state_in_def)
  have hb: "dget (?s b) n = Some h" using ga gb link by (simp add: glbp_elect_def Let_def)
  have pb: "group_peers v ?s b n = [(a, g')]"
    using g' ga(2) link by (simp add: group_peers_def List.map_filter_def)
  have "\<not> beats (contender_of sess (a, g')) (contender_of sess (b, h))"
    using stronger g'(3) by (simp add: beats_def contender_of_def)
  then show "state_in (glbp_elect sess v b n ?s) b n = Some ''Active''"
    using glbp_active_iff_best [where s = ?s and d = b, OF hb gb(2), where v = v] link pb st by simp
qed

subsection \<open>Forwarders\<close>

definition forwarder_owners :: "glbp \<Rightarrow> dev \<Rightarrow> int \<Rightarrow> (nat \<times> dev) list" where
  "forwarder_owners s d n =
     (case dget (s d) n of None \<Rightarrow> [] | Some g \<Rightarrow> List.map (\<lambda>(i, f). (i, fw_owner f)) (gg_forwarders g))"

lemma owners_assign: "List.map (\<lambda>(i, f). (i, fw_owner f)) (assign_forwarders d n ms) = zip [1..<Suc (length ms)] ms"
  by (simp add: assign_forwarders_def o_def case_prod_unfold)

lemma owners_after_elect:
  assumes "dget (s d) n = Some g" "gg_vip g \<noteq> []"
  shows "forwarder_owners (glbp_elect sess v d n s) d n =
    (let ms = sort (d # List.map fst (group_peers v s d n)) in zip [1..<Suc (length ms)] ms)"
  using assms by (simp add: forwarder_owners_def glbp_elect_def Let_def owners_assign del: upt_Suc split: list.split prod.split)

text \<open>Two members of a group that are linked to each other and to the same other members number the
  forwarders alike: they agree on the owner, and so on the virtual MAC address, of every number.\<close>

theorem glbp_forwarders_agree:
  assumes "dget (s a) n = Some g" "gg_vip g \<noteq> []" "dget (s b) n = Some h" "gg_vip h \<noteq> []"
    and "mset (a # List.map fst (group_peers v s a n)) = mset (b # List.map fst (group_peers v s b n))"
  shows "forwarder_owners (glbp_elect sess v a n s) a n = forwarder_owners (glbp_elect sess v b n s) b n"
proof -
  have "sort (a # List.map fst (group_peers v s a n)) = sort (b # List.map fst (group_peers v s b n))"
    using assms(5) by (metis properties_for_sort sorted_sort mset_sort)
  then show ?thesis by (simp only: owners_after_elect [where s = s and d = a, OF assms(1,2)]
      owners_after_elect [where s = s and d = b, OF assms(3,4)])
qed

subsection \<open>Witnesses\<close>

definition pair_net :: vnet where
  "pair_net = fst (add_link vnet_init ''r1'' ''r2'' None None)"

definition pair_groups :: glbp where
  "pair_groups = (upd_group ''r2'' 1 (\<lambda>g. g\<lparr>gg_vip := ''10.0.0.254'', gg_priority := 120, gg_state := ''Standby''\<rparr>)
     (upd_group ''r1'' 1 (\<lambda>g. g\<lparr>gg_vip := ''10.0.0.254'', gg_state := ''Active''\<rparr>) glbp_init))"

lemma pair_links: "get_neighbors pair_net ''r1'' = [''r2'']" "get_neighbors pair_net ''r2'' = [''r1'']"
  by code_simp+

lemma pair_group1: "dget (pair_groups ''r1'') 1 = Some (new_group\<lparr>gg_vip := ''10.0.0.254'', gg_state := ''Active''\<rparr>)"
  by (simp add: pair_groups_def upd_group_def glbp_init_def dget_or_def)

lemma pair_group2: "dget (pair_groups ''r2'') 1 = Some (new_group\<lparr>gg_vip := ''10.0.0.254'', gg_priority := 120, gg_state := ''Standby''\<rparr>)"
  by (simp add: pair_groups_def upd_group_def glbp_init_def dget_or_def)

lemma pair_peers:
  "group_peers pair_net pair_groups ''r1'' 1 = [(''r2'', new_group\<lparr>gg_vip := ''10.0.0.254'', gg_priority := 120, gg_state := ''Standby''\<rparr>)]"
  "group_peers pair_net pair_groups ''r2'' 1 = [(''r1'', new_group\<lparr>gg_vip := ''10.0.0.254'', gg_state := ''Active''\<rparr>)]"
  by (simp_all add: group_peers_def pair_links List.map_filter_def pair_group1 pair_group2)

theorem glbp_active_iff_best_witness:
  "state_in (glbp_elect None pair_net ''r1'' 1 pair_groups) ''r1'' 1 = Some ''Standby''"
  using glbp_active_iff_best [where s = pair_groups and d = "''r1''", OF pair_group1, of pair_net None]
  by (simp add: pair_links pair_peers beats_def contender_of_def new_group_def)

theorem glbp_preempt_setting_ignored_witness:
  "state_in (glbp_elect None pair_net ''r2'' 1 (glbp_elect None pair_net ''r1'' 1 pair_groups)) ''r2'' 1 = Some ''Active''"
  using glbp_preempt_setting_ignored [where s = pair_groups and a = "''r1''" and b = "''r2''",
      OF pair_group1 _ _ pair_group2, of pair_net None]
  by (simp add: pair_links new_group_def)

theorem glbp_forwarders_agree_witness:
  "forwarder_owners (glbp_elect None pair_net ''r1'' 1 pair_groups) ''r1'' 1 =
   forwarder_owners (glbp_elect None pair_net ''r2'' 1 pair_groups) ''r2'' 1 \<and>
   map fst (forwarder_owners (glbp_elect None pair_net ''r2'' 1 pair_groups) ''r2'' 1) = [1, 2]"
proof
  show "forwarder_owners (glbp_elect None pair_net ''r1'' 1 pair_groups) ''r1'' 1 =
    forwarder_owners (glbp_elect None pair_net ''r2'' 1 pair_groups) ''r2'' 1"
    by (rule glbp_forwarders_agree [where s = pair_groups and a = "''r1''" and b = "''r2''", OF pair_group1 _ pair_group2])
      (simp_all add: pair_peers new_group_def)
  show "map fst (forwarder_owners (glbp_elect None pair_net ''r2'' 1 pair_groups) ''r2'' 1) = [1, 2]"
    using owners_after_elect [where s = pair_groups and d = "''r2''", OF pair_group2, of None pair_net] by (simp add: pair_peers new_group_def upt_rec)
qed

end
