(* ===== verification/Redistribute.thy ===== *)
theory Redistribute
  imports Rip Ospf BgpSessions
begin

text \<open>
  \<open>redistribute\<close> of \<open>engine/protocols.py\<close>: the routes of one protocol (or the static or connected routes)
  of a device, filtered by prefix list, put into another protocol, which then sends an update. The function
  reads the engines of RIP, OSPF, BGP, the static routes and the address book, and changes the target.
\<close>

record routing =
  rs_rip :: rip
  rs_ospf :: ospf
  rs_bgp :: bgp

record redist_out =
  ro_rip :: "rip_out list"
  ro_hellos :: "(dev \<times> ospf_hello) list"
  ro_count :: nat

definition no_output :: redist_out where
  "no_output = \<lparr>ro_rip = [], ro_hellos = [], ro_count = 0\<rparr>"

subsection \<open>The routes of the source\<close>

definition connected_routes :: "ospf_env \<Rightarrow> dev \<Rightarrow> routing \<Rightarrow> (string \<times> int) list" where
  "connected_routes e d s =
     List.map (\<lambda>net. (net, 1))
       ((case dget (rs_rip s) d of None \<Rightarrow> [] | Some n \<Rightarrow> rn_networks n) @
        (case dget (ospf_nodes (rs_ospf s)) d of None \<Rightarrow> [] | Some n \<Rightarrow> on_networks n) @
        List.map (\<lambda>(a, p). net_addr a p) (ips_of (address_book (oe_l2 e)) d))"

definition static_source :: "dev \<Rightarrow> routing \<Rightarrow> (string \<times> int) list" where
  "static_source d s =
     (case static_rib (rs_bgp s) d of
        None \<Rightarrow> []
      | Some n \<Rightarrow> List.map (\<lambda>r. (dest_name (sr_network r) (sr_prefix r), 1)) (filter sr_active (static_routes n)))"

definition rip_source :: "dev \<Rightarrow> routing \<Rightarrow> (string \<times> int) list" where
  "rip_source d s =
     (case dget (rs_rip s) d of
        None \<Rightarrow> []
      | Some n \<Rightarrow>
          if rn_enabled n
          then List.map (\<lambda>r. (dest_name (rt_network r) (rt_prefix r), rt_metric r))
                 (filter (\<lambda>r. rt_from r \<noteq> ''direct'') (rn_table n))
          else [])"

definition ospf_source :: "dev \<Rightarrow> routing \<Rightarrow> (string \<times> int) list" where
  "ospf_source d s =
     (case dget (ospf_nodes (rs_ospf s)) d of
        None \<Rightarrow> []
      | Some n \<Rightarrow>
          if on_enabled n
          then List.map (\<lambda>r. (or_key r, OspfData.or_metric r)) (filter (\<lambda>r. OspfData.or_via r \<noteq> ''direct'') (on_routes n))
          else [])"

definition bgp_source :: "dev \<Rightarrow> routing \<Rightarrow> (string \<times> int) list" where
  "bgp_source d s =
     (case dget (nodes (rs_bgp s)) d of
        None \<Rightarrow> []
      | Some n \<Rightarrow>
          if bn_enabled n
          then List.map (\<lambda>r. (dest_name (br_prefix r) (br_len r), 1)) (bn_loc_rib n)
          else [])"

definition source_routes :: "ospf_env \<Rightarrow> dev \<Rightarrow> string \<Rightarrow> routing \<Rightarrow> (string \<times> int) list" where
  "source_routes e d source s =
     (if source = ''connected'' then connected_routes e d s
      else if source = ''static'' then static_source d s
      else if source = ''rip'' then rip_source d s
      else if source = ''ospf'' then ospf_source d s
      else if source = ''bgp'' then bgp_source d s
      else [])"

subsection \<open>The filter\<close>

text \<open>A name that is not an address and a length is dropped; a length that is no number raises.\<close>

fun permitted :: "filter_engine \<Rightarrow> dev \<Rightarrow> string \<Rightarrow> string \<Rightarrow> (string \<times> int) list \<Rightarrow> (string \<times> int) list res" where
  "permitted fe d target source [] = Inr []"
| "permitted fe d target source ((net, mt) # rs) =
     (case split_on (CHR ''/'') net of
        [a, p] \<Rightarrow>
          (case py_int p of
             None \<Rightarrow> Inl ValueError
           | Some n \<Rightarrow>
               res_bind (permitted fe d target source rs)
                 (\<lambda>out. Inr (if filter_redist fe d target source a n then (net, mt) # out else out)))
      | _ \<Rightarrow> permitted fe d target source rs)"

subsection \<open>Injection\<close>

definition inject_rip :: "int option \<Rightarrow> (string \<times> int) list \<Rightarrow> rip_proc \<Rightarrow> rip_proc" where
  "inject_rip metric rs n =
     n\<lparr>rn_redistributed := fold (\<lambda>(net, _) x. dset x net (Some (case metric of None \<Rightarrow> 1 | Some mt \<Rightarrow> mt))) rs (rn_redistributed n)\<rparr>"

definition inject_ospf :: "int option \<Rightarrow> string \<Rightarrow> (string \<times> int) list \<Rightarrow> ospf_node \<Rightarrow> ospf_node" where
  "inject_ospf metric source rs n =
     n\<lparr>on_redistributed := fold (\<lambda>(net, _) x. dset x net
         \<lparr>xr_metric = (case metric of None \<Rightarrow> 20 | Some mt \<Rightarrow> mt), xr_source = source\<rparr>) rs (on_redistributed n)\<rparr>"

fun inject_bgp :: "filter_engine \<Rightarrow> dev \<Rightarrow> (string \<times> int) list \<Rightarrow> bgp \<Rightarrow> bgp \<times> pyerr option" where
  "inject_bgp fe d [] b = (b, None)"
| "inject_bgp fe d ((net, _) # rs) b =
     (case advertise_network fe d net b of
        (b1, Some x) \<Rightarrow> (b1, Some x)
      | (b1, None) \<Rightarrow> inject_bgp fe d rs b1)"

definition into_rip :: "ospf_env \<Rightarrow> dev \<Rightarrow> int option \<Rightarrow> (string \<times> int) list \<Rightarrow> routing \<Rightarrow> routing \<times> redist_out res" where
  "into_rip e d metric rs s =
     (case dget (rs_rip s) d of
        None \<Rightarrow> (s, Inr no_output)
      | Some n \<Rightarrow>
          if \<not> rn_enabled n then (s, Inr no_output)
          else let s1 = s\<lparr>rs_rip := dset (rs_rip s) d (inject_rip metric rs n)\<rparr>
               in (s1, res_bind (Rip.send_update (oe_filters e) (oe_l2 e) (oe_net e) (rs_rip s1) d)
                     (\<lambda>out. Inr (no_output\<lparr>ro_rip := out, ro_count := length rs\<rparr>))))"

definition into_ospf ::
  "ospf_env \<Rightarrow> dev \<Rightarrow> int option \<Rightarrow> string \<Rightarrow> (string \<times> int) list \<Rightarrow> routing \<Rightarrow> routing \<times> redist_out res" where
  "into_ospf e d metric source rs s =
     (case dget (ospf_nodes (rs_ospf s)) d of
        None \<Rightarrow> (s, Inr no_output)
      | Some n \<Rightarrow>
          if \<not> on_enabled n then (s, Inr no_output)
          else let s1 = s\<lparr>rs_ospf := ospf_put d (inject_ospf metric source rs n) (rs_ospf s)\<rparr>
               in (s1, Inr (no_output\<lparr>ro_hellos := send_hello e (rs_ospf s1) d, ro_count := length rs\<rparr>)))"

definition into_bgp :: "ospf_env \<Rightarrow> dev \<Rightarrow> (string \<times> int) list \<Rightarrow> routing \<Rightarrow> routing \<times> redist_out res" where
  "into_bgp e d rs s =
     (case dget (nodes (rs_bgp s)) d of
        None \<Rightarrow> (s, Inr no_output)
      | Some n \<Rightarrow>
          if \<not> bn_enabled n then (s, Inr no_output)
          else (case inject_bgp (oe_filters e) d rs (rs_bgp s) of
                  (b, Some x) \<Rightarrow> (s\<lparr>rs_bgp := b\<rparr>, Inl x)
                | (b, None) \<Rightarrow> (s\<lparr>rs_bgp := b\<rparr>, Inr (no_output\<lparr>ro_count := length rs\<rparr>))))"

definition redistribute ::
  "ospf_env \<Rightarrow> dev \<Rightarrow> string \<Rightarrow> string \<Rightarrow> int option \<Rightarrow> routing \<Rightarrow> routing \<times> redist_out res" where
  "redistribute e d target source metric s =
     (case permitted (oe_filters e) d target source (source_routes e d source s) of
        Inl x \<Rightarrow> (s, Inl x)
      | Inr rs \<Rightarrow>
          if rs = [] then (s, Inr no_output)
          else if target = ''rip'' then into_rip e d metric rs s
          else if target = ''ospf'' then into_ospf e d metric source rs s
          else if target = ''bgp'' then into_bgp e d rs s
          else (s, Inr no_output))"

subsection \<open>What is injected\<close>

text \<open>The reference: the name is an address and a length that the filter permits.\<close>

definition allowed :: "filter_engine \<Rightarrow> dev \<Rightarrow> string \<Rightarrow> string \<Rightarrow> string \<Rightarrow> bool" where
  "allowed fe d target source net \<longleftrightarrow>
     (\<exists>a p n. split_on (CHR ''/'') net = [a, p] \<and> py_int p = Some n \<and> filter_redist fe d target source a n)"

lemma permitted_set:
  "permitted fe d target source rs = Inr out \<Longrightarrow> set out = {(net, mt) \<in> set rs. allowed fe d target source net}"
proof (induction rs arbitrary: out)
  case (Cons r rs)
  obtain net mt where r: "r = (net, mt)" by fastforce
  note prems = Cons.prems [unfolded r]
  show ?case
  proof (cases "\<exists>a p. split_on (CHR ''/'') net = [a, p]")
    case True
    then obtain a p where sp: "split_on (CHR ''/'') net = [a, p]" by blast
    obtain n where n: "py_int p = Some n" using prems sp by (cases "py_int p") auto
    then obtain out' where out': "permitted fe d target source rs = Inr out'"
        and out: "out = (if filter_redist fe d target source a n then (net, mt) # out' else out')"
      using prems sp by (cases "permitted fe d target source rs") auto
    have "allowed fe d target source net = filter_redist fe d target source a n"
      using sp n by (auto simp: allowed_def)
    with Cons.IH [OF out'] out show ?thesis by (auto simp: r)
  next
    case False
    then have "\<not> allowed fe d target source net" by (auto simp: allowed_def)
    moreover have "permitted fe d target source rs = Inr out"
      using prems False by (auto split: list.splits)
    ultimately show ?thesis using Cons.IH by (auto simp: r)
  qed
qed simp

lemma dget_fold_dset:
  "dget (fold (\<lambda>(net, _) x. dset x net v) rs x) k = (if k \<in> fst ` set rs then Some v else dget x k)"
  by (induction rs arbitrary: x) auto

text \<open>What BGP speakers announce of their own is not changed by propagation.\<close>

definition announces :: "bgp_nodes \<Rightarrow> dev \<Rightarrow> string list option" where
  "announces ns x = map_option bn_networks (dget ns x)"

lemma announces_dset [simp]:
  "announces (dset ns d n) x = (if x = d then Some (bn_networks n) else announces ns x)"
  by (simp add: announces_def)

lemma recalc_node_announces [simp]: "bn_networks (recalc_node n) = bn_networks n"
  by (simp add: recalc_node_def)

lemma announces_recalc [simp]: "announces (recalc_best_path d ns) = announces ns"
  by (auto simp: announces_def fun_eq_iff dget_recalc option.map_comp comp_def)

lemma announces_recalc_all [simp]: "announces (recalc_all ns) = announces ns"
  by (auto simp: announces_def fun_eq_iff recalc_all_def dget_recalc_fold option.map_comp comp_def)

lemma exchange_announces:
  assumes "exchange fe ns (d, nb) = Inr (ns', ch)"
  shows "announces ns' = announces ns"
  using assms
proof (cases rule: exchange_cases)
  case (merged nbr w)
  then show ?thesis by (auto simp: announces_def fun_eq_iff)
qed simp_all

lemma exchanges_announces: "exchanges fe ps ns = (ns', ch, e) \<Longrightarrow> announces ns' = announces ns"
proof (induction ps arbitrary: ns ns' ch e)
  case (Cons p ps)
  show ?case
  proof (cases "exchange fe ns p")
    case (Inr r)
    obtain ns1 c where r: "r = (ns1, c)" by (cases r)
    obtain ns2 c2 e2 where rest: "exchanges fe ps ns1 = (ns2, c2, e2)" by (metis prod_cases3)
    show ?thesis using Cons.prems Inr r rest Cons.IH [OF rest] exchange_announces [of fe ns "fst p" "snd p" ns1 c] by simp
  qed (use Cons.prems in simp)
qed simp

lemma rounds_announces: "propagate_rounds k fe ns = (ns', ch, e) \<Longrightarrow> announces ns' = announces ns"
proof (induction k arbitrary: ns)
  case (Suc k)
  obtain ns1 c e1 where ex: "exchanges fe (session_pairs ns) ns = (ns1, c, e1)" by (metis prod_cases3)
  with exchanges_announces [OF ex] Suc.IH [of "recalc_all ns1"] Suc.prems show ?case
    by (cases e1) (auto split: if_splits)
qed simp

lemma announces_rtbh [simp]: "announces (nodes (apply_rtbh d s)) = announces (nodes s)"
  by (auto simp: apply_rtbh_def Let_def announces_def fun_eq_iff split: option.split)

lemma propagate_announces: "announces (nodes (fst (propagate fe s))) = announces (nodes s)"
proof -
  have "announces (nodes (fold (\<lambda>d s. apply_rtbh d (s\<lparr>nodes := recalc_best_path d (nodes s)\<rparr>)) ds t)) = announces (nodes t)" for ds t
    by (induction ds arbitrary: t) simp_all
  moreover obtain ns ch e where "propagate_rounds 40 fe (nodes s) = (ns, ch, e)" by (metis prod_cases3)
  ultimately show ?thesis using rounds_announces [of 40 fe "nodes s"] by (cases e) (simp_all add: propagate_def)
qed

lemma update_neighbors_announces: "announces (nodes (fst (update_neighbors fe d nbs s))) = announces (nodes s)"
proof (induction nbs arbitrary: s)
  case (Cons nb nbs)
  have "announces (nodes (fst (Bgp.send_update fe d nb s))) = announces (nodes s)"
    by (simp add: Bgp.send_update_def propagate_announces split: option.split sum.split)
  then show ?case using Cons.IH by (cases "Bgp.send_update fe d nb s") (simp split: option.split)
qed simp

definition bgp_nets :: "bgp \<Rightarrow> dev \<Rightarrow> string set" where
  "bgp_nets b x = (case dget (nodes b) x of None \<Rightarrow> {} | Some n \<Rightarrow> set (bn_networks n))"

lemma bgp_nets_eq: "bgp_nets b x = (case announces (nodes b) x of None \<Rightarrow> {} | Some ns \<Rightarrow> set ns)"
  by (simp add: bgp_nets_def announces_def split: option.split)

lemma advertise_nets: "bgp_nets (fst (advertise_network fe d net b)) x = bgp_nets b x \<union> (if x = d then {net} else {})"
proof -
  let ?b = "upd_node d (\<lambda>n. if net \<in> set (bn_networks n) then n else n\<lparr>bn_networks := bn_networks n @ [net]\<rparr>) b"
  have "bgp_nets (fst (advertise_network fe d net b)) x = bgp_nets ?b x"
    by (simp add: bgp_nets_eq advertise_network_def Let_def update_neighbors_announces)
  also have "\<dots> = bgp_nets b x \<union> (if x = d then {net} else {})"
    by (auto simp: bgp_nets_def upd_node_def bgp_node_of_def new_bgp_node_def split: option.split)
  finally show ?thesis .
qed

lemma inject_bgp_nets:
  "inject_bgp fe d rs b = (b', x) \<Longrightarrow> bgp_nets b y \<subseteq> bgp_nets b' y \<and>
     bgp_nets b' y \<subseteq> bgp_nets b y \<union> (if y = d then fst ` set rs else {}) \<and>
     (x = None \<longrightarrow> bgp_nets b' y = bgp_nets b y \<union> (if y = d then fst ` set rs else {}))"
proof (induction rs arbitrary: b)
  case (Cons r rs)
  obtain net mt where r: "r = (net, mt)" by fastforce
  obtain b1 x1 where a: "advertise_network fe d net b = (b1, x1)" by fastforce
  have nets: "bgp_nets b1 y = bgp_nets b y \<union> (if y = d then {net} else {})"
    using advertise_nets [of fe d net b y] a by simp
  show ?case
  proof (cases x1)
    case None
    with Cons.prems a r have "inject_bgp fe d rs b1 = (b', x)" by simp
    from Cons.IH [OF this] nets r show ?thesis by (auto split: if_splits)
  next
    case (Some _)
    with Cons.prems a r have "b' = b1" "x \<noteq> None" by auto
    with nets r show ?thesis by (auto split: if_splits)
  qed
qed simp

text \<open>A route that the source has and the filter lets through, and what the targets hold.\<close>

definition crosses :: "ospf_env \<Rightarrow> dev \<Rightarrow> string \<Rightarrow> string \<Rightarrow> routing \<Rightarrow> string \<Rightarrow> bool" where
  "crosses e d target source s net \<longleftrightarrow>
     net \<in> fst ` set (source_routes e d source s) \<and> allowed (oe_filters e) d target source net"

definition rip_extra :: "routing \<Rightarrow> dev \<Rightarrow> string \<Rightarrow> int option option" where
  "rip_extra s x net = (case dget (rs_rip s) x of None \<Rightarrow> None | Some n \<Rightarrow> dget (rn_redistributed n) net)"

definition ospf_extra :: "routing \<Rightarrow> dev \<Rightarrow> string \<Rightarrow> redist_route option" where
  "ospf_extra s x net = (case dget (ospf_nodes (rs_ospf s)) x of None \<Rightarrow> None | Some n \<Rightarrow> dget (on_redistributed n) net)"

definition ospf_runs :: "routing \<Rightarrow> dev \<Rightarrow> bool" where
  "ospf_runs s d \<longleftrightarrow> (\<exists>n. dget (ospf_nodes (rs_ospf s)) d = Some n \<and> on_enabled n)"

definition bgp_runs :: "routing \<Rightarrow> dev \<Rightarrow> bool" where
  "bgp_runs s d \<longleftrightarrow> (\<exists>n. dget (nodes (rs_bgp s)) d = Some n \<and> bn_enabled n)"

text \<open>C12. Redistribution puts exactly the routes of the source that the filter permits into the target, when
  the target is RIP, OSPF or BGP and runs on the device: into RIP with the given metric or 1, into OSPF with the
  given metric or 20 and the source's name, into BGP as networks to announce, in place of what was there
  for the same destination. All other destinations, protocols and devices keep what they had, also routes that
  have left the source or that a filter set later denies. An exception in the middle leaves some of the networks
  announced by BGP; a malformed length raises before anything is changed.\<close>

theorem redistribution_exact:
  assumes run: "redistribute e d target source metric s = (s', r)"
  shows "case permitted (oe_filters e) d target source (source_routes e d source s) of
      Inl err \<Rightarrow> s' = s \<and> r = Inl err
    | Inr _ \<Rightarrow>
        (\<forall>x net. rip_extra s' x net =
           (if x = d \<and> target = ''rip'' \<and> rip_runs (rs_rip s) d \<and> crosses e d target source s net
            then Some (Some (case metric of None \<Rightarrow> 1 | Some mt \<Rightarrow> mt)) else rip_extra s x net)) \<and>
        (\<forall>x net. ospf_extra s' x net =
           (if x = d \<and> target = ''ospf'' \<and> ospf_runs s d \<and> crosses e d target source s net
            then Some \<lparr>xr_metric = (case metric of None \<Rightarrow> 20 | Some mt \<Rightarrow> mt), xr_source = source\<rparr> else ospf_extra s x net)) \<and>
        (\<forall>x. let new = {net. x = d \<and> target = ''bgp'' \<and> bgp_runs s d \<and> crosses e d target source s net}
             in if isl r then bgp_nets (rs_bgp s) x \<subseteq> bgp_nets (rs_bgp s') x \<and> bgp_nets (rs_bgp s') x \<subseteq> bgp_nets (rs_bgp s) x \<union> new
                else bgp_nets (rs_bgp s') x = bgp_nets (rs_bgp s) x \<union> new)"
proof (cases "permitted (oe_filters e) d target source (source_routes e d source s)")
  case (Inl err)
  with run show ?thesis by (simp add: redistribute_def)
next
  case (Inr rs)
  have in_rs: "net \<in> fst ` set rs \<longleftrightarrow> crosses e d target source s net" for net
    using permitted_set [OF Inr] by (force simp: crosses_def)
  then have all_rs: "fst ` set rs = {net. crosses e d target source s net}" by auto
  show ?thesis
  proof (cases "rs = []")
    case True
    then have "s' = s" using run Inr by (simp add: redistribute_def)
    then show ?thesis using Inr True by (simp add: in_rs [symmetric])
  next
    case False
    consider (rip) "target = ''rip''" | (ospf) "target = ''ospf''" | (bgp) "target = ''bgp''"
      | (none) "target \<noteq> ''rip''" "target \<noteq> ''ospf''" "target \<noteq> ''bgp''" by blast
    then show ?thesis
    proof cases
      case rip
      with run Inr False have "into_rip e d metric rs s = (s', r)" by (simp add: redistribute_def)
      then show ?thesis using Inr rip
        by (auto simp: into_rip_def Let_def rip_extra_def ospf_extra_def bgp_nets_def rip_runs_def inject_rip_def
            dget_fold_dset in_rs split: option.splits if_splits)
    next
      case ospf
      with run Inr False have "into_ospf e d metric source rs s = (s', r)" by (simp add: redistribute_def)
      then show ?thesis using Inr ospf
        by (auto simp: into_ospf_def Let_def rip_extra_def ospf_extra_def bgp_nets_def ospf_runs_def inject_ospf_def
            ospf_put_def dget_fold_dset in_rs split: option.splits if_splits)
    next
      case bgp
      with run Inr False have b: "into_bgp e d rs s = (s', r)" by (simp add: redistribute_def)
      show ?thesis
      proof (cases "bgp_runs s d")
        case True
        obtain b' y where i: "inject_bgp (oe_filters e) d rs (rs_bgp s) = (b', y)" by fastforce
        with b True have s': "s' = s\<lparr>rs_bgp := b'\<rparr>" "isl r \<longleftrightarrow> y \<noteq> None"
          by (auto simp: into_bgp_def bgp_runs_def split: option.splits)
        have nets: "bgp_nets b' d \<subseteq> bgp_nets (rs_bgp s) d \<union> Collect (crosses e d ''bgp'' source s)"
          "x \<noteq> d \<Longrightarrow> bgp_nets b' x \<subseteq> bgp_nets (rs_bgp s) x" for x
          using inject_bgp_nets [OF i, of d, unfolded all_rs bgp] inject_bgp_nets [OF i, of x] by auto
        show ?thesis
          using inject_bgp_nets [OF i, unfolded all_rs bgp] True Inr bgp s' nets
          by (simp add: rip_extra_def ospf_extra_def Let_def)
      next
        case False
        with b have "s' = s" by (auto simp: into_bgp_def bgp_runs_def split: option.splits if_splits)
        with False Inr bgp show ?thesis by simp
      qed
    next
      case none
      with run Inr False have "s' = s" by (simp add: redistribute_def)
      with none Inr show ?thesis by simp
    qed
  qed
qed

subsection \<open>From a static route to the neighbours\<close>

lemma split_dest_name:
  assumes "CHR ''/'' \<notin> set a" "0 \<le> p"
  shows "split_on CHR ''/'' (dest_name a p) = [a, show_int p]"
proof -
  have "\<not> is_digit CHR ''/''" by (simp add: is_digit_def code_of_def)
  then have "CHR ''/'' \<notin> set (show_int p)" using show_nat_digits [of "nat p"] assms(2) by (auto simp: show_int_def)
  with assms(1) show ?thesis by (simp add: dest_name_def split_on_append split_on_no_sep)
qed

lemma parse_redist_mem:
  assumes "parse_redist xs = Inr ys" "(dest_name a p, Some mt) \<in> set xs" "CHR ''/'' \<notin> set a" "0 \<le> p"
  shows "((a, p), mt) \<in> set ys"
  using assms(1,2)
proof (induction xs arbitrary: ys)
  case (Cons x xs)
  obtain s m where x: "x = (s, m)" by fastforce
  show ?case
  proof (cases "x = (dest_name a p, Some mt)")
    case True
    have "split_on CHR ''/'' (dest_name a p) = [a, show_int p]"
      by (rule split_dest_name [OF assms(3,4)])
    moreover have "py_int (show_int p) = Some p" using assms(4) by (rule py_int_show_int)
    ultimately show ?thesis using Cons.prems(1) True by (auto simp: res_bind_Inr)
  next
    case False
    then have "(dest_name a p, Some mt) \<in> set xs" using Cons.prems(2) by auto
    with Cons.IH Cons.prems(1) show ?thesis
      by (auto simp: x res_bind_Inr split: list.splits option.splits)
  qed
qed simp

lemma sends_injected:
  "dget r d = Some n \<Longrightarrow> rip_sends_to e v (dset r d (inject_rip mt rs n)) d p = rip_sends_to e v r d p"
  by (simp add: rip_sends_to_def resolve_static_neighbor_devices_def proc_of_def dget_or_def inject_rip_def)

text \<open>C14. A static route reaches the neighbours: when an active static route that the redistribution filter
  permits is redistributed into a running RIP process without an exception, the update that is sent at
  once holds an entry for it, with the given metric or 1, for every running neighbour that updates
  reach (over an interface that is up, on the same segment or configured as neighbour), when the outbound
  distribute list, if there is one, permits it.\<close>

theorem static_route_announced:
  assumes node: "dget (rs_rip s) d = Some n" "rn_enabled n"
    and route: "static_rib (rs_bgp s) d = Some rn" "sr \<in> set (static_routes rn)" "sr_active sr"
    and name: "CHR ''/'' \<notin> set (sr_network sr)" "0 \<le> sr_prefix sr"
    and pass: "filter_redist (oe_filters e) d ''rip'' ''static'' (sr_network sr) (sr_prefix sr)"
    and list_out: "let_out (oe_filters e) d (sr_network sr, sr_prefix sr)"
    and nb: "p \<in> set (get_neighbors (oe_net e) d)" "rip_runs (rs_rip s) p" "rip_sends_to (oe_l2 e) (oe_net e) (rs_rip s) d p"
    and run: "redistribute e d ''rip'' ''static'' metric s = (s', Inr res)"
  shows "\<exists>pk. ToPeer p pk \<in> set (ro_rip res) \<and>
    \<lparr>en_network = Some (sr_network sr), en_prefix = Some (sr_prefix sr),
     en_metric = Some (case metric of None \<Rightarrow> 1 | Some mt \<Rightarrow> mt)\<rparr> \<in> set (rk_entries pk)"
proof -
  let ?net = "dest_name (sr_network sr) (sr_prefix sr)"
  let ?mt = "case metric of None \<Rightarrow> 1 | Some mt \<Rightarrow> mt"
  obtain rs where rs: "permitted (oe_filters e) d ''rip'' ''static'' (source_routes e d ''static'' s) = Inr rs"
    using run by (auto simp: redistribute_def split: sum.splits)
  have "(?net, 1) \<in> set (source_routes e d ''static'' s)"
    using route by (auto simp: source_routes_def static_source_def)
  moreover have "allowed (oe_filters e) d ''rip'' ''static'' ?net"
    using pass split_dest_name [OF name] name(2) by (auto simp: allowed_def py_int_show_int)
  ultimately have mem: "(?net, 1) \<in> set rs" using permitted_set [OF rs] by auto
  then have ne: "rs \<noteq> []" by auto
  define n1 where "n1 = inject_rip metric rs n"
  define r1 where "r1 = dset (rs_rip s) d n1"
  have n1: "rn_enabled n1" "dget (rn_redistributed n1) ?net = Some (Some ?mt)"
    using node(2) mem by (force simp: n1_def inject_rip_def dget_fold_dset)+
  have out: "Rip.send_update (oe_filters e) (oe_l2 e) (oe_net e) r1 d = Inr (ro_rip res)"
    using run ne node by (auto simp: redistribute_def rs into_rip_def n1_def [symmetric] r1_def [symmetric] Let_def res_bind_Inr)
  have p1: "proc_of r1 d = n1" by (simp add: r1_def proc_of_def dget_or_def)
  have runs: "rip_runs r1 d" "rip_runs r1 p" using nb(2) n1(1) by (auto simp: rip_runs_def r1_def)
  have sends: "rip_sends_to (oe_l2 e) (oe_net e) r1 d p"
    using nb(3) sends_injected [OF node(1)] by (simp add: r1_def n1_def)
  have known: "((sr_network sr, sr_prefix sr), ?mt) \<in> told (oe_filters e) r1 d p"
  proof -
    have "\<exists>os. res_map (peer_update (oe_filters e) r1 d n1)
        (filter (rip_sends_to (oe_l2 e) (oe_net e) r1 d) (get_neighbors (oe_net e) d)) = Inr os"
      using out n1(1) by (auto simp: Rip.send_update_def r1_def res_bind_Inr)
    then obtain o1 where "peer_update (oe_filters e) r1 d n1 p = Inr o1"
      using res_map_each [of _ _ _ p] nb(1) sends by fastforce
    then obtain xs where xs: "parse_redist (rn_redistributed n1) = Inr xs"
      by (auto simp: peer_update_def entries_for_def res_bind_Inr)
    have "((sr_network sr, sr_prefix sr), ?mt) \<in> set xs"
      by (rule parse_redist_mem [OF xs dget_SomeD [OF n1(2)] name])
    with xs list_out show ?thesis by (auto simp: told_def known_for_def p1)
  qed
  then obtain pk where pk: "ToPeer p pk \<in> set (ro_rip res)"
  proof -
    have "told (oe_filters e) r1 d p \<noteq> {}" using known by blast
    with conjunct2 [OF exact_update [OF out], THEN spec, of p] runs nb(1) sends show ?thesis using that by blast
  qed
  moreover from conjunct1 [OF exact_update [OF out]] pk have "set (rk_entries pk) = adv_entry ` told (oe_filters e) r1 d p" by auto
  then have "adv_entry ((sr_network sr, sr_prefix sr), ?mt) \<in> set (rk_entries pk)" using known by simp
  ultimately show ?thesis by (auto simp: adv_entry_def)
qed

subsection \<open>Witnesses\<close>

definition demo_env :: ospf_env where
  "demo_env = \<lparr>oe_net = vnet_init\<lparr>links := [(''A'', [''B'']), (''B'', [''A''])]\<rparr>,
     oe_l2 = \<lparr>vlan_ports = (\<lambda>_. []), address_book = [], ospf_enabled = (\<lambda>_. False), rip_node = (\<lambda>_. False),
              eigrp_enabled = (\<lambda>_. False)\<rparr>,
     oe_filters = \<lparr>prefix_lists = (\<lambda>_. []), distribute_lists = (\<lambda>_. []), redist_filters = (\<lambda>_. [])\<rparr>,
     oe_hash = (\<lambda>_. 0), oe_hello = 10\<rparr>"

definition demo_static :: static_route where
  "demo_static = \<lparr>sr_network = ''10.9.0.0'', sr_prefix = 16, sr_next_hop = ''10.0.0.9'', sr_ad = 1, sr_iface = [], sr_active = True\<rparr>"

definition demo_proc :: "dev \<Rightarrow> rip_proc" where
  "demo_proc d = (new_proc d)\<lparr>rn_enabled := True, rn_networks := [''10.0.0.0/24'']\<rparr>"

definition demo_ospf :: ospf where
  "demo_ospf = ospf_put ''A'' ((new_ospf_node demo_env ''A'')\<lparr>on_enabled := True\<rparr>) ospf_init"

definition demo_routing :: routing where
  "demo_routing = \<lparr>rs_rip = [(''A'', demo_proc ''A''), (''B'', demo_proc ''B'')], rs_ospf = demo_ospf,
     rs_bgp = \<lparr>nodes = [], static_rib = (\<lambda>_. Some \<lparr>static_routes = [demo_static], rib_hostname = ''A''\<rparr>)\<rparr>\<rparr>"

lemma demo_runs: "\<exists>s' res. redistribute demo_env ''A'' ''rip'' ''static'' (Some 3) demo_routing = (s', Inr res)"
proof -
  have "isl (snd (redistribute demo_env ''A'' ''rip'' ''static'' (Some 3) demo_routing)) = False" by code_simp
  then show ?thesis by (metis prod.collapse sum.disc(1) sum.exhaust)
qed

lemma demo_nodes:
  "dget (rs_rip demo_routing) ''A'' = Some (demo_proc ''A'')" "dget (rs_rip demo_routing) ''B'' = Some (demo_proc ''B'')"
  "rn_enabled (demo_proc d)"
  by (simp_all add: demo_routing_def demo_proc_def)

lemma demo_no_slash: "CHR ''/'' \<notin> set (sr_network demo_static)"
  by (simp add: demo_static_def)

theorem static_route_announced_witness:
  "case snd (redistribute demo_env ''A'' ''rip'' ''static'' (Some 3) demo_routing) of
     Inl x \<Rightarrow> False
   | Inr res \<Rightarrow> \<exists>pk. ToPeer ''B'' pk \<in> set (ro_rip res) \<and>
       \<lparr>en_network = Some ''10.9.0.0'', en_prefix = Some 16, en_metric = Some 3\<rparr> \<in> set (rk_entries pk)"
proof -
  obtain s' res where run: "redistribute demo_env ''A'' ''rip'' ''static'' (Some 3) demo_routing = (s', Inr res)"
    using demo_runs by blast
  have seg: "rip_sends_to (oe_l2 demo_env) (oe_net demo_env) (rs_rip demo_routing) ''A'' ''B''"
    by (simp add: rip_sends_to_def shares_segment_def demo_env_def vlan_tags_compatible_def subif_tags_def vnet_init_def
        dget_or_def dvals_def get_device_networks_def ips_of_def)
  have "\<exists>pk. ToPeer ''B'' pk \<in> set (ro_rip res) \<and>
    \<lparr>en_network = Some (sr_network demo_static), en_prefix = Some (sr_prefix demo_static),
     en_metric = Some (case Some 3 of None \<Rightarrow> 1 | Some mt \<Rightarrow> mt)\<rparr> \<in> set (rk_entries pk)"
    by (rule static_route_announced [where rn = "\<lparr>static_routes = [demo_static], rib_hostname = ''A''\<rparr>", OF demo_nodes(1,3) _ _ _ demo_no_slash _ _ _ _ _ seg run])
      (simp_all add: demo_routing_def demo_static_def demo_env_def filter_redist_def get_neighbors_def nbrs_def vnet_init_def
        let_out_def rip_runs_def demo_proc_def)
  then show ?thesis by (simp add: run demo_static_def)
qed

theorem redistribution_exact_witness:
  "ospf_extra (fst (redistribute demo_env ''A'' ''ospf'' ''static'' None demo_routing)) ''A'' ''10.9.0.0/16'' =
     Some \<lparr>xr_metric = 20, xr_source = ''static''\<rparr>"
proof -
  have rs: "permitted (oe_filters demo_env) ''A'' ''ospf'' ''static'' (source_routes demo_env ''A'' ''static'' demo_routing) = Inr [(''10.9.0.0/16'', 1)]"
    by code_simp
  have src: "source_routes demo_env ''A'' ''static'' demo_routing = [(''10.9.0.0/16'', 1)]" by code_simp
  have "crosses demo_env ''A'' ''ospf'' ''static'' demo_routing ''10.9.0.0/16''"
  proof -
    have "(''10.9.0.0/16'', 1 :: int) \<in> {(net, mt) \<in> set (source_routes demo_env ''A'' ''static'' demo_routing).
        allowed (oe_filters demo_env) ''A'' ''ospf'' ''static'' net}"
      unfolding permitted_set [OF rs, symmetric] by simp
    then show ?thesis by (simp add: crosses_def src)
  qed
  moreover have "ospf_runs demo_routing ''A''"
    by (simp add: ospf_runs_def demo_routing_def demo_ospf_def ospf_put_def ospf_init_def)
  moreover obtain s' r where run: "redistribute demo_env ''A'' ''ospf'' ''static'' None demo_routing = (s', r)" by fastforce
  ultimately show ?thesis using redistribution_exact [OF run] by (simp add: rs run)
qed

end
