(* ===== verification/Arp.thy ===== *)
theory Arp
  imports Icmp NatEngine Machine
begin

text \<open>
  Address resolution, \<open>class ArpEngine\<close>: the tables, the exchange of request and reply on a segment, and
  the replies routers give on behalf of other segments. The clock is read once per operation; Python's
  string hash, from which the hardware addresses are made, is an argument. The messages keep their fields;
  their text and the formatting of \<open>show arp\<close> are left out. The unused search for the target's device in
  \<open>_try_proxy_arp\<close> has no effect and is left out.
\<close>

subsection \<open>Tables\<close>

record arp_entry =
  ae_ip :: ip
  ae_mac :: string
  ae_iface :: iface
  ae_age :: rat
  ae_type :: string

record arp =
  arp_tables :: "dev \<Rightarrow> (ip, arp_entry) dict"
  arp_debug :: "dev list"

definition arp_init :: arp where
  "arp_init = \<lparr>arp_tables = (\<lambda>_. []), arp_debug = []\<rparr>"

definition arp_timeout :: rat where
  "arp_timeout = 14400"

definition arp_debug_on :: "dev \<Rightarrow> arp \<Rightarrow> arp" where
  "arp_debug_on d s = s\<lparr>arp_debug := sadd (arp_debug s) d\<rparr>"

definition arp_debug_off :: "dev \<Rightarrow> arp \<Rightarrow> arp" where
  "arp_debug_off d s = s\<lparr>arp_debug := sdiscard (arp_debug s) d\<rparr>"

definition arp_put :: "dev \<Rightarrow> ip \<Rightarrow> arp_entry \<Rightarrow> arp \<Rightarrow> arp" where
  "arp_put d a x s = s\<lparr>arp_tables := (arp_tables s)(d := dset (arp_tables s d) a x)\<rparr>"

definition arp_add_static :: "rat \<Rightarrow> dev \<Rightarrow> ip \<Rightarrow> string \<Rightarrow> iface \<Rightarrow> arp \<Rightarrow> arp" where
  "arp_add_static now d a mac i =
     arp_put d a \<lparr>ae_ip = a, ae_mac = mac, ae_iface = i, ae_age = now, ae_type = ''static''\<rparr>"

definition arp_learned :: "rat \<Rightarrow> ip \<Rightarrow> string \<Rightarrow> iface \<Rightarrow> arp_entry" where
  "arp_learned now a mac i = \<lparr>ae_ip = a, ae_mac = mac, ae_iface = i, ae_age = now, ae_type = ''dynamic''\<rparr>"

definition arp_clear :: "dev \<Rightarrow> arp \<Rightarrow> arp" where
  "arp_clear d s = s\<lparr>arp_tables := (arp_tables s)(d := [])\<rparr>"

definition arp_resolve :: "rat \<Rightarrow> dev \<Rightarrow> ip \<Rightarrow> arp \<Rightarrow> arp \<times> string option" where
  "arp_resolve now d a s =
     (case dget (arp_tables s d) a of
        None \<Rightarrow> (s, None)
      | Some x \<Rightarrow>
          if now - ae_age x < arp_timeout then (s, Some (ae_mac x))
          else (s\<lparr>arp_tables := (arp_tables s)(d := dpop (arp_tables s d) a)\<rparr>, None))"

text \<open>Twenty-four of the thirty-two bits of the hash end up in the address.\<close>

definition arp_mac :: "(string \<Rightarrow> int) \<Rightarrow> dev \<Rightarrow> ip \<Rightarrow> string" where
  "arp_mac pyhash d a =
     (let h = \<bar>pyhash (d @ '':'' @ a)\<bar> mod 16 ^ 8
      in ''00:1b:0d:'' @ hex_byte (drop_bit 16 h AND 0xff) @ '':'' @ hex_byte (drop_bit 8 h AND 0xff) @ '':'' @
         hex_byte (h AND 0xff))"

definition iface_for_ip :: "(dev, device_info) dict \<Rightarrow> dev \<Rightarrow> ip \<Rightarrow> iface" where
  "iface_for_ip book d a =
     (case find (\<lambda>(_, i). if_ip i = Some a) (ifaces_of book d) of Some (n, _) \<Rightarrow> n | None \<Rightarrow> ''lan0'')"

subsection \<open>Resolution with packets\<close>

text \<open>What the engine reads elsewhere: device types, the address book, the NAT settings and the hash.\<close>

record arp_env =
  av_net :: vnet
  av_book :: "(dev, device_info) dict"
  av_nat :: nat_engine
  av_hash :: "string \<Rightarrow> int"

datatype arp_msg =
    ArpLog string ip string ip string iface
  | ProxyLog string ip iface string

definition everyone :: string where
  "everyone = ''ff:ff:ff:ff:ff:ff''"

text \<open>The exchange on the segment of \<open>my\<close>: the requester's log, the owner's log and table if a device
  owns the target, and the requester's table.\<close>

definition arp_exchange :: "rat \<Rightarrow> arp_env \<Rightarrow> dev \<Rightarrow> ip \<Rightarrow> ip \<Rightarrow> arp \<Rightarrow> arp \<times> (dev \<times> arp_msg) list \<times> string" where
  "arp_exchange now e d my a s =
     (let src_mac = arp_mac (av_hash e) d my;
          i = iface_for_ip (av_book e) d my;
          sent = [(d, ArpLog ''request'' my src_mac a everyone i)]
      in case find_device_owning_ip (av_book e) a of
           None \<Rightarrow>
             (let mac = arp_mac (av_hash e) ''host'' a
              in (arp_put d a (arp_learned now a mac i) s,
                  sent @ [(d, ArpLog ''reply_received'' a mac my src_mac i)], mac))
         | Some t \<Rightarrow>
             if t = [] then
               (let mac = arp_mac (av_hash e) ''host'' a
                in (arp_put d a (arp_learned now a mac i) s,
                    sent @ [(d, ArpLog ''reply_received'' a mac my src_mac i)], mac))
             else
               (let mac = arp_mac (av_hash e) t a;
                    ti = iface_for_ip (av_book e) t a;
                    s1 = arp_put t my (arp_learned now my src_mac ti) s
                in (arp_put d a (arp_learned now a mac i) s1,
                    sent @ [(t, ArpLog ''request_received'' my src_mac a everyone ti),
                            (t, ArpLog ''reply'' a mac my src_mac ti),
                            (d, ArpLog ''reply_received'' a mac my src_mac i)], mac)))"

definition proxy_types :: "string list" where
  "proxy_types = [''cisco'', ''sir'', ''srs'', ''catalyst'']"

text \<open>The address with which a candidate answers for other segments on the segment of \<open>my\<close>.\<close>

definition proxy_at :: "arp_env \<Rightarrow> dev \<Rightarrow> ip \<Rightarrow> dev \<times> device_info \<Rightarrow> (dev \<times> ip) option" where
  "proxy_at e d my = (\<lambda>(c, info).
     if c = d then None
     else (let ty = dget_or (device_types (av_net e)) c []
           in if ty \<notin> set proxy_types then None
              else case find (\<lambda>(r, p). ip_in_network my r p) (di_ips info) of
                     None \<Rightarrow> None
                   | Some (r, _) \<Rightarrow>
                       if r = [] then None
                       else if proxy_arp_enabled (av_nat e) c (iface_for_ip (av_book e) c r) ty then Some (c, r)
                       else None))"

fun first_proxy :: "arp_env \<Rightarrow> dev \<Rightarrow> ip list \<Rightarrow> (ip \<times> dev \<times> ip) option" where
  "first_proxy e d [] = None"
| "first_proxy e d (my # ms) =
     (case List.map_filter (proxy_at e d my) (av_book e) of
        (c, r) # _ \<Rightarrow> Some (my, c, r)
      | [] \<Rightarrow> first_proxy e d ms)"

definition try_proxy_arp ::
  "rat \<Rightarrow> arp_env \<Rightarrow> dev \<Rightarrow> ip \<Rightarrow> arp \<Rightarrow> arp \<times> (dev \<times> arp_msg) list \<times> string option" where
  "try_proxy_arp now e d a s =
     (case first_proxy e d (dkeys (ips_of (av_book e) d)) of
        None \<Rightarrow> (s, [], None)
      | Some (my, c, r) \<Rightarrow>
          (let mac = arp_mac (av_hash e) c r;
               ri = iface_for_ip (av_book e) c r
           in (arp_put d a (arp_learned now a mac (iface_for_ip (av_book e) d my)) s,
               [(d, ProxyLog ''request'' a ri (arp_mac (av_hash e) d my)), (c, ProxyLog ''proxy'' a ri mac),
                (d, ProxyLog ''reply_received'' a ri mac)],
               Some mac)))"

definition resolve_with_packet ::
  "rat \<Rightarrow> arp_env \<Rightarrow> dev \<Rightarrow> ip \<Rightarrow> arp \<Rightarrow> arp \<times> (dev \<times> arp_msg) list \<times> string option" where
  "resolve_with_packet now e d a s =
     (case arp_resolve now d a s of (s1, cached) \<Rightarrow>
        if truthy cached then (s1, [], cached)
        else case find (\<lambda>(my, p). ip_in_network a my p) (ips_of (av_book e) d) of
               Some (my, _) \<Rightarrow>
                 (case arp_exchange now e d my a s1 of (s2, out, mac) \<Rightarrow> (s2, out, Some mac))
             | None \<Rightarrow> try_proxy_arp now e d a s1)"

text \<open>\<open>_arp_before_send\<close>: the destination itself on a shared segment, the default gateway otherwise.\<close>

record route_line =
  rl_dest :: "string option"
  rl_net :: "string option"
  rl_gw :: "string option"

definition real_gateway :: "string \<Rightarrow> bool" where
  "real_gateway g \<longleftrightarrow> g \<notin> {[], ''0.0.0.0'', ''directly''}"

fun default_gateway :: "route_line list \<Rightarrow> string" where
  "default_gateway [] = []"
| "default_gateway (r # rs) =
     (let dest = (if truthy (rl_dest r) then the (rl_dest r) else if truthy (rl_net r) then the (rl_net r) else []);
          g = (case rl_gw r of None \<Rightarrow> [] | Some g \<Rightarrow> g)
      in if dest \<in> {''0.0.0.0/0'', ''0.0.0.0'', ''default''} \<and> real_gateway g then g else default_gateway rs)"

definition find_gateway_ip :: "string option \<Rightarrow> route_line list \<Rightarrow> string" where
  "find_gateway_ip gateway routes =
     (case gateway of
        Some g \<Rightarrow> if real_gateway g then g else default_gateway routes
      | None \<Rightarrow> default_gateway routes)"

definition arp_before_send ::
  "rat \<Rightarrow> arp_env \<Rightarrow> dev \<Rightarrow> ip \<Rightarrow> string option \<Rightarrow> route_line list \<Rightarrow> arp \<Rightarrow> arp \<times> (dev \<times> arp_msg) list" where
  "arp_before_send now e d dest gateway routes s =
     (if \<exists>(my, p)\<in>set (ips_of (av_book e) d). ip_in_network dest my p
      then (case resolve_with_packet now e d dest s of (s1, out, _) \<Rightarrow> (s1, out))
      else (let gw = find_gateway_ip gateway routes
            in if gw = [] then (s, [])
               else case resolve_with_packet now e d gw s of (s1, out, _) \<Rightarrow> (s1, out)))"

subsection \<open>Every entry is the address of its owner, of a host or of a proxy\<close>

lemma arp_tables_put: "arp_tables (arp_put d a x s) d' = (if d' = d then dset (arp_tables s d) a x else arp_tables s d')"
  by (simp add: arp_put_def)

lemma arp_mac_nonempty [simp]: "arp_mac h d a \<noteq> []"
  by (simp add: arp_mac_def Let_def)

definition entry_sound :: "arp_env \<Rightarrow> dev \<Rightarrow> ip \<Rightarrow> arp_entry \<Rightarrow> bool" where
  "entry_sound e d a x \<longleftrightarrow> ae_ip x = a \<and>
     (ae_type x = ''static'' \<or>
      (\<exists>t. a \<in> set (dkeys (ips_of (av_book e) t)) \<and> ae_mac x = arp_mac (av_hash e) t a) \<or>
      (find_device_owning_ip (av_book e) a \<in> {None, Some []} \<and> ae_mac x = arp_mac (av_hash e) ''host'' a \<and>
         (\<exists>(my, p)\<in>set (ips_of (av_book e) d). ip_in_network a my p)) \<or>
      ((\<forall>(my, p)\<in>set (ips_of (av_book e) d). \<not> ip_in_network a my p) \<and>
         (\<exists>my c r p. (my, p) \<in> set (ips_of (av_book e) d) \<and> c \<noteq> d \<and> r \<in> set (dkeys (ips_of (av_book e) c)) \<and>
            proxy_arp_enabled (av_nat e) c (iface_for_ip (av_book e) c r) (dget_or (device_types (av_net e)) c []) \<and>
            ae_mac x = arp_mac (av_hash e) c r)))"

definition arp_sound :: "arp_env \<Rightarrow> arp \<Rightarrow> bool" where
  "arp_sound e s \<longleftrightarrow>
     (\<forall>d. dict_ok (arp_tables s d) \<and> (\<forall>a x. dget (arp_tables s d) a = Some x \<longrightarrow> entry_sound e d a x))"

lemma arp_sound_put: "arp_sound e s \<Longrightarrow> entry_sound e d a x \<Longrightarrow> arp_sound e (arp_put d a x s)"
  by (auto simp: arp_sound_def arp_tables_put)

lemma arp_sound_resolve: "arp_sound e s \<Longrightarrow> arp_sound e (fst (arp_resolve now d a s))"
  by (auto simp: arp_sound_def arp_resolve_def split: option.splits)

lemma owner_has_ip:
  "dict_ok book \<Longrightarrow> find_device_owning_ip book a = Some t \<Longrightarrow> a \<in> set (dkeys (ips_of book t))"
proof -
  assume "dict_ok book" "find_device_owning_ip book a = Some t"
  then obtain i where i: "find (\<lambda>(_, i). a \<in> set (dkeys (di_ips i))) book = Some (t, i)"
    by (auto simp: find_device_owning_ip_def)
  from find_SomeD [OF this] have "(t, i) \<in> set book" "a \<in> set (dkeys (di_ips i))" by auto
  with \<open>dict_ok book\<close> show ?thesis by (simp add: ips_of_def dget_in_set)
qed

lemma learned_own: "a \<in> set (dkeys (ips_of (av_book e) t)) \<Longrightarrow>
    entry_sound e d a (arp_learned now a (arp_mac (av_hash e) t a) i)"
  by (auto simp: entry_sound_def arp_learned_def)

lemma arp_sound_exchange:
  assumes ok: "dict_ok (av_book e)" "arp_sound e s"
    and my: "(my, p) \<in> set (ips_of (av_book e) d)" "ip_in_network a my p"
  shows "arp_sound e (fst (arp_exchange now e d my a s))"
proof -
  have mine: "my \<in> set (dkeys (ips_of (av_book e) d))" using my(1) by (force simp: dkeys_def)
  have host: "entry_sound e d a (arp_learned now a (arp_mac (av_hash e) ''host'' a) i)"
    if "find_device_owning_ip (av_book e) a \<in> {None, Some []}" for i
    using that my by (auto simp: entry_sound_def arp_learned_def)
  show ?thesis
  proof (cases "find_device_owning_ip (av_book e) a \<in> {None, Some []}")
    case True
    with host [OF True] ok show ?thesis by (auto simp: arp_exchange_def Let_def arp_sound_put)
  next
    case False
    then obtain t where t: "find_device_owning_ip (av_book e) a = Some t" "t \<noteq> []" by auto
    with ok learned_own [OF mine] learned_own [OF owner_has_ip [OF ok(1) t(1)]] show ?thesis
      by (simp add: arp_exchange_def Let_def arp_sound_put)
  qed
qed

lemma first_proxy_SomeD:
  "first_proxy e d ms = Some (my, c, r) \<Longrightarrow>
     my \<in> set ms \<and> (\<exists>info. (c, info) \<in> set (av_book e) \<and> proxy_at e d my (c, info) = Some (c, r))"
proof (induction ms)
  case (Cons m ms)
  show ?case
  proof (cases "List.map_filter (proxy_at e d m) (av_book e)")
    case Nil
    with Cons show ?thesis by auto
  next
    case (Cons x xs)
    with Cons.prems have x: "x = (c, r)" "m = my" by (auto split: prod.splits)
    have "x \<in> set (List.map_filter (proxy_at e d m) (av_book e))" using Cons by simp
    then obtain y where y: "y \<in> set (av_book e)" "proxy_at e d my y = Some (c, r)"
      using x by (auto simp: map_filter_def)
    then have "fst y = c"
      by (auto simp: proxy_at_def Let_def split: prod.splits if_splits option.splits)
    then obtain info where "y = (c, info)" by (cases y) auto
    with y x show ?thesis by auto
  qed
qed simp

lemma arp_sound_proxy:
  assumes "dict_ok (av_book e)" "arp_sound e s"
    and away: "\<forall>(my, p)\<in>set (ips_of (av_book e) d). \<not> ip_in_network a my p"
  shows "arp_sound e (fst (try_proxy_arp now e d a s))"
proof (cases "first_proxy e d (dkeys (ips_of (av_book e) d))")
  case None
  with assms show ?thesis by (simp add: try_proxy_arp_def)
next
  case (Some w)
  obtain my c r where w: "w = (my, c, r)" by (cases w)
  from first_proxy_SomeD [OF Some [unfolded w]] obtain info where
    i: "my \<in> set (dkeys (ips_of (av_book e) d))" "(c, info) \<in> set (av_book e)" "proxy_at e d my (c, info) = Some (c, r)"
    by auto
  from i(2) assms(1) have info: "di_ips info = ips_of (av_book e) c" by (simp add: ips_of_def dget_in_set)
  from i(3) have p: "c \<noteq> d" "proxy_arp_enabled (av_nat e) c (iface_for_ip (av_book e) c r) (dget_or (device_types (av_net e)) c [])"
      "\<exists>q. find (\<lambda>(r, p). ip_in_network my r p) (di_ips info) = Some (r, q)"
    by (auto simp: proxy_at_def Let_def split: if_splits option.splits prod.splits)
  from p(3) have "r \<in> set (dkeys (ips_of (av_book e) c))"
    by (force simp: info dkeys_def dest: find_SomeD)
  moreover from i(1) obtain q where "(my, q) \<in> set (ips_of (av_book e) d)" by (auto simp: dkeys_def)
  ultimately have "entry_sound e d a (arp_learned now a (arp_mac (av_hash e) c r) j)" for j
    using p(1,2) away unfolding entry_sound_def arp_learned_def by auto
  then show ?thesis using assms(2) by (simp add: try_proxy_arp_def Some w Let_def arp_sound_put)
qed

lemma arp_sound_packet:
  assumes "dict_ok (av_book e)" "arp_sound e s"
  shows "arp_sound e (fst (resolve_with_packet now e d a s))"
proof -
  obtain s1 c where r: "arp_resolve now d a s = (s1, c)" by fastforce
  have s1: "arp_sound e s1" using arp_sound_resolve [OF assms(2), of now d a] by (simp add: r)
  show ?thesis
  proof (cases "find (\<lambda>(my, p). ip_in_network a my p) (ips_of (av_book e) d)")
    case None
    then have "\<forall>(my, p)\<in>set (ips_of (av_book e) d). \<not> ip_in_network a my p" by (auto simp: find_None_iff)
    from arp_sound_proxy [OF assms(1) s1 this] s1 None show ?thesis by (simp add: resolve_with_packet_def r)
  next
    case (Some w)
    obtain my p where w: "w = (my, p)" by (cases w)
    from find_SomeD [OF Some] w have "(my, p) \<in> set (ips_of (av_book e) d)" "ip_in_network a my p" by auto
    from arp_sound_exchange [OF assms(1) s1 this, of now] s1 Some w show ?thesis
      by (auto simp: resolve_with_packet_def r split: prod.splits)
  qed
qed

datatype arp_op =
    Resolve rat dev ip
  | AddStatic rat dev ip string iface
  | ClearArp dev
  | DebugOn dev
  | DebugOff dev

fun arp_apply :: "arp_env \<Rightarrow> arp_op \<Rightarrow> arp \<Rightarrow> arp" where
  "arp_apply e (Resolve now d a) s = fst (resolve_with_packet now e d a s)"
| "arp_apply e (AddStatic now d a mac i) s = arp_add_static now d a mac i s"
| "arp_apply e (ClearArp d) s = arp_clear d s"
| "arp_apply e (DebugOn d) s = arp_debug_on d s"
| "arp_apply e (DebugOff d) s = arp_debug_off d s"

lemma arp_sound_apply:
  assumes "dict_ok (av_book e)" "arp_sound e s"
  shows "arp_sound e (arp_apply e op s)"
proof (cases op)
  case (Resolve now d a)
  with arp_sound_packet [OF assms] show ?thesis by simp
next
  case (AddStatic now d a mac i)
  have "entry_sound e d a \<lparr>ae_ip = a, ae_mac = mac, ae_iface = i, ae_age = now, ae_type = ''static''\<rparr>"
    by (simp add: entry_sound_def)
  with AddStatic assms show ?thesis by (simp add: arp_add_static_def arp_sound_put)
qed (use assms in \<open>auto simp: arp_sound_def arp_clear_def arp_debug_on_def arp_debug_off_def\<close>)

interpretation arp_run: machine "arp_apply e" arp_init "\<lambda>s. dict_ok (av_book e) \<longrightarrow> arp_sound e s" for e
  by unfold_locales (auto simp: arp_sound_apply, simp add: arp_init_def arp_sound_def)

text \<open>In every sequence of resolutions, static entries and clears over a fixed set of devices, an entry
  that was not entered by hand holds the hardware address of a device that has the address, that of a
  plain host on the segment when no device has it, or, for an address outside every segment of the
  device, that of a router on one of its segments that has proxy ARP enabled.\<close>

theorem arp_tables_sound:
  assumes "dict_ok (av_book e)" "dget (arp_tables (fold (arp_apply e) ops arp_init) d) a = Some x"
  shows "entry_sound e d a x"
  using arp_run.run_inv [of e ops] assms by (simp add: arp_sound_def)

subsection \<open>An exchange teaches both ends, and the cache then answers alone\<close>

lemma resolve_fresh:
  "dget (arp_tables s d) a = Some (arp_learned now a mac i) \<Longrightarrow> now' - now < arp_timeout \<Longrightarrow>
     arp_resolve now' d a s = (s, Some mac)"
  by (simp add: arp_resolve_def arp_learned_def)

lemma resolve_miss_table: "arp_resolve now d a s = (s1, None) \<Longrightarrow> d' \<noteq> d \<Longrightarrow> arp_tables s1 d' = arp_tables s d'"
  by (auto simp: arp_resolve_def split: option.splits if_splits)

text \<open>When a device resolves an address of its own segment that it has not cached and a device has that
  address, it gets the owner's hardware address; and until the timeout both ends answer from their
  tables: the requester with the owner's address, the owner with the requester's.\<close>

theorem arp_exchange_mutual:
  assumes "arp_resolve now d a s = (s1, None)"
    and "find (\<lambda>(my, p). ip_in_network a my p) (ips_of (av_book e) d) = Some (my, p)"
    and "find_device_owning_ip (av_book e) a = Some t" "t \<noteq> []"
    and "resolve_with_packet now e d a s = (s', out, r)" "now' < now + 14400"
  shows "r = Some (arp_mac (av_hash e) t a) \<and> List.map fst out = [d, t, t, d] \<and>
    arp_resolve now' d a s' = (s', r) \<and>
    arp_resolve now' t my s' = (s', Some (arp_mac (av_hash e) d my))"
proof -
  have run: "(s', out, r) = (case arp_exchange now e d my a s1 of (s2, out, mac) \<Rightarrow> (s2, out, Some mac))"
    using assms by (simp add: resolve_with_packet_def truthy_def)
  then have r: "r = Some (arp_mac (av_hash e) t a)" and out: "List.map fst out = [d, t, t, d]"
    by (simp_all add: arp_exchange_def assms(3,4) Let_def)
  have s': "s' = arp_put d a (arp_learned now a (arp_mac (av_hash e) t a) (iface_for_ip (av_book e) d my))
      (arp_put t my (arp_learned now my (arp_mac (av_hash e) d my) (iface_for_ip (av_book e) t a)) s1)"
    using run by (simp add: arp_exchange_def assms(3,4) Let_def)
  have time: "now' - now < arp_timeout" using assms(6) by (simp add: arp_timeout_def)
  have "arp_resolve now' d a s' = (s', r)"
    unfolding r by (rule resolve_fresh [OF _ time]) (simp add: s' arp_tables_put)
  moreover have "arp_resolve now' t my s' = (s', Some (arp_mac (av_hash e) d my))"
    by (cases "t = d \<and> my = a") (auto simp: s' arp_tables_put intro!: resolve_fresh [OF _ time])
  ultimately show ?thesis using r out by simp
qed

text \<open>A small network: a router R with the addresses 10.0.0.1 and 10.1.0.1 and a PC with 10.0.0.5. The
  hash of a string is its length.\<close>

definition demo_book :: "(dev, device_info) dict" where
  "demo_book =
     register_device
       (register_device [] ''R'' ''R'' [(''g0'', \<lparr>if_ip = Some ''10.0.0.1'', if_prefix = Some 24\<rparr>),
                                     (''g1'', \<lparr>if_ip = Some ''10.1.0.1'', if_prefix = Some 24\<rparr>)])
       ''PC'' ''PC'' [(''lan0'', \<lparr>if_ip = Some ''10.0.0.5'', if_prefix = Some 24\<rparr>)]"

definition demo_arp_env :: arp_env where
  "demo_arp_env = \<lparr>av_net = vnet_init\<lparr>device_types := [(''R'', ''cisco''), (''PC'', ''pc'')]\<rparr>, av_book = demo_book,
     av_nat = nat_init, av_hash = (\<lambda>w. int (length w))\<rparr>"

theorem arp_exchange_mutual_witness:
  "\<exists>s'. arp_resolve 100 ''R'' ''10.0.0.5'' s' = (s', Some (arp_mac (av_hash demo_arp_env) ''PC'' ''10.0.0.5''))"
proof -
  have 1: "arp_resolve 0 ''PC'' ''10.0.0.1'' arp_init = (arp_init, None)" by (simp add: arp_resolve_def arp_init_def)
  have 2: "find (\<lambda>(my, p). ip_in_network ''10.0.0.1'' my p) (ips_of (av_book demo_arp_env) ''PC'') = Some (''10.0.0.5'', 24)"
    by code_simp
  have 3: "find_device_owning_ip (av_book demo_arp_env) ''10.0.0.1'' = Some ''R''" by code_simp
  obtain s' out r where run: "resolve_with_packet 0 demo_arp_env ''PC'' ''10.0.0.1'' arp_init = (s', out, r)"
    by (metis prod_cases3)
  from arp_exchange_mutual [OF 1 2 3 _ run, of 100] show ?thesis by (intro exI [of _ s']) simp
qed

theorem arp_tables_sound_witness:
  "\<exists>x. dget (arp_tables (fold (arp_apply demo_arp_env) [Resolve 0 ''PC'' ''203.0.113.9''] arp_init) ''PC'') ''203.0.113.9'' = Some x \<and>
     entry_sound demo_arp_env ''PC'' ''203.0.113.9'' x"
proof -
  have ok: "dict_ok (av_book demo_arp_env)" by code_simp
  have "\<exists>x. dget (arp_tables (fold (arp_apply demo_arp_env) [Resolve 0 ''PC'' ''203.0.113.9''] arp_init) ''PC'') ''203.0.113.9'' = Some x"
    unfolding not_None_eq [symmetric] by code_simp
  with arp_tables_sound [OF ok] show ?thesis by blast
qed

text \<open>A static entry is thrown away after the timeout of the learned ones.\<close>

theorem arp_static_expires:
  assumes "t + 14400 \<le> now"
  shows "snd (arp_resolve now d a (arp_add_static t d a mac i s)) = None \<and>
    dget (arp_tables (fst (arp_resolve now d a (arp_add_static t d a mac i s))) d) a = None"
  using assms by (simp add: arp_resolve_def arp_add_static_def arp_tables_put arp_timeout_def)

theorem arp_static_expires_witness:
  "snd (arp_resolve 20000 ''PC'' ''10.0.0.1'' (arp_add_static 0 ''PC'' ''10.0.0.1'' ''aa'' ''lan0'' arp_init)) = None"
  using arp_static_expires [of 0 20000] by simp

text \<open>A router on the segment answers for an address that no device has and that lies in no network.\<close>

theorem proxy_answers_for_nobody:
  "find_device demo_book ''203.0.113.9'' = None \<and>
   snd (snd (resolve_with_packet 0 demo_arp_env ''PC'' ''203.0.113.9'' arp_init)) =
     Some (arp_mac (av_hash demo_arp_env) ''R'' ''10.0.0.1'')"
  by (intro conjI; code_simp)

end
