(* ===== verification/DataPlane.thy ===== *)
theory DataPlane
  imports Arp "HOL-Library.Product_Lexorder" "HOL-Library.List_Lexorder" "HOL-Library.Char_ord"
begin

text \<open>
  The data plane, \<open>class DataPlaneEngine\<close>: the learned hardware addresses and the interface counters; and
  the \<open>ping\<close> command of \<open>app.py\<close>, which puts together address resolution, the trace through the routing
  tables, translation on the path, and learning in the switches at both ends. The clock is read once per
  command, as a rational; the translation table takes it as a real.
\<close>

subsection \<open>The address tables\<close>

record mac_entry =
  me_vlan :: int
  me_mac :: string
  me_port :: iface
  me_type :: string
  me_age :: rat

record traffic =
  in_pkts :: int
  out_pkts :: int
  in_bytes :: int
  out_bytes :: int

type_synonym mac_table = "(int \<times> string, mac_entry) dict"

record data_plane =
  mac_tables :: "dev \<Rightarrow> mac_table"
  if_counters :: "dev \<Rightarrow> (iface, traffic) dict"

definition dp_init :: data_plane where
  "dp_init = \<lparr>mac_tables = (\<lambda>_. []), if_counters = (\<lambda>_. [])\<rparr>"

text \<open>The first entry of least age.\<close>

fun min_age :: "(int \<times> string) \<times> mac_entry \<Rightarrow> mac_table \<Rightarrow> (int \<times> string) \<times> mac_entry" where
  "min_age best [] = best"
| "min_age best (x # xs) = min_age (if me_age (snd x) < me_age (snd best) then x else best) xs"

definition learn_entry :: "rat \<Rightarrow> string \<Rightarrow> iface \<Rightarrow> int \<Rightarrow> mac_table \<Rightarrow> mac_table" where
  "learn_entry now mac port vlan t =
     (case dget t (vlan, mac) of
        Some x \<Rightarrow> dset t (vlan, mac) (x\<lparr>me_port := port, me_age := now\<rparr>)
      | None \<Rightarrow> dset t (vlan, mac)
          \<lparr>me_vlan = vlan, me_mac = mac, me_port = port, me_type = ''DYNAMIC'', me_age = now\<rparr>)"

definition trim_table :: "mac_table \<Rightarrow> mac_table" where
  "trim_table t =
     (case t of [] \<Rightarrow> t | x # xs \<Rightarrow> if length t > 256 then dpop t (fst (min_age x xs)) else t)"

definition dp_learn :: "rat \<Rightarrow> dev \<Rightarrow> string \<Rightarrow> iface \<Rightarrow> int \<Rightarrow> data_plane \<Rightarrow> data_plane" where
  "dp_learn now d mac port vlan s =
     s\<lparr>mac_tables := (mac_tables s)(d := trim_table (learn_entry now mac port vlan (mac_tables s d)))\<rparr>"

definition clear_mac_dynamic :: "dev \<Rightarrow> data_plane \<Rightarrow> data_plane" where
  "clear_mac_dynamic d s =
     s\<lparr>mac_tables := (mac_tables s)(d := filter (\<lambda>(_, x). me_type x \<noteq> ''DYNAMIC'') (mac_tables s d))\<rparr>"

subsection \<open>Counters\<close>

definition no_traffic :: traffic where
  "no_traffic = \<lparr>in_pkts = 0, out_pkts = 0, in_bytes = 0, out_bytes = 0\<rparr>"

definition dp_counter :: "dev \<Rightarrow> iface \<Rightarrow> data_plane \<Rightarrow> traffic" where
  "dp_counter d i s = dget_or (if_counters s d) i no_traffic"

definition get_counter :: "dev \<Rightarrow> iface \<Rightarrow> data_plane \<Rightarrow> traffic" where
  "get_counter d i s = dget_or (if_counters s d) i no_traffic"

definition dp_bump :: "dev \<Rightarrow> iface \<Rightarrow> string \<Rightarrow> int \<Rightarrow> int \<Rightarrow> data_plane \<Rightarrow> data_plane" where
  "dp_bump d i direction pkts sz s =
     (if i = [] then s
      else let c = dp_counter d i s;
               c' = (if direction = ''in''
                     then c\<lparr>in_pkts := in_pkts c + pkts, in_bytes := in_bytes c + pkts * sz\<rparr>
                     else c\<lparr>out_pkts := out_pkts c + pkts, out_bytes := out_bytes c + pkts * sz\<rparr>)
           in s\<lparr>if_counters := (if_counters s)(d := dset (if_counters s d) i c')\<rparr>)"

definition clear_counters :: "dev \<Rightarrow> data_plane \<Rightarrow> data_plane" where
  "clear_counters d s = s\<lparr>if_counters := (if_counters s)(d := [])\<rparr>"

subsection \<open>The table that is shown\<close>

definition cisco_mac :: "string \<Rightarrow> string" where
  "cisco_mac mac =
     (if mac = [] then mac
      else let h = lower (filter (\<lambda>c. c \<notin> {CHR '':'', CHR ''-'', CHR ''.''}) mac)
           in if length h \<noteq> 12 then mac
              else take 4 h @ ''.'' @ take 4 (drop 4 h) @ ''.'' @ take 4 (drop 8 h))"

definition hex_wide :: "nat \<Rightarrow> nat \<Rightarrow> string" where
  "hex_wide w n = replicate (w - length (show_hex n)) (CHR ''0'') @ show_hex n"

definition cpu_reserved_macs :: "string list" where
  "cpu_reserved_macs = [''0100.0ccc.cccc'', ''0100.0ccc.cccd''] @
     List.map (\<lambda>i. ''0180.c200.'' @ hex_wide 4 i) [0..<0x11] @ [''0180.c200.0021'', ''ffff.ffff.ffff'']"

definition port_prefixes :: "(string \<times> string) list" where
  "port_prefixes = [(''TenGigabitEthernet'', ''Te''), (''GigabitEthernet'', ''Gi''), (''FastEthernet'', ''Fa''),
     (''Port-channel'', ''Po''), (''Vlan'', ''Vl'')]"

definition short_port :: "string \<Rightarrow> string" where
  "short_port n =
     (case find (\<lambda>(full, _). starts_with n full) port_prefixes of
        Some (full, abbr) \<Rightarrow> abbr @ drop (length full) n
      | None \<Rightarrow> n)"

definition svi_macs :: "(string \<Rightarrow> int) \<Rightarrow> (dev, device_info) dict \<Rightarrow> dev \<Rightarrow> (string \<times> int) list" where
  "svi_macs pyhash book d =
     List.map_filter (\<lambda>n.
       if \<not> starts_with n ''Vlan'' then None
       else case py_int (drop 4 n) of
              None \<Rightarrow> None
            | Some v \<Rightarrow> Some (cisco_mac (''00a6ca'' @ hex_wide 6 (nat (\<bar>pyhash (d @ '':'' @ n)\<bar> mod 16 ^ 6))), v))
       (sort (dkeys (ifaces_of book d)))"

definition pad_right :: "nat \<Rightarrow> string \<Rightarrow> string" where
  "pad_right n s = s @ replicate (n - length s) (CHR '' '')"

definition pad_left :: "nat \<Rightarrow> string \<Rightarrow> string" where
  "pad_left n s = replicate (n - length s) (CHR '' '') @ s"

definition mac_row :: "string \<Rightarrow> string \<Rightarrow> string \<Rightarrow> string \<Rightarrow> string" where
  "mac_row vlan mac kind port = pad_left 4 vlan @ ''    '' @ pad_right 18 mac @ pad_right 12 kind @ port"

definition format_mac_table :: "(string \<Rightarrow> int) \<Rightarrow> (dev, device_info) dict \<Rightarrow> data_plane \<Rightarrow> dev \<Rightarrow> string list" where
  "format_mac_table pyhash book s d =
     (let cpu = List.map (\<lambda>m. mac_row ''All'' m ''STATIC'' ''CPU'') cpu_reserved_macs;
          svis = List.map (\<lambda>(m, v). mac_row (show_int v) m ''STATIC'' (short_port (''Vlan'' @ show_int v)))
                   (svi_macs pyhash book d);
          learned = List.map (\<lambda>x. mac_row (show_int (me_vlan x)) (cisco_mac (me_mac x)) (me_type x) (short_port (me_port x)))
                   (sort_key (\<lambda>x. (me_vlan x, me_port x)) (dvals (mac_tables s d)));
          total = length cpu + length svis + length learned
      in [''          Mac Address Table'', ''-------------------------------------------'', [],
          ''Vlan    Mac Address       Type        Ports'', ''----    -----------       --------    -----''] @
         cpu @ svis @ learned @ [''Total Mac Addresses for this criterion: '' @ show_int (int total)])"

subsection \<open>Learning on the path of a ping\<close>

type_synonym port_vlan_texts = "(dev, (iface, string option) dict) dict"

definition port_vlan :: "port_vlan_texts \<Rightarrow> dev \<Rightarrow> iface \<Rightarrow> int" where
  "port_vlan sess d p =
     (case dget sess d of
        None \<Rightarrow> 1
      | Some ifs \<Rightarrow>
          (case dget ifs p of
             None \<Rightarrow> 1
           | Some v \<Rightarrow>
               (let w = (case v of None \<Rightarrow> ''1'' | Some w \<Rightarrow> w)
                in if w \<noteq> [] \<and> list_all is_digit w then (case py_int w of Some n \<Rightarrow> n | None \<Rightarrow> 1) else 1)))"

definition switch_types :: "string list" where
  "switch_types = [''catalyst'', ''srs'', ''nexus'', ''apresia'']"

definition is_switch :: "vnet \<Rightarrow> dev \<Rightarrow> bool" where
  "is_switch v d \<longleftrightarrow> dget_or (device_types v) d [] \<in> set switch_types"

definition link_port :: "vnet \<Rightarrow> dev \<Rightarrow> dev \<Rightarrow> iface option" where
  "link_port v d peer = (case dget (interface_links v d) peer of Some [] \<Rightarrow> None | x \<Rightarrow> x)"

definition learn_from_source ::
  "rat \<Rightarrow> vnet \<Rightarrow> port_vlan_texts \<Rightarrow> dev \<Rightarrow> string \<Rightarrow> dev \<Rightarrow> data_plane \<Rightarrow> data_plane"
where
  "learn_from_source now v sess src mac p s =
     (let s1 = (case link_port v src p of None \<Rightarrow> s | Some q \<Rightarrow> dp_bump src q ''out'' 5 100 s)
      in case link_port v p src of
           None \<Rightarrow> s1
         | Some q \<Rightarrow>
             (let s2 = dp_bump p q ''in'' 5 100 s1
              in if is_switch v p then dp_learn now p mac q (port_vlan sess p q) s2 else s2))"

definition learn_from_dest ::
  "rat \<Rightarrow> vnet \<Rightarrow> port_vlan_texts \<Rightarrow> dev \<Rightarrow> string \<Rightarrow> dev \<Rightarrow> data_plane \<Rightarrow> data_plane"
where
  "learn_from_dest now v sess t mac p s =
     (case link_port v p t of
        None \<Rightarrow> s
      | Some q \<Rightarrow> if is_switch v p then dp_learn now p mac q (port_vlan sess p q) s else s)"

definition learn_dataplane ::
  "rat \<Rightarrow> arp_env \<Rightarrow> port_vlan_texts \<Rightarrow> dev \<Rightarrow> ip \<Rightarrow> bool \<Rightarrow> data_plane \<Rightarrow> data_plane"
where
  "learn_dataplane now e sess src dest ok s =
     (case dkeys (ips_of (av_book e) src) of
        [] \<Rightarrow> s
      | my # _ \<Rightarrow>
          (let s1 = fold (learn_from_source now (av_net e) sess src (arp_mac (av_hash e) src my))
                      (get_neighbors (av_net e) src) s
           in if \<not> ok then s1
              else case find_device_owning_ip (av_book e) dest of
                     None \<Rightarrow> s1
                   | Some t \<Rightarrow>
                       if t = [] then s1
                       else fold (learn_from_dest now (av_net e) sess t (arp_mac (av_hash e) t dest))
                              (get_neighbors (av_net e) t) s1))"

text \<open>\<open>_apply_nat_on_path\<close>\<close>

definition nat_hop :: "real \<Rightarrow> (dev, device_info) dict \<Rightarrow> ip \<Rightarrow> ip \<Rightarrow> string \<Rightarrow> hop \<Rightarrow> nat_engine \<Rightarrow> nat_engine" where
  "nat_hop now book src dest proto h n =
     (if h_device h \<noteq> [] \<and> has_nat n (h_device h) then fst (translate now n book (h_device h) src dest proto) else n)"

definition nat_on_path :: "real \<Rightarrow> (dev, device_info) dict \<Rightarrow> dev \<Rightarrow> ip \<Rightarrow> trace_result \<Rightarrow> string \<Rightarrow> nat_engine \<Rightarrow> nat_engine" where
  "nat_on_path now book src dest r proto n =
     (if \<not> reachable r then n
      else case dkeys (ips_of book src) of
             [] \<Rightarrow> n
           | my # _ \<Rightarrow>
               if \<exists>(a, p)\<in>set (ips_of book src). ip_in_network dest a p then n
               else fold (nat_hop now book my dest proto) (hops r) n)"

record lab =
  lab_arp :: arp
  lab_icmp :: icmp
  lab_nat :: nat_engine
  lab_dp :: data_plane

text \<open>The \<open>ping\<close> command for an address: resolution, the trace, translation, learning. \<open>best\<close> is the route
  selection of each device.\<close>

definition ping_command ::
  "rat \<Rightarrow> l3env \<Rightarrow> (dev \<Rightarrow> cand list res) \<Rightarrow> (string \<Rightarrow> int) \<Rightarrow> port_vlan_texts \<Rightarrow> string option \<Rightarrow> route_line list \<Rightarrow>
     dev \<Rightarrow> ip \<Rightarrow> lab \<Rightarrow> lab \<times> (dev \<times> arp_msg) list \<times> (trace_result \<times> int) res"
where
  "ping_command now e best pyhash sess gateway routes d dest s =
     (let av = \<lparr>av_net = l3_net e, av_book = l3_book e, av_nat = lab_nat s, av_hash = pyhash\<rparr>
      in case arp_before_send now av d dest gateway routes (lab_arp s) of (arp1, out) \<Rightarrow>
         (case ping e best now (lab_icmp s) d dest 5 of
            (ic, Inl x) \<Rightarrow> (s\<lparr>lab_arp := arp1, lab_icmp := ic\<rparr>, out, Inl x)
          | (ic, Inr (r, ttl)) \<Rightarrow>
              (s\<lparr>lab_arp := arp1, lab_icmp := ic,
                 lab_nat := nat_on_path (of_rat now) (l3_book e) d dest r ''icmp'' (lab_nat s),
                 lab_dp := learn_dataplane now av sess d dest (reachable r) (lab_dp s)\<rparr>,
               out, Inr (r, ttl))))"

subsection \<open>The table stays bounded and only the oldest entry is given up\<close>

lemma min_age_spec:
  "min_age b xs \<in> set (b # xs) \<and> (\<forall>y\<in>set (b # xs). me_age (snd (min_age b xs)) \<le> me_age (snd y))"
proof (induction xs arbitrary: b)
  case (Cons x xs)
  show ?case
  proof (cases "me_age (snd x) < me_age (snd b)")
    case True
    with Cons [of x] show ?thesis by fastforce
  next
    case False
    with Cons [of b] show ?thesis by fastforce
  qed
qed simp

text \<open>A minimum that is not earlier in the list is not chosen.\<close>

lemma min_age_first:
  "me_age (snd b) \<le> me_age (snd y) \<Longrightarrow> \<forall>x\<in>set xs. me_age (snd x) \<le> me_age (snd y) \<Longrightarrow> min_age b (xs @ [y]) = min_age b xs"
proof (induction xs arbitrary: b)
  case (Cons x xs)
  then show ?case by auto
qed simp

definition mac_table_ok :: "mac_table \<Rightarrow> bool" where
  "mac_table_ok t \<longleftrightarrow> dict_ok t \<and> length t \<le> 256 \<and> (\<forall>(k, x)\<in>set t. k = (me_vlan x, me_mac x))"

lemma learn_entry_ok:
  assumes "mac_table_ok t"
  shows "dict_ok (learn_entry now mac port vlan t)" "length (learn_entry now mac port vlan t) \<le> 257"
    "\<forall>(k, x)\<in>set (learn_entry now mac port vlan t). k = (me_vlan x, me_mac x)"
proof -
  have k: "\<forall>(k, x)\<in>set t. k = (me_vlan x, me_mac x)" using assms by (simp add: mac_table_ok_def)
  show "dict_ok (learn_entry now mac port vlan t)"
    using assms by (auto simp: mac_table_ok_def learn_entry_def split: option.split)
  show "length (learn_entry now mac port vlan t) \<le> 257"
    using assms by (auto simp: mac_table_ok_def learn_entry_def length_dset split: option.split)
  show "\<forall>(k, x)\<in>set (learn_entry now mac port vlan t). k = (me_vlan x, me_mac x)"
  proof (cases "dget t (vlan, mac)")
    case None
    with k show ?thesis using set_dset_subset by (fastforce simp: learn_entry_def)
  next
    case (Some x)
    from dget_SomeD [OF Some] k have "(vlan, mac) = (me_vlan x, me_mac x)" by auto
    with k Some show ?thesis using set_dset_subset by (fastforce simp: learn_entry_def)
  qed
qed

lemma trim_table_ok:
  assumes "dict_ok t" "length t \<le> 257" "\<forall>(k, x)\<in>set t. k = (me_vlan x, me_mac x)"
  shows "mac_table_ok (trim_table t)"
proof (cases "length t > 256")
  case False
  then show ?thesis using assms by (auto simp: trim_table_def mac_table_ok_def split: list.split)
next
  case True
  then obtain x xs where t: "t = x # xs" by (cases t) auto
  let ?k = "fst (min_age x xs)"
  have "min_age x xs \<in> set t" using min_age_spec [of x xs] t by simp
  then have "dget t ?k = Some (snd (min_age x xs))" using assms(1) by (intro dget_in_set) auto
  from length_dpop_less [OF this] have "length (dpop t ?k) \<le> 256" using assms(2) by simp
  with assms True t show ?thesis using set_dpop_subset [of t ?k] by (fastforce simp: trim_table_def mac_table_ok_def)
qed

lemma learned_table_ok: "mac_table_ok t \<Longrightarrow> mac_table_ok (trim_table (learn_entry now mac port vlan t))"
  by (rule trim_table_ok) (simp_all add: learn_entry_ok)

datatype dp_op =
    Learn rat dev string iface int
  | ClearMacs dev
  | Bump dev iface string int int
  | ClearCounters dev

fun dp_apply :: "dp_op \<Rightarrow> data_plane \<Rightarrow> data_plane" where
  "dp_apply (Learn now d mac p v) s = dp_learn now d mac p v s"
| "dp_apply (ClearMacs d) s = clear_mac_dynamic d s"
| "dp_apply (Bump d i dir n z) s = dp_bump d i dir n z s"
| "dp_apply (ClearCounters d) s = clear_counters d s"

definition dp_ok :: "data_plane \<Rightarrow> bool" where
  "dp_ok s \<longleftrightarrow> (\<forall>d. mac_table_ok (mac_tables s d))"

lemma bump_tables [simp]: "mac_tables (dp_bump d i dir n z s) = mac_tables s"
  by (simp add: dp_bump_def Let_def)

lemma cleared_ok: "mac_table_ok t \<Longrightarrow> mac_table_ok (filter P t)"
  by (auto simp: mac_table_ok_def dict_ok_def distinct_map_filter intro: order_trans [OF length_filter_le])

lemma dp_ok_apply: "dp_ok s \<Longrightarrow> dp_ok (dp_apply op s)"
  by (cases op) (auto simp: dp_ok_def dp_learn_def clear_mac_dynamic_def clear_counters_def learned_table_ok cleared_ok)

interpretation dp_run: machine dp_apply dp_init dp_ok
  by unfold_locales (simp_all add: dp_ok_apply, simp add: dp_init_def dp_ok_def mac_table_ok_def)

text \<open>Whatever is learned and cleared, a switch never holds more than 256 addresses, at most one entry
  for an address in a VLAN, each under the key made of its own VLAN and address.\<close>

theorem mac_tables_bounded: "mac_table_ok (mac_tables (fold dp_apply ops dp_init) d)"
  using dp_run.run_inv [of ops] by (simp add: dp_ok_def)

lemma trim_small: "\<not> 256 < length t \<Longrightarrow> trim_table t = t"
  by (cases t) (simp_all add: trim_table_def)

text \<open>An address that is learned when the clock does not run backwards is in the table afterwards, at the
  port it was seen on; every other address stays as it was, but for at most one, and only in a full
  table: one that no entry is older than.\<close>

theorem learn_gives_up_oldest_only:
  assumes "mac_table_ok (mac_tables s d)" "\<forall>x\<in>set (dvals (mac_tables s d)). me_age x \<le> now"
    and "t = mac_tables (dp_learn now d mac port vlan s) d"
  shows "map_option (\<lambda>x. (me_port x, me_age x)) (dget t (vlan, mac)) = Some (port, now) \<and>
    (\<forall>k. k \<noteq> (vlan, mac) \<and> dget t k \<noteq> dget (mac_tables s d) k \<longrightarrow>
       length (mac_tables s d) = 256 \<and> dget (mac_tables s d) (vlan, mac) = None \<and>
       (\<exists>x. dget (mac_tables s d) k = Some x \<and> (\<forall>y\<in>set (dvals (mac_tables s d)). me_age x \<le> me_age y)))"
proof -
  let ?t = "mac_tables s d"
  have t: "t = trim_table (learn_entry now mac port vlan ?t)" using assms(3) by (simp add: dp_learn_def)
  show ?thesis
  proof (cases "256 < length (learn_entry now mac port vlan ?t)")
    case False
    then have "t = learn_entry now mac port vlan ?t" unfolding t by (rule trim_small)
    then show ?thesis by (auto simp: learn_entry_def split: option.split)
  next
    case True
    have small: "length ?t \<le> 256" using assms(1) by (simp add: mac_table_ok_def)
    from True small have new: "dget ?t (vlan, mac) = None" and full: "length ?t = 256"
      by (auto simp: learn_entry_def length_dset split: option.splits if_splits)
    obtain x xs where xs: "?t = x # xs" using full by (cases ?t) auto
    define y where "y = ((vlan, mac), \<lparr>me_vlan = vlan, me_mac = mac, me_port = port, me_type = ''DYNAMIC'', me_age = now\<rparr>)"
    have le: "learn_entry now mac port vlan ?t = x # (xs @ [y])"
      using new by (simp add: learn_entry_def dset_new xs y_def)
    have ages: "\<forall>z\<in>set (x # xs). me_age (snd z) \<le> me_age (snd y)"
      using assms(2) by (simp add: xs dvals_def y_def)
    then have m: "min_age x (xs @ [y]) = min_age x xs" by (simp add: min_age_first)
    let ?m = "min_age x xs"
    have mem: "?m \<in> set ?t" and least: "\<forall>z\<in>set ?t. me_age (snd ?m) \<le> me_age (snd z)"
      using min_age_spec [of x xs] by (simp_all add: xs)
    from mem assms(1) have got: "dget ?t (fst ?m) = Some (snd ?m)" by (intro dget_in_set) (auto simp: mac_table_ok_def)
    have t': "t = dpop (learn_entry now mac port vlan ?t) (fst ?m)"
      using True by (simp add: t le trim_table_def m)
    have ne: "fst ?m \<noteq> (vlan, mac)" using got new by auto
    have "map_option (\<lambda>x. (me_port x, me_age x)) (dget t (vlan, mac)) = Some (port, now)"
      using ne new by (simp add: t' learn_entry_def)
    moreover have "k = fst ?m" if "k \<noteq> (vlan, mac)" "dget t k \<noteq> dget ?t k" for k
      using that new by (auto simp: t' learn_entry_def split: if_splits)
    moreover have "\<forall>y\<in>set (dvals ?t). me_age (snd ?m) \<le> me_age y" using least by (auto simp: dvals_def)
    ultimately show ?thesis using got full new by metis
  qed
qed

theorem learn_gives_up_oldest_only_witness:
  "map_option (\<lambda>x. (me_port x, me_age x)) (dget (mac_tables (dp_learn 5 ''S'' ''aa'' ''Gi1'' 10 dp_init) ''S'') (10, ''aa'')) = Some (''Gi1'', 5)"
proof -
  have "mac_table_ok (mac_tables dp_init ''S'')" "\<forall>x\<in>set (dvals (mac_tables dp_init ''S'')). me_age x \<le> 5"
    by (simp_all add: dp_init_def mac_table_ok_def dvals_def)
  from learn_gives_up_oldest_only [OF this refl] show ?thesis by blast
qed

subsection \<open>A ping teaches the switches and fills the translation tables\<close>

lemma fold_own_table:
  assumes "\<forall>p s d. mac_tables (f p s) d = (if d = p then g p (mac_tables s p) else mac_tables s d)" "distinct ps"
  shows "mac_tables (fold f ps s) d = (if d \<in> set ps then g d (mac_tables s d) else mac_tables s d)"
  using assms(2) by (induction ps arbitrary: s) (auto simp: assms(1))

definition switch_learns :: "rat \<Rightarrow> vnet \<Rightarrow> port_vlan_texts \<Rightarrow> dev \<Rightarrow> string \<Rightarrow> dev \<Rightarrow> mac_table \<Rightarrow> mac_table" where
  "switch_learns now v sess towards mac p t =
     (case link_port v p towards of
        None \<Rightarrow> t
      | Some q \<Rightarrow> if is_switch v p then trim_table (learn_entry now mac q (port_vlan sess p q) t) else t)"

lemma learn_from_source_table:
  "mac_tables (learn_from_source now v sess src mac p s) d =
     (if d = p then switch_learns now v sess src mac p (mac_tables s p) else mac_tables s d)"
  by (simp add: learn_from_source_def switch_learns_def Let_def dp_learn_def split: option.split)

lemma learn_from_dest_table:
  "mac_tables (learn_from_dest now v sess t mac p s) d =
     (if d = p then switch_learns now v sess t mac p (mac_tables s p) else mac_tables s d)"
  by (simp add: learn_from_dest_def switch_learns_def Let_def dp_learn_def split: option.split)

lemma learn_entry_length: "length (learn_entry now mac q w t) \<le> Suc (length t)"
  by (simp add: learn_entry_def length_dset_le split: option.split)

lemma switch_learns_other:
  "length t < 256 \<Longrightarrow> mac' \<noteq> mac \<Longrightarrow> dget (switch_learns now v sess x mac p t) (w, mac') = dget t (w, mac')"
  using learn_entry_length [of now mac _ _ t]
  by (auto simp: switch_learns_def learn_entry_def length_dset trim_small split: option.split)

text \<open>A ping teaches every switch at the sender: unless its table is nearly full, the switch holds the
  sender's hardware address at the port towards it, in that port's VLAN, whether the ping succeeds or
  not and whatever the answer teaches.\<close>

theorem ping_teaches_switches:
  assumes "dkeys (ips_of (av_book e) src) = my # rest" "distinct (get_neighbors (av_net e) src)"
    and "p \<in> set (get_neighbors (av_net e) src)" "is_switch (av_net e) p" "link_port (av_net e) p src = Some q"
    and "length (mac_tables s p) < 255" "\<forall>d. distinct (get_neighbors (av_net e) d)"
    and "\<forall>t. find_device_owning_ip (av_book e) dest = Some t \<longrightarrow>
      arp_mac (av_hash e) t dest \<noteq> arp_mac (av_hash e) src my"
  shows "map_option me_port (dget (mac_tables (learn_dataplane now e sess src dest ok s) p)
      (port_vlan sess p q, arp_mac (av_hash e) src my)) = Some q"
proof -
  let ?mac = "arp_mac (av_hash e) src my"
  let ?w = "port_vlan sess p q"
  define s1 where "s1 = fold (learn_from_source now (av_net e) sess src ?mac) (get_neighbors (av_net e) src) s"
  have "mac_tables s1 p = switch_learns now (av_net e) sess src ?mac p (mac_tables s p)"
    unfolding s1_def using assms(2,3)
    by (subst fold_own_table [where g = "switch_learns now (av_net e) sess src ?mac"]) (simp_all add: learn_from_source_table)
  moreover have "length (learn_entry now ?mac q ?w (mac_tables s p)) < 256"
    using learn_entry_length [of now ?mac q ?w "mac_tables s p"] assms(6) by simp
  ultimately have tab: "mac_tables s1 p = learn_entry now ?mac q ?w (mac_tables s p)" "length (mac_tables s1 p) < 256"
    using assms(4,5) by (simp_all add: switch_learns_def trim_small)
  have here: "map_option me_port (dget (mac_tables s1 p) (?w, ?mac)) = Some q"
    by (simp add: tab(1) learn_entry_def split: option.split)
  have dest: "dget (mac_tables (fold (learn_from_dest now (av_net e) sess t mac) (get_neighbors (av_net e) t) s1) p) (?w, ?mac) =
      dget (mac_tables s1 p) (?w, ?mac)" if "mac \<noteq> ?mac" for t mac
    using assms(7) switch_learns_other [OF tab(2) that [symmetric]]
    by (subst fold_own_table [where g = "switch_learns now (av_net e) sess t mac"]) (simp_all add: learn_from_dest_table)
  show ?thesis
    using here dest assms(1,8) by (auto simp: learn_dataplane_def Let_def simp flip: s1_def split: option.split)
qed

definition demo_switched :: arp_env where
  "demo_switched = demo_arp_env\<lparr>av_net := vnet_init\<lparr>links := [(''PC'', [''SW'']), (''SW'', [''PC''])],
     interface_links := (\<lambda>d. if d = ''SW'' then [(''PC'', ''Gi1/0/1'')] else []), device_types := [(''SW'', ''catalyst'')]\<rparr>\<rparr>"

theorem ping_teaches_switches_witness:
  "map_option me_port (dget (mac_tables (learn_dataplane 7 demo_switched [(''SW'', [(''Gi1/0/1'', Some ''10'')])] ''PC'' ''10.0.0.9'' False dp_init) ''SW'')
      (10, arp_mac (\<lambda>w. int (length w)) ''PC'' ''10.0.0.5'')) = Some ''Gi1/0/1''"
proof -
  let ?sess = "[(''SW'', [(''Gi1/0/1'', Some ''10'')])]"
  have 1: "dkeys (ips_of (av_book demo_switched) ''PC'') = [''10.0.0.5'']"
    "is_switch (av_net demo_switched) ''SW''" "link_port (av_net demo_switched) ''SW'' ''PC'' = Some ''Gi1/0/1''"
    "find_device_owning_ip (av_book demo_switched) ''10.0.0.9'' = None" "port_vlan ?sess ''SW'' ''Gi1/0/1'' = 10"
    by code_simp+
  have 2: "get_neighbors (av_net demo_switched) d = (if d = ''PC'' then [''SW''] else if d = ''SW'' then [''PC''] else [])" for d
    by (simp add: demo_switched_def get_neighbors_def nbrs_def)
  have 3: "av_hash demo_switched = (\<lambda>w. int (length w))" by (simp add: demo_switched_def demo_arp_env_def)
  show ?thesis
    using ping_teaches_switches [of demo_switched "''PC''" "''10.0.0.5''" "[]" "''SW''" "''Gi1/0/1''" dp_init "''10.0.0.9''" 7 ?sess False]
    by (simp add: 1 2 3 dp_init_def)
qed

lemma translate_tables_other:
  "d' \<noteq> d \<Longrightarrow> xlations (fst (translate now n devs d src dest proto)) d' = xlations n d'"
  by (auto simp: translate_def record_entry_def Let_def split: option.splits prod.splits)

text \<open>Whether a flow is translated depends on the configuration alone.\<close>

lemma translates_config:
  "nat_cfgs m = nat_cfgs n \<Longrightarrow> nat_acls m = nat_acls n \<Longrightarrow>
     snd (translate now m devs d src dest proto) = None \<longleftrightarrow> snd (translate now n devs d src dest proto) = None"
  unfolding translate_def Let_def
  by (auto simp: has_nat_def acl_permits_def outside_iface_ip_def split: option.splits prod.splits if_splits)

lemma nat_hop_config:
  "nat_cfgs (nat_hop now book my dest proto h n) = nat_cfgs n \<and> nat_acls (nat_hop now book my dest proto h n) = nat_acls n"
  by (cases "translate now n book (h_device h) my dest proto") (simp add: nat_hop_def translate_config)

lemma nat_hops_config:
  "nat_cfgs (fold (nat_hop now book my dest proto) hs n) = nat_cfgs n \<and>
   nat_acls (fold (nat_hop now book my dest proto) hs n) = nat_acls n"
  by (induction hs arbitrary: n) (simp_all add: nat_hop_config)

definition has_flow :: "nat_engine \<Rightarrow> dev \<Rightarrow> ip \<Rightarrow> ip \<Rightarrow> string \<Rightarrow> bool" where
  "has_flow n d src dest proto \<longleftrightarrow> (src, dest, proto) \<in> set (List.map flow_of (xlations n d))"

lemma translate_makes_flow:
  assumes "snd (translate now n devs d src dest proto) \<noteq> None"
  shows "has_flow (fst (translate now n devs d src dest proto)) d src dest proto"
proof -
  obtain n' x where t: "translate now n devs d src dest proto = (n', Some x)"
    using assms by (cases "translate now n devs d src dest proto") auto
  from translate_in_table [OF t, of now] have "touch now src dest proto (xlations n' d) \<noteq> None" by auto
  then show ?thesis by (simp add: touch_None has_flow_def t)
qed

lemma translate_no_has_nat: "\<not> has_nat n d \<Longrightarrow> snd (translate now n devs d src dest proto) = None"
  by (simp add: translate_def Let_def)

text \<open>After a successful ping to another segment, every router on the path whose configuration
  translates the sender's flow holds a translation of it, in whatever order the path visits them.\<close>

theorem nat_along_path:
  assumes "reachable r" "dkeys (ips_of book src) = my # rest"
    and "\<forall>(a, p)\<in>set (ips_of book src). \<not> ip_in_network dest a p"
    and "h \<in> set (hops r)" "h_device h \<noteq> []" "snd (translate now n book (h_device h) my dest proto) \<noteq> None"
  shows "has_flow (nat_on_path now book src dest r proto n) (h_device h) my dest proto"
proof -
  let ?d = "h_device h"
  have step: "has_flow (nat_hop now book my dest proto x m) ?d my dest proto"
    if "has_flow m ?d my dest proto \<or> h_device x = ?d" "nat_cfgs m = nat_cfgs n" "nat_acls m = nat_acls n" for x m
  proof (cases "h_device x = ?d")
    case True
    have "snd (translate now m book ?d my dest proto) \<noteq> None" using assms(6) translates_config [OF that(2,3)] by simp
    moreover from this have "has_nat m ?d" by (metis translate_no_has_nat)
    ultimately show ?thesis using True assms(5) translate_makes_flow by (simp add: nat_hop_def)
  next
    case False
    with that(1) show ?thesis by (simp add: has_flow_def nat_hop_def translate_tables_other)
  qed
  have all: "has_flow (fold (nat_hop now book my dest proto) hs m) ?d my dest proto"
    if "has_flow m ?d my dest proto \<or> (\<exists>x\<in>set hs. h_device x = ?d)" "nat_cfgs m = nat_cfgs n" "nat_acls m = nat_acls n" for hs m
    using that
  proof (induction hs arbitrary: m)
    case (Cons x hs)
    have c: "nat_cfgs (nat_hop now book my dest proto x m) = nat_cfgs n" "nat_acls (nat_hop now book my dest proto x m) = nat_acls n"
      using Cons.prems nat_hop_config by simp_all
    show ?case using Cons.IH [of "nat_hop now book my dest proto x m"] Cons.prems c step [of m x] by auto
  qed simp
  from all [of n "hops r"] assms(1-4) show ?thesis by (auto simp: nat_on_path_def)
qed

theorem nat_along_path_witness:
  "has_flow (nat_on_path 3 demo_book ''PC'' ''10.9.9.9''
      \<lparr>reachable = True, hops = [\<lparr>h_device = ''R'', h_hostname = ''R'', h_ip = None, h_timeout = False, h_ipsec = False\<rparr>],
       tr_reason = ConnectedNet, dest_device = None\<rparr> ''icmp'' (NatEngine.add_static nat_init ''R'' ''10.0.0.5'' ''192.0.2.5''))
     ''R'' ''10.0.0.5'' ''10.9.9.9'' ''icmp''"
proof -
  let ?h = "\<lparr>h_device = ''R'', h_hostname = ''R'', h_ip = None, h_timeout = False, h_ipsec = False\<rparr>"
  let ?r = "\<lparr>reachable = True, hops = [?h], tr_reason = ConnectedNet, dest_device = None\<rparr>"
  have 1: "dkeys (ips_of demo_book ''PC'') = [''10.0.0.5'']" by code_simp
  have 2: "\<forall>(a, p)\<in>set (ips_of demo_book ''PC''). \<not> ip_in_network ''10.9.9.9'' a p" by code_simp
  have 3: "snd (translate 3 (NatEngine.add_static nat_init ''R'' ''10.0.0.5'' ''192.0.2.5'') demo_book ''R'' ''10.0.0.5'' ''10.9.9.9'' ''icmp'') \<noteq> None"
    by (simp add: translate_def has_nat_def NatEngine.add_static_def upd_cfg_def nat_init_def empty_cfg_def Let_def
        split: prod.split)
  show ?thesis using nat_along_path [where r = ?r and h = ?h, OF _ 1 2] 3 by simp
qed

end
