(* ===== verification/Threat.thy ===== *)
theory Threat
  imports Complex_Main Addr
begin

text \<open>
  Scan detection, \<open>engine/threat_detection.py\<close>, with the commands that set it and the lines
  \<open>show running-config\<close> prints for it (\<open>engine/rules.py\<close>). Times and rates are exact rationals where the
  code has floats. An attempt reads the clock twice, when it comes in (\<open>now\<close>) and where the shun is looked up
  (\<open>later\<close>); the other operations read it once. One \<open>watch\<close> is the state kept for one device.
\<close>

record td_cfg =
  td_enabled :: bool
  td_shun :: bool
  td_duration :: int
  td_except :: "(string \<times> string) list"
  td_interval :: int
  td_average :: int
  td_burst :: int

definition default_config :: td_cfg where
  "default_config = \<lparr>td_enabled = False, td_shun = False, td_duration = 3600, td_except = [],
     td_interval = 600, td_average = 5, td_burst = 10\<rparr>"

record watch =
  attempts :: "(string, rat list) dict"
  shunned :: "(string, rat) dict"

definition no_watch :: watch where
  "no_watch = \<lparr>attempts = [], shunned = []\<rparr>"

definition burst_interval :: "int \<Rightarrow> int" where
  "burst_interval i = max 10 (i div 30)"

definition is_excepted :: "string \<Rightarrow> (string \<times> string) list \<Rightarrow> bool" where
  "is_excepted src excs =
     (case ipv4_address src of
        None \<Rightarrow> False
      | Some a \<Rightarrow> (\<exists>(e, mask)\<in>set excs.
          (case ip_network (e @ ''/'' @ mask) of
             None \<Rightarrow> False
           | Some (net, p) \<Rightarrow> a AND mask_int p = net)))"

definition hit_rate :: "rat list \<Rightarrow> rat \<Rightarrow> int \<Rightarrow> rat" where
  "hit_rate ts now i =
     (if i \<le> 0 then 0 else of_nat (length (filter (\<lambda>t. t \<ge> now - of_int i) ts)) / of_int i)"

definition is_shunned :: "rat \<Rightarrow> string \<Rightarrow> td_cfg \<Rightarrow> watch \<Rightarrow> watch \<times> bool" where
  "is_shunned now src cfg s =
     (case dget (shunned s) src of
        None \<Rightarrow> (s, False)
      | Some t \<Rightarrow>
          if now - t > of_int (td_duration cfg) then (s\<lparr>shunned := dpop (shunned s) src\<rparr>, False)
          else (s, True))"

definition too_fast :: "td_cfg \<Rightarrow> rat \<Rightarrow> rat list \<Rightarrow> bool" where
  "too_fast cfg now ts \<longleftrightarrow>
     td_shun cfg \<and> (hit_rate ts now (td_interval cfg) \<ge> of_int (td_average cfg) \<or>
                     hit_rate ts now (burst_interval (td_interval cfg)) \<ge> of_int (td_burst cfg))"

definition record_attempt :: "rat \<Rightarrow> rat \<Rightarrow> string \<Rightarrow> td_cfg \<Rightarrow> watch \<Rightarrow> watch \<times> bool" where
  "record_attempt now later src cfg s =
     (if \<not> td_enabled cfg then (s, False)
      else let ts = dropWhile (\<lambda>t. t < now - of_int (td_interval cfg)) (dget_or (attempts s) src [] @ [now]);
               s1 = s\<lparr>attempts := dset (attempts s) src ts\<rparr>
           in case is_shunned later src cfg s1 of (s2, sh) \<Rightarrow>
                if sh then (s2, True)
                else if is_excepted src (td_except cfg) then (s2, False)
                else if too_fast cfg now ts then (s2\<lparr>shunned := dset (shunned s2) src now\<rparr>, True)
                else (s2, False))"

record td_rates =
  rt_average :: rat
  rt_burst :: rat
  rt_total :: nat

definition get_rates :: "rat \<Rightarrow> td_cfg \<Rightarrow> watch \<Rightarrow> (string \<times> td_rates) list" where
  "get_rates now cfg s =
     List.map (\<lambda>(src, ts). (src, \<lparr>rt_average = hit_rate ts now (td_interval cfg),
         rt_burst = hit_rate ts now (burst_interval (td_interval cfg)), rt_total = length ts\<rparr>)) (attempts s)"

definition get_shun_list :: "rat \<Rightarrow> td_cfg \<Rightarrow> watch \<Rightarrow> (string \<times> int) list" where
  "get_shun_list now cfg s =
     List.map (\<lambda>(src, t). (src, max 0 \<lfloor>of_int (td_duration cfg) - (now - t)\<rfloor>))
       (filter (\<lambda>(_, t). now - t \<le> of_int (td_duration cfg)) (shunned s))"

definition clear_shun :: "string option \<Rightarrow> watch \<Rightarrow> watch" where
  "clear_shun src s = (case src of None \<Rightarrow> s\<lparr>shunned := []\<rparr> | Some x \<Rightarrow> s\<lparr>shunned := dpop (shunned s) x\<rparr>)"

subsection \<open>Commands\<close>

definition dotted :: "string \<Rightarrow> bool" where
  "dotted w \<longleftrightarrow> w \<noteq> [] \<and> list_all (\<lambda>c. is_digit c \<or> c = CHR ''.'') w"

definition number_word :: "string \<Rightarrow> int option" where
  "number_word w = (if w \<noteq> [] \<and> list_all is_digit w then py_int w else None)"

text \<open>The configuration commands, on the words of the line; \<open>None\<close> is a line for another command.\<close>

definition td_command :: "string list \<Rightarrow> td_cfg \<Rightarrow> td_cfg option" where
  "td_command ws cfg =
     (if ws = [''no'', ''threat-detection'', ''scanning-threat''] then Some (cfg\<lparr>td_enabled := False, td_shun := False\<rparr>)
      else if take 5 ws = [''threat-detection'', ''scanning-threat'', ''shun'', ''except'', ''ip-address''] \<and>
              length ws = 7 \<and> dotted (ws ! 5) \<and> dotted (ws ! 6)
      then Some (cfg\<lparr>td_enabled := True, td_shun := True, td_except := td_except cfg @ [(ws ! 5, ws ! 6)]\<rparr>)
      else if ws = [''threat-detection'', ''scanning-threat'', ''shun''] then Some (cfg\<lparr>td_enabled := True, td_shun := True\<rparr>)
      else if ws = [''threat-detection'', ''scanning-threat''] then Some (cfg\<lparr>td_enabled := True\<rparr>)
      else if take 3 ws = [''threat-detection'', ''shun'', ''duration''] \<and> length ws = 4
      then map_option (\<lambda>n. cfg\<lparr>td_duration := n\<rparr>) (number_word (ws ! 3))
      else if take 4 ws = [''threat-detection'', ''rate'', ''scanning-threat'', ''rate-interval''] \<and> length ws = 9 \<and>
              ws ! 5 = ''average-rate'' \<and> ws ! 7 = ''burst-rate''
      then (case (number_word (ws ! 4), number_word (ws ! 6), number_word (ws ! 8)) of
              (Some i, Some a, Some b) \<Rightarrow> Some (cfg\<lparr>td_interval := i, td_average := a, td_burst := b\<rparr>)
            | _ \<Rightarrow> None)
      else None)"

definition td_line :: "string \<Rightarrow> td_cfg \<Rightarrow> td_cfg" where
  "td_line line cfg = (case td_command (split_ws (lower line)) cfg of None \<Rightarrow> cfg | Some c \<Rightarrow> c)"

definition td_running :: "td_cfg \<Rightarrow> string list" where
  "td_running cfg =
     (if \<not> td_enabled cfg then []
      else (if td_interval cfg \<noteq> 600 \<or> td_average cfg \<noteq> 5 \<or> td_burst cfg \<noteq> 10
            then [''threat-detection rate scanning-threat rate-interval '' @ show_int (td_interval cfg) @
                  '' average-rate '' @ show_int (td_average cfg) @ '' burst-rate '' @ show_int (td_burst cfg)] else []) @
           (if td_duration cfg \<noteq> 3600 then [''threat-detection shun duration '' @ show_int (td_duration cfg)] else []) @
           (if td_shun cfg
            then ''threat-detection scanning-threat shun'' #
              List.map (\<lambda>(e, mask). ''threat-detection scanning-threat shun except ip-address '' @ e @ '' '' @ mask) (td_except cfg)
            else [''threat-detection scanning-threat'']))"

subsection \<open>The deque is the sliding window of the history\<close>

definition td_step :: "td_cfg \<Rightarrow> rat \<times> rat \<times> string \<Rightarrow> watch \<Rightarrow> watch" where
  "td_step cfg = (\<lambda>(now, later, src) s. fst (record_attempt now later src cfg s))"

definition times_of :: "string \<Rightarrow> (rat \<times> rat \<times> string) list \<Rightarrow> rat list" where
  "times_of src h = List.map fst (filter (\<lambda>x. snd (snd x) = src) h)"

definition window :: "rat \<Rightarrow> int \<Rightarrow> rat list \<Rightarrow> rat list" where
  "window now i ts = filter (\<lambda>t. t \<ge> now - of_int i) ts"

lemma times_of_snoc: "times_of src (h @ [(now, later, x)]) = times_of src h @ (if x = src then [now] else [])"
  by (simp add: times_of_def)

lemma dropWhile_sorted: "sorted ts \<Longrightarrow> dropWhile (\<lambda>t. t < c) ts = filter (\<lambda>t. t \<ge> (c::rat)) ts"
proof (induction ts)
  case (Cons t ts)
  show ?case
  proof (cases "t < c")
    case False
    with Cons.prems have "\<forall>x\<in>set (t # ts). x \<ge> c" by auto
    then show ?thesis using False by (simp add: filter_id_conv)
  qed (use Cons in simp)
qed simp

lemma attempts_shunned [simp]: "attempts (fst (is_shunned now src cfg s)) = attempts s"
  by (simp add: is_shunned_def split: option.split)

lemma record_attempts:
  "td_enabled cfg \<Longrightarrow> attempts (fst (record_attempt now later src cfg s)) =
     dset (attempts s) src (dropWhile (\<lambda>t. t < now - of_int (td_interval cfg)) (dget_or (attempts s) src [] @ [now]))"
proof -
  assume on: "td_enabled cfg"
  define s1 where "s1 = s\<lparr>attempts := dset (attempts s) src (dropWhile (\<lambda>t. t < now - of_int (td_interval cfg)) (dget_or (attempts s) src [] @ [now]))\<rparr>"
  obtain s2 sh where i: "is_shunned later src cfg s1 = (s2, sh)" by fastforce
  have "attempts s2 = attempts s1" using attempts_shunned [of later src cfg s1] i by simp
  with on i show ?thesis by (simp add: record_attempt_def Let_def s1_def)
qed

lemma step_attempts:
  "td_enabled cfg \<Longrightarrow> attempts (td_step cfg (now, later, src) s) =
     dset (attempts s) src (dropWhile (\<lambda>t. t < now - of_int (td_interval cfg)) (dget_or (attempts s) src [] @ [now]))"
  by (simp add: td_step_def record_attempts)

lemma sorted_times: "sorted (List.map fst h) \<Longrightarrow> sorted (times_of src h)"
proof (induction h)
  case (Cons x h)
  then have "\<forall>t\<in>set (times_of src h). fst x \<le> t" by (auto simp: times_of_def)
  with Cons show ?case by (auto simp: times_of_def)
qed (simp add: times_of_def)

text \<open>What the deque of a source holds after a history of attempts whose clock does not run backwards.\<close>

lemma deque_is_window:
  assumes "td_enabled cfg" "sorted (List.map fst h)"
  shows "dget_or (attempts (fold (td_step cfg) h no_watch)) src [] =
    window (last (times_of src h)) (td_interval cfg) (times_of src h)"
  using assms(2)
proof (induction h rule: rev_induct)
  case Nil
  show ?case by (simp add: times_of_def no_watch_def dget_or_def window_def)
next
  case (snoc x h)
  obtain now later y where x: "x = (now, later, y)" by (cases x)
  let ?s = "fold (td_step cfg) h no_watch"
  let ?w = "dget_or (attempts ?s) src []"
  let ?ts = "times_of src h"
  have h: "sorted (List.map fst h)" and le: "\<forall>t\<in>set (List.map fst h). t \<le> now" using snoc.prems by (simp_all add: sorted_append x)
  have tle: "\<forall>t\<in>set ?ts. t \<le> now" using le by (auto simp: times_of_def)
  show ?case
  proof (cases "y = src")
    case False
    then have "times_of src (h @ [x]) = ?ts" by (simp add: x times_of_snoc)
    moreover have "dget_or (attempts (td_step cfg x ?s)) src [] = ?w"
      using False assms(1) by (simp add: x step_attempts dget_or_def)
    ultimately show ?thesis using snoc.IH [OF h] by simp
  next
    case True
    have w: "?w = window (last ?ts) (td_interval cfg) ?ts" by (rule snoc.IH [OF h])
    have win: "filter (\<lambda>t. t \<ge> now - of_int (td_interval cfg)) ?w = window now (td_interval cfg) ?ts"
    proof (cases "?ts = []")
      case False
      then have "last ?ts \<le> now" using tle last_in_set by blast
      then show ?thesis using False by (auto simp: w window_def intro!: filter_cong)
    qed (simp add: w window_def)
    have sub: "set ?w \<subseteq> set ?ts" by (auto simp: w window_def)
    have "sorted ?w" using sorted_times [OF h, of src] by (simp add: w window_def sorted_wrt_filter)
    then have so: "sorted (?w @ [now])" using sub tle by (auto simp: sorted_append)
    have "dget_or (attempts (td_step cfg x ?s)) src [] = filter (\<lambda>t. t \<ge> now - of_int (td_interval cfg)) (?w @ [now])"
      using True assms(1) by (simp add: x step_attempts dget_or_def [of "dset _ _ _"] dropWhile_sorted [OF so])
    also have "\<dots> = window now (td_interval cfg) (?ts @ [now])" by (simp only: filter_append win window_def)
    finally show ?thesis using True by (simp add: x times_of_snoc)
  qed
qed

subsection \<open>Which attempts are refused\<close>

definition shun_active :: "rat \<Rightarrow> string \<Rightarrow> td_cfg \<Rightarrow> watch \<Rightarrow> bool" where
  "shun_active now src cfg s \<longleftrightarrow> (\<exists>t. dget (shunned s) src = Some t \<and> now - t \<le> of_int (td_duration cfg))"

lemma hit_rate_ge:
  "0 < i \<Longrightarrow> hit_rate ts now i \<ge> of_int r \<longleftrightarrow> r * i \<le> int (length (window now i ts))"
proof -
  assume i: "0 < i"
  have "of_int r * of_int i \<le> (of_nat n :: rat) \<longleftrightarrow> r * i \<le> int n" for n
    by (metis of_int_le_iff of_int_mult of_int_of_nat_eq)
  then show ?thesis using i by (simp add: hit_rate_def window_def pos_le_divide_eq)
qed

lemma record_result:
  assumes "td_enabled cfg"
  shows "snd (record_attempt now later src cfg s) \<longleftrightarrow> shun_active later src cfg s \<or>
    (\<not> is_excepted src (td_except cfg) \<and>
     too_fast cfg now (dropWhile (\<lambda>t. t < now - of_int (td_interval cfg)) (dget_or (attempts s) src [] @ [now])))"
  using assms
  by (auto simp: record_attempt_def Let_def is_shunned_def shun_active_def split: option.split)

text \<open>C28. An attempt from a source is refused exactly when the source was shunned at most the shun duration
  before the shun is looked up, or shunning is on, no exception covers the source and, over the whole history of its attempts
  and this one, the number within the rate interval reaches average rate times interval, or the number
  within the burst interval reaches burst rate times that interval: the deque that the code trims counts
  the same as the history, when the clock does not run backwards and the interval is ten seconds or more.\<close>

theorem scan_refused_iff:
  assumes "td_enabled cfg" "10 \<le> td_interval cfg" "sorted (List.map fst h @ [now])"
  shows "snd (record_attempt now later src cfg (fold (td_step cfg) h no_watch)) \<longleftrightarrow>
    shun_active later src cfg (fold (td_step cfg) h no_watch) \<or>
    (td_shun cfg \<and> \<not> is_excepted src (td_except cfg) \<and>
     (td_average cfg * td_interval cfg \<le> int (length (window now (td_interval cfg) (times_of src h @ [now]))) \<or>
      td_burst cfg * burst_interval (td_interval cfg) \<le>
        int (length (window now (burst_interval (td_interval cfg)) (times_of src h @ [now])))))"
proof -
  let ?i = "td_interval cfg"
  let ?s = "fold (td_step cfg) h no_watch"
  let ?ts = "times_of src h @ [now]"
  let ?dq = "dropWhile (\<lambda>t. t < now - of_int ?i) (dget_or (attempts ?s) src [] @ [now])"
  have s2: "sorted (List.map fst (h @ [(now, later, src)]))" using assms(3) by simp
  have dq: "?dq = window now ?i ?ts"
    using deque_is_window [OF assms(1) s2, of src] step_attempts [OF assms(1), of now later src ?s]
    by (simp add: times_of_snoc dget_or_def [of "dset _ _ _"])
  have b: "burst_interval ?i \<le> ?i" "0 < burst_interval ?i" using assms(2) by (simp_all add: burst_interval_def)
  then have le: "now - of_int ?i \<le> now - (of_int (burst_interval ?i) :: rat)" by simp
  have "window now (burst_interval ?i) (window now ?i ?ts) = window now (burst_interval ?i) ?ts"
    unfolding window_def filter_filter using le by (intro filter_cong) auto
  moreover have "window now ?i (window now ?i ?ts) = window now ?i ?ts" by (simp add: window_def)
  ultimately show ?thesis
    using assms(2) b by (simp add: record_result [OF assms(1)] dq too_fast_def hit_rate_ge) blast
qed

lemma record_keeps_shun:
  assumes "dget (shunned s) src = Some t0" "y = src \<longrightarrow> later - t0 \<le> of_int (td_duration cfg)"
  shows "dget (shunned (fst (record_attempt now later y cfg s))) src = Some t0"
  using assms by (auto simp: record_attempt_def Let_def is_shunned_def split: option.split)

text \<open>A shunned source stays shut out for the whole duration: whatever it and the others attempt in
  between, its attempts up to then are all refused, even after an exception for it was configured.\<close>

theorem shun_lasts:
  assumes "dget (shunned s) src = Some t0" "\<forall>(_, t, y)\<in>set h. y = src \<longrightarrow> t - t0 \<le> of_int (td_duration cfg)"
    and "td_enabled cfg" "later - t0 \<le> of_int (td_duration cfg)"
  shows "snd (record_attempt now later src cfg (fold (td_step cfg) h s))"
proof -
  have "dget (shunned (fold (td_step cfg) h s)) src = Some t0"
    using assms(1,2)
  proof (induction h arbitrary: s)
    case (Cons x h)
    then show ?case by (cases x) (simp add: td_step_def record_keeps_shun)
  qed simp
  with assms(3,4) show ?thesis by (simp add: record_result shun_active_def)
qed

definition demo_cfg :: td_cfg where
  "demo_cfg = default_config\<lparr>td_enabled := True, td_shun := True, td_interval := 30, td_average := 1, td_burst := 1, td_duration := 60\<rparr>"

text \<open>Ten attempts within ten seconds at a burst rate of one a second.\<close>

theorem scan_refused_iff_witness:
  "snd (record_attempt 9 9 ''192.0.2.7'' demo_cfg
      (fold (td_step demo_cfg) (List.map (\<lambda>t. (rat_of_int t, rat_of_int t, ''192.0.2.7'')) [0..8]) no_watch))"
proof -
  have cfg: "td_enabled demo_cfg" "10 \<le> td_interval demo_cfg" "td_shun demo_cfg"
    "\<not> is_excepted ''192.0.2.7'' (td_except demo_cfg)"
    by (simp_all add: demo_cfg_def default_config_def is_excepted_def split: option.split)
  let ?h = "List.map (\<lambda>t. (rat_of_int t, rat_of_int t, ''192.0.2.7'')) [0..8]"
  have "sorted (List.map fst ?h @ [9])" by code_simp
  moreover have "td_burst demo_cfg * burst_interval (td_interval demo_cfg) \<le>
      int (length (window 9 (burst_interval (td_interval demo_cfg)) (times_of ''192.0.2.7'' ?h @ [9])))"
    by code_simp
  ultimately show ?thesis using scan_refused_iff [OF cfg(1,2)] cfg(3,4) by blast
qed

text \<open>A source that is shut out and then excepted is still refused.\<close>

theorem shun_lasts_witness:
  "snd (record_attempt 50 50 ''192.0.2.7'' (demo_cfg\<lparr>td_except := [(''192.0.2.0'', ''255.255.255.0'')]\<rparr>)
      (fold (td_step (demo_cfg\<lparr>td_except := [(''192.0.2.0'', ''255.255.255.0'')]\<rparr>)) [(20, 20, ''192.0.2.7''), (30, 30, ''10.0.0.1'')]
         \<lparr>attempts = [], shunned = [(''192.0.2.7'', 9)]\<rparr>))"
  by (rule shun_lasts [where ?t0.0 = 9]) (simp_all add: demo_cfg_def)

subsection \<open>The running configuration is read back\<close>

lemma split_ws_word:
  assumes "\<forall>c\<in>set a. \<not> is_space c" "a \<noteq> []"
  shows "split_ws (a @ CHR '' '' # rest) = a # split_ws rest"
proof -
  have "is_space (CHR '' '')" by (simp add: is_space_def code_of_def)
  then show ?thesis using assms
    by (simp add: split_ws_def map_spaces_id split_on_append split_on_no_sep no_space_not_blank)
qed

lemma lower_digits: "list_all (\<lambda>c. is_digit c \<or> c = CHR ''.'') w \<Longrightarrow> lower w = w"
  by (induction w) (auto simp: lower_def to_lower_def is_digit_def code_of_def)

lemma lower_append: "lower (a @ b) = lower a @ lower b"
  by (simp add: lower_def)

lemma show_int_word:
  assumes "0 \<le> n"
  shows "lower (show_int n) = show_int n" "\<forall>c\<in>set (show_int n). \<not> is_space c" "number_word (show_int n) = Some n"
proof -
  have d: "list_all is_digit (show_int n)" using show_int_digits [OF assms] by (simp add: list_all_iff)
  then show "lower (show_int n) = show_int n" by (intro lower_digits) (auto simp: list_all_iff)
  show "\<forall>c\<in>set (show_int n). \<not> is_space c" using d is_digit_not_space by (auto simp: list_all_iff)
  show "number_word (show_int n) = Some n" using d by (simp add: number_word_def py_int_show_int [OF assms])
qed

lemma dotted_word: "dotted w \<Longrightarrow> lower w = w \<and> (\<forall>c\<in>set w. \<not> is_space c) \<and> w \<noteq> []"
  using dotted_char_not by (auto simp: dotted_def lower_digits list_all_iff dotted_char_def)

text \<open>The words of a literal prefix in front of the rest of a line.\<close>

lemma line_words:
  "list_all (\<lambda>w. w \<noteq> [] \<and> list_all (\<lambda>c. \<not> is_space c) w) ws \<Longrightarrow>
     split_ws (concat (List.map (\<lambda>w. w @ '' '') ws) @ rest) = ws @ split_ws rest"
  by (induction ws) (auto simp: split_ws_word list_all_iff)

lemma rate_words:
  assumes "0 \<le> i" "0 \<le> a" "0 \<le> b"
  shows "split_ws (lower (''threat-detection rate scanning-threat rate-interval '' @ show_int i @
      '' average-rate '' @ show_int a @ '' burst-rate '' @ show_int b)) =
    [''threat-detection'', ''rate'', ''scanning-threat'', ''rate-interval'', show_int i, ''average-rate'', show_int a, ''burst-rate'', show_int b]"
proof -
  have l: "lower (''threat-detection rate scanning-threat rate-interval '' @ show_int i @
      '' average-rate '' @ show_int a @ '' burst-rate '' @ show_int b) =
    concat (List.map (\<lambda>w. w @ '' '') [''threat-detection'', ''rate'', ''scanning-threat'', ''rate-interval'', show_int i,
       ''average-rate'', show_int a, ''burst-rate'']) @ show_int b"
    using show_int_word(1) [OF assms(1)] show_int_word(1) [OF assms(2)] show_int_word(1) [OF assms(3)]
    by (simp add: lower_def to_lower_def code_of_def)
  show ?thesis
    unfolding l using show_int_word(2) [OF assms(1)] show_int_word(2) [OF assms(2)] show_int_word(2) [OF assms(3)]
    by (subst line_words) (simp_all add: split_ws_one, simp add: list_all_iff is_space_def code_of_def)
qed

lemma duration_words:
  assumes "0 \<le> n"
  shows "split_ws (lower (''threat-detection shun duration '' @ show_int n)) = [''threat-detection'', ''shun'', ''duration'', show_int n]"
proof -
  have l: "lower (''threat-detection shun duration '' @ show_int n) =
      concat (List.map (\<lambda>w. w @ '' '') [''threat-detection'', ''shun'', ''duration'']) @ show_int n"
    using show_int_word(1) [OF assms] by (simp add: lower_def to_lower_def code_of_def)
  show ?thesis
    unfolding l using show_int_word(2) [OF assms]
    by (subst line_words) (simp_all add: split_ws_one, simp add: is_space_def code_of_def)
qed

lemma except_words:
  assumes "dotted e" "dotted msk"
  shows "split_ws (lower (''threat-detection scanning-threat shun except ip-address '' @ e @ '' '' @ msk)) =
    [''threat-detection'', ''scanning-threat'', ''shun'', ''except'', ''ip-address'', e, msk]"
proof -
  note e = dotted_word [OF assms(1)] and m = dotted_word [OF assms(2)]
  have l: "lower (''threat-detection scanning-threat shun except ip-address '' @ e @ '' '' @ msk) =
      concat (List.map (\<lambda>w. w @ '' '') [''threat-detection'', ''scanning-threat'', ''shun'', ''except'', ''ip-address'', e]) @ msk"
    using e m by (simp add: lower_def to_lower_def code_of_def)
  show ?thesis
    unfolding l using e m by (subst line_words) (simp_all add: split_ws_one, simp add: list_all_iff is_space_def code_of_def)
qed

lemma except_lines:
  "\<forall>(e, msk)\<in>set excs. dotted e \<and> dotted msk \<Longrightarrow>
     fold td_line (List.map (\<lambda>(e, msk). ''threat-detection scanning-threat shun except ip-address '' @ e @ '' '' @ msk) excs)
       (c\<lparr>td_enabled := True, td_shun := True\<rparr>) =
     c\<lparr>td_enabled := True, td_shun := True, td_except := td_except c @ excs\<rparr>"
proof (induction excs arbitrary: c)
  case (Cons x excs)
  obtain e msk where x: "x = (e, msk)" by (cases x)
  have ok: "dotted e" "dotted msk" using Cons.prems by (auto simp: x)
  have "td_line (''threat-detection scanning-threat shun except ip-address '' @ e @ '' '' @ msk) (c\<lparr>td_enabled := True, td_shun := True\<rparr>) =
      (c\<lparr>td_except := td_except c @ [(e, msk)]\<rparr>)\<lparr>td_enabled := True, td_shun := True\<rparr>"
    unfolding td_line_def except_words [OF ok] by (simp add: td_command_def ok)
  with Cons show ?case by (simp add: x)
qed simp

text \<open>The lines that \<open>show running-config\<close> prints for an enabled scan detection, entered on a device with
  the defaults, restore its settings: rates, duration, shunning and its exceptions.\<close>

theorem td_config_read_back:
  assumes "td_enabled cfg" "0 \<le> td_interval cfg" "0 \<le> td_average cfg" "0 \<le> td_burst cfg" "0 \<le> td_duration cfg"
    and "\<forall>(e, msk)\<in>set (td_except cfg). dotted e \<and> dotted msk" "td_shun cfg \<or> td_except cfg = []"
  shows "fold td_line (td_running cfg) default_config = cfg"
proof -
  let ?rate = "if td_interval cfg \<noteq> 600 \<or> td_average cfg \<noteq> 5 \<or> td_burst cfg \<noteq> 10
            then [''threat-detection rate scanning-threat rate-interval '' @ show_int (td_interval cfg) @
                  '' average-rate '' @ show_int (td_average cfg) @ '' burst-rate '' @ show_int (td_burst cfg)] else []"
  let ?dur = "if td_duration cfg \<noteq> 3600 then [''threat-detection shun duration '' @ show_int (td_duration cfg)] else []"
  define c1 where "c1 = default_config\<lparr>td_interval := td_interval cfg, td_average := td_average cfg, td_burst := td_burst cfg\<rparr>"
  define c2 where "c2 = c1\<lparr>td_duration := td_duration cfg\<rparr>"
  have rate: "td_line (''threat-detection rate scanning-threat rate-interval '' @ show_int (td_interval cfg) @
      '' average-rate '' @ show_int (td_average cfg) @ '' burst-rate '' @ show_int (td_burst cfg)) default_config = c1"
    unfolding td_line_def rate_words [OF assms(2-4)]
    by (simp add: td_command_def show_int_word(3) [OF assms(2)] show_int_word(3) [OF assms(3)] show_int_word(3) [OF assms(4)] c1_def)
  have dur: "td_line (''threat-detection shun duration '' @ show_int (td_duration cfg)) c1 = c2"
    unfolding td_line_def duration_words [OF assms(5)] by (simp add: td_command_def show_int_word(3) [OF assms(5)] c2_def)
  have 1: "fold td_line ?rate default_config = c1"
    using rate by (auto simp: c1_def default_config_def)
  have 2: "fold td_line ?dur c1 = c2"
    using dur by (auto simp: c2_def c1_def default_config_def)
  have 3: "td_line ''threat-detection scanning-threat shun'' c2 = c2\<lparr>td_enabled := True, td_shun := True\<rparr>"
    "td_line ''threat-detection scanning-threat'' c2 = c2\<lparr>td_enabled := True\<rparr>"
    by (simp_all add: td_line_def lower_def to_lower_def split_ws_def is_space_def code_of_def td_command_def)
  have 4: "cfg = \<lparr>td_enabled = True, td_shun = td_shun cfg, td_duration = td_duration cfg, td_except = td_except cfg,
      td_interval = td_interval cfg, td_average = td_average cfg, td_burst = td_burst cfg\<rparr>"
    using assms(1) by (cases cfg) simp
  have cfg2: "c2 = \<lparr>td_enabled = False, td_shun = False, td_duration = td_duration cfg, td_except = [],
      td_interval = td_interval cfg, td_average = td_average cfg, td_burst = td_burst cfg\<rparr>"
    by (simp add: c2_def c1_def default_config_def)
  show ?thesis
  proof (cases "td_shun cfg")
    case True
    have "fold td_line (td_running cfg) default_config =
        c2\<lparr>td_enabled := True, td_shun := True, td_except := td_except c2 @ td_except cfg\<rparr>"
      by (simp only: td_running_def assms(1) True if_True not_True_eq_False if_False fold_append o_apply fold_simps 1 2 3
          except_lines [OF assms(6)])
    then show ?thesis using 4 True by (simp add: cfg2)
  next
    case False
    then have "fold td_line (td_running cfg) default_config = c2\<lparr>td_enabled := True\<rparr>"
      by (simp only: td_running_def assms(1) not_True_eq_False if_False fold_append o_apply fold_simps 1 2 3)
    then show ?thesis using 4 False assms(7) by (simp add: cfg2)
  qed
qed

theorem td_config_read_back_witness:
  "fold td_line (td_running (demo_cfg\<lparr>td_except := [(''192.0.2.0'', ''255.255.255.0'')]\<rparr>)) default_config =
     demo_cfg\<lparr>td_except := [(''192.0.2.0'', ''255.255.255.0'')]\<rparr>"
  by (rule td_config_read_back) (simp_all add: demo_cfg_def default_config_def dotted_def is_digit_def code_of_def)

text \<open>The settings of a detection that is switched off are not in the running configuration.\<close>

theorem disabled_settings_lost:
  "td_running (demo_cfg\<lparr>td_enabled := False\<rparr>) = [] \<and> demo_cfg\<lparr>td_enabled := False\<rparr> \<noteq> default_config"
  by (simp add: td_running_def demo_cfg_def default_config_def)

end
