(* ===== verification/BigIp.thy ===== *)
theory BigIp
  imports Complex_Main Icmp Machine "HOL-Library.Multiset"
begin

text \<open>
  The BIG-IP load balancer, \<open>engine/bigip_lb.py\<close>: which pool members are up, how a virtual server picks
  one for a connection (round robin, least connections, source-address affinity), the source address it
  uses towards the member, the count of open connections, and the table of running listeners. Sockets are
  parameters: whether a TCP connection to an address succeeds and whether a listener could be started.
  A selection is one step: the code takes its lock several times during it.
\<close>

type_synonym member = "ip \<times> int"

subsection \<open>Health\<close>

definition member_reachable_topology :: "(dev, device_info) dict \<Rightarrow> vnet \<Rightarrow> ip \<Rightarrow> bool" where
  "member_reachable_topology book v a =
     (case find_device_owning_ip book a of
        None \<Rightarrow> False
      | Some d \<Rightarrow>
          if d = [] then False
          else case find (\<lambda>(_, i). if_ip i = Some a) (ifaces_of book d) of
                 Some (n, _) \<Rightarrow> n \<notin> set (down_interfaces v d)
               | None \<Rightarrow> a \<in> set (dkeys (ips_of book d)))"

definition member_is_up ::
  "(member \<Rightarrow> bool) \<Rightarrow> (dev, device_info) dict \<Rightarrow> vnet \<Rightarrow> string \<Rightarrow> member \<Rightarrow> bool"
where
  "member_is_up tcp book v kind m =
     (if kind \<in> {''tcp'', ''http'', ''https''} then tcp m
      else if kind = ''gateway_icmp'' then member_reachable_topology book v (fst m)
      else True)"

text \<open>\<open>ref.lstrip('/').split('/')[-1]\<close> names a built-in monitor.\<close>

definition monitor_type :: "(string, string option) dict \<Rightarrow> string option \<Rightarrow> string" where
  "monitor_type monitors mon =
     (case mon of
        None \<Rightarrow> ''none''
      | Some r \<Rightarrow>
          if r \<in> {[], ''none'', ''/Common/none''} then ''none''
          else case dget monitors r of
                 Some t \<Rightarrow> (case t of None \<Rightarrow> ''gateway_icmp'' | Some k \<Rightarrow> k)
               | None \<Rightarrow>
                   (let base = last (split_on (CHR ''/'') (dropWhile (\<lambda>c. c = CHR ''/'') r))
                    in if base \<in> {''tcp'', ''http'', ''https''} then base else ''gateway_icmp''))"

record pool_member =
  pm_node :: ip
  pm_port :: int
  pm_admin_down :: bool

record pool =
  pl_members :: "pool_member list"
  pl_monitor :: "string option"
  pl_lb_mode :: "string option"

definition healthy_members ::
  "(member \<Rightarrow> bool) \<Rightarrow> (dev, device_info) dict \<Rightarrow> vnet \<Rightarrow> (string, string option) dict \<Rightarrow> pool option \<Rightarrow> member list"
where
  "healthy_members tcp book v monitors p =
     (case p of
        None \<Rightarrow> []
      | Some q \<Rightarrow>
          (let kind = monitor_type monitors (case pl_monitor q of None \<Rightarrow> Some ''none'' | x \<Rightarrow> x)
           in filter (member_is_up tcp book v kind)
                (List.map (\<lambda>m. (pm_node m, pm_port m)) (filter (\<lambda>m. \<not> pm_admin_down m) (pl_members q)))))"

definition lb_mode :: "pool option \<Rightarrow> string" where
  "lb_mode p = (case p of None \<Rightarrow> ''round-robin'' | Some q \<Rightarrow> (case pl_lb_mode q of None \<Rightarrow> ''round-robin'' | Some k \<Rightarrow> k))"

text \<open>The persistence profile of a virtual server: its type and its timeout.\<close>

definition persist_timeout :: "(string, string option \<times> int option) dict \<Rightarrow> string option \<Rightarrow> int option" where
  "persist_timeout profiles name =
     (if \<not> truthy name then None
      else case dget profiles (the name) of
             Some (Some k, t) \<Rightarrow>
               if k = ''source-addr'' then Some (case t of None \<Rightarrow> 180 | Some n \<Rightarrow> n) else None
           | _ \<Rightarrow> None)"

subsection \<open>The choice of a member\<close>

record proxy =
  vs_rr :: int
  vs_active :: "(member, int) dict"
  vs_affinity :: "(ip, member \<times> rat) dict"

definition new_proxy :: proxy where
  "new_proxy = \<lparr>vs_rr = -1, vs_active = [], vs_affinity = []\<rparr>"

definition open_conns :: "proxy \<Rightarrow> member \<Rightarrow> int" where
  "open_conns s m = dget_or (vs_active s) m 0"

fun least_loaded :: "proxy \<Rightarrow> member \<Rightarrow> member list \<Rightarrow> member" where
  "least_loaded s b [] = b"
| "least_loaded s b (m # ms) = least_loaded s (if open_conns s m < open_conns s b then m else b) ms"

text \<open>What a virtual server reads when a connection comes in: its healthy members, its mode and the
  persistence timeout.\<close>

record demand =
  dm_members :: "member list"
  dm_mode :: string
  dm_timeout :: "int option"

definition balance :: "demand \<Rightarrow> proxy \<Rightarrow> proxy \<times> member" where
  "balance q s =
     (if dm_mode q = ''least-connections'' then (s, least_loaded s (hd (dm_members q)) (tl (dm_members q)))
      else let i = (vs_rr s + 1) mod int (length (dm_members q))
           in (s\<lparr>vs_rr := i\<rparr>, dm_members q ! nat i))"

definition persists :: "demand \<Rightarrow> ip \<Rightarrow> bool" where
  "persists q client \<longleftrightarrow> dm_timeout q \<notin> {None, Some 0} \<and> client \<noteq> []"

definition affine :: "rat \<Rightarrow> demand \<Rightarrow> ip \<Rightarrow> proxy \<Rightarrow> member option" where
  "affine now q client s =
     (if \<not> persists q client then None
      else case dget (vs_affinity s) client of
             None \<Rightarrow> None
           | Some (m, seen) \<Rightarrow>
               if m \<in> set (dm_members q) \<and> now - seen \<le> of_int (the (dm_timeout q)) then Some m else None)"

definition remember :: "rat \<Rightarrow> demand \<Rightarrow> ip \<Rightarrow> member \<Rightarrow> proxy \<Rightarrow> proxy" where
  "remember now q client m s =
     (if persists q client then s\<lparr>vs_affinity := dset (vs_affinity s) client (m, now)\<rparr> else s)"

definition select_member :: "rat \<Rightarrow> demand \<Rightarrow> ip \<Rightarrow> proxy \<Rightarrow> proxy \<times> member option" where
  "select_member now q client s =
     (if dm_members q = [] then (s, None)
      else case affine now q client s of
             Some m \<Rightarrow> (remember now q client m s, Some m)
           | None \<Rightarrow> (case balance q s of (s1, m) \<Rightarrow> (remember now q client m s1, Some m)))"

definition count_conn :: "int \<Rightarrow> member \<Rightarrow> proxy \<Rightarrow> proxy" where
  "count_conn n m s = s\<lparr>vs_active := dset (vs_active s) m (open_conns s m + n)\<rparr>"

text \<open>\<open>_handle\<close> until the relay starts: the connection is counted before the member is contacted and
  taken back when that fails.\<close>

definition accept_client :: "rat \<Rightarrow> (member \<Rightarrow> bool) \<Rightarrow> demand \<Rightarrow> ip \<Rightarrow> proxy \<Rightarrow> proxy \<times> member option" where
  "accept_client now answers q client s =
     (case select_member now q client s of
        (s1, None) \<Rightarrow> (s1, None)
      | (s1, Some m) \<Rightarrow>
          (let s2 = count_conn 1 m s1
           in if answers m then (s2, Some m) else (count_conn (-1) m s2, None)))"

definition client_done :: "member \<Rightarrow> proxy \<Rightarrow> proxy" where
  "client_done m s = count_conn (-1) m s"

subsection \<open>The source address towards the member\<close>

datatype snat = AutoMap | SnatPool string | OtherSnat

definition snat_source ::
  "(string, ip option) dict \<Rightarrow> (string, ip list) dict \<Rightarrow> snat option \<Rightarrow> ip \<Rightarrow> nat \<Rightarrow> nat \<times> ip option"
where
  "snat_source selfips pools cfg vip i =
     (case cfg of
        None \<Rightarrow> (i, None)
      | Some AutoMap \<Rightarrow>
          (case dvals selfips of
             [] \<Rightarrow> (i, Some vip)
           | a # _ \<Rightarrow> (i, Some (if truthy a then the a else vip)))
      | Some (SnatPool p) \<Rightarrow>
          (let ips = dget_or pools p []
           in if ips = [] then (i, None) else (i + 1, Some (ips ! (i mod length ips))))
      | Some OtherSnat \<Rightarrow> (i, None))"

subsection \<open>Destinations and running listeners\<close>

text \<open>The match of \<open>[\d.]+[:.]\d+\<close>: as the first part is greedy, the separator is the last colon or dot.\<close>

definition is_sep :: "char \<Rightarrow> bool" where
  "is_sep c \<longleftrightarrow> c = CHR '':'' \<or> c = CHR ''.''"

definition parse_destination :: "string \<Rightarrow> (ip \<times> int) option" where
  "parse_destination dest =
     (let port = rev (takeWhile (\<lambda>c. \<not> is_sep c) (rev dest));
          rest = rev (dropWhile (\<lambda>c. \<not> is_sep c) (rev dest));
          vip = butlast rest
      in if rest = [] \<or> vip = [] \<or> port = [] \<or> \<not> list_all (\<lambda>c. is_digit c \<or> c = CHR ''.'') vip \<or> \<not> list_all is_digit port
         then None
         else map_option (Pair vip) (py_int port))"

record virtual =
  vt_destination :: "string option"
  vt_pool :: "string option"

type_synonym listeners = "(dev \<times> string, (ip \<times> int) \<times> string) dict"

text \<open>\<open>starts\<close> says whether the listener could be bound; the second result lists the listeners stopped.\<close>

definition ensure_virtual_server ::
  "((ip \<times> int) \<Rightarrow> bool) \<Rightarrow> dev \<Rightarrow> string \<Rightarrow> (dev, (string, virtual) dict) dict \<Rightarrow> listeners \<Rightarrow> listeners \<times> bool"
where
  "ensure_virtual_server starts d n sessions ls =
     (case dget sessions d of
        None \<Rightarrow> (ls, False)
      | Some vs \<Rightarrow>
          (case dget vs n of
             None \<Rightarrow> (ls, False)
           | Some v \<Rightarrow>
               (case parse_destination (case vt_destination v of None \<Rightarrow> [] | Some x \<Rightarrow> x) of
                  None \<Rightarrow> (ls, False)
                | Some (vip, port) \<Rightarrow>
                    if port = 0 \<or> \<not> truthy (vt_pool v) then (ls, False)
                    else let pl = the (vt_pool v);
                             fresh = (\<lambda>ls. if starts (vip, port) then (dset ls (d, n) ((vip, port), pl), True) else (ls, False))
                         in case dget ls (d, n) of
                              Some x \<Rightarrow> if x = ((vip, port), pl) then (ls, True) else fresh (dpop ls (d, n))
                            | None \<Rightarrow> fresh ls)))"

definition stop_virtual_server :: "dev \<Rightarrow> string \<Rightarrow> listeners \<Rightarrow> listeners \<times> bool" where
  "stop_virtual_server d n ls =
     (case dget ls (d, n) of None \<Rightarrow> (ls, False) | Some _ \<Rightarrow> (dpop ls (d, n), True))"

subsection \<open>Round robin is even\<close>

fun picks :: "demand \<Rightarrow> (rat \<times> ip) list \<Rightarrow> proxy \<Rightarrow> member option list" where
  "picks q [] s = []"
| "picks q ((now, client) # cs) s = (case select_member now q client s of (s1, r) \<Rightarrow> r # picks q cs s1)"

lemma select_round_robin:
  "dm_members q \<noteq> [] \<Longrightarrow> dm_mode q \<noteq> ''least-connections'' \<Longrightarrow> dm_timeout q \<in> {None, Some 0} \<Longrightarrow>
     select_member now q client s =
       (let i = (vs_rr s + 1) mod int (length (dm_members q)) in (s\<lparr>vs_rr := i\<rparr>, Some (dm_members q ! nat i)))"
  by (auto simp: select_member_def affine_def persists_def balance_def remember_def Let_def)

lemma picks_round_robin:
  assumes "dm_members q \<noteq> []" "dm_mode q \<noteq> ''least-connections''" "dm_timeout q \<in> {None, Some 0}"
  shows "picks q cs s =
    List.map (\<lambda>j. Some (dm_members q ! nat ((vs_rr s + 1 + int j) mod int (length (dm_members q))))) [0..<length cs]"
proof (induction cs arbitrary: s)
  case (Cons c cs)
  let ?n = "int (length (dm_members q))"
  have shift: "((vs_rr s + 1) mod ?n + 1 + int j) mod ?n = (vs_rr s + 1 + int (Suc j)) mod ?n" for j
    using mod_add_left_eq [of "vs_rr s + 1" ?n "1 + int j"] by (simp add: algebra_simps)
  obtain now client where c: "c = (now, client)" by (cases c)
  show ?case
    by (simp add: c Cons.IH select_round_robin [OF assms] Let_def map_upt_Suc shift del: upt_Suc of_nat_Suc)
qed simp

lemma mset_block:
  assumes "ms \<noteq> []"
  shows "mset (List.map (\<lambda>j. ms ! ((r + j) mod length ms)) [a..<a + length ms]) = mset ms"
proof -
  have "List.map (\<lambda>j. ms ! ((r + j) mod length ms)) [a..<a + length ms] = rotate (r + a) ms"
    by (rule nth_equalityI) (simp_all add: nth_rotate add.assoc)
  moreover have "mset (drop k ms @ take k ms) = mset ms" for k by (metis append_take_drop_id mset_append union_commute)
  ultimately show ?thesis by (simp add: rotate_drop_take)
qed

lemma mset_blocks:
  "ms \<noteq> [] \<Longrightarrow> mset (List.map (\<lambda>j. ms ! ((r + j) mod length ms)) [0..<k * length ms]) = repeat_mset k (mset ms)"
proof (induction k)
  case (Suc k)
  have "[0..<Suc k * length ms] = [0..<k * length ms] @ [k * length ms..<k * length ms + length ms]"
    by (metis add.commute mult_Suc upt_add_eq_append zero_le)
  with Suc mset_block [OF Suc.prems, of r "k * length ms"] show ?case by simp
qed simp

text \<open>Without persistence, round robin gives every member its share: over any number of full rounds of
  connections, from whatever clients and starting anywhere, each member of the pool is chosen equally
  often.\<close>

theorem round_robin_even:
  assumes "dm_members q \<noteq> []" "dm_mode q \<noteq> ''least-connections''" "dm_timeout q \<in> {None, Some 0}"
    and "length cs = k * length (dm_members q)"
  shows "mset (picks q cs s) = image_mset Some (repeat_mset k (mset (dm_members q)))"
proof -
  let ?n = "length (dm_members q)"
  define r where "r = nat ((vs_rr s + 1) mod int ?n)"
  have n: "0 < int ?n" using assms(1) by simp
  have pos: "nat ((vs_rr s + 1 + int j) mod int ?n) = (r + j) mod ?n" for j
  proof -
    have "(vs_rr s + 1 + int j) mod int ?n = (int r + int j) mod int ?n"
      using n by (simp add: r_def mod_simps)
    then show ?thesis by (simp only: of_nat_add [symmetric] zmod_int [symmetric] nat_int)
  qed
  then have "picks q cs s = List.map Some (List.map (\<lambda>j. dm_members q ! ((r + j) mod ?n)) [0..<k * ?n])"
    by (simp only: picks_round_robin [OF assms(1-3)] assms(4) pos map_map o_def)
  then have "mset (picks q cs s) = image_mset Some (mset (List.map (\<lambda>j. dm_members q ! ((r + j) mod ?n)) [0..<k * ?n]))"
    by (simp only: mset_map)
  then show ?thesis by (simp only: mset_blocks [OF assms(1)])
qed

theorem round_robin_even_witness:
  "mset (picks \<lparr>dm_members = [(''10.0.0.1'', 80), (''10.0.0.2'', 80)], dm_mode = ''round-robin'', dm_timeout = None\<rparr>
     [(0, ''a''), (1, ''b''), (2, ''a''), (3, ''c'')] new_proxy) =
   image_mset Some (repeat_mset 2 (mset [(''10.0.0.1'', 80), (''10.0.0.2'', 80)]))"
proof -
  let ?q = "\<lparr>dm_members = [(''10.0.0.1'', 80), (''10.0.0.2'', 80)], dm_mode = ''round-robin'', dm_timeout = None\<rparr>"
  have "dm_members ?q = [(''10.0.0.1'', 80), (''10.0.0.2'', 80)]" by simp
  from round_robin_even [of ?q "[(0, ''a''), (1, ''b''), (2, ''a''), (3, ''c'')]" 2 new_proxy, unfolded this]
  show ?thesis by simp
qed

subsection \<open>Connections are counted and the least loaded member is chosen\<close>

datatype lb_op =
    Accept rat "member \<Rightarrow> bool" demand ip
  | Finish member

text \<open>The run of a virtual server beside the connections that are open: a connection can only finish once.\<close>

fun lb_step :: "lb_op \<Rightarrow> proxy \<times> member multiset \<Rightarrow> proxy \<times> member multiset" where
  "lb_step (Accept now answers q client) (s, opn) =
     (case accept_client now answers q client s of
        (s1, Some m) \<Rightarrow> (s1, add_mset m opn)
      | (s1, None) \<Rightarrow> (s1, opn))"
| "lb_step (Finish m) (s, opn) = (if m \<in># opn then (client_done m s, opn - {#m#}) else (s, opn))"

definition counts_open :: "proxy \<times> member multiset \<Rightarrow> bool" where
  "counts_open = (\<lambda>(s, opn). \<forall>m. open_conns s m = int (count opn m))"

lemma open_count_conn: "open_conns (count_conn n m s) m' = open_conns s m' + (if m' = m then n else 0)"
  by (simp add: open_conns_def count_conn_def dget_or_def)

lemma select_keeps_counts: "open_conns (fst (select_member now q client s)) m = open_conns s m"
  by (auto simp: select_member_def remember_def balance_def open_conns_def Let_def split: option.split)

lemma counts_open_step: "counts_open x \<Longrightarrow> counts_open (lb_step op x)"
proof (cases op)
  case (Accept now answers q client)
  assume ok: "counts_open x"
  obtain s C where x: "x = (s, C)" by (cases x)
  obtain s1 r where sel: "select_member now q client s = (s1, r)" by fastforce
  have "open_conns s1 m = int (count C m)" for m
    using select_keeps_counts [of now q client s m] ok by (cases m) (simp add: sel counts_open_def x)
  then show ?thesis
    by (auto simp: Accept x accept_client_def sel counts_open_def open_count_conn Let_def split: option.split)
next
  case (Finish m)
  then show "counts_open x \<Longrightarrow> ?thesis"
    by (cases x) (auto simp: counts_open_def client_done_def open_count_conn)
qed

interpretation lb_run: machine lb_step "(new_proxy, {#})" counts_open
  by unfold_locales (simp_all add: counts_open_step, simp add: counts_open_def new_proxy_def open_conns_def dget_or_def)

lemma least_loaded_spec:
  "least_loaded s b ms \<in> set (b # ms) \<and> (\<forall>m\<in>set (b # ms). open_conns s (least_loaded s b ms) \<le> open_conns s m)"
proof (induction ms arbitrary: b)
  case (Cons m ms)
  show ?case
  proof (cases "open_conns s m < open_conns s b")
    case True
    with Cons [of m] show ?thesis by fastforce
  next
    case False
    with Cons [of b] show ?thesis by fastforce
  qed
qed simp

text \<open>However connections are opened, refused by members and closed, the counters are the numbers of open
  connections; so in the least-connections mode a client that no persistence binds gets a healthy member
  with the fewest open connections.\<close>

theorem least_connections_least:
  assumes "(s, opn) = fold lb_step ops (new_proxy, {#})" "dm_mode q = ''least-connections''"
    and "affine now q client s = None" "dm_members q \<noteq> []"
  shows "\<exists>m\<in>set (dm_members q). snd (select_member now q client s) = Some m \<and>
    (\<forall>m'\<in>set (dm_members q). count opn m \<le> count opn m')"
proof -
  have ok: "open_conns s m = int (count opn m)" for m
    using lb_run.run_inv [of ops] by (cases m) (simp add: counts_open_def flip: assms(1))
  obtain b ms where q: "dm_members q = b # ms" using assms(4) by (cases "dm_members q") auto
  from least_loaded_spec [of s b ms] show ?thesis
    using assms(2,3) by (intro bexI [of _ "least_loaded s b ms"]) (auto simp: select_member_def balance_def q ok)
qed

theorem least_connections_least_witness:
  "snd (select_member 1 \<lparr>dm_members = [(''10.0.0.1'', 80), (''10.0.0.2'', 80)], dm_mode = ''least-connections'', dm_timeout = None\<rparr> ''b''
     (fst (fold lb_step [Accept 0 (\<lambda>_. True) \<lparr>dm_members = [(''10.0.0.1'', 80)], dm_mode = ''round-robin'', dm_timeout = None\<rparr> ''a'']
        (new_proxy, {#})))) = Some (''10.0.0.2'', 80)"
proof -
  let ?q = "\<lparr>dm_members = [(''10.0.0.1'', 80), (''10.0.0.2'', 80)], dm_mode = ''least-connections'', dm_timeout = None\<rparr>"
  let ?ops = "[Accept 0 (\<lambda>_. True) \<lparr>dm_members = [(''10.0.0.1'', 80)], dm_mode = ''round-robin'', dm_timeout = None\<rparr> ''a'']"
  obtain s C where run: "fold lb_step ?ops (new_proxy, {#}) = (s, C)" by fastforce
  then have C: "C = {#(''10.0.0.1'', 80)#}"
    by (simp add: accept_client_def select_member_def affine_def persists_def balance_def Let_def)
  have "affine 1 ?q ''b'' s = None" by (simp add: affine_def persists_def)
  from least_connections_least [OF run [symmetric] _ this] have "snd (select_member 1 ?q ''b'' s) = Some (''10.0.0.2'', 80)" by (auto simp: C)
  then show ?thesis by (simp only: run fst_conv)
qed

subsection \<open>Affinity\<close>

lemma select_other_affinity:
  "client \<noteq> c \<Longrightarrow> dget (vs_affinity (fst (select_member now q client s))) c = dget (vs_affinity s) c"
  by (auto simp: select_member_def remember_def balance_def Let_def split: option.split)

lemma lb_step_affinity:
  assumes "case op of Accept now answers q client \<Rightarrow> client \<noteq> c | Finish m \<Rightarrow> True"
  shows "dget (vs_affinity (fst (lb_step op x))) c = dget (vs_affinity (fst x)) c"
proof (cases op)
  case (Accept now answers q client)
  obtain s C where x: "x = (s, C)" by (cases x)
  obtain s1 r where sel: "select_member now q client s = (s1, r)" by fastforce
  have "dget (vs_affinity s1) c = dget (vs_affinity s) c"
    using select_other_affinity [of client c now q s] assms by (simp add: Accept sel)
  then show ?thesis by (auto simp: Accept x accept_client_def sel count_conn_def Let_def split: option.split)
next
  case (Finish m)
  then show ?thesis by (cases x) (simp add: client_done_def count_conn_def)
qed

text \<open>A client that comes back within the persistence timeout, while the member it was sent to is still
  healthy, is sent there again and the time starts anew, whatever the other clients did in between and
  whatever the balancing mode.\<close>

theorem affinity_holds:
  assumes "dget (vs_affinity s) c = Some (m, t0)" "c \<noteq> []"
    and "\<forall>op\<in>set ops. case op of Accept now answers q client \<Rightarrow> client \<noteq> c | Finish m \<Rightarrow> True"
    and "fold lb_step ops (s, opn) = (s', opn')"
    and "m \<in> set (dm_members q)" "dm_timeout q = Some t" "t \<noteq> 0" "now - t0 \<le> of_int t"
  shows "snd (select_member now q c s') = Some m \<and>
    dget (vs_affinity (fst (select_member now q c s'))) c = Some (m, now)"
proof -
  have "dget (vs_affinity (fst (fold lb_step ops x))) c = dget (vs_affinity (fst x)) c" for x
    using assms(3) by (induction ops arbitrary: x) (auto simp: lb_step_affinity)
  from this [of "(s, opn)"] have a: "dget (vs_affinity s') c = Some (m, t0)" using assms(1,4) by simp
  have "dm_members q \<noteq> []" using assms(5) by auto
  with a assms(2,5-8) show ?thesis by (simp add: select_member_def affine_def persists_def remember_def)
qed

theorem affinity_holds_witness:
  "snd (select_member 100 \<lparr>dm_members = [(''10.0.0.1'', 80), (''10.0.0.2'', 80)], dm_mode = ''round-robin'', dm_timeout = Some 180\<rparr>
     ''192.0.2.1'' (new_proxy\<lparr>vs_affinity := [(''192.0.2.1'', (''10.0.0.2'', 80), 5)]\<rparr>)) = Some (''10.0.0.2'', 80)"
  using affinity_holds [where s = "new_proxy\<lparr>vs_affinity := [(''192.0.2.1'', (''10.0.0.2'', 80), 5)]\<rparr>" and c = "''192.0.2.1''"
      and m = "(''10.0.0.2'', 80)" and ?t0.0 = 5 and ops = "[]" and opn = "{#}" and now = 100 and t = 180
      and q = "\<lparr>dm_members = [(''10.0.0.1'', 80), (''10.0.0.2'', 80)], dm_mode = ''round-robin'', dm_timeout = Some 180\<rparr>"]
  by simp

subsection \<open>Listeners\<close>

text \<open>After a start the table has the listener of the present configuration, and no other entry changed; a
  start that fails leaves no listener with an outdated configuration behind.\<close>

theorem listener_matches_configuration:
  assumes "ensure_virtual_server starts d n sessions ls = (ls', ok)"
    and "dget sessions d = Some vs" "dget vs n = Some v" "parse_destination (case vt_destination v of None \<Rightarrow> [] | Some x \<Rightarrow> x) = Some (vip, port)"
    and "port \<noteq> 0" "vt_pool v = Some pl" "pl \<noteq> []"
  shows "dget ls' (d, n) = (if ok then Some ((vip, port), pl) else None) \<and> (\<forall>k. k \<noteq> (d, n) \<longrightarrow> dget ls' k = dget ls k)"
  using assms by (auto simp: ensure_virtual_server_def truthy_def Let_def split: option.splits if_splits)

text \<open>A destination without a port is taken apart at its last dot.\<close>

theorem destination_without_port:
  "parse_destination ''10.0.0.1'' = Some (''10.0.0'', 1) \<and> parse_destination ''10.0.0.1:80'' = Some (''10.0.0.1'', 80)"
  by code_simp

end
