(* ===== verification/Cutting.thy ===== *)
theory Cutting
  imports PyPrelude
begin

text \<open>
  Searching a text for a separator (\<open>find\<close> and a slice, \<open>split(sep, 1)\<close>), as the readers of HTTP requests
  and NETCONF messages do, and the reading of a stream that arrives in pieces: the contract of a framing
  under which the messages read do not depend on where the pieces are cut.
\<close>

subsection \<open>Cutting text\<close>

text \<open>The text before the first occurrence of a separator, and what follows it, if it occurs.\<close>

fun cut_at :: "string \<Rightarrow> string \<Rightarrow> string \<times> string option" where
  "cut_at sep [] = ([], if sep = [] then Some [] else None)"
| "cut_at sep (c # s) =
     (if starts_with (c # s) sep then ([], Some (drop (length sep) (c # s)))
      else case cut_at sep s of (a, r) \<Rightarrow> (c # a, r))"

lemma cut_shorter: "cut_at sep s = (a, Some r) \<Longrightarrow> sep \<noteq> [] \<Longrightarrow> length r < length s"
proof (induction s arbitrary: a)
  case (Cons c s)
  show ?case
  proof (cases "starts_with (c # s) sep")
    case True
    with Cons.prems show ?thesis by (cases sep) auto
  next
    case False
    with Cons.prems obtain a' where "cut_at sep s = (a', Some r)" by (auto split: prod.splits)
    with Cons show ?thesis by (simp add: less_SucI)
  qed
qed simp

lemma cut_skip:
  "sep \<noteq> [] \<Longrightarrow> hd sep \<notin> set a \<Longrightarrow> cut_at sep (a @ rest) = (case cut_at sep rest of (x, r) \<Rightarrow> (a @ x, r))"
proof (induction a)
  case (Cons c a)
  then have "\<not> starts_with (c # a @ rest) sep" by (cases sep) (auto simp: starts_with_def)
  with Cons show ?case by (simp split: prod.split)
qed (simp split: prod.split)

lemma cut_here: "sep \<noteq> [] \<Longrightarrow> cut_at sep (sep @ rest) = ([], Some rest)"
  by (cases sep) (simp_all add: starts_with_def)

lemma cut_found: "sep \<noteq> [] \<Longrightarrow> hd sep \<notin> set a \<Longrightarrow> cut_at sep (a @ sep @ rest) = (a, Some rest)"
  by (simp add: cut_skip cut_here)

lemma cut_missing: "sep \<noteq> [] \<Longrightarrow> hd sep \<notin> set a \<Longrightarrow> cut_at sep a = (a, None)"
  using cut_skip [of sep a "[]"] by simp

lemma cut_occurs: "sep \<noteq> [] \<Longrightarrow> cut_at sep (a @ sep @ rest) \<noteq> (x, None)"
proof (induction a arbitrary: x)
  case (Cons c a)
  then show ?case by (auto split: prod.split)
qed (simp add: cut_here)

lemma starts_with_iff: "starts_with s p \<longleftrightarrow> (\<exists>r. s = p @ r)"
  by (auto simp: starts_with_def) (metis append_take_drop_id)

lemma cut_at_parts: "cut_at sep s = (a, Some r) \<Longrightarrow> s = a @ sep @ r"
proof (induction s arbitrary: a)
  case (Cons c s)
  then show ?case
    by (cases "starts_with (c # s) sep") (auto simp: starts_with_iff split: prod.splits)
qed (simp split: if_splits)

lemma longer_prefix:
  assumes "a @ b = c @ d" "length c \<le> length a"
  shows "\<exists>p. a = c @ p \<and> d = p @ b"
  using assms by (auto simp: append_eq_append_conv2)

lemma shorter_prefix:
  assumes "a @ b = c @ d" "length a < length c"
  shows "\<exists>r. c = a @ r \<and> r \<noteq> [] \<and> b = r @ d"
  using assms by (auto simp: append_eq_append_conv2)

text \<open>What has been found stays found, and at the same place, when more text arrives.\<close>

lemma cut_at_stable: "cut_at sep s = (a, Some r) \<Longrightarrow> cut_at sep (s @ t) = (a, Some (r @ t))"
proof (induction s arbitrary: a)
  case Nil
  then have "sep = []" "a = []" "r = []" by (auto split: if_splits)
  then show ?case by (cases t) (simp_all add: starts_with_def)
next
  case (Cons c s)
  show ?case
  proof (cases "starts_with (c # s) sep")
    case True
    then obtain u where u: "c # s = sep @ u" by (auto simp: starts_with_iff)
    then have e: "c # s @ t = sep @ u @ t" by (metis append_Cons append_assoc)
    have "starts_with (c # s @ t) sep" "drop (length sep) (c # s @ t) = u @ t"
      unfolding e starts_with_def by simp_all
    moreover have "drop (length sep) (c # s) = u" unfolding u by simp
    ultimately show ?thesis using True Cons.prems by (simp del: drop_append)
  next
    case False
    with Cons.prems obtain b where b: "cut_at sep s = (b, Some r)" "a = c # b" by (auto split: prod.splits)
    have "length sep \<le> length (c # s)" using cut_at_parts [OF b(1)] by simp
    then have "take (length sep) ((c # s) @ t) = take (length sep) (c # s)"
      by (simp only: take_append) simp
    then have "\<not> starts_with (c # s @ t) sep" using False by (simp add: starts_with_def)
    with Cons.IH [OF b(1)] b show ?thesis by simp
  qed
qed

subsection \<open>Messages out of a stream\<close>

text \<open>The pieces of a stream as they arrive, taken by a reader that may fail to return.\<close>

fun run_all :: "('c \<Rightarrow> 's \<Rightarrow> 's option) \<Rightarrow> 'c list \<Rightarrow> 's \<Rightarrow> 's option" where
  "run_all go [] s = Some s"
| "run_all go (c # cs) s = (case go c s of None \<Rightarrow> None | Some s' \<Rightarrow> run_all go cs s')"

locale framing =
  fixes enc :: "'e \<Rightarrow> string"
    and val :: "'e \<Rightarrow> 'm"
    and ok :: "'e \<Rightarrow> bool"
    and nxt :: "string \<Rightarrow> ('m \<times> string) option"
  assumes nxt_enc: "ok e \<Longrightarrow> nxt (enc e @ rest) = Some (val e, rest)"
    and nxt_part: "ok e \<Longrightarrow> enc e = p @ q \<Longrightarrow> q \<noteq> [] \<Longrightarrow> nxt p = None"
    and nxt_Nil: "nxt [] = None"
begin

definition stuck :: "'e list \<Rightarrow> string \<Rightarrow> bool" where
  "stuck es b \<longleftrightarrow> (case es of [] \<Rightarrow> b = [] | e # _ \<Rightarrow> b = [] \<or> (\<exists>q. enc e = b @ q \<and> q \<noteq> []))"

lemma stuck_nxt: "list_all ok es \<Longrightarrow> stuck es b \<Longrightarrow> nxt b = None"
  by (cases es) (auto simp: stuck_def nxt_Nil nxt_part)

lemma enc_nonempty: "ok e \<Longrightarrow> enc e \<noteq> []"
  using nxt_enc [of e "[]"] nxt_Nil by auto

text \<open>A beginning of the stream is some whole messages and a stuck rest.\<close>

lemma split_stream:
  "list_all ok es \<Longrightarrow> concat (List.map enc es) = b @ t \<Longrightarrow>
     \<exists>xs ys q. es = xs @ ys \<and> b = concat (List.map enc xs) @ q \<and> stuck ys q \<and> concat (List.map enc ys) = q @ t"
proof (induction es arbitrary: b)
  case Nil
  then show ?case by (simp add: stuck_def)
next
  case (Cons e es)
  show ?case
  proof (cases "length (enc e) \<le> length b")
    case True
    with Cons.prems obtain b' where b': "b = enc e @ b'" "concat (List.map enc es) = b' @ t"
      by (auto simp: append_eq_append_conv2)
    with Cons.IH [of b'] Cons.prems obtain xs ys q where "es = xs @ ys" "b' = concat (List.map enc xs) @ q"
      "stuck ys q" "concat (List.map enc ys) = q @ t" by auto
    with b' show ?thesis by (intro exI [of _ "e # xs"] exI [of _ ys] exI [of _ q]) simp
  next
    case False
    with Cons.prems obtain q where "enc e = b @ q" "q \<noteq> []"
      by (auto simp: append_eq_append_conv2)
    with Cons.prems show ?thesis
      by (intro exI [of _ "[]"] exI [of _ "e # es"] exI [of _ b]) (simp add: stuck_def)
  qed
qed

lemma stuck_whole: "list_all ok es \<Longrightarrow> stuck es b \<Longrightarrow> concat (List.map enc es) = b \<Longrightarrow> es = [] \<and> b = []"
proof (cases es)
  case (Cons e es')
  assume "list_all ok es" "stuck es b" "concat (List.map enc es) = b"
  moreover from this Cons have "enc e \<noteq> []" using enc_nonempty by simp
  ultimately show ?thesis using Cons by (auto simp: stuck_def)
qed simp

text \<open>However the stream is cut into pieces, its messages are read, each once and in order, and nothing is
  left over: \<open>R\<close> relates the messages read so far, the text that waits and the reader's state, and every
  piece keeps it.\<close>

lemma pieces_do_not_matter:
  assumes step: "\<And>ms xs ys b c q s. R ms b s \<Longrightarrow> c \<in> set cs \<Longrightarrow> b @ c = concat (List.map enc xs) @ q \<Longrightarrow>
        list_all ok (xs @ ys) \<Longrightarrow> stuck ys q \<Longrightarrow> length xs \<le> n \<Longrightarrow>
        \<exists>s'. go c s = Some s' \<and> R (ms @ List.map val xs) q s'"
    and "list_all ok es" "stuck es b" "concat (List.map enc es) = b @ concat cs" "length es \<le> n" "R ms b s"
  shows "\<exists>t. run_all go cs s = Some t \<and> R (ms @ List.map val es) [] t"
  using assms
proof (induction cs arbitrary: es b ms s)
  case Nil
  then show ?case using stuck_whole [of es b] by auto
next
  case (Cons c cs)
  from Cons.prems(4) have "concat (List.map enc es) = (b @ c) @ concat cs" by simp
  from split_stream [OF Cons.prems(2) this] obtain xs ys q where
    e: "es = xs @ ys" "b @ c = concat (List.map enc xs) @ q" "stuck ys q"
      "concat (List.map enc ys) = q @ concat cs" by blast
  have "\<exists>s'. go c s = Some s' \<and> R (ms @ List.map val xs) q s'"
    using e Cons.prems(2,5) by (intro Cons.prems(1) [OF Cons.prems(6), of c xs q ys]) simp_all
  then obtain s' where s': "go c s = Some s'" "R (ms @ List.map val xs) q s'" by blast
  have "\<exists>t. run_all go cs s' = Some t \<and> R ((ms @ List.map val xs) @ List.map val ys) [] t"
  proof (rule Cons.IH [OF _ _ e(3,4) _ s'(2)])
    fix ms' xs' ys' b' c' q' u
    assume "R ms' b' u" "c' \<in> set cs" "b' @ c' = concat (List.map enc xs') @ q'" "list_all ok (xs' @ ys')"
      "stuck ys' q'" "length xs' \<le> n"
    then show "\<exists>s'. go c' u = Some s' \<and> R (ms' @ List.map val xs') q' s'"
      by (intro Cons.prems(1)) simp_all
  qed (use Cons.prems e in simp_all)
  with s'(1) e show ?case by simp
qed

end

text \<open>Messages that end with a separator that does not occur in them.\<close>

lemma separator_framing:
  assumes "sep \<noteq> []"
  shows "framing (\<lambda>m. m @ sep) (\<lambda>m. m) (\<lambda>m. cut_at sep (m @ sep) = (m, Some []))
    (\<lambda>b. case cut_at sep b of (m, Some r) \<Rightarrow> Some (m, r) | (_, None) \<Rightarrow> None)"
proof
  fix e rest p q :: string
  assume e: "cut_at sep (e @ sep) = (e, Some [])"
  then show "(case cut_at sep ((e @ sep) @ rest) of (m, Some r) \<Rightarrow> Some (m, r) | (_, None) \<Rightarrow> None) = Some (e, rest)"
    using cut_at_stable [of sep "e @ sep" e "[]" rest] by simp
  assume "e @ sep = p @ q" "q \<noteq> []"
  then have "cut_at sep p \<noteq> (a, Some r)" for a r
    using e cut_at_stable [of sep p a r q] by auto
  then show "(case cut_at sep p of (m, Some r) \<Rightarrow> Some (m, r) | (_, None) \<Rightarrow> None) = None"
    by (cases "cut_at sep p") (auto split: option.splits)
qed (simp add: assms)

end
