(* ===== verification/Alb.thy ===== *)
theory Alb
  imports Complex_Main Addr Cutting
begin

text \<open>
  The HTTP load balancer, \<open>engine/alb_lb.py\<close>: reading path, host and cookies from a request, listener
  rules with shell patterns (the standard library's \<open>fnmatch\<close> on a POSIX system), the choice of a target
  group and of a member, and stickiness by cookie. Requests are strings of ASCII characters. Sockets are
  parameters: whether a health check or a connection succeeds.
\<close>

type_synonym target = "string \<times> int"

subsection \<open>\<open>fnmatch\<close>\<close>

text \<open>The part of a bracket up to its closing bracket and what follows; a closing bracket in first place, also
  after the negation, belongs to the class. \<open>None\<close> is a bracket that is never closed.\<close>

definition bracket :: "string \<Rightarrow> (bool \<times> string \<times> string) option" where
  "bracket p =
     (let neg = (p \<noteq> [] \<and> hd p = CHR ''!'');
          q = (if neg then tl p else p);
          lead = (if q \<noteq> [] \<and> hd q = CHR '']'' then 1 else 0)
      in case cut_at '']'' (drop lead q) of
           (body, Some rest) \<Rightarrow> Some (neg, take lead q @ body, rest)
         | (_, None) \<Rightarrow> None)"

fun in_class :: "string \<Rightarrow> char \<Rightarrow> bool" where
  "in_class [] c = False"
| "in_class [x] c = (c = x)"
| "in_class [x, y] c = (c = x \<or> c = y)"
| "in_class (x # y # z # cs) c =
     (if y = CHR ''-'' then (code_of x \<le> code_of c \<and> code_of c \<le> code_of z) \<or> in_class cs c
      else c = x \<or> in_class (y # z # cs) c)"

lemma bracket_shorter: "bracket p = Some (neg, cls, rest) \<Longrightarrow> length rest < length p"
proof -
  assume b: "bracket p = Some (neg, cls, rest)"
  define n where "n = (p \<noteq> [] \<and> hd p = CHR ''!'')"
  define q where "q = (if n then tl p else p)"
  obtain body k where "cut_at '']'' (drop k q) = (body, Some rest)"
    using b unfolding bracket_def Let_def n_def [symmetric] q_def [symmetric]
    by (auto split: prod.splits option.splits)
  from cut_shorter [OF this] have "length rest < length (drop k q)" by simp
  moreover have "length q \<le> length p" by (simp add: q_def)
  ultimately show ?thesis by simp
qed

function fnmatch :: "string \<Rightarrow> string \<Rightarrow> bool" where
  "fnmatch s [] = (s = [])"
| "fnmatch s (c # p) =
     (if c = CHR ''*'' then fnmatch s p \<or> (if s = [] then False else fnmatch (tl s) (c # p))
      else if s = [] then False
      else if c = CHR ''?'' then fnmatch (tl s) p
      else if c = CHR ''['' then
        (case bracket p of
           None \<Rightarrow> hd s = c \<and> fnmatch (tl s) p
         | Some (neg, cls, rest) \<Rightarrow> in_class cls (hd s) \<noteq> neg \<and> fnmatch (tl s) rest)
      else hd s = c \<and> fnmatch (tl s) p)"
  by pat_completeness auto
termination
proof (relation "measure (\<lambda>(s, p). length s + length p)", goal_cases)
  case (6 s c p x neg y cls rest)
  then have "length rest < length p" by (auto intro: bracket_shorter)
  then show ?case using 6 by (auto simp: neq_Nil_conv)
qed (auto simp: neq_Nil_conv)

declare fnmatch.simps(2) [simp del]

subsection \<open>Requests\<close>

definition crlf :: string where
  "crlf = [CHR 0x0D, CHR 0x0A]"

function split_seq :: "string \<Rightarrow> string \<Rightarrow> string list" where
  "split_seq sep s =
     (if sep = [] then [s]
      else case cut_at sep s of (a, None) \<Rightarrow> [a] | (a, Some r) \<Rightarrow> a # split_seq sep r)"
  by pat_completeness auto
termination
  by (relation "measure (\<lambda>(sep, s). length s)") (auto dest!: cut_shorter [OF sym])

declare split_seq.simps [simp del]

text \<open>\<open>bytes.strip()\<close>\<close>

definition is_bspace :: "char \<Rightarrow> bool" where
  "is_bspace c \<longleftrightarrow> (9 \<le> code_of c \<and> code_of c \<le> 13) \<or> code_of c = 32"

definition bstrip :: "string \<Rightarrow> string" where
  "bstrip s = rev (dropWhile is_bspace (rev (dropWhile is_bspace s)))"

definition after_colon :: "string \<Rightarrow> string" where
  "after_colon line = (case cut_at '':'' line of (_, Some r) \<Rightarrow> r | (_, None) \<Rightarrow> [])"

definition add_cookie :: "string \<Rightarrow> (string, string) dict \<Rightarrow> (string, string) dict" where
  "add_cookie part d =
     (case cut_at ''='' (strip part) of (k, Some v) \<Rightarrow> dset d k v | (_, None) \<Rightarrow> d)"

record request =
  rq_path :: string
  rq_host :: string
  rq_cookies :: "(string, string) dict"

definition read_header :: "string \<Rightarrow> request \<Rightarrow> request" where
  "read_header line q =
     (if starts_with (lower line) ''host:'' then q\<lparr>rq_host := bstrip (after_colon line)\<rparr>
      else if starts_with (lower line) ''cookie:''
      then q\<lparr>rq_cookies := fold (\<lambda>part d. if CHR ''='' \<in> set part then add_cookie part d else d)
                (split_on (CHR '';'') (bstrip (after_colon line))) (rq_cookies q)\<rparr>
      else q)"

definition parse_request :: "string \<Rightarrow> request" where
  "parse_request buf =
     (let lines = split_seq crlf (fst (cut_at (crlf @ crlf) buf));
          parts = split_on (CHR '' '') (hd lines);
          path = (if length parts \<ge> 2 then parts ! 1 else ''/'')
      in fold read_header (tl lines) \<lparr>rq_path = fst (cut_at ''?'' path), rq_host = [], rq_cookies = []\<rparr>)"

definition encode_member :: "target \<Rightarrow> string" where
  "encode_member m = fst m @ '':'' @ show_int (snd m)"

text \<open>\<open>token.rsplit(':', 1)\<close>; no cookie, no colon and a port that is no number give no member.\<close>

definition decode_member :: "string option \<Rightarrow> target option" where
  "decode_member token =
     (case token of
        None \<Rightarrow> None
      | Some t \<Rightarrow>
          if CHR '':'' \<notin> set t then None
          else (let port = rev (takeWhile (\<lambda>c. c \<noteq> CHR '':'') (rev t));
                    a = rev (tl (dropWhile (\<lambda>c. c \<noteq> CHR '':'') (rev t)))
                in map_option (Pair a) (py_int port)))"

subsection \<open>Rules and target groups\<close>

record condition =
  cn_field :: string
  cn_values :: "string list"

definition condition_holds :: "string \<Rightarrow> string \<Rightarrow> condition \<Rightarrow> bool" where
  "condition_holds path host c \<longleftrightarrow>
     (if cn_field c = ''path-pattern'' then \<exists>v\<in>set (cn_values c). fnmatch (if path = [] then ''/'' else path) v
      else if cn_field c = ''host-header'' then \<exists>v\<in>set (cn_values c). fnmatch (lower host) (lower v)
      else False)"

definition rule_matches :: "condition list \<Rightarrow> string \<Rightarrow> string \<Rightarrow> bool" where
  "rule_matches cs path host \<longleftrightarrow> cs \<noteq> [] \<and> list_all (condition_holds path host) cs"

record alb_rule =
  ar_priority :: "int option"
  ar_conditions :: "condition list"
  ar_target :: "string option"

record listener =
  ls_lb :: "string option"
  ls_port :: int
  ls_rules :: "string list"
  ls_default :: "string option"

definition rule_priority :: "(string, alb_rule) dict \<Rightarrow> string \<Rightarrow> int" where
  "rule_priority rules a =
     (case dget rules a of
        None \<Rightarrow> 999999
      | Some r \<Rightarrow> (case ar_priority r of None \<Rightarrow> 999999 | Some p \<Rightarrow> p))"

definition select_target_group :: "(string, alb_rule) dict \<Rightarrow> listener \<Rightarrow> string \<Rightarrow> string \<Rightarrow> string option" where
  "select_target_group rules l path host =
     (case List.find (\<lambda>a. case dget rules a of None \<Rightarrow> False | Some r \<Rightarrow> rule_matches (ar_conditions r) path host)
            (sort_key (rule_priority rules) (ls_rules l)) of
        Some a \<Rightarrow> (case dget rules a of None \<Rightarrow> None | Some r \<Rightarrow> ar_target r)
      | None \<Rightarrow> ls_default l)"

record group_member =
  gm_ip :: string
  gm_port :: int
  gm_admin_down :: bool

record stickiness =
  sk_enabled :: bool
  sk_duration :: int

record target_group =
  tg_members :: "group_member list"
  tg_protocol :: string
  tg_path :: string
  tg_stickiness :: "stickiness option"

text \<open>The probes: an HTTP request for a path that is answered with a status from 200 to 399, and a TCP
  connection.\<close>

record probes =
  pb_http :: "target \<Rightarrow> string \<Rightarrow> bool"
  pb_tcp :: "target \<Rightarrow> bool"

definition target_is_healthy :: "probes \<Rightarrow> string \<Rightarrow> target \<Rightarrow> string \<Rightarrow> bool" where
  "target_is_healthy pb protocol t path =
     (if protocol \<in> {''HTTP'', ''HTTPS''} then pb_http pb t (if path = [] then ''/'' else path) else pb_tcp pb t)"

definition healthy_targets :: "probes \<Rightarrow> (string, target_group) dict \<Rightarrow> string option \<Rightarrow> target list" where
  "healthy_targets pb groups g =
     (if \<not> truthy g then []
      else case dget groups (the g) of
             None \<Rightarrow> []
           | Some tg \<Rightarrow>
               filter (\<lambda>t. target_is_healthy pb (tg_protocol tg) t (tg_path tg))
                 (List.map (\<lambda>m. (gm_ip m, gm_port m)) (filter (\<lambda>m. \<not> gm_admin_down m) (tg_members tg))))"

definition group_stickiness :: "(string, target_group) dict \<Rightarrow> string option \<Rightarrow> stickiness option" where
  "group_stickiness groups g =
     (if \<not> truthy g then None
      else case dget groups (the g) of None \<Rightarrow> None | Some tg \<Rightarrow> tg_stickiness tg)"

subsection \<open>A connection\<close>

type_synonym turns = "(string, int) dict"

definition next_member :: "string \<Rightarrow> target list \<Rightarrow> turns \<Rightarrow> turns \<times> target option" where
  "next_member g ms rr =
     (if ms = [] then (rr, None)
      else let i = (dget_or rr g (-1) + 1) mod int (length ms) in (dset rr g i, Some (ms ! nat i)))"

datatype answer =
    Dropped
  | Status503
  | Status502
  | Relayed target string

definition set_cookie :: "target \<Rightarrow> int \<Rightarrow> string" where
  "set_cookie m duration = ''Set-Cookie: AWSALB='' @ encode_member m @ ''; Max-Age='' @ show_int duration @ ''; Path=/''"

text \<open>What the calls of \<open>recv\<close> on the backend's socket return in turn: a piece of the response, an empty piece
  at its end, and \<open>None\<close> for a timeout or an error; behind the list every call returns the empty piece. The
  head is read until it is complete or 65536 bytes are there.\<close>

type_synonym received = "string option list"

fun read_head :: "string \<Rightarrow> received \<Rightarrow> string \<times> received" where
  "read_head buf [] = (buf, [])"
| "read_head buf (r # rs) =
     (if snd (cut_at (crlf @ crlf) buf) \<noteq> None \<or> 65536 \<le> length buf then (buf, r # rs)
      else case r of None \<Rightarrow> (buf, rs) | Some c \<Rightarrow> if c = [] then (buf, rs) else read_head (buf @ c) rs)"

text \<open>\<open>_pump\<close>: the pieces up to the first empty one, error or timeout.\<close>

fun pump :: "received \<Rightarrow> string" where
  "pump [] = []"
| "pump (r # rs) = (case r of None \<Rightarrow> [] | Some c \<Rightarrow> if c = [] then [] else c @ pump rs)"

text \<open>The cookie line goes behind the head; a response whose head is not complete is relayed as it is.\<close>

definition with_cookie :: "string \<Rightarrow> string \<Rightarrow> string" where
  "with_cookie line buf =
     (case cut_at (crlf @ crlf) buf of
        (head, Some rest) \<Rightarrow> head @ crlf @ line @ crlf @ crlf @ rest
      | (_, None) \<Rightarrow> buf)"

definition relay :: "target \<Rightarrow> int option \<Rightarrow> received \<Rightarrow> string" where
  "relay m stick rs =
     (case stick of
        None \<Rightarrow> pump rs
      | Some duration \<Rightarrow> (case read_head [] rs of (buf, rs') \<Rightarrow> with_cookie (set_cookie m duration) buf @ pump rs'))"

text \<open>\<open>_handle\<close>: the answer, \<open>Relayed\<close> with the text that a client which stays connected receives. \<open>backend\<close> is
  what a member's socket delivers, \<open>None\<close> when the connection is refused.\<close>

definition alb_handle ::
  "probes \<Rightarrow> (target \<Rightarrow> received option) \<Rightarrow> (string, alb_rule) dict \<Rightarrow> (string, target_group) dict \<Rightarrow> listener \<Rightarrow>
     string \<Rightarrow> turns \<Rightarrow> turns \<times> answer"
where
  "alb_handle pb backend rules groups l buf rr =
     (if buf = [] then (rr, Dropped)
      else let q = parse_request buf;
               g = select_target_group rules l (rq_path q) (rq_host q);
               stick = (case group_stickiness groups g of Some k \<Rightarrow> if sk_enabled k then Some (sk_duration k) else None | None \<Rightarrow> None);
               cand = (if stick = None then None else decode_member (dget (rq_cookies q) ''AWSALB''));
               held = (case cand of Some m \<Rightarrow> if m \<in> set (healthy_targets pb groups g) then Some m else None | None \<Rightarrow> None)
           in case (case held of
                      Some m \<Rightarrow> (rr, Some m)
                    | None \<Rightarrow> (case g of None \<Rightarrow> (rr, None) | Some k \<Rightarrow> next_member k (healthy_targets pb groups g) rr)) of
                (rr', None) \<Rightarrow> (rr', Status503)
              | (rr', Some m) \<Rightarrow>
                  (case backend m of None \<Rightarrow> (rr', Status502) | Some rs \<Rightarrow> (rr', Relayed m (relay m stick rs))))"

subsection \<open>Listeners\<close>

type_synonym alb_proxies = "(string \<times> string, string \<times> int) dict"

record alb_config =
  ac_listeners :: "(string, listener) dict"
  ac_vips :: "(string, string option) dict"

definition ensure_alb_listener ::
  "(string \<times> int \<Rightarrow> bool) \<Rightarrow> string \<Rightarrow> string \<Rightarrow> (string, alb_config) dict \<Rightarrow> alb_proxies \<Rightarrow> alb_proxies \<times> bool"
where
  "ensure_alb_listener starts d arn sessions ps =
     (case dget sessions d of
        None \<Rightarrow> (ps, False)
      | Some st \<Rightarrow>
          (case dget (ac_listeners st) arn of
             None \<Rightarrow> (ps, False)
           | Some l \<Rightarrow>
               (case Option.bind (ls_lb l) (dget (ac_vips st)) of
                  None \<Rightarrow> (ps, False)
                | Some vip \<Rightarrow>
                    if \<not> truthy vip \<or> ls_port l = 0 then (ps, False)
                    else let addr = (the vip, ls_port l);
                             fresh = (\<lambda>ps. if starts addr then (dset ps (d, arn) addr, True) else (ps, False))
                         in case dget ps (d, arn) of
                              Some x \<Rightarrow> if x = addr then (ps, True) else fresh (dpop ps (d, arn))
                            | None \<Rightarrow> fresh ps)))"

definition stop_alb_listener :: "string \<Rightarrow> string \<Rightarrow> alb_proxies \<Rightarrow> alb_proxies \<times> bool" where
  "stop_alb_listener d arn ps =
     (case dget ps (d, arn) of None \<Rightarrow> (ps, False) | Some _ \<Rightarrow> (dpop ps (d, arn), True))"

subsection \<open>What patterns match\<close>

definition plain_char :: "char \<Rightarrow> bool" where
  "plain_char c \<longleftrightarrow> c \<notin> {CHR ''*'', CHR ''?'', CHR ''[''}"

lemma fnmatch_plain_Cons: "plain_char c \<Longrightarrow> fnmatch s (c # p) \<longleftrightarrow> s \<noteq> [] \<and> hd s = c \<and> fnmatch (tl s) p"
  by (subst fnmatch.simps(2)) (auto simp: plain_char_def)

lemma fnmatch_star: "fnmatch s (CHR ''*'' # p) \<longleftrightarrow> (\<exists>k\<le>length s. fnmatch (drop k s) p)"
proof (induction s)
  case Nil
  show ?case by (subst fnmatch.simps(2)) simp
next
  case (Cons c s)
  have "fnmatch (c # s) (CHR ''*'' # p) \<longleftrightarrow> fnmatch (c # s) p \<or> fnmatch s (CHR ''*'' # p)"
    by (subst fnmatch.simps(2)) simp
  also have "\<dots> \<longleftrightarrow> (\<exists>k\<le>length (c # s). fnmatch (drop k (c # s)) p)"
  proof
    assume "fnmatch (c # s) p \<or> fnmatch s (CHR ''*'' # p)"
    then show "\<exists>k\<le>length (c # s). fnmatch (drop k (c # s)) p"
    proof
      assume "fnmatch (c # s) p"
      then show ?thesis by (intro exI [of _ 0]) simp
    next
      assume "fnmatch s (CHR ''*'' # p)"
      then obtain k where "k \<le> length s" "fnmatch (drop k s) p" using Cons.IH by blast
      then show ?thesis by (intro exI [of _ "Suc k"]) simp
    qed
  next
    assume "\<exists>k\<le>length (c # s). fnmatch (drop k (c # s)) p"
    then obtain k where k: "k \<le> length (c # s)" "fnmatch (drop k (c # s)) p" by blast
    then show "fnmatch (c # s) p \<or> fnmatch s (CHR ''*'' # p)"
      using Cons.IH by (cases k) auto
  qed
  finally show ?case .
qed

lemma fnmatch_plain_prefix:
  "list_all plain_char pre \<Longrightarrow> fnmatch s (pre @ p) \<longleftrightarrow> starts_with s pre \<and> fnmatch (drop (length pre) s) p"
proof (induction pre arbitrary: s)
  case (Cons c pre)
  then show ?case by (cases s) (auto simp: fnmatch_plain_Cons starts_with_def)
qed (simp add: starts_with_def)

text \<open>A pattern without special characters matches itself only; with a star behind it, it matches the
  texts that begin with it; with a star in front, those that end with it.\<close>

theorem patterns_of_rules:
  assumes "list_all plain_char w"
  shows "(fnmatch s w \<longleftrightarrow> s = w) \<and> (fnmatch s (w @ ''*'') \<longleftrightarrow> (\<exists>rest. s = w @ rest)) \<and>
    (fnmatch s (''*'' @ w) \<longleftrightarrow> (\<exists>front. s = front @ w))"
proof -
  have self: "fnmatch s w \<longleftrightarrow> s = w" for s
    using fnmatch_plain_prefix [OF assms, of s "[]"] by (auto simp: starts_with_def)
  have pre: "starts_with s w \<longleftrightarrow> (\<exists>rest. s = w @ rest)"
    by (auto simp: starts_with_def) (metis append_take_drop_id)
  have "fnmatch s' ''*''" for s' by (simp add: fnmatch_star) (metis drop_all order_refl)
  then have "fnmatch s (w @ ''*'') \<longleftrightarrow> (\<exists>rest. s = w @ rest)" using fnmatch_plain_prefix [OF assms] pre by simp
  moreover have "fnmatch s (''*'' @ w) \<longleftrightarrow> (\<exists>front. s = front @ w)"
  proof
    assume "fnmatch s (''*'' @ w)"
    then obtain k where "drop k s = w" using fnmatch_star [of s w] self by auto
    then show "\<exists>front. s = front @ w" by (metis append_take_drop_id)
  next
    assume "\<exists>front. s = front @ w"
    then obtain front where "s = front @ w" by blast
    then have "drop (length front) s = w" "length front \<le> length s" by simp_all
    then show "fnmatch s (''*'' @ w)" using fnmatch_star [of s w] self by auto
  qed
  ultimately show ?thesis using self by simp
qed

theorem patterns_of_rules_witness:
  "fnmatch ''/api/v1/users'' (''/api/'' @ ''*'') \<and> \<not> fnmatch ''/static/x'' (''/api/'' @ ''*'')"
proof -
  have "list_all plain_char ''/api/''" by (simp add: plain_char_def)
  from patterns_of_rules [OF this] show ?thesis by simp
qed

lemma find_filter: "List.find P xs = (case filter P xs of [] \<Rightarrow> None | x # _ \<Rightarrow> Some x)"
  by (induction xs) auto

lemma find_sort_key:
  assumes "List.find P (sort_key f xs) = Some a"
  shows "\<exists>ys zs. xs = ys @ a # zs \<and> P a \<and> (\<forall>b\<in>set ys. P b \<longrightarrow> f a < f b) \<and> (\<forall>b\<in>set zs. P b \<longrightarrow> f a \<le> f b)"
proof -
  obtain rest where "filter P (sort_key f xs) = a # rest" using assms by (auto simp: find_filter split: list.splits)
  then have L: "sort_key f (filter P xs) = a # rest" by (simp add: filter_sort)
  have "sorted (List.map f (a # rest))" using sorted_sort_key [of f "filter P xs"] by (simp only: L)
  moreover have "set (a # rest) = {b \<in> set xs. P b}" using set_sort [of f "filter P xs"] by (auto simp: L)
  ultimately have least: "f a \<le> f b" if "b \<in> set xs" "P b" for b using that by (auto dest: equalityD2)
  have "filter (\<lambda>y. f y = f a) (sort_key f (filter P xs)) = filter (\<lambda>y. f y = f a) (filter P xs)"
    by (rule sort_key_stable)
  then have "filter (\<lambda>y. f y = f a) (filter P xs) = filter (\<lambda>y. f y = f a) (a # rest)" unfolding L by (rule sym)
  then have "\<exists>us. filter (\<lambda>y. f y = f a \<and> P y) xs = a # us" by (simp add: conj_commute)
  then obtain ys zs where xs: "xs = ys @ a # zs" "\<forall>y\<in>set ys. \<not> (f y = f a \<and> P y)" "P a"
    by (auto simp: filter_eq_Cons_iff)
  moreover from xs least have "\<forall>b\<in>set ys. P b \<longrightarrow> f a < f b" by (metis Un_iff order_le_less set_append)
  moreover from xs least have "\<forall>b\<in>set zs. P b \<longrightarrow> f a \<le> f b" by simp
  ultimately show ?thesis by blast
qed

definition rule_hits :: "(string, alb_rule) dict \<Rightarrow> string \<Rightarrow> string \<Rightarrow> string \<Rightarrow> bool" where
  "rule_hits rules path host a \<longleftrightarrow> (\<exists>r. dget rules a = Some r \<and> rule_matches (ar_conditions r) path host)"

lemma select_target_group_find:
  "select_target_group rules l path host =
     (case List.find (rule_hits rules path host) (sort_key (rule_priority rules) (ls_rules l)) of
        Some a \<Rightarrow> Option.bind (dget rules a) ar_target
      | None \<Rightarrow> ls_default l)"
proof -
  have "rule_hits rules path host = (\<lambda>a. case dget rules a of None \<Rightarrow> False | Some r \<Rightarrow> rule_matches (ar_conditions r) path host)"
    by (auto simp: rule_hits_def fun_eq_iff split: option.split)
  then show ?thesis by (auto simp: select_target_group_def split: option.split)
qed

text \<open>A request goes to the target group of the matching rule of least priority, the first listed among
  equals; without a matching rule it goes to the default group.\<close>

theorem target_group_chosen:
  "if \<exists>a\<in>set (ls_rules l). rule_hits rules path host a
   then \<exists>xs a ys. ls_rules l = xs @ a # ys \<and> rule_hits rules path host a \<and>
     select_target_group rules l path host = Option.bind (dget rules a) ar_target \<and>
     (\<forall>b\<in>set xs. rule_hits rules path host b \<longrightarrow> rule_priority rules a < rule_priority rules b) \<and>
     (\<forall>b\<in>set ys. rule_hits rules path host b \<longrightarrow> rule_priority rules a \<le> rule_priority rules b)
   else select_target_group rules l path host = ls_default l"
proof (cases "List.find (rule_hits rules path host) (sort_key (rule_priority rules) (ls_rules l))")
  case None
  then show ?thesis by (auto simp: select_target_group_find None, simp add: find_None_iff)
next
  case (Some a)
  from find_sort_key [OF this] show ?thesis by (auto simp: select_target_group_find Some)
qed

theorem target_group_chosen_witness:
  "select_target_group [(''r1'', \<lparr>ar_priority = Some 20, ar_conditions = [\<lparr>cn_field = ''path-pattern'', cn_values = [''*'']\<rparr>], ar_target = Some ''all''\<rparr>)]
     \<lparr>ls_lb = None, ls_port = 80, ls_rules = [''r1''], ls_default = Some ''rest''\<rparr> ''/x'' ''h'' = Some ''all''"
proof -
  let ?rules = "[(''r1'', \<lparr>ar_priority = Some 20, ar_conditions = [\<lparr>cn_field = ''path-pattern'', cn_values = [''*'']\<rparr>], ar_target = Some ''all''\<rparr>)]"
  let ?l = "\<lparr>ls_lb = None, ls_port = 80, ls_rules = [''r1''], ls_default = Some ''rest''\<rparr>"
  have "rule_hits ?rules ''/x'' ''h'' ''r1''"
    by (simp add: rule_hits_def rule_matches_def condition_holds_def fnmatch_star) (metis drop_all order_refl)
  with target_group_chosen [of ?l ?rules "''/x''" "''h''"] show ?thesis by (auto simp: Cons_eq_append_conv)
qed

subsection \<open>The cookie leads back to its member\<close>

definition a_line :: "string \<Rightarrow> bool" where
  "a_line w \<longleftrightarrow> w \<noteq> [] \<and> CHR 0x0D \<notin> set w"

lemma split_lines:
  assumes "a_line w"
  shows "split_seq crlf (w @ crlf @ rest) = w # split_seq crlf rest" "split_seq crlf w = [w]"
  using assms cut_found [of crlf w rest] cut_missing [of crlf w]
  by (simp_all add: a_line_def crlf_def split_seq.simps [of "[CHR 0x0D, CHR 0x0A]" "w @ CHR 0x0D # CHR 0x0A # rest"]
      split_seq.simps [of "[CHR 0x0D, CHR 0x0A]" w])

text \<open>The end of the head is the first empty line.\<close>

lemma head_one: "a_line w \<Longrightarrow> cut_at (crlf @ crlf) (w @ crlf @ crlf @ rest) = (w, Some rest)"
  using cut_found [of "crlf @ crlf" w rest] by (simp add: a_line_def crlf_def)

lemma head_more:
  assumes "a_line w" "a_line v"
  shows "cut_at (crlf @ crlf) (w @ crlf @ v @ rest) = (case cut_at (crlf @ crlf) (v @ rest) of (x, r) \<Rightarrow> (w @ crlf @ x, r))"
proof -
  obtain c v' where v: "v = c # v'" "c \<noteq> CHR 0x0D" using assms(2) by (cases v) (auto simp: a_line_def)
  have w: "hd (crlf @ crlf) \<notin> set w" "crlf @ crlf \<noteq> []" using assms(1) by (simp_all add: a_line_def crlf_def)
  have "cut_at (crlf @ crlf) (crlf @ v @ rest) = (case cut_at (crlf @ crlf) (v @ rest) of (x, r) \<Rightarrow> (crlf @ x, r))"
    using v by (simp add: crlf_def starts_with_def split: prod.split)
  then show ?thesis using cut_skip [OF w(2,1), of "crlf @ v @ rest"] by (simp split: prod.split)
qed

definition ask :: "string \<Rightarrow> string \<Rightarrow> string \<Rightarrow> string" where
  "ask path host cookie =
     ''GET '' @ path @ '' HTTP/1.1'' @ crlf @ ''Host: '' @ host @ crlf @ ''Cookie: AWSALB='' @ cookie @ crlf @ crlf"

lemma bstrip_id:
  assumes "s \<noteq> []" "\<not> is_bspace (hd s)" "\<not> is_bspace (last s)"
  shows "bstrip s = s" "bstrip (CHR '' '' # s) = s"
proof -
  have "dropWhile is_bspace s = s" "dropWhile is_bspace (rev s) = rev s"
    using assms by (cases s, auto) (cases s rule: rev_cases, auto)
  moreover have "is_bspace (CHR '' '')" by (simp add: is_bspace_def code_of_def)
  ultimately show "bstrip s = s" "bstrip (CHR '' '' # s) = s" by (simp_all add: bstrip_def)
qed

lemma read_host_line: "read_header (''Host: '' @ host) q = q\<lparr>rq_host := bstrip (CHR '' '' # host)\<rparr>"
proof -
  have "lower ''Host: '' = ''host: ''" by code_simp
  then have "lower (''Host: '' @ host) = ''host: '' @ lower host" by (simp add: lower_def)
  then have "starts_with (lower (''Host: '' @ host)) ''host:''" by (simp only:) (simp add: starts_with_def)
  moreover have "after_colon (''Host: '' @ host) = CHR '' '' # host" by (simp add: after_colon_def starts_with_def)
  ultimately show ?thesis by (simp add: read_header_def)
qed

lemma read_cookie_line:
  assumes "w \<noteq> []" "\<forall>c\<in>set w. \<not> is_space c \<and> c \<noteq> CHR '';'' \<and> c \<noteq> CHR ''=''"
  shows "read_header (''Cookie: AWSALB='' @ w) q = q\<lparr>rq_cookies := dset (rq_cookies q) ''AWSALB'' w\<rparr>"
proof -
  have 1: "starts_with (lower (''Cookie: AWSALB='' @ w)) ''cookie:'' \<and> \<not> starts_with (lower (''Cookie: AWSALB='' @ w)) ''host:''"
  proof -
    have "lower ''Cookie: AWSALB='' = ''cookie: awsalb=''" by code_simp
    then have "lower (''Cookie: AWSALB='' @ w) = ''cookie: awsalb='' @ lower w" by (simp add: lower_def)
    then show ?thesis by (simp only:) (simp add: starts_with_def)
  qed
  have 2: "after_colon (''Cookie: AWSALB='' @ w) = CHR '' '' # ''AWSALB='' @ w" by (simp add: after_colon_def starts_with_def)
  have sp: "is_bspace c \<Longrightarrow> is_space c" for c by (auto simp: is_bspace_def is_space_def)
  have "last w \<in> set w" using assms(1) by simp
  with assms(2) have "\<not> is_space (last w)" by fast
  with sp have "\<not> is_bspace (last w)" by blast
  then have 3: "bstrip (CHR '' '' # ''AWSALB='' @ w) = ''AWSALB='' @ w"
    using assms(1) by (intro bstrip_id) (auto simp: is_bspace_def code_of_def)
  have semi: "CHR '';'' \<notin> set (''AWSALB='' @ w)" using assms(2) by auto
  have ns: "\<forall>c\<in>set (''AWSALB='' @ w). \<not> is_space c" using assms(2) by (auto simp: is_space_def code_of_def)
  have 4: "add_cookie (''AWSALB='' @ w) d = dset d ''AWSALB'' w" for d
    using strip_no_space [OF ns] by (simp add: add_cookie_def starts_with_def)
  show ?thesis
    using 1 by (simp only: read_header_def 2 3 split_on_no_sep [OF semi] 4 fold_simps if_True if_False simp_thms)
       (simp add: 4)
qed

definition cookie_char :: "char \<Rightarrow> bool" where
  "cookie_char c \<longleftrightarrow> \<not> is_space c \<and> c \<noteq> CHR '';'' \<and> c \<noteq> CHR ''=''"

lemma parse_ask:
  assumes path: "path \<noteq> []" "CHR '' '' \<notin> set path" "CHR 0x0D \<notin> set path" "CHR ''?'' \<notin> set path"
    and host: "CHR 0x0D \<notin> set host" and cookie: "w \<noteq> []" "list_all cookie_char w"
  shows "rq_path (parse_request (ask path host w)) = path"
    "dget (rq_cookies (parse_request (ask path host w))) ''AWSALB'' = Some w"
    "rq_host (parse_request (ask path host w)) = bstrip (CHR '' '' # host)"
proof -
  define L1 where "L1 = ''GET '' @ path @ '' HTTP/1.1''"
  define L2 where "L2 = ''Host: '' @ host"
  define L3 where "L3 = ''Cookie: AWSALB='' @ w"
  have w: "\<forall>c\<in>set w. \<not> is_space c \<and> c \<noteq> CHR '';'' \<and> c \<noteq> CHR ''=''" using cookie(2) by (simp add: list_all_iff cookie_char_def)
  have "is_space (CHR 0x0D)" by (simp add: is_space_def code_of_def)
  then have "CHR 0x0D \<notin> set w" using w by blast
  then have l: "a_line L1" "a_line L2" "a_line L3" using path host by (simp_all add: a_line_def L1_def L2_def L3_def)
  have ask: "ask path host w = L1 @ crlf @ L2 @ crlf @ L3 @ crlf @ crlf" by (simp add: ask_def L1_def L2_def L3_def)
  have head: "fst (cut_at (crlf @ crlf) (ask path host w)) = L1 @ crlf @ L2 @ crlf @ L3"
    using head_one [OF l(3), of "[]"] by (simp add: ask head_more [OF l(1,2)] head_more [OF l(2,3)])
  have lines: "split_seq crlf (L1 @ crlf @ L2 @ crlf @ L3) = [L1, L2, L3]"
    by (simp add: split_lines l)
  have "split_on (CHR '' '') (''GET'' @ CHR '' '' # (path @ CHR '' '' # ''HTTP/1.1'')) = [''GET'', path, ''HTTP/1.1'']"
    by (subst split_on_append, simp, subst split_on_append, rule path(2), simp)
  then have parts: "split_on (CHR '' '') L1 = [''GET'', path, ''HTTP/1.1'']" by (simp add: L1_def)
  have q: "cut_at ''?'' path = (path, None)" using path(4) by (intro cut_missing) simp_all
  have read2: "read_header L2 x = x\<lparr>rq_host := bstrip (CHR '' '' # host)\<rparr>" for x
    unfolding L2_def by (rule read_host_line)
  have read3: "read_header L3 x = x\<lparr>rq_cookies := dset (rq_cookies x) ''AWSALB'' w\<rparr>" for x
    unfolding L3_def by (rule read_cookie_line [OF cookie(1) w])
  have "parse_request (ask path host w) =
      \<lparr>rq_path = path, rq_host = bstrip (CHR '' '' # host), rq_cookies = [(''AWSALB'', w)]\<rparr>"
    by (simp add: parse_request_def Let_def head lines parts q read2 read3 dset_def)
  then show "rq_path (parse_request (ask path host w)) = path"
    "dget (rq_cookies (parse_request (ask path host w))) ''AWSALB'' = Some w"
    "rq_host (parse_request (ask path host w)) = bstrip (CHR '' '' # host)" by simp_all
qed

lemma not_digits: "\<not> is_digit (CHR '':'')" "\<not> is_digit (CHR '';'')" "\<not> is_digit (CHR ''='')"
  by (simp_all add: is_digit_def code_of_def)

lemma decode_encode:
  assumes "snd m \<ge> 0"
  shows "decode_member (Some (encode_member m)) = Some m"
proof -
  have d: "CHR '':'' \<notin> set (show_int (snd m))"
    using show_int_digits [OF assms] not_digits by blast
  have e: "rev (encode_member m) = rev (show_int (snd m)) @ CHR '':'' # rev (fst m)" by (simp add: encode_member_def)
  have t: "takeWhile (\<lambda>c. c \<noteq> CHR '':'') (rev (encode_member m)) = rev (show_int (snd m))"
    unfolding e using d by (subst takeWhile_append2) auto
  have "dropWhile (\<lambda>c. c \<noteq> CHR '':'') (rev (encode_member m)) = CHR '':'' # rev (fst m)"
    unfolding e using d by (subst dropWhile_append2) auto
  with t show ?thesis
    using py_int_show_int [OF assms] by (simp add: decode_member_def Let_def) (simp add: encode_member_def)
qed

subsection \<open>The response with its cookie\<close>

lemma pump_all: "[] \<notin> set cs \<Longrightarrow> pump (List.map Some cs) = concat cs"
  by (induction cs) auto

lemma with_cookie_more:
  "cut_at (crlf @ crlf) buf = (head, Some r) \<Longrightarrow> with_cookie line buf @ t = with_cookie line (buf @ t)"
  using cut_at_stable [of "crlf @ crlf" buf head r t] by (simp add: with_cookie_def)

text \<open>However the backend cuts its response into pieces, the cookie line ends up behind its head.\<close>

lemma relay_any_pieces:
  assumes "[] \<notin> set cs" "cut_at (crlf @ crlf) (buf @ concat cs) = (head, Some rest)" "length head + 4 \<le> 65536"
  shows "(case read_head buf (List.map Some cs) of (b, rs) \<Rightarrow> with_cookie line b @ pump rs) = with_cookie line (buf @ concat cs)"
  using assms(1,2)
proof (induction cs arbitrary: buf)
  case (Cons c cs)
  show ?case
  proof (cases "cut_at (crlf @ crlf) buf")
    case (Pair h r)
    show ?thesis
    proof (cases r)
      case None
      have "\<not> 65536 \<le> length buf"
      proof
        assume "65536 \<le> length buf"
        with assms(3) have "length (head @ crlf @ crlf) \<le> length buf" by (simp add: crlf_def)
        moreover have "buf @ concat (c # cs) = (head @ crlf @ crlf) @ rest" using cut_at_parts [OF Cons.prems(2)] by simp
        ultimately obtain t where "buf = head @ (crlf @ crlf) @ t"
          using longer_prefix [of buf "concat (c # cs)" "head @ crlf @ crlf" rest] by auto
        then show False using Pair None cut_occurs [of "crlf @ crlf" head t h] by (simp add: crlf_def)
      qed
      with None Pair Cons show ?thesis by auto
    next
      case (Some t)
      with Pair have "cut_at (crlf @ crlf) buf = (h, Some t)" by simp
      from with_cookie_more [OF this, of line "concat (c # cs)"] this show ?thesis
        using pump_all [OF Cons.prems(1)] by simp
    qed
  qed
qed (simp add: with_cookie_def)

text \<open>C33. The cookie that is put into a response leads the client back: a request that carries it, whatever
  its path and host, is relayed to the member named in it as long as its target group is sticky and that
  member healthy, and it does not take another member's turn. The answer carries the cookie again: however
  the member's response is cut into pieces, a response whose head ends within 65536 bytes reaches the client
  with the cookie line behind its head and otherwise unchanged.\<close>

theorem sticky_client_returns:
  assumes "path \<noteq> []" "CHR '' '' \<notin> set path" "CHR 0x0D \<notin> set path" "CHR ''?'' \<notin> set path" "CHR 0x0D \<notin> set host"
    and "list_all cookie_char (fst m)" "0 \<le> snd m"
    and "select_target_group rules l path (bstrip (CHR '' '' # host)) = Some g"
    and "group_stickiness groups (Some g) = Some k" "sk_enabled k" "m \<in> set (healthy_targets pb groups (Some g))"
    and "backend m = Some rs"
  shows "\<exists>t. alb_handle pb backend rules groups l (ask path host (encode_member m)) rr = (rr, Relayed m t) \<and>
    (\<forall>cs head rest. rs = List.map Some cs \<and> [] \<notin> set cs \<and> length head + 4 \<le> 65536 \<and>
        cut_at (crlf @ crlf) (concat cs) = (head, Some rest) \<longrightarrow>
      t = head @ crlf @ set_cookie m (sk_duration k) @ crlf @ crlf @ rest)"
proof (intro exI conjI allI impI)
  have "list_all cookie_char (show_int (snd m))"
    using show_int_digits [OF assms(7)] is_digit_not_space not_digits unfolding list_all_iff cookie_char_def by metis
  moreover have "cookie_char (CHR '':'')" by (simp add: cookie_char_def is_space_def code_of_def)
  ultimately have w: "encode_member m \<noteq> []" "list_all cookie_char (encode_member m)"
    using assms(6) by (simp_all add: encode_member_def)
  have "ask path host (encode_member m) \<noteq> []" by (simp add: ask_def)
  then show "alb_handle pb backend rules groups l (ask path host (encode_member m)) rr =
      (rr, Relayed m (relay m (Some (sk_duration k)) rs))"
    using assms(8-12) parse_ask [OF assms(1-5) w] decode_encode [OF assms(7)]
    by (simp add: alb_handle_def Let_def)
next
  fix cs head rest
  assume "rs = List.map Some cs \<and> [] \<notin> set cs \<and> length head + 4 \<le> 65536 \<and>
    cut_at (crlf @ crlf) (concat cs) = (head, Some rest)"
  then show "relay m (Some (sk_duration k)) rs = head @ crlf @ set_cookie m (sk_duration k) @ crlf @ crlf @ rest"
    using relay_any_pieces [of cs "[]" head rest] by (simp add: relay_def with_cookie_def)
qed

definition demo_groups :: "(string, target_group) dict" where
  "demo_groups = [(''g'', \<lparr>tg_members = [\<lparr>gm_ip = ''10.0.0.1'', gm_port = 80, gm_admin_down = False\<rparr>,
       \<lparr>gm_ip = ''10.0.0.2'', gm_port = 80, gm_admin_down = False\<rparr>],
     tg_protocol = ''TCP'', tg_path = ''/'', tg_stickiness = Some \<lparr>sk_enabled = True, sk_duration = 60\<rparr>\<rparr>)]"

theorem sticky_client_returns_witness:
  "snd (alb_handle \<lparr>pb_http = (\<lambda>_ _. False), pb_tcp = (\<lambda>_. True)\<rparr>
      (\<lambda>_. Some [Some (''HTTP/1.1 200 OK'' @ crlf), Some (crlf @ ''hi''), Some ''!'']) [] demo_groups
      \<lparr>ls_lb = None, ls_port = 80, ls_rules = [], ls_default = Some ''g''\<rparr>
      (ask ''/'' ''shop'' (encode_member (''10.0.0.2'', 80))) []) =
    Relayed (''10.0.0.2'', 80) (''HTTP/1.1 200 OK'' @ crlf @ set_cookie (''10.0.0.2'', 80) 60 @ crlf @ crlf @ ''hi!'')"
proof -
  let ?pb = "\<lparr>pb_http = (\<lambda>_ _. False), pb_tcp = (\<lambda>_. True)\<rparr>"
  let ?l = "\<lparr>ls_lb = None, ls_port = 80, ls_rules = [], ls_default = Some ''g''\<rparr>"
  let ?cs = "[''HTTP/1.1 200 OK'' @ crlf, crlf @ ''hi'', ''!'']"
  have m: "list_all cookie_char (fst (''10.0.0.2'', 80::int))" by (simp add: cookie_char_def is_space_def code_of_def)
  have g: "select_target_group [] ?l ''/'' (bstrip (CHR '' '' # ''shop'')) = Some ''g''" by (simp add: select_target_group_def)
  have k: "group_stickiness demo_groups (Some ''g'') = Some \<lparr>sk_enabled = True, sk_duration = 60\<rparr>"
    by (simp add: group_stickiness_def demo_groups_def truthy_def)
  have h: "(''10.0.0.2'', 80) \<in> set (healthy_targets ?pb demo_groups (Some ''g''))"
    by (simp add: healthy_targets_def demo_groups_def truthy_def target_is_healthy_def)
  have c: "cut_at (crlf @ crlf) (concat ?cs) = (''HTTP/1.1 200 OK'', Some ''hi!'')" by (simp add: crlf_def starts_with_def)
  have "[] \<notin> set ?cs" by (simp add: crlf_def)
  with c have r: "List.map Some ?cs = List.map Some ?cs \<and> [] \<notin> set ?cs \<and> length ''HTTP/1.1 200 OK'' + 4 \<le> 65536 \<and>
      cut_at (crlf @ crlf) (concat ?cs) = (''HTTP/1.1 200 OK'', Some ''hi!'')" by simp
  note claim = sticky_client_returns [of "''/''" "''shop''" "(''10.0.0.2'', 80)" "[]" ?l "''g''" demo_groups
      "\<lparr>sk_enabled = True, sk_duration = 60\<rparr>" ?pb "\<lambda>_. Some (List.map Some ?cs)" "List.map Some ?cs" "[]", OF _ _ _ _ _ m _ g k _ h refl]
  obtain t where t: "alb_handle ?pb (\<lambda>_. Some (List.map Some ?cs)) [] demo_groups ?l (ask ''/'' ''shop'' (encode_member (''10.0.0.2'', 80))) [] =
      ([], Relayed (''10.0.0.2'', 80) t)"
    and all: "\<forall>cs head rest. List.map Some ?cs = List.map Some cs \<and> [] \<notin> set cs \<and> length head + 4 \<le> 65536 \<and>
      cut_at (crlf @ crlf) (concat cs) = (head, Some rest) \<longrightarrow>
        t = head @ crlf @ set_cookie (''10.0.0.2'', 80) 60 @ crlf @ crlf @ rest"
    using claim by auto
  from all [rule_format, OF r] t show ?thesis by (simp only: snd_conv list.map)
qed

end
