(* ===== verification/Ipv6Text.thy ===== *)
theory Ipv6Text
  imports Addr
begin

text \<open>
  The text form of IPv6 addresses as the standard library's \<open>ipaddress\<close> reads and writes it (without
  scope identifiers, in the form of Python up to 3.12): groups of hexadecimal digits, one run of groups left out as \<open>::\<close>, a dotted quad at
  the end. Addresses are integers below \<open>2 ^ 128\<close>.
\<close>

subsection \<open>Reading\<close>

definition hex_val :: "char \<Rightarrow> int option" where
  "hex_val c =
     (let n = int (code_of c)
      in if 48 \<le> n \<and> n \<le> 57 then Some (n - 48)
         else if 97 \<le> n \<and> n \<le> 102 then Some (n - 87)
         else if 65 \<le> n \<and> n \<le> 70 then Some (n - 55)
         else None)"

fun hex_number :: "int \<Rightarrow> string \<Rightarrow> int option" where
  "hex_number acc [] = Some acc"
| "hex_number acc (c # cs) = (case hex_val c of None \<Rightarrow> None | Some d \<Rightarrow> hex_number (16 * acc + d) cs)"

definition hextet :: "string \<Rightarrow> int option" where
  "hextet w = (if w = [] \<or> length w > 4 then None else hex_number 0 w)"

fun hextets :: "string list \<Rightarrow> int list option" where
  "hextets [] = Some []"
| "hextets (w # ws) =
     (case hextet w of
        None \<Rightarrow> None
      | Some n \<Rightarrow> (case hextets ws of None \<Rightarrow> None | Some ns \<Rightarrow> Some (n # ns)))"

definition join_groups :: "int list \<Rightarrow> int" where
  "join_groups ns = fold (\<lambda>n acc. acc * 2 ^ 16 + n) ns 0"

text \<open>A dotted quad in the last place counts as two groups.\<close>

definition expand_quad :: "string list \<Rightarrow> string list option" where
  "expand_quad ws =
     (if CHR ''.'' \<in> set (last ws)
      then map_option (\<lambda>n. butlast ws @ [show_hex (nat (n div 2 ^ 16)), show_hex (nat (n mod 2 ^ 16))])
             (ipv4_address (last ws))
      else Some ws)"

text \<open>The places of empty groups that are neither first nor last.\<close>

definition gaps :: "string list \<Rightarrow> nat list" where
  "gaps ws = filter (\<lambda>i. ws ! i = []) [1..<length ws - 1]"

definition groups_of :: "string list \<Rightarrow> (string list \<times> string list) option" where
  "groups_of ws =
     (case gaps ws of
        [] \<Rightarrow> if length ws = 8 then Some (ws, []) else None
      | [i] \<Rightarrow>
          (let hi = take i ws; lo = drop (Suc i) ws;
               hi' = (if hd ws = [] then tl hi else hi);
               lo' = (if last ws = [] then butlast lo else lo)
           in if (hd ws = [] \<and> hi' \<noteq> []) \<or> (last ws = [] \<and> lo' \<noteq> []) \<or> length hi' + length lo' > 7 then None
              else Some (hi', lo'))
      | _ \<Rightarrow> None)"

definition ipv6_address :: "string \<Rightarrow> int option" where
  "ipv6_address s =
     (let ws0 = split_on (CHR '':'') s
      in if length ws0 < 3 then None
         else case expand_quad ws0 of
                None \<Rightarrow> None
              | Some ws \<Rightarrow>
                  if length ws > 9 then None
                  else case groups_of ws of
                         None \<Rightarrow> None
                       | Some (hi, lo) \<Rightarrow>
                           (case (hextets hi, hextets lo) of
                              (Some a, Some b) \<Rightarrow>
                                Some (join_groups (a @ replicate (8 - length a - length b) 0 @ b))
                            | _ \<Rightarrow> None))"

subsection \<open>Writing\<close>

definition group :: "int \<Rightarrow> nat \<Rightarrow> int" where
  "group n i = (n div 2 ^ (16 * (7 - i))) mod 2 ^ 16"

definition groups :: "int \<Rightarrow> int list" where
  "groups n = List.map (group n) [0..<8]"

text \<open>The first longest run of zeros: its start and its length.\<close>

fun zero_run :: "int list \<Rightarrow> nat" where
  "zero_run [] = 0"
| "zero_run (n # ns) = (if n = 0 then Suc (zero_run ns) else 0)"

fun best_run :: "nat \<Rightarrow> int list \<Rightarrow> nat \<times> nat \<Rightarrow> nat \<times> nat" where
  "best_run i [] best = best"
| "best_run i (n # ns) best =
     best_run (Suc i) ns (if zero_run (n # ns) > snd best then (i, zero_run (n # ns)) else best)"

fun join_colon :: "string list \<Rightarrow> string" where
  "join_colon [] = []"
| "join_colon [w] = w"
| "join_colon (w # v # ws) = w @ '':'' @ join_colon (v # ws)"

definition hex_group :: "int \<Rightarrow> string" where
  "hex_group n = show_hex (nat n)"

definition compress_groups :: "int list \<Rightarrow> string list" where
  "compress_groups ns =
     (case best_run 0 ns (0, 0) of
        (i, k) \<Rightarrow>
          if k < 2 then List.map hex_group ns
          else (if i = 0 then [[]] else []) @ List.map hex_group (take i ns) @ [[]] @
               List.map hex_group (drop (i + k) ns) @ (if i + k = length ns then [[]] else []))"

definition show_ipv6 :: "int \<Rightarrow> string" where
  "show_ipv6 n = join_colon (compress_groups (groups n))"

subsection \<open>Groups of hexadecimal digits\<close>

lemma hex_val_digit: "d < 16 \<Longrightarrow> hex_val (hex_digit d) = Some (int d)"
  by (auto simp: hex_val_def hex_digit_def code_of_def)

lemma hex_number_append:
  "hex_number acc (xs @ ys) = (case hex_number acc xs of None \<Rightarrow> None | Some a \<Rightarrow> hex_number a ys)"
  by (induction xs arbitrary: acc) (auto split: option.split)

lemma hex_number_show: "hex_number 0 (show_hex n) = Some (int n)"
proof (induction n rule: show_hex.induct)
  case (1 n)
  show ?case
  proof (cases "n < 16")
    case True
    then show ?thesis by (subst show_hex.simps) (simp add: hex_val_digit)
  next
    case False
    then show ?thesis using 1 by (subst show_hex.simps) (simp add: hex_number_append hex_val_digit zmod_int zdiv_int)
  qed
qed

lemma length_show_hex: "n < 16 ^ Suc k \<Longrightarrow> length (show_hex n) \<le> Suc k"
proof (induction k arbitrary: n)
  case 0
  then show ?case by (subst show_hex.simps) simp
next
  case (Suc k)
  then have "n div 16 < 16 ^ Suc k" by (simp add: less_mult_imp_div_less mult.commute)
  from Suc.IH [OF this] show ?case by (subst show_hex.simps) simp
qed

lemma hex_digit_plain: "d < 16 \<Longrightarrow> hex_digit d \<noteq> CHR '':'' \<and> hex_digit d \<noteq> CHR ''.''"
proof -
  assume d: "d < 16"
  have "hex_val (CHR '':'') = None" "hex_val (CHR ''.'') = None" by code_simp+
  with hex_val_digit [OF d] show ?thesis by auto
qed

lemma show_hex_plain: "c \<in> set (show_hex n) \<Longrightarrow> c \<noteq> CHR '':'' \<and> c \<noteq> CHR ''.''"
proof (induction n rule: show_hex.induct)
  case (1 n)
  show ?case
  proof (cases "n < 16")
    case True
    with "1.prems" have "c = hex_digit n" by (simp add: show_hex.simps [of n])
    with True show ?thesis by (simp add: hex_digit_plain)
  next
    case False
    with "1.prems" have "c \<in> set (show_hex (n div 16)) \<or> c = hex_digit (n mod 16)" by (simp add: show_hex.simps [of n]) blast
    with 1 False show ?thesis by (auto simp: hex_digit_plain)
  qed
qed

lemma show_hex_nonempty: "show_hex n \<noteq> []"
  by (subst show_hex.simps) simp

lemma hextet_group: "0 \<le> n \<Longrightarrow> n < 2 ^ 16 \<Longrightarrow> hextet (hex_group n) = Some n"
  using length_show_hex [of "nat n" 3] nat_less_iff [of n 65536] by (simp add: not_less hextet_def hex_group_def hex_number_show show_hex_nonempty)

lemma hextets_groups: "\<forall>n\<in>set ns. 0 \<le> n \<and> n < 2 ^ 16 \<Longrightarrow> hextets (List.map hex_group ns) = Some ns"
  by (induction ns) (simp_all add: hextet_group)

lemma hex_group_plain: "hex_group n \<noteq> [] \<and> CHR '':'' \<notin> set (hex_group n) \<and> CHR ''.'' \<notin> set (hex_group n)"
  using show_hex_plain by (auto simp: hex_group_def show_hex_nonempty)

subsection \<open>The runs of zeros\<close>

lemma zero_run_zeros: "k < zero_run ns \<Longrightarrow> k < length ns \<and> ns ! k = 0"
proof (induction ns arbitrary: k)
  case (Cons n ns)
  then show ?case by (cases k) (auto split: if_splits)
qed simp

lemma best_run_zeros:
  assumes "\<forall>j < snd best. fst best + j < length ms \<and> ms ! (fst best + j) = 0" "drop i ms = ns" "i \<le> length ms"
  shows "\<forall>j < snd (best_run i ns best). fst (best_run i ns best) + j < length ms \<and> ms ! (fst (best_run i ns best) + j) = 0"
  using assms
proof (induction ns arbitrary: i best)
  case (Cons n ns)
  let ?best = "if zero_run (n # ns) > snd best then (i, zero_run (n # ns)) else best"
  have z: "i + j < length ms \<and> ms ! (i + j) = 0" if "j < zero_run (n # ns)" for j
  proof -
    from zero_run_zeros [OF that] Cons.prems(2) have "j < length (drop i ms)" "drop i ms ! j = 0" by simp_all
    with Cons.prems(3) show ?thesis by simp
  qed
  have "\<forall>j < snd ?best. fst ?best + j < length ms \<and> ms ! (fst ?best + j) = 0"
    using Cons.prems(1) z by (cases "zero_run (n # ns) > snd best") auto
  moreover have "drop (Suc i) ms = ns" using Cons.prems(2) by (metis drop_Suc list.sel(3) tl_drop)
  moreover have "Suc i \<le> length ms" using Cons.prems(2,3) by (cases "i = length ms") auto
  ultimately show ?case using Cons.IH [of ?best "Suc i"] by simp
qed simp

lemma run_replaced:
  assumes "\<forall>j<k. i + j < length ns \<and> ns ! (i + j) = (0::int)" "0 < k"
  shows "take i ns @ replicate k 0 @ drop (i + k) ns = ns" "i + k \<le> length ns"
proof -
  have "i + (k - 1) < length ns" using assms(1) [rule_format, of "k - 1"] assms(2) by simp
  then show len: "i + k \<le> length ns" using assms(2) by simp
  have "take k (drop i ns) = replicate k 0"
    using assms(1) len by (intro nth_equalityI) auto
  then show "take i ns @ replicate k 0 @ drop (i + k) ns = ns"
    by (metis append_take_drop_id drop_drop add.commute)
qed

subsection \<open>Reading back\<close>

lemma split_join_colon:
  "ws \<noteq> [] \<Longrightarrow> \<forall>w\<in>set ws. CHR '':'' \<notin> set w \<Longrightarrow> split_on (CHR '':'') (join_colon ws) = ws"
  by (induction ws rule: join_colon.induct) (simp_all add: split_on_no_sep split_on_append)

definition side_ok :: "string list \<Rightarrow> bool" where
  "side_ok A \<longleftrightarrow> A = [[]] \<or> (A \<noteq> [] \<and> [] \<notin> set A)"

definition side :: "string list \<Rightarrow> string list" where
  "side A = (if A = [[]] then [] else A)"

lemma groups_of_gap:
  assumes "side_ok A" "side_ok B" "length (side A) + length (side B) \<le> 7"
  shows "groups_of (A @ [] # B) = Some (side A, side B)"
proof -
  let ?ws = "A @ [] # B"
  have nonempty: "A \<noteq> []" "B \<noteq> []" using assms by (auto simp: side_ok_def)
  have iff: "?ws ! j = [] \<longleftrightarrow> j = length A" if "j \<in> {1..<length ?ws - 1}" for j
  proof -
    consider "j < length A" | "j = length A" | "length A < j" by linarith
    then show ?thesis
    proof cases
      case 1
      then have "A \<noteq> [[]]" using that by auto
      with 1 assms(1) have "A ! j \<noteq> []" by (metis nth_mem side_ok_def)
      with 1 show ?thesis by (simp add: nth_append)
    next
      case 3
      then have k: "j - Suc (length A) < length B - 1" using that by auto
      then have "B \<noteq> [[]]" by auto
      with k assms(2) have "B ! (j - Suc (length A)) \<noteq> []" by (metis diff_less less_trans nth_mem side_ok_def length_greater_0_conv zero_less_one)
      with 3 show ?thesis by (simp add: nth_append nth_Cons')
    qed simp
  qed
  have "gaps ?ws = filter (\<lambda>j. j = length A) [1..<length ?ws - 1]"
    unfolding gaps_def using iff by (intro filter_cong) auto
  moreover have "1 \<le> length A" "length A < length ?ws - 1" using nonempty by (auto simp: Suc_le_eq)
  then have "[1..<length ?ws - 1] = [1..<length A] @ length A # [Suc (length A)..<length ?ws - 1]"
    by (metis less_imp_le_nat upt_add_eq_append le_add_diff_inverse upt_conv_Cons)
  ultimately have gap: "gaps ?ws = [length A]" by (simp add: filter_empty_conv)
  have hd: "hd ?ws = hd A" "last ?ws = last B" using nonempty by simp_all
  have A: "if hd A = [] then tl A = [] \<and> side A = [] else side A = A"
    using assms(1) nonempty by (auto simp: side_ok_def side_def dest: hd_in_set)
  have B: "if last B = [] then butlast B = [] \<and> side B = [] else side B = B"
    using assms(2) nonempty by (auto simp: side_ok_def side_def dest: last_in_set)
  show ?thesis
    using A B assms(3) by (cases "hd A = []"; cases "last B = []") (simp_all add: groups_of_def gap hd Let_def)
qed

lemma groups_of_eight: "[] \<notin> set ws \<Longrightarrow> length ws = 8 \<Longrightarrow> groups_of ws = Some (ws, [])"
proof -
  assume w: "[] \<notin> set ws" "length ws = 8"
  have "ws ! j \<noteq> []" if "j < 8" for j using w nth_mem [of j ws] that by metis
  then have "gaps ws = []" using w(2) by (auto simp: gaps_def filter_empty_conv)
  with w show ?thesis by (simp add: groups_of_def)
qed

lemma length_groups: "length (groups n) = 8"
  by (simp add: groups_def)

lemma group_range: "0 \<le> group n i \<and> group n i < 2 ^ 16"
  by (simp add: group_def)

lemma groups_list:
  "groups n = [n div 2 ^ 112 mod 2 ^ 16, n div 2 ^ 96 mod 2 ^ 16, n div 2 ^ 80 mod 2 ^ 16, n div 2 ^ 64 mod 2 ^ 16,
     n div 2 ^ 48 mod 2 ^ 16, n div 2 ^ 32 mod 2 ^ 16, n div 2 ^ 16 mod 2 ^ 16, n mod 2 ^ 16]"
  by (simp add: groups_def group_def upt_rec numeral_eq_Suc)

lemma join_groups_groups: "0 \<le> n \<Longrightarrow> n < 2 ^ 128 \<Longrightarrow> join_groups (groups n) = n"
proof -
  assume n: "0 \<le> n" "n < 2 ^ 128"
  have step: "(n div 2 ^ (k + 16)) * 2 ^ 16 + n div 2 ^ k mod 2 ^ 16 = n div 2 ^ k" for k
    by (simp add: power_add zdiv_zmult2_eq)
  have top: "n div 2 ^ 112 mod 2 ^ 16 = n div 2 ^ 112"
    using n by (intro mod_pos_pos_trivial) (simp_all add: pos_imp_zdiv_nonneg_iff div_less_iff_less_mult)
  show ?thesis
    using step [of 96] step [of 80] step [of 64] step [of 48] step [of 32] step [of 16] step [of 0] top
    by (simp add: join_groups_def groups_list)
qed

lemma show_ipv6_parses:
  assumes "0 \<le> n" "n < 2 ^ 128"
  shows "ipv6_address (show_ipv6 n) = Some n"
proof -
  let ?ns = "groups n"
  obtain i k where run: "best_run 0 ?ns (0, 0) = (i, k)" by fastforce
  have zeros: "\<forall>j<k. i + j < length ?ns \<and> ?ns ! (i + j) = 0"
    using best_run_zeros [of "(0, 0)" ?ns 0 ?ns] by (simp add: run)
  have rng: "\<forall>x\<in>set ?ns. 0 \<le> x \<and> x < 2 ^ 16" using group_range by (auto simp: groups_def)
  have plain: "[] \<notin> set (List.map hex_group ms)" "\<forall>w\<in>set (List.map hex_group ms). CHR '':'' \<notin> set w"
    "\<forall>w\<in>set (List.map hex_group ms). CHR ''.'' \<notin> set w" for ms
    using hex_group_plain by (auto simp: image_iff) metis
  show ?thesis
  proof (cases "k < 2")
    case True
    let ?ws = "List.map hex_group ?ns"
    have ws: "split_on (CHR '':'') (show_ipv6 n) = ?ws"
      using plain by (subst split_join_colon [of ?ws, symmetric]) (auto simp: show_ipv6_def compress_groups_def run True length_groups simp flip: length_0_conv)
    have "last ?ws \<in> set ?ws" using length_groups [of n] by (intro last_in_set) (auto simp flip: length_0_conv)
    then have "expand_quad ?ws = Some ?ws" using plain(3) by (auto simp: expand_quad_def)
    then show ?thesis
      using groups_of_eight [OF plain(1)] hextets_groups [OF rng] length_groups [of n] join_groups_groups [OF assms]
      by (simp add: ipv6_address_def ws)
  next
    case False
    define A where "A = (if i = 0 then [[]] else List.map hex_group (take i ?ns))"
    define B where "B = (if i + k = 8 then [[]] else List.map hex_group (drop (i + k) ?ns))"
    note rep = run_replaced [OF zeros]
    have k: "0 < k" using False by simp
    have ik: "i + k \<le> 8" using rep(2) [OF k] by (simp add: length_groups)
    have cg: "compress_groups ?ns = A @ [] # B"
      using False ik by (auto simp: compress_groups_def run A_def B_def length_groups)
    have A: "side_ok A" "side A = List.map hex_group (take i ?ns)"
      using plain(1) [of "take i ?ns"] length_groups [of n] hex_group_plain by (auto simp: A_def side_ok_def side_def)
    have B: "side_ok B" "side B = List.map hex_group (drop (i + k) ?ns)"
      using plain(1) [of "drop (i + k) ?ns"] length_groups [of n] ik hex_group_plain by (auto simp: B_def side_ok_def side_def)
    have "\<forall>w\<in>set (A @ [] # B). CHR '':'' \<notin> set w"
      using plain(2) [of "take i ?ns"] plain(2) [of "drop (i + k) ?ns"] by (auto simp: A_def B_def)
    then have ws: "split_on (CHR '':'') (show_ipv6 n) = A @ [] # B"
      by (simp add: show_ipv6_def cg split_join_colon)
    have "last (A @ [] # B) = last B \<and> B \<noteq> []" using B(1) by (auto simp: side_ok_def)
    moreover have "\<forall>w\<in>set B. CHR ''.'' \<notin> set w" using plain(3) [of "drop (i + k) ?ns"] by (auto simp: B_def)
    ultimately have quad: "expand_quad (A @ [] # B) = Some (A @ [] # B)" by (auto simp: expand_quad_def)
    have len: "length (side A) + length (side B) = 8 - k" using ik by (simp add: A(2) B(2) length_groups)
    have lA: "0 < length A" "0 < length B" using A(1) B(1) by (auto simp: side_ok_def)
    have lAB: "length A \<le> Suc (length (side A))" "length B \<le> Suc (length (side B))" by (simp_all add: side_def)
    have hA: "hextets (side A) = Some (take i ?ns)" unfolding A(2) using rng by (intro hextets_groups) (auto dest: in_set_takeD)
    have hB: "hextets (side B) = Some (drop (i + k) ?ns)" unfolding B(2) using rng by (intro hextets_groups) (auto dest: in_set_dropD)
    have fill: "8 - (length (take i ?ns) + length (drop (i + k) ?ns)) = k"
      using ik by (simp add: length_groups)
    have gof: "groups_of (A @ [] # B) = Some (side A, side B)"
      using groups_of_gap [OF A(1) B(1)] len False by simp
    have "length (A @ [] # B) = Suc (length A + length B)" by simp
    then have "\<not> length (A @ [] # B) < 3" "\<not> length (A @ [] # B) > 9" using lA lAB len False by linarith+
    then show ?thesis
      using rep(1) [OF k] join_groups_groups [OF assms]
      by (simp add: ipv6_address_def ws quad gof hA hB fill del: length_take length_drop)
  qed
qed

text \<open>The text of every IPv6 address, whatever run of zero groups it leaves out, is read back to the
  address.\<close>

theorem ipv6_text_read_back:
  assumes "0 \<le> n" "n < 2 ^ 128"
  shows "ipv6_address (show_ipv6 n) = Some n"
  using assms by (rule show_ipv6_parses)

theorem ipv6_text_read_back_witness:
  "ipv6_address (show_ipv6 0x20010DB8000000000000000000000001) = Some 0x20010DB8000000000000000000000001"
  by (rule ipv6_text_read_back) simp_all

end
