(* ===== verification/Ipv6.thy ===== *)
theory Ipv6
  imports Ipv6Text VNet
begin

text \<open>
  IPv6 reachability, \<open>class Ipv6Engine\<close>: connected networks, static routes and the trace over direct links.
  Address texts may be of either family, as for \<open>ipaddress.ip_address\<close>. The random round-trip times of
  \<open>ping\<close> are left out of its result.
\<close>

subsection \<open>Networks\<close>

datatype address = V4 int | V6 int

definition ip_address :: "string \<Rightarrow> address option" where
  "ip_address s =
     (case ipv4_address s of
        Some n \<Rightarrow> Some (V4 n)
      | None \<Rightarrow> map_option V6 (ipv6_address s))"

definition mask6 :: "int \<Rightarrow> int \<Rightarrow> int" where
  "mask6 p n = (n div 2 ^ nat (128 - p)) * 2 ^ nat (128 - p)"

text \<open>\<open>ip_network(f'{a}/{p}', strict=False)\<close>: the network address.\<close>

definition network_of :: "string \<Rightarrow> int \<Rightarrow> address option" where
  "network_of a p =
     (case ip_address a of
        None \<Rightarrow> None
      | Some (V4 n) \<Rightarrow> if 0 \<le> p \<and> p \<le> 32 then Some (V4 (n AND mask_int p)) else None
      | Some (V6 n) \<Rightarrow> if 0 \<le> p \<and> p \<le> 128 then Some (V6 (mask6 p n)) else None)"

definition show_address :: "address \<Rightarrow> string" where
  "show_address x = (case x of V4 n \<Rightarrow> int_to_ip n | V6 n \<Rightarrow> show_ipv6 n)"

definition addr_in_cidr :: "string \<Rightarrow> string \<Rightarrow> int \<Rightarrow> bool" where
  "addr_in_cidr addr network p =
     (case (ip_address addr, network_of network p) of
        (Some (V4 a), Some (V4 n)) \<Rightarrow> a AND mask_int p = n
      | (Some (V6 a), Some (V6 n)) \<Rightarrow> mask6 p a = n
      | _ \<Rightarrow> False)"

subsection \<open>State\<close>

record connected_net =
  c6_network :: string
  c6_prefix :: int
  c6_iface :: iface

record static6 =
  s6_dest :: string
  s6_prefix :: int
  s6_next_hop :: string

record v6_engine =
  v6_addrs :: "(dev, (string, int) dict) dict"
  v6_names :: "(dev, string) dict"
  v6_connected :: "dev \<Rightarrow> connected_net list"
  v6_static :: "dev \<Rightarrow> static6 list"

definition v6_init :: v6_engine where
  "v6_init = \<lparr>v6_addrs = [], v6_names = [], v6_connected = (\<lambda>_. []), v6_static = (\<lambda>_. [])\<rparr>"

record v6_iface =
  vi6_ip :: "string option"
  vi6_prefix :: "int option"

fun collect_v6 ::
  "(iface, v6_iface) dict \<Rightarrow> (string, int) dict \<Rightarrow> connected_net list \<Rightarrow> (string, int) dict \<times> connected_net list"
where
  "collect_v6 [] addrs conn = (addrs, conn)"
| "collect_v6 ((n, i) # rest) addrs conn =
     (let p = (case vi6_prefix i of None \<Rightarrow> 64 | Some p \<Rightarrow> p)
      in if \<not> truthy (vi6_ip i) then collect_v6 rest addrs conn
         else let a = the (vi6_ip i)
              in collect_v6 rest (dset addrs a p)
                   (case network_of a p of
                      None \<Rightarrow> conn
                    | Some net \<Rightarrow> conn @ [\<lparr>c6_network = show_address net, c6_prefix = p, c6_iface = n\<rparr>]))"

definition register_v6 :: "dev \<Rightarrow> string \<Rightarrow> (iface, v6_iface) dict \<Rightarrow> v6_engine \<Rightarrow> v6_engine" where
  "register_v6 d host ifs s =
     (case collect_v6 ifs [] [] of (addrs, conn) \<Rightarrow>
        s\<lparr>v6_names := dset (v6_names s) d host, v6_addrs := dset (v6_addrs s) d addrs,
          v6_connected := (v6_connected s)(d := conn)\<rparr>)"

definition other_dest :: "string \<Rightarrow> int \<Rightarrow> static6 \<Rightarrow> bool" where
  "other_dest dest p r \<longleftrightarrow> \<not> (s6_dest r = dest \<and> s6_prefix r = p)"

definition add_static6 :: "dev \<Rightarrow> string \<Rightarrow> int \<Rightarrow> string \<Rightarrow> v6_engine \<Rightarrow> v6_engine" where
  "add_static6 d dest p nh s =
     s\<lparr>v6_static := (v6_static s)(d := filter (other_dest dest p) (v6_static s d) @
         [\<lparr>s6_dest = dest, s6_prefix = p, s6_next_hop = nh\<rparr>])\<rparr>"

definition remove_static6 :: "dev \<Rightarrow> string \<Rightarrow> int \<Rightarrow> v6_engine \<Rightarrow> v6_engine" where
  "remove_static6 d dest p s =
     s\<lparr>v6_static := (v6_static s)(d := filter (other_dest dest p) (v6_static s d))\<rparr>"

subsection \<open>The next hop\<close>

definition v6_owner :: "v6_engine \<Rightarrow> string \<Rightarrow> dev option" where
  "v6_owner s a = map_option fst (find (\<lambda>(_, addrs). a \<in> set (dkeys addrs)) (v6_addrs s))"

fun best_static6 :: "string \<Rightarrow> static6 option \<Rightarrow> static6 list \<Rightarrow> static6 option" where
  "best_static6 dest best [] = best"
| "best_static6 dest best (r # rs) =
     best_static6 dest
       (if addr_in_cidr dest (s6_dest r) (s6_prefix r) \<and>
           (case best of None \<Rightarrow> True | Some b \<Rightarrow> s6_prefix r > s6_prefix b)
        then Some r else best) rs"

definition on_link6 :: "v6_engine \<Rightarrow> dev \<Rightarrow> string \<Rightarrow> bool" where
  "on_link6 s d dest \<longleftrightarrow> (\<exists>c\<in>set (v6_connected s d). addr_in_cidr dest (c6_network c) (c6_prefix c))"

definition resolve6 :: "v6_engine \<Rightarrow> dev \<Rightarrow> string \<Rightarrow> dev option \<times> string option" where
  "resolve6 s d dest =
     (if on_link6 s d dest then (Some d, None)
      else case best_static6 dest None (v6_static s d) of
             None \<Rightarrow> (None, None)
           | Some r \<Rightarrow> (v6_owner s (s6_next_hop r), Some (s6_next_hop r)))"

subsection \<open>The trace\<close>

record hop6 =
  h6_device :: dev
  h6_hostname :: string
  h6_ip :: "string option"
  h6_timeout :: bool

datatype outcome6 = Reached6 | Loop6 | NoRoute6 | Unreachable6 | TooFar6

definition name6 :: "v6_engine \<Rightarrow> dev \<Rightarrow> string" where
  "name6 s d = dget_or (v6_names s) d d"

definition hop_at :: "v6_engine \<Rightarrow> dev \<Rightarrow> string option \<Rightarrow> bool \<Rightarrow> hop6" where
  "hop_at s d a late = \<lparr>h6_device = d, h6_hostname = name6 s d, h6_ip = a, h6_timeout = late\<rparr>"

fun trace6_loop :: "v6_engine \<Rightarrow> vnet \<Rightarrow> string \<Rightarrow> nat \<Rightarrow> dev list \<Rightarrow> hop6 list \<Rightarrow> dev \<Rightarrow> outcome6 \<times> hop6 list" where
  "trace6_loop s v dest 0 visited hs cur = (TooFar6, hs)"
| "trace6_loop s v dest (Suc n) visited hs cur =
     (if cur \<in> set visited then (Loop6, hs)
      else case resolve6 s cur dest of
             (None, _) \<Rightarrow> (NoRoute6, hs @ [hop_at s cur None True])
           | (Some nd, None) \<Rightarrow>
               (let w = v6_owner s dest;
                    last_dev = (if truthy w then the w else cur)
                in (Reached6, hs @ [hop_at s last_dev (Some dest) False]))
           | (Some nd, Some a) \<Rightarrow>
               if nd \<notin> set (get_neighbors v cur) then (Unreachable6, hs @ [hop_at s cur None True])
               else trace6_loop s v dest n (cur # visited) (hs @ [hop_at s cur (Some a) False]) nd)"

definition trace6 :: "v6_engine \<Rightarrow> vnet \<Rightarrow> dev \<Rightarrow> string \<Rightarrow> int \<Rightarrow> outcome6 \<times> hop6 list" where
  "trace6 s v src dest max_hops = trace6_loop s v dest (nat max_hops) [] [] src"

definition ping6 :: "v6_engine \<Rightarrow> vnet \<Rightarrow> dev \<Rightarrow> string \<Rightarrow> outcome6 \<times> hop6 list \<times> int" where
  "ping6 s v src dest =
     (case trace6 s v src dest 15 of (r, hs) \<Rightarrow>
        (r, hs, if r = Reached6 then max 1 (64 - (max 1 (int (length hs)) - 1)) else 64))"

definition traceroute6 :: "v6_engine \<Rightarrow> vnet \<Rightarrow> dev \<Rightarrow> string \<Rightarrow> outcome6 \<times> hop6 list" where
  "traceroute6 s v src dest = trace6 s v src dest 15"

subsection \<open>The connected network is found again\<close>

lemma mask6_range: "0 \<le> n \<Longrightarrow> n < 2 ^ 128 \<Longrightarrow> 0 \<le> mask6 p n \<and> mask6 p n < 2 ^ 128"
proof -
  assume n: "0 \<le> n" "n < 2 ^ 128"
  have "(n div 2 ^ k) * 2 ^ k \<le> n" for k :: nat by (simp add: minus_mod_eq_div_mult [symmetric])
  with n show ?thesis by (auto simp: mask6_def pos_imp_zdiv_nonneg_iff intro: order_le_less_trans)
qed

lemma mask6_idem: "mask6 p (mask6 p n) = mask6 p n"
  by (simp add: mask6_def)


subsection \<open>What a trace says\<close>






subsection \<open>The network of an interface holds exactly the addresses with its prefix\<close>

lemma split_on_covers: "c \<in> set xs \<Longrightarrow> c \<noteq> sep \<Longrightarrow> \<exists>w\<in>set (split_on sep xs). c \<in> set w"
proof (induction xs)
  case (Cons x xs)
  show ?case
  proof (cases "c = x")
    case True
    with Cons.prems show ?thesis by (cases "split_on sep xs") auto
  next
    case False
    with Cons obtain w where w: "w \<in> set (split_on sep xs)" "c \<in> set w" by auto
    then show ?thesis by (cases "split_on sep xs") auto
  qed
qed simp

lemma colon_not_ipv4: "CHR '':'' \<in> set s \<Longrightarrow> ipv4_address s = None"
proof -
  assume "CHR '':'' \<in> set s"
  from split_on_covers [OF this] obtain w where w: "w \<in> set (split_on (CHR ''.'') s)" "CHR '':'' \<in> set w" by auto
  have "\<not> is_digit (CHR '':'')" by (simp add: is_digit_def code_of_def)
  with w(2) have "strict_octet w = None" by (auto simp: strict_octet_def list_all_iff)
  with w(1) have "None \<in> set (List.map strict_octet (split_on (CHR ''.'') s))" by force
  then show ?thesis by (auto simp: ipv4_address_def split: list.split option.split)
qed

lemma show_ipv6_colon: "CHR '':'' \<in> set (show_ipv6 n)"
proof -
  have "CHR '':'' \<in> set (join_colon ws)" if "2 \<le> length ws" for ws
    using that by (induction ws rule: join_colon.induct) auto
  moreover have "2 \<le> length (compress_groups (groups n))"
    using length_groups [of n] by (auto simp: compress_groups_def split: prod.split)
  ultimately show ?thesis by (simp add: show_ipv6_def)
qed

lemma ip_address_show6: "0 \<le> n \<Longrightarrow> n < 2 ^ 128 \<Longrightarrow> ip_address (show_ipv6 n) = Some (V6 n)"
  by (simp add: ip_address_def colon_not_ipv4 show_ipv6_colon show_ipv6_parses)

lemma ipv6_written_in_range:
  assumes "ip_address a = Some (V6 n)" "0 \<le> n" "n < 2 ^ 128" "0 \<le> p" "p \<le> 128"
  shows "network_of (show_address (V6 (mask6 p n))) p = Some (V6 (mask6 p n))"
  using mask6_range [OF assms(2,3)] assms(4,5)
  by (simp add: network_of_def show_address_def ip_address_show6 mask6_idem)

text \<open>After a device registers an interface with an IPv6 address and a length up to 128, an address is on
  the link exactly when it has the interface's leading bits, whichever way the two are written: the
  network is stored as text and read again for every lookup.\<close>

theorem interface_network_exact:
  assumes "ip_address a = Some (V6 n)" "0 \<le> n" "n < 2 ^ 128" "0 \<le> p" "p \<le> 128" "a \<noteq> []"
    and "ip_address dest = Some (V6 x)"
  shows "on_link6 (register_v6 d host [(i, \<lparr>vi6_ip = Some a, vi6_prefix = Some p\<rparr>)] s) d dest \<longleftrightarrow>
    x div 2 ^ nat (128 - p) = n div 2 ^ nat (128 - p)"
proof -
  have net: "network_of a p = Some (V6 (mask6 p n))" using assms by (simp add: network_of_def)
  have "on_link6 (register_v6 d host [(i, \<lparr>vi6_ip = Some a, vi6_prefix = Some p\<rparr>)] s) d dest \<longleftrightarrow> mask6 p x = mask6 p n"
    using assms(6,7) ipv6_written_in_range [OF assms(1-5)]
    by (simp add: on_link6_def register_v6_def truthy_def Let_def net addr_in_cidr_def)
  then show ?thesis by (simp add: mask6_def)
qed

theorem interface_network_exact_witness:
  "on_link6 (register_v6 ''R1'' ''R1'' [(''g0'', \<lparr>vi6_ip = Some ''2001:db8::1'', vi6_prefix = Some 64\<rparr>)] v6_init) ''R1'' ''2001:DB8:0:0::7''"
proof -
  have 1: "ip_address ''2001:db8::1'' = Some (V6 0x20010DB8000000000000000000000001)" by code_simp
  have 2: "ip_address ''2001:DB8:0:0::7'' = Some (V6 0x20010DB8000000000000000000000007)" by code_simp
  show ?thesis using interface_network_exact [OF 1 _ _ _ _ _ 2, of 64 "''R1''" "''R1''" "''g0''" v6_init] by simp
qed

text \<open>The owner of an address is looked up by its text: the same address written differently has none, and a
  route through it leads nowhere.\<close>

theorem owner_by_text:
  "(let s = register_v6 ''R2'' ''R2'' [(''g0'', \<lparr>vi6_ip = Some ''2001:db8::2'', vi6_prefix = Some 64\<rparr>)] v6_init
    in ip_address ''2001:DB8::2'' = ip_address ''2001:db8::2'' \<and> v6_owner s ''2001:db8::2'' = Some ''R2'' \<and>
       v6_owner s ''2001:DB8::2'' = None)"
proof -
  have "ip_address ''2001:DB8::2'' = ip_address ''2001:db8::2''" by code_simp
  then show ?thesis
    by (auto simp: register_v6_def v6_owner_def Let_def truthy_def v6_init_def dset_def dkeys_def split: option.splits)
qed

end
