(* ===== verification/Cef.thy ===== *)
theory Cef
  imports Rib Arp Filters "HOL-Library.Sublist"
begin

text \<open>
  The forwarding table, \<open>class CefEngine\<close>: the table derived from the interfaces and the routing
  table (\<open>_fib_entries\<close>), its printed orders, the adjacencies and the use of the hardware tables. The
  engine keeps no state: everything is computed from the address book, the best routes, the ARP tables
  and the access lists of the other engines.
\<close>

subsection \<open>The forwarding table\<close>

text \<open>The \<open>kind\<close> of an entry is \<open>attached\<close>, \<open>receive\<close> or the source of the route.\<close>

datatype fib_kind = Attached | Receive | FromRib source

record fib_entry =
  fe_network :: ip
  fe_prefix :: int
  fe_next_hop :: string
  fe_iface :: iface
  fe_kind :: fib_kind

definition fib_key :: "fib_entry \<Rightarrow> ip \<times> int" where
  "fib_key e = (fe_network e, fe_prefix e)"

text \<open>\<open>if key not in seen: seen.add(key); entries.append(...)\<close>: \<open>seen\<close> holds the keys of the entries.\<close>

definition add_fib :: "fib_entry \<Rightarrow> fib_entry list \<Rightarrow> fib_entry list" where
  "add_fib e es = (if fib_key e \<in> fib_key ` set es then es else es @ [e])"

definition attached :: "iface \<Rightarrow> ip \<Rightarrow> int \<Rightarrow> int \<Rightarrow> fib_entry" where
  "attached n a p m = \<lparr>fe_network = int_to_ip (ip_to_int a AND m), fe_prefix = p,
     fe_next_hop = ''attached'', fe_iface = n, fe_kind = Attached\<rparr>"

definition receive :: "iface \<Rightarrow> ip \<Rightarrow> fib_entry" where
  "receive n a = \<lparr>fe_network = a, fe_prefix = 32, fe_next_hop = ''receive'', fe_iface = n,
     fe_kind = Receive\<rparr>"

text \<open>The interfaces with an address, in the order of the address book. The mask is computed outside
  the \<open>try\<close>: a prefix length above 32 raises.\<close>

fun fib_connected :: "(iface, iface_info) dict \<Rightarrow> fib_entry list \<Rightarrow> fib_entry list res" where
  "fib_connected [] es = Inr es"
| "fib_connected ((n, i) # rest) es =
     (if \<not> has_addr i then fib_connected rest es
      else let a = the (if_ip i); p = (case if_prefix i of None \<Rightarrow> 24 | Some p \<Rightarrow> p)
           in res_bind (netmask p) (\<lambda>m.
                fib_connected rest (add_fib (receive n a) (add_fib (attached n a p m) es))))"

definition rib_fib :: "cand \<Rightarrow> fib_entry" where
  "rib_fib c = \<lparr>fe_network = c_network c, fe_prefix = c_prefix c,
     fe_next_hop = (if c_next_hop c \<notin> {''0.0.0.0'', []} then c_next_hop c else ''attached''),
     fe_iface = c_iface c, fe_kind = FromRib (c_source c)\<rparr>"

text \<open>\<open>_fib_entries\<close>: when the routing table raises, its routes are left out without a word.\<close>

definition fib_entries :: "rib \<Rightarrow> l3env \<Rightarrow> tables \<Rightarrow> dev \<Rightarrow> fib_entry list res" where
  "fib_entries r e t d =
     res_bind (fib_connected (ifaces_of (l3_book e) d) []) (\<lambda>es.
       Inr (fold (\<lambda>c. add_fib (rib_fib c)) (except [] (get_best_routes r e t d)) es))"

subsection \<open>The printed tables\<close>

definition fib_order :: "fib_entry \<Rightarrow> int \<times> int" where
  "fib_order e = (ip_to_int (fe_network e), fe_prefix e)"

definition ljust :: "nat \<Rightarrow> string \<Rightarrow> string" where
  "ljust n s = s @ replicate (n - length s) CHR '' ''"

definition fib_prefix :: "fib_entry \<Rightarrow> string" where
  "fib_prefix e = fe_network e @ ''/'' @ show_int (fe_prefix e)"

definition cef_line :: "fib_entry \<Rightarrow> string" where
  "cef_line e = ljust 21 (fib_prefix e) @ ljust 21 (fe_next_hop e) @ fe_iface e"

definition source_name :: "source \<Rightarrow> string" where
  "source_name s = (case s of Connected \<Rightarrow> ''connected'' | StaticSrc \<Rightarrow> ''static'' | RipSrc \<Rightarrow> ''rip''
     | OspfSrc \<Rightarrow> ''ospf'' | EigrpSrc \<Rightarrow> ''eigrp'' | BgpSrc \<Rightarrow> ''bgp'')"

definition kind_name :: "fib_kind \<Rightarrow> string" where
  "kind_name k = (case k of Attached \<Rightarrow> ''attached'' | Receive \<Rightarrow> ''receive'' | FromRib s \<Rightarrow> source_name s)"

definition nexus_line :: "fib_entry \<Rightarrow> string" where
  "nexus_line e = ljust 18 (fib_prefix e) @ ''| '' @ ljust 20 (fe_next_hop e) @ '' | '' @
     ljust 8 (fe_iface e) @ '' | '' @ kind_name (fe_kind e)"

definition show_ip_cef :: "fib_entry list \<Rightarrow> string list" where
  "show_ip_cef es =
     [''Prefix               Next Hop             Interface'',
      ljust 21 ''0.0.0.0/0'' @ ljust 21 ''no route'', ljust 21 ''0.0.0.0/32'' @ ljust 21 ''receive''] @
     List.map cef_line (sort_key fib_order es) @
     [ljust 21 ''224.0.0.0/4'' @ ljust 21 ''multicast'',
      ljust 21 ''255.255.255.255/32'' @ ljust 21 ''receive'']"

definition nexus_fib :: "fib_entry list \<Rightarrow> string list" where
  "nexus_fib es =
     [''IPv4 routes for table default/base'', [],
      ''------------------+----------------------+----------+-----------'',
      ''Prefix            | Next-hop             | Interface| Type'',
      ''------------------+----------------------+----------+-----------''] @
     List.map nexus_line (sort_key fib_order es)"

definition dotted_mac :: "string \<Rightarrow> string" where
  "dotted_mac mac = (let f = filter (\<lambda>c. c \<noteq> CHR '':'') mac
     in take 4 f @ ''.'' @ take 4 (drop 4 f) @ ''.'' @ take 4 (drop 8 f))"

text \<open>The lines of a table that is not empty.\<close>

definition adjacency_lines :: "arp \<Rightarrow> dev \<Rightarrow> string list" where
  "adjacency_lines a d = List.map (\<lambda>(i, e). ''IP       '' @ ljust 24 (ae_iface e) @ '' '' @ i @ ''('' @
     dotted_mac (ae_mac e) @ '')'') (arp_tables a d)"

subsection \<open>Use of the hardware tables\<close>

record usage =
  us_routes :: nat
  us_hosts :: nat
  us_macs :: nat
  us_acl :: nat

definition usage_counts ::
  "nat_engine \<Rightarrow> filter_engine \<Rightarrow> arp \<Rightarrow> fib_entry list \<Rightarrow> dev \<Rightarrow> usage" where
  "usage_counts nt f a fib d =
     \<lparr>us_routes = length (filter (\<lambda>e. fe_prefix e < 32) fib),
      us_hosts = length (filter (\<lambda>e. fe_prefix e = 32) fib) + length (arp_tables a d),
      us_macs = length (arp_tables a d),
      us_acl = sum_list (List.map length (dvals (nat_acls nt d))) +
               sum_list (List.map length (dvals (prefix_lists f d)))\<rparr>"

definition catalyst_capacity :: "(string, nat) dict" where
  "catalyst_capacity =
     [(''IPv4 Routes (FIB)'', 32768), (''IPv4 Hosts (Adjacency)'', 16384), (''MAC Address Table'', 16384),
      (''IPv4 ACL (Security)'', 18000), (''QoS ACL'', 18000), (''IPv4 Multicast'', 8192)]"

definition nexus_capacity :: "(string, nat) dict" where
  "nexus_capacity =
     [(''IPv4 Routes (LPM)'', 98304), (''IPv4 Hosts'', 49152), (''MAC Address Table'', 90112),
      (''IPv4 ACL (Ingress)'', 4096), (''IPv4 ACL (Egress)'', 2048), (''IPv4 Multicast'', 32768)]"

definition tcam_capacity :: "string \<Rightarrow> (string, nat) dict" where
  "tcam_capacity dtype = (if dtype = ''nexus'' then nexus_capacity else catalyst_capacity)"

definition inside :: "string \<Rightarrow> string \<Rightarrow> bool" where
  "inside p s \<longleftrightarrow> sublist p s"

definition tcam_used :: "usage \<Rightarrow> string \<Rightarrow> nat" where
  "tcam_used u nm =
     (let low = lower nm
      in if inside ''route'' low \<or> inside ''lpm'' low \<or> inside ''fib'' low then us_routes u
         else if inside ''host'' low \<or> inside ''adjacency'' low then us_hosts u
         else if inside ''mac'' low then us_macs u
         else if inside ''acl'' low \<or> inside ''qos'' low then us_acl u
         else 0)"

text \<open>A row of the display: resource, used, free (an integer that nothing keeps from being negative),
  total and the share in percent before rounding.\<close>

definition tcam_row :: "usage \<Rightarrow> string \<times> nat \<Rightarrow> string \<times> nat \<times> int \<times> nat \<times> rat" where
  "tcam_row u = (\<lambda>(nm, total). let used = tcam_used u nm
     in (nm, used, int total - int used, total,
         if total \<noteq> 0 then of_nat used / of_nat total * 100 else 0))"

definition tcam_utilization :: "usage \<Rightarrow> string \<Rightarrow> (string \<times> nat \<times> int \<times> nat \<times> rat) list" where
  "tcam_utilization u dtype = List.map (tcam_row u) (tcam_capacity dtype)"

subsection \<open>What the forwarding table holds\<close>

definition own_keys :: "(iface, iface_info) dict \<Rightarrow> (ip \<times> int) set" where
  "own_keys ifs = (\<Union>(n, i)\<in>set ifs. if has_addr i then
     (let a = the (if_ip i); p = (case if_prefix i of None \<Rightarrow> 24 | Some p \<Rightarrow> p)
      in {(int_to_ip (ip_to_int a AND mask_int p), p), (a, 32)}) else {})"

lemma own_keys_simps [simp]:
  "own_keys [] = {}"
  "own_keys ((n, i) # ifs) = (if has_addr i then
     (let a = the (if_ip i); p = (case if_prefix i of None \<Rightarrow> 24 | Some p \<Rightarrow> p)
      in {(int_to_ip (ip_to_int a AND mask_int p), p), (a, 32)}) else {}) \<union> own_keys ifs"
  by (simp_all add: own_keys_def)

lemma add_fib_keys [simp]: "fib_key ` set (add_fib e es) = insert (fib_key e) (fib_key ` set es)"
  by (auto simp: add_fib_def)

lemma add_fib_distinct [simp]: "distinct (List.map fib_key es) \<Longrightarrow> distinct (List.map fib_key (add_fib e es))"
  by (auto simp: add_fib_def)

lemma fib_connected_spec:
  "fib_connected ifs es = Inr conn \<Longrightarrow> distinct (List.map fib_key es) \<Longrightarrow>
     distinct (List.map fib_key conn) \<and> fib_key ` set conn = fib_key ` set es \<union> own_keys ifs"
proof (induction ifs es rule: fib_connected.induct)
  case (2 n i rest es)
  show ?case
  proof (cases "has_addr i")
    case False
    with 2 show ?thesis by simp
  next
    case True
    define a where "a = the (if_ip i)"
    define p where "p = (case if_prefix i of None \<Rightarrow> 24 | Some p \<Rightarrow> p)"
    from 2(3) True have p: "p \<le> 32"
      and c: "fib_connected rest (add_fib (receive n a) (add_fib (attached n a p (mask_int p)) es)) = Inr conn"
      by (auto simp: Let_def netmask_eq res_bind_Inr a_def p_def split: if_splits)
    have "distinct (List.map fib_key conn) \<and> fib_key ` set conn =
        fib_key ` set (add_fib (receive n a) (add_fib (attached n a p (mask_int p)) es)) \<union> own_keys rest"
      by (rule 2(2) [OF _ a_def p_def c]) (use True p 2(4) in \<open>simp_all add: netmask_eq\<close>)
    moreover have "fib_key (receive n a) = (a, 32)"
      "fib_key (attached n a p (mask_int p)) = (int_to_ip (ip_to_int a AND mask_int p), p)"
      by (simp_all add: fib_key_def receive_def attached_def)
    ultimately show ?thesis using True by (auto simp: a_def p_def Let_def)
  qed
qed auto

text \<open>A list of entries with keys of their own is appended but for the keys that are there already.\<close>

lemma fold_add_fib:
  "distinct (List.map (\<lambda>c. fib_key (f c)) cs) \<Longrightarrow>
     fold (\<lambda>c. add_fib (f c)) cs es = es @ List.map f (filter (\<lambda>c. fib_key (f c) \<notin> fib_key ` set es) cs)"
proof (induction cs arbitrary: es)
  case (Cons c cs)
  have "fold (\<lambda>c. add_fib (f c)) cs (add_fib (f c) es) =
    add_fib (f c) es @ List.map f (filter (\<lambda>x. fib_key (f x) \<notin> fib_key ` set (add_fib (f c) es)) cs)"
    using Cons by simp
  moreover have "filter (\<lambda>x. fib_key (f x) \<notin> fib_key ` set (add_fib (f c) es)) cs =
      filter (\<lambda>x. fib_key (f x) \<notin> fib_key ` set es) cs"
    using Cons.prems by (intro filter_cong refl) (auto simp: image_iff)
  ultimately have "fold (\<lambda>c. add_fib (f c)) cs (add_fib (f c) es) =
    add_fib (f c) es @ List.map f (filter (\<lambda>x. fib_key (f x) \<notin> fib_key ` set es) cs)" by simp
  moreover have "add_fib (f c) es = es @ (if fib_key (f c) \<in> fib_key ` set es then [] else [f c])"
    by (simp add: add_fib_def)
  ultimately show ?case by simp
qed simp

lemma best_keys_distinct:
  assumes "get_best_routes r e t d = Inr cs"
  shows "distinct (List.map (\<lambda>c. fib_key (rib_fib c)) cs)"
proof -
  obtain us where cs: "cs = dvals (select_best us [])"
    using assms by (auto simp: get_best_routes_def res_bind_Inr)
  have ok: "dict_ok (select_best us [])" by (rule select_best_ok) simp
  have "ckey b = k" if "(k, b) \<in> set (select_best us [])" for k b
  proof -
    have "dget (select_best us []) k = Some b" using dget_in_set [OF ok that] .
    moreover from this have "dget (select_best us []) k \<noteq> None" by simp
    then have "k \<in> ckey ` set us" by (auto simp: select_best_pick filter_empty_conv)
    ultimately show ?thesis using select_best_min by force
  qed
  then have "List.map ckey cs = dkeys (select_best us [])"
    by (auto simp: cs dvals_def dkeys_def)
  then have "distinct (List.map ckey cs)" using ok by (simp add: dict_ok_def dkeys_def)
  moreover have "inj_on (\<lambda>c. fib_key (rib_fib c)) (set cs)" if "inj_on ckey (set cs)"
    using that by (auto simp: inj_on_def ckey_def dest_key_def fib_key_def rib_fib_def)
  ultimately show ?thesis by (simp add: distinct_map)
qed

lemma fold_add_distinct:
  "distinct (List.map fib_key es) \<Longrightarrow> distinct (List.map fib_key (fold (\<lambda>c. add_fib (f c)) cs es))"
  by (induction cs arbitrary: es) simp_all

text \<open>The forwarding table: no destination twice; a connected network and a \<open>receive\<close> entry for
  every address of the device; and, after them, exactly the best routes whose destination is neither,
  each with its next hop and in the order of the routing table. Where the routing table raises, only the
  connected part is left.\<close>

theorem forwarding_table_exact:
  assumes "fib_entries r e t d = Inr es"
  shows "distinct (List.map fib_key es) \<and>
    (\<exists>conn. fib_connected (ifaces_of (l3_book e) d) [] = Inr conn \<and>
       fib_key ` set conn = own_keys (ifaces_of (l3_book e) d) \<and>
       es = conn @ List.map rib_fib (filter (\<lambda>c. (c_network c, c_prefix c) \<notin> own_keys (ifaces_of (l3_book e) d))
              (except [] (get_best_routes r e t d))))"
proof -
  obtain conn where c: "fib_connected (ifaces_of (l3_book e) d) [] = Inr conn"
    and es: "es = fold (\<lambda>c. add_fib (rib_fib c)) (except [] (get_best_routes r e t d)) conn"
    using assms by (auto simp: fib_entries_def res_bind_Inr)
  have k: "distinct (List.map fib_key conn)" "fib_key ` set conn = own_keys (ifaces_of (l3_book e) d)"
    using fib_connected_spec [OF c] by simp_all
  have "distinct (List.map (\<lambda>c. fib_key (rib_fib c)) (except [] (get_best_routes r e t d)))"
    by (cases "get_best_routes r e t d") (simp_all add: best_keys_distinct)
  from fold_add_fib [OF this, of conn] have "es = conn @ List.map rib_fib
      (filter (\<lambda>c. (c_network c, c_prefix c) \<notin> own_keys (ifaces_of (l3_book e) d))
        (except [] (get_best_routes r e t d)))"
    by (simp add: es k(2)) (simp add: fib_key_def rib_fib_def)
  moreover have "distinct (List.map fib_key es)"
    unfolding es by (rule fold_add_distinct [OF k(1)])
  ultimately show ?thesis using k(2) c by blast
qed

definition cef_env :: l3env where
  "cef_env = \<lparr>l3_net = vnet_init,
     l3_book = register_device [] ''R'' ''R'' [(''e0'', \<lparr>if_ip = Some ''10.0.0.1'', if_prefix = Some 24\<rparr>)],
     ospf_on = (\<lambda>_. False), rid = (\<lambda>_. None)\<rparr>"

definition cef_rib :: rib where
  "cef_rib = add_static_route Map.empty ''R'' ''R'' ''10.9.0.0'' 16 ''10.0.0.2'' 1"

definition no_rows :: tables where
  "no_rows = \<lparr>rip_rows = None, ospf_rows = None, ospf_own_rid = [], eigrp_rows = [], bgp_rows = None\<rparr>"

lemma cef_connected:
  "fib_connected (ifaces_of (l3_book cef_env) ''R'') [] =
     Inr [attached ''e0'' ''10.0.0.1'' 24 (mask_int 24), receive ''e0'' ''10.0.0.1'']"
proof -
  have "fib_key (receive ''e0'' ''10.0.0.1'') \<noteq> fib_key (attached ''e0'' ''10.0.0.1'' 24 (mask_int 24))"
    by (simp add: fib_key_def receive_def attached_def)
  then show ?thesis
    by (simp add: cef_env_def ifaces_of_def register_device_def dset_def has_addr_def Let_def netmask_eq add_fib_def)
qed

lemma forwarding_table_exact_witness:
  "\<exists>es. fib_entries cef_rib cef_env no_rows ''R'' = Inr es \<and> distinct (List.map fib_key es) \<and>
     take 2 es = [attached ''e0'' ''10.0.0.1'' 24 (mask_int 24), receive ''e0'' ''10.0.0.1'']"
proof -
  obtain es where es: "fib_entries cef_rib cef_env no_rows ''R'' = Inr es"
    by (auto simp: fib_entries_def cef_connected)
  from forwarding_table_exact [OF es] obtain rest where "distinct (List.map fib_key es)"
    and "es = [attached ''e0'' ''10.0.0.1'' 24 (mask_int 24), receive ''e0'' ''10.0.0.1''] @ rest"
    unfolding cef_connected by blast
  moreover from this(2) have "take 2 es = [attached ''e0'' ''10.0.0.1'' 24 (mask_int 24), receive ''e0'' ''10.0.0.1'']"
    by (simp only: append_Cons append_Nil) (simp add: numeral_2_eq_2)
  ultimately show ?thesis using es by blast
qed

subsection \<open>The accounts of the hardware tables\<close>

text \<open>Where no prefix is longer than 32 bits, the route and host rows account for every entry of the
  forwarding table once, and for every ARP entry once; the row named after MAC addresses shows the
  number of ARP entries again.\<close>

lemma tcam_accounts:
  assumes "\<forall>e\<in>set fib. fe_prefix e \<le> 32"
    and "u = usage_counts nt f a fib d"
  shows "us_routes u + us_hosts u = length fib + length (arp_tables a d)"
    "us_macs u = length (arp_tables a d)"
proof -
  have "length (filter (\<lambda>e. fe_prefix e < 32) fib) + length (filter (\<lambda>e. fe_prefix e = 32) fib) = length fib"
    using assms(1) by (induction fib) auto
  then show "us_routes u + us_hosts u = length fib + length (arp_tables a d)"
    by (simp add: assms(2) usage_counts_def)
qed (simp add: assms(2) usage_counts_def)

lemma tcam_rows_named:
  "tcam_used u ''IPv4 Routes (FIB)'' = us_routes u" "tcam_used u ''IPv4 Hosts'' = us_hosts u"
  "tcam_used u ''MAC Address Table'' = us_macs u" "tcam_used u ''QoS ACL'' = us_acl u"
  "tcam_used u ''IPv4 Multicast'' = 0"
  by (simp_all add: tcam_used_def) code_simp+

end
