(* ===== verification/Mpls.thy ===== *)
theory Mpls
  imports Rib
begin

text \<open>
  Label distribution, \<open>class MplsEngine\<close>, and the three commands of \<open>app.py\<close> that change it: nodes,
  interfaces, the LDP neighbours recomputed from the links, and the local labels handed out to the
  destinations of the routing table. The engine hashes a destination for the label it prints as outgoing:
  Python's \<open>hash\<close> is a parameter.
\<close>

record mpls_node =
  mp_enabled :: bool
  mp_interfaces :: "iface list"
  mp_neighbors :: "(dev, iface) dict"
  mp_next_label :: int
  mp_labels :: "(ip \<times> int, int) dict"

type_synonym mpls = "dev \<rightharpoonup> mpls_node"

definition fresh_mpls :: mpls_node where
  "fresh_mpls = \<lparr>mp_enabled = False, mp_interfaces = [], mp_neighbors = [], mp_next_label = 16, mp_labels = []\<rparr>"

definition mpls_node_of :: "mpls \<Rightarrow> dev \<Rightarrow> mpls_node" where
  "mpls_node_of m d = (case m d of Some n \<Rightarrow> n | None \<Rightarrow> fresh_mpls)"

definition upd_mpls :: "dev \<Rightarrow> (mpls_node \<Rightarrow> mpls_node) \<Rightarrow> mpls \<Rightarrow> mpls" where
  "upd_mpls d f m = m(d \<mapsto> f (mpls_node_of m d))"

definition enable_global :: "dev \<Rightarrow> mpls \<Rightarrow> mpls" where
  "enable_global d = upd_mpls d (\<lambda>n. n\<lparr>mp_enabled := True\<rparr>)"

definition enable_mpls_interface :: "dev \<Rightarrow> iface \<Rightarrow> mpls \<Rightarrow> mpls" where
  "enable_mpls_interface d i =
     upd_mpls d (\<lambda>n. n\<lparr>mp_interfaces := sadd (mp_interfaces n) i, mp_enabled := True\<rparr>)"

definition disable_mpls_interface :: "dev \<Rightarrow> iface \<Rightarrow> mpls \<Rightarrow> mpls" where
  "disable_mpls_interface d i =
     upd_mpls d (\<lambda>n. n\<lparr>mp_interfaces := sdiscard (mp_interfaces n) i\<rparr>)"

definition mpls_enabled :: "mpls \<Rightarrow> dev \<Rightarrow> bool" where
  "mpls_enabled m d = (case m d of None \<Rightarrow> False | Some n \<Rightarrow> mp_enabled n)"

subsection \<open>Neighbours\<close>

text \<open>The loop of \<open>refresh_neighbors\<close>: a peer counts when MPLS runs on both ends of the recorded
  interfaces; the state stored with it is always \<open>Operational\<close>.\<close>

definition ldp_iface :: "vnet \<Rightarrow> mpls \<Rightarrow> dev \<Rightarrow> dev \<Rightarrow> iface option" where
  "ldp_iface v m d p =
     (case dget (interface_links v d) p of
        None \<Rightarrow> None
      | Some i \<Rightarrow>
          if i = [] \<or> i \<notin> set (mp_interfaces (mpls_node_of m d)) then None
          else if \<not> mpls_enabled m p then None
          else (case dget (interface_links v p) d of
                  None \<Rightarrow> None
                | Some j \<Rightarrow> if j = [] \<or> j \<notin> set (mp_interfaces (mpls_node_of m p)) then None else Some i))"

fun collect_ldp :: "(dev \<Rightarrow> iface option) \<Rightarrow> dev list \<Rightarrow> (dev, iface) dict \<Rightarrow> (dev, iface) dict" where
  "collect_ldp f [] acc = acc"
| "collect_ldp f (p # ps) acc = collect_ldp f ps (case f p of None \<Rightarrow> acc | Some i \<Rightarrow> dset acc p i)"

definition refresh_neighbors :: "vnet \<Rightarrow> dev \<Rightarrow> mpls \<Rightarrow> mpls" where
  "refresh_neighbors v d m =
     upd_mpls d (\<lambda>n. n\<lparr>mp_neighbors :=
       (if mp_enabled n then collect_ldp (ldp_iface v m d) (get_neighbors v d) [] else [])\<rparr>) m"

text \<open>\<open>mpls ip\<close> (globally and on an interface) and \<open>no mpls ip\<close> of \<open>app.py\<close>: the change, then the
  neighbours of the device and of everything it is linked to.\<close>

datatype mpls_command = MplsIp | MplsIpIf iface | NoMplsIpIf iface

definition change_mpls :: "mpls_command \<Rightarrow> dev \<Rightarrow> mpls \<Rightarrow> mpls" where
  "change_mpls c d = (case c of MplsIp \<Rightarrow> enable_global d | MplsIpIf i \<Rightarrow> enable_mpls_interface d i
     | NoMplsIpIf i \<Rightarrow> disable_mpls_interface d i)"

definition run_mpls :: "vnet \<Rightarrow> dev \<times> mpls_command \<Rightarrow> mpls \<Rightarrow> mpls" where
  "run_mpls v = (\<lambda>(d, c) m.
     fold (refresh_neighbors v) (get_neighbors v d) (refresh_neighbors v d (change_mpls c d m)))"

subsection \<open>Labels\<close>

definition label_for :: "dev \<Rightarrow> ip \<times> int \<Rightarrow> mpls \<Rightarrow> int \<times> mpls" where
  "label_for d k m =
     (let n = mpls_node_of m d
      in case dget (mp_labels n) k of
           Some l \<Rightarrow> (l, m(d \<mapsto> n))
         | None \<Rightarrow> (mp_next_label n,
             m(d \<mapsto> n\<lparr>mp_labels := dset (mp_labels n) k (mp_next_label n), mp_next_label := mp_next_label n + 1\<rparr>)))"

fun label_routes :: "dev \<Rightarrow> cand list \<Rightarrow> mpls \<Rightarrow> int list \<times> mpls" where
  "label_routes d [] m = ([], m)"
| "label_routes d (c # cs) m =
     (case label_for d (c_network c, c_prefix c) m of (l, m') \<Rightarrow>
        (case label_routes d cs m' of (ls, m'') \<Rightarrow> (l # ls, m'')))"

text \<open>\<open>format_show_mpls_ldp_bindings\<close>: one line per best route; a connected one shows \<open>imp-null\<close>,
  yet takes a label.\<close>

definition binding_tag :: "cand \<Rightarrow> int \<Rightarrow> string" where
  "binding_tag c l = (if c_source c = Connected then ''imp-null'' else show_int l)"

definition show_bindings :: "dev \<Rightarrow> cand list res \<Rightarrow> mpls \<Rightarrow> (string \<times> string) list res \<times> mpls" where
  "show_bindings d best m =
     (if \<not> mpls_enabled m d then (Inr [], m)
      else case best of
             Inl e \<Rightarrow> (Inl e, m)
           | Inr cs \<Rightarrow> (case label_routes d cs m of (ls, m') \<Rightarrow>
               (Inr (map2 (\<lambda>c l. (dest_key (c_network c) (c_prefix c), binding_tag c l)) cs ls), m')))"

record lfib_row =
  lf_local :: int
  lf_out :: string
  lf_prefix :: string
  lf_iface :: string
  lf_next_hop :: string

definition lfib_row_of :: "(dev \<times> ip \<times> int \<Rightarrow> int) \<Rightarrow> dev \<Rightarrow> cand \<Rightarrow> int \<Rightarrow> lfib_row" where
  "lfib_row_of pyhash d c l =
     \<lparr>lf_local = l,
      lf_out = (if c_source c = Connected then ''Pop Label''
                else show_int (16 + \<bar>pyhash (d, c_network c, c_prefix c)\<bar> mod 900)),
      lf_prefix = dest_key (c_network c) (c_prefix c),
      lf_iface = (if c_iface c = [] then ''-'' else c_iface c),
      lf_next_hop = (if c_source c = Connected \<or> c_next_hop c = [] \<or> c_next_hop c = ''0.0.0.0''
                     then ''point2point'' else c_next_hop c)\<rparr>"

definition show_forwarding ::
  "(dev \<times> ip \<times> int \<Rightarrow> int) \<Rightarrow> dev \<Rightarrow> cand list res \<Rightarrow> mpls \<Rightarrow> lfib_row list res \<times> mpls" where
  "show_forwarding pyhash d best m =
     (if \<not> mpls_enabled m d then (Inr [], m)
      else case best of
             Inl e \<Rightarrow> (Inl e, m)
           | Inr cs \<Rightarrow> (case label_routes d cs m of (ls, m') \<Rightarrow>
               (Inr (map2 (lfib_row_of pyhash d) cs ls), m')))"

subsection \<open>Facts about nodes\<close>

lemma mpls_node_of_upd [simp]:
  "mpls_node_of (upd_mpls d f m) x = (if x = d then f (mpls_node_of m d) else mpls_node_of m x)"
  by (simp add: upd_mpls_def mpls_node_of_def)

lemma mpls_enabled_eq: "mpls_enabled m d = mp_enabled (mpls_node_of m d)"
  by (simp add: mpls_enabled_def mpls_node_of_def fresh_mpls_def split: option.splits)

lemma mpls_node_of_fun_upd [simp]:
  "mpls_node_of (m(d \<mapsto> n)) x = (if x = d then n else mpls_node_of m x)"
  by (simp add: mpls_node_of_def)

text \<open>What a peer's test reads of a node: refreshing leaves it alone.\<close>

definition mpls_config :: "mpls \<Rightarrow> dev \<Rightarrow> bool \<times> iface list" where
  "mpls_config m d = (mp_enabled (mpls_node_of m d), mp_interfaces (mpls_node_of m d))"

lemma config_refresh [simp]: "mpls_config (refresh_neighbors v d m) x = mpls_config m x"
  by (simp add: mpls_config_def refresh_neighbors_def)

lemma config_refreshes [simp]: "mpls_config (fold (refresh_neighbors v) ds m) x = mpls_config m x"
  by (induction ds arbitrary: m) simp_all

lemma config_change: "x \<noteq> d \<Longrightarrow> mpls_config (change_mpls c d m) x = mpls_config m x"
  by (simp add: mpls_config_def change_mpls_def enable_global_def enable_mpls_interface_def
        disable_mpls_interface_def split: mpls_command.splits)

lemma ldp_iface_cong:
  "mpls_config m d = mpls_config m' d \<Longrightarrow> mpls_config m p = mpls_config m' p \<Longrightarrow>
     ldp_iface v m d p = ldp_iface v m' d p"
  by (auto simp: mpls_config_def ldp_iface_def mpls_enabled_eq split: option.splits)

subsection \<open>LDP neighbours are exactly the pairs that agree\<close>

lemma collect_ldp_get:
  "dget (collect_ldp f ps acc) p = (if p \<in> set ps \<and> f p \<noteq> None then f p else dget acc p)"
  by (induction f ps acc rule: collect_ldp.induct) (auto split: option.splits)

definition ldp_exact_at :: "vnet \<Rightarrow> mpls \<Rightarrow> dev \<Rightarrow> bool" where
  "ldp_exact_at v m d \<longleftrightarrow> (\<forall>p. dget (mp_neighbors (mpls_node_of m d)) p =
     (if fst (mpls_config m d) \<and> p \<in> set (get_neighbors v d) then ldp_iface v m d p else None))"

lemma refresh_exact: "ldp_exact_at v (refresh_neighbors v d m) d"
proof -
  have "ldp_iface v (refresh_neighbors v d m) d p = ldp_iface v m d p" for p
    by (rule ldp_iface_cong) simp_all
  moreover have "fst (mpls_config (refresh_neighbors v d m) d) = mp_enabled (mpls_node_of m d)"
    by (simp only: config_refresh) (simp add: mpls_config_def)
  ultimately show ?thesis
    by (simp add: ldp_exact_at_def refresh_neighbors_def collect_ldp_get)
qed

lemma refresh_keeps_exact:
  assumes "ldp_exact_at v m x"
  shows "ldp_exact_at v (refresh_neighbors v d m) x"
proof (cases "x = d")
  case False
  have "ldp_iface v (refresh_neighbors v d m) x p = ldp_iface v m x p" for p
    by (rule ldp_iface_cong) simp_all
  with False assms show ?thesis
    by (simp add: ldp_exact_at_def) (simp add: refresh_neighbors_def)
qed (simp add: refresh_exact)

lemma refreshes_exact:
  "x \<in> set ds \<or> ldp_exact_at v m x \<Longrightarrow> ldp_exact_at v (fold (refresh_neighbors v) ds m) x"
  by (induction ds arbitrary: m) (auto simp: refresh_exact refresh_keeps_exact)

lemma change_keeps_exact:
  assumes "ldp_exact_at v m x" "x \<noteq> d" "d \<notin> set (get_neighbors v x)"
  shows "ldp_exact_at v (change_mpls c d m) x"
proof -
  have "ldp_iface v (change_mpls c d m) x p = ldp_iface v m x p" if "p \<in> set (get_neighbors v x)" for p
    using that assms by (intro ldp_iface_cong config_change) auto
  moreover have "mpls_node_of (change_mpls c d m) x = mpls_node_of m x"
    using assms(2) by (simp add: change_mpls_def enable_global_def enable_mpls_interface_def
      disable_mpls_interface_def split: mpls_command.splits)
  ultimately show ?thesis using assms by (auto simp: ldp_exact_at_def config_change)
qed

lemma run_keeps_exact:
  assumes "links_ok (links v)" "\<forall>x. ldp_exact_at v m x"
  shows "\<forall>x. ldp_exact_at v (run_mpls v op m) x"
proof
  fix x
  obtain d c where op: "op = (d, c)" by (cases op)
  have "x \<in> set (get_neighbors v d) \<or> ldp_exact_at v (refresh_neighbors v d (change_mpls c d m)) x"
  proof (cases "x = d")
    case False
    have "d \<in> set (get_neighbors v x) \<longleftrightarrow> x \<in> set (get_neighbors v d)"
      using assms(1) by (simp add: links_ok_def get_neighbors_def)
    with False assms(2) show ?thesis
      by (auto intro: refresh_keeps_exact change_keeps_exact)
  qed (simp add: refresh_exact)
  then show "ldp_exact_at v (run_mpls v op m) x"
    by (simp add: op run_mpls_def refreshes_exact)
qed

lemma run_all_exact:
  "links_ok (links v) \<Longrightarrow> \<forall>x. ldp_exact_at v m x \<Longrightarrow> \<forall>x. ldp_exact_at v (fold (run_mpls v) ops m) x"
proof (induction ops arbitrary: m)
  case (Cons op ops)
  then show ?case using run_keeps_exact [OF Cons.prems, of op] by (simp add: Cons.IH)
qed simp

lemma no_mpls_exact: "ldp_exact_at v Map.empty x"
  by (simp add: ldp_exact_at_def mpls_node_of_def mpls_config_def fresh_mpls_def)

text \<open>C29. Whatever sequence of \<open>mpls ip\<close> and \<open>no mpls ip\<close> commands is entered on the devices of a
  topology with symmetric links, the LDP neighbours of every device are exactly the linked peers for
  which MPLS runs on both recorded interfaces and on both devices; so adjacency is mutual.\<close>

theorem ldp_adjacency_mutual:
  fixes ops v
  defines "m \<equiv> fold (run_mpls v) ops Map.empty"
  assumes "links_ok (links v)"
  shows "(\<forall>d p. dget (mp_neighbors (mpls_node_of m d)) p =
      (if mpls_enabled m d \<and> p \<in> set (get_neighbors v d) then ldp_iface v m d p else None)) \<and>
    (\<forall>d p. dget (mp_neighbors (mpls_node_of m d)) p \<noteq> None \<longleftrightarrow>
           dget (mp_neighbors (mpls_node_of m p)) d \<noteq> None)"
proof -
  have exact: "dget (mp_neighbors (mpls_node_of m d)) p =
      (if mpls_enabled m d \<and> p \<in> set (get_neighbors v d) then ldp_iface v m d p else None)" for d p
    using run_all_exact [OF assms(2), of Map.empty ops]
    by (simp add: no_mpls_exact ldp_exact_at_def m_def mpls_config_def mpls_enabled_eq)
  have sym: "p \<in> set (get_neighbors v d) \<longleftrightarrow> d \<in> set (get_neighbors v p)" for d p
    using assms(2) by (simp add: links_ok_def get_neighbors_def)
  have both: "mpls_enabled m d \<and> ldp_iface v m d p \<noteq> None \<longleftrightarrow>
      mpls_enabled m p \<and> ldp_iface v m p d \<noteq> None" for d p
    by (auto simp: ldp_iface_def split: option.splits if_splits)
  have held: "dget (mp_neighbors (mpls_node_of m d)) p \<noteq> None \<longleftrightarrow>
      p \<in> set (get_neighbors v d) \<and> mpls_enabled m d \<and> ldp_iface v m d p \<noteq> None" for d p
    by (simp add: exact)
  have "dget (mp_neighbors (mpls_node_of m d)) p \<noteq> None \<longleftrightarrow>
      dget (mp_neighbors (mpls_node_of m p)) d \<noteq> None" for d p
    unfolding held using sym [of p d] both [of d p] by blast
  then show ?thesis by (intro conjI allI exact)
qed

lemma config_run_interface:
  "mpls_config (run_mpls v (d, MplsIpIf i) m) x =
     (if x = d then (True, sadd (snd (mpls_config m d)) i) else mpls_config m x)"
  by (simp add: run_mpls_def config_change)
     (simp add: mpls_config_def change_mpls_def enable_mpls_interface_def)

lemma no_mpls_config: "mpls_config Map.empty d = (False, [])"
  by (simp add: mpls_config_def mpls_node_of_def fresh_mpls_def)

lemma ldp_adjacency_mutual_witness:
  "dget (mp_neighbors (mpls_node_of (fold (run_mpls
      (fst (add_link vnet_init ''P1'' ''P2'' (Some ''e0'') (Some ''e1''))))
      [(''P1'', MplsIpIf ''e0''), (''P2'', MplsIpIf ''e1'')] Map.empty) ''P1'')) ''P2'' = Some ''e0''"
proof -
  let ?v = "fst (add_link vnet_init ''P1'' ''P2'' (Some ''e0'') (Some ''e1''))"
  let ?ops = "[(''P1'', MplsIpIf ''e0''), (''P2'', MplsIpIf ''e1'')]"
  let ?m = "fold (run_mpls ?v) ?ops Map.empty"
  have links: "links ?v = link_to ''P2'' ''P1'' (link_to ''P1'' ''P2'' [])"
    by (simp add: add_link_def record_iface_def vnet_init_def)
  have ok: "links_ok (links ?v)"
    unfolding links by (rule links_ok_link) (simp add: links_ok_def nbrs_def)
  have nb: "get_neighbors ?v ''P1'' = [''P2'']" "get_neighbors ?v ''P2'' = [''P1'']"
    unfolding get_neighbors_def links by (simp_all add: nbrs_link_to) (simp_all add: nbrs_def sadd_def)
  have il: "dget (interface_links ?v ''P1'') ''P2'' = Some ''e0''"
    "dget (interface_links ?v ''P2'') ''P1'' = Some ''e1''"
    by (simp_all add: add_link_def record_iface_def vnet_init_def)
  have cfg: "mpls_config ?m ''P1'' = (True, [''e0''])" "mpls_config ?m ''P2'' = (True, [''e1''])"
    by (simp_all add: config_run_interface no_mpls_config sadd_def)
  then have "mpls_enabled ?m ''P1''" "mpls_enabled ?m ''P2''" "ldp_iface ?v ?m ''P1'' ''P2'' = Some ''e0''"
    using il by (simp_all add: mpls_enabled_eq mpls_config_def ldp_iface_def)
  then show ?thesis using conjunct1 [OF ldp_adjacency_mutual [OF ok, of ?ops]] nb by simp
qed

subsection \<open>Labels never collide and never change\<close>

datatype mpls_op = Command vnet dev mpls_command | Refresh vnet dev | Label dev "ip \<times> int"

definition mpls_step :: "mpls_op \<Rightarrow> mpls \<Rightarrow> mpls" where
  "mpls_step x m = (case x of Command v d c \<Rightarrow> run_mpls v (d, c) m | Refresh v d \<Rightarrow> refresh_neighbors v d m
     | Label d k \<Rightarrow> snd (label_for d k m))"

definition labels_ok :: "mpls_node \<Rightarrow> bool" where
  "labels_ok n \<longleftrightarrow> dict_ok (mp_labels n) \<and> distinct (dvals (mp_labels n)) \<and>
     set (dvals (mp_labels n)) = {16..<mp_next_label n} \<and> mp_next_label n = 16 + int (length (mp_labels n))"

definition labels_kept :: "mpls \<Rightarrow> mpls \<Rightarrow> bool" where
  "labels_kept m m' \<longleftrightarrow> (\<forall>d k l. dget (mp_labels (mpls_node_of m d)) k = Some l \<longrightarrow>
     dget (mp_labels (mpls_node_of m' d)) k = Some l)"

definition label_part :: "mpls \<Rightarrow> dev \<Rightarrow> int \<times> (ip \<times> int, int) dict" where
  "label_part m d = (mp_next_label (mpls_node_of m d), mp_labels (mpls_node_of m d))"

lemma label_part_refresh [simp]: "label_part (refresh_neighbors v d m) x = label_part m x"
  by (simp add: label_part_def refresh_neighbors_def)

lemma label_part_refreshes [simp]: "label_part (fold (refresh_neighbors v) ds m) x = label_part m x"
  by (induction ds arbitrary: m) simp_all

lemma label_part_run [simp]: "label_part (run_mpls v (d, c) m) x = label_part m x"
  by (simp add: run_mpls_def)
     (simp add: label_part_def change_mpls_def enable_global_def enable_mpls_interface_def
        disable_mpls_interface_def split: mpls_command.splits)

lemma labels_ok_part:
  "label_part m d = label_part m' d' \<Longrightarrow> labels_ok (mpls_node_of m d) \<longleftrightarrow> labels_ok (mpls_node_of m' d')"
  by (simp add: label_part_def labels_ok_def)

lemma labels_ok_new:
  assumes "labels_ok n" "dget (mp_labels n) k = None"
  shows "labels_ok (n\<lparr>mp_labels := dset (mp_labels n) k (mp_next_label n), mp_next_label := mp_next_label n + 1\<rparr>)"
proof -
  have "dict_ok (dset (mp_labels n) k (mp_next_label n))" using assms(1) by (simp add: labels_ok_def)
  moreover have "dvals (dset (mp_labels n) k (mp_next_label n)) = dvals (mp_labels n) @ [mp_next_label n]"
    using assms(2) by (simp add: dset_new dvals_def)
  moreover have "{16..<mp_next_label n + 1} = insert (mp_next_label n) {16..<mp_next_label n}"
    using assms(1) by (auto simp: labels_ok_def)
  ultimately show ?thesis using assms by (simp add: labels_ok_def length_dset)
qed

lemma label_for_ok:
  assumes "\<forall>d. labels_ok (mpls_node_of m d)"
  shows "\<forall>x. labels_ok (mpls_node_of (snd (label_for d k m)) x)"
  using assms by (simp add: label_for_def Let_def labels_ok_new split: option.splits)

lemma label_for_kept: "labels_kept m (snd (label_for d k m))"
  by (auto simp: labels_kept_def label_for_def Let_def split: option.splits)

interpretation labels: monotone_machine mpls_step Map.empty
  "\<lambda>m. \<forall>d. labels_ok (mpls_node_of m d)" labels_kept
proof
  show "\<forall>d. labels_ok (mpls_node_of Map.empty d)"
    by (simp add: mpls_node_of_def fresh_mpls_def labels_ok_def dvals_def)
  fix m m' m'' x
  show "labels_kept m m" by (simp add: labels_kept_def)
  show "labels_kept m m' \<Longrightarrow> labels_kept m' m'' \<Longrightarrow> labels_kept m m''" by (simp add: labels_kept_def)
  have same: "label_part (mpls_step x m) d = label_part m d" if "\<nexists>d k. x = Label d k" for d
    using that by (cases x) (simp_all add: mpls_step_def)
  show "labels_kept m (mpls_step x m)"
  proof (cases "\<exists>d k. x = Label d k")
    case True
    then show ?thesis using label_for_kept by (auto simp: mpls_step_def)
  next
    case False
    from same [OF this] show ?thesis by (simp add: labels_kept_def label_part_def)
  qed
  show "\<forall>d. labels_ok (mpls_node_of m d) \<Longrightarrow> \<forall>d. labels_ok (mpls_node_of (mpls_step x m) d)"
  proof (cases "\<exists>d k. x = Label d k")
    case True
    then show "\<forall>d. labels_ok (mpls_node_of m d) \<Longrightarrow> ?thesis"
      using label_for_ok by (auto simp: mpls_step_def)
  next
    case False
    from labels_ok_part [OF same [OF this]]
    show "\<forall>d. labels_ok (mpls_node_of m d) \<Longrightarrow> ?thesis" by blast
  qed
qed

text \<open>The two displays hand out labels by the same step.\<close>

lemma label_routes_steps:
  "snd (label_routes d cs m) = fold mpls_step (List.map (\<lambda>c. Label d (c_network c, c_prefix c)) cs) m"
proof (induction cs arbitrary: m)
  case (Cons c cs)
  then show ?case
    by (cases "label_for d (c_network c, c_prefix c) m"; cases "label_routes d cs (snd (label_for d (c_network c, c_prefix c) m))")
       (simp add: mpls_step_def, metis snd_conv)
qed simp

text \<open>After any sequence of MPLS commands, refreshes and displays, every device has handed out the
  labels from 16 upwards without a gap, no two destinations share one, and a destination that has a
  label keeps it in everything that follows.\<close>

theorem labels_unique_and_stable:
  "(\<forall>d. labels_ok (mpls_node_of (fold mpls_step ops Map.empty) d)) \<and>
   labels_kept (fold mpls_step ops Map.empty) (fold mpls_step more_ops (fold mpls_step ops Map.empty))"
  using labels.run_inv labels.le_fold [OF labels.run_inv] by blast

end
