(* ===== verification/Nacm.thy ===== *)
theory Nacm
  imports NetData
begin

text \<open>
  Access control of NETCONF (RFC 8341), \<open>engine/netconf_agent.py\<close>: the settings under \<open>/nacm\<close>, the
  editing of them (\<open>apply_nacm_edit\<close>), recovery sessions and the decision (\<open>nacm_check\<close>). XML elements
  are trees as the standard library's parser makes them; a tag is the local name, the only part of a tag
  the code looks at, and the operation attribute is named by its local name.
\<close>

subsection \<open>Elements\<close>

datatype xml = Elem (x_tag: string) (x_attrs: "(string, string) dict") (x_text: "string option") (x_children: "xml list")

definition children :: "xml \<Rightarrow> string \<Rightarrow> xml list" where
  "children e n = filter (\<lambda>c. x_tag c = n) (x_children e)"

definition child :: "xml \<Rightarrow> string \<Rightarrow> xml option" where
  "child e n = find (\<lambda>c. x_tag c = n) (x_children e)"

text \<open>\<open>(el.text or '').strip()\<close>, and the same for a child that may be missing.\<close>

definition text_of :: "xml \<Rightarrow> string" where
  "text_of e = strip (case x_text e of None \<Rightarrow> [] | Some t \<Rightarrow> t)"

definition child_text :: "xml \<Rightarrow> string \<Rightarrow> string" where
  "child_text e n = (case child e n of None \<Rightarrow> [] | Some c \<Rightarrow> text_of c)"

text \<open>\<open>if el is not None and el.text\<close>: the stripped text of a child whose text is not empty.\<close>

definition full_text :: "xml \<Rightarrow> string \<Rightarrow> string option" where
  "full_text e n =
     (case child e n of
        None \<Rightarrow> None
      | Some c \<Rightarrow> (case x_text c of None \<Rightarrow> None | Some t \<Rightarrow> if t = [] then None else Some (strip t)))"

definition text_or :: "string \<Rightarrow> string option \<Rightarrow> string" where
  "text_or d t = (case t of None \<Rightarrow> d | Some s \<Rightarrow> s)"

definition op_of :: "xml \<Rightarrow> string option" where
  "op_of e = dget (x_attrs e) ''operation''"

subsection \<open>Settings\<close>

record nacm_rule =
  nr_name :: string
  nr_module :: string
  nr_rpc :: string
  nr_path :: string
  nr_ops :: string
  nr_action :: string
  nr_comment :: string

record rule_list =
  rl_name :: string
  rl_groups :: "string list"
  rl_rules :: "nacm_rule list"

record nacm =
  na_enabled :: bool
  na_external :: bool
  na_read :: string
  na_write :: string
  na_exec :: string
  na_groups :: "(string, string list) dict"
  na_lists :: "rule_list list"
  na_denied :: nat
  na_denied_writes :: nat

definition nacm_default :: nacm where
  "nacm_default = \<lparr>na_enabled = True, na_external = True, na_read = ''permit'', na_write = ''deny'',
     na_exec = ''permit'', na_groups = [], na_lists = [], na_denied = 0, na_denied_writes = 0\<rparr>"

record local_user =
  lu_name :: string
  lu_privilege :: int

subsection \<open>The decision\<close>

definition user_groups :: "nacm \<Rightarrow> string \<Rightarrow> string list" where
  "user_groups n u = List.map fst (filter (\<lambda>(g, us). u \<in> set us) (na_groups n))"

definition recovery_groups :: "string list" where
  "recovery_groups = [''ndm-admin'', ''PRIV15'']"

definition is_recovery :: "nacm \<Rightarrow> local_user list \<Rightarrow> string \<Rightarrow> bool" where
  "is_recovery n users u \<longleftrightarrow> u \<noteq> [] \<and>
     ((\<exists>g\<in>set (user_groups n u). g \<in> set recovery_groups) \<or>
      (if users \<noteq> [] then (\<exists>x\<in>set users. lu_name x = u \<and> 15 \<le> lu_privilege x) else u = ''admin''))"

definition list_applies :: "nacm \<Rightarrow> string \<Rightarrow> rule_list \<Rightarrow> bool" where
  "list_applies n u rl \<longleftrightarrow> ''*'' \<in> set (rl_groups rl) \<or> (\<exists>g\<in>set (rl_groups rl). g \<in> set (user_groups n u))"

definition rule_skipped :: "string \<Rightarrow> string \<Rightarrow> string \<Rightarrow> nacm_rule \<Rightarrow> bool" where
  "rule_skipped op module path r \<longleftrightarrow>
     nr_module r \<noteq> ''*'' \<and> module \<noteq> ''*'' \<and> nr_module r \<noteq> module \<or>
     nr_ops r \<noteq> ''*'' \<and> op \<notin> set (split_ws (nr_ops r)) \<or>
     nr_path r \<noteq> [] \<and> path \<noteq> [] \<and> \<not> contains (nr_path r) path \<or>
     nr_rpc r \<noteq> [] \<and> op \<noteq> ''exec''"

fun decide_rules :: "string \<Rightarrow> string \<Rightarrow> string \<Rightarrow> nacm_rule list \<Rightarrow> bool option" where
  "decide_rules op module path [] = None"
| "decide_rules op module path (r # rs) =
     (if rule_skipped op module path r then decide_rules op module path rs else Some (nr_action r = ''permit''))"

fun decide_lists :: "nacm \<Rightarrow> string \<Rightarrow> string \<Rightarrow> string \<Rightarrow> string \<Rightarrow> rule_list list \<Rightarrow> bool option" where
  "decide_lists n u op module path [] = None"
| "decide_lists n u op module path (rl # rls) =
     (if \<not> list_applies n u rl then decide_lists n u op module path rls
      else case decide_rules op module path (rl_rules rl) of
             Some b \<Rightarrow> Some b
           | None \<Rightarrow> decide_lists n u op module path rls)"

definition default_allows :: "nacm \<Rightarrow> string \<Rightarrow> bool" where
  "default_allows n op =
     (if op = ''read'' then na_read n = ''permit''
      else if op = ''exec'' then na_exec n = ''permit''
      else na_write n = ''permit'')"

definition write_ops :: "string list" where
  "write_ops = [''create'', ''update'', ''delete'']"

definition count_denial :: "string \<Rightarrow> nacm \<Rightarrow> nacm" where
  "count_denial op n = (let n' = n\<lparr>na_denied := na_denied n + 1\<rparr>
     in if op \<in> set write_ops then n'\<lparr>na_denied_writes := na_denied_writes n' + 1\<rparr> else n')"

definition nacm_check :: "local_user list \<Rightarrow> string \<Rightarrow> string \<Rightarrow> string \<Rightarrow> string \<Rightarrow> nacm \<Rightarrow> bool \<times> nacm" where
  "nacm_check users u op module path n =
     (if \<not> na_enabled n then (True, n)
      else if is_recovery n users u then (True, n)
      else case decide_lists n u op module path (na_lists n) of
             Some b \<Rightarrow> (b, n)
           | None \<Rightarrow> if default_allows n op then (True, n) else (False, count_denial op n))"

subsection \<open>Editing the settings\<close>

text \<open>An edit answers the settings it leaves and its complaint; what was changed before it stays changed.\<close>

definition and_then :: "'s \<times> string option \<Rightarrow> ('s \<Rightarrow> 's \<times> string option) \<Rightarrow> 's \<times> string option" where
  "and_then r f = (case r of (s, Some e) \<Rightarrow> (s, Some e) | (s, None) \<Rightarrow> f s)"

fun edit_each :: "('x \<Rightarrow> 's \<Rightarrow> 's \<times> string option) \<Rightarrow> 'x list \<Rightarrow> 's \<Rightarrow> 's \<times> string option" where
  "edit_each f [] s = (s, None)"
| "edit_each f (x # xs) s = and_then (f x s) (edit_each f xs)"

definition bool_of :: "xml \<Rightarrow> bool \<Rightarrow> bool" where
  "bool_of e d = (case x_text e of None \<Rightarrow> d | Some t \<Rightarrow> lower (strip t) = ''true'')"

definition edit_flags :: "xml \<Rightarrow> nacm \<Rightarrow> nacm" where
  "edit_flags e n = n\<lparr>
     na_enabled := (case child e ''enable-nacm'' of None \<Rightarrow> na_enabled n | Some c \<Rightarrow> bool_of c (na_enabled n)),
     na_external := (case child e ''enable-external-groups'' of None \<Rightarrow> na_external n | Some c \<Rightarrow> bool_of c (na_external n))\<rparr>"

definition set_leaf :: "string \<Rightarrow> string \<Rightarrow> nacm \<Rightarrow> nacm" where
  "set_leaf leaf val n =
     (if leaf = ''read-default'' then n\<lparr>na_read := val\<rparr>
      else if leaf = ''write-default'' then n\<lparr>na_write := val\<rparr>
      else n\<lparr>na_exec := val\<rparr>)"

definition edit_leaf :: "xml \<Rightarrow> string \<Rightarrow> nacm \<Rightarrow> nacm \<times> string option" where
  "edit_leaf e leaf n =
     (case full_text e leaf of
        None \<Rightarrow> (n, None)
      | Some val \<Rightarrow>
          if val \<noteq> ''permit'' \<and> val \<noteq> ''deny'' then (n, Some (leaf @ '' must be \"permit\" or \"deny\"''))
          else (set_leaf leaf val n, None))"

definition nonempty_texts :: "xml \<Rightarrow> string \<Rightarrow> string list" where
  "nonempty_texts e n = filter (\<lambda>t. t \<noteq> []) (List.map text_of (children e n))"

definition edit_group :: "xml \<Rightarrow> nacm \<Rightarrow> nacm \<times> string option" where
  "edit_group g n =
     (let gname = child_text g ''name''
      in if gname = [] then (n, Some ''group name is required'')
         else if op_of g = Some ''delete'' then (n\<lparr>na_groups := dpop (na_groups n) gname\<rparr>, None)
         else (n\<lparr>na_groups := dset (na_groups n) gname (nonempty_texts g ''user-name'')\<rparr>, None))"

definition read_rule :: "xml \<Rightarrow> string + nacm_rule" where
  "read_rule r =
     (let action = child_text r ''action''
      in if child_text r ''name'' = [] then Inl ''rule name is required''
         else if action \<noteq> ''permit'' \<and> action \<noteq> ''deny'' then Inl ''rule action must be \"permit\" or \"deny\"''
         else Inr \<lparr>nr_name = child_text r ''name'', nr_module = text_or ''*'' (full_text r ''module-name''),
                   nr_rpc = text_or [] (full_text r ''rpc-name''), nr_path = text_or [] (full_text r ''path''),
                   nr_ops = text_or ''*'' (full_text r ''access-operations''), nr_action = action,
                   nr_comment = text_or [] (full_text r ''comment'')\<rparr>)"

fun read_rules :: "xml list \<Rightarrow> string + nacm_rule list" where
  "read_rules [] = Inr []"
| "read_rules (x # xs) =
     (case read_rule x of
        Inl e \<Rightarrow> Inl e
      | Inr r \<Rightarrow> (case read_rules xs of Inl e \<Rightarrow> Inl e | Inr rs \<Rightarrow> Inr (r # rs)))"

text \<open>\<open>list.remove\<close> and the store at \<open>index\<close>, for the first list with a name.\<close>

fun drop_list :: "string \<Rightarrow> rule_list list \<Rightarrow> rule_list list" where
  "drop_list nm [] = []"
| "drop_list nm (x # xs) = (if rl_name x = nm then xs else x # drop_list nm xs)"

fun put_list :: "rule_list \<Rightarrow> rule_list list \<Rightarrow> rule_list list" where
  "put_list e [] = [e]"
| "put_list e (x # xs) = (if rl_name x = rl_name e then e # xs else x # put_list e xs)"

definition edit_rule_list :: "xml \<Rightarrow> nacm \<Rightarrow> nacm \<times> string option" where
  "edit_rule_list x n =
     (let nm = child_text x ''name''
      in if nm = [] then (n, Some ''rule-list name is required'')
         else if op_of x = Some ''delete'' then (n\<lparr>na_lists := drop_list nm (na_lists n)\<rparr>, None)
         else case read_rules (children x ''rule'') of
                Inl e \<Rightarrow> (n, Some e)
              | Inr rs \<Rightarrow> (n\<lparr>na_lists := put_list \<lparr>rl_name = nm, rl_groups = nonempty_texts x ''group'', rl_rules = rs\<rparr>
                              (na_lists n)\<rparr>, None))"

definition apply_nacm_edit :: "xml \<Rightarrow> nacm \<Rightarrow> nacm \<times> string option" where
  "apply_nacm_edit e n =
     and_then (edit_each (edit_leaf e) [''read-default'', ''write-default'', ''exec-default''] (edit_flags e n)) (\<lambda>n.
     and_then (edit_each edit_group (case child e ''groups'' of None \<Rightarrow> [] | Some g \<Rightarrow> children g ''group'') n) (\<lambda>n.
       edit_each edit_rule_list (children e ''rule-list'') n))"

subsection \<open>The first rule that applies decides\<close>

text \<open>The rules a user and an operation meet, in the order they are tried.\<close>

definition rules_met :: "nacm \<Rightarrow> string \<Rightarrow> string \<Rightarrow> string \<Rightarrow> string \<Rightarrow> nacm_rule list" where
  "rules_met n u op module path =
     filter (\<lambda>r. \<not> rule_skipped op module path r)
       (concat (List.map rl_rules (filter (list_applies n u) (na_lists n))))"

lemma decide_rules_filter:
  "decide_rules op module path rs =
     (case filter (\<lambda>r. \<not> rule_skipped op module path r) rs of [] \<Rightarrow> None | r # _ \<Rightarrow> Some (nr_action r = ''permit''))"
  by (induction rs) auto

lemma decide_lists_filter:
  "decide_lists n u op module path rls =
     (case filter (\<lambda>r. \<not> rule_skipped op module path r) (concat (List.map rl_rules (filter (list_applies n u) rls))) of
        [] \<Rightarrow> None | r # _ \<Rightarrow> Some (nr_action r = ''permit''))"
proof (induction rls)
  case (Cons rl rls)
  then show ?case
    by (cases "filter (\<lambda>r. \<not> rule_skipped op module path r) (rl_rules rl)") (simp_all add: decide_rules_filter)
qed simp

lemma count_denial_config [simp]:
  "na_enabled (count_denial op n) = na_enabled n" "na_external (count_denial op n) = na_external n"
  "na_read (count_denial op n) = na_read n" "na_write (count_denial op n) = na_write n"
  "na_exec (count_denial op n) = na_exec n" "na_groups (count_denial op n) = na_groups n"
  "na_lists (count_denial op n) = na_lists n"
  by (simp_all add: count_denial_def Let_def)

text \<open>The decision: everything passes while the control is off and for recovery sessions; else the first
  rule met, in the order of the lists and of their rules, decides alone; where none is met the default of the
  operation decides. Only a refusal by default is counted, once among the operations and once more among the
  writes if it was one; nothing else is changed.\<close>

theorem nacm_first_rule_decides:
  "nacm_check users u op module path n =
     (if \<not> na_enabled n \<or> is_recovery n users u then (True, n)
      else case rules_met n u op module path of
             r # _ \<Rightarrow> (nr_action r = ''permit'', n)
           | [] \<Rightarrow> (default_allows n op, if default_allows n op then n else count_denial op n))"
  by (auto simp: nacm_check_def decide_lists_filter rules_met_def split: list.split)

subsection \<open>Rule lists keep their names apart\<close>

definition rules_ok :: "rule_list \<Rightarrow> bool" where
  "rules_ok l \<longleftrightarrow> (\<forall>r\<in>set (rl_rules l). nr_action r \<in> {''permit'', ''deny''})"

definition nacm_ok :: "nacm \<Rightarrow> bool" where
  "nacm_ok n \<longleftrightarrow> distinct (List.map rl_name (na_lists n)) \<and> dict_ok (na_groups n) \<and>
     na_read n \<in> {''permit'', ''deny''} \<and> na_write n \<in> {''permit'', ''deny''} \<and> na_exec n \<in> {''permit'', ''deny''} \<and>
     list_all rules_ok (na_lists n)"

lemma names_drop_list: "set (List.map rl_name (drop_list nm ls)) \<subseteq> set (List.map rl_name ls)"
  by (induction ls) auto

lemma set_drop_list: "set (drop_list nm ls) \<subseteq> set ls"
  by (induction ls) auto

lemma distinct_drop_list: "distinct (List.map rl_name ls) \<Longrightarrow> distinct (List.map rl_name (drop_list nm ls))"
  using set_drop_list by (induction ls) fastforce+

lemma set_put_list: "set (put_list e ls) \<subseteq> insert e (set ls)"
  by (induction ls) auto

lemma names_put_list: "set (List.map rl_name (put_list e ls)) = insert (rl_name e) (set (List.map rl_name ls))"
  by (induction ls) auto

lemma distinct_put_list: "distinct (List.map rl_name ls) \<Longrightarrow> distinct (List.map rl_name (put_list e ls))"
proof (induction ls)
  case (Cons l ls)
  then show ?case using names_put_list [of e ls] by auto
qed simp

lemma and_then_ok: "P (fst r) \<Longrightarrow> (\<And>s. P s \<Longrightarrow> P (fst (f s))) \<Longrightarrow> P (fst (and_then r f))"
  by (cases r) (auto simp: and_then_def split: option.split)

lemma edit_each_ok: "(\<And>x s. P s \<Longrightarrow> P (fst (f x s))) \<Longrightarrow> P s \<Longrightarrow> P (fst (edit_each f xs s))"
  by (induction xs arbitrary: s) (auto intro: and_then_ok)

lemma read_rules_actions: "read_rules xs = Inr rs \<Longrightarrow> \<forall>r\<in>set rs. nr_action r \<in> {''permit'', ''deny''}"
  by (induction xs arbitrary: rs) (auto simp: read_rule_def Let_def split: sum.splits if_splits)

lemma edit_leaf_ok: "nacm_ok n \<Longrightarrow> nacm_ok (fst (edit_leaf e leaf n))"
  by (auto simp: edit_leaf_def set_leaf_def nacm_ok_def split: option.splits)

lemma edit_group_ok: "nacm_ok n \<Longrightarrow> nacm_ok (fst (edit_group g n))"
  by (auto simp: edit_group_def nacm_ok_def Let_def)

lemma edit_rule_list_ok:
  assumes "nacm_ok n"
  shows "nacm_ok (fst (edit_rule_list x n))"
proof -
  let ?nm = "child_text x ''name''"
  have ok: "list_all rules_ok (na_lists n)" "distinct (List.map rl_name (na_lists n))"
    using assms by (simp_all add: nacm_ok_def)
  have drop: "nacm_ok (n\<lparr>na_lists := drop_list ?nm (na_lists n)\<rparr>)"
    using assms set_drop_list [of ?nm "na_lists n"] ok
    by (simp add: nacm_ok_def distinct_drop_list) (auto simp: list_all_iff)
  have put: "nacm_ok (n\<lparr>na_lists := put_list l (na_lists n)\<rparr>)" if "rules_ok l" for l
    using assms set_put_list [of l "na_lists n"] ok that
    by (simp add: nacm_ok_def distinct_put_list) (auto simp: list_all_iff)
  have "rules_ok \<lparr>rl_name = ?nm, rl_groups = gs, rl_rules = rs\<rparr>" if "read_rules (children x ''rule'') = Inr rs" for gs rs
    using read_rules_actions [OF that] by (simp add: rules_ok_def)
  then show ?thesis using assms drop put
    by (auto simp: edit_rule_list_def Let_def split: sum.split)
qed

lemma edit_flags_ok: "nacm_ok n \<Longrightarrow> nacm_ok (edit_flags e n)"
  by (simp add: edit_flags_def nacm_ok_def)

lemma apply_nacm_edit_ok: "nacm_ok n \<Longrightarrow> nacm_ok (fst (apply_nacm_edit e n))"
  unfolding apply_nacm_edit_def
  by (rule and_then_ok [of nacm_ok, OF edit_each_ok [of nacm_ok, OF edit_leaf_ok edit_flags_ok]], assumption+)
    (rule and_then_ok [of nacm_ok, OF edit_each_ok [of nacm_ok, OF edit_group_ok]], assumption+,
     rule edit_each_ok [of nacm_ok, OF edit_rule_list_ok], assumption+)

lemma nacm_check_ok: "nacm_ok n \<Longrightarrow> nacm_ok (snd (nacm_check users u op module path n))"
  by (auto simp: nacm_check_def nacm_ok_def split: option.split)

lemma nacm_default_ok: "nacm_ok nacm_default"
  by (simp add: nacm_ok_def nacm_default_def)

end
