(* ===== verification/NetconfFrames.thy ===== *)
theory NetconfFrames
  imports Cutting
begin

text \<open>
  The framing of NETCONF messages (RFC 6242), \<open>engine/netconf_agent.py\<close>: \<open>frame_chunked\<close>,
  \<open>unframe_chunked\<close> and the message loop of \<open>serve_connection\<close>. A character stands for a byte; the
  conversions between bytes and text are left out. The loop of \<open>unframe_chunked\<close> need not end: it carries
  a fuel of rounds, and \<open>None\<close> says that it goes on.
\<close>

subsection \<open>Slices\<close>

text \<open>An index into a sequence of \<open>n\<close> elements, as slices and \<open>find\<close> read it.\<close>

definition at_index :: "nat \<Rightarrow> int \<Rightarrow> nat" where
  "at_index n i = (if i < 0 then nat (int n + i) else min n (nat i))"

definition slice :: "string \<Rightarrow> int \<Rightarrow> int \<Rightarrow> string" where
  "slice b i j = take (at_index (length b) j - at_index (length b) i) (drop (at_index (length b) i) b)"

definition slice_from :: "string \<Rightarrow> int \<Rightarrow> string" where
  "slice_from b i = drop (at_index (length b) i) b"

fun pos_of :: "char \<Rightarrow> string \<Rightarrow> nat option" where
  "pos_of c [] = None"
| "pos_of c (x # xs) = (if x = c then Some 0 else map_option Suc (pos_of c xs))"

definition find_from :: "char \<Rightarrow> string \<Rightarrow> int \<Rightarrow> int option" where
  "find_from c b i =
     map_option (\<lambda>k. int (at_index (length b) i + k)) (pos_of c (drop (at_index (length b) i) b))"

text \<open>\<open>int(b)\<close> of bytes: as of a string, but the separators 28 to 31 are not white space.\<close>

definition bytes_space :: "char \<Rightarrow> bool" where
  "bytes_space c \<longleftrightarrow> (9 \<le> code_of c \<and> code_of c \<le> 13) \<or> code_of c = 32"

definition bytes_int :: "string \<Rightarrow> int option" where
  "bytes_int b = (if rev (dropWhile bytes_space (rev (dropWhile bytes_space b))) = strip b then py_int b else None)"

subsection \<open>Chunked framing\<close>

definition nl :: char where "nl = CHR 0x0A"

definition frame_chunked :: "string \<Rightarrow> string" where
  "frame_chunked data = [nl, CHR ''#''] @ show_int (int (length data)) @ [nl] @ data @ [nl, CHR ''#'', CHR ''#'', nl]"

fun unframe_from :: "nat \<Rightarrow> string \<Rightarrow> int \<Rightarrow> string \<Rightarrow> (string option \<times> string) option" where
  "unframe_from 0 buf pos out = None"
| "unframe_from (Suc k) buf pos out =
     (if \<not> starts_with (slice_from buf pos) [nl, CHR ''#''] then Some (None, buf)
      else case find_from nl buf (pos + 2) of
             None \<Rightarrow> Some (None, buf)
           | Some n \<Rightarrow>
               let header = slice buf (pos + 2) n
               in if header = ''#'' then Some (Some out, slice_from buf (n + 1))
                  else case bytes_int header of
                         None \<Rightarrow> Some (None, buf)
                       | Some cnt \<Rightarrow>
                           if int (length buf) < n + 1 + cnt then Some (None, buf)
                           else unframe_from k buf (n + 1 + cnt) (out @ slice buf (n + 1) (n + 1 + cnt)))"

definition unframe_chunked :: "nat \<Rightarrow> string \<Rightarrow> (string option \<times> string) option" where
  "unframe_chunked f buf = unframe_from (Suc f) buf 0 []"

subsection \<open>The message loop\<close>

definition eom :: string where "eom = '']]>]]>''"

record 's nc_session =
  ns_dev :: 's
  ns_buf :: string
  ns_hello :: bool
  ns_chunked :: bool
  ns_closed :: bool
  ns_sent :: "string list"

definition session_start :: "'s \<Rightarrow> 's nc_session" where
  "session_start d = \<lparr>ns_dev = d, ns_buf = [], ns_hello = False, ns_chunked = False, ns_closed = False, ns_sent = []\<rparr>"

text \<open>The next message of the buffer, if it is complete.\<close>

definition next_message :: "nat \<Rightarrow> bool \<Rightarrow> string \<Rightarrow> (string \<times> string) option option" where
  "next_message f chunked buf =
     (if chunked then
        (case unframe_chunked f buf of
           None \<Rightarrow> None
         | Some (None, _) \<Rightarrow> Some None
         | Some (Some m, rest) \<Rightarrow> Some (Some (m, rest)))
      else (case cut_at eom buf of (m, Some rest) \<Rightarrow> Some (Some (m, rest)) | (_, None) \<Rightarrow> Some None))"

text \<open>The inner loop, for a handler that may change the device and then answers a message or raises (\<open>None\<close>):
  the client's hello decides the framing; a message that mentions \<open>close-session\<close> is answered and ends the
  session; an exception of the handler ends it without an answer.\<close>

type_synonym 's rpc_handler = "'s \<Rightarrow> string \<Rightarrow> 's \<times> string option"

fun drain :: "nat \<Rightarrow> nat \<Rightarrow> 's rpc_handler \<Rightarrow> 's nc_session \<Rightarrow> 's nc_session option" where
  "drain f 0 h s = None"
| "drain f (Suc k) h s =
     (if \<not> ns_hello s then
        (case cut_at eom (ns_buf s) of
           (_, None) \<Rightarrow> Some s
         | (hello, Some rest) \<Rightarrow>
             drain f k h (s\<lparr>ns_buf := rest, ns_hello := True, ns_chunked := contains ''base:1.1'' hello\<rparr>))
      else case next_message f (ns_chunked s) (ns_buf s) of
             None \<Rightarrow> None
           | Some None \<Rightarrow> Some s
           | Some (Some (m, rest)) \<Rightarrow>
               (case h (ns_dev s) m of
                  (d, None) \<Rightarrow> Some (s\<lparr>ns_dev := d, ns_buf := rest, ns_closed := True\<rparr>)
                | (d, Some reply) \<Rightarrow>
                    let s' = s\<lparr>ns_dev := d, ns_buf := rest,
                               ns_sent := ns_sent s @ [if ns_chunked s then frame_chunked reply else reply @ eom]\<rparr>
                    in if contains ''<close-session'' m then Some (s'\<lparr>ns_closed := True\<rparr>) else drain f k h s'))"

definition receive_data :: "nat \<Rightarrow> nat \<Rightarrow> 's rpc_handler \<Rightarrow> string \<Rightarrow> 's nc_session \<Rightarrow> 's nc_session option" where
  "receive_data f k h data s =
     (if ns_closed s then Some s
      else if data = [] then Some (s\<lparr>ns_closed := True\<rparr>)
      else drain f k h (s\<lparr>ns_buf := ns_buf s @ data\<rparr>))"

definition receive_all :: "nat \<Rightarrow> nat \<Rightarrow> 's rpc_handler \<Rightarrow> string list \<Rightarrow> 's nc_session \<Rightarrow> 's nc_session option" where
  "receive_all f k h = run_all (receive_data f k h)"

subsection \<open>Chunks\<close>

definition chunk_piece :: "string \<Rightarrow> string" where
  "chunk_piece d = [nl, CHR ''#''] @ show_int (int (length d)) @ [nl] @ d"

definition chunk_end :: string where
  "chunk_end = [nl, CHR ''#'', CHR ''#'', nl]"

text \<open>A message that the sender cut into the pieces \<open>ds\<close>.\<close>

definition chunked :: "string list \<Rightarrow> string" where
  "chunked ds = concat (List.map chunk_piece ds) @ chunk_end"

lemma frame_chunked_eq: "frame_chunked data = chunked [data]"
  by (simp add: frame_chunked_def chunked_def chunk_piece_def chunk_end_def)

lemma pos_of_None: "pos_of c xs = None \<longleftrightarrow> c \<notin> set xs"
  by (induction xs) auto

lemma pos_of_append: "c \<notin> set xs \<Longrightarrow> pos_of c (xs @ c # ys) = Some (length xs)"
  by (induction xs) auto

lemma at_index_nat [simp]: "k \<le> n \<Longrightarrow> at_index n (int k) = k"
  by (simp add: at_index_def)

lemma slice_from_parts: "slice_from (pre @ xs) (int (length pre)) = xs"
  by (simp add: slice_from_def)

lemma slice_parts: "slice (pre @ xs @ ys) (int (length pre)) (int (length pre + length xs)) = xs"
  by (simp add: slice_def flip: of_nat_add)

lemma find_from_parts:
  "c \<notin> set xs \<Longrightarrow> find_from c (pre @ xs @ c # ys) (int (length pre)) = Some (int (length pre + length xs))"
  by (simp add: find_from_def pos_of_append)

lemma find_from_absent: "c \<notin> set xs \<Longrightarrow> find_from c (pre @ xs) (int (length pre)) = None"
  by (simp add: find_from_def pos_of_None)

lemma show_len_digits: "c \<in> set (show_int (int n)) \<Longrightarrow> is_digit c"
  using show_nat_digits by (simp add: show_int_def)

lemma nl_not_in_len: "nl \<notin> set (show_int (int n))"
  using show_len_digits [of nl n] by (auto simp: nl_def is_digit_def code_of_def)

lemma len_not_hash: "show_int (int n) \<noteq> ''#''"
  using show_len_digits [of "CHR ''#''" n] by (auto simp: is_digit_def code_of_def)

lemma dropWhile_none: "\<forall>c\<in>set xs. \<not> P c \<Longrightarrow> dropWhile P xs = xs"
  by (cases xs) auto

lemma bytes_int_len: "bytes_int (show_int (int n)) = Some (int n)"
proof -
  let ?s = "show_int (int n)"
  have "\<forall>c\<in>set ?s. \<not> is_space c" "\<forall>c\<in>set ?s. \<not> bytes_space c"
    using show_len_digits by (fastforce simp: is_digit_def is_space_def bytes_space_def)+
  then have "dropWhile is_space ?s = ?s" "dropWhile is_space (rev ?s) = rev ?s"
    "dropWhile bytes_space ?s = ?s" "dropWhile bytes_space (rev ?s) = rev ?s"
    by (simp_all add: dropWhile_none)
  then show ?thesis by (simp add: bytes_int_def strip_def py_int_show_int)
qed

lemma unframe_piece:
  "unframe_from (Suc k) (pre @ chunk_piece d @ rest) (int (length pre)) out =
     unframe_from k (pre @ chunk_piece d @ rest) (int (length (pre @ chunk_piece d))) (out @ d)"
proof -
  let ?L = "show_int (int (length d))"
  let ?p2 = "pre @ [nl, CHR ''#'']"
  let ?b = "pre @ chunk_piece d @ rest"
  have b2: "?b = ?p2 @ ?L @ nl # d @ rest" by (simp add: chunk_piece_def)
  have b3: "?b = (?p2 @ ?L @ [nl]) @ d @ rest" by (simp add: chunk_piece_def)
  have n: "int (length pre) + 2 = int (length ?p2)" by simp
  have f: "find_from nl ?b (int (length ?p2)) = Some (int (length ?p2 + length ?L))"
    unfolding b2 by (rule find_from_parts) (rule nl_not_in_len)
  have h: "slice ?b (int (length ?p2)) (int (length ?p2 + length ?L)) = ?L"
    unfolding b2 by (rule slice_parts)
  have e: "int (length ?p2 + length ?L) + 1 = int (length (?p2 @ ?L @ [nl]))" by simp
  have v: "slice ?b (int (length (?p2 @ ?L @ [nl]))) (int (length (?p2 @ ?L @ [nl]) + length d)) = d"
    unfolding b3 by (rule slice_parts)
  have st: "starts_with (slice_from ?b (int (length pre))) [nl, CHR ''#'']"
    unfolding slice_from_parts by (simp add: chunk_piece_def starts_with_def)
  have len: "length (?p2 @ ?L @ [nl]) + length d = length (pre @ chunk_piece d)" by (simp add: chunk_piece_def)
  have le: "\<not> int (length ?b) < int (length (pre @ chunk_piece d))" by simp
  show ?thesis
    using v unfolding unframe_from.simps n f Let_def option.case h e bytes_int_len of_nat_add [symmetric] len
    by (simp only: st le len_not_hash if_False if_True not_True_eq_False of_nat_add [symmetric] len)
qed

lemma unframe_end:
  "unframe_from (Suc k) (pre @ chunk_end @ rest) (int (length pre)) out = Some (Some out, rest)"
proof -
  let ?p2 = "pre @ [nl, CHR ''#'']"
  let ?b = "pre @ chunk_end @ rest"
  have b2: "?b = ?p2 @ ''#'' @ nl # rest" by (simp add: chunk_end_def)
  have n: "int (length pre) + 2 = int (length ?p2)" by simp
  have "nl \<notin> set ''#''" by (simp add: nl_def)
  then have f: "find_from nl ?b (int (length ?p2)) = Some (int (length ?p2 + length ''#''))"
    unfolding b2 by (rule find_from_parts)
  have h: "slice ?b (int (length ?p2)) (int (length ?p2 + length ''#'')) = ''#''"
    unfolding b2 by (rule slice_parts)
  have st: "starts_with (slice_from ?b (int (length pre))) [nl, CHR ''#'']"
    unfolding slice_from_parts by (simp add: chunk_end_def starts_with_def)
  have e: "int (length ?p2 + length ''#'') + 1 = int (length (pre @ chunk_end))" by (simp add: chunk_end_def)
  have r: "slice_from ?b (int (length (pre @ chunk_end))) = rest"
    using slice_from_parts [of "pre @ chunk_end" rest] by simp
  show ?thesis
    unfolding unframe_from.simps n f Let_def option.case h e r by (simp only: st refl if_True not_True_eq_False if_False)
qed

text \<open>A beginning of a piece is no message and no piece yet.\<close>

lemma unframe_waits:
  assumes "p = [] \<or> p = [nl] \<or> (\<exists>p'. p = [nl, CHR ''#''] @ p' \<and> nl \<notin> set p')"
  shows "unframe_from (Suc k) (pre @ p) (int (length pre)) out = Some (None, pre @ p)"
proof -
  have "find_from nl (pre @ p) (int (length pre) + 2) = None" if "p = [nl, CHR ''#''] @ p'" "nl \<notin> set p'" for p'
    using find_from_absent [of nl p' "pre @ [nl, CHR ''#'']"] that by (simp add: add.commute)
  then show ?thesis using assms by (auto simp: slice_from_parts starts_with_def)
qed

lemma unframe_piece_part:
  assumes "chunk_piece d = p @ q" "q \<noteq> []"
  shows "unframe_from (Suc k) (pre @ p) (int (length pre)) out = Some (None, pre @ p)"
proof (cases "p = [] \<or> p = [nl] \<or> (\<exists>p'. p = [nl, CHR ''#''] @ p' \<and> nl \<notin> set p')")
  case False
  let ?L = "show_int (int (length d))"
  let ?p2 = "pre @ [nl, CHR ''#'']"
  from False assms obtain p' where p: "p = [nl, CHR ''#''] @ p'" "nl \<in> set p'" "?L @ [nl] @ d = p' @ q"
    by (cases p; cases "tl p") (auto simp: chunk_piece_def)
  then obtain d' where d: "p' = ?L @ nl # d'" "d = d' @ q"
    using nl_not_in_len [of "length d"] by (auto simp: append_eq_append_conv2 Cons_eq_append_conv)
  let ?b = "pre @ p"
  have b2: "?b = ?p2 @ ?L @ nl # d'" using p d by simp
  have n: "int (length pre) + 2 = int (length ?p2)" by simp
  have f: "find_from nl ?b (int (length ?p2)) = Some (int (length ?p2 + length ?L))"
    unfolding b2 by (rule find_from_parts) (rule nl_not_in_len)
  have h: "slice ?b (int (length ?p2)) (int (length ?p2 + length ?L)) = ?L"
    unfolding b2 by (rule slice_parts)
  have st: "starts_with (slice_from ?b (int (length pre))) [nl, CHR ''#'']"
    unfolding slice_from_parts using p by (simp add: starts_with_def)
  have "int (length ?b) < int (length ?p2 + length ?L) + 1 + int (length d)"
    unfolding b2 using d assms(2) by simp
  then show ?thesis
    unfolding unframe_from.simps n f Let_def option.case h bytes_int_len
    by (simp only: st len_not_hash if_False if_True not_True_eq_False)
qed (rule unframe_waits)

lemma unframe_end_part:
  assumes "chunk_end = p @ q" "q \<noteq> []"
  shows "unframe_from (Suc k) (pre @ p) (int (length pre)) out = Some (None, pre @ p)"
  using assms by (intro unframe_waits) (auto simp: chunk_end_def nl_def Cons_eq_append_conv)

lemma unframe_whole:
  "length ds < f \<Longrightarrow>
     unframe_from f (pre @ chunked ds @ rest) (int (length pre)) out = Some (Some (out @ concat ds), rest)"
proof (induction ds arbitrary: pre out f)
  case Nil
  then show ?case by (cases f) (simp_all add: chunked_def unframe_end del: unframe_from.simps)
next
  case (Cons d ds)
  then obtain k where k: "f = Suc k" by (cases f) auto
  have "chunked (d # ds) @ rest = chunk_piece d @ chunked ds @ rest" by (simp add: chunked_def)
  then show ?case
    using Cons.IH [of k "pre @ chunk_piece d" "out @ d"] Cons.prems k
    by (simp add: unframe_piece del: unframe_from.simps)
qed

lemma unframe_part:
  "length ds < f \<Longrightarrow> chunked ds = p @ q \<Longrightarrow> q \<noteq> [] \<Longrightarrow>
     unframe_from f (pre @ p) (int (length pre)) out = Some (None, pre @ p)"
proof (induction ds arbitrary: pre p out f)
  case Nil
  then show ?case by (cases f) (simp_all add: chunked_def unframe_end_part del: unframe_from.simps)
next
  case (Cons d ds)
  then obtain k where k: "f = Suc k" by (cases f) auto
  have c: "chunk_piece d @ chunked ds = p @ q" using Cons.prems by (simp add: chunked_def)
  show ?case
  proof (cases "length p < length (chunk_piece d)")
    case True
    with c obtain r where "chunk_piece d = p @ r" "r \<noteq> []" by (auto simp: append_eq_append_conv2)
    then show ?thesis using k unframe_piece_part by (simp del: unframe_from.simps)
  next
    case False
    with c obtain p' where p: "p = chunk_piece d @ p'" "chunked ds = p' @ q"
      by (auto simp: append_eq_append_conv2)
    with Cons.IH [of k p' "pre @ chunk_piece d" "out @ d"] Cons.prems k show ?thesis
      by (simp add: unframe_piece del: unframe_from.simps)
  qed
qed

subsection \<open>Both framings\<close>

definition message_in :: "nat \<Rightarrow> bool \<Rightarrow> string \<Rightarrow> (string \<times> string) option" where
  "message_in f c b = (case next_message f c b of None \<Rightarrow> None | Some r \<Rightarrow> r)"

lemma next_chunked:
  assumes "length ds \<le> f"
  shows "next_message f True (chunked ds @ rest) = Some (Some (concat ds, rest))"
    "chunked ds = p @ q \<Longrightarrow> q \<noteq> [] \<Longrightarrow> next_message f True p = Some None"
  using unframe_whole [of ds "Suc f" "[]" rest "[]"] unframe_part [of ds "Suc f" p q "[]" "[]"] assms
  by (simp_all add: next_message_def unframe_chunked_def del: unframe_from.simps)

text \<open>A handler that always answers, and what a session with it has done after some messages.\<close>

definition answering :: "('s \<Rightarrow> string \<Rightarrow> 's \<times> string) \<Rightarrow> 's rpc_handler" where
  "answering h d m = (case h d m of (d', r) \<Rightarrow> (d', Some r))"

fun answers :: "('s \<Rightarrow> string \<Rightarrow> 's \<times> string) \<Rightarrow> (string \<Rightarrow> string) \<Rightarrow> string list \<Rightarrow> 's \<Rightarrow> 's \<times> string list" where
  "answers h frm [] d = (d, [])"
| "answers h frm (m # ms) d =
     (case h d m of (d', r) \<Rightarrow> (case answers h frm ms d' of (d'', rs) \<Rightarrow> (d'', frm r # rs)))"

definition reply_frame :: "bool \<Rightarrow> string \<Rightarrow> string" where
  "reply_frame c r = (if c then frame_chunked r else r @ eom)"

lemma answers_append:
  "answers h frm (xs @ ys) d =
     (case answers h frm xs d of (d', rs) \<Rightarrow> (case answers h frm ys d' of (d'', rs') \<Rightarrow> (d'', rs @ rs')))"
  by (induction xs arbitrary: d) (auto split: prod.splits)

lemma drain_messages:
  assumes "\<And>x rest. x \<in> set xs \<Longrightarrow> next_message f (ns_chunked s) (enc x @ rest) = Some (Some (val x, rest))"
    "next_message f (ns_chunked s) q = Some None" "\<And>x. x \<in> set xs \<Longrightarrow> \<not> contains ''<close-session'' (val x)"
    "ns_hello s" "ns_buf s = concat (List.map enc xs) @ q" "length xs < k"
    "answers h (reply_frame (ns_chunked s)) (List.map val xs) (ns_dev s) = (d, rs)"
  shows "drain f k (answering h) s = Some (s\<lparr>ns_dev := d, ns_buf := q, ns_sent := ns_sent s @ rs\<rparr>)"
  using assms
proof (induction xs arbitrary: s k d rs)
  case Nil
  then obtain j where "k = Suc j" by (cases k) auto
  with Nil show ?case by simp
next
  case (Cons x xs)
  then obtain j where k: "k = Suc j" by (cases k) auto
  obtain d1 r1 where h: "h (ns_dev s) (val x) = (d1, r1)" by (cases "h (ns_dev s) (val x)")
  obtain d2 rs2 where a: "answers h (reply_frame (ns_chunked s)) (List.map val xs) d1 = (d2, rs2)"
    by (cases "answers h (reply_frame (ns_chunked s)) (List.map val xs) d1")
  let ?s = "s\<lparr>ns_dev := d1, ns_buf := concat (List.map enc xs) @ q,
    ns_sent := ns_sent s @ [reply_frame (ns_chunked s) r1]\<rparr>"
  have "drain f j (answering h) ?s = Some (?s\<lparr>ns_dev := d2, ns_buf := q, ns_sent := ns_sent ?s @ rs2\<rparr>)"
    using Cons.prems k a by (intro Cons.IH) simp_all
  moreover have "drain f k (answering h) s = drain f j (answering h) ?s"
    using Cons.prems k h by (simp add: reply_frame_def answering_def)
  moreover have "d = d2" "rs = reply_frame (ns_chunked s) r1 # rs2" using Cons.prems(7) h a by simp_all
  ultimately show ?case by simp
qed

lemma wait_for_hello:
  assumes "cut_at eom (hello @ eom) = (hello, Some [])" "\<forall>c\<in>set cs. c \<noteq> []"
    "\<not> ns_hello s" "\<not> ns_closed s" "hello @ eom = ns_buf s @ r" "r \<noteq> []" "0 < k"
    "ns_buf s @ concat cs = hello @ eom @ body"
  shows "\<exists>p cs'. body = p @ concat cs' \<and> set cs' \<subseteq> set cs \<and>
    receive_all f k h cs s = (case drain f (k - 1) h (s\<lparr>ns_hello := True, ns_chunked := contains ''base:1.1'' hello,
        ns_buf := p\<rparr>) of None \<Rightarrow> None | Some s' \<Rightarrow> receive_all f k h cs' s')"
  using assms
proof (induction cs arbitrary: s r)
  case Nil
  from Nil.prems(8) have "ns_buf s = (hello @ eom) @ body" by simp
  then have "length (hello @ eom) \<le> length (ns_buf s)" by (simp only: length_append)
  moreover have "length (hello @ eom) = length (ns_buf s) + length r" using Nil.prems(5) by (metis length_append)
  ultimately show ?case using Nil.prems(6) by simp
next
  case (Cons c cs)
  obtain j where k: "k = Suc j" using Cons.prems(7) by (cases k) auto
  have c: "c \<noteq> []" using Cons.prems(2) by simp
  have eq: "(ns_buf s @ c) @ concat cs = (hello @ eom) @ body" using Cons.prems(8) by simp
  show ?case
  proof (cases "length (hello @ eom) \<le> length (ns_buf s @ c)")
    case True
    from longer_prefix [OF eq this]
    obtain p where p: "ns_buf s @ c = (hello @ eom) @ p" "body = p @ concat cs" by blast
    have "cut_at eom (ns_buf s @ c) = (hello, Some p)"
      unfolding p(1) using cut_at_stable [OF Cons.prems(1), of p] by simp
    with Cons.prems(3,4) k c have "receive_data f k h c s =
        drain f j h (s\<lparr>ns_hello := True, ns_chunked := contains ''base:1.1'' hello, ns_buf := p\<rparr>)"
      by (cases s) (simp add: receive_data_def)
    then show ?thesis
      using p(2) k by (intro exI [of _ p] exI [of _ cs]) (auto simp: receive_all_def split: option.split)
  next
    case False
    then have "length (ns_buf s @ c) < length (hello @ eom)" by simp
    from shorter_prefix [OF eq this]
    obtain r' where r': "hello @ eom = (ns_buf s @ c) @ r'" "r' \<noteq> []" by blast
    have "cut_at eom (ns_buf s @ c) \<noteq> (a, Some t)" for a t
      using cut_at_stable [of eom "ns_buf s @ c" a t r'] r' Cons.prems(1) by auto
    then obtain a where "cut_at eom (ns_buf s @ c) = (a, None)"
      by (cases "cut_at eom (ns_buf s @ c)") (metis option.exhaust)
    with Cons.prems(3,4) k c have go: "receive_data f k h c s = Some (s\<lparr>ns_buf := ns_buf s @ c\<rparr>)"
      by (simp add: receive_data_def)
    have "\<exists>p cs'. body = p @ concat cs' \<and> set cs' \<subseteq> set cs \<and>
      receive_all f k h cs (s\<lparr>ns_buf := ns_buf s @ c\<rparr>) =
        (case drain f (k - 1) h ((s\<lparr>ns_buf := ns_buf s @ c\<rparr>)\<lparr>ns_hello := True,
            ns_chunked := contains ''base:1.1'' hello, ns_buf := p\<rparr>) of
           None \<Rightarrow> None | Some s' \<Rightarrow> receive_all f k h cs' s')"
      using Cons.prems r' eq by (intro Cons.IH [of _ r']) simp_all
    then show ?thesis using go by (fastforce simp: receive_all_def)
  qed
qed

locale nc_framing =
  fixes enc :: "'e \<Rightarrow> string"
    and val :: "'e \<Rightarrow> string"
    and ok :: "'e \<Rightarrow> bool"
    and f :: nat
    and mode :: bool
  assumes whole: "ok e \<Longrightarrow> next_message f mode (enc e @ rest) = Some (Some (val e, rest))"
    and part: "ok e \<Longrightarrow> enc e = p @ q \<Longrightarrow> q \<noteq> [] \<Longrightarrow> next_message f mode p = Some None"
    and empty: "next_message f mode [] = Some None"
    and stays_open: "ok e \<Longrightarrow> \<not> contains ''<close-session'' (val e)"

sublocale nc_framing \<subseteq> framing enc val ok "message_in f mode"
  by unfold_locales (simp_all add: message_in_def whole part empty)

context nc_framing
begin

definition talking :: "('s \<Rightarrow> string \<Rightarrow> 's \<times> string) \<Rightarrow> 's \<Rightarrow> string list \<Rightarrow> string \<Rightarrow> 's nc_session \<Rightarrow> bool" where
  "talking h d0 ms b s \<longleftrightarrow> ns_hello s \<and> ns_chunked s = mode \<and> \<not> ns_closed s \<and> ns_buf s = b \<and>
     (ns_dev s, ns_sent s) = answers h (reply_frame mode) ms d0"

lemma stuck_waits: "list_all ok ys \<Longrightarrow> stuck ys q \<Longrightarrow> next_message f mode q = Some None"
  by (cases ys) (auto simp: stuck_def empty part)

lemma drain_step:
  assumes "talking h d0 ms b s" "ns_buf s' = concat (List.map enc xs) @ q" "s' = s\<lparr>ns_buf := ns_buf s'\<rparr>"
    "list_all ok (xs @ ys)" "stuck ys q" "length xs < k"
  shows "\<exists>t. drain f k (answering h) s' = Some t \<and> talking h d0 (ms @ List.map val xs) q t"
proof -
  obtain d rs where a: "answers h (reply_frame mode) (List.map val xs) (ns_dev s) = (d, rs)"
    by (cases "answers h (reply_frame mode) (List.map val xs) (ns_dev s)")
  have m: "ns_hello s'" "ns_chunked s' = mode" "\<not> ns_closed s'" "ns_dev s' = ns_dev s" "ns_sent s' = ns_sent s"
    using assms(1) by (subst assms(3), simp add: talking_def)+
  have "drain f k (answering h) s' = Some (s'\<lparr>ns_dev := d, ns_buf := q, ns_sent := ns_sent s' @ rs\<rparr>)"
    by (rule drain_messages [of xs f s' enc val q k h d rs])
      (use assms m a stuck_waits [of ys q] in \<open>auto simp: list_all_iff whole stays_open\<close>)
  moreover from assms(1) have "answers h (reply_frame mode) ms d0 = (ns_dev s, ns_sent s)"
    by (simp add: talking_def)
  then have "answers h (reply_frame mode) (ms @ List.map val xs) d0 = (d, ns_sent s @ rs)"
    by (simp add: answers_append a)
  ultimately show ?thesis using m by (simp add: talking_def)
qed

lemma session_replies:
  assumes "cut_at eom (hello @ eom) = (hello, Some [])" "contains ''base:1.1'' hello = mode"
    and "\<forall>c\<in>set cs. c \<noteq> []" "concat cs = hello @ eom @ concat (List.map enc es)"
    and "list_all ok es" "length es + 1 < k"
  shows "\<exists>t. receive_all f k (answering h) cs (session_start d0) = Some t \<and> talking h d0 (List.map val es) [] t"
proof -
  have "eom \<noteq> []" by (simp add: eom_def)
  from wait_for_hello [OF assms(1,3), of "session_start d0" "hello @ eom" k "concat (List.map enc es)" f "answering h"]
  obtain p cs' where p: "concat (List.map enc es) = p @ concat cs'" "set cs' \<subseteq> set cs"
    and run: "receive_all f k (answering h) cs (session_start d0) =
      (case drain f (k - 1) (answering h) ((session_start d0)\<lparr>ns_hello := True, ns_chunked := contains ''base:1.1'' hello,
          ns_buf := p\<rparr>) of None \<Rightarrow> None | Some s' \<Rightarrow> receive_all f k (answering h) cs' s')"
    using assms(4,6) \<open>eom \<noteq> []\<close> by (auto simp: session_start_def)
  from split_stream [OF assms(5) p(1)] obtain xs ys q where
    e: "es = xs @ ys" "p = concat (List.map enc xs) @ q" "stuck ys q" "concat (List.map enc ys) = q @ concat cs'"
    by blast
  let ?s = "(session_start d0)\<lparr>ns_hello := True, ns_chunked := mode\<rparr>"
  have "talking h d0 [] [] ?s" by (simp add: talking_def session_start_def)
  moreover have "length xs < k - 1" using e(1) assms(6) by simp
  ultimately obtain s1 where s1: "drain f (k - 1) (answering h) (?s\<lparr>ns_buf := p\<rparr>) = Some s1" "talking h d0 (List.map val xs) q s1"
    using drain_step [of h d0 "[]" "[]" ?s "?s\<lparr>ns_buf := p\<rparr>" xs q ys "k - 1"] e assms(5) by auto
  have "\<exists>t. run_all (receive_data f k (answering h)) cs' s1 = Some t \<and> talking h d0 (List.map val xs @ List.map val ys) [] t"
  proof (rule pieces_do_not_matter [where R = "talking h d0" and n = "length es" and b = q])
    fix ms us vs b c q' u
    assume t: "talking h d0 ms b u" and c: "c \<in> set cs'" and u: "b @ c = concat (List.map enc us) @ q'"
      "list_all ok (us @ vs)" "stuck vs q'" "length us \<le> length es"
    have "c \<noteq> []" using c p(2) assms(3) by auto
    moreover have "\<exists>s'. drain f k (answering h) (u\<lparr>ns_buf := b @ c\<rparr>) = Some s' \<and> talking h d0 (ms @ List.map val us) q' s'"
      using u assms(6) by (intro drain_step [OF t, of _ us q' vs]) simp_all
    ultimately show "\<exists>s'. receive_data f k (answering h) c u = Some s' \<and> talking h d0 (ms @ List.map val us) q' s'"
      using t by (simp add: receive_data_def talking_def)
  qed (use e assms(5) s1(2) in simp_all)
  then show ?thesis using run s1(1) e(1) assms(2) by (auto simp: receive_all_def session_start_def)
qed

end

subsection \<open>Sessions\<close>

definition quiet :: "string \<Rightarrow> bool" where
  "quiet m \<longleftrightarrow> \<not> contains ''<close-session'' m"

lemma next_none: "next_message f True [] = Some None"
  by (simp add: next_message_def unframe_chunked_def slice_from_def starts_with_def)

interpretation chunks: nc_framing chunked concat "\<lambda>ds. length ds \<le> f \<and> quiet (concat ds)" f True for f
  by unfold_locales (auto simp: next_chunked quiet_def next_none)

lemma next_separated: "next_message f False b = Some (case cut_at eom b of (m, Some r) \<Rightarrow> Some (m, r) | (_, None) \<Rightarrow> None)"
  by (auto simp: next_message_def split: prod.split option.split)

interpretation separated: nc_framing "\<lambda>m. m @ eom" "\<lambda>m. m"
  "\<lambda>m. cut_at eom (m @ eom) = (m, Some []) \<and> quiet m" f False for f
proof
  have ne: "eom \<noteq> []" by (simp add: eom_def)
  fix e rest p q :: string
  assume e: "cut_at eom (e @ eom) = (e, Some []) \<and> quiet e"
  show "next_message f False ((e @ eom) @ rest) = Some (Some (e, rest))"
    using framing.nxt_enc [OF separator_framing [OF ne] conjunct1 [OF e]] by (simp only: next_separated)
  show "next_message f False p = Some None" if "e @ eom = p @ q" "q \<noteq> []"
    using framing.nxt_part [OF separator_framing [OF ne] conjunct1 [OF e] that] by (simp only: next_separated)
  show "\<not> contains ''<close-session'' e" using e by (simp add: quiet_def)
next
  show "next_message f False [] = Some None" by (simp add: next_separated eom_def)
qed

text \<open>C31. A session reads exactly what the client sent, wherever the network cuts the stream: for a client
  that announces base:1.1, every message, in however many chunks its sender framed it, is handled once and
  in order by a handler that does not raise, each is answered by one framed reply, and nothing is left over. The loops return: as many rounds
  as there are messages, and per message as many as it has chunks, are enough.\<close>

theorem chunked_session_complete:
  assumes "cut_at eom (hello @ eom) = (hello, Some [])" "contains ''base:1.1'' hello"
    and "\<forall>ds\<in>set msgs. length ds \<le> f \<and> quiet (concat ds)" "length msgs + 1 < k"
    and "\<forall>c\<in>set pieces. c \<noteq> []" "concat pieces = hello @ eom @ concat (List.map chunked msgs)"
  shows "\<exists>t. receive_all f k (answering h) pieces (session_start d0) = Some t \<and> ns_buf t = [] \<and> \<not> ns_closed t \<and>
    (ns_dev t, ns_sent t) = answers h frame_chunked (List.map concat msgs) d0"
proof -
  have "list_all (\<lambda>ds. length ds \<le> f \<and> quiet (concat ds)) msgs" using assms(3) by (simp add: list_all_iff)
  from chunks.session_replies [OF assms(1) _ assms(5,6) this assms(4), of h d0] assms(2)
  show ?thesis by (auto simp: chunks.talking_def reply_frame_def [abs_def])
qed

text \<open>The same for a client that frames its messages by \<open>]]>]]>\<close>, which may not occur in them.\<close>

lemma separated_session_complete:
  assumes "cut_at eom (hello @ eom) = (hello, Some [])" "\<not> contains ''base:1.1'' hello"
    and "\<forall>m\<in>set msgs. cut_at eom (m @ eom) = (m, Some []) \<and> quiet m" "length msgs + 1 < k"
    and "\<forall>c\<in>set pieces. c \<noteq> []" "concat pieces = hello @ eom @ concat (List.map (\<lambda>m. m @ eom) msgs)"
  shows "\<exists>t. receive_all f k (answering h) pieces (session_start d0) = Some t \<and> ns_buf t = [] \<and> \<not> ns_closed t \<and>
    (ns_dev t, ns_sent t) = answers h (\<lambda>r. r @ eom) msgs d0"
proof -
  have "list_all (\<lambda>m. cut_at eom (m @ eom) = (m, Some []) \<and> quiet m) msgs" using assms(3) by (simp add: list_all_iff)
  from separated.session_replies [OF assms(1) _ assms(5,6) this assms(4), of f h d0] assms(2)
  show ?thesis by (auto simp: separated.talking_def reply_frame_def [abs_def])
qed

text \<open>A handler that raises ends the session: what it changed stays, nothing is sent, and what still arrives is
  not read.\<close>

lemma raising_handler_ends:
  assumes "ns_hello s" "next_message f (ns_chunked s) (ns_buf s @ data) = Some (Some (m, rest))"
    and "h (ns_dev s) m = (d, None)" "\<not> ns_closed s" "data \<noteq> []"
  shows "receive_all f (Suc k) h (data # later) s = Some (s\<lparr>ns_dev := d, ns_buf := rest, ns_closed := True\<rparr>)"
proof -
  have closed: "ns_closed t \<Longrightarrow> run_all (receive_data f (Suc k) h) later t = Some t" for t
    by (induction later) (simp_all add: receive_data_def)
  show ?thesis using assms by (simp add: receive_all_def receive_data_def closed)
qed

text \<open>The reader and the writer of chunks agree.\<close>

lemma unframe_frame: "0 < f \<Longrightarrow> unframe_chunked f (frame_chunked data @ rest) = Some (Some data, rest)"
  using unframe_whole [of "[data]" "Suc f" "[]" rest "[]"]
  by (simp add: frame_chunked_eq unframe_chunked_def del: unframe_from.simps)

subsection \<open>A negative length\<close>

text \<open>A chunk that announces a negative length can hold the reader for ever: after \<open>\n#-5\n\<close>, whatever
  follows, the position after the chunk is the position before it, so no number of rounds ends the loop and
  the thread of the session never returns.\<close>

theorem negative_chunk_never_returns:
  "unframe_chunked k (nl # ''#-5'' @ nl # rest) = None"
proof -
  let ?b = "nl # ''#-5'' @ nl # rest"
  have "unframe_from (Suc k) ?b 0 [] = unframe_from k ?b 0 []" for k
  proof -
    have st: "starts_with (slice_from ?b 0) [nl, CHR ''#'']"
      by (simp add: slice_from_def starts_with_def at_index_def)
    have f: "find_from nl ?b (0 + 2) = Some 4"
      by (simp add: find_from_def at_index_def) (simp add: nl_def)
    have h: "slice ?b (0 + 2) 4 = ''-5''" by (simp add: slice_def at_index_def)
    have n: "bytes_int ''-5'' = Some (- 5)" by code_simp
    have v: "slice ?b (4 + 1) 0 = []" by (simp add: slice_def at_index_def)
    have "\<not> int (length ?b) < 0" by simp
    moreover have "''-5'' \<noteq> ''#''" by simp
    moreover have "(4 :: int) + 1 + - 5 = 0" by simp
    ultimately show ?thesis
      unfolding unframe_from.simps f Let_def option.case h n using st v by (simp only: if_False if_True not_True_eq_False append_Nil2)
  qed
  then have "unframe_from k ?b 0 [] = None" for k by (induction k) (simp_all del: unframe_from.simps(2))
  then show ?thesis by (simp only: unframe_chunked_def)
qed

definition demo_stream :: string where
  "demo_stream = ''base:1.1'' @ eom @ concat (List.map chunked [[''ab'', ''c''], [''d'']])"

theorem chunked_session_complete_witness:
  "\<exists>t. receive_all 2 4 (answering (\<lambda>n m. (Suc n, m))) [take 30 demo_stream, drop 30 demo_stream] (session_start 0) = Some t \<and>
     ns_dev t = 2 \<and> ns_sent t = [frame_chunked ''abc'', frame_chunked ''d'']"
proof -
  have 1: "cut_at eom (''base:1.1'' @ eom) = (''base:1.1'', Some [])" "contains ''base:1.1'' ''base:1.1''" by code_simp+
  have 2: "quiet ''abc''" "quiet ''d''" by (simp_all add: quiet_def starts_with_def)
  have len: "30 < length demo_stream" by code_simp
  have "take 30 demo_stream \<noteq> []" "drop 30 demo_stream \<noteq> []" using len by auto
  then have 3: "\<forall>c\<in>set [take 30 demo_stream, drop 30 demo_stream]. c \<noteq> []" by simp
  have 4: "concat [take 30 demo_stream, drop 30 demo_stream] =
      ''base:1.1'' @ eom @ concat (List.map chunked [[''ab'', ''c''], [''d'']])"
    by (simp only: concat.simps append_Nil2 append_take_drop_id) (simp only: demo_stream_def)
  from chunked_session_complete [OF 1 _ _ 3 4, of 2 4 "\<lambda>n m. (Suc n, m)" 0] 2 show ?thesis by auto
qed

end
