(* ===== verification/Netconf.thy ===== *)
theory Netconf
  imports Nacm NetconfFrames
begin

text \<open>
  The NETCONF server, \<open>engine/netconf_agent.py\<close>: the interfaces as \<open>ietf-interfaces\<close> (reading and
  editing) and the handling of an \<open><rpc>\<close>. The XML parser is the standard library's; requests are the trees
  it makes (theory \<open>Nacm\<close>), replies are texts.
\<close>

subsection \<open>Interfaces\<close>

record nif =
  ni_status :: "string option"
  ni_desc :: "string option"
  ni_description :: "string option"
  ni_ip :: "string option"
  ni_prefix :: "int option"

definition iface_enabled :: "nif \<Rightarrow> bool" where
  "iface_enabled i \<longleftrightarrow> (case ni_status i of None \<Rightarrow> True
     | Some s \<Rightarrow> s \<notin> {''down'', ''notconnect'', ''disabled'', ''administratively down''})"

definition prefix_to_mask :: "int \<Rightarrow> string res" where
  "prefix_to_mask p = (if p = 0 then Inr (int_to_ip 0) else res_bind (netmask p) (\<lambda>m. Inr (int_to_ip m)))"

text \<open>\<open>bin(n).count('1')\<close>: the sign is not counted.\<close>

function popcount :: "int \<Rightarrow> int" where
  "popcount n = (if n \<le> 0 then 0 else n mod 2 + popcount (n div 2))"
  by pat_completeness auto
termination by (relation "measure nat") auto

declare popcount.simps [simp del]

definition mask_to_prefix :: "string \<Rightarrow> int" where
  "mask_to_prefix m = (case ints_of (split_on (CHR ''.'') m) of
     None \<Rightarrow> 24 | Some ns \<Rightarrow> sum_list (List.map (\<lambda>n. popcount \<bar>n\<bar>) ns))"

definition description_of :: "nif \<Rightarrow> string" where
  "description_of i = (case ni_desc i of
     Some s \<Rightarrow> if s \<noteq> [] then s else (case ni_description i of None \<Rightarrow> [] | Some t \<Rightarrow> t)
   | None \<Rightarrow> (case ni_description i of None \<Rightarrow> [] | Some t \<Rightarrow> t))"

definition address_of :: "nif \<Rightarrow> string" where
  "address_of i = (case ni_ip i of None \<Rightarrow> [] | Some a \<Rightarrow> a)"

definition prefix_of :: "nif \<Rightarrow> int" where
  "prefix_of i = (case ni_prefix i of None \<Rightarrow> 24 | Some p \<Rightarrow> p)"

subsection \<open>Reading the interfaces\<close>

definition element :: "string \<Rightarrow> string \<Rightarrow> string" where
  "element tag body = ''<'' @ tag @ ''>'' @ body @ ''</'' @ tag @ ''>''"

definition ns_if :: string where "ns_if = ''urn:ietf:params:xml:ns:yang:ietf-interfaces''"
definition ns_ip :: string where "ns_ip = ''urn:ietf:params:xml:ns:yang:ietf-ip''"
definition ns_nc :: string where "ns_nc = ''urn:ietf:params:xml:ns:netconf:base:1.0''"
definition ns_nacm :: string where "ns_nacm = ''urn:ietf:params:xml:ns:yang:ietf-netconf-acm''"

definition quoted :: "string \<Rightarrow> string" where
  "quoted s = [CHR 0x22] @ s @ [CHR 0x22]"

definition true_text :: "bool \<Rightarrow> string" where
  "true_text b = (if b then ''true'' else ''false'')"

definition iface_text :: "iface \<Rightarrow> nif \<Rightarrow> string res" where
  "iface_text nm i =
     res_bind (if address_of i = [] then Inr []
       else res_bind (prefix_to_mask (prefix_of i)) (\<lambda>m.
         Inr (''<ipv4 xmlns='' @ quoted ns_ip @ ''><address>'' @ element ''ip'' (address_of i) @
              element ''netmask'' m @ ''</address></ipv4>''))) (\<lambda>v4.
     Inr (''<interface>'' @ element ''name'' nm @
          ''<type xmlns:ianaift='' @ quoted ''urn:ietf:params:xml:ns:yang:iana-if-type'' @ ''>ianaift:ethernetCsmacd</type>'' @
          element ''enabled'' (true_text (iface_enabled i)) @
          (if description_of i \<noteq> [] then element ''description'' (description_of i) else []) @ v4 @ ''</interface>''))"

definition build_interfaces_xml :: "(iface, nif) dict \<Rightarrow> string res" where
  "build_interfaces_xml ifs = res_bind (res_map (\<lambda>(nm, i). iface_text nm i) ifs) (\<lambda>ts.
     Inr (''<interfaces xmlns='' @ quoted ns_if @ ''>'' @ concat ts @ ''</interfaces>''))"

subsection \<open>Editing the interfaces\<close>

definition edit_fields :: "xml \<Rightarrow> nif \<Rightarrow> nif" where
  "edit_fields x i =
     (let i1 = (case child x ''enabled'' of
                  None \<Rightarrow> i
                | Some en \<Rightarrow> (case x_text en of None \<Rightarrow> i
                   | Some t \<Rightarrow> i\<lparr>ni_status := Some (if lower (strip t) = ''true'' then ''up'' else ''down'')\<rparr>));
          i2 = (case child x ''description'' of None \<Rightarrow> i1 | Some d \<Rightarrow> i1\<lparr>ni_desc := Some (text_of d)\<rparr>)
      in case child x ''ipv4'' of
           None \<Rightarrow> i2
         | Some v4 \<Rightarrow>
             (case child v4 ''address'' of
                None \<Rightarrow> i2
              | Some addr \<Rightarrow>
                  (let i3 = (case full_text addr ''ip'' of None \<Rightarrow> i2 | Some a \<Rightarrow> i2\<lparr>ni_ip := Some a\<rparr>)
                   in case full_text addr ''netmask'' of
                        None \<Rightarrow> i3 | Some m \<Rightarrow> i3\<lparr>ni_prefix := Some (mask_to_prefix m)\<rparr>)))"

definition edit_iface :: "xml \<Rightarrow> (iface, nif) dict \<Rightarrow> (iface, nif) dict \<times> string option" where
  "edit_iface x ifs =
     (let nm = child_text x ''name''
      in if nm = [] then (ifs, Some ''interface name is required'')
         else case dget ifs nm of
                None \<Rightarrow> (ifs, Some (''interface '' @ nm @ '' does not exist''))
              | Some i \<Rightarrow>
                  if op_of x = Some ''delete'' then (dset ifs nm (i\<lparr>ni_ip := Some [], ni_prefix := Some 0\<rparr>), None)
                  else (dset ifs nm (edit_fields x i), None))"

definition apply_edit_config :: "xml \<Rightarrow> (iface, nif) dict \<Rightarrow> (iface, nif) dict \<times> string option" where
  "apply_edit_config cfg ifs =
     (case child cfg ''interfaces'' of
        None \<Rightarrow> (ifs, Some ''only ietf-interfaces is supported by this device'')
      | Some e \<Rightarrow> edit_each edit_iface (children e ''interface'') ifs)"

subsection \<open>Reading the access control\<close>

definition escape_char :: "char \<Rightarrow> string" where
  "escape_char c = (if c = CHR ''&'' then ''&amp;'' else if c = CHR ''<'' then ''&lt;''
     else if c = CHR ''>'' then ''&gt;'' else [c])"

text \<open>The three replacements one after the other: the ampersands first, so those the others bring stay.\<close>

definition xml_escape :: "string \<Rightarrow> string" where
  "xml_escape s = concat (List.map escape_char s)"

definition optional_element :: "string \<Rightarrow> string \<Rightarrow> string" where
  "optional_element tag v = (if v \<noteq> [] then element tag (xml_escape v) else [])"

definition rule_text :: "nacm_rule \<Rightarrow> string" where
  "rule_text r = ''<rule>'' @ element ''name'' (xml_escape (nr_name r)) @
     element ''module-name'' (xml_escape (nr_module r)) @ optional_element ''rpc-name'' (nr_rpc r) @
     optional_element ''path'' (nr_path r) @ element ''access-operations'' (xml_escape (nr_ops r)) @
     element ''action'' (nr_action r) @ optional_element ''comment'' (nr_comment r) @ ''</rule>''"

definition rule_list_text :: "rule_list \<Rightarrow> string" where
  "rule_list_text l = ''<rule-list>'' @ element ''name'' (xml_escape (rl_name l)) @
     concat (List.map (\<lambda>g. element ''group'' (xml_escape g)) (rl_groups l)) @
     concat (List.map rule_text (rl_rules l)) @ ''</rule-list>''"

definition group_text :: "string \<times> string list \<Rightarrow> string" where
  "group_text = (\<lambda>(g, us). ''<group>'' @ element ''name'' (xml_escape g) @
     concat (List.map (\<lambda>u. element ''user-name'' (xml_escape u)) us) @ ''</group>'')"

definition build_nacm_xml :: "nacm \<Rightarrow> string" where
  "build_nacm_xml n = ''<nacm xmlns='' @ quoted ns_nacm @ ''>'' @
     element ''enable-nacm'' (true_text (na_enabled n)) @ element ''read-default'' (na_read n) @
     element ''write-default'' (na_write n) @ element ''exec-default'' (na_exec n) @
     element ''enable-external-groups'' (true_text (na_external n)) @
     element ''denied-operations'' (show_int (int (na_denied n))) @
     element ''denied-data-writes'' (show_int (int (na_denied_writes n))) @
     element ''denied-notifications'' ''0'' @
     (if na_groups n \<noteq> [] then element ''groups'' (concat (List.map group_text (na_groups n))) else []) @
     concat (List.map rule_list_text (na_lists n)) @ ''</nacm>''"

subsection \<open>Requests\<close>

record nc_device =
  nd_ifaces :: "(iface, nif) dict"
  nd_nacm :: "nacm option"
  nd_users :: "local_user list"

definition get_nacm :: "nc_device \<Rightarrow> nacm" where
  "get_nacm d = (case nd_nacm d of None \<Rightarrow> nacm_default | Some n \<Rightarrow> n)"

datatype reply = Done | Data string | Refused string string string | Raised pyerr

definition reply_text :: "string \<Rightarrow> reply \<Rightarrow> string" where
  "reply_text msg_id r =
     ''<rpc-reply xmlns='' @ quoted ns_nc @ '' message-id='' @ quoted msg_id @ ''>'' @
     (case r of
        Done \<Rightarrow> ''<ok/>''
      | Data [] \<Rightarrow> ''<data/>''
      | Data body \<Rightarrow> element ''data'' body
      | Refused typ tag msg \<Rightarrow> element ''rpc-error'' (element ''error-type'' typ @ element ''error-tag'' tag @
          element ''error-severity'' ''error'' @ element ''error-message'' (xml_escape msg))
      | Raised _ \<Rightarrow> []) @ ''</rpc-reply>''"

definition denied :: reply where
  "denied = Refused ''application'' ''access-denied'' ''access denied by NACM''"

definition running_only :: "xml \<Rightarrow> string \<Rightarrow> bool" where
  "running_only e tag \<longleftrightarrow> (case child e tag of None \<Rightarrow> True | Some s \<Rightarrow> child s ''running'' \<noteq> None)"

text \<open>\<open>nacm_check\<close> on the device, whose settings it makes when there are none.\<close>

definition check_on :: "string \<Rightarrow> string \<Rightarrow> string \<Rightarrow> string \<Rightarrow> nc_device \<Rightarrow> bool \<times> nc_device" where
  "check_on user op module path d =
     (case nacm_check (nd_users d) user op module path (get_nacm d) of (b, n) \<Rightarrow> (b, d\<lparr>nd_nacm := Some n\<rparr>))"

definition rpc_get :: "string \<Rightarrow> xml \<Rightarrow> bool \<Rightarrow> nc_device \<Rightarrow> nc_device \<times> reply" where
  "rpc_get user req config d =
     (if config \<and> \<not> running_only req ''source'' then
        (d, Refused ''protocol'' ''operation-not-supported'' ''only the running datastore is supported'')
      else
        let filt = child req ''filter'';
            given = (case filt of None \<Rightarrow> False | Some f \<Rightarrow> x_children f \<noteq> []);
            want = (given \<and> child (the filt) ''nacm'' \<noteq> None)
        in if given \<and> \<not> want \<and> child (the filt) ''interfaces'' = None then (d, Data [])
           else case check_on user ''read'' (if want then ''ietf-netconf-acm'' else ''ietf-interfaces'')
                       (if want then ''/nacm'' else ''/interfaces'') d of
                  (False, d') \<Rightarrow> (d', denied)
                | (True, d') \<Rightarrow>
                    (d', if want then Data (build_nacm_xml (get_nacm d'))
                         else case build_interfaces_xml (nd_ifaces d') of Inl e \<Rightarrow> Raised e | Inr t \<Rightarrow> Data t))"

definition invalid :: "string \<Rightarrow> reply" where
  "invalid msg = Refused ''application'' ''invalid-value'' msg"

text \<open>The third component says whether the callback \<open>on_change\<close> is called.\<close>

definition rpc_edit :: "string \<Rightarrow> xml \<Rightarrow> nc_device \<Rightarrow> nc_device \<times> reply \<times> bool" where
  "rpc_edit user edit d =
     (if \<not> running_only edit ''target'' then
        (d, Refused ''protocol'' ''operation-not-supported'' ''only the running datastore is writable'', False)
      else case child edit ''config'' of
        None \<Rightarrow> (d, Refused ''protocol'' ''missing-element'' ''<config> is required'', False)
      | Some cfg \<Rightarrow>
          (case child cfg ''nacm'' of
             Some e \<Rightarrow>
               (case check_on user ''update'' ''ietf-netconf-acm'' ''/nacm'' d of
                  (False, d') \<Rightarrow> (d', denied, False)
                | (True, d') \<Rightarrow>
                    (case apply_nacm_edit e (get_nacm d') of
                       (n, err) \<Rightarrow> (d'\<lparr>nd_nacm := Some n\<rparr>, case err of None \<Rightarrow> Done | Some m \<Rightarrow> invalid m, False)))
           | None \<Rightarrow>
               (case check_on user ''update'' ''ietf-interfaces'' ''/interfaces'' d of
                  (False, d') \<Rightarrow> (d', denied, False)
                | (True, d') \<Rightarrow>
                    (case apply_edit_config cfg (nd_ifaces d') of
                       (ifs, err) \<Rightarrow> (d'\<lparr>nd_ifaces := ifs\<rparr>,
                          case err of None \<Rightarrow> Done | Some m \<Rightarrow> invalid m, err = None)))))"

definition handle_rpc :: "string \<Rightarrow> xml \<Rightarrow> nc_device \<Rightarrow> nc_device \<times> reply \<times> bool" where
  "handle_rpc user rpc d =
     (if child rpc ''close-session'' \<noteq> None \<or> child rpc ''kill-session'' \<noteq> None then (d, Done, False)
      else case (child rpc ''get-config'', child rpc ''get'') of
        (Some q, _) \<Rightarrow> (case rpc_get user q True d of (d', r) \<Rightarrow> (d', r, False))
      | (None, Some q) \<Rightarrow> (case rpc_get user q False d of (d', r) \<Rightarrow> (d', r, False))
      | (None, None) \<Rightarrow>
          (case child rpc ''edit-config'' of
             Some e \<Rightarrow> rpc_edit user e d
           | None \<Rightarrow> (d, Refused ''protocol'' ''operation-not-supported'' ''unsupported operation'', False)))"

subsection \<open>Who may not write changes nothing\<close>

text \<open>The settings without the counters.\<close>

definition settings :: "nacm \<Rightarrow> nacm" where
  "settings n = n\<lparr>na_denied := 0, na_denied_writes := 0\<rparr>"

lemma settings_fields:
  "settings n = settings n' \<longleftrightarrow> na_enabled n = na_enabled n' \<and> na_external n = na_external n' \<and>
     na_read n = na_read n' \<and> na_write n = na_write n' \<and> na_exec n = na_exec n' \<and>
     na_groups n = na_groups n' \<and> na_lists n = na_lists n'"
  by (cases n; cases n') (auto simp: settings_def)

lemma decide_lists_settings:
  "settings n = settings n' \<Longrightarrow> decide_lists n u op m p ls = decide_lists n' u op m p ls"
  by (induction ls) (auto simp: list_applies_def user_groups_def settings_fields split: option.split)

lemma check_settings:
  assumes "settings n = settings n'"
  shows "fst (nacm_check users u op m p n) = fst (nacm_check users u op m p n')"
proof -
  have "is_recovery n users u = is_recovery n' users u" "default_allows n op = default_allows n' op"
    using assms by (simp_all add: is_recovery_def user_groups_def default_allows_def settings_fields)
  then show ?thesis
    using assms decide_lists_settings [OF assms, of u op m p]
    by (auto simp: nacm_check_def settings_fields split: option.split)
qed

lemma nacm_check_keeps: "settings (snd (nacm_check users u op m p n)) = settings n"
  by (simp add: nacm_check_def settings_fields split: option.split)

definition same_config :: "nc_device \<Rightarrow> nc_device \<Rightarrow> bool" where
  "same_config d d' \<longleftrightarrow> nd_ifaces d' = nd_ifaces d \<and> nd_users d' = nd_users d \<and>
     settings (get_nacm d') = settings (get_nacm d)"

lemma check_on_eq:
  "check_on u op m p d = (fst (nacm_check (nd_users d) u op m p (get_nacm d)),
     d\<lparr>nd_nacm := Some (snd (nacm_check (nd_users d) u op m p (get_nacm d)))\<rparr>)"
  by (simp add: check_on_def split: prod.split)

lemma check_on_same: "same_config d (snd (check_on u op m p d))"
  using nacm_check_keeps [of "nd_users d" u op m p "get_nacm d"]
  by (simp add: same_config_def check_on_eq) (simp add: get_nacm_def)

lemma case_bool_pair: "fst (case r of (False, d') \<Rightarrow> (d', x) | (True, d') \<Rightarrow> (d', f d')) = snd r"
  by (cases r) (simp split: bool.split)

lemma rpc_get_keeps: "same_config d (fst (rpc_get u q c d))"
  using check_on_same by (simp add: rpc_get_def Let_def case_bool_pair) (simp add: same_config_def)

definition may_edit :: "nc_device \<Rightarrow> string \<Rightarrow> bool \<Rightarrow> bool" where
  "may_edit d u acl = fst (nacm_check (nd_users d) u ''update''
     (if acl then ''ietf-netconf-acm'' else ''ietf-interfaces'') (if acl then ''/nacm'' else ''/interfaces'') (get_nacm d))"

lemma rpc_edit_keeps:
  assumes "\<not> may_edit d u True" "\<not> may_edit d u False"
  shows "same_config d (fst (rpc_edit u e d))"
proof -
  obtain d1 where 1: "check_on u ''update'' ''ietf-netconf-acm'' ''/nacm'' d = (False, d1)" "same_config d d1"
    using check_on_same [of d u "''update''" "''ietf-netconf-acm''" "''/nacm''"] assms
    by (simp add: check_on_eq may_edit_def)
  obtain d2 where 2: "check_on u ''update'' ''ietf-interfaces'' ''/interfaces'' d = (False, d2)" "same_config d d2"
    using check_on_same [of d u "''update''" "''ietf-interfaces''" "''/interfaces''"] assms
    by (simp add: check_on_eq may_edit_def)
  have "same_config d d" by (simp add: same_config_def)
  with 1 2 show ?thesis by (simp add: rpc_edit_def split: option.split)
qed

lemma handle_rpc_keeps:
  assumes "\<not> may_edit d u True" "\<not> may_edit d u False"
  shows "same_config d (fst (handle_rpc u x d))"
proof -
  have "same_config d d" by (simp add: same_config_def)
  moreover have "fst (case rpc_get u q c d of (d', r) \<Rightarrow> (d', r, False)) = fst (rpc_get u q c d)" for q c
    by (simp add: split_beta)
  ultimately show ?thesis
    by (cases "child x ''get-config''"; cases "child x ''get''"; cases "child x ''edit-config''")
      (simp_all add: handle_rpc_def rpc_get_keeps rpc_edit_keeps [OF assms])
qed

lemma may_edit_same: "same_config d d' \<Longrightarrow> may_edit d' u acl = may_edit d u acl"
  unfolding may_edit_def same_config_def by (simp only: check_settings [of "get_nacm d'" "get_nacm d"])

text \<open>C30. Requests of users who may not write change nothing: whatever such users send, in whatever order,
  the interfaces, the local users and every setting of the access control are what they were; only the
  counters of refusals move. Reading cannot open a way to writing.\<close>

theorem requests_without_permission:
  assumes "\<forall>(u, x)\<in>set reqs. \<not> may_edit d u True \<and> \<not> may_edit d u False"
  shows "same_config d (fold (\<lambda>(u, x) d. fst (handle_rpc u x d)) reqs d)"
  using assms
proof (induction reqs arbitrary: d)
  case Nil
  show ?case by (simp add: same_config_def)
next
  case (Cons r reqs)
  obtain u x where r: "r = (u, x)" by (cases r)
  have same: "same_config d (fst (handle_rpc u x d))"
    using Cons.prems r by (intro handle_rpc_keeps) auto
  then have "same_config (fst (handle_rpc u x d)) (fold (\<lambda>(u, x) d. fst (handle_rpc u x d)) reqs (fst (handle_rpc u x d)))"
    using Cons.prems by (intro Cons.IH) (auto simp: may_edit_same)
  with same show ?case by (simp add: r same_config_def)
qed

definition demo_device :: nc_device where
  "demo_device = \<lparr>nd_ifaces = [(''Gi1'', \<lparr>ni_status = Some ''up'', ni_desc = None, ni_description = None,
      ni_ip = Some ''10.0.0.1'', ni_prefix = Some 24\<rparr>)], nd_nacm = None, nd_users = []\<rparr>"

definition leaf :: "string \<Rightarrow> string \<Rightarrow> xml" where
  "leaf t v = Elem t [] (Some v) []"

definition node :: "string \<Rightarrow> xml list \<Rightarrow> xml" where
  "node t cs = Elem t [] None cs"

definition open_up :: xml where
  "open_up = node ''rpc'' [node ''edit-config'' [node ''config'' [node ''nacm'' [leaf ''write-default'' ''permit'']]]]"

theorem requests_without_permission_witness:
  "same_config demo_device (fst (handle_rpc ''bob'' open_up demo_device)) \<and>
   \<not> same_config demo_device (fst (handle_rpc ''admin'' open_up demo_device))"
proof
  have "\<not> may_edit demo_device ''bob'' True" "\<not> may_edit demo_device ''bob'' False"
    by (simp_all add: may_edit_def nacm_check_def demo_device_def get_nacm_def nacm_default_def is_recovery_def
      user_groups_def default_allows_def)
  then show "same_config demo_device (fst (handle_rpc ''bob'' open_up demo_device))"
    using requests_without_permission [of "[(''bob'', open_up)]" demo_device] by simp
  show "\<not> same_config demo_device (fst (handle_rpc ''admin'' open_up demo_device))"
    unfolding same_config_def settings_fields by code_simp
qed

subsection \<open>What is read can be written back\<close>

text \<open>The text of an element, and the elements that the text of the interfaces stands for.\<close>

fun render :: "xml \<Rightarrow> string" where
  "render (Elem t as v cs) = ''<'' @ t @ concat (List.map (\<lambda>(k, a). '' '' @ k @ ''='' @ quoted a) as) @ ''>'' @
     (case v of None \<Rightarrow> [] | Some w \<Rightarrow> w) @ concat (List.map render cs) @ ''</'' @ t @ ''>''"

definition v4_tree :: "nif \<Rightarrow> string \<Rightarrow> xml" where
  "v4_tree i m = Elem ''ipv4'' [(''xmlns'', ns_ip)] None [node ''address'' [leaf ''ip'' (address_of i), leaf ''netmask'' m]]"

definition iface_tree :: "iface \<Rightarrow> nif \<Rightarrow> string \<Rightarrow> xml" where
  "iface_tree nm i m = node ''interface'' ([leaf ''name'' nm,
     Elem ''type'' [(''xmlns:ianaift'', ''urn:ietf:params:xml:ns:yang:iana-if-type'')] (Some ''ianaift:ethernetCsmacd'') [],
     leaf ''enabled'' (true_text (iface_enabled i))] @
     (if description_of i \<noteq> [] then [leaf ''description'' (description_of i)] else []) @
     (if address_of i \<noteq> [] then [v4_tree i m] else []))"

definition mask_text :: "nif \<Rightarrow> string" where
  "mask_text i = (case prefix_to_mask (prefix_of i) of Inl _ \<Rightarrow> [] | Inr m \<Rightarrow> m)"

definition interfaces_tree :: "(iface, nif) dict \<Rightarrow> xml" where
  "interfaces_tree ifs = Elem ''interfaces'' [(''xmlns'', ns_if)] None (List.map (\<lambda>(nm, i). iface_tree nm i (mask_text i)) ifs)"

lemma iface_text_render: "iface_text nm i = Inr t \<Longrightarrow> t = render (iface_tree nm i (mask_text i))"
  by (auto simp: iface_text_def iface_tree_def v4_tree_def mask_text_def node_def leaf_def element_def res_bind_Inr
      split: if_splits)

lemma iface_texts_render:
  "res_map (\<lambda>(nm, i). iface_text nm i) ifs = Inr ts \<Longrightarrow>
     concat ts = concat (List.map (\<lambda>(nm, i). render (iface_tree nm i (mask_text i))) ifs)"
proof (induction ifs arbitrary: ts)
  case (Cons x ifs)
  obtain nm i where x: "x = (nm, i)" by (cases x)
  with Cons.prems obtain t us where "iface_text nm i = Inr t" "ts = t # us"
    "res_map (\<lambda>(nm, i). iface_text nm i) ifs = Inr us" by (auto simp: res_bind_Inr)
  with Cons.IH x show ?case by (simp add: iface_text_render)
qed simp

text \<open>The printed text is the text of that tree.\<close>

lemma printed_tree: "build_interfaces_xml ifs = Inr t \<Longrightarrow> t = render (interfaces_tree ifs)"
  by (auto simp: build_interfaces_xml_def interfaces_tree_def res_bind_Inr iface_texts_render comp_def split_def)

definition clean :: "string \<Rightarrow> bool" where
  "clean s \<longleftrightarrow> strip s = s"

definition plain_iface :: "iface \<times> nif \<Rightarrow> bool" where
  "plain_iface = (\<lambda>(nm, i). nm \<noteq> [] \<and> clean nm \<and> clean (description_of i) \<and> clean (address_of i) \<and>
     0 \<le> prefix_of i \<and> prefix_of i \<le> 32)"

lemma mask_round_trip:
  assumes "0 \<le> p" "p \<le> 32"
  shows "\<exists>m. prefix_to_mask p = Inr m \<and> mask_to_prefix m = p \<and> m \<noteq> [] \<and> clean m"
proof -
  have "\<forall>p\<in>set [0..32]. (case prefix_to_mask p of Inl _ \<Rightarrow> False
      | Inr m \<Rightarrow> mask_to_prefix m = p \<and> m \<noteq> [] \<and> strip m = m)"
    by code_simp
  with assms have "case prefix_to_mask p of Inl _ \<Rightarrow> False
      | Inr m \<Rightarrow> mask_to_prefix m = p \<and> m \<noteq> [] \<and> strip m = m" by simp
  then show ?thesis by (auto simp: clean_def split: sum.splits)
qed

lemma strip_flags: "strip (true_text b) = true_text b" "lower (true_text b) = ''true'' \<longleftrightarrow> b"
proof -
  have "strip ''true'' = ''true''" "strip ''false'' = ''false''" "lower ''true'' = ''true''" "lower ''false'' \<noteq> ''true''"
    by code_simp+
  then show "strip (true_text b) = true_text b" "lower (true_text b) = ''true'' \<longleftrightarrow> b"
    by (simp_all add: true_text_def)
qed

definition same_view :: "nif \<Rightarrow> nif \<Rightarrow> bool" where
  "same_view i j \<longleftrightarrow> iface_enabled i = iface_enabled j \<and> description_of i = description_of j \<and>
     address_of i = address_of j \<and> (address_of i \<noteq> [] \<longrightarrow> prefix_of i = prefix_of j)"

lemma view_updates [simp]:
  "iface_enabled (i\<lparr>ni_desc := x\<rparr>) = iface_enabled i" "iface_enabled (i\<lparr>ni_ip := x\<rparr>) = iface_enabled i"
  "iface_enabled (i\<lparr>ni_prefix := y\<rparr>) = iface_enabled i" "description_of (i\<lparr>ni_status := x\<rparr>) = description_of i"
  "description_of (i\<lparr>ni_ip := x\<rparr>) = description_of i" "description_of (i\<lparr>ni_prefix := y\<rparr>) = description_of i"
  "address_of (i\<lparr>ni_status := x\<rparr>) = address_of i" "address_of (i\<lparr>ni_desc := x\<rparr>) = address_of i"
  "address_of (i\<lparr>ni_prefix := y\<rparr>) = address_of i" "prefix_of (i\<lparr>ni_status := x\<rparr>) = prefix_of i"
  "prefix_of (i\<lparr>ni_desc := x\<rparr>) = prefix_of i" "prefix_of (i\<lparr>ni_ip := x\<rparr>) = prefix_of i"
  "address_of (i\<lparr>ni_ip := Some a\<rparr>) = a" "prefix_of (i\<lparr>ni_prefix := Some p\<rparr>) = p"
  "a \<noteq> [] \<Longrightarrow> description_of (i\<lparr>ni_desc := Some a\<rparr>) = a"
  "iface_enabled (i\<lparr>ni_status := Some ''up''\<rparr>)" "\<not> iface_enabled (i\<lparr>ni_status := Some ''down''\<rparr>)"
  by (simp_all add: iface_enabled_def description_of_def address_of_def prefix_of_def split: option.split)

lemma edit_fields_tree:
  assumes "plain_iface (nm, i)"
  shows "same_view (edit_fields (iface_tree nm i (mask_text i)) i) i"
proof -
  obtain m where m: "prefix_to_mask (prefix_of i) = Inr m" "mask_to_prefix m = prefix_of i" "m \<noteq> []" "clean m"
    using mask_round_trip [of "prefix_of i"] assms by (auto simp: plain_iface_def)
  have flags: "child (iface_tree nm i m) ''enabled'' = Some (leaf ''enabled'' (true_text (iface_enabled i)))"
    "child (iface_tree nm i m) ''description'' =
       (if description_of i \<noteq> [] then Some (leaf ''description'' (description_of i)) else None)"
    "child (iface_tree nm i m) ''ipv4'' = (if address_of i \<noteq> [] then Some (v4_tree i m) else None)"
    by (simp_all add: child_def iface_tree_def node_def leaf_def v4_tree_def)
  have addr: "child (v4_tree i m) ''address'' = Some (node ''address'' [leaf ''ip'' (address_of i), leaf ''netmask'' m])"
    by (simp add: child_def v4_tree_def node_def)
  have texts: "full_text (node ''address'' [leaf ''ip'' a, leaf ''netmask'' m]) ''ip'' = (if a = [] then None else Some (strip a))"
    "full_text (node ''address'' [leaf ''ip'' a, leaf ''netmask'' m]) ''netmask'' = Some m" for a
    using m(3,4) by (simp_all add: full_text_def child_def node_def leaf_def clean_def)
  have desc: "text_of (leaf ''description'' (description_of i)) = description_of i"
    "x_text (leaf ''enabled'' v) = Some v" for v
    using assms by (simp_all add: text_of_def leaf_def plain_iface_def clean_def)
  have "strip (address_of i) = address_of i" using assms by (simp add: plain_iface_def clean_def)
  then show ?thesis
    using m(2) assms
    by (simp add: mask_text_def m(1) edit_fields_def flags addr texts desc Let_def strip_flags same_view_def)
qed

lemma edit_iface_tree:
  assumes "plain_iface (nm, i)" "dget ifs nm = Some i"
  shows "edit_iface (iface_tree nm i m) ifs = (dset ifs nm (edit_fields (iface_tree nm i m) i), None)"
proof -
  have "child_text (iface_tree nm i m) ''name'' = nm" "op_of (iface_tree nm i m) = None"
    using assms(1) by (simp_all add: child_text_def child_def iface_tree_def node_def leaf_def text_of_def
      plain_iface_def clean_def op_of_def)
  then show ?thesis using assms by (simp add: edit_iface_def Let_def plain_iface_def)
qed

lemma edit_all_trees:
  "list_all plain_iface xs \<Longrightarrow> distinct (List.map fst xs) \<Longrightarrow> \<forall>(nm, i)\<in>set xs. dget ifs nm = Some i \<Longrightarrow>
     \<exists>ifs'. edit_each edit_iface (List.map (\<lambda>(nm, i). iface_tree nm i (mask_text i)) xs) ifs = (ifs', None) \<and>
       dkeys ifs' = dkeys ifs \<and> (\<forall>nm. nm \<notin> fst ` set xs \<longrightarrow> dget ifs' nm = dget ifs nm) \<and>
       (\<forall>(nm, i)\<in>set xs. \<exists>j. dget ifs' nm = Some j \<and> same_view j i)"
proof (induction xs arbitrary: ifs)
  case (Cons x xs)
  obtain nm i where x: "x = (nm, i)" by (cases x)
  let ?j = "edit_fields (iface_tree nm i (mask_text i)) i"
  have p: "plain_iface (nm, i)" "dget ifs nm = Some i" using Cons.prems x by simp_all
  have fresh: "nm \<notin> fst ` set xs" using Cons.prems(2) x by auto
  have "\<forall>(n, k)\<in>set xs. dget (dset ifs nm ?j) n = Some k" using Cons.prems(3) fresh x by (auto simp: rev_image_eqI)
  with Cons.IH [of "dset ifs nm ?j"] Cons.prems x obtain ifs' where
    i: "edit_each edit_iface (List.map (\<lambda>(nm, i). iface_tree nm i (mask_text i)) xs) (dset ifs nm ?j) = (ifs', None)"
      "dkeys ifs' = dkeys (dset ifs nm ?j)" "\<forall>n. n \<notin> fst ` set xs \<longrightarrow> dget ifs' n = dget (dset ifs nm ?j) n"
      "\<forall>(n, k)\<in>set xs. \<exists>j. dget ifs' n = Some j \<and> same_view j k" by auto
  have "dget ifs' nm = Some ?j" using i(3) fresh by simp
  moreover have "edit_iface (iface_tree nm i (mask_text i)) ifs = (dset ifs nm ?j, None)"
    by (rule edit_iface_tree) (rule p)+
  ultimately show ?case
    using i edit_fields_tree [OF p(1)] dkeys_dset_there [OF p(2), of ?j] x by (simp add: and_then_def)
qed simp

text \<open>What the server prints of the interfaces can be sent back to it: the printed text is the text of an
  element tree, and an edit with that tree succeeds and leaves every interface as a reader sees it (enabled,
  description, address and prefix; the precise status of an interface becomes up or down).\<close>

theorem interfaces_read_back:
  assumes "dict_ok ifs" "list_all plain_iface ifs"
  shows "\<exists>txt ifs'. build_interfaces_xml ifs = Inr txt \<and> txt = render (interfaces_tree ifs) \<and>
    apply_edit_config (node ''config'' [interfaces_tree ifs]) ifs = (ifs', None) \<and> dkeys ifs' = dkeys ifs \<and>
    list_all (\<lambda>nm. same_view (the (dget ifs' nm)) (the (dget ifs nm))) (dkeys ifs)"
proof -
  have here: "dget ifs nm = Some i" if "(nm, i) \<in> set ifs" for nm i
    using dget_in_set [OF assms(1) that] .
  with edit_all_trees [OF assms(2), of ifs] assms(1) obtain ifs' where
    e: "edit_each edit_iface (List.map (\<lambda>(nm, i). iface_tree nm i (mask_text i)) ifs) ifs = (ifs', None)"
      "dkeys ifs' = dkeys ifs" "\<forall>(nm, i)\<in>set ifs. \<exists>j. dget ifs' nm = Some j \<and> same_view j i"
    by (auto simp: dict_ok_def)
  have "list_all (\<lambda>nm. same_view (the (dget ifs' nm)) (the (dget ifs nm))) (dkeys ifs)"
    using e(3) here by (fastforce simp: list_all_iff dkeys_def)
  moreover have "apply_edit_config (node ''config'' [interfaces_tree ifs]) ifs = (ifs', None)"
    using e(1) by (simp add: apply_edit_config_def child_def node_def interfaces_tree_def children_def
      filter_map comp_def split_def iface_tree_def)
  moreover have "\<exists>t. iface_text nm i = Inr t" if "(nm, i) \<in> set ifs" for nm i
  proof -
    have "plain_iface (nm, i)" using assms(2) that by (auto simp: list_all_iff)
    then show ?thesis using mask_round_trip [of "prefix_of i"] by (auto simp: iface_text_def plain_iface_def)
  qed
  then have "\<exists>ts. res_map (\<lambda>(nm, i). iface_text nm i) ifs = Inr ts"
    by (induction ifs) fastforce+
  then obtain t where "build_interfaces_xml ifs = Inr t" by (auto simp: build_interfaces_xml_def)
  ultimately show ?thesis using e(2) printed_tree by blast
qed

theorem interfaces_read_back_witness:
  "\<exists>ifs'. apply_edit_config (node ''config'' [interfaces_tree (nd_ifaces demo_device)]) (nd_ifaces demo_device) = (ifs', None) \<and>
     dkeys ifs' = [''Gi1'']"
proof -
  have "strip ''Gi1'' = ''Gi1''" "strip [] = []" "strip ''10.0.0.1'' = ''10.0.0.1''" by code_simp+
  then have "list_all plain_iface (nd_ifaces demo_device)" "dict_ok (nd_ifaces demo_device)"
    by (simp_all add: demo_device_def plain_iface_def clean_def description_of_def address_of_def prefix_of_def dict_ok_def)
  moreover have "dkeys (nd_ifaces demo_device) = [''Gi1'']" by (simp add: demo_device_def dkeys_def)
  ultimately show ?thesis using interfaces_read_back [of "nd_ifaces demo_device"] by auto
qed

subsection \<open>Edits are not atomic\<close>

text \<open>An edit that is answered with an error has changed what stands before the mistake: the first interface
  has its new address, although the client is told that the edit was refused.\<close>

lemma refused_edit_changes:
  "apply_edit_config (node ''config'' [node ''interfaces''
      [node ''interface'' [leaf ''name'' ''Gi1'', node ''ipv4'' [node ''address'' [leaf ''ip'' ''10.9.9.9'']]],
       node ''interface'' [leaf ''name'' ''Gi9'']]]) (nd_ifaces demo_device) =
     (dset (nd_ifaces demo_device) ''Gi1'' ((the (dget (nd_ifaces demo_device) ''Gi1''))\<lparr>ni_ip := Some ''10.9.9.9''\<rparr>),
      Some ''interface Gi9 does not exist'')"
  by code_simp

end
