(* ===== verification/Programmability.thy ===== *)
theory Programmability
  imports Complex_Main NetData Machine "HOL-Library.Sublist" "HOL-Library.Multiset"
begin

text \<open>
  \<open>engine/programmability.py\<close>: applets of the embedded event manager (\<open>EemEngine\<close>), the life cycle of
  hosted applications (\<open>AppHostingEngine\<close>) and the OpenFlow configuration (\<open>OpenflowEngine\<close>). What a
  command does to the device is a parameter (the rule engine), and so is the search of a regular
  expression. The display commands are left out.
\<close>

subsection \<open>\<open>float(s)\<close>\<close>

text \<open>Decimal notation with an optional fraction and exponent, read exactly; \<open>inf\<close> and \<open>nan\<close> are outside
  the model, as is the rounding of more than fifteen digits.\<close>

definition some_digits :: "string \<Rightarrow> (int \<times> nat) option" where
  "some_digits s = (if s = [] then Some (0, 0) else map_option (\<lambda>v. (v, length (filter is_digit s))) (digits_val 0 False s))"

definition read_decimal :: "string \<Rightarrow> rat option" where
  "read_decimal s =
     (let a = takeWhile (\<lambda>c. c \<noteq> CHR ''.'') s; b = drop (Suc (length a)) s
      in if filter is_digit s = [] then None
         else case (some_digits a, some_digits b) of
                (Some (x, _), Some (y, k)) \<Rightarrow> Some (of_int x + of_int y / 10 ^ k)
              | _ \<Rightarrow> None)"

definition scale :: "rat \<Rightarrow> int \<Rightarrow> rat" where
  "scale x e = (if 0 \<le> e then x * 10 ^ nat e else x / 10 ^ nat (- e))"

definition read_unsigned :: "string \<Rightarrow> rat option" where
  "read_unsigned s =
     (let a = takeWhile (\<lambda>c. c \<noteq> CHR ''e'') (lower s)
      in if length a = length s then read_decimal s
         else case (read_decimal (take (length a) s), py_int (drop (Suc (length a)) s)) of
                (Some x, Some e) \<Rightarrow> if strip (drop (Suc (length a)) s) = drop (Suc (length a)) s then Some (scale x e) else None
              | _ \<Rightarrow> None)"

definition py_float :: "string \<Rightarrow> rat option" where
  "py_float s = (case strip s of
       [] \<Rightarrow> None
     | c # cs \<Rightarrow> if c = CHR ''-'' then map_option uminus (read_unsigned cs)
                else if c = CHR ''+'' then read_unsigned cs else read_unsigned (c # cs))"

definition seq_key :: "string \<Rightarrow> rat" where
  "seq_key s = (case py_float s of None \<Rightarrow> 0 | Some x \<Rightarrow> x)"

subsection \<open>Applets\<close>

datatype event_spec = EvNone | EvSyslog string | EvCli string bool | EvTimer int

fun event_type :: "event_spec \<Rightarrow> string" where
  "event_type EvNone = ''none''"
| "event_type (EvSyslog p) = ''syslog''"
| "event_type (EvCli p y) = ''cli''"
| "event_type (EvTimer t) = ''timer''"

datatype action_kind = Syslog | Puts | Cli

record action =
  ac_seq :: string
  ac_kind :: action_kind
  ac_arg :: string

record applet =
  ap_events :: "event_spec list"
  ap_actions :: "action list"
  ap_bypass :: bool
  ap_hits :: nat

record eem =
  ee_applets :: "dev \<Rightarrow> (string, applet) dict"
  ee_policies :: "dev \<Rightarrow> (string, string \<times> string) dict"
  ee_history :: "dev \<Rightarrow> (rat \<times> string \<times> string) list"

definition eem_init :: eem where
  "eem_init = \<lparr>ee_applets = (\<lambda>_. []), ee_policies = (\<lambda>_. []), ee_history = (\<lambda>_. [])\<rparr>"

definition upd_applets :: "dev \<Rightarrow> ((string, applet) dict \<Rightarrow> (string, applet) dict) \<Rightarrow> eem \<Rightarrow> eem" where
  "upd_applets d f s = s\<lparr>ee_applets := (ee_applets s)(d := f (ee_applets s d))\<rparr>"

definition add_applet :: "dev \<Rightarrow> string \<Rightarrow> bool \<Rightarrow> eem \<Rightarrow> eem" where
  "add_applet d nm bypass = upd_applets d (\<lambda>as.
     let a = (case dget as nm of
                None \<Rightarrow> \<lparr>ap_events = [], ap_actions = [], ap_bypass = bypass, ap_hits = 0\<rparr>
              | Some a \<Rightarrow> a)
     in dset as nm (if bypass then a\<lparr>ap_bypass := True\<rparr> else a))"

definition remove_applet :: "dev \<Rightarrow> string \<Rightarrow> eem \<Rightarrow> eem \<times> bool" where
  "remove_applet d nm s = (upd_applets d (\<lambda>as. dpop as nm) s, dget (ee_applets s d) nm \<noteq> None)"

definition change_applet :: "dev \<Rightarrow> string \<Rightarrow> (applet \<Rightarrow> applet) \<Rightarrow> eem \<Rightarrow> eem \<times> bool" where
  "change_applet d nm f s =
     (case dget (ee_applets s d) nm of
        None \<Rightarrow> (s, False)
      | Some a \<Rightarrow> (upd_applets d (\<lambda>as. dset as nm (f a)) s, True))"

definition put_event :: "event_spec \<Rightarrow> applet \<Rightarrow> applet" where
  "put_event ev a = a\<lparr>ap_events := filter (\<lambda>e. event_type e \<noteq> event_type ev) (ap_events a) @ [ev]\<rparr>"

definition add_event :: "dev \<Rightarrow> string \<Rightarrow> event_spec \<Rightarrow> eem \<Rightarrow> eem \<times> bool" where
  "add_event d nm ev = change_applet d nm (put_event ev)"

definition action_key :: "action \<Rightarrow> rat" where
  "action_key a = seq_key (ac_seq a)"

definition put_action :: "action \<Rightarrow> applet \<Rightarrow> applet" where
  "put_action x a = a\<lparr>ap_actions :=
     sort_key action_key (filter (\<lambda>y. ac_seq y \<noteq> ac_seq x) (ap_actions a) @ [x])\<rparr>"

definition add_action :: "dev \<Rightarrow> string \<Rightarrow> action \<Rightarrow> eem \<Rightarrow> eem \<times> bool" where
  "add_action d nm x = change_applet d nm (put_action x)"

definition ends_with :: "string \<Rightarrow> string \<Rightarrow> bool" where
  "ends_with s p \<longleftrightarrow> starts_with (rev s) (rev p)"

definition register_policy :: "dev \<Rightarrow> string \<Rightarrow> string \<Rightarrow> eem \<Rightarrow> eem" where
  "register_policy d file ptype s = s\<lparr>ee_policies := (ee_policies s)(d := dset (ee_policies s d) file
     (ptype, if ends_with file ''.tcl'' then ''applet'' else ''script''))\<rparr>"

definition unregister_policy :: "dev \<Rightarrow> string \<Rightarrow> eem \<Rightarrow> eem \<times> bool" where
  "unregister_policy d file s =
     (s\<lparr>ee_policies := (ee_policies s)(d := dpop (ee_policies s d) file)\<rparr>, dget (ee_policies s d) file \<noteq> None)"

text \<open>The loop over the actions: \<open>exec\<close> is the rule engine, whose answer is shown when it is not empty.\<close>

fun run_actions :: "(string \<Rightarrow> 'd \<Rightarrow> 'd \<times> string) \<Rightarrow> string \<Rightarrow> action list \<Rightarrow> 'd \<Rightarrow> 'd \<times> string list" where
  "run_actions exec nm [] st = (st, [])"
| "run_actions exec nm (a # as) st =
     (case ac_kind a of
        Syslog \<Rightarrow> (case run_actions exec nm as st of (st', out) \<Rightarrow> (st', (''%HA_EM-6-LOG: '' @ nm @ '': '' @ ac_arg a) # out))
      | Puts \<Rightarrow> (case run_actions exec nm as st of (st', out) \<Rightarrow> (st', ac_arg a # out))
      | Cli \<Rightarrow> (case exec (ac_arg a) st of (st1, r) \<Rightarrow>
          (case run_actions exec nm as st1 of (st', out) \<Rightarrow> (st', if r \<noteq> [] then r # out else out))))"

definition log_run :: "dev \<Rightarrow> rat \<Rightarrow> string \<Rightarrow> string \<Rightarrow> eem \<Rightarrow> eem" where
  "log_run d now nm ev s = s\<lparr>ee_history := (ee_history s)(d := ee_history s d @ [(now, nm, ev)])\<rparr>"

definition hit :: "dev \<Rightarrow> string \<Rightarrow> eem \<Rightarrow> eem" where
  "hit d nm s = fst (change_applet d nm (\<lambda>a. a\<lparr>ap_hits := ap_hits a + 1\<rparr>) s)"

definition run_applet ::
  "(string \<Rightarrow> 'd \<Rightarrow> 'd \<times> string) \<Rightarrow> rat \<Rightarrow> dev \<Rightarrow> string \<Rightarrow> eem \<Rightarrow> 'd \<Rightarrow> eem \<times> 'd \<times> string list \<times> bool" where
  "run_applet exec now d nm s st =
     (case dget (ee_applets s d) nm of
        None \<Rightarrow> (s, st, [''% Applet '' @ nm @ '' is not registered''], False)
      | Some a \<Rightarrow>
          if \<not> (\<exists>e\<in>set (ap_events a). event_type e = ''none'') then
            (s, st, [''% Applet '' @ nm @ '' does not have a \"none\" event detector. Only applets registered with \"event none\" can be run manually.''], False)
          else case run_actions exec nm (ap_actions a) st of
                 (st', out) \<Rightarrow> (log_run d now nm ''none'' (hit d nm s), st', out, True))"

text \<open>\<open>notify_syslog\<close>: the first event of an applet that matches starts it; a pattern that is no regular
  expression (\<open>None\<close>) is passed over.\<close>

fun matching_event :: "(string \<Rightarrow> string \<Rightarrow> bool option) \<Rightarrow> string \<Rightarrow> event_spec list \<Rightarrow> bool" where
  "matching_event re msg [] = False"
| "matching_event re msg (e # es) =
     (case e of
        EvSyslog p \<Rightarrow> (re p msg = Some True) \<or> matching_event re msg es
      | _ \<Rightarrow> matching_event re msg es)"

definition run_cli :: "(string \<Rightarrow> 'd \<Rightarrow> 'd \<times> string) \<Rightarrow> action list \<Rightarrow> 'd \<Rightarrow> 'd" where
  "run_cli exec as st = fold (\<lambda>a st. if ac_kind a = Cli then fst (exec (ac_arg a) st) else st) as st"

fun notify_each ::
  "(string \<Rightarrow> string \<Rightarrow> bool option) \<Rightarrow> (string \<Rightarrow> 'd \<Rightarrow> 'd \<times> string) \<Rightarrow> rat \<Rightarrow> dev \<Rightarrow> string \<Rightarrow>
     (string \<times> applet) list \<Rightarrow> eem \<Rightarrow> 'd \<Rightarrow> eem \<times> 'd \<times> string list"
where
  "notify_each re exec now d msg [] s st = (s, st, [])"
| "notify_each re exec now d msg ((nm, a) # as) s st =
     (if matching_event re msg (ap_events a) then
        (case notify_each re exec now d msg as (log_run d now nm ''syslog'' (hit d nm s)) (run_cli exec (ap_actions a) st) of
           (s', st', fired) \<Rightarrow> (s', st', nm # fired))
      else notify_each re exec now d msg as s st)"

definition notify_syslog ::
  "(string \<Rightarrow> string \<Rightarrow> bool option) \<Rightarrow> (string \<Rightarrow> 'd \<Rightarrow> 'd \<times> string) \<Rightarrow> rat \<Rightarrow> dev \<Rightarrow> string \<Rightarrow> eem \<Rightarrow> 'd \<Rightarrow> eem \<times> 'd \<times> string list" where
  "notify_syslog re exec now d msg s st = notify_each re exec now d msg (ee_applets s d) s st"

subsection \<open>Hosted applications\<close>

datatype app_state = DEPLOYED | ACTIVATED | RUNNING

record app =
  ah_state :: "app_state option"
  ah_path :: string

record app_host =
  ah_apps :: "dev \<Rightarrow> (string, app) dict"
  ah_iox :: "dev \<Rightarrow> bool"

definition app_host_init :: app_host where
  "app_host_init = \<lparr>ah_apps = (\<lambda>_. []), ah_iox = (\<lambda>_. False)\<rparr>"

definition upd_app :: "dev \<Rightarrow> string \<Rightarrow> app \<Rightarrow> app_host \<Rightarrow> app_host" where
  "upd_app d i a s = s\<lparr>ah_apps := (ah_apps s)(d := dset (ah_apps s d) i a)\<rparr>"

definition set_iox :: "dev \<Rightarrow> bool \<Rightarrow> app_host \<Rightarrow> app_host" where
  "set_iox d b s = s\<lparr>ah_iox := (ah_iox s)(d := b)\<rparr>"

definition app_of :: "app_host \<Rightarrow> dev \<Rightarrow> string \<Rightarrow> app" where
  "app_of s d i = (case dget (ah_apps s d) i of Some a \<Rightarrow> a | None \<Rightarrow> \<lparr>ah_state = None, ah_path = []\<rparr>)"

definition config_app :: "dev \<Rightarrow> string \<Rightarrow> app_host \<Rightarrow> app_host" where
  "config_app d i s = upd_app d i (app_of s d i) s"

definition remove_app :: "dev \<Rightarrow> string \<Rightarrow> app_host \<Rightarrow> app_host \<times> bool" where
  "remove_app d i s = (s\<lparr>ah_apps := (ah_apps s)(d := dpop (ah_apps s d) i)\<rparr>, dget (ah_apps s d) i \<noteq> None)"

definition install :: "dev \<Rightarrow> string \<Rightarrow> string \<Rightarrow> app_host \<Rightarrow> app_host \<times> bool" where
  "install d i package s =
     (if \<not> ah_iox s d then (s, False)
      else let s1 = config_app d i s; a = app_of s1 d i
           in if ah_state a \<noteq> None then (s1, False)
              else (upd_app d i (a\<lparr>ah_state := Some DEPLOYED, ah_path := package\<rparr>) s1, True))"

text \<open>A step that is allowed from one state only.\<close>

definition move_app :: "app_state \<Rightarrow> app_state option \<Rightarrow> dev \<Rightarrow> string \<Rightarrow> app_host \<Rightarrow> app_host \<times> bool" where
  "move_app from to d i s =
     (let a = app_of s d i
      in if ah_state a \<noteq> Some from then (s, False)
         else (upd_app d i (if to = None then a\<lparr>ah_state := None, ah_path := []\<rparr> else a\<lparr>ah_state := to\<rparr>) s, True))"

definition activate :: "dev \<Rightarrow> string \<Rightarrow> app_host \<Rightarrow> app_host \<times> bool" where
  "activate = move_app DEPLOYED (Some ACTIVATED)"

definition start :: "dev \<Rightarrow> string \<Rightarrow> app_host \<Rightarrow> app_host \<times> bool" where
  "start = move_app ACTIVATED (Some RUNNING)"

definition stop :: "dev \<Rightarrow> string \<Rightarrow> app_host \<Rightarrow> app_host \<times> bool" where
  "stop = move_app RUNNING (Some ACTIVATED)"

definition deactivate :: "dev \<Rightarrow> string \<Rightarrow> app_host \<Rightarrow> app_host \<times> bool" where
  "deactivate = move_app ACTIVATED (Some DEPLOYED)"

definition uninstall :: "dev \<Rightarrow> string \<Rightarrow> app_host \<Rightarrow> app_host \<times> bool" where
  "uninstall = move_app DEPLOYED None"

subsection \<open>OpenFlow\<close>

record controller =
  ct_ip :: string
  ct_port :: int
  ct_vrf :: string
  ct_security :: string

record of_switch =
  os_pipeline :: int
  os_dpid :: string
  os_controllers :: "controller list"

record of_node =
  on_boot :: string
  on_feature :: bool
  on_switches :: "(int, of_switch) dict"

type_synonym openflow = "dev \<Rightarrow> of_node"

definition openflow_init :: openflow where
  "openflow_init = (\<lambda>_. \<lparr>on_boot = ''normal'', on_feature = False, on_switches = []\<rparr>)"

definition set_boot_mode :: "dev \<Rightarrow> string \<Rightarrow> openflow \<Rightarrow> openflow" where
  "set_boot_mode d bm s = s(d := (s d)\<lparr>on_boot := bm\<rparr>)"

definition enable_feature :: "dev \<Rightarrow> bool \<Rightarrow> openflow \<Rightarrow> openflow \<times> bool" where
  "enable_feature d on s =
     (if on \<and> on_boot (s d) \<noteq> ''openflow'' then (s, False)
      else (s(d := (s d)\<lparr>on_feature := on, on_switches := (if on then on_switches (s d) else [])\<rparr>), True))"

definition hex16 :: "nat \<Rightarrow> string" where
  "hex16 n = (let h = show_hex n in ''0x'' @ replicate (16 - length h) (CHR ''0'') @ h)"

definition add_switch :: "dev \<Rightarrow> int \<Rightarrow> int \<Rightarrow> openflow \<Rightarrow> openflow" where
  "add_switch d sid pipeline s =
     (let sw = (case dget (on_switches (s d)) sid of
                  Some sw \<Rightarrow> sw
                | None \<Rightarrow> \<lparr>os_pipeline = pipeline, os_dpid = hex16 (nat sid), os_controllers = []\<rparr>)
      in s(d := (s d)\<lparr>on_switches := dset (on_switches (s d)) sid (sw\<lparr>os_pipeline := pipeline\<rparr>)\<rparr>))"

definition other_controller :: "string \<Rightarrow> int \<Rightarrow> controller \<Rightarrow> bool" where
  "other_controller i p c \<longleftrightarrow> \<not> (ct_ip c = i \<and> ct_port c = p)"

definition change_switch :: "dev \<Rightarrow> int \<Rightarrow> (of_switch \<Rightarrow> of_switch) \<Rightarrow> openflow \<Rightarrow> openflow" where
  "change_switch d sid f s =
     (case dget (on_switches (s d)) sid of
        None \<Rightarrow> s
      | Some sw \<Rightarrow> s(d := (s d)\<lparr>on_switches := dset (on_switches (s d)) sid (f sw)\<rparr>))"

definition add_controller :: "dev \<Rightarrow> int \<Rightarrow> controller \<Rightarrow> openflow \<Rightarrow> openflow \<times> bool" where
  "add_controller d sid c s =
     (change_switch d sid (\<lambda>sw. sw\<lparr>os_controllers :=
        filter (other_controller (ct_ip c) (ct_port c)) (os_controllers sw) @ [c]\<rparr>) s,
      dget (on_switches (s d)) sid \<noteq> None)"

definition remove_controller :: "dev \<Rightarrow> int \<Rightarrow> string \<Rightarrow> int \<Rightarrow> openflow \<Rightarrow> openflow \<times> bool" where
  "remove_controller d sid i p s =
     (change_switch d sid (\<lambda>sw. sw\<lparr>os_controllers := filter (other_controller i p) (os_controllers sw)\<rparr>) s,
      case dget (on_switches (s d)) sid of
        None \<Rightarrow> False
      | Some sw \<Rightarrow> length (filter (other_controller i p) (os_controllers sw)) \<noteq> length (os_controllers sw))"

subsection \<open>Applets act in the order of their numbers\<close>

definition applet_ok :: "applet \<Rightarrow> bool" where
  "applet_ok a \<longleftrightarrow> sorted (List.map action_key (ap_actions a)) \<and> distinct (List.map ac_seq (ap_actions a)) \<and>
     distinct (List.map event_type (ap_events a))"

definition applets_ok :: "eem \<Rightarrow> bool" where
  "applets_ok s \<longleftrightarrow> (\<forall>d nm a. dget (ee_applets s d) nm = Some a \<longrightarrow> applet_ok a)"

datatype eem_op =
    AddApplet dev string bool
  | RemoveApplet dev string
  | AddEvent dev string event_spec
  | AddAction dev string action
  | AddPolicy dev string string
  | RemovePolicy dev string
  | RunApplet rat dev string
  | NotifySyslog "string \<Rightarrow> string \<Rightarrow> bool option" rat dev string

text \<open>What the engine's own state becomes; what the commands do to the device has no part in it.\<close>

fun eem_step :: "eem_op \<Rightarrow> eem \<Rightarrow> eem" where
  "eem_step (AddApplet d nm b) s = add_applet d nm b s"
| "eem_step (RemoveApplet d nm) s = fst (remove_applet d nm s)"
| "eem_step (AddEvent d nm e) s = fst (add_event d nm e s)"
| "eem_step (AddAction d nm x) s = fst (add_action d nm x s)"
| "eem_step (AddPolicy d f t) s = register_policy d f t s"
| "eem_step (RemovePolicy d f) s = fst (unregister_policy d f s)"
| "eem_step (RunApplet now d nm) s = fst (run_applet (\<lambda>c u. (u, [])) now d nm s ())"
| "eem_step (NotifySyslog re now d msg) s = fst (notify_syslog re (\<lambda>c u. (u, [])) now d msg s ())"

lemma run_applet_engine: "fst (run_applet exec now d nm s st) = fst (run_applet exec' now d nm s st')"
  by (simp add: run_applet_def split: option.split prod.split)

lemma notify_each_engine:
  "fst (notify_each re exec now d msg as s st) = fst (notify_each re exec' now d msg as s st')"
proof (induction as arbitrary: s st st')
  case (Cons x as)
  obtain nm a where "x = (nm, a)" by (cases x)
  then show ?case using Cons by (simp add: split_beta)
qed simp

lemma change_applet_ok:
  "applets_ok s \<Longrightarrow> (\<And>a. applet_ok a \<Longrightarrow> applet_ok (f a)) \<Longrightarrow> applets_ok (fst (change_applet d nm f s))"
  by (auto simp: applets_ok_def change_applet_def upd_applets_def split: option.split)

lemma put_action_ok: "applet_ok a \<Longrightarrow> applet_ok (put_action x a)"
proof -
  let ?xs = "filter (\<lambda>y. ac_seq y \<noteq> ac_seq x) (ap_actions a) @ [x]"
  assume "applet_ok a"
  then have "distinct (List.map ac_seq ?xs)" by (auto simp: applet_ok_def distinct_map_filter)
  moreover have "mset (sort_key action_key ?xs) = mset ?xs" by simp
  ultimately have "distinct (List.map ac_seq (sort_key action_key ?xs))"
    by (metis mset_map mset_eq_imp_distinct_iff)
  with \<open>applet_ok a\<close> show ?thesis by (simp add: applet_ok_def put_action_def)
qed

lemma put_event_ok: "applet_ok a \<Longrightarrow> applet_ok (put_event e a)"
  by (auto simp: applet_ok_def put_event_def distinct_map_filter)

lemma log_run_applets [simp]: "ee_applets (log_run d now nm ev s) = ee_applets s"
  by (simp add: log_run_def)

lemma hit_ok: "applets_ok s \<Longrightarrow> applets_ok (hit d nm s)"
  unfolding hit_def by (rule change_applet_ok) (simp_all add: applet_ok_def)

lemma log_hit_ok: "applets_ok s \<Longrightarrow> applets_ok (log_run d now ev nm (hit d nm' s))"
  using hit_ok [of s] by (simp add: applets_ok_def)

lemma notify_each_ok: "applets_ok s \<Longrightarrow> applets_ok (fst (notify_each re exec now d msg as s st))"
  by (induction re exec now d msg as s st rule: notify_each.induct) (auto simp: split_beta log_hit_ok)

lemma add_applet_ok: "applets_ok s \<Longrightarrow> applets_ok (add_applet d nm b s)"
  by (auto simp: applets_ok_def add_applet_def upd_applets_def Let_def applet_ok_def split: option.splits)

lemma run_applet_ok: "applets_ok s \<Longrightarrow> applets_ok (fst (run_applet exec now d nm s st))"
  by (simp add: run_applet_def log_hit_ok split: option.split prod.split)

interpretation eem_run: machine eem_step eem_init applets_ok
proof
  show "applets_ok eem_init" by (simp add: applets_ok_def eem_init_def)
  fix s x
  assume s: "applets_ok s"
  then show "applets_ok (eem_step x s)"
  proof (cases x)
    case (RemoveApplet d nm)
    with s show ?thesis by (auto simp: applets_ok_def remove_applet_def upd_applets_def)
  next
    case (AddPolicy d f t)
    with s show ?thesis by (simp add: applets_ok_def register_policy_def)
  next
    case (RemovePolicy d f)
    with s show ?thesis by (simp add: applets_ok_def unregister_policy_def)
  qed (simp_all add: add_applet_ok add_event_def add_action_def change_applet_ok put_event_ok put_action_ok
    run_applet_ok notify_syslog_def notify_each_ok)
qed

lemma run_actions_device: "fst (run_actions exec nm as st) = run_cli exec as st"
  by (induction as arbitrary: st) (auto simp: run_cli_def split_beta split: action_kind.split)

text \<open>Applets act in the order of their action numbers, not of their entry: whatever was configured
  before, an applet with \<open>event none\<close> that is run executes its commands one after the other by ascending
  number, each number once, and the run is recorded; the answers are what the rule engine made of them.\<close>

theorem applet_runs_in_order:
  fixes ops d nm
  defines "s \<equiv> fold eem_step ops eem_init"
  assumes "dget (ee_applets s d) nm = Some a" "EvNone \<in> set (ap_events a)"
  shows "\<exists>s' out. run_applet exec now d nm s st = (s', run_cli exec (ap_actions a) st, out, True) \<and>
    sorted (List.map action_key (ap_actions a)) \<and> distinct (List.map ac_seq (ap_actions a)) \<and>
    ee_history s' d = ee_history s d @ [(now, nm, ''none'')]"
proof -
  have "applet_ok a" using eem_run.run_inv [of ops] assms(2) by (auto simp: applets_ok_def s_def)
  moreover have "\<exists>e\<in>set (ap_events a). event_type e = ''none''" using assms(3) by force
  moreover have "ee_history (hit d nm s) = ee_history s"
    by (simp add: hit_def change_applet_def upd_applets_def split: option.split)
  ultimately show ?thesis
    using assms(2) by (simp add: run_applet_def applet_ok_def log_run_def run_actions_device split_beta)
qed

subsection \<open>The life of an application\<close>

datatype life_op =
    SetIox dev bool
  | Config dev string
  | RemoveApp dev string
  | Install dev string string
  | Activate dev string
  | Start dev string
  | Stop dev string
  | Deactivate dev string
  | Uninstall dev string

fun app_step :: "life_op \<Rightarrow> app_host \<Rightarrow> app_host" where
  "app_step (SetIox d b) s = set_iox d b s"
| "app_step (Config d i) s = config_app d i s"
| "app_step (RemoveApp d i) s = fst (remove_app d i s)"
| "app_step (Install d i p) s = fst (install d i p s)"
| "app_step (Activate d i) s = fst (activate d i s)"
| "app_step (Start d i) s = fst (start d i s)"
| "app_step (Stop d i) s = fst (stop d i s)"
| "app_step (Deactivate d i) s = fst (deactivate d i s)"
| "app_step (Uninstall d i) s = fst (uninstall d i s)"

text \<open>The diagram of the class comment, for one application: whether IOx is on, and the state.\<close>

definition life_view :: "dev \<Rightarrow> string \<Rightarrow> app_host \<Rightarrow> bool \<times> app_state option" where
  "life_view d i s = (ah_iox s d, ah_state (app_of s d i))"

definition edge :: "bool \<Rightarrow> app_state option \<Rightarrow> app_state option \<Rightarrow> bool \<times> app_state option \<Rightarrow> bool \<times> app_state option" where
  "edge mine from to v = (if mine \<and> snd v = from then (fst v, to) else v)"

fun life_edge :: "dev \<Rightarrow> string \<Rightarrow> life_op \<Rightarrow> bool \<times> app_state option \<Rightarrow> bool \<times> app_state option" where
  "life_edge d i (SetIox d' b) v = (if d' = d then (b, snd v) else v)"
| "life_edge d i (Config d' j) v = v"
| "life_edge d i (RemoveApp d' j) v = (if d' = d \<and> j = i then (fst v, None) else v)"
| "life_edge d i (Install d' j p) v = edge (d' = d \<and> j = i \<and> fst v) None (Some DEPLOYED) v"
| "life_edge d i (Activate d' j) v = edge (d' = d \<and> j = i) (Some DEPLOYED) (Some ACTIVATED) v"
| "life_edge d i (Start d' j) v = edge (d' = d \<and> j = i) (Some ACTIVATED) (Some RUNNING) v"
| "life_edge d i (Stop d' j) v = edge (d' = d \<and> j = i) (Some RUNNING) (Some ACTIVATED) v"
| "life_edge d i (Deactivate d' j) v = edge (d' = d \<and> j = i) (Some ACTIVATED) (Some DEPLOYED) v"
| "life_edge d i (Uninstall d' j) v = edge (d' = d \<and> j = i) (Some DEPLOYED) None v"

lemma app_of_upd [simp]:
  "app_of (upd_app d' j a s) d i = (if d' = d \<and> j = i then a else app_of s d i)"
  "ah_iox (upd_app d' j a s) = ah_iox s"
  by (simp_all add: app_of_def upd_app_def)

lemma life_view_move:
  "life_view d i (fst (move_app from to d' j s)) = edge (d' = d \<and> j = i) (Some from) to (life_view d i s)"
  by (auto simp: move_app_def life_view_def edge_def Let_def)

lemma life_view_step: "life_view d i (app_step x s) = life_edge d i x (life_view d i s)"
  by (cases x)
    (simp_all add: life_view_move activate_def start_def stop_def deactivate_def uninstall_def,
     auto simp: life_view_def set_iox_def config_app_def remove_app_def install_def app_of_def edge_def Let_def upd_app_def)

text \<open>The life cycle of every hosted application is the diagram of the class comment: each operation takes
  the edge the diagram has for it, for its own application alone, and does nothing where the diagram has
  none; the one way beside it is removing the configuration, which forgets the application in any state.\<close>

theorem lifecycle_refines:
  "life_view d i (fold app_step ops s) = fold (life_edge d i) ops (life_view d i s)"
  by (induction ops arbitrary: s) (simp_all add: life_view_step)

text \<open>What must have been done before an application is in a state.\<close>

definition backed :: "dev \<Rightarrow> string \<Rightarrow> life_op list \<Rightarrow> app_state option \<Rightarrow> bool" where
  "backed d i ops st = (case st of
      None \<Rightarrow> True
    | Some DEPLOYED \<Rightarrow> (\<exists>p. subseq [Install d i p] ops)
    | Some ACTIVATED \<Rightarrow> (\<exists>p. subseq [Install d i p, Activate d i] ops)
    | Some RUNNING \<Rightarrow> (\<exists>p. subseq [Install d i p, Activate d i, Start d i] ops))"

lemma subseq_snoc: "subseq xs ys \<Longrightarrow> subseq (xs @ [x]) (ys @ [x])"
  by (rule list_emb_append_mono) simp_all

lemma backed_more: "backed d i ops st \<Longrightarrow> backed d i (ops @ [x]) st"
  by (cases st) (auto simp: backed_def intro: list_emb_prefix split: app_state.splits)

lemma backed_forward:
  "backed d i (ops @ [Install d i p]) (Some DEPLOYED)"
  "backed d i ops (Some DEPLOYED) \<Longrightarrow> backed d i (ops @ [Activate d i]) (Some ACTIVATED)"
  "backed d i ops (Some ACTIVATED) \<Longrightarrow> backed d i (ops @ [Start d i]) (Some RUNNING)"
  using subseq_snoc [of "[]" ops "Install d i p"] subseq_snoc [of "[Install d i q]" ops "Activate d i" for q]
    subseq_snoc [of "[Install d i q, Activate d i]" ops "Start d i" for q]
  by (auto simp: backed_def)

lemma subseq_shorter: "subseq (xs @ ys) zs \<Longrightarrow> subseq xs zs"
  by (rule subseq_order.trans [of xs "xs @ ys"]) (auto intro: list_emb_prefix)

lemma backed_back:
  "backed d i ops (Some RUNNING) \<Longrightarrow> backed d i (ops @ [x]) (Some ACTIVATED)"
  "backed d i ops (Some ACTIVATED) \<Longrightarrow> backed d i (ops @ [x]) (Some DEPLOYED)"
  using subseq_shorter [of "[Install d i p, Activate d i]" "[Start d i]" ops for p]
    subseq_shorter [of "[Install d i p]" "[Activate d i]" ops for p]
  by (intro backed_more; fastforce simp: backed_def)+

lemma backed_edge:
  "backed d i ops (snd v) \<Longrightarrow> backed d i (ops @ [x]) (snd (life_edge d i x v))"
  by (cases x) (auto simp: edge_def backed_more backed_forward backed_back, auto simp: backed_def)

lemma life_backed: "backed d i ops (snd (life_view d i (fold app_step ops app_host_init)))"
  by (induction ops rule: rev_induct) (simp_all add: life_view_step backed_edge, simp add: backed_def life_view_def
    app_host_init_def app_of_def)

text \<open>An application that runs was installed, then activated, then started, in this order.\<close>

theorem running_was_started:
  assumes "ah_state (app_of (fold app_step ops app_host_init) d i) = Some RUNNING"
  shows "\<exists>p. subseq [Install d i p, Activate d i, Start d i] ops"
  using life_backed [of d i ops] assms by (simp add: backed_def life_view_def)

theorem running_was_started_witness:
  "\<exists>p. subseq [Install ''SW'' ''app'' p, Activate ''SW'' ''app'', Start ''SW'' ''app'']
     [SetIox ''SW'' True, Install ''SW'' ''app'' ''flash:a.tar'', Activate ''SW'' ''app'', Start ''SW'' ''app'']"
proof (rule running_was_started)
  let ?ops = "[SetIox ''SW'' True, Install ''SW'' ''app'' ''flash:a.tar'', Activate ''SW'' ''app'', Start ''SW'' ''app'']"
  have "life_view ''SW'' ''app'' (fold app_step ?ops app_host_init) = (True, Some RUNNING)"
    by (simp add: life_view_step edge_def del: app_step.simps) (simp add: life_view_def app_host_init_def app_of_def)
  then show "ah_state (app_of (fold app_step ?ops app_host_init) ''SW'' ''app'') = Some RUNNING"
    by (simp add: life_view_def)
qed

subsection \<open>OpenFlow\<close>

datatype of_op =
    BootMode dev string
  | Feature dev bool
  | AddSwitch dev int int
  | AddController dev int controller
  | RemoveController dev int string int

fun of_step :: "of_op \<Rightarrow> openflow \<Rightarrow> openflow" where
  "of_step (BootMode d m) s = set_boot_mode d m s"
| "of_step (Feature d b) s = fst (enable_feature d b s)"
| "of_step (AddSwitch d i p) s = add_switch d i p s"
| "of_step (AddController d i c) s = fst (add_controller d i c s)"
| "of_step (RemoveController d i a p) s = fst (remove_controller d i a p s)"

definition switch_ok :: "of_switch \<Rightarrow> bool" where
  "switch_ok sw \<longleftrightarrow> distinct (List.map (\<lambda>c. (ct_ip c, ct_port c)) (os_controllers sw))"

definition openflow_ok :: "openflow \<Rightarrow> bool" where
  "openflow_ok s \<longleftrightarrow> (\<forall>d i sw. dget (on_switches (s d)) i = Some sw \<longrightarrow> switch_ok sw)"

lemma change_switch_ok:
  "openflow_ok s \<Longrightarrow> (\<And>sw. switch_ok sw \<Longrightarrow> switch_ok (f sw)) \<Longrightarrow> openflow_ok (change_switch d i f s)"
  by (auto simp: openflow_ok_def change_switch_def split: option.split)

lemma controllers_filtered:
  "switch_ok sw \<Longrightarrow> switch_ok (sw\<lparr>os_controllers := filter P (os_controllers sw)\<rparr>)"
  by (simp add: switch_ok_def distinct_map_filter)

lemma controllers_added:
  "switch_ok sw \<Longrightarrow> switch_ok (sw\<lparr>os_controllers :=
     filter (other_controller (ct_ip c) (ct_port c)) (os_controllers sw) @ [c]\<rparr>)"
  by (auto simp: switch_ok_def distinct_map_filter other_controller_def)

interpretation openflow_run: machine of_step openflow_init openflow_ok
proof
  show "openflow_ok openflow_init" by (simp add: openflow_ok_def openflow_init_def)
  fix s x
  assume s: "openflow_ok s"
  show "openflow_ok (of_step x s)"
  proof (cases x)
    case (AddSwitch d i p)
    with s show ?thesis
      by (auto simp: openflow_ok_def add_switch_def Let_def switch_ok_def split: option.splits)
  qed (use s in \<open>auto simp: add_controller_def remove_controller_def change_switch_ok controllers_filtered
      controllers_added set_boot_mode_def enable_feature_def openflow_ok_def [of "_(_ := _)"]\<close>,
      simp_all add: openflow_ok_def)
qed

text \<open>Switches never list a controller twice (address and port), in any sequence of commands.\<close>

theorem controllers_unique:
  "openflow_ok (fold of_step ops openflow_init)"
  by (rule openflow_run.run_inv)

text \<open>The comment of the class asks for a reload in the OpenFlow boot mode; the code takes the stored mode at
  once, and keeps the feature when the mode goes back to normal.\<close>

lemma feature_without_mode:
  "on_feature (fold of_step [BootMode ''SW'' ''openflow'', Feature ''SW'' True, BootMode ''SW'' ''normal''] openflow_init ''SW'')"
  by (simp add: set_boot_mode_def enable_feature_def openflow_init_def)

end
